(* ===== verification/Prelude.thy ===== *)
theory Prelude
  imports Main
begin

text \<open>
  What the components share: the C integer constants, the truncation of C strings by
  \<open>snprintf\<close>, the scan of a fixed-size slot table for its first free entry, runs of a
  step function over a list of inputs, and the collections of facts that the component
  theories feed.

  Conventions of every theory of the development.
  \<^item> A C \<open>int\<close> that holds a number is an \<open>int\<close>; one that is only ever assigned 0 or 1
    and only tested for truth is a \<open>bool\<close>. A \<open>size_t\<close> that counts is a \<open>nat\<close>.
  \<^item> A file-scope \<open>static\<close> variable is a field of the component's record; every operation
    takes the record and returns the new one. A mutex makes an operation one step.
  \<^item> A pointer argument that the code tests against NULL is an \<open>option\<close>; the pointer to the
    component's own state is the record itself.
\<close>

named_theorems inv_simps \<open>unfolding rules of the component invariants\<close>
named_theorems step_simps \<open>equations of the operations used when stepping a component\<close>

subsection \<open>C integers and C strings\<close>

abbreviation INT_MAX :: int where
  "INT_MAX \<equiv> 2147483647"

abbreviation INT_MIN :: int where
  "INT_MIN \<equiv> - 2147483648"

text \<open>Division and remainder of C truncate towards zero.\<close>

definition cdiv :: "int \<Rightarrow> int \<Rightarrow> int" where
  "cdiv a b = sgn a * sgn b * (\<bar>a\<bar> div \<bar>b\<bar>)"

definition cmod :: "int \<Rightarrow> int \<Rightarrow> int" where
  "cmod a b = a - cdiv a b * b"

lemma cdiv_nonneg: "0 \<le> a \<Longrightarrow> 0 < b \<Longrightarrow> cdiv a b = a div b"
  by (cases "a = 0") (auto simp: cdiv_def)

lemma cmod_nonneg: "0 \<le> a \<Longrightarrow> 0 < b \<Longrightarrow> cmod a b = a mod b"
  by (simp add: cmod_def cdiv_nonneg minus_div_mult_eq_mod)

lemma cdiv_ge0: "0 \<le> a \<Longrightarrow> 0 < b \<Longrightarrow> 0 \<le> cdiv a b"
  by (simp add: cdiv_nonneg pos_imp_zdiv_nonneg_iff)

text \<open>\<open>snprintf(dst, n, "%s", s)\<close> keeps at most \<open>n - 1\<close> characters.\<close>

definition c_trunc :: "nat \<Rightarrow> string \<Rightarrow> string" where
  "c_trunc n s = take (n - 1) s"

lemma c_trunc_id: "length s < n \<Longrightarrow> c_trunc n s = s"
  by (simp add: c_trunc_def)

lemma length_c_trunc: "0 < n \<Longrightarrow> length (c_trunc n s) < n"
  by (simp add: c_trunc_def)

lemma c_trunc_idem [simp]: "c_trunc n (c_trunc n s) = c_trunc n s"
  by (simp add: c_trunc_def)

subsection \<open>The first entry of a table that satisfies a test\<close>

text \<open>\<open>for (i = 0; i < N; i++) if (P(tab[i])) ...; break\<close> looks for the least such index.\<close>

fun find_idx :: "('a \<Rightarrow> bool) \<Rightarrow> 'a list \<Rightarrow> nat option" where
  "find_idx P [] = None"
| "find_idx P (x # xs) = (if P x then Some 0 else map_option Suc (find_idx P xs))"

lemma find_idx_None: "find_idx P xs = None \<longleftrightarrow> (\<forall>x \<in> set xs. \<not> P x)"
  by (induction xs) auto

lemma find_idx_SomeD:
  "find_idx P xs = Some i \<Longrightarrow> i < length xs \<and> P (xs ! i) \<and> (\<forall>j < i. \<not> P (xs ! j))"
proof (induction xs arbitrary: i)
  case Nil
  then show ?case by simp
next
  case (Cons x xs)
  show ?case
  proof (cases "P x")
    case True
    with Cons.prems show ?thesis by simp
  next
    case False
    with Cons.prems obtain k where k: "find_idx P xs = Some k" "i = Suc k" by auto
    with Cons.IH[OF k(1)] False show ?thesis
      by (auto simp: nth_Cons split: nat.splits)
  qed
qed

lemma find_idx_less: "find_idx P xs = Some i \<Longrightarrow> i < length xs"
  by (simp add: find_idx_SomeD)

lemma find_idx_nth: "find_idx P xs = Some i \<Longrightarrow> P (xs ! i)"
  by (simp add: find_idx_SomeD)

lemma find_idx_replicate: "0 < n \<Longrightarrow> P x \<Longrightarrow> find_idx P (replicate n x) = Some 0"
  by (cases n) simp_all

lemma replicate_update_0: "0 < n \<Longrightarrow> (replicate n x)[0 := y] = y # replicate (n - 1) x"
  by (cases n) simp_all

subsection \<open>Runs of a step function\<close>

text \<open>A step consumes an input and returns the new state and an output.\<close>

fun run_steps :: "('s \<Rightarrow> 'i \<Rightarrow> 's \<times> 'o) \<Rightarrow> 's \<Rightarrow> 'i list \<Rightarrow> 's \<times> 'o list" where
  "run_steps f s [] = (s, [])"
| "run_steps f s (i # is) =
     (let (s1, x) = f s i; (s2, xs) = run_steps f s1 is in (s2, x # xs))"

lemma run_steps_append:
  "run_steps f s (xs @ ys) =
     (let (s1, os) = run_steps f s xs; (s2, ps) = run_steps f s1 ys in (s2, os @ ps))"
  by (induction xs arbitrary: s) (auto simp: Let_def split: prod.splits)

lemma run_steps_Cons:
  "fst (run_steps f s (i # is)) = fst (run_steps f (fst (f s i)) is)"
  "snd (run_steps f s (i # is)) = snd (f s i) # snd (run_steps f (fst (f s i)) is)"
  by (simp_all add: Let_def split_beta)

lemma run_steps_length: "length (snd (run_steps f s is)) = length is"
  by (induction "is" arbitrary: s) (simp_all add: run_steps_Cons del: run_steps.simps(2))

lemma run_steps_inv:
  assumes "\<And>s i. P s \<Longrightarrow> P (fst (f s i))" and "P s"
  shows "P (fst (run_steps f s is))"
  using assms(2)
proof (induction "is" arbitrary: s)
  case Nil
  then show ?case by simp
next
  case (Cons i "is")
  from assms(1)[OF Cons.prems] have "P (fst (run_steps f (fst (f s i)) is))"
    by (rule Cons.IH)
  then show ?case by (simp add: Let_def split_beta)
qed

end
