(* ===== verification/Tx_Activity.thy ===== *)
theory Tx_Activity
  imports Prelude
begin

text \<open>
  The fused transmit-activity detector (\<open>src/kerchunk_txactivity.c\<close>): per 20 ms tick it
  fuses the raw carrier bit of the HID device (sticky over "no data") with the DTMF
  decoder's lock, and reports the edges that the main loop turns into COR_ASSERT and
  COR_DROP. The lemmas show that the two edges alternate, that a drop is always preceded
  by the silence the configuration asks for, and that silence always ends in a drop.
\<close>

datatype txact_event = TXACT_NONE | TXACT_BEGIN | TXACT_END

record txactivity =
  end_silence_ticks :: int
  end_silence_dtmf_ticks :: int
  dtmf_grace_ticks :: int
  trust_cos_bit :: bool
  published :: bool
  silent_ticks :: int
  dtmf_seen_ago :: int
  cos_bit_sticky :: bool
  cos_flapped_session :: bool

text \<open>\<open>INT_MAX / 2\<close>: "very long ago".\<close>

definition LONG_AGO :: int where
  "LONG_AGO = INT_MAX div 2"

definition txactivity_init :: "int \<Rightarrow> int \<Rightarrow> int \<Rightarrow> int \<Rightarrow> txactivity" where
  "txactivity_init es esd grace trust =
     (let es1 = (if es < 0 then 0 else es);
          esd1 = (if esd < es1 then es1 else esd);
          grace1 = (if grace < 0 then 0 else grace)
      in \<lparr>end_silence_ticks = es1, end_silence_dtmf_ticks = esd1,
          dtmf_grace_ticks = grace1, trust_cos_bit = (trust \<noteq> 0),
          published = False, silent_ticks = 0, dtmf_seen_ago = LONG_AGO,
          cos_bit_sticky = False, cos_flapped_session = False\<rparr>)"

definition active_silence_ticks :: "txactivity \<Rightarrow> int" where
  "active_silence_ticks s =
     (if dtmf_seen_ago s < dtmf_grace_ticks s \<or> cos_flapped_session s
      then end_silence_dtmf_ticks s else end_silence_ticks s)"

text \<open>
  One tick, in the order of the code: the sticky carrier bit, the flap flag, the age of the
  last DTMF tone, then the presence decision. The first half is the part of the state that
  does not depend on the decision.
\<close>

definition txact_cos :: "txactivity \<Rightarrow> int \<Rightarrow> txactivity" where
  "txact_cos s cos_raw =
     s\<lparr>cos_bit_sticky :=
         (if trust_cos_bit s
          then (if cos_raw = 0 \<or> cos_raw = 1 then cos_raw = 1 else cos_bit_sticky s)
          else False)\<rparr>"

definition txact_flap :: "bool \<Rightarrow> txactivity \<Rightarrow> txactivity" where
  "txact_flap prev s =
     (if published s \<and> \<not> prev \<and> cos_bit_sticky s
      then s\<lparr>cos_flapped_session := True\<rparr> else s)"

definition txact_dtmf :: "bool \<Rightarrow> txactivity \<Rightarrow> txactivity" where
  "txact_dtmf dtmf s =
     (if dtmf then s\<lparr>dtmf_seen_ago := 0\<rparr>
      else if dtmf_seen_ago s < LONG_AGO then s\<lparr>dtmf_seen_ago := dtmf_seen_ago s + 1\<rparr>
      else s)"

definition txact_inputs :: "txactivity \<Rightarrow> int \<Rightarrow> bool \<Rightarrow> txactivity" where
  "txact_inputs s cos_raw dtmf = txact_dtmf dtmf (txact_flap (cos_bit_sticky s) (txact_cos s cos_raw))"

definition txactivity_tick :: "txactivity \<Rightarrow> int \<Rightarrow> bool \<Rightarrow> txactivity \<times> txact_event" where
  "txactivity_tick s0 cos_raw dtmf =
     (let s = txact_inputs s0 cos_raw dtmf;
          present = (cos_bit_sticky s \<or> dtmf);
          active = active_silence_ticks s
      in if present then
           (let s1 = s\<lparr>silent_ticks := 0\<rparr>
            in if \<not> published s1 then (s1\<lparr>published := True\<rparr>, TXACT_BEGIN)
               else (s1, TXACT_NONE))
         else if published s then
           (let s1 = s\<lparr>silent_ticks := silent_ticks s + 1\<rparr>
            in if silent_ticks s1 \<ge> active
               then (s1\<lparr>published := False, silent_ticks := 0, cos_flapped_session := False\<rparr>,
                     TXACT_END)
               else (s1, TXACT_NONE))
         else (s, TXACT_NONE))"

text \<open>A run of the detector over the ticks' inputs \<open>(cos_raw, dtmf_active)\<close>.\<close>

definition txact_step :: "txactivity \<Rightarrow> int \<times> bool \<Rightarrow> txactivity \<times> txact_event" where
  "txact_step s i = txactivity_tick s (fst i) (snd i)"

abbreviation txact_run :: "txactivity \<Rightarrow> (int \<times> bool) list \<Rightarrow> txactivity \<times> txact_event list" where
  "txact_run \<equiv> run_steps txact_step"


subsection \<open>The invariant of the detector\<close>

definition txact_inv :: "txactivity \<Rightarrow> bool" where
  "txact_inv s \<longleftrightarrow>
     0 \<le> end_silence_ticks s \<and> end_silence_ticks s \<le> end_silence_dtmf_ticks s \<and>
     0 \<le> dtmf_grace_ticks s \<and> 0 \<le> silent_ticks s \<and>
     0 \<le> dtmf_seen_ago s \<and> dtmf_seen_ago s \<le> LONG_AGO \<and>
     (\<not> published s \<longrightarrow> silent_ticks s = 0 \<and> \<not> cos_flapped_session s) \<and>
     (\<not> trust_cos_bit s \<longrightarrow> \<not> cos_bit_sticky s) \<and>
     (silent_ticks s = 0 \<or> silent_ticks s < end_silence_dtmf_ticks s)"

lemma txact_inputs_sel [simp]:
  "end_silence_ticks (txact_inputs s c d) = end_silence_ticks s"
  "end_silence_dtmf_ticks (txact_inputs s c d) = end_silence_dtmf_ticks s"
  "dtmf_grace_ticks (txact_inputs s c d) = dtmf_grace_ticks s"
  "trust_cos_bit (txact_inputs s c d) = trust_cos_bit s"
  "published (txact_inputs s c d) = published s"
  "silent_ticks (txact_inputs s c d) = silent_ticks s"
  "cos_bit_sticky (txact_inputs s c d) =
     (trust_cos_bit s \<and> (c = 1 \<or> c \<noteq> 0 \<and> cos_bit_sticky s))"
  "cos_flapped_session (txact_inputs s c d) =
     (cos_flapped_session s \<or>
      published s \<and> \<not> cos_bit_sticky s \<and> trust_cos_bit s \<and> c = 1)"
  "dtmf_seen_ago (txact_inputs s c d) =
     (if d then 0 else if dtmf_seen_ago s < LONG_AGO then dtmf_seen_ago s + 1
      else dtmf_seen_ago s)"
  by (auto simp: txact_inputs_def txact_cos_def txact_flap_def txact_dtmf_def)

lemmas txact_tick_defs [step_simps] =
  txactivity_tick_def active_silence_ticks_def Let_def

lemma txact_inv_init: "txact_inv (txactivity_init es esd grace trust)"
  by (simp add: txact_inv_def txactivity_init_def LONG_AGO_def)

lemma txact_config_tick [simp]:
  "end_silence_ticks (fst (txactivity_tick s c d)) = end_silence_ticks s"
  "end_silence_dtmf_ticks (fst (txactivity_tick s c d)) = end_silence_dtmf_ticks s"
  "dtmf_grace_ticks (fst (txactivity_tick s c d)) = dtmf_grace_ticks s"
  "trust_cos_bit (fst (txactivity_tick s c d)) = trust_cos_bit s"
  by (simp_all add: txactivity_tick_def Let_def)

lemma txact_seen_tick [simp]:
  "dtmf_seen_ago (fst (txactivity_tick s c d)) = dtmf_seen_ago (txact_inputs s c d)"
  "cos_bit_sticky (fst (txactivity_tick s c d)) = cos_bit_sticky (txact_inputs s c d)"
  by (simp_all add: txactivity_tick_def Let_def del: txact_inputs_sel(7-9))

text \<open>One tick, case by case.\<close>

lemma tick_present:
  assumes "(cos_bit_sticky (txact_inputs s c d) \<or> d) = True"
  shows "txactivity_tick s c d =
    ((txact_inputs s c d)\<lparr>silent_ticks := 0, published := True\<rparr>,
     if published s then TXACT_NONE else TXACT_BEGIN)"
  by (simp only: txactivity_tick_def Let_def assms if_True) simp

lemma tick_quiet:
  assumes "(cos_bit_sticky (txact_inputs s c d) \<or> d) = False"
  shows "txactivity_tick s c d =
    (if published s then
       (if active_silence_ticks (txact_inputs s c d) \<le> silent_ticks s + 1
        then ((txact_inputs s c d)\<lparr>published := False, silent_ticks := 0,
                cos_flapped_session := False\<rparr>, TXACT_END)
        else ((txact_inputs s c d)\<lparr>silent_ticks := silent_ticks s + 1\<rparr>, TXACT_NONE))
     else (txact_inputs s c d, TXACT_NONE))"
  by (simp only: txactivity_tick_def Let_def assms if_False) simp

text \<open>Reasoning about a tick splits on presence once and for all.\<close>

lemma tick_cases [case_names present quiet]:
  obtains "(cos_bit_sticky (txact_inputs s c d) \<or> d) = True"
  | "(cos_bit_sticky (txact_inputs s c d) \<or> d) = False" "\<not> d" "trust_cos_bit s \<Longrightarrow> c \<noteq> 1"
  by (cases "cos_bit_sticky (txact_inputs s c d) \<or> d") auto

lemma txact_inv_inputs: "txact_inv s \<Longrightarrow> txact_inv ((txact_inputs s c d)\<lparr>silent_ticks := 0, published := True\<rparr>)"
  by (auto simp: txact_inv_def LONG_AGO_def)

lemma txact_inv_tick:
  assumes "txact_inv s"
  shows "txact_inv (fst (txactivity_tick s c d))"
proof (cases s c d rule: tick_cases)
  case present
  then show ?thesis using txact_inv_inputs[OF assms] by (simp only: tick_present fst_conv)
next
  case quiet
  let ?p = "txact_inputs s c d"
  have "active_silence_ticks ?p \<le> end_silence_dtmf_ticks s"
    using assms by (simp add: active_silence_ticks_def txact_inv_def)
  moreover from quiet(2) have "d = False" by simp
  ultimately show ?thesis
    using assms quiet(3) unfolding tick_quiet[OF quiet(1)] txact_inv_def
    by (auto simp: LONG_AGO_def)
qed

lemma txact_inv_run: "txact_inv s \<Longrightarrow> txact_inv (fst (txact_run s is))"
  by (rule run_steps_inv) (simp_all add: txact_step_def txact_inv_tick)

lemma txact_config_run [simp]:
  "end_silence_ticks (fst (txact_run s is)) = end_silence_ticks s"
  "end_silence_dtmf_ticks (fst (txact_run s is)) = end_silence_dtmf_ticks s"
  "dtmf_grace_ticks (fst (txact_run s is)) = dtmf_grace_ticks s"
  "trust_cos_bit (fst (txact_run s is)) = trust_cos_bit s"
  by (induction "is" arbitrary: s)
     (simp_all add: run_steps_Cons txact_step_def del: run_steps.simps(2))

text \<open>What one tick reports, read off the published flag before and after.\<close>

lemma tick_event_published:
  "snd (txactivity_tick s c d) = TXACT_BEGIN \<Longrightarrow>
     \<not> published s \<and> published (fst (txactivity_tick s c d))"
  "snd (txactivity_tick s c d) = TXACT_END \<Longrightarrow>
     published s \<and> \<not> published (fst (txactivity_tick s c d))"
  "snd (txactivity_tick s c d) = TXACT_NONE \<Longrightarrow>
     published (fst (txactivity_tick s c d)) = published s"
  by (cases s c d rule: tick_cases, simp_all only: tick_present tick_quiet split: if_splits, simp_all)+

subsection \<open>Edges alternate\<close>

text \<open>The reference: BEGIN only while nothing is published, END only while something is.\<close>

fun edges_ok :: "bool \<Rightarrow> txact_event list \<Rightarrow> bool" where
  "edges_ok p [] = True"
| "edges_ok p (TXACT_NONE # es) = edges_ok p es"
| "edges_ok p (TXACT_BEGIN # es) = (\<not> p \<and> edges_ok True es)"
| "edges_ok p (TXACT_END # es) = (p \<and> edges_ok False es)"

text \<open>
  COR_ASSERT and COR_DROP strictly alternate: over any sequence of readings, from any
  state, the detector never reports two begins without an end between them, nor an end
  that no begin opened.
\<close>

theorem txactivity_edges_alternate: "edges_ok (published s) (snd (txact_run s is))"
proof (induction "is" arbitrary: s)
  case Nil
  show ?case by simp
next
  case (Cons i "is")
  let ?r = "txactivity_tick s (fst i) (snd i)"
  from Cons.IH[of "fst ?r"] show ?case
    using tick_event_published[of s "fst i" "snd i"]
    by (cases "snd ?r") (auto simp: run_steps_Cons txact_step_def simp del: run_steps.simps(2))
qed

subsection \<open>A drop is preceded by the configured silence\<close>

text \<open>A tick is quiet when no tone is locked and the carrier reads anything but 1.\<close>

definition quiet_input :: "int \<times> bool \<Rightarrow> bool" where
  "quiet_input i \<longleftrightarrow> \<not> snd i \<and> fst i \<noteq> 1"

definition quiet_suffix :: "bool \<Rightarrow> (int \<times> bool) list \<Rightarrow> nat" where
  "quiet_suffix trust is =
     length (takeWhile (\<lambda>i. if trust then quiet_input i else \<not> snd i) (rev is))"

lemma quiet_suffix_snoc:
  "quiet_suffix trust (is @ [i]) =
     (if (if trust then quiet_input i else \<not> snd i) then Suc (quiet_suffix trust is) else 0)"
  by (simp add: quiet_suffix_def)

lemma txact_run_snoc:
  "fst (txact_run s (is @ [i])) = fst (txactivity_tick (fst (txact_run s is)) (fst i) (snd i))"
  "snd (txact_run s (is @ [i])) =
     snd (txact_run s is) @ [snd (txactivity_tick (fst (txact_run s is)) (fst i) (snd i))]"
  by (simp_all add: run_steps_append txact_step_def Let_def split_beta)

text \<open>The silence counter never runs ahead of the quiet ticks actually seen.\<close>

lemma silent_le_suffix:
  assumes "silent_ticks s = 0"
  shows "silent_ticks (fst (txact_run s is)) \<le> int (quiet_suffix (trust_cos_bit s) is)"
proof (induction "is" rule: rev_induct)
  case Nil
  with assms show ?case by (simp add: quiet_suffix_def)
next
  case (snoc i "is")
  let ?s = "fst (txact_run s is)"
  have tr: "trust_cos_bit ?s = trust_cos_bit s" by simp
  show ?case
  proof (cases ?s "fst i" "snd i" rule: tick_cases)
    case present
    then show ?thesis by (simp only: txact_run_snoc tick_present) simp
  next
    case quiet
    then have "if trust_cos_bit s then quiet_input i else \<not> snd i"
      by (simp add: quiet_input_def)
    then have q: "quiet_suffix (trust_cos_bit s) (is @ [i])
        = Suc (quiet_suffix (trust_cos_bit s) is)"
      by (simp add: quiet_suffix_snoc split: if_splits)
    from snoc.IH show ?thesis
      by (simp only: txact_run_snoc tick_quiet[OF quiet(1)] q) (simp split: if_split)
  qed
qed

lemma end_tick:
  assumes "snd (txactivity_tick s c d) = TXACT_END"
  shows "active_silence_ticks (txact_inputs s c d) \<le> silent_ticks s + 1"
    and "\<not> d" and "trust_cos_bit s \<Longrightarrow> c \<noteq> 1"
proof -
  have "(cos_bit_sticky (txact_inputs s c d) \<or> d) = False \<and> \<not> d \<and> (trust_cos_bit s \<longrightarrow> c \<noteq> 1)"
    using assms by (cases s c d rule: tick_cases) (simp_all only: tick_present snd_conv split: if_splits, auto)
  then have n: "(cos_bit_sticky (txact_inputs s c d) \<or> d) = False"
    and "\<not> d" "trust_cos_bit s \<longrightarrow> c \<noteq> 1" by blast+
  then show "\<not> d" and "trust_cos_bit s \<Longrightarrow> c \<noteq> 1" by auto
  from assms show "active_silence_ticks (txact_inputs s c d) \<le> silent_ticks s + 1"
    unfolding tick_quiet[OF n] by (simp split: if_splits)
qed

text \<open>
  A transmission is declared over only after real silence: when the last tick of a run
  from a fresh detector reports END, the run ends in a stretch of quiet ticks (no tone, and
  no carrier reading of 1 if the carrier is trusted) at least as long as the configured
  silence, and at least as long as the DTMF-patient silence if the session had flapped or a
  tone was heard within the grace window.
\<close>

theorem txactivity_end_after_silence:
  assumes "snd (txactivity_tick (fst (txact_run (txactivity_init es esd grace trust) is)) c d)
             = TXACT_END"
  defines "s \<equiv> fst (txact_run (txactivity_init es esd grace trust) is)"
  defines "q \<equiv> int (quiet_suffix (trust \<noteq> 0) (is @ [(c, d)]))"
  shows "1 \<le> q \<and> es \<le> q \<and>
         ((cos_flapped_session s \<or> dtmf_seen_ago s + 1 < grace) \<longrightarrow> esd \<le> q)"
proof -
  let ?i = "txactivity_init es esd grace trust"
  have ini: "trust_cos_bit ?i = (trust \<noteq> 0)" "silent_ticks ?i = 0"
    "end_silence_ticks ?i = max 0 es" "end_silence_dtmf_ticks ?i = max esd (max 0 es)"
    "dtmf_grace_ticks ?i = max 0 grace"
    by (simp_all add: txactivity_init_def Let_def)
  note e = end_tick[OF assms(1), folded s_def]
  have cfg: "trust_cos_bit s = (trust \<noteq> 0)" "end_silence_ticks s = max 0 es"
    "end_silence_dtmf_ticks s = max esd (max 0 es)" "dtmf_grace_ticks s = max 0 grace"
    by (simp_all add: s_def ini)
  have q: "q = int (quiet_suffix (trust \<noteq> 0) is) + 1"
    using e(2,3) cfg(1) by (auto simp: q_def quiet_suffix_snoc quiet_input_def)
  have le: "silent_ticks s + 1 \<le> q"
    using silent_le_suffix[OF ini(2), of "is"] by (simp add: s_def q ini)
  have inv: "txact_inv s"
    unfolding s_def by (rule txact_inv_run[OF txact_inv_init])
  have "1 \<le> q" by (simp add: q)
  moreover have "es \<le> q \<and> ((cos_flapped_session s \<or> dtmf_seen_ago s + 1 < grace) \<longrightarrow> esd \<le> q)"
    using e(1,2) le cfg inv
    by (auto simp: active_silence_ticks_def txact_inv_def split: if_splits)
  ultimately show ?thesis by simp
qed

theorem txactivity_end_after_silence_witness:
  "snd (txactivity_tick (fst (txact_run (txactivity_init 2 5 10 1) [(1, False), (0, False)])) 0 False)
     = TXACT_END \<and>
   2 \<le> int (quiet_suffix True ([(1, False), (0, False)] @ [(0, False)]))"
proof -
  have e: "snd (txactivity_tick (fst (txact_run (txactivity_init 2 5 10 1)
             [(1, False), (0, False)])) 0 False) = TXACT_END"
    by code_simp
  from txactivity_end_after_silence[OF e] e show ?thesis by simp
qed

subsection \<open>Silence always ends the session\<close>

lemma quiet_tick:
  assumes "txact_inv s" and "published s"
  shows "snd (txactivity_tick s 0 False) = TXACT_END \<or>
         published (fst (txactivity_tick s 0 False)) \<and>
         silent_ticks (fst (txactivity_tick s 0 False)) = silent_ticks s + 1"
proof -
  have n: "(cos_bit_sticky (txact_inputs s 0 False) \<or> False) = False" by simp
  show ?thesis using assms(2) by (simp add: tick_quiet[OF n] split: if_split)
qed

text \<open>
  The detector cannot hang in the published state: from any published state that
  satisfies the invariant, a stretch of quiet ticks as long as the DTMF-patient silence
  (and at least one) contains an END.
\<close>

theorem txactivity_silence_ends:
  assumes "txact_inv s" and "published s"
    and "1 \<le> n" and "end_silence_dtmf_ticks s \<le> int n"
  shows "TXACT_END \<in> set (snd (txact_run s (replicate n (0, False))))"
proof -
  have "\<lbrakk>txact_inv s; published s; 1 \<le> n; end_silence_dtmf_ticks s - silent_ticks s \<le> int n\<rbrakk>
    \<Longrightarrow> TXACT_END \<in> set (snd (txact_run s (replicate n (0, False))))" for s n
  proof (induction n arbitrary: s)
    case 0
    then show ?case by simp
  next
    case (Suc n)
    let ?t = "txactivity_tick s 0 False"
    show ?case
    proof (cases "snd ?t = TXACT_END")
      case True
      then show ?thesis by (simp add: run_steps_Cons txact_step_def del: run_steps.simps(2))
    next
      case False
      with quiet_tick[OF Suc.prems(1,2)] have p: "published (fst ?t)"
        and t: "silent_ticks (fst ?t) = silent_ticks s + 1" by auto
      have i: "txact_inv (fst ?t)" using Suc.prems(1) by (rule txact_inv_tick)
      then have b: "silent_ticks (fst ?t) < end_silence_dtmf_ticks s"
        using t Suc.prems(1) by (auto simp: txact_inv_def)
      then have "TXACT_END \<in> set (snd (txact_run (fst ?t) (replicate n (0, False))))"
        using Suc.prems(4) t by (intro Suc.IH[OF i p]) auto
      then show ?thesis by (simp add: run_steps_Cons del: run_steps.simps(2)) (simp add: txact_step_def)
    qed
  qed
  moreover have "end_silence_dtmf_ticks s - silent_ticks s \<le> int n"
    using assms(1,4) by (simp add: txact_inv_def)
  ultimately show ?thesis using assms by blast
qed

theorem txactivity_silence_ends_witness:
  "TXACT_END \<in> set (snd (txact_run (fst (txactivity_tick (txactivity_init 15 50 150 1) 1 False))
     (replicate 50 (0, False))))"
proof (rule txactivity_silence_ends)
  show "txact_inv (fst (txactivity_tick (txactivity_init 15 50 150 1) 1 False))"
    by (rule txact_inv_tick[OF txact_inv_init])
qed (code_simp, simp, code_simp)

end
