(* ===== verification/Tx_State.thy ===== *)
theory Tx_State
  imports Prelude
begin

text \<open>
  The label of the transmit state machine (\<open>src/kerchunk_tx_state.c\<close>), a pure function of
  what the audio thread samples every tick, and its wire names.
\<close>

datatype tx_state = TX_IDLE | TX_RELAY | TX_DELAY | TX_DRAIN | TX_TAIL | TX_HOLD

record tx_state_inputs =
  i_cor_active :: bool
  i_software_relay :: bool
  i_queue_ptt :: bool
  i_tx_delay_rem :: int
  i_tx_tail_rem :: int
  i_relay_drain :: int
  i_ptt_held :: bool

text \<open>The enumeration's numbers, as events and \<open>(int)s\<close> casts see them.\<close>

fun tx_state_num :: "tx_state \<Rightarrow> int" where
  "tx_state_num TX_IDLE = 0"
| "tx_state_num TX_RELAY = 1"
| "tx_state_num TX_DELAY = 2"
| "tx_state_num TX_DRAIN = 3"
| "tx_state_num TX_TAIL = 4"
| "tx_state_num TX_HOLD = 5"

definition tx_names :: "string list" where
  "tx_names = [''TX_IDLE'', ''TX_RELAY'', ''TX_DELAY'', ''TX_DRAIN'', ''TX_TAIL'', ''TX_HOLD'']"

definition tx_state_name :: "int \<Rightarrow> string" where
  "tx_state_name s =
     (if s < 0 \<or> nat s \<ge> length tx_names then ''TX_UNKNOWN'' else tx_names ! nat s)"

definition tx_state_compute :: "tx_state_inputs option \<Rightarrow> tx_state" where
  "tx_state_compute inp =
     (case inp of None \<Rightarrow> TX_IDLE
      | Some i \<Rightarrow>
          if i_cor_active i \<and> i_software_relay i then TX_RELAY
          else if i_relay_drain i > 0 then TX_TAIL
          else if i_queue_ptt i then
            (if i_tx_delay_rem i > 0 then TX_DELAY
             else if i_tx_tail_rem i \<ge> 0 then TX_TAIL
             else TX_DRAIN)
          else if i_ptt_held i then TX_HOLD
          else TX_IDLE)"

lemma tx_state_name_num: "tx_state_name (tx_state_num s) \<noteq> ''TX_UNKNOWN''"
  by (cases s) (simp_all add: tx_state_name_def tx_names_def)

lemma tx_state_name_inj: "tx_state_name (tx_state_num s) = tx_state_name (tx_state_num t) \<Longrightarrow> s = t"
  by (cases s; cases t) (simp_all add: tx_state_name_def tx_names_def)

end
