(* ===== verification/Audio_Tick.thy ===== *)
theory Audio_Tick
  imports Prelude "HOL-Library.Word"
begin

text \<open>
  The two pure halves of the audio thread's 20 ms tick (\<open>src/kerchunk_audio_tick.c\<close>): the
  receive half (decoder gating, DTMF edges, relay drain window) and the transmit half
  (key-up delay, queue drain, tail, release), which turns the sampled inputs into an
  ordered list of actions for the shell. The DTMF decoder of libplcode is a parameter:
  a reset and a process function on its state.
\<close>

record audio_state =
  as_software_relay :: bool
  tx_delay_ms :: int
  tx_tail_ms :: int
  relay_drain_ms :: int
  relay_drain :: int
  relay_was_active :: bool
  queue_ptt :: bool
  queue_fired_drain :: bool
  queue_drain_start_us :: "64 word"
  tx_delay_rem :: int
  tx_tail_rem :: int
  ptt_hold_ticks :: int

subsection \<open>The receive half\<close>

record dtmf_result =
  detected :: bool
  digit :: char

datatype rx_event = RX_NO_EVENT | RX_DTMF_DIGIT char | RX_DTMF_END

record rx_out =
  out_dtmf_active :: bool
  out_event :: rx_event
  out_relay_write :: bool

text \<open>The mean power of the frame, as the early stop computes it.\<close>

definition frame_power :: "int list \<Rightarrow> int \<Rightarrow> int" where
  "frame_power frame nread = cdiv (sum_list (map (\<lambda>x. x * x) (take (nat nread) frame))) nread"

text \<open>
  Steps 1 and 2: reset on the edge into receiving, then the decoder runs only while
  receiving or draining; otherwise a tone still held is ended.
\<close>

definition rx_decode ::
  "('d \<Rightarrow> 'd) \<Rightarrow> ('d \<Rightarrow> int list \<Rightarrow> 'd \<times> dtmf_result) \<Rightarrow> audio_state \<Rightarrow> bool \<Rightarrow> 'd option \<Rightarrow>
   int list option \<Rightarrow> int \<Rightarrow> bool \<Rightarrow> bool \<times> 'd option \<times> bool \<times> rx_event" where
  "rx_decode dec_reset dec_process s prev_dtmf dec frame nread relay_active =
     (let dec1 = (if relay_active \<and> \<not> relay_was_active s then map_option dec_reset dec else dec)
      in case (dec1, frame) of
           (Some d, Some f) \<Rightarrow>
             if (relay_active \<or> relay_drain s > 0) \<and> nread > 0 then
               (let (d', res) = dec_process d (take (nat nread) f)
                in (detected res, Some d', detected res,
                    if detected res \<and> \<not> prev_dtmf then RX_DTMF_DIGIT (digit res)
                    else if \<not> detected res \<and> prev_dtmf then RX_DTMF_END
                    else RX_NO_EVENT))
             else (False, dec1, False, if prev_dtmf then RX_DTMF_END else RX_NO_EVENT)
         | _ \<Rightarrow> (False, dec1, False, if prev_dtmf then RX_DTMF_END else RX_NO_EVENT))"

text \<open>Steps 3 and 4: the edge out of receiving starts the drain window.\<close>

definition rx_edge :: "audio_state \<Rightarrow> bool \<Rightarrow> int \<Rightarrow> audio_state" where
  "rx_edge s relay_active sample_rate =
     (if as_software_relay s \<and> relay_was_active s \<and> \<not> relay_active
      then s\<lparr>relay_drain := cdiv (sample_rate * relay_drain_ms s) 1000\<rparr>
      else s)\<lparr>relay_was_active := relay_active\<rparr>"

text \<open>Step 5: the relay decision with the countdown and its early stop.\<close>

definition rx_relay ::
  "audio_state \<Rightarrow> int list option \<Rightarrow> int \<Rightarrow> bool \<Rightarrow> bool \<Rightarrow> nat \<Rightarrow> audio_state \<times> bool" where
  "rx_relay s frame nread relay_active ptt_held play_writable =
     (let do_relay = (as_software_relay s \<and> ptt_held \<and> \<not> queue_ptt s \<and>
                      (relay_active \<or> relay_drain s > 0))
      in case frame of
           None \<Rightarrow> (s, False)
         | Some f \<Rightarrow>
             if do_relay \<and> nread > 0 \<and> int play_writable \<ge> nread then
               ((if \<not> relay_active \<and> relay_drain s > 0
                 then s\<lparr>relay_drain := (if frame_power f nread < 200 * 200 then 0
                                        else relay_drain s - nread)\<rparr>
                 else s), True)
             else (s, False))"

definition audio_tick_rx ::
  "('d \<Rightarrow> 'd) \<Rightarrow> ('d \<Rightarrow> int list \<Rightarrow> 'd \<times> dtmf_result) \<Rightarrow>
   audio_state \<Rightarrow> bool \<Rightarrow> 'd option \<Rightarrow> int list option \<Rightarrow> int \<Rightarrow> bool \<Rightarrow> bool \<Rightarrow> nat \<Rightarrow> int \<Rightarrow>
   audio_state \<times> bool \<times> 'd option \<times> rx_out" where
  "audio_tick_rx dec_reset dec_process s prev_dtmf dec frame nread relay_active ptt_held
       play_writable sample_rate =
     (let (prev', dec', active, ev) =
            rx_decode dec_reset dec_process s prev_dtmf dec frame nread relay_active;
          s1 = rx_edge s relay_active sample_rate;
          (s2, wr) = rx_relay s1 frame nread relay_active ptt_held play_writable
      in (s2, prev', dec',
          \<lparr>out_dtmf_active = active, out_event = ev, out_relay_write = wr\<rparr>))"

subsection \<open>The transmit half\<close>

record tx_in =
  in_relay_active :: bool
  in_ptt_held :: bool
  in_queue_depth :: int
  in_queue_is_draining :: bool
  in_play_writable :: nat
  in_play_pending :: nat
  in_now_us :: "64 word"

datatype tx_action =
    Assert_PTT
  | Fire_Drain
  | Fire_Complete "32 word"
  | Silence int
  | Drain int
  | Release_PTT

abbreviation TX_ACTIONS_MAX :: nat where
  "TX_ACTIONS_MAX \<equiv> 8"

definition push_action :: "tx_action list \<Rightarrow> tx_action \<Rightarrow> tx_action list" where
  "push_action acts a = (if length acts \<ge> TX_ACTIONS_MAX then acts else acts @ [a])"

text \<open>
  The silence loop of the delay and of the tail: whole frames while samples remain, the ring
  has room for a frame and the action list is not full.
\<close>

function feed_silence :: "int \<Rightarrow> int \<Rightarrow> nat \<Rightarrow> tx_action list \<Rightarrow> int \<times> nat \<times> tx_action list" where
  "feed_silence frame_samples rem play_w acts =
     (if rem > 0 \<and> int play_w \<ge> frame_samples \<and> length acts < TX_ACTIONS_MAX
      then (let sn = (if rem < frame_samples then rem else frame_samples)
            in feed_silence frame_samples (rem - sn) (play_w - nat sn) (push_action acts (Silence sn)))
      else (rem, play_w, acts))"
  by pat_completeness auto
termination
  by (relation "measure (\<lambda>(f, r, w, a). TX_ACTIONS_MAX - length a)") (auto simp: push_action_def)

declare feed_silence.simps [simp del]

definition tx_paused :: "audio_state \<Rightarrow> tx_in \<Rightarrow> bool" where
  "tx_paused s i \<longleftrightarrow> \<not> queue_ptt s \<and> (in_relay_active i \<or> relay_drain s > 0)"

definition tx_has_audio :: "tx_in \<Rightarrow> bool" where
  "tx_has_audio i \<longleftrightarrow> in_queue_depth i > 0 \<or> in_queue_is_draining i"

text \<open>1. Assert PTT and set the delay up.\<close>

definition tx_start :: "bool \<Rightarrow> tx_in \<Rightarrow> int \<Rightarrow> audio_state \<Rightarrow> audio_state \<times> tx_action list" where
  "tx_start paused i sample_rate s =
     (if \<not> paused \<and> \<not> queue_ptt s \<and> tx_has_audio i
      then (s\<lparr>queue_ptt := True, queue_fired_drain := False,
             tx_delay_rem := (if in_ptt_held i then 0 else cdiv (sample_rate * tx_delay_ms s) 1000),
             tx_tail_rem := -1\<rparr>, push_action [] Assert_PTT)
      else (s, []))"

text \<open>2. Silence while the radio keys up.\<close>

definition tx_delay ::
  "bool \<Rightarrow> int \<Rightarrow> nat \<Rightarrow> audio_state \<times> tx_action list \<Rightarrow> audio_state \<times> nat \<times> tx_action list" where
  "tx_delay paused frame_samples play_w = (\<lambda>(s, acts).
     if \<not> paused \<and> queue_ptt s then
       (let (rem, w, acts') = feed_silence frame_samples (tx_delay_rem s) play_w acts
        in (s\<lparr>tx_delay_rem := rem\<rparr>, w, acts'))
     else (s, play_w, acts))"

text \<open>3. Pull exactly one frame from the queue.\<close>

definition tx_drain ::
  "bool \<Rightarrow> tx_in \<Rightarrow> int \<Rightarrow> audio_state \<times> nat \<times> tx_action list \<Rightarrow>
   bool \<times> audio_state \<times> nat \<times> tx_action list" where
  "tx_drain paused i frame_samples = (\<lambda>(s, play_w, acts).
     if \<not> paused \<and> queue_ptt s \<and> tx_delay_rem s \<le> 0 \<and>
        \<not> (in_relay_active i \<and> \<not> (queue_ptt s \<or> in_ptt_held i)) \<and>
        tx_has_audio i \<and> length acts < TX_ACTIONS_MAX
     then
       (let s1 = (if \<not> queue_fired_drain s
                  then s\<lparr>queue_fired_drain := True, queue_drain_start_us := in_now_us i\<rparr> else s);
            acts1 = (if \<not> queue_fired_drain s then push_action acts Fire_Drain else acts);
            acts2 = push_action acts1 (Drain frame_samples);
            w = (if int play_w \<ge> frame_samples then play_w - nat frame_samples else play_w)
        in (True, s1, w, acts2))
     else (False, s, play_w, acts))"

text \<open>
  4. Tail and release. The first component says that the function returned early (pass A:
  the tail just started and QUEUE_COMPLETE goes out first).
\<close>

definition tx_tail ::
  "bool \<Rightarrow> tx_in \<Rightarrow> int \<Rightarrow> int \<Rightarrow> bool \<times> audio_state \<times> nat \<times> tx_action list \<Rightarrow>
   bool \<times> audio_state \<times> tx_action list" where
  "tx_tail paused i sample_rate frame_samples = (\<lambda>(drained, s, play_w, acts).
     if \<not> paused \<and> \<not> drained \<and> queue_ptt s \<and> tx_delay_rem s \<le> 0 \<and>
        in_queue_depth i = 0 \<and> \<not> in_queue_is_draining i
     then
       (let starts = (tx_tail_rem s < 0);
            s1 = (if starts then s\<lparr>tx_tail_rem := cdiv (sample_rate * tx_tail_ms s) 1000\<rparr> else s)
        in if starts \<and> queue_fired_drain s1 then
             (True, s1\<lparr>queue_fired_drain := False\<rparr>,
              push_action acts (Fire_Complete (ucast ((in_now_us i - queue_drain_start_us s1) div 1000))))
           else
             (let (rem, w, acts1) = feed_silence frame_samples (tx_tail_rem s1) play_w acts;
                  s2 = s1\<lparr>tx_tail_rem := rem\<rparr>
              in if rem \<le> 0 \<and> in_play_pending i = 0 then
                   (let s3 = s2\<lparr>ptt_hold_ticks := ptt_hold_ticks s2 + 1\<rparr>
                    in if ptt_hold_ticks s3 \<ge> 3 \<and> length acts1 < TX_ACTIONS_MAX
                       then (False, s3\<lparr>queue_ptt := False, tx_tail_rem := -1, ptt_hold_ticks := 0\<rparr>,
                             push_action acts1 Release_PTT)
                       else (False, s3, acts1))
                 else (False, s2\<lparr>ptt_hold_ticks := 0\<rparr>, acts1)))
     else (False, s, acts))"

text \<open>Pass B: new items arrived during the tail, which is cancelled and the pass rerun.\<close>

definition tx_cancel ::
  "bool \<Rightarrow> tx_in \<Rightarrow> audio_state \<times> tx_action list \<Rightarrow> audio_state \<times> tx_action list \<times> bool" where
  "tx_cancel paused i = (\<lambda>(s, acts).
     if \<not> paused \<and> queue_ptt s \<and> tx_tail_rem s > 0 \<and> in_queue_depth i > 0
     then (s\<lparr>tx_tail_rem := -1, queue_fired_drain := True, ptt_hold_ticks := 0\<rparr>, [], True)
     else (s, acts, False))"

definition audio_tick_tx ::
  "audio_state \<Rightarrow> tx_in \<Rightarrow> int \<Rightarrow> int \<Rightarrow> audio_state \<times> tx_action list \<times> bool" where
  "audio_tick_tx s i sample_rate frame_samples =
     (if sample_rate \<le> 0 \<or> frame_samples \<le> 0 then (s, [], False)
      else
        (let paused = tx_paused s i;
             (early, s4, acts4) =
               tx_tail paused i sample_rate frame_samples
                 (tx_drain paused i frame_samples
                   (tx_delay paused frame_samples (in_play_writable i)
                     (tx_start paused i sample_rate s)))
         in if early then (s4, acts4, True) else tx_cancel paused i (s4, acts4)))"

end
