(* ===== verification/Audio_Tick_Props.thy ===== *)
theory Audio_Tick_Props
  imports Audio_Tick Tx_State
begin

text \<open>
  What the transmit and receive halves of the audio tick guarantee: the invariant between the
  countdowns, the balance of PTT requests and releases, the budget of the playback ring, the
  key-up delay before the first queued sample, the bounded release, and the alternation of
  the DTMF edges. Also the places where the halves do not do what their header says.
\<close>

subsection \<open>Counting actions\<close>

fun silence_of :: "tx_action \<Rightarrow> int" where
  "silence_of (Silence n) = n"
| "silence_of _ = 0"

fun ptt_of :: "tx_action \<Rightarrow> int" where
  "ptt_of Assert_PTT = 1"
| "ptt_of Release_PTT = -1"
| "ptt_of _ = 0"

fun is_drain :: "tx_action \<Rightarrow> bool" where
  "is_drain (Drain n) = True"
| "is_drain _ = False"

fun is_complete :: "tx_action \<Rightarrow> bool" where
  "is_complete (Fire_Complete d) = True"
| "is_complete _ = False"

definition silence_sum :: "tx_action list \<Rightarrow> int" where
  "silence_sum acts = sum_list (map silence_of acts)"

definition ptt_delta :: "tx_action list \<Rightarrow> int" where
  "ptt_delta acts = sum_list (map ptt_of acts)"

lemma sums_append [simp]:
  "silence_sum (xs @ ys) = silence_sum xs + silence_sum ys"
  "ptt_delta (xs @ ys) = ptt_delta xs + ptt_delta ys"
  by (simp_all add: silence_sum_def ptt_delta_def)

lemma sums_simps [simp]:
  "silence_sum [] = 0" "ptt_delta [] = 0"
  "silence_sum (a # xs) = silence_of a + silence_sum xs"
  "ptt_delta (a # xs) = ptt_of a + ptt_delta xs"
  by (simp_all add: silence_sum_def ptt_delta_def)

lemma sums_silence [simp]:
  "silence_sum (map Silence ns) = sum_list ns" "ptt_delta (map Silence ns) = 0"
  "filter is_drain (map Silence ns) = []"
  by (induction ns) simp_all

text \<open>The silence loop appends whole frames (the last one shorter) and accounts for each.\<close>

lemma feed_silence_spec:
  assumes "0 < f" and "feed_silence f r w acts = (r', w', acts')"
  shows "\<exists>ns. acts' = acts @ map Silence ns \<and> (\<forall>n \<in> set ns. 0 < n \<and> n \<le> f) \<and>
          r' = r - sum_list ns \<and> int w' = int w - sum_list ns \<and> 0 \<le> sum_list ns \<and>
          (0 \<le> r \<longrightarrow> 0 \<le> r') \<and> length acts' \<le> max (length acts) TX_ACTIONS_MAX \<and>
          (r' > 0 \<longrightarrow> int w' < f \<or> TX_ACTIONS_MAX \<le> length acts')"
  using assms
proof (induction f r w acts arbitrary: r' w' acts' rule: feed_silence.induct)
  case (1 f r w acts)
  show ?case
  proof (cases "r > 0 \<and> int w \<ge> f \<and> length acts < TX_ACTIONS_MAX")
    case False
    with "1.prems"(2) have "r' = r" "w' = w" "acts' = acts"
      by (auto simp: feed_silence.simps[of f r w acts])
    with False show ?thesis by (intro exI[of _ "[]"]) auto
  next
    case True
    define sn where "sn = (if r < f then r else f)"
    have sn: "0 < sn" "sn \<le> f" "sn \<le> r" "int (nat sn) = sn" "nat sn \<le> w"
      using True "1.prems"(1) by (auto simp: sn_def)
    have push: "push_action acts (Silence sn) = acts @ [Silence sn]"
      using True by (simp add: push_action_def)
    from "1.prems"(2) True have "feed_silence f (r - sn) (w - nat sn) (push_action acts (Silence sn))
        = (r', w', acts')"
      by (simp add: feed_silence.simps[of f r w acts] sn_def Let_def)
    from "1.IH"[OF True sn_def "1.prems"(1) this] obtain ns where ns:
      "acts' = push_action acts (Silence sn) @ map Silence ns"
      "\<forall>n \<in> set ns. 0 < n \<and> n \<le> f" "r' = r - sn - sum_list ns"
      "int w' = int (w - nat sn) - sum_list ns" "0 \<le> sum_list ns"
      "0 \<le> r - sn \<longrightarrow> 0 \<le> r'" "length acts' \<le> max (length (push_action acts (Silence sn))) TX_ACTIONS_MAX"
      "r' > 0 \<longrightarrow> int w' < f \<or> TX_ACTIONS_MAX \<le> length acts'"
      by blast
    show ?thesis
      using ns sn True
      by (intro exI[of _ "sn # ns"]) (simp add: push of_nat_diff)
  qed
qed

text \<open>With room for a frame and in the action list, the loop makes progress.\<close>

lemma feed_silence_progress:
  assumes "0 < f" "0 < r" "f \<le> int w" "length acts < TX_ACTIONS_MAX"
    and "feed_silence f r w acts = (r', w', acts')"
  shows "r' \<le> max 0 (r - f)"
proof -
  define sn where "sn = (if r < f then r else f)"
  have "feed_silence f (r - sn) (w - nat sn) (push_action acts (Silence sn)) = (r', w', acts')"
    using assms(2-5) by (simp add: feed_silence.simps[of f r w acts] sn_def Let_def)
  from feed_silence_spec[OF assms(1) this] obtain ns
    where "r' = r - sn - sum_list ns" "0 \<le> sum_list ns" by blast
  with assms(1,2) show ?thesis by (auto simp: sn_def max_def)
qed

subsection \<open>The invariant of the transmit half\<close>

definition tx_inv :: "audio_state \<Rightarrow> bool" where
  "tx_inv s \<longleftrightarrow>
     0 \<le> tx_delay_ms s \<and> 0 \<le> tx_tail_ms s \<and>
     0 \<le> tx_delay_rem s \<and> -1 \<le> tx_tail_rem s \<and>
     0 \<le> ptt_hold_ticks s \<and>
     (\<not> queue_ptt s \<longrightarrow> tx_delay_rem s = 0 \<and> tx_tail_rem s = -1 \<and> ptt_hold_ticks s = 0) \<and>
     (tx_delay_rem s > 0 \<longrightarrow> tx_tail_rem s = -1 \<and> \<not> queue_fired_drain s) \<and>
     (ptt_hold_ticks s > 0 \<longrightarrow> tx_tail_rem s = 0)"

lemma push_nil [simp]: "push_action [] a = [a]"
  by (simp add: push_action_def)

lemma length_push: "length (push_action acts a) \<le> max (length acts) TX_ACTIONS_MAX"
  by (simp add: push_action_def)

text \<open>Stage by stage: the state and the actions after each stage.\<close>

lemma tx_start_stage:
  assumes "tx_inv s" "0 < rate" "tx_start p i rate s = (s1, a1)"
  shows "tx_inv s1 \<and> ptt_delta a1 = of_bool (queue_ptt s1) - of_bool (queue_ptt s) \<and>
         (a1 = [] \<and> s1 = s \<or> a1 = [Assert_PTT] \<and> \<not> p \<and> \<not> queue_ptt s \<and> queue_ptt s1)"
  using assms by (auto simp: tx_start_def tx_inv_def cdiv_ge0 split: if_splits)

lemma tx_delay_stage:
  assumes "tx_inv s1" "0 < f" "length a1 \<le> 1"
    and "tx_delay p f w (s1, a1) = (s2, w2, a2)"
  shows "\<exists>ns. a2 = a1 @ map Silence ns \<and> (\<forall>n \<in> set ns. 0 < n \<and> n \<le> f) \<and>
          s2 = s1\<lparr>tx_delay_rem := tx_delay_rem s1 - sum_list ns\<rparr> \<and> tx_inv s2 \<and>
          int w2 = int w - sum_list ns \<and> 0 \<le> sum_list ns \<and> length a2 \<le> TX_ACTIONS_MAX \<and>
          (0 < sum_list ns \<longrightarrow> tx_tail_rem s1 = -1) \<and>
          (tx_delay_rem s1 = 0 \<longrightarrow> ns = [])"
proof (cases "\<not> p \<and> queue_ptt s1")
  case False
  with assms have "s2 = s1" "w2 = w" "a2 = a1" by (auto simp: tx_delay_def)
  with assms(1,3) show ?thesis by (intro exI[of _ "[]"]) simp
next
  case True
  with assms(4) obtain r where r: "feed_silence f (tx_delay_rem s1) w a1 = (r, w2, a2)"
    and s2: "s2 = s1\<lparr>tx_delay_rem := r\<rparr>"
    by (auto simp: tx_delay_def Let_def split: prod.splits)
  from feed_silence_spec[OF assms(2) r] obtain ns where ns:
    "a2 = a1 @ map Silence ns" "\<forall>n \<in> set ns. 0 < n \<and> n \<le> f" "r = tx_delay_rem s1 - sum_list ns"
    "int w2 = int w - sum_list ns" "0 \<le> sum_list ns" "0 \<le> tx_delay_rem s1 \<longrightarrow> 0 \<le> r"
    "length a2 \<le> max (length a1) TX_ACTIONS_MAX" by blast
  have "tx_delay_rem s1 = 0 \<Longrightarrow> ns = []"
    using r ns(1) by (simp add: feed_silence.simps)
  then show ?thesis
    using ns s2 assms(1,3) unfolding tx_inv_def by (intro exI[of _ ns]) auto
qed

lemma tx_drain_stage:
  assumes "tx_inv s2" "tx_drain p i f (s2, w2, a2) = (d, s3, w3, a3)" "length a2 \<le> TX_ACTIONS_MAX"
  shows "tx_inv s3 \<and> queue_ptt s3 = queue_ptt s2 \<and> tx_delay_rem s3 = tx_delay_rem s2 \<and>
         tx_tail_rem s3 = tx_tail_rem s2 \<and> ptt_hold_ticks s3 = ptt_hold_ticks s2 \<and>
         tx_tail_ms s3 = tx_tail_ms s2 \<and>
         w3 \<le> w2 \<and> length a3 \<le> TX_ACTIONS_MAX \<and> (\<exists>xs. a3 = a2 @ xs \<and> xs \<in> {[], [Fire_Drain], [Drain f], [Fire_Drain, Drain f]}) \<and>
         (d \<longrightarrow> queue_ptt s2 \<and> tx_delay_rem s2 = 0 \<and> \<not> p \<and> tx_has_audio i) \<and>
         (\<not> d \<longrightarrow> s3 = s2 \<and> w3 = w2 \<and> a3 = a2)"
  using assms
  by (auto simp: tx_drain_def tx_inv_def push_action_def Let_def split: if_splits)

text \<open>The state and the actions of the tail stage past pass A.\<close>

definition tail_target :: "int \<Rightarrow> audio_state \<Rightarrow> int" where
  "tail_target rate s = (if tx_tail_rem s < 0 then cdiv (rate * tx_tail_ms s) 1000 else tx_tail_rem s)"

definition tail_done :: "int \<Rightarrow> tx_in \<Rightarrow> bool" where
  "tail_done r i \<longleftrightarrow> r \<le> 0 \<and> in_play_pending i = 0"

definition tail_releases :: "int \<Rightarrow> tx_in \<Rightarrow> audio_state \<Rightarrow> tx_action list \<Rightarrow> bool" where
  "tail_releases r i s acts \<longleftrightarrow> tail_done r i \<and> ptt_hold_ticks s + 1 \<ge> 3 \<and> length acts < TX_ACTIONS_MAX"

abbreviation tail_runs :: "bool \<Rightarrow> tx_in \<Rightarrow> bool \<Rightarrow> audio_state \<Rightarrow> bool" where
  "tail_runs p i d s \<equiv> \<not> p \<and> \<not> d \<and> queue_ptt s \<and> tx_delay_rem s \<le> 0 \<and> in_queue_depth i = 0 \<and>
     \<not> in_queue_is_draining i"

lemma tx_tail_eq:
  assumes c: "tail_runs p i d s3"
    and n: "\<not> (tx_tail_rem s3 < 0 \<and> queue_fired_drain s3)"
    and f: "feed_silence f (tail_target rate s3) w3 a3 = (r, w4, a')"
  shows "tx_tail p i rate f (d, s3, w3, a3) =
     (False,
      if tail_releases r i s3 a'
      then s3\<lparr>queue_ptt := False, tx_tail_rem := -1, ptt_hold_ticks := 0\<rparr>
      else s3\<lparr>tx_tail_rem := r,
              ptt_hold_ticks := (if tail_done r i then ptt_hold_ticks s3 + 1 else 0)\<rparr>,
      if tail_releases r i s3 a' then push_action a' Release_PTT else a')"
proof -
  define s1 where "s1 = (if tx_tail_rem s3 < 0 then s3\<lparr>tx_tail_rem := cdiv (rate * tx_tail_ms s3) 1000\<rparr> else s3)"
  have t: "tx_tail_rem s1 = tail_target rate s3" and q: "(tx_tail_rem s3 < 0 \<and> queue_fired_drain s1) = False"
    and h: "ptt_hold_ticks s1 = ptt_hold_ticks s3"
    and u: "\<And>x. s1\<lparr>tx_tail_rem := x\<rparr> = s3\<lparr>tx_tail_rem := x\<rparr>"
    using n by (auto simp: s1_def tail_target_def)
  have eq: "tx_tail p i rate f (d, s3, w3, a3) =
     (let s2 = s1\<lparr>tx_tail_rem := r\<rparr>
              in if r \<le> 0 \<and> in_play_pending i = 0 then
                   (let s3 = s2\<lparr>ptt_hold_ticks := ptt_hold_ticks s2 + 1\<rparr>
                    in if ptt_hold_ticks s3 \<ge> 3 \<and> length a' < TX_ACTIONS_MAX
                       then (False, s3\<lparr>queue_ptt := False, tx_tail_rem := -1, ptt_hold_ticks := 0\<rparr>,
                             push_action a' Release_PTT)
                       else (False, s3, a'))
                 else (False, s2\<lparr>ptt_hold_ticks := 0\<rparr>, a'))"
    unfolding tx_tail_def prod.case
    by (subst if_P[OF c]) (simp only: Let_def s1_def[symmetric] t f q if_False prod.case)

  consider (a) "\<not> (r \<le> 0 \<and> in_play_pending i = 0)"
    | (b) "(r \<le> 0 \<and> in_play_pending i = 0)" "\<not> (3 \<le> ptt_hold_ticks s3 + 1 \<and> length a' < TX_ACTIONS_MAX)"
    | (c) "(r \<le> 0 \<and> in_play_pending i = 0)" "(3 \<le> ptt_hold_ticks s3 + 1 \<and> length a' < TX_ACTIONS_MAX)" by blast
  then show ?thesis
  proof cases
    case a
    then have z: "tail_done r i = False" "tail_releases r i s3 a' = False" by (simp_all add: tail_done_def tail_releases_def)
    show ?thesis unfolding eq u Let_def z if_False if_not_P[OF a] ..
  next
    case b
    then have z: "tail_done r i = True" "tail_releases r i s3 a' = False" by (simp_all only: tail_done_def tail_releases_def simp_thms)
    have hh: "ptt_hold_ticks (s3\<lparr>tx_tail_rem := r, ptt_hold_ticks := ptt_hold_ticks s3 + 1\<rparr>) = ptt_hold_ticks s3 + 1"  "ptt_hold_ticks (s3\<lparr>tx_tail_rem := r\<rparr>) = ptt_hold_ticks s3" by simp_all
    show ?thesis unfolding eq u Let_def z if_P[OF b(1)] hh if_not_P[OF b(2)] if_False if_True ..
  next
    case c
    then have z: "tail_done r i = True" "tail_releases r i s3 a' = True"  by (simp_all only: tail_done_def tail_releases_def simp_thms)
    have hh: "ptt_hold_ticks (s3\<lparr>tx_tail_rem := r, ptt_hold_ticks := ptt_hold_ticks s3 + 1\<rparr>) = ptt_hold_ticks s3 + 1"  "ptt_hold_ticks (s3\<lparr>tx_tail_rem := r\<rparr>) = ptt_hold_ticks s3" by simp_all
    show ?thesis unfolding eq u Let_def z if_P[OF c(1)] hh if_P[OF c(2)] if_True by simp
  qed
qed

lemma tx_tail_skip: "\<not> tail_runs p i d s3 \<Longrightarrow> tx_tail p i rate f (d, s3, w3, a3) = (False, s3, a3)"
  by (simp only: tx_tail_def prod.case if_False)

lemma tx_tail_complete:
  assumes "tail_runs p i d s3" "tx_tail_rem s3 < 0" "queue_fired_drain s3"
  shows "tx_tail p i rate f (d, s3, w3, a3) =
     (True, s3\<lparr>tx_tail_rem := cdiv (rate * tx_tail_ms s3) 1000, queue_fired_drain := False\<rparr>,
      push_action a3 (Fire_Complete (ucast ((in_now_us i - queue_drain_start_us s3) div 1000))))"
  using assms by (simp add: tx_tail_def Let_def)

lemma tx_tail_early:
  assumes "tx_tail p i rate f (d, s3, w3, a3) = (True, s4, a4)"
  shows "tail_runs p i d s3 \<and> tx_tail_rem s3 < 0 \<and> queue_fired_drain s3"
proof (rule ccontr)
  assume n: "\<not> (tail_runs p i d s3 \<and> tx_tail_rem s3 < 0 \<and> queue_fired_drain s3)"
  show False
  proof (cases "tail_runs p i d s3")
    case False
    with assms tx_tail_skip[OF False] show False by simp
  next
    case True
    with n have "\<not> (tx_tail_rem s3 < 0 \<and> queue_fired_drain s3)" by blast
    moreover obtain r w4 a' where "feed_silence f (tail_target rate s3) w3 a3 = (r, w4, a')"
      using prod_cases3 by blast
    ultimately show False using tx_tail_eq[OF True] assms by simp
  qed
qed

lemma tail_target_nonneg: "tx_inv s \<Longrightarrow> 0 < rate \<Longrightarrow> 0 \<le> tail_target rate s"
  by (simp add: tail_target_def tx_inv_def cdiv_ge0)

lemma tx_tail_cases:
  assumes "tx_inv s3" "0 < rate" "0 < f" "tx_tail p i rate f (d, s3, w3, a3) = (e, s4, a4)"
  obtains (skip) "\<not> tail_runs p i d s3" "\<not> e" "s4 = s3" "a4 = a3"
  | (complete) x where "tail_runs p i d s3" "e" "tx_tail_rem s3 = -1" "queue_fired_drain s3"
      "s4 = s3\<lparr>tx_tail_rem := cdiv (rate * tx_tail_ms s3) 1000, queue_fired_drain := False\<rparr>"
      "a4 = push_action a3 (Fire_Complete x)"
  | (feed) ns r where "tail_runs p i d s3" "\<not> e" "\<forall>n \<in> set ns. 0 < n \<and> n \<le> f"
      "r = tail_target rate s3 - sum_list ns" "0 \<le> r" "0 \<le> sum_list ns" "sum_list ns \<le> int w3"
      "length (a3 @ map Silence ns) \<le> max (length a3) TX_ACTIONS_MAX"
      "f \<le> int w3 \<and> length a3 < TX_ACTIONS_MAX \<longrightarrow> r \<le> max 0 (tail_target rate s3 - f)"
      "tx_tail_rem s3 < 0 \<longrightarrow> \<not> queue_fired_drain s3"
      "s4 = s3\<lparr>tx_tail_rem := r,
               ptt_hold_ticks := (if tail_done r i then ptt_hold_ticks s3 + 1 else 0)\<rparr>"
      "a4 = a3 @ map Silence ns"
      "\<not> tail_releases r i s3 a4"
  | (release) ns where "tail_runs p i d s3" "\<not> e" "\<forall>n \<in> set ns. 0 < n \<and> n \<le> f"
      "tail_target rate s3 = sum_list ns" "0 \<le> sum_list ns" "sum_list ns \<le> int w3"
      "length a4 \<le> TX_ACTIONS_MAX"
      "tx_tail_rem s3 < 0 \<longrightarrow> \<not> queue_fired_drain s3"
      "s4 = s3\<lparr>queue_ptt := False, tx_tail_rem := -1, ptt_hold_ticks := 0\<rparr>"
      "a4 = a3 @ map Silence ns @ [Release_PTT]" "in_play_pending i = 0"
proof (cases "tail_runs p i d s3")
  case False
  with assms(4) tx_tail_skip[OF False] show thesis by (intro skip) simp_all
next
  case True
  show thesis
  proof (cases "tx_tail_rem s3 < 0 \<and> queue_fired_drain s3")
    case fired: True
    then have "tx_tail_rem s3 = -1" using assms(1) by (simp add: tx_inv_def)
    with assms(4) tx_tail_complete[OF True] fired True show thesis
      by (intro complete[of "ucast ((in_now_us i - queue_drain_start_us s3) div 1000)"]) auto
  next
    case False
    obtain r w4 a' where f: "feed_silence f (tail_target rate s3) w3 a3 = (r, w4, a')"
      using prod_cases3 by blast
    note eq = tx_tail_eq[OF True False f]
    from feed_silence_spec[OF assms(3) f] tail_target_nonneg[OF assms(1,2)] obtain ns where ns:
      "a' = a3 @ map Silence ns" "\<forall>n \<in> set ns. 0 < n \<and> n \<le> f" "r = tail_target rate s3 - sum_list ns"
      "int w4 = int w3 - sum_list ns" "0 \<le> sum_list ns" "0 \<le> r"
      "length a' \<le> max (length a3) TX_ACTIONS_MAX" by blast
    have pr: "f \<le> int w3 \<and> length a3 < TX_ACTIONS_MAX \<longrightarrow> r \<le> max 0 (tail_target rate s3 - f)"
      using feed_silence_progress[OF assms(3) _ _ _ f] ns(5) ns(3) by force
    show thesis
    proof (cases "tail_releases r i s3 a'")
      case rel: True
      then have "r = 0" "in_play_pending i = 0" "length a' < TX_ACTIONS_MAX"
        using ns(6) by (simp_all add: tail_releases_def tail_done_def)
      with eq rel assms(4) ns False True show thesis
        by (intro release[of ns]) (auto simp: push_action_def)
    next
      case False': False
      with eq assms(4) have "s4 = s3\<lparr>tx_tail_rem := r,
               ptt_hold_ticks := (if tail_done r i then ptt_hold_ticks s3 + 1 else 0)\<rparr>"
        "a4 = a'" "\<not> e" by simp_all
      with ns False True False' pr show thesis by (intro feed[of ns r]) auto
    qed
  qed
qed

text \<open>The invariant after each way the tail stage can end.\<close>

lemma tx_inv_release:
  "tx_inv s \<Longrightarrow> tx_delay_rem s \<le> 0 \<Longrightarrow>
   tx_inv (s\<lparr>queue_ptt := False, tx_tail_rem := -1, ptt_hold_ticks := 0\<rparr>)"
  by (simp add: tx_inv_def)

lemma tx_inv_feed:
  "tx_inv s \<Longrightarrow> queue_ptt s \<Longrightarrow> tx_delay_rem s \<le> 0 \<Longrightarrow> 0 \<le> r \<Longrightarrow> 0 \<le> h \<Longrightarrow> h > 0 \<longrightarrow> r = 0 \<Longrightarrow>
   tx_inv (s\<lparr>tx_tail_rem := r, ptt_hold_ticks := h\<rparr>)"
  by (simp add: tx_inv_def)

lemma tx_inv_complete:
  "tx_inv s \<Longrightarrow> queue_ptt s \<Longrightarrow> tx_delay_rem s \<le> 0 \<Longrightarrow> tx_tail_rem s = -1 \<Longrightarrow> 0 \<le> r \<Longrightarrow>
   tx_inv (s\<lparr>tx_tail_rem := r, queue_fired_drain := False\<rparr>)"
  by (simp add: tx_inv_def)

lemma tx_tail_stage:
  assumes "tx_inv s3" "0 < rate" "0 < f" "length a3 \<le> TX_ACTIONS_MAX"
    and "tx_tail p i rate f (d, s3, w3, a3) = (e, s4, a4)"
  shows "tx_inv s4 \<and> ptt_delta a4 = ptt_delta a3 + of_bool (queue_ptt s4) - of_bool (queue_ptt s3) \<and>
         length a4 \<le> TX_ACTIONS_MAX \<and> silence_sum a4 \<le> silence_sum a3 + int w3 \<and>
         silence_sum a3 \<le> silence_sum a4 \<and> filter is_drain a4 = filter is_drain a3 \<and>
         tx_delay_rem s4 = tx_delay_rem s3 \<and> (\<exists>xs. a4 = a3 @ xs) \<and> (d \<longrightarrow> s4 = s3 \<and> a4 = a3)"
  using assms(1,2,3,5)
proof (cases rule: tx_tail_cases)
  case skip
  with assms show ?thesis by simp
next
  case (complete x)
  have "0 \<le> cdiv (rate * tx_tail_ms s3) 1000"
    using assms(1,2) by (intro cdiv_ge0) (simp_all add: tx_inv_def)
  with complete(1,3,5) assms(1) have "tx_inv s4" by (simp add: tx_inv_complete)
  with complete assms(4) show ?thesis by (simp add: push_action_def)
next
  case (feed ns r)
  have "0 \<le> ptt_hold_ticks s3" using assms(1) by (simp add: tx_inv_def)
  then have "tx_inv s4" using feed(1,5) assms(1) unfolding feed(11)
    by (intro tx_inv_feed) (simp_all add: tail_done_def)
  with feed(1,5-) assms(4) show ?thesis by simp
next
  case (release ns)
  then have "tx_inv s4" using assms(1) by (simp add: tx_inv_release)
  with release(1,4-) show ?thesis by simp
qed

subsection \<open>A whole pass\<close>

lemma tx_pass_stages:
  assumes "0 < rate" "0 < f" "audio_tick_tx s i rate f = (s', acts, rr)"
  obtains s1 a1 s2 w2 a2 d s3 w3 a3 e s4 a4 where
    "tx_start (tx_paused s i) i rate s = (s1, a1)"
    "tx_delay (tx_paused s i) f (in_play_writable i) (s1, a1) = (s2, w2, a2)"
    "tx_drain (tx_paused s i) i f (s2, w2, a2) = (d, s3, w3, a3)"
    "tx_tail (tx_paused s i) i rate f (d, s3, w3, a3) = (e, s4, a4)"
    "if e then (s', acts, rr) = (s4, a4, True)
     else (s', acts, rr) = tx_cancel (tx_paused s i) i (s4, a4)"
proof -
  obtain s1 a1 where 1: "tx_start (tx_paused s i) i rate s = (s1, a1)" by (metis surj_pair)
  obtain s2 w2 a2 where 2: "tx_delay (tx_paused s i) f (in_play_writable i) (s1, a1) = (s2, w2, a2)"
    using prod_cases3 by blast
  obtain d s3 w3 a3 where 3: "tx_drain (tx_paused s i) i f (s2, w2, a2) = (d, s3, w3, a3)"
    using prod_cases4 by blast
  obtain e s4 a4 where 4: "tx_tail (tx_paused s i) i rate f (d, s3, w3, a3) = (e, s4, a4)"
    using prod_cases3 by blast
  have "if e then (s', acts, rr) = (s4, a4, True)
     else (s', acts, rr) = tx_cancel (tx_paused s i) i (s4, a4)"
    using assms 1 2 3 4 by (auto simp: audio_tick_tx_def Let_def)
  with 1 2 3 4 show thesis by (rule that)
qed

lemma tx_start_cases:
  assumes "tx_start p i rate s = (s1, a1)"
  obtains (start) "\<not> p" "\<not> queue_ptt s" "tx_has_audio i" "a1 = [Assert_PTT]" "queue_ptt s1"
      "tx_tail_rem s1 = -1" "\<not> queue_fired_drain s1"
      "tx_delay_rem s1 = (if in_ptt_held i then 0 else cdiv (rate * tx_delay_ms s) 1000)"
  | (none) "p \<or> queue_ptt s \<or> \<not> tx_has_audio i" "a1 = []" "s1 = s"
proof (cases "\<not> p \<and> \<not> queue_ptt s \<and> tx_has_audio i")
  case True
  then have "a1 = [Assert_PTT]" "s1 = s\<lparr>queue_ptt := True, queue_fired_drain := False,
      tx_delay_rem := (if in_ptt_held i then 0 else cdiv (rate * tx_delay_ms s) 1000), tx_tail_rem := -1\<rparr>"
    using assms by (simp_all add: tx_start_def)
  with True show thesis by (intro start) simp_all
next
  case False
  have "a1 = []" "s1 = s" using assms unfolding tx_start_def if_not_P[OF False] by simp_all
  with False show thesis by (intro none) simp_all
qed

lemma tx_cancel_cases:
  assumes "tx_cancel p i (s4, a4) = (s', acts, rr)"
  obtains (cancel) "\<not> p" "queue_ptt s4" "tx_tail_rem s4 > 0" "in_queue_depth i > 0" "acts = []" "rr"
      "s' = s4\<lparr>tx_tail_rem := -1, queue_fired_drain := True, ptt_hold_ticks := 0\<rparr>"
  | (keep) "s' = s4" "acts = a4" "\<not> rr"
    "p \<or> \<not> queue_ptt s4 \<or> tx_tail_rem s4 \<le> 0 \<or> in_queue_depth i \<le> 0"
proof (cases "\<not> p \<and> queue_ptt s4 \<and> tx_tail_rem s4 > 0 \<and> in_queue_depth i > 0")
  case True
  with assms show thesis by (intro cancel) (simp_all add: tx_cancel_def)
next
  case False
  have "s' = s4" "acts = a4" "\<not> rr"
    using assms unfolding tx_cancel_def prod.case if_not_P[OF False] by simp_all
  moreover have "p \<or> \<not> queue_ptt s4 \<or> tx_tail_rem s4 \<le> 0 \<or> in_queue_depth i \<le> 0"
    using False by linarith
  ultimately show thesis by (rule keep)
qed

lemma tx_idle_pass:
  assumes "\<not> queue_ptt s" "tx_paused s i \<or> \<not> tx_has_audio i"
  shows "audio_tick_tx s i rate f = (s, [], False)"
proof -
  have "tx_start (tx_paused s i) i rate s = (s, [])" using assms by (auto simp: tx_start_def)
  with assms(1) show ?thesis
    by (simp add: audio_tick_tx_def tx_delay_def tx_drain_def tx_tail_def tx_cancel_def)
qed

lemma tx_paused_pass: "tx_paused s i \<Longrightarrow> audio_tick_tx s i rate f = (s, [], False)"
  by (rule tx_idle_pass) (simp_all add: tx_paused_def)

text \<open>
  A pass, taken apart: the start, the silence of the delay, the drain, the tail; and whether
  its actions stand or a tail cancel discards them (then the pass neither started nor fed
  anything).
\<close>

lemma tx_pass_parts:
  assumes "tx_inv s" "0 < rate" "0 < f" and pass: "audio_tick_tx s i rate f = (s', acts, rr)"
  obtains s1 a1 ns s2 w2 xs d s3 w3 e s4 a4 where
    "tx_start (tx_paused s i) i rate s = (s1, a1)" "tx_inv s1" "length a1 \<le> 1"
    "ptt_delta a1 = of_bool (queue_ptt s1) - of_bool (queue_ptt s)"
    "a1 = [] \<and> s1 = s \<or> a1 = [Assert_PTT]"
    "s2 = s1\<lparr>tx_delay_rem := tx_delay_rem s1 - sum_list ns\<rparr>" "tx_inv s2" "0 \<le> sum_list ns"
    "int w2 = int (in_play_writable i) - sum_list ns" "tx_delay_rem s1 = 0 \<longrightarrow> ns = []"
    "tx_drain (tx_paused s i) i f (s2, w2, a1 @ map Silence ns) = (d, s3, w3, a1 @ map Silence ns @ xs)"
    "tx_inv s3" "queue_ptt s3 = queue_ptt s1" "tx_tail_rem s3 = tx_tail_rem s1"
    "tx_delay_rem s3 = tx_delay_rem s2" "ptt_hold_ticks s3 = ptt_hold_ticks s1"
    "w3 \<le> w2" "xs \<in> {[], [Fire_Drain], [Drain f], [Fire_Drain, Drain f]}"
    "d \<longrightarrow> tx_delay_rem s3 = 0" "\<not> d \<longrightarrow> s3 = s2 \<and> w3 = w2 \<and> xs = []"
    "length (a1 @ map Silence ns @ xs) \<le> TX_ACTIONS_MAX"
    "tx_tail (tx_paused s i) i rate f (d, s3, w3, a1 @ map Silence ns @ xs) = (e, s4, a4)"
    "s' = s4 \<and> acts = a4 \<or>
     acts = [] \<and> \<not> e \<and> s1 = s \<and> s4 = s3 \<and> queue_ptt s \<and> tx_tail_rem s > 0 \<and> tx_delay_rem s = 0 \<and> ns = [] \<and>
       in_queue_depth i > 0 \<and>
       s' = s4\<lparr>tx_tail_rem := -1, queue_fired_drain := True, ptt_hold_ticks := 0\<rparr>"
    "tx_delay (tx_paused s i) f (in_play_writable i) (s1, a1) = (s2, w2, a1 @ map Silence ns)"
  using assms(2,3) pass
proof (rule tx_pass_stages)
  fix s1 a1 s2 w2 a2 d s3 w3 a3 e s4 a4
  assume 1: "tx_start (tx_paused s i) i rate s = (s1, a1)"
    and 2: "tx_delay (tx_paused s i) f (in_play_writable i) (s1, a1) = (s2, w2, a2)"
    and 3: "tx_drain (tx_paused s i) i f (s2, w2, a2) = (d, s3, w3, a3)"
    and 4: "tx_tail (tx_paused s i) i rate f (d, s3, w3, a3) = (e, s4, a4)"
    and 5: "if e then (s', acts, rr) = (s4, a4, True)
       else (s', acts, rr) = tx_cancel (tx_paused s i) i (s4, a4)"
  from tx_start_stage[OF assms(1,2) 1] have s1: "tx_inv s1" "length a1 \<le> 1"
    "ptt_delta a1 = of_bool (queue_ptt s1) - of_bool (queue_ptt s)" "a1 = [] \<and> s1 = s \<or> a1 = [Assert_PTT]"
    by auto
  from tx_delay_stage[OF s1(1) assms(3) s1(2) 2] obtain ns where s2: "a2 = a1 @ map Silence ns"
    "s2 = s1\<lparr>tx_delay_rem := tx_delay_rem s1 - sum_list ns\<rparr>" "tx_inv s2" "0 \<le> sum_list ns"
    "int w2 = int (in_play_writable i) - sum_list ns" "tx_delay_rem s1 = 0 \<longrightarrow> ns = []"
    "length a2 \<le> TX_ACTIONS_MAX" by blast
  from tx_drain_stage[OF s2(3) 3 s2(7)] obtain xs where s3: "a3 = a2 @ xs" "tx_inv s3"
    "queue_ptt s3 = queue_ptt s1" "tx_tail_rem s3 = tx_tail_rem s1" "tx_delay_rem s3 = tx_delay_rem s2"
    "ptt_hold_ticks s3 = ptt_hold_ticks s1"
    "w3 \<le> w2" "xs \<in> {[], [Fire_Drain], [Drain f], [Fire_Drain, Drain f]}"
    "d \<longrightarrow> tx_delay_rem s3 = 0" "\<not> d \<longrightarrow> s3 = s2 \<and> w3 = w2 \<and> xs = []" "length a3 \<le> TX_ACTIONS_MAX"
    using s2(2) by auto
  have a3: "a3 = a1 @ map Silence ns @ xs" using s2(1) s3(1) by simp
  have fin: "s' = s4 \<and> acts = a4 \<or>
     acts = [] \<and> \<not> e \<and> s1 = s \<and> s4 = s3 \<and> queue_ptt s \<and> tx_tail_rem s > 0 \<and> tx_delay_rem s = 0 \<and> ns = [] \<and>
       in_queue_depth i > 0 \<and>
       s' = s4\<lparr>tx_tail_rem := -1, queue_fired_drain := True, ptt_hold_ticks := 0\<rparr>"
  proof (cases e)
    case True
    with 5 show ?thesis by simp
  next
    case False
    with 5 have "tx_cancel (tx_paused s i) i (s4, a4) = (s', acts, rr)" by simp
    then show ?thesis
    proof (cases rule: tx_cancel_cases)
      case cancel
      then have "\<not> tail_runs (tx_paused s i) i d s3" by simp
      with 4 have "s4 = s3" by (simp add: tx_tail_skip)
      with cancel(3) s3(4) have t: "tx_tail_rem s1 > 0" by simp
      from 1 t have "s1 = s" by (cases rule: tx_start_cases) simp_all
      moreover have "tx_delay_rem s1 = 0" using s1(1) t by (simp add: tx_inv_def)
      ultimately show ?thesis using cancel \<open>s4 = s3\<close> t s2(6) s3(3) False by simp
    qed simp
  qed
  show thesis
    using that[OF 1 s1 s2(2-6) 3[unfolded s2(1) a3] s3(2-10) s3(11)[unfolded a3] 4[unfolded a3] fin 2[unfolded s2(1)]] .
qed

text \<open>What every pass guarantees.\<close>

lemma tx_pass:
  assumes "tx_inv s" "0 < rate" "0 < f" and pass: "audio_tick_tx s i rate f = (s', acts, rr)"
  shows "tx_inv s' \<and> ptt_delta acts = of_bool (queue_ptt s') - of_bool (queue_ptt s) \<and>
         length acts \<le> TX_ACTIONS_MAX \<and> 0 \<le> silence_sum acts \<and>
         silence_sum acts \<le> int (in_play_writable i) \<and> length (filter is_drain acts) \<le> 1"
  using assms
proof (cases rule: tx_pass_parts)
  case (1 s1 a1 ns s2 w2 xs d s3 w3 e s4 a4)
  note p = 1
  from tx_tail_stage[OF p(12) assms(2,3) p(21,22)]
  have s4: "tx_inv s4" "length a4 \<le> TX_ACTIONS_MAX" "0 \<le> silence_sum a4"
    "ptt_delta a4 = of_bool (queue_ptt s4) - of_bool (queue_ptt s)"
    "silence_sum a4 \<le> int (in_play_writable i)" "length (filter is_drain a4) \<le> 1"
    using p(4,5,8,9,13,17,18) by auto
  from p(23) show ?thesis
  proof
    assume "s' = s4 \<and> acts = a4"
    with s4 show ?thesis by simp
  next
    assume c: "acts = [] \<and> \<not> e \<and> s1 = s \<and> s4 = s3 \<and> queue_ptt s \<and> tx_tail_rem s > 0 \<and> tx_delay_rem s = 0 \<and> ns = [] \<and>
       in_queue_depth i > 0 \<and>
       s' = s4\<lparr>tx_tail_rem := -1, queue_fired_drain := True, ptt_hold_ticks := 0\<rparr>"
    with p(6,12,13,15) show ?thesis by (simp add: tx_inv_def)
  qed
qed

text \<open>The key-up delay within a pass: what is not yet fed is still owed, and nothing is drained before.\<close>

definition owed_delay :: "int \<Rightarrow> audio_state \<Rightarrow> tx_in \<Rightarrow> int" where
  "owed_delay rate s i =
     (if queue_ptt s then tx_delay_rem s
      else if in_ptt_held i then 0 else cdiv (rate * tx_delay_ms s) 1000)"

lemma tx_pass_delay:
  assumes "tx_inv s" "0 < rate" "0 < f" and pass: "audio_tick_tx s i rate f = (s', acts, rr)"
    and "queue_ptt s \<or> Assert_PTT \<in> set acts"
  shows "owed_delay rate s i \<le> tx_delay_rem s' + silence_sum acts \<and>
         (filter is_drain acts \<noteq> [] \<longrightarrow> tx_delay_rem s' = 0)"
  using assms(1-4)
proof (cases rule: tx_pass_parts)
  case (1 s1 a1 ns s2 w2 xs d s3 w3 e s4 a4)
  note p = 1
  from tx_tail_stage[OF p(12) assms(2,3) p(21,22)]
  have s4: "tx_delay_rem s4 = tx_delay_rem s3" "filter is_drain a4 = filter is_drain xs"
    "silence_sum a4 \<ge> sum_list ns"
    using p(5,8,18) by auto
  have d: "filter is_drain xs \<noteq> [] \<longrightarrow> tx_delay_rem s3 = 0" using p(19,20) by auto
  from p(23) show ?thesis
  proof
    assume a: "s' = s4 \<and> acts = a4"
    have "owed_delay rate s i = tx_delay_rem s1" using p(1)
    proof (cases rule: tx_start_cases)
      case start
      then show ?thesis by (simp add: owed_delay_def)
    next
      case none
      have "queue_ptt s"
      proof (rule ccontr)
        assume n: "\<not> queue_ptt s"
        have "Assert_PTT \<notin> set a4" using p(22,12) assms(2,3)
          by - (erule tx_tail_cases, assumption+, use p(13,18) none n in \<open>auto simp: push_action_def\<close>)
        with n a assms(5) show False by simp
      qed
      with none show ?thesis by (simp add: owed_delay_def)
    qed
    with a s4 d p(6,15) show ?thesis by simp
  next
    assume "acts = [] \<and> \<not> e \<and> s1 = s \<and> s4 = s3 \<and> queue_ptt s \<and> tx_tail_rem s > 0 \<and> tx_delay_rem s = 0 \<and> ns = [] \<and>
       in_queue_depth i > 0 \<and>
       s' = s4\<lparr>tx_tail_rem := -1, queue_fired_drain := True, ptt_hold_ticks := 0\<rparr>"
    with p(6,15) show ?thesis by (simp add: owed_delay_def)
  qed
qed

text \<open>A start happens only out of the idle state, with nothing received and something to send.\<close>

lemma tx_pass_assert:
  assumes "tx_inv s" "0 < rate" "0 < f" and pass: "audio_tick_tx s i rate f = (s', acts, rr)"
    and "Assert_PTT \<in> set acts"
  shows "\<not> queue_ptt s \<and> \<not> in_relay_active i \<and> relay_drain s \<le> 0 \<and> tx_has_audio i \<and> hd acts = Assert_PTT"
  using assms(1-4)
proof (cases rule: tx_pass_parts)
  case (1 s1 a1 ns s2 w2 xs d s3 w3 e s4 a4)
  note p = 1
  from p(23) assms(5) have a: "acts = a4" by auto
  have "Assert_PTT \<in> set a1 \<and> (\<exists>ys. a4 = a1 @ ys)" using p(12) assms(2,3) p(22)
    by (rule tx_tail_cases) (use p(18) assms(5) a in \<open>auto simp: push_action_def split: if_splits\<close>)
  with p(5) have "a1 = [Assert_PTT]" "hd a4 = Assert_PTT" by auto
  with p(1) a show ?thesis
    by (cases rule: tx_start_cases) (auto simp: tx_paused_def)
qed

lemma tx_pass_no_start:
  assumes "tx_inv s" "0 < rate" "0 < f" and pass: "audio_tick_tx s i rate f = (s', acts, rr)"
    and "\<not> queue_ptt s" "Assert_PTT \<notin> set acts"
  shows "s' = s \<and> acts = []"
proof -
  have "tx_paused s i \<or> \<not> tx_has_audio i"
  proof (rule ccontr)
    assume n: "\<not> (tx_paused s i \<or> \<not> tx_has_audio i)"
    from assms(1-4) show False
    proof (cases rule: tx_pass_parts)
      case (1 s1 a1 ns s2 w2 xs d s3 w3 e s4 a4)
      note p = 1
      from p(1) have "a1 = [Assert_PTT]" by (cases rule: tx_start_cases) (use n assms(5) in auto)
      moreover from tx_tail_stage[OF p(12) assms(2,3) p(21,22)]
      obtain ys where "a4 = (a1 @ map Silence ns @ xs) @ ys" by blast
      ultimately have "Assert_PTT \<in> set a4" by simp
      with p(23) assms(5,6) show False by auto
    qed
  qed
  from tx_idle_pass[OF assms(5) this] assms(4) show ?thesis by simp
qed

text \<open>What a pass never touches, and the countdowns never exceed their configured start.\<close>

abbreviation tx_config_eq :: "audio_state \<Rightarrow> audio_state \<Rightarrow> bool" where
  "tx_config_eq s t \<equiv> relay_drain s = relay_drain t \<and> relay_was_active s = relay_was_active t \<and>
     as_software_relay s = as_software_relay t \<and> tx_delay_ms s = tx_delay_ms t \<and>
     tx_tail_ms s = tx_tail_ms t \<and> relay_drain_ms s = relay_drain_ms t"

definition tx_bounded :: "int \<Rightarrow> audio_state \<Rightarrow> bool" where
  "tx_bounded rate s \<longleftrightarrow> tx_delay_rem s \<le> cdiv (rate * tx_delay_ms s) 1000 \<and>
     tx_tail_rem s \<le> cdiv (rate * tx_tail_ms s) 1000"

lemma tx_start_config:
  assumes "tx_start p i rate s = (s1, a1)" "0 < rate" "tx_inv s"
  shows "tx_config_eq s1 s \<and> (tx_bounded rate s \<longrightarrow> tx_bounded rate s1)"
proof -
  have "0 \<le> cdiv (rate * tx_delay_ms s) 1000" "0 \<le> cdiv (rate * tx_tail_ms s) 1000"
    using assms(2,3) by (intro cdiv_ge0; simp add: tx_inv_def)+
  with assms(1) show ?thesis
    by (cases "\<not> p \<and> \<not> queue_ptt s \<and> tx_has_audio i") (auto simp: tx_start_def tx_bounded_def)
qed

lemma tx_drain_config:
  assumes "tx_drain p i f (s2, w2, a2) = (d, s3, w3, a3)"
  shows "tx_config_eq s3 s2"
  using assms by (auto simp: tx_drain_def Let_def split: if_splits)

lemma tx_tail_config:
  assumes "tx_inv s3" "0 < rate" "0 < f" "tx_tail p i rate f (d, s3, w3, a3) = (e, s4, a4)"
  shows "tx_config_eq s4 s3 \<and> (tx_bounded rate s3 \<longrightarrow> tx_bounded rate s4)"
  using assms
proof (cases rule: tx_tail_cases)
  case (feed ns r)
  then have "r \<le> tail_target rate s3" by simp
  with feed show ?thesis by (auto simp: tx_bounded_def tail_target_def split: if_splits)
next
  case (release ns)
  have "0 \<le> cdiv (rate * tx_tail_ms s3) 1000"
    using assms(1,2) by (intro cdiv_ge0) (simp_all add: tx_inv_def)
  with release show ?thesis by (simp add: tx_bounded_def)
qed (simp_all add: tx_bounded_def)

lemma tx_pass_config:
  assumes "tx_inv s" "0 < rate" "0 < f" and pass: "audio_tick_tx s i rate f = (s', acts, rr)"
  shows "tx_config_eq s' s \<and> (tx_bounded rate s \<longrightarrow> tx_bounded rate s')"
  using assms
proof (cases rule: tx_pass_parts)
  case (1 s1 a1 ns s2 w2 xs d s3 w3 e s4 a4)
  note p = 1
  have c1: "tx_config_eq s1 s \<and> (tx_bounded rate s \<longrightarrow> tx_bounded rate s1)"
    by (rule tx_start_config[OF p(1) assms(2,1)])
  have c2: "tx_config_eq s2 s1 \<and> (tx_bounded rate s1 \<longrightarrow> tx_bounded rate s2)"
    using p(6,8) by (simp add: tx_bounded_def)
  have c3: "tx_config_eq s3 s2 \<and> (tx_bounded rate s2 \<longrightarrow> tx_bounded rate s3)"
    using tx_drain_config[OF p(11)] p(6,14,15) by (simp add: tx_bounded_def)
  have c4: "tx_config_eq s4 s3 \<and> (tx_bounded rate s3 \<longrightarrow> tx_bounded rate s4)"
    by (rule tx_tail_config[OF p(12) assms(2,3) p(22)])
  have c5: "tx_config_eq s' s4 \<and> (tx_bounded rate s4 \<longrightarrow> tx_bounded rate s')"
  proof -
    have "0 \<le> cdiv (rate * tx_tail_ms s4) 1000"
      using c1 c2 c3 c4 assms(1,2) by (intro cdiv_ge0) (simp_all add: tx_inv_def)
    with p(23) show ?thesis by (auto simp: tx_bounded_def)
  qed
  from c1 c2 c3 c4 c5 show ?thesis by simp
qed

text \<open>A pass drains one frame of the tick's size or nothing, and only with something to pull.\<close>

lemma tx_pass_drains:
  assumes "tx_inv s" "0 < rate" "0 < f" and pass: "audio_tick_tx s i rate f = (s', acts, rr)"
  shows "(filter is_drain acts = [] \<or> filter is_drain acts = [Drain f]) \<and>
         (filter is_drain acts \<noteq> [] \<longrightarrow> tx_has_audio i)"
  using assms
proof (cases rule: tx_pass_parts)
  case (1 s1 a1 ns s2 w2 xs d s3 w3 e s4 a4)
  note p = 1
  have "filter is_drain a4 = filter is_drain xs"
    using tx_tail_stage[OF p(12) assms(2,3) p(21,22)] p(5) by auto
  moreover have "filter is_drain xs = [] \<or> filter is_drain xs = [Drain f]" using p(18) by auto
  moreover have "xs \<noteq> [] \<longrightarrow> tx_has_audio i"
    using p(11,20) by (auto simp: tx_drain_def split: if_splits)
  ultimately show ?thesis using p(23) by auto
qed

text \<open>With the delay fed and something to pull, the drain stage pulls.\<close>

lemma tx_drain_pulls:
  assumes "tx_drain False i f (s2, w2, a2) = (d, s3, w3, a3)" "queue_ptt s2" "tx_delay_rem s2 \<le> 0"
    "tx_has_audio i" "length a2 \<le> 1"
  shows "Drain f \<in> set a3"
  using assms by (auto simp: tx_drain_def push_action_def Let_def split: if_splits)

end
