(* ===== verification/Tx_Props.thy ===== *)
theory Tx_Props
  imports Audio_Tick_Props
begin

text \<open>
  The properties of the transmit half of the audio tick over whole runs of passes: the shell
  samples its inputs, calls the pure function and executes the actions, again and again
  (\<open>src/main.c\<close>, the loop of \<open>audio_thread_fn\<close>), so a run is a list of sampled inputs and
  the list of the action lists it caused.
\<close>

subsection \<open>Runs of passes\<close>

definition tx_step :: "int \<Rightarrow> int \<Rightarrow> audio_state \<Rightarrow> tx_in \<Rightarrow> audio_state \<times> tx_action list" where
  "tx_step rate f s i = (let (s', acts, rr) = audio_tick_tx s i rate f in (s', acts))"

definition tx_run :: "int \<Rightarrow> int \<Rightarrow> audio_state \<Rightarrow> tx_in list \<Rightarrow> audio_state \<times> tx_action list list" where
  "tx_run rate f = run_steps (tx_step rate f)"

lemma tx_stepE:
  assumes "tx_step rate f s i = (s', acts)"
  obtains rr where "audio_tick_tx s i rate f = (s', acts, rr)"
  using assms by (auto simp: tx_step_def split: prod.splits)

lemma tx_run_Nil [simp]: "tx_run rate f s [] = (s, [])"
  by (simp add: tx_run_def)

lemma tx_run_Cons:
  assumes "tx_step rate f s i = (s1, acts)" "tx_run rate f s1 is = (s', accts)"
  shows "tx_run rate f s (i # is) = (s', acts # accts)"
  using assms by (simp add: tx_run_def)

lemma tx_run_ConsE:
  assumes "tx_run rate f s (i # is) = (s', outs)"
  obtains s1 acts rr accts where "audio_tick_tx s i rate f = (s1, acts, rr)"
    "tx_run rate f s1 is = (s', accts)" "outs = acts # accts"
  using assms by (auto simp: tx_run_def tx_step_def Let_def split: prod.splits)

text \<open>An invariant of the passes is an invariant of the runs.\<close>

lemma tx_run_inv:
  assumes "tx_inv s" "0 < rate" "0 < f" "tx_run rate f s is = (s', outs)"
  shows "tx_inv s'"
  using assms(1,4)
proof (induction "is" arbitrary: s outs)
  case (Cons i "is")
  from Cons.prems(2) obtain s1 acts rr accts where
    "audio_tick_tx s i rate f = (s1, acts, rr)" "tx_run rate f s1 is = (s', accts)"
    by (rule tx_run_ConsE)
  with Cons.IH tx_pass[OF Cons.prems(1) assms(2,3)] show ?case by blast
qed simp

lemma tx_run_delta:
  assumes "tx_inv s" "0 < rate" "0 < f" "tx_run rate f s is = (s', outs)"
  shows "ptt_delta (concat outs) = of_bool (queue_ptt s') - of_bool (queue_ptt s)"
  using assms(1,4)
proof (induction "is" arbitrary: s outs)
  case (Cons i "is")
  from Cons.prems(2) obtain s1 acts rr accts where
    r: "audio_tick_tx s i rate f = (s1, acts, rr)" "tx_run rate f s1 is = (s', accts)" "outs = acts # accts"
    by (rule tx_run_ConsE)
  from tx_pass[OF Cons.prems(1) assms(2,3) r(1)] Cons.IH[OF _ r(2)] r(3) show ?case by simp
qed simp

subsection \<open>The key-up delay over a run\<close>

lemma tx_run_no_start:
  assumes "tx_inv s" "0 < rate" "0 < f" "tx_run rate f s is = (s', outs)" "\<not> queue_ptt s"
    "Assert_PTT \<notin> set (concat outs)"
  shows "s' = s \<and> concat outs = []"
  using assms(4,6)
proof (induction "is" arbitrary: outs)
  case (Cons i "is")
  from Cons.prems(1) obtain s1 acts rr accts where
    r: "audio_tick_tx s i rate f = (s1, acts, rr)" "tx_run rate f s1 is = (s', accts)" "outs = acts # accts"
    by (rule tx_run_ConsE)
  from r(3) Cons.prems(2) have n: "Assert_PTT \<notin> set acts" "Assert_PTT \<notin> set (concat accts)" by simp_all
  from tx_pass_no_start[OF assms(1,2,3) r(1) assms(5) n(1)] have e: "s1 = s" "acts = []" by simp_all
  from Cons.IH[OF r(2)[unfolded e(1)] n(2)] r(3) e show ?case by simp
qed simp

lemma tx_run_delay:
  assumes "tx_inv s" "0 < rate" "0 < f" "tx_run rate f s is = (s', outs)" "queue_ptt s"
    "Assert_PTT \<notin> set (concat outs)" "outs \<noteq> []" "filter is_drain (last outs) \<noteq> []"
  shows "tx_delay_rem s \<le> silence_sum (concat outs)"
  using assms(1,4-)
proof (induction "is" arbitrary: s outs)
  case Nil
  then show ?case by simp
next
  case (Cons i "is")
  from Cons.prems(2) obtain s1 acts rr accts where
    r: "audio_tick_tx s i rate f = (s1, acts, rr)" "tx_run rate f s1 is = (s', accts)" "outs = acts # accts"
    by (rule tx_run_ConsE)
  have own: "tx_delay_rem s \<le> tx_delay_rem s1 + silence_sum acts"
    "filter is_drain acts \<noteq> [] \<longrightarrow> tx_delay_rem s1 = 0"
    using tx_pass_delay[OF Cons.prems(1) assms(2,3) r(1)] Cons.prems(3) by (simp_all add: owed_delay_def)
  have inv: "tx_inv s1" using tx_pass[OF Cons.prems(1) assms(2,3) r(1)] by simp
  have n: "Assert_PTT \<notin> set (concat accts)" using Cons.prems(4) r(3) by simp
  show ?case
  proof (cases "accts = []")
    case True
    with own r(3) Cons.prems(6) show ?thesis by simp
  next
    case False
    show ?thesis
    proof (cases "queue_ptt s1")
      case True
      with Cons.IH[OF inv r(2) True n False] Cons.prems(6) r(3) False own show ?thesis by simp
    next
      case False': False
      with tx_run_no_start[OF inv assms(2,3) r(2) False' n] have "concat accts = []" by simp
      moreover have "last accts \<in> set accts" using False by simp
      ultimately have "last accts = []" by simp
      with Cons.prems(6) r(3) False show ?thesis by simp
    qed
  qed
qed

subsection \<open>How many passes are left\<close>

text \<open>The number of whole frames that \<open>x\<close> samples of silence take.\<close>

definition frames :: "int \<Rightarrow> int \<Rightarrow> nat" where
  "frames f x = nat ((x + f - 1) div f)"

lemma frames_0 [simp]: "0 < f \<Longrightarrow> frames f 0 = 0"
  by (simp add: frames_def)

lemma frames_mono: "0 < f \<Longrightarrow> x \<le> y \<Longrightarrow> frames f x \<le> frames f y"
  by (simp add: frames_def nat_mono zdiv_mono1)

lemma frames_less: "0 < f \<Longrightarrow> r \<le> max 0 (x - f) \<Longrightarrow> frames f r \<le> frames f x - 1"
proof -
  assume f: "0 < f" and r: "r \<le> max 0 (x - f)"
  have d: "(x + f - 1 - f) div f = (x + f - 1) div f - 1"
    using f div_add_self2[of f "x + f - 1 - f"] by (simp add: algebra_simps)
  have "frames f (x - f) \<le> frames f x - 1"
    using d by (simp add: frames_def)
  with f frames_mono[OF f r] show ?thesis by (simp add: max_def split: if_splits)
qed

lemma frames_pos: "0 < f \<Longrightarrow> 0 < x \<Longrightarrow> 0 < frames f x"
proof -
  assume f: "0 < f" and x: "0 < x"
  then have "f div f \<le> (x + f - 1) div f" by (intro zdiv_mono1) simp_all
  with f show ?thesis by (simp add: frames_def)
qed

text \<open>The passes that the delay and the tail still need, given room for a frame in each.\<close>

definition passes_left :: "int \<Rightarrow> int \<Rightarrow> audio_state \<Rightarrow> nat" where
  "passes_left rate f s =
     (if queue_ptt s
      then frames f (tx_delay_rem s) +
           (if tx_tail_rem s < 0 then frames f (cdiv (rate * tx_tail_ms s) 1000) + 1
            else frames f (tx_tail_rem s))
      else 0)"

abbreviation idle_in :: "tx_in \<Rightarrow> bool" where
  "idle_in i \<equiv> in_queue_depth i = 0 \<and> \<not> in_queue_is_draining i"

lemma tx_delay_progress:
  assumes "tx_delay p f w (s1, a1) = (s2, w2, a2)" "\<not> p" "queue_ptt s1" "0 < f"
    "0 < tx_delay_rem s1" "f \<le> int w" "length a1 < TX_ACTIONS_MAX"
  shows "tx_delay_rem s2 \<le> max 0 (tx_delay_rem s1 - f)"
proof -
  obtain r w' a' where f: "feed_silence f (tx_delay_rem s1) w a1 = (r, w', a')"
    using prod_cases3 by blast
  with assms(1-3) have "tx_delay_rem s2 = r" by (auto simp: tx_delay_def Let_def)
  with feed_silence_progress[OF assms(4-7) f] show ?thesis by simp
qed

text \<open>An idle pass while the queue holds PTT: the parts that remain.\<close>

lemma tx_idle_parts:
  assumes "tx_inv s" "0 < rate" "0 < f" "audio_tick_tx s i rate f = (s', acts, rr)"
    and "queue_ptt s" "idle_in i"
  obtains ns s2 w2 e where
    "s2 = s\<lparr>tx_delay_rem := tx_delay_rem s - sum_list ns\<rparr>" "tx_inv s2"
    "tx_delay_rem s = 0 \<longrightarrow> ns = []" "0 \<le> sum_list ns"
    "int w2 = int (in_play_writable i) - sum_list ns"
    "tx_delay False f (in_play_writable i) (s, []) = (s2, w2, map Silence ns)"
    "tx_tail False i rate f (False, s2, w2, map Silence ns) = (e, s', acts)"
    "length (map Silence ns) \<le> TX_ACTIONS_MAX"
  using assms(1-4)
proof (cases rule: tx_pass_parts)
  case (1 s1 a1 ns s2 w2 xs d s3 w3 e s4 a4)
  note p = 1
  have np: "tx_paused s i = False" using assms(5) by (simp add: tx_paused_def)
  from p(1) assms(5) have s1: "s1 = s" "a1 = []" by (simp_all add: tx_start_def)
  have "d = False" using p(11) assms(6) by (auto simp: tx_drain_def tx_has_audio_def)
  with p(20) have "s3 = s2" "w3 = w2" "xs = []" "d = False" by simp_all
  with p s1 np assms(6) show thesis by (intro that[of s2 ns w2 e]) simp_all
qed

lemma tx_idle_progress:
  assumes "tx_inv s" "0 < rate" "0 < f" "audio_tick_tx s i rate f = (s', acts, rr)"
    and "idle_in i" "f \<le> int (in_play_writable i)"
  shows "passes_left rate f s' \<le> passes_left rate f s - 1"
proof (cases "queue_ptt s")
  case False
  with assms(4,5) show ?thesis by (simp add: tx_idle_pass tx_has_audio_def) (auto simp: passes_left_def)
next
  case True
  from assms(1-4) True assms(5) show ?thesis
  proof (cases rule: tx_idle_parts)
    case (1 ns s2 w2 e)
    note p = 1
    have dpos: "0 \<le> tx_delay_rem s2" "0 \<le> tx_delay_rem s"
      using p(2) assms(1) by (simp_all add: tx_inv_def)
    have dprog: "frames f (tx_delay_rem s2) \<le> frames f (tx_delay_rem s) - 1"
    proof (cases "tx_delay_rem s = 0")
      case True
      with p(1,3) assms(3) show ?thesis by simp
    next
      case False
      with dpos have "0 < tx_delay_rem s" by simp
      from tx_delay_progress[OF p(6) _ True assms(3) this assms(6)] frames_less[OF assms(3)]
      show ?thesis by simp
    qed
    have dz: "0 < tx_delay_rem s \<Longrightarrow> 0 < frames f (tx_delay_rem s)"
      by (rule frames_pos[OF assms(3)])
    from p(2) assms(2,3) p(7) show ?thesis
    proof (cases rule: tx_tail_cases)
      case skip
      then have "0 < tx_delay_rem s2" using p(1) True assms(5) by simp
      with p(1,4) dz have "0 < tx_delay_rem s" "0 < frames f (tx_delay_rem s)" by auto
      with skip p(1) True dprog show ?thesis by (auto simp: passes_left_def)
    next
      case (complete x)
      have "0 \<le> cdiv (rate * tx_tail_ms s2) 1000"
        using p(2) assms(2) by (intro cdiv_ge0) (simp_all add: tx_inv_def)
      with complete p(1) True dprog show ?thesis by (auto simp: passes_left_def)
    next
      case (feed ms r)
      have r: "frames f r \<le> frames f (tail_target rate s2)"
        using feed(4,6) by (intro frames_mono[OF assms(3)]) simp
      show ?thesis
      proof (cases "tx_delay_rem s = 0")
        case True
        with p(3,5) assms(6) have "f \<le> int w2" "map Silence ns = []" by simp_all
        with feed(9) frames_less[OF assms(3)] have "frames f r \<le> frames f (tail_target rate s2) - 1"
          by simp
        with feed(1,5,11) True p(1,3) \<open>queue_ptt s\<close> assms(3) show ?thesis
          by (auto simp: passes_left_def tail_target_def)
      next
        case False
        with dz dpos have "0 < frames f (tx_delay_rem s)" by simp
        with feed(1,5,11) r p(1) True dprog show ?thesis
          by (auto simp: passes_left_def tail_target_def)
      qed
    next
      case (release ms)
      then show ?thesis by (simp add: passes_left_def)
    qed
  qed
qed

lemma no_frames_no_sum:
  fixes ms :: "int list"
  assumes "\<forall>n \<in> set ms. 0 < n" "sum_list ms \<le> 0"
  shows "ms = []"
proof (cases ms)
  case (Cons n ns)
  then have "0 \<le> sum_list ns" using assms(1) by (intro sum_list_nonneg) auto
  with Cons assms show ?thesis by simp
qed simp

lemma passes_left_0:
  assumes "tx_inv s" "0 < f" "queue_ptt s" "passes_left rate f s = 0"
  shows "tx_delay_rem s = 0 \<and> tx_tail_rem s = 0"
proof -
  have "frames f (tx_delay_rem s) = 0" "\<not> tx_tail_rem s < 0" "frames f (tx_tail_rem s) = 0"
    using assms(3,4) by (auto simp: passes_left_def split: if_splits)
  with frames_pos[OF assms(2), of "tx_delay_rem s"] frames_pos[OF assms(2), of "tx_tail_rem s"] assms(1)
  show ?thesis unfolding tx_inv_def by force
qed

lemma tx_idle_hold:
  assumes "tx_inv s" "0 < rate" "0 < f" "audio_tick_tx s i rate f = (s', acts, rr)"
    and "queue_ptt s" "idle_in i" "in_play_pending i = 0" "passes_left rate f s = 0"
  shows "\<not> queue_ptt s' \<or>
         passes_left rate f s' = 0 \<and> ptt_hold_ticks s' = ptt_hold_ticks s + 1 \<and> ptt_hold_ticks s + 1 < 3"
  using assms(1-6)
proof (cases rule: tx_idle_parts)
  case (1 ns s2 w2 e)
  note p = 1
  from passes_left_0[OF assms(1,3,5,8)] have z: "tx_delay_rem s = 0" "tx_tail_rem s = 0" by simp_all
  with p(1,3) have s2: "s2 = s" "ns = []" by simp_all
  from p(2) assms(2,3) p(7) show ?thesis
  proof (cases rule: tx_tail_cases)
    case skip
    with s2 z assms(5,6) show ?thesis by simp
  next
    case (complete x)
    with s2 z show ?thesis by simp
  next
    case (feed ms r)
    then have "sum_list ms \<le> 0" using s2 z by (simp add: tail_target_def)
    with feed(3) no_frames_no_sum have "ms = []" by blast
    with feed s2 z assms(5,7) have r: "r = 0" "acts = []" "tail_done r i"
      by (simp_all add: tail_target_def tail_done_def)
    with feed(13) s2 have "ptt_hold_ticks s + 1 < 3" by (simp add: tail_releases_def)
    with feed(11) r s2 z assms(3,5) show ?thesis by (simp add: passes_left_def)
  next
    case (release ms)
    then show ?thesis by simp
  qed
qed

lemma tx_idle_stays:
  assumes "\<not> queue_ptt s" "\<forall>i \<in> set is. idle_in i" "tx_run rate f s is = (s', outs)"
  shows "s' = s"
  using assms(2,3)
proof (induction "is" arbitrary: outs)
  case (Cons i "is")
  from Cons.prems(2) obtain s1 acts rr accts where
    r: "audio_tick_tx s i rate f = (s1, acts, rr)" "tx_run rate f s1 is = (s', accts)" "outs = acts # accts"
    by (rule tx_run_ConsE)
  have "s1 = s" using r(1) Cons.prems(1) assms(1) by (simp add: tx_idle_pass tx_has_audio_def)
  with Cons.IH[OF _ r(2)[unfolded this]] Cons.prems(1) show ?case by simp
qed simp

lemma tx_run_progress:
  assumes "tx_inv s" "0 < rate" "0 < f" "tx_run rate f s is = (s', outs)"
    and "\<forall>i \<in> set is. idle_in i \<and> f \<le> int (in_play_writable i)"
  shows "passes_left rate f s' \<le> passes_left rate f s - length is"
  using assms(1,4,5)
proof (induction "is" arbitrary: s outs)
  case (Cons i "is")
  from Cons.prems(2) obtain s1 acts rr accts where
    r: "audio_tick_tx s i rate f = (s1, acts, rr)" "tx_run rate f s1 is = (s', accts)" "outs = acts # accts"
    by (rule tx_run_ConsE)
  have "tx_inv s1" using tx_pass[OF Cons.prems(1) assms(2,3) r(1)] by simp
  with Cons.IH[OF _ r(2)] Cons.prems(3) have "passes_left rate f s' \<le> passes_left rate f s1 - length is"
    by simp
  with tx_idle_progress[OF Cons.prems(1) assms(2,3) r(1)] Cons.prems(3) show ?case by simp
qed simp

lemma tx_run_hold:
  assumes "tx_inv s" "0 < rate" "0 < f" "tx_run rate f s is = (s', outs)" "passes_left rate f s = 0"
    and "\<forall>i \<in> set is. idle_in i \<and> in_play_pending i = 0" "3 \<le> int (length is) + ptt_hold_ticks s"
    and "is \<noteq> []"
  shows "\<not> queue_ptt s'"
  using assms(1,4-)
proof (induction "is" arbitrary: s outs)
  case Nil
  then show ?case by simp
next
  case (Cons i "is")
  from Cons.prems(2) obtain s1 acts rr accts where
    r: "audio_tick_tx s i rate f = (s1, acts, rr)" "tx_run rate f s1 is = (s', accts)" "outs = acts # accts"
    by (rule tx_run_ConsE)
  have inv: "tx_inv s1" using tx_pass[OF Cons.prems(1) assms(2,3) r(1)] by simp
  have idle: "\<forall>i \<in> set is. idle_in i" using Cons.prems(4) by simp
  show ?case
  proof (cases "queue_ptt s1")
    case False
    from tx_idle_stays[OF this idle r(2)] False show ?thesis by simp
  next
    case True
    have q: "queue_ptt s"
    proof (rule ccontr)
      assume "\<not> queue_ptt s"
      with r(1) Cons.prems(4) True show False by (simp add: tx_idle_pass tx_has_audio_def)
    qed
    from tx_idle_hold[OF Cons.prems(1) assms(2,3) r(1) q _ _ Cons.prems(3)] Cons.prems(4) True
    have h: "passes_left rate f s1 = 0" "ptt_hold_ticks s1 = ptt_hold_ticks s + 1" "ptt_hold_ticks s + 1 < 3"
      by simp_all
    with Cons.prems(5) have "is \<noteq> []" by auto
    with Cons.IH[OF inv r(2) h(1)] Cons.prems(4,5) h(2) show ?thesis by simp
  qed
qed

subsection \<open>What the runs guarantee\<close>

text \<open>A station of the default configuration, for the concrete runs below.\<close>

definition demo_state :: audio_state where
  "demo_state = \<lparr>as_software_relay = False, tx_delay_ms = 40, tx_tail_ms = 40, relay_drain_ms = 500,
     relay_drain = 0, relay_was_active = False, queue_ptt = False, queue_fired_drain = False,
     queue_drain_start_us = 0, tx_delay_rem = 0, tx_tail_rem = -1, ptt_hold_ticks = 0\<rparr>"

definition demo_in :: "int \<Rightarrow> tx_in" where
  "demo_in depth = \<lparr>in_relay_active = False, in_ptt_held = False, in_queue_depth = depth,
     in_queue_is_draining = False, in_play_writable = 4000, in_play_pending = 0, in_now_us = 0\<rparr>"

lemmas demo_simps = demo_state_def demo_in_def tx_run_def tx_step_def audio_tick_tx_def tx_start_def
  tx_delay_def tx_drain_def tx_tail_def tx_cancel_def tx_paused_def tx_has_audio_def feed_silence.simps
  push_action_def cdiv_def tx_inv_def

text \<open>
  C3. The PTT requests and releases of the queue balance: over any run of passes from a state
  that satisfies the invariant, the number of ASSERT_PTT actions minus the number of
  RELEASE_PTT actions is exactly the change of the queue's own PTT flag, so the core's
  reference count is never leaked nor dropped twice, whatever the shell samples.
\<close>

theorem tx_ptt_balanced:
  assumes "tx_inv s" "0 < rate" "0 < f" "tx_run rate f s is = (s', outs)"
  shows "ptt_delta (concat outs) = of_bool (queue_ptt s') - of_bool (queue_ptt s)"
  using tx_run_delta[OF assms] .

lemma demo_run: "tx_run 48000 960 demo_state [demo_in 1, demo_in 1] =
   (demo_state\<lparr>queue_ptt := True, queue_fired_drain := True\<rparr>,
    [[Assert_PTT, Silence 960, Silence 960, Fire_Drain, Drain 960], [Drain 960]])"
  by (simp add: demo_simps)

lemma demo_inv: "tx_inv demo_state"
  by (simp add: demo_state_def tx_inv_def)

theorem tx_ptt_balanced_witness:
  "ptt_delta (concat [[Assert_PTT, Silence 960, Silence 960, Fire_Drain, Drain 960], [Drain 960]]) = 1"
  using tx_ptt_balanced[OF demo_inv _ _ demo_run] by (simp add: demo_state_def)

text \<open>
  The queue never keys up over a user: whenever a pass of a run asserts PTT, the receiver
  was inactive in what that pass sampled, the relay drain window had ended and there was audio
  to send.
\<close>

theorem tx_never_keys_over_receive:
  assumes "tx_inv s" "0 < rate" "0 < f" "tx_run rate f s is = (s', outs)"
    "k < length is" "Assert_PTT \<in> set (outs ! k)"
  shows "\<not> in_relay_active (is ! k) \<and> tx_has_audio (is ! k) \<and>
         relay_drain (fst (tx_run rate f s (take k is))) \<le> 0 \<and>
         \<not> queue_ptt (fst (tx_run rate f s (take k is)))"
  using assms(1,4-)
proof (induction "is" arbitrary: s outs k)
  case (Cons i "is")
  from Cons.prems(2) obtain s1 acts rr accts where
    r: "audio_tick_tx s i rate f = (s1, acts, rr)" "tx_run rate f s1 is = (s', accts)" "outs = acts # accts"
    by (rule tx_run_ConsE)
  have inv: "tx_inv s1" using tx_pass[OF Cons.prems(1) assms(2,3) r(1)] by simp
  show ?case
  proof (cases k)
    case 0
    with tx_pass_assert[OF Cons.prems(1) assms(2,3) r(1)] Cons.prems(4) r(3) show ?thesis by simp
  next
    case (Suc j)
    have "fst (tx_run rate f s (take k (i # is))) = fst (tx_run rate f s1 (take j is))"
      using r(1) Suc by (simp add: tx_run_def run_steps_Cons tx_step_def del: run_steps.simps(2))
    with Cons.IH[OF inv r(2), of j] Cons.prems(3,4) r(3) Suc show ?thesis by simp
  qed
qed simp

theorem tx_never_keys_over_receive_witness:
  "\<not> in_relay_active (demo_in 1) \<and> tx_has_audio (demo_in 1)"
  using tx_never_keys_over_receive[OF demo_inv _ _ demo_run, of 0] by simp

text \<open>
  No queued audio before the radio has keyed up: when the queue asserts PTT and nobody
  else holds it, every pass that drains a frame of the queue comes after at least the
  configured delay of silence, whatever the ring accepts in between.
\<close>

theorem tx_delay_before_audio:
  assumes "tx_inv s" "0 < rate" "0 < f" "tx_run rate f s (i # is) = (s', acts # accts)"
    and "Assert_PTT \<in> set acts" "\<not> in_ptt_held i" "Assert_PTT \<notin> set (concat accts)"
    and "filter is_drain (last (acts # accts)) \<noteq> []"
  shows "cdiv (rate * tx_delay_ms s) 1000 \<le> silence_sum (concat (acts # accts))"
proof -
  from assms(4) obtain s1 rr where r: "audio_tick_tx s i rate f = (s1, acts, rr)"
    "tx_run rate f s1 is = (s', accts)" by (auto elim: tx_run_ConsE)
  have q: "\<not> queue_ptt s" using tx_pass_assert[OF assms(1-3) r(1) assms(5)] by simp
  have own: "cdiv (rate * tx_delay_ms s) 1000 \<le> tx_delay_rem s1 + silence_sum acts"
    "filter is_drain acts \<noteq> [] \<longrightarrow> tx_delay_rem s1 = 0"
    using tx_pass_delay[OF assms(1-3) r(1)] q assms(5,6) by (simp_all add: owed_delay_def)
  have inv: "tx_inv s1" using tx_pass[OF assms(1-3) r(1)] by simp
  show ?thesis
  proof (cases "accts = []")
    case True
    with own assms(8) show ?thesis by simp
  next
    case False
    have "queue_ptt s1"
    proof (rule ccontr)
      assume "\<not> queue_ptt s1"
      from tx_run_no_start[OF inv assms(2,3) r(2) this assms(7)] have "concat accts = []" by simp
      moreover have "last accts \<in> set accts" using False by simp
      ultimately have "last accts = []" by simp
      with assms(8) False show False by simp
    qed
    from tx_run_delay[OF inv assms(2,3) r(2) this assms(7) False] assms(8) False own
    show ?thesis by simp
  qed
qed

theorem tx_delay_before_audio_witness:
  "cdiv (48000 * 40) 1000 \<le> silence_sum (concat [[Assert_PTT, Silence 960, Silence 960, Fire_Drain, Drain 960], [Drain 960]])"
  using tx_delay_before_audio[OF demo_inv _ _ demo_run] by (simp add: demo_state_def demo_in_def)

text \<open>
  One pass stays within its budgets: it keeps the invariant, never holds more actions than
  the array, writes no more silence than the ring has room for, and pulls at most one frame
  from the queue, so playback keeps the rate of real time.
\<close>

theorem tx_pass_within_budget:
  assumes "tx_inv s" "0 < rate" "0 < f" "audio_tick_tx s i rate f = (s', acts, rr)"
  shows "tx_inv s' \<and> length acts \<le> TX_ACTIONS_MAX \<and> 0 \<le> silence_sum acts \<and>
         silence_sum acts \<le> int (in_play_writable i) \<and> length (filter is_drain acts) \<le> 1"
  using tx_pass[OF assms] by simp

lemma demo_pass: "audio_tick_tx demo_state (demo_in 1) 48000 960 =
   (demo_state\<lparr>queue_ptt := True, queue_fired_drain := True\<rparr>,
    [Assert_PTT, Silence 960, Silence 960, Fire_Drain, Drain 960], False)"
  by (simp add: demo_simps)

theorem tx_pass_within_budget_witness:
  "length [Assert_PTT, Silence 960, Silence 960, Fire_Drain, Drain 960] \<le> TX_ACTIONS_MAX \<and>
   silence_sum [Assert_PTT, Silence 960, Silence 960, Fire_Drain, Drain 960] \<le> 4000"
  using tx_pass_within_budget[OF demo_inv _ _ demo_pass] by (simp add: demo_in_def)

text \<open>
  C12. PTT is released in bounded time: once the queue is empty and stays so, after as many
  passes with room for a frame as the delay and the tail have frames (and one for
  QUEUE_COMPLETE), three passes with an empty playback ring suffice, and exactly one
  RELEASE_PTT answers the request still held.
\<close>

theorem tx_releases_in_bounded_time:
  assumes "tx_inv s" "0 < rate" "0 < f"
    and "tx_run rate f s (fed @ flushed) = (s', outs)"
    and "\<forall>i \<in> set fed. idle_in i \<and> f \<le> int (in_play_writable i)"
    and "passes_left rate f s \<le> length fed"
    and "\<forall>i \<in> set flushed. idle_in i \<and> in_play_pending i = 0" "3 \<le> length flushed"
  shows "\<not> queue_ptt s' \<and> ptt_delta (concat outs) = - of_bool (queue_ptt s)"
proof -
  obtain s1 o1 where 1: "tx_run rate f s fed = (s1, o1)" by (metis surj_pair)
  obtain s2 o2 where 2: "tx_run rate f s1 flushed = (s2, o2)" by (metis surj_pair)
  from 1 2 assms(4) have s': "s2 = s'" by (simp add: tx_run_def run_steps_append)
  have inv: "tx_inv s1" by (rule tx_run_inv[OF assms(1-3) 1])
  have z: "passes_left rate f s1 = 0"
    using tx_run_progress[OF assms(1-3) 1 assms(5)] assms(6) by simp
  have "0 \<le> ptt_hold_ticks s1" using inv by (simp add: tx_inv_def)
  with tx_run_hold[OF inv assms(2,3) 2 z assms(7)] assms(8) have "\<not> queue_ptt s2" by force
  with tx_run_delta[OF assms(1-4)] s' show ?thesis by simp
qed

definition demo_idle :: tx_in where
  "demo_idle = demo_in 0"

definition demo_playing :: audio_state where
  "demo_playing = demo_state\<lparr>queue_ptt := True, queue_fired_drain := True\<rparr>"

theorem tx_releases_in_bounded_time_witness:
  "\<not> queue_ptt (fst (tx_run 48000 960 demo_playing (replicate 3 demo_idle @ replicate 3 demo_idle)))"
proof -
  let ?r = "tx_run 48000 960 demo_playing (replicate 3 demo_idle @ replicate 3 demo_idle)"
  have r: "?r = (fst ?r, snd ?r)" by simp
  have "tx_inv demo_playing" by (simp add: demo_playing_def demo_state_def tx_inv_def)
  moreover have "passes_left 48000 960 demo_playing \<le> length (replicate 3 demo_idle)"
    by (simp add: passes_left_def demo_playing_def demo_state_def frames_def cdiv_def)
  moreover have "idle_in demo_idle" "960 \<le> int (in_play_writable demo_idle)" "in_play_pending demo_idle = 0"
    by (simp_all add: demo_idle_def demo_in_def)
  ultimately show ?thesis
    using tx_releases_in_bounded_time[OF _ _ _ r] by simp
qed

text \<open>
  Once the tail has been written in full, a pass never fires QUEUE_COMPLETE: pass A needs a
  tail that has not started, and only a tail with samples left is ever cancelled.
\<close>

lemma tx_tail_done_pass:
  assumes "tx_inv s" "0 < rate" "0 < f" "audio_tick_tx s i rate f = (s', acts, rr)"
    and "queue_ptt s" "tx_tail_rem s = 0"
  shows "filter is_complete acts = [] \<and> (queue_ptt s' \<longrightarrow> tx_tail_rem s' = 0)"
  using assms(1-4)
proof (cases rule: tx_pass_parts)
  case (1 s1 a1 ns s2 w2 xs d s3 w3 e s4 a4)
  note p = 1
  from p(1) assms(5) have s1: "s1 = s" "a1 = []" by (simp_all add: tx_start_def)
  from p(23) assms(6) have e: "s' = s4" "acts = a4" by auto
  have c: "filter is_complete (map Silence ms) = []" for ms by (induction ms) simp_all
  have x: "filter is_complete xs = []" using p(18) by auto
  have z: "tx_tail_rem s3 = 0" using p(14) s1 assms(6) by simp
  from p(12) assms(2,3) p(22) show ?thesis
  proof (cases rule: tx_tail_cases)
    case skip
    with e s1 c x z show ?thesis by simp
  next
    case (complete y)
    with z show ?thesis by simp
  next
    case (feed ms r)
    with z have "r = 0" by (simp add: tail_target_def)
    with feed e s1 c x show ?thesis by simp
  next
    case (release ms)
    with e s1 c x show ?thesis by simp
  qed
qed

text \<open>
  Audio that arrives once the tail is fully written is announced but never completed: from
  a state that holds PTT with no tail samples left, no pass fires QUEUE_COMPLETE until the
  queue has released PTT and asserted it anew, although the item is drained and QUEUE_DRAIN
  may fire for it. The cancel of the header covers only a tail with samples left.
\<close>

theorem tx_complete_lost_after_tail:
  assumes "tx_inv s" "0 < rate" "0 < f" "tx_run rate f s is = (s', outs)"
    and "queue_ptt s" "tx_tail_rem s = 0" "Assert_PTT \<notin> set (concat outs)"
  shows "filter is_complete (concat outs) = []"
  using assms(1,4-)
proof (induction "is" arbitrary: s outs)
  case (Cons i "is")
  from Cons.prems(2) obtain s1 acts rr accts where
    r: "audio_tick_tx s i rate f = (s1, acts, rr)" "tx_run rate f s1 is = (s', accts)" "outs = acts # accts"
    by (rule tx_run_ConsE)
  have inv: "tx_inv s1" using tx_pass[OF Cons.prems(1) assms(2,3) r(1)] by simp
  have n: "Assert_PTT \<notin> set (concat accts)" using Cons.prems(5) r(3) by simp
  from tx_tail_done_pass[OF Cons.prems(1) assms(2,3) r(1) Cons.prems(3,4)]
  have a: "filter is_complete acts = []" "queue_ptt s1 \<longrightarrow> tx_tail_rem s1 = 0" by simp_all
  show ?case
  proof (cases "queue_ptt s1")
    case True
    with Cons.IH[OF inv r(2) True _ n] a r(3) show ?thesis by simp
  next
    case False
    from tx_run_no_start[OF inv assms(2,3) r(2) this n] have "concat accts = []" by blast
    then have "concat outs = acts" unfolding r(3) concat.simps by (rule ssubst) simp
    with a show ?thesis by simp
  qed
qed simp

lemma demo_hold_run:
  "tx_run 48000 960 (demo_state\<lparr>queue_ptt := True, tx_tail_rem := 0, ptt_hold_ticks := 1\<rparr>)
     [demo_in 1, demo_idle, demo_idle] =
   (demo_state\<lparr>queue_fired_drain := True\<rparr>, [[Fire_Drain, Drain 960], [], [Release_PTT]])"
  by (simp add: demo_simps demo_idle_def)

theorem tx_complete_lost_after_tail_witness:
  "filter is_complete (concat [[Fire_Drain, Drain 960], [], [Release_PTT]]) = []"
proof -
  have "tx_inv (demo_state\<lparr>queue_ptt := True, tx_tail_rem := 0, ptt_hold_ticks := 1\<rparr>)"
    by (simp add: demo_state_def tx_inv_def)
  from tx_complete_lost_after_tail[OF this _ _ demo_hold_run] show ?thesis by simp
qed

subsection \<open>The label of the state machine\<close>

text \<open>The inputs of the label, as the shell builds them from the audio state.\<close>

definition tx_label_inputs :: "audio_state \<Rightarrow> bool \<Rightarrow> bool \<Rightarrow> tx_state_inputs" where
  "tx_label_inputs s receiving held =
     \<lparr>i_cor_active = receiving, i_software_relay = as_software_relay s, i_queue_ptt = queue_ptt s,
      i_tx_delay_rem = tx_delay_rem s, i_tx_tail_rem = tx_tail_rem s, i_relay_drain = relay_drain s,
      i_ptt_held = held\<rparr>"

text \<open>
  The label TX_HOLD is not the flush window its comment describes: in every reachable
  state with hold ticks counted the label is TX_TAIL (or TX_RELAY), and TX_HOLD is shown only
  when the queue does not hold PTT and somebody else does.
\<close>

theorem tx_hold_label_is_foreign_ptt:
  assumes "tx_inv s"
  shows "(ptt_hold_ticks s > 0 \<longrightarrow>
            tx_state_compute (Some (tx_label_inputs s receiving held)) \<in> {TX_TAIL, TX_RELAY}) \<and>
         (tx_state_compute (Some (tx_label_inputs s receiving held)) = TX_HOLD \<longleftrightarrow>
            \<not> queue_ptt s \<and> held \<and> relay_drain s \<le> 0 \<and> \<not> (receiving \<and> as_software_relay s))"
  using assms by (auto simp: tx_state_compute_def tx_label_inputs_def tx_inv_def)

theorem tx_hold_label_is_foreign_ptt_witness:
  "tx_state_compute (Some (tx_label_inputs
     (demo_state\<lparr>queue_ptt := True, tx_tail_rem := 0, ptt_hold_ticks := 1\<rparr>) False True)) = TX_TAIL"
proof -
  have "tx_inv (demo_state\<lparr>queue_ptt := True, tx_tail_rem := 0, ptt_hold_ticks := 1\<rparr>)"
    by (simp add: demo_state_def tx_inv_def)
  from tx_hold_label_is_foreign_ptt[OF this, of False True] show ?thesis
    by (auto simp: tx_state_compute_def tx_label_inputs_def demo_state_def)
qed

end
