(* ===== verification/Rx_Props.thy ===== *)
theory Rx_Props
  imports Audio_Tick_Props
begin

text \<open>
  The properties of the receive half of the audio tick, for any DTMF decoder: the alternation
  of its digit and end events, and the life of the relay drain window, which both closes in
  bounded time and can hold the transmit queue for ever, depending on who holds PTT.
\<close>

record rx_in =
  r_frame :: "int list option"
  r_nread :: int
  r_relay_active :: bool
  r_ptt_held :: bool
  r_writable :: nat

definition rx_step ::
  "('d \<Rightarrow> 'd) \<Rightarrow> ('d \<Rightarrow> int list \<Rightarrow> 'd \<times> dtmf_result) \<Rightarrow> int \<Rightarrow>
   audio_state \<times> bool \<times> 'd option \<Rightarrow> rx_in \<Rightarrow> (audio_state \<times> bool \<times> 'd option) \<times> rx_out" where
  "rx_step rst proc rate st i =
     (let (s, prev, dec) = st;
          (s', prev', dec', out) = audio_tick_rx rst proc s prev dec (r_frame i) (r_nread i)
                                     (r_relay_active i) (r_ptt_held i) (r_writable i) rate
      in ((s', prev', dec'), out))"

abbreviation rx_run where
  "rx_run rst proc rate \<equiv> run_steps (rx_step rst proc rate)"

subsection \<open>The DTMF edges\<close>

text \<open>A digit only when no tone is held, an end only when one is.\<close>

fun dtmf_alternates :: "bool \<Rightarrow> rx_event list \<Rightarrow> bool" where
  "dtmf_alternates held [] = True"
| "dtmf_alternates held (RX_NO_EVENT # es) = dtmf_alternates held es"
| "dtmf_alternates held (RX_DTMF_DIGIT c # es) = (\<not> held \<and> dtmf_alternates True es)"
| "dtmf_alternates held (RX_DTMF_END # es) = (held \<and> dtmf_alternates False es)"

lemma rx_decode_edge:
  assumes "rx_decode rst proc s prev dec frame n act = (prev', dec', active, ev)"
  shows "(ev = RX_NO_EVENT \<and> prev' = prev \<or> (\<exists>c. ev = RX_DTMF_DIGIT c) \<and> \<not> prev \<and> prev' \<or>
          ev = RX_DTMF_END \<and> prev \<and> \<not> prev') \<and> active = prev'"
  using assms
  by (auto simp: rx_decode_def Let_def split: option.splits if_splits prod.splits)

lemma rx_step_edge:
  assumes "rx_step rst proc rate (s, prev, dec) i = ((s', prev', dec'), out)"
  shows "(out_event out = RX_NO_EVENT \<and> prev' = prev \<or>
          (\<exists>c. out_event out = RX_DTMF_DIGIT c) \<and> \<not> prev \<and> prev' \<or>
          out_event out = RX_DTMF_END \<and> prev \<and> \<not> prev') \<and> out_dtmf_active out = prev'"
  using assms rx_decode_edge[of rst proc s prev dec "r_frame i" "r_nread i" "r_relay_active i"]
  by (auto simp: rx_step_def audio_tick_rx_def Let_def split: prod.splits)

lemma rx_step_obtain:
  obtains s1 prev1 dec1 out where
    "rx_step rst proc rate (s, prev, dec) i = ((s1, prev1, dec1), out)"
  by (metis surj_pair)

text \<open>
  DTMF digits and ends strictly alternate: for any decoder, from any state and over any
  sequence of frames, gaps and receiver edges, a DTMF_DIGIT event comes only after the
  previous tone has ended and a DTMF_END only while one is held.
\<close>

theorem rx_dtmf_alternates:
  "dtmf_alternates prev (map out_event (snd (rx_run rst proc rate (s, prev, dec) is)))"
proof (induction "is" arbitrary: s prev dec)
  case (Cons i "is")
  obtain s1 prev1 dec1 out where 1: "rx_step rst proc rate (s, prev, dec) i = ((s1, prev1, dec1), out)"
    by (rule rx_step_obtain)
  from rx_step_edge[OF 1] Cons.IH[of prev1 s1 dec1] show ?case
    by (auto simp: run_steps_Cons 1 simp del: run_steps.simps(2))
qed simp

text \<open>A run of frames without the receiver leaves no tone held: the end was sent.\<close>

lemma rx_decode_idle:
  "\<not> act \<Longrightarrow> relay_drain s \<le> 0 \<Longrightarrow>
   rx_decode rst proc s prev dec frame n act = (False, dec, False, if prev then RX_DTMF_END else RX_NO_EVENT)"
  by (auto simp: rx_decode_def split: option.splits)

subsection \<open>The relay drain window\<close>

lemma rx_edge_id: "\<not> relay_was_active s \<Longrightarrow> rx_edge s False rate = s"
  by (simp add: rx_edge_def)

lemma rx_step_state:
  "rx_step rst proc rate (s, prev, dec) i = ((s', prev', dec'), out) \<Longrightarrow>
   s' = fst (rx_relay (rx_edge s (r_relay_active i) rate) (r_frame i) (r_nread i) (r_relay_active i)
              (r_ptt_held i) (r_writable i))"
  by (auto simp: rx_step_def audio_tick_rx_def Let_def split: prod.splits)

text \<open>A tick with the receiver idle: nothing but the drain countdown can change.\<close>

lemma rx_quiet_step:
  assumes "rx_step rst proc rate (s, prev, dec) i = ((s', prev', dec'), out)"
    and "\<not> r_relay_active i" "\<not> relay_was_active s"
  shows "(\<exists>d. s' = s\<lparr>relay_drain := d\<rparr>) \<and> (\<not> r_ptt_held i \<longrightarrow> s' = s)"
proof -
  have "\<exists>d. s = s\<lparr>relay_drain := d\<rparr>" by (rule exI[of _ "relay_drain s"]) simp
  with rx_step_state[OF assms(1)] assms(2,3) show ?thesis
    by (auto simp: rx_edge_id rx_relay_def Let_def split: option.splits)
qed

lemma rx_drain_step:
  assumes "rx_step rst proc rate (s, prev, dec) i = ((s', prev', dec'), out)"
    and "\<not> r_relay_active i" "\<not> relay_was_active s" "as_software_relay s" "\<not> queue_ptt s"
    and "r_ptt_held i" "r_nread i = n" "0 < n" "n \<le> int (r_writable i)" "r_frame i \<noteq> None"
  shows "relay_drain s' \<le> max 0 (relay_drain s - n)"
  using rx_step_state[OF assms(1)] assms(2-)
  by (auto simp: rx_edge_id rx_relay_def Let_def split: option.splits)

text \<open>
  The drain window closes: with software relay on, PTT held by somebody other than the
  queue, the receiver idle and frames of n samples arriving with room in the ring, the window
  is over after as many ticks as it has frames (or earlier, on a quiet frame).
\<close>

theorem rx_drain_window_closes:
  assumes "\<not> relay_was_active s" "as_software_relay s" "\<not> queue_ptt s" "0 < n"
    and "\<forall>i \<in> set is. \<not> r_relay_active i \<and> r_ptt_held i \<and> r_nread i = n \<and>
                       n \<le> int (r_writable i) \<and> r_frame i \<noteq> None"
    and "relay_drain s \<le> n * int (length is)"
  shows "relay_drain (fst (fst (rx_run rst proc rate (s, prev, dec) is))) \<le> 0"
  using assms(1-3,5-)
proof (induction "is" arbitrary: s prev dec)
  case (Cons i "is")
  obtain s1 prev1 dec1 out where 1: "rx_step rst proc rate (s, prev, dec) i = ((s1, prev1, dec1), out)"
    by (rule rx_step_obtain)
  have i: "\<not> r_relay_active i" "r_ptt_held i" "r_nread i = n" "n \<le> int (r_writable i)" "r_frame i \<noteq> None"
    using Cons.prems(4) by simp_all
  obtain d where d: "s1 = s\<lparr>relay_drain := d\<rparr>"
    using rx_quiet_step[OF 1 i(1) Cons.prems(1)] by blast
  have "relay_drain s1 \<le> max 0 (relay_drain s - n)"
    by (rule rx_drain_step[OF 1 i(1) Cons.prems(1-3) i(2,3) assms(4) i(4,5)])
  also have "\<dots> \<le> n * int (length is)"
    using Cons.prems(5) assms(4) by (simp add: algebra_simps)
  finally have "relay_drain s1 \<le> n * int (length is)" .
  with Cons.IH[of s1 prev1 dec1] Cons.prems(1-4) d show ?case
    by (simp add: run_steps_Cons 1 del: run_steps.simps(2))
qed simp

text \<open>A decoder that never detects anything, and a quiet station, for the concrete runs.\<close>

definition no_dtmf :: "unit \<Rightarrow> int list \<Rightarrow> unit \<times> dtmf_result" where
  "no_dtmf d f = (d, \<lparr>detected = False, digit = CHR ''0''\<rparr>)"

definition relay_station :: audio_state where
  "relay_station = \<lparr>as_software_relay = True, tx_delay_ms = 40, tx_tail_ms = 40, relay_drain_ms = 500,
     relay_drain = 4, relay_was_active = False, queue_ptt = False, queue_fired_drain = False,
     queue_drain_start_us = 0, tx_delay_rem = 0, tx_tail_rem = -1, ptt_hold_ticks = 0\<rparr>"

definition quiet_rx :: "bool \<Rightarrow> rx_in" where
  "quiet_rx held = \<lparr>r_frame = Some [300, -300], r_nread = 2, r_relay_active = False,
     r_ptt_held = held, r_writable = 960\<rparr>"

theorem rx_drain_window_closes_witness:
  "relay_drain (fst (fst (rx_run (\<lambda>d. d) no_dtmf 48000 (relay_station, False, Some ())
     [quiet_rx True, quiet_rx True]))) \<le> 0"
  by (rule rx_drain_window_closes[of _ 2]) (simp_all add: relay_station_def quiet_rx_def)

text \<open>
  The audio thread's ticks in any order: receive ticks and transmit passes on the one state.
\<close>

datatype tick = RX_tick rx_in | TX_pass tx_in

fun tick_step ::
  "('d \<Rightarrow> 'd) \<Rightarrow> ('d \<Rightarrow> int list \<Rightarrow> 'd \<times> dtmf_result) \<Rightarrow> int \<Rightarrow> int \<Rightarrow>
   audio_state \<times> bool \<times> 'd option \<Rightarrow> tick \<Rightarrow> (audio_state \<times> bool \<times> 'd option) \<times> tx_action list" where
  "tick_step rst proc rate f st (RX_tick i) = (fst (rx_step rst proc rate st i), [])"
| "tick_step rst proc rate f (s, prev, dec) (TX_pass i) =
     (let (s', acts, rr) = audio_tick_tx s i rate f in ((s', prev, dec), acts))"

text \<open>
  The drain window can hold the transmit queue for ever: once it is open and nobody holds
  PTT (a closed repeater, a refused caller), its countdown never runs, and however many
  receive ticks and transmit passes follow with the receiver idle, whatever is queued, the
  state does not change and not one action is issued.
\<close>

theorem rx_drain_window_wedges_queue:
  assumes "relay_drain s > 0" "\<not> queue_ptt s" "\<not> relay_was_active s"
    and "\<forall>i. RX_tick i \<in> set ts \<longrightarrow> \<not> r_relay_active i \<and> \<not> r_ptt_held i"
  shows "fst (fst (run_steps (tick_step rst proc rate f) (s, prev, dec) ts)) = s \<and>
         concat (snd (run_steps (tick_step rst proc rate f) (s, prev, dec) ts)) = []"
  using assms(4)
proof (induction ts arbitrary: prev dec)
  case (Cons t ts)
  show ?case
  proof (cases t)
    case (RX_tick i)
    obtain s1 prev1 dec1 out where 1: "rx_step rst proc rate (s, prev, dec) i = ((s1, prev1, dec1), out)"
      by (rule rx_step_obtain)
    have "s1 = s" using rx_quiet_step[OF 1 _ assms(3)] Cons.prems RX_tick by simp
    with 1 RX_tick Cons.IH[of prev1 dec1] Cons.prems show ?thesis
      by (simp add: run_steps_Cons del: run_steps.simps(2))
  next
    case (TX_pass i)
    have "tx_paused s i" using assms(1,2) by (simp add: tx_paused_def)
    with tx_paused_pass TX_pass Cons.IH[of prev dec] Cons.prems show ?thesis
      by (simp add: run_steps_Cons del: run_steps.simps(2))
  qed
qed simp

theorem rx_drain_window_wedges_queue_witness:
  "concat (snd (run_steps (tick_step (\<lambda>d. d) no_dtmf 48000 960) (relay_station, False, Some ())
     [RX_tick (quiet_rx False), TX_pass \<lparr>in_relay_active = False, in_ptt_held = False, in_queue_depth = 5,
        in_queue_is_draining = False, in_play_writable = 4000, in_play_pending = 0, in_now_us = 0\<rparr>])) = []"
  by (rule rx_drain_window_wedges_queue[THEN conjunct2]) (simp_all add: relay_station_def quiet_rx_def)

end
