(* ===== verification/Audio_Queue.thy ===== *)
theory Audio_Queue
  imports Prelude
begin

text \<open>
  The outbound audio queue (\<open>src/kerchunk_queue.c\<close>): a linked list of items inserted by
  priority while idle and appended while a batch plays, and the drain path that hands the
  audio thread one padded frame per call. The queue's statics are the record below, the
  linked list is a list, and every operation is one critical section of the queue's mutex.

  The samples of a file and of a tone come from the disk and from libplcode's tone encoder:
  they are arguments of the adding operations (the result of reading the file, \<open>None\<close> when
  both readers fail; the result of the encoder, \<open>None\<close> when it cannot be created). The
  argument \<open>mem\<close> says whether the allocations succeed.
\<close>

datatype queue_item_type = QUEUE_AUDIO_FILE | QUEUE_AUDIO_BUFFER | QUEUE_TONE | QUEUE_SILENCE

record queue_item =
  item_type :: queue_item_type
  item_priority :: int
  item_id :: int
  item_flags :: int
  item_source :: string
  item_buf :: "int list option"
  item_owns :: bool

record audio_queue =
  q_items :: "queue_item list"
  q_next_id :: int
  q_count :: int
  q_drain_buf :: "int list option"
  q_drain_len :: nat
  q_drain_pos :: nat
  q_draining :: bool
  q_drain_item_id :: int
  q_drain_type :: queue_item_type
  q_drain_flags :: int
  q_last_drain_flags :: int
  q_drain_source :: string
  q_batch_active :: bool
  q_gap_remaining :: nat
  q_rate :: int

abbreviation MAX_QUEUE_DEPTH :: int where
  "MAX_QUEUE_DEPTH \<equiv> 256"

abbreviation QUEUE_SOURCE_MAX :: nat where
  "QUEUE_SOURCE_MAX \<equiv> 16"

text \<open>The inter-item gap, \<open>GAP_SAMPLES\<close>.\<close>

definition gap_samples :: "audio_queue \<Rightarrow> nat" where
  "gap_samples q = nat (q_rate q * 10) div 1000"

definition queue_set_rate :: "audio_queue \<Rightarrow> int \<Rightarrow> audio_queue" where
  "queue_set_rate q rate = q\<lparr>q_rate := rate\<rparr>"

definition queue_init :: "audio_queue \<Rightarrow> audio_queue" where
  "queue_init q =
     q\<lparr>q_items := [], q_next_id := 1, q_count := 0, q_drain_buf := None, q_drain_len := 0,
       q_drain_pos := 0, q_draining := False, q_batch_active := False\<rparr>"

definition queue_shutdown :: "audio_queue \<Rightarrow> audio_queue" where
  "queue_shutdown q =
     q\<lparr>q_items := [], q_count := 0, q_drain_buf := None, q_drain_len := 0,
       q_drain_pos := 0, q_draining := False, q_batch_active := False\<rparr>"

subsection \<open>Insertion\<close>

text \<open>The scan of the priority branch, from the head: after every item of the same or a higher priority.\<close>

fun insert_after :: "queue_item \<Rightarrow> queue_item list \<Rightarrow> queue_item list" where
  "insert_after item [] = [item]"
| "insert_after item [cur] = [cur, item]"
| "insert_after item (cur # nxt # rest) =
     (if item_priority nxt \<ge> item_priority item then cur # insert_after item (nxt # rest)
      else cur # item # nxt # rest)"

definition queue_mid_playback :: "audio_queue \<Rightarrow> bool" where
  "queue_mid_playback q \<longleftrightarrow> q_batch_active q \<or> q_draining q \<or> q_gap_remaining q > 0"

definition insert_item :: "audio_queue \<Rightarrow> queue_item \<Rightarrow> audio_queue \<times> bool" where
  "insert_item q item =
     (if q_count q \<ge> MAX_QUEUE_DEPTH then (q, False)
      else
        (let items' =
           (if queue_mid_playback q then q_items q @ [item]
            else if q_items q = [] \<or> item_priority item > item_priority (hd (q_items q))
            then item # q_items q
            else insert_after item (q_items q))
         in (q\<lparr>q_items := items', q_count := q_count q + 1\<rparr>, True)))"

text \<open>The critical section that every adding operation ends with.\<close>

definition queue_enqueue :: "audio_queue \<Rightarrow> queue_item \<Rightarrow> audio_queue \<times> int" where
  "queue_enqueue q item =
     (let qid = q_next_id q;
          q1 = q\<lparr>q_next_id := qid + 1\<rparr>;
          (q2, ok) = insert_item q1 (item\<lparr>item_id := qid\<rparr>)
      in if ok then (q2, qid) else (q2, -1))"

definition new_item :: "queue_item_type \<Rightarrow> int \<Rightarrow> int \<Rightarrow> int list \<Rightarrow> queue_item" where
  "new_item t pri flags buf =
     \<lparr>item_type = t, item_priority = pri, item_id = 0, item_flags = flags, item_source = '''',
      item_buf = Some buf, item_owns = True\<rparr>"

text \<open>\<open>read\<close> is what the WAV or else the raw PCM reader gives: samples and rate (0 for PCM).\<close>

definition queue_add_file ::
  "(int list \<Rightarrow> int \<Rightarrow> int \<Rightarrow> int list option) \<Rightarrow> bool \<Rightarrow> audio_queue \<Rightarrow> string option \<Rightarrow>
   (int list \<times> int) option \<Rightarrow> int \<Rightarrow> audio_queue \<times> int" where
  "queue_add_file resample mem q path read pri =
     (case path of None \<Rightarrow> (q, -1)
      | Some _ \<Rightarrow>
          (case read of None \<Rightarrow> (q, -1)
           | Some (buf, rate) \<Rightarrow>
               let buf' = (if rate \<noteq> 0 \<and> rate \<noteq> q_rate q
                           then (case resample buf rate (q_rate q) of Some r \<Rightarrow> r | None \<Rightarrow> buf)
                           else buf)
               in if \<not> mem then (q, -1)
                  else queue_enqueue q (new_item QUEUE_AUDIO_FILE pri 0 buf')))"

definition queue_add_buffer ::
  "bool \<Rightarrow> audio_queue \<Rightarrow> int list option \<Rightarrow> int \<Rightarrow> int \<Rightarrow> audio_queue \<times> int" where
  "queue_add_buffer mem q buf pri flags =
     (case buf of None \<Rightarrow> (q, -1)
      | Some b \<Rightarrow>
          if length b = 0 then (q, -1)
          else if \<not> mem then (q, -1)
          else queue_enqueue q (new_item QUEUE_AUDIO_BUFFER pri flags b))"

definition duration_samples :: "audio_queue \<Rightarrow> int \<Rightarrow> nat" where
  "duration_samples q duration_ms = nat (q_rate q) * nat duration_ms div 1000"

definition queue_add_tone ::
  "(int \<Rightarrow> int \<Rightarrow> int \<Rightarrow> nat \<Rightarrow> int list option) \<Rightarrow> bool \<Rightarrow> audio_queue \<Rightarrow> int \<Rightarrow> int \<Rightarrow> int \<Rightarrow> int \<Rightarrow>
   audio_queue \<times> int" where
  "queue_add_tone tone_enc mem q freq_hz duration_ms amplitude pri =
     (if freq_hz \<le> 0 \<or> duration_ms \<le> 0 \<or> duration_ms > 300000 then (q, -1)
      else if \<not> mem then (q, -1)
      else
        (let n = duration_samples q duration_ms;
             buf = (case tone_enc (q_rate q) freq_hz amplitude n of
                      Some samples \<Rightarrow> take n (samples @ replicate n 0)
                    | None \<Rightarrow> replicate n 0)
         in queue_enqueue q (new_item QUEUE_AUDIO_BUFFER pri 0 buf)))"

definition queue_add_silence :: "bool \<Rightarrow> audio_queue \<Rightarrow> int \<Rightarrow> int \<Rightarrow> audio_queue \<times> int" where
  "queue_add_silence mem q duration_ms pri =
     (if duration_ms \<le> 0 \<or> duration_ms > 300000 then (q, -1)
      else if \<not> mem then (q, -1)
      else queue_enqueue q
             (new_item QUEUE_AUDIO_BUFFER pri 0 (replicate (duration_samples q duration_ms) 0)))"

subsection \<open>Tags\<close>

fun tag_first :: "int \<Rightarrow> string \<Rightarrow> queue_item list \<Rightarrow> queue_item list" where
  "tag_first qid source [] = []"
| "tag_first qid source (it # rest) =
     (if item_id it = qid then it\<lparr>item_source := c_trunc QUEUE_SOURCE_MAX source\<rparr> # rest
      else it # tag_first qid source rest)"

definition queue_tag_item :: "audio_queue \<Rightarrow> int \<Rightarrow> string option \<Rightarrow> audio_queue" where
  "queue_tag_item q qid source =
     (case source of None \<Rightarrow> q | Some s \<Rightarrow> q\<lparr>q_items := tag_first qid s (q_items q)\<rparr>)"

text \<open>The \<open>_src\<close> variants: a second critical section that tags the item by its id.\<close>

definition tag_added :: "string option \<Rightarrow> audio_queue \<times> int \<Rightarrow> audio_queue \<times> int" where
  "tag_added source = (\<lambda>(q, qid). if qid > 0 then (queue_tag_item q qid source, qid) else (q, qid))"

definition queue_add_buffer_src where
  "queue_add_buffer_src mem q buf pri flags source = tag_added source (queue_add_buffer mem q buf pri flags)"

definition queue_add_tone_src where
  "queue_add_tone_src tone_enc mem q freq_hz duration_ms amplitude pri source =
     tag_added source (queue_add_tone tone_enc mem q freq_hz duration_ms amplitude pri)"

definition queue_add_silence_src where
  "queue_add_silence_src mem q duration_ms pri source =
     tag_added source (queue_add_silence mem q duration_ms pri)"

subsection \<open>Draining\<close>

text \<open>
  Pop items until one can be loaded. Whether the drain takes the buffer over or copies it, its
  content is the same (every adding operation leaves the buffer owned, so nothing is copied).
\<close>

definition load_item :: "audio_queue \<Rightarrow> queue_item \<Rightarrow> int list option \<Rightarrow> nat \<Rightarrow> audio_queue" where
  "load_item q it buf len =
     q\<lparr>q_drain_buf := buf, q_drain_len := len, q_drain_item_id := item_id it,
       q_drain_type := item_type it, q_drain_flags := item_flags it,
       q_last_drain_flags := item_flags it,
       q_drain_source := c_trunc QUEUE_SOURCE_MAX (item_source it),
       q_draining := True, q_batch_active := True\<rparr>"

fun load_loop :: "queue_item list \<Rightarrow> audio_queue \<Rightarrow> audio_queue \<times> bool" where
  "load_loop [] q = (q\<lparr>q_batch_active := False\<rparr>, False)"
| "load_loop (it # rest) q =
     (let q1 = q\<lparr>q_items := rest, q_count := q_count q - 1, q_drain_buf := None,
                 q_drain_len := 0, q_drain_pos := 0\<rparr>
      in case item_type it of
           QUEUE_AUDIO_FILE \<Rightarrow>
             (case item_buf it of
                Some b \<Rightarrow> if length b > 0 then (load_item q1 it (Some b) (length b), True)
                          else load_loop rest q1
              | None \<Rightarrow> load_loop rest q1)
         | QUEUE_AUDIO_BUFFER \<Rightarrow>
             (case item_buf it of
                Some b \<Rightarrow> (load_item q1 it (Some b) (length b), True)
              | None \<Rightarrow> (load_item q1 it None 0, True))
         | _ \<Rightarrow> (load_item q1 it None 0, True))"

definition load_next_item :: "audio_queue \<Rightarrow> audio_queue \<times> bool" where
  "load_next_item q = load_loop (q_items q) q"

text \<open>Copy up to a frame of the loaded item, finish it when it is exhausted, pad with silence.\<close>

definition drain_samples :: "audio_queue \<Rightarrow> int list" where
  "drain_samples q = (case q_drain_buf q of Some b \<Rightarrow> drop (q_drain_pos q) b | None \<Rightarrow> [])"

definition drain_copy :: "audio_queue \<Rightarrow> nat \<Rightarrow> audio_queue \<times> int list" where
  "drain_copy q max_n =
     (let remaining = q_drain_len q - q_drain_pos q;
          to_copy = (if remaining < max_n then remaining else max_n);
          out = take to_copy (drain_samples q);
          q1 = q\<lparr>q_drain_pos := q_drain_pos q + to_copy\<rparr>;
          q2 = (if q_drain_pos q1 \<ge> q_drain_len q1
                then (let q3 = q1\<lparr>q_draining := False, q_drain_buf := None\<rparr>
                      in if q_items q3 \<noteq> [] \<and> q_drain_type q3 = QUEUE_AUDIO_FILE
                         then q3\<lparr>q_gap_remaining := gap_samples q3\<rparr> else q3)
                else q1)
      in (q2, out @ replicate (max_n - to_copy) 0))"

definition drain_gap :: "audio_queue \<Rightarrow> nat \<Rightarrow> audio_queue \<times> int list" where
  "drain_gap q max_n =
     (let gap_n = (if q_gap_remaining q < max_n then q_gap_remaining q else max_n)
      in (q\<lparr>q_gap_remaining := q_gap_remaining q - gap_n\<rparr>, replicate max_n 0))"

text \<open>The number of samples returned is the length of the list.\<close>

definition queue_drain :: "audio_queue \<Rightarrow> nat \<Rightarrow> audio_queue \<times> int list" where
  "queue_drain q max_n =
     (if max_n = 0 then (q, [])
      else if q_gap_remaining q > 0 then drain_gap q max_n
      else if \<not> q_draining q \<or> q_drain_pos q \<ge> q_drain_len q then
        (let (q1, loaded) = load_next_item (q\<lparr>q_draining := False\<rparr>)
         in if loaded then drain_copy q1 max_n else (q1, []))
      else drain_copy q max_n)"

subsection \<open>Flush and preemption\<close>

definition queue_flush :: "audio_queue \<Rightarrow> audio_queue \<times> nat" where
  "queue_flush q =
     (q\<lparr>q_items := [], q_count := 0, q_drain_buf := None, q_drain_len := 0, q_drain_pos := 0,
        q_draining := False, q_batch_active := False\<rparr>,
      length (q_items q))"

text \<open>The source buffer has size \<open>sz\<close>; \<open>None\<close> is a null buffer or a zero size: nothing is written.\<close>

definition preempt_source :: "audio_queue \<Rightarrow> nat \<Rightarrow> string option" where
  "preempt_source q sz =
     (if sz = 0 then None
      else if q_draining q \<and> q_drain_source q \<noteq> [] then Some (c_trunc sz (q_drain_source q))
      else (case q_items q of
              it # _ \<Rightarrow> if item_source it \<noteq> [] then Some (c_trunc sz (item_source it)) else Some []
            | [] \<Rightarrow> Some []))"

definition queue_preempt :: "audio_queue \<Rightarrow> nat \<Rightarrow> audio_queue \<times> string option \<times> nat" where
  "queue_preempt q sz =
     (let q1 = q\<lparr>q_items := [], q_count := 0\<rparr>;
          q2 = (if q_draining q
                then q1\<lparr>q_drain_buf := None, q_drain_len := 0, q_drain_pos := 0, q_draining := False\<rparr>
                else q1)
      in (q2\<lparr>q_batch_active := False, q_gap_remaining := 0\<rparr>, preempt_source q sz,
          length (q_items q) + (if q_draining q then 1 else 0)))"

definition queue_depth :: "audio_queue \<Rightarrow> int" where
  "queue_depth q = q_count q"

definition queue_is_draining :: "audio_queue \<Rightarrow> bool" where
  "queue_is_draining q = q_draining q"

definition queue_drain_flags :: "audio_queue \<Rightarrow> int" where
  "queue_drain_flags q = q_last_drain_flags q"

definition queue_drain_source :: "audio_queue \<Rightarrow> string" where
  "queue_drain_source q = q_drain_source q"

end
