(* ===== verification/Frame_Source.thy ===== *)
theory Frame_Source
  imports Prelude
begin

text \<open>
  The interface between the audio thread and the queue it drains: the depth, the draining
  flag and the drain call, with the laws the thread relies on. The abstract value is the list
  of frames that remain to be played. The client's lemmas are in Audio_Thread, the
  interpretation on the model of the queue is in Queue_Props.
\<close>

locale frame_source =
  fixes src_inv :: "'q \<Rightarrow> bool"
    and depth :: "'q \<Rightarrow> int"
    and draining :: "'q \<Rightarrow> bool"
    and pull :: "'q \<Rightarrow> nat \<Rightarrow> 'q \<times> int list"
    and frames_left :: "nat \<Rightarrow> 'q \<Rightarrow> int list list"
  assumes pull_inv: "src_inv q \<Longrightarrow> pull q m = (q', out) \<Longrightarrow> src_inv q'"
    and pull_frame: "src_inv q \<Longrightarrow> 0 < m \<Longrightarrow> pull q m = (q', out) \<Longrightarrow>
      (case frames_left m q of [] \<Rightarrow> out = [] \<and> frames_left m q' = []
       | fr # frs \<Rightarrow> out = fr \<and> frames_left m q' = frs)"
    and pull_end: "src_inv q \<Longrightarrow> 0 < m \<Longrightarrow> pull q m = (q', out) \<Longrightarrow> frames_left m q = [] \<Longrightarrow>
      depth q' = 0 \<and> \<not> draining q'"
    and pull_last: "src_inv q \<Longrightarrow> 0 < m \<Longrightarrow> pull q m = (q', out) \<Longrightarrow> depth q > 0 \<or> draining q \<Longrightarrow>
      depth q' = 0 \<and> \<not> draining q' \<Longrightarrow> frames_left m q' = []"
    and frame_size: "src_inv q \<Longrightarrow> 0 < m \<Longrightarrow> fr \<in> set (frames_left m q) \<Longrightarrow> length fr = m"
    and depth_nonneg: "src_inv q \<Longrightarrow> 0 \<le> depth q"
begin

text \<open>What is pulled and what remains make up what remained.\<close>

lemma pull_accounts:
  assumes "src_inv q" "0 < m" "pull q m = (q', out)"
  shows "frames_left m q = (if out = [] then [] else [out]) @ frames_left m q'"
  using pull_frame[OF assms] frame_size[OF assms(1,2)] assms(2)
  by (cases "frames_left m q") auto

text \<open>The calls that still have something to do.\<close>

definition pulls_left :: "nat \<Rightarrow> 'q \<Rightarrow> nat" where
  "pulls_left m q = (if depth q > 0 \<or> draining q then Suc (length (frames_left m q)) else 0)"

lemma pulls_left_less:
  assumes "src_inv q" "0 < m" "pull q m = (q', out)" "depth q > 0 \<or> draining q"
  shows "pulls_left m q' < pulls_left m q"
  using pull_frame[OF assms(1-3)] pull_end[OF assms(1-3)] assms(4)
  by (cases "frames_left m q") (auto simp: pulls_left_def)

end

end
