(* ===== verification/Queue_Props.thy ===== *)
theory Queue_Props
  imports Audio_Queue Frame_Source "HOL-Library.Multiset"
begin

text \<open>
  The audio queue against what it promises: the invariant of its list and drain state, the
  stable order by priority while idle and the arrival order while a batch plays, and the
  playout: the frames that the drain hands out are exactly the padded items with their gaps,
  in order. Also the places where the priority order, the gap and the source tags are lost.
\<close>

subsection \<open>Insertion against a specification\<close>

definition insert_prio :: "queue_item \<Rightarrow> queue_item list \<Rightarrow> queue_item list" where
  "insert_prio it its =
     takeWhile (\<lambda>x. item_priority x \<ge> item_priority it) its @
     it # dropWhile (\<lambda>x. item_priority x \<ge> item_priority it) its"

lemma insert_after_prio:
  "its \<noteq> [] \<Longrightarrow> item_priority it \<le> item_priority (hd its) \<Longrightarrow> insert_after it its = insert_prio it its"
  by (induction it its rule: insert_after.induct) (auto simp: insert_prio_def)

lemma insert_item_spec:
  "insert_item q it =
     (if q_count q \<ge> MAX_QUEUE_DEPTH then (q, False)
      else (q\<lparr>q_items := (if queue_mid_playback q then q_items q @ [it] else insert_prio it (q_items q)),
             q_count := q_count q + 1\<rparr>, True))"
proof -
  have "(if q_items q = [] \<or> item_priority it > item_priority (hd (q_items q))
            then it # q_items q else insert_after it (q_items q)) = insert_prio it (q_items q)"
    by (cases "q_items q") (auto simp: insert_after_prio, auto simp: insert_prio_def)
  then show ?thesis by (simp add: insert_item_def Let_def)
qed

lemma set_insert_prio [simp]: "set (insert_prio it its) = insert it (set its)"
  by (auto simp: insert_prio_def dest: set_takeWhileD set_dropWhileD)
     (metis Un_iff set_append takeWhile_dropWhile_id)

lemma mset_insert_prio [simp]: "mset (insert_prio it its) = add_mset it (mset its)"
  by (simp add: insert_prio_def) (metis mset_append takeWhile_dropWhile_id)

lemma length_insert_prio [simp]: "length (insert_prio it its) = Suc (length its)"
  using mset_insert_prio[of it its] by (metis size_add_mset size_mset)

lemma distinct_insert_prio [simp]:
  "distinct (map f (insert_prio it its)) \<longleftrightarrow> f it \<notin> f ` set its \<and> distinct (map f its)"
proof -
  have "mset (map f (insert_prio it its)) = mset (map f (it # its))" by simp
  then have "distinct (map f (insert_prio it its)) = distinct (map f (it # its))"
    by (metis distinct_count_atmost_1 set_mset_mset)
  then show ?thesis by simp
qed

subsection \<open>The invariant\<close>

definition item_ok :: "queue_item \<Rightarrow> bool" where
  "item_ok it \<longleftrightarrow> item_buf it \<noteq> None \<and> item_owns it \<and> length (item_source it) < QUEUE_SOURCE_MAX \<and>
     item_type it \<in> {QUEUE_AUDIO_FILE, QUEUE_AUDIO_BUFFER}"

definition ids_ok :: "int \<Rightarrow> queue_item list \<Rightarrow> bool" where
  "ids_ok nxt its \<longleftrightarrow> distinct (map item_id its) \<and> (\<forall>it \<in> set its. 0 < item_id it \<and> item_id it < nxt)"

definition drain_ok :: "audio_queue \<Rightarrow> bool" where
  "drain_ok q \<longleftrightarrow> (q_draining q \<longrightarrow> q_batch_active q \<and> q_drain_pos q < q_drain_len q \<and>
     (\<exists>b. q_drain_buf q = Some b \<and> q_drain_len q = length b))"

definition q_inv :: "audio_queue \<Rightarrow> bool" where
  "q_inv q \<longleftrightarrow> q_count q = int (length (q_items q)) \<and> q_count q \<le> MAX_QUEUE_DEPTH \<and>
     (\<forall>it \<in> set (q_items q). item_ok it) \<and> 0 < q_next_id q \<and> ids_ok (q_next_id q) (q_items q) \<and>
     drain_ok q"

lemma ids_ok_mono: "ids_ok n its \<Longrightarrow> n \<le> k \<Longrightarrow> ids_ok k its"
  by (auto simp: ids_ok_def)

lemma ids_ok_new:
  "ids_ok n its \<Longrightarrow> 0 < n \<Longrightarrow> ids_ok (n + 1) (its @ [it\<lparr>item_id := n\<rparr>])"
  "ids_ok n its \<Longrightarrow> 0 < n \<Longrightarrow> ids_ok (n + 1) (insert_prio (it\<lparr>item_id := n\<rparr>) its)"
  by (auto simp: ids_ok_def)

lemma ids_ok_tl: "ids_ok n (it # its) \<Longrightarrow> ids_ok n its"
  by (simp add: ids_ok_def)

lemma queue_enqueue_spec:
  "queue_enqueue q it =
     (if q_count q \<ge> MAX_QUEUE_DEPTH then (q\<lparr>q_next_id := q_next_id q + 1\<rparr>, -1)
      else (q\<lparr>q_next_id := q_next_id q + 1, q_count := q_count q + 1,
              q_items := (if queue_mid_playback q then q_items q @ [it\<lparr>item_id := q_next_id q\<rparr>]
                          else insert_prio (it\<lparr>item_id := q_next_id q\<rparr>) (q_items q))\<rparr>, q_next_id q))"
  by (simp add: queue_enqueue_def insert_item_spec queue_mid_playback_def Let_def)

lemma item_ok_id [simp]: "item_ok (it\<lparr>item_id := n\<rparr>) = item_ok it"
  by (simp add: item_ok_def)

lemma item_ok_new [simp]:
  "item_ok (new_item QUEUE_AUDIO_FILE p f b)" "item_ok (new_item QUEUE_AUDIO_BUFFER p f b)"
  by (simp_all add: item_ok_def new_item_def)

lemma enqueue_inv:
  assumes "q_inv q" "item_ok it"
  shows "q_inv (fst (queue_enqueue q it))"
proof (cases "q_count q \<ge> MAX_QUEUE_DEPTH")
  case True
  then show ?thesis
    using assms ids_ok_mono[of "q_next_id q" "q_items q" "q_next_id q + 1"]
    by (simp add: queue_enqueue_spec q_inv_def drain_ok_def)
next
  case False
  then show ?thesis
    using assms ids_ok_new[of "q_next_id q" "q_items q" it]
    by (simp add: queue_enqueue_spec q_inv_def drain_ok_def)
qed

text \<open>Draining keeps the invariant: what a load leaves, and what a copy leaves.\<close>

definition loaded :: "audio_queue \<Rightarrow> bool" where
  "loaded q \<longleftrightarrow> q_draining q \<and> q_batch_active q \<and> q_drain_pos q \<le> q_drain_len q \<and>
     (\<exists>b. q_drain_buf q = Some b \<and> q_drain_len q = length b)"

definition list_ok :: "audio_queue \<Rightarrow> bool" where
  "list_ok q \<longleftrightarrow> q_count q = int (length (q_items q)) \<and> q_count q \<le> MAX_QUEUE_DEPTH \<and>
     (\<forall>it \<in> set (q_items q). item_ok it) \<and> 0 < q_next_id q \<and> ids_ok (q_next_id q) (q_items q)"

lemma q_inv_split: "q_inv q \<longleftrightarrow> list_ok q \<and> drain_ok q"
  by (auto simp: q_inv_def list_ok_def)

lemma load_loop_ok:
  assumes "list_ok q" "q_items q = its" "load_loop its q = (q', ok)" "\<not> q_draining q"
  shows "list_ok q' \<and> (ok \<longrightarrow> loaded q' \<and> q_drain_pos q' = 0) \<and>
         (\<not> ok \<longrightarrow> q_items q' = [] \<and> \<not> q_draining q' \<and> \<not> q_batch_active q') \<and>
         q_gap_remaining q' = q_gap_remaining q \<and> q_rate q' = q_rate q"
  using assms
proof (induction its q rule: load_loop.induct)
  case (1 q)
  then show ?case by (auto simp: list_ok_def)
next
  case (2 it rest q)
  let ?q1 = "q\<lparr>q_items := rest, q_count := q_count q - 1, q_drain_buf := None,
                 q_drain_len := 0, q_drain_pos := 0\<rparr>"
  have q1: "list_ok ?q1" using 2(3,4) by (auto simp: list_ok_def ids_ok_def)
  from 2(3,4) have "item_ok it" by (simp add: list_ok_def)
  then obtain b where b: "item_buf it = Some b" and ty: "item_type it \<in> {QUEUE_AUDIO_FILE, QUEUE_AUDIO_BUFFER}"
    by (auto simp: item_ok_def)
  have good: "list_ok (load_item ?q1 it (Some b) (length b)) \<and> loaded (load_item ?q1 it (Some b) (length b)) \<and>
      q_drain_pos (load_item ?q1 it (Some b) (length b)) = 0"
    using q1 by (simp add: load_item_def list_ok_def loaded_def)
  show ?case
  proof (cases "item_type it = QUEUE_AUDIO_FILE \<and> length b = 0")
    case True
    with 2(5) b have "load_loop rest ?q1 = (q', ok)" by (simp add: Let_def)
    with 2(2)[OF refl _ b] q1 True 2(6) show ?thesis by simp
  next
    case False
    with 2(5) b ty have "q' = load_item ?q1 it (Some b) (length b)" "ok"
      by (auto simp: Let_def split: if_splits)
    with good show ?thesis by (simp add: load_item_def)
  qed
qed

lemma drain_copy_ok:
  assumes "list_ok q" "loaded q" "drain_copy q m = (q', out)" "0 < m"
  shows "q_inv q' \<and> length out = m"
proof -
  from assms(2) obtain b where b: "q_drain_buf q = Some b" "q_drain_len q = length b"
    "q_drain_pos q \<le> length b" "q_draining q" "q_batch_active q" by (auto simp: loaded_def)
  have "length out = m" using assms(3) b
    by (auto simp: drain_copy_def Let_def drain_samples_def split: if_splits)
  moreover have "q_inv q'" using assms(1,3,4) b
    by (auto simp: drain_copy_def Let_def q_inv_split list_ok_def drain_ok_def split: if_splits)
  ultimately show ?thesis by simp
qed

lemma list_ok_draining [simp]: "list_ok (q\<lparr>q_draining := d\<rparr>) = list_ok q"
  by (simp add: list_ok_def)

text \<open>The five ways a call of the drain can go.\<close>

lemma queue_drain_cases:
  assumes "queue_drain q m = (q', out)"
  obtains (zero) "m = 0" "q' = q" "out = []"
  | (gap) "0 < m" "0 < q_gap_remaining q" "q' = q\<lparr>q_gap_remaining := q_gap_remaining q - min (q_gap_remaining q) m\<rparr>"
      "out = replicate m 0"
  | (empty) "0 < m" "q_gap_remaining q = 0" "\<not> q_draining q \<or> q_drain_pos q \<ge> q_drain_len q"
      "load_loop (q_items q) (q\<lparr>q_draining := False\<rparr>) = (q', False)" "out = []"
  | (load) q1 where "0 < m" "q_gap_remaining q = 0" "\<not> q_draining q \<or> q_drain_pos q \<ge> q_drain_len q"
      "load_loop (q_items q) (q\<lparr>q_draining := False\<rparr>) = (q1, True)" "drain_copy q1 m = (q', out)"
  | (copy) "0 < m" "q_gap_remaining q = 0" "q_draining q" "q_drain_pos q < q_drain_len q"
      "drain_copy q m = (q', out)"
proof (cases "m = 0")
  case True
  with assms show thesis by (intro zero) (auto simp: queue_drain_def)
next
  case m: False
  show thesis
  proof (cases "0 < q_gap_remaining q")
    case True
    with m assms show thesis
      by (intro gap) (auto simp: queue_drain_def drain_gap_def Let_def min_def)
  next
    case g: False
    show thesis
    proof (cases "\<not> q_draining q \<or> q_drain_pos q \<ge> q_drain_len q")
      case True
      obtain q1 ok where l: "load_loop (q_items q) (q\<lparr>q_draining := False\<rparr>) = (q1, ok)" by (metis surj_pair)
      with m g True assms have "(if ok then drain_copy q1 m else (q1, [])) = (q', out)"
        by (simp add: queue_drain_def load_next_item_def)
      with m g True l empty load show thesis by (cases ok) simp_all
    next
      case False
      with m g assms have "drain_copy q m = (q', out)" by (simp add: queue_drain_def)
      with m g False show thesis by (intro copy) simp_all
    qed
  qed
qed

lemma queue_drain_inv:
  assumes "q_inv q" "queue_drain q m = (q', out)"
  shows "q_inv q' \<and> (out = [] \<or> length out = m)"
proof -
  have l: "list_ok (q\<lparr>q_draining := False\<rparr>)" using assms(1) by (simp add: q_inv_split)
  from assms(2) show ?thesis
  proof (cases rule: queue_drain_cases)
    case zero
    with assms(1) show ?thesis by simp
  next
    case gap
    with assms(1) show ?thesis by (simp add: q_inv_def drain_ok_def)
  next
    case empty
    with load_loop_ok[OF l _ empty(4)] show ?thesis by (simp add: q_inv_split drain_ok_def)
  next
    case (load q1)
    with load_loop_ok[OF l _ load(4)] drain_copy_ok[OF _ _ load(5,1)] show ?thesis by simp
  next
    case copy
    then have "loaded q" using assms(1) by (auto simp: q_inv_def drain_ok_def loaded_def)
    with drain_copy_ok[OF _ this copy(5,1)] assms(1) show ?thesis by (simp add: q_inv_split)
  qed
qed

subsection \<open>What remains to be played\<close>

text \<open>A buffer as frames of \<open>m\<close> samples, the last one padded with silence.\<close>

function pad_frames :: "nat \<Rightarrow> int list \<Rightarrow> int list list" where
  "pad_frames m b =
     (if m = 0 \<or> length b \<le> m then [b @ replicate (m - length b) 0]
      else take m b # pad_frames m (drop m b))"
  by pat_completeness auto
termination by (relation "measure (\<lambda>(m, b). length b)") auto

declare pad_frames.simps [simp del]

definition gap_frames :: "nat \<Rightarrow> nat \<Rightarrow> int list list" where
  "gap_frames m g = replicate ((g + m - 1) div m) (replicate m 0)"

definition gap_after :: "nat \<Rightarrow> nat \<Rightarrow> queue_item_type \<Rightarrow> queue_item list \<Rightarrow> int list list" where
  "gap_after m g ty rest = (if rest \<noteq> [] \<and> ty = QUEUE_AUDIO_FILE then gap_frames m g else [])"

fun items_frames :: "nat \<Rightarrow> nat \<Rightarrow> queue_item list \<Rightarrow> int list list" where
  "items_frames m g [] = []"
| "items_frames m g (it # rest) =
     (if item_type it = QUEUE_AUDIO_FILE \<and> item_buf it = Some [] then []
      else pad_frames m (the (item_buf it)) @ gap_after m g (item_type it) rest) @
     items_frames m g rest"

definition queue_frames :: "nat \<Rightarrow> audio_queue \<Rightarrow> int list list" where
  "queue_frames m q =
     gap_frames m (q_gap_remaining q) @
     (if q_draining q
      then pad_frames m (drain_samples q) @ gap_after m (gap_samples q) (q_drain_type q) (q_items q)
      else []) @
     items_frames m (gap_samples q) (q_items q)"

lemma gap_frames_0 [simp]: "0 < m \<Longrightarrow> gap_frames m 0 = []"
  by (simp add: gap_frames_def)

lemma gap_frames_pos:
  assumes "0 < m" "0 < g"
  shows "gap_frames m g = replicate m 0 # gap_frames m (g - min g m)"
proof -
  have "(g + m - 1) div m = Suc ((g - min g m + m - 1) div m)"
  proof (cases "g \<le> m")
    case True
    have "g + m - 1 = (g - 1) + m" using assms by simp
    then have "(g + m - 1) div m = Suc ((g - 1) div m)"
      using assms by (metis Suc_eq_plus1 div_add_self2 less_not_refl2)
    moreover have "(g - 1) div m = 0" "(m - 1) div m = 0" using True assms by simp_all
    ultimately show ?thesis using True by (simp only: min_absorb1 diff_self_eq_0 add_0)
  next
    case False
    then have "g + m - 1 = (g - m + m - 1) + m" using assms by simp
    then have "(g + m - 1) div m = Suc ((g - m + m - 1) div m)"
      using assms by (metis Suc_eq_plus1 div_add_self2 less_not_refl2)
    with False show ?thesis by simp
  qed
  then show ?thesis by (simp add: gap_frames_def)
qed

text \<open>A copy out of a loaded item gives its next frame.\<close>

lemma drain_copy_frames:
  assumes "loaded q" "q_drain_pos q < q_drain_len q \<or> q_drain_pos q = 0" "q_gap_remaining q = 0" "0 < m"
    and "drain_copy q m = (q', out)"
  shows "queue_frames m q = out # queue_frames m q'"
proof -
  from assms(1) obtain b where b: "q_drain_buf q = Some b" "q_drain_len q = length b"
    "q_drain_pos q \<le> length b" "q_draining q" by (auto simp: loaded_def)
  let ?rem = "drop (q_drain_pos q) b"
  have smp: "drain_samples q = ?rem" by (simp add: drain_samples_def b)
  show ?thesis
  proof (cases "length b - q_drain_pos q \<le> m")
    case True
    then have out: "out = ?rem @ replicate (m - length ?rem) 0" "\<not> q_draining q'" "q_items q' = q_items q"
      "gap_samples q' = gap_samples q"
      "q_gap_remaining q' = (if q_items q \<noteq> [] \<and> q_drain_type q = QUEUE_AUDIO_FILE then gap_samples q else 0)"
      using assms(3,5) b
      by (auto simp: drain_copy_def Let_def drain_samples_def gap_samples_def split: if_splits)
    have "pad_frames m ?rem = [out]" using True out(1) by (simp add: pad_frames.simps)
    with out smp b(4) assms(3,4) show ?thesis
      by (simp add: queue_frames_def gap_after_def)
  next
    case False
    then have out: "out = take m ?rem" "q' = q\<lparr>q_drain_pos := q_drain_pos q + m\<rparr>"
      using assms(3,5) b by (auto simp: drain_copy_def Let_def drain_samples_def)
    have "pad_frames m ?rem = out # pad_frames m (drop m ?rem)"
      using False out(1) assms(4) by (subst pad_frames.simps) simp
    moreover have "drain_samples q' = drop m ?rem"
      using out(2) b(1) by (simp add: drain_samples_def add.commute)
    ultimately show ?thesis
      using out(2) smp b(4) assms(3,4) by (simp add: queue_frames_def gap_samples_def)
  qed
qed

lemma load_loop_frames:
  assumes "list_ok q" "q_items q = its" "load_loop its q = (q', ok)" "\<not> q_draining q"
    "q_gap_remaining q = 0" "0 < m"
  shows "queue_frames m q' = items_frames m (gap_samples q) its"
  using assms(1-5)
proof (induction its q rule: load_loop.induct)
  case (1 q)
  then show ?case using assms(6) by (auto simp: queue_frames_def gap_samples_def)
next
  case (2 it rest q)
  let ?q1 = "q\<lparr>q_items := rest, q_count := q_count q - 1, q_drain_buf := None,
                 q_drain_len := 0, q_drain_pos := 0\<rparr>"
  have q1: "list_ok ?q1" using 2(3,4) by (auto simp: list_ok_def ids_ok_def)
  from 2(3,4) have "item_ok it" by (simp add: list_ok_def)
  then obtain b where b: "item_buf it = Some b" and ty: "item_type it \<in> {QUEUE_AUDIO_FILE, QUEUE_AUDIO_BUFFER}"
    by (auto simp: item_ok_def)
  have g: "gap_samples ?q1 = gap_samples q" by (simp add: gap_samples_def)
  show ?case
  proof (cases "item_type it = QUEUE_AUDIO_FILE \<and> length b = 0")
    case True
    with 2(5) b have "load_loop rest ?q1 = (q', ok)" by (simp add: Let_def)
    with 2(2)[OF refl _ b] q1 True 2(6,7) b g show ?thesis by simp
  next
    case False
    with 2(5) b ty have q': "q' = load_item ?q1 it (Some b) (length b)"
      by (auto simp: Let_def split: if_splits)
    have "queue_frames m q' = pad_frames m b @ gap_after m (gap_samples q) (item_type it) rest @
            items_frames m (gap_samples q) rest"
      using 2(7) assms(6) unfolding q'
      by (simp add: queue_frames_def load_item_def drain_samples_def gap_samples_def)
    with False b show ?thesis by auto
  qed
qed

text \<open>A call of the drain returns exactly the next frame of what remains.\<close>

lemma queue_drain_frame:
  assumes "q_inv q" "0 < m" "queue_drain q m = (q', out)"
  shows "case queue_frames m q of [] \<Rightarrow> out = [] \<and> queue_frames m q' = []
         | fr # frs \<Rightarrow> out = fr \<and> queue_frames m q' = frs"
proof -
  have l: "list_ok (q\<lparr>q_draining := False\<rparr>)" using assms(1) by (simp add: q_inv_split)
  have nd: "\<not> q_draining q \<or> q_drain_pos q \<ge> q_drain_len q \<Longrightarrow> \<not> q_draining q"
    using assms(1) by (auto simp: q_inv_def drain_ok_def)
  have it: "\<not> q_draining q \<Longrightarrow> q_gap_remaining q = 0 \<Longrightarrow>
      queue_frames m q = items_frames m (gap_samples (q\<lparr>q_draining := False\<rparr>)) (q_items q)"
    using assms(2) by (simp add: queue_frames_def gap_samples_def)
  from assms(3) show ?thesis
  proof (cases rule: queue_drain_cases)
    case zero
    with assms(2) show ?thesis by simp
  next
    case gap
    then have "queue_frames m q = out # queue_frames m q'"
      by (simp add: queue_frames_def gap_frames_pos drain_samples_def gap_samples_def split: option.split)
    then show ?thesis by simp
  next
    case empty
    from load_loop_frames[OF l _ empty(4) _ _ assms(2)] empty(2)
    have "queue_frames m q' = items_frames m (gap_samples (q\<lparr>q_draining := False\<rparr>)) (q_items q)" by simp
    moreover have "queue_frames m q' = []"
      using load_loop_ok[OF l _ empty(4)] empty(2) assms(2) by (simp add: queue_frames_def)
    ultimately show ?thesis using it nd empty by simp
  next
    case (load q1)
    from load_loop_frames[OF l _ load(4) _ _ assms(2)] load(2)
    have "queue_frames m q1 = queue_frames m q" using it nd load(3) by simp
    moreover have "queue_frames m q1 = out # queue_frames m q'"
      using load_loop_ok[OF l _ load(4)] load(2)
      by (intro drain_copy_frames[OF _ _ _ assms(2) load(5)]) simp_all
    ultimately have "queue_frames m q = out # queue_frames m q'" by metis
    then show ?thesis by simp
  next
    case copy
    then have "loaded q" using assms(1) by (auto simp: q_inv_def drain_ok_def loaded_def)
    with drain_copy_frames[OF this _ copy(2) assms(2) copy(5)] copy(4) show ?thesis by simp
  qed
qed

subsection \<open>Every operation of the interface\<close>

datatype queue_op =
    Add_file "string option" "(int list \<times> int) option" int
  | Add_buffer "int list option" int int "string option"
  | Add_tone int int int int "string option"
  | Add_silence int int "string option"
  | Tag_item int "string option"
  | Drain_call nat
  | Flush
  | Preempt nat

text \<open>The untagged adds are the tagged ones with a null source.\<close>

fun queue_exec ::
  "(int list \<Rightarrow> int \<Rightarrow> int \<Rightarrow> int list option) \<Rightarrow> (int \<Rightarrow> int \<Rightarrow> int \<Rightarrow> nat \<Rightarrow> int list option) \<Rightarrow>
   bool \<Rightarrow> audio_queue \<Rightarrow> queue_op \<Rightarrow> audio_queue" where
  "queue_exec rs te mem q (Add_file p rd pri) = fst (queue_add_file rs mem q p rd pri)"
| "queue_exec rs te mem q (Add_buffer b pri fl src) = fst (queue_add_buffer_src mem q b pri fl src)"
| "queue_exec rs te mem q (Add_tone f d a pri src) = fst (queue_add_tone_src te mem q f d a pri src)"
| "queue_exec rs te mem q (Add_silence d pri src) = fst (queue_add_silence_src mem q d pri src)"
| "queue_exec rs te mem q (Tag_item i src) = queue_tag_item q i src"
| "queue_exec rs te mem q (Drain_call m) = fst (queue_drain q m)"
| "queue_exec rs te mem q Flush = fst (queue_flush q)"
| "queue_exec rs te mem q (Preempt sz) = fst (queue_preempt q sz)"

lemma tag_first_length [simp]: "length (tag_first i s its) = length its"
  by (induction its) auto

lemma tag_first_ids [simp]: "map item_id (tag_first i s its) = map item_id its"
  by (induction its) auto

lemma item_ok_source [simp]: "item_ok it \<Longrightarrow> item_ok (it\<lparr>item_source := c_trunc QUEUE_SOURCE_MAX s\<rparr>)"
  by (simp add: item_ok_def c_trunc_def)

lemma tag_first_ok:
  "\<forall>it \<in> set its. item_ok it \<Longrightarrow> it' \<in> set (tag_first i s its) \<Longrightarrow> item_ok it'"
  by (induction its) (auto split: if_splits)

lemma ids_ok_map: "ids_ok n its \<longleftrightarrow> distinct (map item_id its) \<and> (\<forall>i \<in> set (map item_id its). 0 < i \<and> i < n)"
  by (auto simp: ids_ok_def)

lemma ids_ok_tag [simp]: "ids_ok n (tag_first i s its) = ids_ok n its"
  by (simp only: ids_ok_map tag_first_ids)

lemma queue_tag_inv: "q_inv q \<Longrightarrow> q_inv (queue_tag_item q i src)"
  using tag_first_ok[of "q_items q" _ i "the src"]
  by (cases src) (auto simp: queue_tag_item_def q_inv_def drain_ok_def)

lemma tag_added_inv: "q_inv (fst r) \<Longrightarrow> q_inv (fst (tag_added src r))"
  by (cases r) (simp add: tag_added_def queue_tag_inv)

lemma queue_add_inv:
  assumes "q_inv q"
  shows "q_inv (fst (queue_add_file rs mem q p rd pri))" "q_inv (fst (queue_add_buffer mem q b pri fl))"
    "q_inv (fst (queue_add_tone te mem q f d a pri))" "q_inv (fst (queue_add_silence mem q d pri))"
  using assms enqueue_inv[OF assms]
  by (simp_all add: queue_add_file_def queue_add_buffer_def queue_add_tone_def queue_add_silence_def
      Let_def split: option.split prod.split)

lemma queue_drain_inv' : "q_inv q \<Longrightarrow> q_inv (fst (queue_drain q m))"
  using queue_drain_inv[of q m] by (metis prod.collapse)

lemma queue_clear_inv: "q_inv q \<Longrightarrow> q_inv (fst (queue_flush q))" "q_inv q \<Longrightarrow> q_inv (fst (queue_preempt q sz))"
  by (simp_all add: q_inv_def queue_flush_def queue_preempt_def drain_ok_def ids_ok_def Let_def)

lemma queue_exec_inv: "q_inv q \<Longrightarrow> q_inv (queue_exec rs te mem q op)"
  by (cases op) (simp_all add: queue_add_inv queue_tag_inv tag_added_inv queue_drain_inv'
      queue_clear_inv queue_add_buffer_src_def queue_add_tone_src_def queue_add_silence_src_def)

subsection \<open>What the queue guarantees\<close>

definition demo_queue :: audio_queue where
  "demo_queue = \<lparr>q_items = [], q_next_id = 1, q_count = 0, q_drain_buf = None, q_drain_len = 0,
     q_drain_pos = 0, q_draining = False, q_drain_item_id = 0, q_drain_type = QUEUE_AUDIO_FILE,
     q_drain_flags = 0, q_last_drain_flags = 0, q_drain_source = '''', q_batch_active = False,
     q_gap_remaining = 0, q_rate = 8000\<rparr>"

lemma demo_queue_inv: "q_inv demo_queue"
  by (simp add: q_inv_def demo_queue_def drain_ok_def ids_ok_def)

text \<open>
  The queue stays well formed: after any sequence of adds (files, buffers, tones, silence,
  tagged or not, failing or not), tags, drain calls, flushes and preemptions from
  initialisation, the count is the length of the list and at most 256, the ids are distinct,
  positive and below the next one, every waiting item owns a buffer, and a drain in progress
  has a loaded buffer with samples left and marks the batch active.
\<close>

theorem queue_invariant:
  "q_inv (foldl (queue_exec rs te mem) (queue_init q) ops)"
proof -
  have "q_inv (queue_init q)" by (simp add: q_inv_def queue_init_def drain_ok_def ids_ok_def)
  then show ?thesis by (induction ops arbitrary: q rule: rev_induct) (simp_all add: queue_exec_inv)
qed

text \<open>
  C17. Everything queued is played, once, in order and padded to whole frames: with no other
  operation in between, n calls of the drain return the first n frames of what remains (the
  rest of the loaded item, the gap after a file item that has a successor, the waiting items
  in list order, each padded with silence), and nothing more when they are exhausted.
\<close>

theorem queue_plays_everything:
  assumes "q_inv q" "0 < m"
  shows "snd (run_steps (\<lambda>q _. queue_drain q m) q (replicate n ())) =
         take n (queue_frames m q) @ replicate (n - length (queue_frames m q)) []"
  using assms(1)
proof (induction n arbitrary: q)
  case 0
  then show ?case by simp
next
  case (Suc n)
  obtain q' out where d: "queue_drain q m = (q', out)" by (metis surj_pair)
  from queue_drain_inv[OF Suc.prems d] have "q_inv q'" by simp
  note IH = Suc.IH[OF this]
  have "snd (run_steps (\<lambda>q _. queue_drain q m) q (replicate (Suc n) ())) =
        out # snd (run_steps (\<lambda>q _. queue_drain q m) q' (replicate n ()))"
    by (simp add: run_steps_Cons d del: run_steps.simps(2))
  with IH queue_drain_frame[OF Suc.prems assms(2) d] show ?case
    by (cases "queue_frames m q") simp_all
qed

definition two_items :: audio_queue where
  "two_items = fst (queue_add_buffer True (fst (queue_add_buffer True demo_queue (Some [1, 2, 3]) 1 0))
     (Some [9]) 5 0)"

lemma two_items_inv: "q_inv two_items"
  by (simp add: two_items_def queue_add_inv demo_queue_inv)

lemma two_items_frames: "queue_frames 2 two_items = [[9, 0], [1, 2], [3, 0]]"
  by (simp add: two_items_def queue_add_buffer_def queue_enqueue_spec demo_queue_def queue_mid_playback_def
      insert_prio_def new_item_def queue_frames_def gap_after_def pad_frames.simps)

theorem queue_plays_everything_witness:
  "snd (run_steps (\<lambda>q _. queue_drain q 2) two_items (replicate 4 ())) = [[9, 0], [1, 2], [3, 0], []]"
  using queue_plays_everything[OF two_items_inv, of 2 4] by (simp only: two_items_frames) simp

text \<open>A sequence of buffers added one after the other, and the items they become.\<close>

definition add_all :: "audio_queue \<Rightarrow> (int list \<times> int \<times> int) list \<Rightarrow> audio_queue" where
  "add_all = foldl (\<lambda>q (b, pri, fl). fst (queue_add_buffer True q (Some b) pri fl))"

fun arrivals :: "int \<Rightarrow> (int list \<times> int \<times> int) list \<Rightarrow> queue_item list" where
  "arrivals n [] = []"
| "arrivals n ((b, pri, fl) # xs) = (new_item QUEUE_AUDIO_BUFFER pri fl b)\<lparr>item_id := n\<rparr> # arrivals (n + 1) xs"

lemma add_buffer_step:
  assumes "q_count q < MAX_QUEUE_DEPTH" "b \<noteq> []"
  shows "fst (queue_add_buffer True q (Some b) pri fl) =
     q\<lparr>q_next_id := q_next_id q + 1, q_count := q_count q + 1,
       q_items := (if queue_mid_playback q
                   then q_items q @ [(new_item QUEUE_AUDIO_BUFFER pri fl b)\<lparr>item_id := q_next_id q\<rparr>]
                   else insert_prio ((new_item QUEUE_AUDIO_BUFFER pri fl b)\<lparr>item_id := q_next_id q\<rparr>) (q_items q))\<rparr>"
  using assms by (simp add: queue_add_buffer_def queue_enqueue_spec)

lemma add_all_mid:
  assumes "queue_mid_playback q" "\<forall>(b, pri, fl) \<in> set xs. b \<noteq> []"
    "q_count q + int (length xs) \<le> MAX_QUEUE_DEPTH"
  shows "q_items (add_all q xs) = q_items q @ arrivals (q_next_id q) xs \<and> queue_mid_playback (add_all q xs)"
  using assms
proof (induction xs arbitrary: q)
  case Nil
  then show ?case by (simp add: add_all_def)
next
  case (Cons x xs)
  obtain b pri fl where x: "x = (b, pri, fl)" by (metis prod.exhaust)
  define q1 where "q1 = fst (queue_add_buffer True q (Some b) pri fl)"
  have q1: "q1 = q\<lparr>q_next_id := q_next_id q + 1, q_count := q_count q + 1,
      q_items := q_items q @ [(new_item QUEUE_AUDIO_BUFFER pri fl b)\<lparr>item_id := q_next_id q\<rparr>]\<rparr>"
    unfolding q1_def using Cons.prems x by (subst add_buffer_step) simp_all
  have "queue_mid_playback q1" using Cons.prems(1) unfolding q1 by (simp add: queue_mid_playback_def)
  with Cons.IH[of q1] Cons.prems(2,3)
  have "q_items (add_all q1 xs) = q_items q1 @ arrivals (q_next_id q1) xs \<and> queue_mid_playback (add_all q1 xs)"
    by (simp add: q1)
  moreover have "add_all q (x # xs) = add_all q1 xs" by (simp add: add_all_def x q1_def)
  ultimately show ?case by (simp add: x q1)
qed

lemma add_all_idle:
  assumes "\<not> queue_mid_playback q" "\<forall>(b, pri, fl) \<in> set xs. b \<noteq> []"
    "q_count q + int (length xs) \<le> MAX_QUEUE_DEPTH"
  shows "q_items (add_all q xs) = foldl (\<lambda>its it. insert_prio it its) (q_items q) (arrivals (q_next_id q) xs)"
  using assms
proof (induction xs arbitrary: q)
  case Nil
  then show ?case by (simp add: add_all_def)
next
  case (Cons x xs)
  obtain b pri fl where x: "x = (b, pri, fl)" by (metis prod.exhaust)
  define q1 where "q1 = fst (queue_add_buffer True q (Some b) pri fl)"
  have q1: "q1 = q\<lparr>q_next_id := q_next_id q + 1, q_count := q_count q + 1,
      q_items := insert_prio ((new_item QUEUE_AUDIO_BUFFER pri fl b)\<lparr>item_id := q_next_id q\<rparr>) (q_items q)\<rparr>"
    unfolding q1_def using Cons.prems x by (subst add_buffer_step) simp_all
  have "\<not> queue_mid_playback q1" using Cons.prems(1) unfolding q1 by (simp add: queue_mid_playback_def)
  with Cons.IH[of q1] Cons.prems(2,3)
  have "q_items (add_all q1 xs) = foldl (\<lambda>its it. insert_prio it its) (q_items q1) (arrivals (q_next_id q1) xs)"
    by (simp add: q1)
  moreover have "add_all q (x # xs) = add_all q1 xs" by (simp add: add_all_def x q1_def)
  ultimately show ?case by (simp add: x q1)
qed

text \<open>On a list in priority order, insertion keeps the order and puts equals last: it is stable.\<close>

abbreviation prio_sorted :: "queue_item list \<Rightarrow> bool" where
  "prio_sorted its \<equiv> sorted_wrt (\<lambda>x y. item_priority x \<ge> item_priority y) its"

lemma prio_split:
  assumes "prio_sorted its"
  shows "takeWhile (\<lambda>x. item_priority x \<ge> p) its = filter (\<lambda>x. item_priority x \<ge> p) its \<and>
         dropWhile (\<lambda>x. item_priority x \<ge> p) its = filter (\<lambda>x. \<not> item_priority x \<ge> p) its"
  using assms
proof (induction its)
  case (Cons y ys)
  show ?case
  proof (cases "item_priority y \<ge> p")
    case True
    with Cons show ?thesis by simp
  next
    case False
    with Cons.prems have "\<forall>z \<in> set ys. \<not> item_priority z \<ge> p" by auto
    with False show ?thesis by (auto simp: filter_empty_conv intro!: filter_True[symmetric])
  qed
qed simp

lemma insert_prio_sorted:
  assumes "prio_sorted its"
  shows "prio_sorted (insert_prio it its)"
  using assms unfolding insert_prio_def prio_split[OF assms, THEN conjunct1] prio_split[OF assms, THEN conjunct2]
  by (auto simp: sorted_wrt_append sorted_wrt_filter)

lemma insert_prio_stable:
  assumes "prio_sorted its"
  shows "filter (\<lambda>x. item_priority x = k) (insert_prio it its) =
         filter (\<lambda>x. item_priority x = k) its @ (if item_priority it = k then [it] else [])"
proof -
  have a: "filter (\<lambda>x. item_priority x = k) (filter (\<lambda>x. item_priority x \<ge> p) its) =
        (if p \<le> k then filter (\<lambda>x. item_priority x = k) its else [])" for p
    by (auto simp: filter_empty_conv intro!: filter_cong)
  have b: "filter (\<lambda>x. item_priority x = k) (filter (\<lambda>x. \<not> item_priority x \<ge> p) its) =
        (if p \<le> k then [] else filter (\<lambda>x. item_priority x = k) its)" for p
    by (auto simp: filter_empty_conv intro!: filter_cong)
  show ?thesis
    unfolding insert_prio_def prio_split[OF assms, THEN conjunct1] prio_split[OF assms, THEN conjunct2]
      filter_append filter.simps a b by auto
qed

lemma fold_insert_prio:
  "prio_sorted (foldl (\<lambda>its it. insert_prio it its) [] xs) \<and>
   filter (\<lambda>x. item_priority x = k) (foldl (\<lambda>its it. insert_prio it its) [] xs) =
     filter (\<lambda>x. item_priority x = k) xs \<and>
   mset (foldl (\<lambda>its it. insert_prio it its) [] xs) = mset xs"
  by (induction xs rule: rev_induct) (simp_all add: insert_prio_sorted insert_prio_stable)

lemma fold_insert_sort:
  "foldl (\<lambda>its it. insert_prio it its) [] xs = sort_key (\<lambda>it. - item_priority it) xs"
proof (rule properties_for_sort_key[symmetric])
  let ?ys = "foldl (\<lambda>its it. insert_prio it its) [] xs"
  show "mset ?ys = mset xs" using fold_insert_prio by blast
  show "filter (\<lambda>x. - item_priority k = - item_priority x) ?ys =
        filter (\<lambda>x. - item_priority k = - item_priority x) xs" for k
    using fold_insert_prio[of xs "item_priority k"] by (simp add: eq_commute)
  show "sorted (map (\<lambda>it. - item_priority it) ?ys)"
    using fold_insert_prio[of xs] by (simp add: sorted_map)
qed

text \<open>
  C19. While the queue is idle it is a stable priority queue: buffers added one after the other
  to an empty idle queue, up to its capacity, wait in the order of descending priority, and in
  the order of arrival among equal priorities.
\<close>

theorem queue_priority_order:
  assumes "q_items q = []" "q_count q = 0" "\<not> queue_mid_playback q"
    and "\<forall>(b, pri, fl) \<in> set xs. b \<noteq> []" "int (length xs) \<le> MAX_QUEUE_DEPTH"
  shows "q_items (add_all q xs) = sort_key (\<lambda>it. - item_priority it) (arrivals (q_next_id q) xs)"
  using add_all_idle[OF assms(3,4)] assms by (simp add: fold_insert_sort)

theorem queue_priority_order_witness:
  "map item_id (q_items (add_all demo_queue [([1], 1, 0), ([2], 5, 0), ([3], 1, 0), ([4], 5, 0)])) = [2, 4, 1, 3]"
proof -
  have "q_items (add_all demo_queue [([1], 1, 0), ([2], 5, 0), ([3], 1, 0), ([4], 5, 0)]) =
    sort_key (\<lambda>it. - item_priority it)
      (arrivals (q_next_id demo_queue) [([1], 1, 0), ([2], 5, 0), ([3], 1, 0), ([4], 5, 0)])"
    by (rule queue_priority_order) (simp_all add: demo_queue_def queue_mid_playback_def)
  then show ?thesis by (simp add: demo_queue_def new_item_def)
qed

text \<open>
  While a batch plays the queue is first-in first-out: whatever their priorities, buffers
  added between the first load and the end of the batch are appended in the order of arrival,
  so nothing overtakes what is already queued.
\<close>

theorem queue_fifo_during_batch:
  assumes "queue_mid_playback q" "\<forall>(b, pri, fl) \<in> set xs. b \<noteq> []"
    "q_count q + int (length xs) \<le> MAX_QUEUE_DEPTH"
  shows "q_items (add_all q xs) = q_items q @ arrivals (q_next_id q) xs"
  using add_all_mid[OF assms] by simp

theorem queue_fifo_during_batch_witness:
  "map item_id (q_items (add_all (demo_queue\<lparr>q_batch_active := True\<rparr>) [([1], 1, 0), ([2], 5, 0)])) = [1, 2]"
proof -
  have "q_items (add_all (demo_queue\<lparr>q_batch_active := True\<rparr>) [([1], 1, 0), ([2], 5, 0)]) =
    q_items (demo_queue\<lparr>q_batch_active := True\<rparr>) @
      arrivals (q_next_id (demo_queue\<lparr>q_batch_active := True\<rparr>)) [([1], 1, 0), ([2], 5, 0)]"
    by (rule queue_fifo_during_batch) (simp_all add: demo_queue_def queue_mid_playback_def)
  then show ?thesis by (simp add: demo_queue_def)
qed

text \<open>
  A full queue refuses every add: file, buffer, tone or silence, the call returns -1 and
  the waiting items, the count and the drain are untouched, tagged variants included.
\<close>

theorem queue_full_refuses:
  assumes "q_count q \<ge> MAX_QUEUE_DEPTH"
    and "op = Add_file p rd pri \<or> op = Add_buffer b pri fl src \<or> op = Add_tone f d a pri src \<or>
         op = Add_silence d pri src"
  shows "(\<exists>n. queue_exec rs te mem q op = q\<lparr>q_next_id := n\<rparr>) \<and>
         snd (queue_add_file rs mem q p rd pri) = -1 \<and> snd (queue_add_buffer_src mem q b pri fl src) = -1 \<and>
         snd (queue_add_tone_src te mem q f d a pri src) = -1 \<and>
         snd (queue_add_silence_src mem q d pri src) = -1"
proof -
  have e: "queue_enqueue q it = (q\<lparr>q_next_id := q_next_id q + 1\<rparr>, -1)" for it
    using assms(1) by (simp add: queue_enqueue_spec)
  have self: "\<exists>n. q = q\<lparr>q_next_id := n\<rparr>" by (rule exI[of _ "q_next_id q"]) simp
  have nxt: "\<exists>n. q\<lparr>q_next_id := q_next_id q + 1\<rparr> = q\<lparr>q_next_id := n\<rparr>" by blast
  have r1: "\<exists>n. queue_add_file rs mem q p rd pri = (q\<lparr>q_next_id := n\<rparr>, -1)"
    using self nxt by (simp add: queue_add_file_def e Let_def split: option.split)
  have r2: "\<exists>n. queue_add_buffer mem q b pri fl = (q\<lparr>q_next_id := n\<rparr>, -1)"
    using self nxt by (simp add: queue_add_buffer_def e split: option.split)
  have r3: "\<exists>n. queue_add_tone te mem q f d a pri = (q\<lparr>q_next_id := n\<rparr>, -1)"
    using self nxt by (simp add: queue_add_tone_def e Let_def)
  have r4: "\<exists>n. queue_add_silence mem q d pri = (q\<lparr>q_next_id := n\<rparr>, -1)"
    using self nxt by (simp add: queue_add_silence_def e)
  have t: "tag_added src (q\<lparr>q_next_id := n\<rparr>, -1) = (q\<lparr>q_next_id := n\<rparr>, -1)" for n
    by (simp add: tag_added_def)
  obtain n1 n2 n3 n4 where
    "queue_add_file rs mem q p rd pri = (q\<lparr>q_next_id := n1\<rparr>, -1)"
    "queue_add_buffer mem q b pri fl = (q\<lparr>q_next_id := n2\<rparr>, -1)"
    "queue_add_tone te mem q f d a pri = (q\<lparr>q_next_id := n3\<rparr>, -1)"
    "queue_add_silence mem q d pri = (q\<lparr>q_next_id := n4\<rparr>, -1)"
    using r1 r2 r3 r4 by blast
  then show ?thesis using assms(2) t
    by (auto simp: queue_add_buffer_src_def queue_add_tone_src_def queue_add_silence_src_def)
qed

theorem queue_full_refuses_witness:
  "snd (queue_add_buffer_src True (demo_queue\<lparr>q_count := 256\<rparr>) (Some [1]) 3 0 (Some ''tts'')) = -1"
  using queue_full_refuses[of "demo_queue\<lparr>q_count := 256\<rparr>" "Add_buffer (Some [1]) 3 0 (Some ''tts'')"
      None None 3 "Some [1]" 0 "Some ''tts''"] by simp

subsection \<open>Tags, flush and preemption\<close>

lemma drain_copy_tags [simp]:
  "q_drain_source (fst (drain_copy q m)) = q_drain_source q"
  "q_last_drain_flags (fst (drain_copy q m)) = q_last_drain_flags q"
  "q_items (fst (drain_copy q m)) = q_items q"
  by (simp_all add: drain_copy_def Let_def)

text \<open>The first drain call on a queue that holds a single buffer.\<close>

lemma drain_single:
  assumes "q_items q = [it]" "item_type it = QUEUE_AUDIO_BUFFER" "item_buf it = Some b"
    "\<not> q_draining q" "q_gap_remaining q = 0" "0 < m"
  shows "queue_drain_source (fst (queue_drain q m)) = c_trunc QUEUE_SOURCE_MAX (item_source it) \<and>
         queue_drain_flags (fst (queue_drain q m)) = item_flags it \<and> q_items (fst (queue_drain q m)) = []"
  using assms
  by (simp add: queue_drain_def load_next_item_def Let_def load_item_def queue_drain_source_def queue_drain_flags_def)

text \<open>
  A source tag reaches the drain only if it wins a race: on an idle empty queue, a buffer
  tagged before the audio thread drains is reported with its tag (at most 15 characters) and
  flags; but the tagged adds insert and tag in two critical sections, and a drain call in
  between starts the item with an empty source and leaves the tag nothing to change.
\<close>

theorem queue_tag_race:
  assumes "q_items q = []" "q_count q = 0" "\<not> queue_mid_playback q" "0 < q_next_id q" "b \<noteq> []" "0 < m"
    and "queue_add_buffer True q (Some b) pri fl = (q1, i)"
  shows "queue_drain_source (fst (queue_drain (queue_tag_item q1 i (Some s)) m)) = c_trunc QUEUE_SOURCE_MAX s \<and>
         queue_drain_flags (fst (queue_drain (queue_tag_item q1 i (Some s)) m)) = fl \<and>
         queue_tag_item (fst (queue_drain q1 m)) i (Some s) = fst (queue_drain q1 m) \<and>
         queue_drain_source (fst (queue_drain q1 m)) = ''''"
proof -
  define it where "it = (new_item QUEUE_AUDIO_BUFFER pri fl b)\<lparr>item_id := q_next_id q\<rparr>"
  have q1: "q1 = q\<lparr>q_next_id := q_next_id q + 1, q_count := 1, q_items := [it]\<rparr>" "i = item_id it"
    using assms by (auto simp: queue_add_buffer_def queue_enqueue_spec insert_prio_def it_def)
  have it: "item_type it = QUEUE_AUDIO_BUFFER" "item_buf it = Some b" "item_source it = ''''" "item_flags it = fl"
    by (simp_all add: it_def new_item_def)
  have idle: "\<not> q_draining q1" "q_gap_remaining q1 = 0"
    using assms(3) q1 by (simp_all add: queue_mid_playback_def)
  have tagged: "queue_tag_item q1 i (Some s) = q1\<lparr>q_items := [it\<lparr>item_source := c_trunc QUEUE_SOURCE_MAX s\<rparr>]\<rparr>"
    using q1 by (simp add: queue_tag_item_def)
  from drain_single[of "queue_tag_item q1 i (Some s)" "it\<lparr>item_source := c_trunc QUEUE_SOURCE_MAX s\<rparr>" b m]
  have "queue_drain_source (fst (queue_drain (queue_tag_item q1 i (Some s)) m)) = c_trunc QUEUE_SOURCE_MAX s"
    "queue_drain_flags (fst (queue_drain (queue_tag_item q1 i (Some s)) m)) = fl"
    using it idle assms(6) tagged by simp_all
  moreover from drain_single[of q1 it b m] it idle assms(6) q1
  have "queue_drain_source (fst (queue_drain q1 m)) = ''''" "q_items (fst (queue_drain q1 m)) = []"
    by (simp_all add: c_trunc_def)
  moreover from this(2) have "queue_tag_item (fst (queue_drain q1 m)) i (Some s) = fst (queue_drain q1 m)"
    by (simp add: queue_tag_item_def)
  ultimately show ?thesis by simp
qed

theorem queue_tag_race_witness:
  "queue_drain_source (fst (queue_drain (fst (queue_add_buffer True demo_queue (Some [7]) 1 0)) 4)) = ''''"
proof -
  obtain q1 i where r: "queue_add_buffer True demo_queue (Some [7]) 1 0 = (q1, i)" by (metis surj_pair)
  have "q_items demo_queue = []" "q_count demo_queue = 0" "\<not> queue_mid_playback demo_queue"
    "0 < q_next_id demo_queue" by (simp_all add: demo_queue_def queue_mid_playback_def)
  from queue_tag_race[OF this _ _ r, of 4] r show ?thesis by simp
qed

text \<open>
  A preemption leaves nothing to play and an idle queue, and counts the item in progress;
  a flush empties the list but keeps a gap that was pending, so after it the queue still
  counts as playing, the next add ignores its priority and the next drain call returns
  silence instead of the item.
\<close>

theorem queue_flush_keeps_gap:
  assumes "q_inv q" "0 < m" "0 < q_gap_remaining q"
  shows "queue_frames m (fst (queue_flush q)) = gap_frames m (q_gap_remaining q) \<and>
         queue_mid_playback (fst (queue_flush q)) \<and>
         snd (queue_drain (fst (queue_enqueue (fst (queue_flush q)) it)) m) = replicate m 0 \<and>
         queue_frames m (fst (queue_preempt q sz)) = [] \<and> \<not> queue_mid_playback (fst (queue_preempt q sz)) \<and>
         snd (queue_flush q) = nat (q_count q) \<and>
         snd (snd (queue_preempt q sz)) = nat (q_count q) + of_bool (q_draining q)"
  using assms
  by (simp add: queue_flush_def queue_preempt_def queue_frames_def queue_mid_playback_def Let_def
      queue_enqueue_spec queue_drain_def drain_gap_def q_inv_def)

definition gap_queue :: audio_queue where
  "gap_queue = demo_queue\<lparr>q_batch_active := True, q_gap_remaining := 80\<rparr>"

theorem queue_flush_keeps_gap_witness:
  "snd (queue_drain (fst (queue_enqueue (fst (queue_flush gap_queue)) (new_item QUEUE_AUDIO_BUFFER 9 0 [5]))) 2) = [0, 0]"
proof -
  have "q_inv gap_queue" "0 < q_gap_remaining gap_queue"
    using demo_queue_inv by (simp_all add: gap_queue_def q_inv_def drain_ok_def demo_queue_def)
  from queue_flush_keeps_gap[OF this(1) _ this(2), of 2 "new_item QUEUE_AUDIO_BUFFER 9 0 [5]" 16]
  show ?thesis by (simp add: numeral_2_eq_2)
qed

subsection \<open>The queue as a source of frames\<close>

lemma pad_frames_length: "0 < m \<Longrightarrow> fr \<in> set (pad_frames m b) \<Longrightarrow> length fr = m"
proof (induction m b rule: pad_frames.induct)
  case (1 m b)
  show ?case
  proof (cases "m = 0 \<or> length b \<le> m")
    case True
    with 1(2,3) show ?thesis by (simp add: pad_frames.simps[of m b])
  next
    case False
    with 1(3) have "fr = take m b \<or> fr \<in> set (pad_frames m (drop m b))"
      by (simp add: pad_frames.simps[of m b])
    with 1(1)[OF False 1(2)] False show ?thesis by auto
  qed
qed

lemma gap_frames_length: "fr \<in> set (gap_frames m g) \<Longrightarrow> length fr = m"
  by (simp add: gap_frames_def)

lemma gap_after_length: "fr \<in> set (gap_after m g ty rest) \<Longrightarrow> length fr = m"
  by (auto simp: gap_after_def gap_frames_length split: if_splits)

lemma items_frames_length: "0 < m \<Longrightarrow> fr \<in> set (items_frames m g its) \<Longrightarrow> length fr = m"
  by (induction its) (auto simp: pad_frames_length gap_after_length split: if_splits)

lemma queue_frames_length: "0 < m \<Longrightarrow> fr \<in> set (queue_frames m q) \<Longrightarrow> length fr = m"
  by (auto simp: queue_frames_def pad_frames_length gap_after_length gap_frames_length
      items_frames_length split: if_splits)

lemma queue_drain_end:
  assumes "q_inv q" "0 < m" "queue_drain q m = (q', out)" "queue_frames m q = []"
  shows "queue_depth q' = 0 \<and> \<not> queue_is_draining q'"
proof -
  have out: "out = []" using queue_drain_frame[OF assms(1-3)] assms(4) by simp
  have l: "list_ok (q\<lparr>q_draining := False\<rparr>)" using assms(1) by (simp add: q_inv_split)
  from assms(3) show ?thesis
  proof (cases rule: queue_drain_cases)
    case empty
    with load_loop_ok[OF l _ empty(4)] show ?thesis
      by (simp add: list_ok_def queue_depth_def queue_is_draining_def)
  next
    case (load q1)
    with load_loop_ok[OF l _ load(4)] drain_copy_ok[OF _ _ load(5,1)] out show ?thesis by simp
  next
    case copy
    then have "loaded q" using assms(1) by (auto simp: q_inv_def drain_ok_def loaded_def)
    with drain_copy_ok[OF _ this copy(5,1)] assms(1) out copy(1) show ?thesis by (simp add: q_inv_split)
  qed (use assms(2) out in simp_all)
qed

text \<open>A call that empties a queue with something to pull leaves no gap behind.\<close>

lemma queue_drain_last:
  assumes "q_inv q" "0 < m" "queue_drain q m = (q', out)" "queue_depth q > 0 \<or> queue_is_draining q"
    and "queue_depth q' = 0 \<and> \<not> queue_is_draining q'"
  shows "queue_frames m q' = []"
proof -
  have it: "q_items q' = []" "\<not> q_draining q'"
    using queue_drain_inv[OF assms(1,3)] assms(5)
    by (auto simp: q_inv_def queue_depth_def queue_is_draining_def)
  have copied: "q_gap_remaining q' = q_gap_remaining q1" if "drain_copy q1 m = (q', out)" for q1
    using that it(1) by (auto simp: drain_copy_def Let_def split: if_splits)
  have l: "list_ok (q\<lparr>q_draining := False\<rparr>)" using assms(1) by (simp add: q_inv_split)
  from assms(3) have "q_gap_remaining q' = 0"
  proof (cases rule: queue_drain_cases)
    case gap
    with assms(4,5) show ?thesis by (simp add: queue_depth_def queue_is_draining_def)
  next
    case empty
    with load_loop_ok[OF l _ empty(4)] show ?thesis by simp
  next
    case (load q1)
    with load_loop_ok[OF l _ load(4)] copied show ?thesis by simp
  next
    case copy
    with copied show ?thesis by simp
  qed (use assms(2) in simp)
  with it assms(2) show ?thesis by (simp add: queue_frames_def)
qed

interpretation aq: frame_source q_inv queue_depth queue_is_draining queue_drain queue_frames
proof unfold_locales
  show "q_inv q \<Longrightarrow> queue_drain q m = (q', out) \<Longrightarrow> q_inv q'" for q m q' out
    using queue_drain_inv by blast
  show "q_inv q \<Longrightarrow> 0 < m \<Longrightarrow> queue_drain q m = (q', out) \<Longrightarrow>
      (case queue_frames m q of [] \<Rightarrow> out = [] \<and> queue_frames m q' = []
       | fr # frs \<Rightarrow> out = fr \<and> queue_frames m q' = frs)" for q m q' out
    by (rule queue_drain_frame)
  show "q_inv q \<Longrightarrow> 0 < m \<Longrightarrow> queue_drain q m = (q', out) \<Longrightarrow> queue_frames m q = [] \<Longrightarrow>
      queue_depth q' = 0 \<and> \<not> queue_is_draining q'" for q m q' out
    by (rule queue_drain_end)
  show "q_inv q \<Longrightarrow> 0 < m \<Longrightarrow> queue_drain q m = (q', out) \<Longrightarrow> queue_depth q > 0 \<or> queue_is_draining q \<Longrightarrow>
      queue_depth q' = 0 \<and> \<not> queue_is_draining q' \<Longrightarrow> queue_frames m q' = []" for q m q' out
    by (rule queue_drain_last)
  show "q_inv q \<Longrightarrow> 0 < m \<Longrightarrow> fr \<in> set (queue_frames m q) \<Longrightarrow> length fr = m" for q m fr
    by (rule queue_frames_length)
  show "q_inv q \<Longrightarrow> 0 \<le> queue_depth q" for q
    by (simp add: q_inv_def queue_depth_def)
qed

end
