(* ===== verification/Audio_Thread.thy ===== *)
theory Audio_Thread
  imports Queue_Props Tx_Props
begin

text \<open>
  The transmit part of the audio thread (\<open>audio_thread_fn\<close> of \<open>src/main.c\<close>): it samples its
  inputs from the core, the playback ring and the queue, calls the pure tick, and executes the
  actions in order; up to three passes per tick while the tick asks for a rerun. The queue is
  any source of frames that keeps the laws of the interface, and the properties are stated on
  the model of the queue. What becomes of the samples in the playback ring is in \<open>Thread_Ring\<close>.
\<close>

subsection \<open>Passes and ticks of the thread\<close>

text \<open>What the thread samples besides the queue.\<close>

record tx_env =
  e_receiving :: bool
  e_ptt_held :: bool
  e_writable :: nat
  e_pending :: nat
  e_now :: "64 word"

definition sample_tx_in :: "('q \<Rightarrow> int) \<Rightarrow> ('q \<Rightarrow> bool) \<Rightarrow> 'q \<Rightarrow> tx_env \<Rightarrow> tx_in" where
  "sample_tx_in depth draining q e =
     \<lparr>in_relay_active = e_receiving e, in_ptt_held = e_ptt_held e, in_queue_depth = depth q,
      in_queue_is_draining = draining q, in_play_writable = e_writable e,
      in_play_pending = e_pending e, in_now_us = e_now e\<rparr>"

text \<open>What the shell does: requests to the core, events, samples to the ring and the taps.\<close>

datatype tx_effect =
    Request_PTT string
  | Release_PTT_ref string
  | Event_queue_drain "64 word"
  | Event_queue_complete "64 word" "32 word"
  | Play_silence int
  | Play "int list"

fun exec_action ::
  "('q \<Rightarrow> nat \<Rightarrow> 'q \<times> int list) \<Rightarrow> (int list \<Rightarrow> int list) \<Rightarrow> 64 word \<Rightarrow> 'q \<Rightarrow> tx_action \<Rightarrow>
   'q \<times> tx_effect list" where
  "exec_action pull scramble now q Assert_PTT = (q, [Request_PTT ''queue''])"
| "exec_action pull scramble now q Fire_Drain = (q, [Event_queue_drain now])"
| "exec_action pull scramble now q (Fire_Complete d) = (q, [Event_queue_complete now d])"
| "exec_action pull scramble now q (Silence n) = (q, [Play_silence n])"
| "exec_action pull scramble now q (Drain n) =
     (let (q', out) = pull q (nat n) in (q', if out \<noteq> [] then [Play (scramble out)] else []))"
| "exec_action pull scramble now q Release_PTT = (q, [Release_PTT_ref ''queue''])"

fun exec_actions ::
  "('q \<Rightarrow> nat \<Rightarrow> 'q \<times> int list) \<Rightarrow> (int list \<Rightarrow> int list) \<Rightarrow> 64 word \<Rightarrow> 'q \<Rightarrow> tx_action list \<Rightarrow>
   'q \<times> tx_effect list" where
  "exec_actions pull scramble now q [] = (q, [])"
| "exec_actions pull scramble now q (a # as) =
     (let (q1, e1) = exec_action pull scramble now q a;
          (q2, e2) = exec_actions pull scramble now q1 as
      in (q2, e1 @ e2))"

text \<open>One pass: sample, tick, execute. The last component is the rerun flag.\<close>

definition audio_pass ::
  "('q \<Rightarrow> int) \<Rightarrow> ('q \<Rightarrow> bool) \<Rightarrow> ('q \<Rightarrow> nat \<Rightarrow> 'q \<times> int list) \<Rightarrow> (int list \<Rightarrow> int list) \<Rightarrow>
   int \<Rightarrow> int \<Rightarrow> audio_state \<times> 'q \<Rightarrow> tx_env \<Rightarrow> (audio_state \<times> 'q) \<times> tx_effect list \<times> bool" where
  "audio_pass depth draining pull scramble rate f st e =
     (let (s, q) = st;
          (s', acts, rr) = audio_tick_tx s (sample_tx_in depth draining q e) rate f;
          (q', effs) = exec_actions pull scramble (e_now e) q acts
      in ((s', q'), effs, rr))"

text \<open>One tick: the environments are those sampled by its passes, at most three are used.\<close>

fun audio_tx_tick ::
  "('q \<Rightarrow> int) \<Rightarrow> ('q \<Rightarrow> bool) \<Rightarrow> ('q \<Rightarrow> nat \<Rightarrow> 'q \<times> int list) \<Rightarrow> (int list \<Rightarrow> int list) \<Rightarrow>
   int \<Rightarrow> int \<Rightarrow> nat \<Rightarrow> audio_state \<times> 'q \<Rightarrow> tx_env list \<Rightarrow> (audio_state \<times> 'q) \<times> tx_effect list" where
  "audio_tx_tick depth draining pull scramble rate f (Suc n) st (e # es) =
     (let (st1, effs, rr) = audio_pass depth draining pull scramble rate f st e
      in if rr then (let (st2, effs2) = audio_tx_tick depth draining pull scramble rate f n st1 es
                     in (st2, effs @ effs2))
         else (st1, effs))"
| "audio_tx_tick depth draining pull scramble rate f n st es = (st, [])"

text \<open>A run of passes.\<close>

definition pass_step where
  "pass_step depth draining pull scramble rate f st e =
     (let (st', effs, rr) = audio_pass depth draining pull scramble rate f st e in (st', effs))"

abbreviation pass_run where
  "pass_run depth draining pull scramble rate f \<equiv> run_steps (pass_step depth draining pull scramble rate f)"

fun played :: "tx_effect list \<Rightarrow> int list list" where
  "played [] = []"
| "played (Play out # es) = out # played es"
| "played (e # es) = played es"

lemma played_append [simp]: "played (xs @ ys) = played xs @ played ys"
  by (induction xs rule: played.induct) simp_all

lemma played_concat_Cons: "played (concat (x # xs)) = played x @ played (concat xs)"
  by simp

lemma audio_passE:
  assumes "audio_pass depth draining pull scramble rate f (s, q) e = ((s', q'), effs, rr)"
  obtains acts where "audio_tick_tx s (sample_tx_in depth draining q e) rate f = (s', acts, rr)"
    "exec_actions pull scramble (e_now e) q acts = (q', effs)"
  using assms by (auto simp: audio_pass_def Let_def split: prod.splits)

lemma pass_run_ConsE:
  assumes "pass_run depth draining pull scramble rate f (s, q) (e # es) = (st', outs)"
  obtains s1 q1 effs rr outs' where
    "audio_pass depth draining pull scramble rate f (s, q) e = ((s1, q1), effs, rr)"
    "pass_run depth draining pull scramble rate f (s1, q1) es = (st', outs')" "outs = effs # outs'"
proof -
  obtain s1 q1 effs rr where 1: "audio_pass depth draining pull scramble rate f (s, q) e = ((s1, q1), effs, rr)"
    by (metis surj_pair)
  obtain st2 outs' where 2: "pass_run depth draining pull scramble rate f (s1, q1) es = (st2, outs')"
    by (metis surj_pair)
  have "pass_step depth draining pull scramble rate f (s, q) e = ((s1, q1), effs)"
    by (simp add: pass_step_def 1)
  with assms 2 have "st2 = st'" "outs = effs # outs'" by simp_all
  with that 1 2 show thesis by blast
qed

lemma drains_member:
  assumes "Drain n \<in> set acts" "filter is_drain acts = [] \<or> filter is_drain acts = [Drain f]"
  shows "nat n = nat f"
proof -
  have "Drain n \<in> set (filter is_drain acts)" using assms(1) by simp
  with assms(2) show ?thesis
    by (metis empty_iff empty_set set_ConsD tx_action.inject(3))
qed

lemma exec_no_drain:
  "filter is_drain acts = [] \<Longrightarrow> exec_actions pull scramble now q acts = (q', effs) \<Longrightarrow>
   q' = q \<and> played effs = []"
proof (induction acts arbitrary: effs)
  case (Cons a acts)
  then show ?case by (cases a) (auto simp: Let_def split: prod.splits)
qed simp

lemma exec_one_drain:
  "filter is_drain acts = [Drain f] \<Longrightarrow> exec_actions pull scramble now q acts = (q', effs) \<Longrightarrow>
   q' = fst (pull q (nat f))"
proof (induction acts arbitrary: effs)
  case (Cons a acts)
  show ?case
  proof (cases "is_drain a")
    case True
    with Cons.prems(1) have a: "a = Drain f" "filter is_drain acts = []" by auto
    obtain qn out where d: "pull q (nat f) = (qn, out)" by (metis surj_pair)
    obtain e2 where "exec_actions pull scramble now qn acts = (q', e2)"
      using Cons.prems(2) a(1) d by (auto split: prod.splits)
    from exec_no_drain[OF a(2) this] d show ?thesis by simp
  next
    case False
    with Cons.prems(1) have f: "filter is_drain acts = [Drain f]" by simp
    have "\<exists>e2. exec_actions pull scramble now q acts = (q', e2)"
      using Cons.prems(2) False by (cases a) (auto split: prod.splits)
    with Cons.IH[OF f] show ?thesis by blast
  qed
qed simp

subsection \<open>Progress while there is audio\<close>

text \<open>The passes that the start, the delay and a tail cancel can still take.\<close>

definition busy_left :: "int \<Rightarrow> int \<Rightarrow> audio_state \<Rightarrow> nat" where
  "busy_left rate f s =
     (if queue_ptt s then frames f (tx_delay_rem s) + of_bool (tx_tail_rem s > 0)
      else frames f (cdiv (rate * tx_delay_ms s) 1000))"

lemma tx_busy_pass:
  assumes "tx_inv s" "0 < rate" "0 < f" "audio_tick_tx s i rate f = (s', acts, rr)"
    and "tx_has_audio i" "\<not> in_relay_active i" "relay_drain s \<le> 0" "f \<le> int (in_play_writable i)"
    "0 \<le> in_queue_depth i"
  shows "filter is_drain acts \<noteq> [] \<and> busy_left rate f s' \<le> busy_left rate f s \<or>
         busy_left rate f s' < busy_left rate f s"
  using assms(1-4)
proof (cases rule: tx_pass_parts)
  case (1 s1 a1 ns s2 w2 xs d s3 w3 e s4 a4)
  note p = 1
  have np: "tx_paused s i = False" using assms(6,7) by (simp add: tx_paused_def)
  have "\<not> tail_runs (tx_paused s i) i d s3" using assms(5,9) by (auto simp: tx_has_audio_def)
  with p(22) have s4: "s4 = s3" "a4 = a1 @ map Silence ns @ xs" by (simp_all add: tx_tail_skip)
  have q1: "queue_ptt s1 \<and> busy_left rate f s1 \<le> busy_left rate f s"
    using p(1)
  proof (cases rule: tx_start_cases)
    case start
    then show ?thesis using assms(3) frames_mono[OF assms(3)]
      by (auto simp: busy_left_def)
  next
    case none
    with np assms(5) show ?thesis by simp
  qed
  from p(23) show ?thesis
  proof
    assume k: "s' = s4 \<and> acts = a4"
    show ?thesis
    proof (cases "tx_delay_rem s1 > 0")
      case True
      have "length a1 < TX_ACTIONS_MAX" using p(3) by simp
      from tx_delay_progress[OF p(24) _ _ assms(3) True assms(8) this] np q1
      have "frames f (tx_delay_rem s2) \<le> frames f (tx_delay_rem s1) - 1"
        by (intro frames_less[OF assms(3)]) simp
      with frames_pos[OF assms(3) True] have "frames f (tx_delay_rem s3) < frames f (tx_delay_rem s1)"
        using p(15) by simp
      then have "busy_left rate f s3 < busy_left rate f s1"
        using q1 p(13,14) by (simp add: busy_left_def)
      with k s4 q1 show ?thesis by simp
    next
      case False
      with p(2) have z: "tx_delay_rem s1 = 0" by (simp add: tx_inv_def)
      with p(10) have ns: "ns = []" by simp
      have "Drain f \<in> set (a1 @ map Silence ns @ xs)"
        using tx_drain_pulls[of i f s2 w2 "a1 @ map Silence ns" d s3 w3 "a1 @ map Silence ns @ xs"]
          p(3,6,11) np q1 assms(5) z ns by simp
      then have "Drain f \<in> set (filter is_drain a4)" using s4(2) by auto
      then have "filter is_drain a4 \<noteq> []" by (metis empty_iff empty_set)
      moreover have "busy_left rate f s3 \<le> busy_left rate f s1"
        using q1 p(6,13,14,15) z ns by (simp add: busy_left_def)
      ultimately show ?thesis using k s4 q1 by simp
    qed
  next
    assume "acts = [] \<and> \<not> e \<and> s1 = s \<and> s4 = s3 \<and> queue_ptt s \<and> tx_tail_rem s > 0 \<and> tx_delay_rem s = 0 \<and> ns = [] \<and>
       in_queue_depth i > 0 \<and>
       s' = s4\<lparr>tx_tail_rem := -1, queue_fired_drain := True, ptt_hold_ticks := 0\<rparr>"
    with p(6,13,15) assms(3) show ?thesis by (simp add: busy_left_def)
  qed
qed

subsection \<open>The client of the interface\<close>

context frame_source begin

text \<open>Executing actions plays what it pulls; only frames of the tick's size are pulled.\<close>

lemma exec_actions_accounts:
  assumes "src_inv q" "0 < m" "\<forall>n. Drain n \<in> set acts \<longrightarrow> nat n = m"
    and "exec_actions pull scramble now q acts = (q', effs)"
  shows "src_inv q' \<and> map scramble (frames_left m q) = played effs @ map scramble (frames_left m q')"
  using assms(1,3,4)
proof (induction acts arbitrary: q effs)
  case Nil
  then show ?case by simp
next
  case (Cons a acts)
  obtain q1 e1 where 1: "exec_action pull scramble now q a = (q1, e1)" by (metis surj_pair)
  from Cons.prems(3) 1 obtain e2 where 2: "exec_actions pull scramble now q1 acts = (q', e2)"
    and r: "effs = e1 @ e2" by (auto split: prod.splits)
  have "src_inv q1 \<and> map scramble (frames_left m q) = played e1 @ map scramble (frames_left m q1)"
  proof (cases a)
    case (Drain n)
    with Cons.prems(2) have n: "nat n = m" by simp
    obtain qn out where d: "pull q m = (qn, out)" by (metis surj_pair)
    with 1 Drain n have "q1 = qn" "e1 = (if out \<noteq> [] then [Play (scramble out)] else [])" by auto
    with pull_inv[OF Cons.prems(1) d] pull_accounts[OF Cons.prems(1) assms(2) d] show ?thesis by simp
  qed (use 1 Cons.prems(1) in auto)
  with Cons.IH[OF _ _ 2] Cons.prems(2) r show ?case by simp
qed


lemma pass_accounts:
  assumes "tx_inv s" "0 < rate" "0 < f" "src_inv q"
    and "audio_pass depth draining pull scramble rate f (s, q) e = ((s', q'), effs, rr)"
  shows "tx_inv s' \<and> src_inv q' \<and> tx_config_eq s' s \<and> (tx_bounded rate s \<longrightarrow> tx_bounded rate s') \<and>
         map scramble (frames_left (nat f) q) = played effs @ map scramble (frames_left (nat f) q')"
proof -
  from assms(5) obtain acts where t: "audio_tick_tx s (sample_tx_in depth draining q e) rate f = (s', acts, rr)"
    and x: "exec_actions pull scramble (e_now e) q acts = (q', effs)" by (rule audio_passE)
  have "Drain n \<in> set acts \<longrightarrow> nat n = nat f" for n
    using drains_member[of n acts f] tx_pass_drains[OF assms(1-3) t] by blast
  with exec_actions_accounts[OF assms(4) _ _ x, of "nat f"] assms(3)
    tx_pass[OF assms(1-3) t] tx_pass_config[OF assms(1-3) t] show ?thesis by simp
qed

lemma pass_run_accounts:
  assumes "tx_inv s" "0 < rate" "0 < f" "src_inv q"
    and "pass_run depth draining pull scramble rate f (s, q) es = ((s', q'), outs)"
  shows "tx_inv s' \<and> src_inv q' \<and> tx_config_eq s' s \<and> (tx_bounded rate s \<longrightarrow> tx_bounded rate s') \<and>
         map scramble (frames_left (nat f) q) = played (concat outs) @ map scramble (frames_left (nat f) q')"
  using assms(1,4,5)
proof (induction es arbitrary: s q outs)
  case Nil
  then show ?case by simp
next
  case (Cons e es)
  from Cons.prems(3) obtain s1 q1 effs rr outs' where
    1: "audio_pass depth draining pull scramble rate f (s, q) e = ((s1, q1), effs, rr)" and
    2: "pass_run depth draining pull scramble rate f (s1, q1) es = ((s', q'), outs')" and o: "outs = effs # outs'"
    by (rule pass_run_ConsE)
  from pass_accounts[OF Cons.prems(1) assms(2,3) Cons.prems(2) 1]
  have a: "tx_inv s1" "src_inv q1" "tx_config_eq s1 s" "tx_bounded rate s \<longrightarrow> tx_bounded rate s1"
    "map scramble (frames_left (nat f) q) = played effs @ map scramble (frames_left (nat f) q1)" by simp_all
  from Cons.IH[OF a(1,2) 2] a o show ?case by simp
qed

text \<open>The passes until nothing is left to pull.\<close>

definition passes_until_empty :: "int \<Rightarrow> int \<Rightarrow> audio_state \<Rightarrow> 'q \<Rightarrow> nat" where
  "passes_until_empty rate f s q =
     (if depth q > 0 \<or> draining q then busy_left rate f s + pulls_left (nat f) q else 0)"

lemma idle_pass:
  assumes "tx_inv s" "0 < rate" "0 < f" "\<not> (depth q > 0 \<or> draining q)"
    and "audio_pass depth draining pull scramble rate f (s, q) e = ((s', q'), effs, rr)"
  shows "q' = q \<and> played effs = []"
proof -
  from assms(5) obtain acts where t: "audio_tick_tx s (sample_tx_in depth draining q e) rate f = (s', acts, rr)"
    and x: "exec_actions pull scramble (e_now e) q acts = (q', effs)" by (rule audio_passE)
  have "\<not> tx_has_audio (sample_tx_in depth draining q e)"
    using assms(4) by (simp add: tx_has_audio_def sample_tx_in_def)
  with tx_pass_drains[OF assms(1-3) t] have "filter is_drain acts = []" by blast
  from exec_no_drain[OF this x] show ?thesis .
qed

lemma busy_pass:
  assumes "tx_inv s" "0 < rate" "0 < f" "src_inv q" "relay_drain s \<le> 0" "\<not> e_receiving e" "f \<le> int (e_writable e)"
    and "audio_pass depth draining pull scramble rate f (s, q) e = ((s', q'), effs, rr)"
  shows "passes_until_empty rate f s' q' \<le> passes_until_empty rate f s q - 1"
proof (cases "depth q > 0 \<or> draining q")
  case False
  with idle_pass[OF assms(1-3) False assms(8)] show ?thesis by (simp add: passes_until_empty_def)
next
  case True
  from assms(8) obtain acts where t: "audio_tick_tx s (sample_tx_in depth draining q e) rate f = (s', acts, rr)"
    and x: "exec_actions pull scramble (e_now e) q acts = (q', effs)" by (rule audio_passE)
  let ?i = "sample_tx_in depth draining q e"
  have i: "tx_has_audio ?i" "\<not> in_relay_active ?i" "f \<le> int (in_play_writable ?i)" "0 \<le> in_queue_depth ?i"
    using True assms(6,7) depth_nonneg[OF assms(4)] by (simp_all add: tx_has_audio_def sample_tx_in_def)
  have m: "0 < nat f" using assms(3) by simp
  from tx_busy_pass[OF assms(1-3) t i(1,2) assms(5) i(3,4)]
  consider (drained) "filter is_drain acts = [Drain f]" "busy_left rate f s' \<le> busy_left rate f s"
    | (quiet) "filter is_drain acts = []" "busy_left rate f s' < busy_left rate f s"
    | (both) "filter is_drain acts = [Drain f]" "busy_left rate f s' < busy_left rate f s"
    using tx_pass_drains[OF assms(1-3) t] by blast
  then show ?thesis
  proof cases
    case quiet
    with exec_no_drain[OF quiet(1) x] True show ?thesis by (simp add: passes_until_empty_def)
  next
    case drained
    obtain qn out where d: "pull q (nat f) = (qn, out)" by (metis surj_pair)
    with exec_one_drain[OF drained(1) x] have "q' = qn" by simp
    with pulls_left_less[OF assms(4) m d True] drained(2) True show ?thesis
      by (auto simp: passes_until_empty_def)
  next
    case both
    obtain qn out where d: "pull q (nat f) = (qn, out)" by (metis surj_pair)
    with exec_one_drain[OF both(1) x] have "q' = qn" by simp
    with pulls_left_less[OF assms(4) m d True] both(2) True show ?thesis
      by (auto simp: passes_until_empty_def)
  qed
qed


text \<open>Once there was audio, the end of the audio leaves nothing unplayed.\<close>

abbreviation settled :: "nat \<Rightarrow> 'q \<Rightarrow> bool" where
  "settled m q \<equiv> depth q > 0 \<or> draining q \<or> frames_left m q = []"

lemma settled_pass:
  assumes "tx_inv s" "0 < rate" "0 < f" "src_inv q" "settled (nat f) q"
    and "audio_pass depth draining pull scramble rate f (s, q) e = ((s', q'), effs, rr)"
  shows "settled (nat f) q'"
proof -
  from assms(6) obtain acts where t: "audio_tick_tx s (sample_tx_in depth draining q e) rate f = (s', acts, rr)"
    and x: "exec_actions pull scramble (e_now e) q acts = (q', effs)" by (rule audio_passE)
  have m: "0 < nat f" using assms(3) by simp
  from tx_pass_drains[OF assms(1-3) t] consider "filter is_drain acts = []" | "filter is_drain acts = [Drain f]"
    by blast
  then show ?thesis
  proof cases
    case 1
    with exec_no_drain[OF 1 x] assms(5) show ?thesis by simp
  next
    case 2
    then have a: "depth q > 0 \<or> draining q"
      using tx_pass_drains[OF assms(1-3) t] by (simp add: tx_has_audio_def sample_tx_in_def)
    obtain qn out where d: "pull q (nat f) = (qn, out)" by (metis surj_pair)
    with exec_one_drain[OF 2 x] have "q' = qn" by simp
    with pull_last[OF assms(4) m d a] depth_nonneg[OF pull_inv[OF assms(4) d]] show ?thesis by force
  qed
qed

lemma busy_run:
  assumes "tx_inv s" "0 < rate" "0 < f" "src_inv q" "relay_drain s \<le> 0" "settled (nat f) q"
    and "\<forall>e \<in> set es. \<not> e_receiving e \<and> f \<le> int (e_writable e)"
    and "pass_run depth draining pull scramble rate f (s, q) es = ((s', q'), outs)"
  shows "passes_until_empty rate f s' q' \<le> passes_until_empty rate f s q - length es \<and> settled (nat f) q'"
  using assms(1,4-)
proof (induction es arbitrary: s q outs)
  case Nil
  then show ?case by simp
next
  case (Cons e es)
  from Cons.prems(6) obtain s1 q1 effs rr outs' where
    1: "audio_pass depth draining pull scramble rate f (s, q) e = ((s1, q1), effs, rr)" and
    2: "pass_run depth draining pull scramble rate f (s1, q1) es = ((s', q'), outs')"
    by (rule pass_run_ConsE)
  from pass_accounts[OF Cons.prems(1) assms(2,3) Cons.prems(2) 1] Cons.prems(3)
  have a: "tx_inv s1" "src_inv q1" "relay_drain s1 \<le> 0" by simp_all
  have "settled (nat f) q1" by (rule settled_pass[OF Cons.prems(1) assms(2,3) Cons.prems(2,4) 1])
  from Cons.IH[OF a this _ 2] Cons.prems(5)
  have "passes_until_empty rate f s' q' \<le> passes_until_empty rate f s1 q1 - length es" "settled (nat f) q'"
    by simp_all
  moreover have "passes_until_empty rate f s1 q1 \<le> passes_until_empty rate f s q - 1"
    using busy_pass[OF Cons.prems(1) assms(2,3) Cons.prems(2,3) _ _ 1] Cons.prems(5) by simp
  ultimately show ?case by simp
qed

lemma idle_run:
  assumes "tx_inv s" "0 < rate" "0 < f" "\<not> (depth q > 0 \<or> draining q)" "src_inv q"
    and "pass_run depth draining pull scramble rate f (s, q) es = ((s', q'), outs)"
  shows "q' = q \<and> played (concat outs) = [] \<and>
         s' = fst (tx_run rate f s (map (sample_tx_in depth draining q) es))"
  using assms(1,6)
proof (induction es arbitrary: s outs)
  case Nil
  then show ?case by simp
next
  case (Cons e es)
  from Cons.prems(2) obtain s1 q1 effs rr outs' where
    1: "audio_pass depth draining pull scramble rate f (s, q) e = ((s1, q1), effs, rr)" and
    2: "pass_run depth draining pull scramble rate f (s1, q1) es = ((s', q'), outs')" and o: "outs = effs # outs'"
    by (rule pass_run_ConsE)
  from idle_pass[OF Cons.prems(1) assms(2-4) 1] have q1: "q1 = q" "played effs = []" by simp_all
  from 1 obtain acts where t: "audio_tick_tx s (sample_tx_in depth draining q e) rate f = (s1, acts, rr)"
    by (rule audio_passE)
  from tx_pass[OF Cons.prems(1) assms(2,3) t] have "tx_inv s1" by simp
  from Cons.IH[OF this 2[unfolded q1(1)]] q1 o t show ?case
    by (simp add: tx_run_def tx_step_def run_steps_Cons del: run_steps.simps(2))
qed

lemma passes_left_bounded:
  assumes "tx_bounded rate s" "0 < f"
  shows "passes_left rate f s \<le> frames f (cdiv (rate * tx_delay_ms s) 1000) +
           frames f (cdiv (rate * tx_tail_ms s) 1000) + 1"
proof -
  have "frames f (tx_delay_rem s) \<le> frames f (cdiv (rate * tx_delay_ms s) 1000)"
    "frames f (tx_tail_rem s) \<le> frames f (cdiv (rate * tx_tail_ms s) 1000)"
    using assms by (simp_all add: frames_mono tx_bounded_def)
  then show ?thesis by (auto simp: passes_left_def)
qed

text \<open>A whole transmission: everything is played, then PTT is released.\<close>

lemma transmission_completes:
  assumes "tx_inv s" "tx_bounded rate s" "relay_drain s \<le> 0" "0 < rate" "0 < f" "src_inv q"
    and "settled (nat f) q"
    and "\<forall>e \<in> set busy. \<not> e_receiving e \<and> f \<le> int (e_writable e)"
    and "passes_until_empty rate f s q \<le> length busy"
    and "\<forall>e \<in> set tail. f \<le> int (e_writable e)"
    and "frames f (cdiv (rate * tx_delay_ms s) 1000) + frames f (cdiv (rate * tx_tail_ms s) 1000) + 1 \<le> length tail"
    and "\<forall>e \<in> set flush. e_pending e = 0" "3 \<le> length flush"
    and "pass_run depth draining pull scramble rate f (s, q) (busy @ tail @ flush) = ((s', q'), outs)"
  shows "played (concat outs) = map scramble (frames_left (nat f) q) \<and>
         depth q' = 0 \<and> \<not> draining q' \<and> \<not> queue_ptt s'"
proof -
  obtain s1 q1 o1 where 1: "pass_run depth draining pull scramble rate f (s, q) busy = ((s1, q1), o1)"
    by (metis surj_pair)
  obtain s2 q2 o2 where 2: "pass_run depth draining pull scramble rate f (s1, q1) (tail @ flush) = ((s2, q2), o2)"
    by (metis surj_pair)
  have fin: "s' = s2" "q' = q2" "outs = o1 @ o2"
    using assms(14) 1 2 by (simp_all add: run_steps_append)
  from pass_run_accounts[OF assms(1,4,5,6) 1] assms(2)
  have a: "tx_inv s1" "src_inv q1" "tx_config_eq s1 s" "tx_bounded rate s1"
    "map scramble (frames_left (nat f) q) = played (concat o1) @ map scramble (frames_left (nat f) q1)"
    by simp_all
  from busy_run[OF assms(1,4,5,6,3,7,8) 1] assms(9)
  have z: "passes_until_empty rate f s1 q1 = 0" "settled (nat f) q1" by simp_all
  have idle: "\<not> (depth q1 > 0 \<or> draining q1)"
  proof
    assume b: "depth q1 > 0 \<or> draining q1"
    then have "pulls_left (nat f) q1 > 0" by (simp add: pulls_left_def)
    with z(1) b show False by (simp add: passes_until_empty_def)
  qed
  from idle_run[OF a(1) assms(4,5) idle a(2) 2]
  have i: "q2 = q1" "played (concat o2) = []"
    "s2 = fst (tx_run rate f s1 (map (sample_tx_in depth draining q1) tail @ map (sample_tx_in depth draining q1) flush))"
    by simp_all
  obtain sx ox where r: "tx_run rate f s1 (map (sample_tx_in depth draining q1) tail @
      map (sample_tx_in depth draining q1) flush) = (sx, ox)" by (metis surj_pair)
  have d0: "depth q1 = 0" using idle depth_nonneg[OF a(2)] by simp
  have "\<not> queue_ptt sx"
  proof -
    obtain sm om where m: "tx_run rate f s1 (map (sample_tx_in depth draining q1) tail) = (sm, om)"
      by (metis surj_pair)
    obtain sn on where n: "tx_run rate f sm (map (sample_tx_in depth draining q1) flush) = (sn, on)"
      by (metis surj_pair)
    from r m n have "sn = sx" by (simp add: tx_run_def run_steps_append)
    have inv: "tx_inv sm" by (rule tx_run_inv[OF a(1) assms(4,5) m])
    have "passes_left rate f s1 \<le> length tail"
      using passes_left_bounded[OF a(4) assms(5)] a(3) assms(11) by simp
    with tx_run_progress[OF a(1) assms(4,5) m] assms(10) d0 idle
    have pz: "passes_left rate f sm = 0" by (simp add: sample_tx_in_def)
    have "0 \<le> ptt_hold_ticks sm" using inv by (simp add: tx_inv_def)
    moreover have "map (sample_tx_in depth draining q1) flush \<noteq> []" using assms(13) by auto
    ultimately have "\<not> queue_ptt sn"
      using tx_run_hold[OF inv assms(4,5) n pz] assms(12,13) d0 idle by (simp add: sample_tx_in_def)
    with \<open>sn = sx\<close> show ?thesis by simp
  qed
  moreover have "frames_left (nat f) q1 = []" using z(2) idle by blast
  ultimately show ?thesis using a(5) i r fin d0 idle by simp
qed

end

subsection \<open>On the model of the queue\<close>

abbreviation thread_run where
  "thread_run \<equiv> pass_run queue_depth queue_is_draining queue_drain"

text \<open>
  C1. A transmission completes: with audio queued (or nothing left over), once the receiver is
  idle and the ring takes a frame per pass, every queued frame is played, in order, within the
  frames of the delay, the queued frames and two more passes; then the tail is fed, and after
  three passes with an empty ring the queue has released PTT.
\<close>

theorem thread_transmission_completes:
  assumes "tx_inv s" "tx_bounded rate s" "relay_drain s \<le> 0" "0 < rate" "0 < f" "q_inv q"
    and "queue_depth q > 0 \<or> queue_is_draining q \<or> queue_frames (nat f) q = []"
    and "\<forall>e \<in> set busy. \<not> e_receiving e \<and> f \<le> int (e_writable e)"
    and "busy_left rate f s + Suc (length (queue_frames (nat f) q)) \<le> length busy"
    and "\<forall>e \<in> set tail. f \<le> int (e_writable e)"
    and "frames f (cdiv (rate * tx_delay_ms s) 1000) + frames f (cdiv (rate * tx_tail_ms s) 1000) + 1 \<le> length tail"
    and "\<forall>e \<in> set flush. e_pending e = 0" "3 \<le> length flush"
    and "thread_run scramble rate f (s, q) (busy @ tail @ flush) = ((s', q'), outs)"
  shows "played (concat outs) = map scramble (queue_frames (nat f) q) \<and>
         queue_depth q' = 0 \<and> \<not> queue_is_draining q' \<and> \<not> queue_ptt s'"
proof -
  have "aq.passes_until_empty rate f s q \<le> length busy"
    using assms(9) by (simp add: aq.passes_until_empty_def aq.pulls_left_def)
  from aq.transmission_completes[OF assms(1-8) this assms(10-14)] show ?thesis .
qed

definition calm_env :: tx_env where
  "calm_env = \<lparr>e_receiving = False, e_ptt_held = False, e_writable = 100, e_pending = 0, e_now = 0\<rparr>"

definition small_station :: audio_state where
  "small_station = demo_state\<lparr>tx_delay_ms := 0, tx_tail_ms := 0\<rparr>"

lemma small_station_inv: "tx_inv small_station" "tx_bounded 8000 small_station" "relay_drain small_station \<le> 0"
  by (simp_all add: small_station_def demo_state_def tx_inv_def tx_bounded_def cdiv_def)

theorem thread_transmission_completes_witness:
  "played (concat (snd (thread_run (\<lambda>x. x) 8000 2 (small_station, two_items)
     (replicate 4 calm_env @ replicate 1 calm_env @ replicate 3 calm_env)))) = [[9, 0], [1, 2], [3, 0]]"
proof -
  let ?r = "thread_run (\<lambda>x. x) 8000 2 (small_station, two_items)
     (replicate 4 calm_env @ replicate 1 calm_env @ replicate 3 calm_env)"
  obtain s' q' outs where r: "?r = ((s', q'), outs)" by (metis surj_pair)
  have d: "queue_depth two_items > 0"
    by (simp add: two_items_def queue_add_buffer_def queue_enqueue_spec demo_queue_def queue_depth_def)
  have b: "busy_left 8000 2 small_station + Suc (length (queue_frames (nat 2) two_items)) \<le> length (replicate 4 calm_env)"
    using two_items_frames by (simp add: busy_left_def small_station_def demo_state_def cdiv_def)
  have t: "frames 2 (cdiv (8000 * tx_delay_ms small_station) 1000) +
      frames 2 (cdiv (8000 * tx_tail_ms small_station) 1000) + 1 \<le> length (replicate 1 calm_env)"
    by (simp add: small_station_def demo_state_def cdiv_def)
  from thread_transmission_completes[OF small_station_inv _ _ two_items_inv _ _ b _ t _ _ r] d r two_items_frames
  show ?thesis by (simp add: calm_env_def)
qed

subsection \<open>The end of a batch\<close>

text \<open>Passes of the thread and adds of other threads, in any order.\<close>

datatype thread_op = Run_pass tx_env | Add_buf "int list" int int

fun thread_op_step where
  "thread_op_step scramble rate f (s, q) (Run_pass e) =
     fst (audio_pass queue_depth queue_is_draining queue_drain scramble rate f (s, q) e)"
| "thread_op_step scramble rate f (s, q) (Add_buf b pri fl) = (s, fst (queue_add_buffer True q (Some b) pri fl))"

definition batch_on :: "audio_queue \<Rightarrow> bool" where
  "batch_on q \<longleftrightarrow> q_inv q \<and> q_batch_active q \<and> (\<forall>it \<in> set (q_items q). item_buf it \<noteq> Some [])"

lemma load_first:
  assumes "load_loop (it # rest) q = (q', ok)" "item_buf it \<noteq> Some []" "item_buf it \<noteq> None"
  shows "ok \<and> q_batch_active q' \<and> q_items q' = rest"
  using assms by (auto simp: load_item_def Let_def split: queue_item_type.splits if_splits)

lemma drain_copy_batch: "drain_copy q m = (q', out) \<Longrightarrow> q_batch_active q' = q_batch_active q \<and> q_items q' = q_items q"
  by (auto simp: drain_copy_def Let_def split: if_splits)

lemma batch_on_drain:
  assumes "batch_on q" "0 < m" "queue_drain q m = (q', out)" "queue_depth q > 0 \<or> queue_is_draining q"
  shows "batch_on q'"
proof -
  have inv: "q_inv q" "q_batch_active q" "\<forall>it \<in> set (q_items q). item_buf it \<noteq> Some []"
    using assms(1) by (simp_all add: batch_on_def)
  have inv': "q_inv q'" using queue_drain_inv[OF inv(1) assms(3)] by simp
  have first: "\<exists>it rest. q_items q = it # rest \<and> item_buf it \<noteq> Some [] \<and> item_buf it \<noteq> None"
    if "\<not> q_draining q \<or> q_drain_pos q \<ge> q_drain_len q"
  proof -
    have "\<not> q_draining q" using that inv(1) by (auto simp: q_inv_def drain_ok_def)
    with assms(4) inv(1) have "q_items q \<noteq> []"
      by (auto simp: queue_depth_def queue_is_draining_def q_inv_def)
    with inv(1,3) show ?thesis by (cases "q_items q") (auto simp: q_inv_def item_ok_def)
  qed
  from assms(3) show ?thesis
  proof (cases rule: queue_drain_cases)
    case gap
    with inv inv' show ?thesis by (simp add: batch_on_def)
  next
    case empty
    from first[OF empty(3)] obtain it rest where "q_items q = it # rest" "item_buf it \<noteq> Some []" "item_buf it \<noteq> None"
      by blast
    with load_first empty(4) show ?thesis by metis
  next
    case (load q1)
    from first[OF load(3)] obtain it rest where it: "q_items q = it # rest" "item_buf it \<noteq> Some []" "item_buf it \<noteq> None"
      by blast
    from load_first[OF load(4)[unfolded it(1)] it(2,3)] have "q_batch_active q1" "q_items q1 = rest" by simp_all
    with drain_copy_batch[OF load(5)] inv' inv(3) it(1) show ?thesis by (simp add: batch_on_def)
  next
    case copy
    with drain_copy_batch[OF copy(5)] inv inv' show ?thesis by (simp add: batch_on_def)
  qed (use assms(2) in simp)
qed

lemma batch_on_step:
  assumes "tx_inv s" "0 < rate" "0 < f" "batch_on q" "\<forall>b pri fl. op = Add_buf b pri fl \<longrightarrow> b \<noteq> []"
    and "thread_op_step scramble rate f (s, q) op = (s', q')"
  shows "tx_inv s' \<and> batch_on q'"
proof (cases op)
  case (Run_pass e)
  obtain effs rr where p: "audio_pass queue_depth queue_is_draining queue_drain scramble rate f (s, q) e = ((s', q'), effs, rr)"
    using assms(6) Run_pass by (cases "audio_pass queue_depth queue_is_draining queue_drain scramble rate f (s, q) e") auto
  from p obtain acts where t: "audio_tick_tx s (sample_tx_in queue_depth queue_is_draining q e) rate f = (s', acts, rr)"
    and x: "exec_actions queue_drain scramble (e_now e) q acts = (q', effs)" by (rule audio_passE)
  from tx_pass[OF assms(1-3) t] have "tx_inv s'" by simp
  moreover have "batch_on q'"
  proof (cases "filter is_drain acts = []")
    case True
    with exec_no_drain[OF True x] assms(4) show ?thesis by simp
  next
    case False
    with tx_pass_drains[OF assms(1-3) t] have "filter is_drain acts = [Drain f]"
      "tx_has_audio (sample_tx_in queue_depth queue_is_draining q e)" by blast+
    then have a: "queue_depth q > 0 \<or> queue_is_draining q" and "q' = fst (queue_drain q (nat f))"
      using exec_one_drain[OF _ x] by (simp_all add: tx_has_audio_def sample_tx_in_def)
    then show ?thesis
      using batch_on_drain[OF assms(4), of "nat f" "fst (queue_drain q (nat f))" "snd (queue_drain q (nat f))"] assms(3)
      by simp
  qed
  ultimately show ?thesis by simp
next
  case (Add_buf b pri fl)
  with assms(6) have r: "s' = s" "q' = fst (queue_add_buffer True q (Some b) pri fl)" by auto
  have b: "b \<noteq> []" using assms(5) Add_buf by simp
  have "q_inv q'" using assms(4) r(2) by (simp add: queue_add_inv batch_on_def)
  moreover have "q_batch_active q' \<and> (\<forall>it \<in> set (q_items q'). item_buf it \<noteq> Some [])"
    using assms(4) b unfolding r(2)
    by (auto simp: queue_add_buffer_def queue_enqueue_spec batch_on_def new_item_def)
  ultimately show ?thesis using r(1) assms(1) by (simp add: batch_on_def)
qed

text \<open>
  The priority order does not come back: the flag that a batch is playing is cleared only
  by a drain call on an empty queue, and the audio thread drains only when there is something
  to pull. Once a first item has played, after any sequence of passes and adds, however long
  the queue has been empty and idle, the next add is still appended, whatever its priority.
\<close>

theorem thread_priority_never_returns:
  assumes "tx_inv s" "0 < rate" "0 < f" "batch_on q"
    and "\<forall>b pri fl. Add_buf b pri fl \<in> set ops \<longrightarrow> b \<noteq> []"
    and "foldl (thread_op_step scramble rate f) (s, q) ops = (s', q')"
    and "q_count q' < MAX_QUEUE_DEPTH" "b \<noteq> []"
  shows "q_items (fst (queue_add_buffer True q' (Some b) pri fl)) =
         q_items q' @ [(new_item QUEUE_AUDIO_BUFFER pri fl b)\<lparr>item_id := q_next_id q'\<rparr>]"
proof -
  have "batch_on q'" using assms(1,4,5,6)
  proof (induction ops arbitrary: s q)
    case (Cons op ops)
    obtain s1 q1 where 1: "thread_op_step scramble rate f (s, q) op = (s1, q1)" by (metis surj_pair)
    have "tx_inv s1 \<and> batch_on q1"
      using batch_on_step[OF Cons.prems(1) assms(2,3) Cons.prems(2) _ 1] Cons.prems(3) by auto
    with Cons.IH[of s1 q1] Cons.prems(3,4) 1 show ?case by auto
  qed simp
  then have "queue_mid_playback q'" by (simp add: batch_on_def queue_mid_playback_def)
  with assms(7,8) show ?thesis by (simp add: add_buffer_step)
qed

definition played_once :: audio_queue where
  "played_once = demo_queue\<lparr>q_batch_active := True\<rparr>"

theorem thread_priority_never_returns_witness:
  "\<exists>q'. map item_priority (q_items (fst (queue_add_buffer True q' (Some [2]) 9 0))) = [1, 9]"
proof -
  let ?ops = "[Add_buf [1] 1 0]"
  let ?q' = "fst (queue_add_buffer True played_once (Some [1]) 1 0)"
  have r: "foldl (thread_op_step (\<lambda>x. x) 8000 2) (small_station, played_once) ?ops = (small_station, ?q')" by simp
  have b: "batch_on played_once"
    using demo_queue_inv by (simp add: batch_on_def played_once_def demo_queue_def q_inv_def drain_ok_def)
  have q': "q_items ?q' = [(new_item QUEUE_AUDIO_BUFFER 1 0 [1])\<lparr>item_id := 1\<rparr>]" "q_count ?q' = 1"
    by (simp_all add: queue_add_buffer_def queue_enqueue_spec played_once_def demo_queue_def queue_mid_playback_def)
  from thread_priority_never_returns[OF small_station_inv(1) _ _ b _ r, of "[2]" 9 0] q'
  have "q_items (fst (queue_add_buffer True ?q' (Some [2]) 9 0)) =
      [(new_item QUEUE_AUDIO_BUFFER 1 0 [1])\<lparr>item_id := 1\<rparr>] @
      [(new_item QUEUE_AUDIO_BUFFER 9 0 [2])\<lparr>item_id := q_next_id ?q'\<rparr>]" by simp
  then show ?thesis by (intro exI[of _ ?q']) (simp add: new_item_def)
qed

end
