(* ===== verification/Audio_Ring.thy ===== *)
theory Audio_Ring
  imports Prelude "HOL-Library.Word"
begin

text \<open>
  The lock-free ring between the PortAudio callbacks and the audio thread
  (\<open>src/kerchunk_audio_ring.c\<close>): positions are \<open>size_t\<close> words masked to the size of the ring. The
  operations are modelled as the code runs them alone, and again as the steps in which the one
  producer and the one consumer interleave: each atomic load or store and each sample
  copied is a step. The floating-point loop of the resampler is a parameter.
\<close>

unbundle bit_operations_syntax

abbreviation RING_SIZE :: nat where "RING_SIZE \<equiv> 262144"
abbreviation RING_MASK :: "64 word" where "RING_MASK \<equiv> 262143"

record ring =
  r_buf :: "int list"
  r_head :: "64 word"
  r_tail :: "64 word"

definition ring_init :: ring where
  "ring_init = \<lparr>r_buf = replicate RING_SIZE 0, r_head = 0, r_tail = 0\<rparr>"

definition ring_readable :: "ring \<Rightarrow> nat" where
  "ring_readable r = unat ((r_head r - r_tail r) AND RING_MASK)"

definition ring_writable :: "ring \<Rightarrow> nat" where
  "ring_writable r = RING_SIZE - 1 - ring_readable r"

text \<open>The index of the \<open>i\<close>-th sample from a position.\<close>

definition slot :: "64 word \<Rightarrow> nat \<Rightarrow> nat" where
  "slot p i = unat ((p + of_nat i) AND RING_MASK)"

definition advance :: "64 word \<Rightarrow> nat \<Rightarrow> 64 word" where
  "advance p n = (p + of_nat n) AND RING_MASK"

definition ring_write :: "ring \<Rightarrow> int list \<Rightarrow> ring \<times> nat" where
  "ring_write r src =
     (let space = ring_writable r;
          n = (if length src > space then space else length src);
          h = r_head r;
          buf = foldl (\<lambda>b i. b[slot h i := src ! i]) (r_buf r) [0..<n]
      in (r\<lparr>r_buf := buf, r_head := advance h n\<rparr>, n))"

definition ring_read :: "ring \<Rightarrow> nat \<Rightarrow> ring \<times> int list" where
  "ring_read r n0 =
     (let avail = ring_readable r;
          n = (if n0 > avail then avail else n0);
          t = r_tail r
      in (r\<lparr>r_tail := advance t n\<rparr>, map (\<lambda>i. r_buf r ! slot t i) [0..<n]))"

subsection \<open>Committing a capture buffer\<close>

text \<open>The resampled output is written in pieces of 512 samples.\<close>

function write_chunks :: "ring \<Rightarrow> int list \<Rightarrow> ring \<times> nat" where
  "write_chunks r out =
     (if out = [] then (r, 0)
      else (let (r1, k) = ring_write r (take 512 out);
                (r2, w) = write_chunks r1 (drop 512 out)
            in (r2, k + w)))"
  by pat_completeness auto

termination by (relation "measure (\<lambda>(r, out). length out)") auto

declare write_chunks.simps [simp del]

text \<open>
  \<open>resample src hw target pos\<close> is the output of the interpolation loop and the position it leaves.
\<close>

definition ring_commit ::
  "(int list \<Rightarrow> int \<Rightarrow> int \<Rightarrow> 'd \<Rightarrow> int list \<times> 'd) \<Rightarrow> ring \<Rightarrow> int list option \<Rightarrow> int \<Rightarrow> int \<Rightarrow> 'd option \<Rightarrow> bool \<Rightarrow>
   ring \<times> 'd option \<times> nat" where
  "ring_commit resample r src hw_rate target_rate pos underflow =
     (if underflow then (r, pos, 0)
      else (case src of
              None \<Rightarrow> (r, pos, 0)
            | Some s \<Rightarrow>
                if s = [] then (r, pos, 0)
                else if hw_rate = target_rate then (let (r1, k) = ring_write r s in (r1, pos, k))
                else (case pos of
                        None \<Rightarrow> (r, pos, 0)
                      | Some p \<Rightarrow>
                          (let (out, p') = resample s hw_rate target_rate p;
                               (r1, k) = write_chunks r out
                           in (r1, Some p', k)))))"

text \<open>Filling a frame from the last good one: its tail, or tiles of it.\<close>

function tile_fill :: "nat \<Rightarrow> int list \<Rightarrow> int list" where
  "tile_fill m buf =
     (if m = 0 \<or> buf = [] then []
      else (let chunk = (if m < length buf then m else length buf)
            in take chunk buf @ tile_fill (m - chunk) buf))"
  by pat_completeness auto

termination by (relation "measure fst") auto

declare tile_fill.simps [simp del]

definition repeat_fill :: "nat \<Rightarrow> int list option \<Rightarrow> int list" where
  "repeat_fill dst_n last_buf =
     (if dst_n = 0 then []
      else (case last_buf of
              None \<Rightarrow> replicate dst_n 0
            | Some buf \<Rightarrow>
                if buf = [] then replicate dst_n 0
                else if length buf \<ge> dst_n then drop (length buf - dst_n) buf
                else tile_fill dst_n buf))"

subsection \<open>The steps of a producer and a consumer\<close>

text \<open>
  A write loads both positions and fixes its count, copies sample by sample, and stores the new
  head; a read loads both positions, copies, and stores the new tail.
\<close>

datatype producer = P_idle | P_copy "int list" nat nat "64 word"
datatype consumer = C_idle | C_copy "int list" nat nat "64 word"

record spsc =
  sp_ring :: ring
  sp_prod :: producer
  sp_cons :: consumer
  sp_written :: "int list"
  sp_read :: "int list"

text \<open>
  \<open>P_copy src n i h\<close>: \<open>i\<close> of the \<open>n\<close> samples are copied, from position \<open>h\<close>. \<open>C_copy got n i t\<close>: \<open>got\<close>
  are the \<open>i\<close> of \<open>n\<close> samples copied out. \<open>sp_written\<close> and \<open>sp_read\<close> record what has been committed.
\<close>

inductive spsc_step :: "spsc \<Rightarrow> spsc \<Rightarrow> bool" where
  write_begin: "sp_prod s = P_idle \<Longrightarrow> n = min (length src) (ring_writable (sp_ring s)) \<Longrightarrow>
     spsc_step s (s\<lparr>sp_prod := P_copy src n 0 (r_head (sp_ring s))\<rparr>)"
| write_copy: "sp_prod s = P_copy src n i h \<Longrightarrow> i < n \<Longrightarrow>
     spsc_step s (s\<lparr>sp_ring := (sp_ring s)\<lparr>r_buf := (r_buf (sp_ring s))[slot h i := src ! i]\<rparr>,
                    sp_prod := P_copy src n (Suc i) h\<rparr>)"
| write_commit: "sp_prod s = P_copy src n n h \<Longrightarrow>
     spsc_step s (s\<lparr>sp_ring := (sp_ring s)\<lparr>r_head := advance h n\<rparr>, sp_prod := P_idle,
                    sp_written := sp_written s @ take n src\<rparr>)"
| read_begin: "sp_cons s = C_idle \<Longrightarrow> n = min m (ring_readable (sp_ring s)) \<Longrightarrow>
     spsc_step s (s\<lparr>sp_cons := C_copy [] n 0 (r_tail (sp_ring s))\<rparr>)"
| read_copy: "sp_cons s = C_copy got n i t \<Longrightarrow> i < n \<Longrightarrow>
     spsc_step s (s\<lparr>sp_cons := C_copy (got @ [r_buf (sp_ring s) ! slot t i]) n (Suc i) t\<rparr>)"
| read_commit: "sp_cons s = C_copy got n n t \<Longrightarrow>
     spsc_step s (s\<lparr>sp_ring := (sp_ring s)\<lparr>r_tail := advance t n\<rparr>, sp_cons := C_idle,
                    sp_read := sp_read s @ got\<rparr>)"

definition spsc_init :: spsc where
  "spsc_init = \<lparr>sp_ring = ring_init, sp_prod = P_idle, sp_cons = C_idle, sp_written = [], sp_read = []\<rparr>"

inductive spsc_reach :: "spsc \<Rightarrow> bool" where
  start: "spsc_reach spsc_init"
| step: "spsc_reach s \<Longrightarrow> spsc_step s s' \<Longrightarrow> spsc_reach s'"

subsection \<open>Positions\<close>

definition pos_of :: "nat \<Rightarrow> 64 word" where
  "pos_of k = take_bit 18 (of_nat k)"

lemma and_mask: "w AND RING_MASK = take_bit 18 (w :: 64 word)"
  by (simp add: take_bit_eq_mask mask_eq_exp_minus_1)

lemma unat_pos: "unat (pos_of k) = k mod RING_SIZE"
proof -
  have "unat (pos_of k) = take_bit 18 (k mod 2 ^ 64)"
    by (simp add: pos_of_def unsigned_take_bit_eq unat_of_nat)
  also have "\<dots> = k mod 2 ^ 18" by (simp add: take_bit_eq_mod mod_mod_cancel)
  finally show ?thesis by simp
qed

lemma take_bit_absorb_int: "take_bit n (take_bit n a + b) = take_bit n (a + b :: int)"
  by (simp add: take_bit_eq_mod mod_simps)

lemma take_bit_absorb_int': "take_bit n (b + take_bit n a) = take_bit n (a + b :: int)"
  by (simp add: take_bit_eq_mod mod_simps ac_simps)

lemma take_bit_absorb: "take_bit n (take_bit n a + b) = take_bit n (a + b :: 'a::len word)"
  by (transfer, simp add: take_bit_absorb_int take_bit_absorb_int' ac_simps)

lemma advance_pos: "advance (pos_of k) n = pos_of (k + n)"
  unfolding advance_def and_mask pos_of_def take_bit_absorb by simp

lemma slot_pos: "slot (pos_of k) i = (k + i) mod RING_SIZE"
  using advance_pos[of k i] unat_pos[of "k + i"] by (simp add: slot_def advance_def)

lemma readable_pos:
  assumes "t \<le> h" "h - t < RING_SIZE"
  shows "unat ((pos_of h - pos_of t) AND RING_MASK) = h - t"
proof -
  have h: "h = t + (h - t)" using assms(1) by simp
  have "take_bit 18 (pos_of h - pos_of t) = take_bit 18 (take_bit 18 (of_nat h) + - pos_of t)"
    by (simp add: pos_of_def)
  also have "\<dots> = take_bit 18 (of_nat h + - pos_of t)" by (rule take_bit_absorb)
  also have "of_nat h = (of_nat t + of_nat (h - t) :: 64 word)" by (subst h) simp
  also have "of_nat t + of_nat (h - t) + - pos_of t = - pos_of t + of_nat t + (of_nat (h - t) :: 64 word)" by simp
  also have "take_bit 18 \<dots> = take_bit 18 (take_bit 18 (- pos_of t + of_nat t) + of_nat (h - t))"
    by (rule take_bit_absorb[symmetric])
  also have "take_bit 18 (- pos_of t + of_nat t) = take_bit 18 (of_nat t + - pos_of t)" by (simp add: add.commute)
  also have "\<dots> = take_bit 18 (take_bit 18 (of_nat t) + - pos_of t)" by (rule take_bit_absorb[symmetric])
  also have "\<dots> = 0" by (simp add: pos_of_def)
  also have "(0 + of_nat (h - t) :: 64 word) = of_nat (h - t)" by simp
  finally have "unat (take_bit 18 (pos_of h - pos_of t)) = (h - t) mod RING_SIZE"
    using unat_pos[of "h - t"] by (simp add: pos_of_def)
  with assms(2) show ?thesis by (simp add: and_mask)
qed

end
