(* ===== verification/Audio_Ring_Props.thy ===== *)
theory Audio_Ring_Props
  imports Audio_Ring
begin

text \<open>
  The ring refines a bounded queue of samples when its operations run alone, and stays a queue when
  the steps of the producer and of the consumer interleave in any order.
\<close>

subsection \<open>Virtual positions\<close>

text \<open>
  \<open>h\<close> and \<open>t\<close> count all samples ever written and read; the ring holds the samples between them of
  the history of all writes.
\<close>

definition ring_rel :: "ring \<Rightarrow> nat \<Rightarrow> nat \<Rightarrow> int list \<Rightarrow> bool" where
  "ring_rel r h t hist \<longleftrightarrow>
     r_head r = pos_of h \<and> r_tail r = pos_of t \<and> t \<le> h \<and> h - t < RING_SIZE \<and>
     length (r_buf r) = RING_SIZE \<and> length hist = h \<and>
     (\<forall>j. t \<le> j \<longrightarrow> j < h \<longrightarrow> r_buf r ! (j mod RING_SIZE) = hist ! j)"

definition ring_contents :: "ring \<Rightarrow> int list" where
  "ring_contents r = map (\<lambda>i. r_buf r ! slot (r_tail r) i) [0..<ring_readable r]"

lemma mod_distinct: "a < b \<Longrightarrow> b - a < n \<Longrightarrow> a mod n \<noteq> b mod (n :: nat)"
proof
  assume a: "a < b" "b - a < n" "a mod n = b mod n"
  then have "n dvd b - a" by (metis mod_eq_dvd_iff_nat less_imp_le)
  with a show False by (auto dest: dvd_imp_le)
qed

lemma rel_readable:
  assumes "ring_rel r h t hist"
  shows "ring_readable r = h - t"
proof -
  have "r_head r = pos_of h" "r_tail r = pos_of t" "t \<le> h" "h - t < RING_SIZE"
    using assms unfolding ring_rel_def by blast+
  then show ?thesis unfolding ring_readable_def using readable_pos[of t h] by metis
qed

lemma rel_writable: "ring_rel r h t hist \<Longrightarrow> ring_writable r = RING_SIZE - 1 - (h - t)"
  by (simp add: ring_writable_def rel_readable)

lemma rel_slot: "ring_rel r h t hist \<Longrightarrow> i < h - t \<Longrightarrow> r_buf r ! slot (pos_of t) i = hist ! (t + i)"
  by (simp add: ring_rel_def slot_pos)

lemma rel_contents:
  assumes "ring_rel r h t hist"
  shows "ring_contents r = drop t hist"
proof (rule nth_equalityI)
  show "length (ring_contents r) = length (drop t hist)"
    using assms by (simp add: ring_contents_def rel_readable[OF assms]) (simp add: ring_rel_def)
  fix i assume "i < length (ring_contents r)"
  then have i: "i < h - t" by (simp add: ring_contents_def rel_readable[OF assms])
  have "r_tail r = pos_of t" "t \<le> length hist" using assms by (simp_all add: ring_rel_def)
  with i rel_slot[OF assms i] show "ring_contents r ! i = drop t hist ! i"
    by (simp add: ring_contents_def rel_readable[OF assms])
qed

text \<open>A sample copied beyond the head touches nothing that is readable.\<close>

lemma rel_copy:
  assumes "ring_rel r h t hist" "h - t + i < RING_SIZE"
  shows "ring_rel (r\<lparr>r_buf := (r_buf r)[slot (pos_of h) i := x]\<rparr>) h t hist"
proof -
  have "(r_buf r)[(h + i) mod RING_SIZE := x] ! (j mod RING_SIZE) = r_buf r ! (j mod RING_SIZE)"
    if "t \<le> j" "j < h" for j
  proof -
    have "j mod RING_SIZE \<noteq> (h + i) mod RING_SIZE" by (rule mod_distinct) (use that assms(2) in auto)
    then show ?thesis by simp
  qed
  with assms(1) show ?thesis by (simp add: ring_rel_def slot_pos)
qed

lemma rel_commit:
  assumes "ring_rel r h t hist" "h - t + n < RING_SIZE" "n \<le> length src"
    "\<forall>k < n. r_buf r ! ((h + k) mod RING_SIZE) = src ! k"
  shows "ring_rel (r\<lparr>r_head := advance (pos_of h) n\<rparr>) (h + n) t (hist @ take n src)"
proof -
  have "r_buf r ! (j mod RING_SIZE) = (hist @ take n src) ! j" if "t \<le> j" "j < h + n" for j
  proof (cases "j < h")
    case True
    with that assms(1) show ?thesis by (simp add: ring_rel_def nth_append)
  next
    case False
    with that(2) assms(4)[rule_format, of "j - h"] assms(1,3) show ?thesis by (simp add: ring_rel_def nth_append)
  qed
  with assms show ?thesis by (auto simp: ring_rel_def advance_pos)
qed

lemma rel_consume:
  assumes "ring_rel r h t hist" "n \<le> h - t"
  shows "ring_rel (r\<lparr>r_tail := advance (pos_of t) n\<rparr>) h (t + n) hist"
  using assms by (auto simp: ring_rel_def advance_pos)

subsection \<open>Any interleaving\<close>

definition spsc_rel :: "spsc \<Rightarrow> nat \<Rightarrow> nat \<Rightarrow> bool" where
  "spsc_rel s h t \<longleftrightarrow>
     ring_rel (sp_ring s) h t (sp_written s) \<and> sp_read s = take t (sp_written s) \<and>
     (case sp_prod s of P_idle \<Rightarrow> True
      | P_copy src n i p \<Rightarrow> p = pos_of h \<and> n \<le> length src \<and> i \<le> n \<and> h - t + n < RING_SIZE \<and>
          (\<forall>k < i. r_buf (sp_ring s) ! ((h + k) mod RING_SIZE) = src ! k)) \<and>
     (case sp_cons s of C_idle \<Rightarrow> True
      | C_copy got n i p \<Rightarrow> p = pos_of t \<and> i \<le> n \<and> n \<le> h - t \<and> got = take i (drop t (sp_written s)))"

lemma spsc_step_rel:
  assumes "spsc_step s s'" "spsc_rel s h t"
  shows "\<exists>h' t'. spsc_rel s' h' t'"
  using assms
proof (cases rule: spsc_step.cases)
  case (write_begin n src)
  from assms(2) have r: "ring_rel (sp_ring s) h t (sp_written s)" by (simp add: spsc_rel_def)
  then have "h - t < RING_SIZE" by (simp add: ring_rel_def)
  moreover have "n \<le> 262143 - (h - t)" "n \<le> length src" using rel_writable[OF r] write_begin by simp_all
  ultimately have "h - t + n < RING_SIZE" "n \<le> length src" by linarith+
  with write_begin assms(2) have "spsc_rel s' h t" by (auto simp: spsc_rel_def ring_rel_def split: consumer.splits)
  then show ?thesis by blast
next
  case (write_copy src n i p)
  from assms(2) write_copy have r: "ring_rel (sp_ring s) h t (sp_written s)"
    and p: "p = pos_of h" "n \<le> length src" "h - t + n < RING_SIZE"
      "\<forall>k < i. r_buf (sp_ring s) ! ((h + k) mod RING_SIZE) = src ! k"
    by (auto simp: spsc_rel_def)
  let ?b = "(r_buf (sp_ring s))[slot p i := src ! i]"
  have "h - t + i < RING_SIZE" using p(3) write_copy(3) by simp
  from rel_copy[OF r this] have r': "ring_rel ((sp_ring s)\<lparr>r_buf := ?b\<rparr>) h t (sp_written s)" by (simp add: p(1))
  have len: "length (r_buf (sp_ring s)) = RING_SIZE" using r by (simp add: ring_rel_def)
  have "?b ! ((h + k) mod RING_SIZE) = src ! k" if "k < Suc i" for k
  proof (cases "k = i")
    case True
    then show ?thesis using len by (simp add: p(1) slot_pos)
  next
    case False
    then have "(h + k) mod RING_SIZE \<noteq> (h + i) mod RING_SIZE"
      using that p(3) write_copy(3) by (intro mod_distinct) auto
    with False that p(4) show ?thesis by (simp add: p(1) slot_pos)
  qed
  with r' p write_copy assms(2) have "spsc_rel s' h t" by (auto simp: spsc_rel_def split: consumer.splits)
  then show ?thesis by blast
next
  case (write_commit src n p)
  from assms(2) write_commit have r: "ring_rel (sp_ring s) h t (sp_written s)"
    and p: "p = pos_of h" "n \<le> length src" "h - t + n < RING_SIZE"
      "\<forall>k < n. r_buf (sp_ring s) ! ((h + k) mod RING_SIZE) = src ! k"
    by (auto simp: spsc_rel_def)
  from rel_commit[OF r p(3,2,4)] have r': "ring_rel ((sp_ring s)\<lparr>r_head := advance p n\<rparr>) (h + n) t (sp_written s @ take n src)"
    by (simp add: p(1))
  have th: "t \<le> length (sp_written s)" "length (sp_written s) = h" using r by (simp_all add: ring_rel_def)
  have "case sp_cons s of C_idle \<Rightarrow> True
      | C_copy got m i q \<Rightarrow> q = pos_of t \<and> i \<le> m \<and> m \<le> h + n - t \<and> got = take i (drop t (sp_written s @ take n src))"
    using assms(2) th by (auto simp: spsc_rel_def split: consumer.splits)
  with r' write_commit assms(2) th have "spsc_rel s' (h + n) t" by (simp add: spsc_rel_def split: consumer.splits)
  then show ?thesis by blast
next
  case (read_begin n m)
  from assms(2) have "ring_rel (sp_ring s) h t (sp_written s)" by (simp add: spsc_rel_def)
  from rel_readable[OF this] read_begin have "n \<le> h - t" by simp
  with read_begin assms(2) have "spsc_rel s' h t" by (auto simp: spsc_rel_def ring_rel_def split: producer.splits)
  then show ?thesis by blast
next
  case (read_copy got n i p)
  from assms(2) read_copy have r: "ring_rel (sp_ring s) h t (sp_written s)"
    and p: "p = pos_of t" "n \<le> h - t" "got = take i (drop t (sp_written s))" by (auto simp: spsc_rel_def)
  have i: "i < h - t" using p(2) read_copy(3) by simp
  have "r_buf (sp_ring s) ! slot p i = sp_written s ! (t + i)" unfolding p(1) by (rule rel_slot[OF r i])
  moreover have "i < length (drop t (sp_written s))" using i r by (simp add: ring_rel_def)
  ultimately have "got @ [r_buf (sp_ring s) ! slot p i] = take (Suc i) (drop t (sp_written s))"
    using p(3) r by (simp add: take_Suc_conv_app_nth ring_rel_def)
  with read_copy assms(2) have "spsc_rel s' h t" by (auto simp: spsc_rel_def split: producer.splits)
  then show ?thesis by blast
next
  case (read_commit got n p)
  from assms(2) read_commit have r: "ring_rel (sp_ring s) h t (sp_written s)"
    and p: "p = pos_of t" "n \<le> h - t" "got = take n (drop t (sp_written s))" by (auto simp: spsc_rel_def)
  from rel_consume[OF r p(2)] have r': "ring_rel ((sp_ring s)\<lparr>r_tail := advance p n\<rparr>) h (t + n) (sp_written s)"
    by (simp add: p(1))
  have "take t (sp_written s) @ got = take (t + n) (sp_written s)" by (simp add: p(3) take_add)
  with r' read_commit assms(2) p(2) have "spsc_rel s' h (t + n)" by (auto simp: spsc_rel_def split: producer.splits)
  then show ?thesis by blast
qed

lemma ring_init_rel: "ring_rel ring_init 0 0 []"
  by (simp add: ring_rel_def ring_init_def pos_of_def)

lemma spsc_reach_rel: "spsc_reach s \<Longrightarrow> \<exists>h t. spsc_rel s h t"
proof (induction rule: spsc_reach.induct)
  case start
  have "spsc_rel spsc_init 0 0" by (simp add: spsc_rel_def spsc_init_def ring_init_rel)
  then show ?case by blast
next
  case (step s s')
  with spsc_step_rel show ?case by blast
qed

text \<open>
  C16. The ring is a lossless queue under every interleaving: in every state that the steps of the
  producer and of the consumer reach, in any order and in the middle of any operation, what
  has been read followed by what the ring holds is exactly what has been written, and
  the ring never holds more than its capacity.
\<close>

theorem spsc_lossless:
  assumes "spsc_reach s"
  shows "sp_written s = sp_read s @ ring_contents (sp_ring s) \<and>
         length (ring_contents (sp_ring s)) \<le> RING_SIZE - 1"
proof -
  from spsc_reach_rel[OF assms] obtain h t where rel: "spsc_rel s h t" by blast
  then have r: "ring_rel (sp_ring s) h t (sp_written s)" "sp_read s = take t (sp_written s)"
    by (simp_all add: spsc_rel_def)
  from rel_contents[OF r(1)] r show ?thesis by (auto simp: ring_rel_def)
qed

theorem spsc_lossless_witness:
  "\<exists>s. spsc_reach s \<and> sp_written s = [5] \<and> ring_contents (sp_ring s) = [5]"
proof -
  have "ring_writable ring_init = 262143" using rel_writable[OF ring_init_rel] by simp
  then have 1: "spsc_step spsc_init (spsc_init\<lparr>sp_prod := P_copy [5] 1 0 0\<rparr>)"
    using spsc_step.write_begin[of spsc_init 1 "[5]"] by (simp add: spsc_init_def ring_init_def)
  let ?s1 = "spsc_init\<lparr>sp_prod := P_copy [5] 1 0 0\<rparr>"
  from spsc_step.write_copy[of ?s1 "[5]" 1 0 0]
  obtain s2 where 2: "spsc_step ?s1 s2" "sp_prod s2 = P_copy [5] 1 1 0" "sp_written s2 = []" "sp_read s2 = []"
    by (auto simp: spsc_init_def)
  from spsc_step.write_commit[of s2 "[5]" 1 0] 2
  obtain s3 where 3: "spsc_step s2 s3" "sp_written s3 = [5]" "sp_read s3 = []" by auto
  have r: "spsc_reach s3"
    using spsc_reach.step[OF spsc_reach.step[OF spsc_reach.step[OF spsc_reach.start 1] 2(1)] 3(1)] .
  from spsc_lossless[OF r] 3 r show ?thesis by auto
qed

subsection \<open>Operations that run alone\<close>

definition ring_wf :: "ring \<Rightarrow> bool" where
  "ring_wf r \<longleftrightarrow> length (r_buf r) = RING_SIZE \<and> unat (r_head r) < RING_SIZE \<and> unat (r_tail r) < RING_SIZE"

lemma pos_unat: "unat w < RING_SIZE \<Longrightarrow> pos_of (unat w) = w"
  by (rule word_unat_eq_iff[THEN iffD2]) (simp add: unat_pos)

lemma wf_rel:
  assumes "ring_wf r"
  shows "\<exists>h t hist. ring_rel r h t hist"
proof -
  let ?t = "unat (r_tail r)" and ?n = "ring_readable r"
  have tail: "pos_of ?t = r_tail r" and head: "pos_of (unat (r_head r)) = r_head r"
    using assms by (simp_all add: ring_wf_def pos_unat)
  have n: "?n < RING_SIZE"
    using take_bit_nat_less_exp[of 18 "unat (r_head r - r_tail r)"]
    by (simp add: ring_readable_def and_mask unsigned_take_bit_eq)
  have "pos_of (?t + ?n) = take_bit 18 (of_nat ?n + of_nat ?t)" by (simp add: pos_of_def add.commute)
  also have "of_nat ?n = (take_bit 18 (r_head r - r_tail r) :: 64 word)" by (simp add: ring_readable_def and_mask)
  also have "take_bit 18 (take_bit 18 (r_head r - r_tail r) + of_nat ?t) = take_bit 18 (r_head r - r_tail r + of_nat ?t)"
    by (rule take_bit_absorb)
  also have "r_head r - r_tail r + of_nat ?t = r_head r" by simp
  also have "take_bit 18 (r_head r) = r_head r" using head by (simp add: pos_of_def)
  finally have head': "r_head r = pos_of (?t + ?n)" ..
  have "ring_rel r (?t + ?n) ?t (map (\<lambda>j. r_buf r ! (j mod RING_SIZE)) [0..<?t + ?n])"
    using head' tail n assms by (simp add: ring_rel_def ring_wf_def)
  then show ?thesis by blast
qed

lemma rel_wf: "ring_rel r h t hist \<Longrightarrow> ring_wf r"
  by (simp add: ring_rel_def ring_wf_def unat_pos)

lemma copy_loop:
  assumes "ring_rel r h t hist" "h - t + n < RING_SIZE"
  shows "ring_rel (r\<lparr>r_buf := foldl (\<lambda>b i. b[slot (pos_of h) i := src ! i]) (r_buf r) [0..<n]\<rparr>) h t hist \<and>
         (\<forall>k < n. foldl (\<lambda>b i. b[slot (pos_of h) i := src ! i]) (r_buf r) [0..<n] ! ((h + k) mod RING_SIZE) = src ! k)"
  using assms(2)
proof (induction n)
  case 0
  then show ?case using assms(1) by simp
next
  case (Suc n)
  define b where "b = foldl (\<lambda>b i. b[slot (pos_of h) i := src ! i]) (r_buf r) [0..<n]"
  from Suc have IH: "ring_rel (r\<lparr>r_buf := b\<rparr>) h t hist" "\<forall>k < n. b ! ((h + k) mod RING_SIZE) = src ! k"
    by (simp_all add: b_def)
  have rel: "ring_rel (r\<lparr>r_buf := b[slot (pos_of h) n := src ! n]\<rparr>) h t hist"
    using rel_copy[OF IH(1), of n "src ! n"] Suc.prems by simp
  have len: "length b = RING_SIZE" using IH(1) by (simp add: ring_rel_def)
  have "b[slot (pos_of h) n := src ! n] ! ((h + k) mod RING_SIZE) = src ! k" if "k < Suc n" for k
  proof (cases "k = n")
    case True
    then show ?thesis using len by (simp add: slot_pos)
  next
    case False
    then have "(h + k) mod RING_SIZE \<noteq> (h + n) mod RING_SIZE"
      using that Suc.prems by (intro mod_distinct) auto
    with False that IH(2) show ?thesis by (simp add: slot_pos)
  qed
  with rel show ?case by (simp add: b_def)
qed

lemma ring_write_spec:
  assumes "ring_wf r" "ring_write r src = (r', n)"
  shows "ring_wf r' \<and> n = min (length src) (RING_SIZE - 1 - length (ring_contents r)) \<and>
         ring_contents r' = ring_contents r @ take n src"
proof -
  obtain h t hist where rel: "ring_rel r h t hist" using wf_rel[OF assms(1)] by blast
  have lc: "length (ring_contents r) = h - t" unfolding rel_contents[OF rel] using rel by (simp add: ring_rel_def)
  have n: "n = min (length src) (RING_SIZE - 1 - (h - t))"
    using assms(2) rel_writable[OF rel] by (auto simp: ring_write_def Let_def)
  have lt: "h - t < RING_SIZE" using rel by (simp add: ring_rel_def)
  then have fit: "h - t + n < RING_SIZE" "n \<le> length src" unfolding n by linarith+
  have hd: "r_head r = pos_of h" using rel by (simp add: ring_rel_def)
  define b where "b = foldl (\<lambda>b i. b[slot (pos_of h) i := src ! i]) (r_buf r) [0..<n]"
  have r': "r' = (r\<lparr>r_buf := b\<rparr>)\<lparr>r_head := advance (pos_of h) n\<rparr>"
    using assms(2) hd by (auto simp: ring_write_def Let_def b_def)
  have "ring_rel r' (h + n) t (hist @ take n src)"
    unfolding r' using copy_loop[OF rel fit(1), of src] fit by (intro rel_commit) (simp_all add: b_def)
  from rel_contents[OF this] rel_wf[OF this] rel_contents[OF rel] rel n lc show ?thesis
    by (simp add: ring_rel_def)
qed

lemma ring_read_spec:
  assumes "ring_wf r" "ring_read r m = (r', out)"
  shows "ring_wf r' \<and> out = take m (ring_contents r) \<and> ring_contents r' = drop m (ring_contents r)"
proof -
  obtain h t hist where rel: "ring_rel r h t hist" using wf_rel[OF assms(1)] by blast
  define n where "n = min m (h - t)"
  have c: "ring_contents r = drop t hist" by (rule rel_contents[OF rel])
  have tl: "r_tail r = pos_of t" and len: "length hist = h" using rel by (simp_all add: ring_rel_def)
  have r': "r' = r\<lparr>r_tail := advance (pos_of t) n\<rparr>" "out = map (\<lambda>i. r_buf r ! slot (pos_of t) i) [0..<n]"
    using assms(2) rel_readable[OF rel] tl by (auto simp: ring_read_def Let_def n_def min_def)
  have rel': "ring_rel r' h (t + n) hist" unfolding r'(1) by (rule rel_consume[OF rel]) (simp add: n_def)
  have "out = take n (drop t hist)"
  proof (rule nth_equalityI)
    show "length out = length (take n (drop t hist))" by (simp add: r'(2) len n_def)
    fix i assume "i < length out"
    then have "i < n" "i < h - t" by (simp_all add: r'(2) n_def)
    with rel_slot[OF rel, of i] len show "out ! i = take n (drop t hist) ! i" by (simp add: r'(2))
  qed
  also have "\<dots> = take m (ring_contents r)" by (simp add: c n_def len min_def)
  finally have "out = take m (ring_contents r)" .
  moreover have "ring_contents r' = drop m (ring_contents r)"
    by (simp add: rel_contents[OF rel'] c n_def len min_def add.commute)
  ultimately show ?thesis using rel_wf[OF rel'] by simp
qed

lemma min_shift: "512 \<le> l \<Longrightarrow> 512 \<le> s - c \<Longrightarrow> 512 + min (l - 512) (s - (c + 512)) = min l (s - c :: nat)"
  by linarith

text \<open>Writing in pieces is writing at once: the first piece that does not fit fills the ring.\<close>

lemma write_chunks_spec:
  assumes "ring_wf r" "write_chunks r out = (r', n)"
  shows "ring_wf r' \<and> n = min (length out) (RING_SIZE - 1 - length (ring_contents r)) \<and>
         ring_contents r' = ring_contents r @ take n out"
  using assms
proof (induction r out arbitrary: r' n rule: write_chunks.induct)
  case (1 r out)
  show ?case
  proof (cases "out = []")
    case True
    with 1 show ?thesis by (simp add: write_chunks.simps[of r "[]"])
  next
    case False
    obtain r1 k where w: "ring_write r (take 512 out) = (r1, k)" by (metis surj_pair)
    obtain r2 w2 where c: "write_chunks r1 (drop 512 out) = (r2, w2)" by (metis surj_pair)
    have e: "r' = r2" "n = k + w2" using 1(3) False w c by (simp_all add: write_chunks.simps[of r out])
    let ?c = "length (ring_contents r)"
    from ring_write_spec[OF 1(2) w] have s: "ring_wf r1" "k = min (length (take 512 out)) (RING_SIZE - 1 - ?c)"
      "ring_contents r1 = ring_contents r @ take k (take 512 out)" by simp_all
    from 1(1)[OF False w[symmetric] refl s(1) c] have t: "ring_wf r2"
      "w2 = min (length (drop 512 out)) (RING_SIZE - 1 - length (ring_contents r1))"
      "ring_contents r2 = ring_contents r1 @ take w2 (drop 512 out)" by simp_all
    have k: "k \<le> length out" "k \<le> 512" using s(2) by auto
    then have l1: "length (ring_contents r1) = ?c + k" using s(3) by simp
    show ?thesis
    proof (cases "k = 512")
      case True
      have "take k out @ take w2 (drop k out) = take (k + w2) out" by (simp add: take_add)
      then have "ring_contents r' = ring_contents r @ take n out" using True s(3) t(3) e by simp
      moreover have "512 \<le> length out" "512 \<le> RING_SIZE - 1 - ?c" using True s(2) by auto
      then have "n = min (length out) (RING_SIZE - 1 - ?c)" using min_shift[of "length out" "RING_SIZE - 1" ?c] True t(2) l1 e by simp
      ultimately show ?thesis using t(1) e by simp
    next
      case not512: False
      show ?thesis
      proof (cases "k = length out")
        case True
        with not512 k have "length out < 512" by simp
        with True s t e show ?thesis by simp
      next
        case False
        with not512 k s(2) have "k = RING_SIZE - 1 - ?c" "k < length out" by (auto simp: min_def split: if_splits)
        with t(2) l1 have "w2 = 0" by simp
        with \<open>k = RING_SIZE - 1 - ?c\<close> \<open>k < length out\<close> s t e k show ?thesis by (simp add: min_def)
      qed
    qed
  qed
qed

text \<open>
  Run alone, the operations refine a bounded queue: a write appends as many of its samples as
  the capacity leaves room for and reports that number, a read takes that many from the front and
  returns them, a capture commit appends a prefix of the (resampled) buffer whatever its
  pieces, and an underflowed or empty buffer changes nothing.
\<close>

theorem ring_refines_queue:
  assumes "ring_wf r"
  shows "(\<forall>src r' n. ring_write r src = (r', n) \<longrightarrow>
            ring_wf r' \<and> n = min (length src) (RING_SIZE - 1 - length (ring_contents r)) \<and>
            ring_contents r' = ring_contents r @ take n src) \<and>
         (\<forall>m r' out. ring_read r m = (r', out) \<longrightarrow>
            ring_wf r' \<and> out = take m (ring_contents r) \<and> ring_contents r' = drop m (ring_contents r)) \<and>
         (\<forall>resample src hw target pos underflow r' pos' n.
            ring_commit resample r src hw target pos underflow = (r', pos', n) \<longrightarrow>
            ring_wf r' \<and>
            (\<exists>out. ring_contents r' = ring_contents r @ take n out \<and>
              (underflow \<or> src = None \<or> src = Some [] \<longrightarrow> n = 0) \<and>
              (hw = target \<and> \<not> underflow \<and> src \<noteq> None \<longrightarrow> Some out = src)))"
proof (intro conjI allI impI)
  fix src r' n assume "ring_write r src = (r', n)"
  from ring_write_spec[OF assms this] show "ring_wf r'"
    "n = min (length src) (RING_SIZE - 1 - length (ring_contents r))" "ring_contents r' = ring_contents r @ take n src"
    by simp_all
next
  fix m r' out assume "ring_read r m = (r', out)"
  from ring_read_spec[OF assms this] show "ring_wf r'" "out = take m (ring_contents r)"
    "ring_contents r' = drop m (ring_contents r)" by simp_all
next
  fix resample :: "int list \<Rightarrow> int \<Rightarrow> int \<Rightarrow> 'a \<Rightarrow> int list \<times> 'a" and src hw target pos underflow r' pos' n
  assume c: "ring_commit resample r src hw target pos underflow = (r', pos', n)"
  have *: "ring_wf r' \<and> (\<exists>out. ring_contents r' = ring_contents r @ take n out \<and>
      (underflow \<or> src = None \<or> src = Some [] \<longrightarrow> n = 0) \<and>
      (hw = target \<and> \<not> underflow \<and> src \<noteq> None \<longrightarrow> Some out = src))"
  proof (cases "underflow \<or> src = None \<or> src = Some []")
    case True
    then have "r' = r \<and> n = 0" using c by (cases underflow; cases src) (simp_all add: ring_commit_def split: if_splits)
    with assms True show ?thesis by (cases src) auto
  next
    case False
    then obtain s where s: "src = Some s" "s \<noteq> []" "\<not> underflow" by auto
    show ?thesis
    proof (cases "hw = target")
      case True
      with c s have "ring_write r s = (r', n)" by (auto simp: ring_commit_def split: prod.splits)
      from ring_write_spec[OF assms this] s True show ?thesis by auto
    next
      case ne: False
      show ?thesis
      proof (cases pos)
        case None
        with c s ne assms show ?thesis by (auto simp: ring_commit_def)
      next
        case (Some p)
        obtain out p' where o: "resample s hw target p = (out, p')" by (metis surj_pair)
        obtain r1 k where w: "write_chunks r out = (r1, k)" by (metis surj_pair)
        have "r' = r1" "n = k" using c s ne Some o w by (simp_all add: ring_commit_def)
        with write_chunks_spec[OF assms w] s ne show ?thesis by auto
      qed
    qed
  qed
  then show "ring_wf r'" by blast
  from * show "\<exists>out. ring_contents r' = ring_contents r @ take n out \<and>
      (underflow \<or> src = None \<or> src = Some [] \<longrightarrow> n = 0) \<and>
      (hw = target \<and> \<not> underflow \<and> src \<noteq> None \<longrightarrow> Some out = src)" by blast
qed

theorem ring_refines_queue_witness:
  "ring_contents (fst (ring_write ring_init [5, 6, 7])) = [5, 6, 7]"
proof -
  have wf: "ring_wf ring_init" by (simp add: ring_wf_def ring_init_def)
  obtain r' n where w: "ring_write ring_init [5, 6, 7] = (r', n)" by (metis surj_pair)
  have "ring_contents ring_init = []" by (simp add: ring_contents_def ring_init_def ring_readable_def)
  with ring_refines_queue[OF wf] w have "n = min 3 262143 \<and> ring_contents r' = take n [5, 6, 7]" by fastforce
  with w show ?thesis by simp
qed

lemma tile_fill_nth:
  "buf \<noteq> [] \<Longrightarrow> length (tile_fill m buf) = m \<and> (\<forall>i < m. tile_fill m buf ! i = buf ! (i mod length buf))"
proof (induction m buf rule: tile_fill.induct)
  case (1 m buf)
  show ?case
  proof (cases "m < length buf")
    case True
    then show ?thesis using 1(2) by (cases "m = 0") (simp_all add: tile_fill.simps[of m buf] tile_fill.simps[of 0 buf])
  next
    case False
    define rest where "rest = tile_fill (m - length buf) buf"
    have IH: "length rest = m - length buf" "\<forall>i < m - length buf. rest ! i = buf ! (i mod length buf)"
      using 1(1)[OF _ refl] 1(2) False by (auto simp: rest_def)
    have "0 < m" using False 1(2) by (cases m) auto
    then have e: "tile_fill m buf = buf @ rest"
      using False 1(2) by (simp add: tile_fill.simps[of m buf] rest_def)
    have "(buf @ rest) ! i = buf ! (i mod length buf)" if "i < m" for i
    proof (cases "i < length buf")
      case True
      then show ?thesis by (simp add: nth_append)
    next
      case ge: False
      then have "i mod length buf = (i - length buf) mod length buf" by (simp add: le_mod_geq)
      with IH(2) ge that show ?thesis by (simp add: nth_append)
    qed
    with e IH(1) False show ?thesis by simp
  qed
qed

text \<open>
  A dry ring is covered by repeating: the fill always gives exactly the samples asked for; when
  the last good frame is long enough they are its end, otherwise they are its samples over and over,
  and without one they are silence.
\<close>

theorem repeat_fill_covers:
  "length (repeat_fill n last_buf) = n \<and>
   (\<forall>i < n. repeat_fill n last_buf ! i =
      (case last_buf of None \<Rightarrow> 0
       | Some buf \<Rightarrow> if buf = [] then 0
                     else if n \<le> length buf then buf ! (length buf - n + i)
                     else buf ! (i mod length buf)))"
  using tile_fill_nth by (cases last_buf) (auto simp: repeat_fill_def)

end
