(* ===== verification/Thread_Ring.thy ===== *)
theory Thread_Ring
  imports Audio_Thread Audio_Ring_Props
begin

text \<open>
  The audio thread on the playback ring: what \<open>kerchunk_audio_playback\<close> (\<open>src/kerchunk_audio.c\<close>) writes, with the
  clipping of a full ring, and what the callback of the sound card reads, before a pass and between its writes.
  The room and the pending samples that a pass samples are those of the ring. While every pass finds room for
  the silence of the delay and one frame, nothing is lost; a frame is drained without a test of the room, and then it is.
\<close>

subsection \<open>Passes on the ring\<close>

text \<open>The samples of an effect; the result of the write, how many samples were taken, is ignored.\<close>

fun put_out :: "tx_effect \<Rightarrow> int list" where
  "put_out (Play_silence n) = replicate (nat n) 0"
| "put_out (Play out) = out"
| "put_out e = []"

definition audio_playback :: "ring \<Rightarrow> int list \<Rightarrow> ring" where
  "audio_playback r buf = fst (ring_write r buf)"

definition play_effect :: "ring \<Rightarrow> tx_effect \<Rightarrow> ring" where
  "play_effect r e = (case e of Play_silence n \<Rightarrow> audio_playback r (put_out e) | Play out \<Rightarrow> audio_playback r (put_out e) | _ \<Rightarrow> r)"

text \<open>The callback may read before every effect: \<open>ks\<close> are the numbers of samples it asks for.\<close>

fun play_effects :: "ring \<Rightarrow> nat list \<Rightarrow> tx_effect list \<Rightarrow> ring \<times> int list" where
  "play_effects r ks [] = (r, [])"
| "play_effects r ks (e # es) =
     (let (r1, got) = ring_read r (case ks of k # _ \<Rightarrow> k | [] \<Rightarrow> 0);
          (r2, more) = play_effects (play_effect r1 e) (tl ks) es
      in (r2, got @ more))"

text \<open>What the thread samples besides queue and ring, and the reads of the callback before the pass and during it.\<close>

record ring_env =
  v_receiving :: bool
  v_ptt_held :: bool
  v_now :: "64 word"
  v_before :: nat
  v_during :: "nat list"

definition sample_ring :: "ring_env \<Rightarrow> ring \<Rightarrow> tx_env" where
  "sample_ring v r = \<lparr>e_receiving = v_receiving v, e_ptt_held = v_ptt_held v, e_writable = ring_writable r, e_pending = ring_readable r, e_now = v_now v\<rparr>"

text \<open>What is seen of a pass: its effects, what the callback read, and the room that the pass found.\<close>

record pass_seen =
  ps_effects :: "tx_effect list"
  ps_read :: "int list"
  ps_room :: nat

definition ring_pass ::
  "(int list \<Rightarrow> int list) \<Rightarrow> int \<Rightarrow> int \<Rightarrow> audio_state \<times> audio_queue \<times> ring \<Rightarrow> ring_env \<Rightarrow> (audio_state \<times> audio_queue \<times> ring) \<times> pass_seen" where
  "ring_pass scramble rate f st v =
     (let (s, q, r) = st;
          (r0, got) = ring_read r (v_before v);
          ((s1, q1), effs, rerun) = audio_pass queue_depth queue_is_draining queue_drain scramble rate f (s, q) (sample_ring v r0);
          (r1, more) = play_effects r0 (v_during v) effs
      in ((s1, q1, r1), \<lparr>ps_effects = effs, ps_read = got @ more, ps_room = ring_writable r0\<rparr>))"

abbreviation ring_run where
  "ring_run scramble rate f \<equiv> run_steps (ring_pass scramble rate f)"

subsection \<open>The samples of a pass\<close>

text \<open>Silence is never of a negative length.\<close>

definition fed_silence :: "tx_action list \<Rightarrow> bool" where
  "fed_silence acts \<longleftrightarrow> (\<forall>n. Silence n \<in> set acts \<longrightarrow> 0 \<le> n)"

lemma fed_push: "fed_silence acts \<Longrightarrow> \<forall>n. a \<noteq> Silence n \<Longrightarrow> fed_silence (push_action acts a)"
  by (auto simp: fed_silence_def push_action_def)

lemma fed_feed:
  assumes "0 < f" "fed_silence acts" "feed_silence f r w acts = (r', w', acts')"
  shows "fed_silence acts'"
proof -
  obtain ns where "acts' = acts @ map Silence ns" "\<forall>n \<in> set ns. 0 < n" using feed_silence_spec[OF assms(1,3)] by blast
  with assms(2) show ?thesis by (auto simp: fed_silence_def)
qed

lemma fed_pass:
  assumes "0 < rate" "0 < f" "audio_tick_tx s i rate f = (s', acts, rr)"
  shows "fed_silence acts"
  using assms
proof (rule tx_pass_stages)
  fix s1 a1 s2 w2 a2 d s3 w3 a3 e s4 a4
  assume 1: "tx_start (tx_paused s i) i rate s = (s1, a1)"
    and 2: "tx_delay (tx_paused s i) f (in_play_writable i) (s1, a1) = (s2, w2, a2)"
    and 3: "tx_drain (tx_paused s i) i f (s2, w2, a2) = (d, s3, w3, a3)"
    and 4: "tx_tail (tx_paused s i) i rate f (d, s3, w3, a3) = (e, s4, a4)"
    and 5: "if e then (s', acts, rr) = (s4, a4, True) else (s', acts, rr) = tx_cancel (tx_paused s i) i (s4, a4)"
  have f0: "fed_silence []" by (simp add: fed_silence_def)
  have f1: "fed_silence a1" using 1 f0 fed_push[OF f0, of Assert_PTT] by (auto simp: tx_start_def split: if_splits)
  have f2: "fed_silence a2" using 2 f1 fed_feed[OF assms(2) f1] by (auto simp: tx_delay_def split: if_splits prod.splits)
  have f3: "fed_silence a3" using 3 f2 fed_push by (auto simp: tx_drain_def Let_def split: if_splits)
  have "fed_silence a4" using 4 f3
    by (auto simp: tx_tail_def Let_def split: if_splits prod.splits intro!: fed_push dest: fed_feed[OF assms(2) f3])
  with 5 f0 show ?thesis by (auto simp: tx_cancel_def split: if_splits)
qed

text \<open>The room a pass needs: its silence, and a frame if it drains one.\<close>

definition put_length :: "tx_effect list \<Rightarrow> nat" where
  "put_length es = length (concat (map put_out es))"

lemma put_length_simps [simp]: "put_length [] = 0" "put_length (e # es) = length (put_out e) + put_length es"
  by (simp_all add: put_length_def)

lemma exec_put_length:
  assumes "q_inv q" "\<And>xs. length (scramble xs) = length xs" "fed_silence acts" "\<forall>n. Drain n \<in> set acts \<longrightarrow> nat n = m"
    and "exec_actions queue_drain scramble now q acts = (q', effs)"
  shows "int (put_length effs) \<le> silence_sum acts + int (m * length (filter is_drain acts))"
  using assms(1,3,4,5)
proof (induction acts arbitrary: q effs)
  case (Cons a acts)
  obtain q1 e1 where 1: "exec_action queue_drain scramble now q a = (q1, e1)" by (metis surj_pair)
  obtain e2 where 2: "exec_actions queue_drain scramble now q1 acts = (q', e2)" and e: "effs = e1 @ e2"
    using Cons.prems(4) 1 by (auto split: prod.splits)
  have pl: "put_length effs = put_length e1 + put_length e2" unfolding e by (simp add: put_length_def)
  have rest: "fed_silence acts" "\<forall>n. Drain n \<in> set acts \<longrightarrow> nat n = m" using Cons.prems(2,3) by (auto simp: fed_silence_def)
  have "q_inv q1 \<and> int (put_length e1) \<le> silence_of a + int (m * (if is_drain a then 1 else 0))"
  proof (cases a)
    case (Silence n)
    then have "0 \<le> n" using Cons.prems(2) by (auto simp: fed_silence_def)
    then show ?thesis using 1 Silence Cons.prems(1) by auto
  next
    case (Drain n)
    then have n: "nat n = m" using Cons.prems(3) by simp
    obtain qn out where d: "queue_drain q m = (qn, out)" by (metis surj_pair)
    from queue_drain_inv[OF Cons.prems(1) d] 1 Drain n d assms(2) show ?thesis by (auto split: if_splits)
  qed (use 1 Cons.prems(1) in auto)
  with Cons.IH[OF _ rest 2] pl show ?case by (auto simp: algebra_simps split: if_splits)
qed simp

text \<open>A pass that drains has fed no more silence than the delay.\<close>

lemma tx_pass_drain_room:
  assumes "tx_inv s" "tx_bounded rate s" "0 < rate" "0 < f" "audio_tick_tx s i rate f = (s', acts, rr)"
    and "filter is_drain acts \<noteq> []"
  shows "silence_sum acts \<le> cdiv (rate * tx_delay_ms s) 1000"
  using assms(1,3,4,5)
proof (cases rule: tx_pass_parts)
  case (1 s1 a1 ns s2 w2 xs d s3 w3 e s4 a4)
  note p = 1
  have a: "acts = a4" using p(23) assms(6) by auto
  from tx_tail_stage[OF p(12) assms(3,4) p(21,22)] have t: "filter is_drain a4 = filter is_drain (a1 @ map Silence ns @ xs)" "d \<longrightarrow> a4 = a1 @ map Silence ns @ xs" by auto
  have "xs \<noteq> []" using t(1) assms(6) a p(5) by auto
  then have "d" using p(20) by blast
  then have "silence_sum acts = sum_list ns" using t(2) a p(5,18) by auto
  moreover have "0 \<le> tx_delay_rem s1 - sum_list ns" using p(6,7) by (simp add: tx_inv_def)
  moreover have "tx_delay_rem s1 \<le> cdiv (rate * tx_delay_ms s) 1000"
    using tx_start_config[OF p(1) assms(3,1)] assms(2) by (metis tx_bounded_def)
  ultimately show ?thesis by simp
qed

lemma pass_put_length:
  assumes "tx_inv s" "tx_bounded rate s" "0 < rate" "0 < f" "q_inv q" "\<And>xs. length (scramble xs) = length xs"
    and "audio_pass queue_depth queue_is_draining queue_drain scramble rate f (s, q) e = ((s', q'), effs, rr)"
    and "f + cdiv (rate * tx_delay_ms s) 1000 \<le> int (e_writable e)"
  shows "put_length effs \<le> e_writable e"
proof -
  from assms(7) obtain acts where t: "audio_tick_tx s (sample_tx_in queue_depth queue_is_draining q e) rate f = (s', acts, rr)"
    and x: "exec_actions queue_drain scramble (e_now e) q acts = (q', effs)" by (rule audio_passE)
  have d: "\<forall>n. Drain n \<in> set acts \<longrightarrow> nat n = nat f"
    using drains_member[of _ acts f] tx_pass_drains[OF assms(1,3,4) t] by blast
  have l: "int (put_length effs) \<le> silence_sum acts + int (nat f * length (filter is_drain acts))"
    by (rule exec_put_length[OF assms(5,6) fed_pass[OF assms(3,4) t] d x])
  show ?thesis
  proof (cases "filter is_drain acts = []")
    case True
    with l tx_pass[OF assms(1,3,4) t] show ?thesis by (simp add: sample_tx_in_def)
  next
    case False
    then have "length (filter is_drain acts) = 1" using tx_pass_drains[OF assms(1,3,4) t] by auto
    with l tx_pass_drain_room[OF assms(1-4) t False] assms(4,8) show ?thesis by simp
  qed
qed

subsection \<open>The ring\<close>

lemma ring_room: "ring_wf r \<Longrightarrow> ring_writable r = RING_SIZE - 1 - length (ring_contents r) \<and> length (ring_contents r) < RING_SIZE"
proof -
  assume "ring_wf r"
  then obtain h t hist where rel: "ring_rel r h t hist" using wf_rel by blast
  have "length (ring_contents r) = h - t" unfolding rel_contents[OF rel] using rel by (simp add: ring_rel_def)
  with rel_writable[OF rel] rel show ?thesis by (simp add: ring_rel_def)
qed

lemma playback_spec:
  assumes "ring_wf r" "length buf \<le> ring_writable r"
  shows "ring_wf (audio_playback r buf)" "ring_contents (audio_playback r buf) = ring_contents r @ buf"
    "ring_writable (audio_playback r buf) = ring_writable r - length buf"
proof -
  obtain r' n where w: "ring_write r buf = (r', n)" by (cases "ring_write r buf")
  note s = ring_write_spec[OF assms(1) w]
  have n: "n = length buf" using s assms(2) ring_room[OF assms(1)] by simp
  show wf: "ring_wf (audio_playback r buf)" using s w by (simp add: audio_playback_def)
  show c: "ring_contents (audio_playback r buf) = ring_contents r @ buf" using s w n by (simp add: audio_playback_def)
  show "ring_writable (audio_playback r buf) = ring_writable r - length buf" using ring_room[OF wf] ring_room[OF assms(1)] c by simp
qed

lemma play_effect_spec:
  assumes "ring_wf r" "length (put_out e) \<le> ring_writable r"
  shows "ring_wf (play_effect r e)" "ring_contents (play_effect r e) = ring_contents r @ put_out e"
    "ring_writable (play_effect r e) = ring_writable r - length (put_out e)"
  using playback_spec[OF assms] assms(1) by (cases e; simp add: play_effect_def)+

lemma play_effects_lossless:
  assumes "ring_wf r" "put_length es \<le> ring_writable r" "play_effects r ks es = (r', got)"
  shows "ring_wf r' \<and> got @ ring_contents r' = ring_contents r @ concat (map put_out es)"
  using assms
proof (induction r ks es arbitrary: r' got rule: play_effects.induct)
  case (2 r ks e es)
  obtain r1 g1 where 1: "ring_read r (case ks of k # _ \<Rightarrow> k | [] \<Rightarrow> 0) = (r1, g1)" by (metis surj_pair)
  obtain r2 g2 where 3: "play_effects (play_effect r1 e) (tl ks) es = (r2, g2)" by (metis surj_pair)
  have e: "r' = r2" "got = g1 @ g2" using 2(4) 1 3 by simp_all
  note s = ring_read_spec[OF 2(2) 1]
  have wf: "ring_wf r1" using s by blast
  have c: "g1 @ ring_contents r1 = ring_contents r" using s by simp
  have room: "ring_writable r \<le> ring_writable r1"
    using ring_room[OF wf] ring_room[OF 2(2)] arg_cong[OF c, of length] by simp
  then have "length (put_out e) \<le> ring_writable r1" using 2(3) by simp
  note p = play_effect_spec[OF wf this]
  have "put_length es \<le> ring_writable (play_effect r1 e)" unfolding p(3) using 2(3) room by simp
  from 2(1)[OF 1[symmetric] refl p(1) this 3] p(2) c e show ?case by (metis append.assoc concat.simps(2) list.simps(9))
qed simp

subsection \<open>Nothing is lost while there is room\<close>

lemma ring_pass_accounts:
  assumes "tx_inv s" "tx_bounded rate s" "0 < rate" "0 < f" "q_inv q" "ring_wf r" "\<And>xs. length (scramble xs) = length xs"
    and "ring_pass scramble rate f (s, q, r) v = ((s', q', r'), x)" "f + cdiv (rate * tx_delay_ms s) 1000 \<le> int (ps_room x)"
  shows "tx_inv s' \<and> tx_bounded rate s' \<and> tx_delay_ms s' = tx_delay_ms s \<and> q_inv q' \<and> ring_wf r' \<and>
    ps_read x @ ring_contents r' = ring_contents r @ concat (map put_out (ps_effects x)) \<and>
    map scramble (queue_frames (nat f) q) = played (ps_effects x) @ map scramble (queue_frames (nat f) q')"
proof -
  obtain r0 got where 0: "ring_read r (v_before v) = (r0, got)" by (metis surj_pair)
  obtain s1 q1 effs rr where 1: "audio_pass queue_depth queue_is_draining queue_drain scramble rate f (s, q) (sample_ring v r0) = ((s1, q1), effs, rr)"
    by (metis surj_pair)
  obtain r1 more where 2: "play_effects r0 (v_during v) effs = (r1, more)" by (metis surj_pair)
  have e: "s' = s1" "q' = q1" "r' = r1" "x = \<lparr>ps_effects = effs, ps_read = got @ more, ps_room = ring_writable r0\<rparr>"
    using assms(8) 0 1 2 by (simp_all add: ring_pass_def)
  note rd = ring_read_spec[OF assms(6) 0]
  have "put_length effs \<le> e_writable (sample_ring v r0)"
    by (rule pass_put_length[OF assms(1-5,7) 1]) (use assms(9) e(4) in \<open>simp add: sample_ring_def\<close>)
  then have "put_length effs \<le> ring_writable r0" by (simp add: sample_ring_def)
  from play_effects_lossless[OF conjunct1[OF rd] this 2] have
    "ring_wf r'" "ps_read x @ ring_contents r' = ring_contents r @ concat (map put_out (ps_effects x))"
    using rd e by auto
  with aq.pass_accounts[OF assms(1,3,4,5) 1] assms(2) e show ?thesis by simp
qed

text \<open>
  C2. The playback ring receives the queue's audio in order and without loss: over any run of passes, whatever the thread's
  environment does and whenever and however much the sound card's callback reads, as long as every pass finds room in the ring for the silence of
  the transmit delay and one frame, what the callback has read followed by what is in the ring at the end is what was in the ring at
  the start followed by every sample of silence and of audio that the passes put out; and the audio put out, frame by frame, followed by
  what remains in the queue is what was in the queue at the start. The room is a condition because the code does not test it
  before it drains a frame: without it samples are lost, as \<open>drain_without_room\<close> shows.
\<close>

theorem thread_plays_in_order:
  assumes "tx_inv s" "tx_bounded rate s" "0 < rate" "0 < f" "q_inv q" "ring_wf r" "\<And>xs. length (scramble xs) = length xs"
    and "ring_run scramble rate f (s, q, r) vs = ((s', q', r'), outs)"
    and "\<forall>x \<in> set outs. f + cdiv (rate * tx_delay_ms s) 1000 \<le> int (ps_room x)"
  shows "concat (map ps_read outs) @ ring_contents r' = ring_contents r @ concat (map put_out (concat (map ps_effects outs))) \<and>
    map scramble (queue_frames (nat f) q) = played (concat (map ps_effects outs)) @ map scramble (queue_frames (nat f) q') \<and>
    tx_inv s' \<and> q_inv q' \<and> ring_wf r'"
  using assms(1,2,5,6,8,9)
proof (induction vs arbitrary: s q r outs)
  case (Cons v vs)
  obtain s1 q1 r1 x where 1: "ring_pass scramble rate f (s, q, r) v = ((s1, q1, r1), x)" by (metis surj_pair)
  obtain st2 outs2 where 2: "ring_run scramble rate f (s1, q1, r1) vs = (st2, outs2)" by (metis surj_pair)
  have e: "st2 = (s', q', r')" "outs = x # outs2" using Cons.prems(5) 1 2 by simp_all
  note a = ring_pass_accounts[OF Cons.prems(1,2) assms(3,4) Cons.prems(3,4) assms(7) 1]
  have room: "f + cdiv (rate * tx_delay_ms s) 1000 \<le> int (ps_room x)" using Cons.prems(6) e(2) by simp
  note a = a[OF room]
  have "\<forall>x \<in> set outs2. f + cdiv (rate * tx_delay_ms s1) 1000 \<le> int (ps_room x)" using Cons.prems(6) e(2) a by simp
  with Cons.IH[of s1 q1 r1 outs2] a 2 e(1) have
    IH: "concat (map ps_read outs2) @ ring_contents r' = ring_contents r1 @ concat (map put_out (concat (map ps_effects outs2)))"
      "map scramble (queue_frames (nat f) q1) = played (concat (map ps_effects outs2)) @ map scramble (queue_frames (nat f) q')"
      "tx_inv s'" "q_inv q'" "ring_wf r'" by blast+
  have "ps_read x @ concat (map ps_read outs2) @ ring_contents r' =
      (ring_contents r @ concat (map put_out (ps_effects x))) @ concat (map put_out (concat (map ps_effects outs2)))"
    using IH(1) a by (metis append.assoc)
  with IH a show ?case unfolding e(2) by simp
qed simp

subsection \<open>Loss without room\<close>

text \<open>
  A pass in the middle of a transmission drains a frame and the ring takes what it has room for: the rest of the frame is in
  neither the ring nor the queue.
\<close>

lemma pass_drains:
  assumes "queue_ptt s" "tx_delay_rem s = 0" "tx_tail_rem s \<le> 0" "queue_fired_drain s" "0 < rate" "0 < f" "queue_depth q > 0" "queue_drain q (nat f) = (q1, out)" "out \<noteq> []"
  shows "audio_pass queue_depth queue_is_draining queue_drain scramble rate f (s, q) e = ((s, q1), [Play (scramble out)], False)"
proof -
  have "feed_silence f 0 w [] = (0, w, [])" for w by (subst feed_silence.simps) simp
  then have "audio_tick_tx s (sample_tx_in queue_depth queue_is_draining q e) rate f = (s, [Drain f], False)"
    using assms(1-7) by (simp add: audio_tick_tx_def tx_paused_def tx_start_def tx_delay_def tx_drain_def tx_tail_def tx_cancel_def
        push_action_def tx_has_audio_def sample_tx_in_def Let_def)
  then show ?thesis using assms(8,9) by (simp add: audio_pass_def)
qed

theorem drain_without_room:
  assumes "queue_ptt s" "tx_delay_rem s = 0" "tx_tail_rem s \<le> 0" "queue_fired_drain s" "0 < rate" "0 < f" "queue_depth q > 0"
    and "queue_frames (nat f) q = frame # rest" "q_inv q" "ring_wf r" "v_before v = 0" "v_during v = []"
    and "ring_pass (\<lambda>x. x) rate f (s, q, r) v = ((s', q', r'), x)"
  shows "queue_frames (nat f) q' = rest \<and> ring_contents r' = ring_contents r @ take (ring_writable r) frame \<and> ps_read x = []"
proof -
  obtain q1 out where d: "queue_drain q (nat f) = (q1, out)" by (metis surj_pair)
  have fr: "out = frame" "queue_frames (nat f) q1 = rest"
    using aq.pull_frame[OF assms(9) _ d] assms(6,8) by simp_all
  have "length frame = nat f" using aq.frame_size[OF assms(9), of "nat f" frame] assms(6,8) by simp
  then have ne: "out \<noteq> []" using fr assms(6) by auto
  obtain r0 g0 where r0: "ring_read r 0 = (r0, g0)" by (metis surj_pair)
  note z = ring_read_spec[OF assms(10) r0]
  note p = pass_drains[OF assms(1-7) d ne, of "\<lambda>x. x" "sample_ring v r0"]
  obtain r2 g2 where r2: "ring_read r0 0 = (r2, g2)" by (metis surj_pair)
  note y = ring_read_spec[OF conjunct1[OF z] r2]
  obtain r3 n where w: "ring_write r2 out = (r3, n)" by (metis surj_pair)
  note t = ring_write_spec[OF conjunct1[OF y] w]
  have "s' = s" "q' = q1" "r' = r3" "ps_read x = g0 @ g2"
    using assms(11-13) r0 p r2 w by (auto simp: ring_pass_def play_effect_def audio_playback_def)
  moreover have "take n frame = take (ring_writable r) frame"
    using t y z ring_room[OF assms(10)] fr(1) by (simp add: min_def)
  ultimately show ?thesis using t y z fr by simp
qed

subsection \<open>A small station\<close>

definition quiet_env :: ring_env where
  "quiet_env = \<lparr>v_receiving = False, v_ptt_held = False, v_now = 0, v_before = 1, v_during = [1]\<rparr>"

lemma ring_init_wf: "ring_wf ring_init" "ring_contents ring_init = []" "ring_writable ring_init = RING_SIZE - 1"
proof -
  show "ring_wf ring_init" by (rule rel_wf[OF ring_init_rel])
  then show "ring_contents ring_init = []" using rel_contents[OF ring_init_rel] by simp
  then show "ring_writable ring_init = RING_SIZE - 1" using ring_room[OF \<open>ring_wf ring_init\<close>] by simp
qed

lemma first_room:
  assumes "ring_wf r" "length (ring_contents r) \<le> 100" "ring_pass scramble rate f (s, q, r) v = (st, x)"
  shows "RING_SIZE - 101 \<le> ps_room x"
proof -
  obtain r0 got where 0: "ring_read r (v_before v) = (r0, got)" by (metis surj_pair)
  have "ps_room x = ring_writable r0" using assms(3) 0 by (auto simp: ring_pass_def split: prod.splits)
  moreover have "length (ring_contents r0) \<le> 100" "ring_wf r0" using ring_read_spec[OF assms(1) 0] assms(2) by simp_all
  ultimately show ?thesis using ring_room[of r0] by simp
qed

theorem thread_plays_in_order_witness:
  "\<exists>s' q' r' x. ring_run (\<lambda>x. x) 8000 2 (small_station, two_items, ring_init) [quiet_env] = ((s', q', r'), [x]) \<and>
     ps_read x @ ring_contents r' = concat (map put_out (ps_effects x)) \<and>
     [[9, 0], [1, 2], [3, 0]] = played (ps_effects x) @ queue_frames 2 q'"
proof -
  obtain s' q' r' x where 1: "ring_pass (\<lambda>x. x) 8000 2 (small_station, two_items, ring_init) quiet_env = ((s', q', r'), x)" by (metis surj_pair)
  then have r: "ring_run (\<lambda>x. x) 8000 2 (small_station, two_items, ring_init) [quiet_env] = ((s', q', r'), [x])" by simp
  have "RING_SIZE - 101 \<le> ps_room x" by (rule first_room[OF ring_init_wf(1) _ 1]) (simp add: ring_init_wf(2))
  then have room: "\<forall>y \<in> set [x]. 2 + cdiv (8000 * tx_delay_ms small_station) 1000 \<le> int (ps_room y)"
    by (simp add: small_station_def demo_state_def cdiv_def)
  from thread_plays_in_order[OF small_station_inv(1,2) _ _ two_items_inv ring_init_wf(1) _ r room] r two_items_frames ring_init_wf(2)
  show ?thesis by simp
qed

end
