(* ===== verification/Core_Api.thy ===== *)
theory Core_Api
  imports Prelude
begin

text \<open>
  The state behind the core API (\<open>src/kerchunk_core.c\<close>): the reference-counted PTT, the carrier
  flag, the audio taps, the scrambler hooks, the emergency flag and the elevated OTP sessions.
  The wrappers that only forward to the queue, the timers, the users and the configuration are
  those components' operations. A pointer to a function is a value of a type parameter.
\<close>

text \<open>What an operation does outside its state: the HID output and the fired events, in order.\<close>

datatype core_effect = Set_HID_PTT bool | Fire_PTT_ASSERT | Fire_PTT_DROP

record ('h, 'u) core =
  g_ptt_active :: bool
  g_ptt_refcount :: int
  g_cor_active :: bool
  g_emergency_active :: bool
  g_emergency_expires_at :: int
  g_taps :: "('h \<times> 'u) list"
  g_play_taps :: "('h \<times> 'u) list"
  g_rx_scrambler :: "'h option \<times> 'u option"
  g_tx_scrambler :: "'h option \<times> 'u option"
  g_otp_sessions :: "(int \<times> bool) list"
  g_sample_rate :: int
  g_frame_samples :: int

abbreviation MAX_TAPS :: nat where "MAX_TAPS \<equiv> 8"
abbreviation MAX_OTP_ELEVATED :: nat where "MAX_OTP_ELEVATED \<equiv> 64"

definition core_init :: "('h, 'u) core" where
  "core_init = \<lparr>g_ptt_active = False, g_ptt_refcount = 0, g_cor_active = False,
     g_emergency_active = False, g_emergency_expires_at = 0, g_taps = [], g_play_taps = [],
     g_rx_scrambler = (None, None), g_tx_scrambler = (None, None),
     g_otp_sessions = replicate MAX_OTP_ELEVATED (0, False),
     g_sample_rate = 48000, g_frame_samples = 960\<rparr>"

subsection \<open>PTT\<close>

definition core_request_ptt :: "('h, 'u) core \<Rightarrow> ('h, 'u) core \<times> core_effect list" where
  "core_request_ptt c =
     (let c1 = c\<lparr>g_ptt_refcount := g_ptt_refcount c + 1\<rparr>
      in if \<not> g_ptt_active c1 then (c1\<lparr>g_ptt_active := True\<rparr>, [Set_HID_PTT True, Fire_PTT_ASSERT])
         else (c1, []))"

definition core_release_ptt :: "('h, 'u) core \<Rightarrow> ('h, 'u) core \<times> core_effect list" where
  "core_release_ptt c =
     (let c1 = (if g_ptt_refcount c > 0 then c\<lparr>g_ptt_refcount := g_ptt_refcount c - 1\<rparr> else c)
      in if g_ptt_refcount c1 = 0 \<and> g_ptt_active c1
         then (c1\<lparr>g_ptt_active := False\<rparr>, [Set_HID_PTT False, Fire_PTT_DROP])
         else (c1, []))"

definition core_get_ptt :: "('h, 'u) core \<Rightarrow> bool" where
  "core_get_ptt c = g_ptt_active c"

definition core_set_cor :: "('h, 'u) core \<Rightarrow> bool \<Rightarrow> ('h, 'u) core" where
  "core_set_cor c active = c\<lparr>g_cor_active := active\<rparr>"

definition core_is_receiving :: "('h, 'u) core \<Rightarrow> bool" where
  "core_is_receiving c = g_cor_active c"

definition core_is_transmitting :: "('h, 'u) core \<Rightarrow> bool" where
  "core_is_transmitting c = g_ptt_active c"

definition core_set_sample_rate :: "('h, 'u) core \<Rightarrow> int \<Rightarrow> ('h, 'u) core" where
  "core_set_sample_rate c rate = c\<lparr>g_sample_rate := rate, g_frame_samples := cdiv (rate * 20) 1000\<rparr>"

subsection \<open>Audio taps\<close>

definition tap_add :: "('h \<times> 'u) list \<Rightarrow> 'h \<Rightarrow> 'u \<Rightarrow> ('h \<times> 'u) list \<times> int" where
  "tap_add taps h u = (if length taps \<ge> MAX_TAPS then (taps, -1) else (taps @ [(h, u)], 0))"

fun tap_remove :: "('h \<times> 'u) list \<Rightarrow> 'h \<Rightarrow> ('h \<times> 'u) list" where
  "tap_remove [] h = []"
| "tap_remove ((h', u) # rest) h = (if h' = h then rest else (h', u) # tap_remove rest h)"

definition core_audio_tap_register :: "('h, 'u) core \<Rightarrow> 'h \<Rightarrow> 'u \<Rightarrow> ('h, 'u) core \<times> int" where
  "core_audio_tap_register c h u = (let (taps, r) = tap_add (g_taps c) h u in (c\<lparr>g_taps := taps\<rparr>, r))"

definition core_audio_tap_unregister :: "('h, 'u) core \<Rightarrow> 'h \<Rightarrow> ('h, 'u) core" where
  "core_audio_tap_unregister c h = c\<lparr>g_taps := tap_remove (g_taps c) h\<rparr>"

definition core_playback_tap_register :: "('h, 'u) core \<Rightarrow> 'h \<Rightarrow> 'u \<Rightarrow> ('h, 'u) core \<times> int" where
  "core_playback_tap_register c h u =
     (let (taps, r) = tap_add (g_play_taps c) h u in (c\<lparr>g_play_taps := taps\<rparr>, r))"

definition core_playback_tap_unregister :: "('h, 'u) core \<Rightarrow> 'h \<Rightarrow> ('h, 'u) core" where
  "core_playback_tap_unregister c h = c\<lparr>g_play_taps := tap_remove (g_play_taps c) h\<rparr>"

text \<open>The dispatch runs the handlers of a snapshot, in order, on the state that holds the core.\<close>

definition core_dispatch_taps ::
  "('s \<Rightarrow> ('h, 'u) core) \<Rightarrow> ('h \<Rightarrow> 'u \<Rightarrow> 'e \<Rightarrow> 's \<Rightarrow> 's) \<Rightarrow> 'e \<Rightarrow> 's \<Rightarrow> 's" where
  "core_dispatch_taps get run evt s = foldl (\<lambda>s (h, u). run h u evt s) s (g_taps (get s))"

definition core_dispatch_playback_taps ::
  "('s \<Rightarrow> ('h, 'u) core) \<Rightarrow> ('h \<Rightarrow> 'u \<Rightarrow> 'e \<Rightarrow> 's \<Rightarrow> 's) \<Rightarrow> 'e \<Rightarrow> 's \<Rightarrow> 's" where
  "core_dispatch_playback_taps get run evt s = foldl (\<lambda>s (h, u). run h u evt s) s (g_play_taps (get s))"

subsection \<open>Scramblers, emergency, elevated sessions\<close>

definition core_set_rx_scrambler where
  "core_set_rx_scrambler c fn ctx = c\<lparr>g_rx_scrambler := (fn, ctx)\<rparr>"

definition core_set_tx_scrambler where
  "core_set_tx_scrambler c fn ctx = c\<lparr>g_tx_scrambler := (fn, ctx)\<rparr>"

definition core_get_rx_scrambler where "core_get_rx_scrambler c = g_rx_scrambler c"
definition core_get_tx_scrambler where "core_get_tx_scrambler c = g_tx_scrambler c"

definition core_set_emergency :: "('h, 'u) core \<Rightarrow> bool \<Rightarrow> ('h, 'u) core" where
  "core_set_emergency c active =
     (let c1 = c\<lparr>g_emergency_active := active\<rparr>
      in if \<not> active then c1\<lparr>g_emergency_expires_at := 0\<rparr> else c1)"

definition core_get_emergency :: "('h, 'u) core \<Rightarrow> bool" where
  "core_get_emergency c = g_emergency_active c"

definition core_set_emergency_expires_at :: "('h, 'u) core \<Rightarrow> int \<Rightarrow> ('h, 'u) core" where
  "core_set_emergency_expires_at c t = c\<lparr>g_emergency_expires_at := t\<rparr>"

definition core_get_emergency_expires_at :: "('h, 'u) core \<Rightarrow> int" where
  "core_get_emergency_expires_at c = g_emergency_expires_at c"

definition core_set_otp_elevated :: "('h, 'u) core \<Rightarrow> int \<Rightarrow> bool \<Rightarrow> ('h, 'u) core" where
  "core_set_otp_elevated c uid elevated =
     (if uid \<le> 0 then c
      else (case find_idx (\<lambda>e. fst e = uid) (g_otp_sessions c) of
              Some i \<Rightarrow> c\<lparr>g_otp_sessions := (g_otp_sessions c)[i := (uid, elevated)]\<rparr>
            | None \<Rightarrow>
                if \<not> elevated then c
                else (case find_idx (\<lambda>e. fst e = 0) (g_otp_sessions c) of
                        Some i \<Rightarrow> c\<lparr>g_otp_sessions := (g_otp_sessions c)[i := (uid, elevated)]\<rparr>
                      | None \<Rightarrow> c)))"

definition core_get_otp_elevated :: "('h, 'u) core \<Rightarrow> int \<Rightarrow> bool" where
  "core_get_otp_elevated c uid =
     (if uid \<le> 0 then False
      else (case find_idx (\<lambda>e. fst e = uid) (g_otp_sessions c) of
              Some i \<Rightarrow> snd (g_otp_sessions c ! i) | None \<Rightarrow> False))"

subsection \<open>The PTT count\<close>

datatype ptt_op = Request string | Release string

fun ptt_step :: "('h, 'u) core \<Rightarrow> ptt_op \<Rightarrow> ('h, 'u) core \<times> core_effect list" where
  "ptt_step c (Request m) = core_request_ptt c"
| "ptt_step c (Release m) = core_release_ptt c"

definition ptt_inv :: "('h, 'u) core \<Rightarrow> bool" where
  "ptt_inv c \<longleftrightarrow> 0 \<le> g_ptt_refcount c \<and> (g_ptt_active c \<longleftrightarrow> 0 < g_ptt_refcount c)"

lemma ptt_inv_init: "ptt_inv core_init"
  by (simp add: ptt_inv_def core_init_def)

lemma core_init_off: "g_ptt_active core_init = False"
  by (simp add: core_init_def)

lemma ptt_step_spec:
  assumes "ptt_inv c" "ptt_step c op = (c', effs)"
  shows "ptt_inv c' \<and>
         g_ptt_refcount c' = (case op of Request m \<Rightarrow> g_ptt_refcount c + 1
                              | Release m \<Rightarrow> max 0 (g_ptt_refcount c - 1)) \<and>
         effs = (if g_ptt_active c' = g_ptt_active c then []
                 else if g_ptt_active c' then [Set_HID_PTT True, Fire_PTT_ASSERT]
                 else [Set_HID_PTT False, Fire_PTT_DROP])"
  using assms
  by (cases op) (auto simp: ptt_inv_def core_request_ptt_def core_release_ptt_def Let_def split: if_splits)

text \<open>How many references each holder has taken and not given back.\<close>

fun holds :: "ptt_op list \<Rightarrow> string \<Rightarrow> int" where
  "holds [] m = 0"
| "holds (Request n # ops) m = (if n = m then 1 else 0) + holds ops m"
| "holds (Release n # ops) m = (if n = m then -1 else 0) + holds ops m"

lemma holds_append: "holds (xs @ ys) m = holds xs m + holds ys m"
  by (induction xs m rule: holds.induct) auto

text \<open>Every release is by a module that holds a reference at that moment.\<close>

definition well_paired :: "ptt_op list \<Rightarrow> bool" where
  "well_paired ops \<longleftrightarrow> (\<forall>k \<le> length ops. \<forall>m. 0 \<le> holds (take k ops) m)"

fun ptt_total :: "ptt_op list \<Rightarrow> int" where
  "ptt_total [] = 0"
| "ptt_total (Request n # ops) = 1 + ptt_total ops"
| "ptt_total (Release n # ops) = -1 + ptt_total ops"

fun holder :: "ptt_op \<Rightarrow> string" where
  "holder (Request m) = m"
| "holder (Release m) = m"

lemma total_append: "ptt_total (xs @ ys) = ptt_total xs + ptt_total ys"
  by (induction xs rule: ptt_total.induct) auto

lemma total_holds:
  "finite M \<Longrightarrow> holder ` set ops \<subseteq> M \<Longrightarrow> ptt_total ops = (\<Sum>m\<in>M. holds ops m)"
proof (induction ops rule: ptt_total.induct)
  case (2 n ops)
  then have "(\<Sum>m\<in>M. (if n = m then 1 else 0) + holds ops m) = 1 + (\<Sum>m\<in>M. holds ops m)"
    by (subst sum.distrib) simp
  with 2 show ?case by simp
next
  case (3 n ops)
  then have "(\<Sum>m\<in>M. (if n = m then -1 else 0) + holds ops m) = -1 + (\<Sum>m\<in>M. holds ops m)"
    by (subst sum.distrib) simp
  with 3 show ?case by simp
qed simp

lemma well_paired_total:
  assumes "well_paired ops"
  shows "0 \<le> ptt_total ops \<and> (0 < ptt_total ops \<longleftrightarrow> (\<exists>m. 0 < holds ops m))"
proof -
  let ?M = "holder ` set ops"
  have nn: "0 \<le> holds ops m" for m using assms unfolding well_paired_def by (metis order_refl take_all)
  have t: "ptt_total ops = (\<Sum>m\<in>?M. holds ops m)" by (rule total_holds) simp_all
  have out: "m \<notin> ?M \<Longrightarrow> holds ops m = 0" for m
    by (induction ops m rule: holds.induct) auto
  show ?thesis
  proof (intro conjI iffI)
    show "0 \<le> ptt_total ops" unfolding t using nn by (simp add: sum_nonneg)
    show "\<exists>m. 0 < holds ops m" if "0 < ptt_total ops"
    proof (rule ccontr)
      assume "\<not> (\<exists>m. 0 < holds ops m)"
      then have "holds ops m = 0" for m using nn[of m] by (simp add: antisym not_less)
      with that t show False by simp
    qed
    show "0 < ptt_total ops" if e: "\<exists>m. 0 < holds ops m"
    proof -
      from e obtain m where m: "0 < holds ops m" by blast
      with out have "m \<in> ?M" by force
      then have "holds ops m \<le> ptt_total ops" unfolding t by (rule member_le_sum) (simp_all add: nn)
      with m show ?thesis by simp
    qed
  qed
qed

lemma well_paired_prefix: "well_paired (ops @ [x]) \<Longrightarrow> well_paired ops"
  unfolding well_paired_def
proof (intro allI impI)
  fix k m
  assume a: "\<forall>k \<le> length (ops @ [x]). \<forall>m. 0 \<le> holds (take k (ops @ [x])) m" and k: "k \<le> length ops"
  then have "k \<le> length (ops @ [x])" "take k (ops @ [x]) = take k ops" by simp_all
  with a show "0 \<le> holds (take k ops) m" by metis
qed

lemma ptt_run_count:
  assumes "well_paired ops"
  shows "ptt_inv (fst (run_steps ptt_step (core_init :: ('h, 'u) core) ops)) \<and>
         g_ptt_refcount (fst (run_steps ptt_step (core_init :: ('h, 'u) core) ops)) = ptt_total ops"
  using assms
proof (induction ops rule: rev_induct)
  case Nil
  show ?case by (simp add: ptt_inv_init) (simp add: core_init_def)
next
  case (snoc x ops)
  let ?c = "fst (run_steps ptt_step (core_init :: ('h, 'u) core) ops)"
  have wp: "well_paired ops" by (rule well_paired_prefix[OF snoc.prems])
  obtain c' effs where s: "ptt_step ?c x = (c', effs)" by (metis surj_pair)
  have r: "fst (run_steps ptt_step (core_init :: ('h, 'u) core) (ops @ [x])) = c'"
    using s by (simp add: run_steps_append Let_def split_beta)
  from ptt_step_spec[OF _ s] snoc.IH[OF wp] have sp: "ptt_inv c'"
    "g_ptt_refcount c' = (case x of Request m \<Rightarrow> ptt_total ops + 1 | Release m \<Rightarrow> max 0 (ptt_total ops - 1))"
    by (cases x; simp)+
  have "0 \<le> ptt_total (ops @ [x])" using well_paired_total[OF snoc.prems] by simp
  then show ?case using sp r by (cases x) (simp_all add: total_append)
qed

fun ptt_alternates :: "bool \<Rightarrow> core_effect list \<Rightarrow> bool" where
  "ptt_alternates on [] = True"
| "ptt_alternates on (Set_HID_PTT b # es) = (b \<noteq> on \<and> ptt_alternates b es)"
| "ptt_alternates on (Fire_PTT_ASSERT # es) = (on \<and> ptt_alternates on es)"
| "ptt_alternates on (Fire_PTT_DROP # es) = (\<not> on \<and> ptt_alternates on es)"

lemma ptt_run_alternates:
  "ptt_inv c \<Longrightarrow> ptt_alternates (g_ptt_active c) (concat (snd (run_steps ptt_step c ops)))"
proof (induction ops arbitrary: c)
  case (Cons x ops)
  obtain c' effs where s: "ptt_step c x = (c', effs)" by (metis surj_pair)
  from ptt_step_spec[OF Cons.prems s] Cons.IH[of c'] s show ?case
    by (auto simp: run_steps_Cons simp del: run_steps.simps(2))
qed simp

text \<open>
  C6. The transmitter is keyed exactly while somebody holds it: over any sequence of requests
  and releases in which each module releases only what it holds, PTT is active at the end if
  and only if some module still holds a reference, and the HID line and the PTT events only
  ever report real changes, in alternation.
\<close>

theorem ptt_active_iff_held:
  assumes "well_paired ops"
  shows "(core_get_ptt (fst (run_steps ptt_step (core_init :: ('h, 'u) core) ops)) \<longleftrightarrow> (\<exists>m. 0 < holds ops m)) \<and>
         ptt_alternates False (concat (snd (run_steps ptt_step (core_init :: ('h, 'u) core) ops)))"
proof -
  let ?r = "run_steps ptt_step (core_init :: ('h, 'u) core) ops"
  have c: "ptt_inv (fst ?r)" "g_ptt_refcount (fst ?r) = ptt_total ops"
    using ptt_run_count[OF assms, where 'h = 'h and 'u = 'u] by simp_all
  have "ptt_alternates (g_ptt_active (core_init :: ('h, 'u) core)) (concat (snd ?r))"
    by (rule ptt_run_alternates[OF ptt_inv_init])
  then have "ptt_alternates False (concat (snd ?r))" by (simp only: core_init_off)
  with c well_paired_total[OF assms] show ?thesis by (simp add: ptt_inv_def core_get_ptt_def)
qed

lemma well_paired_Cons_ex: "well_paired [Request a, Request b, Release a]"
proof -
  have "0 \<le> holds (take k [Request a, Request b, Release a]) m" if "k \<le> 3" for k m
  proof -
    have "k = 0 \<or> k = 1 \<or> k = 2 \<or> k = 3" using that by auto
    then show ?thesis by (auto simp: numeral_2_eq_2 numeral_3_eq_3)
  qed
  then show ?thesis by (simp add: well_paired_def)
qed

theorem ptt_active_iff_held_witness:
  "core_get_ptt (fst (run_steps ptt_step (core_init :: (unit, unit) core)
     [Request ''queue'', Request ''repeater'', Release ''queue'']))"
proof -
  have "0 < holds [Request ''queue'', Request ''repeater'', Release ''queue''] ''repeater''" by simp
  with ptt_active_iff_held[OF well_paired_Cons_ex, of "''queue''" "''repeater''"] show ?thesis by blast
qed

subsection \<open>The elevated sessions\<close>

definition otp_known :: "('h, 'u) core \<Rightarrow> int \<Rightarrow> bool" where
  "otp_known c uid \<longleftrightarrow> uid \<in> fst ` set (g_otp_sessions c)"

lemma find_idx_fst_None: "find_idx (\<lambda>e. fst e = uid) xs = None \<longleftrightarrow> uid \<notin> fst ` set xs"
  by (auto simp: find_idx_None)

lemma find_idx_key:
  assumes "\<forall>j < length xs. (fst (xs ! j) = u) = (fst (ys ! j) = u)" "length xs = length ys"
  shows "find_idx (\<lambda>e. fst e = u) xs = find_idx (\<lambda>e. fst e = u) ys"
  using assms(2,1)
proof (induction xs ys rule: list_induct2)
  case (Cons x xs y ys)
  have "fst x = u \<longleftrightarrow> fst y = u" using Cons.prems by force
  moreover have "\<forall>j < length xs. (fst (xs ! j) = u) = (fst (ys ! j) = u)" using Cons.prems by force
  ultimately show ?case using Cons.IH by simp
qed simp

lemma otp_set_slot:
  assumes "i < length xs" "fst (xs ! i) = old" "v \<noteq> uid" "v \<noteq> old \<or> old = uid" "v > 0"
  shows "find_idx (\<lambda>e. fst e = v) (xs[i := (uid, b)]) = find_idx (\<lambda>e. fst e = v) xs"
  by (rule find_idx_key) (use assms in \<open>auto simp: nth_list_update\<close>)

lemma otp_get_other:
  assumes "i < length (g_otp_sessions c)" "fst (g_otp_sessions c ! i) = old" "old = 0 \<or> old = uid" "v \<noteq> uid"
  shows "core_get_otp_elevated (c\<lparr>g_otp_sessions := (g_otp_sessions c)[i := (uid, b)]\<rparr>) v =
         core_get_otp_elevated c v"
proof (cases "v > 0")
  case True
  let ?xs = "g_otp_sessions c"
  have e: "find_idx (\<lambda>e. fst e = v) (?xs[i := (uid, b)]) = find_idx (\<lambda>e. fst e = v) ?xs"
    using otp_set_slot[OF assms(1,2,4) _ True] assms(3) True by auto
  have "?xs[i := (uid, b)] ! k = ?xs ! k" if "find_idx (\<lambda>e. fst e = v) ?xs = Some k" for k
    using find_idx_SomeD[OF that] assms True by (auto simp: nth_list_update)
  with e show ?thesis by (simp add: core_get_otp_elevated_def split: option.split)
qed (simp add: core_get_otp_elevated_def)

lemma otp_get_self:
  assumes "i < length (g_otp_sessions c)" "uid > 0"
    "find_idx (\<lambda>e. fst e = uid) (g_otp_sessions c) = Some i \<or> \<not> otp_known c uid"
  shows "core_get_otp_elevated (c\<lparr>g_otp_sessions := (g_otp_sessions c)[i := (uid, b)]\<rparr>) uid = b"
proof -
  let ?ys = "(g_otp_sessions c)[i := (uid, b)]"
  have "?ys ! i \<in> set ?ys" using assms(1) by (intro nth_mem) simp
  then have "find_idx (\<lambda>e. fst e = uid) ?ys \<noteq> None"
    using assms(1) by (simp add: find_idx_fst_None) force
  then obtain k where k: "find_idx (\<lambda>e. fst e = uid) ?ys = Some k" by blast
  note kd = find_idx_SomeD[OF k]
  have "k = i"
  proof (rule ccontr)
    assume n: "k \<noteq> i"
    with kd have x: "k < length (g_otp_sessions c)" "fst (g_otp_sessions c ! k) = uid" by simp_all
    then have "otp_known c uid" unfolding otp_known_def by (metis image_eqI nth_mem)
    with assms(3) have f: "find_idx (\<lambda>e. fst e = uid) (g_otp_sessions c) = Some i" by blast
    have "\<not> k < i" using find_idx_SomeD[OF f] x(2) by blast
    moreover have "\<not> i < k" using kd assms(1) by auto
    ultimately show False using n by simp
  qed
  with k assms(1,2) show ?thesis by (simp add: core_get_otp_elevated_def)
qed

lemma otp_known_update:
  assumes "i < length (g_otp_sessions c)" "fst (g_otp_sessions c ! i) = 0 \<or> fst (g_otp_sessions c ! i) = uid"
    "v > 0" "otp_known c v"
  shows "otp_known (c\<lparr>g_otp_sessions := (g_otp_sessions c)[i := (uid, b)]\<rparr>) v"
proof -
  from assms(4) obtain j where j: "j < length (g_otp_sessions c)" "fst (g_otp_sessions c ! j) = v"
    unfolding otp_known_def by (metis imageE in_set_conv_nth)
  let ?ys = "(g_otp_sessions c)[i := (uid, b)]"
  have "fst (?ys ! j) = v" using j assms by (auto simp: nth_list_update)
  moreover have "?ys ! j \<in> set ?ys" using j(1) by (intro nth_mem) simp
  ultimately show ?thesis unfolding otp_known_def by force
qed

text \<open>
  The elevated sessions are a map with 64 places for ever: setting a user's flag is seen by
  that user's lookup and by no other, as long as the user has a slot or one is free; a slot,
  once taken, is never given back, so the flag of a user who finds no free slot stays off.
\<close>

theorem otp_elevated_lookup:
  assumes "0 < uid" "0 < v"
  shows "core_get_otp_elevated (core_set_otp_elevated c uid e) v =
           (if v = uid then e \<and> (otp_known c uid \<or> otp_known c 0) else core_get_otp_elevated c v) \<and>
         (otp_known c v \<longrightarrow> otp_known (core_set_otp_elevated c uid e) v)"
proof (cases "find_idx (\<lambda>e. fst e = uid) (g_otp_sessions c)")
  case (Some i)
  note i = find_idx_SomeD[OF Some]
  have k: "otp_known c uid" unfolding otp_known_def using i by (metis image_eqI nth_mem)
  have s: "core_set_otp_elevated c uid e = c\<lparr>g_otp_sessions := (g_otp_sessions c)[i := (uid, e)]\<rparr>"
    using assms(1) by (simp add: core_set_otp_elevated_def Some)
  show ?thesis
    using otp_get_self[of i c uid e] otp_get_other[of i c uid uid v e] otp_known_update[of i c uid v e]
      Some i k assms unfolding s by auto
next
  case None
  then have nk: "\<not> otp_known c uid" by (simp add: otp_known_def find_idx_fst_None)
  have g: "core_get_otp_elevated c uid = False" using assms(1) None by (simp add: core_get_otp_elevated_def)
  show ?thesis
  proof (cases "e \<and> otp_known c 0")
    case False
    then have "find_idx (\<lambda>e. fst e = 0) (g_otp_sessions c) = None \<or> \<not> e"
      by (auto simp: otp_known_def find_idx_fst_None)
    then have "core_set_otp_elevated c uid e = c"
      using assms(1) by (auto simp: core_set_otp_elevated_def None)
    with False nk g show ?thesis by auto
  next
    case True
    then obtain i where z: "find_idx (\<lambda>e. fst e = 0) (g_otp_sessions c) = Some i"
      using find_idx_fst_None[of 0 "g_otp_sessions c"] by (auto simp: otp_known_def)
    note i = find_idx_SomeD[OF z]
    have s: "core_set_otp_elevated c uid e = c\<lparr>g_otp_sessions := (g_otp_sessions c)[i := (uid, e)]\<rparr>"
      using assms(1) True by (simp add: core_set_otp_elevated_def None z)
    show ?thesis
      using otp_get_self[of i c uid e] otp_get_other[of i c 0 uid v e] otp_known_update[of i c uid v e]
        i nk assms True unfolding s by auto
  qed
qed

theorem otp_elevated_lookup_witness:
  "core_get_otp_elevated (core_set_otp_elevated (core_init :: (unit, unit) core) 7 True) 7"
proof -
  have "otp_known (core_init :: (unit, unit) core) 0" by (simp add: otp_known_def core_init_def)
  with otp_elevated_lookup[of 7 7 "core_init :: (unit, unit) core" True] show ?thesis by simp
qed

end
