(* ===== verification/Event_Bus.thy ===== *)
theory Event_Bus
  imports Prelude
begin

text \<open>
  The event bus (\<open>src/kerchunk_events.c\<close>): the vocabulary of event types and wire names, the
  subscription lists, and the synchronous dispatch of a snapshot with its ceiling on the
  recursion depth. A handler is a value of a type parameter; what it does is a function on the
  whole state that gets the dispatch itself as an argument, because handlers fire events.
\<close>

subsection \<open>The vocabulary\<close>

definition rx_state_name :: "int \<Rightarrow> string" where
  "rx_state_name s =
     (if s = 0 then ''IDLE'' else if s = 1 then ''RECEIVING'' else if s = 2 then ''TAIL_WAIT''
      else if s = 3 then ''HANG_WAIT'' else if s = 4 then ''RX_TIMEOUT'' else if s = 5 then ''BRIDGING''
      else ''UNKNOWN'')"

text \<open>The enumeration's values: the builtin types are numbered from 0, the custom ones from 1000.\<close>

abbreviation KERCHEVT_BUILTIN_COUNT :: int where "KERCHEVT_BUILTIN_COUNT \<equiv> 29"
abbreviation KERCHEVT_CUSTOM :: int where "KERCHEVT_CUSTOM \<equiv> 1000"
abbreviation KERCHEVT_MAX_TYPES :: int where "KERCHEVT_MAX_TYPES \<equiv> 1128"
abbreviation KERCHEVT_MAX_SUBS :: nat where "KERCHEVT_MAX_SUBS \<equiv> 32"
abbreviation KERCHEVT_MAX_DEPTH :: nat where "KERCHEVT_MAX_DEPTH \<equiv> 16"

definition evt_names :: "(int \<times> string) list" where
  "evt_names =
    [(0, ''audio_frame''), (1, ''ctcss_detect''), (2, ''dcs_detect''), (3, ''dtmf_digit''),
     (4, ''dtmf_end''), (5, ''cor_assert''), (6, ''cor_drop''), (7, ''vcor_assert''),
     (8, ''vcor_drop''), (9, ''ptt_assert''), (10, ''ptt_drop''), (11, ''link_rx_assert''),
     (12, ''link_rx_drop''), (13, ''rx_state_change''), (14, ''tx_state_change''),
     (15, ''tail_start''), (16, ''tail_expire''), (17, ''rx_timeout''),
     (18, ''caller_identified''), (19, ''caller_cleared''), (20, ''queue_drain''),
     (21, ''queue_complete''), (22, ''queue_preempted''), (23, ''recording_saved''),
     (24, ''announcement''), (25, ''config_reload''), (26, ''shutdown''), (27, ''tick''),
     (28, ''heartbeat'')]"

fun first_by_type :: "(int \<times> string) list \<Rightarrow> int \<Rightarrow> string option" where
  "first_by_type [] t = None"
| "first_by_type ((k, n) # rest) t = (if k = t then Some n else first_by_type rest t)"

fun first_by_name :: "(int \<times> string) list \<Rightarrow> string \<Rightarrow> int option" where
  "first_by_name [] s = None"
| "first_by_name ((k, n) # rest) s = (if n = s then Some k else first_by_name rest s)"

definition event_name :: "int \<Rightarrow> string" where
  "event_name t =
     (case first_by_type evt_names t of
        Some n \<Rightarrow> n
      | None \<Rightarrow> if t \<ge> KERCHEVT_CUSTOM then ''custom'' else '''')"

definition event_from_name :: "string option \<Rightarrow> int" where
  "event_from_name name =
     (case name of None \<Rightarrow> -1
      | Some s \<Rightarrow> (case first_by_name evt_names s of Some t \<Rightarrow> t | None \<Rightarrow> -1))"

text \<open>The index of a type's list; the enumeration is unsigned, so a negative cast has none.\<close>

definition evt_index :: "int \<Rightarrow> nat option" where
  "evt_index t =
     (if 0 \<le> t \<and> t < KERCHEVT_BUILTIN_COUNT then Some (nat t)
      else if t \<ge> KERCHEVT_CUSTOM \<and> t < KERCHEVT_CUSTOM + (KERCHEVT_MAX_TYPES - KERCHEVT_BUILTIN_COUNT)
      then Some (nat (KERCHEVT_BUILTIN_COUNT + (t - KERCHEVT_CUSTOM)))
      else None)"

subsection \<open>Subscriptions\<close>

record ('h, 'u) bus =
  b_subs :: "nat \<Rightarrow> ('h \<times> 'u) list"
  b_initialized :: bool

definition bus_init :: "('h, 'u) bus \<Rightarrow> ('h, 'u) bus" where
  "bus_init b = \<lparr>b_subs = (\<lambda>_. []), b_initialized = True\<rparr>"

definition bus_shutdown :: "('h, 'u) bus \<Rightarrow> ('h, 'u) bus" where
  "bus_shutdown b = \<lparr>b_subs = (\<lambda>_. []), b_initialized = False\<rparr>"

definition evt_subscribe :: "('h, 'u) bus \<Rightarrow> int \<Rightarrow> 'h option \<Rightarrow> 'u \<Rightarrow> ('h, 'u) bus \<times> int" where
  "evt_subscribe b t handler u =
     (case handler of None \<Rightarrow> (b, -1)
      | Some h \<Rightarrow>
          if \<not> b_initialized b then (b, -1)
          else (case evt_index t of None \<Rightarrow> (b, -1)
                | Some i \<Rightarrow>
                    let sl = b_subs b i
                    in if find_idx (\<lambda>s. fst s = h) sl \<noteq> None then (b, 0)
                       else if length sl \<ge> KERCHEVT_MAX_SUBS then (b, -1)
                       else (b\<lparr>b_subs := (b_subs b)(i := sl @ [(h, u)])\<rparr>, 0)))"

fun unsub_first :: "('h \<times> 'u) list \<Rightarrow> 'h \<Rightarrow> ('h \<times> 'u) list option" where
  "unsub_first [] h = None"
| "unsub_first ((h', u) # rest) h =
     (if h' = h then Some rest else map_option ((#) (h', u)) (unsub_first rest h))"

definition evt_unsubscribe :: "('h, 'u) bus \<Rightarrow> int \<Rightarrow> 'h option \<Rightarrow> ('h, 'u) bus \<times> int" where
  "evt_unsubscribe b t handler =
     (case handler of None \<Rightarrow> (b, -1)
      | Some h \<Rightarrow>
          if \<not> b_initialized b then (b, -1)
          else (case evt_index t of None \<Rightarrow> (b, -1)
                | Some i \<Rightarrow>
                    (case unsub_first (b_subs b i) h of
                       Some sl \<Rightarrow> (b\<lparr>b_subs := (b_subs b)(i := sl)\<rparr>, 0)
                     | None \<Rightarrow> (b, -1))))"

definition evt_subscriber_count :: "('h, 'u) bus \<Rightarrow> int \<Rightarrow> nat" where
  "evt_subscriber_count b t =
     (if \<not> b_initialized b then 0
      else (case evt_index t of Some i \<Rightarrow> length (b_subs b i) | None \<Rightarrow> 0))"

subsection \<open>Dispatch\<close>

record 'p event =
  e_type :: int
  e_timestamp_us :: nat
  e_payload :: 'p

definition stamp :: "nat \<Rightarrow> 'p event \<Rightarrow> 'p event" where
  "stamp now evt = (if e_timestamp_us evt = 0 then evt\<lparr>e_timestamp_us := now\<rparr> else evt)"

text \<open>
  The recursion is on the depth that is still allowed: \<open>KERCHEVT_MAX_DEPTH - g_fire_depth\<close>. At
  the ceiling the event is dropped. The subscribers are a snapshot taken before the first
  handler runs.
\<close>

fun fire_at ::
  "('s \<Rightarrow> ('h, 'u) bus) \<Rightarrow> (('p event \<Rightarrow> 's \<Rightarrow> 's) \<Rightarrow> 'h \<Rightarrow> 'u \<Rightarrow> 'p event \<Rightarrow> 's \<Rightarrow> 's) \<Rightarrow> nat \<Rightarrow>
   nat \<Rightarrow> 'p event \<Rightarrow> 's \<Rightarrow> 's" where
  "fire_at get run now 0 evt s = s"
| "fire_at get run now (Suc d) evt s =
     (if \<not> b_initialized (get s) then s
      else (case evt_index (e_type evt) of None \<Rightarrow> s
            | Some i \<Rightarrow>
                foldl (\<lambda>s (h, u). run (fire_at get run now d) h u (stamp now evt) s) s (b_subs (get s) i)))"

definition evt_fire where
  "evt_fire get run now evt s = (case evt of None \<Rightarrow> s | Some e \<Rightarrow> fire_at get run now KERCHEVT_MAX_DEPTH e s)"

subsection \<open>The vocabulary is consistent\<close>

lemma first_by_typeD: "first_by_type tab t = Some n \<Longrightarrow> (t, n) \<in> set tab"
  by (induction tab t rule: first_by_type.induct) (auto split: if_splits)

lemma first_by_type_None: "first_by_type tab t = None \<longleftrightarrow> t \<notin> fst ` set tab"
  by (induction tab t rule: first_by_type.induct) auto

lemma first_by_name_None: "first_by_name tab s = None \<longleftrightarrow> s \<notin> snd ` set tab"
  by (induction tab s rule: first_by_name.induct) auto

lemma first_by_name_unique:
  "distinct (map snd tab) \<Longrightarrow> (t, s) \<in> set tab \<Longrightarrow> first_by_name tab s = Some t"
  by (induction tab s rule: first_by_name.induct) (auto, force)

lemma evt_names_distinct: "distinct (map snd evt_names)"
  by code_simp

lemma evt_names_types: "map fst evt_names = [0..28]"
  by code_simp

text \<open>
  Type and wire name determine each other: every builtin type has a name that looks up to
  the same type again, so the names of distinct builtin types differ; and a name looks up to
  -1 exactly when it is not the name of a builtin type.
\<close>

theorem event_name_roundtrip:
  "(\<forall>t \<in> {0 ..< KERCHEVT_BUILTIN_COUNT}. event_from_name (Some (event_name t)) = t) \<and>
   (\<forall>s. event_from_name (Some s) = -1 \<longleftrightarrow> s \<notin> event_name ` {0 ..< KERCHEVT_BUILTIN_COUNT})"
proof -
  have types: "fst ` set evt_names = {0 ..< KERCHEVT_BUILTIN_COUNT}"
    unfolding set_map[symmetric] evt_names_types by auto
  have name: "(t, event_name t) \<in> set evt_names" if "t \<in> {0 ..< KERCHEVT_BUILTIN_COUNT}" for t
  proof -
    have "first_by_type evt_names t \<noteq> None" using that types by (simp only: first_by_type_None not_not)
    then obtain n where n: "first_by_type evt_names t = Some n" by blast
    from first_by_typeD[OF n] n show ?thesis by (simp add: event_name_def)
  qed
  have img: "snd ` set evt_names = event_name ` {0 ..< KERCHEVT_BUILTIN_COUNT}"
  proof
    show "event_name ` {0 ..< KERCHEVT_BUILTIN_COUNT} \<subseteq> snd ` set evt_names" using name by force
    show "snd ` set evt_names \<subseteq> event_name ` {0 ..< KERCHEVT_BUILTIN_COUNT}"
    proof
      fix s assume "s \<in> snd ` set evt_names"
      then obtain t where t: "(t, s) \<in> set evt_names" by auto
      then have tin: "t \<in> {0 ..< KERCHEVT_BUILTIN_COUNT}" using types by force
      have "distinct (map fst evt_names)" unfolding evt_names_types by simp
      with t name[OF tin] have "event_name t = s" by (meson eq_key_imp_eq_value)
      with tin show "s \<in> event_name ` {0 ..< KERCHEVT_BUILTIN_COUNT}" by blast
    qed
  qed
  have found: "event_from_name (Some (event_name t)) = t" if "t \<in> {0 ..< KERCHEVT_BUILTIN_COUNT}" for t
    using first_by_name_unique[OF evt_names_distinct name[OF that]] by (simp add: event_from_name_def)
  have "event_from_name (Some s) = -1 \<longleftrightarrow> s \<notin> event_name ` {0 ..< KERCHEVT_BUILTIN_COUNT}" for s
  proof
    assume "s \<notin> event_name ` {0 ..< KERCHEVT_BUILTIN_COUNT}"
    then have "s \<notin> snd ` set evt_names" using img by metis
    then have "first_by_name evt_names s = None" by (rule iffD2[OF first_by_name_None])
    then show "event_from_name (Some s) = -1" by (simp add: event_from_name_def)
  next
    assume "event_from_name (Some s) = -1"
    with found show "s \<notin> event_name ` {0 ..< KERCHEVT_BUILTIN_COUNT}" by force
  qed
  with found show ?thesis by blast
qed

theorem event_name_roundtrip_witness: "event_from_name (Some (event_name 13)) = 13"
  using event_name_roundtrip by simp

subsection \<open>The subscription lists\<close>

definition bus_inv :: "('h, 'u) bus \<Rightarrow> bool" where
  "bus_inv b \<longleftrightarrow> (\<forall>i. distinct (map fst (b_subs b i)) \<and> length (b_subs b i) \<le> KERCHEVT_MAX_SUBS)"

lemma unsub_first_set:
  "distinct (map fst sl) \<Longrightarrow> unsub_first sl h = Some sl' \<Longrightarrow>
   distinct (map fst sl') \<and> length sl = Suc (length sl') \<and> set sl' = {s \<in> set sl. fst s \<noteq> h}"
proof (induction sl arbitrary: sl')
  case (Cons s rest)
  obtain h' u where s: "s = (h', u)" by (metis surj_pair)
  show ?case
  proof (cases "h' = h")
    case True
    with Cons.prems s have "sl' = rest" "h \<notin> fst ` set rest" "distinct (map fst rest)" by auto
    with True s show ?thesis by force
  next
    case False
    with Cons.prems(2) s obtain r where r: "unsub_first rest h = Some r" "sl' = (h', u) # r" by auto
    from Cons.prems(1) s have d: "distinct (map fst rest)" "h' \<notin> fst ` set rest" by simp_all
    from Cons.IH[OF d(1) r(1)] have ih: "distinct (map fst r)" "length rest = Suc (length r)"
      "set r = {s \<in> set rest. fst s \<noteq> h}" by simp_all
    have "h' \<notin> fst ` set r" using d(2) ih(3) by auto
    with ih r(2) s False show ?thesis by auto
  qed
qed simp

text \<open>
  The subscription lists are sets of handlers with a bound: starting from initialisation, after
  any sequence of subscriptions and removals no list holds a handler twice or more than 32
  entries; a successful subscription makes exactly that handler a subscriber of that type (at
  the end of the list, a repeated one changes nothing), a successful removal takes exactly it
  away, and a failed call changes nothing.
\<close>

theorem bus_subscriptions:
  assumes "bus_inv b"
  shows "(\<forall>b' r. evt_subscribe b t (Some h) u = (b', r) \<longrightarrow>
            bus_inv b' \<and> (r = -1 \<and> b' = b \<or>
              r = 0 \<and> (\<exists>i. evt_index t = Some i \<and> h \<in> fst ` set (b_subs b' i) \<and>
                 (b' = b \<or> b_subs b' = (b_subs b)(i := b_subs b i @ [(h, u)]))))) \<and>
         (\<forall>b' r. evt_unsubscribe b t (Some h) = (b', r) \<longrightarrow>
            bus_inv b' \<and> (r = -1 \<and> b' = b \<or>
              r = 0 \<and> (\<exists>i. evt_index t = Some i \<and> h \<notin> fst ` set (b_subs b' i) \<and>
                 set (b_subs b' i) = {s \<in> set (b_subs b i). fst s \<noteq> h} \<and>
                 (\<forall>j. j \<noteq> i \<longrightarrow> b_subs b' j = b_subs b j))))"
proof (rule conjI; intro allI impI)
  fix b' r assume s: "evt_subscribe b t (Some h) u = (b', r)"
  show "bus_inv b' \<and> (r = -1 \<and> b' = b \<or>
              r = 0 \<and> (\<exists>i. evt_index t = Some i \<and> h \<in> fst ` set (b_subs b' i) \<and>
                 (b' = b \<or> b_subs b' = (b_subs b)(i := b_subs b i @ [(h, u)]))))"
  proof (cases "b_initialized b \<and> evt_index t \<noteq> None")
    case False
    with s have "b' = b" "r = -1" by (auto simp: evt_subscribe_def split: option.splits)
    with assms show ?thesis by simp
  next
    case True
    then obtain i where i: "evt_index t = Some i" by blast
    consider (dup) "h \<in> fst ` set (b_subs b i)"
      | (full) "h \<notin> fst ` set (b_subs b i)" "length (b_subs b i) \<ge> KERCHEVT_MAX_SUBS"
      | (ok) "h \<notin> fst ` set (b_subs b i)" "length (b_subs b i) < KERCHEVT_MAX_SUBS" by force
    then show ?thesis
    proof cases
      case dup
      then have "find_idx (\<lambda>s. fst s = h) (b_subs b i) \<noteq> None" by (auto simp: find_idx_None)
      with s True i have "b' = b" "r = 0" by (auto simp: evt_subscribe_def)
      with assms i dup show ?thesis by blast
    next
      case full
      then have "find_idx (\<lambda>s. fst s = h) (b_subs b i) = None" by (auto simp: find_idx_None)
      with s True i full(2) have "b' = b" "r = -1" by (auto simp: evt_subscribe_def)
      with assms show ?thesis by simp
    next
      case ok
      then have "find_idx (\<lambda>s. fst s = h) (b_subs b i) = None" by (auto simp: find_idx_None)
      with s True i ok(2) have b': "b' = b\<lparr>b_subs := (b_subs b)(i := b_subs b i @ [(h, u)])\<rparr>" "r = 0"
        by (auto simp: evt_subscribe_def Let_def)
      with assms ok have "bus_inv b'" by (simp add: bus_inv_def)
      with b' i show ?thesis by simp
    qed
  qed
next
  fix b' r assume s: "evt_unsubscribe b t (Some h) = (b', r)"
  show "bus_inv b' \<and> (r = -1 \<and> b' = b \<or>
              r = 0 \<and> (\<exists>i. evt_index t = Some i \<and> h \<notin> fst ` set (b_subs b' i) \<and>
                 set (b_subs b' i) = {s \<in> set (b_subs b i). fst s \<noteq> h} \<and>
                 (\<forall>j. j \<noteq> i \<longrightarrow> b_subs b' j = b_subs b j)))"
  proof (cases "b_initialized b \<and> (\<exists>i sl. evt_index t = Some i \<and> unsub_first (b_subs b i) h = Some sl)")
    case False
    with s have "b' = b" "r = -1" by (auto simp: evt_unsubscribe_def split: option.splits)
    with assms show ?thesis by simp
  next
    case True
    then obtain i sl where i: "evt_index t = Some i" "unsub_first (b_subs b i) h = Some sl" by blast
    with s True have b': "b' = b\<lparr>b_subs := (b_subs b)(i := sl)\<rparr>" "r = 0"
      by (auto simp: evt_unsubscribe_def)
    from unsub_first_set[OF _ i(2)] assms
    have sl: "distinct (map fst sl)" "length (b_subs b i) = Suc (length sl)" "set sl = {s \<in> set (b_subs b i). fst s \<noteq> h}"
      by (simp_all add: bus_inv_def)
    have "length (b_subs b i) \<le> KERCHEVT_MAX_SUBS" using assms unfolding bus_inv_def by blast
    with sl(2) have "length sl \<le> KERCHEVT_MAX_SUBS" by linarith
    with assms b' sl(1) have "bus_inv b'" by (simp add: bus_inv_def)
    with b' i(1) sl(3) show ?thesis by auto
  qed
qed

definition fresh_bus :: "(string, unit) bus" where
  "fresh_bus = bus_init \<lparr>b_subs = (\<lambda>_. []), b_initialized = False\<rparr>"

lemma fresh_bus_inv: "bus_inv fresh_bus"
  by (simp add: fresh_bus_def bus_init_def bus_inv_def)

theorem bus_subscriptions_witness:
  "bus_inv (fst (evt_subscribe fresh_bus 5 (Some ''repeater'') ()))"
proof -
  obtain b' r where "evt_subscribe fresh_bus 5 (Some ''repeater'') () = (b', r)" by (metis surj_pair)
  with bus_subscriptions[OF fresh_bus_inv, of 5 "''repeater''" "()"] show ?thesis by simp
qed

subsection \<open>What a dispatch delivers\<close>

text \<open>
  Handlers that record their delivery and then change the subscriptions arbitrarily, without
  firing: the state is the bus and the record.
\<close>

definition record_run ::
  "('h \<Rightarrow> 'p event \<Rightarrow> ('h, 'u) bus \<Rightarrow> ('h, 'u) bus) \<Rightarrow>
   ('p event \<Rightarrow> ('h, 'u) bus \<times> ('h \<times> 'u \<times> 'p event) list \<Rightarrow> ('h, 'u) bus \<times> ('h \<times> 'u \<times> 'p event) list) \<Rightarrow>
   'h \<Rightarrow> 'u \<Rightarrow> 'p event \<Rightarrow>
   ('h, 'u) bus \<times> ('h \<times> 'u \<times> 'p event) list \<Rightarrow> ('h, 'u) bus \<times> ('h \<times> 'u \<times> 'p event) list" where
  "record_run act fire h u evt s = (case s of (b, log) \<Rightarrow> (act h evt b, log @ [(h, u, evt)]))"

lemma record_foldl:
  "snd (foldl (\<lambda>s (h, u). record_run act fire h u evt s) (b, log) sl) = log @ map (\<lambda>(h, u). (h, u, evt)) sl"
  by (induction sl arbitrary: b log) (auto simp: record_run_def)

text \<open>
  A dispatch delivers to a snapshot: the handlers that run for an event are exactly those
  subscribed when it is fired, once each and in the order of subscription, whatever they do to
  the subscriptions while it runs, and each gets the event with a time stamp.
\<close>

theorem fire_delivers_snapshot:
  "snd (evt_fire fst (record_run act) now (Some evt) (b, log)) =
   log @ (case evt_index (e_type evt) of
            Some i \<Rightarrow> if b_initialized b then map (\<lambda>(h, u). (h, u, stamp now evt)) (b_subs b i) else []
          | None \<Rightarrow> [])"
  by (simp add: evt_fire_def eval_nat_numeral record_foldl split: option.split)

subsection \<open>The ceiling\<close>

text \<open>
  Handlers that fire any events in answer to an event; the state counts how many of them are
  running and the most that ever were.
\<close>

definition nest_run ::
  "('h \<Rightarrow> 'p event \<Rightarrow> 'p event list) \<Rightarrow>
   ('p event \<Rightarrow> ('h, 'u) bus \<times> nat \<times> nat \<Rightarrow> ('h, 'u) bus \<times> nat \<times> nat) \<Rightarrow> 'h \<Rightarrow> 'u \<Rightarrow> 'p event \<Rightarrow>
   ('h, 'u) bus \<times> nat \<times> nat \<Rightarrow> ('h, 'u) bus \<times> nat \<times> nat" where
  "nest_run resp fire h u evt s =
     (case s of (b, cur, peak) \<Rightarrow>
        (case foldl (\<lambda>s e. fire e s) (b, cur + 1, max peak (cur + 1)) (resp h evt) of
           (b', cur', peak') \<Rightarrow> (b', cur' - 1, peak')))"

lemma nest_foldl:
  assumes "\<And>e s. snd (snd (fire e s)) \<le> max (snd (snd s)) (fst (snd s) + d) \<and> fst (snd (fire e s)) = fst (snd s)"
  shows "snd (snd (foldl (\<lambda>s e. fire e s) s es)) \<le> max (snd (snd s)) (fst (snd s) + d) \<and>
         fst (snd (foldl (\<lambda>s e. fire e s) s es)) = (fst (snd s) :: nat)"
proof (induction es arbitrary: s)
  case (Cons e es)
  from assms[of e s] Cons.IH[of "fire e s"] show ?case by auto
qed simp

lemma fire_at_depth:
  fixes s :: "('h, 'u) bus \<times> nat \<times> nat"
  shows "snd (snd (fire_at fst (nest_run resp) now d evt s)) \<le> max (snd (snd s)) (fst (snd s) + d) \<and>
   fst (snd (fire_at fst (nest_run resp) now d evt s)) = (fst (snd s) :: nat)"
proof (induction d arbitrary: evt s)
  case (Suc d)
  have run: "snd (snd (nest_run resp (fire_at fst (nest_run resp) now d) h u e t)) \<le> max (snd (snd t)) (fst (snd t) + Suc d) \<and>
             fst (snd (nest_run resp (fire_at fst (nest_run resp) now d) h u e t)) = fst (snd t)"
    for h e and u :: 'u and t :: "('h, 'u) bus \<times> nat \<times> nat"
  proof -
    obtain b cur peak where t: "t = (b, cur, peak)" by (metis prod_cases3)
    let ?r = "foldl (\<lambda>s e. fire_at fst (nest_run resp) now d e s) (b, cur + 1, max peak (cur + 1)) (resp h e)"
    have "snd (snd ?r) \<le> max (max peak (cur + 1)) (cur + 1 + d)" "fst (snd ?r) = cur + 1"
      using nest_foldl[OF Suc.IH, where s = "(b, cur + 1, max peak (cur + 1))" and es = "resp h e"] by simp_all
    then show ?thesis by (simp add: nest_run_def t split: prod.split) auto
  qed
  have "snd (snd (foldl (\<lambda>s (h, u). nest_run resp (fire_at fst (nest_run resp) now d) h u e s) t sl))
          \<le> max (snd (snd t)) (fst (snd t) + Suc d) \<and>
        fst (snd (foldl (\<lambda>s (h, u). nest_run resp (fire_at fst (nest_run resp) now d) h u e s) t sl)) = fst (snd t)"
    for e sl and t :: "('h, 'u) bus \<times> nat \<times> nat"
  proof (induction sl arbitrary: t)
    case (Cons x sl)
    obtain h u where x: "x = (h, u)" by (metis surj_pair)
    from run[of h u e t] Cons.IH[of "nest_run resp (fire_at fst (nest_run resp) now d) h u e t"] show ?case
      by (simp add: x) auto
  qed simp
  then show ?case by (simp split: option.split)
qed simp

text \<open>
  The recursion ceiling holds: whatever events the handlers fire in answer to events, no
  more than 16 handlers are ever nested, every handler that was entered returns, and so every
  fire ends, cycles of handlers included.
\<close>

theorem fire_depth_bounded:
  "snd (snd (evt_fire fst (nest_run resp) now evt (b, 0, 0))) \<le> KERCHEVT_MAX_DEPTH \<and>
   fst (snd (evt_fire fst (nest_run resp) now evt (b, 0, 0))) = (0 :: nat)"
proof (cases evt)
  case (Some e)
  have f: "evt_fire fst (nest_run resp) now evt (b, 0, 0) =
      fire_at fst (nest_run resp) now KERCHEVT_MAX_DEPTH e (b, 0, 0)"
    by (simp only: evt_fire_def Some option.case)
  from fire_at_depth[where s = "(b, 0, 0)" and d = KERCHEVT_MAX_DEPTH and evt = e]
  show ?thesis unfolding f by simp
qed (simp add: evt_fire_def)

end
