(* ===== verification/Timer.thy ===== *)
theory Timer
  imports Prelude
begin

text \<open>
  The timer wheel for modules (\<open>src/kerchunk_timer.c\<close>): a table of 128 slots, scanned in order
  by every tick of the main loop. The monotonic clock is an argument, in microseconds; a
  callback with its user data is a value of a type parameter, run by a function on the
  whole state, since callbacks create and cancel timers themselves.
\<close>

record 'cb timer_entry =
  t_active :: bool
  t_id :: int
  t_interval_ms :: int
  t_repeat :: bool
  t_next_fire_us :: nat
  t_callback :: 'cb

record 'cb timers =
  t_slots :: "'cb timer_entry list"
  t_next_id :: int

abbreviation MAX_TIMERS :: nat where
  "MAX_TIMERS \<equiv> 128"

text \<open>The argument is what a cleared slot holds as its callback (a null pointer in the code).\<close>

definition empty_slot :: "'cb \<Rightarrow> 'cb timer_entry" where
  "empty_slot cb = \<lparr>t_active = False, t_id = 0, t_interval_ms = 0, t_repeat = False,
     t_next_fire_us = 0, t_callback = cb\<rparr>"

definition timer_init :: "'cb \<Rightarrow> 'cb timers" where
  "timer_init cb = \<lparr>t_slots = replicate MAX_TIMERS (empty_slot cb), t_next_id = 1\<rparr>"

definition timer_shutdown :: "'cb \<Rightarrow> 'cb timers \<Rightarrow> 'cb timers" where
  "timer_shutdown cb t = t\<lparr>t_slots := replicate MAX_TIMERS (empty_slot cb)\<rparr>"

definition timer_create ::
  "nat \<Rightarrow> 'cb timers \<Rightarrow> int \<Rightarrow> bool \<Rightarrow> 'cb option \<Rightarrow> 'cb timers \<times> int" where
  "timer_create now t ms rep cb =
     (case cb of None \<Rightarrow> (t, -1)
      | Some c \<Rightarrow>
          if ms \<le> 0 then (t, -1)
          else (case find_idx (\<lambda>e. \<not> t_active e) (t_slots t) of
                  None \<Rightarrow> (t, -1)
                | Some i \<Rightarrow>
                    (t\<lparr>t_slots := (t_slots t)[i := \<lparr>t_active = True, t_id = t_next_id t, t_interval_ms = ms,
                          t_repeat = rep, t_next_fire_us = now + nat ms * 1000, t_callback = c\<rparr>],
                       t_next_id := t_next_id t + 1\<rparr>, t_next_id t)))"

definition timer_cancel :: "'cb timers \<Rightarrow> int \<Rightarrow> 'cb timers" where
  "timer_cancel t tid =
     (case find_idx (\<lambda>e. t_active e \<and> t_id e = tid) (t_slots t) of
        None \<Rightarrow> t
      | Some i \<Rightarrow> t\<lparr>t_slots := (t_slots t)[i := (t_slots t ! i)\<lparr>t_active := False\<rparr>]\<rparr>)"

text \<open>
  One slot of a tick. The state holds the table (\<open>get\<close>, \<open>put\<close>); the slot is rescheduled or
  deactivated before its callback runs on the state.
\<close>

definition timer_slot ::
  "('s \<Rightarrow> 'cb timers) \<Rightarrow> ('cb timers \<Rightarrow> 's \<Rightarrow> 's) \<Rightarrow> ('cb \<Rightarrow> 's \<Rightarrow> 's) \<Rightarrow> nat \<Rightarrow> 's \<Rightarrow> nat \<Rightarrow> 's" where
  "timer_slot get put run now s i =
     (let t = get s; e = t_slots t ! i
      in if t_active e \<and> now \<ge> t_next_fire_us e then
           (let e' = (if t_repeat e then e\<lparr>t_next_fire_us := now + nat (t_interval_ms e) * 1000\<rparr>
                      else e\<lparr>t_active := False\<rparr>)
            in run (t_callback e) (put (t\<lparr>t_slots := (t_slots t)[i := e']\<rparr>) s))
         else s)"

definition timer_tick ::
  "('s \<Rightarrow> 'cb timers) \<Rightarrow> ('cb timers \<Rightarrow> 's \<Rightarrow> 's) \<Rightarrow> ('cb \<Rightarrow> 's \<Rightarrow> 's) \<Rightarrow> nat \<Rightarrow> 's \<Rightarrow> 's" where
  "timer_tick get put run now s = foldl (timer_slot get put run now) s [0..<MAX_TIMERS]"

subsection \<open>The table as a map from ids to timers\<close>

definition timer_inv :: "'cb timers \<Rightarrow> bool" where
  "timer_inv t \<longleftrightarrow> length (t_slots t) = MAX_TIMERS \<and> 0 < t_next_id t \<and>
     (\<forall>i < MAX_TIMERS. t_active (t_slots t ! i) \<longrightarrow> 0 < t_id (t_slots t ! i) \<and> t_id (t_slots t ! i) < t_next_id t) \<and>
     (\<forall>i < MAX_TIMERS. \<forall>j < MAX_TIMERS.
        t_active (t_slots t ! i) \<longrightarrow> t_active (t_slots t ! j) \<longrightarrow> t_id (t_slots t ! i) = t_id (t_slots t ! j) \<longrightarrow> i = j)"

lemma timer_invD:
  assumes "timer_inv t"
  shows "length (t_slots t) = MAX_TIMERS" "0 < t_next_id t"
    "i < MAX_TIMERS \<Longrightarrow> t_active (t_slots t ! i) \<Longrightarrow> 0 < t_id (t_slots t ! i) \<and> t_id (t_slots t ! i) < t_next_id t"
    "i < MAX_TIMERS \<Longrightarrow> j < MAX_TIMERS \<Longrightarrow> t_active (t_slots t ! i) \<Longrightarrow> t_active (t_slots t ! j) \<Longrightarrow>
       t_id (t_slots t ! i) = t_id (t_slots t ! j) \<Longrightarrow> i = j"
  using assms unfolding timer_inv_def by blast+

definition armed_in :: "'cb timer_entry list \<Rightarrow> int \<Rightarrow> ('cb \<times> nat) option" where
  "armed_in es tid =
     (case find_idx (\<lambda>e. t_active e \<and> t_id e = tid) es of
        None \<Rightarrow> None | Some i \<Rightarrow> Some (t_callback (es ! i), t_next_fire_us (es ! i)))"

definition armed :: "'cb timers \<Rightarrow> int \<Rightarrow> ('cb \<times> nat) option" where
  "armed t = armed_in (t_slots t)"

lemma armed_iff:
  assumes "timer_inv t"
  shows "armed t tid = Some (c, due) \<longleftrightarrow>
         (\<exists>i < MAX_TIMERS. t_active (t_slots t ! i) \<and> t_id (t_slots t ! i) = tid \<and>
            t_callback (t_slots t ! i) = c \<and> t_next_fire_us (t_slots t ! i) = due)"
proof (cases "find_idx (\<lambda>e. t_active e \<and> t_id e = tid) (t_slots t)")
  case None
  then have "\<forall>e \<in> set (t_slots t). \<not> (t_active e \<and> t_id e = tid)" by (simp only: find_idx_None not_not)
  then have "\<forall>i < MAX_TIMERS. \<not> (t_active (t_slots t ! i) \<and> t_id (t_slots t ! i) = tid)"
    using timer_invD(1)[OF assms] by (metis nth_mem)
  then show ?thesis by (auto simp: armed_def armed_in_def None)
next
  case (Some i)
  from find_idx_SomeD[OF Some] timer_invD(1)[OF assms]
  have i: "i < MAX_TIMERS" "t_active (t_slots t ! i)" "t_id (t_slots t ! i) = tid" by simp_all
  have "armed t tid = Some (t_callback (t_slots t ! i), t_next_fire_us (t_slots t ! i))"
    by (simp add: armed_def armed_in_def Some)
  then show ?thesis using i timer_invD(4)[OF assms] by auto
qed

lemma option_ext: "(\<And>c d. x = Some (c, d) \<longleftrightarrow> y = Some (c, d)) \<Longrightarrow> x = y"
  by (cases x; cases y) auto

lemma timer_inv_init: "timer_inv (timer_init cb)"
  by (simp add: timer_inv_def timer_init_def empty_slot_def)

text \<open>Overwriting a slot: the invariant, and the map.\<close>

lemma slot_update_inv:
  assumes "timer_inv t" "i < MAX_TIMERS" "t_next_id t \<le> n"
    and "t_active e \<Longrightarrow> 0 < t_id e \<and> t_id e < n"
    and "\<And>j. t_active e \<Longrightarrow> j < MAX_TIMERS \<Longrightarrow> j \<noteq> i \<Longrightarrow> t_active (t_slots t ! j) \<Longrightarrow> t_id (t_slots t ! j) \<noteq> t_id e"
  shows "timer_inv (t\<lparr>t_slots := (t_slots t)[i := e], t_next_id := n\<rparr>)"
proof -
  have nth: "(t_slots t)[i := e] ! j = (if j = i then e else t_slots t ! j)" if "j < MAX_TIMERS" for j
    using that assms(2) timer_invD(1)[OF assms(1)] by simp
  have "0 < t_id (t_slots t ! j) \<and> t_id (t_slots t ! j) < n" if "j < MAX_TIMERS" "t_active (t_slots t ! j)" for j
    using timer_invD(3)[OF assms(1) that] assms(3) by simp
  moreover have "0 < n" using timer_invD(2)[OF assms(1)] assms(3) by simp
  ultimately show ?thesis
    unfolding timer_inv_def using assms(4,5) timer_invD(1,4)[OF assms(1)] by (simp add: nth) metis
qed

lemma slot_update_armed:
  assumes "timer_inv t" "timer_inv (t\<lparr>t_slots := (t_slots t)[i := e], t_next_id := n\<rparr>)" "i < MAX_TIMERS"
    and "x \<noteq> t_id e" "t_active (t_slots t ! i) \<Longrightarrow> x \<noteq> t_id (t_slots t ! i)"
  shows "armed (t\<lparr>t_slots := (t_slots t)[i := e], t_next_id := n\<rparr>) x = armed t x"
proof (rule option_ext)
  fix c d
  have nth: "(t_slots t)[i := e] ! j = (if j = i then e else t_slots t ! j)" if "j < MAX_TIMERS" for j
    using that assms(3) timer_invD(1)[OF assms(1)] by simp
  have eq: "(t_active ((t_slots t)[i := e] ! j) \<and> t_id ((t_slots t)[i := e] ! j) = x \<and>
       t_callback ((t_slots t)[i := e] ! j) = c \<and> t_next_fire_us ((t_slots t)[i := e] ! j) = d) \<longleftrightarrow>
      (t_active (t_slots t ! j) \<and> t_id (t_slots t ! j) = x \<and>
       t_callback (t_slots t ! j) = c \<and> t_next_fire_us (t_slots t ! j) = d)" if "j < MAX_TIMERS" for j
    using nth[OF that] assms(4,5) by auto
  show "armed (t\<lparr>t_slots := (t_slots t)[i := e], t_next_id := n\<rparr>) x = Some (c, d) \<longleftrightarrow> armed t x = Some (c, d)"
    unfolding armed_iff[OF assms(2)] armed_iff[OF assms(1)] using eq by auto
qed

lemma slot_armed_self:
  assumes "timer_inv t" "i < MAX_TIMERS" "t_active (t_slots t ! i)"
  shows "armed t (t_id (t_slots t ! i)) = Some (t_callback (t_slots t ! i), t_next_fire_us (t_slots t ! i))"
  using assms(2,3) by (auto simp: armed_iff[OF assms(1)])

lemma armed_none:
  assumes "timer_inv t" "\<And>i. i < MAX_TIMERS \<Longrightarrow> t_active (t_slots t ! i) \<Longrightarrow> t_id (t_slots t ! i) \<noteq> tid"
  shows "armed t tid = None"
proof (cases "armed t tid")
  case (Some cd)
  obtain c d where "cd = (c, d)" by (metis surj_pair)
  with Some armed_iff[OF assms(1), of tid c d] assms(2) show ?thesis by blast
qed

lemma armed_init: "armed (timer_init cb) h = None"
  by (rule armed_none[OF timer_inv_init]) (simp add: timer_init_def empty_slot_def)

text \<open>Creating a timer adds a fresh id to the map, or fails and changes nothing.\<close>

lemma timer_create_cases:
  assumes "timer_create now t ms rep cb = (t', tid)"
  obtains (fail) "tid = -1" "t' = t" "cb = None \<or> ms \<le> 0 \<or> (\<forall>e \<in> set (t_slots t). t_active e)"
  | (ok) c i where "cb = Some c" "0 < ms" "i < length (t_slots t)" "\<not> t_active (t_slots t ! i)"
      "tid = t_next_id t"
      "t' = t\<lparr>t_slots := (t_slots t)[i := \<lparr>t_active = True, t_id = t_next_id t, t_interval_ms = ms,
                t_repeat = rep, t_next_fire_us = now + nat ms * 1000, t_callback = c\<rparr>],
              t_next_id := t_next_id t + 1\<rparr>"
proof (cases cb)
  case None
  with assms fail show thesis by (simp add: timer_create_def)
next
  case cb: (Some c)
  show thesis
  proof (cases "ms \<le> 0")
    case True
    with assms cb fail show thesis by (simp add: timer_create_def)
  next
    case False
    show thesis
    proof (cases "find_idx (\<lambda>e. \<not> t_active e) (t_slots t)")
      case None
      then have "\<forall>e \<in> set (t_slots t). t_active e" by (simp add: find_idx_None)
      moreover have "tid = -1" "t' = t" using assms cb False None by (simp_all add: timer_create_def)
      ultimately show thesis using fail by blast
    next
      case (Some i)
      note i = find_idx_SomeD[OF Some]
      show thesis
        by (rule ok[of c i]) (use assms cb False Some i in \<open>auto simp: timer_create_def\<close>)
    qed
  qed
qed

lemma timer_create_armed:
  assumes "timer_inv t" "timer_create now t ms rep cb = (t', tid)"
  shows "timer_inv t' \<and>
         (tid = -1 \<and> t' = t \<or>
          0 < tid \<and> 0 < ms \<and> armed t tid = None \<and>
          (\<exists>c. cb = Some c \<and> armed t' = (armed t)(tid \<mapsto> (c, now + nat ms * 1000))))"
  using assms(2)
proof (cases rule: timer_create_cases)
  case (ok c i)
  have i: "i < MAX_TIMERS" using ok(3) timer_invD(1)[OF assms(1)] by simp
  let ?e = "\<lparr>t_active = True, t_id = t_next_id t, t_interval_ms = ms,
                t_repeat = rep, t_next_fire_us = now + nat ms * 1000, t_callback = c\<rparr>"
  have fresh: "t_id (t_slots t ! j) \<noteq> t_next_id t" if "j < MAX_TIMERS" "t_active (t_slots t ! j)" for j
    using timer_invD(3)[OF assms(1) that] by simp
  have inv': "timer_inv t'" unfolding ok(6)
    by (rule slot_update_inv[OF assms(1) i]) (use fresh timer_invD(2)[OF assms(1)] in simp_all)
  have self: "t_slots t' ! i = ?e" using ok(3,6) by simp
  have "armed t' x = ((armed t)(tid \<mapsto> (c, now + nat ms * 1000))) x" for x
  proof (cases "x = tid")
    case True
    with slot_armed_self[OF inv' i] self ok(5) show ?thesis by simp
  next
    case False
    with slot_update_armed[OF assms(1) inv'[unfolded ok(6)] i] ok(4,5,6) show ?thesis by simp
  qed
  then have "armed t' = (armed t)(tid \<mapsto> (c, now + nat ms * 1000))" ..
  moreover have "armed t tid = None" by (rule armed_none[OF assms(1)]) (use fresh ok(5) in simp)
  moreover have "0 < tid" using timer_invD(2)[OF assms(1)] ok(5) by simp
  ultimately show ?thesis using ok(1,2) inv' by blast
qed (use assms(1) in simp)

text \<open>Cancelling removes the id from the map.\<close>

lemma timer_cancel_armed:
  assumes "timer_inv t"
  shows "timer_inv (timer_cancel t tid) \<and> armed (timer_cancel t tid) = (armed t)(tid := None)"
proof (cases "find_idx (\<lambda>e. t_active e \<and> t_id e = tid) (t_slots t)")
  case None
  then have "timer_cancel t tid = t" "armed t tid = None"
    by (simp_all add: timer_cancel_def armed_def armed_in_def)
  with assms show ?thesis by auto
next
  case (Some i)
  let ?e = "(t_slots t ! i)\<lparr>t_active := False\<rparr>"
  have c: "timer_cancel t tid = t\<lparr>t_slots := (t_slots t)[i := ?e], t_next_id := t_next_id t\<rparr>"
    by (simp add: timer_cancel_def Some)
  from find_idx_SomeD[OF Some] timer_invD(1)[OF assms]
  have i: "i < MAX_TIMERS" "t_active (t_slots t ! i)" "t_id (t_slots t ! i) = tid" by simp_all
  have inv': "timer_inv (timer_cancel t tid)" unfolding c
    by (rule slot_update_inv[OF assms i(1)]) simp_all
  have nth: "t_slots (timer_cancel t tid) ! j = (if j = i then ?e else t_slots t ! j)" if "j < MAX_TIMERS" for j
    unfolding c using that timer_invD(1)[OF assms] by simp
  have none: "armed (timer_cancel t tid) tid = None"
  proof (rule armed_none[OF inv'])
    fix j assume "j < MAX_TIMERS" "t_active (t_slots (timer_cancel t tid) ! j)"
    with nth[of j] have "j \<noteq> i" "t_active (t_slots t ! j)" "t_slots (timer_cancel t tid) ! j = t_slots t ! j"
      by (auto split: if_splits)
    with timer_invD(4)[OF assms \<open>j < MAX_TIMERS\<close> i(1)] i show "t_id (t_slots (timer_cancel t tid) ! j) \<noteq> tid"
      by auto
  qed
  have "armed (timer_cancel t tid) x = ((armed t)(tid := None)) x" for x
  proof (cases "x = tid")
    case True
    with none show ?thesis by simp
  next
    case False
    have "armed (timer_cancel t tid) x = armed t x" unfolding c
      by (rule slot_update_armed[OF assms inv'[unfolded c] i(1)]) (use False i(3) in simp_all)
    with False show ?thesis by simp
  qed
  with inv' show ?thesis by blast
qed

text \<open>A cancelled (or fired) one-shot timer leaves a slot free, so the next creation succeeds.\<close>

lemma timer_cancel_frees:
  assumes "timer_inv t" "armed t h \<noteq> None" "0 < ms" "timer_create now (timer_cancel t h) ms rep (Some c) = (t', tid)"
  shows "0 < tid"
proof -
  from assms(2) obtain i where f: "find_idx (\<lambda>e. t_active e \<and> t_id e = h) (t_slots t) = Some i"
    by (auto simp: armed_def armed_in_def split: option.splits)
  have i: "i < length (t_slots t)" using find_idx_SomeD[OF f] by simp
  have "t_slots (timer_cancel t h) = (t_slots t)[i := (t_slots t ! i)\<lparr>t_active := False\<rparr>]"
    by (simp add: timer_cancel_def f)
  then have free: "(t_slots t ! i)\<lparr>t_active := False\<rparr> \<in> set (t_slots (timer_cancel t h))"
    using i by (simp add: set_update_memI)
  have "0 < t_next_id (timer_cancel t h)"
    using timer_cancel_armed[OF assms(1)] timer_invD(2) by blast
  from assms(4) this show ?thesis
  proof (cases rule: timer_create_cases)
    case fail
    with assms(3) have "\<forall>e \<in> set (t_slots (timer_cancel t h)). t_active e" by auto
    from bspec[OF this free] show ?thesis by simp
  qed simp
qed

subsection \<open>The service that the modules use\<close>

text \<open>
  What a client of the timers relies on: its own ids stay armed with their callback and due
  time until they are cancelled (or fire), and a failed creation changes nothing.
\<close>

locale timer_service =
  fixes srv_inv :: "'t \<Rightarrow> bool"
    and create :: "nat \<Rightarrow> 't \<Rightarrow> int \<Rightarrow> bool \<Rightarrow> 'cb option \<Rightarrow> 't \<times> int"
    and cancel :: "'t \<Rightarrow> int \<Rightarrow> 't"
    and timer_of :: "'t \<Rightarrow> int \<Rightarrow> ('cb \<times> nat) option"
  assumes create_law: "srv_inv t \<Longrightarrow> create now t ms rep cb = (t', tid) \<Longrightarrow>
      srv_inv t' \<and> (tid = -1 \<and> t' = t \<or>
        0 < tid \<and> 0 < ms \<and> timer_of t tid = None \<and>
        (\<exists>c. cb = Some c \<and> timer_of t' = (timer_of t)(tid \<mapsto> (c, now + nat ms * 1000))))"
    and cancel_law: "srv_inv t \<Longrightarrow> srv_inv (cancel t tid) \<and> timer_of (cancel t tid) = (timer_of t)(tid := None)"
    and slot_law: "srv_inv t \<Longrightarrow> timer_of t h \<noteq> None \<Longrightarrow> 0 < ms \<Longrightarrow>
      create now (cancel t h) ms rep (Some c) = (t', tid) \<Longrightarrow> 0 < tid"
begin

text \<open>A handle is -1 or the id of an armed timer with the expected callback.\<close>

definition handle_ok :: "'t \<Rightarrow> int \<Rightarrow> 'cb \<Rightarrow> bool" where
  "handle_ok t h c \<longleftrightarrow> h < 0 \<or> (\<exists>due. timer_of t h = Some (c, due))"

lemma handle_create:
  assumes "srv_inv t" "create now t ms rep (Some c) = (t', tid)"
  shows "srv_inv t'" "handle_ok t' tid c" "tid \<ge> 0 \<Longrightarrow> timer_of t' tid = Some (c, now + nat ms * 1000)"
  using create_law[OF assms] by (auto simp: handle_ok_def)

lemma handle_create_other:
  assumes "srv_inv t" "create now t ms rep (Some c) = (t', tid)" "handle_ok t h d"
  shows "handle_ok t' h d" "h \<ge> 0 \<Longrightarrow> h \<noteq> tid"
proof -
  from create_law[OF assms(1,2)] have l: "t' = t \<and> tid = -1 \<or> timer_of t tid = None \<and>
      timer_of t' = (timer_of t)(tid \<mapsto> (c, now + nat ms * 1000))" by auto
  show ne: "h \<ge> 0 \<Longrightarrow> h \<noteq> tid" using l assms(3) by (auto simp: handle_ok_def)
  show "handle_ok t' h d"
  proof (cases "h < 0")
    case False
    then have "h \<noteq> tid" using ne by simp
    with l assms(3) show ?thesis by (auto simp: handle_ok_def)
  qed (simp add: handle_ok_def)
qed

lemma handle_cancel:
  assumes "srv_inv t" "handle_ok t h d" "h \<noteq> tid"
  shows "srv_inv (cancel t tid)" "handle_ok (cancel t tid) h d"
  using cancel_law[OF assms(1)] assms(2,3) by (auto simp: handle_ok_def)

lemma handle_none: "handle_ok t (-1) c"
  by (simp add: handle_ok_def)

text \<open>
  A client with its own callbacks (\<open>own\<close>) holds one timer at most: \<open>sole\<close> says that its handle
  is -1 and it has no timer in the table, or its handle is armed and is its only timer.
\<close>

definition sole :: "('cb \<Rightarrow> bool) \<Rightarrow> 't \<Rightarrow> int \<Rightarrow> 'cb \<Rightarrow> bool" where
  "sole own t h c \<longleftrightarrow> srv_inv t \<and> own c \<and>
     (if h < 0 then \<forall>h' c' due. timer_of t h' = Some (c', due) \<longrightarrow> \<not> own c'
      else \<forall>h' c' due. timer_of t h' = Some (c', due) \<longrightarrow> own c' \<longrightarrow> h' = h) \<and>
     (0 \<le> h \<longrightarrow> (\<exists>due. timer_of t h = Some (c, due)))"

lemma sole_inv: "sole own t h c \<Longrightarrow> srv_inv t"
  by (simp add: sole_def)

lemma sole_idle: "sole own t h c \<Longrightarrow> h < 0 \<Longrightarrow> own d \<Longrightarrow> k < 0 \<Longrightarrow> sole own t k d"
  by (simp add: sole_def)

lemma sole_cancel: "sole own t h c \<Longrightarrow> own d \<Longrightarrow> k < 0 \<Longrightarrow> sole own (cancel t h) k d"
  using cancel_law[of t h] by (auto simp: sole_def split: if_splits)

lemma sole_create:
  assumes "sole own t h c" "h < 0" "own d" "create now t ms rep (Some d) = (t', tid)"
  shows "sole own t' tid d"
proof -
  from assms(1,2) have t: "srv_inv t" "\<forall>h' c' due. timer_of t h' = Some (c', due) \<longrightarrow> \<not> own c'"
    by (auto simp: sole_def)
  from create_law[OF t(1) assms(4)] show ?thesis
  proof (elim conjE disjE)
    assume "tid = -1" "t' = t"
    with t assms(3) show ?thesis by (simp add: sole_def)
  next
    assume "srv_inv t'" "0 < tid" "\<exists>c. Some d = Some c \<and> timer_of t' = (timer_of t)(tid \<mapsto> (c, now + nat ms * 1000))"
    with t(2) assms(3) show ?thesis by (auto simp: sole_def)
  qed
qed

lemma sole_fires:
  assumes "sole own t h c" "timer_of t h' = Some (c', due)" "own c'"
  shows "h' = h" "c' = c" "0 \<le> h" "own d \<Longrightarrow> k < 0 \<Longrightarrow> sole own (cancel t h') k d"
proof -
  have "\<not> h < 0" using assms by (auto simp: sole_def)
  with assms have h: "h' = h" by (auto simp: sole_def)
  with assms \<open>\<not> h < 0\<close> show *: "h' = h" "c' = c" "0 \<le> h" by (auto simp: sole_def)
  show "own d \<Longrightarrow> k < 0 \<Longrightarrow> sole own (cancel t h') k d"
    using sole_cancel[OF assms(1)] *(1) by simp
qed

lemma sole_other:
  assumes "sole own t h c" "timer_of t h' = Some (c', due)" "\<not> own c'"
  shows "sole own (cancel t h') h c"
proof -
  have "h' \<noteq> h \<or> h < 0" using assms by (auto simp: sole_def)
  with assms(1) cancel_law[of t h'] show ?thesis by (auto simp: sole_def split: if_splits)
qed

lemma sole_other_create:
  assumes "sole own t h c" "create now t ms rep (Some d) = (t', tid)" "\<not> own d"
  shows "sole own t' h c"
proof -
  from create_law[OF sole_inv[OF assms(1)] assms(2)] show ?thesis
  proof (elim conjE disjE)
    assume "srv_inv t'" "timer_of t tid = None"
      "\<exists>c. Some d = Some c \<and> timer_of t' = (timer_of t)(tid \<mapsto> (c, now + nat ms * 1000))"
    then show ?thesis using assms(1,3) by (auto simp: sole_def split: if_splits)
  qed (use assms(1) in simp)
qed

end

interpretation ts: timer_service timer_inv timer_create timer_cancel armed
proof unfold_locales
  show "timer_inv t \<Longrightarrow> timer_create now t ms rep cb = (t', tid) \<Longrightarrow>
      timer_inv t' \<and> (tid = -1 \<and> t' = t \<or>
        0 < tid \<and> 0 < ms \<and> armed t tid = None \<and>
        (\<exists>c. cb = Some c \<and> armed t' = (armed t)(tid \<mapsto> (c, now + nat ms * 1000))))"
    for t now ms rep cb t' tid by (rule timer_create_armed)
  show "timer_inv t \<Longrightarrow> timer_inv (timer_cancel t tid) \<and> armed (timer_cancel t tid) = (armed t)(tid := None)"
    for t tid by (rule timer_cancel_armed)
  show "timer_inv t \<Longrightarrow> armed t h \<noteq> None \<Longrightarrow> 0 < ms \<Longrightarrow>
      timer_create now (timer_cancel t h) ms rep (Some c) = (t', tid) \<Longrightarrow> 0 < tid"
    for t h now ms rep c t' tid by (rule timer_cancel_frees)
qed

subsection \<open>A tick\<close>

text \<open>What a tick leaves of an entry, when the callbacks themselves leave the table alone.\<close>

definition is_due :: "nat \<Rightarrow> 'cb timer_entry \<Rightarrow> bool" where
  "is_due now e \<longleftrightarrow> t_active e \<and> t_next_fire_us e \<le> now"

definition after_tick :: "nat \<Rightarrow> 'cb timer_entry \<Rightarrow> 'cb timer_entry" where
  "after_tick now e =
     (if is_due now e
      then (if t_repeat e then e\<lparr>t_next_fire_us := now + nat (t_interval_ms e) * 1000\<rparr> else e\<lparr>t_active := False\<rparr>)
      else e)"

text \<open>Callbacks that are only recorded: the table and the record of what ran.\<close>

definition record_tick :: "nat \<Rightarrow> 'cb timers \<Rightarrow> 'cb timers \<times> 'cb list" where
  "record_tick now t = timer_tick fst (\<lambda>t s. (t, snd s)) (\<lambda>c s. (fst s, snd s @ [c])) now (t, [])"

lemma record_slots:
  assumes "length (t_slots t) = n" "k \<le> n"
  shows "foldl (timer_slot fst (\<lambda>t s. (t, snd s)) (\<lambda>c s. (fst s, snd s @ [c])) now) (t, log) [0..<k] =
         (t\<lparr>t_slots := map (after_tick now) (take k (t_slots t)) @ drop k (t_slots t)\<rparr>,
          log @ map t_callback (filter (is_due now) (take k (t_slots t))))"
  using assms(2)
proof (induction k)
  case (Suc k)
  let ?es = "t_slots t"
  define S where "S = map (after_tick now) (take k ?es) @ drop k ?es"
  have k: "k < length ?es" using Suc.prems assms(1) by simp
  then have nth: "S ! k = ?es ! k"
    by (simp add: S_def nth_append)
  have upd: "S[k := e] = map (after_tick now) (take k ?es) @ e # drop (Suc k) ?es" for e
    using k by (simp add: S_def list_update_append Cons_nth_drop_Suc[symmetric])
  have tk: "take (Suc k) ?es = take k ?es @ [?es ! k]" using k by (simp add: take_Suc_conv_app_nth)
  have slot: "timer_slot fst (\<lambda>t s. (t, snd s)) (\<lambda>c s. (fst s, snd s @ [c])) now (t\<lparr>t_slots := S\<rparr>, l) k =
     (t\<lparr>t_slots := S[k := after_tick now (?es ! k)]\<rparr>,
      if is_due now (?es ! k) then l @ [t_callback (?es ! k)] else l)" for l
  proof (cases "is_due now (?es ! k)")
    case True
    then show ?thesis by (simp add: timer_slot_def Let_def nth is_due_def after_tick_def)
  next
    case False
    have "S[k := ?es ! k] = S" unfolding nth[symmetric] by simp
    moreover from False have "(t_active (?es ! k) \<and> t_next_fire_us (?es ! k) \<le> now) = False" by (simp add: is_due_def)
    moreover have "t_slots (t\<lparr>t_slots := S\<rparr>) = S" by simp
    ultimately show ?thesis by (simp only: timer_slot_def Let_def nth is_due_def after_tick_def if_False fst_conv timers.simps)
  qed
  have "foldl (timer_slot fst (\<lambda>t s. (t, snd s)) (\<lambda>c s. (fst s, snd s @ [c])) now) (t, log) [0..<Suc k] =
        timer_slot fst (\<lambda>t s. (t, snd s)) (\<lambda>c s. (fst s, snd s @ [c])) now
          (t\<lparr>t_slots := S\<rparr>, log @ map t_callback (filter (is_due now) (take k ?es))) k"
    using Suc by (simp add: S_def)
  also have "\<dots> = (t\<lparr>t_slots := map (after_tick now) (take (Suc k) ?es) @ drop (Suc k) ?es\<rparr>,
          log @ map t_callback (filter (is_due now) (take (Suc k) ?es)))"
    unfolding slot upd tk by simp
  finally show ?case .
qed simp

text \<open>
  A tick runs exactly the timers that are due: with callbacks that leave the table alone,
  the callbacks that run are those of the active slots whose time has come, in slot order and
  once each; a one-shot timer is then inactive, a repeating one is due again its interval
  later, and every other slot is unchanged.
\<close>

theorem timer_tick_runs_due:
  assumes "timer_inv t"
  shows "record_tick now t =
         (t\<lparr>t_slots := map (after_tick now) (t_slots t)\<rparr>, map t_callback (filter (is_due now) (t_slots t)))"
  using record_slots[of t MAX_TIMERS MAX_TIMERS now "[]"] timer_invD(1)[OF assms]
  by (simp add: record_tick_def timer_tick_def)

lemma first_timer_ms:
  assumes "0 < ms"
  shows "timer_create now (timer_init z) ms rep (Some c) =
   (\<lparr>t_slots = \<lparr>t_active = True, t_id = 1, t_interval_ms = ms, t_repeat = rep,
       t_next_fire_us = now + nat ms * 1000, t_callback = c\<rparr> # replicate (MAX_TIMERS - 1) (empty_slot z),
     t_next_id = 2\<rparr>, 1)"
  using assms find_idx_replicate[of MAX_TIMERS "\<lambda>e. \<not> t_active e" "empty_slot z"]
  by (simp add: timer_create_def timer_init_def empty_slot_def replicate_update_0)

lemma first_timer:
  "timer_create now (timer_init z) 1 rep (Some c) =
   (\<lparr>t_slots = \<lparr>t_active = True, t_id = 1, t_interval_ms = 1, t_repeat = rep,
       t_next_fire_us = now + 1000, t_callback = c\<rparr> # replicate (MAX_TIMERS - 1) (empty_slot z),
     t_next_id = 2\<rparr>, 1)"
  by (simp add: first_timer_ms)

theorem timer_tick_runs_due_witness:
  "snd (record_tick 2000 (fst (timer_create 0 (timer_init ''none'') 1 False (Some ''beep'')))) = [''beep'']"
proof -
  have "timer_inv (fst (timer_create 0 (timer_init ''none'') 1 False (Some ''beep'')))"
    using timer_create_armed[OF timer_inv_init, of 0 "''none''" 1 False "Some ''beep''"]
    by (metis prod.collapse)
  from timer_tick_runs_due[OF this, of 2000] show ?thesis
    by (simp add: first_timer is_due_def empty_slot_def)
qed

text \<open>
  C20. The table is a map from ids to timers: creating a timer with a callback and a positive
  time either fails with -1 and changes nothing, or gives a positive id that was not armed and
  arms exactly it; cancelling disarms exactly the given id; both keep the ids unique.
\<close>

theorem timer_table_is_map:
  assumes "timer_inv t" "timer_create now t ms rep cb = (t', tid)"
  shows "(tid = -1 \<and> t' = t \<or>
          0 < tid \<and> 0 < ms \<and> armed t tid = None \<and>
          (\<exists>c. cb = Some c \<and> armed t' = (armed t)(tid \<mapsto> (c, now + nat ms * 1000)))) \<and>
         timer_inv t' \<and> armed (timer_cancel t' x) = (armed t')(x := None) \<and> timer_inv (timer_cancel t' x)"
  using timer_create_armed[OF assms] timer_cancel_armed[of t' x] by blast

theorem timer_table_is_map_witness:
  "armed (timer_cancel (fst (timer_create 0 (timer_init ''none'') 1 False (Some ''beep''))) 1) 1 = None"
  using timer_table_is_map[OF timer_inv_init, of 0 "''none''" 1 False "Some ''beep''" _ _ 1]
  by (metis fun_upd_same prod.collapse)

end
