(* ===== verification/Repeater.thy ===== *)
theory Repeater
  imports Timer
begin

text \<open>
  The repeater state machine (\<open>modules/mod_repeater.c\<close>): its states, its four timers, its
  configuration, and its answers to the carrier, link and caller events and to its timers. The
  timer service is a parameter (creation and cancellation on the table's state), PTT requests,
  fired events and queued audio are the effects of an operation, in order.
\<close>

datatype rpt_state = RPT_IDLE | RPT_RECEIVING | RPT_TAIL_WAIT | RPT_HANG_WAIT | RPT_RX_TIMEOUT | RPT_BRIDGING

text \<open>The callbacks of the repeater's timers, and those of the other modules in the same table.\<close>

datatype rpt_cb = CB_tail_expired | CB_tot_expired | CB_debounce_expired | CB_other nat

datatype rpt_effect =
    Rpt_request_ptt
  | Rpt_release_ptt
  | Ev_state_change rpt_state rpt_state
  | Ev_tail_start
  | Ev_tail_expire
  | Ev_rx_timeout
  | Queue_tone int int int int
  | Tts_speak string int

record repeater =
  rp_state :: rpt_state
  rp_tail_timer :: int
  rp_hang_timer :: int
  rp_tot_timer :: int
  rp_debounce_timer :: int
  rp_tail_time_ms :: int
  rp_hang_time_ms :: int
  rp_tot_time_ms :: int
  rp_tot_warn_hz :: int
  rp_cor_debounce_ms :: int
  rp_require_id :: bool
  rp_software_relay :: bool
  rp_caller_identified :: bool

text \<open>The statics of the module when it is mapped in.\<close>

definition rpt_boot :: repeater where
  "rpt_boot = \<lparr>rp_state = RPT_IDLE, rp_tail_timer = -1, rp_hang_timer = -1, rp_tot_timer = -1,
     rp_debounce_timer = -1, rp_tail_time_ms = 2000, rp_hang_time_ms = 500, rp_tot_time_ms = 180000,
     rp_tot_warn_hz = 440, rp_cor_debounce_ms = 150, rp_require_id = False, rp_software_relay = False,
     rp_caller_identified = False\<rparr>"

text \<open>The priorities of queued audio (\<open>include/kerchunk.h\<close>).\<close>

abbreviation KERCHUNK_PRI_HIGH :: int where "KERCHUNK_PRI_HIGH \<equiv> 4"
abbreviation KERCHUNK_PRI_CRITICAL :: int where "KERCHUNK_PRI_CRITICAL \<equiv> 10"

text \<open>What the handlers read from the core besides the timers.\<close>

record rpt_env =
  env_now_us :: nat
  env_emergency :: bool
  env_has_tts :: bool

text \<open>An operation takes and returns the repeater and the timer table, and adds its effects.\<close>

type_synonym 't rpt_create = "nat \<Rightarrow> 't \<Rightarrow> int \<Rightarrow> bool \<Rightarrow> rpt_cb option \<Rightarrow> 't \<times> int"
type_synonym 't rpt_cancel = "'t \<Rightarrow> int \<Rightarrow> 't"
type_synonym 't rpt_op = "repeater \<Rightarrow> 't \<Rightarrow> repeater \<times> 't \<times> rpt_effect list"

definition change_state :: "rpt_state \<Rightarrow> repeater \<Rightarrow> repeater \<times> rpt_effect list" where
  "change_state new r =
     (if new = rp_state r then (r, [])
      else (r\<lparr>rp_state := new\<rparr>, [Ev_state_change (rp_state r) new]))"

definition tail_expired :: "'t rpt_create \<Rightarrow> rpt_env \<Rightarrow> 't rpt_op" where
  "tail_expired create env r0 t =
     (let r = r0\<lparr>rp_tail_timer := -1\<rparr>
      in if rp_state r = RPT_TAIL_WAIT then
           (let (r1, e1) = change_state RPT_HANG_WAIT r;
                (t1, tid) = create (env_now_us env) t (rp_hang_time_ms r1) False (Some CB_tail_expired)
            in (r1\<lparr>rp_hang_timer := tid\<rparr>, t1, Ev_tail_expire # e1))
         else if rp_state r = RPT_HANG_WAIT then
           (let r1 = r\<lparr>rp_hang_timer := -1\<rparr>;
                (r2, e2) = change_state RPT_IDLE r1
            in (r2, t, (if rp_software_relay r1 then [Rpt_release_ptt] else []) @ e2))
         else (r, t, []))"

definition start_receiving :: "'t rpt_create \<Rightarrow> rpt_env \<Rightarrow> 't rpt_op" where
  "start_receiving create env r t =
     (let e0 = (if rp_software_relay r then [Rpt_request_ptt] else []);
          (r1, e1) = change_state RPT_RECEIVING r
      in if \<not> env_emergency env then
           (let (t1, tid) = create (env_now_us env) t (rp_tot_time_ms r1) False (Some CB_tot_expired)
            in (r1\<lparr>rp_tot_timer := tid\<rparr>, t1, e0 @ e1))
         else (r1, t, e0 @ e1))"

definition debounce_expired :: "'t rpt_create \<Rightarrow> rpt_env \<Rightarrow> 't rpt_op" where
  "debounce_expired create env r0 t =
     (let r = r0\<lparr>rp_debounce_timer := -1\<rparr>
      in if rp_state r \<noteq> RPT_IDLE then (r, t, [])
         else if rp_require_id r \<and> \<not> rp_caller_identified r then
           (r, t, [if env_has_tts env then Tts_speak ''Access denied.'' KERCHUNK_PRI_HIGH
                   else Queue_tone 400 500 4000 KERCHUNK_PRI_HIGH])
         else start_receiving create env r t)"

definition tot_expired :: "rpt_env \<Rightarrow> 't rpt_op" where
  "tot_expired env r0 t =
     (let r = r0\<lparr>rp_tot_timer := -1\<rparr>
      in if env_emergency env then (r, t, [])
         else (let (r1, e1) = change_state RPT_RX_TIMEOUT r
               in (r1, t, [Queue_tone (rp_tot_warn_hz r) 1000 8000 KERCHUNK_PRI_CRITICAL, Ev_rx_timeout] @ e1)))"

text \<open>\<open>if (handle >= 0) cancel\<close>\<close>

definition cancel_if :: "'t rpt_cancel \<Rightarrow> 't \<Rightarrow> int \<Rightarrow> 't" where
  "cancel_if cancel t h = (if h \<ge> 0 then cancel t h else t)"

definition on_cor_assert :: "'t rpt_create \<Rightarrow> 't rpt_cancel \<Rightarrow> rpt_env \<Rightarrow> 't rpt_op" where
  "on_cor_assert create cancel env r t =
     (case rp_state r of
        RPT_IDLE \<Rightarrow>
          (let r1 = r\<lparr>rp_caller_identified := False\<rparr>
           in if rp_cor_debounce_ms r1 > 0 \<or> rp_require_id r1 then
                (let debounce = (if rp_require_id r1 \<and> rp_cor_debounce_ms r1 < 500 then 500
                                 else rp_cor_debounce_ms r1);
                     t1 = cancel_if cancel t (rp_debounce_timer r1);
                     (t2, tid) = create (env_now_us env) t1 debounce False (Some CB_debounce_expired)
                 in (r1\<lparr>rp_debounce_timer := tid\<rparr>, t2, []))
              else start_receiving create env r1 t)
      | RPT_TAIL_WAIT \<Rightarrow>
          (let t1 = cancel_if cancel t (rp_tail_timer r);
               r1 = (if rp_tail_timer r \<ge> 0 then r\<lparr>rp_tail_timer := -1\<rparr> else r);
               (r2, e2) = change_state RPT_RECEIVING r1
           in (r2, t1, e2))
      | RPT_HANG_WAIT \<Rightarrow>
          (let t1 = cancel_if cancel t (rp_hang_timer r);
               r1 = (if rp_hang_timer r \<ge> 0 then r\<lparr>rp_hang_timer := -1\<rparr> else r);
               (r2, e2) = change_state RPT_RECEIVING r1;
               t2 = cancel_if cancel t1 (rp_tot_timer r2);
               (t3, tid) = create (env_now_us env) t2 (rp_tot_time_ms r2) False (Some CB_tot_expired)
           in (r2\<lparr>rp_tot_timer := tid\<rparr>, t3, e2))
      | _ \<Rightarrow> (r, t, []))"

definition on_cor_drop :: "'t rpt_create \<Rightarrow> 't rpt_cancel \<Rightarrow> rpt_env \<Rightarrow> 't rpt_op" where
  "on_cor_drop create cancel env r t =
     (if rp_debounce_timer r \<ge> 0
      then (r\<lparr>rp_debounce_timer := -1\<rparr>, cancel t (rp_debounce_timer r), [])
      else (case rp_state r of
              RPT_RECEIVING \<Rightarrow>
                (let t1 = cancel_if cancel t (rp_tot_timer r);
                     r1 = (if rp_tot_timer r \<ge> 0 then r\<lparr>rp_tot_timer := -1\<rparr> else r);
                     (r2, e2) = change_state RPT_TAIL_WAIT r1;
                     (t2, tid) = create (env_now_us env) t1 (rp_tail_time_ms r2) False (Some CB_tail_expired)
                 in (r2\<lparr>rp_tail_timer := tid\<rparr>, t2, e2 @ [Ev_tail_start]))
            | RPT_RX_TIMEOUT \<Rightarrow>
                (let (r1, e1) = change_state RPT_IDLE r
                 in (r1, t, (if rp_software_relay r then [Rpt_release_ptt] else []) @ e1))
            | _ \<Rightarrow> (r, t, [])))"

definition on_link_rx_assert :: "'t rpt_op" where
  "on_link_rx_assert r t =
     (if rp_state r = RPT_IDLE
      then (let (r1, e1) = change_state RPT_BRIDGING r in (r1, t, e1)) else (r, t, []))"

definition on_link_rx_drop :: "'t rpt_op" where
  "on_link_rx_drop r t =
     (if rp_state r = RPT_BRIDGING
      then (let (r1, e1) = change_state RPT_IDLE r in (r1, t, e1)) else (r, t, []))"

definition on_caller_identified :: "repeater \<Rightarrow> repeater" where
  "on_caller_identified r = r\<lparr>rp_caller_identified := True\<rparr>"

definition on_caller_cleared :: "repeater \<Rightarrow> repeater" where
  "on_caller_cleared r = (if rp_state r = RPT_IDLE then r\<lparr>rp_caller_identified := False\<rparr> else r)"

definition repeater_load :: "repeater \<Rightarrow> repeater" where
  "repeater_load r = r\<lparr>rp_state := RPT_IDLE\<rparr>"

text \<open>The values are those read from the section \<open>repeater\<close>, with the defaults of the code.\<close>

definition repeater_configure ::
  "int \<Rightarrow> int \<Rightarrow> int \<Rightarrow> int \<Rightarrow> string option \<Rightarrow> string option \<Rightarrow> repeater \<Rightarrow> repeater" where
  "repeater_configure tail hang tot debounce require_id software_relay r =
     r\<lparr>rp_tail_time_ms := (let x = (if tail < 0 then 0 else tail) in if x > 30000 then 30000 else x),
       rp_hang_time_ms := (let x = (if hang < 0 then 0 else hang) in if x > 10000 then 10000 else x),
       rp_tot_time_ms := (let x = (if tot < 10000 then 10000 else tot) in if x > 600000 then 600000 else x),
       rp_cor_debounce_ms := (let x = (if debounce < 0 then 0 else debounce) in if x > 5000 then 5000 else x),
       rp_require_id := (require_id = Some ''on''),
       rp_software_relay := (software_relay = Some ''on'')\<rparr>"

definition repeater_unload :: "'t rpt_cancel \<Rightarrow> 't rpt_op" where
  "repeater_unload cancel r t =
     (r, cancel_if cancel (cancel_if cancel (cancel_if cancel (cancel_if cancel t (rp_tail_timer r))
            (rp_hang_timer r)) (rp_tot_timer r)) (rp_debounce_timer r),
      if rp_software_relay r \<and> rp_state r \<in> {RPT_RECEIVING, RPT_TAIL_WAIT, RPT_HANG_WAIT}
      then [Rpt_release_ptt] else [])"

subsection \<open>The machine\<close>

text \<open>
  What reaches the module: the bus events it subscribes to, and the expiry of an armed timer,
  which the tick has taken out of the table before it runs the callback.
\<close>

datatype rpt_in =
    COR_assert
  | COR_drop
  | Link_assert
  | Link_drop
  | Caller_id
  | Caller_clear
  | Expire int

fun run_callback :: "'t rpt_create \<Rightarrow> rpt_env \<Rightarrow> rpt_cb \<Rightarrow> 't rpt_op" where
  "run_callback create env CB_tail_expired r t = tail_expired create env r t"
| "run_callback create env CB_tot_expired r t = tot_expired env r t"
| "run_callback create env CB_debounce_expired r t = debounce_expired create env r t"
| "run_callback create env (CB_other k) r t = (r, t, [])"

fun rpt_step :: "'t rpt_create \<Rightarrow> 't rpt_cancel \<Rightarrow> ('t \<Rightarrow> int \<Rightarrow> (rpt_cb \<times> nat) option) \<Rightarrow> 
    rpt_env \<Rightarrow> repeater \<times> 't \<Rightarrow> rpt_in \<Rightarrow> repeater \<times> 't \<times> rpt_effect list" where
  "rpt_step create cancel timer_of env (r, t) COR_assert = on_cor_assert create cancel env r t"
| "rpt_step create cancel timer_of env (r, t) COR_drop = on_cor_drop create cancel env r t"
| "rpt_step create cancel timer_of env (r, t) Link_assert = on_link_rx_assert r t"
| "rpt_step create cancel timer_of env (r, t) Link_drop = on_link_rx_drop r t"
| "rpt_step create cancel timer_of env (r, t) Caller_id = (on_caller_identified r, t, [])"
| "rpt_step create cancel timer_of env (r, t) Caller_clear = (on_caller_cleared r, t, [])"
| "rpt_step create cancel timer_of env (r, t) (Expire h) =
     (case timer_of t h of
        Some (c, due) \<Rightarrow> if due \<le> env_now_us env then run_callback create env c r (cancel t h) else (r, t, [])
      | None \<Rightarrow> (r, t, []))"

text \<open>A run of the machine over a sequence of inputs, each with what the core looks like then.\<close>

fun rpt_run :: "'t rpt_create \<Rightarrow> 't rpt_cancel \<Rightarrow> ('t \<Rightarrow> int \<Rightarrow> (rpt_cb \<times> nat) option) \<Rightarrow> 
    repeater \<times> 't \<Rightarrow> (rpt_env \<times> rpt_in) list \<Rightarrow> repeater \<times> 't \<times> rpt_effect list" where
  "rpt_run create cancel timer_of rt [] = (fst rt, snd rt, [])"
| "rpt_run create cancel timer_of rt ((env, inp) # xs) =
     (let (r1, t1, e1) = rpt_step create cancel timer_of env rt inp;
          (r2, t2, e2) = rpt_run create cancel timer_of (r1, t1) xs
      in (r2, t2, e1 @ e2))"

text \<open>
  The states reachable from a loaded, configured module, with the effects so far, while the
  other modules create and cancel timers of their own in the same table.
\<close>

inductive rpt_reach :: "'t rpt_create \<Rightarrow> 't rpt_cancel \<Rightarrow> ('t \<Rightarrow> int \<Rightarrow> (rpt_cb \<times> nat) option) \<Rightarrow> 
    repeater \<Rightarrow> 't \<Rightarrow> repeater \<Rightarrow> 't \<Rightarrow> rpt_effect list \<Rightarrow> bool"
  for create cancel timer_of r0 t0 where
  start: "rpt_reach create cancel timer_of r0 t0 r0 t0 []"
| step: "rpt_reach create cancel timer_of r0 t0 r t es \<Longrightarrow>
     rpt_step create cancel timer_of env (r, t) inp = (r', t', e') \<Longrightarrow>
     rpt_reach create cancel timer_of r0 t0 r' t' (es @ e')"
| other_create: "rpt_reach create cancel timer_of r0 t0 r t es \<Longrightarrow>
     create now t ms rep (Some (CB_other k)) = (t', tid) \<Longrightarrow>
     rpt_reach create cancel timer_of r0 t0 r t' es"
| other_cancel: "rpt_reach create cancel timer_of r0 t0 r t es \<Longrightarrow>
     timer_of t h = Some (CB_other k, due) \<Longrightarrow>
     rpt_reach create cancel timer_of r0 t0 r (cancel t h) es"

end
