(* ===== verification/Repeater_Lemmas.thy ===== *)
theory Repeater_Lemmas
  imports Repeater
begin

text \<open>
  What the repeater state machine keeps: at most one timer in the table, the one its state names;
  PTT requests that match its state; and identification of the caller on a closed repeater. The
  client lemmas are proved over the timer service's laws and used on the timer table.
\<close>

subsection \<open>The timer of a state\<close>

definition rpt_own :: "rpt_cb \<Rightarrow> bool" where
  "rpt_own c = (case c of CB_other k \<Rightarrow> False | _ \<Rightarrow> True)"

lemma rpt_own_simps [simp]:
  "rpt_own CB_tail_expired" "rpt_own CB_tot_expired" "rpt_own CB_debounce_expired" "\<not> rpt_own (CB_other k)"
  by (simp_all add: rpt_own_def)

definition rpt_live :: "repeater \<Rightarrow> int \<times> rpt_cb" where
  "rpt_live r =
     (case rp_state r of
        RPT_RECEIVING \<Rightarrow> (rp_tot_timer r, CB_tot_expired)
      | RPT_TAIL_WAIT \<Rightarrow> (rp_tail_timer r, CB_tail_expired)
      | RPT_HANG_WAIT \<Rightarrow> (rp_hang_timer r, CB_tail_expired)
      | RPT_RX_TIMEOUT \<Rightarrow> (-1, CB_tot_expired)
      | _ \<Rightarrow> (rp_debounce_timer r, CB_debounce_expired))"

definition rpt_handles :: "repeater \<Rightarrow> bool" where
  "rpt_handles r \<longleftrightarrow>
     (0 \<le> rp_tail_timer r \<longrightarrow> rp_state r = RPT_TAIL_WAIT) \<and>
     (0 \<le> rp_hang_timer r \<longrightarrow> rp_state r = RPT_HANG_WAIT) \<and>
     (0 \<le> rp_tot_timer r \<longrightarrow> rp_state r = RPT_RECEIVING) \<and>
     (0 \<le> rp_debounce_timer r \<longrightarrow> (rp_state r = RPT_IDLE \<or> rp_state r = RPT_BRIDGING) \<and>
        (0 < rp_cor_debounce_ms r \<or> rp_require_id r))"

lemma caller_same [simp]:
  "rpt_live (r\<lparr>rp_caller_identified := b\<rparr>) = rpt_live r"
  "rpt_handles (r\<lparr>rp_caller_identified := b\<rparr>) = rpt_handles r"
  by (cases "rp_state r"; simp add: rpt_live_def) (simp add: rpt_handles_def)

text \<open>The inputs that end a session state without a timer.\<close>

definition rpt_wakes :: "rpt_state \<Rightarrow> rpt_in \<Rightarrow> bool" where
  "rpt_wakes s inp \<longleftrightarrow> (if s = RPT_RECEIVING then inp = COR_drop else inp = COR_assert)"

lemma change_state_eq:
  "change_state s r = (r\<lparr>rp_state := s\<rparr>, if s = rp_state r then [] else [Ev_state_change (rp_state r) s])"
  by (simp add: change_state_def)

text \<open>The handlers on the branches that set a timer, as equations.\<close>

definition debounce_ms :: "repeater \<Rightarrow> int" where
  "debounce_ms r = (if rp_require_id r \<and> rp_cor_debounce_ms r < 500 then 500 else rp_cor_debounce_ms r)"

lemma cor_assert_debounced:
  assumes "rp_state r = RPT_IDLE" "0 < rp_cor_debounce_ms r \<or> rp_require_id r"
    "create (env_now_us env) (cancel_if cancel t (rp_debounce_timer r)) (debounce_ms r) False
       (Some CB_debounce_expired) = (t2, tid)"
  shows "on_cor_assert create cancel env r t = (r\<lparr>rp_caller_identified := False, rp_debounce_timer := tid\<rparr>, t2, [])"
proof (cases "rp_require_id r \<and> rp_cor_debounce_ms r < 500")
  case True
  then have "debounce_ms r = 500" by (simp add: debounce_ms_def)
  with True assms show ?thesis by (simp add: on_cor_assert_def Let_def)
next
  case False
  then have "debounce_ms r = rp_cor_debounce_ms r" by (auto simp: debounce_ms_def)
  with False assms show ?thesis by (auto simp: on_cor_assert_def Let_def)
qed

lemma cor_assert_hang:
  assumes "rp_state r = RPT_HANG_WAIT" "rp_tot_timer r < 0"
    "create (env_now_us env) (cancel_if cancel t (rp_hang_timer r)) (rp_tot_time_ms r) False
       (Some CB_tot_expired) = (t2, tid)"
  shows "on_cor_assert create cancel env r t =
     (r\<lparr>rp_hang_timer := (if 0 \<le> rp_hang_timer r then -1 else rp_hang_timer r),
        rp_state := RPT_RECEIVING, rp_tot_timer := tid\<rparr>, t2, [Ev_state_change RPT_HANG_WAIT RPT_RECEIVING])"
proof (cases "0 \<le> rp_hang_timer r")
  case True
  with assms show ?thesis by (simp add: on_cor_assert_def change_state_eq cancel_if_def)
next
  case False
  with assms show ?thesis by (simp add: on_cor_assert_def change_state_eq cancel_if_def)
qed

lemma cor_drop_receiving:
  assumes "rp_state r = RPT_RECEIVING" "rp_debounce_timer r < 0"
    "create (env_now_us env) (cancel_if cancel t (rp_tot_timer r)) (rp_tail_time_ms r) False
       (Some CB_tail_expired) = (t2, tid)"
  shows "on_cor_drop create cancel env r t =
     (r\<lparr>rp_tot_timer := (if 0 \<le> rp_tot_timer r then -1 else rp_tot_timer r),
        rp_state := RPT_TAIL_WAIT, rp_tail_timer := tid\<rparr>, t2,
      [Ev_state_change RPT_RECEIVING RPT_TAIL_WAIT, Ev_tail_start])"
proof (cases "0 \<le> rp_tot_timer r")
  case True
  with assms show ?thesis by (simp add: on_cor_drop_def change_state_eq)
next
  case False
  with assms show ?thesis by (simp add: on_cor_drop_def change_state_eq)
qed

text \<open>
  The PTT references the module holds, from its effects; and the states in which it holds one.
\<close>

definition ptt_weight :: "rpt_effect \<Rightarrow> int" where
  "ptt_weight e = (case e of Rpt_request_ptt \<Rightarrow> 1 | Rpt_release_ptt \<Rightarrow> -1 | _ \<Rightarrow> 0)"

definition ptt_balance :: "rpt_effect list \<Rightarrow> int" where
  "ptt_balance es = sum_list (map ptt_weight es)"

definition rpt_active :: "repeater \<Rightarrow> bool" where
  "rpt_active r \<longleftrightarrow> rp_state r \<in> {RPT_RECEIVING, RPT_TAIL_WAIT, RPT_HANG_WAIT, RPT_RX_TIMEOUT}"

lemma ptt_balance_simps [simp]:
  "ptt_balance [] = 0" "ptt_balance (e # es) = ptt_weight e + ptt_balance es"
  "ptt_balance (es @ fs) = ptt_balance es + ptt_balance fs"
  "ptt_weight Rpt_request_ptt = 1" "ptt_weight Rpt_release_ptt = -1"
  "ptt_weight (Ev_state_change a b) = 0" "ptt_weight Ev_tail_start = 0" "ptt_weight Ev_tail_expire = 0"
  "ptt_weight Ev_rx_timeout = 0" "ptt_weight (Queue_tone f d v p) = 0" "ptt_weight (Tts_speak s p) = 0"
  by (simp_all add: ptt_balance_def ptt_weight_def)

text \<open>
  What an operation does to the session: the configuration stays, its effects move the PTT
  balance as the states say, and a closed repeater stays closed to unidentified callers.
\<close>

definition rpt_closed :: "repeater \<Rightarrow> bool" where
  "rpt_closed r \<longleftrightarrow> (rp_require_id r \<longrightarrow> rpt_active r \<longrightarrow> rp_caller_identified r)"

definition session_step :: "repeater \<Rightarrow> repeater \<Rightarrow> rpt_effect list \<Rightarrow> bool" where
  "session_step r r' es \<longleftrightarrow>
     rp_software_relay r' = rp_software_relay r \<and> rp_require_id r' = rp_require_id r \<and>
     ptt_balance es = of_bool (rp_software_relay r \<and> rpt_active r') - of_bool (rp_software_relay r \<and> rpt_active r) \<and>
     (rpt_closed r \<longrightarrow> rpt_closed r')"

lemma session_step_same: "session_step r r []"
  by (simp add: session_step_def)

lemmas session_defs = session_step_def rpt_closed_def rpt_active_def change_state_eq

lemma tail_session:
  assumes "tail_expired create env r t = (r', t', es)"
  shows "session_step r r' es"
proof -
  obtain t1 tid where c: "create (env_now_us env) t (rp_hang_time_ms r) False (Some CB_tail_expired) = (t1, tid)"
    by (metis surj_pair)
  show ?thesis
    using assms c by (cases "rp_state r") (auto simp: tail_expired_def session_defs)
qed

lemma start_session:
  assumes "start_receiving create env r t = (r', t', es)" "rp_state r = RPT_IDLE"
    "rp_require_id r \<longrightarrow> rp_caller_identified r"
  shows "session_step r r' es"
proof -
  obtain t1 tid where c: "create (env_now_us env) t (rp_tot_time_ms r) False (Some CB_tot_expired) = (t1, tid)"
    by (metis surj_pair)
  show ?thesis
    using assms c by (cases "env_emergency env") (auto simp: start_receiving_def session_defs)
qed

lemma debounce_session:
  assumes "debounce_expired create env r t = (r', t', es)"
  shows "session_step r r' es"
proof -
  let ?r = "r\<lparr>rp_debounce_timer := -1\<rparr>"
  consider (open_) "rp_state r = RPT_IDLE" "rp_require_id r \<longrightarrow> rp_caller_identified r"
    | (deny) "rp_state r = RPT_IDLE" "rp_require_id r" "\<not> rp_caller_identified r"
    | (stay) "rp_state r \<noteq> RPT_IDLE" by blast
  then show ?thesis
  proof cases
    case open_
    then have "start_receiving create env ?r t = (r', t', es)" using assms by (auto simp: debounce_expired_def)
    from start_session[where create = create, OF this] open_ show ?thesis by (simp add: session_defs)
  next
    case deny
    with assms show ?thesis by (cases "env_has_tts env") (auto simp: debounce_expired_def session_defs)
  next
    case stay
    with assms show ?thesis by (auto simp: debounce_expired_def session_defs)
  qed
qed

lemma tot_session:
  assumes "tot_expired env r t = (r', t', es)" "rp_state r = RPT_RECEIVING"
  shows "session_step r r' es"
  using assms by (cases "env_emergency env") (auto simp: tot_expired_def session_defs)

lemma cor_assert_session:
  assumes "on_cor_assert create cancel env r t = (r', t', es)" "rp_tot_timer r < 0 \<or> rp_state r = RPT_RECEIVING"
  shows "session_step r r' es"
proof (cases "rp_state r")
  case RPT_IDLE
  show ?thesis
  proof (cases "0 < rp_cor_debounce_ms r \<or> rp_require_id r")
    case True
    obtain t2 tid where c: "create (env_now_us env) (cancel_if cancel t (rp_debounce_timer r)) (debounce_ms r) False
        (Some CB_debounce_expired) = (t2, tid)" by (metis surj_pair)
    show ?thesis
      using assms(1) cor_assert_debounced[where create = create and cancel = cancel, OF RPT_IDLE True c] RPT_IDLE
      by (auto simp: session_defs)
  next
    case False
    then have "start_receiving create env (r\<lparr>rp_caller_identified := False\<rparr>) t = (r', t', es)"
      using assms RPT_IDLE by (simp add: on_cor_assert_def)
    from start_session[where create = create, OF this] RPT_IDLE False show ?thesis by (simp add: session_defs)
  qed
next
  case RPT_TAIL_WAIT
  then show ?thesis using assms by (cases "0 \<le> rp_tail_timer r") (auto simp: on_cor_assert_def session_defs)
next
  case RPT_HANG_WAIT
  with assms have n: "rp_tot_timer r < 0" by simp
  obtain t3 tid where c: "create (env_now_us env) (cancel_if cancel t (rp_hang_timer r)) (rp_tot_time_ms r) False
      (Some CB_tot_expired) = (t3, tid)" by (metis surj_pair)
  show ?thesis
    using assms(1) cor_assert_hang[where create = create and cancel = cancel, OF RPT_HANG_WAIT n c] RPT_HANG_WAIT
    by (auto simp: session_defs)
qed (use assms in \<open>simp_all add: on_cor_assert_def session_step_same\<close>)

lemma cor_drop_session:
  assumes "on_cor_drop create cancel env r t = (r', t', es)"
  shows "session_step r r' es"
proof (cases "0 \<le> rp_debounce_timer r")
  case True
  with assms show ?thesis by (auto simp: on_cor_drop_def session_defs)
next
  case deb: False
  show ?thesis
  proof (cases "rp_state r")
    case RPT_RECEIVING
    obtain t2 tid where c: "create (env_now_us env) (cancel_if cancel t (rp_tot_timer r)) (rp_tail_time_ms r) False
        (Some CB_tail_expired) = (t2, tid)" by (metis surj_pair)
    show ?thesis
      using assms(1) cor_drop_receiving[where create = create and cancel = cancel, OF RPT_RECEIVING _ c] deb RPT_RECEIVING
      by (auto simp: session_defs)
  next
    case RPT_RX_TIMEOUT
    with assms deb show ?thesis by (auto simp: on_cor_drop_def session_defs)
  qed (use assms deb in \<open>simp_all add: on_cor_drop_def session_step_same\<close>)
qed

locale repeater_timers = timer_service srv_inv create cancel timer_of
  for srv_inv :: "'t \<Rightarrow> bool"
    and create :: "nat \<Rightarrow> 't \<Rightarrow> int \<Rightarrow> bool \<Rightarrow> rpt_cb option \<Rightarrow> 't \<times> int"
    and cancel :: "'t \<Rightarrow> int \<Rightarrow> 't"
    and timer_of :: "'t \<Rightarrow> int \<Rightarrow> (rpt_cb \<times> nat) option"
begin

definition rpt_ok :: "repeater \<Rightarrow> 't \<Rightarrow> bool" where
  "rpt_ok r t \<longleftrightarrow> sole rpt_own t (fst (rpt_live r)) (snd (rpt_live r)) \<and> rpt_handles r"

text \<open>The handle of the live timer is cancelled, or was not set: the module has no timer left.\<close>

lemma sole_cancel_if:
  assumes "sole rpt_own t h c" "rpt_own d"
  shows "sole rpt_own (cancel_if cancel t h) (-1) d"
  using sole_cancel[OF assms(1), of d "-1"] sole_idle[OF assms(1), of d "-1"] assms(2) by (simp add: cancel_if_def)

lemma tail_ok:
  assumes "sole rpt_own t (-1) CB_tail_expired" "rp_state r = RPT_TAIL_WAIT \<or> rp_state r = RPT_HANG_WAIT"
    "rpt_handles r" "rp_hang_timer r < 0 \<or> rp_state r = RPT_HANG_WAIT"
    "tail_expired create env r t = (r', t', es)"
  shows "rpt_ok r' t'"
proof (cases "rp_state r = RPT_TAIL_WAIT")
  case True
  obtain t1 tid where c: "create (env_now_us env) t (rp_hang_time_ms r) False (Some CB_tail_expired) = (t1, tid)"
    by (metis surj_pair)
  have "sole rpt_own t1 tid CB_tail_expired" using sole_create[OF assms(1) _ _ c] by simp
  moreover have "r' = r\<lparr>rp_tail_timer := -1, rp_state := RPT_HANG_WAIT, rp_hang_timer := tid\<rparr>" "t' = t1"
    using assms(5) True c by (simp_all add: tail_expired_def change_state_eq)
  ultimately show ?thesis using assms(3) True by (auto simp: rpt_ok_def rpt_live_def rpt_handles_def)
next
  case False
  with assms(2) have s: "rp_state r = RPT_HANG_WAIT" by simp
  have "r' = r\<lparr>rp_tail_timer := -1, rp_hang_timer := -1, rp_state := RPT_IDLE\<rparr>" "t' = t"
    using assms(5) s by (simp_all add: tail_expired_def change_state_eq)
  moreover have "rp_debounce_timer r < 0" using assms(3) s by (auto simp: rpt_handles_def)
  ultimately show ?thesis using assms(3) s sole_idle[OF assms(1), of CB_debounce_expired "rp_debounce_timer r"]
    by (auto simp: rpt_ok_def rpt_live_def rpt_handles_def)
qed

lemma start_ok:
  assumes "sole rpt_own t (-1) c" "rp_state r = RPT_IDLE" "rpt_handles r" "rp_debounce_timer r < 0"
    "start_receiving create env r t = (r', t', es)"
  shows "rpt_ok r' t'"
proof -
  obtain t1 tid where c: "create (env_now_us env) t (rp_tot_time_ms r) False (Some CB_tot_expired) = (t1, tid)"
    by (metis surj_pair)
  show ?thesis
  proof (cases "env_emergency env")
    case True
    then have "r' = r\<lparr>rp_state := RPT_RECEIVING\<rparr>" "t' = t"
      using assms(5) by (simp_all add: start_receiving_def change_state_eq)
    moreover have "rp_tot_timer r < 0" using assms(2,3) by (auto simp: rpt_handles_def)
    ultimately show ?thesis
      using assms(2-4) sole_idle[OF assms(1), of CB_tot_expired "rp_tot_timer r"]
      by (auto simp: rpt_ok_def rpt_live_def rpt_handles_def)
  next
    case False
    then have "r' = r\<lparr>rp_state := RPT_RECEIVING, rp_tot_timer := tid\<rparr>" "t' = t1"
      using assms(5) c by (simp_all add: start_receiving_def change_state_eq)
    moreover have "sole rpt_own t1 tid CB_tot_expired" using sole_create[OF assms(1) _ _ c] by simp
    ultimately show ?thesis using assms(2-4) by (auto simp: rpt_ok_def rpt_live_def rpt_handles_def)
  qed
qed

lemma debounce_ok:
  assumes "sole rpt_own t (-1) c" "rp_state r = RPT_IDLE \<or> rp_state r = RPT_BRIDGING" "rpt_handles r"
    "debounce_expired create env r t = (r', t', es)"
  shows "rpt_ok r' t'"
proof -
  let ?r = "r\<lparr>rp_debounce_timer := -1\<rparr>"
  have h: "rpt_handles ?r" using assms(3) by (auto simp: rpt_handles_def)
  have id: "sole rpt_own t (-1) CB_debounce_expired" using sole_idle[OF assms(1)] by simp
  consider (open_) "rp_state r = RPT_IDLE" "\<not> (rp_require_id r \<and> \<not> rp_caller_identified r)"
    | (stay) "r' = ?r" "t' = t"
    using assms(4) by (auto simp: debounce_expired_def Let_def split: if_splits)
  then show ?thesis
  proof cases
    case open_
    then have "start_receiving create env ?r t = (r', t', es)" using assms(4) by (auto simp: debounce_expired_def)
    from start_ok[OF id _ h _ this] open_ show ?thesis by simp
  next
    case stay
    with assms(2) h id show ?thesis by (auto simp: rpt_ok_def rpt_live_def)
  qed
qed

lemma tot_ok:
  assumes "sole rpt_own t (-1) CB_tot_expired" "rp_state r = RPT_RECEIVING" "rpt_handles r"
    "tot_expired env r t = (r', t', es)"
  shows "rpt_ok r' t'"
proof (cases "env_emergency env")
  case True
  with assms have "r' = r\<lparr>rp_tot_timer := -1\<rparr>" "t' = t" by (simp_all add: tot_expired_def)
  with assms(1-3) show ?thesis by (auto simp: rpt_ok_def rpt_live_def rpt_handles_def)
next
  case False
  with assms have "r' = r\<lparr>rp_tot_timer := -1, rp_state := RPT_RX_TIMEOUT\<rparr>" "t' = t"
    by (simp_all add: tot_expired_def change_state_eq)
  with assms(1-3) show ?thesis by (auto simp: rpt_ok_def rpt_live_def rpt_handles_def)
qed

lemma callback_ok:
  assumes "rpt_ok r t" "timer_of t h = Some (c, due)" "run_callback create env c r (cancel t h) = (r', t', es)"
  shows "rpt_ok r' t'"
proof (cases "rpt_own c")
  case True
  from assms(1) have s: "sole rpt_own t (fst (rpt_live r)) (snd (rpt_live r))" and h: "rpt_handles r"
    by (simp_all add: rpt_ok_def)
  note f = sole_fires[OF s assms(2) True]
  have n: "sole rpt_own (cancel t h) (-1) c" using f(4) True by simp
  show ?thesis
  proof (cases c)
    case CB_tail_expired
    with f(2) have "rp_state r = RPT_TAIL_WAIT \<or> rp_state r = RPT_HANG_WAIT"
      by (auto simp: rpt_live_def split: rpt_state.splits)
    then show ?thesis using tail_ok[OF _ _ h] n assms(3) CB_tail_expired h by (auto simp: rpt_handles_def)
  next
    case CB_tot_expired
    with f(2,3) have "rp_state r = RPT_RECEIVING" by (auto simp: rpt_live_def split: rpt_state.splits)
    then show ?thesis using tot_ok[OF _ _ h] n assms(3) CB_tot_expired by simp
  next
    case CB_debounce_expired
    with f(2) have "rp_state r = RPT_IDLE \<or> rp_state r = RPT_BRIDGING"
      by (auto simp: rpt_live_def split: rpt_state.splits)
    then show ?thesis using debounce_ok[OF n _ h] assms(3) CB_debounce_expired by simp
  qed (use True in simp)
next
  case False
  then obtain k where "c = CB_other k" by (cases c) simp_all
  with assms sole_other[of rpt_own t _ _ h c due] show ?thesis by (auto simp: rpt_ok_def)
qed

text \<open>The event handlers.\<close>

lemma cor_assert_ok:
  assumes "rpt_ok r t" "on_cor_assert create cancel env r t = (r', t', es)"
  shows "rpt_ok r' t'"
proof -
  from assms(1) have s: "sole rpt_own t (fst (rpt_live r)) (snd (rpt_live r))" and h: "rpt_handles r"
    by (simp_all add: rpt_ok_def)
  show ?thesis
  proof (cases "rp_state r")
    case RPT_IDLE
    let ?r = "r\<lparr>rp_caller_identified := False\<rparr>"
    have s: "sole rpt_own t (rp_debounce_timer r) CB_debounce_expired" using s RPT_IDLE by (simp add: rpt_live_def)
    show ?thesis
    proof (cases "rp_cor_debounce_ms r > 0 \<or> rp_require_id r")
      case True
      obtain t2 tid where c: "create (env_now_us env) (cancel_if cancel t (rp_debounce_timer r)) (debounce_ms r) False
          (Some CB_debounce_expired) = (t2, tid)" by (metis surj_pair)
      have "sole rpt_own t2 tid CB_debounce_expired"
        using sole_create[OF sole_cancel_if[OF s, of CB_debounce_expired] _ _ c] by simp
      moreover have "r' = ?r\<lparr>rp_debounce_timer := tid\<rparr>" "t' = t2"
        using assms(2) cor_assert_debounced[where create = create and cancel = cancel, OF RPT_IDLE True c] by simp_all
      ultimately show ?thesis using h RPT_IDLE True by (auto simp: rpt_ok_def rpt_live_def rpt_handles_def)
    next
      case False
      then have neg: "rp_debounce_timer r < 0" using h by (auto simp: rpt_handles_def)
      have "start_receiving create env ?r t = (r', t', es)"
        using assms(2) RPT_IDLE False by (simp add: on_cor_assert_def)
      from start_ok[OF sole_idle[OF s neg, of CB_debounce_expired "-1"] _ _ _ this] neg h RPT_IDLE
      show ?thesis by (auto simp: rpt_handles_def)
    qed
  next
    case RPT_TAIL_WAIT
    have s: "sole rpt_own t (rp_tail_timer r) CB_tail_expired" using s RPT_TAIL_WAIT by (simp add: rpt_live_def)
    have "rp_tot_timer r < 0" "rp_hang_timer r < 0" "rp_debounce_timer r < 0" using h RPT_TAIL_WAIT by (auto simp: rpt_handles_def)
    moreover have "rp_state r' = RPT_RECEIVING" "rp_tail_timer r' < 0" "rp_hang_timer r' = rp_hang_timer r"
       "rp_tot_timer r' = rp_tot_timer r" "rp_debounce_timer r' = rp_debounce_timer r" "t' = cancel_if cancel t (rp_tail_timer r)"
      using assms(2) RPT_TAIL_WAIT by (auto simp: on_cor_assert_def change_state_eq Let_def)
    ultimately show ?thesis
      using sole_idle[OF sole_cancel_if[OF s, of CB_tot_expired], of CB_tot_expired "rp_tot_timer r"]
      by (auto simp: rpt_ok_def rpt_live_def rpt_handles_def)
  next
    case RPT_HANG_WAIT
    have s: "sole rpt_own t (rp_hang_timer r) CB_tail_expired" using s RPT_HANG_WAIT by (simp add: rpt_live_def)
    have n: "rp_tot_timer r < 0" "rp_tail_timer r < 0" "rp_debounce_timer r < 0" using h RPT_HANG_WAIT by (auto simp: rpt_handles_def)
    obtain t3 tid where c: "create (env_now_us env) (cancel_if cancel t (rp_hang_timer r)) (rp_tot_time_ms r) False
        (Some CB_tot_expired) = (t3, tid)" by (metis surj_pair)
    have "rp_state r' = RPT_RECEIVING" "rp_hang_timer r' < 0" "rp_tail_timer r' = rp_tail_timer r"
       "rp_tot_timer r' = tid" "rp_debounce_timer r' = rp_debounce_timer r" "t' = t3"
      using assms(2) cor_assert_hang[where create = create and cancel = cancel, OF RPT_HANG_WAIT n(1) c] by auto
    moreover have "sole rpt_own t3 tid CB_tot_expired"
      using sole_create[OF sole_cancel_if[OF s, of CB_tot_expired] _ _ c] by simp
    ultimately show ?thesis using n by (auto simp: rpt_ok_def rpt_live_def rpt_handles_def)
  qed (use assms in \<open>simp_all add: on_cor_assert_def\<close>)
qed

lemma cor_drop_ok:
  assumes "rpt_ok r t" "on_cor_drop create cancel env r t = (r', t', es)"
  shows "rpt_ok r' t'"
proof -
  from assms(1) have s: "sole rpt_own t (fst (rpt_live r)) (snd (rpt_live r))" and h: "rpt_handles r"
    by (simp_all add: rpt_ok_def)
  show ?thesis
  proof (cases "0 \<le> rp_debounce_timer r")
    case True
    with h have st: "rp_state r = RPT_IDLE \<or> rp_state r = RPT_BRIDGING" by (simp add: rpt_handles_def)
    then have s: "sole rpt_own t (rp_debounce_timer r) CB_debounce_expired" using s by (auto simp: rpt_live_def)
    have "r' = r\<lparr>rp_debounce_timer := -1\<rparr>" "t' = cancel t (rp_debounce_timer r)"
      using assms(2) True by (simp_all add: on_cor_drop_def)
    then show ?thesis using sole_cancel[OF s, of CB_debounce_expired "-1"] h st
      by (auto simp: rpt_ok_def rpt_live_def rpt_handles_def)
  next
    case deb: False
    show ?thesis
    proof (cases "rp_state r")
      case RPT_RECEIVING
      have s: "sole rpt_own t (rp_tot_timer r) CB_tot_expired" using s RPT_RECEIVING by (simp add: rpt_live_def)
      have n: "rp_hang_timer r < 0" using h RPT_RECEIVING by (auto simp: rpt_handles_def)
      obtain t3 tid where c: "create (env_now_us env) (cancel_if cancel t (rp_tot_timer r)) (rp_tail_time_ms r) False
          (Some CB_tail_expired) = (t3, tid)" by (metis surj_pair)
      have "rp_state r' = RPT_TAIL_WAIT" "rp_hang_timer r' = rp_hang_timer r" "rp_tail_timer r' = tid"
         "rp_tot_timer r' < 0" "rp_debounce_timer r' = rp_debounce_timer r" "t' = t3"
        using assms(2) cor_drop_receiving[where create = create and cancel = cancel, OF RPT_RECEIVING _ c] deb by auto
      moreover have "sole rpt_own t3 tid CB_tail_expired"
        using sole_create[OF sole_cancel_if[OF s, of CB_tail_expired] _ _ c] by simp
      ultimately show ?thesis using n deb by (auto simp: rpt_ok_def rpt_live_def rpt_handles_def)
    next
      case RPT_RX_TIMEOUT
      then have "r' = r\<lparr>rp_state := RPT_IDLE\<rparr>" "t' = t"
        using assms(2) deb by (simp_all add: on_cor_drop_def change_state_eq)
      moreover have "sole rpt_own t (rp_debounce_timer r) CB_debounce_expired"
        using sole_idle[OF s, of CB_debounce_expired "rp_debounce_timer r"] RPT_RX_TIMEOUT deb by (simp add: rpt_live_def)
      ultimately show ?thesis using h RPT_RX_TIMEOUT deb by (auto simp: rpt_ok_def rpt_live_def rpt_handles_def)
    qed (use assms deb in \<open>simp_all add: on_cor_drop_def\<close>)
  qed
qed

theorem step_ok:
  assumes "rpt_ok r t" "rpt_step create cancel timer_of env (r, t) inp = (r', t', es)"
  shows "rpt_ok r' t'"
proof (cases inp)
  case COR_assert
  with assms cor_assert_ok show ?thesis by simp
next
  case COR_drop
  with assms cor_drop_ok show ?thesis by simp
next
  case (Expire h)
  show ?thesis
  proof (cases "timer_of t h")
    case (Some cd)
    obtain c due where "cd = (c, due)" by (metis surj_pair)
    with Some Expire assms callback_ok[of r t h c due env] show ?thesis by (auto split: if_splits)
  qed (use assms Expire in simp)
next
  case Link_assert
  show ?thesis
  proof (cases "rp_state r = RPT_IDLE")
    case True
    then have "r' = r\<lparr>rp_state := RPT_BRIDGING\<rparr>" "t' = t"
      using assms(2) Link_assert by (simp_all add: on_link_rx_assert_def change_state_eq)
    with True assms(1) show ?thesis by (simp add: rpt_ok_def rpt_live_def rpt_handles_def)
  qed (use assms Link_assert in \<open>simp add: on_link_rx_assert_def\<close>)
next
  case Link_drop
  show ?thesis
  proof (cases "rp_state r = RPT_BRIDGING")
    case True
    then have "r' = r\<lparr>rp_state := RPT_IDLE\<rparr>" "t' = t"
      using assms(2) Link_drop by (simp_all add: on_link_rx_drop_def change_state_eq)
    with True assms(1) show ?thesis by (simp add: rpt_ok_def rpt_live_def rpt_handles_def)
  qed (use assms Link_drop in \<open>simp add: on_link_rx_drop_def\<close>)
next
  case Caller_id
  then have "r' = r\<lparr>rp_caller_identified := True\<rparr>" "t' = t"
    using assms(2) by (simp_all add: on_caller_identified_def)
  with assms(1) show ?thesis by (simp add: rpt_ok_def)
next
  case Caller_clear
  then have "r' = r \<or> r' = r\<lparr>rp_caller_identified := False\<rparr>" "t' = t"
    using assms(2) by (auto simp: on_caller_cleared_def)
  with assms(1) show ?thesis by (auto simp: rpt_ok_def)
qed

lemma rpt_ok_tot: "rpt_ok r t \<Longrightarrow> rp_tot_timer r < 0 \<or> rp_state r = RPT_RECEIVING"
  by (auto simp: rpt_ok_def rpt_handles_def)

lemma callback_session:
  assumes "rpt_ok r t" "timer_of t h = Some (c, due)" "run_callback create env c r t' = (r', t'', es)"
  shows "session_step r r' es"
proof (cases c)
  case CB_tot_expired
  from assms(1) have "sole rpt_own t (fst (rpt_live r)) (snd (rpt_live r))" by (simp add: rpt_ok_def)
  note f = sole_fires(2,3)[OF this assms(2)]
  have "rp_state r = RPT_RECEIVING"
    using f CB_tot_expired by (auto simp: rpt_live_def split: rpt_state.splits)
  then show ?thesis using tot_session assms(3) CB_tot_expired by simp
next
  case CB_tail_expired
  with assms(3) tail_session[where create = create] show ?thesis by simp
next
  case CB_debounce_expired
  with assms(3) debounce_session[where create = create] show ?thesis by simp
qed (use assms(3) session_step_same in auto)

lemma step_session:
  assumes "rpt_ok r t" "rpt_step create cancel timer_of env (r, t) inp = (r', t', es)"
  shows "session_step r r' es"
proof (cases inp)
  case COR_assert
  with assms(2) cor_assert_session[where create = create and cancel = cancel, OF _ rpt_ok_tot[OF assms(1)]] show ?thesis by simp
next
  case COR_drop
  with assms(2) cor_drop_session[where create = create and cancel = cancel] show ?thesis by simp
next
  case (Expire h)
  show ?thesis
  proof (cases "timer_of t h")
    case (Some cd)
    obtain c due where "cd = (c, due)" by (metis surj_pair)
    with Some Expire assms(2) callback_session[OF assms(1), of h c due env] show ?thesis
      by (auto simp: session_step_same split: if_splits)
  qed (use assms(2) Expire session_step_same in auto)
qed (use assms(2) in \<open>auto simp: on_link_rx_assert_def on_link_rx_drop_def on_caller_identified_def
       on_caller_cleared_def session_defs split: if_splits\<close>)

text \<open>The reachable states: nothing armed and idle at the start.\<close>

definition rpt_fresh :: "repeater \<Rightarrow> 't \<Rightarrow> bool" where
  "rpt_fresh r t \<longleftrightarrow> srv_inv t \<and> rp_state r = RPT_IDLE \<and>
     rp_tail_timer r = -1 \<and> rp_hang_timer r = -1 \<and> rp_tot_timer r = -1 \<and> rp_debounce_timer r = -1 \<and>
     (\<forall>h c due. timer_of t h = Some (c, due) \<longrightarrow> \<not> rpt_own c)"

lemma fresh_ok: "rpt_fresh r t \<Longrightarrow> rpt_ok r t"
  by (simp add: rpt_fresh_def rpt_ok_def rpt_live_def rpt_handles_def sole_def)

lemma reach_ok:
  assumes "rpt_reach create cancel timer_of r0 t0 r t es" "rpt_fresh r0 t0"
  shows "rpt_ok r t \<and> rp_software_relay r = rp_software_relay r0 \<and> rpt_closed r \<and>
         ptt_balance es = of_bool (rp_software_relay r \<and> rpt_active r)"
  using assms
proof (induction rule: rpt_reach.induct)
  case start
  then show ?case using fresh_ok by (auto simp: rpt_fresh_def rpt_closed_def rpt_active_def)
next
  case (step r t es env inp r' t' e')
  then have ok: "rpt_ok r t" by simp
  from step step_ok[OF ok step.hyps(2)] step_session[OF ok step.hyps(2)] show ?case
    by (simp add: session_step_def)
next
  case (other_create r t es now ms rep k t' tid)
  then show ?case using sole_other_create[OF _ other_create.hyps(2), of rpt_own] by (auto simp: rpt_ok_def)
next
  case (other_cancel r t es h k due)
  then show ?case using sole_other[OF _ other_cancel.hyps(2), of rpt_own] by (auto simp: rpt_ok_def)
qed

lemma unload_timers:
  assumes "rpt_ok r t" "repeater_unload cancel r t = (r', t', es)" "timer_of t' h = Some (c, due)"
  shows "\<not> rpt_own c"
proof -
  from assms(1) have s: "sole rpt_own t (fst (rpt_live r)) (snd (rpt_live r))" and h: "rpt_handles r"
    by (simp_all add: rpt_ok_def)
  have "t' = cancel_if cancel t (fst (rpt_live r))"
    using assms(2) h by (cases "rp_state r") (auto simp: repeater_unload_def cancel_if_def rpt_handles_def rpt_live_def)
  then have "sole rpt_own t' (-1) CB_tail_expired" using sole_cancel_if[OF s] by simp
  with assms(3) show ?thesis by (auto simp: sole_def)
qed

lemma unload_ptt:
  assumes "repeater_unload cancel r t = (r', t', es)"
  shows "ptt_balance es = - of_bool (rp_software_relay r \<and> rpt_active r \<and> rp_state r \<noteq> RPT_RX_TIMEOUT)"
  using assms by (cases "rp_state r") (auto simp: repeater_unload_def rpt_active_def)

text \<open>A session state without its timer: only the carrier moves it.\<close>

lemma stuck_step:
  assumes "rpt_ok r t" "fst (rpt_live r) < 0" "rp_state r \<in> {RPT_RECEIVING, RPT_TAIL_WAIT, RPT_HANG_WAIT}"
    "\<not> rpt_wakes (rp_state r) inp" "rpt_step create cancel timer_of env (r, t) inp = (r', t', es)"
  shows "rp_state r' = rp_state r \<and> fst (rpt_live r') < 0 \<and> es = []"
proof -
  from assms(1) have s: "sole rpt_own t (fst (rpt_live r)) (snd (rpt_live r))" and h: "rpt_handles r"
    by (simp_all add: rpt_ok_def)
  have deb: "rp_debounce_timer r < 0" using h assms(3) by (auto simp: rpt_handles_def)
  show ?thesis
  proof (cases inp)
    case COR_assert
    with assms(3,4) have "rp_state r = RPT_RECEIVING" by (auto simp: rpt_wakes_def)
    with COR_assert assms(2,5) show ?thesis by (simp add: on_cor_assert_def)
  next
    case COR_drop
    with assms(3,4) have "rp_state r = RPT_TAIL_WAIT \<or> rp_state r = RPT_HANG_WAIT" by (auto simp: rpt_wakes_def)
    with COR_drop assms(2,5) deb show ?thesis by (auto simp: on_cor_drop_def)
  next
    case (Expire h)
    show ?thesis
    proof (cases "timer_of t h")
      case (Some cd)
      obtain c due where cd: "cd = (c, due)" by (metis surj_pair)
      with Some s assms(2) have "\<not> rpt_own c" by (auto simp: sole_def)
      then obtain k where "c = CB_other k" by (cases c) simp_all
      with Some cd Expire assms(2,5) show ?thesis by (auto split: if_splits)
    qed (use assms(2,5) Expire in simp)
  qed (use assms(2,3,5) in \<open>auto simp: on_link_rx_assert_def on_link_rx_drop_def on_caller_identified_def
         on_caller_cleared_def\<close>)
qed

lemma stuck_run:
  assumes "rpt_ok r t" "fst (rpt_live r) < 0" "rp_state r \<in> {RPT_RECEIVING, RPT_TAIL_WAIT, RPT_HANG_WAIT}"
    "\<forall>inp \<in> snd ` set xs. \<not> rpt_wakes (rp_state r) inp" "rpt_run create cancel timer_of (r, t) xs = (r', t', es)"
  shows "rp_state r' = rp_state r \<and> es = []"
  using assms
proof (induction xs arbitrary: r t es)
  case (Cons x xs)
  obtain env inp where x: "x = (env, inp)" by (metis surj_pair)
  obtain r1 t1 e1 where s: "rpt_step create cancel timer_of env (r, t) inp = (r1, t1, e1)" by (metis prod_cases3)
  obtain e2 where run: "rpt_run create cancel timer_of (r1, t1) xs = (r', t', e2)" "es = e1 @ e2"
    using Cons.prems(5) x s by (auto split: prod.splits)
  from Cons.prems(4) x have "\<not> rpt_wakes (rp_state r) inp" by simp
  from stuck_step[OF Cons.prems(1-3) this s] have 1: "rp_state r1 = rp_state r" "fst (rpt_live r1) < 0" "e1 = []"
    by simp_all
  from Cons.IH[OF step_ok[OF Cons.prems(1) s] 1(2) _ _ run(1)] Cons.prems(3,4) 1 run(2) show ?case by simp
qed simp

lemma rekey_no_tot:
  assumes "rpt_ok r t" "rp_state r = RPT_TAIL_WAIT" "on_cor_assert create cancel env r t = (r', t', es)"
  shows "rp_state r' = RPT_RECEIVING" "fst (rpt_live r') < 0"
proof -
  have "rp_tot_timer r < 0" using assms(1,2) by (auto simp: rpt_ok_def rpt_handles_def)
  with assms(2,3) show "rp_state r' = RPT_RECEIVING" "fst (rpt_live r') < 0"
    by (cases "0 \<le> rp_tail_timer r"; auto simp: on_cor_assert_def change_state_eq rpt_live_def)+
qed

lemma zero_tail:
  assumes "rpt_ok r t" "rp_state r = RPT_RECEIVING" "rp_tail_time_ms r \<le> 0"
    "on_cor_drop create cancel env r t = (r', t', es)"
  shows "rp_state r' = RPT_TAIL_WAIT" "fst (rpt_live r') < 0"
proof -
  have s: "sole rpt_own t (rp_tot_timer r) CB_tot_expired" and deb: "rp_debounce_timer r < 0"
    using assms(1,2) by (auto simp: rpt_ok_def rpt_handles_def rpt_live_def)
  obtain t2 tid where c: "create (env_now_us env) (cancel_if cancel t (rp_tot_timer r)) (rp_tail_time_ms r) False
      (Some CB_tail_expired) = (t2, tid)" by (metis surj_pair)
  have "srv_inv (cancel_if cancel t (rp_tot_timer r))" using sole_inv[OF sole_cancel_if[OF s, of CB_tail_expired]] by simp
  from create_law[OF this c] assms(3) have "tid = -1" by auto
  with assms(4) cor_drop_receiving[where create = create and cancel = cancel, OF assms(2) deb c]
  show "rp_state r' = RPT_TAIL_WAIT" "fst (rpt_live r') < 0" by (auto simp: rpt_live_def)
qed

lemma session_ends:
  assumes "rpt_ok r t" "rp_state r = RPT_RECEIVING" "0 \<le> rp_tot_timer r" "0 < rp_tail_time_ms r" "0 < rp_hang_time_ms r"
    "env_now_us e1 + nat (rp_tail_time_ms r) * 1000 \<le> env_now_us e2"
    "env_now_us e2 + nat (rp_hang_time_ms r) * 1000 \<le> env_now_us e3"
  shows "\<exists>h1 h2 r' t'. rpt_run create cancel timer_of (r, t) [(e1, COR_drop), (e2, Expire h1), (e3, Expire h2)] =
      (r', t', [Ev_state_change RPT_RECEIVING RPT_TAIL_WAIT, Ev_tail_start,
                Ev_tail_expire, Ev_state_change RPT_TAIL_WAIT RPT_HANG_WAIT] @
               (if rp_software_relay r then [Rpt_release_ptt] else []) @ [Ev_state_change RPT_HANG_WAIT RPT_IDLE]) \<and>
      rp_state r' = RPT_IDLE"
proof -
  have s: "sole rpt_own t (rp_tot_timer r) CB_tot_expired" and deb: "rp_debounce_timer r < 0"
    using assms(1,2) by (auto simp: rpt_ok_def rpt_handles_def rpt_live_def)
  have cn: "cancel_if cancel t (rp_tot_timer r) = cancel t (rp_tot_timer r)" using assms(3) by (simp add: cancel_if_def)
  obtain t2 h1 where c: "create (env_now_us e1) (cancel_if cancel t (rp_tot_timer r)) (rp_tail_time_ms r) False
      (Some CB_tail_expired) = (t2, h1)" by (metis surj_pair)
  have "timer_of t (rp_tot_timer r) \<noteq> None" using s assms(3) by (auto simp: sole_def)
  from slot_law[OF sole_inv[OF s] this assms(4)] c cn have h1: "0 < h1" by auto
  define r1 where "r1 = r\<lparr>rp_tot_timer := -1, rp_state := RPT_TAIL_WAIT, rp_tail_timer := h1\<rparr>"
  have 1: "on_cor_drop create cancel e1 r t =
      (r1, t2, [Ev_state_change RPT_RECEIVING RPT_TAIL_WAIT, Ev_tail_start])"
    using cor_drop_receiving[where create = create and cancel = cancel, OF assms(2) deb c] assms(3) by (simp add: r1_def)
  have s2: "srv_inv t2" "timer_of t2 h1 = Some (CB_tail_expired, env_now_us e1 + nat (rp_tail_time_ms r) * 1000)"
    using create_law[OF sole_inv[OF sole_cancel_if[OF s, of CB_tail_expired]] c] h1 by auto
  obtain t3 h2 where c2: "create (env_now_us e2) (cancel t2 h1) (rp_hang_time_ms r) False (Some CB_tail_expired) = (t3, h2)"
    by (metis surj_pair)
  from slot_law[OF s2(1) _ assms(5) c2] s2(2) have h2: "0 < h2" by simp
  define r2 where "r2 = r1\<lparr>rp_tail_timer := -1, rp_state := RPT_HANG_WAIT, rp_hang_timer := h2\<rparr>"
  have 2: "rpt_step create cancel timer_of e2 (r1, t2) (Expire h1) =
      (r2, t3, [Ev_tail_expire, Ev_state_change RPT_TAIL_WAIT RPT_HANG_WAIT])"
    using s2(2) assms(6) c2 by (simp add: tail_expired_def change_state_eq r1_def r2_def)
  have s3: "timer_of t3 h2 = Some (CB_tail_expired, env_now_us e2 + nat (rp_hang_time_ms r) * 1000)"
    using create_law[OF _ c2] cancel_law[OF s2(1), of h1] h2 by auto
  define r3 where "r3 = r2\<lparr>rp_tail_timer := -1, rp_hang_timer := -1, rp_state := RPT_IDLE\<rparr>"
  have 3: "rpt_step create cancel timer_of e3 (r2, t3) (Expire h2) =
      (r3, cancel t3 h2, (if rp_software_relay r then [Rpt_release_ptt] else []) @ [Ev_state_change RPT_HANG_WAIT RPT_IDLE])"
    using s3 assms(7) by (simp add: tail_expired_def change_state_eq r1_def r2_def r3_def)
  show ?thesis
    by (rule exI[of _ h1], rule exI[of _ h2], rule exI[of _ r3], rule exI[of _ "cancel t3 h2"])
       (simp add: 1 2 3 r3_def del: rpt_step.simps(7))
qed

end

interpretation rt: repeater_timers timer_inv timer_create timer_cancel armed
  by unfold_locales

end
