(* ===== verification/Repeater_Props.thy ===== *)
theory Repeater_Props
  imports Repeater_Lemmas
begin

text \<open>
  The properties of the repeater state machine on the timer table of the program.
\<close>

text \<open>A module just loaded and configured, on a timer table that holds timers of other modules only.\<close>

definition repeater_fresh :: "repeater \<Rightarrow> rpt_cb timers \<Rightarrow> bool" where
  "repeater_fresh r t \<longleftrightarrow> timer_inv t \<and> rp_state r = RPT_IDLE \<and>
     rp_tail_timer r = -1 \<and> rp_hang_timer r = -1 \<and> rp_tot_timer r = -1 \<and> rp_debounce_timer r = -1 \<and>
     (\<forall>h c due. armed t h = Some (c, due) \<longrightarrow> \<not> rpt_own c)"

abbreviation repeater_reach where
  "repeater_reach \<equiv> rpt_reach timer_create timer_cancel armed"

abbreviation repeater_run where
  "repeater_run \<equiv> rpt_run timer_create timer_cancel armed"

lemma repeater_ok:
  assumes "repeater_reach r0 t0 r t es" "repeater_fresh r0 t0"
  shows "rt.rpt_ok r t \<and> rp_software_relay r = rp_software_relay r0 \<and> rpt_closed r \<and>
         ptt_balance es = of_bool (rp_software_relay r \<and> rpt_active r)"
  by (rule rt.reach_ok[OF assms(1)]) (use assms(2) in \<open>simp add: rt.rpt_fresh_def repeater_fresh_def\<close>)

text \<open>A concrete run: a module with the software relay and no debounce, and its first carrier.\<close>

definition demo_env :: rpt_env where
  "demo_env = \<lparr>env_now_us = 0, env_emergency = False, env_has_tts = False\<rparr>"

definition demo_boot :: "int \<Rightarrow> repeater" where
  "demo_boot tail = repeater_load (repeater_configure tail 500 180000 0 None (Some ''on'') rpt_boot)"

abbreviation demo_table :: "rpt_cb timers" where
  "demo_table \<equiv> timer_init (CB_other 0)"

definition demo_rx :: "int \<Rightarrow> repeater" where
  "demo_rx tail = (demo_boot tail)\<lparr>rp_state := RPT_RECEIVING, rp_tot_timer := 1\<rparr>"

definition demo_rx_table :: "rpt_cb timers" where
  "demo_rx_table = fst (timer_create 0 demo_table 180000 False (Some CB_tot_expired))"

lemma demo_table_empty: "armed (timer_init (cb :: rpt_cb)) h = None"
  by (rule armed_init)

lemma demo_fresh:
  "repeater_fresh (demo_boot tail) demo_table"
  "repeater_fresh ((demo_boot tail)\<lparr>rp_require_id := True\<rparr>) demo_table"
  by (simp_all add: repeater_fresh_def demo_boot_def repeater_load_def repeater_configure_def rpt_boot_def
    timer_inv_init demo_table_empty)

lemma demo_receiving:
  "repeater_reach (demo_boot tail) demo_table (demo_rx tail) demo_rx_table
     [Rpt_request_ptt, Ev_state_change RPT_IDLE RPT_RECEIVING]"
proof -
  have "rpt_step timer_create timer_cancel armed demo_env (demo_boot tail, demo_table) COR_assert =
      (demo_rx tail, demo_rx_table, [Rpt_request_ptt, Ev_state_change RPT_IDLE RPT_RECEIVING])"
    by (simp add: on_cor_assert_def start_receiving_def change_state_eq demo_boot_def repeater_load_def
      repeater_configure_def rpt_boot_def demo_env_def demo_rx_def demo_rx_table_def first_timer_ms)
  from rpt_reach.step[OF rpt_reach.start this] show ?thesis by simp
qed

lemma demo_rx_simps [simp]:
  "rp_state (demo_rx tail) = RPT_RECEIVING" "rp_tot_timer (demo_rx tail) = 1"
  "rp_hang_time_ms (demo_rx tail) = 500" "rp_software_relay (demo_rx tail)" "rp_debounce_timer (demo_rx tail) = -1"
  "rp_tail_time_ms (demo_rx 0) = 0" "rp_tail_time_ms (demo_rx 2000) = 2000" "rp_software_relay (demo_boot tail)"
  by (simp_all add: demo_rx_def demo_boot_def repeater_load_def repeater_configure_def rpt_boot_def)

text \<open>
  The repeater holds at most one timer, the one its state names: in every reachable state the
  tail timer is set only while waiting for the tail, the hang timer only while hanging, the
  time-out timer only while receiving and the debounce timer only while idle (or bridging); a
  handle that is set is armed in the table with its callback; and no other timer of the module is
  left in the table.
\<close>

theorem rpt_one_timer:
  assumes "repeater_reach r0 t0 r t es" "repeater_fresh r0 t0"
  shows "rpt_handles r \<and>
         (0 \<le> fst (rpt_live r) \<longrightarrow> (\<exists>due. armed t (fst (rpt_live r)) = Some (snd (rpt_live r), due))) \<and>
         (\<forall>h c due. armed t h = Some (c, due) \<longrightarrow> rpt_own c \<longrightarrow> (h, c) = rpt_live r)"
proof -
  from repeater_ok[OF assms] have s: "ts.sole rpt_own t (fst (rpt_live r)) (snd (rpt_live r))"
    and h: "rpt_handles r" by (simp_all add: rt.rpt_ok_def)
  have "(h, c) = rpt_live r" if "armed t h = Some (c, due)" "rpt_own c" for h c due
    using ts.sole_fires(1,2)[OF s that] by simp
  moreover have "0 \<le> fst (rpt_live r) \<longrightarrow> (\<exists>due. armed t (fst (rpt_live r)) = Some (snd (rpt_live r), due))"
    using s by (simp add: ts.sole_def)
  ultimately show ?thesis using h by blast
qed

theorem rpt_one_timer_witness:
  "\<exists>due. armed demo_rx_table 1 = Some (CB_tot_expired, due)"
  using rpt_one_timer[OF demo_receiving demo_fresh(1), of 2000] by (simp add: rpt_live_def)

text \<open>
  C4. With the software relay on, the repeater holds exactly one PTT reference from the start of a
  session to its end (receiving, tail, hang or timed out) and none when idle or bridging; with
  it off, it never holds one: requests less releases, after any sequence of events, timer
  expiries and timers of other modules.
\<close>

theorem rpt_ptt_matches_state:
  assumes "repeater_reach r0 t0 r t es" "repeater_fresh r0 t0"
  shows "ptt_balance es = of_bool (rp_software_relay r0 \<and>
           rp_state r \<in> {RPT_RECEIVING, RPT_TAIL_WAIT, RPT_HANG_WAIT, RPT_RX_TIMEOUT})"
  using repeater_ok[OF assms] by (simp add: rpt_active_def)

theorem rpt_ptt_matches_state_witness:
  "ptt_balance [Rpt_request_ptt, Ev_state_change RPT_IDLE RPT_RECEIVING] = 1"
  using rpt_ptt_matches_state[OF demo_receiving demo_fresh(1), of 2000] by simp

text \<open>
  The inputs of the module up to a state of the machine, with the timers of the other modules
  coming and going in between.
\<close>

inductive repeater_history :: "repeater \<Rightarrow> rpt_cb timers \<Rightarrow> repeater \<Rightarrow> rpt_cb timers \<Rightarrow> rpt_in list \<Rightarrow> bool"
  for r0 t0 where
  hist_start: "repeater_history r0 t0 r0 t0 []"
| hist_step: "repeater_history r0 t0 r t ins \<Longrightarrow>
     rpt_step timer_create timer_cancel armed env (r, t) inp = (r', t', es) \<Longrightarrow>
     repeater_history r0 t0 r' t' (ins @ [inp])"
| hist_create: "repeater_history r0 t0 r t ins \<Longrightarrow>
     timer_create now t ms rep (Some (CB_other k)) = (t', tid) \<Longrightarrow> repeater_history r0 t0 r t' ins"
| hist_cancel: "repeater_history r0 t0 r t ins \<Longrightarrow>
     armed t h = Some (CB_other k, due) \<Longrightarrow> repeater_history r0 t0 r (timer_cancel t h) ins"

lemma history_reach:
  "repeater_history r0 t0 r t ins \<Longrightarrow> \<exists>es. repeater_reach r0 t0 r t es"
proof (induction rule: repeater_history.induct)
  case hist_start
  show ?case by (rule exI) (rule rpt_reach.start)
next
  case (hist_step r t ins env inp r' t' es)
  then show ?case by (meson rpt_reach.step)
next
  case (hist_create r t ins now ms rep k t' tid)
  then show ?case by (meson rpt_reach.other_create)
next
  case (hist_cancel r t ins h k due)
  then show ?case by (meson rpt_reach.other_cancel)
qed

text \<open>
  A carrier is up at the end of a history: it was asserted and has not dropped since. When a
  caller is known, the identification came while it was up.
\<close>

definition carrier_of :: "bool \<Rightarrow> rpt_in list \<Rightarrow> bool" where
  "carrier_of known ins \<longleftrightarrow>
     (\<exists>pre mid. ins = pre @ COR_assert # mid \<and> COR_drop \<notin> set mid \<and> (known \<longrightarrow> Caller_id \<in> set mid))"

lemma carrier_up: "carrier_of False (ins @ [COR_assert])"
  unfolding carrier_of_def by (intro exI[of _ ins] exI[of _ "[]"]) simp

lemma carrier_stays:
  assumes "carrier_of known ins" "inp \<noteq> COR_drop" "known' \<longrightarrow> known \<or> inp = Caller_id"
  shows "carrier_of known' (ins @ [inp])"
proof -
  from assms(1) obtain pre mid where "ins = pre @ COR_assert # mid" "COR_drop \<notin> set mid"
    "known \<longrightarrow> Caller_id \<in> set mid" by (auto simp: carrier_of_def)
  then have "ins @ [inp] = pre @ COR_assert # (mid @ [inp]) \<and> COR_drop \<notin> set (mid @ [inp]) \<and>
      (known' \<longrightarrow> Caller_id \<in> set (mid @ [inp]))" using assms(2,3) by auto
  then show ?thesis unfolding carrier_of_def by blast
qed

text \<open>What a timer or an event of another module does to the debounce and to the caller's flag.\<close>

lemma callback_debounce:
  assumes "run_callback create env c r t = (r', t', es)"
  shows "rp_debounce_timer r' \<in> {-1, rp_debounce_timer r} \<and> rp_caller_identified r' = rp_caller_identified r"
  using assms
  by (cases c) (auto simp: tail_expired_def tot_expired_def debounce_expired_def start_receiving_def change_state_eq
    Let_def split: if_splits prod.splits)

lemma step_debounce:
  assumes "rpt_step create cancel timer_of env (r, t) inp = (r', t', es)" "inp \<noteq> COR_assert" "inp \<noteq> COR_drop"
  shows "rp_debounce_timer r' \<in> {-1, rp_debounce_timer r} \<and>
         (rp_caller_identified r' \<longrightarrow> rp_caller_identified r \<or> inp = Caller_id)"
proof (cases inp)
  case (Expire h)
  with assms(1) callback_debounce[where create = create] show ?thesis
    by (auto split: option.splits prod.splits if_splits)
qed (use assms in \<open>auto simp: on_link_rx_assert_def on_link_rx_drop_def on_caller_identified_def
       on_caller_cleared_def change_state_eq split: if_splits\<close>)

lemma drop_debounce:
  assumes "on_cor_drop create cancel env r t = (r', t', es)"
  shows "rp_debounce_timer r' < 0"
  using assms by (cases "rp_state r") (auto simp: on_cor_drop_def change_state_eq Let_def split: if_splits prod.splits)

lemma assert_debounce:
  assumes "on_cor_assert create cancel env r t = (r', t', es)" "rp_require_id r"
  shows "(rp_state r = RPT_IDLE \<and> \<not> rp_caller_identified r') \<or>
         (rp_debounce_timer r' = rp_debounce_timer r \<and> rp_caller_identified r' = rp_caller_identified r)"
  using assms by (cases "rp_state r") (auto simp: on_cor_assert_def change_state_eq Let_def split: if_splits prod.splits)

lemma history_debounce:
  assumes "repeater_history r0 t0 r t ins" "repeater_fresh r0 t0" "rp_require_id r0"
  shows "rp_require_id r \<and> (0 \<le> rp_debounce_timer r \<longrightarrow> carrier_of (rp_caller_identified r) ins)"
  using assms
proof (induction rule: repeater_history.induct)
  case hist_start
  then show ?case by (simp add: repeater_fresh_def)
next
  case (hist_step r t ins env inp r' t' es)
  then have req: "rp_require_id r" and up: "0 \<le> rp_debounce_timer r \<longrightarrow> carrier_of (rp_caller_identified r) ins"
    by simp_all
  obtain fs where "repeater_reach r0 t0 r t fs" using history_reach[OF hist_step.hyps(1)] by blast
  then have "rt.rpt_ok r t" using repeater_ok hist_step.prems(1) by blast
  from rt.step_session[OF this hist_step.hyps(2)] req have "rp_require_id r'" by (simp add: session_step_def)
  moreover have "carrier_of (rp_caller_identified r') (ins @ [inp])" if pos: "0 \<le> rp_debounce_timer r'"
  proof (cases "inp = COR_assert")
    case True
    have "on_cor_assert timer_create timer_cancel env r t = (r', t', es)" using hist_step.hyps(2) True by simp
    from assert_debounce[OF this req]
    have "\<not> rp_caller_identified r' \<or>
        rp_debounce_timer r' = rp_debounce_timer r \<and> rp_caller_identified r' = rp_caller_identified r" by auto
    then show ?thesis using True carrier_up carrier_stays[of _ ins inp] up pos by auto
  next
    case False
    have nd: "inp \<noteq> COR_drop" using hist_step.hyps(2) drop_debounce pos by (metis not_le rpt_step.simps(2))
    from step_debounce[OF hist_step.hyps(2) False nd] pos up carrier_stays[OF _ nd] show ?thesis by auto
  qed
  ultimately show ?case by simp
qed simp_all

text \<open>A session of a closed repeater starts at the expiry of the debounce, and nowhere else.\<close>

lemma closed_start:
  assumes "rt.rpt_ok r t" "rpt_step timer_create timer_cancel armed env (r, t) inp = (r', t', es)"
    and "rp_require_id r" "\<not> rpt_active r" "rpt_active r'"
  shows "\<exists>h. inp = Expire h \<and> h = rp_debounce_timer r \<and> 0 \<le> h \<and> rp_caller_identified r"
proof (cases inp)
  case COR_assert
  with assms(2-5) show ?thesis
    by (cases "rp_state r") (auto simp: on_cor_assert_def rpt_active_def Let_def split: prod.splits)
next
  case COR_drop
  with assms(2-5) show ?thesis
    by (cases "rp_state r") (auto simp: on_cor_drop_def rpt_active_def Let_def change_state_eq split: if_splits prod.splits)
next
  case (Expire h)
  with assms(2,4,5) obtain c due where a: "armed t h = Some (c, due)" "run_callback timer_create env c r (timer_cancel t h) = (r', t', es)"
    by (auto split: option.splits prod.splits if_splits)
  from assms(1) have s: "ts.sole rpt_own t (fst (rpt_live r)) (snd (rpt_live r))" by (simp add: rt.rpt_ok_def)
  have own: "rpt_own c" using a(2) assms(4,5) by (cases c) auto
  from ts.sole_fires(1-3)[OF s a(1) own] assms(4)
  have live: "h = rp_debounce_timer r" "c = CB_debounce_expired" "0 \<le> h"
    by (auto simp: rpt_live_def rpt_active_def split: rpt_state.splits)
  have "rp_caller_identified r"
    using a(2) live(2) assms(3-5) by (auto simp: debounce_expired_def rpt_active_def Let_def split: if_splits)
  with live Expire show ?thesis by simp
qed (use assms(2,4,5) in \<open>auto simp: on_link_rx_assert_def on_link_rx_drop_def on_caller_identified_def
       on_caller_cleared_def rpt_active_def change_state_eq split: if_splits\<close>)

text \<open>
  C13. A closed repeater opens only for a caller who has been identified during the carrier at
  hand: with identification required, after any sequence of inputs, a session starts at the
  expiry of the debounce timer and at nothing else, and then the last of the inputs are an assert
  of the carrier with an identification after it and no drop of the carrier in between.
  Identifications of earlier carriers count for nothing.
\<close>

theorem rpt_closed_needs_id:
  assumes "repeater_history r0 t0 r t ins" "repeater_fresh r0 t0" "rp_require_id r0"
    and "rpt_step timer_create timer_cancel armed env (r, t) inp = (r', t', es)"
    and "rp_state r \<in> {RPT_IDLE, RPT_BRIDGING}"
    and "rp_state r' \<in> {RPT_RECEIVING, RPT_TAIL_WAIT, RPT_HANG_WAIT, RPT_RX_TIMEOUT}"
  shows "inp = Expire (rp_debounce_timer r) \<and>
         (\<exists>pre mid. ins = pre @ COR_assert # mid \<and> COR_drop \<notin> set mid \<and> Caller_id \<in> set mid)"
proof -
  obtain fs where "repeater_reach r0 t0 r t fs" using history_reach[OF assms(1)] by blast
  then have ok: "rt.rpt_ok r t" using repeater_ok assms(2) by blast
  from history_debounce[OF assms(1-3)] have req: "rp_require_id r"
    and up: "0 \<le> rp_debounce_timer r \<longrightarrow> carrier_of (rp_caller_identified r) ins" by simp_all
  have "\<not> rpt_active r" "rpt_active r'" using assms(5,6) by (auto simp: rpt_active_def)
  from closed_start[OF ok assms(4) req this] up show ?thesis by (auto simp: carrier_of_def)
qed

text \<open>A closed repeater, an identified caller, and the debounce's expiry.\<close>

definition demo_closed :: repeater where
  "demo_closed = (demo_boot 2000)\<lparr>rp_require_id := True\<rparr>"

theorem rpt_closed_needs_id_witness:
  "\<exists>r t r' t' es. rpt_step timer_create timer_cancel armed
       \<lparr>env_now_us = 500000, env_emergency = True, env_has_tts = False\<rparr> (r, t) (Expire 1) = (r', t', es) \<and>
     rp_state r = RPT_IDLE \<and> rp_state r' = RPT_RECEIVING \<and>
     (\<exists>pre mid. [COR_assert, Caller_id] = pre @ COR_assert # mid \<and> COR_drop \<notin> set mid \<and> Caller_id \<in> set mid)"
proof -
  let ?step = "rpt_step timer_create timer_cancel armed"
  let ?e = "\<lparr>env_now_us = 500000, env_emergency = True, env_has_tts = False\<rparr>"
  define t1 where "t1 = fst (timer_create 0 demo_table 500 False (Some CB_debounce_expired))"
  define r1 where "r1 = demo_closed\<lparr>rp_debounce_timer := 1\<rparr>"
  have c: "timer_create 0 demo_table 500 False (Some CB_debounce_expired) = (t1, 1)"
    unfolding t1_def by (simp add: first_timer_ms)
  have a: "armed t1 1 = Some (CB_debounce_expired, 500000)"
    using timer_create_armed[OF timer_inv_init c] by auto
  have 1: "?step demo_env (demo_closed, demo_table) COR_assert = (r1, t1, [])"
    using c by (simp add: on_cor_assert_def cancel_if_def demo_closed_def demo_boot_def repeater_load_def
      repeater_configure_def rpt_boot_def demo_env_def r1_def)
  have 2: "?step demo_env (r1, t1) Caller_id = (r1\<lparr>rp_caller_identified := True\<rparr>, t1, [])"
    by (simp add: on_caller_identified_def)
  obtain r es where 3: "?step ?e (r1\<lparr>rp_caller_identified := True\<rparr>, t1) (Expire 1) = (r, timer_cancel t1 1, es)"
      "rp_state r = RPT_RECEIVING"
    using a by (simp add: debounce_expired_def start_receiving_def change_state_eq r1_def demo_closed_def demo_boot_def
      repeater_load_def repeater_configure_def rpt_boot_def)
  have hist: "repeater_history demo_closed demo_table (r1\<lparr>rp_caller_identified := True\<rparr>) t1 (([] @ [COR_assert]) @ [Caller_id])"
    by (rule hist_step[OF hist_step[OF hist_start 1] 2])
  have idle: "rp_state (r1\<lparr>rp_caller_identified := True\<rparr>) = RPT_IDLE"
    by (simp add: r1_def demo_closed_def demo_boot_def repeater_load_def)
  have "repeater_fresh demo_closed demo_table" "rp_require_id demo_closed"
    unfolding demo_closed_def by (rule demo_fresh(2)) simp
  from rpt_closed_needs_id[OF hist this 3(1)] 3(2) idle
  have "\<exists>pre mid. [COR_assert, Caller_id] = pre @ COR_assert # mid \<and> COR_drop \<notin> set mid \<and> Caller_id \<in> set mid"
    by simp
  with 3 idle show ?thesis by blast
qed

text \<open>
  C5. A session ends: from receiving with the time-out timer running, and with positive tail and
  hang times, when the carrier drops the tail and hang timers are created (the table cannot
  be full) and their expiries take the module back to idle, with the events in this order
  and the PTT reference released once.
\<close>

theorem rpt_session_ends:
  assumes "repeater_reach r0 t0 r t es" "repeater_fresh r0 t0"
    and "rp_state r = RPT_RECEIVING" "0 \<le> rp_tot_timer r" "0 < rp_tail_time_ms r" "0 < rp_hang_time_ms r"
    and "env_now_us e1 + nat (rp_tail_time_ms r) * 1000 \<le> env_now_us e2"
    and "env_now_us e2 + nat (rp_hang_time_ms r) * 1000 \<le> env_now_us e3"
  shows "\<exists>h1 h2 r' t'. repeater_run (r, t) [(e1, COR_drop), (e2, Expire h1), (e3, Expire h2)] =
      (r', t', [Ev_state_change RPT_RECEIVING RPT_TAIL_WAIT, Ev_tail_start,
                Ev_tail_expire, Ev_state_change RPT_TAIL_WAIT RPT_HANG_WAIT] @
               (if rp_software_relay r then [Rpt_release_ptt] else []) @ [Ev_state_change RPT_HANG_WAIT RPT_IDLE]) \<and>
      rp_state r' = RPT_IDLE"
  using rt.session_ends[OF _ assms(3-8)] repeater_ok[OF assms(1,2)] by blast

theorem rpt_session_ends_witness:
  "\<exists>h1 h2 r' t'. repeater_run (demo_rx 2000, demo_rx_table)
      [(demo_env, COR_drop), (demo_env\<lparr>env_now_us := 2000000\<rparr>, Expire h1),
       (demo_env\<lparr>env_now_us := 2500000\<rparr>, Expire h2)] =
      (r', t', [Ev_state_change RPT_RECEIVING RPT_TAIL_WAIT, Ev_tail_start,
                Ev_tail_expire, Ev_state_change RPT_TAIL_WAIT RPT_HANG_WAIT,
                Rpt_release_ptt, Ev_state_change RPT_HANG_WAIT RPT_IDLE]) \<and> rp_state r' = RPT_IDLE"
  using rpt_session_ends[OF demo_receiving demo_fresh(1), of 2000 demo_env "demo_env\<lparr>env_now_us := 2000000\<rparr>"
    "demo_env\<lparr>env_now_us := 2500000\<rparr>"] by (simp add: demo_env_def)

text \<open>
  After a rekey from the tail no time-out timer is running: the module is receiving, and it
  stays so through any inputs until the carrier drops, however much time passes.
\<close>

theorem rpt_rekey_without_timeout:
  assumes "repeater_reach r0 t0 r t es" "repeater_fresh r0 t0" "rp_state r = RPT_TAIL_WAIT"
    and "COR_drop \<notin> snd ` set xs" "repeater_run (r, t) ((env, COR_assert) # xs) = (r', t', es')"
  shows "rp_state r' = RPT_RECEIVING"
proof -
  from repeater_ok[OF assms(1,2)] have ok: "rt.rpt_ok r t" by simp
  obtain r1 t1 e1 where a: "on_cor_assert timer_create timer_cancel env r t = (r1, t1, e1)" by (metis prod_cases3)
  obtain e2 where run: "repeater_run (r1, t1) xs = (r', t', e2)" using assms(5) a by (auto split: prod.splits)
  note k = rt.rekey_no_tot[OF ok assms(3) a]
  have "\<forall>inp \<in> snd ` set xs. \<not> rpt_wakes (rp_state r1) inp" using k(1) assms(4) by (force simp: rpt_wakes_def)
  with rt.stuck_run[OF rt.cor_assert_ok[OF ok a] k(2) _ _ run] k(1) show ?thesis by simp
qed

lemma demo_tail:
  obtains t es where "repeater_reach (demo_boot 0) demo_table
    ((demo_rx 0)\<lparr>rp_tot_timer := -1, rp_state := RPT_TAIL_WAIT, rp_tail_timer := -1\<rparr>) t es"
proof -
  have c: "timer_create (env_now_us demo_env) (cancel_if timer_cancel demo_rx_table (rp_tot_timer (demo_rx 0)))
      (rp_tail_time_ms (demo_rx 0)) False (Some CB_tail_expired) = (timer_cancel demo_rx_table 1, -1)"
    by (simp add: timer_create_def cancel_if_def)
  from cor_drop_receiving[where create = timer_create and cancel = timer_cancel, OF _ _ c]
  have "rpt_step timer_create timer_cancel armed demo_env (demo_rx 0, demo_rx_table) COR_drop =
     ((demo_rx 0)\<lparr>rp_tot_timer := -1, rp_state := RPT_TAIL_WAIT, rp_tail_timer := -1\<rparr>, timer_cancel demo_rx_table 1,
      [Ev_state_change RPT_RECEIVING RPT_TAIL_WAIT, Ev_tail_start])" by simp
  from rpt_reach.step[OF demo_receiving this] show thesis by (rule that)
qed

theorem rpt_rekey_without_timeout_witness:
  "\<exists>r t. rp_state r = RPT_TAIL_WAIT \<and>
     rp_state (fst (repeater_run (r, t) [(demo_env, COR_assert), (demo_env, Link_assert)])) = RPT_RECEIVING"
proof -
  obtain t es where reach: "repeater_reach (demo_boot 0) demo_table
    ((demo_rx 0)\<lparr>rp_tot_timer := -1, rp_state := RPT_TAIL_WAIT, rp_tail_timer := -1\<rparr>) t es" by (rule demo_tail)
  let ?r = "(demo_rx 0)\<lparr>rp_tot_timer := -1, rp_state := RPT_TAIL_WAIT, rp_tail_timer := -1\<rparr>"
  obtain r' t' es' where run: "repeater_run (?r, t) ((demo_env, COR_assert) # [(demo_env, Link_assert)]) = (r', t', es')"
    by (metis prod_cases3)
  have "rp_state r' = RPT_RECEIVING"
    by (rule rpt_rekey_without_timeout[OF reach demo_fresh(1) _ _ run]) simp_all
  with run have "rp_state ?r = RPT_TAIL_WAIT \<and>
     rp_state (fst (repeater_run (?r, t) [(demo_env, COR_assert), (demo_env, Link_assert)])) = RPT_RECEIVING"
    by (simp del: rpt_run.simps)
  then show ?thesis by blast
qed

text \<open>
  A tail time of zero, which the configuration admits, leaves the session in its tail: the
  timer cannot be created, and the module keeps its state through any inputs until the
  next carrier, without releasing the PTT.
\<close>

theorem rpt_zero_tail_stays:
  assumes "repeater_reach r0 t0 r t es" "repeater_fresh r0 t0" "rp_state r = RPT_RECEIVING" "rp_tail_time_ms r = 0"
    and "COR_assert \<notin> snd ` set xs" "repeater_run (r, t) ((env, COR_drop) # xs) = (r', t', es')"
  shows "rp_state r' = RPT_TAIL_WAIT \<and> Rpt_release_ptt \<notin> set es'"
proof -
  from repeater_ok[OF assms(1,2)] have ok: "rt.rpt_ok r t" by simp
  then have deb: "rp_debounce_timer r < 0" using assms(3) by (auto simp: rt.rpt_ok_def rpt_handles_def)
  obtain r1 t1 e1 where a: "on_cor_drop timer_create timer_cancel env r t = (r1, t1, e1)" by (metis prod_cases3)
  obtain e2 where run: "repeater_run (r1, t1) xs = (r', t', e2)" "es' = e1 @ e2"
    using assms(6) a by (auto split: prod.splits)
  have "rp_tail_time_ms r \<le> 0" using assms(4) by simp
  note k = rt.zero_tail[OF ok assms(3) this a]
  have "\<forall>inp \<in> snd ` set xs. \<not> rpt_wakes (rp_state r1) inp" using k(1) assms(5) by (force simp: rpt_wakes_def)
  with rt.stuck_run[OF rt.cor_drop_ok[OF ok a] k(2) _ _ run(1)] k(1) have "rp_state r' = RPT_TAIL_WAIT" "e2 = []"
    by simp_all
  moreover obtain t2 tid where "timer_create (env_now_us env) (cancel_if timer_cancel t (rp_tot_timer r)) (rp_tail_time_ms r)
      False (Some CB_tail_expired) = (t2, tid)" by (metis surj_pair)
  from cor_drop_receiving[where create = timer_create and cancel = timer_cancel, OF assms(3) deb this] a
  have "Rpt_release_ptt \<notin> set e1" by auto
  ultimately show ?thesis using run(2) by simp
qed

theorem rpt_zero_tail_stays_witness:
  "rp_state (fst (repeater_run (demo_rx 0, demo_rx_table) [(demo_env, COR_drop), (demo_env, Link_drop)])) = RPT_TAIL_WAIT"
proof -
  obtain r' t' es' where run: "repeater_run (demo_rx 0, demo_rx_table) ((demo_env, COR_drop) # [(demo_env, Link_drop)]) = (r', t', es')"
    by (metis prod_cases3)
  have "rp_state r' = RPT_TAIL_WAIT \<and> Rpt_release_ptt \<notin> set es'"
    by (rule rpt_zero_tail_stays[OF demo_receiving demo_fresh(1) _ _ _ run]) simp_all
  with run show ?thesis by (simp del: rpt_run.simps)
qed

text \<open>
  Unloading leaves no timer of the module in the table, and gives back the PTT reference of
  every session state except one: unloaded while timed out, the module keeps it.
\<close>

theorem rpt_unload_releases:
  assumes "repeater_reach r0 t0 r t es" "repeater_fresh r0 t0" "repeater_unload timer_cancel r t = (r', t', es')"
  shows "(\<forall>h c due. armed t' h = Some (c, due) \<longrightarrow> \<not> rpt_own c) \<and>
         ptt_balance (es @ es') = of_bool (rp_software_relay r \<and> rp_state r = RPT_RX_TIMEOUT)"
proof -
  from repeater_ok[OF assms(1,2)] have ok: "rt.rpt_ok r t"
    and b: "ptt_balance es = of_bool (rp_software_relay r \<and> rpt_active r)" by simp_all
  have "\<not> rpt_own c" if "armed t' h = Some (c, due)" for h c due by (rule rt.unload_timers[OF ok assms(3) that])
  moreover have "ptt_balance (es @ es') = of_bool (rp_software_relay r \<and> rp_state r = RPT_RX_TIMEOUT)"
    unfolding ptt_balance_simps b rt.unload_ptt[OF assms(3)] by (auto simp: rpt_active_def)
  ultimately show ?thesis by blast
qed


theorem rpt_unload_releases_witness:
  "ptt_balance ([Rpt_request_ptt, Ev_state_change RPT_IDLE RPT_RECEIVING] @
     snd (snd (repeater_unload timer_cancel (demo_rx 2000) demo_rx_table))) = 0"
proof -
  obtain r' t' es' where u: "repeater_unload timer_cancel (demo_rx 2000) demo_rx_table = (r', t', es')"
    by (metis prod_cases3)
  from rpt_unload_releases[OF demo_receiving demo_fresh(1) u]
  have "ptt_balance ([Rpt_request_ptt, Ev_state_change RPT_IDLE RPT_RECEIVING] @ es') = 0" by simp
  then show ?thesis by (simp only: u snd_conv)
qed

end
