(* ===== verification/C_Strings.thy ===== *)
theory C_Strings
  imports Prelude
begin

text \<open>
  The functions of the C library on strings and numbers that the configuration, the user table
  and the modules use: character classes, trimming, \<open>strchr\<close>, \<open>atoi\<close>, the decimal output of
  \<open>printf\<close>, and the wrap-around of a 32-bit \<open>int\<close>. A string is a list of characters without
  the terminating NUL.
\<close>

definition ascii :: "char \<Rightarrow> nat" where
  "ascii c = of_char c"

definition is_space :: "char \<Rightarrow> bool" where
  "is_space c \<longleftrightarrow> ascii c = 32 \<or> (9 \<le> ascii c \<and> ascii c \<le> 13)"

definition is_digit :: "char \<Rightarrow> bool" where
  "is_digit c \<longleftrightarrow> 48 \<le> ascii c \<and> ascii c \<le> 57"

definition digit_val :: "char \<Rightarrow> int" where
  "digit_val c = int (ascii c) - 48"

definition to_lower :: "char \<Rightarrow> char" where
  "to_lower c = (if 65 \<le> ascii c \<and> ascii c \<le> 90 then char_of (ascii c + 32) else c)"

definition to_upper :: "char \<Rightarrow> char" where
  "to_upper c = (if 97 \<le> ascii c \<and> ascii c \<le> 122 then char_of (ascii c - 32) else c)"

text \<open>\<open>strcasecmp(a, b) == 0\<close>\<close>

definition strcase_eq :: "string \<Rightarrow> string \<Rightarrow> bool" where
  "strcase_eq a b \<longleftrightarrow> map to_lower a = map to_lower b"

text \<open>The bytes up to the first NUL.\<close>

definition c_str :: "string \<Rightarrow> string" where
  "c_str s = takeWhile (\<lambda>c. ascii c \<noteq> 0) s"

definition rtrim :: "string \<Rightarrow> string" where
  "rtrim s = rev (dropWhile is_space (rev s))"

text \<open>\<open>strchr\<close>: what is before the first occurrence, and what is after it.\<close>

definition cut_at :: "(char \<Rightarrow> bool) \<Rightarrow> string \<Rightarrow> (string \<times> string) option" where
  "cut_at P s = (if \<exists>c \<in> set s. P c then Some (takeWhile (\<lambda>c. \<not> P c) s, tl (dropWhile (\<lambda>c. \<not> P c) s)) else None)"

text \<open>Two's complement wrap-around of an \<open>int\<close>; conversion from \<open>long\<close> to \<open>int\<close>.\<close>

definition wrap32 :: "int \<Rightarrow> int" where
  "wrap32 x = (x + 2147483648) mod 4294967296 - 2147483648"

definition clamp64 :: "int \<Rightarrow> int" where
  "clamp64 x = (if x > 9223372036854775807 then 9223372036854775807
                else if x < -9223372036854775808 then -9223372036854775808 else x)"

definition dec_val :: "string \<Rightarrow> int" where
  "dec_val ds = foldl (\<lambda>v c. v * 10 + digit_val c) 0 ds"

text \<open>\<open>atoi\<close> is \<open>(int)strtol\<close>, which saturates at the bounds of a \<open>long\<close>.\<close>

definition atoi :: "string \<Rightarrow> int" where
  "atoi s =
     (let s1 = dropWhile is_space s;
          neg = (s1 \<noteq> [] \<and> hd s1 = CHR ''-'');
          s2 = (if s1 \<noteq> [] \<and> (hd s1 = CHR ''-'' \<or> hd s1 = CHR ''+'') then tl s1 else s1);
          v = dec_val (takeWhile is_digit s2)
      in wrap32 (clamp64 (if neg then - v else v)))"

definition digit_char :: "nat \<Rightarrow> char" where
  "digit_char n = char_of (48 + n)"

text \<open>The output of \<open>%d\<close> for a natural number.\<close>

fun show_nat :: "nat \<Rightarrow> string" where
  "show_nat n = (if n < 10 then [digit_char n] else show_nat (n div 10) @ [digit_char (n mod 10)])"

declare show_nat.simps [simp del]

subsection \<open>Their properties\<close>

lemma wrap32_id: "INT_MIN \<le> x \<Longrightarrow> x \<le> INT_MAX \<Longrightarrow> wrap32 x = x"
  by (simp add: wrap32_def)

lemma wrap32_range: "INT_MIN \<le> wrap32 x \<and> wrap32 x \<le> INT_MAX"
proof -
  have "0 \<le> (x + 2147483648) mod 4294967296" "(x + 2147483648) mod 4294967296 < 4294967296" by simp_all
  then show ?thesis unfolding wrap32_def by linarith
qed

lemma rtrim_id: "s = [] \<or> \<not> is_space (last s) \<Longrightarrow> rtrim s = s"
  by (cases s rule: rev_cases) (auto simp: rtrim_def)

lemma rtrim_last: "rtrim s = [] \<or> \<not> is_space (last (rtrim s))"
proof (cases "rtrim s = []")
  case False
  then have "dropWhile is_space (rev s) \<noteq> []" by (simp add: rtrim_def)
  with hd_dropWhile[OF this] show ?thesis by (simp add: rtrim_def last_rev)
qed simp

lemma rtrim_append_space: "\<forall>c \<in> set t. is_space c \<Longrightarrow> rtrim (s @ t) = rtrim s"
  by (simp add: rtrim_def dropWhile_append)

lemma length_rtrim: "length (rtrim s) \<le> length s"
  by (simp add: rtrim_def) (metis length_dropWhile_le length_rev)

lemma set_rtrim: "set (rtrim s) \<subseteq> set s"
  by (auto simp: rtrim_def dest: set_dropWhileD)

lemma ascii_digit_char: "n < 10 \<Longrightarrow> ascii (digit_char n) = 48 + n"
  by (simp add: digit_char_def ascii_def)

lemma is_digit_char: "n < 10 \<Longrightarrow> is_digit (digit_char n)"
  by (simp add: is_digit_def ascii_digit_char)

lemma digit_val_char: "n < 10 \<Longrightarrow> digit_val (digit_char n) = int n"
  by (simp add: digit_val_def ascii_digit_char)

lemma digit_val_range: "is_digit c \<Longrightarrow> 0 \<le> digit_val c \<and> digit_val c \<le> 9"
  by (auto simp: is_digit_def digit_val_def)

lemma digit_not_space: "is_digit c \<Longrightarrow> \<not> is_space c"
  by (auto simp: is_digit_def is_space_def)

lemma digit_not_sign: "is_digit c \<Longrightarrow> c \<noteq> CHR ''-'' \<and> c \<noteq> CHR ''+''"
  by (auto simp: is_digit_def ascii_def)

lemma dec_val_append: "dec_val (ds @ [c]) = dec_val ds * 10 + digit_val c"
  by (simp add: dec_val_def)

lemma dec_val_nonneg: "\<forall>c \<in> set ds. is_digit c \<Longrightarrow> 0 \<le> dec_val ds"
proof (induction ds rule: rev_induct)
  case (snoc c ds)
  then show ?case using digit_val_range[of c] by (simp add: dec_val_append)
qed (simp add: dec_val_def)

lemma dec_val_prefix_le:
  "\<forall>c \<in> set (ds @ es). is_digit c \<Longrightarrow> dec_val ds \<le> dec_val (ds @ es)"
proof (induction es rule: rev_induct)
  case (snoc c es)
  have "dec_val (ds @ es) \<le> dec_val (ds @ es) * 10 + digit_val c"
    using dec_val_nonneg[of "ds @ es"] digit_val_range[of c] snoc.prems by simp
  moreover have "dec_val (ds @ es @ [c]) = dec_val (ds @ es) * 10 + digit_val c"
    using dec_val_append[of "ds @ es" c] by simp
  ultimately show ?case using snoc by simp
qed simp

lemma show_nat_digits: "\<forall>c \<in> set (show_nat n). is_digit c"
proof (induction n rule: show_nat.induct)
  case (1 n)
  show ?case
  proof (cases "n < 10")
    case True
    then show ?thesis by (simp add: show_nat.simps[of n] is_digit_char)
  next
    case False
    with 1 show ?thesis by (simp add: show_nat.simps[of n] is_digit_char)
  qed
qed

lemma show_nat_val: "dec_val (show_nat n) = int n"
proof (induction n rule: show_nat.induct)
  case (1 n)
  show ?case
  proof (cases "n < 10")
    case True
    then show ?thesis by (simp add: show_nat.simps[of n] dec_val_def digit_val_char)
  next
    case False
    with 1 have "dec_val (show_nat n) = int (n div 10) * 10 + int (n mod 10)"
      by (simp add: show_nat.simps[of n] dec_val_append digit_val_char)
    also have "\<dots> = int n" by presburger
    finally show ?thesis .
  qed
qed

lemma show_nat_not_Nil: "show_nat n \<noteq> []"
  by (simp add: show_nat.simps[of n])

lemma show_nat_inj: "show_nat m = show_nat n \<longleftrightarrow> m = n"
  using show_nat_val by (metis of_nat_eq_iff)

lemma atoi_digits:
  assumes "\<forall>c \<in> set ds. is_digit c" "ds \<noteq> []" "dec_val ds \<le> INT_MAX"
  shows "atoi ds = dec_val ds"
proof -
  obtain c cs where ds: "ds = c # cs" using assms(2) by (cases ds) auto
  have c: "\<not> is_space c" "c \<noteq> CHR ''-''" "c \<noteq> CHR ''+''"
    using assms(1) ds digit_not_space digit_not_sign by auto
  have "takeWhile is_digit ds = ds" using assms(1) by (simp add: takeWhile_eq_all_conv)
  then have "atoi ds = wrap32 (clamp64 (dec_val ds))" using c ds by (simp add: atoi_def)
  also have "clamp64 (dec_val ds) = dec_val ds" using dec_val_nonneg[OF assms(1)] assms(3) by (simp add: clamp64_def)
  also have "wrap32 (dec_val ds) = dec_val ds" using dec_val_nonneg[OF assms(1)] assms(3) by (simp add: wrap32_id)
  finally show ?thesis .
qed

lemma atoi_range: "INT_MIN \<le> atoi s \<and> atoi s \<le> INT_MAX"
  unfolding atoi_def Let_def by (rule wrap32_range)

lemma cut_at_None: "\<forall>c \<in> set s. \<not> P c \<Longrightarrow> cut_at P s = None"
  by (simp add: cut_at_def)

lemma cut_at_Some: "\<forall>c \<in> set s. \<not> P c \<Longrightarrow> P x \<Longrightarrow> cut_at P (s @ x # t) = Some (s, t)"
proof -
  assume a: "\<forall>c \<in> set s. \<not> P c" "P x"
  then have "takeWhile (\<lambda>c. \<not> P c) (s @ x # t) = s" "dropWhile (\<lambda>c. \<not> P c) (s @ x # t) = x # t"
    by simp_all
  with a(2) show ?thesis by (auto simp: cut_at_def)
qed

end
