(* ===== verification/Config.thy ===== *)
theory Config
  imports C_Strings
begin

text \<open>
  The INI configuration (\<open>src/kerchunk_config.c\<close>): the parser over the lines that \<open>fgets\<close> gives,
  the table of entries with its lookups, updates and iterators, the duration syntax, and the text
  that a save writes. The content of a file is an argument (none when it cannot be opened);
  the outcome of the file operations of a save likewise. Arithmetic on \<open>int\<close> wraps around.
\<close>

abbreviation CONFIG_MAX_SECTION :: nat where "CONFIG_MAX_SECTION \<equiv> 64"
abbreviation CONFIG_MAX_KEY :: nat where "CONFIG_MAX_KEY \<equiv> 64"
abbreviation CONFIG_MAX_VALUE :: nat where "CONFIG_MAX_VALUE \<equiv> 1024"
abbreviation CONFIG_MAX_ENTRIES :: nat where "CONFIG_MAX_ENTRIES \<equiv> 1024"
abbreviation CONFIG_LINE :: nat where "CONFIG_LINE \<equiv> 2048"

abbreviation NL :: char where "NL \<equiv> CHR 0x0A"
abbreviation CR :: char where "CR \<equiv> CHR 0x0D"

record config_entry =
  ce_section :: string
  ce_key :: string
  ce_value :: string

record config =
  cfg_entries :: "config_entry list"
  cfg_path :: string

subsection \<open>Parsing\<close>

definition trim :: "string \<Rightarrow> string" where
  "trim buf = rtrim (dropWhile is_space buf)"

text \<open>One \<open>fgets\<close> with room for \<open>m\<close> characters, and all of them over a file.\<close>

fun take_line :: "nat \<Rightarrow> string \<Rightarrow> string \<times> string" where
  "take_line 0 s = ([], s)"
| "take_line (Suc m) [] = ([], [])"
| "take_line (Suc m) (c # s) =
     (if c = NL then ([c], s) else (let (l, r) = take_line m s in (c # l, r)))"

lemma take_line_length: "take_line m s = (l, r) \<Longrightarrow> length l + length r = length s"
  by (induction m s arbitrary: l r rule: take_line.induct) (auto split: if_splits prod.splits)

lemma take_line_shorter: "s \<noteq> [] \<Longrightarrow> length (snd (take_line (Suc m) s)) < length s"
  by (cases s) (auto split: prod.splits dest!: take_line_length)

function read_lines :: "string \<Rightarrow> string list" where
  "read_lines s =
     (if s = [] then []
      else fst (take_line (CONFIG_LINE - 1) s) # read_lines (snd (take_line (CONFIG_LINE - 1) s)))"
  by pat_completeness auto

termination
proof (relation "measure length")
  fix s :: string assume "s \<noteq> []"
  then show "(snd (take_line (CONFIG_LINE - 1) s), s) \<in> measure length"
    using take_line_shorter[of s "CONFIG_LINE - 2"] by (simp add: eval_nat_numeral)
qed simp

declare read_lines.simps [simp del]

definition new_entry :: "string \<Rightarrow> string \<Rightarrow> string \<Rightarrow> config_entry" where
  "new_entry section key val =
     \<lparr>ce_section = c_trunc CONFIG_MAX_SECTION section, ce_key = c_trunc CONFIG_MAX_KEY key,
      ce_value = c_trunc CONFIG_MAX_VALUE val\<rparr>"

definition strip_comment :: "string \<Rightarrow> string" where
  "strip_comment val =
     (if val \<noteq> [] \<and> (hd val = CHR 0x22 \<or> hd val = CHR 0x27) then val
      else (case cut_at (\<lambda>c. c = CHR '';'' \<or> c = CHR ''#'') val of
              Some (before, _) \<Rightarrow> trim before
            | None \<Rightarrow> val))"

text \<open>A line moves the current section or adds an entry; \<open>None\<close> when the table is full.\<close>

definition parse_line :: "string \<Rightarrow> config_entry list \<Rightarrow> string \<Rightarrow> (string \<times> config_entry list) option" where
  "parse_line section es line =
     (let p = trim (c_str line)
      in if p = [] \<or> hd p = CHR ''#'' \<or> hd p = CHR '';'' then Some (section, es)
         else if hd p = CHR ''['' then
           (case cut_at (\<lambda>c. c = CHR '']'') p of
              None \<Rightarrow> Some (section, es)
            | Some (before, _) \<Rightarrow> Some (c_trunc CONFIG_MAX_SECTION (tl before), es))
         else
           (case cut_at (\<lambda>c. c = CHR ''='') p of
              None \<Rightarrow> Some (section, es)
            | Some (before, after) \<Rightarrow>
                (let key = trim before; val = strip_comment (trim after)
                 in if length es \<ge> CONFIG_MAX_ENTRIES then None
                    else Some (section, es @ [new_entry section key val]))))"

fun parse_lines :: "string \<Rightarrow> config_entry list \<Rightarrow> string list \<Rightarrow> bool \<times> config_entry list" where
  "parse_lines section es [] = (True, es)"
| "parse_lines section es (l # ls) =
     (case parse_line section es l of
        None \<Rightarrow> (False, es)
      | Some (section', es') \<Rightarrow> parse_lines section' es' ls)"

definition parse_file :: "config_entry list \<Rightarrow> string option \<Rightarrow> bool \<times> config_entry list" where
  "parse_file es content =
     (case content of None \<Rightarrow> (False, es) | Some text \<Rightarrow> parse_lines '''' es (read_lines text))"

definition config_load :: "string \<Rightarrow> string option \<Rightarrow> config option" where
  "config_load path content =
     (case parse_file [] content of
        (True, es) \<Rightarrow> Some \<lparr>cfg_entries = es, cfg_path = c_trunc 256 path\<rparr>
      | (False, _) \<Rightarrow> None)"

definition config_create :: config where
  "config_create = \<lparr>cfg_entries = [], cfg_path = ''''\<rparr>"

definition config_reload :: "config \<Rightarrow> string option \<Rightarrow> config \<times> int" where
  "config_reload cfg content =
     (if cfg_path cfg = '''' then (cfg, -1)
      else (let (ok, es) = parse_file [] content
            in (cfg\<lparr>cfg_entries := es\<rparr>, if ok then 0 else -1)))"

subsection \<open>Lookups\<close>

definition entry_at :: "string \<Rightarrow> string \<Rightarrow> config_entry \<Rightarrow> bool" where
  "entry_at section key e \<longleftrightarrow> ce_section e = section \<and> ce_key e = key"

definition config_get :: "config \<Rightarrow> string \<Rightarrow> string \<Rightarrow> string option" where
  "config_get cfg section key =
     (case find_idx (entry_at section key) (cfg_entries cfg) of
        Some i \<Rightarrow> Some (ce_value (cfg_entries cfg ! i)) | None \<Rightarrow> None)"

definition config_get_int :: "config \<Rightarrow> string \<Rightarrow> string \<Rightarrow> int \<Rightarrow> int" where
  "config_get_int cfg section key def_val =
     (case config_get cfg section key of None \<Rightarrow> def_val | Some v \<Rightarrow> atoi v)"

subsection \<open>Durations\<close>

text \<open>A number with up to three decimals that count, in thousandths, and what follows it.\<close>

definition frac_ms :: "string \<Rightarrow> int" where
  "frac_ms fs = dec_val (take 3 fs) * 10 ^ (3 - length fs)"

definition int_digits :: "string \<Rightarrow> int" where
  "int_digits ds = foldl (\<lambda>v c. wrap32 (v * 10 + digit_val c)) 0 ds"

definition parse_number_ms :: "string \<Rightarrow> int \<times> string" where
  "parse_number_ms p =
     (let val = int_digits (takeWhile is_digit p);
          q = dropWhile is_digit p;
          (frac, rest) = (if q \<noteq> [] \<and> hd q = CHR ''.''
                          then (frac_ms (takeWhile is_digit (tl q)), dropWhile is_digit (tl q))
                          else (0, q))
      in (wrap32 (wrap32 (val * 1000) + frac), rest))"

text \<open>The units of a number in thousandths; \<open>None\<close> for an unknown unit.\<close>

definition scale_unit :: "int \<Rightarrow> string \<Rightarrow> (int \<times> string) option" where
  "scale_unit mu p =
     (if p \<noteq> [] \<and> hd p = CHR ''m'' \<and> tl p \<noteq> [] \<and> hd (tl p) = CHR ''s'' then Some (cdiv mu 1000, tl (tl p))
      else if p \<noteq> [] \<and> hd p = CHR ''h'' then Some (wrap32 (cdiv mu 1000 * 3600000) + cmod mu 1000 * 3600, tl p)
      else if p \<noteq> [] \<and> hd p = CHR ''m'' then Some (wrap32 (cdiv mu 1000 * 60000) + cmod mu 1000 * 60, tl p)
      else if p \<noteq> [] \<and> hd p = CHR ''s'' then Some (cdiv mu 1000 * 1000 + cmod mu 1000, tl p)
      else None)"

lemma parse_number_rest: "length (snd (parse_number_ms p)) \<le> length p"
proof -
  have 1: "length (dropWhile is_digit p) \<le> length p" by (rule length_dropWhile_le)
  moreover have "length (dropWhile is_digit (tl (dropWhile is_digit p))) \<le> length p"
    using length_dropWhile_le[of is_digit "tl (dropWhile is_digit p)"] 1 by simp
  ultimately show ?thesis by (simp add: parse_number_ms_def Let_def)
qed

lemma scale_unit_rest: "scale_unit mu p = Some (v, r) \<Longrightarrow> length r < length p"
  by (cases p) (auto simp: scale_unit_def split: if_splits)

function duration_loop :: "int \<Rightarrow> string \<Rightarrow> int option" where
  "duration_loop total_ms s =
     (let p = dropWhile (\<lambda>c. c = CHR '' '') s
      in if p = [] then Some total_ms
         else if \<not> is_digit (hd p) then None
         else (case scale_unit (fst (parse_number_ms p)) (snd (parse_number_ms p)) of
                 None \<Rightarrow> None
               | Some (v, rest) \<Rightarrow> duration_loop (wrap32 (total_ms + v)) rest))"
  by pat_completeness auto

termination
proof (relation "measure (\<lambda>(t, s). length s)")
  fix total_ms v :: int and s p rest :: string and x
  assume "p = dropWhile (\<lambda>c. c = CHR '' '') s"
    "scale_unit (fst (parse_number_ms p)) (snd (parse_number_ms p)) = Some x" "(v, rest) = x"
  then have "length rest < length (snd (parse_number_ms p))" "length p \<le> length s"
    using scale_unit_rest length_dropWhile_le by auto
  with parse_number_rest[of p]
  show "((wrap32 (total_ms + v), rest), (total_ms, s)) \<in> measure (\<lambda>(t, s). length s)" by simp
qed simp

declare duration_loop.simps [simp del]

definition parse_duration_ms :: "string option \<Rightarrow> int \<Rightarrow> int" where
  "parse_duration_ms str default_ms =
     (case str of None \<Rightarrow> default_ms
      | Some s \<Rightarrow>
          if s = [] then default_ms
          else if \<forall>c \<in> set s. is_digit c then atoi s
          else (case duration_loop 0 s of None \<Rightarrow> default_ms
                | Some total_ms \<Rightarrow> if total_ms > 0 then total_ms else default_ms))"

definition parse_duration_s :: "string option \<Rightarrow> int \<Rightarrow> int" where
  "parse_duration_s str default_s =
     (case str of None \<Rightarrow> default_s
      | Some s \<Rightarrow>
          if s = [] then default_s
          else if \<forall>c \<in> set s. is_digit c then atoi s
          else cdiv (parse_duration_ms (Some s) (wrap32 (default_s * 1000))) 1000)"

definition config_get_duration_ms :: "config \<Rightarrow> string \<Rightarrow> string \<Rightarrow> int \<Rightarrow> int" where
  "config_get_duration_ms cfg section key default_ms =
     (case config_get cfg section key of None \<Rightarrow> default_ms | Some v \<Rightarrow> parse_duration_ms (Some v) default_ms)"

definition config_get_duration_s :: "config \<Rightarrow> string \<Rightarrow> string \<Rightarrow> int \<Rightarrow> int" where
  "config_get_duration_s cfg section key default_s =
     (case config_get cfg section key of None \<Rightarrow> default_s | Some v \<Rightarrow> parse_duration_s (Some v) default_s)"

subsection \<open>Updates\<close>

text \<open>Newlines in a value become spaces.\<close>

definition strip_newlines :: "string \<Rightarrow> string" where
  "strip_newlines = map (\<lambda>c. if c = NL \<or> c = CR then CHR '' '' else c)"

definition config_set :: "config \<Rightarrow> string \<Rightarrow> string \<Rightarrow> string \<Rightarrow> config \<times> int" where
  "config_set cfg section key val =
     (let es = cfg_entries cfg; v = strip_newlines (c_trunc CONFIG_MAX_VALUE val)
      in case find_idx (entry_at section key) es of
           Some i \<Rightarrow> (cfg\<lparr>cfg_entries := es[i := (es ! i)\<lparr>ce_value := v\<rparr>]\<rparr>, 0)
         | None \<Rightarrow>
             if length es \<ge> CONFIG_MAX_ENTRIES then (cfg, -1)
             else (cfg\<lparr>cfg_entries := es @ [(new_entry section key val)\<lparr>ce_value := v\<rparr>]\<rparr>, 0))"

definition config_remove_section :: "config \<Rightarrow> string \<Rightarrow> config" where
  "config_remove_section cfg section =
     cfg\<lparr>cfg_entries := filter (\<lambda>e. ce_section e \<noteq> section) (cfg_entries cfg)\<rparr>"

subsection \<open>Iterators and saving\<close>

text \<open>The section of the first entry that is not in a section seen before, after \<open>skip\<close> such.\<close>

fun nth_section :: "string set \<Rightarrow> config_entry list \<Rightarrow> nat \<Rightarrow> string option" where
  "nth_section seen [] skip = None"
| "nth_section seen (e # es) skip =
     (if ce_section e \<in> seen then nth_section seen es skip
      else if skip = 0 then Some (ce_section e)
      else nth_section (insert (ce_section e) seen) es (skip - 1))"

definition config_next_section :: "config \<Rightarrow> nat \<Rightarrow> (string \<times> nat) option" where
  "config_next_section cfg iter =
     (case nth_section {} (cfg_entries cfg) iter of Some s \<Rightarrow> Some (s, iter + 1) | None \<Rightarrow> None)"

fun nth_key :: "string \<Rightarrow> config_entry list \<Rightarrow> nat \<Rightarrow> (string \<times> string) option" where
  "nth_key section [] skip = None"
| "nth_key section (e # es) skip =
     (if ce_section e \<noteq> section then nth_key section es skip
      else if skip = 0 then Some (ce_key e, ce_value e)
      else nth_key section es (skip - 1))"

definition config_next_key :: "config \<Rightarrow> string \<Rightarrow> nat \<Rightarrow> ((string \<times> string) \<times> nat) option" where
  "config_next_key cfg section iter =
     (case nth_key section (cfg_entries cfg) iter of Some kv \<Rightarrow> Some (kv, iter + 1) | None \<Rightarrow> None)"

definition save_section :: "config \<Rightarrow> string \<Rightarrow> string" where
  "save_section cfg section =
     ''['' @ section @ '']'' @ [NL] @
     concat (map (\<lambda>e. if ce_section e = section then ce_key e @ '' = '' @ ce_value e @ [NL] else [])
                 (cfg_entries cfg))"

lemma nth_section_less: "nth_section seen es k = Some s \<Longrightarrow> k < length es"
  by (induction seen es k rule: nth_section.induct) (auto split: if_splits)

function save_loop :: "config \<Rightarrow> nat \<Rightarrow> bool \<Rightarrow> string" where
  "save_loop cfg iter first_section =
     (case config_next_section cfg iter of
        None \<Rightarrow> []
      | Some (section, iter') \<Rightarrow>
          (if first_section then [] else [NL]) @ save_section cfg section @ save_loop cfg iter' False)"
  by pat_completeness auto

termination
proof (relation "measure (\<lambda>(cfg, iter, f). length (cfg_entries cfg) - iter)")
  fix cfg :: config and iter iter' :: nat and f x and sec :: string
  assume "config_next_section cfg iter = Some x" "(sec, iter') = x"
  then have "iter' = iter + 1" "nth_section {} (cfg_entries cfg) iter = Some sec"
    by (auto simp: config_next_section_def split: option.splits)
  with nth_section_less
  show "((cfg, iter', False), (cfg, iter, f)) \<in> measure (\<lambda>(cfg, iter, f). length (cfg_entries cfg) - iter)"
    by fastforce
qed simp

declare save_loop.simps [simp del]

text \<open>A save returns what it wrote in the place of the file, or \<open>None\<close> and -1.\<close>

definition config_save :: "config \<Rightarrow> bool \<Rightarrow> bool \<Rightarrow> string option \<times> int" where
  "config_save cfg open_ok rename_ok =
     (if cfg_path cfg = '''' \<or> \<not> open_ok \<or> \<not> rename_ok then (None, -1)
      else (Some (save_loop cfg 0 True), 0))"

end
