(* ===== verification/Config_Props.thy ===== *)
theory Config_Props
  imports Config "HOL-Library.Multiset"
begin

text \<open>
  What the configuration keeps: the widths of its fields, the map that lookups and updates
  refine, the round trip of a save and a load, and the meaning of a duration.
\<close>

subsection \<open>Sections in the order of their first entry\<close>

fun sections_of :: "string set \<Rightarrow> config_entry list \<Rightarrow> string list" where
  "sections_of seen [] = []"
| "sections_of seen (e # es) =
     (if ce_section e \<in> seen then sections_of seen es
      else ce_section e # sections_of (insert (ce_section e) seen) es)"

lemma nth_section_eq:
  "nth_section seen es k = (if k < length (sections_of seen es) then Some (sections_of seen es ! k) else None)"
  by (induction seen es k rule: nth_section.induct) (auto simp: nth_Cons split: nat.splits)

lemma set_sections: "set (sections_of seen es) = ce_section ` set es - seen"
  by (induction seen es rule: sections_of.induct) auto

lemma distinct_sections: "distinct (sections_of seen es)"
  by (induction seen es rule: sections_of.induct) (auto simp: set_sections)

text \<open>The lines of a section and of the whole file that a save writes.\<close>

definition entry_line :: "config_entry \<Rightarrow> string" where
  "entry_line e = ce_key e @ '' = '' @ ce_value e"

definition of_section :: "string \<Rightarrow> config_entry list \<Rightarrow> config_entry list" where
  "of_section s es = filter (\<lambda>e. ce_section e = s) es"

definition section_lines :: "config_entry list \<Rightarrow> string \<Rightarrow> string list" where
  "section_lines es s = (''['' @ s @ '']'') # map entry_line (of_section s es)"

definition unlines :: "string list \<Rightarrow> string" where
  "unlines ls = concat (map (\<lambda>l. l @ [NL]) ls)"

lemma unlines_simps [simp]: "unlines [] = []" "unlines (l # ls) = l @ NL # unlines ls"
  "unlines (ls @ ms) = unlines ls @ unlines ms"
  by (simp_all add: unlines_def)

lemma save_section_lines: "save_section cfg s = unlines (section_lines (cfg_entries cfg) s)"
proof -
  have "concat (map (\<lambda>e. if ce_section e = s then ce_key e @ '' = '' @ ce_value e @ [NL] else []) es) =
        unlines (map entry_line (of_section s es))" for es
    by (induction es) (simp_all add: of_section_def entry_line_def)
  then show ?thesis by (simp add: save_section_def section_lines_def)
qed


fun file_lines :: "config_entry list \<Rightarrow> bool \<Rightarrow> string list \<Rightarrow> string list" where
  "file_lines es first [] = []"
| "file_lines es first (s # ss) = (if first then [] else [[]]) @ section_lines es s @ file_lines es False ss"

lemma save_loop_lines:
  "save_loop cfg k first = unlines (file_lines (cfg_entries cfg) first (drop k (sections_of {} (cfg_entries cfg))))"
proof (induction cfg k first rule: save_loop.induct)
  case (1 cfg iter first)
  let ?secs = "sections_of {} (cfg_entries cfg)"
  show ?case
  proof (cases "iter < length ?secs")
    case True
    then have n: "config_next_section cfg iter = Some (?secs ! iter, iter + 1)"
      by (simp add: config_next_section_def nth_section_eq)
    have "drop iter ?secs = ?secs ! iter # drop (Suc iter) ?secs" using True by (simp add: Cons_nth_drop_Suc)
    with 1[OF n refl] n show ?thesis by (simp add: save_loop.simps[of cfg iter] save_section_lines)
  next
    case False
    then have "config_next_section cfg iter = None" by (simp add: config_next_section_def nth_section_eq)
    with False show ?thesis by (simp add: save_loop.simps[of cfg iter])
  qed
qed

subsection \<open>Reading the lines back\<close>

lemma take_line_NL: "NL \<notin> set l \<Longrightarrow> length l < m \<Longrightarrow> take_line m (l @ NL # r) = (l @ [NL], r)"
proof (induction l arbitrary: m)
  case Nil
  then obtain k where "m = Suc k" by (cases m) auto
  then show ?case by simp
next
  case (Cons c l)
  then obtain k where "m = Suc k" by (cases m) auto
  with Cons show ?case by auto
qed

lemma read_unlines:
  assumes "\<forall>l \<in> set ls. NL \<notin> set l \<and> length l < CONFIG_LINE - 1"
  shows "read_lines (unlines ls) = map (\<lambda>l. l @ [NL]) ls"
  using assms
proof (induction ls)
  case (Cons l ls)
  then have "take_line (CONFIG_LINE - 1) (l @ NL # unlines ls) = (l @ [NL], unlines ls)"
    using take_line_NL[of l "CONFIG_LINE - 1"] by simp
  with Cons show ?case by (simp add: read_lines.simps[of "l @ NL # unlines ls"])
qed (simp add: read_lines.simps)

subsection \<open>Entries that survive a save\<close>

definition text_ok :: "string \<Rightarrow> bool" where
  "text_ok s \<longleftrightarrow> (\<forall>c \<in> set s. c \<noteq> NL \<and> ascii c \<noteq> 0)"

definition trimmed :: "string \<Rightarrow> bool" where
  "trimmed s \<longleftrightarrow> s = [] \<or> \<not> is_space (hd s) \<and> \<not> is_space (last s)"

definition section_ok :: "string \<Rightarrow> bool" where
  "section_ok s \<longleftrightarrow> text_ok s \<and> length s < CONFIG_MAX_SECTION \<and> CHR '']'' \<notin> set s"

definition key_ok :: "string \<Rightarrow> bool" where
  "key_ok s \<longleftrightarrow> text_ok s \<and> length s < CONFIG_MAX_KEY \<and> s \<noteq> [] \<and> trimmed s \<and> CHR ''='' \<notin> set s \<and>
     hd s \<noteq> CHR ''#'' \<and> hd s \<noteq> CHR '';'' \<and> hd s \<noteq> CHR ''[''"

definition value_ok :: "string \<Rightarrow> bool" where
  "value_ok s \<longleftrightarrow> text_ok s \<and> length s < CONFIG_MAX_VALUE \<and> trimmed s \<and>
     (s \<noteq> [] \<and> (hd s = CHR 0x22 \<or> hd s = CHR 0x27) \<or> CHR '';'' \<notin> set s \<and> CHR ''#'' \<notin> set s)"

definition entry_ok :: "config_entry \<Rightarrow> bool" where
  "entry_ok e \<longleftrightarrow> section_ok (ce_section e) \<and> key_ok (ce_key e) \<and> value_ok (ce_value e)"

lemma NL_space: "is_space NL"
  by (simp add: is_space_def ascii_def)

lemma trim_id: "trimmed s \<Longrightarrow> trim s = s"
proof (cases s)
  case (Cons c cs)
  assume "trimmed s"
  with Cons have "\<not> is_space (hd s)" "\<not> is_space (last s)" by (auto simp: trimmed_def)
  with Cons show ?thesis by (simp add: trim_def rtrim_id)
qed (simp add: trim_def rtrim_def)

lemma trim_append:
  assumes "trimmed s" "s \<noteq> []" "\<forall>c \<in> set ws. is_space c"
  shows "trim (s @ ws) = s"
proof -
  obtain c cs where s: "s = c # cs" using assms(2) by (cases s) auto
  with assms(1) have "\<not> is_space c" by (simp add: trimmed_def)
  then have "trim (s @ ws) = rtrim (s @ ws)" by (simp add: trim_def s)
  also have "\<dots> = rtrim s" by (rule rtrim_append_space[OF assms(3)])
  also have "\<dots> = s" using assms(1,2) by (auto intro!: rtrim_id simp: trimmed_def)
  finally show ?thesis .
qed

lemma trim_line: "trimmed s \<Longrightarrow> s \<noteq> [] \<Longrightarrow> trim (s @ [NL]) = s"
  by (rule trim_append) (simp_all add: NL_space)

lemma c_str_id: "text_ok s \<Longrightarrow> c_str (s @ [NL]) = s @ [NL]"
  by (auto simp: c_str_def text_ok_def takeWhile_eq_all_conv ascii_def)

lemma parse_blank: "parse_line sec es [NL] = Some (sec, es)"
  by (simp add: parse_line_def c_str_def trim_def rtrim_def NL_space ascii_def)

lemma parse_header:
  assumes "section_ok s"
  shows "parse_line sec es ((''['' @ s @ '']'') @ [NL]) = Some (s, es)"
proof -
  let ?p = "''['' @ s @ '']''"
  have tx: "text_ok ?p" using assms by (auto simp: section_ok_def text_ok_def ascii_def)
  have "trimmed ?p" by (simp add: trimmed_def is_space_def ascii_def)
  then have p: "trim (c_str (?p @ [NL])) = ?p" unfolding c_str_id[OF tx] by (rule trim_line) simp
  have "cut_at (\<lambda>c. c = CHR '']'') ((''['' @ s) @ CHR '']'' # []) = Some (''['' @ s, [])"
    by (rule cut_at_Some) (use assms in \<open>auto simp: section_ok_def\<close>)
  moreover have "c_trunc CONFIG_MAX_SECTION s = s" using assms by (simp add: section_ok_def c_trunc_id)
  ultimately show ?thesis unfolding parse_line_def p by (simp add: Let_def)
qed

lemma strip_comment_id: "value_ok v \<Longrightarrow> strip_comment v = v"
proof (cases "v \<noteq> [] \<and> (hd v = CHR 0x22 \<or> hd v = CHR 0x27)")
  case False
  assume "value_ok v"
  with False have "cut_at (\<lambda>c. c = CHR '';'' \<or> c = CHR ''#'') v = None"
    by (intro cut_at_None) (auto simp: value_ok_def)
  with False show ?thesis by (simp add: strip_comment_def)
qed (simp add: strip_comment_def)

lemma parse_entry:
  assumes "entry_ok e" "ce_section e = sec" "length es < CONFIG_MAX_ENTRIES"
  shows "parse_line sec es (entry_line e @ [NL]) = Some (sec, es @ [e])"
proof -
  let ?k = "ce_key e" and ?v = "ce_value e"
  have k: "key_ok ?k" and v: "value_ok ?v" and s: "section_ok sec" using assms by (simp_all add: entry_ok_def)
  have tx: "text_ok (entry_line e)"
    using k v by (auto simp: key_ok_def value_ok_def text_ok_def entry_line_def ascii_def)
  have hdk: "hd (?k @ xs) = hd ?k" for xs using k by (cases ?k) (auto simp: key_ok_def)
  define p where "p = ?k @ '' ='' @ (if ?v = [] then [] else '' '' @ ?v)"
  have "hd p = hd ?k" unfolding p_def by (rule hdk)
  moreover have "\<not> is_space (last p)"
  proof (cases "?v = []")
    case True
    then show ?thesis by (simp add: p_def is_space_def ascii_def)
  next
    case False
    then have "last p = last ?v" by (simp add: p_def)
    with False v show ?thesis by (simp add: value_ok_def trimmed_def)
  qed
  ultimately have tp: "trimmed p" using k by (auto simp: trimmed_def key_ok_def)
  have "c_str (entry_line e @ [NL]) = entry_line e @ [NL]" by (rule c_str_id[OF tx])
  moreover have "trim (entry_line e @ [NL]) = p"
  proof (cases "?v = []")
    case True
    then have l: "entry_line e @ [NL] = p @ '' '' @ [NL]" by (simp add: entry_line_def p_def)
    show ?thesis unfolding l by (rule trim_append[OF tp]) (auto simp: p_def is_space_def ascii_def)
  next
    case False
    then have "entry_line e = p" by (simp add: entry_line_def p_def)
    with trim_line[OF tp] k show ?thesis by (simp add: p_def)
  qed
  ultimately have p: "trim (c_str (entry_line e @ [NL])) = p" by simp
  have hp: "p \<noteq> []" "hd p \<noteq> CHR ''#''" "hd p \<noteq> CHR '';''" "hd p \<noteq> CHR ''[''"
    using k hdk by (auto simp: p_def key_ok_def)
  have cut: "cut_at (\<lambda>c. c = CHR ''='') p = Some (?k @ '' '', if ?v = [] then [] else '' '' @ ?v)"
  proof -
    have "\<forall>c \<in> set (?k @ '' ''). \<not> c = CHR ''=''" using k by (auto simp: key_ok_def)
    from cut_at_Some[of "?k @ '' ''" "\<lambda>c. c = CHR ''=''" "CHR ''=''" "if ?v = [] then [] else '' '' @ ?v", OF this refl]
    show ?thesis by (simp add: p_def)
  qed
  have tk: "trim (?k @ '' '') = ?k"
  proof -
    have "trim (?k @ '' '') = rtrim (?k @ '' '')" using k by (cases ?k) (auto simp: trim_def key_ok_def trimmed_def)
    also have "\<dots> = rtrim ?k" by (rule rtrim_append_space) (simp add: is_space_def ascii_def)
    also have "\<dots> = ?k" using k by (auto intro!: rtrim_id simp: key_ok_def trimmed_def)
    finally show ?thesis .
  qed
  have tv: "trim (if ?v = [] then [] else '' '' @ ?v) = ?v"
    using trim_id[of ?v] v by (auto simp: value_ok_def trim_def rtrim_def is_space_def ascii_def)
  have "new_entry sec ?k ?v = e"
    using assms(2) s k v by (cases e) (simp add: new_entry_def section_ok_def key_ok_def value_ok_def c_trunc_id)
  then show ?thesis
    unfolding parse_line_def p Let_def using hp cut tk tv strip_comment_id[OF v] assms(3) by simp
qed

text \<open>The lines of a section, and of the whole file.\<close>

lemma parse_lines_append:
  "parse_lines sec es (map (\<lambda>l. l @ [NL]) (map entry_line fs) @ rest) = parse_lines sec (es @ fs) rest"
  if "\<forall>e \<in> set fs. entry_ok e \<and> ce_section e = sec" "length es + length fs \<le> CONFIG_MAX_ENTRIES"
  using that
proof (induction fs arbitrary: es)
  case (Cons f fs)
  then have "parse_line sec es (entry_line f @ [NL]) = Some (sec, es @ [f])" by (intro parse_entry) auto
  with Cons show ?case by simp
qed simp

lemma parse_section:
  assumes "\<forall>e \<in> set es. entry_ok e" "s \<in> ce_section ` set es" "length acc + length (of_section s es) \<le> CONFIG_MAX_ENTRIES"
  shows "parse_lines sec acc (map (\<lambda>l. l @ [NL]) (section_lines es s) @ rest) = parse_lines s (acc @ of_section s es) rest"
proof -
  have "section_ok s" using assms(1,2) by (auto simp: entry_ok_def)
  from parse_header[OF this] have "parse_line sec acc ((''['' @ s @ '']'') @ [NL]) = Some (s, acc)" .
  moreover have "\<forall>e \<in> set (of_section s es). entry_ok e \<and> ce_section e = s"
    using assms(1) by (simp add: of_section_def)
  from parse_lines_append[OF this assms(3), of rest] have "parse_lines s acc
     (map (\<lambda>l. l @ [NL]) (map entry_line (of_section s es)) @ rest) = parse_lines s (acc @ of_section s es) rest" .
  ultimately show ?thesis by (simp add: section_lines_def)
qed

definition regroup :: "config_entry list \<Rightarrow> config_entry list" where
  "regroup es = concat (map (\<lambda>s. of_section s es) (sections_of {} es))"

lemma parse_file_lines:
  assumes "\<forall>e \<in> set es. entry_ok e" "set ss \<subseteq> ce_section ` set es"
    "length acc + length (concat (map (\<lambda>s. of_section s es) ss)) \<le> CONFIG_MAX_ENTRIES"
  shows "parse_lines sec acc (map (\<lambda>l. l @ [NL]) (file_lines es first ss)) =
         (True, acc @ concat (map (\<lambda>s. of_section s es) ss))"
  using assms(2,3)
proof (induction ss arbitrary: sec acc first)
  case (Cons s ss)
  let ?rest = "map (\<lambda>l. l @ [NL]) (file_lines es False ss)"
  have "parse_lines sec acc (map (\<lambda>l. l @ [NL]) (section_lines es s) @ ?rest) =
        parse_lines s (acc @ of_section s es) ?rest"
    by (rule parse_section[OF assms(1)]) (use Cons.prems in auto)
  also have "\<dots> = (True, (acc @ of_section s es) @ concat (map (\<lambda>s. of_section s es) ss))"
    by (rule Cons.IH) (use Cons.prems in auto)
  finally show ?case by (cases first) (simp_all add: parse_blank)
qed simp

lemma filter_partition_mset: "mset (filter P es) + mset (filter (\<lambda>x. \<not> P x) es) = mset es"
  by (induction es) auto

lemma regroup_mset: "set ss = ce_section ` set es \<Longrightarrow> distinct ss \<Longrightarrow>
   mset (concat (map (\<lambda>s. of_section s es) ss)) = mset es"
proof (induction ss arbitrary: es)
  case (Cons s ss)
  let ?es = "filter (\<lambda>e. ce_section e \<noteq> s) es"
  have "ce_section ` set ?es = set ss" using Cons.prems by auto
  from Cons.IH[OF this[symmetric]] Cons.prems(2)
  have "mset (concat (map (\<lambda>s. of_section s ?es) ss)) = mset ?es" by simp
  moreover have "of_section x ?es = of_section x es" if "x \<in> set ss" for x
    using that Cons.prems(2) by (auto simp: of_section_def intro!: filter_cong)
  then have "map (\<lambda>s. of_section s ?es) ss = map (\<lambda>s. of_section s es) ss" by simp
  ultimately have "mset (concat (map (\<lambda>s. of_section s es) ss)) = mset ?es" by simp
  then have "mset (concat (map (\<lambda>s. of_section s es) (s # ss))) = mset (of_section s es) + mset ?es" by simp
  also have "\<dots> = mset es" unfolding of_section_def by (rule filter_partition_mset)
  finally show ?case .
qed simp

text \<open>A lookup sees only its section, in order.\<close>

definition lookup :: "config_entry list \<Rightarrow> string \<Rightarrow> string \<Rightarrow> string option" where
  "lookup es s k = map_option ce_value (find (entry_at s k) es)"

lemma find_idx_find: "find P xs = (case find_idx P xs of Some i \<Rightarrow> Some (xs ! i) | None \<Rightarrow> None)"
  by (induction xs) (auto split: option.splits)

lemma config_get_lookup: "config_get cfg s k = lookup (cfg_entries cfg) s k"
  by (auto simp: config_get_def lookup_def find_idx_find split: option.splits)

lemma find_append: "find P (xs @ ys) = (case find P xs of None \<Rightarrow> find P ys | r \<Rightarrow> r)"
  by (induction xs) auto

lemma lookup_section: "find (entry_at s k) (of_section s' es) = (if s' = s then find (entry_at s k) es else None)"
proof (induction es)
  case (Cons a es)
  have "entry_at s k a \<Longrightarrow> ce_section a = s" by (simp add: entry_at_def)
  with Cons show ?case
    by (cases "ce_section a = s'"; cases "entry_at s k a") (auto simp: of_section_def)
qed (simp add: of_section_def)

lemma lookup_regroup_sections:
  "find (entry_at s k) (concat (map (\<lambda>s. of_section s es) ss)) =
   (if s \<in> set ss then find (entry_at s k) es else None)"
  by (induction ss) (auto simp: find_append lookup_section split: option.splits)

lemma find_no_section: "s \<notin> ce_section ` set es \<Longrightarrow> find (entry_at s k) es = None"
  by (induction es) (auto simp: entry_at_def)

lemma lookup_regroup: "lookup (regroup es) s k = lookup es s k"
  using find_no_section[of s es k] by (simp add: lookup_def regroup_def lookup_regroup_sections set_sections)

lemma file_lines_short:
  assumes "\<forall>e \<in> set es. entry_ok e" "set ss \<subseteq> ce_section ` set es"
  shows "\<forall>l \<in> set (file_lines es first ss). NL \<notin> set l \<and> length l < CONFIG_LINE - 1"
  using assms(2)
proof (induction ss arbitrary: first)
  case (Cons s ss)
  then have s: "section_ok s" using assms(1) by (auto simp: entry_ok_def)
  have e: "NL \<notin> set (entry_line e) \<and> length (entry_line e) < CONFIG_LINE - 1" if "e \<in> set es" for e
  proof -
    have "key_ok (ce_key e)" "value_ok (ce_value e)" using that assms(1) by (auto simp: entry_ok_def)
    then have "NL \<notin> set (ce_key e)" "NL \<notin> set (ce_value e)" "length (ce_key e) < 64" "length (ce_value e) < 1024"
      unfolding key_ok_def value_ok_def text_ok_def by blast+
    then show ?thesis by (simp add: entry_line_def)
  qed
  have h: "NL \<notin> set (''['' @ s @ '']'') \<and> length (''['' @ s @ '']'') < CONFIG_LINE - 1"
    using s by (auto simp: section_ok_def text_ok_def)
  have "NL \<notin> set l \<and> length l < CONFIG_LINE - 1" if "l \<in> set (section_lines es s)" for l
  proof -
    from that have "l = ''['' @ s @ '']'' \<or> (\<exists>e \<in> set es. l = entry_line e)"
      by (auto simp: section_lines_def of_section_def)
    then show ?thesis using e h by blast
  qed
  moreover have "\<forall>l \<in> set (file_lines es False ss). NL \<notin> set l \<and> length l < CONFIG_LINE - 1"
    using Cons.IH Cons.prems by simp
  ultimately show ?case by (cases first) auto
qed simp

text \<open>
  C18. What a save writes loads back: for a configuration whose entries hold no separator of the
  syntax in the wrong place, loading the text of a save succeeds, gives the same entries
  grouped by section, and every lookup of every section and key gives the same value.
\<close>

theorem config_save_load:
  assumes "\<forall>e \<in> set (cfg_entries cfg). entry_ok e" "length (cfg_entries cfg) \<le> CONFIG_MAX_ENTRIES"
    and "cfg_path cfg \<noteq> ''''" "length (cfg_path cfg) < 256"
  shows "\<exists>cfg'. config_load (cfg_path cfg) (fst (config_save cfg True True)) = Some cfg' \<and>
           cfg_path cfg' = cfg_path cfg \<and> mset (cfg_entries cfg') = mset (cfg_entries cfg) \<and>
           (\<forall>s k. config_get cfg' s k = config_get cfg s k)"
proof -
  let ?es = "cfg_entries cfg"
  let ?ls = "file_lines ?es True (sections_of {} ?es)"
  have ss: "set (sections_of {} ?es) = ce_section ` set ?es" by (simp add: set_sections)
  have ms: "mset (regroup ?es) = mset ?es" unfolding regroup_def by (rule regroup_mset[OF ss distinct_sections])
  then have len: "length (regroup ?es) \<le> CONFIG_MAX_ENTRIES" using assms(2) by (metis size_mset)
  have save: "fst (config_save cfg True True) = Some (unlines ?ls)"
    using assms(3) by (simp add: config_save_def save_loop_lines)
  have "read_lines (unlines ?ls) = map (\<lambda>l. l @ [NL]) ?ls"
    by (rule read_unlines[OF file_lines_short[OF assms(1)]]) (simp add: ss)
  moreover have "parse_lines '''' [] (map (\<lambda>l. l @ [NL]) ?ls) = (True, regroup ?es)"
    using parse_file_lines[OF assms(1), of "sections_of {} ?es" "[]" "''''" True] ss len by (simp add: regroup_def)
  ultimately have "config_load (cfg_path cfg) (fst (config_save cfg True True)) =
      Some \<lparr>cfg_entries = regroup ?es, cfg_path = cfg_path cfg\<rparr>"
    unfolding save config_load_def parse_file_def using assms(4) by (simp add: c_trunc_id)
  then show ?thesis using ms by (simp add: config_get_lookup lookup_regroup)
qed

theorem config_save_load_witness:
  "config_load ''/etc/k.conf'' (fst (config_save
     \<lparr>cfg_entries = [\<lparr>ce_section = ''group.1'', ce_key = ''name'', ce_value = ''Main Group''\<rparr>,
                     \<lparr>ce_section = ''repeater'', ce_key = ''tail_time'', ce_value = ''2s''\<rparr>,
                     \<lparr>ce_section = ''group.1'', ce_key = ''tx'', ce_value = []\<rparr>],
      cfg_path = ''/etc/k.conf''\<rparr> True True)) \<noteq> None"
  using config_save_load[of "\<lparr>cfg_entries = [\<lparr>ce_section = ''group.1'', ce_key = ''name'', ce_value = ''Main Group''\<rparr>,
                     \<lparr>ce_section = ''repeater'', ce_key = ''tail_time'', ce_value = ''2s''\<rparr>,
                     \<lparr>ce_section = ''group.1'', ce_key = ''tx'', ce_value = []\<rparr>],
      cfg_path = ''/etc/k.conf''\<rparr>"]
  by (force simp: entry_ok_def section_ok_def key_ok_def value_ok_def text_ok_def trimmed_def is_space_def ascii_def)

subsection \<open>Field widths\<close>

definition entry_wf :: "config_entry \<Rightarrow> bool" where
  "entry_wf e \<longleftrightarrow> length (ce_section e) < CONFIG_MAX_SECTION \<and> length (ce_key e) < CONFIG_MAX_KEY \<and>
     length (ce_value e) < CONFIG_MAX_VALUE"

definition config_wf :: "config \<Rightarrow> bool" where
  "config_wf cfg \<longleftrightarrow> length (cfg_entries cfg) \<le> CONFIG_MAX_ENTRIES \<and> (\<forall>e \<in> set (cfg_entries cfg). entry_wf e) \<and>
     length (cfg_path cfg) < 256"

lemma new_entry_wf: "entry_wf (new_entry s k v)"
  by (simp add: entry_wf_def new_entry_def length_c_trunc)

lemma parse_line_cases:
  assumes "parse_line sec es l = Some (sec', es')"
  shows "es' = es \<or> length es < CONFIG_MAX_ENTRIES \<and> (\<exists>k v. es' = es @ [new_entry sec k v])"
  using assms unfolding parse_line_def Let_def
  by (auto split: if_splits option.splits prod.splits simp: not_le)

lemma parse_lines_wf:
  assumes "length es \<le> CONFIG_MAX_ENTRIES \<and> (\<forall>e \<in> set es. entry_wf e)" "parse_lines sec es ls = (ok, es')"
  shows "length es' \<le> CONFIG_MAX_ENTRIES \<and> (\<forall>e \<in> set es'. entry_wf e)"
  using assms
proof (induction sec es ls rule: parse_lines.induct)
  case (2 sec es l ls)
  show ?case
  proof (cases "parse_line sec es l")
    case (Some r)
    obtain sec1 es1 where r: "r = (sec1, es1)" by (metis surj_pair)
    have "length es1 \<le> CONFIG_MAX_ENTRIES \<and> (\<forall>e \<in> set es1. entry_wf e)"
      using parse_line_cases[OF Some[unfolded r]] 2(2) new_entry_wf by auto
    with 2 Some r show ?thesis by simp
  qed (use 2 in simp)
qed simp

lemma parse_file_wf: "parse_file [] content = (ok, es) \<Longrightarrow> length es \<le> CONFIG_MAX_ENTRIES \<and> (\<forall>e \<in> set es. entry_wf e)"
  using parse_lines_wf[of "[]" "''''"] by (auto simp: parse_file_def split: option.splits)

lemma config_set_cases:
  assumes "config_set cfg s k v = (cfg', r)"
  obtains (upd) i where "find_idx (entry_at s k) (cfg_entries cfg) = Some i" "r = 0"
      "cfg' = cfg\<lparr>cfg_entries := (cfg_entries cfg)[i := (cfg_entries cfg ! i)\<lparr>ce_value :=
         strip_newlines (c_trunc CONFIG_MAX_VALUE v)\<rparr>]\<rparr>"
  | (full) "find_idx (entry_at s k) (cfg_entries cfg) = None" "r = -1" "cfg' = cfg" "CONFIG_MAX_ENTRIES \<le> length (cfg_entries cfg)"
  | (add) "find_idx (entry_at s k) (cfg_entries cfg) = None" "r = 0" "length (cfg_entries cfg) < CONFIG_MAX_ENTRIES"
      "cfg' = cfg\<lparr>cfg_entries := cfg_entries cfg @ [\<lparr>ce_section = c_trunc CONFIG_MAX_SECTION s, ce_key = c_trunc CONFIG_MAX_KEY k,
         ce_value = strip_newlines (c_trunc CONFIG_MAX_VALUE v)\<rparr>]\<rparr>"
proof (cases "find_idx (entry_at s k) (cfg_entries cfg)")
  case (Some i)
  then have "r = 0" "cfg' = cfg\<lparr>cfg_entries := (cfg_entries cfg)[i := (cfg_entries cfg ! i)\<lparr>ce_value :=
         strip_newlines (c_trunc CONFIG_MAX_VALUE v)\<rparr>]\<rparr>"
    using assms by (simp_all add: config_set_def Let_def)
  with Some upd show thesis by blast
next
  case None
  show thesis
  proof (cases "CONFIG_MAX_ENTRIES \<le> length (cfg_entries cfg)")
    case True
    then have "r = -1" "cfg' = cfg" using assms None by (simp_all add: config_set_def Let_def)
    with None True full show thesis by blast
  next
    case False
    then have "r = 0" "cfg' = cfg\<lparr>cfg_entries := cfg_entries cfg @ [\<lparr>ce_section = c_trunc CONFIG_MAX_SECTION s,
        ce_key = c_trunc CONFIG_MAX_KEY k, ce_value = strip_newlines (c_trunc CONFIG_MAX_VALUE v)\<rparr>]\<rparr>"
      using assms None by (simp_all add: config_set_def new_entry_def Let_def)
    with None False add show thesis by simp
  qed
qed

lemma length_strip [simp]: "length (strip_newlines v) = length v"
  by (simp add: strip_newlines_def)

lemma config_set_wf:
  assumes "config_wf cfg" "config_set cfg s k v = (cfg', r)"
  shows "config_wf cfg'"
  using assms(2)
proof (cases rule: config_set_cases)
  case (upd i)
  have i: "i < length (cfg_entries cfg)" using find_idx_less[OF upd(1)] .
  have "entry_wf ((cfg_entries cfg ! i)\<lparr>ce_value := strip_newlines (c_trunc CONFIG_MAX_VALUE v)\<rparr>)"
    using assms(1) nth_mem[OF i] by (auto simp: config_wf_def entry_wf_def length_c_trunc)
  then have "\<forall>e \<in> set (cfg_entries cfg'). entry_wf e"
    using assms(1) unfolding upd(3) by (auto simp: config_wf_def dest: subsetD[OF set_update_subset_insert])
  with assms(1) show ?thesis unfolding upd(3) by (simp add: config_wf_def)
next
  case add
  then show ?thesis using assms(1) by (auto simp: config_wf_def entry_wf_def length_c_trunc)
qed (use assms(1) in simp)

text \<open>
  C21. The fields of the table keep their widths: every load and reload, whatever the file, and
  every update and removal leave at most 1024 entries whose sections, keys and values fit
  their arrays with the terminating NUL, and a path that fits its own.
\<close>

theorem config_well_formed:
  "(config_load path content = Some cfg \<longrightarrow> config_wf cfg) \<and>
   (config_wf cfg \<longrightarrow> config_wf (fst (config_reload cfg content)) \<and>
      config_wf (fst (config_set cfg s k v)) \<and> config_wf (config_remove_section cfg s))"
proof (intro conjI impI)
  assume "config_load path content = Some cfg"
  then show "config_wf cfg"
    using parse_file_wf[of content] by (auto simp: config_load_def config_wf_def length_c_trunc split: prod.splits bool.splits)
next
  assume wf: "config_wf cfg"
  show "config_wf (fst (config_reload cfg content))"
    using wf parse_file_wf[of content] by (auto simp: config_reload_def config_wf_def split: prod.splits)
  show "config_wf (fst (config_set cfg s k v))" using config_set_wf[OF wf] by (metis prod.collapse)
  show "config_wf (config_remove_section cfg s)"
    using wf by (auto simp: config_wf_def config_remove_section_def intro: order_trans[OF length_filter_le])
qed

theorem config_well_formed_witness:
  "config_wf (fst (config_set config_create ''repeater'' ''tail_time'' ''2s''))"
  using config_well_formed[of "[]" None config_create "''repeater''" "''tail_time''" "''2s''"]
  by (simp add: config_wf_def config_create_def)

subsection \<open>The table as a map\<close>

text \<open>
  What the users of a settings store rely on: a successful update of a key that fits changes
  exactly that key, to the value as it is stored, and a refused one changes nothing.
\<close>

locale settings =
  fixes get :: "'s \<Rightarrow> 'k \<Rightarrow> string option"
    and put :: "'s \<Rightarrow> 'k \<Rightarrow> string \<Rightarrow> 's \<times> int"
    and stored :: "string \<Rightarrow> string"
    and fits :: "'k \<Rightarrow> bool"
  assumes put_get: "fits k \<Longrightarrow> put s k v = (s', 0) \<Longrightarrow> get s' = (get s)(k \<mapsto> stored v)"
    and put_refused: "put s k v = (s', r) \<Longrightarrow> r \<noteq> 0 \<Longrightarrow> s' = s"
begin

fun put_all :: "'s \<Rightarrow> ('k \<times> string) list \<Rightarrow> 's \<times> bool" where
  "put_all s [] = (s, True)"
| "put_all s ((k, v) # kvs) =
     (let (s1, r) = put s k v in if r = 0 then put_all s1 kvs else (s1, False))"

lemma put_all_get:
  assumes "put_all s kvs = (s', True)" "\<forall>k \<in> fst ` set kvs. fits k"
  shows "get s' = get s ++ map_of (rev (map (\<lambda>(k, v). (k, stored v)) kvs))"
  using assms
proof (induction s kvs rule: put_all.induct)
  case (2 s k v kvs)
  obtain s1 r where p: "put s k v = (s1, r)" by (metis surj_pair)
  with 2(2) have r: "r = 0" "put_all s1 kvs = (s', True)" by (auto split: if_splits)
  have "get s1 = (get s)(k \<mapsto> stored v)" using put_get p r(1) 2(3) by auto
  have "get s' = get s1 ++ map_of (rev (map (\<lambda>(k, v). (k, stored v)) kvs))"
    using 2(1)[OF p[symmetric] refl r(1) r(2)] 2(3) by simp
  with \<open>get s1 = (get s)(k \<mapsto> stored v)\<close> show ?case by (simp add: map_add_assoc[symmetric])
qed simp

end

lemma find_idx_update:
  assumes "find_idx (entry_at s k) es = Some i"
  shows "lookup (es[i := (es ! i)\<lparr>ce_value := v\<rparr>]) s' k' = (if s' = s \<and> k' = k then Some v else lookup es s' k')"
  using assms
proof (induction es arbitrary: i)
  case (Cons e es)
  show ?case
  proof (cases "entry_at s k e")
    case True
    with Cons.prems have "i = 0" by simp
    with True show ?thesis by (auto simp: lookup_def entry_at_def)
  next
    case False
    with Cons.prems obtain j where j: "find_idx (entry_at s k) es = Some j" "i = Suc j" by auto
    from False have ne: "\<not> (ce_section e = s \<and> ce_key e = k)" by (simp add: entry_at_def)
    show ?thesis
    proof (cases "entry_at s' k' e")
      case True
      with ne have "\<not> (s' = s \<and> k' = k)" by (auto simp: entry_at_def)
      with True j show ?thesis by (auto simp: lookup_def)
    next
      case f: False
      with Cons.IH[OF j(1)] j show ?thesis by (simp add: lookup_def)
    qed
  qed
qed simp

lemma lookup_add:
  assumes "find_idx (entry_at s k) es = None"
  shows "lookup (es @ [\<lparr>ce_section = s, ce_key = k, ce_value = v\<rparr>]) s' k' =
         (if s' = s \<and> k' = k then Some v else lookup es s' k')"
proof -
  have "find (entry_at s k) es = None" by (simp add: find_idx_find assms)
  then show ?thesis by (auto simp: lookup_def find_append entry_at_def split: option.splits)
qed

definition fits_names :: "string \<times> string \<Rightarrow> bool" where
  "fits_names sk \<longleftrightarrow> length (fst sk) < CONFIG_MAX_SECTION \<and> length (snd sk) < CONFIG_MAX_KEY"

definition stored_value :: "string \<Rightarrow> string" where
  "stored_value v = strip_newlines (c_trunc CONFIG_MAX_VALUE v)"

lemma config_set_get:
  assumes "fits_names (s, k)" "config_set cfg s k v = (cfg', 0)"
  shows "config_get cfg' s' k' = (if s' = s \<and> k' = k then Some (stored_value v) else config_get cfg s' k')"
  using assms(2)
proof (cases rule: config_set_cases)
  case (upd i)
  then show ?thesis by (simp add: config_get_lookup find_idx_update[OF upd(1)] stored_value_def)
next
  case add
  have "c_trunc CONFIG_MAX_SECTION s = s" "c_trunc CONFIG_MAX_KEY k = k"
    using assms(1) by (simp_all add: fits_names_def c_trunc_id)
  with add show ?thesis by (simp add: config_get_lookup lookup_add[OF add(1)] stored_value_def)
qed simp

interpretation cs: settings "\<lambda>cfg sk. config_get cfg (fst sk) (snd sk)" "\<lambda>cfg sk. config_set cfg (fst sk) (snd sk)"
    stored_value fits_names
proof unfold_locales
  show "fits_names k \<Longrightarrow> config_set s (fst k) (snd k) v = (s', 0) \<Longrightarrow>
      (\<lambda>sk. config_get s' (fst sk) (snd sk)) = (\<lambda>sk. config_get s (fst sk) (snd sk))(k \<mapsto> stored_value v)" for k s v s'
    using config_set_get[of "fst k" "snd k"] by (auto simp: fun_eq_iff prod_eq_iff)
  show "config_set s (fst k) (snd k) v = (s', r) \<Longrightarrow> r \<noteq> 0 \<Longrightarrow> s' = s" for k s v s' r
    by (erule config_set_cases) simp_all
qed

fun config_set_all :: "config \<Rightarrow> ((string \<times> string) \<times> string) list \<Rightarrow> config \<times> bool" where
  "config_set_all cfg [] = (cfg, True)"
| "config_set_all cfg ((sk, v) # kvs) =
     (let (cfg1, r) = config_set cfg (fst sk) (snd sk) v in if r = 0 then config_set_all cfg1 kvs else (cfg1, False))"

lemma config_set_all_eq: "config_set_all cfg kvs = cs.put_all cfg kvs"
  by (induction cfg kvs rule: config_set_all.induct) (auto simp: Let_def split: prod.splits)

text \<open>
  Updates refine a map: after any sequence of successful updates of names that fit their
  arrays, every lookup gives the last value set for its section and key (with newlines made
  spaces, at most 1023 characters), or what it gave before when none was set.
\<close>

theorem config_refines_map:
  assumes "config_set_all cfg kvs = (cfg', True)" "\<forall>sk \<in> fst ` set kvs. fits_names sk"
  shows "config_get cfg' s k =
    (case map_of (rev kvs) (s, k) of Some v \<Rightarrow> Some (stored_value v) | None \<Rightarrow> config_get cfg s k)"
proof -
  have "config_get cfg' s k =
      ((\<lambda>sk. config_get cfg (fst sk) (snd sk)) ++ map_of (rev (map (\<lambda>(k, v). (k, stored_value v)) kvs))) (s, k)"
    using cs.put_all_get[OF assms(1)[unfolded config_set_all_eq] assms(2)] by (metis fst_conv snd_conv)
  also have "map_of (rev (map (\<lambda>(k, v). (k, stored_value v)) kvs)) (s, k) = map_option stored_value (map_of (rev kvs) (s, k))"
    unfolding rev_map by (simp add: map_of_map)
  ultimately show ?thesis by (simp add: map_add_def split: option.splits)
qed

theorem config_refines_map_witness:
  "config_get (fst (config_set_all config_create [((''a'', ''k''), ''1''), ((''a'', ''k''), ''2'')])) ''a'' ''k'' = Some ''2''"
proof -
  obtain cfg' where s: "config_set_all config_create [((''a'', ''k''), ''1''), ((''a'', ''k''), ''2'')] = (cfg', True)"
    by (simp add: config_create_def config_set_def entry_at_def new_entry_def c_trunc_def)
  have "\<forall>sk \<in> fst ` set [((''a'', ''k''), ''1''), ((''a'', ''k''), ''2'')]. fits_names sk" by (simp add: fits_names_def)
  from config_refines_map[OF s this, of "''a''" "''k''"] s show ?thesis
    by (simp add: stored_value_def strip_newlines_def c_trunc_def del: config_set_all.simps)
qed

text \<open>
  A name that does not fit is stored cut: setting a key of 64 characters or more in a table with
  room reports success, and a lookup of the same key still finds nothing.
\<close>

theorem config_long_key_lost:
  assumes "config_wf cfg" "CONFIG_MAX_KEY \<le> length k" "length (cfg_entries cfg) < CONFIG_MAX_ENTRIES"
    "config_set cfg s k v = (cfg', r)"
  shows "r = 0 \<and> config_get cfg' s k = None"
proof -
  have none: "find_idx (entry_at s k) es = None" if "\<forall>e \<in> set es. entry_wf e" for es
    unfolding find_idx_None using that assms(2) by (auto simp: entry_at_def entry_wf_def)
  from assms(4) have "r = 0"
  proof (cases rule: config_set_cases)
    case full
    with assms(3) show ?thesis by simp
  qed simp_all
  moreover have "\<forall>e \<in> set (cfg_entries cfg'). entry_wf e"
    using config_set_wf[OF assms(1,4)] by (simp add: config_wf_def)
  from none[OF this] have "config_get cfg' s k = None" by (simp add: config_get_def)
  ultimately show ?thesis by simp
qed

theorem config_long_key_lost_witness:
  "config_get (fst (config_set config_create ''web'' (replicate 70 CHR ''k'') ''1'')) ''web'' (replicate 70 CHR ''k'') = None"
proof -
  let ?k = "replicate 70 CHR ''k''"
  obtain cfg' r where s: "config_set config_create ''web'' ?k ''1'' = (cfg', r)" by (metis surj_pair)
  have "r = 0 \<and> config_get cfg' ''web'' ?k = None"
    by (rule config_long_key_lost[OF _ _ _ s]) (simp_all add: config_wf_def config_create_def)
  with s show ?thesis by simp
qed

end
