(* ===== verification/Config_Duration.thy ===== *)
theory Config_Duration
  imports Config
begin

text \<open>
  The meaning of a duration text: the sum of its components, as long as nothing overflows an
  \<open>int\<close>; and the corner cases in which it is not.
\<close>

datatype time_unit = Hours | Minutes | Seconds | Millis

fun unit_text :: "time_unit \<Rightarrow> string" where
  "unit_text Hours = ''h''" | "unit_text Minutes = ''m''" | "unit_text Seconds = ''s''" | "unit_text Millis = ''ms''"

text \<open>A component is a decimal number, its decimals (possibly none) and a unit.\<close>

type_synonym component = "string \<times> string \<times> time_unit"

definition number_text :: "string \<Rightarrow> string \<Rightarrow> string" where
  "number_text ds fs = ds @ (if fs = [] then [] else CHR ''.'' # fs)"

fun comp_text :: "component \<Rightarrow> string" where
  "comp_text (ds, fs, u) = number_text ds fs @ unit_text u"

fun comp_ms :: "component \<Rightarrow> int" where
  "comp_ms (ds, fs, Hours) = dec_val ds * 3600000 + frac_ms fs * 3600"
| "comp_ms (ds, fs, Minutes) = dec_val ds * 60000 + frac_ms fs * 60"
| "comp_ms (ds, fs, Seconds) = dec_val ds * 1000 + frac_ms fs"
| "comp_ms (ds, fs, Millis) = dec_val ds"

fun comp_ok :: "component \<Rightarrow> bool" where
  "comp_ok (ds, fs, u) \<longleftrightarrow> ds \<noteq> [] \<and> (\<forall>c \<in> set ds. is_digit c) \<and> (\<forall>c \<in> set fs. is_digit c) \<and>
     dec_val ds * 1000 + frac_ms fs \<le> INT_MAX"

definition duration_text :: "component list \<Rightarrow> string" where
  "duration_text cs = concat (map comp_text cs)"

definition duration_ms :: "component list \<Rightarrow> int" where
  "duration_ms cs = sum_list (map comp_ms cs)"

lemma dec_val_less: "\<forall>c \<in> set ds. is_digit c \<Longrightarrow> dec_val ds < 10 ^ length ds"
proof (induction ds rule: rev_induct)
  case (snoc c ds)
  then show ?case using digit_val_range[of c] by (simp add: dec_val_append)
qed (simp add: dec_val_def)

lemma frac_range:
  assumes "\<forall>c \<in> set fs. is_digit c"
  shows "0 \<le> frac_ms fs \<and> frac_ms fs < 1000"
proof -
  have d: "\<forall>c \<in> set (take 3 fs). is_digit c" using assms by (auto dest: in_set_takeD)
  from dec_val_less[OF this] have "frac_ms fs < 10 ^ length (take 3 fs) * 10 ^ (3 - length fs)"
    unfolding frac_ms_def by (simp del: length_take)
  also have "\<dots> = 10 ^ (length (take 3 fs) + (3 - length fs))" by (simp add: power_add)
  also have "length (take 3 fs) + (3 - length fs) = 3" by simp
  finally show ?thesis using dec_val_nonneg[OF d] by (simp add: frac_ms_def)
qed

lemma int_digits_val:
  assumes "\<forall>c \<in> set ds. is_digit c" "dec_val ds \<le> INT_MAX"
  shows "int_digits ds = dec_val ds"
  using assms
proof (induction ds rule: rev_induct)
  case (snoc c ds)
  have "dec_val ds \<le> INT_MAX" using dec_val_prefix_le[of ds "[c]"] snoc.prems by simp
  with snoc have "int_digits ds = dec_val ds" by simp
  moreover have "0 \<le> dec_val (ds @ [c])" using dec_val_nonneg[of "ds @ [c]"] snoc.prems(1) by simp
  ultimately show ?case
    using snoc.prems(2) by (simp add: int_digits_def dec_val_append wrap32_id)
qed (simp add: int_digits_def dec_val_def)

text \<open>A number is read up to the unit.\<close>

lemma parse_number:
  assumes "\<forall>c \<in> set ds. is_digit c" "\<forall>c \<in> set fs. is_digit c" "dec_val ds * 1000 + frac_ms fs \<le> INT_MAX"
    and "r \<noteq> []" "\<not> is_digit (hd r)" "hd r \<noteq> CHR ''.''"
  shows "parse_number_ms (number_text ds fs @ r) = (dec_val ds * 1000 + frac_ms fs, r)"
proof -
  obtain x xs where r: "r = x # xs" using assms(4) by (cases r) auto
  have n0: "0 \<le> dec_val ds" by (rule dec_val_nonneg[OF assms(1)])
  have f: "0 \<le> frac_ms fs" "frac_ms fs < 1000" using frac_range[OF assms(2)] by auto
  have n: "int_digits ds = dec_val ds" using int_digits_val[OF assms(1)] assms(3) n0 f by simp
  have w: "wrap32 (wrap32 (dec_val ds * 1000) + frac_ms fs) = dec_val ds * 1000 + frac_ms fs"
    using n0 f assms(3) by (simp add: wrap32_id)
  have dot: "\<not> is_digit (CHR ''.'')" by (simp add: is_digit_def ascii_def)
  show ?thesis
  proof (cases "fs = []")
    case True
    then have e: "number_text ds fs @ r = ds @ x # xs" by (simp add: number_text_def r)
    have "takeWhile is_digit (ds @ x # xs) = ds" "dropWhile is_digit (ds @ x # xs) = x # xs"
      using assms(1,5) r by (simp_all add: takeWhile_append dropWhile_append)
    then show ?thesis unfolding e parse_number_ms_def Let_def
      using assms(6) w n True r by (simp add: frac_ms_def dec_val_def)
  next
    case False
    then have e: "number_text ds fs @ r = ds @ CHR ''.'' # fs @ x # xs" by (simp add: number_text_def r)
    have "takeWhile is_digit (ds @ CHR ''.'' # fs @ x # xs) = ds"
      "dropWhile is_digit (ds @ CHR ''.'' # fs @ x # xs) = CHR ''.'' # fs @ x # xs"
      using assms(1) dot by (simp_all add: takeWhile_append dropWhile_append)
    moreover have "takeWhile is_digit (fs @ x # xs) = fs" "dropWhile is_digit (fs @ x # xs) = x # xs"
      using assms(2,5) r by (simp_all add: takeWhile_append dropWhile_append)
    ultimately show ?thesis unfolding e parse_number_ms_def Let_def using w n r by simp
  qed
qed

lemma unit_head: "unit_text u @ r \<noteq> []" "\<not> is_digit (hd (unit_text u @ r))" "hd (unit_text u @ r) \<noteq> CHR ''.''"
  by (cases u; simp add: is_digit_def ascii_def)+

lemma scale_unit_val:
  assumes "0 \<le> n" "0 \<le> f" "f < 1000" "comp_ms (ds, fs, u) \<le> INT_MAX" "n = dec_val ds" "f = frac_ms fs"
    and "r = [] \<or> is_digit (hd r)"
  shows "scale_unit (n * 1000 + f) (unit_text u @ r) = Some (comp_ms (ds, fs, u), r)"
proof -
  have q: "cdiv (n * 1000 + f) 1000 = n" "cmod (n * 1000 + f) 1000 = f"
    using assms(1-3) by (simp_all add: cdiv_nonneg cmod_nonneg)
  have s: "r = [] \<or> hd r \<noteq> CHR ''s''" using assms(7) by (auto simp: is_digit_def ascii_def)
  show ?thesis
    using assms(1-6) q s by (cases u) (auto simp: scale_unit_def wrap32_id)
qed

lemma comp_ms_nonneg: "comp_ok c \<Longrightarrow> 0 \<le> comp_ms c"
proof -
  assume ok: "comp_ok c"
  obtain ds fs u where c: "c = (ds, fs, u)" by (metis prod_cases3)
  show ?thesis using ok dec_val_nonneg[of ds] frac_range[of fs] unfolding c by (cases u) auto
qed

lemma duration_nonneg: "\<forall>c \<in> set cs. comp_ok c \<Longrightarrow> 0 \<le> duration_ms cs"
  by (induction cs) (auto simp: duration_ms_def comp_ms_nonneg add_nonneg_nonneg)

lemma duration_text_head:
  "\<forall>c \<in> set cs. comp_ok c \<Longrightarrow> duration_text cs = [] \<or> is_digit (hd (duration_text cs))"
proof (cases cs)
  case (Cons c cs')
  assume "\<forall>c \<in> set cs. comp_ok c"
  moreover obtain ds fs u where "c = (ds, fs, u)" by (metis prod_cases3)
  ultimately show ?thesis using Cons by (cases ds) (auto simp: duration_text_def number_text_def)
qed (simp add: duration_text_def)

lemma duration_loop_sum:
  assumes "\<forall>c \<in> set cs. comp_ok c" "0 \<le> t" "t + duration_ms cs \<le> INT_MAX"
  shows "duration_loop t (duration_text cs) = Some (t + duration_ms cs)"
  using assms
proof (induction cs arbitrary: t)
  case Nil
  then show ?case by (simp add: duration_loop.simps[of t "[]"] duration_text_def duration_ms_def)
next
  case (Cons c cs)
  obtain ds fs u where c: "c = (ds, fs, u)" by (metis prod_cases3)
  from Cons.prems(1) c have ok: "ds \<noteq> []" "\<forall>x \<in> set ds. is_digit x" "\<forall>x \<in> set fs. is_digit x"
    "dec_val ds * 1000 + frac_ms fs \<le> INT_MAX" and oks: "\<forall>c \<in> set cs. comp_ok c" by auto
  let ?r = "duration_text cs"
  have p: "duration_text (c # cs) = number_text ds fs @ unit_text u @ ?r" by (simp add: duration_text_def c)
  have hd: "hd (duration_text (c # cs)) = hd ds" "duration_text (c # cs) \<noteq> []"
    using ok(1) by (simp_all add: p number_text_def)
  then have dig: "is_digit (hd (duration_text (c # cs)))" using ok(1,2) by simp
  then have "hd (duration_text (c # cs)) \<noteq> CHR '' ''" by (auto simp: is_digit_def ascii_def)
  then have drop: "dropWhile (\<lambda>c. c = CHR '' '') (duration_text (c # cs)) = duration_text (c # cs)"
    using hd(2) by (cases "duration_text (c # cs)") auto
  have num: "parse_number_ms (duration_text (c # cs)) = (dec_val ds * 1000 + frac_ms fs, unit_text u @ ?r)"
    unfolding p by (rule parse_number[OF ok(2-4) unit_head])
  have v0: "0 \<le> comp_ms c" using comp_ms_nonneg Cons.prems(1) by simp
  have d0: "0 \<le> duration_ms cs" by (rule duration_nonneg[OF oks])
  have sum: "duration_ms (c # cs) = comp_ms c + duration_ms cs" by (simp add: duration_ms_def)
  have "scale_unit (dec_val ds * 1000 + frac_ms fs) (unit_text u @ ?r) = Some (comp_ms (ds, fs, u), ?r)"
    by (rule scale_unit_val)
       (use dec_val_nonneg[OF ok(2)] frac_range[OF ok(3)] Cons.prems(2,3) d0 sum c duration_text_head[OF oks] in auto)
  then have "scale_unit (dec_val ds * 1000 + frac_ms fs) (unit_text u @ ?r) = Some (comp_ms c, ?r)" by (simp only: c)
  then have "duration_loop t (duration_text (c # cs)) = duration_loop (wrap32 (t + comp_ms c)) ?r"
    using hd(2) dig by (simp add: duration_loop.simps[of t "duration_text (c # cs)"] drop num Let_def)
  also have "wrap32 (t + comp_ms c) = t + comp_ms c" using Cons.prems(2,3) v0 d0 sum by (simp add: wrap32_id)
  also have "duration_loop (t + comp_ms c) ?r = Some (t + comp_ms c + duration_ms cs)"
    by (rule Cons.IH[OF oks]) (use Cons.prems(2,3) v0 sum in auto)
  finally show ?case by (simp add: sum)
qed

text \<open>
  A duration text means the sum of its components: for any sequence of numbers with or
  without decimals and units h, m, s or ms, the parser returns the sum in milliseconds (three
  decimals count), whatever the default, provided that the sum is positive and neither it nor
  any number in thousandths exceeds the range of an int.
\<close>

theorem duration_parses:
  assumes "\<forall>c \<in> set cs. comp_ok c" "0 < duration_ms cs" "duration_ms cs \<le> INT_MAX"
  shows "parse_duration_ms (Some (duration_text cs)) def_ms = duration_ms cs"
proof -
  have ne: "cs \<noteq> []" using assms(2) by (auto simp: duration_ms_def)
  then obtain c cs' where c: "cs = c # cs'" by (cases cs) auto
  obtain ds fs u where cu: "c = (ds, fs, u)" by (metis prod_cases3)
  have "hd (unit_text u) \<in> set (duration_text cs)" "\<not> is_digit (hd (unit_text u))"
    unfolding c cu by (cases u; simp add: duration_text_def is_digit_def ascii_def)+
  then have "\<not> (\<forall>x \<in> set (duration_text cs). is_digit x)" "duration_text cs \<noteq> []" by auto
  with duration_loop_sum[OF assms(1), of 0] assms(2,3) show ?thesis
    by (auto simp: parse_duration_ms_def)
qed

theorem duration_parses_witness: "parse_duration_ms (Some ''1h30m0.5s20ms'') 7 = 5400520"
  using duration_parses[of "[(''1'', [], Hours), (''30'', [], Minutes), (''0'', ''5'', Seconds), (''20'', [], Millis)]" 7]
  by (simp add: duration_text_def duration_ms_def number_text_def frac_ms_def dec_val_def digit_val_def is_digit_def ascii_def)

text \<open>
  The corner cases: a text that adds up to zero gives the default (digits alone give zero);
  a count of milliseconds above 2147483 wraps around although its value fits an int; and a
  text that is no duration gives the default.
\<close>

theorem duration_corners:
  "parse_duration_ms (Some ''0s'') 500 = 500 \<and> parse_duration_ms (Some ''0'') 500 = 0 \<and>
   parse_duration_ms (Some ''3000000ms'') 500 \<noteq> 3000000 \<and>
   parse_duration_ms (Some ''ten'') 500 = 500 \<and> parse_duration_ms (Some ''10 '') 500 = 500"
  by code_simp

end
