(* ===== verification/Sched.thy ===== *)
theory Sched
  imports Prelude
begin

text \<open>
  The wall-clock scheduler (\<open>src/kerchunk_sched.c\<close>): 64 slots that hold absolute times or aligned,
  possibly repeating, schedules. A time is seconds and nanoseconds since the epoch; each reading
  of the clock is an argument. A tick collects what is due under the mutex and runs the
  callbacks after it, on the whole state.
\<close>

record timespec =
  tv_sec :: int
  tv_nsec :: int

record 'cb sched_entry =
  s_active :: bool
  s_id :: int
  s_repeat :: bool
  s_align_ms :: int
  s_offset_ms :: int
  s_fire_time :: timespec
  s_callback :: 'cb

record 'cb schedules =
  s_slots :: "'cb sched_entry list"
  s_next_id :: int

abbreviation MAX_SCHEDULES :: nat where "MAX_SCHEDULES \<equiv> 64"

definition ts_cmp :: "timespec \<Rightarrow> timespec \<Rightarrow> int" where
  "ts_cmp a b =
     (if tv_sec a \<noteq> tv_sec b then (if tv_sec a < tv_sec b then -1 else 1)
      else if tv_nsec a \<noteq> tv_nsec b then (if tv_nsec a < tv_nsec b then -1 else 1)
      else 0)"

definition epoch_ms :: "timespec \<Rightarrow> int" where
  "epoch_ms now = tv_sec now * 1000 + cdiv (tv_nsec now) 1000000"

text \<open>\<open>while (next <= epoch_ms) next += align;\<close>\<close>

function advance_past :: "int \<Rightarrow> int \<Rightarrow> int \<Rightarrow> int" where
  "advance_past epoch align next_ms =
     (if 0 < align \<and> next_ms \<le> epoch then advance_past epoch align (next_ms + align) else next_ms)"
  by pat_completeness auto

termination by (relation "measure (\<lambda>(e, a, n). nat (e - n + 1))") auto

declare advance_past.simps [simp del]

definition next_boundary :: "int \<Rightarrow> int \<Rightarrow> int \<Rightarrow> int" where
  "next_boundary epoch align offset = advance_past epoch align ((cdiv epoch align + 1) * align + offset)"

definition compute_next_boundary :: "timespec \<Rightarrow> 'cb sched_entry \<Rightarrow> 'cb sched_entry" where
  "compute_next_boundary now e =
     (let next_ms = next_boundary (epoch_ms now) (s_align_ms e) (s_offset_ms e)
      in e\<lparr>s_fire_time := \<lparr>tv_sec = cdiv next_ms 1000, tv_nsec = cmod next_ms 1000 * 1000000\<rparr>\<rparr>)"

definition empty_sched :: "'cb \<Rightarrow> 'cb sched_entry" where
  "empty_sched cb = \<lparr>s_active = False, s_id = 0, s_repeat = False, s_align_ms = 0, s_offset_ms = 0,
     s_fire_time = \<lparr>tv_sec = 0, tv_nsec = 0\<rparr>, s_callback = cb\<rparr>"

definition sched_init :: "'cb \<Rightarrow> 'cb schedules" where
  "sched_init cb = \<lparr>s_slots = replicate MAX_SCHEDULES (empty_sched cb), s_next_id = 1\<rparr>"

definition sched_shutdown :: "'cb schedules \<Rightarrow> 'cb schedules" where
  "sched_shutdown t = t\<lparr>s_slots := map (\<lambda>e. e\<lparr>s_active := False\<rparr>) (s_slots t)\<rparr>"

definition sched_at :: "'cb schedules \<Rightarrow> timespec option \<Rightarrow> 'cb option \<Rightarrow> 'cb schedules \<times> int" where
  "sched_at t when_ts cb =
     (case (when_ts, cb) of
        (Some w, Some c) \<Rightarrow>
          (case find_idx (\<lambda>e. \<not> s_active e) (s_slots t) of
             None \<Rightarrow> (t, -1)
           | Some i \<Rightarrow>
               (t\<lparr>s_slots := (s_slots t)[i := \<lparr>s_active = True, s_id = s_next_id t, s_repeat = False,
                     s_align_ms = 0, s_offset_ms = 0, s_fire_time = w, s_callback = c\<rparr>],
                  s_next_id := s_next_id t + 1\<rparr>, s_next_id t))
      | _ \<Rightarrow> (t, -1))"

definition sched_aligned ::
  "timespec \<Rightarrow> 'cb schedules \<Rightarrow> int \<Rightarrow> int \<Rightarrow> bool \<Rightarrow> 'cb option \<Rightarrow> 'cb schedules \<times> int" where
  "sched_aligned now t align_ms offset_ms rep cb =
     (case cb of None \<Rightarrow> (t, -1)
      | Some c \<Rightarrow>
          if align_ms \<le> 0 then (t, -1)
          else (case find_idx (\<lambda>e. \<not> s_active e) (s_slots t) of
                  None \<Rightarrow> (t, -1)
                | Some i \<Rightarrow>
                    (let e = (s_slots t ! i)\<lparr>s_active := True, s_id := s_next_id t, s_repeat := rep,
                               s_align_ms := align_ms, s_offset_ms := offset_ms, s_callback := c\<rparr>
                     in (t\<lparr>s_slots := (s_slots t)[i := compute_next_boundary now e],
                           s_next_id := s_next_id t + 1\<rparr>, s_next_id t))))"

definition sched_cancel :: "'cb schedules \<Rightarrow> int \<Rightarrow> 'cb schedules" where
  "sched_cancel t sid =
     (case find_idx (\<lambda>e. s_active e \<and> s_id e = sid) (s_slots t) of
        None \<Rightarrow> t
      | Some i \<Rightarrow> t\<lparr>s_slots := (s_slots t)[i := (s_slots t ! i)\<lparr>s_active := False\<rparr>]\<rparr>)"

text \<open>
  The scan of a tick: \<open>clk i\<close> is the clock when slot \<open>i\<close> is rescheduled. The result is the new
  slots and the callbacks to run.
\<close>

fun sched_scan ::
  "timespec \<Rightarrow> (nat \<Rightarrow> timespec) \<Rightarrow> nat \<Rightarrow> 'cb sched_entry list \<Rightarrow> 'cb sched_entry list \<times> 'cb list" where
  "sched_scan now clk i [] = ([], [])"
| "sched_scan now clk i (e # es) =
     (let (es', fire) = sched_scan now clk (Suc i) es
      in if \<not> s_active e \<or> ts_cmp now (s_fire_time e) < 0 then (e # es', fire)
         else ((if s_repeat e \<and> s_align_ms e > 0 then compute_next_boundary (clk i) e
                else e\<lparr>s_active := False\<rparr>) # es', s_callback e # fire))"

definition sched_tick ::
  "('s \<Rightarrow> 'cb schedules) \<Rightarrow> ('cb schedules \<Rightarrow> 's \<Rightarrow> 's) \<Rightarrow> ('cb \<Rightarrow> 's \<Rightarrow> 's) \<Rightarrow> timespec \<Rightarrow> (nat \<Rightarrow> timespec) \<Rightarrow>
   's \<Rightarrow> 's" where
  "sched_tick get put run now clk s =
     (let t = get s; (slots, fire) = sched_scan now clk 0 (s_slots t)
      in foldl (\<lambda>s c. run c s) (put (t\<lparr>s_slots := slots\<rparr>) s) fire)"

definition sched_count :: "'cb schedules \<Rightarrow> nat" where
  "sched_count t = length (filter s_active (s_slots t))"

text \<open>What the iteration passes to its callback for each active schedule.\<close>

definition sched_iter :: "'cb schedules \<Rightarrow> (int \<times> string \<times> timespec \<times> bool) list" where
  "sched_iter t =
     map (\<lambda>e. (s_id e, if s_align_ms e > 0 then ''aligned'' else ''absolute'', s_fire_time e, s_repeat e))
         (filter s_active (s_slots t))"

subsection \<open>The next boundary\<close>

lemma advance_past_spec:
  assumes "0 < align" "n mod align = c mod align"
  shows "epoch < advance_past epoch align n \<and> advance_past epoch align n mod align = c mod align \<and>
         n \<le> advance_past epoch align n \<and>
         (n \<le> epoch \<longrightarrow> advance_past epoch align n \<le> epoch + align) \<and>
         (epoch < n \<longrightarrow> advance_past epoch align n = n)"
  using assms
proof (induction epoch align n rule: advance_past.induct)
  case (1 epoch align n)
  show ?case
  proof (cases "n \<le> epoch")
    case True
    then have e: "advance_past epoch align n = advance_past epoch align (n + align)"
      using 1(2) by (simp add: advance_past.simps[of epoch align n])
    have "(n + align) mod align = c mod align" using 1(3) by simp
    with 1(1) 1(2) True have IH: "epoch < advance_past epoch align (n + align)"
      "advance_past epoch align (n + align) mod align = c mod align" "n + align \<le> advance_past epoch align (n + align)"
      "n + align \<le> epoch \<longrightarrow> advance_past epoch align (n + align) \<le> epoch + align"
      "epoch < n + align \<longrightarrow> advance_past epoch align (n + align) = n + align" by auto
    then show ?thesis using True 1(2) unfolding e by (cases "epoch < n + align") auto
  next
    case False
    then show ?thesis using 1 by (simp add: advance_past.simps[of epoch align n])
  qed
qed

text \<open>
  The next boundary of an aligned schedule lies strictly in the future, is a multiple of
  the period plus the offset, and comes at most a period and a positive offset later. With an offset
  of zero or less it is the first such time; with a positive offset it need not be.
\<close>

theorem sched_next_boundary:
  assumes "0 \<le> epoch" "0 < align"
  shows "epoch < next_boundary epoch align offset \<and>
         next_boundary epoch align offset mod align = offset mod align \<and>
         next_boundary epoch align offset \<le> epoch + align + max 0 offset \<and>
         (offset \<le> 0 \<longrightarrow> (\<forall>b. epoch < b \<longrightarrow> b mod align = offset mod align \<longrightarrow> next_boundary epoch align offset \<le> b))"
proof -
  define n where "n = (cdiv epoch align + 1) * align + offset"
  have n: "n = epoch div align * align + align + offset"
    using assms by (simp add: n_def cdiv_nonneg algebra_simps)
  have nm: "n mod align = offset mod align" by (simp add: n_def)
  have q: "epoch - align < epoch div align * align" "epoch div align * align \<le> epoch"
    using assms pos_mod_bound[of align epoch] pos_mod_sign[of align epoch] by (simp_all add: minus_mod_eq_div_mult[symmetric])
  note s = advance_past_spec[OF assms(2) nm, of epoch]
  let ?b = "advance_past epoch align n"
  have nb: "next_boundary epoch align offset = ?b" by (simp add: next_boundary_def n_def)
  have upper: "?b \<le> epoch + align + max 0 offset"
    using s n q by (cases "n \<le> epoch") auto
  have least: "?b \<le> b" if "offset \<le> 0" "epoch < b" "b mod align = offset mod align" for b
  proof (rule ccontr)
    assume "\<not> ?b \<le> b"
    moreover have "?b \<le> epoch + align" using upper that(1) by simp
    ultimately have lt: "0 < ?b - b" "?b - b < align" using that(2) by auto
    have "(?b - b) mod align = 0" using s that(3) by (simp add: mod_eq_dvd_iff[symmetric] mod_eq_0_iff_dvd)
    then have "align dvd ?b - b" by auto
    from zdvd_imp_le[OF this lt(1)] lt(2) show False by simp
  qed
  show ?thesis unfolding nb using s upper least by blast
qed

theorem sched_next_boundary_witness: "next_boundary 1700 1000 (-500) = 2500"
proof -
  have "1700 < next_boundary 1700 1000 (-500)" "next_boundary 1700 1000 (-500) mod 1000 = 500"
    "next_boundary 1700 1000 (-500) \<le> 2700"
    using sched_next_boundary[of 1700 1000 "-500"] by simp_all
  moreover have "next_boundary 1700 1000 (-500) = next_boundary 1700 1000 (-500) div 1000 * 1000 +
      next_boundary 1700 1000 (-500) mod 1000" by simp
  moreover define q where "q = next_boundary 1700 1000 (-500) div 1000"
  ultimately have x: "next_boundary 1700 1000 (-500) = q * 1000 + 500" "1 < q" "q < 3" by linarith+
  then have "q = 2" by simp
  with x(1) show ?thesis by simp
qed

text \<open>With a positive offset the boundary of the current period is passed over.\<close>

lemma sched_positive_offset_skips: "next_boundary 1200 1000 500 = 2500 \<and> 1200 < (1500::int) \<and> 1500 mod 1000 = (500::int)"
  by (simp add: next_boundary_def cdiv_def advance_past.simps[of 1200 1000 2500])

subsection \<open>A tick\<close>

definition sched_due :: "timespec \<Rightarrow> 'cb sched_entry \<Rightarrow> bool" where
  "sched_due now e \<longleftrightarrow> s_active e \<and> 0 \<le> ts_cmp now (s_fire_time e)"

definition sched_after :: "timespec \<Rightarrow> timespec \<Rightarrow> 'cb sched_entry \<Rightarrow> 'cb sched_entry" where
  "sched_after now clk e =
     (if \<not> sched_due now e then e
      else if s_repeat e \<and> s_align_ms e > 0 then compute_next_boundary clk e else e\<lparr>s_active := False\<rparr>)"

lemma sched_scan_eq:
  "sched_scan now clk k es =
   (map (\<lambda>(i, e). sched_after now (clk i) e) (zip [k..<k + length es] es), map s_callback (filter (sched_due now) es))"
proof (induction es arbitrary: k)
  case (Cons e es)
  have "[k..<k + length (e # es)] = k # [Suc k..<Suc k + length es]"
    using upt_conv_Cons[of k "k + length (e # es)"] by simp
  with Cons[of "Suc k"] show ?case
    by (auto simp: Let_def sched_after_def sched_due_def not_less)
qed simp

text \<open>
  A tick works on a snapshot: the callbacks it runs are those of the schedules that are
  active and due when it scans, once each and in slot order, whatever the callbacks do, so
  that a schedule cancelled by an earlier callback of the same tick still fires; a one-shot schedule
  is inactive before its callback runs, and a repeating one is set to a time after the clock.
\<close>

theorem sched_tick_snapshot:
  "sched_tick get put run now clk s =
     fold run (map s_callback (filter (sched_due now) (s_slots (get s))))
       (put ((get s)\<lparr>s_slots := map (\<lambda>(i, e). sched_after now (clk i) e)
               (zip [0..<length (s_slots (get s))] (s_slots (get s)))\<rparr>) s)"
  by (simp add: sched_tick_def sched_scan_eq Let_def foldl_conv_fold)

end
