(* ===== verification/User.thy ===== *)
theory User
  imports Config_Props
begin

text \<open>
  The user and group tables (\<open>src/kerchunk_user.c\<close>): what is read from the sections \<open>user.N\<close> and
  \<open>group.N\<close> of the configuration, and the lookups. Failures of the allocator are arguments: of
  the first allocation, and of the growth at a given number of users.
\<close>

record user =
  u_id :: int
  u_username :: string
  u_name :: string
  u_email :: string
  u_callsign :: string
  u_dtmf_login :: string
  u_ani :: string
  u_access :: int
  u_voicemail :: int
  u_group :: int
  u_totp_secret :: string

record ugroup =
  gr_id :: int
  gr_name :: string

record user_db =
  db_users :: "user list"
  db_groups :: "ugroup list"

abbreviation MAX_USER_ID :: nat where "MAX_USER_ID \<equiv> 9999"
abbreviation MAX_GROUPS :: nat where "MAX_GROUPS \<equiv> 16"
abbreviation INITIAL_USER_CAP :: nat where "INITIAL_USER_CAP \<equiv> 64"

definition derive_username :: "nat \<Rightarrow> string \<Rightarrow> string" where
  "derive_username outsz name = map (\<lambda>c. if c = CHR '' '' then CHR ''_'' else to_lower c) (take (outsz - 1) name)"

definition user_section :: "nat \<Rightarrow> string" where
  "user_section n = ''user.'' @ show_nat n"

definition group_section :: "nat \<Rightarrow> string" where
  "group_section n = ''group.'' @ show_nat n"

text \<open>A field that is empty when its key is missing.\<close>

definition field_or_empty :: "config \<Rightarrow> string \<Rightarrow> string \<Rightarrow> nat \<Rightarrow> string" where
  "field_or_empty cfg sec key sz =
     (case config_get cfg sec key of Some v \<Rightarrow> c_trunc sz v | None \<Rightarrow> [])"

definition load_user :: "config \<Rightarrow> nat \<Rightarrow> user option" where
  "load_user cfg n =
     (let sec = user_section n
      in case config_get cfg sec ''name'' of
           None \<Rightarrow> None
         | Some name \<Rightarrow>
             Some \<lparr>u_id = int n,
                   u_username = (case config_get cfg sec ''username'' of
                                   Some un \<Rightarrow> if un \<noteq> [] then c_trunc 32 un else derive_username 32 (c_trunc 32 name)
                                 | None \<Rightarrow> derive_username 32 (c_trunc 32 name)),
                   u_name = c_trunc 32 name,
                   u_email = field_or_empty cfg sec ''email'' 128,
                   u_callsign = map to_upper (field_or_empty cfg sec ''callsign'' 16),
                   u_dtmf_login = field_or_empty cfg sec ''dtmf_login'' 8,
                   u_ani = field_or_empty cfg sec ''ani'' 16,
                   u_access = config_get_int cfg sec ''access'' 1,
                   u_voicemail = config_get_int cfg sec ''voicemail'' 0,
                   u_group = config_get_int cfg sec ''group'' 0,
                   u_totp_secret = field_or_empty cfg sec ''totp_secret'' 64\<rparr>)"

definition load_group :: "config \<Rightarrow> nat \<Rightarrow> ugroup option" where
  "load_group cfg n =
     (case config_get cfg (group_section n) ''name'' of
        None \<Rightarrow> None | Some name \<Rightarrow> Some \<lparr>gr_id = int n, gr_name = c_trunc 32 name\<rparr>)"

fun scan_groups :: "config \<Rightarrow> nat list \<Rightarrow> ugroup list \<Rightarrow> ugroup list" where
  "scan_groups cfg [] gs = gs"
| "scan_groups cfg (n # ns) gs =
     (case load_group cfg n of
        None \<Rightarrow> scan_groups cfg ns gs
      | Some g \<Rightarrow> if length gs \<ge> MAX_GROUPS then gs else scan_groups cfg ns (gs @ [g]))"

text \<open>The array doubles when it is full; when that fails, the scan ends.\<close>

fun scan_users :: "config \<Rightarrow> (nat \<Rightarrow> bool) \<Rightarrow> nat list \<Rightarrow> user list \<Rightarrow> nat \<Rightarrow> user list" where
  "scan_users cfg grow_ok [] us cap = us"
| "scan_users cfg grow_ok (n # ns) us cap =
     (case load_user cfg n of
        None \<Rightarrow> scan_users cfg grow_ok ns us cap
      | Some u \<Rightarrow>
          if length us \<ge> cap
          then (if grow_ok (length us) then scan_users cfg grow_ok ns (us @ [u]) (cap * 2) else us)
          else scan_users cfg grow_ok ns (us @ [u]) cap)"

definition user_init :: "config option \<Rightarrow> bool \<Rightarrow> (nat \<Rightarrow> bool) \<Rightarrow> user_db \<times> int" where
  "user_init cfg alloc_ok grow_ok =
     (case cfg of
        None \<Rightarrow> (\<lparr>db_users = [], db_groups = []\<rparr>, 0)
      | Some c \<Rightarrow>
          (let gs = scan_groups c [1..<MAX_GROUPS + 1] []
           in if \<not> alloc_ok then (\<lparr>db_users = [], db_groups = gs\<rparr>, -1)
              else (\<lparr>db_users = scan_users c grow_ok [1..<MAX_USER_ID + 1] [] INITIAL_USER_CAP, db_groups = gs\<rparr>, 0)))"

definition user_shutdown :: "user_db \<Rightarrow> user_db" where
  "user_shutdown db = db\<lparr>db_users := []\<rparr>"

definition user_lookup_by_id :: "user_db \<Rightarrow> int \<Rightarrow> user option" where
  "user_lookup_by_id db uid = find (\<lambda>u. u_id u = uid) (db_users db)"

definition user_get :: "user_db \<Rightarrow> int \<Rightarrow> user option" where
  "user_get db index =
     (if index < 0 \<or> index \<ge> int (length (db_users db)) then None else Some (db_users db ! nat index))"

definition user_lookup_by_ani :: "user_db \<Rightarrow> string option \<Rightarrow> user option" where
  "user_lookup_by_ani db ani =
     (case ani of None \<Rightarrow> None
      | Some a \<Rightarrow> if a = [] then None else find (\<lambda>u. u_ani u \<noteq> [] \<and> u_ani u = a) (db_users db))"

definition user_lookup_by_username :: "user_db \<Rightarrow> string option \<Rightarrow> user option" where
  "user_lookup_by_username db name =
     (case name of None \<Rightarrow> None
      | Some n \<Rightarrow> if n = [] then None else find (\<lambda>u. strcase_eq (u_username u) n) (db_users db))"

definition user_count :: "user_db \<Rightarrow> nat" where
  "user_count db = length (db_users db)"

definition group_count :: "user_db \<Rightarrow> nat" where
  "group_count db = length (db_groups db)"

definition group_get :: "user_db \<Rightarrow> int \<Rightarrow> ugroup option" where
  "group_get db index =
     (if index < 0 \<or> index \<ge> int (length (db_groups db)) then None else Some (db_groups db ! nat index))"

definition group_lookup_by_id :: "user_db \<Rightarrow> int \<Rightarrow> ugroup option" where
  "group_lookup_by_id db gid = find (\<lambda>g. gr_id g = gid) (db_groups db)"

subsection \<open>The table is the map of the sections\<close>

lemma scan_users_eq:
  "\<forall>k. grow_ok k \<Longrightarrow> scan_users cfg grow_ok ns us cap = us @ List.map_filter (load_user cfg) ns"
  by (induction cfg grow_ok ns us cap rule: scan_users.induct) (auto simp: List.map_filter_simps split: option.splits)

lemma scan_groups_eq:
  "length gs + length ns \<le> MAX_GROUPS \<Longrightarrow> scan_groups cfg ns gs = gs @ List.map_filter (load_group cfg) ns"
  by (induction cfg ns gs rule: scan_groups.induct) (auto simp: List.map_filter_simps split: option.splits)

lemma load_user_id: "load_user cfg n = Some u \<Longrightarrow> u_id u = int n"
  by (auto simp: load_user_def Let_def split: option.splits)

lemma load_group_id: "load_group cfg n = Some g \<Longrightarrow> gr_id g = int n"
  by (auto simp: load_group_def split: option.splits)

lemma find_map_filter:
  assumes "\<And>n x. f n = Some x \<Longrightarrow> key x = int n" "distinct ns"
  shows "find (\<lambda>x. key x = int k) (List.map_filter f ns) = (if k \<in> set ns then f k else None)"
  using assms(2)
proof (induction ns)
  case (Cons n ns)
  then show ?case using assms(1)[of n] by (cases "f n") (auto simp: List.map_filter_simps)
qed (simp add: List.map_filter_simps)

lemma find_map_filter_neg:
  assumes "\<And>n x. f n = Some x \<Longrightarrow> key x = int n" "uid < 0"
  shows "find (\<lambda>x. key x = uid) (List.map_filter f ns) = None"
proof (induction ns)
  case (Cons n ns)
  then show ?case using assms(1)[of n] assms(2) by (cases "f n") (auto simp: List.map_filter_simps)
qed (simp add: List.map_filter_simps)

lemma find_by_int:
  assumes "\<And>n x. f n = Some x \<Longrightarrow> key x = int n"
  shows "find (\<lambda>x. key x = uid) (List.map_filter f [1..<Suc m]) =
         (if 1 \<le> uid \<and> uid \<le> int m then f (nat uid) else None)"
proof (cases "uid < 0")
  case True
  with find_map_filter_neg[of f key uid, OF assms True] show ?thesis by simp
next
  case False
  then obtain k where "uid = int k" by (metis nonneg_int_cases not_less)
  with find_map_filter[of f key "[1..<Suc m]" k, OF assms] show ?thesis by auto
qed

text \<open>
  The user table is exactly the map of the configuration's sections: when the allocations succeed,
  a lookup by id gives the user that section \<open>user.N\<close> describes for N from 1 to 9999 and nothing for any
  other id, and a lookup of a group gives what \<open>group.N\<close> describes for N from 1 to 16.
\<close>

theorem user_table_is_config:
  assumes "\<forall>k. grow_ok k" "user_init (Some cfg) True grow_ok = (db, r)"
  shows "r = 0 \<and>
         user_lookup_by_id db uid = (if 1 \<le> uid \<and> uid \<le> int MAX_USER_ID then load_user cfg (nat uid) else None) \<and>
         group_lookup_by_id db gid = (if 1 \<le> gid \<and> gid \<le> int MAX_GROUPS then load_group cfg (nat gid) else None)"
proof -
  have db: "db_users db = List.map_filter (load_user cfg) [1..<Suc MAX_USER_ID]"
    "db_groups db = List.map_filter (load_group cfg) [1..<Suc MAX_GROUPS]" "r = 0"
    using assms(2) scan_users_eq[OF assms(1), of cfg "[1..<Suc MAX_USER_ID]" "[]"]
      scan_groups_eq[of "[]" "[1..<Suc MAX_GROUPS]" cfg]
    by (auto simp: user_init_def simp del: upt_Suc)
  show ?thesis unfolding user_lookup_by_id_def group_lookup_by_id_def db(1,2)
    using find_by_int[of "load_user cfg" u_id uid MAX_USER_ID, OF load_user_id]
      find_by_int[of "load_group cfg" gr_id gid MAX_GROUPS, OF load_group_id] db(3)
    by (simp del: upt_Suc)
qed


theorem user_table_is_config_witness:
  "map_option u_username (user_lookup_by_id (fst (user_init
     (Some \<lparr>cfg_entries = [\<lparr>ce_section = ''user.7'', ce_key = ''name'', ce_value = ''Ann B''\<rparr>], cfg_path = []\<rparr>)
     True (\<lambda>_. True))) 7) = Some ''ann_b''"
proof -
  let ?cfg = "\<lparr>cfg_entries = [\<lparr>ce_section = ''user.7'', ce_key = ''name'', ce_value = ''Ann B''\<rparr>], cfg_path = []\<rparr>"
  obtain db r where i: "user_init (Some ?cfg) True (\<lambda>_. True) = (db, r)" by (metis surj_pair)
  have "user_lookup_by_id db 7 = load_user ?cfg 7"
    using user_table_is_config[OF _ i, of 7 0] by simp
  moreover have "map_option u_username (load_user ?cfg 7) = Some ''ann_b''" by code_simp
  ultimately show ?thesis by (simp add: i)
qed

end
