(* ===== verification/Dtmf_Cmd.thy ===== *)
theory Dtmf_Cmd
  imports Timer Config_Props "HOL-Library.Sublist"
begin

text \<open>
  The DTMF command router (\<open>modules/mod_dtmfcmd.c\<close>): the table of patterns, the accumulation of
  \<open>*digits#\<close>, and the dispatch by prefix, deferred while the receiver is active. The timer
  service is a parameter; the custom events fired are the effects of an operation.
\<close>

abbreviation MAX_CMD_LEN :: nat where "MAX_CMD_LEN \<equiv> 16"
abbreviation MAX_COMMANDS :: nat where "MAX_COMMANDS \<equiv> 64"
abbreviation KERCHEVT_CUSTOM_BASE :: int where "KERCHEVT_CUSTOM_BASE \<equiv> 1000"

record dtmf_cmd =
  dc_pattern :: string
  dc_event_id :: int
  dc_description :: string
  dc_config_key :: string

record dtmfcmd =
  dm_active :: bool
  dm_buf :: string
  dm_timer :: int
  dm_timeout_ms :: int
  dm_pending :: bool
  dm_cmds :: "dtmf_cmd list"

datatype dtmf_cb = CB_dtmf_timeout | CB_dtmf_foreign nat

text \<open>A fired custom event: its type and its argument.\<close>

datatype dtmf_effect = Fire_custom int string

type_synonym 't dtmf_create = "nat \<Rightarrow> 't \<Rightarrow> int \<Rightarrow> bool \<Rightarrow> dtmf_cb option \<Rightarrow> 't \<times> int"
type_synonym 't dtmf_cancel = "'t \<Rightarrow> int \<Rightarrow> 't"

definition dtmf_register :: "dtmfcmd \<Rightarrow> string \<Rightarrow> int \<Rightarrow> string \<Rightarrow> string option \<Rightarrow> dtmfcmd \<times> int" where
  "dtmf_register d pattern offset description key =
     (if length (dm_cmds d) \<ge> MAX_COMMANDS then (d, -1)
      else (d\<lparr>dm_cmds := dm_cmds d @
               [\<lparr>dc_pattern = c_trunc MAX_CMD_LEN pattern, dc_event_id = KERCHEVT_CUSTOM_BASE + offset,
                 dc_description = c_trunc 64 description,
                 dc_config_key = (case key of Some k \<Rightarrow> c_trunc 32 k | None \<Rightarrow> [])\<rparr>]\<rparr>, 0))"

fun remove_cmd :: "string \<Rightarrow> dtmf_cmd list \<Rightarrow> dtmf_cmd list option" where
  "remove_cmd pattern [] = None"
| "remove_cmd pattern (c # cs) =
     (if dc_pattern c = pattern then Some cs else map_option ((#) c) (remove_cmd pattern cs))"

definition dtmf_unregister :: "dtmfcmd \<Rightarrow> string \<Rightarrow> dtmfcmd \<times> int" where
  "dtmf_unregister d pattern =
     (case remove_cmd pattern (dm_cmds d) of Some cs \<Rightarrow> (d\<lparr>dm_cmds := cs\<rparr>, 0) | None \<Rightarrow> (d, -1))"

definition cancel_timeout :: "'t dtmf_cancel \<Rightarrow> dtmfcmd \<Rightarrow> 't \<Rightarrow> dtmfcmd \<times> 't" where
  "cancel_timeout cancel d t =
     (if dm_timer d \<ge> 0 then (d\<lparr>dm_timer := -1\<rparr>, cancel t (dm_timer d)) else (d, t))"

definition reset_cmd :: "'t dtmf_cancel \<Rightarrow> dtmfcmd \<Rightarrow> 't \<Rightarrow> dtmfcmd \<times> 't" where
  "reset_cmd cancel d t = cancel_timeout cancel (d\<lparr>dm_active := False, dm_buf := []\<rparr>) t"

definition timeout_cb :: "'t dtmf_cancel \<Rightarrow> dtmfcmd \<Rightarrow> 't \<Rightarrow> dtmfcmd \<times> 't" where
  "timeout_cb cancel d t = reset_cmd cancel (d\<lparr>dm_timer := -1\<rparr>) t"

definition restart_timeout :: "'t dtmf_create \<Rightarrow> 't dtmf_cancel \<Rightarrow> nat \<Rightarrow> dtmfcmd \<Rightarrow> 't \<Rightarrow> dtmfcmd \<times> 't" where
  "restart_timeout create cancel now d t =
     (let (d1, t1) = cancel_timeout cancel d t;
          (t2, tid) = create now t1 (dm_timeout_ms d1) False (Some CB_dtmf_timeout)
      in (d1\<lparr>dm_timer := tid\<rparr>, t2))"

text \<open>The first entry whose pattern starts the buffer; the rest of the buffer is the argument.\<close>

definition prefix_of :: "string \<Rightarrow> string \<Rightarrow> bool" where
  "prefix_of pat buf \<longleftrightarrow> length pat \<le> length buf \<and> take (length pat) buf = pat"

definition dispatch_command :: "dtmfcmd \<Rightarrow> dtmf_effect list \<times> int" where
  "dispatch_command d =
     (case find (\<lambda>c. prefix_of (dc_pattern c) (dm_buf d)) (dm_cmds d) of
        Some c \<Rightarrow> ([Fire_custom (dc_event_id c) (c_trunc MAX_CMD_LEN (drop (length (dc_pattern c)) (dm_buf d)))], 0)
      | None \<Rightarrow> ([], -1))"

definition dtmf_cor_drop :: "'t dtmf_cancel \<Rightarrow> dtmfcmd \<Rightarrow> 't \<Rightarrow> dtmfcmd \<times> 't \<times> dtmf_effect list" where
  "dtmf_cor_drop cancel d t =
     (if dm_pending d
      then (let d1 = d\<lparr>dm_pending := False\<rparr>; effs = fst (dispatch_command d1);
                (d2, t2) = reset_cmd cancel d1 t
            in (d2, t2, effs))
      else (d, t, []))"

definition dtmf_digit ::
  "'t dtmf_create \<Rightarrow> 't dtmf_cancel \<Rightarrow> nat \<Rightarrow> bool \<Rightarrow> char \<Rightarrow> dtmfcmd \<Rightarrow> 't \<Rightarrow> dtmfcmd \<times> 't \<times> dtmf_effect list" where
  "dtmf_digit create cancel now receiving c d t =
     (if c = CHR ''*'' then
        (let (d1, t1) = restart_timeout create cancel now (d\<lparr>dm_active := True, dm_buf := []\<rparr>) t in (d1, t1, []))
      else if \<not> dm_active d then (d, t, [])
      else if c = CHR ''#'' then
        (let (d1, t1) = cancel_timeout cancel d t
         in if receiving then (d1\<lparr>dm_pending := True\<rparr>, t1, [])
            else (let effs = fst (dispatch_command d1); (d2, t2) = reset_cmd cancel d1 t1 in (d2, t2, effs)))
      else if length (dm_buf d) < MAX_CMD_LEN then
        (let (d1, t1) = restart_timeout create cancel now (d\<lparr>dm_buf := dm_buf d @ [c]\<rparr>) t in (d1, t1, []))
      else (let (d1, t1) = reset_cmd cancel d t in (d1, t1, [])))"

definition dtmfcmd_load :: "'t dtmf_cancel \<Rightarrow> dtmfcmd \<Rightarrow> 't \<Rightarrow> dtmfcmd \<times> 't" where
  "dtmfcmd_load cancel d t = reset_cmd cancel (d\<lparr>dm_cmds := []\<rparr>) t"

definition override_cmd :: "config \<Rightarrow> dtmf_cmd \<Rightarrow> dtmf_cmd" where
  "override_cmd cfg c =
     (if dc_config_key c = [] then c
      else (case config_get cfg ''dtmf'' (dc_config_key c) of
              Some v \<Rightarrow> if v \<noteq> [] then c\<lparr>dc_pattern := c_trunc MAX_CMD_LEN v\<rparr> else c
            | None \<Rightarrow> c))"

definition dtmfcmd_configure :: "config \<Rightarrow> dtmfcmd \<Rightarrow> dtmfcmd" where
  "dtmfcmd_configure cfg d =
     d\<lparr>dm_timeout_ms := config_get_duration_ms cfg ''dtmf'' ''inter_digit_timeout'' 3000,
       dm_cmds := map (override_cmd cfg) (dm_cmds d)\<rparr>"

definition dtmfcmd_unload :: "'t dtmf_cancel \<Rightarrow> dtmfcmd \<Rightarrow> 't \<Rightarrow> dtmfcmd \<times> 't" where
  "dtmfcmd_unload cancel d t = cancel_timeout cancel d t"

subsection \<open>The machine\<close>

datatype dtmf_in = Digit bool char | Dtmf_COR_drop | Dtmf_expire int

fun dtmf_step ::
  "'t dtmf_create \<Rightarrow> 't dtmf_cancel \<Rightarrow> ('t \<Rightarrow> int \<Rightarrow> (dtmf_cb \<times> nat) option) \<Rightarrow> nat \<Rightarrow> dtmfcmd \<Rightarrow> 't \<Rightarrow> dtmf_in \<Rightarrow>
   dtmfcmd \<times> 't \<times> dtmf_effect list" where
  "dtmf_step create cancel timer_of now d t (Digit receiving c) = dtmf_digit create cancel now receiving c d t"
| "dtmf_step create cancel timer_of now d t Dtmf_COR_drop = dtmf_cor_drop cancel d t"
| "dtmf_step create cancel timer_of now d t (Dtmf_expire h) =
     (case timer_of t h of
        Some (CB_dtmf_timeout, due) \<Rightarrow>
          if due \<le> now then (let (d1, t1) = timeout_cb cancel d (cancel t h) in (d1, t1, [])) else (d, t, [])
      | _ \<Rightarrow> (d, t, []))"

fun dtmf_run ::
  "'t dtmf_create \<Rightarrow> 't dtmf_cancel \<Rightarrow> ('t \<Rightarrow> int \<Rightarrow> (dtmf_cb \<times> nat) option) \<Rightarrow> dtmfcmd \<Rightarrow> 't \<Rightarrow> (nat \<times> dtmf_in) list \<Rightarrow>
   dtmfcmd \<times> 't \<times> dtmf_effect list" where
  "dtmf_run create cancel timer_of d t [] = (d, t, [])"
| "dtmf_run create cancel timer_of d t ((now, i) # is) =
     (let (d1, t1, e1) = dtmf_step create cancel timer_of now d t i;
          (d2, t2, e2) = dtmf_run create cancel timer_of d1 t1 is
      in (d2, t2, e1 @ e2))"

subsection \<open>What the steps do besides the timer\<close>

lemma cancel_timeout_fields:
  "cancel_timeout cancel d t = (d', t') \<Longrightarrow> \<exists>h. d' = d\<lparr>dm_timer := h\<rparr>"
  by (auto simp: cancel_timeout_def split: if_splits intro: exI[of _ "dm_timer d"])

lemma reset_fields:
  "reset_cmd cancel d t = (d', t') \<Longrightarrow> \<exists>h. d' = d\<lparr>dm_active := False, dm_buf := [], dm_timer := h\<rparr>"
  using cancel_timeout_fields unfolding reset_cmd_def by fastforce

lemma restart_fields:
  assumes "restart_timeout create cancel now d t = (d', t')"
  shows "\<exists>h. d' = d\<lparr>dm_timer := h\<rparr>"
proof -
  obtain d1 t1 where c: "cancel_timeout cancel d t = (d1, t1)" by (metis surj_pair)
  obtain t2 tid where k: "create now t1 (dm_timeout_ms d1) False (Some CB_dtmf_timeout) = (t2, tid)" by (metis surj_pair)
  from cancel_timeout_fields[OF c] obtain h where h: "d1 = d\<lparr>dm_timer := h\<rparr>" by blast
  have "d' = d1\<lparr>dm_timer := tid\<rparr>" using assms c k by (simp add: restart_timeout_def)
  with h show ?thesis by auto
qed

text \<open>The state of the accumulation, without the timer.\<close>

definition dm_core :: "dtmfcmd \<Rightarrow> bool \<times> string \<times> bool \<times> dtmf_cmd list" where
  "dm_core d = (dm_active d, dm_buf d, dm_pending d, dm_cmds d)"

fun core_digit :: "bool \<Rightarrow> char \<Rightarrow> bool \<times> string \<times> bool \<times> dtmf_cmd list \<Rightarrow>
    (bool \<times> string \<times> bool \<times> dtmf_cmd list) \<times> dtmf_effect list" where
  "core_digit receiving c (act, buf, pend, cmds) =
     (if c = CHR ''*'' then ((True, [], pend, cmds), [])
      else if \<not> act then ((act, buf, pend, cmds), [])
      else if c = CHR ''#'' then
        (if receiving then ((act, buf, True, cmds), [])
         else ((False, [], pend, cmds), fst (dispatch_command \<lparr>dm_active = act, dm_buf = buf, dm_timer = 0,
                 dm_timeout_ms = 0, dm_pending = pend, dm_cmds = cmds\<rparr>)))
      else if length buf < MAX_CMD_LEN then ((True, buf @ [c], pend, cmds), [])
      else ((False, [], pend, cmds), []))"

lemma dispatch_core: "dm_buf d = dm_buf d' \<Longrightarrow> dm_cmds d = dm_cmds d' \<Longrightarrow> dispatch_command d = dispatch_command d'"
  by (auto simp: dispatch_command_def split: option.splits)

text \<open>The branches of a digit.\<close>

lemma digit_star:
  "restart_timeout create cancel now (d\<lparr>dm_active := True, dm_buf := []\<rparr>) t = (d1, t1) \<Longrightarrow>
   dtmf_digit create cancel now receiving (CHR ''*'') d t = (d1, t1, [])"
  by (simp add: dtmf_digit_def)

lemma digit_ignored:
  "c \<noteq> CHR ''*'' \<Longrightarrow> \<not> dm_active d \<Longrightarrow> dtmf_digit create cancel now receiving c d t = (d, t, [])"
  by (simp add: dtmf_digit_def)

lemma digit_hash_deferred:
  "dm_active d \<Longrightarrow> cancel_timeout cancel d t = (d1, t1) \<Longrightarrow>
   dtmf_digit create cancel now True (CHR ''#'') d t = (d1\<lparr>dm_pending := True\<rparr>, t1, [])"
  by (simp add: dtmf_digit_def)

lemma digit_hash:
  "dm_active d \<Longrightarrow> cancel_timeout cancel d t = (d1, t1) \<Longrightarrow> reset_cmd cancel d1 t1 = (d2, t2) \<Longrightarrow>
   dtmf_digit create cancel now False (CHR ''#'') d t = (d2, t2, fst (dispatch_command d1))"
  by (simp add: dtmf_digit_def)

lemma digit_stored:
  "c \<noteq> CHR ''*'' \<Longrightarrow> c \<noteq> CHR ''#'' \<Longrightarrow> dm_active d \<Longrightarrow> length (dm_buf d) < MAX_CMD_LEN \<Longrightarrow>
   restart_timeout create cancel now (d\<lparr>dm_buf := dm_buf d @ [c]\<rparr>) t = (d1, t1) \<Longrightarrow>
   dtmf_digit create cancel now receiving c d t = (d1, t1, [])"
  by (simp add: dtmf_digit_def)

lemma digit_overflow:
  "c \<noteq> CHR ''*'' \<Longrightarrow> c \<noteq> CHR ''#'' \<Longrightarrow> dm_active d \<Longrightarrow> \<not> length (dm_buf d) < MAX_CMD_LEN \<Longrightarrow>
   reset_cmd cancel d t = (d1, t1) \<Longrightarrow> dtmf_digit create cancel now receiving c d t = (d1, t1, [])"
  by (simp add: dtmf_digit_def)

lemma digit_cases:
  obtains (star) "c = CHR ''*''" | (ignored) "c \<noteq> CHR ''*''" "\<not> dm_active d"
    | (hash_deferred) "c = CHR ''#''" "dm_active d" "receiving = True"
    | (hash) "c = CHR ''#''" "dm_active d" "receiving = False"
    | (stored) "c \<noteq> CHR ''*''" "c \<noteq> CHR ''#''" "dm_active d" "length (dm_buf d) < MAX_CMD_LEN"
    | (overflow) "c \<noteq> CHR ''*''" "c \<noteq> CHR ''#''" "dm_active d" "\<not> length (dm_buf d) < MAX_CMD_LEN"
  by blast

lemma digit_core:
  assumes "dtmf_digit create cancel now receiving c d t = (d', t', es)"
  shows "(dm_core d', es) = core_digit receiving c (dm_core d)"
proof (cases rule: digit_cases[where c = c and d = d and receiving = receiving])
  case star
  obtain d1 t1 where r: "restart_timeout create cancel now (d\<lparr>dm_active := True, dm_buf := []\<rparr>) t = (d1, t1)"
    by (metis surj_pair)
  from restart_fields[OF r] have "dm_core d1 = (True, [], dm_pending d, dm_cmds d)" by (auto simp: dm_core_def)
  with assms star digit_star[OF r, of receiving] show ?thesis by (simp add: dm_core_def)
next
  case ignored
  with assms digit_ignored[OF ignored, of create cancel now receiving t] show ?thesis by (simp add: dm_core_def)
next
  case hash_deferred
  obtain d1 t1 where c: "cancel_timeout cancel d t = (d1, t1)" by (metis surj_pair)
  from cancel_timeout_fields[OF c] have "dm_core (d1\<lparr>dm_pending := True\<rparr>) = (dm_active d, dm_buf d, True, dm_cmds d)"
    by (auto simp: dm_core_def)
  with assms hash_deferred digit_hash_deferred[where create = create, OF hash_deferred(2) c, of now]
  show ?thesis by (simp add: dm_core_def)
next
  case hash
  obtain d1 t1 where c: "cancel_timeout cancel d t = (d1, t1)" by (metis surj_pair)
  obtain d2 t2 where r: "reset_cmd cancel d1 t1 = (d2, t2)" by (metis surj_pair)
  from cancel_timeout_fields[OF c] have d1: "dm_core d1 = dm_core d" by (auto simp: dm_core_def)
  then have "dispatch_command d1 = dispatch_command \<lparr>dm_active = dm_active d, dm_buf = dm_buf d, dm_timer = 0,
       dm_timeout_ms = 0, dm_pending = dm_pending d, dm_cmds = dm_cmds d\<rparr>"
    by (intro dispatch_core) (simp_all add: dm_core_def)
  moreover from reset_fields[OF r] d1 have "dm_core d2 = (False, [], dm_pending d, dm_cmds d)"
    by (auto simp: dm_core_def)
  ultimately show ?thesis
    using assms hash digit_hash[where create = create, OF hash(2) c r, of now] by (simp add: dm_core_def)
next
  case stored
  obtain d1 t1 where r: "restart_timeout create cancel now (d\<lparr>dm_buf := dm_buf d @ [c]\<rparr>) t = (d1, t1)"
    by (metis surj_pair)
  from restart_fields[OF r] have "dm_core d1 = (dm_active d, dm_buf d @ [c], dm_pending d, dm_cmds d)"
    by (auto simp: dm_core_def)
  with assms stored digit_stored[OF stored r, of receiving] show ?thesis by (simp add: dm_core_def)
next
  case overflow
  obtain d1 t1 where r: "reset_cmd cancel d t = (d1, t1)" by (metis surj_pair)
  from reset_fields[OF r] have "dm_core d1 = (False, [], dm_pending d, dm_cmds d)" by (auto simp: dm_core_def)
  with assms overflow digit_overflow[where create = create, OF overflow r, of now receiving] show ?thesis
    by (simp add: dm_core_def)
qed

subsection \<open>Commands\<close>

text \<open>Keys: the time, whether the receiver is active, the digit.\<close>

type_synonym key_in = "nat \<times> bool \<times> char"

definition press :: "key_in list \<Rightarrow> (nat \<times> dtmf_in) list" where
  "press ks = map (\<lambda>(now, receiving, c). (now, Digit receiving c)) ks"

definition plain_key :: "key_in \<Rightarrow> bool" where
  "plain_key k \<longleftrightarrow> snd (snd k) \<noteq> CHR ''*'' \<and> snd (snd k) \<noteq> CHR ''#''"

definition key_chars :: "key_in list \<Rightarrow> string" where
  "key_chars ks = map (snd \<circ> snd) ks"

lemma key_chars_simps [simp]: "key_chars [] = []" "key_chars ((n, r, c) # ks) = c # key_chars ks"
  "key_chars (xs @ ys) = key_chars xs @ key_chars ys" "length (key_chars ks) = length ks"
  by (simp_all add: key_chars_def)

lemma dtmf_run_append:
  assumes "dtmf_run create cancel timer_of d t (xs @ ys) = (d', t', es)"
  obtains d1 t1 e1 e2 where "dtmf_run create cancel timer_of d t xs = (d1, t1, e1)"
    "dtmf_run create cancel timer_of d1 t1 ys = (d', t', e2)" "es = e1 @ e2"
  using assms
proof (induction xs arbitrary: d t es thesis)
  case Nil
  then show ?case by simp
next
  case (Cons x xs)
  obtain now i where x: "x = (now, i)" by (metis surj_pair)
  obtain d0 t0 e0 where s: "dtmf_step create cancel timer_of now d t i = (d0, t0, e0)" by (metis prod_cases3)
  obtain e' where r: "dtmf_run create cancel timer_of d0 t0 (xs @ ys) = (d', t', e')" "es = e0 @ e'"
    using Cons.prems(2) x s by (auto split: prod.splits)
  obtain d1 t1 e1 e2 where "dtmf_run create cancel timer_of d0 t0 xs = (d1, t1, e1)"
    "dtmf_run create cancel timer_of d1 t1 ys = (d', t', e2)" "e' = e1 @ e2"
    using Cons.IH[OF _ r(1)] by metis
  with Cons.prems(1)[of d1 t1 "e0 @ e1" e2] r(2) s x show ?case by simp
qed

lemma run_one:
  assumes "dtmf_run create cancel timer_of d t [(now, i)] = (d', t', es)"
  shows "dtmf_step create cancel timer_of now d t i = (d', t', es)"
  using assms by (auto split: prod.splits)

lemma press_core:
  assumes "dtmf_run create cancel timer_of d t (press [(now, receiving, c)]) = (d', t', es)"
  shows "(dm_core d', es) = core_digit receiving c (dm_core d)"
  using run_one[OF assms[unfolded press_def list.map prod.case]] digit_core by simp

text \<open>Plain digits are appended to the buffer of an active accumulation, and do nothing else.\<close>

lemma press_plain:
  assumes "\<forall>k \<in> set ks. plain_key k" "length (dm_buf d) + length ks \<le> MAX_CMD_LEN" "dm_active d"
    and "dtmf_run create cancel timer_of d t (press ks) = (d', t', es)"
  shows "dm_core d' = (True, dm_buf d @ key_chars ks, dm_pending d, dm_cmds d) \<and> es = []"
  using assms
proof (induction ks arbitrary: d t es)
  case Nil
  then show ?case by (simp add: press_def dm_core_def)
next
  case (Cons k ks)
  obtain now r c where k: "k = (now, r, c)" by (metis prod_cases3)
  have "dtmf_run create cancel timer_of d t (press [k] @ press ks) = (d', t', es)"
    using Cons.prems(4) by (simp add: press_def)
  then obtain d1 t1 e1 e2 where r1: "dtmf_run create cancel timer_of d t (press [k]) = (d1, t1, e1)"
    and r2: "dtmf_run create cancel timer_of d1 t1 (press ks) = (d', t', e2)" and es: "es = e1 @ e2"
    by (rule dtmf_run_append)
  have "c \<noteq> CHR ''*''" "c \<noteq> CHR ''#''" using Cons.prems(1) k by (simp_all add: plain_key_def)
  with press_core[OF r1[unfolded k]] Cons.prems(2,3)
  have f: "dm_active d1" "dm_buf d1 = dm_buf d @ [c]" "dm_pending d1 = dm_pending d" "dm_cmds d1 = dm_cmds d" "e1 = []"
    by (simp_all add: dm_core_def)
  with Cons.IH[OF _ _ _ r2] Cons.prems(1,2) es k show ?case by simp
qed

definition dispatched :: "dtmf_cmd list \<Rightarrow> string \<Rightarrow> dtmf_effect list \<Rightarrow> bool" where
  "dispatched cmds buf es \<longleftrightarrow>
     (es = [] \<and> (\<forall>c \<in> set cmds. \<not> prefix (dc_pattern c) buf)) \<or>
     (\<exists>i < length cmds. \<exists>arg. buf = dc_pattern (cmds ! i) @ arg \<and> (\<forall>j < i. \<not> prefix (dc_pattern (cmds ! j)) buf) \<and>
        es = [Fire_custom (dc_event_id (cmds ! i)) (c_trunc MAX_CMD_LEN arg)])"

lemma prefix_of_iff: "prefix_of p s \<longleftrightarrow> prefix p s"
  by (auto simp: prefix_of_def prefix_def intro: exI[of _ "drop (length p) s"])
    (metis append_take_drop_id)

lemma dispatch_dispatched: "dispatched (dm_cmds d) (dm_buf d) (fst (dispatch_command d))"
proof (cases "find (\<lambda>c. prefix_of (dc_pattern c) (dm_buf d)) (dm_cmds d)")
  case None
  then have "fst (dispatch_command d) = []" by (simp add: dispatch_command_def)
  moreover have "\<forall>c \<in> set (dm_cmds d). \<not> prefix (dc_pattern c) (dm_buf d)"
    using None by (simp add: find_None_iff prefix_of_iff)
  ultimately show ?thesis by (simp add: dispatched_def)
next
  case (Some c)
  then obtain i where i: "i < length (dm_cmds d)" "prefix_of (dc_pattern (dm_cmds d ! i)) (dm_buf d)" "c = dm_cmds d ! i"
    "\<forall>j < i. \<not> prefix_of (dc_pattern (dm_cmds d ! j)) (dm_buf d)"
    by (auto simp: find_Some_iff)
  then have "dm_buf d = dc_pattern c @ drop (length (dc_pattern c)) (dm_buf d)"
    by (auto simp: prefix_of_iff prefix_def)
  moreover have "fst (dispatch_command d) =
      [Fire_custom (dc_event_id c) (c_trunc MAX_CMD_LEN (drop (length (dc_pattern c)) (dm_buf d)))]"
    by (simp add: dispatch_command_def Some)
  ultimately show ?thesis using i unfolding dispatched_def prefix_of_iff by blast
qed

lemma cor_drop_core:
  assumes "dtmf_cor_drop cancel d t = (d', t', es)" "dm_pending d"
  shows "dm_core d' = (False, [], False, dm_cmds d) \<and> dispatched (dm_cmds d) (dm_buf d) es"
proof -
  obtain d2 t2 where r: "reset_cmd cancel (d\<lparr>dm_pending := False\<rparr>) t = (d2, t2)" by (metis surj_pair)
  with assms have "d' = d2" "es = fst (dispatch_command (d\<lparr>dm_pending := False\<rparr>))"
    by (simp_all add: dtmf_cor_drop_def Let_def)
  with reset_fields[OF r] dispatch_dispatched[of "d\<lparr>dm_pending := False\<rparr>"] show ?thesis
    by (auto simp: dm_core_def)
qed

lemma hash_core:
  assumes "dtmf_run create cancel timer_of d t (press [(now, receiving, CHR ''#'')]) = (d', t', es)" "dm_active d"
  shows "receiving \<Longrightarrow> dm_core d' = (True, dm_buf d, True, dm_cmds d) \<and> es = []"
    and "\<not> receiving \<Longrightarrow> dm_core d' = (False, [], dm_pending d, dm_cmds d) \<and> dispatched (dm_cmds d) (dm_buf d) es"
proof -
  have c: "(dm_core d', es) = core_digit receiving (CHR ''#'') (dm_core d)" by (rule press_core[OF assms(1)])
  show "receiving \<Longrightarrow> dm_core d' = (True, dm_buf d, True, dm_cmds d) \<and> es = []"
    using c assms(2) by (simp add: dm_core_def)
  assume n: "\<not> receiving"
  have "dispatch_command \<lparr>dm_active = dm_active d, dm_buf = dm_buf d, dm_timer = 0, dm_timeout_ms = 0,
      dm_pending = dm_pending d, dm_cmds = dm_cmds d\<rparr> = dispatch_command d"
    by (rule dispatch_core) simp_all
  with n c assms(2) dispatch_dispatched[of d]
  show "dm_core d' = (False, [], dm_pending d, dm_cmds d) \<and> dispatched (dm_cmds d) (dm_buf d) es"
    by (simp add: dm_core_def)
qed

lemma star_core:
  assumes "dtmf_run create cancel timer_of d t (press [(now, receiving, CHR ''*'')]) = (d', t', es)"
  shows "dm_core d' = (True, [], dm_pending d, dm_cmds d) \<and> es = []"
  using press_core[OF assms] by (simp add: dm_core_def)

text \<open>A star and plain digits, from any state.\<close>

lemma star_plain:
  assumes "\<forall>k \<in> set ks. plain_key k" "length ks \<le> MAX_CMD_LEN"
    and "dtmf_run create cancel timer_of d t (press [(n, r, CHR ''*'')] @ press ks) = (d', t', es)"
  shows "dm_core d' = (True, key_chars ks, dm_pending d, dm_cmds d) \<and> es = []"
proof -
  obtain d1 t1 e1 e2 where r1: "dtmf_run create cancel timer_of d t (press [(n, r, CHR ''*'')]) = (d1, t1, e1)"
    and r2: "dtmf_run create cancel timer_of d1 t1 (press ks) = (d', t', e2)" and es: "es = e1 @ e2"
    by (rule dtmf_run_append[OF assms(3)])
  from star_core[OF r1] have f: "dm_active d1" "dm_buf d1 = []" "dm_pending d1 = dm_pending d" "dm_cmds d1 = dm_cmds d" "e1 = []"
    by (simp_all add: dm_core_def)
  with press_plain[OF assms(1) _ _ r2] assms(2) es show ?thesis by simp
qed

text \<open>
  C22. Typing \<open>*\<close>, at most sixteen digits and \<open>#\<close>, from any state: nothing is fired before the
  \<open>#\<close>, and after it the first command of the table whose pattern starts the digits is fired
  once, with the remaining digits (at most 15) as its argument, or nothing when no pattern
  matches; the accumulation is closed and empty. When the receiver is not active at the \<open>#\<close>
  this happens at once.
\<close>

theorem dtmf_command_fires:
  assumes "\<forall>k \<in> set ks. plain_key k" "length ks \<le> MAX_CMD_LEN"
    and "dtmf_run create cancel timer_of d t (press [(n, r, CHR ''*'')] @ press ks @ press [(n', False, CHR ''#'')]) = (d', t', es)"
  shows "dispatched (dm_cmds d) (key_chars ks) es \<and> dm_core d' = (False, [], dm_pending d, dm_cmds d)"
proof -
  obtain d1 t1 e1 e2 where r1: "dtmf_run create cancel timer_of d t (press [(n, r, CHR ''*'')] @ press ks) = (d1, t1, e1)"
    and r2: "dtmf_run create cancel timer_of d1 t1 (press [(n', False, CHR ''#'')]) = (d', t', e2)" and es: "es = e1 @ e2"
    by (rule dtmf_run_append[OF assms(3)[folded append_assoc]])
  from star_plain[OF assms(1,2) r1] have f: "dm_active d1" "dm_buf d1 = key_chars ks" "dm_pending d1 = dm_pending d"
      "dm_cmds d1 = dm_cmds d" "e1 = []"
    by (simp_all add: dm_core_def)
  with hash_core(2)[OF r2] es show ?thesis by simp
qed

definition cmd_911 :: dtmf_cmd where
  "cmd_911 = \<lparr>dc_pattern = ''911'', dc_event_id = 1011, dc_description = ''Emergency on'', dc_config_key = ''emergency_on''\<rparr>"

definition dtmf_fresh :: "dtmf_cmd list \<Rightarrow> dtmfcmd" where
  "dtmf_fresh cmds = \<lparr>dm_active = False, dm_buf = [], dm_timer = -1, dm_timeout_ms = 3000, dm_pending = False, dm_cmds = cmds\<rparr>"

theorem dtmf_command_fires_witness:
  "dispatched [cmd_911] ''911''
     (snd (snd (dtmf_run (\<lambda>now t ms rep cb. (t, -1)) (\<lambda>t h. t) (\<lambda>t h. None) (dtmf_fresh [cmd_911]) ()
        (press [(0, False, CHR ''*'')] @ press [(1, False, CHR ''9''), (2, False, CHR ''1''), (3, False, CHR ''1'')]
         @ press [(4, False, CHR ''#'')]))))"
proof -
  have p: "\<forall>k \<in> set [(1, False, CHR ''9''), (2, False, CHR ''1''), (3, False, CHR ''1'')]. plain_key k"
    by (simp add: plain_key_def)
  have l: "length [(1 :: nat, False, CHR ''9''), (2, False, CHR ''1''), (3, False, CHR ''1'')] \<le> MAX_CMD_LEN" by simp
  obtain d' t' es where r: "dtmf_run (\<lambda>now t ms rep cb. (t, -1)) (\<lambda>t h. t) (\<lambda>t h. None) (dtmf_fresh [cmd_911]) ()
        (press [(0, False, CHR ''*'')] @ press [(1, False, CHR ''9''), (2, False, CHR ''1''), (3, False, CHR ''1'')]
         @ press [(4, False, CHR ''#'')]) = (d', t', es)"
    by (metis prod_cases3)
  from dtmf_command_fires[OF p l r] have "dispatched [cmd_911] ''911'' es" by (simp add: dtmf_fresh_def)
  then show ?thesis by (simp only: r snd_conv)
qed

text \<open>
  While the receiver is active the \<open>#\<close> fires nothing and the command waits for the COR
  drop; the digits keyed after the \<open>#\<close> are appended to it, so the drop dispatches the digits
  before and after the \<open>#\<close> as one command (\<open>*91#1\<close> and a drop run \<open>911\<close>).
\<close>

theorem dtmf_deferred_command:
  assumes "\<forall>k \<in> set ks. plain_key k" "\<forall>k \<in> set ms. plain_key k" "length ks + length ms \<le> MAX_CMD_LEN"
    and "dtmf_run create cancel timer_of d t (press [(n, r, CHR ''*'')] @ press ks @ press [(n', True, CHR ''#'')]) = (d', t', es)"
    and "dtmf_run create cancel timer_of d' t' (press ms @ [(n'', Dtmf_COR_drop)]) = (d'', t'', fs)"
  shows "es = [] \<and> dispatched (dm_cmds d) (key_chars ks @ key_chars ms) fs \<and> dm_core d'' = (False, [], False, dm_cmds d)"
proof -
  obtain d1 t1 e1 e2 where r1: "dtmf_run create cancel timer_of d t (press [(n, r, CHR ''*'')] @ press ks) = (d1, t1, e1)"
    and r2: "dtmf_run create cancel timer_of d1 t1 (press [(n', True, CHR ''#'')]) = (d', t', e2)" and es: "es = e1 @ e2"
    by (rule dtmf_run_append[OF assms(4)[folded append_assoc]])
  have "length ks \<le> MAX_CMD_LEN" using assms(3) by simp
  from star_plain[OF assms(1) this r1] have f: "dm_active d1" "dm_buf d1 = key_chars ks" "dm_cmds d1 = dm_cmds d" "e1 = []"
    by (simp_all add: dm_core_def)
  with hash_core(1)[OF r2] have g: "dm_active d'" "dm_buf d' = key_chars ks" "dm_pending d'" "dm_cmds d' = dm_cmds d" "e2 = []"
    by (simp_all add: dm_core_def)
  obtain d2 t2 f1 f2 where r3: "dtmf_run create cancel timer_of d' t' (press ms) = (d2, t2, f1)"
    and r4: "dtmf_run create cancel timer_of d2 t2 [(n'', Dtmf_COR_drop)] = (d'', t'', f2)" and fs: "fs = f1 @ f2"
    by (rule dtmf_run_append[OF assms(5)])
  from press_plain[OF assms(2) _ g(1) r3] g assms(3)
  have h: "dm_buf d2 = key_chars ks @ key_chars ms" "dm_pending d2" "dm_cmds d2 = dm_cmds d" "f1 = []"
    by (simp_all add: dm_core_def)
  from cor_drop_core[OF _ h(2)] run_one[OF r4]
  have "dm_core d'' = (False, [], False, dm_cmds d2) \<and> dispatched (dm_cmds d2) (dm_buf d2) f2" by simp
  with f g h es fs show ?thesis by simp
qed

theorem dtmf_deferred_command_witness:
  "\<exists>d'' t''. dtmf_run (\<lambda>now t ms rep cb. (t, -1)) (\<lambda>t h. t) (\<lambda>t h. None)
      (fst (dtmf_run (\<lambda>now t ms rep cb. (t, -1)) (\<lambda>t h. t) (\<lambda>t h. None) (dtmf_fresh [cmd_911]) ()
        (press [(0, True, CHR ''*'')] @ press [(1, True, CHR ''9''), (2, True, CHR ''1'')] @ press [(4, True, CHR ''#'')])))
      () (press [(5, True, CHR ''1'')] @ [(6, Dtmf_COR_drop)]) = (d'', t'', [Fire_custom 1011 []])"
proof -
  let ?ks = "[(1 :: nat, True, CHR ''9''), (2, True, CHR ''1'')]" and ?ms = "[(5 :: nat, True, CHR ''1'')]"
  have p: "\<forall>k \<in> set ?ks. plain_key k" "\<forall>k \<in> set ?ms. plain_key k" by (simp_all add: plain_key_def)
  have l: "length ?ks + length ?ms \<le> MAX_CMD_LEN" by simp
  obtain d' t' es where r: "dtmf_run (\<lambda>now t ms rep cb. (t, -1)) (\<lambda>t h. t) (\<lambda>t h. None) (dtmf_fresh [cmd_911]) ()
        (press [(0, True, CHR ''*'')] @ press ?ks @ press [(4, True, CHR ''#'')]) = (d', t', es)"
    by (metis prod_cases3)
  obtain d'' t'' fs where s: "dtmf_run (\<lambda>now t ms rep cb. (t, -1)) (\<lambda>t h. t) (\<lambda>t h. None) d' ()
        (press ?ms @ [(6, Dtmf_COR_drop)]) = (d'', t'', fs)"
    by (metis prod_cases3)
  have "t' = ()" by simp
  from dtmf_deferred_command[OF p l r s[folded this]] have "dispatched [cmd_911] ''911'' fs" by (simp add: dtmf_fresh_def)
  then have "fs = [Fire_custom 1011 []]" by (auto simp: dispatched_def cmd_911_def c_trunc_def)
  with s r show ?thesis by auto
qed

subsection \<open>The inter-digit timer\<close>

locale dtmf_timers = timer_service srv_inv create cancel timer_of
  for srv_inv :: "'t \<Rightarrow> bool"
    and create :: "nat \<Rightarrow> 't \<Rightarrow> int \<Rightarrow> bool \<Rightarrow> dtmf_cb option \<Rightarrow> 't \<times> int"
    and cancel :: "'t \<Rightarrow> int \<Rightarrow> 't"
    and timer_of :: "'t \<Rightarrow> int \<Rightarrow> (dtmf_cb \<times> nat) option"
begin

text \<open>
  The module owns one timer at most, the one of its handle; an inactive accumulation is empty
  and has none; the buffer and the table are within their bounds.
\<close>

definition dtmf_ok :: "dtmfcmd \<Rightarrow> 't \<Rightarrow> bool" where
  "dtmf_ok d t \<longleftrightarrow> sole (\<lambda>c. c = CB_dtmf_timeout) t (dm_timer d) CB_dtmf_timeout \<and>
     length (dm_buf d) \<le> MAX_CMD_LEN \<and> (\<not> dm_active d \<longrightarrow> dm_buf d = [] \<and> dm_timer d < 0)"

lemma cancel_timeout_ok:
  assumes "sole (\<lambda>c. c = CB_dtmf_timeout) t (dm_timer d) CB_dtmf_timeout" "cancel_timeout cancel d t = (d', t')"
  shows "sole (\<lambda>c. c = CB_dtmf_timeout) t' (dm_timer d') CB_dtmf_timeout \<and> dm_timer d' < 0"
  using assms sole_cancel[OF assms(1), of CB_dtmf_timeout "-1"]
  by (auto simp: cancel_timeout_def split: if_splits)

lemma reset_ok:
  assumes "sole (\<lambda>c. c = CB_dtmf_timeout) t (dm_timer d) CB_dtmf_timeout" "reset_cmd cancel d t = (d', t')"
  shows "dtmf_ok d' t'"
  using cancel_timeout_ok[OF _ assms(2)[unfolded reset_cmd_def]] reset_fields[OF assms(2)] assms(1)
  by (auto simp: dtmf_ok_def)

lemma restart_ok:
  assumes "sole (\<lambda>c. c = CB_dtmf_timeout) t (dm_timer d) CB_dtmf_timeout" "restart_timeout create cancel now d t = (d', t')"
  shows "sole (\<lambda>c. c = CB_dtmf_timeout) t' (dm_timer d') CB_dtmf_timeout"
proof -
  obtain d1 t1 where c: "cancel_timeout cancel d t = (d1, t1)" by (metis surj_pair)
  obtain t2 tid where k: "create now t1 (dm_timeout_ms d1) False (Some CB_dtmf_timeout) = (t2, tid)" by (metis surj_pair)
  have e: "d' = d1\<lparr>dm_timer := tid\<rparr>" "t' = t2" using assms(2) c k by (simp_all add: restart_timeout_def)
  from cancel_timeout_ok[OF assms(1) c] sole_create[OF _ _ _ k] e show ?thesis by auto
qed

lemma digit_ok:
  assumes "dtmf_ok d t" "dtmf_digit create cancel now receiving c d t = (d', t', es)"
  shows "dtmf_ok d' t'"
proof -
  from assms(1) have s: "sole (\<lambda>c. c = CB_dtmf_timeout) t (dm_timer d) CB_dtmf_timeout"
    and b: "length (dm_buf d) \<le> MAX_CMD_LEN" by (simp_all add: dtmf_ok_def)
  show ?thesis
  proof (cases rule: digit_cases[where c = c and d = d and receiving = receiving])
    case star
    obtain d1 t1 where r: "restart_timeout create cancel now (d\<lparr>dm_active := True, dm_buf := []\<rparr>) t = (d1, t1)"
      by (metis surj_pair)
    from restart_ok[OF _ r] s restart_fields[OF r] assms(2) star digit_star[OF r, of receiving]
    show ?thesis by (auto simp: dtmf_ok_def)
  next
    case ignored
    with assms digit_ignored[OF ignored, of create cancel now receiving t] show ?thesis by simp
  next
    case hash_deferred
    obtain d1 t1 where k: "cancel_timeout cancel d t = (d1, t1)" by (metis surj_pair)
    from cancel_timeout_ok[OF s k] cancel_timeout_fields[OF k] b hash_deferred assms(2)
      digit_hash_deferred[where create = create, OF hash_deferred(2) k, of now]
    show ?thesis by (auto simp: dtmf_ok_def)
  next
    case hash
    obtain d1 t1 where k: "cancel_timeout cancel d t = (d1, t1)" by (metis surj_pair)
    obtain d2 t2 where r: "reset_cmd cancel d1 t1 = (d2, t2)" by (metis surj_pair)
    from reset_ok[OF _ r] cancel_timeout_ok[OF s k] hash assms(2)
      digit_hash[where create = create, OF hash(2) k r, of now]
    show ?thesis by simp
  next
    case stored
    obtain d1 t1 where r: "restart_timeout create cancel now (d\<lparr>dm_buf := dm_buf d @ [c]\<rparr>) t = (d1, t1)"
      by (metis surj_pair)
    from restart_ok[OF _ r] s restart_fields[OF r] assms(2) stored digit_stored[OF stored r, of receiving]
    show ?thesis by (auto simp: dtmf_ok_def)
  next
    case overflow
    obtain d1 t1 where r: "reset_cmd cancel d t = (d1, t1)" by (metis surj_pair)
    from reset_ok[OF s r] assms(2) digit_overflow[where create = create, OF overflow r, of now receiving]
    show ?thesis by simp
  qed
qed

lemma dtmf_step_ok:
  assumes "dtmf_ok d t" "dtmf_step create cancel timer_of now d t i = (d', t', es)"
  shows "dtmf_ok d' t'"
proof -
  from assms(1) have s: "sole (\<lambda>c. c = CB_dtmf_timeout) t (dm_timer d) CB_dtmf_timeout" by (simp add: dtmf_ok_def)
  show ?thesis
  proof (cases i)
    case (Digit r c)
    with assms digit_ok show ?thesis by simp
  next
    case Dtmf_COR_drop
    obtain d2 t2 where r: "reset_cmd cancel (d\<lparr>dm_pending := False\<rparr>) t = (d2, t2)" by (metis surj_pair)
    from reset_ok[OF _ r] s assms Dtmf_COR_drop r show ?thesis
      by (auto simp: dtmf_cor_drop_def Let_def split: if_splits)
  next
    case (Dtmf_expire h)
    show ?thesis
    proof (cases "\<exists>due. timer_of t h = Some (CB_dtmf_timeout, due) \<and> due \<le> now")
      case True
      then obtain due where a: "timer_of t h = Some (CB_dtmf_timeout, due)" "due \<le> now" by blast
      obtain d2 t2 where r: "reset_cmd cancel (d\<lparr>dm_timer := -1\<rparr>) (cancel t h) = (d2, t2)" by (metis surj_pair)
      have "sole (\<lambda>c. c = CB_dtmf_timeout) (cancel t h) (-1) CB_dtmf_timeout"
        by (rule sole_fires(4)[OF s a(1)]) simp_all
      with reset_ok[OF _ r] assms(2) Dtmf_expire a r show ?thesis by (simp add: timeout_cb_def)
    next
      case False
      with assms Dtmf_expire show ?thesis by (auto split: option.splits prod.splits if_splits dtmf_cb.splits)
    qed
  qed
qed

lemma dtmf_run_ok:
  assumes "dtmf_ok d t" "dtmf_run create cancel timer_of d t is = (d', t', es)"
  shows "dtmf_ok d' t'"
  using assms
proof (induction "is" arbitrary: d t es)
  case (Cons x "is")
  obtain now i where x: "x = (now, i)" by (metis surj_pair)
  obtain d0 t0 e0 where s: "dtmf_step create cancel timer_of now d t i = (d0, t0, e0)" by (metis prod_cases3)
  obtain e' where r: "dtmf_run create cancel timer_of d0 t0 is = (d', t', e')"
    using Cons.prems(2) x s by (auto split: prod.splits)
  from Cons.IH[OF dtmf_step_ok[OF Cons.prems(1) s] r] show ?case .
qed simp

end

interpretation dt: dtmf_timers timer_inv timer_create timer_cancel armed
  by unfold_locales

text \<open>
  The inter-digit timer, on the daemon's timer table: after any run of digits, COR drops and
  timer expiries from a state without timers, every armed timeout of the module is the one
  its handle names, so no stale timeout can wipe a later command; an inactive accumulation
  is empty and has no timer, and the buffer never exceeds its sixteen characters.
\<close>

theorem dtmf_timer_owned:
  assumes "timer_inv t" "\<forall>h. armed t h = None" "dm_timer d = -1" "dm_buf d = []"
    and "dtmf_run timer_create timer_cancel armed d t is = (d', t', es)"
  shows "(\<forall>h due. armed t' h = Some (CB_dtmf_timeout, due) \<longrightarrow> 0 \<le> h \<and> h = dm_timer d') \<and>
         length (dm_buf d') \<le> MAX_CMD_LEN \<and> (\<not> dm_active d' \<longrightarrow> dm_buf d' = [] \<and> dm_timer d' < 0)"
proof -
  have "dt.dtmf_ok d t" using assms(1-4) by (simp add: dt.dtmf_ok_def ts.sole_def)
  from dt.dtmf_run_ok[OF this assms(5)] show ?thesis
    by (auto simp: dt.dtmf_ok_def ts.sole_def split: if_splits)
qed

theorem dtmf_timer_owned_witness:
  "\<exists>d' t' es. dtmf_run timer_create timer_cancel armed (dtmf_fresh []) (timer_init CB_dtmf_timeout)
       [(0, Digit True CHR ''*''), (5, Digit True CHR ''7''), (9000000, Dtmf_expire 2)] = (d', t', es) \<and>
     (\<not> dm_active d' \<longrightarrow> dm_timer d' < 0)"
proof -
  obtain d' t' es where r: "dtmf_run timer_create timer_cancel armed (dtmf_fresh []) (timer_init CB_dtmf_timeout)
       [(0, Digit True CHR ''*''), (5, Digit True CHR ''7''), (9000000, Dtmf_expire 2)] = (d', t', es)"
    by (metis prod_cases3)
  have "\<forall>h. armed (timer_init CB_dtmf_timeout) h = None"
    by (simp add: armed_init)
  from dtmf_timer_owned[OF timer_inv_init this _ _ r] r show ?thesis by (auto simp: dtmf_fresh_def)
qed

end
