(* ===== verification/Emergency.thy ===== *)
theory Emergency
  imports Timer Core_Api Config_Props
begin

text \<open>
  Emergency mode (\<open>modules/mod_emergency.c\<close>): the DTMF commands \<open>911\<close> and \<open>910\<close>, the flag of the
  core they set (\<open>src/kerchunk_core.c\<close>), and the timer that ends the mode. The timer service is
  a parameter; the announcements are the effects of an operation. Other modules set the
  core's flag directly, which is an input of the machine.
\<close>

record emergency =
  em_timeout_ms :: int
  em_sounds_dir :: string
  em_timer :: int

datatype em_cb = CB_emergency_timeout | CB_emergency_foreign nat

datatype em_effect = Em_speak string | Em_play_file string | Em_announce string string

type_synonym 't em_create = "nat \<Rightarrow> 't \<Rightarrow> int \<Rightarrow> bool \<Rightarrow> em_cb option \<Rightarrow> 't \<times> int"
type_synonym 't em_cancel = "'t \<Rightarrow> int \<Rightarrow> 't"

text \<open>The spoken announcement, or the recorded one when there is no text to speech.\<close>

definition em_say :: "bool \<Rightarrow> emergency \<Rightarrow> string \<Rightarrow> string \<Rightarrow> string \<Rightarrow> em_effect list" where
  "em_say has_tts e text file description =
     [if has_tts then Em_speak text else Em_play_file (c_trunc 512 (em_sounds_dir e @ file)),
      Em_announce ''emergency'' description]"

definition emergency_off ::
  "'t em_cancel \<Rightarrow> bool \<Rightarrow> emergency \<Rightarrow> ('h, 'u) core \<Rightarrow> 't \<Rightarrow> emergency \<times> ('h, 'u) core \<times> 't \<times> em_effect list" where
  "emergency_off cancel has_tts e c t =
     (if \<not> core_get_emergency c then (e, c, t, [])
      else (let c1 = core_set_emergency c False;
                (e1, t1) = (if em_timer e \<ge> 0 then (e\<lparr>em_timer := -1\<rparr>, cancel t (em_timer e)) else (e, t))
            in (e1, c1, t1, em_say has_tts e1 ''Emergency mode deactivated.''
                  ''/system/system_emergency_off.wav'' ''emergency deactivated'')))"

definition em_timeout_cb ::
  "'t em_cancel \<Rightarrow> bool \<Rightarrow> emergency \<Rightarrow> ('h, 'u) core \<Rightarrow> 't \<Rightarrow> emergency \<times> ('h, 'u) core \<times> 't \<times> em_effect list" where
  "em_timeout_cb cancel has_tts e c t = emergency_off cancel has_tts (e\<lparr>em_timer := -1\<rparr>) c t"

text \<open>\<open>wall\<close> is the wall-clock time in seconds, \<open>now\<close> the monotonic clock of the timers.\<close>

definition on_emergency_on ::
  "'t em_create \<Rightarrow> 't em_cancel \<Rightarrow> bool \<Rightarrow> nat \<Rightarrow> int \<Rightarrow> emergency \<Rightarrow> ('h, 'u) core \<Rightarrow> 't \<Rightarrow>
   emergency \<times> ('h, 'u) core \<times> 't \<times> em_effect list" where
  "on_emergency_on create cancel has_tts now wall e c t =
     (if core_get_emergency c then (e, c, t, [])
      else (let c1 = core_set_emergency c True;
                c2 = core_set_emergency_expires_at c1 (wall + cdiv (em_timeout_ms e) 1000);
                t1 = (if em_timer e \<ge> 0 then cancel t (em_timer e) else t);
                (t2, tid) = create now t1 (em_timeout_ms e) False (Some CB_emergency_timeout);
                e1 = e\<lparr>em_timer := tid\<rparr>
            in (e1, c2, t2, em_say has_tts e1 ''Emergency mode activated.''
                  ''/system/system_emergency_on.wav'' ''emergency activated'')))"

definition on_emergency_off ::
  "'t em_cancel \<Rightarrow> bool \<Rightarrow> emergency \<Rightarrow> ('h, 'u) core \<Rightarrow> 't \<Rightarrow> emergency \<times> ('h, 'u) core \<times> 't \<times> em_effect list" where
  "on_emergency_off cancel has_tts e c t = emergency_off cancel has_tts e c t"

definition emergency_configure :: "config \<Rightarrow> emergency \<Rightarrow> emergency" where
  "emergency_configure cfg e =
     (let e1 = e\<lparr>em_timeout_ms := config_get_duration_ms cfg ''emergency'' ''timeout'' 1800000\<rparr>
      in case config_get cfg ''general'' ''sounds_dir'' of
           Some v \<Rightarrow> e1\<lparr>em_sounds_dir := c_trunc 256 v\<rparr> | None \<Rightarrow> e1)"

definition emergency_unload :: "'t em_cancel \<Rightarrow> emergency \<Rightarrow> ('h, 'u) core \<Rightarrow> 't \<Rightarrow> emergency \<times> ('h, 'u) core \<times> 't" where
  "emergency_unload cancel e c t =
     (e, core_set_emergency c False, if em_timer e \<ge> 0 then cancel t (em_timer e) else t)"

subsection \<open>The machine\<close>

datatype em_in = Em_on | Em_off | Em_expire int | Em_foreign_set bool

text \<open>A time is the monotonic clock and the wall clock.\<close>

fun em_step ::
  "'t em_create \<Rightarrow> 't em_cancel \<Rightarrow> ('t \<Rightarrow> int \<Rightarrow> (em_cb \<times> nat) option) \<Rightarrow> bool \<Rightarrow> nat \<times> int \<Rightarrow>
   emergency \<times> ('h, 'u) core \<times> 't \<Rightarrow> em_in \<Rightarrow> emergency \<times> ('h, 'u) core \<times> 't \<times> em_effect list" where
  "em_step create cancel timer_of has_tts (now, wall) (e, c, t) Em_on =
     on_emergency_on create cancel has_tts now wall e c t"
| "em_step create cancel timer_of has_tts (now, wall) (e, c, t) Em_off = on_emergency_off cancel has_tts e c t"
| "em_step create cancel timer_of has_tts (now, wall) (e, c, t) (Em_expire h) =
     (case timer_of t h of
        Some (CB_emergency_timeout, due) \<Rightarrow>
          if due \<le> now then em_timeout_cb cancel has_tts e c (cancel t h) else (e, c, t, [])
      | _ \<Rightarrow> (e, c, t, []))"
| "em_step create cancel timer_of has_tts (now, wall) (e, c, t) (Em_foreign_set b) = (e, core_set_emergency c b, t, [])"

fun em_run ::
  "'t em_create \<Rightarrow> 't em_cancel \<Rightarrow> ('t \<Rightarrow> int \<Rightarrow> (em_cb \<times> nat) option) \<Rightarrow> bool \<Rightarrow>
   emergency \<times> ('h, 'u) core \<times> 't \<Rightarrow> ((nat \<times> int) \<times> em_in) list \<Rightarrow> emergency \<times> ('h, 'u) core \<times> 't \<times> em_effect list" where
  "em_run create cancel timer_of has_tts (e, c, t) [] = (e, c, t, [])"
| "em_run create cancel timer_of has_tts (e, c, t) ((w, i) # is) =
     (let (e1, c1, t1, x1) = em_step create cancel timer_of has_tts w (e, c, t) i;
          (e2, c2, t2, x2) = em_run create cancel timer_of has_tts (e1, c1, t1) is
      in (e2, c2, t2, x1 @ x2))"

lemma core_emergency_simps [simp]:
  "core_get_emergency (core_set_emergency c b) = b"
  "core_get_emergency (core_set_emergency_expires_at c x) = core_get_emergency c"
  "g_emergency_expires_at (core_set_emergency c False) = 0"
  "g_emergency_expires_at (core_set_emergency_expires_at c x) = x"
  by (simp_all add: core_get_emergency_def core_set_emergency_def core_set_emergency_expires_at_def Let_def)

locale emergency_timers = timer_service srv_inv create cancel timer_of
  for srv_inv :: "'t \<Rightarrow> bool"
    and create :: "nat \<Rightarrow> 't \<Rightarrow> int \<Rightarrow> bool \<Rightarrow> em_cb option \<Rightarrow> 't \<times> int"
    and cancel :: "'t \<Rightarrow> int \<Rightarrow> 't"
    and timer_of :: "'t \<Rightarrow> int \<Rightarrow> (em_cb \<times> nat) option"
begin

abbreviation em_sole :: "'t \<Rightarrow> int \<Rightarrow> bool" where
  "em_sole t h \<equiv> sole (\<lambda>c. c = CB_emergency_timeout) t h CB_emergency_timeout"

lemma em_step_sole:
  assumes "em_sole t (em_timer e)" "em_step create cancel timer_of has_tts w (e, c, t) i = (e', c', t', x)"
  shows "em_sole t' (em_timer e')"
proof -
  obtain now wall where w: "w = (now, wall)" by (metis surj_pair)
  note can = sole_cancel[OF assms(1), of CB_emergency_timeout "-1"]
  show ?thesis
  proof (cases i)
    case Em_on
    obtain t2 tid where k: "create now (if em_timer e \<ge> 0 then cancel t (em_timer e) else t) (em_timeout_ms e) False
        (Some CB_emergency_timeout) = (t2, tid)" by (metis surj_pair)
    have "em_sole t2 tid"
    proof (cases "em_timer e \<ge> 0")
      case True
      with sole_create[OF can _ _ k[simplified True if_True]] show ?thesis by simp
    next
      case False
      with sole_create[OF assms(1) _ _ k[simplified False if_False]] show ?thesis by simp
    qed
    with assms Em_on w k show ?thesis by (auto simp: on_emergency_on_def Let_def split: if_splits)
  next
    case Em_off
    with assms w can show ?thesis
      by (auto simp: on_emergency_off_def emergency_off_def Let_def split: if_splits)
  next
    case (Em_expire h)
    show ?thesis
    proof (cases "\<exists>due. timer_of t h = Some (CB_emergency_timeout, due) \<and> due \<le> now")
      case True
      then obtain due where a: "timer_of t h = Some (CB_emergency_timeout, due)" "due \<le> now" by blast
      have "em_sole (cancel t h) (-1)" by (rule sole_fires(4)[OF assms(1) a(1)]) simp_all
      moreover have "em_timer e' = -1" "t' = cancel t h"
        using assms(2) Em_expire w a
        by (auto simp: em_timeout_cb_def emergency_off_def Let_def split: if_splits)
      ultimately show ?thesis by simp
    next
      case False
      then show ?thesis using assms Em_expire w
        by (cases "timer_of t h") (auto split: em_cb.splits if_splits)
    qed
  next
    case (Em_foreign_set b)
    with assms w show ?thesis by simp
  qed
qed

text \<open>Activation from an idle mode arms the module's timer.\<close>

lemma on_arms:
  assumes "em_sole t (em_timer e)" "\<not> core_get_emergency c"
    and "em_step create cancel timer_of has_tts (now, wall) (e, c, t) Em_on = (e', c', t', x)" "0 \<le> em_timer e'"
  shows "em_sole t' (em_timer e')" "core_get_emergency c'"
    "timer_of t' (em_timer e') = Some (CB_emergency_timeout, now + nat (em_timeout_ms e) * 1000)"
proof -
  show "em_sole t' (em_timer e')" by (rule em_step_sole[OF assms(1,3)])
  let ?t1 = "if em_timer e \<ge> 0 then cancel t (em_timer e) else t"
  obtain t2 tid where k: "create now ?t1 (em_timeout_ms e) False (Some CB_emergency_timeout) = (t2, tid)" by (metis surj_pair)
  have e: "e' = e\<lparr>em_timer := tid\<rparr>" "t' = t2" "core_get_emergency c'"
    using assms(2,3) k by (auto simp: on_emergency_on_def Let_def)
  show "core_get_emergency c'" by (rule e(3))
  have "srv_inv ?t1" using sole_inv[OF assms(1)] cancel_law by simp
  from handle_create(3)[OF this k] e assms(4)
  show "timer_of t' (em_timer e') = Some (CB_emergency_timeout, now + nat (em_timeout_ms e) * 1000)" by simp
qed

text \<open>
  What leaves an armed emergency alone: another activation, the expiry of some other id, or
  of its own before its time.
\<close>

definition em_quiet :: "int \<Rightarrow> nat \<Rightarrow> (nat \<times> int) \<times> em_in \<Rightarrow> bool" where
  "em_quiet h due i = (case i of
      ((now, wall), Em_on) \<Rightarrow> True | ((now, wall), Em_expire h') \<Rightarrow> h' \<noteq> h \<or> now < due | _ \<Rightarrow> False)"

lemma quiet_step:
  assumes "em_sole t (em_timer e)" "core_get_emergency c" "0 \<le> em_timer e"
    and "timer_of t (em_timer e) = Some (CB_emergency_timeout, due)" "em_quiet (em_timer e) due (w, i)"
  shows "em_step create cancel timer_of has_tts w (e, c, t) i = (e, c, t, [])"
proof -
  obtain now wall where w: "w = (now, wall)" by (metis surj_pair)
  show ?thesis
  proof (cases i)
    case Em_on
    with assms(2) w show ?thesis by (simp add: on_emergency_on_def)
  next
    case (Em_expire h)
    have "h = em_timer e" if "timer_of t h = Some (CB_emergency_timeout, d)" for d
      using sole_fires(1)[OF assms(1) that] by simp
    with Em_expire w assms(4,5) show ?thesis
      by (cases "timer_of t h") (auto simp: em_quiet_def split: em_cb.splits)
  qed (use assms(5) w in \<open>simp_all add: em_quiet_def\<close>)
qed

lemma quiet_run:
  assumes "em_sole t (em_timer e)" "core_get_emergency c" "0 \<le> em_timer e"
    and "timer_of t (em_timer e) = Some (CB_emergency_timeout, due)" "\<forall>i \<in> set is. em_quiet (em_timer e) due i"
  shows "em_run create cancel timer_of has_tts (e, c, t) is = (e, c, t, [])"
  using assms(5)
proof (induction "is")
  case (Cons i "is")
  obtain w j where i: "i = (w, j)" by (metis surj_pair)
  from quiet_step[OF assms(1-4), of w j has_tts] Cons i show ?case by simp
qed simp

lemma due_step:
  assumes "core_get_emergency c" "timer_of t (em_timer e) = Some (CB_emergency_timeout, due)" "due \<le> now"
  shows "em_step create cancel timer_of has_tts (now, wall) (e, c, t) (Em_expire (em_timer e)) =
     (e\<lparr>em_timer := -1\<rparr>, core_set_emergency c False, cancel t (em_timer e),
      em_say has_tts e ''Emergency mode deactivated.'' ''/system/system_emergency_off.wav'' ''emergency deactivated'')"
  using assms by (simp add: em_timeout_cb_def emergency_off_def em_say_def)

end

interpretation et: emergency_timers timer_inv timer_create timer_cancel armed
  by unfold_locales

text \<open>
  The emergency mode ends by itself, on the daemon's timer table: when \<open>*911#\<close> activates it
  and a timer could be created, then whatever activations and foreign timer expiries follow
  (a second \<open>*911#\<close> does not extend it), the state does not move before the configured
  timeout, and the expiry of the timer at or after that time clears the core's flag and its
  expiry time and announces it.
\<close>

theorem emergency_auto_off:
  assumes "et.em_sole t (em_timer e)" "\<not> core_get_emergency c"
    and "em_step timer_create timer_cancel armed has_tts (now, wall) (e, c, t) Em_on = (e1, c1, t1, x1)" "0 \<le> em_timer e1"
    and "\<forall>i \<in> set is. et.em_quiet (em_timer e1) (now + nat (em_timeout_ms e) * 1000) i"
    and "now + nat (em_timeout_ms e) * 1000 \<le> now'"
  shows "core_get_emergency c1 \<and>
     em_run timer_create timer_cancel armed has_tts (e1, c1, t1) is = (e1, c1, t1, []) \<and>
     em_step timer_create timer_cancel armed has_tts (now', wall') (e1, c1, t1) (Em_expire (em_timer e1)) =
       (e1\<lparr>em_timer := -1\<rparr>, core_set_emergency c1 False, timer_cancel t1 (em_timer e1),
        em_say has_tts e1 ''Emergency mode deactivated.'' ''/system/system_emergency_off.wav'' ''emergency deactivated'')"
proof -
  note a = et.on_arms[OF assms(1-4)]
  from a(2) et.quiet_run[OF a(1,2) assms(4) a(3) assms(5)] et.due_step[OF a(2,3) assms(6)] show ?thesis by blast
qed
definition em_fresh :: emergency where
  "em_fresh = \<lparr>em_timeout_ms = 1800000, em_sounds_dir = ''/etc/kerchunk/sounds'', em_timer = -1\<rparr>"

lemma em_fresh_sole: "et.em_sole (timer_init cb) (em_timer em_fresh)"
  by (simp add: ts.sole_def timer_inv_init armed_init em_fresh_def)

theorem emergency_auto_off_witness:
  "\<exists>e1 c1 t1 x1. em_step timer_create timer_cancel armed False (0, 0) (em_fresh, core_init :: (nat, nat) core, timer_init CB_emergency_timeout) Em_on
       = (e1, c1, t1, x1) \<and>
     fst (snd (em_step timer_create timer_cancel armed False (1800000000, 1800) (e1, c1, t1) (Em_expire (em_timer e1)))) = core_set_emergency c1 False"
proof -
  let ?s = "(em_fresh, core_init :: (nat, nat) core, timer_init CB_emergency_timeout)"
  obtain e1 c1 t1 x1 where r: "em_step timer_create timer_cancel armed False (0, 0) ?s Em_on = (e1, c1, t1, x1)"
    by (metis prod_cases4)
  have n: "\<not> core_get_emergency (core_init :: (nat, nat) core)" by (simp add: core_get_emergency_def core_init_def)
  have "em_timer e1 = 1"
    using r n by (auto simp: on_emergency_on_def first_timer_ms em_fresh_def Let_def)
  then have "0 \<le> em_timer e1" by simp
  from emergency_auto_off[OF em_fresh_sole n r this, of "[]" 1800000000 1800] r show ?thesis
    by (simp add: em_fresh_def)
qed

text \<open>
  Without a timer the mode never ends by itself: when the flag is set and the module holds no
  timer (another module set the flag, or the configured timeout is 0, so that no timer was
  created), any sequence of further activations, timer expiries and repeated settings of the
  flag changes nothing; in particular \<open>*911#\<close> does not arm the timer.
\<close>

theorem emergency_without_timer_stays:
  assumes "et.em_sole t (em_timer e)" "em_timer e < 0" "core_get_emergency c"
    and "\<forall>i \<in> set is. snd i = Em_on \<or> snd i = Em_foreign_set True \<or> (\<exists>h. snd i = Em_expire h)"
    and "em_run timer_create timer_cancel armed has_tts (e, c, t) is = (e', c', t', x)"
  shows "core_get_emergency c' \<and> e' = e \<and> t' = t \<and> x = []"
  using assms(3-5)
proof (induction "is" arbitrary: c x)
  case (Cons i "is")
  obtain now wall j where i: "i = ((now, wall), j)" by (metis prod_cases3 surj_pair)
  have no: "armed t h \<noteq> Some (CB_emergency_timeout, due)" for h due
    using assms(1,2) by (auto simp: ts.sole_def)
  have s: "\<exists>c1. em_step timer_create timer_cancel armed has_tts (now, wall) (e, c, t) j = (e, c1, t, []) \<and> core_get_emergency c1"
    using Cons.prems(1,2) i no
    by (auto simp: on_emergency_on_def split: option.splits em_cb.splits)
  then obtain c1 where s: "em_step timer_create timer_cancel armed has_tts (now, wall) (e, c, t) j = (e, c1, t, [])"
    and a: "core_get_emergency c1" by blast
  obtain x2 where "em_run timer_create timer_cancel armed has_tts (e, c1, t) is = (e', c', t', x2)" "x = x2"
    using Cons.prems(3) i s by (auto split: prod.splits)
  with Cons.IH[OF a] Cons.prems(2) show ?case by simp
qed simp

lemma emergency_zero_timeout:
  assumes "em_timeout_ms e \<le> 0" "\<not> core_get_emergency c"
    and "em_step timer_create timer_cancel armed has_tts (now, wall) (e, c, t) Em_on = (e', c', t', x)"
  shows "core_get_emergency c' \<and> em_timer e' = -1"
  using assms by (auto simp: on_emergency_on_def timer_create_def Let_def)

theorem emergency_without_timer_stays_witness:
  "\<exists>e' c' t' x. em_run timer_create timer_cancel armed False
       (em_fresh, core_set_emergency (core_init :: (nat, nat) core) True, timer_init CB_emergency_timeout)
       [((0, 0), Em_on), ((9000000000, 9000), Em_expire 1)] = (e', c', t', x) \<and> core_get_emergency c'"
proof -
  obtain e' c' t' x where r: "em_run timer_create timer_cancel armed False
       (em_fresh, core_set_emergency (core_init :: (nat, nat) core) True, timer_init CB_emergency_timeout)
       [((0, 0), Em_on), ((9000000000, 9000), Em_expire 1)] = (e', c', t', x)"
    by (metis prod_cases4)
  have "em_timer em_fresh < 0" by (simp add: em_fresh_def)
  from emergency_without_timer_stays[OF em_fresh_sole this _ _ r] r show ?thesis by auto
qed

end
