(* ===== verification/Caller.thy ===== *)
theory Caller
  imports Timer User
begin

text \<open>
  Caller identification (\<open>modules/mod_caller.c\<close>): the capture of ANI digits after a COR assert, the
  DTMF login \<open>*code#\<close>, and the login session that outlives a transmission. The users are those of
  theory \<open>User\<close>; the timer service is a parameter; events, speech, tones and the snapshots
  published to the dashboard are the effects of an operation. A digit buffer with its position
  is the list of the stored digits.
\<close>

abbreviation MAX_ANI_LEN :: nat where "MAX_ANI_LEN \<equiv> 8"
abbreviation CALLER_DTMF_ANI :: int where "CALLER_DTMF_ANI \<equiv> 3"
abbreviation CALLER_DTMF_LOGIN :: int where "CALLER_DTMF_LOGIN \<equiv> 4"
abbreviation PRI_LOW :: int where "PRI_LOW \<equiv> 1"
abbreviation PRI_NORMAL :: int where "PRI_NORMAL \<equiv> 2"

record caller =
  ca_user :: int
  ca_method :: int
  ca_ani_active :: bool
  ca_ani_buf :: string
  ca_ani_timer :: int
  ca_ani_window_ms :: int
  ca_login_active :: bool
  ca_login_buf :: string
  ca_session_user :: int
  ca_session_timer :: int
  ca_login_timeout_ms :: int
  ca_started_at :: int
  ca_logout_code :: string

datatype caller_cb = CB_ani | CB_session | CB_caller_foreign nat

text \<open>The snapshot of a publication: the fields of its JSON object.\<close>

record caller_snapshot =
  cs_authenticated :: bool
  cs_user_id :: int
  cs_user_name :: string
  cs_method :: string
  cs_current :: int
  cs_started_at :: int
  cs_remaining :: int
  cs_timeout :: int

datatype caller_effect =
    Ev_identified int int
  | Ev_cleared
  | Publish caller_snapshot
  | Ca_speak string int
  | Ca_tone int

text \<open>What a handler reads from the core: the clocks, the hooks that are set, the users.\<close>

record caller_env =
  ce_now_us :: nat
  ce_wall :: int
  ce_tts :: bool
  ce_sse :: bool
  ce_db :: user_db

type_synonym 't ca_create = "nat \<Rightarrow> 't \<Rightarrow> int \<Rightarrow> bool \<Rightarrow> caller_cb option \<Rightarrow> 't \<times> int"
type_synonym 't ca_cancel = "'t \<Rightarrow> int \<Rightarrow> 't"
type_synonym 't ca_op = "caller \<Rightarrow> 't \<Rightarrow> caller \<times> 't \<times> caller_effect list"

definition publish_session_snapshot :: "caller_env \<Rightarrow> caller \<Rightarrow> caller_effect list" where
  "publish_session_snapshot env s =
     (if \<not> ce_sse env then []
      else (let auth = ca_session_user s > 0;
                u = (if auth then user_lookup_by_id (ce_db env) (ca_session_user s) else None);
                remaining = (if auth \<and> ca_started_at s > 0
                             then (let elapsed = ce_wall env - ca_started_at s; total = cdiv (ca_login_timeout_ms s) 1000
                                   in if total > elapsed then total - elapsed else 0)
                             else 0)
            in [Publish \<lparr>cs_authenticated = auth, cs_user_id = ca_session_user s,
                  cs_user_name = (case u of Some v \<Rightarrow> u_name v | None \<Rightarrow> []),
                  cs_method = (if auth then ''LOGIN'' else []), cs_current = ca_user s,
                  cs_started_at = ca_started_at s, cs_remaining = remaining,
                  cs_timeout = cdiv (ca_login_timeout_ms s) 1000\<rparr>]))"

definition fire_identified :: "caller_env \<Rightarrow> int \<Rightarrow> int \<Rightarrow> caller \<Rightarrow> caller \<times> caller_effect list" where
  "fire_identified env uid meth s =
     (let s1 = s\<lparr>ca_user := uid, ca_method := meth\<rparr>
      in (s1, Ev_identified uid meth # publish_session_snapshot env s1))"

definition fire_cleared :: "caller_env \<Rightarrow> caller \<Rightarrow> caller \<times> caller_effect list" where
  "fire_cleared env s =
     (if ca_user s = 0 then (s, [])
      else (let s1 = s\<lparr>ca_user := 0, ca_method := 0\<rparr> in (s1, Ev_cleared # publish_session_snapshot env s1)))"

text \<open>A spoken message about a user, with a fallback for one without a name.\<close>

definition spoken :: "caller_env \<Rightarrow> int \<Rightarrow> string \<Rightarrow> string \<Rightarrow> string \<Rightarrow> string" where
  "spoken env uid before after fallback =
     c_trunc 96 (case user_lookup_by_id (ce_db env) uid of
        Some u \<Rightarrow> if u_name u \<noteq> [] then before @ u_name u @ after else fallback
      | None \<Rightarrow> fallback)"

definition session_timeout_cb :: "caller_env \<Rightarrow> 't ca_op" where
  "session_timeout_cb env s0 t =
     (let s = s0\<lparr>ca_session_timer := -1\<rparr>
      in if ca_session_user s > 0 then
           (let s1 = s\<lparr>ca_session_user := 0, ca_started_at := 0\<rparr>;
                (s2, e2) = (if ca_user s1 > 0 \<and> ca_method s1 = CALLER_DTMF_LOGIN then fire_cleared env s1 else (s1, []))
            in (s2, t, e2 @ publish_session_snapshot env s2 @
                (if ce_tts env
                 then [Ca_speak (spoken env (ca_session_user s) [] '', your login session has expired.'' ''Login session expired.'') PRI_LOW]
                 else [])))
         else (s, t, []))"

definition session_start :: "'t ca_create \<Rightarrow> 't ca_cancel \<Rightarrow> caller_env \<Rightarrow> int \<Rightarrow> 't ca_op" where
  "session_start create cancel env uid s t =
     (let s1 = s\<lparr>ca_session_user := uid, ca_started_at := ce_wall env\<rparr>;
          t1 = (if ca_session_timer s1 \<ge> 0 then cancel t (ca_session_timer s1) else t);
          (t2, tid) = create (ce_now_us env) t1 (ca_login_timeout_ms s1) False (Some CB_session);
          s2 = s1\<lparr>ca_session_timer := tid\<rparr>
      in (s2, t2, publish_session_snapshot env s2 @
          (if ce_tts env then [Ca_speak (spoken env uid ''Welcome '' '', you are logged in.'' ''Logged in.'') PRI_NORMAL]
           else [Ca_tone 600, Ca_tone 800, Ca_tone 1000])))"

definition session_refresh :: "'t ca_create \<Rightarrow> 't ca_cancel \<Rightarrow> caller_env \<Rightarrow> 't ca_op" where
  "session_refresh create cancel env s t =
     (if ca_session_user s \<le> 0 \<or> ca_session_timer s < 0 then (s, t, [])
      else (let t1 = cancel t (ca_session_timer s);
                (t2, tid) = create (ce_now_us env) t1 (ca_login_timeout_ms s) False (Some CB_session);
                s1 = s\<lparr>ca_session_timer := tid, ca_started_at := ce_wall env\<rparr>
            in (s1, t2, publish_session_snapshot env s1)))"

definition session_clear :: "'t ca_cancel \<Rightarrow> caller_env \<Rightarrow> 't ca_op" where
  "session_clear cancel env s t =
     (let (s1, t1) = (if ca_session_timer s \<ge> 0 then (s\<lparr>ca_session_timer := -1\<rparr>, cancel t (ca_session_timer s)) else (s, t));
          s2 = s1\<lparr>ca_session_user := 0, ca_started_at := 0\<rparr>
      in (s2, t1, publish_session_snapshot env s2))"

definition do_logout :: "'t ca_cancel \<Rightarrow> caller_env \<Rightarrow> 't ca_op" where
  "do_logout cancel env s t =
     (if ca_session_user s \<le> 0 then (s, t, [])
      else (let e0 = (if ce_tts env
                      then [Ca_speak (spoken env (ca_session_user s) ''Goodbye '' '', you are logged out.'' ''Logged out.'') PRI_NORMAL]
                      else [Ca_tone 1000, Ca_tone 800, Ca_tone 600]);
                (s1, t1, e1) = session_clear cancel env s t;
                (s2, e2) = (if ca_user s1 > 0 then fire_cleared env s1 else (s1, []))
            in (s2, t1, e0 @ e1 @ e2)))"

definition ani_timeout :: "caller_env \<Rightarrow> 't ca_op" where
  "ani_timeout env s0 t =
     (let s = s0\<lparr>ca_ani_timer := -1, ca_ani_active := False\<rparr>
      in if ca_ani_buf s \<noteq> [] then
           (case user_lookup_by_ani (ce_db env) (Some (ca_ani_buf s)) of
              Some u \<Rightarrow> (let (s1, e1) = fire_identified env (u_id u) CALLER_DTMF_ANI s in (s1, t, e1))
            | None \<Rightarrow> (s, t, []))
         else (s, t, []))"

definition ca_cor_assert :: "'t ca_create \<Rightarrow> 't ca_cancel \<Rightarrow> caller_env \<Rightarrow> 't ca_op" where
  "ca_cor_assert create cancel env s0 t =
     (let s = (if \<not> ca_ani_active s0 then s0\<lparr>ca_ani_active := True, ca_ani_buf := []\<rparr> else s0)
      in if ca_session_user s > 0 then
           (let (s1, t1, e1) = session_refresh create cancel env s t;
                (s2, e2) = (if ca_user s1 \<noteq> ca_session_user s1
                            then fire_identified env (ca_session_user s1) CALLER_DTMF_LOGIN s1 else (s1, []))
            in (s2, t1, e1 @ e2))
         else (s, t, []))"

text \<open>\<open>if (g_ani_timer >= 0) { cancel; g_ani_timer = -1; }\<close>\<close>

definition cancel_ani :: "'t ca_cancel \<Rightarrow> caller \<Rightarrow> 't \<Rightarrow> caller \<times> 't" where
  "cancel_ani cancel s t =
     (if ca_ani_timer s \<ge> 0 then (s\<lparr>ca_ani_timer := -1\<rparr>, cancel t (ca_ani_timer s)) else (s, t))"

definition ca_cor_drop :: "'t ca_cancel \<Rightarrow> caller_env \<Rightarrow> 't ca_op" where
  "ca_cor_drop cancel env s0 t =
     (let (s1, t1) = cancel_ani cancel s0 t;
          s = s1\<lparr>ca_ani_active := False\<rparr>
      in if ca_method s = CALLER_DTMF_LOGIN
         then (s\<lparr>ca_user := 0, ca_method := 0\<rparr>, t1, [Ev_cleared])
         else (let (s2, e2) = fire_cleared env s in (s2, t1, e2)))"
text \<open>The ANI window closes at the star: the digits so far are looked up.\<close>

definition ani_star :: "'t ca_cancel \<Rightarrow> caller_env \<Rightarrow> 't ca_op" where
  "ani_star cancel env s t =
     (let (s1, t1) = cancel_ani cancel (s\<lparr>ca_ani_active := False\<rparr>) t
      in if ca_ani_buf s1 \<noteq> [] then
           (case user_lookup_by_ani (ce_db env) (Some (ca_ani_buf s1)) of
              Some u \<Rightarrow> (let (s2, e2) = fire_identified env (u_id u) CALLER_DTMF_ANI s1 in (s2, t1, e2))
            | None \<Rightarrow> (s1, t1, []))
         else (s1, t1, []))"

definition ani_digit :: "'t ca_create \<Rightarrow> caller_env \<Rightarrow> char \<Rightarrow> caller \<Rightarrow> 't \<Rightarrow> caller \<times> 't" where
  "ani_digit create env d s t =
     (let (s1, t1) = (if ca_ani_buf s = [] \<and> ca_ani_timer s < 0
                      then (let (t1, tid) = create (ce_now_us env) t (ca_ani_window_ms s) False (Some CB_ani)
                            in (s\<lparr>ca_ani_timer := tid\<rparr>, t1))
                      else (s, t))
      in (s1\<lparr>ca_ani_buf := ca_ani_buf s1 @ [d]\<rparr>, t1))"

text \<open>The search of the users for a login code.\<close>

definition login_user :: "user_db \<Rightarrow> string \<Rightarrow> user option" where
  "login_user db code = find (\<lambda>u. u_dtmf_login u \<noteq> [] \<and> u_dtmf_login u = code) (db_users db)"

text \<open>The rest of the handler: \<open>*\<close>, then \<open>#\<close> or a digit of the login code.\<close>

definition login_digit :: "'t ca_create \<Rightarrow> 't ca_cancel \<Rightarrow> caller_env \<Rightarrow> char \<Rightarrow> 't ca_op" where
  "login_digit create cancel env d s t =
     (if d = CHR ''*'' then (s\<lparr>ca_login_active := True, ca_login_buf := []\<rparr>, t, [])
      else if \<not> ca_login_active s then (s, t, [])
      else if d = CHR ''#'' then
        (let s1 = s\<lparr>ca_login_active := False\<rparr>; code = ca_login_buf s1
         in if ca_session_user s1 > 0 then
              (if ca_logout_code s1 \<noteq> [] \<and> code = ca_logout_code s1 then do_logout cancel env s1 t else (s1, t, []))
            else (case login_user (ce_db env) code of
                    Some u \<Rightarrow> (let (s2, e2) = fire_identified env (u_id u) CALLER_DTMF_LOGIN s1;
                                   (s3, t3, e3) = session_start create cancel env (u_id u) s2 t
                               in (s3, t3, e2 @ e3))
                  | None \<Rightarrow> (s1, t, [])))
      else if length (ca_login_buf s) < MAX_ANI_LEN then (s\<lparr>ca_login_buf := ca_login_buf s @ [d]\<rparr>, t, [])
      else (s\<lparr>ca_login_active := False\<rparr>, t, []))"

definition ca_dtmf_digit :: "'t ca_create \<Rightarrow> 't ca_cancel \<Rightarrow> caller_env \<Rightarrow> char \<Rightarrow> 't ca_op" where
  "ca_dtmf_digit create cancel env d s t =
     (if ca_ani_active s \<and> length (ca_ani_buf s) < MAX_ANI_LEN then
        (if d = CHR ''*'' then
           (let (s1, t1, e1) = ani_star cancel env s t;
                (s2, t2, e2) = login_digit create cancel env d s1 t1
            in (s2, t2, e1 @ e2))
         else (let (s1, t1) = ani_digit create env d s t in (s1, t1, [])))
      else login_digit create cancel env d s t)"

definition caller_configure :: "config \<Rightarrow> caller_env \<Rightarrow> caller \<Rightarrow> caller \<times> caller_effect list" where
  "caller_configure cfg env s =
     (let s1 = s\<lparr>ca_ani_window_ms := config_get_duration_ms cfg ''caller'' ''ani_window'' 1000,
                 ca_login_timeout_ms := config_get_duration_ms cfg ''caller'' ''login_timeout'' 1800000,
                 ca_logout_code := (case config_get cfg ''caller'' ''logout_code'' of
                     Some lc \<Rightarrow> if lc \<noteq> [] then c_trunc (MAX_ANI_LEN + 1) lc else [] | None \<Rightarrow> [])\<rparr>
      in (s1, publish_session_snapshot env s1))"

definition caller_unload :: "'t ca_cancel \<Rightarrow> caller_env \<Rightarrow> 't ca_op" where
  "caller_unload cancel env s t =
     session_clear cancel env s (if ca_ani_timer s \<ge> 0 then cancel t (ca_ani_timer s) else t)"

subsection \<open>The machine\<close>

datatype caller_in = Ca_cor_assert | Ca_cor_drop | Ca_digit char | Ca_expire int

fun ca_callback :: "caller_env \<Rightarrow> caller_cb \<Rightarrow> 't ca_op" where
  "ca_callback env CB_ani s t = ani_timeout env s t"
| "ca_callback env CB_session s t = session_timeout_cb env s t"
| "ca_callback env (CB_caller_foreign k) s t = (s, t, [])"

fun ca_step :: "'t ca_create \<Rightarrow> 't ca_cancel \<Rightarrow> ('t \<Rightarrow> int \<Rightarrow> (caller_cb \<times> nat) option) \<Rightarrow> caller_env \<Rightarrow>
    caller \<times> 't \<Rightarrow> caller_in \<Rightarrow> caller \<times> 't \<times> caller_effect list" where
  "ca_step create cancel timer_of env (s, t) Ca_cor_assert = ca_cor_assert create cancel env s t"
| "ca_step create cancel timer_of env (s, t) Ca_cor_drop = ca_cor_drop cancel env s t"
| "ca_step create cancel timer_of env (s, t) (Ca_digit d) = ca_dtmf_digit create cancel env d s t"
| "ca_step create cancel timer_of env (s, t) (Ca_expire h) =
     (case timer_of t h of
        Some (c, due) \<Rightarrow> if due \<le> ce_now_us env then ca_callback env c s (cancel t h) else (s, t, [])
      | None \<Rightarrow> (s, t, []))"

fun ca_run :: "'t ca_create \<Rightarrow> 't ca_cancel \<Rightarrow> ('t \<Rightarrow> int \<Rightarrow> (caller_cb \<times> nat) option) \<Rightarrow>
    caller \<times> 't \<Rightarrow> (caller_env \<times> caller_in) list \<Rightarrow> caller \<times> 't \<times> caller_effect list" where
  "ca_run create cancel timer_of st [] = (fst st, snd st, [])"
| "ca_run create cancel timer_of st ((env, i) # is) =
     (let (s1, t1, e1) = ca_step create cancel timer_of env st i;
          (s2, t2, e2) = ca_run create cancel timer_of (s1, t1) is
      in (s2, t2, e1 @ e2))"

subsection \<open>The events tell the current caller\<close>

text \<open>The user and method that a subscriber derives from the events.\<close>

fun heard :: "caller_effect list \<Rightarrow> int \<times> int \<Rightarrow> int \<times> int" where
  "heard [] um = um"
| "heard (Ev_identified u m # es) um = heard es (u, m)"
| "heard (Ev_cleared # es) um = heard es (0, 0)"
| "heard (Publish x # es) um = heard es um"
| "heard (Ca_speak x p # es) um = heard es um"
| "heard (Ca_tone x # es) um = heard es um"

lemma heard_append [simp]: "heard (xs @ ys) um = heard ys (heard xs um)"
  by (induction xs um rule: heard.induct) simp_all

lemma heard_publish [simp]: "heard (publish_session_snapshot env s) um = um"
  by (simp add: publish_session_snapshot_def Let_def)

definition ca_who :: "caller \<Rightarrow> int \<times> int" where
  "ca_who s = (ca_user s, ca_method s)"

text \<open>An operation tells what it does to the current caller.\<close>

definition tells :: "caller \<Rightarrow> caller \<Rightarrow> caller_effect list \<Rightarrow> bool" where
  "tells s s' es \<longleftrightarrow> heard es (ca_who s) = ca_who s'"

lemma fire_identified_tells: "fire_identified env u m s = (s', es) \<Longrightarrow> heard es x = ca_who s'"
  by (auto simp: fire_identified_def ca_who_def Let_def)

lemma fire_cleared_tells: "fire_cleared env s = (s', es) \<Longrightarrow> heard es (ca_who s) = ca_who s'"
  by (auto simp: fire_cleared_def ca_who_def Let_def split: if_splits)
text \<open>The operations that are about the session or the capture only leave the current caller alone.\<close>

lemma silent_tells:
  "ca_who s' = ca_who s \<Longrightarrow> heard es (ca_who s) = ca_who s \<Longrightarrow> tells s s' es"
  by (simp add: tells_def)

lemma tells_trans: "tells s s1 e1 \<Longrightarrow> tells s1 s2 e2 \<Longrightarrow> tells s s2 (e1 @ e2)"
  by (simp add: tells_def)

lemma cancel_ani_who: "cancel_ani cancel s t = (s', t') \<Longrightarrow> ca_who s' = ca_who s"
  by (auto simp: cancel_ani_def ca_who_def split: if_splits)

lemma session_clear_tells: "session_clear cancel env s t = (s', t', es) \<Longrightarrow> tells s s' es"
  by (auto simp: session_clear_def tells_def ca_who_def Let_def split: if_splits)

lemma session_refresh_tells: "session_refresh create cancel env s t = (s', t', es) \<Longrightarrow> tells s s' es"
  by (auto simp: session_refresh_def tells_def ca_who_def Let_def split: if_splits prod.splits)

lemma session_start_tells: "session_start create cancel env u s t = (s', t', es) \<Longrightarrow> tells s s' es"
  by (auto simp: session_start_def tells_def ca_who_def Let_def split: if_splits prod.splits)

lemma session_timeout_tells:
  assumes "session_timeout_cb env s t = (s', t', es)"
  shows "tells s s' es"
proof (cases "ca_session_user s > 0")
  case True
  let ?s = "s\<lparr>ca_session_timer := -1, ca_session_user := 0, ca_started_at := 0\<rparr>"
  have w: "ca_who ?s = ca_who s" by (simp add: ca_who_def)
  obtain s2 e2 where f: "fire_cleared env ?s = (s2, e2)" by (metis surj_pair)
  from fire_cleared_tells[OF f] w have "tells s s2 e2" by (simp add: tells_def)
  with assms True f w show ?thesis
    by (auto simp: session_timeout_cb_def tells_def Let_def split: if_splits)
next
  case False
  with assms show ?thesis by (auto simp: session_timeout_cb_def tells_def ca_who_def)
qed

lemma do_logout_tells:
  assumes "do_logout cancel env s t = (s', t', es)"
  shows "tells s s' es"
proof (cases "ca_session_user s \<le> 0")
  case False
  obtain s1 t1 e1 where c: "session_clear cancel env s t = (s1, t1, e1)" by (metis prod_cases3)
  obtain s2 e2 where f: "fire_cleared env s1 = (s2, e2)" by (metis surj_pair)
  from session_clear_tells[OF c] fire_cleared_tells[OF f] assms False c f show ?thesis
    by (auto simp: do_logout_def tells_def split: if_splits)
qed (use assms in \<open>simp add: do_logout_def tells_def\<close>)

lemma ani_timeout_tells:
  assumes "ani_timeout env s t = (s', t', es)"
  shows "tells s s' es"
proof -
  let ?s = "s\<lparr>ca_ani_timer := -1, ca_ani_active := False\<rparr>"
  have w: "ca_who ?s = ca_who s" by (simp add: ca_who_def)
  show ?thesis
  proof (cases "ca_ani_buf s \<noteq> [] \<and> user_lookup_by_ani (ce_db env) (Some (ca_ani_buf s)) \<noteq> None")
    case True
    then obtain u where u: "user_lookup_by_ani (ce_db env) (Some (ca_ani_buf s)) = Some u" by blast
    obtain s1 e1 where f: "fire_identified env (u_id u) CALLER_DTMF_ANI ?s = (s1, e1)" by (metis surj_pair)
    from assms True u f have "s' = s1" "es = e1" by (auto simp: ani_timeout_def Let_def)
    with fire_identified_tells[OF f] show ?thesis by (simp add: tells_def)
  next
    case False
    with assms have "s' = ?s" "es = []" by (auto simp: ani_timeout_def Let_def split: if_splits)
    with w show ?thesis by (simp add: tells_def)
  qed
qed

lemma ani_star_tells:
  assumes "ani_star cancel env s t = (s', t', es)"
  shows "tells s s' es"
proof -
  obtain s1 t1 where c: "cancel_ani cancel (s\<lparr>ca_ani_active := False\<rparr>) t = (s1, t1)" by (metis surj_pair)
  have w: "ca_who s1 = ca_who s" using cancel_ani_who[OF c] by (simp add: ca_who_def)
  show ?thesis
  proof (cases "ca_ani_buf s1 \<noteq> [] \<and> user_lookup_by_ani (ce_db env) (Some (ca_ani_buf s1)) \<noteq> None")
    case True
    then obtain u where u: "user_lookup_by_ani (ce_db env) (Some (ca_ani_buf s1)) = Some u" by blast
    obtain s2 e2 where f: "fire_identified env (u_id u) CALLER_DTMF_ANI s1 = (s2, e2)" by (metis surj_pair)
    from assms True u f c have "s' = s2" "es = e2" by (auto simp: ani_star_def Let_def)
    with fire_identified_tells[OF f] show ?thesis by (simp add: tells_def)
  next
    case False
    with assms c have "s' = s1" "es = []" by (auto simp: ani_star_def Let_def split: if_splits)
    with w show ?thesis by (simp add: tells_def)
  qed
qed

lemma login_digit_tells:
  assumes "login_digit create cancel env d s t = (s', t', es)"
  shows "tells s s' es"
proof (cases "d = CHR ''#'' \<and> ca_login_active s")
  case False
  have w: "ca_who (s\<lparr>ca_login_active := a\<rparr>) = ca_who s" "ca_who (s\<lparr>ca_login_active := a, ca_login_buf := b\<rparr>) = ca_who s"
    "ca_who (s\<lparr>ca_login_buf := b\<rparr>) = ca_who s" for a b by (simp_all add: ca_who_def)
  from assms False have "es = [] \<and> (\<exists>a b. s' = s\<lparr>ca_login_active := a, ca_login_buf := b\<rparr> \<or>
       s' = s\<lparr>ca_login_active := a\<rparr> \<or> s' = s\<lparr>ca_login_buf := b\<rparr> \<or> s' = s)"
    by (auto simp: login_digit_def split: if_splits)
  with w show ?thesis by (auto simp: tells_def)
next
  case True
  let ?s = "s\<lparr>ca_login_active := False\<rparr>"
  have w: "ca_who ?s = ca_who s" by (simp add: ca_who_def)
  show ?thesis
  proof (cases "ca_session_user s > 0")
    case sess: True
    show ?thesis
    proof (cases "ca_logout_code s \<noteq> [] \<and> ca_login_buf s = ca_logout_code s")
      case True
      with assms \<open>d = CHR ''#'' \<and> ca_login_active s\<close> sess have "do_logout cancel env ?s t = (s', t', es)"
        by (simp add: login_digit_def)
      from do_logout_tells[OF this] w show ?thesis by (simp add: tells_def)
    next
      case False
      with assms True sess have "s' = ?s" "es = []" by (auto simp: login_digit_def Let_def)
      with w show ?thesis by (simp add: tells_def)
    qed
  next
    case out: False
    show ?thesis
    proof (cases "login_user (ce_db env) (ca_login_buf s)")
      case None
      with assms True out have "s' = ?s" "es = []" by (auto simp: login_digit_def Let_def)
      with w show ?thesis by (simp add: tells_def)
    next
      case (Some u)
      obtain s2 e2 where f: "fire_identified env (u_id u) CALLER_DTMF_LOGIN ?s = (s2, e2)" by (metis surj_pair)
      obtain s3 t3 e3 where g: "session_start create cancel env (u_id u) s2 t = (s3, t3, e3)" by (metis prod_cases3)
      from assms True out Some f g have "s' = s3" "es = e2 @ e3" by (auto simp: login_digit_def Let_def)
      with fire_identified_tells[OF f] session_start_tells[OF g] show ?thesis by (simp add: tells_def)
    qed
  qed
qed

lemma ani_digit_who: "ani_digit create env d s t = (s', t') \<Longrightarrow> ca_who s' = ca_who s"
  by (auto simp: ani_digit_def ca_who_def Let_def split: if_splits prod.splits)

lemma dtmf_digit_tells:
  assumes "ca_dtmf_digit create cancel env d s t = (s', t', es)"
  shows "tells s s' es"
proof (cases "ca_ani_active s \<and> length (ca_ani_buf s) < MAX_ANI_LEN")
  case ani: True
  show ?thesis
  proof (cases "d = CHR ''*''")
    case True
    obtain s1 t1 e1 where a: "ani_star cancel env s t = (s1, t1, e1)" by (metis prod_cases3)
    obtain s2 t2 e2 where l: "login_digit create cancel env d s1 t1 = (s2, t2, e2)" by (metis prod_cases3)
    from assms ani True a l have "s' = s2" "es = e1 @ e2" by (auto simp: ca_dtmf_digit_def)
    with tells_trans[OF ani_star_tells[OF a] login_digit_tells[OF l]] show ?thesis by simp
  next
    case False
    obtain s1 t1 where a: "ani_digit create env d s t = (s1, t1)" by (metis surj_pair)
    from assms ani False a have "s' = s1" "es = []" by (auto simp: ca_dtmf_digit_def)
    with ani_digit_who[OF a] show ?thesis by (simp add: tells_def)
  qed
next
  case False
  with assms have "login_digit create cancel env d s t = (s', t', es)" by (simp add: ca_dtmf_digit_def)
  then show ?thesis by (rule login_digit_tells)
qed

lemma cor_assert_tells:
  assumes "ca_cor_assert create cancel env s t = (s', t', es)"
  shows "tells s s' es"
proof -
  define s0 where "s0 = (if \<not> ca_ani_active s then s\<lparr>ca_ani_active := True, ca_ani_buf := []\<rparr> else s)"
  have w: "ca_who s0 = ca_who s" by (simp add: s0_def ca_who_def)
  show ?thesis
  proof (cases "ca_session_user s0 > 0")
    case True
    obtain s1 t1 e1 where r: "session_refresh create cancel env s0 t = (s1, t1, e1)" by (metis prod_cases3)
    obtain s2 e2 where f: "fire_identified env (ca_session_user s1) CALLER_DTMF_LOGIN s1 = (s2, e2)" by (metis surj_pair)
    have a: "tells s s1 e1" using session_refresh_tells[OF r] w by (simp add: tells_def)
    show ?thesis
    proof (cases "ca_user s1 \<noteq> ca_session_user s1")
      case True
      with assms \<open>ca_session_user s0 > 0\<close> r f have "s' = s2" "es = e1 @ e2"
        by (auto simp: ca_cor_assert_def s0_def[symmetric])
      with a fire_identified_tells[OF f] show ?thesis by (simp add: tells_def)
    next
      case False
      with assms \<open>ca_session_user s0 > 0\<close> r have "s' = s1" "es = e1"
        by (auto simp: ca_cor_assert_def s0_def[symmetric])
      with a show ?thesis by simp
    qed
  next
    case False
    with assms have "s' = s0" "es = []" by (auto simp: ca_cor_assert_def s0_def[symmetric] simp del: not_gr_zero)
    with w show ?thesis by (simp add: tells_def)
  qed
qed

lemma cor_drop_tells:
  assumes "ca_cor_drop cancel env s t = (s', t', es)"
  shows "tells s s' es"
proof -
  obtain s1 t1 where c: "cancel_ani cancel s t = (s1, t1)" by (metis surj_pair)
  let ?s = "s1\<lparr>ca_ani_active := False\<rparr>"
  have w: "ca_who ?s = ca_who s" using cancel_ani_who[OF c] by (simp add: ca_who_def)
  show ?thesis
  proof (cases "ca_method s1 = CALLER_DTMF_LOGIN")
    case True
    with assms c show ?thesis by (auto simp: ca_cor_drop_def tells_def ca_who_def)
  next
    case False
    obtain s2 e2 where f: "fire_cleared env ?s = (s2, e2)" by (metis surj_pair)
    from assms c False f have "s' = s2" "es = e2" by (auto simp: ca_cor_drop_def)
    with fire_cleared_tells[OF f] w show ?thesis by (simp add: tells_def)
  qed
qed

lemma ca_step_tells:
  assumes "ca_step create cancel timer_of env (s, t) i = (s', t', es)"
  shows "tells s s' es"
proof (cases i)
  case (Ca_expire h)
  show ?thesis
  proof (cases "timer_of t h")
    case None
    with assms Ca_expire show ?thesis by (simp add: tells_def)
  next
    case (Some cd)
    obtain c due where cd: "cd = (c, due)" by (metis surj_pair)
    show ?thesis
    proof (cases "due \<le> ce_now_us env")
      case True
      with assms Ca_expire Some cd have "ca_callback env c s (cancel t h) = (s', t', es)" by simp
      then show ?thesis using ani_timeout_tells session_timeout_tells
        by (cases c) (auto simp: tells_def)
    qed (use assms Ca_expire Some cd in \<open>simp add: tells_def\<close>)
  qed
qed (use assms cor_assert_tells cor_drop_tells dtmf_digit_tells in auto)

text \<open>
  The events tell the current caller: over any run of COR edges, digits and timer expiries,
  with any timer service, a subscriber that starts from the module's current caller and
  follows the CALLER_IDENTIFIED and CALLER_CLEARED events always holds the module's current
  user id and method.
\<close>

theorem caller_events_tell_caller:
  assumes "ca_run create cancel timer_of (s, t) is = (s', t', es)"
  shows "heard es (ca_user s, ca_method s) = (ca_user s', ca_method s')"
  using assms
proof (induction "is" arbitrary: s t es)
  case (Cons x "is")
  obtain env i where x: "x = (env, i)" by (metis surj_pair)
  obtain s1 t1 e1 where a: "ca_step create cancel timer_of env (s, t) i = (s1, t1, e1)" by (metis prod_cases3)
  obtain e2 where b: "ca_run create cancel timer_of (s1, t1) is = (s', t', e2)" and es: "es = e1 @ e2"
    using Cons.prems x a by (auto split: prod.splits)
  from Cons.IH[OF b] ca_step_tells[OF a] es show ?case by (simp add: tells_def ca_who_def)
qed simp

definition caller_fresh :: caller where
  "caller_fresh = \<lparr>ca_user = 0, ca_method = 0, ca_ani_active = False, ca_ani_buf = [], ca_ani_timer = -1,
     ca_ani_window_ms = 1000, ca_login_active = False, ca_login_buf = [], ca_session_user = 0,
     ca_session_timer = -1, ca_login_timeout_ms = 1800000, ca_started_at = 0, ca_logout_code = []\<rparr>"

definition demo_user :: user where
  "demo_user = \<lparr>u_id = 7, u_username = ''ann'', u_name = ''Ann'', u_email = [], u_callsign = [], u_dtmf_login = ''42'',
     u_ani = ''99'', u_access = 1, u_voicemail = 0, u_group = 0, u_totp_secret = []\<rparr>"

definition demo_caller_env :: "nat \<Rightarrow> caller_env" where
  "demo_caller_env now = \<lparr>ce_now_us = now, ce_wall = int (now div 1000000), ce_tts = False, ce_sse = False,
     ce_db = \<lparr>db_users = [demo_user], db_groups = []\<rparr>\<rparr>"

theorem caller_events_tell_caller_witness:
  "\<exists>s' t' es. ca_run timer_create timer_cancel armed (caller_fresh, timer_init (CB_caller_foreign 0))
      [(demo_caller_env 0, Ca_cor_assert), (demo_caller_env 1, Ca_digit CHR ''*''), (demo_caller_env 2, Ca_digit CHR ''4''),
       (demo_caller_env 3, Ca_digit CHR ''2''), (demo_caller_env 4, Ca_digit CHR ''#''), (demo_caller_env 5, Ca_cor_drop)] = (s', t', es) \<and>
     heard es (0, 0) = (ca_user s', ca_method s')"
proof -
  let ?is = "[(demo_caller_env 0, Ca_cor_assert), (demo_caller_env 1, Ca_digit CHR ''*''), (demo_caller_env 2, Ca_digit CHR ''4''),
       (demo_caller_env 3, Ca_digit CHR ''2''), (demo_caller_env 4, Ca_digit CHR ''#''), (demo_caller_env 5, Ca_cor_drop)]"
  obtain s' t' es where r: "ca_run timer_create timer_cancel armed (caller_fresh, timer_init (CB_caller_foreign 0)) ?is = (s', t', es)"
    by (metis prod_cases3)
  from caller_events_tell_caller[OF r] r show ?thesis by (simp add: caller_fresh_def del: ca_run.simps)
qed

subsection \<open>The timers of the module\<close>

locale caller_timers = timer_service srv_inv create cancel timer_of
  for srv_inv :: "'t \<Rightarrow> bool"
    and create :: "nat \<Rightarrow> 't \<Rightarrow> int \<Rightarrow> bool \<Rightarrow> caller_cb option \<Rightarrow> 't \<times> int"
    and cancel :: "'t \<Rightarrow> int \<Rightarrow> 't"
    and timer_of :: "'t \<Rightarrow> int \<Rightarrow> (caller_cb \<times> nat) option"
begin

text \<open>The timers with a callback are the same in two tables.\<close>

definition same_for :: "caller_cb \<Rightarrow> 't \<Rightarrow> 't \<Rightarrow> bool" where
  "same_for c t t' \<longleftrightarrow> srv_inv t' \<and> (\<forall>h due. timer_of t' h = Some (c, due) \<longleftrightarrow> timer_of t h = Some (c, due))"

abbreviation sole_for :: "caller_cb \<Rightarrow> 't \<Rightarrow> int \<Rightarrow> bool" where
  "sole_for c t h \<equiv> sole (\<lambda>c'. c' = c) t h c"

lemma same_refl: "srv_inv t \<Longrightarrow> same_for c t t"
  by (simp add: same_for_def)

lemma same_trans: "same_for c t t1 \<Longrightarrow> same_for c t1 t2 \<Longrightarrow> same_for c t t2"
  by (simp add: same_for_def)

lemma same_sole: "same_for c t t' \<Longrightarrow> sole_for c t h \<Longrightarrow> sole_for c t' h"
  by (cases "h < 0") (simp add: same_for_def sole_def, blast, simp add: same_for_def sole_def)

lemma same_cancel: "sole_for d t h \<Longrightarrow> 0 \<le> h \<Longrightarrow> c \<noteq> d \<Longrightarrow> same_for c t (cancel t h)"
  using cancel_law[of t h] by (auto simp: same_for_def sole_def)

lemma same_fired: "srv_inv t \<Longrightarrow> timer_of t h = Some (d, due) \<Longrightarrow> c \<noteq> d \<Longrightarrow> same_for c t (cancel t h)"
  using cancel_law[of t h] by (auto simp: same_for_def)

lemma same_create:
  assumes "srv_inv t" "create now t ms rep (Some d) = (t', tid)" "c \<noteq> d"
  shows "same_for c t t'"
  using create_law[OF assms(1,2)] assms(3) by (auto simp: same_for_def split: if_splits)

text \<open>Both handles name the only timers of their callbacks; without a session there is no session timer.\<close>

definition ca_ok :: "caller \<Rightarrow> 't \<Rightarrow> bool" where
  "ca_ok s t \<longleftrightarrow> sole_for CB_ani t (ca_ani_timer s) \<and> sole_for CB_session t (ca_session_timer s) \<and>
     length (ca_ani_buf s) \<le> MAX_ANI_LEN \<and> length (ca_login_buf s) \<le> MAX_ANI_LEN \<and>
     (ca_session_user s \<le> 0 \<longrightarrow> ca_session_timer s < 0)"

text \<open>What the capture of ANI digits keeps of the session, and the session of the capture.\<close>

definition sess_kept :: "caller \<Rightarrow> 't \<Rightarrow> caller \<Rightarrow> 't \<Rightarrow> bool" where
  "sess_kept s t s' t' \<longleftrightarrow> ca_session_user s' = ca_session_user s \<and> ca_session_timer s' = ca_session_timer s \<and>
     ca_login_timeout_ms s' = ca_login_timeout_ms s \<and> same_for CB_session t t'"

definition ani_kept :: "caller \<Rightarrow> 't \<Rightarrow> caller \<Rightarrow> 't \<Rightarrow> bool" where
  "ani_kept s t s' t' \<longleftrightarrow> ca_ani_timer s' = ca_ani_timer s \<and> ca_ani_buf s' = ca_ani_buf s \<and>
     ca_login_buf s' = ca_login_buf s \<and> same_for CB_ani t t'"

lemma sess_kept_trans: "sess_kept s t s1 t1 \<Longrightarrow> sess_kept s1 t1 s2 t2 \<Longrightarrow> sess_kept s t s2 t2"
  using same_trans by (auto simp: sess_kept_def)

lemma ca_okD:
  assumes "ca_ok s t"
  shows "sole_for CB_ani t (ca_ani_timer s)" "sole_for CB_session t (ca_session_timer s)" "srv_inv t"
    "length (ca_ani_buf s) \<le> MAX_ANI_LEN" "length (ca_login_buf s) \<le> MAX_ANI_LEN"
    "ca_session_user s \<le> 0 \<Longrightarrow> ca_session_timer s < 0"
  using assms by (auto simp: ca_ok_def sole_def)

lemma ca_ok_kept:
  assumes "ca_ok s t" "sess_kept s t s' t'" "sole_for CB_ani t' (ca_ani_timer s')"
    "length (ca_ani_buf s') \<le> MAX_ANI_LEN" "length (ca_login_buf s') \<le> MAX_ANI_LEN"
  shows "ca_ok s' t'"
proof -
  have "same_for CB_session t t'" using assms(2) by (simp add: sess_kept_def)
  from same_sole[OF this ca_okD(2)[OF assms(1)]] assms show ?thesis by (simp add: ca_ok_def sess_kept_def)
qed

lemma fire_identified_fields:
  assumes "fire_identified env u m s = (s', es)" shows "s' = s\<lparr>ca_user := u, ca_method := m\<rparr>"
  using assms by (simp add: fire_identified_def Let_def)

lemma fire_cleared_fields:
  assumes "fire_cleared env s = (s', es)" shows "\<exists>u m. s' = s\<lparr>ca_user := u, ca_method := m\<rparr>"
proof (cases "ca_user s = 0")
  case True
  with assms have "s' = s\<lparr>ca_user := ca_user s, ca_method := ca_method s\<rparr>" by (simp add: fire_cleared_def)
  then show ?thesis by blast
qed (use assms in \<open>auto simp: fire_cleared_def Let_def\<close>)

lemma cancel_ani_ok:
  assumes "ca_ok s t" "cancel_ani cancel s t = (s', t')"
  shows "ca_ok s' t'" "sess_kept s t s' t'" "ca_ani_timer s' < 0"
    "\<exists>h. s' = s\<lparr>ca_ani_timer := h\<rparr>"
proof -
  note d = ca_okD[OF assms(1)]
  show f: "\<exists>h. s' = s\<lparr>ca_ani_timer := h\<rparr>"
    using assms(2) by (auto simp: cancel_ani_def split: if_splits intro: exI[of _ "ca_ani_timer s"])
  show n: "ca_ani_timer s' < 0" using assms(2) by (auto simp: cancel_ani_def split: if_splits)
  show k: "sess_kept s t s' t'"
    using assms(2) same_cancel[OF d(1), of CB_session] same_refl[OF d(3)]
    by (auto simp: cancel_ani_def sess_kept_def split: if_splits)
  have "sole_for CB_ani t' (ca_ani_timer s')"
    using assms(2) d(1) sole_cancel[OF d(1), of CB_ani "-1"] by (auto simp: cancel_ani_def split: if_splits)
  with ca_ok_kept[OF assms(1) k] d(4,5) f show "ca_ok s' t'" by auto
qed

text \<open>Fields that are not about the timers and buffers.\<close>

lemma ca_ok_fields:
  "ca_ok (s\<lparr>ca_user := u, ca_method := m\<rparr>) t = ca_ok s t"
  "ca_ok (s\<lparr>ca_ani_active := a\<rparr>) t = ca_ok s t"
  "ca_ok (s\<lparr>ca_login_active := a\<rparr>) t = ca_ok s t"
  "ca_ok s t \<Longrightarrow> ca_ok (s\<lparr>ca_ani_active := a, ca_ani_buf := []\<rparr>) t"
  by (simp_all add: ca_ok_def)

lemma sess_kept_fields:
  assumes "srv_inv t"
  shows "sess_kept s t (s\<lparr>ca_user := u, ca_method := m\<rparr>) t" "sess_kept s t (s\<lparr>ca_ani_active := a\<rparr>) t"
    "sess_kept s t (s\<lparr>ca_login_active := a\<rparr>) t" "sess_kept s t (s\<lparr>ca_ani_active := a, ca_ani_buf := b\<rparr>) t"
    "sess_kept s t s t"
  using same_refl[OF assms] by (simp_all add: sess_kept_def)

lemma ani_star_ok:
  assumes "ca_ok s t" "ani_star cancel env s t = (s', t', es)"
  shows "ca_ok s' t'" "sess_kept s t s' t'" "ca_login_active s' = ca_login_active s" "ca_ani_active s' = False"
proof -
  let ?s = "s\<lparr>ca_ani_active := False\<rparr>"
  obtain s1 t1 where c: "cancel_ani cancel ?s t = (s1, t1)" by (metis surj_pair)
  have ok: "ca_ok ?s t" using assms(1) by (simp add: ca_ok_fields)
  note k = cancel_ani_ok[OF ok c]
  have "\<exists>u m. s' = s1\<lparr>ca_user := u, ca_method := m\<rparr> \<or> s' = s1" "t' = t1"
    using assms(2) c
    by (auto simp: ani_star_def Let_def split: if_splits option.splits prod.splits dest!: fire_identified_fields)
  then obtain u m where s': "s' = s1\<lparr>ca_user := u, ca_method := m\<rparr> \<or> s' = s1" and t': "t' = t1" by blast
  from s' t' k(1) show "ca_ok s' t'" by (auto simp: ca_ok_fields)
  have "sess_kept s t s1 t1"
    by (rule sess_kept_trans[OF sess_kept_fields(2) k(2)]) (rule ca_okD(3)[OF assms(1)])
  moreover have "srv_inv t1" using ca_okD(3)[OF k(1)] .
  ultimately show "sess_kept s t s' t'" using s' t' sess_kept_trans sess_kept_fields(1) by blast
  show "ca_login_active s' = ca_login_active s" "ca_ani_active s' = False" using s' k(4) by auto
qed

lemma ani_digit_ok:
  assumes "ca_ok s t" "ani_digit create env d s t = (s', t')" "length (ca_ani_buf s) < MAX_ANI_LEN"
  shows "ca_ok s' t'" "sess_kept s t s' t'"
proof -
  note d = ca_okD[OF assms(1)]
  have r: "sess_kept s t s' t' \<and> sole_for CB_ani t' (ca_ani_timer s') \<and> length (ca_ani_buf s') \<le> MAX_ANI_LEN \<and>
      ca_login_buf s' = ca_login_buf s"
  proof (cases "ca_ani_buf s = [] \<and> ca_ani_timer s < 0")
    case True
    obtain t1 tid where c: "create (ce_now_us env) t (ca_ani_window_ms s) False (Some CB_ani) = (t1, tid)" by (metis surj_pair)
    have "s' = s\<lparr>ca_ani_timer := tid, ca_ani_buf := ca_ani_buf s @ [d]\<rparr>" "t' = t1"
      using assms(2) True c by (simp_all add: ani_digit_def)
    with sole_create[OF d(1) _ _ c] same_create[OF d(3) c, of CB_session] True assms(3) show ?thesis
      by (simp add: sess_kept_def)
  next
    case False
    then have "s' = s\<lparr>ca_ani_buf := ca_ani_buf s @ [d]\<rparr>" "t' = t"
      using assms(2) by (auto simp: ani_digit_def Let_def)
    with d(1) same_refl[OF d(3)] assms(3) show ?thesis by (simp add: sess_kept_def)
  qed
  then show "sess_kept s t s' t'" by blast
  with ca_ok_kept[OF assms(1) this] r d(5) show "ca_ok s' t'" by simp
qed

lemma ani_timeout_ok:
  assumes "ca_ok s t" "timer_of t h = Some (CB_ani, due)" "ani_timeout env s (cancel t h) = (s', t', es)"
  shows "ca_ok s' t'" "sess_kept s t s' t'"
proof -
  note d = ca_okD[OF assms(1)]
  let ?s = "s\<lparr>ca_ani_timer := -1, ca_ani_active := False\<rparr>"
  have t: "same_for CB_session t (cancel t h)" by (rule same_fired[OF d(3) assms(2)]) simp
  have a: "sole_for CB_ani (cancel t h) (-1)" by (rule sole_fires(4)[OF d(1) assms(2)]) simp_all
  have "\<exists>u m. s' = ?s\<lparr>ca_user := u, ca_method := m\<rparr> \<or> s' = ?s" "t' = cancel t h"
    using assms(3)
    by (auto simp: ani_timeout_def Let_def split: if_splits option.splits prod.splits dest!: fire_identified_fields)
  then obtain u m where s': "s' = ?s\<lparr>ca_user := u, ca_method := m\<rparr> \<or> s' = ?s" and t': "t' = cancel t h" by blast
  show k: "sess_kept s t s' t'" using s' t' t by (auto simp: sess_kept_def)
  from ca_ok_kept[OF assms(1) k] s' t' a d(4,5) show "ca_ok s' t'" by auto
qed

text \<open>Replacing the session timer.\<close>

lemma session_timer_new:
  assumes "ca_ok s t" "t1 = (if ca_session_timer s \<ge> 0 then cancel t (ca_session_timer s) else t)"
    and "create now t1 ms False (Some CB_session) = (t2, tid)"
  shows "sole_for CB_session t2 tid" "same_for CB_ani t t2"
    "0 \<le> ca_session_timer s \<Longrightarrow> 0 < ms \<Longrightarrow> 0 < tid"
    "0 \<le> tid \<Longrightarrow> timer_of t2 tid = Some (CB_session, now + nat ms * 1000)"
proof -
  note d = ca_okD[OF assms(1)]
  have s1: "sole_for CB_session t1 (-1)"
    using assms(2) sole_cancel[OF d(2), of CB_session "-1"] sole_idle[OF d(2), of CB_session "-1"]
    by (cases "ca_session_timer s \<ge> 0") auto
  have i1: "srv_inv t1" by (rule sole_inv[OF s1])
  have a1: "same_for CB_ani t t1"
    using assms(2) same_cancel[OF d(2), of CB_ani] same_refl[OF d(3)] by auto
  show "sole_for CB_session t2 tid" by (rule sole_create[OF s1 _ _ assms(3)]) simp_all
  show "same_for CB_ani t t2" by (rule same_trans[OF a1 same_create[OF i1 assms(3)]]) simp
  show "0 \<le> tid \<Longrightarrow> timer_of t2 tid = Some (CB_session, now + nat ms * 1000)"
    by (rule handle_create(3)[OF i1 assms(3)])
  assume h: "0 \<le> ca_session_timer s" "0 < ms"
  then obtain due where "timer_of t (ca_session_timer s) = Some (CB_session, due)" using d(2) by (auto simp: sole_def)
  then have ne: "timer_of t (ca_session_timer s) \<noteq> None" by simp
  show "0 < tid" by (rule slot_law[OF d(3) ne h(2) assms(3)[unfolded assms(2), simplified h(1) if_True]])
qed

lemma ca_ok_session:
  assumes "ca_ok s t" "same_for CB_ani t t'" "sole_for CB_session t' (ca_session_timer s')"
    and "ca_ani_timer s' = ca_ani_timer s" "ca_ani_buf s' = ca_ani_buf s" "ca_login_buf s' = ca_login_buf s"
    and "ca_session_user s' \<le> 0 \<Longrightarrow> ca_session_timer s' < 0"
  shows "ca_ok s' t'"
  using same_sole[OF assms(2) ca_okD(1)[OF assms(1)]] ca_okD(4,5)[OF assms(1)] assms(3-7) by (simp add: ca_ok_def)

lemma session_start_ok:
  assumes "ca_ok s t" "session_start create cancel env u s t = (s', t', es)" "0 < u"
  shows "ca_ok s' t'"
proof -
  let ?s = "s\<lparr>ca_session_user := u, ca_started_at := ce_wall env\<rparr>"
  let ?t1 = "if ca_session_timer s \<ge> 0 then cancel t (ca_session_timer s) else t"
  obtain t2 tid where c: "create (ce_now_us env) ?t1 (ca_login_timeout_ms s) False (Some CB_session) = (t2, tid)" by (metis surj_pair)
  have e: "s' = ?s\<lparr>ca_session_timer := tid\<rparr> \<and> t' = t2"
    using assms(2) c by (cases "0 \<le> ca_session_timer s") (simp_all add: session_start_def Let_def)
  note n = session_timer_new[OF assms(1) refl c]
  show ?thesis by (rule ca_ok_session[OF assms(1)]) (use n e assms(3) in simp_all)
qed

lemma session_refresh_ok:
  assumes "ca_ok s t" "session_refresh create cancel env s t = (s', t', es)"
  shows "ca_ok s' t'" "ca_session_user s' = ca_session_user s" "ca_login_timeout_ms s' = ca_login_timeout_ms s"
    "ca_session_timer s < 0 \<Longrightarrow> s' = s \<and> t' = t"
    "0 < ca_session_user s \<Longrightarrow> 0 \<le> ca_session_timer s \<Longrightarrow> 0 < ca_login_timeout_ms s \<Longrightarrow>
       0 < ca_session_timer s' \<and>
       timer_of t' (ca_session_timer s') = Some (CB_session, ce_now_us env + nat (ca_login_timeout_ms s) * 1000)"
proof -
  let ?t1 = "if ca_session_timer s \<ge> 0 then cancel t (ca_session_timer s) else t"
  obtain t2 tid where c: "create (ce_now_us env) ?t1 (ca_login_timeout_ms s) False (Some CB_session) = (t2, tid)" by (metis surj_pair)
  note n = session_timer_new[OF assms(1) refl c]
  have e: "if ca_session_user s \<le> 0 \<or> ca_session_timer s < 0 then s' = s \<and> t' = t
     else s' = s\<lparr>ca_session_timer := tid, ca_started_at := ce_wall env\<rparr> \<and> t' = t2"
    using assms(2) c by (auto simp: session_refresh_def Let_def)
  show "ca_session_user s' = ca_session_user s" "ca_login_timeout_ms s' = ca_login_timeout_ms s"
    "ca_session_timer s < 0 \<Longrightarrow> s' = s \<and> t' = t" using e by (auto split: if_splits)
  show "0 < ca_session_user s \<Longrightarrow> 0 \<le> ca_session_timer s \<Longrightarrow> 0 < ca_login_timeout_ms s \<Longrightarrow>
       0 < ca_session_timer s' \<and>
       timer_of t' (ca_session_timer s') = Some (CB_session, ce_now_us env + nat (ca_login_timeout_ms s) * 1000)"
    using e n(3,4) by auto
  show "ca_ok s' t'"
  proof (cases "ca_session_user s \<le> 0 \<or> ca_session_timer s < 0")
    case True
    with e assms(1) show ?thesis by auto
  next
    case False
    with e have e: "s' = s\<lparr>ca_session_timer := tid, ca_started_at := ce_wall env\<rparr>" "t' = t2" by auto
    show ?thesis by (rule ca_ok_session[OF assms(1)]) (use e n(1,2) False in auto)
  qed
qed

lemma session_clear_ok:
  assumes "ca_ok s t" "session_clear cancel env s t = (s', t', es)"
  shows "ca_ok s' t'"
proof -
  note d = ca_okD[OF assms(1)]
  have e: "ca_session_timer s' < 0" "t' = (if ca_session_timer s \<ge> 0 then cancel t (ca_session_timer s) else t)"
    "ca_ani_timer s' = ca_ani_timer s" "ca_ani_buf s' = ca_ani_buf s" "ca_login_buf s' = ca_login_buf s"
    using assms(2) by (auto simp: session_clear_def Let_def split: if_splits)
  have "sole_for CB_session t' (ca_session_timer s')"
    using e sole_cancel[OF d(2), of CB_session] sole_idle[OF d(2), of CB_session] by (cases "ca_session_timer s \<ge> 0") auto
  moreover have "same_for CB_ani t t'" using e same_cancel[OF d(2), of CB_ani] same_refl[OF d(3)] by auto
  ultimately show ?thesis using ca_ok_session[OF assms(1)] e by blast
qed

lemma do_logout_ok:
  assumes "ca_ok s t" "do_logout cancel env s t = (s', t', es)"
  shows "ca_ok s' t'"
proof (cases "ca_session_user s \<le> 0")
  case False
  obtain s1 t1 e1 where c: "session_clear cancel env s t = (s1, t1, e1)" by (metis prod_cases3)
  obtain s2 e2 where f: "fire_cleared env s1 = (s2, e2)" by (metis surj_pair)
  from assms(2) False c f have "(s' = s1 \<or> s' = s2) \<and> t' = t1" by (auto simp: do_logout_def split: if_splits)
  with session_clear_ok[OF assms(1) c] fire_cleared_fields[OF f] ca_ok_fields(1) show ?thesis by auto
qed (use assms in \<open>simp add: do_logout_def\<close>)

lemma session_timeout_ok:
  assumes "ca_ok s t" "timer_of t h = Some (CB_session, due)" "session_timeout_cb env s (cancel t h) = (s', t', es)"
  shows "ca_ok s' t'" "ca_session_user s' \<le> 0" "ca_session_timer s' = -1"
    "\<not> (0 < ca_user s' \<and> ca_method s' = CALLER_DTMF_LOGIN) \<or> ca_session_user s \<le> 0"
proof -
  note d = ca_okD[OF assms(1)]
  let ?s = "s\<lparr>ca_session_timer := -1, ca_session_user := 0, ca_started_at := 0\<rparr>"
  obtain s2 e2 where f: "fire_cleared env ?s = (s2, e2)" by (metis surj_pair)
  have a: "same_for CB_ani t (cancel t h)" by (rule same_fired[OF d(3) assms(2)]) simp
  have k: "sole_for CB_session (cancel t h) (-1)" by (rule sole_fires(4)[OF d(2) assms(2)]) simp_all
  have "0 \<le> ca_session_timer s" by (rule sole_fires(3)[OF d(2) assms(2)]) simp
  with d(6) have u: "0 < ca_session_user s" by fastforce
  have e: "t' = cancel t h" "s' = ?s \<and> \<not> (0 < ca_user s \<and> ca_method s = CALLER_DTMF_LOGIN) \<or>
      (0 < ca_user s \<and> ca_method s = CALLER_DTMF_LOGIN) \<and> s' = s2"
    using assms(3) u f by (auto simp: session_timeout_cb_def Let_def split: if_splits)
  have f2: "0 < ca_user s \<Longrightarrow> s2 = ?s\<lparr>ca_user := 0, ca_method := 0\<rparr>" using f by (auto simp: fire_cleared_def Let_def)
  have "ca_ok ?s (cancel t h)" by (rule ca_ok_session[OF assms(1) a]) (use k in simp_all)
  with e f2 ca_ok_fields(1)[where s = ?s and u = 0 and m = 0 and t = "cancel t h"] show "ca_ok s' t'" by auto
  from e f2 show "ca_session_user s' \<le> 0" "ca_session_timer s' = -1" by auto
  from e f2 show "\<not> (0 < ca_user s' \<and> ca_method s' = CALLER_DTMF_LOGIN) \<or> ca_session_user s \<le> 0" by auto
qed

definition db_ok :: "caller_env \<Rightarrow> bool" where
  "db_ok env \<longleftrightarrow> (\<forall>u \<in> set (db_users (ce_db env)). 0 < u_id u)"

lemma login_user_id: "db_ok env \<Longrightarrow> login_user (ce_db env) code = Some u \<Longrightarrow> 0 < u_id u"
  by (auto simp: db_ok_def login_user_def find_Some_iff)

text \<open>A digit of the login other than \<open>#\<close> only moves the login buffer.\<close>

lemma login_plain:
  assumes "ca_ok s t" "login_digit create cancel env d s t = (s', t', es)" "d \<noteq> CHR ''#''"
  shows "ca_ok s' t'" "sess_kept s t s' t'"
proof -
  note r = same_refl[OF ca_okD(3)[OF assms(1)]]
  consider (star) "d = CHR ''*''" | (idle) "d \<noteq> CHR ''*''" "\<not> ca_login_active s"
    | (stored) "d \<noteq> CHR ''*''" "ca_login_active s" "length (ca_login_buf s) < MAX_ANI_LEN"
    | (full) "d \<noteq> CHR ''*''" "ca_login_active s" "\<not> length (ca_login_buf s) < MAX_ANI_LEN" by blast
  then have "ca_ok s' t' \<and> sess_kept s t s' t'"
  proof cases
    case star
    with assms(2) have "s' = s\<lparr>ca_login_active := True, ca_login_buf := []\<rparr>" "t' = t" by (simp_all add: login_digit_def)
    with assms(1) r show ?thesis by (simp add: ca_ok_def sess_kept_def)
  next
    case idle
    with assms(2) have "s' = s" "t' = t" by (simp_all add: login_digit_def)
    with assms(1) r show ?thesis by (simp add: sess_kept_def)
  next
    case stored
    with assms(2,3) have "s' = s\<lparr>ca_login_buf := ca_login_buf s @ [d]\<rparr>" "t' = t" by (simp_all add: login_digit_def)
    with assms(1) r stored show ?thesis by (simp add: ca_ok_def sess_kept_def)
  next
    case full
    with assms(2,3) have "s' = s\<lparr>ca_login_active := False\<rparr>" "t' = t" by (simp_all add: login_digit_def)
    with assms(1) r show ?thesis by (simp add: ca_ok_def sess_kept_def)
  qed
  then show "ca_ok s' t'" "sess_kept s t s' t'" by blast+
qed

lemma login_digit_ok:
  assumes "ca_ok s t" "login_digit create cancel env d s t = (s', t', es)" "db_ok env"
  shows "ca_ok s' t'"
proof (cases "d = CHR ''#'' \<and> ca_login_active s")
  case False
  show ?thesis
  proof (cases "d = CHR ''#''")
    case True
    with False assms show ?thesis by (simp add: login_digit_def)
  qed (use login_plain(1)[OF assms(1,2)] in simp)
next
  case True
  let ?s = "s\<lparr>ca_login_active := False\<rparr>"
  have ok: "ca_ok ?s t" using assms(1) by (simp add: ca_ok_fields)
  show ?thesis
  proof (cases "ca_session_user s > 0")
    case sess: True
    show ?thesis
    proof (cases "ca_logout_code s \<noteq> [] \<and> ca_login_buf s = ca_logout_code s")
      case True
      with assms(2) \<open>d = CHR ''#'' \<and> ca_login_active s\<close> sess have "do_logout cancel env ?s t = (s', t', es)"
        by (simp add: login_digit_def)
      from do_logout_ok[OF ok this] show ?thesis .
    next
      case False
      with assms(2) True sess have "s' = ?s" "t' = t" by (auto simp: login_digit_def Let_def)
      with ok show ?thesis by simp
    qed
  next
    case out: False
    show ?thesis
    proof (cases "login_user (ce_db env) (ca_login_buf s)")
      case None
      with assms(2) True out have "s' = ?s" "t' = t" by (auto simp: login_digit_def Let_def)
      with ok show ?thesis by simp
    next
      case (Some u)
      obtain s2 e2 where f: "fire_identified env (u_id u) CALLER_DTMF_LOGIN ?s = (s2, e2)" by (metis surj_pair)
      obtain s3 t3 e3 where g: "session_start create cancel env (u_id u) s2 t = (s3, t3, e3)" by (metis prod_cases3)
      have "ca_ok s2 t" using fire_identified_fields[OF f] ok ca_ok_fields(1) by simp
      from session_start_ok[OF this g login_user_id[OF assms(3) Some]] assms(2) True out Some f g
      show ?thesis by (auto simp: login_digit_def Let_def)
    qed
  qed
qed

lemma dtmf_digit_ok:
  assumes "ca_ok s t" "ca_dtmf_digit create cancel env d s t = (s', t', es)"
  shows "db_ok env \<Longrightarrow> ca_ok s' t'" "d \<noteq> CHR ''#'' \<Longrightarrow> sess_kept s t s' t'"
proof -
  consider (star) "ca_ani_active s \<and> length (ca_ani_buf s) < MAX_ANI_LEN" "d = CHR ''*''"
    | (ani) "ca_ani_active s \<and> length (ca_ani_buf s) < MAX_ANI_LEN" "d \<noteq> CHR ''*''"
    | (login) "\<not> (ca_ani_active s \<and> length (ca_ani_buf s) < MAX_ANI_LEN)" by blast
  then have r: "(db_ok env \<longrightarrow> ca_ok s' t') \<and> (d \<noteq> CHR ''#'' \<longrightarrow> sess_kept s t s' t')"
  proof cases
    case star
    obtain s1 t1 e1 where a: "ani_star cancel env s t = (s1, t1, e1)" by (metis prod_cases3)
    obtain s2 t2 e2 where l: "login_digit create cancel env d s1 t1 = (s2, t2, e2)" by (metis prod_cases3)
    from assms(2) star a l have e: "s' = s2" "t' = t2" by (auto simp: ca_dtmf_digit_def)
    note k = ani_star_ok[OF assms(1) a]
    have "d \<noteq> CHR ''#''" using star by simp
    note p = login_plain[OF k(1) l this]
    from p e sess_kept_trans[OF k(2) p(2)] show ?thesis by simp
  next
    case ani
    obtain s1 t1 where a: "ani_digit create env d s t = (s1, t1)" by (metis surj_pair)
    from assms(2) ani a have "s' = s1" "t' = t1" by (auto simp: ca_dtmf_digit_def)
    with ani_digit_ok[OF assms(1) a] ani show ?thesis by simp
  next
    case login
    with assms(2) have l: "login_digit create cancel env d s t = (s', t', es)" by (simp add: ca_dtmf_digit_def)
    from login_digit_ok[OF assms(1) l] login_plain[OF assms(1) l] assms(1) show ?thesis by blast
  qed
  then show "db_ok env \<Longrightarrow> ca_ok s' t'" "d \<noteq> CHR ''#'' \<Longrightarrow> sess_kept s t s' t'" by blast+
qed

lemma cor_drop_ok:
  assumes "ca_ok s t" "ca_cor_drop cancel env s t = (s', t', es)"
  shows "ca_ok s' t'" "sess_kept s t s' t'"
proof -
  obtain s1 t1 where c: "cancel_ani cancel s t = (s1, t1)" by (metis surj_pair)
  let ?s = "s1\<lparr>ca_ani_active := False\<rparr>"
  obtain s2 e2 where f: "fire_cleared env ?s = (s2, e2)" by (metis surj_pair)
  note k = cancel_ani_ok[OF assms(1) c]
  from assms(2) c f have e: "t' = t1" "s' = ?s\<lparr>ca_user := 0, ca_method := 0\<rparr> \<or> s' = s2"
    by (auto simp: ca_cor_drop_def Let_def split: if_splits)
  with fire_cleared_fields[OF f] obtain u m where s': "s' = ?s\<lparr>ca_user := u, ca_method := m\<rparr>" by blast
  from k(1) s' e(1) show "ca_ok s' t'" by (simp only: ca_ok_fields)
  have "sess_kept s1 t1 s' t'" using s' e(1) same_refl[OF ca_okD(3)[OF k(1)]] by (simp add: sess_kept_def)
  with sess_kept_trans[OF k(2)] show "sess_kept s t s' t'" by blast
qed

lemma cor_assert_ok:
  assumes "ca_ok s t" "ca_cor_assert create cancel env s t = (s', t', es)"
  shows "ca_ok s' t'" "ca_session_user s' = ca_session_user s" "ca_login_timeout_ms s' = ca_login_timeout_ms s"
    "ca_session_timer s < 0 \<Longrightarrow> ca_session_timer s' < 0"
    "0 < ca_session_user s \<Longrightarrow> 0 \<le> ca_session_timer s \<Longrightarrow> 0 < ca_login_timeout_ms s \<Longrightarrow>
       0 < ca_session_timer s' \<and>
       timer_of t' (ca_session_timer s') = Some (CB_session, ce_now_us env + nat (ca_login_timeout_ms s) * 1000)"
    "0 < ca_session_user s \<Longrightarrow> ca_user s' = ca_session_user s"
proof -
  define s0 where "s0 = (if \<not> ca_ani_active s then s\<lparr>ca_ani_active := True, ca_ani_buf := []\<rparr> else s)"
  have f0: "ca_session_user s0 = ca_session_user s" "ca_session_timer s0 = ca_session_timer s"
    "ca_login_timeout_ms s0 = ca_login_timeout_ms s" by (simp_all add: s0_def)
  have ok0: "ca_ok s0 t" using assms(1) ca_ok_fields(4) by (simp add: s0_def)
  obtain s1 t1 e1 where r: "session_refresh create cancel env s0 t = (s1, t1, e1)" by (metis prod_cases3)
  obtain s2 e2 where f: "fire_identified env (ca_session_user s1) CALLER_DTMF_LOGIN s1 = (s2, e2)" by (metis surj_pair)
  note k = session_refresh_ok[OF ok0 r]
  have e: "if ca_session_user s0 > 0
     then t' = t1 \<and> (s' = s1 \<and> ca_user s1 = ca_session_user s1 \<or> s' = s1\<lparr>ca_user := ca_session_user s1, ca_method := CALLER_DTMF_LOGIN\<rparr>)
     else s' = s0 \<and> t' = t"
    using assms(2) r f fire_identified_fields[OF f] by (auto simp: ca_cor_assert_def s0_def[symmetric] split: if_splits)
  show "ca_ok s' t'" using e ok0 k(1) ca_ok_fields(1) by (auto split: if_splits)
  show "ca_session_user s' = ca_session_user s" "ca_login_timeout_ms s' = ca_login_timeout_ms s"
    using e k(2,3) f0 by (auto split: if_splits)
  show "ca_session_timer s < 0 \<Longrightarrow> ca_session_timer s' < 0" using e k(4) f0 by (auto split: if_splits)
  assume u: "0 < ca_session_user s"
  show "ca_user s' = ca_session_user s" using e k(2) f0 u by auto
  assume h: "0 \<le> ca_session_timer s" "0 < ca_login_timeout_ms s"
  from k(5) f0 u h have "0 < ca_session_timer s1 \<and>
       timer_of t1 (ca_session_timer s1) = Some (CB_session, ce_now_us env + nat (ca_login_timeout_ms s) * 1000)" by simp
  with e f0 u show "0 < ca_session_timer s' \<and>
       timer_of t' (ca_session_timer s') = Some (CB_session, ce_now_us env + nat (ca_login_timeout_ms s) * 1000)" by auto
qed

lemma ca_step_ok:
  assumes "ca_ok s t" "ca_step create cancel timer_of env (s, t) i = (s', t', es)" "db_ok env"
  shows "ca_ok s' t'"
proof (cases i)
  case Ca_cor_assert
  with assms cor_assert_ok(1) show ?thesis by simp
next
  case Ca_cor_drop
  with assms cor_drop_ok(1) show ?thesis by simp
next
  case (Ca_digit d)
  with assms dtmf_digit_ok(1) show ?thesis by simp
next
  case (Ca_expire h)
  show ?thesis
  proof (cases "timer_of t h")
    case None
    with assms Ca_expire show ?thesis by simp
  next
    case (Some cd)
    obtain c due where cd: "cd = (c, due)" by (metis surj_pair)
    show ?thesis
    proof (cases "due \<le> ce_now_us env")
      case True
      with assms(2) Ca_expire Some cd have r: "ca_callback env c s (cancel t h) = (s', t', es)" by simp
      have "CB_ani \<noteq> c \<Longrightarrow> same_for CB_ani t (cancel t h)" "CB_session \<noteq> c \<Longrightarrow> same_for CB_session t (cancel t h)"
        using same_fired[OF ca_okD(3)[OF assms(1)]] Some cd by blast+
      with r assms(1) Some cd ani_timeout_ok(1)[OF assms(1)] session_timeout_ok(1)[OF assms(1)] same_sole
      show ?thesis by (cases c) (auto simp: ca_ok_def)
    qed (use assms Ca_expire Some cd in simp)
  qed
qed

text \<open>
  What leaves a session with its timer alone: a COR drop, a digit other than \<open>#\<close>, the expiry of
  some other timer, or of its own before its time.
\<close>

definition ca_quiet :: "int \<Rightarrow> nat \<Rightarrow> caller_env \<times> caller_in \<Rightarrow> bool" where
  "ca_quiet h due x = (db_ok (fst x) \<and> (case snd x of
      Ca_cor_assert \<Rightarrow> False | Ca_cor_drop \<Rightarrow> True | Ca_digit d \<Rightarrow> d \<noteq> CHR ''#''
    | Ca_expire h' \<Rightarrow> h' \<noteq> h \<or> ce_now_us (fst x) < due))"

lemma quiet_step:
  assumes "ca_ok s t" "ca_step create cancel timer_of env (s, t) i = (s', t', es)"
    and "ca_quiet (ca_session_timer s) due (env, i)" "timer_of t (ca_session_timer s) = Some (CB_session, due)"
  shows "sess_kept s t s' t'"
proof (cases i)
  case Ca_cor_assert
  with assms(3) show ?thesis by (simp add: ca_quiet_def)
next
  case Ca_cor_drop
  with assms(1,2) cor_drop_ok(2) show ?thesis by simp
next
  case (Ca_digit d)
  with assms(1-3) dtmf_digit_ok(2) show ?thesis by (simp add: ca_quiet_def)
next
  case (Ca_expire h)
  note d = ca_okD[OF assms(1)]
  note same = sess_kept_fields(5)[OF d(3), of s]
  show ?thesis
  proof (cases "timer_of t h")
    case None
    with assms(2) Ca_expire same show ?thesis by simp
  next
    case (Some cd)
    obtain c due' where cd: "cd = (c, due')" by (metis surj_pair)
    show ?thesis
    proof (cases "due' \<le> ce_now_us env")
      case True
      with assms(2) Ca_expire Some cd have r: "ca_callback env c s (cancel t h) = (s', t', es)" by simp
      show ?thesis
      proof (cases c)
        case CB_ani
        with r ani_timeout_ok(2)[OF assms(1)] Some cd show ?thesis by simp
      next
        case CB_session
        have "h = ca_session_timer s" by (rule sole_fires(1)[OF d(2)]) (use Some cd CB_session in simp_all)
        with assms(3,4) Ca_expire Some cd True show ?thesis by (simp add: ca_quiet_def)
      next
        case (CB_caller_foreign k)
        have "same_for CB_session t (cancel t h)" using same_fired[OF d(3), of h c due' CB_session] Some cd CB_caller_foreign by simp
        with r CB_caller_foreign show ?thesis by (auto simp: sess_kept_def)
      qed
    qed (use assms(2) Ca_expire Some cd same in simp)
  qed
qed

lemma quiet_run:
  assumes "ca_ok s t" "timer_of t (ca_session_timer s) = Some (CB_session, due)"
    and "\<forall>x \<in> set is. ca_quiet (ca_session_timer s) due x"
    and "ca_run create cancel timer_of (s, t) is = (s', t', es)"
  shows "ca_ok s' t' \<and> sess_kept s t s' t'"
  using assms
proof (induction "is" arbitrary: s t es)
  case Nil
  then show ?case using sess_kept_fields(5)[OF ca_okD(3)[OF Nil.prems(1)]] by simp
next
  case (Cons x "is")
  obtain env i where x: "x = (env, i)" by (metis surj_pair)
  obtain s1 t1 e1 where a: "ca_step create cancel timer_of env (s, t) i = (s1, t1, e1)" by (metis prod_cases3)
  obtain e2 where b: "ca_run create cancel timer_of (s1, t1) is = (s', t', e2)"
    using Cons.prems(4) x a by (auto split: prod.splits)
  have q: "ca_quiet (ca_session_timer s) due (env, i)" using Cons.prems(3) x by simp
  have ok: "ca_ok s1 t1" using ca_step_ok[OF Cons.prems(1) a] q by (simp add: ca_quiet_def)
  note k = quiet_step[OF Cons.prems(1) a q Cons.prems(2)]
  then have "ca_session_timer s1 = ca_session_timer s" "timer_of t1 (ca_session_timer s1) = Some (CB_session, due)"
    using Cons.prems(2) by (simp_all add: sess_kept_def same_for_def)
  with Cons.IH[OF ok _ _ b] Cons.prems(3) k sess_kept_trans show ?case by auto
qed

end

interpretation ct: caller_timers timer_inv timer_create timer_cancel armed
  by unfold_locales

lemma caller_fresh_ok: "ct.ca_ok caller_fresh (timer_init cb)"
  by (simp add: ct.ca_ok_def ts.sole_def timer_inv_init armed_init caller_fresh_def)

text \<open>
  A login session ends by itself, on the daemon's timer table. Keying up during a session
  re-identifies the session's user and starts the full login timeout again, whatever the
  table holds; as long as only COR drops, digits other than \<open>#\<close> and other timers follow, the
  session stays; and the expiry of its timer, at or after the timeout, ends it and leaves
  no current caller identified by that login.
\<close>

theorem caller_session_expires:
  assumes "ct.ca_ok s t" "0 < ca_session_user s" "0 \<le> ca_session_timer s" "0 < ca_login_timeout_ms s"
    and "ca_step timer_create timer_cancel armed env (s, t) Ca_cor_assert = (s1, t1, e1)"
    and "\<forall>x \<in> set is. ct.ca_quiet (ca_session_timer s1) (ce_now_us env + nat (ca_login_timeout_ms s) * 1000) x"
    and "ca_run timer_create timer_cancel armed (s1, t1) is = (s2, t2, e2)"
    and "ce_now_us env + nat (ca_login_timeout_ms s) * 1000 \<le> ce_now_us env'"
    and "ca_step timer_create timer_cancel armed env' (s2, t2) (Ca_expire (ca_session_timer s1)) = (s3, t3, e3)"
  shows "ca_user s1 = ca_session_user s \<and> ca_session_user s2 = ca_session_user s \<and>
         ca_session_user s3 \<le> 0 \<and> \<not> (0 < ca_user s3 \<and> ca_method s3 = CALLER_DTMF_LOGIN)"
proof -
  from assms(5) have a: "ca_cor_assert timer_create timer_cancel env s t = (s1, t1, e1)" by simp
  note k = ct.cor_assert_ok[OF assms(1) a]
  define due where "due = ce_now_us env + nat (ca_login_timeout_ms s) * 1000"
  have d: "armed t1 (ca_session_timer s1) = Some (CB_session, due)" using k(5)[OF assms(2-4)] by (simp add: due_def)
  from ct.quiet_run[OF k(1) d assms(6)[folded due_def] assms(7)]
  have ok2: "ct.ca_ok s2 t2" and q: "ct.sess_kept s1 t1 s2 t2" by auto
  have d2: "armed t2 (ca_session_timer s1) = Some (CB_session, due)"
    using q d by (simp add: ct.sess_kept_def ct.same_for_def)
  have u: "ca_session_user s2 = ca_session_user s" using q k(2) by (simp add: ct.sess_kept_def)
  have "session_timeout_cb env' s2 (timer_cancel t2 (ca_session_timer s1)) = (s3, t3, e3)"
    using assms(8,9) d2 by (simp add: due_def)
  from ct.session_timeout_ok[OF ok2 d2 this] u k(6) assms(2) show ?thesis by auto
qed

theorem caller_session_expires_witness:
  "\<exists>s1 t1 e1 s3 t3 e3.
     ca_step timer_create timer_cancel armed (demo_caller_env 5000000)
       (caller_fresh\<lparr>ca_session_user := 7, ca_session_timer := 1\<rparr>, fst (timer_create 0 (timer_init (CB_caller_foreign 0)) 1800000 False (Some CB_session)))
       Ca_cor_assert = (s1, t1, e1) \<and>
     ca_step timer_create timer_cancel armed (demo_caller_env 1805000000) (s1, t1) (Ca_expire (ca_session_timer s1)) = (s3, t3, e3) \<and>
     ca_user s1 = 7 \<and> ca_session_user s3 \<le> 0"
proof -
  let ?z = "timer_init (CB_caller_foreign 0)"
  let ?s = "caller_fresh\<lparr>ca_session_user := 7, ca_session_timer := 1\<rparr>"
  obtain t tid where c: "timer_create 0 ?z 1800000 False (Some CB_session) = (t, tid)" by (metis surj_pair)
  have tid: "tid = 1" using c by (simp add: first_timer_ms)
  have z: "ts.sole (\<lambda>c'. c' = d) ?z (-1) d" for d by (simp add: ts.sole_def timer_inv_init armed_init)
  have "ts.sole (\<lambda>c'. c' = CB_session) t 1 CB_session" using ts.sole_create[OF z _ _ c] tid by simp
  moreover have "ts.sole (\<lambda>c'. c' = CB_ani) t (-1) CB_ani"
    by (rule ct.same_sole[OF ct.same_create[OF timer_inv_init c] z]) simp
  ultimately have ok: "ct.ca_ok ?s t" by (simp add: ct.ca_ok_def caller_fresh_def)
  obtain s1 t1 e1 where a: "ca_step timer_create timer_cancel armed (demo_caller_env 5000000) (?s, t) Ca_cor_assert = (s1, t1, e1)"
    by (metis prod_cases3)
  obtain s3 t3 e3 where b: "ca_step timer_create timer_cancel armed (demo_caller_env 1805000000) (s1, t1)
      (Ca_expire (ca_session_timer s1)) = (s3, t3, e3)" by (metis prod_cases3)
  have "ca_user s1 = 7 \<and> ca_session_user s3 \<le> 0"
    using caller_session_expires[OF ok _ _ _ a _ _ _ b, of "[]" "[]"]
    by (simp add: caller_fresh_def demo_caller_env_def)
  with a b c show ?thesis by auto
qed

subsection \<open>The login\<close>

text \<open>The handler is past the ANI capture and is reading a login code.\<close>

definition reading_code :: "int \<Rightarrow> string \<Rightarrow> string \<Rightarrow> caller \<Rightarrow> bool" where
  "reading_code uid logout code s \<longleftrightarrow> \<not> (ca_ani_active s \<and> length (ca_ani_buf s) < MAX_ANI_LEN) \<and>
     ca_login_active s \<and> ca_login_buf s = code \<and> ca_session_user s = uid \<and> ca_logout_code s = logout"

lemma ani_star_keeps:
  assumes "ani_star cancel env s t = (s', t', es)"
  shows "\<not> ca_ani_active s' \<and> ca_session_user s' = ca_session_user s \<and> ca_logout_code s' = ca_logout_code s"
  using assms by (auto simp: ani_star_def cancel_ani_def fire_identified_def Let_def split: if_splits option.splits)

lemma star_reads:
  assumes "ca_dtmf_digit create cancel env (CHR ''*'') s t = (s', t', es)"
  shows "reading_code (ca_session_user s) (ca_logout_code s) [] s'"
proof (cases "ca_ani_active s \<and> length (ca_ani_buf s) < MAX_ANI_LEN")
  case True
  obtain s1 t1 e1 where a: "ani_star cancel env s t = (s1, t1, e1)" by (metis prod_cases3)
  from assms True a have "s' = s1\<lparr>ca_login_active := True, ca_login_buf := []\<rparr>"
    by (simp add: ca_dtmf_digit_def login_digit_def)
  with ani_star_keeps[OF a] show ?thesis by (simp add: reading_code_def)
next
  case False
  with assms have "s' = s\<lparr>ca_login_active := True, ca_login_buf := []\<rparr>" by (simp add: ca_dtmf_digit_def login_digit_def)
  with False show ?thesis by (simp add: reading_code_def)
qed

lemma reading_login:
  assumes "reading_code uid logout code s"
  shows "ca_dtmf_digit create cancel env d s t = login_digit create cancel env d s t"
proof -
  have n: "\<not> (ca_ani_active s \<and> length (ca_ani_buf s) < MAX_ANI_LEN)" using assms unfolding reading_code_def by blast
  show ?thesis unfolding ca_dtmf_digit_def if_not_P[OF n] ..
qed

lemma digit_reads:
  assumes "reading_code uid logout code s" "ca_dtmf_digit create cancel env d s t = (s', t', es)"
    and "d \<noteq> CHR ''*''" "d \<noteq> CHR ''#''" "length code < MAX_ANI_LEN"
  shows "reading_code uid logout (code @ [d]) s' \<and> es = []"
proof -
  from assms have "s' = s\<lparr>ca_login_buf := code @ [d]\<rparr>" "es = []"
    by (simp_all add: reading_login login_digit_def, simp_all add: reading_code_def)
  with assms(1) show ?thesis by (simp add: reading_code_def)
qed

definition dial :: "(caller_env \<times> char) list \<Rightarrow> (caller_env \<times> caller_in) list" where
  "dial ks = map (\<lambda>(env, c). (env, Ca_digit c)) ks"

lemma dial_reads:
  assumes "reading_code uid logout code s" "ca_run create cancel timer_of (s, t) (dial ks) = (s', t', es)"
    and "\<forall>k \<in> set ks. snd k \<noteq> CHR ''*'' \<and> snd k \<noteq> CHR ''#''" "length code + length ks \<le> MAX_ANI_LEN"
  shows "reading_code uid logout (code @ map snd ks) s' \<and> es = []"
  using assms
proof (induction ks arbitrary: s t code es)
  case (Cons k ks)
  obtain env c where k: "k = (env, c)" by (metis surj_pair)
  obtain s1 t1 e1 where a: "ca_dtmf_digit create cancel env c s t = (s1, t1, e1)" by (metis prod_cases3)
  obtain e2 where b: "ca_run create cancel timer_of (s1, t1) (dial ks) = (s', t', e2)" "es = e1 @ e2"
    using Cons.prems(2) k a by (auto simp: dial_def split: prod.splits)
  from digit_reads[OF Cons.prems(1) a] Cons.prems(3,4) k have r: "reading_code uid logout (code @ [c]) s1" "e1 = []" by auto
  from Cons.IH[OF r(1) b(1)] Cons.prems(3,4) k b(2) r(2) show ?case by simp
qed (simp add: dial_def)

lemma logout_ends:
  assumes "do_logout cancel env s t = (s', t', es)" "0 < ca_session_user s"
  shows "ca_session_user s' = 0 \<and> ca_user s' \<le> 0"
proof -
  obtain s1 t1 e1 where c: "session_clear cancel env s t = (s1, t1, e1)" by (metis prod_cases3)
  obtain s2 e2 where f: "fire_cleared env s1 = (s2, e2)" by (metis surj_pair)
  have s1: "ca_session_user s1 = 0" using c by (auto simp: session_clear_def Let_def split: if_splits)
  have s2: "ca_session_user s2 = ca_session_user s1 \<and> (0 < ca_user s1 \<longrightarrow> ca_user s2 = 0)"
    using f by (auto simp: fire_cleared_def Let_def split: if_splits)
  from assms c f have "s' = (if ca_user s1 > 0 then s2 else s1)" by (auto simp: do_logout_def split: if_splits)
  with s1 s2 show ?thesis by auto
qed

text \<open>
  The DTMF login: dialling \<open>*code#\<close> with a code of at most eight digits, from any state (even
  in the middle of an ANI capture). Without a session, the first user whose non-empty login
  code is the dialled one is identified by login and gets the session; a code of no user
  changes nothing but the end of the capture. With a session, only the configured logout
  code acts: it ends the session and leaves no current caller.
\<close>

theorem caller_login:
  assumes "ca_run create cancel timer_of (s, t) (dial ((env0, CHR ''*'') # ks)) = (s1, t1, es1)"
    and "\<forall>k \<in> set ks. snd k \<noteq> CHR ''*'' \<and> snd k \<noteq> CHR ''#''" "length ks \<le> MAX_ANI_LEN"
    and "ca_step create cancel timer_of env (s1, t1) (Ca_digit CHR ''#'') = (s2, t2, es)"
  shows "if ca_session_user s \<le> 0
         then (case login_user (ce_db env) (map snd ks) of
                 None \<Rightarrow> s2 = s1\<lparr>ca_login_active := False\<rparr> \<and> t2 = t1 \<and> es = []
               | Some u \<Rightarrow> ca_session_user s2 = u_id u \<and> ca_user s2 = u_id u \<and> ca_method s2 = CALLER_DTMF_LOGIN \<and>
                           Ev_identified (u_id u) CALLER_DTMF_LOGIN \<in> set es)
         else if ca_logout_code s \<noteq> [] \<and> map snd ks = ca_logout_code s
              then ca_session_user s2 = 0 \<and> ca_user s2 \<le> 0
              else s2 = s1\<lparr>ca_login_active := False\<rparr> \<and> t2 = t1 \<and> es = []"
proof -
  obtain s0 t0 e0 where a: "ca_dtmf_digit create cancel env0 (CHR ''*'') s t = (s0, t0, e0)" by (metis prod_cases3)
  obtain e1 where b: "ca_run create cancel timer_of (s0, t0) (dial ks) = (s1, t1, e1)"
    using assms(1) a by (auto simp: dial_def split: prod.splits)
  from dial_reads[OF star_reads[OF a] b assms(2)] assms(3)
  have r: "reading_code (ca_session_user s) (ca_logout_code s) (map snd ks) s1" by simp
  let ?s = "s1\<lparr>ca_login_active := False\<rparr>"
  have l: "login_digit create cancel env (CHR ''#'') s1 t1 = (s2, t2, es)"
    using assms(4) by (simp add: reading_login[OF r])
  show ?thesis
  proof (cases "ca_session_user s \<le> 0")
    case out: True
    show ?thesis
    proof (cases "login_user (ce_db env) (map snd ks)")
      case None
      with l r out show ?thesis by (simp add: login_digit_def reading_code_def)
    next
      case (Some u)
      obtain s3 e3 where f: "fire_identified env (u_id u) CALLER_DTMF_LOGIN ?s = (s3, e3)" by (metis surj_pair)
      obtain s4 t4 e4 where g: "session_start create cancel env (u_id u) s3 t1 = (s4, t4, e4)" by (metis prod_cases3)
      from l r out Some f g have e: "s2 = s4" "es = e3 @ e4" by (auto simp: login_digit_def reading_code_def Let_def)
      have "ca_user s3 = u_id u" "ca_method s3 = CALLER_DTMF_LOGIN" "Ev_identified (u_id u) CALLER_DTMF_LOGIN \<in> set e3"
        using f by (auto simp: fire_identified_def Let_def)
      moreover have "ca_session_user s4 = u_id u \<and> ca_user s4 = ca_user s3 \<and> ca_method s4 = ca_method s3"
        using g by (auto simp: session_start_def Let_def split: prod.splits)
      ultimately show ?thesis using e out Some by simp
    qed
  next
    case False
    show ?thesis
    proof (cases "ca_logout_code s \<noteq> [] \<and> map snd ks = ca_logout_code s")
      case True
      with l r False have "do_logout cancel env ?s t1 = (s2, t2, es)" by (simp add: login_digit_def reading_code_def)
      from logout_ends[OF this] r False True show ?thesis by (simp add: reading_code_def)
    next
      case no: False
      then have "s2 = ?s \<and> t2 = t1 \<and> es = []"
        using l r False by (auto simp: login_digit_def reading_code_def Let_def)
      then show ?thesis unfolding if_not_P[OF no] if_not_P[OF False] .
    qed
  qed
qed

theorem caller_login_witness:
  "\<exists>s1 t1 es1 s2 t2 es. ca_run timer_create timer_cancel armed (caller_fresh, timer_init (CB_caller_foreign 0))
       (dial [(demo_caller_env 1, CHR ''*''), (demo_caller_env 2, CHR ''4''), (demo_caller_env 3, CHR ''2'')]) = (s1, t1, es1) \<and>
     ca_step timer_create timer_cancel armed (demo_caller_env 4) (s1, t1) (Ca_digit CHR ''#'') = (s2, t2, es) \<and>
     ca_session_user s2 = 7"
proof -
  obtain s1 t1 es1 where a: "ca_run timer_create timer_cancel armed (caller_fresh, timer_init (CB_caller_foreign 0))
       (dial [(demo_caller_env 1, CHR ''*''), (demo_caller_env 2, CHR ''4''), (demo_caller_env 3, CHR ''2'')]) = (s1, t1, es1)"
    by (metis prod_cases3)
  obtain s2 t2 es where b: "ca_step timer_create timer_cancel armed (demo_caller_env 4) (s1, t1) (Ca_digit CHR ''#'') = (s2, t2, es)"
    by (metis prod_cases3)
  have "login_user (ce_db (demo_caller_env 4)) ''42'' = Some demo_user" by (simp add: login_user_def demo_caller_env_def demo_user_def)
  with caller_login[OF a _ _ b] have "ca_session_user s2 = 7" by (simp add: caller_fresh_def demo_user_def)
  with a b show ?thesis by blast
qed

end
