(* ===== verification/Hex.thy ===== *)
theory Hex
  imports C_Strings "HOL-Library.Word"
begin

text \<open>
  Bytes as hexadecimal text, the helpers \<open>bytes_to_hex\<close> and \<open>hex_to_bytes\<close> which the reflector
  (\<open>src/reflectd/main.c\<close>, \<open>src/reflectd/config.c\<close>) and the link module (\<open>modules/mod_link.c\<close>) both have.
\<close>

type_synonym byte = "8 word"

definition hex_digit :: "nat \<Rightarrow> char" where
  "hex_digit n = char_of (if n < 10 then 48 + n else 87 + n)"

text \<open>The digits of either case, and \<open>isxdigit\<close>.\<close>

definition is_xdigit :: "char \<Rightarrow> bool" where
  "is_xdigit c \<longleftrightarrow> is_digit c \<or> (97 \<le> ascii c \<and> ascii c \<le> 102) \<or> (65 \<le> ascii c \<and> ascii c \<le> 70)"

definition hex_val :: "char \<Rightarrow> nat" where
  "hex_val c = (if ascii c \<le> 57 then ascii c - 48 else if ascii c \<le> 70 then ascii c - 55 else ascii c - 87)"

definition bytes_to_hex :: "byte list \<Rightarrow> string" where
  "bytes_to_hex bs = concat (map (\<lambda>b. [hex_digit (unat b div 16), hex_digit (unat b mod 16)]) bs)"

text \<open>\<open>n\<close> bytes from the first \<open>2 * n\<close> characters; any other character is an error.\<close>

fun hex_to_bytes :: "string \<Rightarrow> nat \<Rightarrow> byte list option" where
  "hex_to_bytes s 0 = Some []"
| "hex_to_bytes (hi # lo # s) (Suc n) =
     (if is_xdigit hi \<and> is_xdigit lo
      then map_option (Cons (word_of_nat (16 * hex_val hi + hex_val lo))) (hex_to_bytes s n)
      else None)"
| "hex_to_bytes _ (Suc n) = None"

lemma hex_digit_val: "n < 16 \<Longrightarrow> hex_val (hex_digit n) = n"
  by (auto simp: hex_val_def hex_digit_def ascii_def)

lemma hex_digit_xdigit: "n < 16 \<Longrightarrow> is_xdigit (hex_digit n)"
  by (auto simp: is_xdigit_def is_digit_def hex_digit_def ascii_def)

lemma length_bytes_to_hex [simp]: "length (bytes_to_hex bs) = 2 * length bs"
  by (induction bs) (simp_all add: bytes_to_hex_def)

lemma hex_to_bytes_length: "hex_to_bytes s n = Some bs \<Longrightarrow> length bs = n"
  by (induction s n arbitrary: bs rule: hex_to_bytes.induct) (auto split: if_splits)

text \<open>
  Keys, challenges, nonces and digests survive their text form: reading back as many bytes as were
  written gives them, whatever follows the text.
\<close>

theorem hex_roundtrip: "hex_to_bytes (bytes_to_hex bs @ rest) (length bs) = Some bs"
proof (induction bs)
  case Nil
  show ?case by simp
next
  case (Cons b bs)
  have b: "unat b < 256" by (rule order_less_le_trans[OF unsigned_less]) simp
  then have d: "unat b div 16 < 16" "unat b mod 16 < 16" by auto
  have "16 * (unat b div 16) + unat b mod 16 = unat b" by simp
  with Cons d show ?case
    by (simp add: bytes_to_hex_def hex_digit_val hex_digit_xdigit del: of_nat_add of_nat_mult)
qed

end
