(* ===== verification/Resp.thy ===== *)
theory Resp
  imports Hex "HOL-Library.Monad_Syntax"
begin

text \<open>
  The response object of the control interface (\<open>src/kerchunk_resp.c\<close>): every field is appended to a
  JSON text and to a readable text, each in a buffer of 4096 bytes. The positions are the C
  \<open>int\<close>s; the size passed to \<open>snprintf\<close> is their difference converted to \<open>size_t\<close>, so a
  position past the end makes it huge: the operation then writes outside the buffer, which is
  the value None. The conversion \<open>%.1f\<close> of a double is an argument.
\<close>

abbreviation RESP_MAX :: int where "RESP_MAX \<equiv> 4096"

record resp =
  rs_text :: string
  rs_tlen :: int
  rs_json :: string
  rs_jlen :: int
  rs_jfirst :: bool

definition show_int :: "int \<Rightarrow> string" where
  "show_int i = (if i < 0 then CHR ''-'' # show_nat (nat (- i)) else show_nat (nat i))"

text \<open>\<open>r->jlen += snprintf(r->json + r->jlen, RESP_MAX - r->jlen, ...)\<close>, and the same for the text.\<close>

definition put_json :: "string \<Rightarrow> resp \<Rightarrow> resp option" where
  "put_json s r =
     (if rs_jlen r > RESP_MAX then None
      else Some (r\<lparr>rs_json := rs_json r @ take (nat (RESP_MAX - rs_jlen r - 1)) s, rs_jlen := rs_jlen r + int (length s)\<rparr>))"

definition put_text :: "string \<Rightarrow> resp \<Rightarrow> resp option" where
  "put_text s r =
     (if rs_tlen r > RESP_MAX then None
      else Some (r\<lparr>rs_text := rs_text r @ take (nat (RESP_MAX - rs_tlen r - 1)) s, rs_tlen := rs_tlen r + int (length s)\<rparr>))"

definition resp_init :: resp where
  "resp_init = \<lparr>rs_text = [], rs_tlen = 0, rs_json = ''{'', rs_jlen = 1, rs_jfirst = True\<rparr>"

definition quoted :: "string \<Rightarrow> string" where
  "quoted s = CHR 0x22 # s @ [CHR 0x22]"

definition json_key :: "string \<Rightarrow> resp \<Rightarrow> resp option" where
  "json_key key r =
     do { r1 \<leftarrow> (if \<not> rs_jfirst r then put_json '','' r else Some r);
          r2 \<leftarrow> put_json (quoted key @ '':'') r1;
          Some (r2\<lparr>rs_jfirst := False\<rparr>) }"

definition text_key :: "nat \<Rightarrow> string \<Rightarrow> string" where
  "text_key sz key =
     map (\<lambda>c. if c = CHR ''_'' then CHR '' '' else c)
       (case c_trunc sz key of [] \<Rightarrow> [] | c # cs \<Rightarrow> to_upper c # cs)"

text \<open>\<open>"%-16s %s\n"\<close>\<close>

definition text_line :: "string \<Rightarrow> string \<Rightarrow> string" where
  "text_line label val = label @ replicate (16 - length label) (CHR '' '') @ '' '' @ val @ [CHR 0x0A]"

text \<open>The bytes a character of a value becomes.\<close>

definition json_char :: "char \<Rightarrow> string" where
  "json_char c =
     (if c = CHR 0x22 then [CHR 0x5C, CHR 0x22]
      else if c = CHR 0x5C then [CHR 0x5C, CHR 0x5C]
      else if c = CHR 0x0A then [CHR 0x5C, CHR ''n'']
      else if c = CHR 0x0D then [CHR 0x5C, CHR ''r'']
      else if c = CHR 0x09 then [CHR 0x5C, CHR ''t'']
      else if ascii c < 32 then [CHR 0x5C, CHR ''u'', CHR ''0'', CHR ''0'', hex_digit (ascii c div 16), hex_digit (ascii c mod 16)]
      else [c])"

text \<open>The loop over the value; it stops six bytes before the end of the buffer.\<close>

fun put_escaped :: "string \<Rightarrow> resp \<Rightarrow> resp" where
  "put_escaped [] r = r"
| "put_escaped (c # cs) r =
     (if rs_jlen r < RESP_MAX - 6
      then put_escaped cs (r\<lparr>rs_json := rs_json r @ json_char c, rs_jlen := rs_jlen r + int (length (json_char c))\<rparr>)
      else r)"

text \<open>\<open>r->json[r->jlen] = '\0'\<close> is within the buffer only below its size.\<close>

definition terminate :: "resp \<Rightarrow> resp option" where
  "terminate r = (if rs_jlen r < RESP_MAX then Some r else None)"

definition resp_str :: "string \<Rightarrow> string option \<Rightarrow> resp \<Rightarrow> resp option" where
  "resp_str key val r =
     (let v = (case val of Some s \<Rightarrow> s | None \<Rightarrow> [])
      in do { r1 \<leftarrow> json_key key r;
              r2 \<leftarrow> put_json [CHR 0x22] r1;
              r3 \<leftarrow> terminate (put_escaped v r2);
              r4 \<leftarrow> put_json [CHR 0x22] r3;
              put_text (text_line (text_key 64 key) v) r4 })"

definition put_field :: "string \<Rightarrow> string \<Rightarrow> string \<Rightarrow> resp \<Rightarrow> resp option" where
  "put_field key json text r =
     do { r1 \<leftarrow> json_key key r;
          r2 \<leftarrow> put_json json r1;
          put_text (text_line (text_key 64 key) text) r2 }"

definition resp_int :: "string \<Rightarrow> int \<Rightarrow> resp \<Rightarrow> resp option" where
  "resp_int key val r = put_field key (show_int val) (show_int val) r"

definition resp_int64 :: "string \<Rightarrow> int \<Rightarrow> resp \<Rightarrow> resp option" where
  "resp_int64 key val r = put_field key (show_int val) (show_int val) r"

definition resp_bool :: "string \<Rightarrow> bool \<Rightarrow> resp \<Rightarrow> resp option" where
  "resp_bool key val r = put_field key (if val then ''true'' else ''false'') (if val then ''yes'' else ''no'') r"

definition resp_float :: "(int \<Rightarrow> string) \<Rightarrow> string \<Rightarrow> int \<Rightarrow> resp \<Rightarrow> resp option" where
  "resp_float fmt key val r = put_field key (fmt val) (fmt val) r"

definition resp_json_raw :: "string \<Rightarrow> resp \<Rightarrow> resp option" where
  "resp_json_raw fragment r = put_json fragment r"

definition resp_text_raw :: "string \<Rightarrow> resp \<Rightarrow> resp option" where
  "resp_text_raw fragment r = put_text fragment r"

definition resp_finish :: "resp \<Rightarrow> resp option" where
  "resp_finish r = put_json ''}'' r"

subsection \<open>Within the buffers\<close>

text \<open>The positions are the lengths of the texts, which fit.\<close>

definition resp_ok :: "resp \<Rightarrow> bool" where
  "resp_ok r \<longleftrightarrow> rs_jlen r = int (length (rs_json r)) \<and> rs_jlen r < RESP_MAX \<and>
     rs_tlen r = int (length (rs_text r)) \<and> rs_tlen r < RESP_MAX"

lemma put_json_fits:
  assumes "resp_ok r" "rs_jlen r + int (length s) < RESP_MAX"
  shows "put_json s r = Some (r\<lparr>rs_json := rs_json r @ s, rs_jlen := rs_jlen r + int (length s)\<rparr>)"
    "resp_ok (r\<lparr>rs_json := rs_json r @ s, rs_jlen := rs_jlen r + int (length s)\<rparr>)"
  using assms by (simp_all add: put_json_def resp_ok_def)

lemma put_text_fits:
  assumes "resp_ok r" "rs_tlen r + int (length s) < RESP_MAX"
  shows "put_text s r = Some (r\<lparr>rs_text := rs_text r @ s, rs_tlen := rs_tlen r + int (length s)\<rparr>)"
    "resp_ok (r\<lparr>rs_text := rs_text r @ s, rs_tlen := rs_tlen r + int (length s)\<rparr>)"
  using assms by (simp_all add: put_text_def resp_ok_def)

definition json_escape :: "string \<Rightarrow> string" where
  "json_escape s = concat (map json_char s)"

lemma json_char_length: "1 \<le> length (json_char c)"
  by (simp add: json_char_def)

lemma put_escaped_fits:
  assumes "rs_jlen r + int (length (json_escape s)) < RESP_MAX - 6"
  shows "put_escaped s r = r\<lparr>rs_json := rs_json r @ json_escape s, rs_jlen := rs_jlen r + int (length (json_escape s))\<rparr>"
  using assms
proof (induction s arbitrary: r)
  case (Cons c cs)
  let ?r = "r\<lparr>rs_json := rs_json r @ json_char c, rs_jlen := rs_jlen r + int (length (json_char c))\<rparr>"
  have "rs_jlen r < RESP_MAX - 6" using Cons.prems by simp
  then have "put_escaped (c # cs) r = put_escaped cs ?r" by simp
  also have "\<dots> = ?r\<lparr>rs_json := rs_json ?r @ json_escape cs, rs_jlen := rs_jlen ?r + int (length (json_escape cs))\<rparr>"
    by (rule Cons.IH) (use Cons.prems in \<open>simp add: json_escape_def\<close>)
  finally show ?case by (simp add: json_escape_def)
qed (simp add: json_escape_def)

text \<open>The fields of a response, and what they amount to.\<close>

datatype field = F_str string string | F_int string int | F_bool string bool

fun add_field :: "field \<Rightarrow> resp \<Rightarrow> resp option" where
  "add_field (F_str k v) r = resp_str k (Some v) r"
| "add_field (F_int k i) r = resp_int k i r"
| "add_field (F_bool k b) r = resp_bool k b r"

fun add_fields :: "field list \<Rightarrow> resp \<Rightarrow> resp option" where
  "add_fields [] r = Some r"
| "add_fields (f # fs) r = do { r1 \<leftarrow> add_field f r; add_fields fs r1 }"

fun field_json :: "field \<Rightarrow> string" where
  "field_json (F_str k v) = quoted k @ '':'' @ quoted (json_escape v)"
| "field_json (F_int k i) = quoted k @ '':'' @ show_int i"
| "field_json (F_bool k b) = quoted k @ '':'' @ (if b then ''true'' else ''false'')"

fun field_text :: "field \<Rightarrow> string" where
  "field_text (F_str k v) = text_line (text_key 64 k) v"
| "field_text (F_int k i) = text_line (text_key 64 k) (show_int i)"
| "field_text (F_bool k b) = text_line (text_key 64 k) (if b then ''yes'' else ''no'')"

fun commas :: "string list \<Rightarrow> string" where
  "commas [] = []"
| "commas [x] = x"
| "commas (x # y # xs) = x @ '','' @ commas (y # xs)"
text \<open>Appending to both texts.\<close>

definition extend :: "string \<Rightarrow> string \<Rightarrow> resp \<Rightarrow> resp" where
  "extend j x r = r\<lparr>rs_json := rs_json r @ j, rs_jlen := rs_jlen r + int (length j),
     rs_text := rs_text r @ x, rs_tlen := rs_tlen r + int (length x)\<rparr>"

definition separator :: "resp \<Rightarrow> string" where
  "separator r = (if rs_jfirst r then [] else '','')"

lemma put_json_extend:
  "resp_ok r \<Longrightarrow> rs_jlen r + int (length s) < RESP_MAX \<Longrightarrow> put_json s r = Some (extend s [] r)"
  by (simp add: put_json_fits extend_def)

lemma put_text_extend:
  "resp_ok r \<Longrightarrow> rs_tlen r + int (length s) < RESP_MAX \<Longrightarrow> put_text s r = Some (extend [] s r)"
  by (simp add: put_text_fits extend_def)

lemma put_escaped_extend:
  "rs_jlen r + int (length (json_escape s)) < RESP_MAX - 6 \<Longrightarrow> put_escaped s r = extend (json_escape s) [] r"
  by (simp add: put_escaped_fits extend_def)

lemma extend_simps [simp]:
  "rs_jlen (extend j x r) = rs_jlen r + int (length j)" "rs_tlen (extend j x r) = rs_tlen r + int (length x)"
  "rs_json (extend j x r) = rs_json r @ j" "rs_text (extend j x r) = rs_text r @ x" "rs_jfirst (extend j x r) = rs_jfirst r"
  "extend j x (r\<lparr>rs_jfirst := b\<rparr>) = (extend j x r)\<lparr>rs_jfirst := b\<rparr>"
  by (simp_all add: extend_def)

lemma extend_extend: "extend j2 x2 (extend j1 x1 r) = extend (j1 @ j2) (x1 @ x2) r"
  by (simp add: extend_def)

lemma extend_ok:
  "resp_ok r \<Longrightarrow> rs_jlen r + int (length j) < RESP_MAX \<Longrightarrow> rs_tlen r + int (length x) < RESP_MAX \<Longrightarrow> resp_ok (extend j x r)"
  by (simp add: resp_ok_def)

lemma resp_ok_first: "resp_ok (r\<lparr>rs_jfirst := b\<rparr>) = resp_ok r"
  by (simp add: resp_ok_def)

lemma json_key_extend:
  assumes "resp_ok r" "rs_jlen r + int (length (separator r @ quoted key @ '':'')) < RESP_MAX"
  shows "json_key key r = Some ((extend (separator r @ quoted key @ '':'') [] r)\<lparr>rs_jfirst := False\<rparr>)"
proof (cases "rs_jfirst r")
  case True
  with assms show ?thesis by (simp add: json_key_def put_json_extend separator_def)
next
  case False
  have t: "rs_tlen r < RESP_MAX" using assms(1) by (simp add: resp_ok_def)
  have j: "rs_jlen r + 1 + int (length (quoted key @ '':'')) < RESP_MAX" using assms(2) False by (simp add: separator_def)
  have "resp_ok (extend '','' [] r)" by (rule extend_ok[OF assms(1)]) (use j t in simp_all)
  with assms(1) False j show ?thesis by (simp add: json_key_def put_json_extend separator_def extend_extend)
qed

lemma put_field_extend:
  assumes "resp_ok r" "rs_jlen r + int (length (separator r @ quoted key @ '':'' @ j)) < RESP_MAX"
    and "rs_tlen r + int (length (text_line (text_key 64 key) x)) < RESP_MAX"
  shows "put_field key j x r =
     Some ((extend (separator r @ quoted key @ '':'' @ j) (text_line (text_key 64 key) x) r)\<lparr>rs_jfirst := False\<rparr>)"
proof -
  let ?p = "separator r @ quoted key @ '':''"
  let ?r1 = "(extend ?p [] r)\<lparr>rs_jfirst := False\<rparr>"
  have t: "rs_tlen r < RESP_MAX" using assms(1) by (simp add: resp_ok_def)
  have k: "json_key key r = Some ?r1" by (rule json_key_extend[OF assms(1)]) (use assms(2) in simp)
  have ok1: "resp_ok ?r1" unfolding resp_ok_first by (rule extend_ok[OF assms(1)]) (use assms(2) t in simp_all)
  have j: "put_json j ?r1 = Some ((extend (?p @ j) [] r)\<lparr>rs_jfirst := False\<rparr>)"
    using put_json_extend[OF ok1, of j] assms(2) by (simp add: extend_extend)
  have ok2: "resp_ok ((extend (?p @ j) [] r)\<lparr>rs_jfirst := False\<rparr>)" unfolding resp_ok_first
    by (rule extend_ok[OF assms(1)]) (use assms(2) t in simp_all)
  have "put_text (text_line (text_key 64 key) x) ((extend (?p @ j) [] r)\<lparr>rs_jfirst := False\<rparr>) =
      Some ((extend (?p @ j) (text_line (text_key 64 key) x) r)\<lparr>rs_jfirst := False\<rparr>)"
    using put_text_extend[OF ok2] assms(3) by (simp add: extend_extend)
  with k j show ?thesis by (simp add: put_field_def)
qed

lemma resp_str_extend:
  assumes "resp_ok r" "rs_jlen r + int (length (separator r @ quoted key @ '':'' @ quoted (json_escape v))) < RESP_MAX - 6"
    and "rs_tlen r + int (length (text_line (text_key 64 key) v)) < RESP_MAX"
  shows "resp_str key (Some v) r =
     Some ((extend (separator r @ quoted key @ '':'' @ quoted (json_escape v)) (text_line (text_key 64 key) v) r)\<lparr>rs_jfirst := False\<rparr>)"
proof -
  let ?p = "separator r @ quoted key @ '':''" and ?q = "[CHR 0x22]" and ?e = "json_escape v"
  let ?r = "\<lambda>j x. (extend j x r)\<lparr>rs_jfirst := False\<rparr>"
  have l: "rs_jlen r + int (length ?p) + int (length ?e) + 2 < RESP_MAX - 6" using assms(2) by (simp add: quoted_def)
  have t: "rs_tlen r < RESP_MAX" using assms(1) by (simp add: resp_ok_def)
  have ok: "resp_ok (?r j [])" if "rs_jlen r + int (length j) < RESP_MAX" for j
    unfolding resp_ok_first by (rule extend_ok[OF assms(1)]) (use that t in simp_all)
  have k: "json_key key r = Some (?r ?p [])" by (rule json_key_extend[OF assms(1)]) (use l in simp)
  have o1: "resp_ok (?r ?p [])" by (rule ok) (use l in simp)
  have a: "put_json ?q (?r ?p []) = Some (?r (?p @ ?q) [])"
    using put_json_extend[OF o1, of ?q] l by (simp add: extend_extend)
  have b: "put_escaped v (?r (?p @ ?q) []) = ?r (?p @ ?q @ ?e) []"
    using put_escaped_extend[of "?r (?p @ ?q) []" v] l by (simp add: extend_extend)
  have c: "terminate (?r (?p @ ?q @ ?e) []) = Some (?r (?p @ ?q @ ?e) [])" using l by (simp add: terminate_def)
  have o2: "resp_ok (?r (?p @ ?q @ ?e) [])" by (rule ok) (use l in simp)
  have d: "put_json ?q (?r (?p @ ?q @ ?e) []) = Some (?r (?p @ ?q @ ?e @ ?q) [])"
    using put_json_extend[OF o2, of ?q] l by (simp add: extend_extend)
  have o3: "resp_ok (?r (?p @ ?q @ ?e @ ?q) [])" by (rule ok) (use l in simp)
  have f: "put_text (text_line (text_key 64 key) v) (?r (?p @ ?q @ ?e @ ?q) []) = Some (?r (?p @ ?q @ ?e @ ?q) (text_line (text_key 64 key) v))"
    using put_text_extend[OF o3] assms(3) by (simp add: extend_extend)
  have "quoted ?e = ?q @ ?e @ ?q" by (simp add: quoted_def)
  with k a b c d f show ?thesis by (simp add: resp_str_def)
qed

lemma add_field_extend:
  assumes "resp_ok r" "rs_jlen r + int (length (separator r @ field_json f)) < RESP_MAX - 6"
    and "rs_tlen r + int (length (field_text f)) < RESP_MAX"
  shows "add_field f r = Some ((extend (separator r @ field_json f) (field_text f) r)\<lparr>rs_jfirst := False\<rparr>)"
proof (cases f)
  case (F_str k v)
  with resp_str_extend[OF assms(1), of k v] assms(2,3) show ?thesis by simp
next
  case (F_int k i)
  with put_field_extend[OF assms(1), of k "show_int i" "show_int i"] assms(2,3) show ?thesis by (simp add: resp_int_def)
next
  case (F_bool k b)
  with put_field_extend[OF assms(1), of k "if b then ''true'' else ''false''" "if b then ''yes'' else ''no''"] assms(2,3)
  show ?thesis by (simp add: resp_bool_def)
qed

definition later_fields :: "field list \<Rightarrow> string" where
  "later_fields fs = concat (map (\<lambda>f. '','' @ field_json f) fs)"

lemma commas_later: "commas (map field_json (f # fs)) = field_json f @ later_fields fs"
proof (induction fs arbitrary: f)
  case (Cons g fs)
  show ?case using Cons[of g] by (simp add: later_fields_def)
qed (simp add: later_fields_def)

lemma add_fields_extend:
  assumes "resp_ok r" "\<not> rs_jfirst r" "rs_jlen r + int (length (later_fields fs)) < RESP_MAX - 6"
    and "rs_tlen r + int (length (concat (map field_text fs))) < RESP_MAX"
  shows "add_fields fs r = Some (extend (later_fields fs) (concat (map field_text fs)) r)"
  using assms
proof (induction fs arbitrary: r)
  case Nil
  then show ?case by (simp add: later_fields_def extend_def)
next
  case (Cons f fs)
  let ?r = "extend ('','' @ field_json f) (field_text f) r"
  have s: "separator r = '',''" using Cons.prems(2) by (simp add: separator_def)
  have l: "rs_jlen r + int (length ('','' @ field_json f)) + int (length (later_fields fs)) < RESP_MAX - 6"
    "rs_tlen r + int (length (field_text f)) + int (length (concat (map field_text fs))) < RESP_MAX"
    using Cons.prems(3,4) by (simp_all add: later_fields_def)
  have "add_field f r = Some (?r\<lparr>rs_jfirst := False\<rparr>)"
    using add_field_extend[OF Cons.prems(1), of f] s l by simp
  moreover have "?r\<lparr>rs_jfirst := False\<rparr> = ?r" using Cons.prems(2) by (simp add: extend_def)
  ultimately have a: "add_field f r = Some ?r" by simp
  have "resp_ok ?r" by (rule extend_ok[OF Cons.prems(1)]) (use l in simp_all)
  from Cons.IH[OF this] Cons.prems(2) l have "add_fields fs ?r = Some (extend (later_fields fs) (concat (map field_text fs)) ?r)"
    by simp
  with a show ?case by (simp add: extend_extend later_fields_def)
qed

text \<open>
  A response whose fields fit is rendered exactly: the JSON text is the fields in order, with
  their values escaped, separated by commas and enclosed in braces, and the readable text is
  their lines, as long as the JSON stays seven bytes below the 4096 of the buffer and the
  lines below 4096; no byte is written outside the buffers.
\<close>

theorem resp_renders:
  assumes "length (commas (map field_json fs)) + 8 \<le> 4096" "length (concat (map field_text fs)) < 4096"
  shows "\<exists>r. Option.bind (add_fields fs resp_init) resp_finish = Some r \<and>
     rs_json r = ''{'' @ commas (map field_json fs) @ ''}'' \<and> rs_text r = concat (map field_text fs)"
proof (cases fs)
  case Nil
  then show ?thesis by (simp add: resp_init_def resp_finish_def put_json_def)
next
  case (Cons f gs)
  have ok: "resp_ok resp_init" by (simp add: resp_ok_def resp_init_def)
  let ?r = "(extend (field_json f) (field_text f) resp_init)\<lparr>rs_jfirst := False\<rparr>"
  have i: "rs_jlen resp_init = 1" "rs_tlen resp_init = 0" "separator resp_init = []" "rs_json resp_init = ''{''" "rs_text resp_init = []"
    by (simp_all add: resp_init_def separator_def)
  have l: "length (field_json f) + length (later_fields gs) + 8 \<le> 4096"
    "length (field_text f) + length (concat (map field_text gs)) < 4096"
    using assms commas_later[of f gs] Cons by simp_all
  have a: "add_field f resp_init = Some ?r" using add_field_extend[OF ok, of f] i l by simp
  have okr: "resp_ok ?r" unfolding resp_ok_first by (rule extend_ok[OF ok]) (use i l in simp_all)
  let ?s = "extend (later_fields gs) (concat (map field_text gs)) ?r"
  have b: "add_fields gs ?r = Some ?s" by (rule add_fields_extend[OF okr]) (use i l in simp_all)
  have "resp_ok ?s" by (rule extend_ok[OF okr]) (use i l in simp_all)
  then have "resp_finish ?s = Some (extend ''}'' [] ?s)" unfolding resp_finish_def
    by (rule put_json_extend) (use i l in simp)
  with a b Cons i commas_later[of f gs] show ?thesis by simp
qed

text \<open>The decoding of a JSON string.\<close>

function json_unescape :: "string \<Rightarrow> string option" where
  "json_unescape [] = Some []"
| "json_unescape (c # cs) =
     (if c = CHR 0x22 then None
      else if c \<noteq> CHR 0x5C then map_option ((#) c) (json_unescape cs)
      else (case cs of
              [] \<Rightarrow> None
            | d # ds \<Rightarrow>
                if d = CHR ''u'' then
                  (if length ds < 4 then None
                   else map_option ((#) (char_of (((hex_val (ds ! 0) * 16 + hex_val (ds ! 1)) * 16 + hex_val (ds ! 2)) * 16 + hex_val (ds ! 3))))
                          (json_unescape (drop 4 ds)))
                else map_option ((#) (if d = CHR ''n'' then CHR 0x0A else if d = CHR ''r'' then CHR 0x0D
                                      else if d = CHR ''t'' then CHR 0x09 else d)) (json_unescape ds)))"
  by pat_completeness auto
termination by (relation "measure length") auto

lemma unescape_char: "json_unescape (json_char c @ rest) = map_option ((#) c) (json_unescape rest)"
proof -
  consider (quote) "c = CHR 0x22" | (bs) "c = CHR 0x5C" | (nl) "c = CHR 0x0A" | (cr) "c = CHR 0x0D" | (tab) "c = CHR 0x09"
    | (ctl) "c \<notin> {CHR 0x22, CHR 0x5C, CHR 0x0A, CHR 0x0D, CHR 0x09}" "ascii c < 32"
    | (plain) "c \<notin> {CHR 0x22, CHR 0x5C, CHR 0x0A, CHR 0x0D, CHR 0x09}" "\<not> ascii c < 32" by blast
  then show ?thesis
  proof cases
    case ctl
    have h: "hex_val (CHR ''0'') = 0" by (simp add: hex_val_def ascii_def)
    have "ascii c div 16 * 16 + ascii c mod 16 = ascii c" by simp
    moreover have "char_of (ascii c) = c" by (simp add: ascii_def)
    ultimately show ?thesis using ctl by (simp add: json_char_def h hex_digit_val)
  qed (simp_all add: json_char_def)
qed

text \<open>
  The escaping loses nothing and cannot break out of its quotes: for every value, even one
  with quotes, backslashes, control characters or bytes above 127, decoding the escaped text
  as a JSON string succeeds and gives the value back.
\<close>

theorem resp_escape_roundtrip: "json_unescape (json_escape v) = Some v"
  by (induction v) (simp_all add: json_escape_def unescape_char del: json_unescape.simps(2))

text \<open>
  What happens past the end of the buffer: a raw fragment that does not fit is cut, but the
  position moves by its full length, and then every further operation on the JSON text writes
  outside the buffer.
\<close>

theorem resp_overflow_next:
  assumes "resp_ok r" "rs_jlen r + int (length fragment) > RESP_MAX"
  shows "\<exists>r'. resp_json_raw fragment r = Some r' \<and> length (rs_json r') < 4096 \<and>
     resp_json_raw s r' = None \<and> resp_str key v r' = None \<and> resp_int key i r' = None \<and> resp_bool key b r' = None \<and>
     resp_finish r' = None"
proof -
  define r' where "r' = r\<lparr>rs_json := rs_json r @ take (nat (RESP_MAX - rs_jlen r - 1)) fragment,
      rs_jlen := rs_jlen r + int (length fragment)\<rparr>"
  have e: "resp_json_raw fragment r = Some r'" using assms(1) by (simp add: resp_json_raw_def put_json_def resp_ok_def r'_def)
  have l: "length (rs_json r') < 4096" using assms(1) by (auto simp: resp_ok_def r'_def)
  have n: "put_json x r' = None" for x using assms(2) by (simp add: put_json_def r'_def)
  have k: "json_key key r' = None" by (cases "rs_jfirst r'") (simp_all add: json_key_def n)
  show ?thesis
    using e l n k by (auto simp: resp_json_raw_def resp_str_def resp_int_def resp_bool_def put_field_def resp_finish_def)
qed

theorem resp_renders_witness:
  "\<exists>r. Option.bind (add_fields [F_str ''error'' [CHR 0x22], F_int ''n'' (-7)] resp_init) resp_finish = Some r \<and>
     length (rs_json r) = 21"
proof -
  let ?fs = "[F_str ''error'' [CHR 0x22], F_int ''n'' (-7)]"
  have a: "length (commas (map field_json ?fs)) + 8 \<le> 4096" by code_simp
  have b: "length (concat (map field_text ?fs)) < 4096" by code_simp
  have c: "length (commas (map field_json ?fs)) = 19" by code_simp
  from resp_renders[OF a b] obtain r where r: "Option.bind (add_fields ?fs resp_init) resp_finish = Some r"
    "rs_json r = ''{'' @ commas (map field_json ?fs) @ ''}''" by blast
  have "length (rs_json r) = 2 + length (commas (map field_json ?fs))" unfolding r(2) by simp
  with r(1) c show ?thesis by (intro exI[of _ r]) simp
qed

theorem resp_overflow_next_witness:
  "\<exists>r'. resp_json_raw (replicate 4096 CHR ''x'') resp_init = Some r' \<and> resp_finish r' = None"
proof -
  have "resp_ok resp_init" by (simp add: resp_ok_def resp_init_def)
  moreover have "rs_jlen resp_init + int (length (replicate 4096 CHR ''x'')) > RESP_MAX" by (simp add: resp_init_def)
  ultimately show ?thesis using resp_overflow_next[of resp_init "replicate 4096 CHR ''x''"] by blast
qed

end
