(* ===== verification/Evt_Json.thy ===== *)
theory Evt_Json
  imports Event_Bus Tx_State Resp "HOL-Library.Sublist"
begin

text \<open>
  The serializer of events (\<open>src/kerchunk_evt_json.c\<close>), which the socket, the web dashboard and the
  webhooks share. The payload union is the record of the members that the serializer reads; a
  null pointer is None; the conversion of the recording's duration by \<open>%.1f\<close> is a member of its own.
\<close>

record kevent =
  ke_type :: int
  ke_ts :: nat
  ke_source :: "string option"
  ke_user_id :: int
  ke_username :: "string option"
  ke_old_state :: int
  ke_new_state :: int
  ke_method :: int
  ke_freq_x10 :: nat
  ke_code :: nat
  ke_active :: bool
  ke_digit :: char
  ke_duration_ms :: nat
  ke_items_flushed :: int
  ke_direction :: "string option"
  ke_path :: "string option"
  ke_duration :: string
  ke_description :: "string option"

definition json_method_name :: "int \<Rightarrow> string" where
  "json_method_name m =
     (if m = 1 then ''CTCSS'' else if m = 2 then ''DCS'' else if m = 3 then ''ANI'' else if m = 4 then ''DTMF''
      else ''unknown'')"

definition or_empty :: "string option \<Rightarrow> string" where
  "or_empty s = (case s of Some v \<Rightarrow> v | None \<Rightarrow> [])"

text \<open>An object: its type, its members in order, its time stamp.\<close>

definition member :: "string \<Rightarrow> string \<Rightarrow> string" where
  "member key val = quoted key @ '':'' @ val @ '',''"

definition evt_object :: "string \<Rightarrow> string \<Rightarrow> nat \<Rightarrow> string" where
  "evt_object name members ts =
     ''{'' @ quoted ''type'' @ '':'' @ quoted name @ '','' @ members @ quoted ''ts'' @ '':'' @ show_nat ts @ ''}''"

definition json_bool :: "bool \<Rightarrow> string" where
  "json_bool b = (if b then ''true'' else ''false'')"

text \<open>\<open>%.1f\<close> of a number of tenths\<close>

definition tenths :: "nat \<Rightarrow> string" where
  "tenths n = show_nat (n div 10) @ ''.'' @ show_nat (n mod 10)"

definition vcor_members :: "kevent \<Rightarrow> string" where
  "vcor_members e =
     member ''source'' (quoted (or_empty (ke_source e))) @ member ''user_id'' (show_int (ke_user_id e)) @
     (case ke_username e of
        Some u \<Rightarrow> if u \<noteq> [] then member ''username'' (quoted u) else []
      | None \<Rightarrow> [])"

definition evt_json :: "kevent \<Rightarrow> string" where
  "evt_json e =
    (let t = ke_type e; plain = (\<lambda>name. evt_object name [] (ke_ts e)); obj = (\<lambda>name members. evt_object name members (ke_ts e))
     in if t = 5 then plain ''cor_assert''
        else if t = 6 then plain ''cor_drop''
        else if t = 7 then obj ''vcor_assert'' (vcor_members e)
        else if t = 8 then obj ''vcor_drop'' (vcor_members e)
        else if t = 9 then plain ''ptt_assert''
        else if t = 10 then plain ''ptt_drop''
        else if t = 13 then obj ''rx_state_change''
               (member ''old_state'' (quoted (rx_state_name (ke_old_state e))) @
                member ''new_state'' (quoted (rx_state_name (ke_new_state e))))
        else if t = 14 then obj ''tx_state_change''
               (member ''old_state'' (quoted (tx_state_name (ke_old_state e))) @
                member ''new_state'' (quoted (tx_state_name (ke_new_state e))))
        else if t = 15 then plain ''tail_start''
        else if t = 16 then plain ''tail_expire''
        else if t = 17 then plain ''rx_timeout''
        else if t = 18 then obj ''caller_identified''
               (member ''user_id'' (show_int (ke_user_id e)) @ member ''method'' (quoted (json_method_name (ke_method e))))
        else if t = 19 then plain ''caller_cleared''
        else if t = 1 then obj ''ctcss_detect''
               (member ''freq_hz'' (tenths (ke_freq_x10 e)) @ member ''active'' (json_bool (ke_active e)))
        else if t = 2 then obj ''dcs_detect''
               (member ''code'' (show_nat (ke_code e)) @ member ''active'' (json_bool (ke_active e)))
        else if t = 3 then obj ''dtmf_digit'' (member ''digit'' (quoted [ke_digit e]))
        else if t = 4 then plain ''dtmf_end''
        else if t = 20 then plain ''queue_drain''
        else if t = 21 then obj ''queue_complete'' (member ''duration_ms'' (show_nat (ke_duration_ms e)))
        else if t = 22 then obj ''queue_preempted''
               (member ''source'' (quoted (or_empty (ke_source e))) @ member ''items_flushed'' (show_int (ke_items_flushed e)))
        else if t = 23 then obj ''recording_saved''
               (member ''direction'' (quoted (or_empty (ke_direction e))) @ member ''path'' (quoted (or_empty (ke_path e))) @
                member ''duration'' (ke_duration e) @ member ''user_id'' (show_int (ke_user_id e)))
        else if t = 24 then obj ''announcement''
               (member ''source'' (quoted (or_empty (ke_source e))) @ member ''description'' (quoted (or_empty (ke_description e))))
        else if t = 25 then plain ''config_reload''
        else if t = 26 then plain ''shutdown''
        else if t = 28 then plain ''heartbeat''
        else if t \<ge> KERCHEVT_CUSTOM then obj ''custom'' (member ''id'' (show_int (t - KERCHEVT_CUSTOM)))
        else obj ''unknown'' (member ''code'' (show_int t)))"

text \<open>What is left of it in a buffer, and the return value.\<close>

definition evt_to_json :: "kevent \<Rightarrow> nat \<Rightarrow> string \<times> nat" where
  "evt_to_json e sz = (c_trunc sz (evt_json e), length (evt_json e))"

text \<open>The types without a case of their own: audio frames, ticks, and the edges of the link.\<close>

definition silent_types :: "int list" where
  "silent_types = [0, 11, 12, 27]"

lemma evt_object_prefix: "prefix (''{'' @ quoted ''type'' @ '':'' @ quoted name @ '','') (evt_object name members ts)"
  by (simp add: evt_object_def prefix_def)

lemma type_cases:
  assumes "0 \<le> (t :: int)" "t < 29"
  shows "t \<in> {0, 1, 2, 3, 4, 5, 6, 7, 8, 9, 10, 11, 12, 13, 14, 15, 16, 17, 18, 19, 20, 21, 22, 23, 24, 25, 26, 27, 28}"
  using assms by (simp only: insert_iff empty_iff simp_thms) presburger

text \<open>
  The serialized type is the canonical event name: for every builtin type but four, and for
  every custom type, the text is an object whose first member is the type with the name that
  the event vocabulary gives it, so a subscriber can map it back; the four others (audio
  frames, ticks, and the two edges of the link) are all serialized as \<open>unknown\<close>.
\<close>

theorem evt_json_type_is_name:
  assumes "0 \<le> ke_type e \<and> ke_type e < KERCHEVT_BUILTIN_COUNT \<or> KERCHEVT_CUSTOM \<le> ke_type e"
  shows "prefix (''{'' @ quoted ''type'' @ '':'' @
           quoted (if ke_type e \<in> set silent_types then ''unknown'' else event_name (ke_type e)) @ '','') (evt_json e)"
proof (cases "KERCHEVT_CUSTOM \<le> ke_type e")
  case True
  then have "evt_json e = evt_object ''custom'' (member ''id'' (show_int (ke_type e - KERCHEVT_CUSTOM))) (ke_ts e)"
    by (simp add: evt_json_def)
  moreover have "event_name (ke_type e) = ''custom''" using True by (simp add: event_name_def evt_names_def)
  moreover have "ke_type e \<notin> set silent_types" using True by (simp add: silent_types_def)
  ultimately show ?thesis using evt_object_prefix by simp
next
  case False
  with assms type_cases[of "ke_type e"] have
    "ke_type e \<in> {0, 1, 2, 3, 4, 5, 6, 7, 8, 9, 10, 11, 12, 13, 14, 15, 16, 17, 18, 19, 20, 21, 22, 23, 24, 25, 26, 27, 28}" by simp
  moreover have "\<exists>m. evt_json e = evt_object (if ke_type e \<in> set silent_types then ''unknown'' else event_name (ke_type e)) m (ke_ts e)"
    if "ke_type e = k" "k \<in> {0, 1, 2, 3, 4, 5, 6, 7, 8, 9, 10, 11, 12, 13, 14, 15, 16, 17, 18, 19, 20, 21, 22, 23, 24, 25, 26, 27, 28}" for k
    using that(2) unfolding that(1)
    by (elim insertE emptyE) (simp_all add: evt_json_def that(1) event_name_def evt_names_def silent_types_def, blast+)
  ultimately obtain m where "evt_json e = evt_object (if ke_type e \<in> set silent_types then ''unknown'' else event_name (ke_type e)) m (ke_ts e)"
    by blast
  then show ?thesis using evt_object_prefix by simp
qed
theorem evt_json_type_is_name_witness:
  "\<exists>e. ke_type e = 18 \<and> prefix (''{'' @ quoted ''type'' @ '':'' @ quoted ''caller_identified'' @ '','') (evt_json e)"
proof -
  let ?e = "\<lparr>ke_type = 18, ke_ts = 5, ke_source = None, ke_user_id = 3, ke_username = None, ke_old_state = 0, ke_new_state = 1,
    ke_method = 3, ke_freq_x10 = 1000, ke_code = 0, ke_active = True, ke_digit = CHR ''1'', ke_duration_ms = 0,
    ke_items_flushed = 0, ke_direction = None, ke_path = None, ke_duration = [], ke_description = None\<rparr> :: kevent"
  have "0 \<le> ke_type ?e \<and> ke_type ?e < KERCHEVT_BUILTIN_COUNT \<or> KERCHEVT_CUSTOM \<le> ke_type ?e" by simp
  from evt_json_type_is_name[OF this] show ?thesis
    by (intro exI[of _ ?e]) (simp add: silent_types_def event_name_def evt_names_def)
qed

end
