(* ===== verification/Module_Loader.thy ===== *)
theory Module_Loader
  imports C_Strings
begin

text \<open>
  The registry of loaded modules (\<open>src/kerchunk_modules.c\<close>). The dynamic linker is a parameter: what
  \<open>dlopen\<close> of a path finds is nothing, a library without the entry symbol, one whose entry
  returns NULL, or a descriptor. The life-cycle functions of a descriptor act on a state of a
  type parameter, which holds everything outside the registry.
\<close>

text \<open>A command of a module: its name, and whether it has a handler.\<close>

record 's module_def =
  md_name :: "string option"
  md_load :: "('s \<Rightarrow> 's \<times> int) option"
  md_unload :: "('s \<Rightarrow> 's) option"
  md_cli :: "(string \<times> bool) list"

record 's loaded_module =
  lm_name :: string
  lm_def :: "'s module_def option"
  lm_loaded :: bool

record 's modules =
  mo_slots :: "'s loaded_module list"
  mo_path :: string

datatype 's library = No_file | No_symbol | Init_null | Lib "'s module_def"

abbreviation MAX_MODULES :: nat where "MAX_MODULES \<equiv> 64"

definition modules_init :: "string option \<Rightarrow> 's modules \<Rightarrow> 's modules" where
  "modules_init path m =
     m\<lparr>mo_slots := [], mo_path := (case path of Some p \<Rightarrow> c_trunc 256 p | None \<Rightarrow> mo_path m)\<rparr>"

definition name_char :: "char \<Rightarrow> bool" where
  "name_char c \<longleftrightarrow> (97 \<le> ascii c \<and> ascii c \<le> 122) \<or> (65 \<le> ascii c \<and> ascii c \<le> 90) \<or>
     (48 \<le> ascii c \<and> ascii c \<le> 57) \<or> c = CHR ''_'' \<or> c = CHR ''-''"

definition valid_module_name :: "string option \<Rightarrow> bool" where
  "valid_module_name name = (case name of None \<Rightarrow> False | Some n \<Rightarrow> n \<noteq> [] \<and> (\<forall>c \<in> set n. name_char c))"

definition module_path_of :: "'s modules \<Rightarrow> string \<Rightarrow> string" where
  "module_path_of m name = c_trunc 512 (mo_path m @ ''/'' @ name @ ''.so'')"

definition is_loaded :: "string \<Rightarrow> 's loaded_module \<Rightarrow> bool" where
  "is_loaded name s \<longleftrightarrow> lm_name s = name \<and> lm_loaded s"

text \<open>The slot: the first that is free, or a new one.\<close>

definition pick_slot :: "'s loaded_module list \<Rightarrow> nat option" where
  "pick_slot ss =
     (case find_idx (\<lambda>s. \<not> lm_loaded s) ss of
        Some i \<Rightarrow> Some i
      | None \<Rightarrow> if length ss \<ge> MAX_MODULES then None else Some (length ss))"

text \<open>A new slot is unloaded until it is stored into; what an earlier run left in it is never read.\<close>

definition grow :: "'s loaded_module list \<Rightarrow> nat \<Rightarrow> 's loaded_module list" where
  "grow ss i = (if i < length ss then ss else ss @ [\<lparr>lm_name = [], lm_def = None, lm_loaded = False\<rparr>])"

definition module_load ::
  "(string \<Rightarrow> 's library) \<Rightarrow> string option \<Rightarrow> 's modules \<Rightarrow> 's \<Rightarrow> 's modules \<times> 's \<times> int" where
  "module_load dlopen name m st =
     (case name of None \<Rightarrow> (m, st, -1)
      | Some n \<Rightarrow>
          if \<not> valid_module_name (Some n) then (m, st, -1)
          else if \<exists>s \<in> set (mo_slots m). is_loaded n s then (m, st, -1)
          else (case dlopen (module_path_of m n) of
                  No_file \<Rightarrow> (m, st, -1)
                | lib \<Rightarrow>
                    (case pick_slot (mo_slots m) of
                       None \<Rightarrow> (m, st, -1)
                     | Some i \<Rightarrow>
                         (let ss = grow (mo_slots m) i; m1 = m\<lparr>mo_slots := ss\<rparr>
                          in (case lib of
                                Lib def \<Rightarrow>
                                  if md_name def = None then (m1, st, -1)
                                  else (let (st1, rc) = (case md_load def of Some f \<Rightarrow> f st | None \<Rightarrow> (st, 0))
                                        in if rc \<noteq> 0 then (m1, st1, -1)
                                           else (m1\<lparr>mo_slots := ss[i := \<lparr>lm_name = c_trunc 64 n, lm_def = Some def, lm_loaded = True\<rparr>]\<rparr>,
                                                 st1, 0))
                              | _ \<Rightarrow> (m1, st, -1))))))"

definition unload_def :: "'s module_def \<Rightarrow> 's \<Rightarrow> 's" where
  "unload_def d st = (case md_unload d of Some f \<Rightarrow> f st | None \<Rightarrow> st)"

definition module_unload :: "string option \<Rightarrow> 's modules \<Rightarrow> 's \<Rightarrow> 's modules \<times> 's \<times> int" where
  "module_unload name m st =
     (case name of None \<Rightarrow> (m, st, -1)
      | Some n \<Rightarrow>
          (case find_idx (is_loaded n) (mo_slots m) of
             None \<Rightarrow> (m, st, -1)
           | Some i \<Rightarrow>
               (let s = mo_slots m ! i
                in (m\<lparr>mo_slots := (mo_slots m)[i := s\<lparr>lm_def := None, lm_loaded := False\<rparr>]\<rparr>,
                    (case lm_def s of Some d \<Rightarrow> unload_def d st | None \<Rightarrow> st), 0))))"

definition module_reload ::
  "(string \<Rightarrow> 's library) \<Rightarrow> string option \<Rightarrow> 's modules \<Rightarrow> 's \<Rightarrow> 's modules \<times> 's \<times> int" where
  "module_reload dlopen name m st =
     (let (m1, st1, rc) = module_unload name m st in module_load dlopen name m1 st1)"

definition modules_shutdown :: "'s modules \<Rightarrow> 's \<Rightarrow> 's modules \<times> 's" where
  "modules_shutdown m st =
     (m\<lparr>mo_slots := []\<rparr>,
      foldl (\<lambda>st s. if lm_loaded s then (case lm_def s of Some d \<Rightarrow> unload_def d st | None \<Rightarrow> st) else st)
        st (rev (mo_slots m)))"

definition module_count :: "'s modules \<Rightarrow> nat" where
  "module_count m = length (filter lm_loaded (mo_slots m))"

definition module_get :: "'s modules \<Rightarrow> int \<Rightarrow> 's module_def option" where
  "module_get m index =
     (let ls = filter lm_loaded (mo_slots m)
      in if 0 \<le> index \<and> index < int (length ls) then lm_def (ls ! nat index) else None)"

definition module_find :: "'s modules \<Rightarrow> string option \<Rightarrow> 's module_def option" where
  "module_find m name =
     (case name of None \<Rightarrow> None
      | Some n \<Rightarrow> (case find_idx (is_loaded n) (mo_slots m) of
                      Some i \<Rightarrow> lm_def (mo_slots m ! i) | None \<Rightarrow> None))"

text \<open>The commands of the loaded modules, in slot order.\<close>

definition all_commands :: "'s modules \<Rightarrow> ('s module_def \<times> string \<times> bool) list" where
  "all_commands m =
     concat (map (\<lambda>s. case lm_def s of Some d \<Rightarrow> if lm_loaded s then map (Pair d) (md_cli d) else [] | None \<Rightarrow> [])
       (mo_slots m))"

text \<open>The first command of that name with a handler is run; None is the error \<open>Unknown command\<close>.\<close>

definition module_dispatch_cli :: "'s modules \<Rightarrow> string \<Rightarrow> ('s module_def \<times> string \<times> bool) option" where
  "module_dispatch_cli m cmd = find (\<lambda>(d, n, has). n = cmd \<and> has) (all_commands m)"

definition module_iter_cli :: "'s modules \<Rightarrow> ('s module_def \<times> string \<times> bool) list \<times> nat" where
  "module_iter_cli m = (all_commands m, length (all_commands m))"

subsection \<open>The registry is a finite map\<close>

definition reg :: "'s loaded_module list \<Rightarrow> string \<Rightarrow> 's module_def option" where
  "reg ss n = (case find_idx (is_loaded n) ss of Some i \<Rightarrow> lm_def (ss ! i) | None \<Rightarrow> None)"

definition registry :: "'s modules \<Rightarrow> string \<Rightarrow> 's module_def option" where
  "registry m = reg (mo_slots m)"

text \<open>A module is loaded in a slot.\<close>

definition in_slot :: "'s loaded_module list \<Rightarrow> nat \<Rightarrow> string \<Rightarrow> 's module_def \<Rightarrow> bool" where
  "in_slot ss i n d \<longleftrightarrow> i < length ss \<and> lm_loaded (ss ! i) \<and> lm_name (ss ! i) = n \<and> lm_def (ss ! i) = Some d"

definition slots_ok :: "'s loaded_module list \<Rightarrow> bool" where
  "slots_ok ss \<longleftrightarrow> length ss \<le> MAX_MODULES \<and>
     (\<forall>i < length ss. lm_loaded (ss ! i) \<longrightarrow> (\<exists>d. lm_def (ss ! i) = Some d)) \<and>
     (\<forall>i j n d e. in_slot ss i n d \<longrightarrow> in_slot ss j n e \<longrightarrow> i = j)"

definition modules_ok :: "'s modules \<Rightarrow> bool" where
  "modules_ok m \<longleftrightarrow> slots_ok (mo_slots m)"

lemma slots_unique:
  assumes "slots_ok ss" "in_slot ss i n d" "in_slot ss j n e"
  shows "i = j \<and> d = e"
proof -
  have ij: "i = j" using assms unfolding slots_ok_def by blast
  with assms(2,3) show ?thesis by (simp add: in_slot_def)
qed

lemma reg_iff:
  assumes "slots_ok ss"
  shows "reg ss n = Some d \<longleftrightarrow> (\<exists>i. in_slot ss i n d)"
proof (cases "find_idx (is_loaded n) ss")
  case None
  then have "\<not> is_loaded n (ss ! i)" if "i < length ss" for i using that by (simp add: find_idx_None)
  then show ?thesis using None by (auto simp: reg_def in_slot_def is_loaded_def)
next
  case (Some i)
  from find_idx_SomeD[OF Some] have i: "i < length ss" "lm_loaded (ss ! i)" "lm_name (ss ! i) = n"
    by (simp_all add: is_loaded_def)
  then obtain e where e: "lm_def (ss ! i) = Some e" using assms by (auto simp: slots_ok_def)
  with i have s: "in_slot ss i n e" by (simp add: in_slot_def)
  have "in_slot ss j n d \<Longrightarrow> d = e" for j using slots_unique[OF assms s] by blast
  with s e Some show ?thesis by (auto simp: reg_def)
qed

lemma reg_eqI: "slots_ok ss \<Longrightarrow> slots_ok ss' \<Longrightarrow> (\<And>i d. in_slot ss i n d \<longleftrightarrow> in_slot ss' i n' d) \<Longrightarrow> reg ss n = reg ss' n'"
  using reg_iff by (metis option.exhaust)

lemma in_slot_update:
  "i < length ss \<Longrightarrow> in_slot (ss[i := s]) j n d \<longleftrightarrow>
     (if j = i then lm_loaded s \<and> lm_name s = n \<and> lm_def s = Some d else in_slot ss j n d)"
  by (auto simp: in_slot_def nth_list_update)

text \<open>Storing into a free slot, and clearing a slot.\<close>

lemma store_slot:
  assumes "slots_ok ss" "i < length ss" "\<not> lm_loaded (ss ! i)" "reg ss n = None"
  shows "slots_ok (ss[i := \<lparr>lm_name = n, lm_def = Some d, lm_loaded = True\<rparr>])"
    "reg (ss[i := \<lparr>lm_name = n, lm_def = Some d, lm_loaded = True\<rparr>]) = (reg ss)(n \<mapsto> d)"
proof -
  let ?ss = "ss[i := \<lparr>lm_name = n, lm_def = Some d, lm_loaded = True\<rparr>]"
  note up = in_slot_update[OF assms(2)]
  have fresh: "\<not> in_slot ss j n e" for j e using reg_iff[OF assms(1)] assms(4) by (metis option.distinct(1))
  have free: "\<not> in_slot ss i m e" for m e using assms(3) by (simp add: in_slot_def)
  show ok: "slots_ok ?ss" unfolding slots_ok_def
  proof (intro conjI allI impI)
    show "length ?ss \<le> MAX_MODULES" using assms(1) by (simp add: slots_ok_def)
    show "\<exists>d. lm_def (?ss ! j) = Some d" if "j < length ?ss" "lm_loaded (?ss ! j)" for j
      using that assms(1) by (cases "j = i") (auto simp: slots_ok_def)
    show "j = k" if "in_slot ?ss j m e" "in_slot ?ss k m f" for j k m e f
      using that fresh free slots_unique[OF assms(1)] unfolding up by (auto split: if_splits)
  qed
  show "reg ?ss = (reg ss)(n \<mapsto> d)"
  proof
    fix x
    show "reg ?ss x = ((reg ss)(n \<mapsto> d)) x"
    proof (cases "x = n")
      case True
      have "in_slot ?ss i n d" by (simp add: up)
      with reg_iff[OF ok] True show ?thesis by fastforce
    next
      case False
      have "reg ?ss x = reg ss x" by (rule reg_eqI[OF ok assms(1)]) (use False free in \<open>auto simp: up split: if_splits\<close>)
      with False show ?thesis by simp
    qed
  qed
qed

lemma clear_slot:
  assumes "slots_ok ss" "in_slot ss i n d"
  shows "slots_ok (ss[i := (ss ! i)\<lparr>lm_def := None, lm_loaded := False\<rparr>])"
    "reg (ss[i := (ss ! i)\<lparr>lm_def := None, lm_loaded := False\<rparr>]) = (reg ss)(n := None)"
proof -
  let ?ss = "ss[i := (ss ! i)\<lparr>lm_def := None, lm_loaded := False\<rparr>]"
  have i: "i < length ss" using assms(2) by (simp add: in_slot_def)
  note up = in_slot_update[OF i]
  show ok: "slots_ok ?ss" unfolding slots_ok_def
  proof (intro conjI allI impI)
    show "length ?ss \<le> MAX_MODULES" using assms(1) by (simp add: slots_ok_def)
    show "\<exists>d. lm_def (?ss ! j) = Some d" if "j < length ?ss" "lm_loaded (?ss ! j)" for j
      using that assms(1) i by (cases "j = i") (auto simp: slots_ok_def)
    show "j = k" if "in_slot ?ss j m e" "in_slot ?ss k m f" for j k m e f
      using that slots_unique[OF assms(1)] unfolding up by (auto split: if_splits)
  qed
  have only: "j = i" if "in_slot ss j n e" for j e using that assms unfolding slots_ok_def by blast
  have at: "m = n" if "in_slot ss i m e" for m e using that assms(2) by (simp add: in_slot_def)
  show "reg ?ss = (reg ss)(n := None)"
  proof
    fix x
    show "reg ?ss x = ((reg ss)(n := None)) x"
    proof (cases "x = n")
      case True
      have "\<not> in_slot ?ss j n e" for j e using only by (auto simp: up)
      with reg_iff[OF ok, of n] have "reg ?ss n = None" by (metis not_None_eq)
      with True show ?thesis by simp
    next
      case False
      have "reg ?ss x = reg ss x"
        by (rule reg_eqI[OF ok assms(1)]) (use False at in \<open>auto simp: up split: if_splits\<close>)
      with False show ?thesis by simp
    qed
  qed
qed

lemma grow_ok:
  assumes "slots_ok ss" "pick_slot ss = Some i"
  shows "slots_ok (grow ss i) \<and> reg (grow ss i) = reg ss \<and> i < length (grow ss i) \<and> \<not> lm_loaded (grow ss i ! i)"
proof (cases "find_idx (\<lambda>s. \<not> lm_loaded s) ss")
  case (Some j)
  with find_idx_SomeD[OF Some] assms show ?thesis by (simp add: pick_slot_def grow_def)
next
  case None
  with assms(2) have i: "i = length ss" "length ss < MAX_MODULES" by (auto simp: pick_slot_def split: if_splits)
  let ?ss = "ss @ [\<lparr>lm_name = [], lm_def = None, lm_loaded = False\<rparr>]"
  have up: "in_slot ?ss j n d \<longleftrightarrow> in_slot ss j n d" for j n d
    by (auto simp: in_slot_def nth_append)
  have ok: "slots_ok ?ss" unfolding slots_ok_def up
    using assms(1) i(2) by (auto simp: slots_ok_def nth_append)
  have "reg ?ss x = reg ss x" for x by (rule reg_eqI[OF ok assms(1)]) (simp add: up)
  then have "reg ?ss = reg ss" ..
  with ok i show ?thesis by (simp add: grow_def)
qed

text \<open>
  The registry refines a finite map from names to descriptors. Loading a module whose name
  fits its slot either succeeds with 0, when the name was valid and not yet loaded, and then
  adds exactly that name, or fails with -1 and changes no entry; unloading removes exactly
  the name, runs its unload function once, and fails with -1 only for a name that is not
  loaded; both keep at most 64 slots and the names distinct.
\<close>

theorem modules_refine_map:
  assumes "modules_ok m" "length n < 64"
    and "module_load dlopen (Some n) m st = (m1, st1, rc)" "module_unload (Some n) m st = (m2, st2, rc')"
  shows "modules_ok m1 \<and>
      (rc = -1 \<and> registry m1 = registry m \<or>
       rc = 0 \<and> valid_module_name (Some n) \<and> registry m n = None \<and>
         (\<exists>d. dlopen (module_path_of m n) = Lib d \<and> registry m1 = (registry m)(n \<mapsto> d) \<and>
              (case md_load d of Some f \<Rightarrow> f st = (st1, 0) | None \<Rightarrow> st1 = st))) \<and>
      modules_ok m2 \<and>
      (case registry m n of
         None \<Rightarrow> rc' = -1 \<and> m2 = m \<and> st2 = st
       | Some d \<Rightarrow> rc' = 0 \<and> registry m2 = (registry m)(n := None) \<and> st2 = unload_def d st)"
proof -
  have tr: "c_trunc 64 n = n" using assms(2) by (rule c_trunc_id)
  have load: "modules_ok m1 \<and>
      (rc = -1 \<and> registry m1 = registry m \<or>
       rc = 0 \<and> valid_module_name (Some n) \<and> registry m n = None \<and>
         (\<exists>d. dlopen (module_path_of m n) = Lib d \<and> registry m1 = (registry m)(n \<mapsto> d) \<and>
              (case md_load d of Some f \<Rightarrow> f st = (st1, 0) | None \<Rightarrow> st1 = st)))"
  proof (cases "valid_module_name (Some n) \<and> \<not> (\<exists>s \<in> set (mo_slots m). is_loaded n s) \<and>
      dlopen (module_path_of m n) \<noteq> No_file \<and> pick_slot (mo_slots m) \<noteq> None")
    case False
    then have "m1 = m \<and> rc = -1"
      using assms(3) by (auto simp: module_load_def split: if_splits library.splits option.splits)
    with assms(1) show ?thesis by simp
  next
    case True
    then obtain i where i: "pick_slot (mo_slots m) = Some i" by blast
    let ?ss = "grow (mo_slots m) i"
    have ok0: "slots_ok (mo_slots m)" using assms(1) by (simp add: modules_ok_def)
    note g = grow_ok[OF ok0 i]
    show ?thesis
    proof (cases "\<exists>d st'. dlopen (module_path_of m n) = Lib d \<and> md_name d \<noteq> None \<and>
        (case md_load d of Some f \<Rightarrow> f st | None \<Rightarrow> (st, 0)) = (st', 0)")
      case False
      then have "mo_slots m1 = ?ss \<and> rc = -1"
        using assms(3) True i by (auto simp: module_load_def Let_def split: library.splits if_splits prod.splits)
      with g show ?thesis by (simp add: modules_ok_def registry_def)
    next
      case ok: True
      then obtain d st' where d: "dlopen (module_path_of m n) = Lib d" "md_name d \<noteq> None"
        "(case md_load d of Some f \<Rightarrow> f st | None \<Rightarrow> (st, 0)) = (st', 0)" by blast
      let ?e = "\<lparr>lm_name = n, lm_def = Some d, lm_loaded = True\<rparr>"
      have r: "mo_slots m1 = ?ss[i := ?e] \<and> st1 = st' \<and> rc = 0"
        using assms(3) True i d tr by (auto simp: module_load_def Let_def)
      have none: "reg (mo_slots m) n = None" using True by (auto simp: reg_def find_idx_None[THEN iffD2])
      have s: "slots_ok (?ss[i := ?e])" "reg (?ss[i := ?e]) = (reg (mo_slots m))(n \<mapsto> d)"
        using store_slot[of ?ss i n d] g none by simp_all
      have "case md_load d of Some f \<Rightarrow> f st = (st1, 0) | None \<Rightarrow> st1 = st"
        using d(3) r by (simp split: option.splits)
      with r s none d(1) True show ?thesis by (simp add: modules_ok_def registry_def)
    qed
  qed
  have unload: "modules_ok m2 \<and>
      (case registry m n of
         None \<Rightarrow> rc' = -1 \<and> m2 = m \<and> st2 = st
       | Some d \<Rightarrow> rc' = 0 \<and> registry m2 = (registry m)(n := None) \<and> st2 = unload_def d st)"
  proof (cases "find_idx (is_loaded n) (mo_slots m)")
    case None
    then have "registry m n = None" by (simp add: registry_def reg_def)
    with None assms(1,4) show ?thesis by (simp add: module_unload_def)
  next
    case (Some i)
    from find_idx_SomeD[OF Some] have i: "i < length (mo_slots m)" "is_loaded n (mo_slots m ! i)" by simp_all
    have ok: "slots_ok (mo_slots m)" using assms(1) by (simp add: modules_ok_def)
    then obtain d where d: "lm_def (mo_slots m ! i) = Some d" using i by (auto simp: slots_ok_def is_loaded_def)
    then have "in_slot (mo_slots m) i n d" using i by (simp add: in_slot_def is_loaded_def)
    note c = clear_slot[OF ok this]
    have "registry m n = Some d" using d by (simp add: registry_def reg_def Some)
    with assms(4) Some d c show ?thesis by (auto simp: module_unload_def modules_ok_def registry_def Let_def)
  qed
  from load unload show ?thesis by blast
qed

theorem modules_refine_map_witness:
  "\<exists>m1 st1 rc. module_load (\<lambda>p. Lib \<lparr>md_name = Some ''mod_caller'', md_load = Some (\<lambda>s. (s + 1, 0)), md_unload = None, md_cli = []\<rparr>)
       (Some ''mod_caller'') \<lparr>mo_slots = [], mo_path = ''./modules''\<rparr> (0 :: nat) = (m1, st1, rc) \<and> rc = 0 \<and> modules_ok m1"
proof -
  let ?d = "\<lparr>md_name = Some ''mod_caller'', md_load = Some (\<lambda>s :: nat. (s + 1, 0)), md_unload = None, md_cli = []\<rparr>"
  let ?m = "\<lparr>mo_slots = [], mo_path = ''./modules''\<rparr> :: nat modules"
  have ok: "modules_ok ?m" by (simp add: modules_ok_def slots_ok_def in_slot_def)
  obtain m1 st1 rc where a: "module_load (\<lambda>p. Lib ?d) (Some ''mod_caller'') ?m 0 = (m1, st1, rc)" by (metis prod_cases3)
  obtain m2 st2 rc' where b: "module_unload (Some ''mod_caller'') ?m 0 = (m2, st2, rc')" by (metis prod_cases3)
  have "valid_module_name (Some ''mod_caller'')" by code_simp
  then have "rc = 0" using a by (simp add: module_load_def pick_slot_def grow_def)
  with modules_refine_map[OF ok _ a b] a show ?thesis by auto
qed

end
