(* ===== verification/Courtesy.thy ===== *)
theory Courtesy
  imports Config
begin

text \<open>
  The courtesy tone (\<open>modules/mod_courtesy.c\<close>): a short tone after a transmission, optionally
  after every queued announcement too. The monotonic clock is an argument; what is queued and
  announced are the effects of an operation.
\<close>

record courtesy =
  co_enabled :: bool
  co_freq :: int
  co_dur :: int
  co_amp :: int
  co_queue :: bool
  co_caller_id :: int
  co_last_us :: nat

datatype co_effect = Co_silence int | Co_tone int int int | Co_announce string

text \<open>Conversions to \<open>int16_t\<close> and subtraction of \<open>uint64_t\<close>s.\<close>

definition wrap16 :: "int \<Rightarrow> int" where
  "wrap16 x = (x + 32768) mod 65536 - 32768"

definition sub64 :: "nat \<Rightarrow> nat \<Rightarrow> nat" where
  "sub64 a b = nat ((int a - int b) mod 18446744073709551616)"

definition co_queue_tone :: "nat \<Rightarrow> string \<Rightarrow> courtesy \<Rightarrow> courtesy \<times> co_effect list" where
  "co_queue_tone now reason s =
     (if \<not> co_enabled s then (s, [])
      else (s\<lparr>co_last_us := now\<rparr>,
            [Co_silence 50, Co_tone (co_freq s) (co_dur s) (co_amp s), Co_announce reason]))"

definition co_cor_drop :: "nat \<Rightarrow> courtesy \<Rightarrow> courtesy \<times> co_effect list" where
  "co_cor_drop now s = co_queue_tone now (if co_caller_id s \<noteq> 0 then ''cor_drop, caller'' else ''cor_drop'') s"

definition co_link_rx_drop :: "nat \<Rightarrow> courtesy \<Rightarrow> courtesy \<times> co_effect list" where
  "co_link_rx_drop now s = co_queue_tone now ''link_rx_drop'' s"

definition co_vcor_drop :: "nat \<Rightarrow> string option \<Rightarrow> courtesy \<Rightarrow> courtesy \<times> co_effect list" where
  "co_vcor_drop now source s =
     co_queue_tone now (c_trunc 64 (''vcor_drop:'' @ (case source of Some x \<Rightarrow> if x \<noteq> [] then x else ''?'' | None \<Rightarrow> ''?''))) s"

text \<open>\<open>no_tail\<close> is the flag of the drained items, \<open>ts\<close> the time stamp of the event.\<close>

definition co_queue_complete :: "nat \<Rightarrow> nat \<Rightarrow> bool \<Rightarrow> courtesy \<Rightarrow> courtesy \<times> co_effect list" where
  "co_queue_complete now ts no_tail s =
     (if co_last_us s > 0 \<and> sub64 ts (co_last_us s) < 500000 then (s\<lparr>co_last_us := 0\<rparr>, [])
      else (let s1 = s\<lparr>co_last_us := 0\<rparr>
            in if co_queue s1 \<and> \<not> no_tail then co_queue_tone now ''queue_complete'' s1 else (s1, [])))"

definition co_caller_identified :: "int \<Rightarrow> courtesy \<Rightarrow> courtesy" where
  "co_caller_identified uid s = s\<lparr>co_caller_id := uid\<rparr>"

definition co_caller_cleared :: "courtesy \<Rightarrow> courtesy" where
  "co_caller_cleared s = s\<lparr>co_caller_id := 0\<rparr>"

definition courtesy_configure :: "config \<Rightarrow> courtesy \<Rightarrow> courtesy" where
  "courtesy_configure cfg s =
     s\<lparr>co_enabled := (config_get cfg ''courtesy'' ''enabled'' \<noteq> Some ''off''),
       co_freq := config_get_int cfg ''courtesy'' ''freq'' 800,
       co_dur := config_get_duration_ms cfg ''courtesy'' ''duration'' 100,
       co_amp := wrap16 (config_get_int cfg ''courtesy'' ''amplitude'' 4000),
       co_queue := (config_get cfg ''courtesy'' ''queue_courtesy'' = Some ''on'')\<rparr>"

subsection \<open>The guard against its own tone\<close>

text \<open>The completions of the queue: time of handling, time stamp, flag.\<close>

fun co_completions :: "(nat \<times> nat \<times> bool) list \<Rightarrow> courtesy \<Rightarrow> courtesy \<times> co_effect list" where
  "co_completions [] s = (s, [])"
| "co_completions ((now, ts, nt) # es) s =
     (let (s1, x1) = co_queue_complete now ts nt s; (s2, x2) = co_completions es s1 in (s2, x1 @ x2))"

text \<open>Every completion comes half a second or more after the tone that the one before it queued.\<close>

fun spaced :: "nat \<Rightarrow> (nat \<times> nat \<times> bool) list \<Rightarrow> bool" where
  "spaced prev [] = True"
| "spaced prev ((now, ts, nt) # es) \<longleftrightarrow>
     0 < now \<and> ts < 18446744073709551616 \<and> prev + 500000 \<le> ts \<and> \<not> nt \<and> spaced now es"

definition tones :: "co_effect list \<Rightarrow> nat" where
  "tones es = length (filter (\<lambda>e. case e of Co_tone f d a \<Rightarrow> True | _ \<Rightarrow> False) es)"

lemma tones_append [simp]: "tones (xs @ ys) = tones xs + tones ys"
  by (simp add: tones_def)

lemma sub64_id: "b \<le> a \<Longrightarrow> a < 18446744073709551616 \<Longrightarrow> sub64 a b = a - b"
  by (simp add: sub64_def)

text \<open>
  The guard against chaining is a fixed half second from the queuing of the tone: a completion
  within it queues nothing (and forgets the tone), but when every completion comes later, as
  with a configured tone of half a second, each completion queues another tone, so with \<open>queue_courtesy\<close> the station keys itself for ever.
\<close>

theorem courtesy_chain:
  assumes "co_enabled s" "co_queue s"
  shows "0 < co_last_us s \<Longrightarrow> co_last_us s \<le> ts \<Longrightarrow> ts < 18446744073709551616 \<Longrightarrow> ts < co_last_us s + 500000 \<Longrightarrow>
           co_queue_complete now ts nt s = (s\<lparr>co_last_us := 0\<rparr>, [])"
    and "spaced (co_last_us s) es \<Longrightarrow> tones (snd (co_completions es s)) = length es"
proof -
  show "co_queue_complete now ts nt s = (s\<lparr>co_last_us := 0\<rparr>, [])"
    if "0 < co_last_us s" "co_last_us s \<le> ts" "ts < 18446744073709551616" "ts < co_last_us s + 500000"
  proof -
    have "sub64 ts (co_last_us s) < 500000" using sub64_id[OF that(2,3)] that(4) by linarith
    with that(1) show ?thesis by (simp add: co_queue_complete_def)
  qed
  show "tones (snd (co_completions es s)) = length es" if "spaced (co_last_us s) es"
    using assms that
  proof (induction es arbitrary: s)
    case (Cons e es)
    obtain now ts nt where e: "e = (now, ts, nt)" by (metis prod_cases3)
    let ?s = "s\<lparr>co_last_us := now\<rparr>"
    from Cons.prems(3) e have sp: "co_last_us s + 500000 \<le> ts" "ts < 18446744073709551616" "\<not> nt" "spaced (co_last_us ?s) es"
      by simp_all
    have "\<not> sub64 ts (co_last_us s) < 500000" using sub64_id[of "co_last_us s" ts] sp by simp
    then have c: "co_queue_complete now ts nt s =
        (?s, [Co_silence 50, Co_tone (co_freq s) (co_dur s) (co_amp s), Co_announce ''queue_complete''])"
      using Cons.prems(1,2) sp(3) by (simp add: co_queue_complete_def co_queue_tone_def)
    have "tones (snd (co_completions es ?s)) = length es"
      by (rule Cons.IH) (use Cons.prems(1,2) sp(4) in simp_all)
    then show ?case using c e by (simp add: split_beta tones_def)
  qed (simp add: tones_def)
qed

definition courtesy_boot :: courtesy where
  "courtesy_boot = \<lparr>co_enabled = True, co_freq = 800, co_dur = 100, co_amp = 4000, co_queue = False, co_caller_id = 0, co_last_us = 0\<rparr>"

theorem courtesy_chain_witness:
  "tones (snd (co_completions [(1000000, 1000000, False), (2000000, 2000000, False), (3000000, 3000000, False)]
     (courtesy_boot\<lparr>co_queue := True\<rparr>))) = 3"
  using courtesy_chain(2)[of "courtesy_boot\<lparr>co_queue := True\<rparr>"
    "[(1000000, 1000000, False), (2000000, 2000000, False), (3000000, 3000000, False)]"]
  by (simp add: courtesy_boot_def)
end
