(* ===== verification/Station.thy ===== *)
theory Station
  imports Event_Bus Repeater Caller Courtesy
begin

text \<open>
  Modules on the event bus: the repeater, the caller identification and the courtesy tone, their
  handlers subscribed in the order in which the modules are loaded (\<open>src/main.c\<close> loads them
  in the order of the configuration), and the events that the caller module fires from inside
  its own handlers. Each module has its timers in a table of its own, since another module's
  timers never matter to it. The caller module changes its state before it fires, so its
  events are fired after its operation.
\<close>

datatype module_handler =
    H_rpt_cor_assert | H_rpt_cor_drop | H_rpt_link_assert | H_rpt_link_drop | H_rpt_identified | H_rpt_cleared
  | H_ca_cor_assert | H_ca_cor_drop | H_ca_digit
  | H_co_cor_drop | H_co_link_drop | H_co_vcor_drop | H_co_complete | H_co_identified | H_co_cleared

datatype payload = No_payload | P_caller int int | P_digit char | P_source "string option"

datatype station_effect = Of_repeater rpt_effect | Of_caller caller_effect | Of_courtesy co_effect

record station =
  st_bus :: "(module_handler, unit) bus"
  st_rpt :: repeater
  st_rpt_timers :: "rpt_cb timers"
  st_ca :: caller
  st_ca_timers :: "caller_cb timers"
  st_co :: courtesy
  st_log :: "station_effect list"

record station_env =
  se_rpt :: rpt_env
  se_ca :: caller_env
  se_no_tail :: bool

definition apply_rpt :: "rpt_cb timers rpt_op \<Rightarrow> station \<Rightarrow> station" where
  "apply_rpt f s =
     (let (r, t, es) = f (st_rpt s) (st_rpt_timers s)
      in s\<lparr>st_rpt := r, st_rpt_timers := t, st_log := st_log s @ map Of_repeater es\<rparr>)"

text \<open>The events among the effects of the caller module, as they are fired.\<close>

fun caller_event :: "caller_effect \<Rightarrow> payload event option" where
  "caller_event (Ev_identified u m) = Some \<lparr>e_type = 18, e_timestamp_us = 0, e_payload = P_caller u m\<rparr>"
| "caller_event Ev_cleared = Some \<lparr>e_type = 19, e_timestamp_us = 0, e_payload = No_payload\<rparr>"
| "caller_event _ = None"

definition apply_ca ::
  "(payload event \<Rightarrow> station \<Rightarrow> station) \<Rightarrow> caller_cb timers ca_op \<Rightarrow> station \<Rightarrow> station" where
  "apply_ca fire f s =
     (let (c, t, es) = f (st_ca s) (st_ca_timers s);
          s1 = s\<lparr>st_ca := c, st_ca_timers := t, st_log := st_log s @ map Of_caller es\<rparr>
      in foldl (\<lambda>s e. case caller_event e of Some evt \<Rightarrow> fire evt s | None \<Rightarrow> s) s1 es)"

definition apply_co :: "(courtesy \<Rightarrow> courtesy \<times> co_effect list) \<Rightarrow> station \<Rightarrow> station" where
  "apply_co f s = (let (c, es) = f (st_co s) in s\<lparr>st_co := c, st_log := st_log s @ map Of_courtesy es\<rparr>)"

definition station_run ::
  "station_env \<Rightarrow> (payload event \<Rightarrow> station \<Rightarrow> station) \<Rightarrow> module_handler \<Rightarrow> unit \<Rightarrow> payload event \<Rightarrow> station \<Rightarrow> station" where
  "station_run env fire h u evt s =
     (case h of
        H_rpt_cor_assert \<Rightarrow> apply_rpt (on_cor_assert timer_create timer_cancel (se_rpt env)) s
      | H_rpt_cor_drop \<Rightarrow> apply_rpt (on_cor_drop timer_create timer_cancel (se_rpt env)) s
      | H_rpt_link_assert \<Rightarrow> apply_rpt on_link_rx_assert s
      | H_rpt_link_drop \<Rightarrow> apply_rpt on_link_rx_drop s
      | H_rpt_identified \<Rightarrow> s\<lparr>st_rpt := on_caller_identified (st_rpt s)\<rparr>
      | H_rpt_cleared \<Rightarrow> s\<lparr>st_rpt := on_caller_cleared (st_rpt s)\<rparr>
      | H_ca_cor_assert \<Rightarrow> apply_ca fire (ca_cor_assert timer_create timer_cancel (se_ca env)) s
      | H_ca_cor_drop \<Rightarrow> apply_ca fire (ca_cor_drop timer_cancel (se_ca env)) s
      | H_ca_digit \<Rightarrow> (case e_payload evt of
            P_digit d \<Rightarrow> apply_ca fire (ca_dtmf_digit timer_create timer_cancel (se_ca env) d) s | _ \<Rightarrow> s)
      | H_co_cor_drop \<Rightarrow> apply_co (co_cor_drop (env_now_us (se_rpt env))) s
      | H_co_link_drop \<Rightarrow> apply_co (co_link_rx_drop (env_now_us (se_rpt env))) s
      | H_co_vcor_drop \<Rightarrow> (case e_payload evt of
            P_source src \<Rightarrow> apply_co (co_vcor_drop (env_now_us (se_rpt env)) src) s | _ \<Rightarrow> s)
      | H_co_complete \<Rightarrow> apply_co (co_queue_complete (env_now_us (se_rpt env)) (e_timestamp_us evt) (se_no_tail env)) s
      | H_co_identified \<Rightarrow> (case e_payload evt of
            P_caller uid m \<Rightarrow> s\<lparr>st_co := co_caller_identified uid (st_co s)\<rparr> | _ \<Rightarrow> s)
      | H_co_cleared \<Rightarrow> s\<lparr>st_co := co_caller_cleared (st_co s)\<rparr>)"

definition station_fire :: "station_env \<Rightarrow> payload event \<Rightarrow> station \<Rightarrow> station" where
  "station_fire env evt s = evt_fire st_bus (station_run env) (env_now_us (se_rpt env)) (Some evt) s"

text \<open>What the load functions subscribe to.\<close>

definition repeater_subs :: "(int \<times> module_handler) list" where
  "repeater_subs = [(5, H_rpt_cor_assert), (6, H_rpt_cor_drop), (11, H_rpt_link_assert), (12, H_rpt_link_drop),
     (18, H_rpt_identified), (19, H_rpt_cleared)]"

definition courtesy_subs :: "(int \<times> module_handler) list" where
  "courtesy_subs = [(6, H_co_cor_drop), (12, H_co_link_drop), (8, H_co_vcor_drop), (21, H_co_complete), (18, H_co_identified), (19, H_co_cleared)]"

definition caller_subs :: "(int \<times> module_handler) list" where
  "caller_subs = [(5, H_ca_cor_assert), (6, H_ca_cor_drop), (3, H_ca_digit)]"

definition subscribe_all :: "(int \<times> module_handler) list \<Rightarrow> (module_handler, unit) bus" where
  "subscribe_all subs = foldl (\<lambda>b (t, h). fst (evt_subscribe b t (Some h) ())) (bus_init \<lparr>b_subs = \<lambda>_. [], b_initialized = False\<rparr>) subs"

text \<open>And what the unload functions give back.\<close>

definition unsubscribe_all :: "(int \<times> module_handler) list \<Rightarrow> (module_handler, unit) bus \<Rightarrow> (module_handler, unit) bus" where
  "unsubscribe_all subs b = foldl (\<lambda>b (t, h). fst (evt_unsubscribe b t (Some h))) b subs"

definition repeater_first :: "(module_handler, unit) bus" where
  "repeater_first = subscribe_all (repeater_subs @ courtesy_subs @ caller_subs)"

definition caller_first :: "(module_handler, unit) bus" where
  "caller_first = subscribe_all (caller_subs @ repeater_subs @ courtesy_subs)"

lemma subs_order:
  "b_initialized repeater_first" "b_initialized caller_first"
  "b_subs repeater_first 5 = [(H_rpt_cor_assert, ()), (H_ca_cor_assert, ())]"
  "b_subs caller_first 5 = [(H_ca_cor_assert, ()), (H_rpt_cor_assert, ())]"
  "b_subs repeater_first 18 = [(H_rpt_identified, ()), (H_co_identified, ())]"
  "b_subs caller_first 18 = [(H_rpt_identified, ()), (H_co_identified, ())]"
  by code_simp+

lemma unload_unsubscribes:
  "map (b_subs (unsubscribe_all courtesy_subs repeater_first)) [3, 5, 6, 8, 11, 12, 18, 19, 21] =
   map (b_subs (subscribe_all (repeater_subs @ caller_subs))) [3, 5, 6, 8, 11, 12, 18, 19, 21]"
  by code_simp

subsection \<open>A key-up of a logged-in user\<close>

lemma fire_subs:
  "b_initialized (st_bus s) \<Longrightarrow> evt_index (e_type e) = Some i \<Longrightarrow> b_subs (st_bus s) i = hs \<Longrightarrow>
   fire_at st_bus (station_run env) now (Suc d) e s =
   foldl (\<lambda>s (h, u). station_run env (fire_at st_bus (station_run env) now d) h u (stamp now e) s) s hs"
  by simp

definition fire_all :: "(payload event \<Rightarrow> station \<Rightarrow> station) \<Rightarrow> caller_effect list \<Rightarrow> station \<Rightarrow> station" where
  "fire_all fire es s = foldl (\<lambda>s e. case caller_event e of Some evt \<Rightarrow> fire evt s | None \<Rightarrow> s) s es"

lemma fire_all_append: "fire_all fire (xs @ ys) s = fire_all fire ys (fire_all fire xs s)"
  by (simp add: fire_all_def)

lemma fire_all_identified:
  "fire_all fire (Ev_identified u m # es) s = fire_all fire es (fire \<lparr>e_type = 18, e_timestamp_us = 0, e_payload = P_caller u m\<rparr> s)"
  by (simp add: fire_all_def)

lemma fire_all_publish: "fire_all fire (publish_session_snapshot env c) s = s"
  by (simp add: fire_all_def publish_session_snapshot_def Let_def)

lemma cor_assert_identifies:
  assumes "ca_cor_assert create cancel env c t = (c', t', es)" "0 < ca_session_user c" "ca_user c \<noteq> ca_session_user c"
  shows "ca_user c' = ca_session_user c \<and> ca_session_user c' = ca_session_user c"
    "fire_all fire es s = fire \<lparr>e_type = 18, e_timestamp_us = 0, e_payload = P_caller (ca_session_user c) CALLER_DTMF_LOGIN\<rparr> s"
proof -
  define c0 where "c0 = (if \<not> ca_ani_active c then c\<lparr>ca_ani_active := True, ca_ani_buf := []\<rparr> else c)"
  have f0: "ca_session_user c0 = ca_session_user c" "ca_user c0 = ca_user c" by (simp_all add: c0_def)
  obtain c1 t1 e1 where r: "session_refresh create cancel env c0 t = (c1, t1, e1)" by (metis prod_cases3)
  have f1: "ca_session_user c1 = ca_session_user c" "ca_user c1 = ca_user c"
    using r f0 by (auto simp: session_refresh_def Let_def split: if_splits prod.splits)
  have e1: "fire_all fire e1 x = x" for x
    using r by (auto simp: session_refresh_def Let_def fire_all_publish fire_all_def[of _ "[]"] split: if_splits prod.splits)
  let ?c2 = "c1\<lparr>ca_user := ca_session_user c, ca_method := CALLER_DTMF_LOGIN\<rparr>"
  have "ca_cor_assert create cancel env c t =
      (?c2, t1, e1 @ Ev_identified (ca_session_user c) CALLER_DTMF_LOGIN # publish_session_snapshot env ?c2)"
    using assms(2,3) r f0 f1 by (simp add: ca_cor_assert_def c0_def[symmetric] fire_identified_def Let_def)
  from this[unfolded assms(1)] have "c' = ?c2 \<and> es = e1 @ Ev_identified (ca_session_user c) CALLER_DTMF_LOGIN # publish_session_snapshot env ?c2"
    unfolding prod.inject by blast
  then have c': "c' = ?c2" and es: "es = e1 @ Ev_identified (ca_session_user c) CALLER_DTMF_LOGIN # publish_session_snapshot env ?c2"
    by blast+
  show "ca_user c' = ca_session_user c \<and> ca_session_user c' = ca_session_user c" unfolding c' using f1 by simp
  show "fire_all fire es s = fire \<lparr>e_type = 18, e_timestamp_us = 0, e_payload = P_caller (ca_session_user c) CALLER_DTMF_LOGIN\<rparr> s"
    unfolding es fire_all_append e1 fire_all_identified fire_all_publish ..
qed

text \<open>The two handlers of a COR assert, on an idle closed repeater.\<close>

lemma rpt_handler:
  assumes "rp_state (st_rpt s) = RPT_IDLE" "rp_require_id (st_rpt s)"
  shows "\<exists>h t. station_run env fire H_rpt_cor_assert u e s =
     s\<lparr>st_rpt := (st_rpt s)\<lparr>rp_caller_identified := False, rp_debounce_timer := h\<rparr>, st_rpt_timers := t\<rparr>"
proof -
  obtain t tid where c: "timer_create (env_now_us (se_rpt env)) (cancel_if timer_cancel (st_rpt_timers s) (rp_debounce_timer (st_rpt s)))
      (if rp_cor_debounce_ms (st_rpt s) < 500 then 500 else rp_cor_debounce_ms (st_rpt s)) False (Some CB_debounce_expired) = (t, tid)"
    by (metis surj_pair)
  have "on_cor_assert timer_create timer_cancel (se_rpt env) (st_rpt s) (st_rpt_timers s) =
      ((st_rpt s)\<lparr>rp_caller_identified := False, rp_debounce_timer := tid\<rparr>, t, [])"
    using assms c by (cases "rp_cor_debounce_ms (st_rpt s) < 500") (simp_all add: on_cor_assert_def Let_def)
  then show ?thesis by (auto simp: station_run_def apply_rpt_def)
qed

lemma identified_event:
  assumes "b_initialized (st_bus s)" "b_subs (st_bus s) 18 = [(H_rpt_identified, ()), (H_co_identified, ())]"
  shows "fire_at st_bus (station_run env) now (Suc d) \<lparr>e_type = 18, e_timestamp_us = 0, e_payload = P_caller u m\<rparr> s =
     s\<lparr>st_rpt := (st_rpt s)\<lparr>rp_caller_identified := True\<rparr>, st_co := (st_co s)\<lparr>co_caller_id := u\<rparr>\<rparr>"
  using assms
  by (simp add: fire_subs[of s _ 18] evt_index_def station_run_def stamp_def on_caller_identified_def co_caller_identified_def)

lemma ca_handler:
  assumes "0 < ca_session_user (st_ca s)" "ca_user (st_ca s) \<noteq> ca_session_user (st_ca s)"
    and "b_initialized (st_bus s)" "b_subs (st_bus s) 18 = [(H_rpt_identified, ()), (H_co_identified, ())]"
  shows "\<exists>c t l. station_run env (fire_at st_bus (station_run env) now (Suc d)) H_ca_cor_assert u e s =
     s\<lparr>st_ca := c, st_ca_timers := t, st_log := l, st_rpt := (st_rpt s)\<lparr>rp_caller_identified := True\<rparr>,
       st_co := (st_co s)\<lparr>co_caller_id := ca_session_user (st_ca s)\<rparr>\<rparr> \<and> ca_user c = ca_session_user (st_ca s)"
proof -
  obtain c t es where o: "ca_cor_assert timer_create timer_cancel (se_ca env) (st_ca s) (st_ca_timers s) = (c, t, es)"
    by (metis prod_cases3)
  note i = cor_assert_identifies[OF o assms(1,2)]
  let ?s = "s\<lparr>st_ca := c, st_ca_timers := t, st_log := st_log s @ map Of_caller es\<rparr>"
  have "station_run env (fire_at st_bus (station_run env) now (Suc d)) H_ca_cor_assert u e s =
      fire_all (fire_at st_bus (station_run env) now (Suc d)) es ?s"
    by (simp add: station_run_def apply_ca_def o fire_all_def)
  also have "\<dots> = fire_at st_bus (station_run env) now (Suc d)
      \<lparr>e_type = 18, e_timestamp_us = 0, e_payload = P_caller (ca_session_user (st_ca s)) CALLER_DTMF_LOGIN\<rparr> ?s"
    by (rule i(2))
  also have "\<dots> = ?s\<lparr>st_rpt := (st_rpt ?s)\<lparr>rp_caller_identified := True\<rparr>, st_co := (st_co ?s)\<lparr>co_caller_id := ca_session_user (st_ca s)\<rparr>\<rparr>"
    by (rule identified_event) (use assms(3,4) in simp_all)
  finally show ?thesis using i(1) by (intro exI[of _ c] exI[of _ t] exI[of _ "st_log s @ map Of_caller es"]) simp
qed

text \<open>
  C23. Keying up while logged in, on a closed repeater, end to end over the event bus: after the COR
  assert the module holds the session's user as current caller in both load orders, and the
  courtesy tone knows the caller; but the repeater knows an identified caller only when it
  was loaded before the caller module (the order of the example configuration). Then the end
  of the debounce starts a session; in the other order the repeater's own COR handler wipes
  the identification it has just been given, and the end of the debounce denies access.
\<close>

theorem station_login_access:
  assumes "st_bus s = (if first then repeater_first else caller_first)"
    and "rp_state (st_rpt s) = RPT_IDLE" "rp_require_id (st_rpt s)"
    and "0 < ca_session_user (st_ca s)" "ca_user (st_ca s) \<noteq> ca_session_user (st_ca s)"
    and "s' = station_fire env \<lparr>e_type = 5, e_timestamp_us = 0, e_payload = No_payload\<rparr> s"
    and "debounce_expired timer_create renv (st_rpt s') t = (r, t', es)"
  shows "ca_user (st_ca s') = ca_session_user (st_ca s) \<and> co_caller_id (st_co s') = ca_session_user (st_ca s) \<and>
     rp_caller_identified (st_rpt s') = first \<and>
     (if first then rp_state r = RPT_RECEIVING
      else rp_state r = RPT_IDLE \<and>
           es = [if env_has_tts renv then Tts_speak ''Access denied.'' KERCHUNK_PRI_HIGH else Queue_tone 400 500 4000 KERCHUNK_PRI_HIGH])"
proof -
  have bus: "b_initialized (st_bus s)" "b_subs (st_bus s) 18 = [(H_rpt_identified, ()), (H_co_identified, ())]"
    "b_subs (st_bus s) 5 = (if first then [(H_rpt_cor_assert, ()), (H_ca_cor_assert, ())] else [(H_ca_cor_assert, ()), (H_rpt_cor_assert, ())])"
    using assms(1) subs_order by simp_all
  let ?now = "env_now_us (se_rpt env)" and ?evt = "\<lparr>e_type = 5, e_timestamp_us = 0, e_payload = No_payload\<rparr> :: payload event"
  let ?fire = "fire_at st_bus (station_run env) ?now (Suc 14)"
  have i5: "evt_index (e_type ?evt) = Some 5" by (simp add: evt_index_def)
  have "s' = fire_at st_bus (station_run env) ?now (Suc 15) ?evt s"
    using assms(6) by (simp add: station_fire_def evt_fire_def eval_nat_numeral)
  then have s': "s' = foldl (\<lambda>s (h, u). station_run env ?fire h u (stamp ?now ?evt) s) s (b_subs (st_bus s) 5)"
    using fire_subs[OF bus(1) i5 refl, of env ?now 15] by (simp add: eval_nat_numeral)
  obtain h t0 where r: "station_run env ?fire H_rpt_cor_assert () (stamp ?now ?evt) x =
      x\<lparr>st_rpt := (st_rpt x)\<lparr>rp_caller_identified := False, rp_debounce_timer := h x\<rparr>, st_rpt_timers := t0 x\<rparr>"
    if "rp_state (st_rpt x) = RPT_IDLE" "rp_require_id (st_rpt x)" for x
    using rpt_handler[of _ env ?fire "()" "stamp ?now ?evt"] by metis
  have f: "rp_state (st_rpt s') = RPT_IDLE \<and> rp_require_id (st_rpt s') \<and> rp_caller_identified (st_rpt s') = first \<and>
      ca_user (st_ca s') = ca_session_user (st_ca s) \<and> co_caller_id (st_co s') = ca_session_user (st_ca s)"
  proof (cases first)
    case True
    let ?x = "s\<lparr>st_rpt := (st_rpt s)\<lparr>rp_caller_identified := False, rp_debounce_timer := h s\<rparr>, st_rpt_timers := t0 s\<rparr>"
    have "s' = station_run env ?fire H_ca_cor_assert () (stamp ?now ?evt) ?x"
      using s' bus(3) True r[OF assms(2,3)] by simp
    with ca_handler[of ?x env ?now 14 "()" "stamp ?now ?evt"] assms(2-5) bus(1,2) True show ?thesis by auto
  next
    case False
    obtain c ct l where a: "station_run env ?fire H_ca_cor_assert () (stamp ?now ?evt) s =
       s\<lparr>st_ca := c, st_ca_timers := ct, st_log := l, st_rpt := (st_rpt s)\<lparr>rp_caller_identified := True\<rparr>,
         st_co := (st_co s)\<lparr>co_caller_id := ca_session_user (st_ca s)\<rparr>\<rparr>" "ca_user c = ca_session_user (st_ca s)"
      using ca_handler[OF assms(4,5) bus(1,2)] by blast
    let ?x = "s\<lparr>st_ca := c, st_ca_timers := ct, st_log := l, st_rpt := (st_rpt s)\<lparr>rp_caller_identified := True\<rparr>,
         st_co := (st_co s)\<lparr>co_caller_id := ca_session_user (st_ca s)\<rparr>\<rparr>"
    have "s' = station_run env ?fire H_rpt_cor_assert () (stamp ?now ?evt) ?x" using s' bus(3) False a(1) by simp
    with r[of ?x] assms(2,3) a(2) False show ?thesis by simp
  qed
  have "if first then rp_state r = RPT_RECEIVING
      else rp_state r = RPT_IDLE \<and>
           es = [if env_has_tts renv then Tts_speak ''Access denied.'' KERCHUNK_PRI_HIGH else Queue_tone 400 500 4000 KERCHUNK_PRI_HIGH]"
  proof (cases first)
    case True
    with assms(7) f show ?thesis
      by (cases "env_emergency renv") (auto simp: debounce_expired_def start_receiving_def change_state_def Let_def split: prod.splits)
  next
    case False
    with assms(7) f show ?thesis by (auto simp: debounce_expired_def Let_def)
  qed
  with f show ?thesis by simp
qed

theorem station_login_access_witness:
  "\<exists>s'. s' = station_fire \<lparr>se_rpt = \<lparr>env_now_us = 0, env_emergency = False, env_has_tts = True\<rparr>, se_ca = demo_caller_env 0, se_no_tail = False\<rparr>
       \<lparr>e_type = 5, e_timestamp_us = 0, e_payload = No_payload\<rparr>
       \<lparr>st_bus = caller_first, st_rpt = rpt_boot\<lparr>rp_require_id := True\<rparr>, st_rpt_timers = timer_init (CB_other 0),
         st_ca = caller_fresh\<lparr>ca_session_user := 7\<rparr>, st_ca_timers = timer_init (CB_caller_foreign 0), st_co = courtesy_boot, st_log = []\<rparr> \<and>
     ca_user (st_ca s') = 7 \<and> \<not> rp_caller_identified (st_rpt s')"
proof -
  let ?e = "\<lparr>se_rpt = \<lparr>env_now_us = 0, env_emergency = False, env_has_tts = True\<rparr>, se_ca = demo_caller_env 0, se_no_tail = False\<rparr>"
  let ?s = "\<lparr>st_bus = caller_first, st_rpt = rpt_boot\<lparr>rp_require_id := True\<rparr>, st_rpt_timers = timer_init (CB_other 0),
         st_ca = caller_fresh\<lparr>ca_session_user := 7\<rparr>, st_ca_timers = timer_init (CB_caller_foreign 0), st_co = courtesy_boot, st_log = []\<rparr>"
  define s' where "s' = station_fire ?e \<lparr>e_type = 5, e_timestamp_us = 0, e_payload = No_payload\<rparr> ?s"
  obtain r t' es where d: "debounce_expired timer_create \<lparr>env_now_us = 0, env_emergency = False, env_has_tts = True\<rparr> (st_rpt s') (timer_init (CB_other 0)) = (r, t', es)"
    by (metis prod_cases3)
  from station_login_access[of ?s False, OF _ _ _ _ _ s'_def d]
  have "ca_user (st_ca s') = 7 \<and> \<not> rp_caller_identified (st_rpt s')" by (simp add: rpt_boot_def caller_fresh_def)
  then show ?thesis by (intro exI[of _ s']) (simp only: s'_def simp_thms)
qed

end
