(* ===== verification/Ini_Edit.thy ===== *)
theory Ini_Edit
  imports Config_Props
begin

text \<open>
  The in-place edit of an INI file (\<open>src/kerchunk_ini_edit.c\<close>), which keeps the comments and the
  order of the sections it does not touch. Reading the file and the atomic write are I/O: the
  functions here are what is written for what was read.
\<close>

text \<open>\<open>memchr(s + i, '\n', len - i)\<close>\<close>

definition next_nl :: "string \<Rightarrow> nat \<Rightarrow> nat option" where
  "next_nl s i = (let k = i + length (takeWhile (\<lambda>c. c \<noteq> NL) (drop i s)) in if k < length s then Some k else None)"

definition header_at :: "string \<Rightarrow> string \<Rightarrow> nat \<Rightarrow> bool" where
  "header_at s section i \<longleftrightarrow>
     (let sl = length section
      in s ! i = CHR ''['' \<and> i + 1 + sl + 1 \<le> length s \<and> take sl (drop (i + 1) s) = section \<and>
         s ! (i + 1 + sl) = CHR '']'' \<and>
         (i + 1 + sl + 1 = length s \<or> s ! (i + 1 + sl + 1) = NL \<or> s ! (i + 1 + sl + 1) = CR))"

lemma next_nl_bounds: "next_nl s i = Some k \<Longrightarrow> i \<le> k \<and> k < length s"
  by (auto simp: next_nl_def Let_def split: if_splits)

function find_header_from :: "string \<Rightarrow> string \<Rightarrow> nat \<Rightarrow> nat option" where
  "find_header_from s section i =
     (if i < length s then
        (if header_at s section i then Some i
         else (case next_nl s i of None \<Rightarrow> None | Some k \<Rightarrow> find_header_from s section (Suc k)))
      else None)"
  by pat_completeness auto
termination by (relation "measure (\<lambda>(s, sec, i). length s - i)") (auto dest: next_nl_bounds)

definition find_section_header :: "string \<Rightarrow> string \<Rightarrow> nat option" where
  "find_section_header s section = find_header_from s section 0"

function next_bracket :: "string \<Rightarrow> nat \<Rightarrow> nat" where
  "next_bracket s i =
     (if i < length s then
        (if s ! i = CHR ''['' then i
         else (case next_nl s i of None \<Rightarrow> length s | Some k \<Rightarrow> next_bracket s (Suc k)))
      else length s)"
  by pat_completeness auto
termination by (relation "measure (\<lambda>(s, i). length s - i)") (auto dest: next_nl_bounds)

definition find_next_section_header :: "string \<Rightarrow> nat \<Rightarrow> nat" where
  "find_next_section_header s from =
     (case next_nl s from of None \<Rightarrow> length s | Some k \<Rightarrow> next_bracket s (Suc k))"

declare find_header_from.simps [simp del] next_bracket.simps [simp del]

definition section_text :: "string \<Rightarrow> string option \<Rightarrow> string" where
  "section_text section body = CHR ''['' # section @ [CHR '']'', NL] @ (case body of Some b \<Rightarrow> b | None \<Rightarrow> [])"

definition ini_replace_section :: "string \<Rightarrow> string \<Rightarrow> string option \<Rightarrow> string" where
  "ini_replace_section s section body =
     (case find_section_header s section of
        None \<Rightarrow>
          (let n = length s;
               pad = (if n \<ge> 2 \<and> s ! (n - 2) = NL \<and> s ! (n - 1) = NL then []
                      else if n \<ge> 1 \<and> s ! (n - 1) = NL then [NL] else [NL, NL])
           in s @ pad @ section_text section body)
      | Some hdr \<Rightarrow> take hdr s @ section_text section body @ drop (find_next_section_header s hdr) s)"

definition skip_blank :: "string \<Rightarrow> nat \<Rightarrow> nat" where
  "skip_blank s i = i + length (takeWhile (\<lambda>c. c = NL \<or> c = CR) (drop i s))"

definition ini_remove_section :: "string \<Rightarrow> string \<Rightarrow> string" where
  "ini_remove_section s section =
     (case find_section_header s section of
        None \<Rightarrow> s
      | Some hdr \<Rightarrow>
          (let end = skip_blank s (find_next_section_header s hdr);
               need_sep = (end < length s \<and> hdr > 0 \<and> s ! (hdr - 1) = NL)
           in take hdr s @ (if need_sep then [NL] else []) @ drop end s))"

subsection \<open>Lines\<close>

lemma next_nl_line: "NL \<notin> set l \<Longrightarrow> next_nl (a @ l @ NL # r) (length a) = Some (length a + length l)"
proof -
  assume "NL \<notin> set l"
  then have "\<And>c. c \<in> set l \<Longrightarrow> c \<noteq> NL" by blast
  then have "takeWhile (\<lambda>c. c \<noteq> NL) (l @ NL # r) = l" by (simp add: takeWhile_append)
  then show ?thesis by (simp add: next_nl_def)
qed

definition hdr_line :: "string \<Rightarrow> string" where
  "hdr_line section = CHR ''['' # section @ '']''"

lemma header_at_iff:
  assumes "i < length s"
  shows "header_at s section i \<longleftrightarrow> (\<exists>rest. drop i s = hdr_line section @ rest \<and> (rest = [] \<or> hd rest = NL \<or> hd rest = CR))"
proof -
  let ?n = "length section"
  let ?tail = "\<lambda>k. k = length s \<or> s ! k = NL \<or> s ! k = CR"
  have tail: "?tail k \<longleftrightarrow> drop k s = [] \<or> hd (drop k s) = NL \<or> hd (drop k s) = CR" if "k \<le> length s" for k
    using that by (cases "k = length s") (auto simp: hd_drop_conv_nth)
  show ?thesis
  proof
    assume h: "header_at s section i"
    let ?rest = "drop (i + 2 + ?n) s"
    have b: "i + 1 + ?n < length s" using h by (auto simp: header_at_def Let_def)
    have "drop i s = s ! i # drop (i + 1) s" using assms by (simp add: Cons_nth_drop_Suc)
    also have "drop (i + 1) s = take ?n (drop (i + 1) s) @ drop (i + 1 + ?n) s"
      by (metis append_take_drop_id drop_drop add.commute)
    also have "drop (i + 1 + ?n) s = s ! (i + 1 + ?n) # drop (i + 2 + ?n) s" using b by (simp add: Cons_nth_drop_Suc)
    finally have "drop i s = hdr_line section @ ?rest" using h by (simp add: header_at_def hdr_line_def Let_def)
    moreover have "?rest = [] \<or> hd ?rest = NL \<or> hd ?rest = CR"
      using h tail[of "i + 2 + ?n"] b by (auto simp: header_at_def Let_def)
    ultimately show "\<exists>rest. drop i s = hdr_line section @ rest \<and> (rest = [] \<or> hd rest = NL \<or> hd rest = CR)" by blast
  next
    assume "\<exists>rest. drop i s = hdr_line section @ rest \<and> (rest = [] \<or> hd rest = NL \<or> hd rest = CR)"
    then obtain rest where r: "drop i s = hdr_line section @ rest" "rest = [] \<or> hd rest = NL \<or> hd rest = CR" by blast
    have len: "length s = i + (2 + ?n) + length rest" using arg_cong[OF r(1), of length] assms by (simp add: hdr_line_def)
    have nth: "s ! (i + k) = (hdr_line section @ rest) ! k" for k using r(1) assms by (metis less_imp_le nth_drop)
    have "drop (i + 1) s = section @ '']'' @ rest" using r(1) by (metis hdr_line_def append_Cons append_assoc drop_Suc tl_drop list.sel(3) Suc_eq_plus1)
    then have "take ?n (drop (i + 1) s) = section" by simp
    moreover have "s ! i = CHR ''[''" using nth[of 0] by (simp add: hdr_line_def)
    moreover have "s ! (i + 1 + ?n) = CHR '']''" using nth[of "1 + ?n"] by (simp add: hdr_line_def nth_append add.assoc)
    moreover have "drop (i + 2 + ?n) s = rest"
    proof -
      have "drop (i + 2 + ?n) s = drop (2 + ?n) (drop i s)" by (simp add: add.commute add.left_commute)
      then show ?thesis unfolding r(1) by (simp add: hdr_line_def)
    qed
    then have "?tail (i + 2 + ?n)" using tail[of "i + 2 + ?n"] len r(2) by simp
    ultimately show "header_at s section i" using len by (simp add: header_at_def Let_def)
  qed
qed

text \<open>A line is taken for the header exactly if it is one, or one followed by a carriage return.\<close>

definition header_line :: "string \<Rightarrow> string \<Rightarrow> bool" where
  "header_line section l \<longleftrightarrow> l = hdr_line section \<or> (\<exists>x. l = hdr_line section @ CR # x)"

lemma header_at_line:
  assumes "NL \<notin> set l" "NL \<notin> set section"
  shows "header_at (a @ l @ NL # r) section (length a) \<longleftrightarrow> header_line section l"
proof -
  have "header_at (a @ l @ NL # r) section (length a) \<longleftrightarrow>
      (\<exists>rest. l @ NL # r = hdr_line section @ rest \<and> (rest = [] \<or> hd rest = NL \<or> hd rest = CR))"
    using header_at_iff[of "length a" "a @ l @ NL # r" "section"] by simp
  also have "\<dots> \<longleftrightarrow> header_line section l"
  proof
    assume "\<exists>rest. l @ NL # r = hdr_line section @ rest \<and> (rest = [] \<or> hd rest = NL \<or> hd rest = CR)"
    then obtain rest where e: "l @ NL # r = hdr_line section @ rest" "rest = [] \<or> hd rest = NL \<or> hd rest = CR" by blast
    have nl: "NL \<notin> set (hdr_line section)" using assms(2) by (simp add: hdr_line_def)
    from e(1) obtain us where "l = hdr_line section @ us \<and> us @ NL # r = rest \<or> l @ us = hdr_line section \<and> NL # r = us @ rest"
      by (auto simp: append_eq_append_conv2)
    moreover have "us = []" if "l @ us = hdr_line section" "NL # r = us @ rest"
    proof -
      have "NL \<notin> set us" using nl that(1) by (metis UnI2 set_append)
      with that(2) show ?thesis by (cases us) auto
    qed
    ultimately have "\<exists>us. l = hdr_line section @ us \<and> us @ NL # r = rest" by fastforce
    then obtain us where "l = hdr_line section @ us" "rest = us @ NL # r" by blast
    with e(2) assms(1) show "header_line section l" by (cases us) (auto simp: header_line_def)
  next
    assume "header_line section l"
    then show "\<exists>rest. l @ NL # r = hdr_line section @ rest \<and> (rest = [] \<or> hd rest = NL \<or> hd rest = CR)"
      by (auto simp: header_line_def)
  qed
  finally show ?thesis .
qed

lemma find_header_step:
  assumes "i < length s" "\<not> header_at s section i" "next_nl s i = Some k"
  shows "find_header_from s section i = find_header_from s section (Suc k)"
  by (subst find_header_from.simps) (simp add: assms)

lemma header_from_other_line:
  assumes "NL \<notin> set section" "NL \<notin> set l" "\<not> header_line section l"
  shows "find_header_from (a @ l @ NL # r) section (length a) =
         find_header_from ((a @ l @ [NL]) @ r) section (length (a @ l @ [NL]))"
proof -
  have "\<not> header_at (a @ l @ NL # r) section (length a)" using header_at_line[OF assms(2) assms(1)] assms(3) by blast
  with next_nl_line[OF assms(2), of a r] show ?thesis
    using find_header_step[of "length a" "a @ l @ NL # r" "section" "length a + length l"] by simp
qed

lemma header_from_found:
  assumes "NL \<notin> set section" "NL \<notin> set h" "header_line section h"
  shows "find_header_from (a @ h @ NL # r) section (length a) = Some (length a)"
  by (subst find_header_from.simps) (simp add: header_at_line[OF assms(2) assms(1)] assms(3))

lemma header_from_lines:
  assumes "NL \<notin> set section" "NL \<notin> set h" "header_line section h"
    "\<forall>l \<in> set pre. NL \<notin> set l \<and> \<not> header_line section l"
  shows "find_header_from (a @ unlines pre @ h @ NL # r) section (length a) = Some (length a + length (unlines pre))"
  using assms(4)
proof (induction pre arbitrary: a)
  case Nil
  then show ?case using header_from_found[OF assms(1-3)] by simp
next
  case (Cons l pre)
  then have l: "NL \<notin> set l" "\<not> header_line section l" and pre: "\<forall>l \<in> set pre. NL \<notin> set l \<and> \<not> header_line section l"
    by simp_all
  show ?case
    using header_from_other_line[OF assms(1) l, of a "unlines pre @ h @ NL # r"] Cons.IH[OF pre, of "a @ l @ [NL]"] by simp
qed

lemma header_from_no_lines:
  assumes "NL \<notin> set section" "\<forall>l \<in> set pre. NL \<notin> set l \<and> \<not> header_line section l"
  shows "find_header_from (a @ unlines pre) section (length a) = None"
  using assms(2)
proof (induction pre arbitrary: a)
  case Nil
  then show ?case by (simp add: find_header_from.simps)
next
  case (Cons l pre)
  then have l: "NL \<notin> set l" "\<not> header_line section l" and pre: "\<forall>l \<in> set pre. NL \<notin> set l \<and> \<not> header_line section l"
    by simp_all
  show ?case
    using header_from_other_line[OF assms(1) l, of a "unlines pre"] Cons.IH[OF pre, of "a @ l @ [NL]"] by simp
qed

definition bracket_line :: "string \<Rightarrow> bool" where
  "bracket_line l \<longleftrightarrow> (\<exists>x. l = CHR ''['' # x)"

lemma next_bracket_step:
  assumes "i < length s" "s ! i \<noteq> CHR ''[''" "next_nl s i = Some k"
  shows "next_bracket s i = next_bracket s (Suc k)"
  by (subst next_bracket.simps) (simp add: assms)

lemma next_bracket_lines:
  assumes "\<forall>l \<in> set sect. NL \<notin> set l \<and> \<not> bracket_line l" "post = [] \<or> (NL \<notin> set (hd post) \<and> bracket_line (hd post))"
  shows "next_bracket (a @ unlines sect @ unlines post) (length a) = length a + length (unlines sect)"
  using assms(1)
proof (induction sect arbitrary: a)
  case Nil
  show ?case
  proof (cases post)
    case Nil
    then show ?thesis by (simp add: next_bracket.simps)
  next
    case (Cons p ps)
    with assms(2) obtain x where "p = CHR ''['' # x" by (auto simp: bracket_line_def)
    with Cons show ?thesis by (simp add: next_bracket.simps)
  qed
next
  case (Cons l sect)
  let ?s = "a @ unlines (l # sect) @ unlines post"
  have s: "?s = a @ l @ NL # (unlines sect @ unlines post)" by simp
  have l: "NL \<notin> set l" "\<not> bracket_line l" using Cons.prems by simp_all
  have "?s ! length a \<noteq> CHR ''[''"
    using l by (cases l) (auto simp: nth_append bracket_line_def)
  moreover have "next_nl ?s (length a) = Some (length a + length l)" unfolding s by (rule next_nl_line[OF l(1)])
  ultimately have "next_bracket ?s (length a) = next_bracket ?s (Suc (length a + length l))"
    by (intro next_bracket_step) simp_all
  also have "\<dots> = next_bracket ((a @ l @ [NL]) @ unlines sect @ unlines post) (length (a @ l @ [NL]))" by simp
  also have "\<dots> = length (a @ l @ [NL]) + length (unlines sect)" by (rule Cons.IH) (use Cons.prems in simp)
  finally show ?case by simp
qed

text \<open>The file by lines: what is before the section, its lines, and what is after it.\<close>

definition has_section :: "string \<Rightarrow> string list \<Rightarrow> string \<Rightarrow> string list \<Rightarrow> string list \<Rightarrow> bool" where
  "has_section section pre h sect post \<longleftrightarrow> NL \<notin> set section \<and>
     (\<forall>l \<in> set pre. NL \<notin> set l \<and> \<not> header_line section l) \<and> NL \<notin> set h \<and> header_line section h \<and>
     (\<forall>l \<in> set sect. NL \<notin> set l \<and> \<not> bracket_line l) \<and> (post = [] \<or> (NL \<notin> set (hd post) \<and> bracket_line (hd post)))"

lemma found_section:
  assumes "has_section section pre h sect post"
  shows "find_section_header (unlines (pre @ h # sect @ post)) section = Some (length (unlines pre))"
    "find_next_section_header (unlines (pre @ h # sect @ post)) (length (unlines pre)) = length (unlines (pre @ h # sect))"
proof -
  from assms have a: "NL \<notin> set section" "\<forall>l \<in> set pre. NL \<notin> set l \<and> \<not> header_line section l" "NL \<notin> set h" "header_line section h"
    "\<forall>l \<in> set sect. NL \<notin> set l \<and> \<not> bracket_line l" "post = [] \<or> (NL \<notin> set (hd post) \<and> bracket_line (hd post))"
    by (simp_all add: has_section_def)
  let ?s = "unlines (pre @ h # sect @ post)"
  show "find_section_header ?s section = Some (length (unlines pre))"
    using header_from_lines[OF a(1,3,4,2), of "[]" "unlines (sect @ post)"] by (simp add: find_section_header_def)
  have "next_nl ?s (length (unlines pre)) = Some (length (unlines pre) + length h)"
    using next_nl_line[OF a(3), of "unlines pre" "unlines (sect @ post)"] by simp
  then have "find_next_section_header ?s (length (unlines pre)) = next_bracket ?s (Suc (length (unlines pre) + length h))"
    by (simp add: find_next_section_header_def)
  also have "\<dots> = next_bracket ((unlines pre @ h @ [NL]) @ unlines sect @ unlines post) (length (unlines pre @ h @ [NL]))" by simp
  also have "\<dots> = length (unlines pre @ h @ [NL]) + length (unlines sect)" by (rule next_bracket_lines[OF a(5,6)])
  finally show "find_next_section_header ?s (length (unlines pre)) = length (unlines (pre @ h # sect))" by simp
qed

text \<open>
  Replacing a section changes exactly its lines: in a file of complete lines whose first header
  of that name is followed by lines that do not start with a bracket and then by the next
  header or the end, the replacement keeps every byte before the header and from the next
  header on, and puts the header and the given body between them. Doing it again with the
  same body changes nothing.
\<close>

theorem ini_replace_exact:
  assumes "has_section section pre h sect post"
    and "\<forall>l \<in> set body. NL \<notin> set l \<and> \<not> bracket_line l"
    and "out = ini_replace_section (unlines (pre @ h # sect @ post)) section (Some (unlines body))"
  shows "out = unlines (pre @ hdr_line section # body @ post) \<and>
         ini_replace_section out section (Some (unlines body)) = out"
proof -
  have eq: "ini_replace_section (unlines (pre @ h' # sect' @ post)) section (Some (unlines body)) =
      unlines (pre @ hdr_line section # body @ post)" if "has_section section pre h' sect' post" for h' sect'
  proof -
    have "drop (length (unlines (pre @ h' # sect'))) (unlines ((pre @ h' # sect') @ post)) = unlines post"
      unfolding unlines_simps(3)[of "pre @ h' # sect'"] by simp
    then show ?thesis using found_section[OF that]
      by (simp add: ini_replace_section_def section_text_def hdr_line_def)
  qed
  have o: "out = unlines (pre @ hdr_line section # body @ post)" using eq[OF assms(1)] assms(3) by simp
  have "has_section section pre (hdr_line section) body post"
    using assms(1,2) by (auto simp: has_section_def header_line_def hdr_line_def)
  from eq[OF this] o show ?thesis by simp
qed

theorem ini_replace_exact_witness:
  "ini_replace_section (unlines ([''x=1''] @ ''[s]'' # [''a=1''] @ [''[t]'', ''b=1''])) ''s'' (Some (unlines [''a=2'']))
     = unlines ([''x=1''] @ hdr_line ''s'' # [''a=2''] @ [''[t]'', ''b=1''])"
proof -
  have h: "has_section ''s'' [''x=1''] ''[s]'' [''a=1''] [''[t]'', ''b=1'']"
    by (simp add: has_section_def header_line_def hdr_line_def bracket_line_def)
  have b: "\<forall>l \<in> set [''a=2'']. NL \<notin> set l \<and> \<not> bracket_line l" by (simp add: bracket_line_def)
  from ini_replace_exact[OF h b refl] show ?thesis by blast
qed

text \<open>
  The editor and the parser disagree on what a header is: with a blank after the bracket the
  parser still reads the section, the editor appends a second one, and the lookup keeps
  finding the old value.
\<close>

theorem ini_edit_missed_header:
  "find_section_header (unlines [''[s] '', ''a=1'']) ''s'' = None \<and>
   map_option (\<lambda>cfg. config_get cfg ''s'' ''a'')
     (config_load ''f'' (Some (ini_replace_section (unlines [''[s] '', ''a=1'']) ''s'' (Some (unlines [''a=2''])))))
     = Some (Some ''1'')"
  by code_simp

end
