(* ===== verification/Refl_Config.thy ===== *)
theory Refl_Config
  imports Config_Props Hex "HOL-Library.Monad_Syntax"
begin

text \<open>
  The configuration of the reflector (\<open>src/reflectd/config.c\<close>): nodes and talkgroups read from the
  sections \<open>node.ID\<close> and \<open>talkgroup.N\<close> of an INI file, and the lookups. Arrays of \<open>n\<close> used
  entries are lists; talkgroup numbers are \<open>uint16_t\<close> as naturals.
\<close>

abbreviation RCFG_MAX_NODES :: nat where "RCFG_MAX_NODES \<equiv> 256"
abbreviation RCFG_MAX_TGS :: nat where "RCFG_MAX_TGS \<equiv> 64"
abbreviation RCFG_MAX_TGS_PER_NODE :: nat where "RCFG_MAX_TGS_PER_NODE \<equiv> 32"
abbreviation LINK_PSK_BYTES :: nat where "LINK_PSK_BYTES \<equiv> 32"

record rcfg_node =
  rn_id :: string
  rn_psk :: "byte list"
  rn_allowed :: "nat list"
  rn_default :: nat
  rn_banned :: bool

record rcfg_tg =
  rt_number :: nat
  rt_name :: string
  rt_members :: "nat list"

record rcfg =
  rc_listen_url :: string
  rc_tls_cert :: string
  rc_tls_key :: string
  rc_admin_user :: string
  rc_admin_password :: string
  rc_log_file :: string
  rc_dashboard_dir :: string
  rc_rtp_port :: int
  rc_rtp_host :: string
  rc_keepalive_s :: int
  rc_hangtime_ms :: int
  rc_min_version :: string
  rc_mute_threshold :: int
  rc_auth_fail_kick :: int
  rc_max_reconnects :: int
  rc_recording :: bool
  rc_recording_dir :: string
  rc_max_age_days :: int
  rc_nodes :: "rcfg_node list"
  rc_tgs :: "rcfg_tg list"

definition rcfg_zero :: rcfg where
  "rcfg_zero = \<lparr>rc_listen_url = [], rc_tls_cert = [], rc_tls_key = [], rc_admin_user = [], rc_admin_password = [],
     rc_log_file = [], rc_dashboard_dir = [], rc_rtp_port = 0, rc_rtp_host = [], rc_keepalive_s = 0, rc_hangtime_ms = 0,
     rc_min_version = [], rc_mute_threshold = 0, rc_auth_fail_kick = 0, rc_max_reconnects = 0, rc_recording = False,
     rc_recording_dir = [], rc_max_age_days = 0, rc_nodes = [], rc_tgs = []\<rparr>"

subsection \<open>Lookups\<close>

definition rcfg_node_idx :: "rcfg \<Rightarrow> string \<Rightarrow> nat option" where
  "rcfg_node_idx c name = find_idx (\<lambda>n. rn_id n = name) (rc_nodes c)"

definition rcfg_tg_idx :: "rcfg \<Rightarrow> nat \<Rightarrow> nat option" where
  "rcfg_tg_idx c number = find_idx (\<lambda>t. rt_number t = number) (rc_tgs c)"

definition rcfg_node_allowed_on_tg :: "rcfg \<Rightarrow> nat \<Rightarrow> nat \<Rightarrow> bool" where
  "rcfg_node_allowed_on_tg c n tg =
     (if n \<ge> length (rc_nodes c) then False
      else (case rcfg_tg_idx c tg of
              None \<Rightarrow> False
            | Some i \<Rightarrow> n \<in> set (rt_members (rc_tgs c ! i)) \<and> tg \<in> set (rn_allowed (rc_nodes c ! n))))"

subsection \<open>Loading\<close>

definition trim_unquote :: "string \<Rightarrow> string" where
  "trim_unquote s =
     (let t = trim s
      in if length t \<ge> 2 \<and> (hd t = CHR 0x22 \<and> last t = CHR 0x22 \<or> hd t = CHR 0x27 \<and> last t = CHR 0x27)
         then butlast (tl t) else t)"

text \<open>\<open>strtok_r\<close>: the non-empty pieces between commas.\<close>

fun pieces :: "char \<Rightarrow> string \<Rightarrow> string list" where
  "pieces x [] = [[]]"
| "pieces x (c # cs) =
     (if c = x then [] # pieces x cs
      else (case pieces x cs of p # ps \<Rightarrow> (c # p) # ps | [] \<Rightarrow> [[c]]))"

definition split_csv :: "nat \<Rightarrow> string \<Rightarrow> string list" where
  "split_csv m s = map trim_unquote (take m (filter (\<lambda>p. p \<noteq> []) (pieces CHR '','' s)))"

fun add_allowed :: "string list \<Rightarrow> nat list \<Rightarrow> nat list option" where
  "add_allowed [] tgs = Some tgs"
| "add_allowed (t # ts) tgs =
     (let v = atoi t in if v \<le> 0 \<or> v > 65535 then None else add_allowed ts (tgs @ [nat v]))"

definition add_default :: "nat \<Rightarrow> nat list \<Rightarrow> nat list" where
  "add_default d tgs =
     (if d \<noteq> 0 \<and> d \<notin> set tgs \<and> length tgs < RCFG_MAX_TGS_PER_NODE then tgs @ [d] else tgs)"

definition node_key :: "config \<Rightarrow> string \<Rightarrow> byte list option" where
  "node_key cfg section =
     do { h \<leftarrow> config_get cfg section ''preshared_key_hex'';
          if length h \<noteq> 2 * LINK_PSK_BYTES then None else hex_to_bytes h LINK_PSK_BYTES }"

definition node_tgs :: "config \<Rightarrow> string \<Rightarrow> nat list option" where
  "node_tgs cfg section =
     (case config_get cfg section ''allowed_tgs'' of
        Some a \<Rightarrow> add_allowed (split_csv RCFG_MAX_TGS_PER_NODE (c_trunc 256 a)) []
      | None \<Rightarrow> Some [])"

definition load_node :: "config \<Rightarrow> string \<Rightarrow> rcfg \<Rightarrow> rcfg option" where
  "load_node cfg section out =
     (if length (rc_nodes out) \<ge> RCFG_MAX_NODES then None
      else do { psk \<leftarrow> node_key cfg section;
                tgs \<leftarrow> node_tgs cfg section;
                let d = nat (config_get_int cfg section ''default_tg'' 0 mod 65536);
                Some (out\<lparr>rc_nodes := rc_nodes out @
                  [\<lparr>rn_id = c_trunc 64 (drop 5 section), rn_psk = psk, rn_allowed = add_default d tgs, rn_default = d,
                    rn_banned = (config_get_int cfg section ''banned'' 0 \<noteq> 0)\<rparr>]\<rparr>) })"

fun add_members :: "rcfg \<Rightarrow> string list \<Rightarrow> nat list \<Rightarrow> nat list option" where
  "add_members out [] ms = Some ms"
| "add_members out (t # ts) ms =
     (case rcfg_node_idx out t of None \<Rightarrow> None | Some i \<Rightarrow> add_members out ts (ms @ [i]))"

definition tg_members :: "config \<Rightarrow> string \<Rightarrow> rcfg \<Rightarrow> nat list option" where
  "tg_members cfg section out =
     (case config_get cfg section ''nodes'' of
        Some m \<Rightarrow> add_members out (split_csv RCFG_MAX_NODES (c_trunc 1024 m)) []
      | None \<Rightarrow> Some [])"

definition tg_name :: "config \<Rightarrow> string \<Rightarrow> string" where
  "tg_name cfg section =
     (case config_get cfg section ''name'' of Some n \<Rightarrow> c_trunc 64 (trim_unquote (c_trunc 64 n)) | None \<Rightarrow> [])"

definition load_tg :: "config \<Rightarrow> string \<Rightarrow> rcfg \<Rightarrow> rcfg option" where
  "load_tg cfg section out =
     (let v = atoi (drop 10 section)
      in if length (rc_tgs out) \<ge> RCFG_MAX_TGS \<or> v \<le> 0 \<or> v > 65535 then None
         else do { ms \<leftarrow> tg_members cfg section out;
                   Some (out\<lparr>rc_tgs := rc_tgs out @ [\<lparr>rt_number = nat v, rt_name = tg_name cfg section, rt_members = ms\<rparr>]\<rparr>) })"

definition is_yes :: "string option \<Rightarrow> bool" where
  "is_yes v \<longleftrightarrow> v \<in> {Some ''on'', Some ''true'', Some ''yes'', Some ''1''}"

definition or_text :: "nat \<Rightarrow> string option \<Rightarrow> string \<Rightarrow> string" where
  "or_text n v dflt = c_trunc n (case v of Some x \<Rightarrow> x | None \<Rightarrow> dflt)"

definition load_globals :: "config \<Rightarrow> rcfg \<Rightarrow> rcfg option" where
  "load_globals cfg out =
     (let get = config_get cfg ''reflector''; get_int = config_get_int cfg ''reflector'';
          out1 = out\<lparr>
            rc_listen_url := or_text 128 (get ''listen_url'') ''ws://0.0.0.0:8443'',
            rc_tls_cert := or_text 256 (get ''tls_cert'') (rc_tls_cert out),
            rc_tls_key := or_text 256 (get ''tls_key'') (rc_tls_key out),
            rc_admin_user := or_text 64 (get ''admin_user'') (rc_admin_user out),
            rc_admin_password := or_text 128 (get ''admin_password'') (rc_admin_password out),
            rc_log_file := or_text 256 (get ''log_file'') (rc_log_file out),
            rc_dashboard_dir := or_text 256 (get ''dashboard_dir'') ''/usr/share/kerchunk-reflectd/web'',
            rc_rtp_port := get_int ''rtp_port'' 7878,
            rc_rtp_host := or_text 64 (get ''rtp_advertise_host'') ''127.0.0.1'',
            rc_keepalive_s := get_int ''keepalive_s'' 15,
            rc_min_version := or_text 32 (get ''min_client_version'') [],
            rc_hangtime_ms := get_int ''hangtime_ms'' 1500,
            rc_mute_threshold := get_int ''mute_threshold_pct'' 15,
            rc_auth_fail_kick := get_int ''auth_fail_kick'' 200,
            rc_max_reconnects := get_int ''max_reconnects_per_node_per_min'' 6,
            rc_recording := is_yes (get ''recording_enabled''),
            rc_recording_dir := or_text 256 (get ''recording_dir'') ''/var/lib/kerchunk-reflectd/recordings'',
            rc_max_age_days := get_int ''recording_max_age_days'' 30\<rparr>
      in if (rc_tls_cert out1 \<noteq> []) \<noteq> (rc_tls_key out1 \<noteq> []) then None
         else if take 6 (rc_listen_url out1) = ''wss://'' \<and> rc_tls_cert out1 = [] then None
         else Some out1)"

text \<open>A pass over the sections with a prefix, in the order of \<open>kerchunk_config_next_section\<close>.\<close>

fun load_sections :: "(string \<Rightarrow> rcfg \<Rightarrow> rcfg option) \<Rightarrow> string \<Rightarrow> string list \<Rightarrow> rcfg \<Rightarrow> rcfg option" where
  "load_sections load prefix [] out = Some out"
| "load_sections load prefix (s # ss) out =
     (if take (length prefix) s = prefix
      then (case load s out of None \<Rightarrow> None | Some out1 \<Rightarrow> load_sections load prefix ss out1)
      else load_sections load prefix ss out)"

definition rcfg_load :: "config option \<Rightarrow> rcfg option" where
  "rcfg_load file =
     (case file of
        None \<Rightarrow> None
      | Some cfg \<Rightarrow>
          (let secs = sections_of {} (cfg_entries cfg)
           in case load_globals cfg rcfg_zero of
                None \<Rightarrow> None
              | Some o1 \<Rightarrow>
                  (case load_sections (load_node cfg) ''node.'' secs o1 of
                     None \<Rightarrow> None
                   | Some o2 \<Rightarrow>
                       (case load_sections (load_tg cfg) ''talkgroup.'' secs o2 of
                          None \<Rightarrow> None
                        | Some o3 \<Rightarrow> if rc_nodes o3 = [] \<or> rc_tgs o3 = [] then None else Some o3))))"

subsection \<open>Bounds of a loaded configuration\<close>

definition tg_number_ok :: "nat \<Rightarrow> bool" where
  "tg_number_ok t \<longleftrightarrow> 0 < t \<and> t < 65536"

definition rcfg_node_ok :: "rcfg_node \<Rightarrow> bool" where
  "rcfg_node_ok n \<longleftrightarrow> length (rn_id n) < 64 \<and> length (rn_psk n) = LINK_PSK_BYTES \<and> rn_default n < 65536 \<and>
     length (rn_allowed n) \<le> RCFG_MAX_TGS_PER_NODE \<and> (\<forall>t \<in> set (rn_allowed n). tg_number_ok t)"

definition rcfg_tg_ok :: "nat \<Rightarrow> rcfg_tg \<Rightarrow> bool" where
  "rcfg_tg_ok nodes t \<longleftrightarrow> tg_number_ok (rt_number t) \<and> length (rt_name t) < 64 \<and> length (rt_members t) \<le> RCFG_MAX_NODES \<and>
     (\<forall>m \<in> set (rt_members t). m < nodes)"

definition rcfg_ok :: "rcfg \<Rightarrow> bool" where
  "rcfg_ok c \<longleftrightarrow> length (rc_nodes c) \<le> RCFG_MAX_NODES \<and> length (rc_tgs c) \<le> RCFG_MAX_TGS \<and>
     (\<forall>n \<in> set (rc_nodes c). rcfg_node_ok n) \<and> (\<forall>t \<in> set (rc_tgs c). rcfg_tg_ok (length (rc_nodes c)) t)"

lemma add_allowed_ok:
  "add_allowed ts tgs = Some r \<Longrightarrow> \<forall>t \<in> set tgs. tg_number_ok t \<Longrightarrow>
     length r = length ts + length tgs \<and> (\<forall>t \<in> set r. tg_number_ok t)"
  by (induction ts tgs rule: add_allowed.induct) (auto simp: Let_def tg_number_ok_def split: if_splits)

lemma length_split_csv: "length (split_csv m s) \<le> m"
  by (simp add: split_csv_def)

lemma add_default_ok:
  "length tgs \<le> RCFG_MAX_TGS_PER_NODE \<Longrightarrow> \<forall>t \<in> set tgs. tg_number_ok t \<Longrightarrow> d < 65536 \<Longrightarrow>
     length (add_default d tgs) \<le> RCFG_MAX_TGS_PER_NODE \<and> (\<forall>t \<in> set (add_default d tgs). tg_number_ok t)"
  by (auto simp: add_default_def tg_number_ok_def)

lemma add_members_ok:
  "add_members out ts ms = Some r \<Longrightarrow> \<forall>m \<in> set ms. m < length (rc_nodes out) \<Longrightarrow>
     length r = length ts + length ms \<and> (\<forall>m \<in> set r. m < length (rc_nodes out))"
  by (induction out ts ms rule: add_members.induct)
    (auto simp: rcfg_node_idx_def dest: find_idx_less split: option.splits)

lemma node_key_length: "node_key cfg section = Some k \<Longrightarrow> length k = LINK_PSK_BYTES"
  by (auto simp: node_key_def bind_eq_Some_conv dest: hex_to_bytes_length split: if_splits)

lemma node_tgs_ok: "node_tgs cfg section = Some tgs \<Longrightarrow> length tgs \<le> RCFG_MAX_TGS_PER_NODE \<and> (\<forall>t \<in> set tgs. tg_number_ok t)"
  by (auto simp: node_tgs_def dest!: add_allowed_ok simp: length_split_csv split: option.splits)

lemma load_node_ok:
  assumes "load_node cfg section out = Some out'" "rcfg_ok out" "rc_tgs out = []"
  shows "rcfg_ok out' \<and> rc_tgs out' = []"
proof -
  let ?d = "nat (config_get_int cfg section ''default_tg'' 0 mod 65536)"
  from assms(1) obtain psk tgs where l: "length (rc_nodes out) < RCFG_MAX_NODES" "node_key cfg section = Some psk" "node_tgs cfg section = Some tgs"
    "out' = out\<lparr>rc_nodes := rc_nodes out @
       [\<lparr>rn_id = c_trunc 64 (drop 5 section), rn_psk = psk, rn_allowed = add_default ?d tgs, rn_default = ?d,
         rn_banned = (config_get_int cfg section ''banned'' 0 \<noteq> 0)\<rparr>]\<rparr>"
    by (auto simp: load_node_def Let_def bind_eq_Some_conv split: if_splits)
  have "?d < 65536" by (simp add: nat_less_iff)
  with add_default_ok[of tgs ?d] node_tgs_ok[OF l(3)] have
    "length (add_default ?d tgs) \<le> RCFG_MAX_TGS_PER_NODE \<and> (\<forall>t \<in> set (add_default ?d tgs). tg_number_ok t)" by blast
  with \<open>?d < 65536\<close> node_key_length[OF l(2)] length_c_trunc[of 64 "drop 5 section"] have
    "rcfg_node_ok \<lparr>rn_id = c_trunc 64 (drop 5 section), rn_psk = psk, rn_allowed = add_default ?d tgs, rn_default = ?d,
       rn_banned = (config_get_int cfg section ''banned'' 0 \<noteq> 0)\<rparr>"
    by (simp add: rcfg_node_ok_def)
  with l(1,4) assms(2,3) show ?thesis by (simp add: rcfg_ok_def)
qed

lemma tg_members_ok: "tg_members cfg section out = Some ms \<Longrightarrow> length ms \<le> RCFG_MAX_NODES \<and> (\<forall>m \<in> set ms. m < length (rc_nodes out))"
  by (auto simp: tg_members_def dest!: add_members_ok simp: length_split_csv split: option.splits)

lemma load_tg_ok:
  assumes "load_tg cfg section out = Some out'" "rcfg_ok out"
  shows "rcfg_ok out' \<and> rc_nodes out' = rc_nodes out"
proof -
  from assms(1) obtain ms where l: "length (rc_tgs out) < RCFG_MAX_TGS" "0 < atoi (drop 10 section)" "atoi (drop 10 section) \<le> 65535"
    "tg_members cfg section out = Some ms"
    "out' = out\<lparr>rc_tgs := rc_tgs out @ [\<lparr>rt_number = nat (atoi (drop 10 section)), rt_name = tg_name cfg section, rt_members = ms\<rparr>]\<rparr>"
    by (auto simp: load_tg_def Let_def bind_eq_Some_conv split: if_splits)
  have "length (tg_name cfg section) < 64" using length_c_trunc[of 64] by (simp add: tg_name_def split: option.split)
  with l(2,3) tg_members_ok[OF l(4)] have
    "rcfg_tg_ok (length (rc_nodes out)) \<lparr>rt_number = nat (atoi (drop 10 section)), rt_name = tg_name cfg section, rt_members = ms\<rparr>"
    by (simp add: rcfg_tg_ok_def tg_number_ok_def nat_less_iff)
  with l(1,5) assms(2) show ?thesis by (simp add: rcfg_ok_def)
qed

lemma load_nodes_ok:
  "load_sections (load_node cfg) prefix ss out = Some out' \<Longrightarrow> rcfg_ok out \<Longrightarrow> rc_tgs out = [] \<Longrightarrow> rcfg_ok out' \<and> rc_tgs out' = []"
  by (induction "load_node cfg" prefix ss out rule: load_sections.induct)
    (auto dest: load_node_ok split: if_splits option.splits)

lemma load_tgs_ok:
  "load_sections (load_tg cfg) prefix ss out = Some out' \<Longrightarrow> rcfg_ok out \<Longrightarrow> rcfg_ok out'"
  by (induction "load_tg cfg" prefix ss out rule: load_sections.induct)
    (auto dest: load_tg_ok split: if_splits option.splits)

lemma load_globals_keeps: "load_globals cfg out = Some out' \<Longrightarrow> rc_nodes out' = rc_nodes out \<and> rc_tgs out' = rc_tgs out"
  by (auto simp: load_globals_def Let_def split: if_splits)

text \<open>
  A configuration that loads is within the bounds of its arrays: at most 256 nodes with 32
  talkgroups each and 64 talkgroups, neither empty, every key of 32 bytes, every number of a
  talkgroup between 1 and 65535, and every member of a talkgroup an index of a node.
\<close>

theorem rcfg_load_bounds:
  assumes "rcfg_load file = Some c"
  shows "rcfg_ok c \<and> rc_nodes c \<noteq> [] \<and> rc_tgs c \<noteq> []"
proof -
  from assms obtain cfg o1 o2 where l: "load_globals cfg rcfg_zero = Some o1"
    "load_sections (load_node cfg) ''node.'' (sections_of {} (cfg_entries cfg)) o1 = Some o2"
    "load_sections (load_tg cfg) ''talkgroup.'' (sections_of {} (cfg_entries cfg)) o2 = Some c"
    "rc_nodes c \<noteq> []" "rc_tgs c \<noteq> []"
    by (auto simp: rcfg_load_def Let_def split: option.splits if_splits)
  have "rcfg_ok o1 \<and> rc_tgs o1 = []" using load_globals_keeps[OF l(1)] by (simp add: rcfg_ok_def rcfg_zero_def)
  with load_nodes_ok[OF l(2)] load_tgs_ok[OF l(3)] l(4,5) show ?thesis by blast
qed

definition demo_rcfg_file :: config where
  "demo_rcfg_file = \<lparr>cfg_entries =
     [\<lparr>ce_section = ''node.A'', ce_key = ''preshared_key_hex'', ce_value = replicate 64 CHR ''a''\<rparr>,
      \<lparr>ce_section = ''node.A'', ce_key = ''allowed_tgs'', ce_value = ''1, 2''\<rparr>,
      \<lparr>ce_section = ''talkgroup.1'', ce_key = ''nodes'', ce_value = ''A''\<rparr>], cfg_path = []\<rparr>"

theorem rcfg_load_bounds_witness:
  "\<exists>c. rcfg_load (Some demo_rcfg_file) = Some c \<and> rcfg_ok c \<and> rc_nodes c \<noteq> []"
proof -
  have "rcfg_load (Some demo_rcfg_file) \<noteq> None" by code_simp
  then obtain c where "rcfg_load (Some demo_rcfg_file) = Some c" by blast
  with rcfg_load_bounds[OF this] show ?thesis by blast
qed

end
