(* ===== verification/Reflector.thy ===== *)
theory Reflector
  imports Refl_Config Complex_Main
begin

text \<open>
  The reflector (\<open>src/reflectd/main.c\<close>, with the per-node audio state of
  \<open>src/reflectd/audio.c\<close>): nodes log in over a websocket with a challenge, join a talkgroup, and the
  audio of one talker at a time is forwarded to the others of the talkgroup under a floor
  lease. The runtime arrays are parallel to the arrays of the configuration, so they are
  functions of the index. What is sent is a list of effects; messages are their fields, not
  their JSON text. HMAC, SRTP and random numbers are parameters and inputs. A double of the
  code is a rational number here.
\<close>

abbreviation LINK_NONCE_BYTES :: nat where "LINK_NONCE_BYTES \<equiv> 16"
abbreviation LINK_HMAC_BYTES :: nat where "LINK_HMAC_BYTES \<equiv> 32"
abbreviation LINK_MAX_MSG :: nat where "LINK_MAX_MSG \<equiv> 1024"
abbreviation LINK_SRTP_KEY_BYTES :: nat where "LINK_SRTP_KEY_BYTES \<equiv> 16"
abbreviation LINK_SRTP_SALT_BYTES :: nat where "LINK_SRTP_SALT_BYTES \<equiv> 14"
abbreviation RTP_MAX_PACKET :: nat where "RTP_MAX_PACKET \<equiv> 1500"
abbreviation BOOTSTRAP_PT :: byte where "BOOTSTRAP_PT \<equiv> 99"

subsection \<open>Messages and state\<close>

datatype rmsg =
    M_hello "byte list" string
  | M_login_ok string nat int int "string \<times> int" "byte list \<times> byte list" "32 word \<times> 32 word" string
  | M_login_denied string string
  | M_kicked string string
  | M_mute string int
  | M_unmute
  | M_tg_ok nat string
  | M_tg_denied int string
  | M_talker nat "string option" int
  | M_floor_denied nat string
  | M_floor_revoked nat string
  | M_tg_roster nat string
  | M_tg_membership nat "nat option"
  | M_ping int
  | M_pong int
  | M_target_bitrate int
  | M_shutdown int
  | M_error string string

datatype reff =
    Rf_send nat rmsg
  | Rf_udp nat "byte list"
  | Rf_rec_start nat nat
  | Rf_rec_end nat
  | Rf_rec_append nat "byte list"

text \<open>What an SRTP session of libsrtp is created with: the source it is for and the master key with the salt.\<close>

record srtp_session =
  ss_ssrc :: "32 word"
  ss_key :: "byte list"

record audio_node =
  an_addr :: "nat option"
  an_ssrc :: "32 word"
  an_refl_ssrc :: "32 word"
  an_master :: "byte list"
  an_in :: srtp_session
  an_out :: srtp_session
  an_out_seq :: "16 word"
  an_out_ts :: "32 word"

record node_rt =
  nr_connected :: bool
  nr_c :: "nat option"
  nr_tg :: nat
  nr_audio :: "audio_node option"
  nr_denied_ms :: int
  nr_srtp_window :: int
  nr_srtp_fails :: int
  nr_muted :: bool
  nr_mute_reason :: string
  nr_connected_at :: int
  nr_last_pkt :: int
  nr_rtp_in :: nat
  nr_rtp_out :: nat
  nr_bytes_in :: nat
  nr_bytes_out :: nat
  nr_floor_holds :: nat
  nr_floor_ms :: int
  nr_floor_started :: int
  nr_last_loss :: rat
  nr_last_quality :: int
  nr_loss_hist :: "rat list"
  nr_loss_n :: nat
  nr_version :: string

record tg_rt =
  tr_talker :: "nat option"
  tr_lease :: int
  tr_rec :: bool

datatype conn_state = CST_AWAITING_LOGIN | CST_AUTHENTICATED

record rconn =
  cn_state :: conn_state
  cn_challenge :: "byte list"
  cn_node :: "nat option"
  cn_last_traffic :: int
  cn_last_ping :: int
  cn_waiting_pong :: bool
  cn_bad_window :: int
  cn_bad_count :: int
  cn_closing :: bool
  cn_draining :: bool

text \<open>\<open>rf_order\<close> is the connection list of the event loop, the newest first.\<close>

record refl =
  rf_cfg :: rcfg
  rf_node :: "nat \<Rightarrow> node_rt"
  rf_tg :: "nat \<Rightarrow> tg_rt"
  rf_conn :: "nat \<Rightarrow> rconn option"
  rf_order :: "nat list"
  rf_reloads :: nat

text \<open>
  The clocks at one call (the monotonic one in milliseconds, the other in seconds), read as one
  instant, and whether a recording that is started gets its file.
\<close>

record renv =
  en_now :: int
  en_epoch :: int
  en_rec :: bool

definition upd_node :: "nat \<Rightarrow> (node_rt \<Rightarrow> node_rt) \<Rightarrow> refl \<Rightarrow> refl" where
  "upd_node n f s = s\<lparr>rf_node := (rf_node s)(n := f (rf_node s n))\<rparr>"

definition upd_tg :: "nat \<Rightarrow> (tg_rt \<Rightarrow> tg_rt) \<Rightarrow> refl \<Rightarrow> refl" where
  "upd_tg i f s = s\<lparr>rf_tg := (rf_tg s)(i := f (rf_tg s i))\<rparr>"

definition upd_conn :: "nat \<Rightarrow> (rconn \<Rightarrow> rconn) \<Rightarrow> refl \<Rightarrow> refl" where
  "upd_conn c f s = s\<lparr>rf_conn := (rf_conn s)(c := map_option f (rf_conn s c))\<rparr>"

type_synonym rop = "refl \<Rightarrow> refl \<times> reff list"

text \<open>One operation after another, and an operation for each element of a list.\<close>

definition then_op :: "rop \<Rightarrow> rop \<Rightarrow> rop" where
  "then_op f g s = (let (s1, e1) = f s; (s2, e2) = g s1 in (s2, e1 @ e2))"

definition do_nothing :: rop where "do_nothing s = (s, [])"

definition just :: "(refl \<Rightarrow> refl) \<Rightarrow> rop" where "just f s = (f s, [])"

definition tell :: "(refl \<Rightarrow> reff list) \<Rightarrow> rop" where "tell f s = (s, f s)"

fun each :: "('a \<Rightarrow> rop) \<Rightarrow> 'a list \<Rightarrow> rop" where
  "each f [] = do_nothing"
| "each f (x # xs) = then_op (f x) (each f xs)"

definition send :: "nat \<Rightarrow> rmsg \<Rightarrow> rop" where
  "send c m s = (s, [Rf_send c m])"

definition send_close :: "nat \<Rightarrow> rmsg \<Rightarrow> rop" where
  "send_close c m s = (upd_conn c (\<lambda>x. x\<lparr>cn_draining := True\<rparr>) s, [Rf_send c m])"

text \<open>To the websocket of a node, if it is connected.\<close>

definition to_node :: "nat \<Rightarrow> rmsg \<Rightarrow> refl \<Rightarrow> reff list" where
  "to_node n m s =
     (case nr_c (rf_node s n) of Some c \<Rightarrow> if nr_connected (rf_node s n) then [Rf_send c m] else [] | None \<Rightarrow> [])"

definition tg_members_of :: "nat \<Rightarrow> refl \<Rightarrow> nat list" where
  "tg_members_of i s = rt_members (rc_tgs (rf_cfg s) ! i)"

definition to_tg :: "nat \<Rightarrow> rmsg \<Rightarrow> refl \<Rightarrow> reff list" where
  "to_tg i m s = concat (map (\<lambda>p. to_node p m s) (tg_members_of i s))"

definition node_name :: "refl \<Rightarrow> nat \<Rightarrow> string" where
  "node_name s n = rn_id (rc_nodes (rf_cfg s) ! n)"

definition tg_number :: "refl \<Rightarrow> nat \<Rightarrow> nat" where
  "tg_number s i = rt_number (rc_tgs (rf_cfg s) ! i)"

subsection \<open>The roster\<close>

text \<open>\<open>off\<close> is what \<open>snprintf\<close> would have written, the text what is in the buffer.\<close>

definition member_json :: "bool \<Rightarrow> string \<Rightarrow> bool \<Rightarrow> string" where
  "member_json first name con =
     (if first then [] else '','') @ ''{'' @ [CHR 0x22] @ ''id'' @ [CHR 0x22] @ '':'' @ [CHR 0x22] @ name @ [CHR 0x22] @ '','' @
     [CHR 0x22] @ ''connected'' @ [CHR 0x22] @ '':'' @ (if con then ''true'' else ''false'') @ ''}''"

fun members_loop :: "nat \<Rightarrow> (string \<times> bool) list \<Rightarrow> bool \<Rightarrow> nat \<times> string \<Rightarrow> nat \<times> string" where
  "members_loop mx [] first (off, out) = (off, out)"
| "members_loop mx ((name, con) # ms) first (off, out) =
     (if off + 80 < mx
      then members_loop mx ms False (off + length (member_json first name con), out @ take (mx - off - 1) (member_json first name con))
      else (off, out))"

definition members_text :: "nat \<Rightarrow> (string \<times> bool) list \<Rightarrow> string" where
  "members_text mx ms =
     (let (off, out) = members_loop mx ms True (1, ''['') in if off < mx then out @ '']'' else out)"

definition build_tg_members_json :: "nat \<Rightarrow> refl \<Rightarrow> string" where
  "build_tg_members_json i s =
     members_text 512 (map (\<lambda>p. (node_name s p, nr_connected (rf_node s p))) (tg_members_of i s))"

definition broadcast_tg_roster :: "nat \<Rightarrow> rop" where
  "broadcast_tg_roster i = tell (\<lambda>s. to_tg i (M_tg_roster (tg_number s i) (build_tg_members_json i s)) s)"

subsection \<open>Floor control\<close>

definition broadcast_talker :: "renv \<Rightarrow> nat \<Rightarrow> nat option \<Rightarrow> refl \<Rightarrow> reff list" where
  "broadcast_talker env i talker s =
     to_tg i (M_talker (tg_number s i) (map_option (node_name s) talker) (en_epoch env)) s"

definition floor_try_grant :: "renv \<Rightarrow> nat \<Rightarrow> nat \<Rightarrow> refl \<Rightarrow> bool \<times> refl \<times> reff list" where
  "floor_try_grant env i n s =
     (let t = rf_tg s i; now = en_now env
      in if tr_talker t \<noteq> None \<and> tr_talker t \<noteq> Some n \<and> now < tr_lease t then (False, s, [])
         else (let s1 = upd_tg i (\<lambda>t. t\<lparr>tr_talker := Some n, tr_lease := now + rc_hangtime_ms (rf_cfg s)\<rparr>) s
               in if tr_talker t = Some n then (True, s1, [])
                  else (True,
                        upd_node n (\<lambda>r. r\<lparr>nr_floor_holds := nr_floor_holds r + 1, nr_floor_started := now\<rparr>)
                          (upd_tg i (\<lambda>t. t\<lparr>tr_rec := en_rec env\<rparr>) s1),
                        broadcast_talker env i (Some n) s1 @ (if tr_rec t then [Rf_rec_end i] else []) @ [Rf_rec_start i n])))"

text \<open>The airtime of the holder, in milliseconds, before the floor is cleared.\<close>

definition tally_airtime :: "renv \<Rightarrow> node_rt \<Rightarrow> node_rt" where
  "tally_airtime env r =
     (if nr_floor_started r > 0
      then r\<lparr>nr_floor_ms := nr_floor_ms r + max 0 (en_now env - nr_floor_started r), nr_floor_started := 0\<rparr>
      else r)"

definition floor_release :: "renv \<Rightarrow> nat \<Rightarrow> string option \<Rightarrow> rop" where
  "floor_release env i reason s =
     (case tr_talker (rf_tg s i) of
        None \<Rightarrow> (s, [])
      | Some h \<Rightarrow>
          (let s1 = upd_tg i (\<lambda>t. t\<lparr>tr_talker := None, tr_lease := 0, tr_rec := False\<rparr>) (upd_node h (tally_airtime env) s)
           in (s1, (if tr_rec (rf_tg s i) then [Rf_rec_end i] else []) @ broadcast_talker env i None s1 @
                   (case reason of Some r \<Rightarrow> to_node h (M_floor_revoked (tg_number s1 i) r) s1 | None \<Rightarrow> []))))"

definition floor_tick_one :: "renv \<Rightarrow> nat \<Rightarrow> rop" where
  "floor_tick_one env i s =
     (if tr_talker (rf_tg s i) \<noteq> None \<and> tr_lease (rf_tg s i) \<le> en_now env
      then floor_release env i (Some ''lease_expired'') s else (s, []))"

definition floor_tick :: "renv \<Rightarrow> rop" where
  "floor_tick env s = each (floor_tick_one env) [0..<length (rc_tgs (rf_cfg s))] s"

definition floor_denied_msg :: "nat \<Rightarrow> refl \<Rightarrow> rmsg" where
  "floor_denied_msg i s =
     M_floor_denied (tg_number s i) (case tr_talker (rf_tg s i) of Some h \<Rightarrow> node_name s h | None \<Rightarrow> ''?'')"

subsection \<open>Connections\<close>

definition keepalive_one :: "renv \<Rightarrow> nat \<Rightarrow> rop" where
  "keepalive_one env c s =
     (case rf_conn s c of
        None \<Rightarrow> (s, [])
      | Some x \<Rightarrow>
          (let kalive = rc_keepalive_s (rf_cfg s) * 1000
           in if cn_closing x \<or> cn_draining x \<or> cn_state x \<noteq> CST_AUTHENTICATED then (s, [])
              else if cn_waiting_pong x
              then (if en_now env - cn_last_ping x > kalive then (upd_conn c (\<lambda>x. x\<lparr>cn_closing := True\<rparr>) s, []) else (s, []))
              else if en_now env - cn_last_traffic x > kalive
              then (upd_conn c (\<lambda>x. x\<lparr>cn_last_ping := en_now env, cn_waiting_pong := True\<rparr>) s, [Rf_send c (M_ping (en_now env))])
              else (s, [])))"

definition keepalive_tick :: "renv \<Rightarrow> rop" where
  "keepalive_tick env s = each (keepalive_one env) (rf_order s) s"

definition broadcast_shutdown :: "int \<Rightarrow> rop" where
  "broadcast_shutdown n s =
     each (\<lambda>c s. case rf_conn s c of
              None \<Rightarrow> (s, [])
            | Some x \<Rightarrow> (upd_conn c (\<lambda>x. x\<lparr>cn_draining := True\<rparr>) s,
                          if cn_state x = CST_AUTHENTICATED then [Rf_send c (M_shutdown n)] else []))
       (rf_order s) s"

text \<open>
  A new websocket: \<open>chal\<close> is what the random number generator gave, None its failure.
\<close>

definition new_conn :: rconn where
  "new_conn = \<lparr>cn_state = CST_AWAITING_LOGIN, cn_challenge = replicate 16 0, cn_node = None, cn_last_traffic = 0, cn_last_ping = 0,
     cn_waiting_pong = False, cn_bad_window = 0, cn_bad_count = 0, cn_closing = False, cn_draining = False\<rparr>"

definition send_hello :: "renv \<Rightarrow> nat \<Rightarrow> byte list option \<Rightarrow> rop" where
  "send_hello env c chal =
     (case chal of
        None \<Rightarrow> send_close c (M_error ''internal'' ''RAND_bytes'')
      | Some b \<Rightarrow>
          (\<lambda>s. (upd_conn c (\<lambda>x. x\<lparr>cn_challenge := b, cn_state := CST_AWAITING_LOGIN, cn_last_traffic := en_now env\<rparr>) s,
                [Rf_send c (M_hello b (rc_min_version (rf_cfg s)))])))"

definition ws_open :: "renv \<Rightarrow> nat \<Rightarrow> byte list option \<Rightarrow> rop" where
  "ws_open env c chal s = send_hello env c chal (s\<lparr>rf_conn := (rf_conn s)(c \<mapsto> new_conn), rf_order := c # rf_order s\<rparr>)"

subsection \<open>Login\<close>

text \<open>\<open>strcmp\<close>, and the comparison of versions without their common prefix.\<close>

fun strcmp :: "string \<Rightarrow> string \<Rightarrow> int" where
  "strcmp [] [] = 0"
| "strcmp [] (d # ds) = - 1"
| "strcmp (c # cs) [] = 1"
| "strcmp (c # cs) (d # ds) = (if c = d then strcmp cs ds else if ascii c < ascii d then - 1 else 1)"

definition strip_product :: "string \<Rightarrow> string" where
  "strip_product v = (if take 9 v = ''kerchunk '' then drop 9 v else v)"

definition version_at_least :: "string option \<Rightarrow> string \<Rightarrow> int" where
  "version_at_least client mn =
     (if mn = [] then 0
      else (case client of None \<Rightarrow> - 1 | Some v \<Rightarrow> strcmp (strip_product v) (strip_product mn)))"

text \<open>\<open>hmac key data\<close> is the digest, None its failure; the comparison takes constant time in the code.\<close>

definition verify_login_hmac :: "(byte list \<Rightarrow> byte list \<Rightarrow> byte list option) \<Rightarrow> byte list \<Rightarrow> byte list \<Rightarrow> byte list \<Rightarrow> byte list \<Rightarrow> bool" where
  "verify_login_hmac hmac psk challenge nonce claimed =
     (case hmac psk (challenge @ nonce) of
        None \<Rightarrow> False | Some d \<Rightarrow> length d = LINK_HMAC_BYTES \<and> d = claimed)"

record login_msg =
  lg_node :: "string option"
  lg_hmac :: "string option"
  lg_nonce :: "string option"
  lg_version :: "string option"

text \<open>The random material of a session; None when a source of it fails, or the setup of SRTP.\<close>

record session_rand =
  sr_key :: "byte list"
  sr_salt :: "byte list"
  sr_ssrc :: "32 word"
  sr_refl_ssrc :: "32 word"
  sr_audio :: "(16 word \<times> 32 word) option"

definition initial_tg :: "rcfg_node \<Rightarrow> nat" where
  "initial_tg n = (if rn_default n = 0 \<and> rn_allowed n \<noteq> [] then hd (rn_allowed n) else rn_default n)"

text \<open>The node that a login is for, or the error of the denial.\<close>

definition check_login :: "(byte list \<Rightarrow> byte list \<Rightarrow> byte list option) \<Rightarrow> byte list \<Rightarrow> login_msg \<Rightarrow> refl \<Rightarrow> (string \<times> string) + nat" where
  "check_login hmac challenge m s =
     (case (lg_node m, lg_hmac m, lg_nonce m) of
        (Some name, Some mac, Some nonce) \<Rightarrow>
          (case rcfg_node_idx (rf_cfg s) name of
             None \<Rightarrow> Inl (''unknown_node'', ''no such node'')
           | Some idx \<Rightarrow>
               (let node = rc_nodes (rf_cfg s) ! idx
                in if rn_banned node then Inl (''banned'', ''operator-banned'')
                   else if nr_connected (rf_node s idx) then Inl (''node_busy'', ''already connected'')
                   else if version_at_least (lg_version m) (rc_min_version (rf_cfg s)) < 0
                   then Inl (''version_mismatch'', ''client below min_client_version'')
                   else (case (if length nonce = 2 * LINK_NONCE_BYTES then hex_to_bytes nonce LINK_NONCE_BYTES else None,
                               if length mac = 2 * LINK_HMAC_BYTES then hex_to_bytes mac LINK_HMAC_BYTES else None) of
                           (Some nb, Some mb) \<Rightarrow>
                             if \<not> verify_login_hmac hmac (rn_psk node) challenge nb mb then Inl (''bad_key'', ''HMAC mismatch'')
                             else if \<not> rcfg_node_allowed_on_tg (rf_cfg s) idx (initial_tg node)
                             then Inl (''not_authorized'', ''no usable default talkgroup'')
                             else Inr idx
                         | _ \<Rightarrow> Inl (''protocol_error'', ''bad nonce/hmac''))))
      | _ \<Rightarrow> Inl (''protocol_error'', ''missing field''))"

text \<open>The runtime state of a node that logs in: its lifetime counters start again, its mute flag does not.\<close>

definition logged_in :: "renv \<Rightarrow> nat \<Rightarrow> nat \<Rightarrow> audio_node \<Rightarrow> string option \<Rightarrow> node_rt \<Rightarrow> node_rt" where
  "logged_in env c tg an version r =
     r\<lparr>nr_connected := True, nr_c := Some c, nr_tg := tg, nr_audio := Some an, nr_connected_at := en_epoch env,
       nr_last_pkt := en_now env, nr_rtp_in := 0, nr_rtp_out := 0, nr_bytes_in := 0, nr_bytes_out := 0, nr_floor_holds := 0,
       nr_floor_ms := 0, nr_last_loss := 0, nr_loss_n := 0, nr_loss_hist := [0, 0, 0], nr_mute_reason := [],
       nr_version := c_trunc 32 (case version of Some v \<Rightarrow> v | None \<Rightarrow> [])\<rparr>"

definition login_members :: "nat \<Rightarrow> refl \<Rightarrow> string" where
  "login_members tg s = (case rcfg_tg_idx (rf_cfg s) tg of Some i \<Rightarrow> build_tg_members_json i s | None \<Rightarrow> ''[]'')"

text \<open>
  The audio state of a node: the master key with the salt goes into the session that opens the node's packets and into the one that
  seals those to the node. \<open>start\<close> is the first sequence number and time stamp, None the failure of an allocation or of SRTP.
\<close>

definition audio_node_create :: "byte list \<Rightarrow> byte list \<Rightarrow> 32 word \<Rightarrow> 32 word \<Rightarrow> (16 word \<times> 32 word) option \<Rightarrow> audio_node option" where
  "audio_node_create key salt node_ssrc refl_ssrc start =
     (let master = take LINK_SRTP_KEY_BYTES key @ take LINK_SRTP_SALT_BYTES salt
      in case start of
           None \<Rightarrow> None
         | Some (sq, ts) \<Rightarrow>
             Some \<lparr>an_addr = None, an_ssrc = node_ssrc, an_refl_ssrc = refl_ssrc, an_master = master,
                   an_in = \<lparr>ss_ssrc = node_ssrc, ss_key = master\<rparr>, an_out = \<lparr>ss_ssrc = refl_ssrc, ss_key = master\<rparr>,
                   an_out_seq = sq, an_out_ts = ts\<rparr>)"

definition handle_login ::
  "(byte list \<Rightarrow> byte list \<Rightarrow> byte list option) \<Rightarrow> renv \<Rightarrow> session_rand option \<Rightarrow> nat \<Rightarrow> login_msg \<Rightarrow> rop" where
  "handle_login hmac env rnd c m s =
     (case rf_conn s c of
        None \<Rightarrow> (s, [])
      | Some x \<Rightarrow>
          (case check_login hmac (cn_challenge x) m s of
             Inl (code, msg) \<Rightarrow> send_close c (M_login_denied code msg) s
           | Inr idx \<Rightarrow>
               (case rnd of
                  None \<Rightarrow> send_close c (M_login_denied ''internal'' ''RAND_bytes'') s
                | Some r \<Rightarrow>
                    (case audio_node_create (sr_key r) (sr_salt r) (sr_ssrc r) (sr_refl_ssrc r) (sr_audio r) of
                       None \<Rightarrow> send_close c (M_login_denied ''internal'' ''srtp setup'') s
                     | Some an \<Rightarrow>
                         (let cfg = rf_cfg s; tg = initial_tg (rc_nodes cfg ! idx);
                              s1 = upd_node idx (logged_in env c tg an (lg_version m))
                                     (upd_conn c (\<lambda>x. x\<lparr>cn_state := CST_AUTHENTICATED, cn_node := Some idx\<rparr>) s);
                              ok = Rf_send c (M_login_ok (case lg_node m of Some n \<Rightarrow> n | None \<Rightarrow> []) tg (rc_keepalive_s cfg) (rc_hangtime_ms cfg)
                                      (rc_rtp_host cfg, rc_rtp_port cfg) (sr_key r, sr_salt r) (sr_ssrc r, sr_refl_ssrc r) (login_members tg s1))
                          in (s1, ok # (case rcfg_tg_idx cfg tg of Some i \<Rightarrow> snd (broadcast_tg_roster i s1) | None \<Rightarrow> [])))))))"

subsection \<open>Messages of a node\<close>

definition release_if_holder :: "renv \<Rightarrow> nat \<Rightarrow> nat \<Rightarrow> rop" where
  "release_if_holder env n i s = (if tr_talker (rf_tg s i) = Some n then floor_release env i None s else (s, []))"

definition for_tg :: "nat \<Rightarrow> (nat \<Rightarrow> rop) \<Rightarrow> rop" where
  "for_tg tg f s = (case rcfg_tg_idx (rf_cfg s) tg of Some i \<Rightarrow> f i s | None \<Rightarrow> (s, []))"

definition handle_set_tg :: "renv \<Rightarrow> nat \<Rightarrow> nat \<Rightarrow> int \<Rightarrow> rop" where
  "handle_set_tg env c n tg_l s =
     (if tg_l \<le> 0 \<or> tg_l > 65535 then send c (M_tg_denied tg_l ''protocol_error'') s
      else (let tg = nat tg_l; old = nr_tg (rf_node s n)
            in case rcfg_tg_idx (rf_cfg s) tg of
                 None \<Rightarrow> send c (M_tg_denied tg_l ''unknown_tg'') s
               | Some i \<Rightarrow>
                   if \<not> rcfg_node_allowed_on_tg (rf_cfg s) n tg then send c (M_tg_denied tg_l ''not_authorized'') s
                   else then_op (if old \<noteq> 0 \<and> old \<noteq> tg then for_tg old (release_if_holder env n) else do_nothing)
                       (then_op (just (upd_node n (\<lambda>r. r\<lparr>nr_tg := tg\<rparr>)))
                       (then_op (tell (\<lambda>s. [Rf_send c (M_tg_ok tg (rt_name (rc_tgs (rf_cfg s) ! i)))]))
                       (then_op (if old \<noteq> 0 \<and> old \<noteq> tg then for_tg old broadcast_tg_roster else do_nothing)
                         (broadcast_tg_roster i)))) s))"

definition simulate_talk_start :: "renv \<Rightarrow> nat \<Rightarrow> nat \<Rightarrow> rop" where
  "simulate_talk_start env c n s =
     for_tg (nr_tg (rf_node s n))
       (\<lambda>i s. let (ok, s1, es) = floor_try_grant env i n s in (s1, if ok then es else [Rf_send c (floor_denied_msg i s)])) s"

definition simulate_talk_end :: "renv \<Rightarrow> nat \<Rightarrow> rop" where
  "simulate_talk_end env n s = for_tg (nr_tg (rf_node s n)) (release_if_holder env n) s"

text \<open>The quality report: a history of three, two of which above the threshold mute the node.\<close>

definition record_loss :: "renv \<Rightarrow> rat \<Rightarrow> node_rt \<Rightarrow> node_rt" where
  "record_loss env loss r =
     r\<lparr>nr_last_loss := loss, nr_last_quality := en_epoch env, nr_loss_hist := tl (nr_loss_hist r) @ [loss],
       nr_loss_n := (if nr_loss_n r < 6 then nr_loss_n r + 1 else nr_loss_n r)\<rparr>"

definition trips :: "int \<Rightarrow> node_rt \<Rightarrow> bool" where
  "trips threshold r \<longleftrightarrow>
     \<not> nr_muted r \<and> nr_loss_n r \<ge> 3 \<and> length (filter (\<lambda>l. l > of_int threshold) (nr_loss_hist r)) \<ge> 2"

definition handle_quality :: "renv \<Rightarrow> nat \<Rightarrow> nat \<Rightarrow> rat \<Rightarrow> rop" where
  "handle_quality env c n loss =
     then_op (just (upd_node n (record_loss env loss)))
    (then_op (\<lambda>s. if trips (rc_mute_threshold (rf_cfg s)) (rf_node s n)
                   then (upd_node n (\<lambda>r. r\<lparr>nr_muted := True, nr_mute_reason := ''loss_too_high''\<rparr>) s, [Rf_send c (M_mute ''loss_too_high'' 60)])
                   else (s, []))
       (\<lambda>s. for_tg (nr_tg (rf_node s n)) (\<lambda>i. tell (to_tg i (M_target_bitrate (if loss > 5 then 24000 else 32000)))) s))"

text \<open>A message by its type; without one it is malformed.\<close>

datatype in_msg = In_untyped | In_login login_msg | In_ping int | In_set_tg int | In_pong | In_quality rat
  | In_talk_start | In_talk_end | In_other

definition count_bad :: "renv \<Rightarrow> rconn \<Rightarrow> rconn" where
  "count_bad env x =
     (let x1 = (if en_now env - cn_bad_window x > 60000 then x\<lparr>cn_bad_window := en_now env, cn_bad_count := 0\<rparr> else x)
      in x1\<lparr>cn_bad_count := cn_bad_count x1 + 1\<rparr>)"

definition handle_untyped :: "renv \<Rightarrow> nat \<Rightarrow> rop" where
  "handle_untyped env c s =
     (let s1 = upd_conn c (count_bad env) s
      in case rf_conn s1 c of
           None \<Rightarrow> (s1, [])
         | Some x \<Rightarrow> if cn_bad_count x > 3 then send_close c (M_kicked ''protocol_error'' ''too many malformed messages'') s1
                     else send c (M_error ''protocol_error'' ''no type'') s1)"

definition handle_typed ::
  "(byte list \<Rightarrow> byte list \<Rightarrow> byte list option) \<Rightarrow> renv \<Rightarrow> session_rand option \<Rightarrow> nat \<Rightarrow> rconn \<Rightarrow> in_msg \<Rightarrow> rop" where
  "handle_typed hmac env rnd c x m s =
     (case m of
        In_login l \<Rightarrow>
          if cn_state x \<noteq> CST_AWAITING_LOGIN then send_close c (M_login_denied ''protocol_error'' ''duplicate login'') s
          else handle_login hmac env rnd c l s
      | _ \<Rightarrow>
          (case (cn_state x, cn_node x) of
             (CST_AUTHENTICATED, Some n) \<Rightarrow>
               (case m of
                  In_ping sq \<Rightarrow> send c (M_pong sq) s
                | In_set_tg tg \<Rightarrow> handle_set_tg env c n tg s
                | In_quality loss \<Rightarrow> handle_quality env c n loss s
                | In_talk_start \<Rightarrow> simulate_talk_start env c n s
                | In_talk_end \<Rightarrow> simulate_talk_end env n s
                | _ \<Rightarrow> (s, []))
           | _ \<Rightarrow> send_close c (M_error ''protocol_error'' ''not authed'') s))"

definition handle_message ::
  "(byte list \<Rightarrow> byte list \<Rightarrow> byte list option) \<Rightarrow> renv \<Rightarrow> session_rand option \<Rightarrow> nat \<Rightarrow> in_msg \<Rightarrow> rop" where
  "handle_message hmac env rnd c m s =
     (let s1 = upd_conn c (\<lambda>x. x\<lparr>cn_last_traffic := en_now env, cn_waiting_pong := False\<rparr>) s
      in case rf_conn s1 c of
           None \<Rightarrow> (s, [])
         | Some x \<Rightarrow> (case m of In_untyped \<Rightarrow> handle_untyped env c s1 | _ \<Rightarrow> handle_typed hmac env rnd c x m s1))"

text \<open>A websocket message of that many bytes.\<close>

definition ws_msg ::
  "(byte list \<Rightarrow> byte list \<Rightarrow> byte list option) \<Rightarrow> renv \<Rightarrow> session_rand option \<Rightarrow> nat \<Rightarrow> nat \<Rightarrow> in_msg \<Rightarrow> rop" where
  "ws_msg hmac env rnd c len m s =
     (if rf_conn s c = None then (s, [])
      else if len > LINK_MAX_MSG then send_close c (M_error ''protocol_error'' ''too long'') s
      else handle_message hmac env rnd c m s)"

definition logged_out :: "node_rt \<Rightarrow> node_rt" where
  "logged_out r = r\<lparr>nr_audio := None, nr_connected := False, nr_c := None, nr_connected_at := 0, nr_muted := False, nr_mute_reason := []\<rparr>"

definition drop_conn :: "nat \<Rightarrow> refl \<Rightarrow> refl" where
  "drop_conn c s = s\<lparr>rf_conn := (rf_conn s)(c := None), rf_order := remove1 c (rf_order s)\<rparr>"

definition ws_close :: "renv \<Rightarrow> nat \<Rightarrow> rop" where
  "ws_close env c s =
     (case rf_conn s c of
        None \<Rightarrow> (s, [])
      | Some x \<Rightarrow>
          then_op (case cn_node x of
                     None \<Rightarrow> do_nothing
                   | Some n \<Rightarrow>
                       then_op (\<lambda>s. each (release_if_holder env n) [0..<length (rc_tgs (rf_cfg s))] s)
                      (then_op (just (upd_node n logged_out))
                               (\<lambda>s. for_tg (nr_tg (rf_node s n)) broadcast_tg_roster s)))
                  (just (drop_conn c)) s)"

subsection \<open>Administration\<close>

text \<open>The node actions of the HTTP interface, with the status of the reply.\<close>

datatype admin_action = A_kick "string option" | A_mute int | A_unmute

definition kick_node :: "nat \<Rightarrow> string \<Rightarrow> string \<Rightarrow> rop" where
  "kick_node n code msg s = (case nr_c (rf_node s n) of Some c \<Rightarrow> send_close c (M_kicked code msg) s | None \<Rightarrow> (s, []))"

definition admin_node_action :: "string option \<Rightarrow> admin_action \<Rightarrow> refl \<Rightarrow> int \<times> refl \<times> reff list" where
  "admin_node_action node act s =
     (case node of
        None \<Rightarrow> (400, s, [])
      | Some name \<Rightarrow>
          (case rcfg_node_idx (rf_cfg s) name of
             None \<Rightarrow> (404, s, [])
           | Some n \<Rightarrow>
               (200, case act of
                  A_kick reason \<Rightarrow> kick_node n ''admin_action'' (case reason of Some r \<Rightarrow> r | None \<Rightarrow> ''operator kick'') s
                | A_mute retry \<Rightarrow>
                    (let s1 = upd_node n (\<lambda>r. r\<lparr>nr_muted := True, nr_mute_reason := ''admin_action''\<rparr>) s
                     in (s1, case nr_c (rf_node s n) of Some c \<Rightarrow> [Rf_send c (M_mute ''admin_action'' retry)] | None \<Rightarrow> []))
                | A_unmute \<Rightarrow>
                    (let s1 = upd_node n (\<lambda>r. r\<lparr>nr_muted := False, nr_mute_reason := []\<rparr>) s
                     in (s1, case nr_c (rf_node s n) of Some c \<Rightarrow> [Rf_send c M_unmute] | None \<Rightarrow> [])))))"

definition admin_release_floor :: "renv \<Rightarrow> int \<Rightarrow> refl \<Rightarrow> int \<times> refl \<times> reff list" where
  "admin_release_floor env tg s =
     (case rcfg_tg_idx (rf_cfg s) (nat (tg mod 65536)) of
        None \<Rightarrow> (404, s, [])
      | Some i \<Rightarrow> (200, floor_release env i (Some ''admin_action'') s))"

subsection \<open>Audio\<close>

definition be16 :: "16 word \<Rightarrow> byte list" where
  "be16 w = [ucast (drop_bit 8 w), ucast w]"

definition be32 :: "32 word \<Rightarrow> byte list" where
  "be32 w = [ucast (drop_bit 24 w), ucast (drop_bit 16 w), ucast (drop_bit 8 w), ucast w]"

definition rewrite_header :: "audio_node \<Rightarrow> byte list \<Rightarrow> byte list" where
  "rewrite_header a pkt = take 2 pkt @ be16 (an_out_seq a) @ be32 (an_out_ts a) @ be32 (an_refl_ssrc a) @ drop 12 pkt"

text \<open>\<open>ok\<close>: protecting and sending the packet succeeded.\<close>

definition audio_node_send_to :: "bool \<Rightarrow> byte list \<Rightarrow> audio_node \<Rightarrow> audio_node \<times> byte list option" where
  "audio_node_send_to ok pkt a =
     (if an_addr a = None \<or> length pkt < 12 \<or> length pkt > RTP_MAX_PACKET then (a, None)
      else (a\<lparr>an_out_seq := an_out_seq a + 1, an_out_ts := an_out_ts a + 2880\<rparr>,
            if ok then Some (rewrite_header a pkt) else None))"

text \<open>
  A datagram: its length, its source, the outcome of opening it in the session of a node (the
  plain packet, or None), and whether sending on to a node works.
\<close>

record datagram =
  dg_header_ok :: bool
  dg_len :: nat
  dg_src :: nat
  dg_open :: "nat \<Rightarrow> byte list option"
  dg_send_ok :: "nat \<Rightarrow> bool"

definition find_sender :: "datagram \<Rightarrow> refl \<Rightarrow> nat option" where
  "find_sender d s =
     find (\<lambda>n. nr_connected (rf_node s n) \<and> nr_audio (rf_node s n) \<noteq> None \<and> dg_open d n \<noteq> None) [0..<length (rc_nodes (rf_cfg s))]"

definition count_auth_fail :: "renv \<Rightarrow> node_rt \<Rightarrow> node_rt" where
  "count_auth_fail env r =
     (let r1 = (if en_now env - nr_srtp_window r > 30000 then r\<lparr>nr_srtp_window := en_now env, nr_srtp_fails := 0\<rparr> else r)
      in r1\<lparr>nr_srtp_fails := nr_srtp_fails r1 + 1\<rparr>)"

definition auth_failed :: "renv \<Rightarrow> datagram \<Rightarrow> rop" where
  "auth_failed env d s =
     (case find (\<lambda>n. nr_connected (rf_node s n) \<and> (case nr_audio (rf_node s n) of Some a \<Rightarrow> an_addr a = Some (dg_src d) | None \<Rightarrow> False))
             [0..<length (rc_nodes (rf_cfg s))] of
        None \<Rightarrow> (s, [])
      | Some n \<Rightarrow>
          (let s1 = upd_node n (count_auth_fail env) s
           in if nr_srtp_fails (rf_node s1 n) > rc_auth_fail_kick (rf_cfg s)
              then kick_node n ''auth_failures'' ''SRTP authentication failure threshold'' s1 else (s1, [])))"

definition forward_to :: "datagram \<Rightarrow> byte list \<Rightarrow> nat \<Rightarrow> nat \<Rightarrow> rop" where
  "forward_to d pkt sender p s =
     (let r = rf_node s p
      in if p = sender \<or> \<not> nr_connected r then (s, [])
         else (case nr_audio r of
                 None \<Rightarrow> (s, [])
               | Some a \<Rightarrow>
                   (let (a1, out) = audio_node_send_to (dg_send_ok d p) pkt a; s1 = upd_node p (\<lambda>r. r\<lparr>nr_audio := Some a1\<rparr>) s
                    in case out of
                         None \<Rightarrow> (s1, [])
                       | Some b \<Rightarrow> (upd_node p (\<lambda>r. r\<lparr>nr_rtp_out := nr_rtp_out r + 1, nr_bytes_out := nr_bytes_out r + length pkt\<rparr>) s1,
                                    [Rf_udp p b]))))"

definition deny_floor :: "renv \<Rightarrow> nat \<Rightarrow> nat \<Rightarrow> rop" where
  "deny_floor env i n s =
     (if en_now env - nr_denied_ms (rf_node s n) \<ge> 500
      then (upd_node n (\<lambda>r. r\<lparr>nr_denied_ms := en_now env\<rparr>) s,
            case nr_c (rf_node s n) of Some c \<Rightarrow> [Rf_send c (floor_denied_msg i s)] | None \<Rightarrow> [])
      else (s, []))"

text \<open>An audio packet of a node on talkgroup \<open>i\<close>.\<close>

definition talk :: "renv \<Rightarrow> datagram \<Rightarrow> byte list \<Rightarrow> nat \<Rightarrow> nat \<Rightarrow> rop" where
  "talk env d pkt n i s =
     (let (ok, s1, es) = floor_try_grant env i n s
      in if \<not> ok then deny_floor env i n s1
         else then_op (tell (\<lambda>s. es @ (if tr_rec (rf_tg s i) \<and> length pkt > 12 then [Rf_rec_append i (drop 12 pkt)] else [])))
             (then_op (just (upd_node n (\<lambda>r. r\<lparr>nr_rtp_in := nr_rtp_in r + 1, nr_bytes_in := nr_bytes_in r + dg_len d, nr_last_pkt := en_now env\<rparr>)))
                (\<lambda>s. each (forward_to d pkt n) (tg_members_of i s) s)) s1)"

definition learn_addr :: "nat \<Rightarrow> node_rt \<Rightarrow> node_rt" where
  "learn_addr src r = r\<lparr>nr_audio := map_option (\<lambda>a. a\<lparr>an_addr := Some src\<rparr>) (nr_audio r)\<rparr>"

definition is_bootstrap :: "byte list \<Rightarrow> bool" where
  "is_bootstrap pkt \<longleftrightarrow> length pkt \<ge> 12 \<and> take_bit 7 (pkt ! 1) = BOOTSTRAP_PT"

definition audio_packet :: "renv \<Rightarrow> datagram \<Rightarrow> rop" where
  "audio_packet env d s =
     (if \<not> dg_header_ok d then (s, [])
      else (case find_sender d s of
              None \<Rightarrow> auth_failed env d s
            | Some n \<Rightarrow>
                (let pkt = the (dg_open d n); s1 = upd_node n (learn_addr (dg_src d)) s
                 in if nr_muted (rf_node s1 n) \<or> is_bootstrap pkt then (s1, [])
                    else for_tg (nr_tg (rf_node s1 n)) (talk env d pkt n) s1)))"

subsection \<open>Reload, and the main loop\<close>

text \<open>What a reload does to the node of an index; the runtime arrays stay where they are.\<close>

definition reload_node :: "rcfg \<Rightarrow> nat \<Rightarrow> rop" where
  "reload_node new n s =
     (let r = rf_node s n
      in if \<not> nr_connected r then (s, [])
         else (case rcfg_node_idx new (node_name s n) of
                 None \<Rightarrow> kick_node n ''config_reload'' ''node removed from config'' s
               | Some m \<Rightarrow>
                   if rcfg_node_allowed_on_tg new m (nr_tg r) then (s, [])
                   else (let tg = initial_tg (rc_nodes new ! m)
                         in (upd_node n (\<lambda>r. r\<lparr>nr_tg := tg\<rparr>) s,
                             case nr_c r of Some c \<Rightarrow> [Rf_send c (M_tg_membership (nr_tg r) (if tg = 0 then None else Some tg))] | None \<Rightarrow> []))))"

definition do_reload :: "rcfg option \<Rightarrow> rop" where
  "do_reload newcfg s =
     (case newcfg of
        None \<Rightarrow> (s, [])
      | Some new \<Rightarrow>
          then_op (each (reload_node new) [0..<length (rc_nodes (rf_cfg s))])
                  (just (\<lambda>s. s\<lparr>rf_cfg := new, rf_reloads := rf_reloads s + 1\<rparr>)) s)"

text \<open>The static arrays: zeroed, but for the talkgroups of the first configuration.\<close>

definition node_boot :: node_rt where
  "node_boot = \<lparr>nr_connected = False, nr_c = None, nr_tg = 0, nr_audio = None, nr_denied_ms = 0, nr_srtp_window = 0, nr_srtp_fails = 0,
     nr_muted = False, nr_mute_reason = [], nr_connected_at = 0, nr_last_pkt = 0, nr_rtp_in = 0, nr_rtp_out = 0, nr_bytes_in = 0,
     nr_bytes_out = 0, nr_floor_holds = 0, nr_floor_ms = 0, nr_floor_started = 0, nr_last_loss = 0, nr_last_quality = 0,
     nr_loss_hist = [0, 0, 0], nr_loss_n = 0, nr_version = []\<rparr>"

definition refl_boot :: "rcfg \<Rightarrow> refl" where
  "refl_boot cfg = \<lparr>rf_cfg = cfg, rf_node = (\<lambda>_. node_boot),
     rf_tg = (\<lambda>i. \<lparr>tr_talker = (if i < length (rc_tgs cfg) then None else Some 0), tr_lease = 0, tr_rec = False\<rparr>),
     rf_conn = (\<lambda>_. None), rf_order = [], rf_reloads = 0\<rparr>"

text \<open>The inputs of the event loop.\<close>

datatype rinput =
    I_open nat "byte list option"
  | I_msg nat "session_rand option" nat in_msg
  | I_close nat
  | I_packet datagram
  | I_floor_tick
  | I_keepalive
  | I_admin "string option" admin_action
  | I_release int

fun refl_step :: "(byte list \<Rightarrow> byte list \<Rightarrow> byte list option) \<Rightarrow> renv \<times> rinput \<Rightarrow> rop" where
  "refl_step hmac (env, I_open c chal) s = ws_open env c chal s"
| "refl_step hmac (env, I_msg c rnd len m) s = ws_msg hmac env rnd c len m s"
| "refl_step hmac (env, I_close c) s = ws_close env c s"
| "refl_step hmac (env, I_packet d) s = audio_packet env d s"
| "refl_step hmac (env, I_floor_tick) s = floor_tick env s"
| "refl_step hmac (env, I_keepalive) s = keepalive_tick env s"
| "refl_step hmac (env, I_admin node act) s = snd (admin_node_action node act s)"
| "refl_step hmac (env, I_release tg) s = snd (admin_release_floor env tg s)"

end
