(* ===== verification/Link_Ring.thy ===== *)
theory Link_Ring
  imports Prelude "HOL-Library.Word"
begin

text \<open>
  The ring between the audio thread and the background thread of the link module
  (\<open>modules/mod_link.c\<close>): two seconds of samples under two 32-bit positions that are kept below
  the size of the ring. Each position is written by one thread; an operation is modelled as
  it runs between two operations of the other thread.
\<close>

abbreviation LINK_RING_SAMPLES :: nat where "LINK_RING_SAMPLES \<equiv> 96000"
abbreviation LINK_FRAME_48K :: nat where "LINK_FRAME_48K \<equiv> 2880"

record link_ring =
  lr_buf :: "int list"
  lr_w :: "32 word"
  lr_r :: "32 word"

definition lr_avail_read :: "link_ring \<Rightarrow> nat" where
  "lr_avail_read q = unat ((lr_w q - lr_r q) mod of_nat LINK_RING_SAMPLES)"

definition lr_avail_write :: "link_ring \<Rightarrow> nat" where
  "lr_avail_write q = LINK_RING_SAMPLES - 1 - lr_avail_read q"

definition lr_index :: "32 word \<Rightarrow> nat \<Rightarrow> nat" where
  "lr_index p i = (unat p + i) mod LINK_RING_SAMPLES"

definition lr_write :: "int list \<Rightarrow> link_ring \<Rightarrow> link_ring" where
  "lr_write src q =
     q\<lparr>lr_buf := foldl (\<lambda>b i. b[lr_index (lr_w q) i := src ! i]) (lr_buf q) [0..<length src],
       lr_w := of_nat (lr_index (lr_w q) (length src))\<rparr>"

definition lr_read :: "nat \<Rightarrow> link_ring \<Rightarrow> int list \<times> link_ring" where
  "lr_read n q =
     (let m = (if n > lr_avail_read q then lr_avail_read q else n)
      in (map (\<lambda>i. lr_buf q ! lr_index (lr_r q) i) [0..<m], q\<lparr>lr_r := of_nat (lr_index (lr_r q) m)\<rparr>))"

text \<open>Dropping everything unread.\<close>

definition lr_flush :: "link_ring \<Rightarrow> link_ring" where
  "lr_flush q = q\<lparr>lr_r := lr_w q\<rparr>"

text \<open>The frames that one pass takes out of the ring; the fuel bounds the loop.\<close>

fun lr_frames :: "nat \<Rightarrow> link_ring \<Rightarrow> int list list \<times> link_ring" where
  "lr_frames 0 q = ([], q)"
| "lr_frames (Suc k) q =
     (if lr_avail_read q \<ge> LINK_FRAME_48K
      then (let (f, q1) = lr_read LINK_FRAME_48K q; (fs, q2) = lr_frames k q1
            in (if length f = LINK_FRAME_48K then f # fs else fs, q2))
      else ([], q))"

text \<open>Halving the rate of a frame, and doubling that of a decoded one.\<close>

fun half_rate :: "int list \<Rightarrow> int list" where
  "half_rate (a # b # xs) = cdiv (a + b) 2 # half_rate xs"
| "half_rate xs = []"

fun double_rate :: "int list \<Rightarrow> int list" where
  "double_rate [] = []"
| "double_rate [a] = [a, cdiv (a + a) 2]"
| "double_rate (a # b # xs) = a # cdiv (a + b) 2 # double_rate (b # xs)"

subsection \<open>What the ring counts\<close>

definition lr_ok :: "link_ring \<Rightarrow> bool" where
  "lr_ok q \<longleftrightarrow> unat (lr_w q) < LINK_RING_SAMPLES \<and> unat (lr_r q) < LINK_RING_SAMPLES \<and> length (lr_buf q) = LINK_RING_SAMPLES"

text \<open>The number of samples that have been written and not read.\<close>

definition lr_unread :: "link_ring \<Rightarrow> nat" where
  "lr_unread q = (unat (lr_w q) + LINK_RING_SAMPLES - unat (lr_r q)) mod LINK_RING_SAMPLES"

lemma lr_index_less [simp]: "lr_index p i < LINK_RING_SAMPLES"
  by (simp add: lr_index_def)

lemma unat_lr_index [simp]: "unat (of_nat (lr_index p i) :: 32 word) = lr_index p i"
proof -
  have "lr_index p i < 2 ^ 32" by (rule less_trans[OF lr_index_less]) simp
  then show ?thesis by (simp add: unat_of_nat take_bit_nat_eq_self)
qed

lemma lr_avail_mod: "lr_avail_read q = unat (lr_w q - lr_r q) mod LINK_RING_SAMPLES"
  by (simp add: lr_avail_read_def unat_mod)

lemma lr_avail_less: "lr_avail_read q < LINK_RING_SAMPLES"
  by (simp add: lr_avail_mod)

lemma lr_avail:
  assumes "lr_ok q"
  shows "lr_avail_read q = (if unat (lr_r q) \<le> unat (lr_w q) then unat (lr_w q) - unat (lr_r q)
     else (unat (lr_w q) + LINK_RING_SAMPLES - unat (lr_r q) + 23296) mod LINK_RING_SAMPLES)"
proof (cases "unat (lr_r q) \<le> unat (lr_w q)")
  case True
  then have "unat (lr_w q - lr_r q) = unat (lr_w q) - unat (lr_r q)" by (simp add: unat_sub word_le_nat_alt)
  moreover have "unat (lr_w q) - unat (lr_r q) < LINK_RING_SAMPLES" using assms unfolding lr_ok_def by linarith
  ultimately show ?thesis using True by (simp add: lr_avail_mod)
next
  case False
  then have "unat (lr_w q - lr_r q) = 2 ^ 32 + unat (lr_w q) - unat (lr_r q)"
    by (simp add: unat_sub_if')
  also have "\<dots> = (unat (lr_w q) + LINK_RING_SAMPLES - unat (lr_r q) + 23296) + 44738 * LINK_RING_SAMPLES"
    using assms by (simp add: lr_ok_def)
  finally show ?thesis using False unfolding lr_avail_mod by (simp only: mod_mult_self1 if_False)
qed

lemma lr_unread: "lr_ok q \<Longrightarrow> lr_unread q = (if unat (lr_r q) \<le> unat (lr_w q) then unat (lr_w q) - unat (lr_r q)
     else unat (lr_w q) + LINK_RING_SAMPLES - unat (lr_r q))"
proof -
  assume ok: "lr_ok q"
  let ?w = "unat (lr_w q)" and ?r = "unat (lr_r q)"
  show ?thesis
  proof (cases "?r \<le> ?w")
    case True
    then have "?w + LINK_RING_SAMPLES - ?r = (?w - ?r) + LINK_RING_SAMPLES" by linarith
    moreover have "?w - ?r < LINK_RING_SAMPLES" using ok unfolding lr_ok_def by linarith
    ultimately show ?thesis using True by (simp only: lr_unread_def mod_add_self2 mod_less if_True)
  next
    case False
    then have "?w + LINK_RING_SAMPLES - ?r < LINK_RING_SAMPLES" using ok unfolding lr_ok_def by linarith
    with False show ?thesis by (simp add: lr_unread_def)
  qed
qed

text \<open>
  The number of samples that the ring reports as readable is the number that are unread exactly
  while the write position has not wrapped around behind the read position; from there on
  until the read position wraps as well it reports 23296 too many (modulo the size), since
  the difference of the positions wraps at 2 ^ 32, which 96000 does not divide.
\<close>

theorem link_ring_count:
  assumes "lr_ok q"
  shows "lr_avail_read q =
    (if unat (lr_r q) \<le> unat (lr_w q) then lr_unread q else (lr_unread q + 23296) mod LINK_RING_SAMPLES) \<and>
    (lr_avail_read q = lr_unread q \<longleftrightarrow> unat (lr_r q) \<le> unat (lr_w q))"
proof -
  have "(u + 23296) mod LINK_RING_SAMPLES \<noteq> u" if "u < LINK_RING_SAMPLES" for u
  proof -
    have "(u + 23296) mod LINK_RING_SAMPLES = (if u < 72704 then u + 23296 else u - 72704)"
      using that by (simp add: mod_if)
    moreover have "(if u < 72704 then u + 23296 else u - 72704) \<noteq> u" by (auto split: if_split)
    ultimately show ?thesis by (simp only:) simp
  qed
  moreover have "lr_unread q < LINK_RING_SAMPLES" by (simp add: lr_unread_def)
  ultimately show ?thesis using lr_avail[OF assms] lr_unread[OF assms] by auto
qed

definition demo_ring :: link_ring where
  "demo_ring = \<lparr>lr_buf = replicate LINK_RING_SAMPLES 0, lr_w = 1000, lr_r = 95000\<rparr>"

lemma demo_ring_ok: "lr_ok demo_ring"
  by (simp add: lr_ok_def demo_ring_def)

lemma link_ring_count_demo: "lr_unread demo_ring = 2000 \<and> lr_avail_read demo_ring = 25296"
  using lr_avail[OF demo_ring_ok] by (simp add: lr_unread_def demo_ring_def)

theorem link_ring_count_witness: "lr_avail_read demo_ring = (lr_unread demo_ring + 23296) mod LINK_RING_SAMPLES"
  using link_ring_count[OF demo_ring_ok] by (simp add: demo_ring_def)

subsection \<open>The loop of a pass ends\<close>

definition ring_count :: "nat \<Rightarrow> nat \<Rightarrow> nat" where
  "ring_count w r = (if r \<le> w then w - r else if w + 23296 < r then w + 119296 - r else w + 23296 - r)"

definition ring_left :: "nat \<Rightarrow> nat \<Rightarrow> nat" where
  "ring_left w r = (if r \<le> w then ring_count w r else 96000 + ring_count w r)"

lemma ring_count_mod:
  assumes "w < 96000" "r < 96000"
  shows "ring_count w r = (if r \<le> w then w - r else (w + 96000 - r + 23296) mod 96000)"
proof (cases "r \<le> w \<or> w + 23296 < r")
  case True
  with assms show ?thesis by (auto simp: ring_count_def)
next
  case False
  then have "w + 96000 - r + 23296 = (w + 23296 - r) + 96000" using assms by linarith
  moreover have "w + 23296 - r < 96000" using False assms by linarith
  ultimately show ?thesis using False by (simp only: ring_count_def mod_add_self2 mod_less) simp
qed

lemma ring_count_avail: "lr_ok q \<Longrightarrow> lr_avail_read q = ring_count (unat (lr_w q)) (unat (lr_r q))"
  by (simp add: lr_avail ring_count_mod lr_ok_def)

lemma lr_read_buf [simp]: "lr_buf (snd (lr_read n q)) = lr_buf q"
  by (simp add: lr_read_def Let_def)

lemma ring_left_step:
  assumes "w < 96000" "r < 96000" "2880 \<le> ring_count w r"
  shows "ring_left w (if r + 2880 < 96000 then r + 2880 else r + 2880 - 96000) + 2880 \<le> ring_left w r"
proof (cases "r \<le> w")
  case True
  then have "r + 2880 \<le> w" using assms(3) by (simp add: ring_count_def)
  with True assms(1) show ?thesis by (simp add: ring_left_def ring_count_def)
next
  case False
  show ?thesis
  proof (cases "r + 2880 < 96000")
    case True
    with False assms(3) show ?thesis by (cases "w + 23296 < r") (auto simp: ring_left_def ring_count_def)
  next
    case wrap: False
    with False assms(1,2) show ?thesis
      by (cases "r \<le> w + 93120"; cases "w + 23296 < r") (auto simp: ring_left_def ring_count_def)
  qed
qed

lemma lr_index_step: "unat p < LINK_RING_SAMPLES \<Longrightarrow>
    lr_index p LINK_FRAME_48K = (if unat p + 2880 < 96000 then unat p + 2880 else unat p + 2880 - 96000)"
  by (simp add: lr_index_def mod_if)

lemma lr_read_ok: "lr_ok q \<Longrightarrow> lr_ok (snd (lr_read n q))"
  by (simp add: lr_read_def lr_ok_def Let_def)

lemma lr_read_w [simp]: "lr_w (snd (lr_read n q)) = lr_w q"
  by (simp add: lr_read_def Let_def)

lemma lr_frames_end:
  "lr_ok q \<Longrightarrow> ring_left (unat (lr_w q)) (unat (lr_r q)) < 2880 * (k + 1) \<Longrightarrow>
   lr_avail_read (snd (lr_frames k q)) < LINK_FRAME_48K \<and> lr_ok (snd (lr_frames k q)) \<and> length (fst (lr_frames k q)) \<le> k"
proof (induction k arbitrary: q)
  case 0
  then show ?case by (simp add: ring_count_avail ring_left_def split: if_splits)
next
  case (Suc k)
  show ?case
  proof (cases "lr_avail_read q \<ge> LINK_FRAME_48K")
    case True
    have "unat (lr_r (snd (lr_read LINK_FRAME_48K q))) = lr_index (lr_r q) LINK_FRAME_48K"
      using True by (simp add: lr_read_def Let_def)
    then have r: "unat (lr_r (snd (lr_read LINK_FRAME_48K q))) =
        (if unat (lr_r q) + 2880 < 96000 then unat (lr_r q) + 2880 else unat (lr_r q) + 2880 - 96000)"
      using Suc.prems(1) lr_index_step[of "lr_r q"] by (simp only: lr_ok_def)
    have b: "unat (lr_w q) < 96000" "unat (lr_r q) < 96000" using Suc.prems(1) by (simp_all add: lr_ok_def)
    have "2880 \<le> ring_count (unat (lr_w q)) (unat (lr_r q))" using True ring_count_avail[OF Suc.prems(1)] by simp
    from ring_left_step[OF b this]
    have "ring_left (unat (lr_w q)) (unat (lr_r (snd (lr_read LINK_FRAME_48K q)))) + 2880 \<le> ring_left (unat (lr_w q)) (unat (lr_r q))"
      unfolding r .
    with Suc.prems(2)
    have "ring_left (unat (lr_w (snd (lr_read LINK_FRAME_48K q)))) (unat (lr_r (snd (lr_read LINK_FRAME_48K q)))) < 2880 * (k + 1)"
      by simp
    from Suc.IH[OF lr_read_ok[OF Suc.prems(1)] this] True show ?thesis
      by (simp add: Let_def case_prod_beta)
  qed (use Suc.prems in simp)
qed

text \<open>
  C26. The loop that takes frames out of the ring ends within 66 frames whatever the two positions are,
  also when the count is wrong, and leaves less than a frame to be read.
\<close>

theorem link_drain_terminates:
  assumes "lr_ok q"
  shows "lr_avail_read (snd (lr_frames 66 q)) < LINK_FRAME_48K \<and> lr_ok (snd (lr_frames 66 q))"
proof -
  have "ring_left (unat (lr_w q)) (unat (lr_r q)) < 2880 * (66 + 1)"
    using assms unfolding ring_left_def ring_count_def lr_ok_def by auto
  from lr_frames_end[OF assms this] show ?thesis by simp
qed

theorem link_drain_terminates_witness: "lr_avail_read (snd (lr_frames 66 demo_ring)) < LINK_FRAME_48K"
  using link_drain_terminates[OF demo_ring_ok] by blast

text \<open>Two thousand unread samples are less than a frame; the pass takes eight frames of old samples.\<close>

lemma link_ring_replays: "lr_unread demo_ring < LINK_FRAME_48K \<and> fst (lr_frames (Suc k) demo_ring) \<noteq> []"
  using link_ring_count_demo by (simp add: lr_read_def Let_def case_prod_beta)

subsection \<open>First in, first out, until the write position wraps\<close>

definition lr_contents :: "link_ring \<Rightarrow> int list" where
  "lr_contents q = map (\<lambda>i. lr_buf q ! lr_index (lr_r q) i) [0..<lr_unread q]"

lemma copy_at:
  "w + n < length b \<Longrightarrow> n \<le> length src \<Longrightarrow> foldl (\<lambda>b i. b[w + i := src ! i]) b [0..<n] ! j = (if w \<le> j \<and> j < w + n then src ! (j - w) else b ! j) \<and>
     length (foldl (\<lambda>b i. b[w + i := src ! i]) b [0..<n]) = length b"
proof (induction n)
  case (Suc n)
  then show ?case by (auto simp: nth_list_update)
qed auto

lemma foldl_cong_idx: "(\<And>i. i \<in> set xs \<Longrightarrow> f i = g i) \<Longrightarrow> foldl (\<lambda>b i. b[f i := h i]) b xs = foldl (\<lambda>b i. b[g i := h i]) b xs"
  by (induction xs arbitrary: b) simp_all

lemma lr_index_low: "unat p + i < LINK_RING_SAMPLES \<Longrightarrow> lr_index p i = unat p + i"
  by (simp add: lr_index_def)

lemma lr_write_buf:
  assumes "lr_ok q" "unat (lr_w q) + length src < LINK_RING_SAMPLES"
  shows "lr_buf (lr_write src q) ! j = (if unat (lr_w q) \<le> j \<and> j < unat (lr_w q) + length src then src ! (j - unat (lr_w q)) else lr_buf q ! j)"
    "lr_ok (lr_write src q)" "unat (lr_w (lr_write src q)) = unat (lr_w q) + length src" "lr_r (lr_write src q) = lr_r q"
proof -
  have f: "foldl (\<lambda>b i. b[lr_index (lr_w q) i := src ! i]) (lr_buf q) [0..<length src] =
      foldl (\<lambda>b i. b[unat (lr_w q) + i := src ! i]) (lr_buf q) [0..<length src]"
    by (rule foldl_cong_idx) (use assms(2) in \<open>simp add: lr_index_low\<close>)
  have b: "unat (lr_w q) + length src < length (lr_buf q)" using assms by (simp add: lr_ok_def)
  show "lr_buf (lr_write src q) ! j = (if unat (lr_w q) \<le> j \<and> j < unat (lr_w q) + length src then src ! (j - unat (lr_w q)) else lr_buf q ! j)"
    using copy_at[OF b, of src j] by (simp add: lr_write_def f)
  show w: "unat (lr_w (lr_write src q)) = unat (lr_w q) + length src"
  proof -
    have "lr_w (lr_write src q) = of_nat (lr_index (lr_w q) (length src))" by (simp add: lr_write_def)
    then have "unat (lr_w (lr_write src q)) = lr_index (lr_w q) (length src)" by (simp only: unat_lr_index)
    then show ?thesis by (simp only: lr_index_low[OF assms(2)])
  qed
  show "lr_r (lr_write src q) = lr_r q" by (simp add: lr_write_def)
  show "lr_ok (lr_write src q)"
    using w assms copy_at[OF b, of src 0] by (simp add: lr_ok_def) (simp add: lr_write_def f)
qed

lemma contents_low:
  "lr_ok q \<Longrightarrow> unat (lr_r q) \<le> unat (lr_w q) \<Longrightarrow> lr_contents q = map (\<lambda>i. lr_buf q ! (unat (lr_r q) + i)) [0..<unat (lr_w q) - unat (lr_r q)]"
  by (auto simp: lr_contents_def lr_unread lr_index_low lr_ok_def)

text \<open>
  Until the write position wraps around, the ring is a queue: a write that fits before the end
  appends its samples to the unread ones, and a read takes the oldest of them.
\<close>

theorem link_ring_fifo:
  assumes "lr_ok q" "unat (lr_r q) \<le> unat (lr_w q)"
  shows "unat (lr_w q) + length src < LINK_RING_SAMPLES \<Longrightarrow> lr_contents (lr_write src q) = lr_contents q @ src \<and> lr_ok (lr_write src q) \<and>
      unat (lr_r (lr_write src q)) \<le> unat (lr_w (lr_write src q))"
    and "fst (lr_read n q) = take n (lr_contents q) \<and> lr_contents (snd (lr_read n q)) = drop n (lr_contents q)"
proof -
  let ?w = "unat (lr_w q)" and ?r = "unat (lr_r q)"
  show "lr_contents (lr_write src q) = lr_contents q @ src \<and> lr_ok (lr_write src q) \<and> unat (lr_r (lr_write src q)) \<le> unat (lr_w (lr_write src q))"
    if l: "?w + length src < LINK_RING_SAMPLES"
  proof -
    note W = lr_write_buf[OF assms(1) l]
    have "lr_contents (lr_write src q) = lr_contents q @ src"
      using assms(2) by (intro nth_equalityI) (auto simp: contents_low[OF W(2)] W contents_low[OF assms] nth_append add.commute)
    with W assms(2) show ?thesis by simp
  qed
  show "fst (lr_read n q) = take n (lr_contents q) \<and> lr_contents (snd (lr_read n q)) = drop n (lr_contents q)"
  proof -
    define m where "m = (if n > ?w - ?r then ?w - ?r else n)"
    have a: "lr_avail_read q = ?w - ?r" using lr_avail[OF assms(1)] assms(2) by simp
    have m: "?r + m \<le> ?w" using assms(2) by (auto simp: m_def)
    then have "?r + m < LINK_RING_SAMPLES" using assms(1) unfolding lr_ok_def by linarith
    then have r: "unat (lr_r (snd (lr_read n q))) = ?r + m" using a by (simp add: lr_read_def Let_def m_def lr_index_low[symmetric])
    have k: "lr_ok (snd (lr_read n q))" by (rule lr_read_ok[OF assms(1)])
    have "fst (lr_read n q) = map (\<lambda>i. lr_buf q ! (?r + i)) [0..<m]"
      using a m assms(1) by (auto simp: lr_read_def Let_def m_def lr_index_low lr_ok_def)
    then have "fst (lr_read n q) = take n (lr_contents q)"
      using m by (simp add: contents_low[OF assms] m_def take_map)
    moreover have c: "lr_contents (snd (lr_read n q)) = map (\<lambda>i. lr_buf q ! (?r + m + i)) [0..<?w - (?r + m)]"
      using contents_low[OF k] m by (simp add: r)
    moreover have "map (\<lambda>i. lr_buf q ! (?r + m + i)) [0..<?w - (?r + m)] = drop n (lr_contents q)"
      using m by (intro nth_equalityI) (auto simp: contents_low[OF assms] m_def add.assoc)
    ultimately show ?thesis by simp
  qed
qed

end
