(* ===== verification/Link_Jitter.thy ===== *)
theory Link_Jitter
  imports Prelude Hex "HOL-Library.Word"
begin

text \<open>
  The jitter buffer and the loss count of the link module (\<open>modules/mod_link.c\<close>): five slots keyed by
  the RTP sequence number, a cursor that moves on every 60 ms, and the counters of the
  quality report. A slot keeps its payload as the bytes that count.
\<close>

abbreviation JB_SLOTS :: nat where "JB_SLOTS \<equiv> 5"
abbreviation JB_PLC_MAX :: int where "JB_PLC_MAX \<equiv> 5"
abbreviation LINK_OPUS_FRAME_MS :: int where "LINK_OPUS_FRAME_MS \<equiv> 60"

record jb_slot =
  js_used :: bool
  js_seq :: "16 word"
  js_payload :: "byte list"

record jbuf =
  jb_slots :: "jb_slot list"
  jb_on :: bool
  jb_cursor :: "16 word"
  jb_next :: int
  jb_miss :: int
  jb_late :: int
  jb_overflow :: int

definition jb_boot :: jbuf where
  "jb_boot = \<lparr>jb_slots = replicate JB_SLOTS \<lparr>js_used = False, js_seq = 0, js_payload = []\<rparr>, jb_on = False, jb_cursor = 0, jb_next = 0,
     jb_miss = 0, jb_late = 0, jb_overflow = 0\<rparr>"

definition jb_reset :: "jbuf \<Rightarrow> jbuf" where
  "jb_reset j = j\<lparr>jb_slots := map (\<lambda>s. s\<lparr>js_used := False\<rparr>) (jb_slots j), jb_on := False, jb_cursor := 0, jb_next := 0, jb_miss := 0\<rparr>"

definition jb_depth_slots :: "jbuf \<Rightarrow> nat" where
  "jb_depth_slots j = length (filter js_used (jb_slots j))"

text \<open>Starting at a sequence number, and how far one is ahead of the cursor.\<close>

definition jb_start :: "int \<Rightarrow> int \<Rightarrow> 16 word \<Rightarrow> jbuf \<Rightarrow> jbuf" where
  "jb_start now target sq j = j\<lparr>jb_cursor := sq, jb_next := now + target, jb_on := True\<rparr>"

definition jb_delta :: "16 word \<Rightarrow> 16 word \<Rightarrow> int" where
  "jb_delta sq cursor = sint (sq - cursor)"

definition jb_index :: "16 word \<Rightarrow> nat" where
  "jb_index sq = unat sq mod JB_SLOTS"

definition jb_put :: "16 word \<Rightarrow> byte list \<Rightarrow> jbuf \<Rightarrow> jbuf" where
  "jb_put sq b j =
     (let s = jb_slots j ! jb_index sq
      in j\<lparr>jb_overflow := (if js_used s \<and> js_seq s \<noteq> sq then jb_overflow j + 1 else jb_overflow j),
           jb_slots := (jb_slots j)[jb_index sq := \<lparr>js_used = True, js_seq = sq, js_payload = b\<rparr>]\<rparr>)"

definition jb_insert :: "int \<Rightarrow> int \<Rightarrow> 16 word \<Rightarrow> byte list \<Rightarrow> jbuf \<Rightarrow> jbuf" where
  "jb_insert now target sq b j =
     (if length b = 0 \<or> length b > 256 then j
      else (let j1 = (if jb_on j then j else jb_start now target sq j); d = jb_delta sq (jb_cursor j1)
            in if d < 0 \<and> d > - 200 then j1\<lparr>jb_late := jb_late j1 + 1\<rparr>
               else if d > 200 \<or> d < - 200 then jb_put sq b (jb_start now target sq (jb_reset j1))
               else jb_put sq b j1))"

text \<open>One turn of the playout: the payload for the decoder, None for a concealed frame.\<close>

definition jb_pop :: "jbuf \<Rightarrow> byte list option \<times> jbuf" where
  "jb_pop j =
     (let i = jb_index (jb_cursor j); s = jb_slots j ! i;
          hit = js_used s \<and> js_seq s = jb_cursor j;
          j1 = (if hit then j\<lparr>jb_slots := (jb_slots j)[i := s\<lparr>js_used := False\<rparr>], jb_miss := 0\<rparr> else j\<lparr>jb_miss := jb_miss j + 1\<rparr>)
      in (if hit then Some (js_payload s) else None,
          j1\<lparr>jb_cursor := jb_cursor j + 1, jb_next := jb_next j + LINK_OPUS_FRAME_MS\<rparr>))"

text \<open>
  The playout of one call: what goes to the decoder, and whether the guard against a stream that
  has stopped has reset the buffer. At most \<open>budget\<close> turns.
\<close>

fun jb_playout :: "nat \<Rightarrow> int \<Rightarrow> jbuf \<Rightarrow> byte list option list \<times> bool \<times> jbuf" where
  "jb_playout 0 now j = ([], False, j)"
| "jb_playout (Suc budget) now j =
     (if now < jb_next j then ([], False, j)
      else (let (p, j1) = jb_pop j
            in if jb_miss j1 \<ge> JB_PLC_MAX then ([p], True, jb_reset j1)
               else (let (ps, g, j2) = jb_playout budget now j1 in (p # ps, g, j2))))"

subsection \<open>Loss\<close>

record quality =
  ql_last :: "16 word"
  ql_have :: bool
  ql_lost :: int
  ql_received :: int

definition quality_boot :: quality where
  "quality_boot = \<lparr>ql_last = 0, ql_have = False, ql_lost = 0, ql_received = 0\<rparr>"

definition quality_track_seq :: "16 word \<Rightarrow> quality \<Rightarrow> quality" where
  "quality_track_seq sq q =
     (if \<not> ql_have q then q\<lparr>ql_have := True, ql_last := sq, ql_received := ql_received q + 1\<rparr>
      else (let d = sint (sq - ql_last q);
                q1 = (if d > 0 then q\<lparr>ql_lost := (if d < 200 then ql_lost q + (d - 1) else ql_lost q), ql_last := sq\<rparr>
                      else if d < 0 \<and> d > - 200 then (if ql_lost q > 0 then q\<lparr>ql_lost := ql_lost q - 1\<rparr> else q)
                      else q)
            in if d \<noteq> 0 then q1\<lparr>ql_received := ql_received q1 + 1\<rparr> else q1))"

text \<open>The report: the loss in tenths of a percent, if there were enough packets.\<close>

definition quality_report :: "quality \<Rightarrow> int option \<times> quality" where
  "quality_report q =
     (let total = ql_received q + ql_lost q
      in (if total < 30 then None else Some (cdiv (ql_lost q * 1000) total), q\<lparr>ql_lost := 0, ql_received := 0\<rparr>))"

subsection \<open>Words as distances\<close>

lemma sint_small: "- 32768 \<le> d \<Longrightarrow> d < 32768 \<Longrightarrow> sint (of_int d :: 16 word) = d"
  by (simp add: signed_of_int signed_take_bit_int_eq_self)

lemma sint_diff:
  "- 32768 \<le> int a - int b \<Longrightarrow> int a - int b < 32768 \<Longrightarrow> sint (of_nat a - of_nat b :: 16 word) = int a - int b"
  using sint_small[of "int a - int b"] by simp

subsection \<open>A stream that stops\<close>

definition jb_ok :: "jbuf \<Rightarrow> bool" where
  "jb_ok j \<longleftrightarrow> length (jb_slots j) = JB_SLOTS \<and> 0 \<le> jb_miss j \<and> jb_miss j < JB_PLC_MAX"

text \<open>How many turns the buffer can still last.\<close>

definition jb_left :: "jbuf \<Rightarrow> int" where
  "jb_left j = 5 * int (jb_depth_slots j) + JB_PLC_MAX - jb_miss j"

lemma jb_left_bounds: "jb_ok j \<Longrightarrow> 1 \<le> jb_left j \<and> jb_left j \<le> 30"
  using length_filter_le[of js_used "jb_slots j"] by (auto simp: jb_ok_def jb_left_def jb_depth_slots_def)

lemma jb_index_less: "jb_index sq < JB_SLOTS"
  by (simp add: jb_index_def)

lemma depth_take: "i < length xs \<Longrightarrow> js_used (xs ! i) \<Longrightarrow> \<not> js_used x \<Longrightarrow> length (filter js_used (xs[i := x])) + 1 = length (filter js_used xs)"
proof (induction xs arbitrary: i)
  case (Cons a xs)
  then show ?case by (cases i) auto
qed simp

lemma pop_left:
  assumes "jb_ok j" "jb_pop j = (p, j1)"
  shows "jb_miss j1 \<ge> JB_PLC_MAX \<or> jb_ok j1 \<and> jb_left j1 + 1 \<le> jb_left j" "jb_next j1 = jb_next j + LINK_OPUS_FRAME_MS"
proof -
  let ?i = "jb_index (jb_cursor j)" let ?s = "jb_slots j ! ?i"
  have i: "?i < length (jb_slots j)" using assms(1) jb_index_less by (simp add: jb_ok_def)
  show "jb_next j1 = jb_next j + LINK_OPUS_FRAME_MS" using assms(2) by (auto simp: jb_pop_def Let_def)
  show "jb_miss j1 \<ge> JB_PLC_MAX \<or> jb_ok j1 \<and> jb_left j1 + 1 \<le> jb_left j"
  proof (cases "js_used ?s \<and> js_seq ?s = jb_cursor j")
    case True
    with assms depth_take[OF i, of "?s\<lparr>js_used := False\<rparr>"] show ?thesis
      by (auto simp: jb_pop_def Let_def jb_ok_def jb_left_def jb_depth_slots_def)
  next
    case False
    with assms show ?thesis by (auto simp: jb_pop_def Let_def jb_ok_def jb_left_def jb_depth_slots_def)
  qed
qed

lemma playout_left:
  "jb_ok j \<Longrightarrow> jb_playout k now j = (ps, g, j1) \<Longrightarrow>
   g \<and> \<not> jb_on j1 \<or>
   \<not> g \<and> jb_ok j1 \<and> jb_on j1 = jb_on j \<and> jb_left j1 \<le> jb_left j \<and> jb_next j1 + 60 * jb_left j1 \<le> jb_next j + 60 * jb_left j \<and>
     (jb_next j + 60 * jb_left j \<le> now \<longrightarrow> jb_left j1 + int k \<le> jb_left j)"
proof (induction k arbitrary: j ps g j1)
  case (Suc k)
  obtain p x where p: "jb_pop j = (p, x)" by (cases "jb_pop j")
  note L = pop_left[OF Suc.prems(1) p]
  have on: "jb_on x = jb_on j" using p by (auto simp: jb_pop_def Let_def split: if_splits)
  show ?case
  proof (cases "now < jb_next j")
    case True
    with Suc.prems jb_left_bounds[OF Suc.prems(1)] show ?thesis by auto
  next
    case due: False
    show ?thesis
    proof (cases "jb_miss x \<ge> JB_PLC_MAX")
      case True
      with Suc.prems(2) due p show ?thesis by (auto simp: jb_reset_def)
    next
      case False
      obtain qs g' j' where q: "jb_playout k now x = (qs, g', j')" by (metis prod_cases3)
      from Suc.prems(2) due p False q have e: "g = g'" "j1 = j'" by auto
      from L False have x: "jb_ok x" "jb_left x + 1 \<le> jb_left j" "jb_next x = jb_next j + 60" by auto
      from Suc.IH[OF x(1) q] x(2,3) on show ?thesis unfolding e by auto
    qed
  qed
qed simp

definition jb_tick :: "int \<Rightarrow> jbuf \<Rightarrow> byte list option list \<times> bool \<times> jbuf" where
  "jb_tick now j = (if jb_on j then jb_playout 10 now j else ([], False, j))"

fun jb_ticks :: "int list \<Rightarrow> jbuf \<Rightarrow> bool \<times> jbuf" where
  "jb_ticks [] j = (False, j)"
| "jb_ticks (t # ts) j = (let (ps, g, j1) = jb_tick t j; (h, j2) = jb_ticks ts j1 in (g \<or> h, j2))"

lemma ticks_end:
  "jb_ok j \<Longrightarrow> jb_on j \<Longrightarrow> jb_next j + 60 * jb_left j \<le> l \<Longrightarrow> jb_left j \<le> 10 * int (length (filter (\<lambda>t. l \<le> t) ts)) \<Longrightarrow> fst (jb_ticks ts j)"
proof (induction ts arbitrary: j)
  case Nil
  then show ?case using jb_left_bounds[of j] by simp
next
  case (Cons t ts)
  obtain ps g j1 where p: "jb_playout 10 t j = (ps, g, j1)" by (metis prod_cases3)
  note L = playout_left[OF Cons.prems(1) p]
  show ?case
  proof (cases g)
    case True
    with p Cons.prems(2) show ?thesis by (simp add: jb_tick_def case_prod_beta)
  next
    case False
    have "jb_left j1 \<le> 10 * int (length (filter (\<lambda>t. l \<le> t) ts))"
      using L False Cons.prems(3,4) by (cases "l \<le> t") auto
    with Cons.IH[of j1] L False Cons.prems(2,3) p show ?thesis by (simp add: jb_tick_def case_prod_beta)
  qed
qed

text \<open>
  A stream that stops is noticed: from any state of the buffer, if no packet arrives any more,
  three calls of the playout at least 1.8 seconds after the next turn, at whatever times the
  other calls come, are enough for the guard to reset the buffer.
\<close>

theorem jb_ghost_guard:
  assumes "jb_ok j" "jb_on j" "3 \<le> length (filter (\<lambda>t. jb_next j + 1800 \<le> t) ts)"
  shows "fst (jb_ticks ts j)"
proof (rule ticks_end[OF assms(1,2)])
  show "jb_next j + 60 * jb_left j \<le> jb_next j + 1800" using jb_left_bounds[OF assms(1)] by simp
  show "jb_left j \<le> 10 * int (length (filter (\<lambda>t. jb_next j + 1800 \<le> t) ts))" using jb_left_bounds[OF assms(1)] assms(3) by simp
qed

definition demo_jbuf :: jbuf where
  "demo_jbuf = jb_insert 0 100 7 [1, 2] jb_boot"

theorem jb_ghost_guard_witness: "fst (jb_ticks [50, 160, 2000, 2060, 2120] demo_jbuf)"
proof -
  have "jb_ok demo_jbuf" "jb_on demo_jbuf" "jb_next demo_jbuf = 100"
    by (simp_all add: demo_jbuf_def jb_insert_def jb_boot_def jb_start_def jb_put_def jb_ok_def jb_delta_def Let_def)
  with jb_ghost_guard[of demo_jbuf "[50, 160, 2000, 2060, 2120]"] show ?thesis by simp
qed

subsection \<open>The buffer and an unbounded one\<close>

text \<open>Packets that arrive and calls of the playout, each at its time.\<close>

datatype jop = J_arrive int "16 word" "byte list" | J_tick int

text \<open>What a run of arrivals and calls gives: of every call the frames and whether the guard reset the buffer.\<close>

fun jb_run :: "int \<Rightarrow> jop list \<Rightarrow> jbuf \<Rightarrow> (byte list option list \<times> bool) list" where
  "jb_run target [] j = []"
| "jb_run target (J_arrive now sq b # ops) j = jb_run target ops (jb_insert now target sq b j)"
| "jb_run target (J_tick now # ops) j =
     (let (ps, g, j1) = jb_tick now j in (ps, g) # jb_run target ops j1)"

text \<open>
  The reference keeps every packet by its number for as long as the stream lasts. A stream is the number whose turn is
  next, when that turn is due, how many turns in a row have found nothing, and the packets. It starts with the first
  packet, a packet whose turn is over is too late, and it has stopped when five turns in a row find nothing.
\<close>

type_synonym jstream = "nat \<times> int \<times> nat \<times> (nat \<rightharpoonup> byte list)"

definition ideal_arrive :: "int \<Rightarrow> int \<Rightarrow> nat \<Rightarrow> byte list \<Rightarrow> jstream option \<Rightarrow> jstream option" where
  "ideal_arrive now target s b st =
     (if length b = 0 \<or> length b > 256 then st
      else (case st of
              None \<Rightarrow> Some (s, now + target, 0, [s \<mapsto> b])
            | Some (c, due, k, m) \<Rightarrow> Some (c, due, k, if s < c then m else m(s \<mapsto> b))))"

fun ideal_turns :: "nat \<Rightarrow> int \<Rightarrow> jstream \<Rightarrow> byte list option list \<times> bool \<times> jstream option" where
  "ideal_turns 0 now st = ([], False, Some st)"
| "ideal_turns (Suc n) now (c, due, k, m) =
     (if now < due then ([], False, Some (c, due, k, m))
      else if m c = None \<and> k = 4 then ([None], True, None)
      else (let (ps, g, st) = ideal_turns n now (c + 1, due + 60, if m c = None then k + 1 else 0, m)
            in (m c # ps, g, st)))"

definition ideal_tick :: "int \<Rightarrow> jstream option \<Rightarrow> byte list option list \<times> bool \<times> jstream option" where
  "ideal_tick now st = (case st of None \<Rightarrow> ([], False, None) | Some x \<Rightarrow> ideal_turns 10 now x)"

fun ideal_run :: "int \<Rightarrow> jop list \<Rightarrow> jstream option \<Rightarrow> (byte list option list \<times> bool) list" where
  "ideal_run target [] st = []"
| "ideal_run target (J_arrive now sq b # ops) st = ideal_run target ops (ideal_arrive now target (unat sq) b st)"
| "ideal_run target (J_tick now # ops) st =
     (let (ps, g, st1) = ideal_tick now st in (ps, g) # ideal_run target ops st1)"

text \<open>
  Packets of a stream arrive less than five turns before their own and less than 200 after it, and its numbers do
  not wrap around.
\<close>

fun in_window :: "int \<Rightarrow> jop list \<Rightarrow> jstream option \<Rightarrow> bool" where
  "in_window target [] st \<longleftrightarrow> True"
| "in_window target (J_arrive now sq b # ops) st \<longleftrightarrow>
     (case st of None \<Rightarrow> True | Some (c, _) \<Rightarrow> unat sq < c + JB_SLOTS \<and> c < unat sq + 200) \<and>
     in_window target ops (ideal_arrive now target (unat sq) b st)"
| "in_window target (J_tick now # ops) st \<longleftrightarrow>
     (case st of None \<Rightarrow> True | Some (c, _) \<Rightarrow> c + 10 < 65536) \<and>
     in_window target ops (snd (snd (ideal_tick now st)))"

definition jb_sim :: "(nat \<rightharpoonup> byte list) \<Rightarrow> nat \<Rightarrow> jbuf \<Rightarrow> bool" where
  "jb_sim m c j \<longleftrightarrow> jb_on j \<and> length (jb_slots j) = JB_SLOTS \<and> unat (jb_cursor j) = c \<and>
     (\<forall>s. m s \<noteq> None \<longrightarrow> s < c + JB_SLOTS \<and> s < 65536) \<and>
     (\<forall>i < JB_SLOTS. js_used (jb_slots j ! i) \<longrightarrow> unat (js_seq (jb_slots j ! i)) < c + JB_SLOTS) \<and>
     (\<forall>s. c \<le> s \<longrightarrow> s < 65536 \<longrightarrow> s < c + JB_SLOTS \<longrightarrow>
        m s = (if js_used (jb_slots j ! (s mod JB_SLOTS)) \<and> unat (js_seq (jb_slots j ! (s mod JB_SLOTS))) = s
               then Some (js_payload (jb_slots j ! (s mod JB_SLOTS))) else None))"

lemma jb_simI:
  assumes "jb_on j" "length (jb_slots j) = JB_SLOTS" "unat (jb_cursor j) = c"
    "\<And>s. m s \<noteq> None \<Longrightarrow> s < c + JB_SLOTS \<and> s < 65536"
    "\<And>i. i < JB_SLOTS \<Longrightarrow> js_used (jb_slots j ! i) \<Longrightarrow> unat (js_seq (jb_slots j ! i)) < c + JB_SLOTS"
    "\<And>s. c \<le> s \<Longrightarrow> s < 65536 \<Longrightarrow> s < c + JB_SLOTS \<Longrightarrow>
        m s = (if js_used (jb_slots j ! (s mod JB_SLOTS)) \<and> unat (js_seq (jb_slots j ! (s mod JB_SLOTS))) = s
               then Some (js_payload (jb_slots j ! (s mod JB_SLOTS))) else None)"
  shows "jb_sim m c j"
  using assms unfolding jb_sim_def by blast

lemma jb_simD:
  assumes "jb_sim m c j"
  shows "jb_on j" "length (jb_slots j) = JB_SLOTS" "unat (jb_cursor j) = c" "m s \<noteq> None \<Longrightarrow> s < c + JB_SLOTS \<and> s < 65536"
    "i < JB_SLOTS \<Longrightarrow> js_used (jb_slots j ! i) \<Longrightarrow> unat (js_seq (jb_slots j ! i)) < c + JB_SLOTS"
    "c \<le> s \<Longrightarrow> s < 65536 \<Longrightarrow> s < c + JB_SLOTS \<Longrightarrow>
        m s = (if js_used (jb_slots j ! (s mod JB_SLOTS)) \<and> unat (js_seq (jb_slots j ! (s mod JB_SLOTS))) = s
               then Some (js_payload (jb_slots j ! (s mod JB_SLOTS))) else None)"
  using assms unfolding jb_sim_def by blast+

lemma unat16: "unat (w :: 16 word) < 65536"
  using unsigned_less[of w] by simp

lemma mod5_eq: "s mod 5 = t mod 5 \<Longrightarrow> c \<le> s \<Longrightarrow> s < c + 5 \<Longrightarrow> c \<le> t \<Longrightarrow> t < c + (5 :: nat) \<Longrightarrow> s = t"
proof (induction s t rule: linorder_wlog)
  case (le s t)
  then have "5 dvd t - s" by (metis mod_eq_dvd_iff_nat)
  moreover have "t - s < 5" using le by linarith
  ultimately show ?case using le(1) by (auto dest: dvd_imp_le)
qed metis

text \<open>The distance of a number near the cursor.\<close>

lemma delta_near:
  assumes "unat (jb_cursor j) = c" "unat sq < c + JB_SLOTS" "c < unat sq + 200"
  shows "jb_delta sq (jb_cursor j) = int (unat sq) - int c"
proof -
  have "- 32768 \<le> int (unat sq) - int (unat (jb_cursor j))" "int (unat sq) - int (unat (jb_cursor j)) < 32768"
    using assms by linarith+
  from sint_diff[OF this] show ?thesis unfolding assms(1)[symmetric] by (simp add: jb_delta_def)
qed

lemma sim_insert:
  assumes "jb_sim m c j" "c \<le> unat sq" "unat sq < c + JB_SLOTS"
  shows "jb_sim (m(unat sq \<mapsto> b)) c (jb_put sq b j)"
proof (rule jb_simI)
  note D = jb_simD[OF assms(1)]
  show "jb_on (jb_put sq b j)" "length (jb_slots (jb_put sq b j)) = JB_SLOTS" "unat (jb_cursor (jb_put sq b j)) = c"
    using D(1-3) by (simp_all add: jb_put_def Let_def)
  show "s < c + JB_SLOTS \<and> s < 65536" if "(m(unat sq \<mapsto> b)) s \<noteq> None" for s
    using that D(4)[of s] assms(3) unat16[of sq] by (auto split: if_splits)
  show "unat (js_seq (jb_slots (jb_put sq b j) ! i)) < c + JB_SLOTS" if "i < JB_SLOTS" "js_used (jb_slots (jb_put sq b j) ! i)" for i
    using that D(2) D(5)[of i] assms(3) by (auto simp: jb_put_def Let_def nth_list_update jb_index_less split: if_splits)
  show "(m(unat sq \<mapsto> b)) s = (if js_used (jb_slots (jb_put sq b j) ! (s mod JB_SLOTS)) \<and> unat (js_seq (jb_slots (jb_put sq b j) ! (s mod JB_SLOTS))) = s
      then Some (js_payload (jb_slots (jb_put sq b j) ! (s mod JB_SLOTS))) else None)"
    if s: "c \<le> s" "s < 65536" "s < c + JB_SLOTS" for s
  proof (cases "s mod JB_SLOTS = unat sq mod JB_SLOTS")
    case True
    with s assms(2,3) have "s = unat sq" by (intro mod5_eq[of s "unat sq" c]) simp_all
    then show ?thesis using D(2) by (simp add: jb_put_def Let_def jb_index_def)
  next
    case False
    then have "s \<noteq> unat sq" by blast
    with False D(2) D(6)[OF s] show ?thesis by (simp add: jb_put_def Let_def jb_index_def)
  qed
qed

lemma sim_pop:
  assumes "jb_sim m c j" "c + 1 < 65536"
  shows "fst (jb_pop j) = m c" "jb_sim m (c + 1) (snd (jb_pop j))"
proof -
  note D = jb_simD[OF assms(1)]
  let ?s = "jb_slots j ! (c mod JB_SLOTS)"
  have i: "jb_index (jb_cursor j) = c mod JB_SLOTS" using D(3) by (simp add: jb_index_def)
  have hit: "js_seq ?s = jb_cursor j \<longleftrightarrow> unat (js_seq ?s) = c" using D(3) by (metis word_eq_iff_unsigned)
  show "fst (jb_pop j) = m c" using D(6)[of c] assms(2) by (simp add: jb_pop_def Let_def i hit)
  have next_cur: "unat (jb_cursor j + 1) = c + 1"
    using D(3) assms(2) by (simp add: unat_word_ariths)
  have slots: "jb_slots (snd (jb_pop j)) ! k =
      (if k = c mod JB_SLOTS \<and> js_used ?s \<and> unat (js_seq ?s) = c then ?s\<lparr>js_used := False\<rparr> else jb_slots j ! k)" for k
    using D(2) by (simp add: jb_pop_def Let_def i hit)
  have len: "length (jb_slots (snd (jb_pop j))) = JB_SLOTS" using D(2) by (simp add: jb_pop_def Let_def)
  show "jb_sim m (c + 1) (snd (jb_pop j))"
  proof (rule jb_simI)
    show "jb_on (snd (jb_pop j))" "unat (jb_cursor (snd (jb_pop j))) = c + 1" using D(1) next_cur by (simp_all add: jb_pop_def Let_def)
    show "s < c + 1 + JB_SLOTS \<and> s < 65536" if "m s \<noteq> None" for s using D(4)[OF that] by simp
    show "unat (js_seq (jb_slots (snd (jb_pop j)) ! k)) < c + 1 + JB_SLOTS" if "k < JB_SLOTS" "js_used (jb_slots (snd (jb_pop j)) ! k)" for k
      using that D(5)[OF that(1)] by (auto simp: slots split: if_splits)
    show "m s = (if js_used (jb_slots (snd (jb_pop j)) ! (s mod JB_SLOTS)) \<and> unat (js_seq (jb_slots (snd (jb_pop j)) ! (s mod JB_SLOTS))) = s
        then Some (js_payload (jb_slots (snd (jb_pop j)) ! (s mod JB_SLOTS))) else None)"
      if s: "c + 1 \<le> s" "s < 65536" "s < c + 1 + JB_SLOTS" for s
    proof (cases "s = c + JB_SLOTS")
      case True
      then have "m s = None" using D(4)[of s] by fastforce
      moreover have "s mod JB_SLOTS = c mod JB_SLOTS" using True by simp
      ultimately show ?thesis using D(5)[of "c mod JB_SLOTS"] True by (auto simp: slots)
    next
      case False
      then have "s mod JB_SLOTS \<noteq> c mod JB_SLOTS" using s mod5_eq[of s c c] by fastforce
      with s False D(6)[of s] show ?thesis by (simp add: slots)
    qed
  qed (fact len)
qed

lemma pop_counts:
  "jb_next (snd (jb_pop j)) = jb_next j + 60"
  "jb_miss (snd (jb_pop j)) = (if fst (jb_pop j) = None then jb_miss j + 1 else 0)"
  by (simp_all add: jb_pop_def Let_def)

text \<open>The buffer and the stream it stands for.\<close>

fun jb_rel :: "jstream option \<Rightarrow> jbuf \<Rightarrow> bool" where
  "jb_rel None j \<longleftrightarrow> \<not> jb_on j \<and> length (jb_slots j) = JB_SLOTS \<and> (\<forall>i < JB_SLOTS. \<not> js_used (jb_slots j ! i)) \<and> jb_miss j = 0"
| "jb_rel (Some (c, due, k, m)) j \<longleftrightarrow> jb_sim m c j \<and> jb_next j = due \<and> jb_miss j = int k \<and> k < 5"

lemma rel_reset: "length (jb_slots j) = JB_SLOTS \<Longrightarrow> jb_rel None (jb_reset j)"
  by (simp add: jb_reset_def)

lemma rel_start:
  assumes "jb_rel None j"
  shows "jb_sim Map.empty (unat sq) (jb_start now target sq j)"
  by (rule jb_simI) (use assms in \<open>simp_all add: jb_start_def\<close>)

lemma sim_late: "jb_sim m c (j\<lparr>jb_late := n\<rparr>) = jb_sim m c j"
  by (simp add: jb_sim_def)

lemma insert_on:
  "jb_on j \<Longrightarrow> \<not> (length b = 0 \<or> length b > 256) \<Longrightarrow> d = jb_delta sq (jb_cursor j) \<Longrightarrow>
   jb_insert now target sq b j =
     (if d < 0 \<and> d > - 200 then j\<lparr>jb_late := jb_late j + 1\<rparr>
      else if d > 200 \<or> d < - 200 then jb_put sq b (jb_start now target sq (jb_reset j)) else jb_put sq b j)"
  by (simp add: jb_insert_def Let_def)

lemma rel_arrive:
  assumes "jb_rel st j" "case st of None \<Rightarrow> True | Some (c, _) \<Rightarrow> unat sq < c + JB_SLOTS \<and> c < unat sq + 200"
  shows "jb_rel (ideal_arrive now target (unat sq) b st) (jb_insert now target sq b j)"
proof (cases "length b = 0 \<or> length b > 256")
  case True
  with assms(1) show ?thesis by (auto simp: ideal_arrive_def jb_insert_def)
next
  case False
  show ?thesis
  proof (cases st)
    case None
    let ?j = "jb_start now target sq j"
    have off: "\<not> jb_on j" "jb_miss j = 0" using assms(1) None by simp_all
    have "jb_delta sq (jb_cursor ?j) = 0" by (simp add: jb_delta_def jb_start_def)
    with off False have e: "jb_insert now target sq b j = jb_put sq b ?j" by (auto simp: jb_insert_def Let_def)
    have "jb_sim (Map.empty(unat sq \<mapsto> b)) (unat sq) (jb_put sq b ?j)"
      by (rule sim_insert[OF rel_start]) (use assms(1) None in simp_all)
    moreover have "jb_next (jb_put sq b ?j) = now + target" "jb_miss (jb_put sq b ?j) = 0"
      using off by (simp_all add: jb_put_def jb_start_def Let_def)
    ultimately show ?thesis using None False e by (simp add: ideal_arrive_def)
  next
    case (Some x)
    obtain c due k m where x: "x = (c, due, k, m)" by (cases x)
    from assms Some x have w: "unat sq < c + JB_SLOTS" "c < unat sq + 200"
      and s: "jb_sim m c j" "jb_next j = due" "jb_miss j = int k" "k < 5" by simp_all
    note d = delta_near[OF jb_simD(3)[OF s(1)] w]
    show ?thesis
    proof (cases "unat sq < c")
      case True
      with d w have "jb_delta sq (jb_cursor j) < 0" "jb_delta sq (jb_cursor j) > - 200" by linarith+
      then have "jb_insert now target sq b j = j\<lparr>jb_late := jb_late j + 1\<rparr>"
        unfolding insert_on[OF jb_simD(1)[OF s(1)] False refl] by simp
      moreover have "ideal_arrive now target (unat sq) b st = Some (c, due, k, m)"
        using True Some x False by (simp add: ideal_arrive_def)
      ultimately show ?thesis using s by (simp add: sim_late)
    next
      case ahead: False
      with d w have "0 \<le> jb_delta sq (jb_cursor j)" "jb_delta sq (jb_cursor j) < 5" by linarith+
      then have e: "jb_insert now target sq b j = jb_put sq b j"
        unfolding insert_on[OF jb_simD(1)[OF s(1)] False refl] by simp
      have "c \<le> unat sq" using ahead by simp
      from sim_insert[OF s(1) this w(1)] have "jb_sim (m(unat sq \<mapsto> b)) c (jb_put sq b j)" .
      moreover have "jb_next (jb_put sq b j) = due" "jb_miss (jb_put sq b j) = int k"
        using s by (simp_all add: jb_put_def Let_def)
      moreover have "ideal_arrive now target (unat sq) b st = Some (c, due, k, m(unat sq \<mapsto> b))"
        using ahead Some x False by (simp add: ideal_arrive_def)
      ultimately show ?thesis using e s(4) by simp
    qed
  qed
qed

lemma rel_turns:
  "jb_rel (Some (c, due, k, m)) j \<Longrightarrow> c + n < 65536 \<Longrightarrow> ideal_turns n now (c, due, k, m) = (ps, g, st) \<Longrightarrow>
   \<exists>j1. jb_playout n now j = (ps, g, j1) \<and> jb_rel st j1"
proof (induction n arbitrary: c due k m j ps g st)
  case 0
  then show ?case by auto
next
  case (Suc n)
  then have s: "jb_sim m c j" "jb_next j = due" "jb_miss j = int k" "k < 5" by simp_all
  show ?case
  proof (cases "now < due")
    case True
    with Suc.prems s show ?thesis by auto
  next
    case due: False
    obtain p x where pop: "jb_pop j = (p, x)" by (cases "jb_pop j")
    have "c + 1 < 65536" using Suc.prems(2) by simp
    note sp = sim_pop[OF s(1) this, unfolded pop fst_conv snd_conv]
    have cnt: "jb_next x = jb_next j + 60" "jb_miss x = (if m c = None then jb_miss j + 1 else 0)"
      using pop_counts[of j] pop sp(1) by simp_all
    show ?thesis
    proof (cases "m c = None \<and> k = 4")
      case True
      with Suc.prems(3) due have r: "ps = [None]" "g" "st = None" by auto
      from True cnt s have "jb_miss x \<ge> JB_PLC_MAX" by simp
      with due s(2) pop sp(1) True have "jb_playout (Suc n) now j = ([None], True, jb_reset x)" by simp
      moreover have "jb_rel None (jb_reset x)" by (rule rel_reset) (rule jb_simD(2)[OF sp(2)])
      ultimately show ?thesis using r by simp
    next
      case False
      let ?k = "if m c = None then k + 1 else 0"
      obtain ps' g' st' where t: "ideal_turns n now (c + 1, due + 60, ?k, m) = (ps', g', st')" by (metis prod_cases3)
      have "ideal_turns (Suc n) now (c, due, k, m) = (m c # ps', g', st')"
        unfolding ideal_turns.simps t using due False by auto
      then have r: "ps = m c # ps'" "g = g'" "st = st'" using Suc.prems(3) by simp_all
      have k: "jb_miss x = int ?k" "?k < 5" using cnt(2) s(3,4) False by auto
      then have "jb_rel (Some (c + 1, due + 60, ?k, m)) x" using sp(2) cnt(1) s(2) by simp
      moreover have "c + 1 + n < 65536" using Suc.prems(2) by simp
      ultimately obtain j1 where j1: "jb_playout n now x = (ps', g', j1)" "jb_rel st' j1" using Suc.IH[OF _ _ t] by blast
      have "\<not> jb_miss x \<ge> JB_PLC_MAX" using k by simp
      then have "jb_playout (Suc n) now j = (p # ps', g', j1)" using due s(2) pop j1(1) by simp
      with j1(2) r sp(1) show ?thesis by simp
    qed
  qed
qed

lemma rel_tick:
  assumes "jb_rel st j" "case st of None \<Rightarrow> True | Some (c, _) \<Rightarrow> c + 10 < 65536"
  shows "\<exists>j1. jb_tick now j = (fst (ideal_tick now st), fst (snd (ideal_tick now st)), j1) \<and>
    jb_rel (snd (snd (ideal_tick now st))) j1"
proof (cases st)
  case None
  with assms show ?thesis by (simp add: jb_tick_def ideal_tick_def)
next
  case (Some x)
  obtain c due k m where x: "x = (c, due, k, m)" by (cases x)
  obtain ps g st' where t: "ideal_turns 10 now (c, due, k, m) = (ps, g, st')" by (metis prod_cases3)
  have "jb_rel (Some (c, due, k, m)) j" "c + 10 < 65536" using assms Some x by simp_all
  from rel_turns[OF this t] obtain j1 where "jb_playout 10 now j = (ps, g, j1)" "jb_rel st' j1" by blast
  moreover have "jb_on j" using assms(1) Some x by (simp add: jb_sim_def)
  ultimately show ?thesis using Some x t by (simp add: jb_tick_def ideal_tick_def)
qed

text \<open>A turn as an equation on numbers, for evaluation.\<close>

lemma jb_playout_step:
  "0 < n \<Longrightarrow> jb_playout n now j =
     (if now < jb_next j then ([], False, j)
      else (let (p, j1) = jb_pop j
            in if jb_miss j1 \<ge> JB_PLC_MAX then ([p], True, jb_reset j1)
               else (let (ps, g, j2) = jb_playout (n - 1) now j1 in (p # ps, g, j2))))"
  by (cases n, simp, hypsubst, unfold diff_Suc_1, rule jb_playout.simps(2))

lemma ideal_turns_step:
  "0 < n \<Longrightarrow> ideal_turns n now (c, due, k, m) =
     (if now < due then ([], False, Some (c, due, k, m))
      else if m c = None \<and> k = 4 then ([None], True, None)
      else (let (ps, g, st) = ideal_turns (n - 1) now (c + 1, due + 60, if m c = None then k + 1 else 0, m)
            in (m c # ps, g, st)))"
  by (cases n, simp, hypsubst, unfold diff_Suc_1, rule ideal_turns.simps(2))

lemma run_equiv: "jb_rel st j \<Longrightarrow> in_window target ops st \<Longrightarrow> jb_run target ops j = ideal_run target ops st"
proof (induction target ops st arbitrary: j rule: ideal_run.induct)
  case (2 target now sq b ops st)
  then have "jb_rel (ideal_arrive now target (unat sq) b st) (jb_insert now target sq b j)"
    by (intro rel_arrive) simp_all
  from 2(1)[OF this] 2(3) show ?case by simp
next
  case (3 target now ops st)
  obtain ps g st1 where t: "ideal_tick now st = (ps, g, st1)" by (metis prod_cases3)
  have "case st of None \<Rightarrow> True | Some (c, _) \<Rightarrow> c + 10 < 65536" using 3(3) by simp
  from rel_tick[OF 3(2) this, of now, unfolded t fst_conv snd_conv] obtain j1
    where j1: "jb_tick now j = (ps, g, j1)" "jb_rel st1 j1" by blast
  from 3(1)[OF t[symmetric] refl refl j1(2)] 3(3) j1(1) t show ?case by simp
qed simp

text \<open>
  C25. From a buffer that has been reset: while packets arrive less than five turns before their own and less than 200 after it,
  in any order and with any losses, repetitions and empty or oversized payloads, at any times between calls of
  the playout at any times, and until the sequence number wraps around, the buffer with its five slots plays
  what one without a bound would. Every call hands out the same frames (the payload of the turn's number if it has come,
  a concealed frame otherwise, as many turns as are due and at most ten), the guard ends the stream at the same turn, the
  fifth in a row that finds nothing, and the packet after that starts the next stream at its own number.
\<close>

theorem jb_equiv_ideal:
  assumes "in_window target ops None" "length (jb_slots j) = JB_SLOTS"
  shows "jb_run target ops (jb_reset j) = ideal_run target ops None"
  by (rule run_equiv[OF rel_reset[OF assms(2)] assms(1)])

definition demo_jops :: "jop list" where
  "demo_jops = [J_arrive 0 7 [1], J_arrive 0 9 [3], J_tick 100, J_arrive 101 8 [2], J_arrive 101 6 [0], J_tick 220,
     J_tick 520, J_arrive 600 14 [4], J_tick 700]"

theorem jb_equiv_ideal_witness:
  "jb_run 100 demo_jops (jb_reset jb_boot) =
     [([Some [1]], False), ([Some [2], Some [3]], False), ([None, None, None, None, None], True), ([Some [4]], False)]"
proof -
  have "in_window 100 demo_jops None"
    by (simp add: demo_jops_def ideal_arrive_def ideal_tick_def ideal_turns_step)
  moreover have "length (jb_slots jb_boot) = JB_SLOTS" by (simp add: jb_boot_def)
  ultimately have "jb_run 100 demo_jops (jb_reset jb_boot) = ideal_run 100 demo_jops None" by (rule jb_equiv_ideal)
  also have "\<dots> = [([Some [1]], False), ([Some [2], Some [3]], False), ([None, None, None, None, None], True), ([Some [4]], False)]"
    by (simp add: demo_jops_def ideal_arrive_def ideal_tick_def ideal_turns_step)
  finally show ?thesis .
qed

text \<open>At the wrap two neighbours share a slot, since 5 divides 65535: the first one is lost.\<close>

lemma jb_wrap_collides: "jb_index 65535 = jb_index 0"
  by (simp add: jb_index_def)

lemma jb_wrap_loses:
  "jb_run 100 [J_arrive 0 65535 [1], J_arrive 0 0 [2], J_tick 100, J_tick 160] (jb_reset jb_boot) =
     [([None], False), ([Some [2]], False)]"
  by (simp add: jb_tick_def jb_playout_step jb_insert_def jb_pop_def jb_start_def jb_reset_def jb_boot_def jb_put_def jb_delta_def jb_index_def Let_def)

text \<open>A number exactly 200 behind is neither late nor far: it takes the slot of a packet that is due.\<close>

lemma jb_stale_overwrites:
  "jb_run 100 [J_arrive 0 300 [1], J_arrive 0 100 [2], J_tick 100] (jb_reset jb_boot) = [([None], False)]"
  by (simp add: jb_tick_def jb_playout_step jb_insert_def jb_pop_def jb_start_def jb_reset_def jb_boot_def jb_put_def jb_delta_def jb_index_def Let_def)

subsection \<open>The loss that is reported\<close>

definition tracked :: "nat list \<Rightarrow> quality" where
  "tracked ss = fold (\<lambda>s. quality_track_seq (of_nat s)) ss quality_boot"

text \<open>
  The numbers of a stream, unwrapped: each new, not below the first, and less than 200 away from the
  highest before it.
\<close>

fun plausible :: "nat list \<Rightarrow> nat \<Rightarrow> nat \<Rightarrow> nat set \<Rightarrow> bool" where
  "plausible [] lo hi seen \<longleftrightarrow> True"
| "plausible (s # ss) lo hi seen \<longleftrightarrow>
     s \<notin> seen \<and> lo \<le> s \<and> s < hi + 200 \<and> hi < s + 200 \<and> plausible ss lo (max hi s) (insert s seen)"

lemma tracked_loss:
  assumes "plausible ss lo hi seen" "ql_have q" "ql_last q = of_nat hi" "finite seen" "seen \<subseteq> {lo..hi}" "hi \<in> seen"
    "ql_received q = int (card seen)" "ql_lost q = int hi - int lo + 1 - int (card seen)"
  shows "ql_received (fold (\<lambda>s. quality_track_seq (of_nat s)) ss q) = int (card (seen \<union> set ss)) \<and>
    ql_lost (fold (\<lambda>s. quality_track_seq (of_nat s)) ss q) = int (Max (insert hi (set ss))) - int lo + 1 - int (card (seen \<union> set ss))"
  using assms
proof (induction ss lo hi seen arbitrary: q rule: plausible.induct)
  case (1 lo hi seen)
  then show ?case by simp
next
  case (2 s ss lo hi seen)
  from 2(2) have s: "s \<notin> seen" "lo \<le> s" "s < hi + 200" "hi < s + 200" "plausible ss lo (max hi s) (insert s seen)" by simp_all
  have "s \<noteq> hi" using s(1) 2(7) by blast
  have d: "sint (of_nat s - of_nat hi :: 16 word) = int s - int hi" by (rule sint_diff) (use s(3,4) in linarith)+
  let ?q = "quality_track_seq (of_nat s) q"
  have lo: "lo \<le> hi" using 2(6,7) by auto
  have late: "0 < ql_lost q" if "s < hi"
  proof -
    have "seen \<subset> {lo..hi}" using 2(6) s(1,2) that by (metis atLeastAtMost_iff less_imp_le_nat psubsetI)
    then have "card seen < card {lo..hi}" by (intro psubset_card_mono) simp
    with 2(9) lo show ?thesis by simp
  qed
  have new: "ql_have ?q" "ql_last ?q = of_nat (max hi s)" "ql_received ?q = int (card seen) + 1"
    "ql_lost ?q = int (max hi s) - int lo + 1 - (int (card seen) + 1)"
    using 2(3,4,8,9) d s(3,4) late \<open>s \<noteq> hi\<close> by (auto simp: quality_track_seq_def Let_def max_def)
  have "insert s seen \<subseteq> {lo..max hi s}"
  proof
    fix x assume "x \<in> insert s seen"
    with 2(6) s(2) show "x \<in> {lo..max hi s}" by (cases "x = s") (auto simp: le_max_iff_disj dest!: subsetD)
  qed
  moreover have "max hi s \<in> insert s seen" using 2(7) by (simp add: max_def)
  ultimately have "ql_received (fold (\<lambda>s. quality_track_seq (of_nat s)) ss ?q) = int (card (insert s seen \<union> set ss)) \<and>
      ql_lost (fold (\<lambda>s. quality_track_seq (of_nat s)) ss ?q) =
        int (Max (insert (max hi s) (set ss))) - int lo + 1 - int (card (insert s seen \<union> set ss))"
    using 2(1)[OF s(5), of ?q] new 2(5) s(1) by simp
  moreover have "Max (insert (max hi s) (set ss)) = Max (insert hi (insert s (set ss)))"
    by (cases "ss = []") (simp_all add: max.assoc)
  ultimately show ?case by simp
qed

text \<open>
  The loss of a report is exact: for a stream whose packets come in any order, each within 200 of the
  highest before it and none before the first, the packets counted as lost are those
  between the first and the highest that have not come, late ones being credited back, and
  the packets counted as received are those that have.
\<close>

theorem quality_exact:
  assumes "plausible ss s0 s0 {s0}"
  shows "ql_received (tracked (s0 # ss)) = int (card (set (s0 # ss))) \<and>
    ql_lost (tracked (s0 # ss)) = int (card ({s0..Max (set (s0 # ss))} - set (s0 # ss)))"
proof -
  have q: "quality_track_seq (of_nat s0) quality_boot = quality_boot\<lparr>ql_have := True, ql_last := of_nat s0, ql_received := 1\<rparr>"
    by (simp add: quality_track_seq_def quality_boot_def)
  from tracked_loss[OF assms, of "quality_boot\<lparr>ql_have := True, ql_last := of_nat s0, ql_received := 1\<rparr>"]
  have t: "ql_received (tracked (s0 # ss)) = int (card (set (s0 # ss)))"
    "ql_lost (tracked (s0 # ss)) = int (Max (set (s0 # ss))) - int s0 + 1 - int (card (set (s0 # ss)))"
    by (simp_all add: tracked_def q) (simp_all add: quality_boot_def)
  have low: "plausible ss lo hi seen \<Longrightarrow> \<forall>s \<in> set ss. lo \<le> s" for ss lo hi seen
    by (induction ss lo hi seen rule: plausible.induct) auto
  have sub: "set (s0 # ss) \<subseteq> {s0..Max (set (s0 # ss))}" using low[OF assms] by auto
  then have "card ({s0..Max (set (s0 # ss))} - set (s0 # ss)) = card {s0..Max (set (s0 # ss))} - card (set (s0 # ss))"
    by (intro card_Diff_subset) simp_all
  moreover have "card (set (s0 # ss)) \<le> card {s0..Max (set (s0 # ss))}" by (rule card_mono) (use sub in simp_all)
  moreover have "s0 \<le> Max (set (s0 # ss))" by simp
  ultimately have "int (card ({s0..Max (set (s0 # ss))} - set (s0 # ss))) = int (Max (set (s0 # ss))) - int s0 + 1 - int (card (set (s0 # ss)))"
    by (simp only: card_atLeastAtMost)
  with t show ?thesis by simp
qed

theorem quality_exact_witness: "ql_lost (tracked [65534, 65537, 65535]) = 1"
proof -
  have "plausible [65537, 65535] 65534 65534 {65534 :: nat}" by simp
  from quality_exact[OF this] have "ql_lost (tracked [65534, 65537, 65535]) = int (card ({65534..Max (set [65534, 65537, 65535 :: nat])} - set [65534, 65537, 65535]))"
    by blast
  moreover have "{65534..Max (set [65534, 65537, 65535 :: nat])} - set [65534, 65537, 65535] = {65536}" by auto
  ultimately show ?thesis by simp
qed

end
