(* ===== verification/Link_Client.thy ===== *)
theory Link_Client
  imports Reflector Link_Ring Link_Jitter
begin

text \<open>
  The link module (\<open>modules/mod_link.c\<close>), the client of the reflector: the websocket state machine
  with its reconnects, the SRTP session, the audio in both directions, the requests of the
  command line and of DTMF. The file-scope variables are the record; the background thread is
  a function of one pass of its loop. HMAC, SRTP, OPUS, the resampler, the random numbers and
  the outcome of system calls are parameters of a pass. The snapshots for the dashboard and the
  log are not modelled; an error text is its kind and arguments. A handler of the link events
  is modelled where it is subscribed, not here.
\<close>

datatype link_state = LST_DISABLED | LST_CONNECTING | LST_AWAIT_HELLO | LST_AWAIT_LOGIN_OK | LST_CONNECTED | LST_RECONNECTING | LST_STOPPED

datatype link_error =
    ER_none
  | ER_text string
  | ER_unresolved string
  | ER_login_denied "string option" "string option"
  | ER_tg_denied int "string option"
  | ER_busy "string option"
  | ER_revoked string
  | ER_shutdown "string option" int
  | ER_muted "string option"
  | ER_tg_changed int int "string option"
  | ER_kicked "string option" "string option"

record link_cfg =
  lc_enabled :: bool
  lc_node_id :: string
  lc_reflector_ws :: string
  lc_psk :: "byte list"
  lc_default_tg :: int
  lc_tail_ms :: int
  lc_jb_target_ms :: int
  lc_bitrate :: int
  lc_loss_perc :: int
  lc_reconnect_min :: int
  lc_reconnect_max :: int
  lc_verify_peer :: bool

record link =
  lk_cfg :: link_cfg
  lk_state :: link_state
  lk_ws :: bool
  lk_closing :: bool
  lk_attempt :: int
  lk_next :: int
  lk_since :: int
  lk_error :: link_error
  lk_talker :: string
  lk_tg :: int
  lk_members :: string
  lk_active :: bool
  lk_enc :: bool
  lk_dec :: bool
  lk_udp :: bool
  lk_ssrc :: "32 word"
  lk_refl_ssrc :: "32 word"
  lk_out_seq :: "16 word"
  lk_out_ts :: "32 word"
  lk_dst :: "string \<times> int"
  lk_key :: "byte list"
  lk_pkts_sent :: int
  lk_pkts_recv :: int
  lk_bytes_sent :: nat
  lk_bytes_recv :: nat
  lk_auth_fail :: int
  lk_decode_err :: int
  lk_drift_count :: int
  lk_drift_start :: int
  lk_nat_ms :: int
  lk_muted :: bool
  lk_quality :: quality
  lk_jb :: jbuf
  lk_bitrate :: int
  lk_ptt :: bool
  lk_last_recv :: int
  lk_req_tg :: int
  lk_req_reconnect :: bool
  lk_req_clear :: bool
  lk_rx_active :: bool
  lk_ring :: link_ring
  lk_next_send :: int
  lk_next_quality :: int

datatype leff =
    LE_send in_msg
  | LE_udp "byte list"
  | LE_queue "int list"
  | LE_request_ptt
  | LE_release_ptt
  | LE_rx_assert
  | LE_rx_drop
  | LE_connect string

text \<open>What the outside gives a pass.\<close>

record link_env =
  le_now :: int
  le_epoch :: int
  le_rand :: int
  le_nonce :: "byte list option"
  le_hmac :: "byte list \<Rightarrow> byte list \<Rightarrow> byte list option"
  le_resolve :: "string \<Rightarrow> bool"
  le_srtp_in :: bool
  le_srtp_out :: bool
  le_enc_ok :: bool
  le_dec_ok :: bool
  le_socket_ok :: bool
  le_connect_ok :: bool
  le_encode :: "nat \<Rightarrow> int list \<Rightarrow> byte list option"
  le_decode :: "nat \<Rightarrow> byte list option \<Rightarrow> int list option"
  le_protect :: "byte list \<Rightarrow> nat option"
  le_sent :: "byte list \<Rightarrow> bool"
  le_rate :: int
  le_resample :: "int list \<Rightarrow> int list"

subsection \<open>Messages of the reflector\<close>

text \<open>The fields that the client reads; a text that is missing is None, a number 0 or its default.\<close>

record login_ok_msg =
  lo_endpoint :: "string option"
  lo_key :: "string option"
  lo_salt :: "string option"
  lo_ssrc :: int
  lo_refl_ssrc :: int
  lo_tg :: int
  lo_members :: "string option"

datatype srv_msg =
    S_hello "string option"
  | S_login_ok login_ok_msg
  | S_login_denied "string option" "string option"
  | S_talker "string option"
  | S_tg_ok int
  | S_tg_denied "string option" int
  | S_floor_denied "string option"
  | S_floor_revoked "string option"
  | S_shutdown int "string option"
  | S_mute "string option"
  | S_unmute
  | S_target_bitrate int
  | S_tg_roster "string option"
  | S_tg_membership int int "string option"
  | S_kicked "string option" "string option"
  | S_ping int
  | S_pong
  | S_other

definition link_err_is_permanent :: "string option \<Rightarrow> bool" where
  "link_err_is_permanent code =
     (case code of None \<Rightarrow> False
      | Some c \<Rightarrow> c \<in> set [''bad_key'', ''unknown_node'', ''banned'', ''version_mismatch'', ''not_authorized'', ''unknown_tg''])"

subsection \<open>State, errors and PTT\<close>

definition set_state :: "link_env \<Rightarrow> link_state \<Rightarrow> link \<Rightarrow> link" where
  "set_state e st k =
     (if lk_state k = st then k else k\<lparr>lk_since := (if st = LST_CONNECTED then le_epoch e else 0), lk_state := st\<rparr>)"

definition set_error :: "link_error \<Rightarrow> link \<Rightarrow> link" where
  "set_error er k = k\<lparr>lk_error := er\<rparr>"

definition close_ws :: "link \<Rightarrow> link" where
  "close_ws k = (if lk_ws k then k\<lparr>lk_closing := True\<rparr> else k)"

definition send_ws :: "in_msg \<Rightarrow> link \<Rightarrow> leff list" where
  "send_ws m k = (if lk_ws k then [LE_send m] else [])"

definition link_rx_assert :: "link \<Rightarrow> link \<times> leff list" where
  "link_rx_assert k = (if lk_ptt k then (k, []) else (k\<lparr>lk_ptt := True\<rparr>, [LE_request_ptt, LE_rx_assert]))"

definition link_rx_drop :: "link \<Rightarrow> link \<times> leff list" where
  "link_rx_drop k = (if \<not> lk_ptt k then (k, []) else (k\<lparr>lk_ptt := False\<rparr>, [LE_release_ptt, LE_rx_drop]))"

subsection \<open>The session\<close>

definition session_cleanup :: "link \<Rightarrow> link \<times> leff list" where
  "session_cleanup k =
     (let (k1, es) = link_rx_drop k
      in (k1\<lparr>lk_jb := jb_reset (lk_jb k1), lk_active := False, lk_enc := False, lk_dec := False, lk_udp := False,
             lk_out_seq := 0, lk_out_ts := 0, lk_talker := [], lk_tg := 0, lk_ring := lr_flush (lk_ring k1)\<rparr>, es))"

text \<open>The last colon separates the host from the port.\<close>

fun last_colon :: "string \<Rightarrow> (string \<times> string) option" where
  "last_colon [] = None"
| "last_colon (c # cs) =
     (case last_colon cs of Some (h, p) \<Rightarrow> Some (c # h, p) | None \<Rightarrow> if c = CHR '':'' then Some ([], cs) else None)"

definition stash_members :: "string option \<Rightarrow> string" where
  "stash_members m = (case m of Some t \<Rightarrow> if t \<noteq> [] \<and> length t < 512 then t else [] | None \<Rightarrow> [])"

text \<open>Whether the setup went through, and the state that it leaves in either case.\<close>

definition session_setup :: "link_env \<Rightarrow> login_ok_msg \<Rightarrow> link \<Rightarrow> bool \<times> link" where
  "session_setup e m k0 =
     (let k = k0\<lparr>lk_members := stash_members (lo_members m)\<rparr>
      in case (lo_endpoint m, lo_key m, lo_salt m) of
           (Some ep, Some kh, Some sh) \<Rightarrow>
             if length kh \<noteq> 32 \<or> length sh \<noteq> 28 \<or> lo_ssrc m = 0 \<or> lo_refl_ssrc m = 0 \<or> lo_tg m = 0
             then (False, set_error (ER_text ''login_ok missing or malformed audio fields'') k)
             else (let k1 = k\<lparr>lk_ssrc := of_int (lo_ssrc m), lk_refl_ssrc := of_int (lo_refl_ssrc m), lk_tg := lo_tg m\<rparr>
                   in case last_colon ep of
                        None \<Rightarrow> (False, set_error (ER_text ''rtp_endpoint not host:port'') k1)
                      | Some (host, port) \<Rightarrow>
                          if \<not> le_resolve e host then (False, set_error (ER_unresolved host) k1)
                          else (let k2 = k1\<lparr>lk_dst := (host, atoi port)\<rparr>
                                in case (hex_to_bytes kh 16, hex_to_bytes sh 14) of
                                     (Some key, Some salt) \<Rightarrow>
                                       if \<not> le_srtp_in e then (False, set_error (ER_text ''srtp_create(in) failed'') k2)
                                       else if \<not> le_srtp_out e then (False, set_error (ER_text ''srtp_create(out) failed'') k2)
                                       else (let k3 = k2\<lparr>lk_key := key @ salt, lk_active := True, lk_enc := le_enc_ok e\<rparr>
                                             in if \<not> le_enc_ok e then (False, set_error (ER_text ''opus_encoder_create'') k3)
                                                else if \<not> le_dec_ok e then (False, set_error (ER_text ''opus_decoder_create'') (k3\<lparr>lk_dec := False\<rparr>))
                                                else if \<not> le_socket_ok e then (False, set_error (ER_text ''socket'') (k3\<lparr>lk_dec := True, lk_udp := False\<rparr>))
                                                else (True, k3\<lparr>lk_dec := True, lk_udp := True\<rparr>))
                                   | _ \<Rightarrow> (False, set_error (ER_text ''bad srtp key/salt hex'') k2)))
         | _ \<Rightarrow> (False, set_error (ER_text ''login_ok missing or malformed audio fields'') k))"

text \<open>The marker by which the reflector learns the address.\<close>

definition rtp_header :: "byte \<Rightarrow> link \<Rightarrow> byte list" where
  "rtp_header pt k = [0x80, pt] @ be16 (lk_out_seq k) @ be32 (lk_out_ts k) @ be32 (lk_ssrc k)"

definition send_bootstrap :: "link_env \<Rightarrow> link \<Rightarrow> link \<times> leff list" where
  "send_bootstrap e k =
     (if \<not> lk_active k \<or> \<not> lk_udp k then (k, [])
      else (let pkt = rtp_header BOOTSTRAP_PT k
            in (k\<lparr>lk_out_seq := lk_out_seq k + 1\<rparr>, if le_protect e pkt = None then [] else [LE_udp pkt])))"

subsection \<open>The handlers of the websocket\<close>

definition client_version :: string where "client_version = ''kerchunk 1.0''"

definition on_hello :: "link_env \<Rightarrow> string option \<Rightarrow> link \<Rightarrow> link \<times> leff list" where
  "on_hello e chal k =
     (case (case chal of Some t \<Rightarrow> if length t = 32 then Some t else None | None \<Rightarrow> None) of
        None \<Rightarrow> (close_ws (set_error (ER_text ''hello: bad challenge'') k), [])
      | Some t \<Rightarrow>
          (case hex_to_bytes t 16 of
             None \<Rightarrow> (close_ws (set_error (ER_text ''hello: challenge not hex'') k), [])
           | Some challenge \<Rightarrow>
               (case le_nonce e of
                  None \<Rightarrow> (close_ws (set_error (ER_text ''RAND_bytes'') k), [])
                | Some nonce \<Rightarrow>
                    (case le_hmac e (lc_psk (lk_cfg k)) (challenge @ nonce) of
                       None \<Rightarrow> (close_ws (set_error (ER_text ''HMAC'') k), [])
                     | Some mac \<Rightarrow>
                         (set_state e LST_AWAIT_LOGIN_OK k,
                          send_ws (In_login \<lparr>lg_node = Some (lc_node_id (lk_cfg k)), lg_hmac = Some (bytes_to_hex mac),
                            lg_nonce = Some (bytes_to_hex nonce), lg_version = Some client_version\<rparr>) k)))))"

definition on_login_ok :: "link_env \<Rightarrow> login_ok_msg \<Rightarrow> link \<Rightarrow> link \<times> leff list" where
  "on_login_ok e m k =
     (let (ok, k1) = session_setup e m k
      in if \<not> ok then (close_ws k1, [])
         else send_bootstrap e ((set_state e LST_CONNECTED k1)\<lparr>lk_attempt := 0, lk_error := ER_none\<rparr>))"

definition on_login_denied :: "link_env \<Rightarrow> string option \<Rightarrow> string option \<Rightarrow> link \<Rightarrow> link" where
  "on_login_denied e code msg k =
     (let k1 = set_error (ER_login_denied code msg) k
      in close_ws (if link_err_is_permanent code then set_state e LST_STOPPED k1 else k1))"

text \<open>A delay with its jitter: \<open>rand()\<close> modulo a fifth, less a tenth.\<close>

definition jittered :: "int \<Rightarrow> int \<Rightarrow> int" where
  "jittered rnd base = base + (Prelude.cmod rnd (cdiv base 5 + 1) - cdiv base 10)"

definition on_reflector_shutdown :: "link_env \<Rightarrow> int \<Rightarrow> string option \<Rightarrow> link \<Rightarrow> link" where
  "on_reflector_shutdown e n reason k =
     close_ws ((set_error (ER_shutdown reason n) k)\<lparr>lk_next := le_now e + jittered (le_rand e) (n * 1000), lk_attempt := 1\<rparr>)"

definition on_kicked :: "link_env \<Rightarrow> string option \<Rightarrow> string option \<Rightarrow> link \<Rightarrow> link" where
  "on_kicked e code msg k =
     (let k1 = set_error (ER_kicked code msg) k
      in close_ws (if link_err_is_permanent code then set_state e LST_STOPPED k1
                   else k1\<lparr>lk_next := le_now e + jittered (le_rand e) 30000, lk_attempt := 1\<rparr>))"

definition on_target_bitrate :: "int \<Rightarrow> link \<Rightarrow> link" where
  "on_target_bitrate bps k = (if bps < 8000 \<or> bps > 64000 \<or> bps = lk_bitrate k then k else k\<lparr>lk_bitrate := bps\<rparr>)"

definition on_ws_msg :: "link_env \<Rightarrow> srv_msg \<Rightarrow> link \<Rightarrow> link \<times> leff list" where
  "on_ws_msg e m k =
     (case m of
        S_hello chal \<Rightarrow> on_hello e chal k
      | S_login_ok l \<Rightarrow> on_login_ok e l k
      | S_login_denied code msg \<Rightarrow> (on_login_denied e code msg k, [])
      | S_talker who \<Rightarrow> (k\<lparr>lk_talker := c_trunc 64 (case who of Some w \<Rightarrow> w | None \<Rightarrow> [])\<rparr>, [])
      | S_tg_ok tg \<Rightarrow> (if tg \<le> 0 \<or> tg > 65535 then k else set_error ER_none (k\<lparr>lk_tg := tg\<rparr>), [])
      | S_tg_denied code tg \<Rightarrow> (set_error (ER_tg_denied tg code) k, [])
      | S_floor_denied cur \<Rightarrow> (set_error (ER_busy cur) k, [])
      | S_floor_revoked code \<Rightarrow>
          (case code of Some c \<Rightarrow> if c \<noteq> ''lease_expired'' then set_error (ER_revoked c) k else k | None \<Rightarrow> k, [])
      | S_shutdown n reason \<Rightarrow> (on_reflector_shutdown e n reason k, [])
      | S_mute reason \<Rightarrow> ((set_error (ER_muted reason) k)\<lparr>lk_muted := True\<rparr>, [])
      | S_unmute \<Rightarrow> ((set_error ER_none k)\<lparr>lk_muted := False\<rparr>, [])
      | S_target_bitrate bps \<Rightarrow> (on_target_bitrate bps k, [])
      | S_tg_roster t \<Rightarrow>
          (case t of Some x \<Rightarrow> if x = [] \<or> length x \<ge> 512 then k else k\<lparr>lk_members := x\<rparr> | None \<Rightarrow> k, [])
      | S_tg_membership old new reason \<Rightarrow> ((set_error (ER_tg_changed old new reason) k)\<lparr>lk_tg := new\<rparr>, [])
      | S_kicked code msg \<Rightarrow> (on_kicked e code msg k, [])
      | S_ping sq \<Rightarrow> (k, send_ws In_pong k)
      | S_pong \<Rightarrow> (k, [])
      | S_other \<Rightarrow> (k, []))"

text \<open>The delay before a reconnect doubles with every attempt up to the maximum.\<close>

fun grow_delay :: "nat \<Rightarrow> int \<Rightarrow> int \<Rightarrow> int" where
  "grow_delay 0 mx d = d"
| "grow_delay (Suc n) mx d = (if d < mx then grow_delay n mx (2 * d) else d)"

definition reconnect_delay :: "int \<Rightarrow> int \<Rightarrow> int \<Rightarrow> int" where
  "reconnect_delay attempt mn mx = (let d = grow_delay (nat (attempt - 1)) mx mn in if d > mx then mx else d)"

definition on_ws_close :: "link_env \<Rightarrow> link \<Rightarrow> link \<times> leff list" where
  "on_ws_close e k0 =
     (let (k, es) = session_cleanup (k0\<lparr>lk_ws := False, lk_closing := False\<rparr>)
      in if lk_state k = LST_STOPPED then (k, es)
         else (let k1 = set_state e LST_RECONNECTING k;
                   d = reconnect_delay (lk_attempt k1) (lc_reconnect_min (lk_cfg k1)) (lc_reconnect_max (lk_cfg k1))
               in (if lk_next k1 \<le> le_now e
                   then k1\<lparr>lk_next := le_now e + jittered (le_rand e) d, lk_attempt := lk_attempt k1 + 1\<rparr> else k1, es)))"

text \<open>The events of the current websocket; those of an older one are ignored.\<close>

datatype ws_event = W_open | W_msg srv_msg | W_error string | W_close

definition ws_event_step :: "link_env \<Rightarrow> ws_event \<Rightarrow> link \<Rightarrow> link \<times> leff list" where
  "ws_event_step e ev k =
     (if \<not> lk_ws k then (k, [])
      else (case ev of
              W_open \<Rightarrow> (set_state e LST_AWAIT_HELLO k, [])
            | W_msg m \<Rightarrow> on_ws_msg e m k
            | W_error t \<Rightarrow> (set_error (ER_text t) k, [])
            | W_close \<Rightarrow> on_ws_close e k))"

text \<open>A sequence of steps, each with the environment of its moment.\<close>

fun lsteps :: "('a \<Rightarrow> link \<Rightarrow> link \<times> leff list) \<Rightarrow> 'a list \<Rightarrow> link \<Rightarrow> link \<times> leff list" where
  "lsteps f [] k = (k, [])"
| "lsteps f (x # xs) k = (let (k1, e1) = f x k; (k2, e2) = lsteps f xs k1 in (k2, e1 @ e2))"

subsection \<open>Audio to the reflector\<close>

definition encode_one :: "link_env \<Rightarrow> nat \<times> int list \<Rightarrow> link \<Rightarrow> link \<times> leff list" where
  "encode_one e nf k =
     (case le_encode e (fst nf) (half_rate (snd nf)) of
        None \<Rightarrow> (k, [])
      | Some opus \<Rightarrow>
          (let pkt = rtp_header 100 k @ opus;
               k1 = k\<lparr>lk_out_seq := lk_out_seq k + 1, lk_out_ts := lk_out_ts k + 2880\<rparr>
           in case le_protect e pkt of
                None \<Rightarrow> (k1, [])
              | Some n \<Rightarrow> (if le_sent e pkt then k1\<lparr>lk_pkts_sent := lk_pkts_sent k1 + 1, lk_bytes_sent := lk_bytes_sent k1 + n\<rparr> else k1,
                            [LE_udp pkt])))"

definition drain_and_encode :: "link_env \<Rightarrow> link \<Rightarrow> link \<times> leff list" where
  "drain_and_encode e k =
     (if \<not> lk_active k \<or> lk_muted k then (k\<lparr>lk_ring := lr_flush (lk_ring k)\<rparr>, [])
      else (let (fs, q) = lr_frames 66 (lk_ring k)
            in lsteps (encode_one e) (enumerate 0 fs) (k\<lparr>lk_ring := q\<rparr>)))"

subsection \<open>Audio from the reflector\<close>

definition play_frame :: "link_env \<Rightarrow> int list \<Rightarrow> link \<Rightarrow> link \<times> leff list" where
  "play_frame e pcm k =
     (let up = double_rate pcm; out = (if le_rate e \<noteq> 48000 then le_resample e up else up);
          q = (if out = [] then [] else [LE_queue out]); (k1, es) = link_rx_assert k
      in (k1\<lparr>lk_last_recv := le_now e\<rparr>, q @ es))"

definition play_one :: "link_env \<Rightarrow> nat \<times> byte list option \<Rightarrow> link \<Rightarrow> link \<times> leff list" where
  "play_one e np k =
     (case le_decode e (fst np) (snd np) of
        None \<Rightarrow> (k\<lparr>lk_decode_err := lk_decode_err k + 1\<rparr>, [])
      | Some pcm \<Rightarrow> if pcm = [] then (k, []) else play_frame e pcm k)"

definition jb_playout_tick :: "link_env \<Rightarrow> link \<Rightarrow> link \<times> leff list" where
  "jb_playout_tick e k =
     (if \<not> jb_on (lk_jb k) \<or> \<not> lk_active k \<or> lk_muted k then (k, [])
      else (let (ps, guard, j) = jb_playout 10 (le_now e) (lk_jb k);
                (k1, e1) = lsteps (play_one e) (enumerate 0 ps) (k\<lparr>lk_jb := j\<rparr>);
                (k2, e2) = (if guard then link_rx_drop k1 else (k1, []))
            in (k2, e1 @ e2)))"

text \<open>
  A datagram: its length on the wire and the packet that SRTP opens. True when the key has
  drifted and the rest of the pass of the receiver is skipped.
\<close>

definition auth_failure :: "link_env \<Rightarrow> link \<Rightarrow> bool \<times> link" where
  "auth_failure e k =
     (let k1 = k\<lparr>lk_auth_fail := lk_auth_fail k + 1\<rparr>;
          k2 = (if le_now e - lk_drift_start k1 > 10000 then k1\<lparr>lk_drift_start := le_now e, lk_drift_count := 0\<rparr> else k1);
          k3 = k2\<lparr>lk_drift_count := lk_drift_count k2 + 1\<rparr>
      in if lk_drift_count k3 > 1000
         then (True, close_ws ((set_error (ER_text ''SRTP auth fail'') k3)\<lparr>lk_drift_count := 0, lk_drift_start := le_now e\<rparr>))
         else (False, k3))"

definition rtp_seq :: "byte list \<Rightarrow> 16 word" where
  "rtp_seq pkt = push_bit 8 (ucast (pkt ! 2)) + ucast (pkt ! 3)"

definition take_packet :: "link_env \<Rightarrow> byte list \<Rightarrow> link \<Rightarrow> link" where
  "take_packet e pkt k =
     (if length pkt \<le> 12 then k
      else k\<lparr>lk_quality := quality_track_seq (rtp_seq pkt) (lk_quality k),
             lk_jb := jb_insert (le_now e) (lc_jb_target_ms (lk_cfg k)) (rtp_seq pkt) (drop 12 pkt) (lk_jb k),
             lk_last_recv := le_now e\<rparr>)"

fun drain_packets :: "link_env \<Rightarrow> (nat \<times> byte list option) list \<Rightarrow> link \<Rightarrow> bool \<times> link" where
  "drain_packets e [] k = (False, k)"
| "drain_packets e ((n, p) # ps) k =
     (let k1 = k\<lparr>lk_pkts_recv := lk_pkts_recv k + 1, lk_bytes_recv := lk_bytes_recv k + n\<rparr>
      in case p of
           Some pkt \<Rightarrow> drain_packets e ps (take_packet e pkt k1)
         | None \<Rightarrow> (let (stop, k2) = auth_failure e k1 in if stop then (True, k2) else drain_packets e ps k2))"

definition drain_udp_recv :: "link_env \<Rightarrow> (nat \<times> byte list option) list \<Rightarrow> link \<Rightarrow> link \<times> leff list" where
  "drain_udp_recv e ps k =
     (if \<not> lk_udp k \<or> \<not> lk_active k then (k, [])
      else (let (stop, k1) = drain_packets e ps k
            in if stop then (k1, [])
               else (let (k2, e2) = jb_playout_tick e k1;
                         (k3, e3) = (if lk_ptt k2 \<and> le_now e - lk_last_recv k2 > lc_tail_ms (lk_cfg k2) then link_rx_drop k2 else (k2, []))
                     in (k3, e2 @ e3))))"

definition send_quality_report :: "link \<Rightarrow> link \<times> leff list" where
  "send_quality_report k =
     (if \<not> lk_ws k \<or> \<not> lk_active k then (k, [])
      else (let (r, q) = quality_report (lk_quality k); k1 = k\<lparr>lk_quality := q\<rparr>
            in (k1, case r of None \<Rightarrow> [] | Some x \<Rightarrow> send_ws (In_quality (of_int x / 10)) k1)))"

subsection \<open>A pass of the background thread\<close>

definition serve_requests :: "link_env \<Rightarrow> link \<Rightarrow> link \<times> leff list" where
  "serve_requests e k =
     (let k1 = (if lk_req_clear k
                then (let k' = k\<lparr>lk_req_clear := False\<rparr>
                      in if lk_state k' = LST_STOPPED
                         then set_state e LST_RECONNECTING (k'\<lparr>lk_error := ER_none, lk_attempt := 0, lk_next := 0\<rparr>) else k')
                else k);
          k2 = (if lk_req_reconnect k1
                then (if lk_ws k1 then k1\<lparr>lk_req_reconnect := False, lk_closing := True\<rparr> else k1\<lparr>lk_req_reconnect := False, lk_next := 0\<rparr>)
                else k1)
      in if lk_req_tg k2 \<noteq> 0 \<and> lk_ws k2 \<and> lk_state k2 = LST_CONNECTED
         then (k2\<lparr>lk_req_tg := 0\<rparr>, send_ws (In_set_tg (lk_req_tg k2)) k2) else (k2, []))"

definition report_quality :: "link_env \<Rightarrow> link \<Rightarrow> link \<times> leff list" where
  "report_quality e k =
     (if le_now e \<ge> lk_next_quality k \<and> lk_state k = LST_CONNECTED
      then (let (k1, es) = send_quality_report k in (k1\<lparr>lk_next_quality := le_now e + 10000\<rparr>, es)) else (k, []))"

definition try_connect :: "link_env \<Rightarrow> link \<Rightarrow> link \<times> leff list" where
  "try_connect e k =
     (if lc_enabled (lk_cfg k) \<and> \<not> lk_ws k \<and> lk_state k \<noteq> LST_STOPPED \<and> le_now e \<ge> lk_next k
      then (let k1 = set_state e LST_CONNECTING k
            in (if le_connect_ok e then k1\<lparr>lk_ws := True, lk_closing := False\<rparr>
                else (set_error (ER_text ''mg_ws_connect'') k1)\<lparr>lk_next := le_now e + lc_reconnect_min (lk_cfg k1)\<rparr>,
                [LE_connect (lc_reflector_ws (lk_cfg k))]))
      else (k, []))"

definition pace_encode :: "link_env \<Rightarrow> link \<Rightarrow> link \<times> leff list" where
  "pace_encode e k =
     (if lk_active k \<and> le_now e \<ge> lk_next_send k
      then (let (k1, es) = drain_and_encode e k in (k1\<lparr>lk_next_send := le_now e + 60\<rparr>, es)) else (k, []))"

definition nat_keepalive :: "link_env \<Rightarrow> link \<Rightarrow> link \<times> leff list" where
  "nat_keepalive e k =
     (if lk_active k \<and> le_now e - lk_nat_ms k \<ge> 10000
      then (let (k1, es) = send_bootstrap e k in (k1\<lparr>lk_nat_ms := le_now e\<rparr>, es)) else (k, []))"

definition bg_pass :: "link_env \<Rightarrow> ws_event list \<Rightarrow> (nat \<times> byte list option) list \<Rightarrow> link \<Rightarrow> link \<times> leff list" where
  "bg_pass e evs ps k =
     lsteps (\<lambda>f. f)
       [lsteps (ws_event_step e) evs, serve_requests e, report_quality e, try_connect e, drain_udp_recv e ps, pace_encode e, nat_keepalive e] k"

subsection \<open>The other threads\<close>

definition link_audio_tap :: "int \<Rightarrow> int list \<Rightarrow> link \<Rightarrow> link" where
  "link_audio_tap rate samples k =
     (if \<not> lk_rx_active k \<or> samples = [] \<or> rate \<noteq> 48000 \<or> lr_avail_write (lk_ring k) < length samples then k
      else k\<lparr>lk_ring := lr_write samples (lk_ring k)\<rparr>)"

definition link_on_cor :: "bool \<Rightarrow> link \<Rightarrow> link" where
  "link_on_cor on k = k\<lparr>lk_rx_active := on\<rparr>"

text \<open>The commands that set a request; None stands for the status, and the number is what is returned.\<close>

definition cli_link :: "string list \<Rightarrow> link \<Rightarrow> int \<times> link" where
  "cli_link args k =
     (case args of
        [] \<Rightarrow> (0, k)
      | c # rest \<Rightarrow>
          if c = ''status'' then (0, k)
          else if c = ''tg'' then
            (case rest of [] \<Rightarrow> (- 1, k)
             | t # _ \<Rightarrow> if atoi t \<le> 0 \<or> atoi t > 65535 then (- 1, k) else (0, k\<lparr>lk_req_tg := atoi t\<rparr>))
          else if c = ''reconnect'' then (0, k\<lparr>lk_req_reconnect := True\<rparr>)
          else if c = ''clear-alarm'' then (0, k\<lparr>lk_req_clear := True\<rparr>)
          else (- 1, k))"

definition on_dtmf_set_tg :: "string option \<Rightarrow> link \<Rightarrow> link" where
  "on_dtmf_set_tg arg k =
     (case arg of Some t \<Rightarrow> if t = [] \<or> atoi t \<le> 0 \<or> atoi t > 65535 then k else k\<lparr>lk_req_tg := atoi t\<rparr> | None \<Rightarrow> k)"

text \<open>The configuration; an incomplete section stops the link.\<close>

definition link_defaults :: "link_cfg \<Rightarrow> link_cfg" where
  "link_defaults c = c\<lparr>lc_default_tg := 0, lc_tail_ms := 500, lc_jb_target_ms := 100, lc_bitrate := 32000, lc_loss_perc := 10,
     lc_reconnect_min := 1000, lc_reconnect_max := 60000\<rparr>"

definition link_stop :: "link_env \<Rightarrow> link_error \<Rightarrow> link \<Rightarrow> link" where
  "link_stop e er k = (let k1 = set_error er k in set_state e LST_STOPPED (k1\<lparr>lk_cfg := (lk_cfg k1)\<lparr>lc_enabled := False\<rparr>\<rparr>))"

definition link_configure :: "link_env \<Rightarrow> config \<Rightarrow> link \<Rightarrow> int \<times> link" where
  "link_configure e cfg k0 =
     (let c0 = (link_defaults (lk_cfg k0))\<lparr>lc_enabled := is_yes (config_get cfg ''link'' ''enabled'')\<rparr>; k = k0\<lparr>lk_cfg := c0\<rparr>
      in if \<not> lc_enabled c0 then (0, set_state e LST_DISABLED k)
         else (case (config_get cfg ''link'' ''node_id'', config_get cfg ''link'' ''reflector_ws'', config_get cfg ''link'' ''preshared_key_hex'') of
                 (Some node, Some url, Some psk) \<Rightarrow>
                   (let c1 = c0\<lparr>lc_node_id := c_trunc 64 node, lc_reflector_ws := c_trunc 256 url\<rparr>; k1 = k\<lparr>lk_cfg := c1\<rparr>
                    in case (if length psk = 64 then hex_to_bytes psk 32 else None) of
                         None \<Rightarrow> (- 1, link_stop e (ER_text ''[link] preshared_key_hex'') k1)
                       | Some key \<Rightarrow>
                           (0, k1\<lparr>lk_cfg := c1\<lparr>lc_psk := key,
                              lc_default_tg := config_get_int cfg ''link'' ''default_tg'' 0,
                              lc_tail_ms := config_get_int cfg ''link'' ''link_tail_ms'' 500,
                              lc_jb_target_ms := config_get_int cfg ''link'' ''jitter_target_ms'' 100,
                              lc_bitrate := config_get_int cfg ''link'' ''opus_bitrate'' 32000,
                              lc_loss_perc := config_get_int cfg ''link'' ''opus_loss_perc'' 10,
                              lc_reconnect_min := config_get_int cfg ''link'' ''reconnect_min_ms'' 1000,
                              lc_reconnect_max := config_get_int cfg ''link'' ''reconnect_max_ms'' 60000,
                              lc_verify_peer := (case config_get cfg ''link'' ''verify_peer'' of None \<Rightarrow> True | Some v \<Rightarrow> is_yes (Some v))\<rparr>\<rparr>))
               | _ \<Rightarrow> (- 1, link_stop e (ER_text ''[link] requires node_id, reflector_ws, preshared_key_hex'') k)))"

end
