(* ===== verification/Link_Props.thy ===== *)
theory Link_Props
  imports Link_Client
begin

text \<open>
  The link module over its runs: PTT and the link events go in pairs, PTT is released when the stream
  stops, the reconnects back off, and a permanent refusal is final until the operator clears it.
\<close>

subsection \<open>PTT in pairs\<close>

text \<open>
  The effects as an observer of PTT sees them: a request or release is followed at once by its
  event, a request comes only while PTT is not held and a release only while it is.
\<close>

fun ptt_run :: "bool \<Rightarrow> leff list \<Rightarrow> bool option" where
  "ptt_run h [] = Some h"
| "ptt_run h (LE_request_ptt # es) =
     (case es of LE_rx_assert # rest \<Rightarrow> if h then None else ptt_run True rest | _ \<Rightarrow> None)"
| "ptt_run h (LE_release_ptt # es) =
     (case es of LE_rx_drop # rest \<Rightarrow> if h then ptt_run False rest else None | _ \<Rightarrow> None)"
| "ptt_run h (LE_rx_assert # es) = None"
| "ptt_run h (LE_rx_drop # es) = None"
| "ptt_run h (LE_send m # es) = ptt_run h es"
| "ptt_run h (LE_udp p # es) = ptt_run h es"
| "ptt_run h (LE_queue q # es) = ptt_run h es"
| "ptt_run h (LE_connect u # es) = ptt_run h es"

lemma ptt_run_append: "ptt_run h xs = Some h' \<Longrightarrow> ptt_run h (xs @ ys) = ptt_run h' ys"
  by (induction h xs rule: ptt_run.induct) (auto split: list.splits leff.splits if_splits)

definition paired :: "(link \<Rightarrow> link \<times> leff list) \<Rightarrow> bool" where
  "paired f \<longleftrightarrow> (\<forall>k. ptt_run (lk_ptt k) (snd (f k)) = Some (lk_ptt (fst (f k))))"

lemma pairedI: "(\<And>k. ptt_run (lk_ptt k) (snd (f k)) = Some (lk_ptt (fst (f k)))) \<Longrightarrow> paired f"
  by (simp add: paired_def)

lemma pairedD: "paired f \<Longrightarrow> f k = (k1, es) \<Longrightarrow> ptt_run (lk_ptt k) es = Some (lk_ptt k1)"
  by (auto simp: paired_def dest: spec[of _ k])

lemma paired_seq:
  "ptt_run h e1 = Some (lk_ptt k1) \<Longrightarrow> ptt_run (lk_ptt k1) e2 = Some h2 \<Longrightarrow> ptt_run h (e1 @ e2) = Some h2"
  by (simp add: ptt_run_append)

lemma paired_lsteps: "(\<And>x. x \<in> set xs \<Longrightarrow> paired (f x)) \<Longrightarrow> paired (lsteps f xs)"
proof (induction xs)
  case Nil
  show ?case by (rule pairedI) simp
next
  case (Cons x xs)
  show ?case
  proof (rule pairedI)
    fix k
    obtain k1 e1 where 1: "f x k = (k1, e1)" by (cases "f x k")
    obtain k2 e2 where 2: "lsteps f xs k1 = (k2, e2)" by (cases "lsteps f xs k1")
    have p: "paired (f x)" "paired (lsteps f xs)" using Cons by simp_all
    from paired_seq[OF pairedD[OF p(1) 1] pairedD[OF p(2) 2]] 1 2
    show "ptt_run (lk_ptt k) (snd (lsteps f (x # xs) k)) = Some (lk_ptt (fst (lsteps f (x # xs) k)))" by simp
  qed
qed

text \<open>An operation that neither touches PTT nor says anything of it.\<close>

definition off_ptt :: "leff list \<Rightarrow> bool" where
  "off_ptt es \<longleftrightarrow> (\<forall>e \<in> set es. case e of LE_send m \<Rightarrow> True | LE_udp p \<Rightarrow> True | LE_queue q \<Rightarrow> True | LE_connect u \<Rightarrow> True | _ \<Rightarrow> False)"

lemma off_ptt_run: "off_ptt es \<Longrightarrow> ptt_run h es = Some h"
  by (induction es) (auto simp: off_ptt_def split: leff.splits)

lemma off_ptt_simps [simp]:
  "off_ptt []" "off_ptt (x # es) \<longleftrightarrow> (case x of LE_send m \<Rightarrow> True | LE_udp p \<Rightarrow> True | LE_queue q \<Rightarrow> True | LE_connect u \<Rightarrow> True | _ \<Rightarrow> False) \<and> off_ptt es"
  by (auto simp: off_ptt_def)

lemma off_send [simp]: "off_ptt (send_ws m k)"
  by (simp add: send_ws_def)

lemma ptt_simps [simp]:
  "lk_ptt (set_state e st k) = lk_ptt k" "lk_ptt (set_error er k) = lk_ptt k" "lk_ptt (close_ws k) = lk_ptt k"
  by (simp_all add: set_state_def set_error_def close_ws_def)

lemma ptt_assert: "ptt_run (lk_ptt k) (snd (link_rx_assert k)) = Some True" "lk_ptt (fst (link_rx_assert k))"
  by (simp_all add: link_rx_assert_def)

lemma ptt_drop: "ptt_run (lk_ptt k) (snd (link_rx_drop k)) = Some False" "\<not> lk_ptt (fst (link_rx_drop k))"
  by (simp_all add: link_rx_drop_def)

lemma paired_off: "(\<And>k. off_ptt (snd (f k)) \<and> lk_ptt (fst (f k)) = lk_ptt k) \<Longrightarrow> paired f"
  by (rule pairedI) (simp add: off_ptt_run)

lemma paired_cleanup: "paired session_cleanup"
proof (rule pairedI)
  fix k
  obtain k1 es where "link_rx_drop k = (k1, es)" by (cases "link_rx_drop k")
  with ptt_drop[of k] show "ptt_run (lk_ptt k) (snd (session_cleanup k)) = Some (lk_ptt (fst (session_cleanup k)))"
    by (simp add: session_cleanup_def)
qed

lemma setup_ptt [simp]: "lk_ptt (snd (session_setup e m k)) = lk_ptt k"
  by (simp add: session_setup_def Let_def split: option.split prod.split)

lemma bootstrap_off: "off_ptt (snd (send_bootstrap e k)) \<and> lk_ptt (fst (send_bootstrap e k)) = lk_ptt k"
  by (simp add: send_bootstrap_def Let_def)

lemma msg_off: "off_ptt (snd (on_ws_msg e m k)) \<and> lk_ptt (fst (on_ws_msg e m k)) = lk_ptt k"
proof (cases m)
  case (S_hello chal)
  then show ?thesis by (simp add: on_ws_msg_def on_hello_def split: option.split)
next
  case (S_login_ok l)
  obtain ok k1 where s: "session_setup e l k = (ok, k1)" by (cases "session_setup e l k")
  then have "lk_ptt k1 = lk_ptt k" using setup_ptt[of e l k] by simp
  with S_login_ok s show ?thesis
    using bootstrap_off[of e "(set_state e LST_CONNECTED k1)\<lparr>lk_attempt := 0, lk_error := ER_none\<rparr>"] by (simp add: on_ws_msg_def on_login_ok_def)
qed (auto simp: on_ws_msg_def on_login_denied_def on_kicked_def on_reflector_shutdown_def on_target_bitrate_def Let_def split: option.split)

lemma paired_close: "paired (on_ws_close e)"
proof (rule pairedI)
  fix k
  obtain k1 es where c: "session_cleanup (k\<lparr>lk_ws := False, lk_closing := False\<rparr>) = (k1, es)"
    by (cases "session_cleanup (k\<lparr>lk_ws := False, lk_closing := False\<rparr>)")
  with pairedD[OF paired_cleanup c]
  show "ptt_run (lk_ptt k) (snd (on_ws_close e k)) = Some (lk_ptt (fst (on_ws_close e k)))"
    by (simp add: on_ws_close_def Let_def)
qed

lemma paired_event: "paired (ws_event_step e ev)"
proof (rule pairedI)
  fix k
  show "ptt_run (lk_ptt k) (snd (ws_event_step e ev k)) = Some (lk_ptt (fst (ws_event_step e ev k)))"
    using msg_off paired_close by (cases ev) (simp_all add: ws_event_step_def off_ptt_run paired_def)
qed

lemma paired_requests: "paired (serve_requests e)"
  by (rule paired_off) (simp add: serve_requests_def Let_def)

lemma paired_report: "paired (report_quality e)"
  by (rule paired_off) (simp add: report_quality_def send_quality_report_def Let_def case_prod_beta split: option.split)

lemma paired_connect: "paired (try_connect e)"
  by (rule paired_off) (simp add: try_connect_def Let_def)

lemma paired_play: "paired (play_one e np)"
proof (rule pairedI)
  fix k
  show "ptt_run (lk_ptt k) (snd (play_one e np k)) = Some (lk_ptt (fst (play_one e np k)))"
    using ptt_assert[of k] by (simp add: play_one_def play_frame_def Let_def case_prod_beta split: option.split)
qed

lemma paired_tick: "paired (jb_playout_tick e)"
proof (rule pairedI)
  fix k :: link
  obtain ps guard j where p: "jb_playout 10 (le_now e) (lk_jb k) = (ps, guard, j)" by (metis prod_cases3)
  obtain k1 e1 where 1: "lsteps (play_one e) (enumerate 0 ps) (k\<lparr>lk_jb := j\<rparr>) = (k1, e1)"
    by (cases "lsteps (play_one e) (enumerate 0 ps) (k\<lparr>lk_jb := j\<rparr>)")
  have "paired (lsteps (play_one e) (enumerate 0 ps))" by (rule paired_lsteps) (rule paired_play)
  from pairedD[OF this 1] have r: "ptt_run (lk_ptt k) e1 = Some (lk_ptt k1)" by simp
  obtain k2 e2 where 2: "link_rx_drop k1 = (k2, e2)" by (cases "link_rx_drop k1")
  from ptt_drop[of k1] 2 have "ptt_run (lk_ptt k1) e2 = Some (lk_ptt k2)" by simp
  with p 1 2 r show "ptt_run (lk_ptt k) (snd (jb_playout_tick e k)) = Some (lk_ptt (fst (jb_playout_tick e k)))"
    using paired_seq[OF r] by (cases guard) (simp_all add: jb_playout_tick_def)
qed

lemma take_ptt [simp]: "lk_ptt (take_packet e pkt k) = lk_ptt k"
  by (simp add: take_packet_def)

lemma auth_ptt [simp]: "lk_ptt (snd (auth_failure e k)) = lk_ptt k"
  by (simp add: auth_failure_def Let_def)

lemma drain_packets_ptt: "lk_ptt (snd (drain_packets e ps k)) = lk_ptt k"
proof (induction ps arbitrary: k)
  case (Cons np ps)
  obtain n p where np: "np = (n, p)" by (cases np)
  let ?k = "k\<lparr>lk_pkts_recv := lk_pkts_recv k + 1, lk_bytes_recv := lk_bytes_recv k + n\<rparr>"
  obtain stop k2 where a: "auth_failure e ?k = (stop, k2)" by (cases "auth_failure e ?k")
  then have "lk_ptt k2 = lk_ptt k" using auth_ptt[of e ?k] by simp
  with a np Cons.IH[of k2] Cons.IH[of "take_packet e (the p) ?k"] show ?case by (cases p) (simp_all add: Let_def)
qed simp

lemma paired_drain: "paired (drain_udp_recv e ps)"
proof (rule pairedI)
  fix k
  obtain stop k1 where 1: "drain_packets e ps k = (stop, k1)" by (cases "drain_packets e ps k")
  have s1: "lk_ptt k1 = lk_ptt k" using drain_packets_ptt[of e ps k] 1 by simp
  obtain k2 e2 where 2: "jb_playout_tick e k1 = (k2, e2)" by (cases "jb_playout_tick e k1")
  note r = pairedD[OF paired_tick 2]
  obtain k3 e3 where 3: "link_rx_drop k2 = (k3, e3)" by (cases "link_rx_drop k2")
  from ptt_drop[of k2] 3 have "ptt_run (lk_ptt k2) e3 = Some (lk_ptt k3)" by simp
  from paired_seq[OF r this] r 1 2 3 s1
  show "ptt_run (lk_ptt k) (snd (drain_udp_recv e ps k)) = Some (lk_ptt (fst (drain_udp_recv e ps k)))"
    by (simp add: drain_udp_recv_def)
qed

lemma paired_encode: "paired (drain_and_encode e)"
proof -
  have "paired (encode_one e nf)" for nf
    by (rule paired_off) (simp add: encode_one_def Let_def split: option.split)
  then have "paired (lsteps (encode_one e) xs)" for xs by (rule paired_lsteps)
  note l = this
  show ?thesis
  proof (rule pairedI)
    fix k :: link
    obtain fs q where f: "lr_frames 66 (lk_ring k) = (fs, q)" by (cases "lr_frames 66 (lk_ring k)")
    obtain k1 es where "lsteps (encode_one e) (enumerate 0 fs) (k\<lparr>lk_ring := q\<rparr>) = (k1, es)"
      by (cases "lsteps (encode_one e) (enumerate 0 fs) (k\<lparr>lk_ring := q\<rparr>)")
    with pairedD[OF l this] f show "ptt_run (lk_ptt k) (snd (drain_and_encode e k)) = Some (lk_ptt (fst (drain_and_encode e k)))"
      by (simp add: drain_and_encode_def)
  qed
qed

lemma paired_pace: "paired (pace_encode e)"
proof (rule pairedI)
  fix k
  obtain k1 es where "drain_and_encode e k = (k1, es)" by (cases "drain_and_encode e k")
  with pairedD[OF paired_encode this] show "ptt_run (lk_ptt k) (snd (pace_encode e k)) = Some (lk_ptt (fst (pace_encode e k)))"
    by (simp add: pace_encode_def)
qed

lemma paired_nat: "paired (nat_keepalive e)"
proof (rule paired_off)
  fix k
  show "off_ptt (snd (nat_keepalive e k)) \<and> lk_ptt (fst (nat_keepalive e k)) = lk_ptt k"
    using bootstrap_off[of e k] by (simp add: nat_keepalive_def case_prod_beta)
qed

lemma paired_pass: "paired (bg_pass e evs ps)"
proof -
  have "paired (lsteps (ws_event_step e) evs)" by (rule paired_lsteps) (rule paired_event)
  then have "paired (lsteps (\<lambda>f. f) [lsteps (ws_event_step e) evs, serve_requests e, report_quality e, try_connect e, drain_udp_recv e ps, pace_encode e, nat_keepalive e])"
    by (intro paired_lsteps) (auto simp: paired_requests paired_report paired_connect paired_drain paired_pace paired_nat)
  then show ?thesis by (simp only: bg_pass_def[abs_def])
qed

subsection \<open>Runs\<close>

text \<open>A pass of the background thread, or what another thread does in between; unloading ends a run.\<close>

datatype link_input =
    T_pass link_env "ws_event list" "(nat \<times> byte list option) list"
  | T_tap int "int list"
  | T_cor bool
  | T_cli "string list"
  | T_dtmf "string option"
  | T_configure link_env config
  | T_unload

fun link_step :: "link_input \<Rightarrow> link \<Rightarrow> link \<times> leff list" where
  "link_step (T_pass e evs ps) k = bg_pass e evs ps k"
| "link_step (T_tap rate samples) k = (link_audio_tap rate samples k, [])"
| "link_step (T_cor on) k = (link_on_cor on k, [])"
| "link_step (T_cli args) k = (snd (cli_link args k), [])"
| "link_step (T_dtmf arg) k = (on_dtmf_set_tg arg k, [])"
| "link_step (T_configure e cfg) k = (snd (link_configure e cfg k), [])"
| "link_step T_unload k = session_cleanup k"

lemma configure_ptt: "lk_ptt (snd (link_configure e cfg k)) = lk_ptt k"
  by (simp add: link_configure_def link_stop_def Let_def split: option.split)

lemma paired_step: "paired (link_step st)"
proof (cases st)
  case (T_pass e evs ps)
  with paired_pass show ?thesis by (simp add: paired_def)
next
  case T_unload
  with paired_cleanup show ?thesis by (simp add: paired_def)
next
  case (T_cli args)
  show ?thesis unfolding T_cli by (rule paired_off) (simp add: cli_link_def split: list.split)
next
  case (T_dtmf arg)
  show ?thesis unfolding T_dtmf by (rule paired_off) (simp add: on_dtmf_set_tg_def split: option.split)
next
  case (T_configure e cfg)
  show ?thesis unfolding T_configure by (rule paired_off) (simp add: configure_ptt)
qed (rule paired_off, simp add: link_audio_tap_def link_on_cor_def)+

text \<open>
  C11. Over every run of the module, whatever the reflector, the network and the other threads do, PTT is
  requested only while the module does not hold it and released only while it does, each
  time together with its link event; what it holds at the end is what it has requested and
  not released, and after unloading it holds nothing.
\<close>

theorem link_ptt_paired:
  "ptt_run (lk_ptt k) (snd (lsteps link_step sts k)) = Some (lk_ptt (fst (lsteps link_step sts k))) \<and>
   \<not> lk_ptt (fst (link_step T_unload (fst (lsteps link_step sts k))))"
proof
  have "paired (lsteps link_step sts)" by (rule paired_lsteps) (rule paired_step)
  then show "ptt_run (lk_ptt k) (snd (lsteps link_step sts k)) = Some (lk_ptt (fst (lsteps link_step sts k)))"
    by (simp add: paired_def)
  show "\<not> lk_ptt (fst (link_step T_unload (fst (lsteps link_step sts k))))"
    using ptt_drop(2) by (simp add: session_cleanup_def case_prod_beta)
qed

subsection \<open>PTT is released\<close>

definition rest_of :: "link \<Rightarrow> bool \<times> bool \<times> bool \<times> jbuf" where
  "rest_of k = (lk_udp k, lk_active k, lk_muted k, lk_jb k)"

lemma play_rest: "rest_of (fst (lsteps (play_one e) xs k)) = rest_of k"
proof (induction xs arbitrary: k)
  case (Cons x xs)
  obtain k1 e1 where 1: "play_one e x k = (k1, e1)" by (cases "play_one e x k")
  have "rest_of (fst (play_one e x k)) = rest_of k"
    by (simp add: play_one_def play_frame_def link_rx_assert_def rest_of_def Let_def split: option.split)
  with 1 Cons.IH[of k1] show ?case by (simp add: case_prod_beta)
qed simp

lemma drop_rest [simp]: "rest_of (fst (link_rx_drop k)) = rest_of k"
  by (simp add: link_rx_drop_def rest_of_def)

lemma idle_pass_rest:
  assumes "lk_udp k" "lk_active k" "\<not> lk_muted k" "jb_tick (le_now e) (lk_jb k) = (ps, guard, j)" "drain_udp_recv e [] k = (k1, es)"
  shows "rest_of k1 = (True, True, False, j)" "guard \<Longrightarrow> \<not> lk_ptt k1" "\<not> jb_on (lk_jb k) \<Longrightarrow> \<not> lk_ptt k \<Longrightarrow> \<not> lk_ptt k1"
proof -
  obtain k2 e2 where t: "jb_playout_tick e k = (k2, e2)" by (cases "jb_playout_tick e k")
  obtain k3 e3 where p: "lsteps (play_one e) (enumerate 0 ps) (k\<lparr>lk_jb := j\<rparr>) = (k3, e3)"
    by (cases "lsteps (play_one e) (enumerate 0 ps) (k\<lparr>lk_jb := j\<rparr>)")
  have r3: "rest_of k3 = (True, True, False, j)"
    using play_rest[of e "enumerate 0 ps" "k\<lparr>lk_jb := j\<rparr>"] p assms(1-3) by (simp add: rest_of_def)
  have k2: "if jb_on (lk_jb k) then k2 = (if guard then fst (link_rx_drop k3) else k3) else k2 = k \<and> j = lk_jb k \<and> \<not> guard"
    using t assms(2-4) p by (auto simp: jb_playout_tick_def jb_tick_def case_prod_beta split: if_splits)
  have r2: "rest_of k2 = (True, True, False, j)"
  proof (cases "jb_on (lk_jb k)")
    case True
    with k2 r3 drop_rest[of k3] show ?thesis by (cases guard) simp_all
  next
    case False
    with k2 assms(1-3) show ?thesis by (simp add: rest_of_def)
  qed
  from k2 have g2: "guard \<Longrightarrow> \<not> lk_ptt k2" and off: "\<not> jb_on (lk_jb k) \<Longrightarrow> k2 = k"
    using ptt_drop(2)[of k3] by (auto split: if_splits)
  have k1: "k1 = k2 \<or> k1 = fst (link_rx_drop k2)"
    using assms(1,2,5) t by (auto simp: drain_udp_recv_def case_prod_beta split: if_splits)
  then show "rest_of k1 = (True, True, False, j)" using r2 by auto
  show "\<not> lk_ptt k1" if guard using k1 g2[OF that] ptt_drop(2)[of k2] by auto
  show "\<not> lk_ptt k1" if "\<not> jb_on (lk_jb k)" "\<not> lk_ptt k" using k1 off that ptt_drop(2)[of k2] by auto
qed

lemma playout_guard_off: "jb_playout b now j = (ps, True, j1) \<Longrightarrow> \<not> jb_on j1"
proof (induction b arbitrary: j ps)
  case (Suc b)
  obtain p x where p: "jb_pop j = (p, x)" by (cases "jb_pop j")
  obtain qs g y where q: "jb_playout b now x = (qs, g, y)" by (metis prod_cases3)
  show ?case
  proof (cases "now < jb_next j \<or> jb_miss x \<ge> JB_PLC_MAX")
    case True
    with Suc.prems p show ?thesis by (auto simp: jb_reset_def split: if_splits)
  next
    case False
    with Suc.prems p q have "g" "y = j1" by simp_all
    with Suc.IH[of x qs] q show ?thesis by simp
  qed
qed simp

lemma tick_guard_off: "jb_tick now j = (ps, True, j1) \<Longrightarrow> \<not> jb_on j1"
  using playout_guard_off by (auto simp: jb_tick_def split: if_splits)

lemma idle_passes:
  "lk_udp k \<Longrightarrow> lk_active k \<Longrightarrow> \<not> lk_muted k \<Longrightarrow>
   fst (jb_ticks (map le_now es) (lk_jb k)) \<or> \<not> jb_on (lk_jb k) \<and> \<not> lk_ptt k \<Longrightarrow>
   \<not> lk_ptt (fst (lsteps (\<lambda>e. drain_udp_recv e []) es k))"
proof (induction es arbitrary: k)
  case (Cons e es)
  obtain ps guard j where t: "jb_tick (le_now e) (lk_jb k) = (ps, guard, j)" by (metis prod_cases3)
  obtain k1 e1 where d: "drain_udp_recv e [] k = (k1, e1)" by (cases "drain_udp_recv e [] k")
  note P = idle_pass_rest[OF Cons.prems(1-3) t d]
  have k1: "lk_udp k1" "lk_active k1" "\<not> lk_muted k1" "lk_jb k1 = j" using P(1) by (simp_all add: rest_of_def)
  have "fst (jb_ticks (map le_now es) (lk_jb k1)) \<or> \<not> jb_on (lk_jb k1) \<and> \<not> lk_ptt k1"
  proof (cases "\<not> jb_on (lk_jb k) \<and> \<not> lk_ptt k")
    case True
    with t have "j = lk_jb k" by (auto simp: jb_tick_def)
    with True P(3) k1(4) show ?thesis by simp
  next
    case False
    with Cons.prems(4) t have "guard \<or> fst (jb_ticks (map le_now es) j)" by (auto simp: case_prod_beta)
    with P(2) tick_guard_off t k1(4) show ?thesis by auto
  qed
  with Cons.IH[OF k1(1-3)] d show ?case by (simp add: case_prod_beta)
qed simp

text \<open>
  PTT is released when the remote stops: with a session that is up and not muted, once no packet
  arrives any more, three passes of the receiver that come 1.8 seconds or more after the
  next turn of the playout, among passes at any times, leave PTT released.
\<close>

theorem link_releases_ptt:
  assumes "lk_udp k" "lk_active k" "\<not> lk_muted k" "jb_ok (lk_jb k)" "jb_on (lk_jb k)"
    and "3 \<le> length (filter (\<lambda>e. jb_next (lk_jb k) + 1800 \<le> le_now e) es)"
  shows "\<not> lk_ptt (fst (lsteps (\<lambda>e. drain_udp_recv e []) es k))"
proof (rule idle_passes[OF assms(1-3)])
  have "length (filter (\<lambda>t. jb_next (lk_jb k) + 1800 \<le> t) (map le_now es)) = length (filter (\<lambda>e. jb_next (lk_jb k) + 1800 \<le> le_now e) es)"
    by (simp add: filter_map comp_def)
  with ticks_end[OF assms(4,5), of "jb_next (lk_jb k) + 1800" "map le_now es"] jb_left_bounds[OF assms(4)] assms(6)
  show "fst (jb_ticks (map le_now es) (lk_jb k)) \<or> \<not> jb_on (lk_jb k) \<and> \<not> lk_ptt k" by simp
qed

text \<open>A muted client keeps PTT for as long as packets keep coming, and plays none of them.\<close>

lemma muted_keeps_ptt:
  assumes "lk_udp k" "lk_active k" "lk_muted k" "lk_ptt k" "12 < length pkt" "0 \<le> lc_tail_ms (lk_cfg k)"
  shows "lk_ptt (fst (drain_udp_recv e [(n, Some pkt)] k)) \<and> snd (drain_udp_recv e [(n, Some pkt)] k) = []"
  using assms by (simp add: drain_udp_recv_def jb_playout_tick_def take_packet_def Let_def)

subsection \<open>Reconnecting\<close>

lemma grow_delay: "0 < d \<Longrightarrow> min mx (grow_delay n mx d) = min mx (d * 2 ^ n)"
proof (induction n arbitrary: d)
  case (Suc n)
  show ?case
  proof (cases "d < mx")
    case True
    then show ?thesis using Suc.IH[of "2 * d"] Suc.prems by (simp add: mult.commute mult.left_commute)
  next
    case False
    have "d \<le> d * 2 ^ Suc n" using mult_left_mono[of 1 "2 ^ Suc n" d] Suc.prems one_le_power[of "2::int" "Suc n"] by linarith
    with False have "min mx (d * 2 ^ Suc n) = mx" by linarith
    with False show ?thesis by simp
  qed
qed simp

lemma reconnect_delay: "0 < mn \<Longrightarrow> reconnect_delay attempt mn mx = min mx (mn * 2 ^ nat (attempt - 1))"
  using grow_delay[of mn mx "nat (attempt - 1)"] by (auto simp: reconnect_delay_def Let_def min_def split: if_splits)

lemma jittered_bounds: "0 \<le> r \<Longrightarrow> 0 < d \<Longrightarrow> d - d div 10 \<le> jittered r d \<and> jittered r d \<le> d + d div 5 - d div 10"
proof -
  assume h: "0 \<le> r" "0 < d"
  then have "Prelude.cmod r (d div 5 + 1) = r mod (d div 5 + 1)" by (intro cmod_nonneg) (simp_all add: add_pos_nonneg pos_imp_zdiv_nonneg_iff add.commute)
  moreover have "0 \<le> r mod (d div 5 + 1)" "r mod (d div 5 + 1) < d div 5 + 1"
    using h by (simp_all add: pos_imp_zdiv_nonneg_iff add.commute add_pos_nonneg)
  ultimately show ?thesis using h by (simp add: jittered_def cdiv_nonneg)
qed

text \<open>
  The reconnects back off: when the websocket of a link that is not stopped closes, and nothing has
  set a later time, the next attempt is due after the minimal delay doubled once for every
  attempt after the first, at most the maximal one, give or take a tenth, and the count of
  attempts goes up; a time that a shutdown notice or a kick has set is left alone.
\<close>

theorem link_backoff:
  assumes "lk_ws k" "lk_state k \<noteq> LST_STOPPED" "0 < lc_reconnect_min (lk_cfg k)" "0 < lc_reconnect_max (lk_cfg k)" "0 \<le> le_rand e"
    and "ws_event_step e W_close k = (k', es)"
    and "d = min (lc_reconnect_max (lk_cfg k)) (lc_reconnect_min (lk_cfg k) * 2 ^ nat (lk_attempt k - 1))"
  shows "if lk_next k \<le> le_now e
    then le_now e + d - d div 10 \<le> lk_next k' \<and> lk_next k' \<le> le_now e + d + d div 5 - d div 10 \<and> lk_attempt k' = lk_attempt k + 1
    else lk_next k' = lk_next k \<and> lk_attempt k' = lk_attempt k"
proof -
  obtain k1 e1 where c: "session_cleanup (k\<lparr>lk_ws := False, lk_closing := False\<rparr>) = (k1, e1)"
    by (cases "session_cleanup (k\<lparr>lk_ws := False, lk_closing := False\<rparr>)")
  then have k1: "lk_state k1 = lk_state k" "lk_next k1 = lk_next k" "lk_attempt k1 = lk_attempt k" "lk_cfg k1 = lk_cfg k"
    by (cases "lk_ptt k"; auto simp: session_cleanup_def link_rx_drop_def)+
  have st: "lk_next (set_state e st x) = lk_next x" "lk_attempt (set_state e st x) = lk_attempt x" "lk_cfg (set_state e st x) = lk_cfg x" for st x
    by (simp_all add: set_state_def)
  have "0 < d" using assms(3,4,7) by simp
  note j = jittered_bounds[OF assms(5) this]
  have "reconnect_delay (lk_attempt k) (lc_reconnect_min (lk_cfg k)) (lc_reconnect_max (lk_cfg k)) = d"
    using reconnect_delay[OF assms(3)] assms(7) by simp
  with assms(1,2,6) c k1 j show ?thesis by (auto simp: ws_event_step_def on_ws_close_def Let_def st split: if_splits)
qed

text \<open>The reconnect of a link that has been in place for a while, and a session that is up.\<close>

definition demo_link :: link where
  "demo_link = \<lparr>lk_cfg = \<lparr>lc_enabled = True, lc_node_id = ''W1AW'', lc_reflector_ws = ''wss://refl/link'', lc_psk = [1], lc_default_tg = 1,
       lc_tail_ms = 500, lc_jb_target_ms = 100, lc_bitrate = 32000, lc_loss_perc = 10, lc_reconnect_min = 1000,
       lc_reconnect_max = 60000, lc_verify_peer = True\<rparr>,
     lk_state = LST_CONNECTED, lk_ws = True, lk_closing = False, lk_attempt = 3, lk_next = 0, lk_since = 0, lk_error = ER_none,
     lk_talker = [], lk_tg = 1, lk_members = [], lk_active = True, lk_enc = True, lk_dec = True, lk_udp = True, lk_ssrc = 7,
     lk_refl_ssrc = 8, lk_out_seq = 0, lk_out_ts = 0, lk_dst = (''refl'', 7878), lk_key = [], lk_pkts_sent = 0, lk_pkts_recv = 0,
     lk_bytes_sent = 0, lk_bytes_recv = 0, lk_auth_fail = 0, lk_decode_err = 0, lk_drift_count = 0, lk_drift_start = 0, lk_nat_ms = 0,
     lk_muted = False, lk_quality = quality_boot, lk_jb = demo_jbuf, lk_bitrate = 32000, lk_ptt = True, lk_last_recv = 0,
     lk_req_tg = 0, lk_req_reconnect = False, lk_req_clear = False, lk_rx_active = False, lk_ring = demo_ring,
     lk_next_send = 0, lk_next_quality = 0\<rparr>"

definition demo_env :: "int \<Rightarrow> link_env" where
  "demo_env t = \<lparr>le_now = t, le_epoch = 0, le_rand = 100, le_nonce = Some (replicate 16 0), le_hmac = (\<lambda>k m. Some (replicate 32 1)),
     le_resolve = (\<lambda>h. True), le_srtp_in = True, le_srtp_out = True, le_enc_ok = True, le_dec_ok = True, le_socket_ok = True,
     le_connect_ok = True, le_encode = (\<lambda>i s. None), le_decode = (\<lambda>i p. Some [1]), le_protect = (\<lambda>p. None), le_sent = (\<lambda>p. True),
     le_rate = 48000, le_resample = (\<lambda>s. s)\<rparr>"

theorem link_releases_ptt_witness:
  "\<not> lk_ptt (fst (lsteps (\<lambda>e. drain_udp_recv e []) (map demo_env [50, 160, 2000, 2060, 2120]) demo_link))"
proof (rule link_releases_ptt)
  have "jb_ok demo_jbuf" "jb_on demo_jbuf" "jb_next demo_jbuf = 100"
    by (simp_all add: demo_jbuf_def jb_insert_def jb_boot_def jb_start_def jb_put_def jb_ok_def jb_delta_def Let_def)
  then show "jb_ok (lk_jb demo_link)" "jb_on (lk_jb demo_link)"
    and "3 \<le> length (filter (\<lambda>e. jb_next (lk_jb demo_link) + 1800 \<le> le_now e) (map demo_env [50, 160, 2000, 2060, 2120]))"
    by (simp_all add: demo_link_def demo_env_def)
qed (simp_all add: demo_link_def)

theorem link_backoff_witness:
  "lk_next (fst (ws_event_step (demo_env 5000) W_close demo_link)) \<le> 9400 \<and>
   lk_attempt (fst (ws_event_step (demo_env 5000) W_close demo_link)) = 4"
proof -
  obtain k' es where k: "ws_event_step (demo_env 5000) W_close demo_link = (k', es)" by (cases "ws_event_step (demo_env 5000) W_close demo_link")
  have h: "lk_ws demo_link" "lk_state demo_link \<noteq> LST_STOPPED" "0 < lc_reconnect_min (lk_cfg demo_link)" "0 < lc_reconnect_max (lk_cfg demo_link)"
    "0 \<le> le_rand (demo_env 5000)" by (simp_all add: demo_link_def demo_env_def)
  have d: "4000 = min (lc_reconnect_max (lk_cfg demo_link)) (lc_reconnect_min (lk_cfg demo_link) * 2 ^ nat (lk_attempt demo_link - 1))"
    by (simp add: demo_link_def)
  from link_backoff[OF h k d] k show ?thesis by (simp add: demo_link_def demo_env_def)
qed

subsection \<open>A refusal is final\<close>

text \<open>A link that is stopped, without a websocket or a session, and that the operator has not asked to go on.\<close>

definition halted :: "link \<Rightarrow> bool" where
  "halted k \<longleftrightarrow> lk_state k = LST_STOPPED \<and> \<not> lk_ws k \<and> \<not> lk_active k \<and> \<not> lk_ptt k \<and> \<not> lk_req_clear k"

text \<open>What would let it go on: the command that clears the alarm, or a section that switches the link off.\<close>

fun no_resume :: "link_input \<Rightarrow> bool" where
  "no_resume (T_cli (c # args)) = (c \<noteq> ''clear-alarm'')"
| "no_resume (T_configure e cfg) = is_yes (config_get cfg ''link'' ''enabled'')"
| "no_resume _ = True"

lemma halted_lsteps:
  "(\<And>x k. x \<in> set xs \<Longrightarrow> halted k \<Longrightarrow> halted (fst (f x k)) \<and> snd (f x k) = []) \<Longrightarrow> halted k \<Longrightarrow>
   halted (fst (lsteps f xs k)) \<and> snd (lsteps f xs k) = []"
proof (induction xs arbitrary: k)
  case (Cons x xs)
  obtain k1 e1 where 1: "f x k = (k1, e1)" by (cases "f x k")
  from Cons.prems(1)[of x k] Cons.prems(2) 1 have "halted k1" "e1 = []" by simp_all
  with 1 Cons.IH[of k1] Cons.prems(1) show ?case by (simp add: case_prod_beta)
qed simp

lemma halted_ops:
  assumes "halted k"
  shows "ws_event_step e ev k = (k, [])" "halted (fst (serve_requests e k))" "snd (serve_requests e k) = []"
    "report_quality e k = (k, [])" "try_connect e k = (k, [])" "drain_udp_recv e ps k = (k, [])" "pace_encode e k = (k, [])"
    "nat_keepalive e k = (k, [])" "halted (fst (session_cleanup k))" "snd (session_cleanup k) = []"
    "halted (snd (cli_link [] k))" "c \<noteq> ''clear-alarm'' \<Longrightarrow> halted (snd (cli_link (c # args) k))" "halted (on_dtmf_set_tg t k)"
    "halted (link_audio_tap r xs k)" "halted (link_on_cor on k)"
  using assms
  by (simp_all add: halted_def ws_event_step_def serve_requests_def report_quality_def try_connect_def drain_udp_recv_def pace_encode_def
    nat_keepalive_def session_cleanup_def link_rx_drop_def cli_link_def on_dtmf_set_tg_def link_audio_tap_def link_on_cor_def Let_def
    split: list.split option.split)

lemma halted_events: "halted k \<Longrightarrow> halted (fst (lsteps (ws_event_step e) evs k)) \<and> snd (lsteps (ws_event_step e) evs k) = []"
  by (rule halted_lsteps) (simp_all add: halted_ops)

lemma halted_pass: "halted k \<Longrightarrow> halted (fst (bg_pass e evs ps k)) \<and> snd (bg_pass e evs ps k) = []"
  unfolding bg_pass_def by (rule halted_lsteps) (auto simp: halted_events halted_ops)

lemma halted_configure: "is_yes (config_get cfg ''link'' ''enabled'') \<Longrightarrow> halted k \<Longrightarrow> halted (snd (link_configure e cfg k))"
  by (simp add: link_configure_def link_stop_def set_error_def set_state_def halted_def Let_def split: option.split)

lemma halted_step: "no_resume st \<Longrightarrow> halted k \<Longrightarrow> halted (fst (link_step st k)) \<and> snd (link_step st k) = []"
  by (cases st rule: no_resume.cases) (simp_all add: halted_pass halted_configure halted_ops)

text \<open>
  A refusal is final: once the websocket of a stopped link has closed, no run of the module, whatever the
  network and the other threads do, connects, sends anything, touches PTT or leaves the stopped
  state, until the operator clears the alarm or switches the link off in the configuration.
\<close>

theorem link_stopped_stays:
  assumes "lk_state k = LST_STOPPED" "lk_ws k" "\<not> lk_req_clear k" "\<forall>st \<in> set sts. no_resume st"
  shows "snd (lsteps link_step sts (fst (ws_event_step e W_close k))) = [] \<and>
    lk_state (fst (lsteps link_step sts (fst (ws_event_step e W_close k)))) = LST_STOPPED"
proof -
  have "halted (fst (ws_event_step e W_close k))"
    using assms(1-3) by (simp add: ws_event_step_def on_ws_close_def session_cleanup_def link_rx_drop_def halted_def)
  from halted_lsteps[OF _ this, of sts link_step] assms(4) halted_step show ?thesis by (auto simp: halted_def)
qed

definition demo_stopped :: link where "demo_stopped = demo_link\<lparr>lk_state := LST_STOPPED\<rparr>"

theorem link_stopped_stays_witness:
  "lk_state (fst (lsteps link_step [T_cor True, T_cli [''reconnect''], T_pass (demo_env 99999) [W_open] []]
     (fst (ws_event_step (demo_env 5) W_close demo_stopped)))) = LST_STOPPED"
  by (rule conjunct2, rule link_stopped_stays) (simp_all add: demo_stopped_def demo_link_def)

end
