(* ===== verification/Reflector_Props.thy ===== *)
theory Reflector_Props
  imports Reflector
begin

text \<open>
  The invariants of the reflector over its event loop, the floor as an exclusive lease, who hears a
  talker, and who gets in.
\<close>

subsection \<open>What an operation leaves alone\<close>

text \<open>
  The part of the state that the invariant speaks of: who is connected over which websocket and
  on which talkgroup, who has the floor, and what the websockets are authenticated as.
\<close>

definition nview :: "node_rt \<Rightarrow> bool \<times> nat option \<times> nat" where
  "nview r = (nr_connected r, nr_c r, nr_tg r)"

definition cview :: "rconn \<Rightarrow> conn_state \<times> nat option" where
  "cview x = (cn_state x, cn_node x)"

definition core :: "refl \<Rightarrow> rcfg \<times> (nat \<Rightarrow> bool \<times> nat option \<times> nat) \<times> (nat \<Rightarrow> nat option) \<times> (nat \<Rightarrow> (conn_state \<times> nat option) option)" where
  "core s = (rf_cfg s, (\<lambda>n. nview (rf_node s n)), (\<lambda>i. tr_talker (rf_tg s i)), (\<lambda>c. map_option cview (rf_conn s c)))"

definition neutral :: "rop \<Rightarrow> bool" where
  "neutral f \<longleftrightarrow> (\<forall>s. core (fst (f s)) = core s)"

lemma fst_then_op [simp]: "fst (then_op f g s) = fst (g (fst (f s)))"
  by (simp add: then_op_def split: prod.split)

lemma snd_then_op: "snd (then_op f g s) = snd (f s) @ snd (g (fst (f s)))"
  by (simp add: then_op_def split: prod.split)

lemma op_simps [simp]:
  "fst (do_nothing s) = s" "fst (just h s) = h s" "fst (tell t s) = s" "fst (send c m s) = s"
  "fst (send_close c m s) = upd_conn c (\<lambda>x. x\<lparr>cn_draining := True\<rparr>) s"
  by (simp_all add: do_nothing_def just_def tell_def send_def send_close_def)

lemma op_effects [simp]:
  "snd (do_nothing s) = []" "snd (just h s) = []" "snd (tell t s) = t s" "snd (send c m s) = [Rf_send c m]"
  "snd (send_close c m s) = [Rf_send c m]"
  by (simp_all add: do_nothing_def just_def tell_def send_def send_close_def)

lemma each_inv:
  "P s \<Longrightarrow> (\<And>x s. x \<in> set xs \<Longrightarrow> P s \<Longrightarrow> P (fst (f x s))) \<Longrightarrow> P (fst (each f xs s))"
  by (induction xs arbitrary: s) simp_all

lemma upd_simps [simp]:
  "rf_cfg (upd_node n f s) = rf_cfg s" "rf_cfg (upd_tg i g s) = rf_cfg s" "rf_cfg (upd_conn c h s) = rf_cfg s"
  "rf_tg (upd_node n f s) = rf_tg s" "rf_tg (upd_conn c h s) = rf_tg s" "rf_tg (upd_tg i g s) = (rf_tg s)(i := g (rf_tg s i))"
  "rf_node (upd_tg i g s) = rf_node s" "rf_node (upd_conn c h s) = rf_node s"
  "rf_node (upd_node n f s) = (rf_node s)(n := f (rf_node s n))"
  "rf_conn (upd_node n f s) = rf_conn s" "rf_conn (upd_tg i g s) = rf_conn s"
  "rf_conn (upd_conn c h s) = (rf_conn s)(c := map_option h (rf_conn s c))"
  "rf_order (upd_node n f s) = rf_order s" "rf_order (upd_tg i g s) = rf_order s" "rf_order (upd_conn c h s) = rf_order s"
  by (simp_all add: upd_node_def upd_tg_def upd_conn_def)

lemma core_upd_node: "(\<And>r. nview (f r) = nview r) \<Longrightarrow> core (upd_node n f s) = core s"
  by (auto simp: core_def)

lemma core_upd_tg: "(\<And>t. tr_talker (g t) = tr_talker t) \<Longrightarrow> core (upd_tg i g s) = core s"
  by (auto simp: core_def)

lemma core_upd_conn: "(\<And>x. cview (h x) = cview x) \<Longrightarrow> core (upd_conn c h s) = core s"
  by (auto simp: core_def option.map_comp comp_def)

lemma neutral_each: "(\<And>x. neutral (f x)) \<Longrightarrow> neutral (each f xs)"
  by (induction xs) (simp_all add: neutral_def)

lemma neutral_then: "neutral f \<Longrightarrow> neutral g \<Longrightarrow> neutral (then_op f g)"
  by (simp add: neutral_def)

lemma neutral_simps [simp]:
  "neutral do_nothing" "neutral (tell t)" "neutral (send c m)" "neutral (send_close c m)"
  by (simp_all add: neutral_def core_upd_conn cview_def)

lemma neutralD: "neutral f \<Longrightarrow> core (fst (f s)) = core s"
  by (simp add: neutral_def)

subsection \<open>The operations that leave it alone\<close>

lemma neutral_for_tg: "(\<And>i. neutral (f i)) \<Longrightarrow> neutral (for_tg tg f)"
  by (simp add: neutral_def for_tg_def split: option.split)

lemma neutral_roster [simp]: "neutral (broadcast_tg_roster i)"
  by (simp add: broadcast_tg_roster_def)

lemma neutral_keepalive: "neutral (keepalive_tick env)"
proof -
  have "neutral (keepalive_one env c)" for c
    by (auto simp: neutral_def keepalive_one_def Let_def core_upd_conn cview_def split: option.split)
  then have "neutral (each (keepalive_one env) xs)" for xs by (rule neutral_each)
  then show ?thesis by (simp add: neutral_def keepalive_tick_def)
qed

lemma neutral_kick [simp]: "neutral (kick_node n code msg)"
  by (simp add: neutral_def kick_node_def core_upd_conn cview_def split: option.split)

lemma core_kick [simp]: "core (fst (kick_node n code msg s)) = core s"
  by (rule neutralD) simp

lemma neutral_admin: "core (fst (snd (admin_node_action node act s))) = core s"
  by (auto simp: admin_node_action_def Let_def core_upd_node nview_def neutralD split: option.split admin_action.split)

lemma neutral_quality: "neutral (handle_quality env c n loss)"
  unfolding handle_quality_def
  by (intro neutral_then)
    (auto simp: neutral_def core_upd_node nview_def record_loss_def for_tg_def split: option.split)

lemma neutral_untyped: "neutral (handle_untyped env c)"
proof -
  have "cview (count_bad env x) = cview x" for x by (simp add: count_bad_def cview_def Let_def)
  then show ?thesis by (auto simp: neutral_def handle_untyped_def Let_def core_upd_conn cview_def split: option.split)
qed

lemma neutral_auth_failed: "neutral (auth_failed env d)"
proof -
  have "nview (count_auth_fail env r) = nview r" for r by (simp add: count_auth_fail_def nview_def Let_def)
  then show ?thesis by (auto simp: neutral_def auth_failed_def Let_def core_upd_node split: option.split)
qed

lemma neutral_forward: "neutral (forward_to d pkt sender p)"
  by (auto simp: neutral_def forward_to_def Let_def core_upd_node nview_def split: option.split prod.split)

lemma neutral_deny: "neutral (deny_floor env i n)"
  by (auto simp: neutral_def deny_floor_def core_upd_node nview_def)

lemma core_learn: "core (upd_node n (learn_addr src) s) = core s"
  by (simp add: core_upd_node learn_addr_def nview_def)

lemma core_open: "core (fst (ws_open env c chal s)) =
    (let (cfg, N, T, C) = core s in (cfg, N, T, C(c \<mapsto> (CST_AWAITING_LOGIN, None))))"
  by (auto simp: ws_open_def send_hello_def core_def cview_def new_conn_def fun_eq_iff split: option.split)

subsection \<open>The invariant\<close>

text \<open>
  A node is connected over exactly the websocket that is authenticated as it, on a talkgroup
  that it is allowed on, and the holder of a floor is connected and on that talkgroup.
\<close>

definition refl_inv :: "refl \<Rightarrow> bool" where
  "refl_inv s \<longleftrightarrow>
     rcfg_ok (rf_cfg s) \<and>
     (\<forall>n. nr_connected (rf_node s n) \<longleftrightarrow> nr_c (rf_node s n) \<noteq> None) \<and>
     (\<forall>n c. nr_c (rf_node s n) = Some c \<longleftrightarrow> (\<exists>x. rf_conn s c = Some x \<and> cn_node x = Some n)) \<and>
     (\<forall>c x. rf_conn s c = Some x \<longrightarrow> (cn_state x = CST_AUTHENTICATED \<longleftrightarrow> cn_node x \<noteq> None)) \<and>
     (\<forall>n. nr_connected (rf_node s n) \<longrightarrow> rcfg_node_allowed_on_tg (rf_cfg s) n (nr_tg (rf_node s n))) \<and>
     (\<forall>i h. i < length (rc_tgs (rf_cfg s)) \<longrightarrow> tr_talker (rf_tg s i) = Some h \<longrightarrow>
        nr_connected (rf_node s h) \<and> rcfg_tg_idx (rf_cfg s) (nr_tg (rf_node s h)) = Some i)"

definition conn_ok ::
  "rcfg \<Rightarrow> (nat \<Rightarrow> bool \<times> nat option \<times> nat) \<Rightarrow> (nat \<Rightarrow> (conn_state \<times> nat option) option) \<Rightarrow> bool" where
  "conn_ok cfg N C \<longleftrightarrow>
     rcfg_ok cfg \<and>
     (\<forall>n. fst (N n) \<longleftrightarrow> fst (snd (N n)) \<noteq> None) \<and>
     (\<forall>n c. fst (snd (N n)) = Some c \<longleftrightarrow> (\<exists>st. C c = Some (st, Some n))) \<and>
     (\<forall>c st m. C c = Some (st, m) \<longrightarrow> (st = CST_AUTHENTICATED \<longleftrightarrow> m \<noteq> None)) \<and>
     (\<forall>n. fst (N n) \<longrightarrow> rcfg_node_allowed_on_tg cfg n (snd (snd (N n))))"

definition floor_ok :: "rcfg \<Rightarrow> (nat \<Rightarrow> bool \<times> nat option \<times> nat) \<Rightarrow> (nat \<Rightarrow> nat option) \<Rightarrow> bool" where
  "floor_ok cfg N T \<longleftrightarrow>
     (\<forall>i h. i < length (rc_tgs cfg) \<longrightarrow> T i = Some h \<longrightarrow> fst (N h) \<and> rcfg_tg_idx cfg (snd (snd (N h))) = Some i)"

definition inv_of ::
  "rcfg \<times> (nat \<Rightarrow> bool \<times> nat option \<times> nat) \<times> (nat \<Rightarrow> nat option) \<times> (nat \<Rightarrow> (conn_state \<times> nat option) option) \<Rightarrow> bool" where
  "inv_of v = (case v of (cfg, N, T, C) \<Rightarrow> conn_ok cfg N C \<and> floor_ok cfg N T)"

lemma refl_invD:
  assumes "refl_inv s"
  shows "nr_connected (rf_node s n) \<longleftrightarrow> nr_c (rf_node s n) \<noteq> None"
    "nr_c (rf_node s n) = Some c \<longleftrightarrow> (\<exists>x. rf_conn s c = Some x \<and> cn_node x = Some n)"
    "rf_conn s c = Some x \<Longrightarrow> cn_state x = CST_AUTHENTICATED \<longleftrightarrow> cn_node x \<noteq> None"
    "nr_connected (rf_node s n) \<Longrightarrow> rcfg_node_allowed_on_tg (rf_cfg s) n (nr_tg (rf_node s n))"
    "i < length (rc_tgs (rf_cfg s)) \<Longrightarrow> tr_talker (rf_tg s i) = Some h \<Longrightarrow>
       nr_connected (rf_node s h) \<and> rcfg_tg_idx (rf_cfg s) (nr_tg (rf_node s h)) = Some i"
  using assms unfolding refl_inv_def by blast+

lemma refl_inv_core: "refl_inv s \<longleftrightarrow> inv_of (core s)"
proof -
  have c: "(\<exists>st. map_option cview (rf_conn s c) = Some (st, Some n)) \<longleftrightarrow> (\<exists>x. rf_conn s c = Some x \<and> cn_node x = Some n)" for c n
    by (auto simp: cview_def)
  have d: "(\<forall>st m. map_option cview (rf_conn s c) = Some (st, m) \<longrightarrow> (st = CST_AUTHENTICATED \<longleftrightarrow> m \<noteq> None)) \<longleftrightarrow>
      (\<forall>x. rf_conn s c = Some x \<longrightarrow> (cn_state x = CST_AUTHENTICATED \<longleftrightarrow> cn_node x \<noteq> None))" for c
    by (auto simp: cview_def)
  show ?thesis by (simp only: refl_inv_def inv_of_def conn_ok_def floor_ok_def core_def nview_def fst_conv snd_conv prod.case c d conj_assoc)
qed

lemma conn_okD:
  assumes "conn_ok cfg N C"
  shows "C c = Some (st, m) \<Longrightarrow> st = CST_AUTHENTICATED \<longleftrightarrow> m \<noteq> None"
    "fst (N n) \<longleftrightarrow> fst (snd (N n)) \<noteq> None"
    "fst (snd (N n)) = Some d \<longleftrightarrow> (\<exists>st. C d = Some (st, Some n))"
    "fst (N n) \<Longrightarrow> rcfg_node_allowed_on_tg cfg n (snd (snd (N n)))" "rcfg_ok cfg"
  using assms unfolding conn_ok_def by blast+

lemma conn_okI:
  assumes "rcfg_ok cfg" "\<And>n. fst (N n) \<longleftrightarrow> fst (snd (N n)) \<noteq> None"
    "\<And>n c. fst (snd (N n)) = Some c \<longleftrightarrow> (\<exists>st. C c = Some (st, Some n))"
    "\<And>c st m. C c = Some (st, m) \<Longrightarrow> st = CST_AUTHENTICATED \<longleftrightarrow> m \<noteq> None"
    "\<And>n. fst (N n) \<Longrightarrow> rcfg_node_allowed_on_tg cfg n (snd (snd (N n)))"
  shows "conn_ok cfg N C"
  using assms unfolding conn_ok_def by blast

lemma core_cases:
  obtains cfg N T C where "core s = (cfg, N, T, C)" "rf_cfg s = cfg" "\<And>n. nview (rf_node s n) = N n"
    "\<And>i. tr_talker (rf_tg s i) = T i" "\<And>c. map_option cview (rf_conn s c) = C c"
  by (simp add: core_def)

lemma inv_of_release: "inv_of (cfg, N, T, C) \<Longrightarrow> inv_of (cfg, N, T(i := None), C)"
  by (simp add: inv_of_def floor_ok_def)

lemma inv_of_grant:
  "inv_of (cfg, N, T, C) \<Longrightarrow> fst (N n) \<Longrightarrow> rcfg_tg_idx cfg (snd (snd (N n))) = Some i \<Longrightarrow> inv_of (cfg, N, T(i := Some n), C)"
  by (auto simp: inv_of_def floor_ok_def)

lemma inv_neutral: "neutral f \<Longrightarrow> refl_inv s \<Longrightarrow> refl_inv (fst (f s))"
  by (simp add: refl_inv_core neutralD)

lemma inv_core: "core s' = core s \<Longrightarrow> refl_inv s \<Longrightarrow> refl_inv s'"
  by (simp add: refl_inv_core)

lemma tg_idx_less: "rcfg_tg_idx cfg tg = Some i \<Longrightarrow> i < length (rc_tgs cfg) \<and> rt_number (rc_tgs cfg ! i) = tg"
  by (auto simp: rcfg_tg_idx_def dest: find_idx_less find_idx_nth)

lemma allowed_tg_idx: "rcfg_node_allowed_on_tg cfg n tg \<Longrightarrow> \<exists>i. rcfg_tg_idx cfg tg = Some i"
  by (auto simp: rcfg_node_allowed_on_tg_def split: if_splits option.splits)

lemma allowed_node: "rcfg_node_allowed_on_tg cfg n tg \<Longrightarrow> n < length (rc_nodes cfg)"
  by (auto simp: rcfg_node_allowed_on_tg_def split: if_splits)

lemma allowed_pos: "rcfg_ok cfg \<Longrightarrow> rcfg_node_allowed_on_tg cfg n tg \<Longrightarrow> 0 < tg"
proof -
  assume ok: "rcfg_ok cfg" and a: "rcfg_node_allowed_on_tg cfg n tg"
  then obtain i where "rcfg_tg_idx cfg tg = Some i" using allowed_tg_idx by blast
  then have "i < length (rc_tgs cfg)" "rt_number (rc_tgs cfg ! i) = tg" by (simp_all add: tg_idx_less)
  with ok show ?thesis by (metis nth_mem rcfg_ok_def rcfg_tg_ok_def tg_number_ok_def)
qed

subsection \<open>The floor\<close>

lemma grant_cases:
  assumes "floor_try_grant env i n s = (ok, s', es)"
  shows "(\<not> ok \<and> s' = s \<and> es = [] \<and> (\<exists>h. tr_talker (rf_tg s i) = Some h \<and> h \<noteq> n) \<and> en_now env < tr_lease (rf_tg s i)) \<or>
    (ok \<and> tr_talker (rf_tg s' i) = Some n \<and> tr_lease (rf_tg s' i) = en_now env + rc_hangtime_ms (rf_cfg s) \<and>
     (\<forall>j. j \<noteq> i \<longrightarrow> rf_tg s' j = rf_tg s j) \<and> rf_cfg s' = rf_cfg s \<and> rf_conn s' = rf_conn s \<and> rf_order s' = rf_order s \<and>
     (\<forall>m. nview (rf_node s' m) = nview (rf_node s m) \<and> nr_audio (rf_node s' m) = nr_audio (rf_node s m)) \<and>
     (tr_talker (rf_tg s i) = None \<or> tr_talker (rf_tg s i) = Some n \<or> tr_lease (rf_tg s i) \<le> en_now env))"
  using assms by (auto simp: floor_try_grant_def Let_def nview_def split: if_splits)

lemma core_grant:
  assumes "floor_try_grant env i n s = (True, s', es)"
  shows "core s' = (case core s of (cfg, N, T, C) \<Rightarrow> (cfg, N, T(i := Some n), C))"
  using grant_cases[OF assms] by (auto simp: core_def fun_eq_iff)

lemma inv_grant:
  assumes "floor_try_grant env i n s = (ok, s', es)" "refl_inv s" "nr_connected (rf_node s n)"
    "rcfg_tg_idx (rf_cfg s) (nr_tg (rf_node s n)) = Some i"
  shows "refl_inv s'"
proof (cases ok)
  case False
  then show ?thesis using grant_cases[OF assms(1)] assms(2) by simp
next
  case True
  have "core s' = (case core s of (cfg, N, T, C) \<Rightarrow> (cfg, N, T(i := Some n), C))" using core_grant[of env i n s s' es] assms(1) True by simp
  moreover have "fst (nview (rf_node s n))" "rcfg_tg_idx (rf_cfg s) (snd (snd (nview (rf_node s n)))) = Some i"
    using assms(3,4) by (simp_all add: nview_def)
  ultimately show ?thesis
    using assms(2) inv_of_grant by (cases s rule: core_cases) (simp add: refl_inv_core)
qed

lemma core_release:
  "core (fst (floor_release env i r s)) = (case core s of (cfg, N, T, C) \<Rightarrow> (cfg, N, T(i := None), C))"
proof -
  have "nview (tally_airtime env x) = nview x" for x by (simp add: tally_airtime_def nview_def)
  then show ?thesis by (auto simp: floor_release_def core_def Let_def fun_eq_iff split: option.split)
qed

lemma inv_release: "refl_inv s \<Longrightarrow> refl_inv (fst (floor_release env i r s))"
  by (cases s rule: core_cases) (simp add: refl_inv_core core_release inv_of_release)

lemma inv_release_if: "refl_inv s \<Longrightarrow> refl_inv (fst (release_if_holder env n i s))"
  by (simp add: release_if_holder_def inv_release)

subsection \<open>Every input keeps the invariant\<close>

lemma inv_switch:
  assumes "refl_inv s" "rcfg_node_allowed_on_tg (rf_cfg s) n tg"
    "\<And>j. j < length (rc_tgs (rf_cfg s)) \<Longrightarrow> tr_talker (rf_tg s j) = Some n \<Longrightarrow> nr_tg (rf_node s n) = tg"
  shows "refl_inv (upd_node n (\<lambda>r. r\<lparr>nr_tg := tg\<rparr>) s)"
  using assms by (auto simp: refl_inv_def)

lemma released_not_holder:
  assumes "refl_inv s" "rcfg_tg_idx (rf_cfg s) (nr_tg (rf_node s n)) = Some oi" "s1 = fst (release_if_holder env n oi s)"
  shows "refl_inv s1" "rf_cfg s1 = rf_cfg s" "nview (rf_node s1 m) = nview (rf_node s m)"
    "j < length (rc_tgs (rf_cfg s)) \<Longrightarrow> tr_talker (rf_tg s1 j) \<noteq> Some n"
proof -
  have c: "core s1 = core s \<or> core s1 = (case core s of (cfg, N, T, C) \<Rightarrow> (cfg, N, T(oi := None), C))"
    by (simp add: assms(3) release_if_holder_def core_release)
  show inv: "refl_inv s1" using assms(1,3) by (simp add: inv_release_if)
  from c show cfg: "rf_cfg s1 = rf_cfg s" by (auto simp: core_def)
  from c show v: "nview (rf_node s1 m) = nview (rf_node s m)" for m by (auto simp: core_def fun_eq_iff)
  have oi: "tr_talker (rf_tg s1 oi) \<noteq> Some n"
    using arg_cong[OF core_release[of env oi None s], of "\<lambda>(cfg, N, T, C). T oi"]
    by (auto simp: assms(3) release_if_holder_def core_def)
  show "tr_talker (rf_tg s1 j) \<noteq> Some n" if "j < length (rc_tgs (rf_cfg s))"
  proof
    assume "tr_talker (rf_tg s1 j) = Some n"
    with inv that cfg have "rcfg_tg_idx (rf_cfg s) (nr_tg (rf_node s1 n)) = Some j" by (simp add: refl_inv_def)
    with assms(2) v[of n] have "j = oi" by (simp add: nview_def)
    with oi \<open>tr_talker (rf_tg s1 j) = Some n\<close> show False by simp
  qed
qed

lemma inv_set_tg:
  assumes "refl_inv s" "nr_connected (rf_node s n)"
  shows "refl_inv (fst (handle_set_tg env c n tg_l s))"
proof (cases "tg_l \<le> 0 \<or> tg_l > 65535 \<or> rcfg_tg_idx (rf_cfg s) (nat tg_l) = None \<or> \<not> rcfg_node_allowed_on_tg (rf_cfg s) n (nat tg_l)")
  case True
  with assms(1) show ?thesis by (auto simp: handle_set_tg_def Let_def intro!: inv_neutral split: option.split)
next
  case False
  let ?tg = "nat tg_l" and ?old = "nr_tg (rf_node s n)"
  from False obtain i where i: "rcfg_tg_idx (rf_cfg s) ?tg = Some i" and a: "rcfg_node_allowed_on_tg (rf_cfg s) n ?tg" by auto
  from assms have old: "rcfg_node_allowed_on_tg (rf_cfg s) n ?old" "rcfg_ok (rf_cfg s)" by (simp_all add: refl_inv_def)
  then obtain oi where oi: "rcfg_tg_idx (rf_cfg s) ?old = Some oi" using allowed_tg_idx by blast
  define s1 where "s1 = fst ((if ?old \<noteq> ?tg then release_if_holder env n oi else do_nothing) s)"
  have s1: "refl_inv s1" "rf_cfg s1 = rf_cfg s" "nr_tg (rf_node s1 n) = ?old"
    "j < length (rc_tgs (rf_cfg s)) \<Longrightarrow> tr_talker (rf_tg s1 j) = Some n \<Longrightarrow> ?old = ?tg" for j
    using assms(1) released_not_holder[OF assms(1) oi refl, where env = env]
    by (cases "?old = ?tg"; simp add: s1_def nview_def)+
  have "refl_inv (upd_node n (\<lambda>r. r\<lparr>nr_tg := ?tg\<rparr>) s1)"
    by (rule inv_switch) (use s1 a in auto)
  moreover have "fst ((if ?old \<noteq> 0 \<and> ?old \<noteq> ?tg then for_tg ?old (release_if_holder env n) else do_nothing) s) = s1"
    using oi allowed_pos[OF old(2,1)] by (simp add: s1_def for_tg_def)
  then have "core (fst (handle_set_tg env c n tg_l s)) = core (upd_node n (\<lambda>r. r\<lparr>nr_tg := ?tg\<rparr>) s1)"
    using False i by (auto simp: handle_set_tg_def Let_def neutralD neutral_for_tg)
  ultimately show ?thesis by (rule inv_core[rotated])
qed

lemma inv_for_tg:
  "refl_inv s \<Longrightarrow> (\<And>i. rcfg_tg_idx (rf_cfg s) tg = Some i \<Longrightarrow> refl_inv (fst (f i s))) \<Longrightarrow> refl_inv (fst (for_tg tg f s))"
  by (simp add: for_tg_def split: option.split)

lemma inv_talk_start: "refl_inv s \<Longrightarrow> nr_connected (rf_node s n) \<Longrightarrow> refl_inv (fst (simulate_talk_start env c n s))"
  unfolding simulate_talk_start_def by (rule inv_for_tg) (auto dest: inv_grant split: prod.split)

lemma inv_talk_end: "refl_inv s \<Longrightarrow> refl_inv (fst (simulate_talk_end env n s))"
  unfolding simulate_talk_end_def by (rule inv_for_tg) (simp_all add: inv_release_if)

lemma inv_floor_tick: "refl_inv s \<Longrightarrow> refl_inv (fst (floor_tick env s))"
  unfolding floor_tick_def by (rule each_inv) (simp_all add: floor_tick_one_def inv_release)

lemma inv_talk:
  assumes "refl_inv s" "nr_connected (rf_node s n)" "rcfg_tg_idx (rf_cfg s) (nr_tg (rf_node s n)) = Some i"
  shows "refl_inv (fst (talk env d pkt n i s))"
proof -
  obtain ok s1 es where g: "floor_try_grant env i n s = (ok, s1, es)" by (metis prod_cases3)
  have "core (fst (each (forward_to d pkt n) xs x)) = core x" for xs x
    by (rule neutralD) (rule neutral_each, rule neutral_forward)
  then have "core (fst (talk env d pkt n i s)) = core s1"
    using g by (simp add: talk_def neutralD neutral_deny core_upd_node nview_def)
  with inv_grant[OF g assms] show ?thesis using inv_core by blast
qed

lemma inv_packet: "refl_inv s \<Longrightarrow> refl_inv (fst (audio_packet env d s))"
proof (cases "dg_header_ok d \<and> find_sender d s \<noteq> None")
  case False
  assume "refl_inv s"
  with False show ?thesis by (auto simp: audio_packet_def intro: inv_neutral[OF neutral_auth_failed])
next
  case True
  assume inv: "refl_inv s"
  from True obtain n where n: "dg_header_ok d" "find_sender d s = Some n" by blast
  then have con: "nr_connected (rf_node s n)" by (auto simp: find_sender_def find_Some_iff)
  let ?s1 = "upd_node n (learn_addr (dg_src d)) s"
  have s1: "refl_inv ?s1" using core_learn inv by (rule inv_core)
  have con1: "nr_connected (rf_node ?s1 n)" using con by (simp add: learn_addr_def)
  have "refl_inv (fst (for_tg (nr_tg (rf_node ?s1 n)) (talk env d pkt n) ?s1))" for pkt
    by (rule inv_for_tg[OF s1]) (use inv_talk[OF s1 con1] in simp)
  with s1 n show ?thesis by (simp add: audio_packet_def Let_def)
qed

subsection \<open>Login and disconnect\<close>

lemma check_login_Inr:
  assumes "check_login hmac ch m s = Inr idx"
  shows "\<exists>name mac nonce nb mb. lg_node m = Some name \<and> lg_hmac m = Some mac \<and> lg_nonce m = Some nonce \<and>
     rcfg_node_idx (rf_cfg s) name = Some idx \<and> hex_to_bytes nonce LINK_NONCE_BYTES = Some nb \<and>
     hex_to_bytes mac LINK_HMAC_BYTES = Some mb \<and>
     \<not> rn_banned (rc_nodes (rf_cfg s) ! idx) \<and> \<not> nr_connected (rf_node s idx) \<and>
     0 \<le> version_at_least (lg_version m) (rc_min_version (rf_cfg s)) \<and>
     hmac (rn_psk (rc_nodes (rf_cfg s) ! idx)) (ch @ nb) = Some mb \<and>
     rcfg_node_allowed_on_tg (rf_cfg s) idx (initial_tg (rc_nodes (rf_cfg s) ! idx))"
  using assms by (auto simp: check_login_def verify_login_hmac_def Let_def split: option.splits if_splits)

lemma login_state:
  assumes "rf_conn s c = Some x"
  shows "core (fst (handle_login hmac env rnd c m s)) = core s \<or>
    (\<exists>idx. check_login hmac (cn_challenge x) m s = Inr idx \<and>
       core (fst (handle_login hmac env rnd c m s)) =
       (case core s of (cfg, N, T, C) \<Rightarrow> (cfg, N(idx := (True, Some c, initial_tg (rc_nodes (rf_cfg s) ! idx))), T, C(c \<mapsto> (CST_AUTHENTICATED, Some idx)))))"
proof -
  have "core (upd_node idx (logged_in env c tg an v) (upd_conn c (\<lambda>x. x\<lparr>cn_state := CST_AUTHENTICATED, cn_node := Some idx\<rparr>) s)) =
      (case core s of (cfg, N, T, C) \<Rightarrow> (cfg, N(idx := (True, Some c, tg)), T, C(c \<mapsto> (CST_AUTHENTICATED, Some idx))))" for idx tg an v
    using assms by (auto simp: core_def nview_def cview_def logged_in_def fun_eq_iff)
  then show ?thesis
    using assms by (auto simp: handle_login_def Let_def core_upd_conn cview_def neutralD split: sum.split option.split)
qed

lemma inv_of_login:
  assumes "inv_of (cfg, N, T, C)" "C c = Some (CST_AWAITING_LOGIN, m)" "\<not> fst (N n)" "rcfg_node_allowed_on_tg cfg n tg"
  shows "inv_of (cfg, N(n := (True, Some c, tg)), T, C(c \<mapsto> (CST_AUTHENTICATED, Some n)))"
proof -
  from assms(1) have ok: "conn_ok cfg N C" "floor_ok cfg N T" by (simp_all add: inv_of_def)
  have m: "m = None" using conn_okD(1)[OF ok(1) assms(2)] by simp
  have n: "fst (snd (N n)) = None" using conn_okD(2)[OF ok(1)] assms(3) by blast
  have other: "fst (snd (N k)) \<noteq> Some c" for k using conn_okD(3)[OF ok(1), of k c] assms(2) m by simp
  have conn: "(fst (snd ((N(n := (True, Some c, tg))) k)) = Some d) \<longleftrightarrow> (\<exists>st. (C(c \<mapsto> (CST_AUTHENTICATED, Some n))) d = Some (st, Some k))" for k d
    using conn_okD(3)[OF ok(1), of k d] n other[of k] by (cases "k = n"; cases "d = c") auto
  have "conn_ok cfg (N(n := (True, Some c, tg))) (C(c \<mapsto> (CST_AUTHENTICATED, Some n)))"
  proof (rule conn_okI)
    show "fst ((N(n := (True, Some c, tg))) k) \<longleftrightarrow> fst (snd ((N(n := (True, Some c, tg))) k)) \<noteq> None" for k
      using conn_okD(2)[OF ok(1), of k] by simp
    show "st = CST_AUTHENTICATED \<longleftrightarrow> k \<noteq> None" if "(C(c \<mapsto> (CST_AUTHENTICATED, Some n))) d = Some (st, k)" for d st k
      using conn_okD(1)[OF ok(1), of d st k] that by (cases "d = c") auto
    show "rcfg_node_allowed_on_tg cfg k (snd (snd ((N(n := (True, Some c, tg))) k)))" if "fst ((N(n := (True, Some c, tg))) k)" for k
      using conn_okD(4)[OF ok(1), of k] that assms(4) by (cases "k = n") auto
  qed (fact conn_okD(5)[OF ok(1)], fact conn)
  moreover have "floor_ok cfg (N(n := (True, Some c, tg))) T"
    using ok(2) assms(3) by (auto simp: floor_ok_def)
  ultimately show ?thesis by (simp add: inv_of_def)
qed

lemma inv_login:
  assumes "refl_inv s" "rf_conn s c = Some x" "cn_state x = CST_AWAITING_LOGIN"
  shows "refl_inv (fst (handle_login hmac env rnd c m s))"
proof -
  from login_state[OF assms(2), of hmac env rnd m] show ?thesis
  proof (elim disjE exE conjE)
    assume "core (fst (handle_login hmac env rnd c m s)) = core s"
    then show ?thesis using assms(1) by (rule inv_core)
  next
    fix idx assume l: "check_login hmac (cn_challenge x) m s = Inr idx"
      "core (fst (handle_login hmac env rnd c m s)) =
       (case core s of (cfg, N, T, C) \<Rightarrow> (cfg, N(idx := (True, Some c, initial_tg (rc_nodes (rf_cfg s) ! idx))), T, C(c \<mapsto> (CST_AUTHENTICATED, Some idx))))"
    from check_login_Inr[OF l(1)] have a: "\<not> nr_connected (rf_node s idx)"
      "rcfg_node_allowed_on_tg (rf_cfg s) idx (initial_tg (rc_nodes (rf_cfg s) ! idx))" by auto
    have "inv_of (core s)" using assms(1) by (simp add: refl_inv_core)
    then have "inv_of (core (fst (handle_login hmac env rnd c m s)))"
      using a assms(2,3) unfolding l(2) by (auto simp: core_def nview_def cview_def intro!: inv_of_login)
    then show ?thesis by (simp add: refl_inv_core)
  qed
qed

lemma inv_of_logout:
  assumes "inv_of (cfg, N, T, C)" "C c = Some (st, Some n)" "\<And>i. i < length (rc_tgs cfg) \<Longrightarrow> T i \<noteq> Some n"
  shows "inv_of (cfg, N(n := (False, None, t)), T, C(c := None))"
proof -
  from assms(1) have ok: "conn_ok cfg N C" "floor_ok cfg N T" by (simp_all add: inv_of_def)
  have n: "fst (snd (N n)) = Some c" using conn_okD(3)[OF ok(1), of n c] assms(2) by blast
  have uniq: "C d = Some (st', Some n) \<Longrightarrow> d = c" for d st' using conn_okD(3)[OF ok(1), of n d] n by auto
  have conn: "(fst (snd ((N(n := (False, None, t))) k)) = Some d) \<longleftrightarrow> (\<exists>st. (C(c := None)) d = Some (st, Some k))" for k d
  proof (cases "k = n \<or> d = c")
    case True
    have "C d \<noteq> Some (st', Some n)" if "d \<noteq> c" for st' using uniq[of d st'] that by blast
    moreover have "fst (snd (N k)) \<noteq> Some c" if "k \<noteq> n" using conn_okD(3)[OF ok(1), of k c] assms(2) that by auto
    ultimately show ?thesis using True by auto
  next
    case False
    then show ?thesis using conn_okD(3)[OF ok(1), of k d] by simp
  qed
  have "conn_ok cfg (N(n := (False, None, t))) (C(c := None))"
  proof (rule conn_okI)
    show "fst ((N(n := (False, None, t))) k) \<longleftrightarrow> fst (snd ((N(n := (False, None, t))) k)) \<noteq> None" for k
      using conn_okD(2)[OF ok(1), of k] by simp
    show "st = CST_AUTHENTICATED \<longleftrightarrow> k \<noteq> None" if "(C(c := None)) d = Some (st, k)" for d st k
      using conn_okD(1)[OF ok(1), of d st k] that by (cases "d = c") auto
    show "rcfg_node_allowed_on_tg cfg k (snd (snd ((N(n := (False, None, t))) k)))" if "fst ((N(n := (False, None, t))) k)" for k
      using conn_okD(4)[OF ok(1), of k] that by (cases "k = n") auto
  qed (fact conn_okD(5)[OF ok(1)], fact conn)
  moreover have "floor_ok cfg (N(n := (False, None, t))) T" using ok(2) assms(3) by (auto simp: floor_ok_def)
  ultimately show ?thesis by (simp add: inv_of_def)
qed

lemma inv_of_anonymous:
  assumes "inv_of (cfg, N, T, C)" "\<And>st n. C c \<noteq> Some (st, Some n)" "v = None \<or> v = Some (CST_AWAITING_LOGIN, None)"
  shows "inv_of (cfg, N, T, C(c := v))"
proof -
  from assms(1) have ok: "conn_ok cfg N C" "floor_ok cfg N T" by (simp_all add: inv_of_def)
  have "conn_ok cfg N (C(c := v))"
  proof (rule conn_okI)
    show "(fst (snd (N k)) = Some d) \<longleftrightarrow> (\<exists>st. (C(c := v)) d = Some (st, Some k))" for k d
      using conn_okD(3)[OF ok(1), of k d] assms(2,3) by (cases "d = c") auto
    show "st = CST_AUTHENTICATED \<longleftrightarrow> k \<noteq> None" if "(C(c := v)) d = Some (st, k)" for d st k
      using conn_okD(1)[OF ok(1), of d st k] that assms(3) by (cases "d = c") auto
  qed (fact conn_okD(5)[OF ok(1)], fact conn_okD(2)[OF ok(1)], fact conn_okD(4)[OF ok(1)])
  with ok(2) show ?thesis by (simp add: inv_of_def)
qed

lemma core_release_if:
  "core s = (cfg, N, T, C) \<Longrightarrow>
   core (fst (release_if_holder env n i s)) = (cfg, N, (\<lambda>j. if j = i \<and> T j = Some n then None else T j), C)"
proof -
  assume s: "core s = (cfg, N, T, C)"
  then have "tr_talker (rf_tg s i) = T i" by (auto simp: core_def)
  with s show ?thesis by (cases "T i = Some n") (auto simp: release_if_holder_def core_release fun_eq_iff)
qed

lemma core_release_all:
  "core s = (cfg, N, T, C) \<Longrightarrow>
   core (fst (each (release_if_holder env n) xs s)) = (cfg, N, (\<lambda>j. if j \<in> set xs \<and> T j = Some n then None else T j), C)"
proof (induction xs arbitrary: s T)
  case (Cons i xs)
  from Cons.IH[OF core_release_if[OF Cons.prems, of env n i]] show ?case
    by (simp add: fun_eq_iff)
qed simp

lemma core_logout: "core s = (cfg, N, T, C) \<Longrightarrow>
    core (drop_conn c (upd_node n logged_out s)) = (cfg, N(n := (False, None, snd (snd (N n)))), T, C(c := None))"
proof -
  assume s: "core s = (cfg, N, T, C)"
  then have "nview (rf_node s n) = N n" by (auto simp: core_def)
  then have "nview (logged_out (rf_node s n)) = (False, None, snd (snd (N n)))"
    by (cases "N n") (auto simp: logged_out_def nview_def)
  with s show ?thesis by (auto simp: core_def drop_conn_def fun_eq_iff)
qed

lemma core_drop: "core s = (cfg, N, T, C) \<Longrightarrow> core (drop_conn c s) = (cfg, N, T, C(c := None))"
  by (auto simp: core_def drop_conn_def fun_eq_iff)

lemma inv_close: "refl_inv s \<Longrightarrow> refl_inv (fst (ws_close env c s))"
proof -
  assume inv: "refl_inv s"
  obtain cfg N T C where s: "core s = (cfg, N, T, C)" "rf_cfg s = cfg" "map_option cview (rf_conn s c) = C c"
    by (cases s rule: core_cases) simp
  from inv s have io: "inv_of (cfg, N, T, C)" by (simp add: refl_inv_core)
  show ?thesis
  proof (cases "rf_conn s c")
    case None
    with inv show ?thesis by (simp add: ws_close_def)
  next
    case (Some x)
    show ?thesis
    proof (cases "cn_node x")
      case None
      with Some s(3) have "C c \<noteq> Some (st, Some n)" for st n by (auto simp: cview_def)
      with inv_of_anonymous[OF io, of c None] have "inv_of (cfg, N, T, C(c := None))" by blast
      with Some None core_drop[OF s(1)] show ?thesis by (simp add: ws_close_def refl_inv_core)
    next
      case n: (Some n)
      let ?s1 = "fst (each (release_if_holder env n) [0..<length (rc_tgs cfg)] s)"
      let ?T = "\<lambda>j. if j \<in> set [0..<length (rc_tgs cfg)] \<and> T j = Some n then None else T j"
      have s1: "core ?s1 = (cfg, N, ?T, C)" by (rule core_release_all[OF s(1)])
      have "refl_inv ?s1" using inv by (rule each_inv) (simp add: inv_release_if)
      then have io1: "inv_of (cfg, N, ?T, C)" using s1 by (simp add: refl_inv_core)
      have "core (fst (for_tg tg broadcast_tg_roster x)) = core x" for tg x
        by (rule neutralD) (simp add: neutral_for_tg)
      then have "core (fst (ws_close env c s)) = core (drop_conn c (upd_node n logged_out ?s1))"
        using Some n s(2) by (auto simp: ws_close_def core_def drop_conn_def fun_eq_iff)
      also have "\<dots> = (cfg, N(n := (False, None, snd (snd (N n)))), ?T, C(c := None))" by (rule core_logout[OF s1])
      finally have f: "core (fst (ws_close env c s)) = (cfg, N(n := (False, None, snd (snd (N n)))), ?T, C(c := None))" .
      have "C c = Some (cn_state x, Some n)" using s(3) Some n by (simp add: cview_def)
      from inv_of_logout[OF io1 this] f show ?thesis by (simp add: refl_inv_core)
    qed
  qed
qed

lemma inv_open: "refl_inv s \<Longrightarrow> rf_conn s c = None \<Longrightarrow> refl_inv (fst (ws_open env c chal s))"
proof -
  assume inv: "refl_inv s" and c: "rf_conn s c = None"
  obtain cfg N T C where s: "core s = (cfg, N, T, C)" "map_option cview (rf_conn s c) = C c"
    by (cases s rule: core_cases) simp
  with inv c inv_of_anonymous[of cfg N T C c "Some (CST_AWAITING_LOGIN, None)"] show ?thesis
    by (simp add: refl_inv_core core_open)
qed

lemma inv_typed:
  assumes "refl_inv s" "rf_conn s c = Some x" "m \<noteq> In_untyped"
  shows "refl_inv (fst (handle_typed hmac env rnd c x m s))"
proof -
  have close: "refl_inv (fst (send_close c msg s))" for msg using assms(1) by (rule inv_neutral[rotated]) simp
  have other: "refl_inv (fst (handle_typed hmac env rnd c x m s))" if nl: "\<forall>l. m \<noteq> In_login l"
  proof (cases "cn_state x = CST_AUTHENTICATED \<and> cn_node x \<noteq> None")
    case False
    with nl close show ?thesis by (auto simp: handle_typed_def split: in_msg.split conn_state.split option.split simp del: op_simps)
  next
    case True
    then obtain n where n: "cn_state x = CST_AUTHENTICATED" "cn_node x = Some n" by blast
    with assms(1,2) have con: "nr_connected (rf_node s n)" unfolding refl_inv_def by blast
    note sub = inv_set_tg[OF assms(1) con] inv_neutral[OF neutral_quality assms(1)] inv_talk_start[OF assms(1) con] inv_talk_end[OF assms(1)]
    from nl n assms(1,3) show ?thesis by (cases m) (simp_all add: handle_typed_def sub)
  qed
  show ?thesis
  proof (cases "\<exists>l. m = In_login l")
    case True
    with close inv_login[OF assms(1,2)] show ?thesis
      by (auto simp: handle_typed_def simp del: op_simps intro: conn_state.exhaust)
  next
    case False
    then show ?thesis by (intro other) blast
  qed
qed

lemma inv_msg: "refl_inv s \<Longrightarrow> refl_inv (fst (ws_msg hmac env rnd c len m s))"
proof -
  assume inv: "refl_inv s"
  define s1 where "s1 = upd_conn c (\<lambda>x. x\<lparr>cn_last_traffic := en_now env, cn_waiting_pong := False\<rparr>) s"
  have "core s1 = core s" unfolding s1_def by (rule core_upd_conn) (simp add: cview_def)
  then have s1: "refl_inv s1" using inv by (rule inv_core)
  have "refl_inv (fst (handle_message hmac env rnd c m s))"
  proof (cases "rf_conn s1 c")
    case None
    with inv show ?thesis by (simp add: handle_message_def s1_def[symmetric])
  next
    case (Some x)
    with inv_typed[OF s1 Some] inv_neutral[OF neutral_untyped s1] show ?thesis
      by (cases m) (simp_all add: handle_message_def s1_def[symmetric])
  qed
  moreover have "refl_inv (fst (send_close c msg s))" for msg using inv by (rule inv_neutral[rotated]) simp
  ultimately show ?thesis using inv by (simp add: ws_msg_def del: op_simps)
qed

subsection \<open>Reachable states\<close>

text \<open>The runs of the event loop without a reload; a new websocket gets an unused connection.\<close>

inductive refl_reach :: "(byte list \<Rightarrow> byte list \<Rightarrow> byte list option) \<Rightarrow> rcfg \<Rightarrow> refl \<Rightarrow> bool" for hmac cfg where
  boot: "refl_reach hmac cfg (refl_boot cfg)"
| step: "refl_reach hmac cfg s \<Longrightarrow> (\<And>c chal. input = I_open c chal \<Longrightarrow> rf_conn s c = None) \<Longrightarrow>
         refl_reach hmac cfg (fst (refl_step hmac (env, input) s))"

lemma inv_boot: "rcfg_ok cfg \<Longrightarrow> refl_inv (refl_boot cfg)"
  by (simp add: refl_inv_def refl_boot_def node_boot_def)

lemma inv_step:
  assumes "refl_inv s" "\<And>c chal. input = I_open c chal \<Longrightarrow> rf_conn s c = None"
  shows "refl_inv (fst (refl_step hmac (env, input) s))"
proof (cases input)
  case (I_release tg)
  then show ?thesis using assms(1) by (auto simp: admin_release_floor_def inv_release split: option.split)
next
  case (I_admin node act)
  then show ?thesis using inv_core[OF neutral_admin assms(1)] by simp
qed (use assms inv_open inv_msg inv_close inv_packet inv_floor_tick inv_neutral[OF neutral_keepalive] in simp_all)

lemma reach_inv: "refl_reach hmac cfg s \<Longrightarrow> rcfg_ok cfg \<Longrightarrow> refl_inv s"
  by (induction rule: refl_reach.induct) (simp_all add: inv_boot inv_step)

text \<open>
  C15. In every state that the reflector reaches between two reloads: the holder of the floor of a
  talkgroup is a node that is connected and on that very talkgroup, so no node holds two
  floors; a node is connected over exactly the websocket that has authenticated as it, so no
  node is connected twice; and it is on a talkgroup that both its own section and the
  section of the talkgroup allow.
\<close>

theorem reflector_floor_holder:
  assumes "refl_reach hmac cfg s" "rcfg_ok cfg" "i < length (rc_tgs (rf_cfg s))" "tr_talker (rf_tg s i) = Some h"
  shows "nr_connected (rf_node s h) \<and> rcfg_tg_idx (rf_cfg s) (nr_tg (rf_node s h)) = Some i \<and>
     rcfg_node_allowed_on_tg (rf_cfg s) h (nr_tg (rf_node s h)) \<and>
     (\<forall>j. j < length (rc_tgs (rf_cfg s)) \<longrightarrow> tr_talker (rf_tg s j) = Some h \<longrightarrow> j = i) \<and>
     (\<exists>!c. \<exists>x. rf_conn s c = Some x \<and> cn_state x = CST_AUTHENTICATED \<and> cn_node x = Some h)"
proof -
  have inv: "refl_inv s" using assms(1,2) by (rule reach_inv)
  note D = refl_invD[OF inv]
  have h: "nr_connected (rf_node s h)" "rcfg_tg_idx (rf_cfg s) (nr_tg (rf_node s h)) = Some i"
    using D(5)[OF assms(3,4)] by blast+
  from h(1) obtain c where c: "nr_c (rf_node s h) = Some c" using D(1) by blast
  have conn: "(\<exists>x. rf_conn s d = Some x \<and> cn_state x = CST_AUTHENTICATED \<and> cn_node x = Some h) \<longleftrightarrow> d = c" for d
    using D(2)[of h d] D(3)[of d] c by auto
  have "j = i" if "j < length (rc_tgs (rf_cfg s))" "tr_talker (rf_tg s j) = Some h" for j
    using D(5)[OF that] h(2) by simp
  with h conn D(4)[OF h(1)] show ?thesis by auto
qed

end
