(* ===== verification/Reflector_Floor.thy ===== *)
theory Reflector_Floor
  imports Reflector_Props
begin

text \<open>
  The floor of the reflector over runs of its event loop: who is heard while somebody talks, when the
  floor comes free, who gets a packet, and what a login takes.
\<close>

subsection \<open>Runs\<close>

text \<open>Every input of a run with the state it meets and the effects it has.\<close>

fun trace :: "(byte list \<Rightarrow> byte list \<Rightarrow> byte list option) \<Rightarrow> refl \<Rightarrow> (renv \<times> rinput) list \<Rightarrow> (refl \<times> renv \<times> rinput \<times> reff list) list" where
  "trace hmac s [] = []"
| "trace hmac s ((env, inp) # ins) =
     (s, env, inp, snd (refl_step hmac (env, inp) s)) # trace hmac (fst (refl_step hmac (env, inp) s)) ins"

fun final :: "(byte list \<Rightarrow> byte list \<Rightarrow> byte list option) \<Rightarrow> refl \<Rightarrow> (renv \<times> rinput) list \<Rightarrow> refl" where
  "final hmac s [] = s"
| "final hmac s (i # ins) = final hmac (fst (refl_step hmac i s)) ins"

text \<open>A run whose websockets are new ones.\<close>

fun opens_fresh :: "(byte list \<Rightarrow> byte list \<Rightarrow> byte list option) \<Rightarrow> refl \<Rightarrow> (renv \<times> rinput) list \<Rightarrow> bool" where
  "opens_fresh hmac s [] \<longleftrightarrow> True"
| "opens_fresh hmac s (i # ins) \<longleftrightarrow>
     (case snd i of I_open c chal \<Rightarrow> rf_conn s c = None | _ \<Rightarrow> True) \<and> opens_fresh hmac (fst (refl_step hmac i s)) ins"

lemma reach_final: "refl_reach hmac cfg s \<Longrightarrow> opens_fresh hmac s ins \<Longrightarrow> refl_reach hmac cfg (final hmac s ins)"
proof (induction ins arbitrary: s)
  case (Cons i ins)
  obtain env inp where i: "i = (env, inp)" by (cases i)
  have "refl_reach hmac cfg (fst (refl_step hmac (env, inp) s))"
    by (rule refl_reach.step[OF Cons.prems(1)]) (use Cons.prems(2) i in auto)
  from Cons.IH[OF this] Cons.prems(2) show ?case by (simp add: i)
qed simp

subsection \<open>A floor is left alone\<close>

definition keeps :: "nat \<Rightarrow> rop \<Rightarrow> bool" where
  "keeps i f \<longleftrightarrow> (\<forall>s. rf_tg (fst (f s)) i = rf_tg s i \<and> rf_cfg (fst (f s)) = rf_cfg s)"

lemma keepsD: "keeps i f \<Longrightarrow> rf_tg (fst (f s)) i = rf_tg s i" "keeps i f \<Longrightarrow> rf_cfg (fst (f s)) = rf_cfg s"
  by (simp_all add: keeps_def)

lemma keeps_simps [simp]:
  "keeps i do_nothing" "keeps i (tell t)" "keeps i (send c m)" "keeps i (send_close c m)"
  "keeps i (just (upd_node n g))" "keeps i (just (upd_conn c h))" "keeps i (broadcast_tg_roster j)" "keeps i (kick_node n code msg)"
  by (simp_all add: keeps_def broadcast_tg_roster_def kick_node_def split: option.split)

lemma keeps_then: "keeps i f \<Longrightarrow> keeps i g \<Longrightarrow> keeps i (then_op f g)"
  by (simp add: keeps_def)

lemma keeps_each: "(\<And>x. x \<in> set xs \<Longrightarrow> keeps i (f x)) \<Longrightarrow> keeps i (each f xs)"
  by (induction xs) (simp_all add: keeps_def)

lemma keeps_for_tg: "(\<And>j. keeps i (f j)) \<Longrightarrow> keeps i (for_tg tg f)"
  by (simp add: keeps_def for_tg_def split: option.split)

lemma floor_release_cfg [simp]: "rf_cfg (fst (floor_release env j r s)) = rf_cfg s"
  by (auto simp: floor_release_def Let_def split: option.split)

lemma keeps_release: "j \<noteq> i \<Longrightarrow> keeps i (floor_release env j r)"
  by (auto simp: keeps_def floor_release_def Let_def split: option.split)

lemma keeps_release_if: "j \<noteq> i \<Longrightarrow> keeps i (release_if_holder env n j)"
  using keeps_release[of j i env None] by (auto simp: keeps_def release_if_holder_def)

lemma keeps_forward: "keeps i (forward_to d pkt n p)"
  by (auto simp: keeps_def forward_to_def Let_def split: option.split prod.split)

lemma keeps_deny: "keeps i (deny_floor env j n)"
  by (auto simp: keeps_def deny_floor_def)

lemma keeps_keepalive: "keeps i (keepalive_tick env)"
proof -
  have "keeps i (keepalive_one env c)" for c by (auto simp: keeps_def keepalive_one_def Let_def split: option.split)
  then have "keeps i (each (keepalive_one env) xs)" for xs by (rule keeps_each)
  then show ?thesis by (simp add: keeps_def keepalive_tick_def)
qed

lemma keeps_auth_failed: "keeps i (auth_failed env d)"
  by (auto simp: keeps_def auth_failed_def Let_def kick_node_def split: option.split)

lemma keeps_login: "keeps i (handle_login hmac env rnd c m)"
  by (auto simp: keeps_def handle_login_def Let_def split: option.split sum.split)

lemma keeps_quality: "keeps i (handle_quality env c n loss)"
  unfolding handle_quality_def by (intro keeps_then) (auto simp: keeps_def for_tg_def split: option.split)

lemma keeps_untyped: "keeps i (handle_untyped env c)"
  by (auto simp: keeps_def handle_untyped_def Let_def split: option.split)

lemma keeps_open: "keeps i (ws_open env c chal)"
  by (auto simp: keeps_def ws_open_def send_hello_def split: option.split)

text \<open>The holder, under a lease that lasts until \<open>l\<close> at least.\<close>

definition holds_floor :: "nat \<Rightarrow> nat \<Rightarrow> int \<Rightarrow> refl \<Rightarrow> bool" where
  "holds_floor i h l s \<longleftrightarrow> tr_talker (rf_tg s i) = Some h \<and> l \<le> tr_lease (rf_tg s i)"

lemma holds_keeps: "keeps i f \<Longrightarrow> holds_floor i h l s \<Longrightarrow> holds_floor i h l (fst (f s))"
  by (simp add: keeps_def holds_floor_def)

text \<open>Its grant to another node is refused, and its own packets renew it.\<close>

lemma grant_under_lease:
  assumes "floor_try_grant env j n s = (ok, s', es)" "holds_floor i h l s" "en_now env < l" "l \<le> en_now env + rc_hangtime_ms (rf_cfg s)"
  shows "holds_floor i h l s' \<and> rf_cfg s' = rf_cfg s \<and> (j = i \<and> n \<noteq> h \<longrightarrow> \<not> ok \<and> es = [])"
  using grant_cases[OF assms(1)] assms(2-4) unfolding holds_floor_def by (cases "j = i") auto

lemma tick_under_lease: "holds_floor i h l s \<Longrightarrow> en_now env < l \<Longrightarrow> holds_floor i h l (fst (floor_tick env s)) \<and> rf_cfg (fst (floor_tick env s)) = rf_cfg s"
proof -
  assume h: "holds_floor i h l s" "en_now env < l"
  have "holds_floor i h l (fst (each (floor_tick_one env) xs s)) \<and> rf_cfg (fst (each (floor_tick_one env) xs s)) = rf_cfg s" for xs
  proof (rule each_inv[where P = "\<lambda>x. holds_floor i h l x \<and> rf_cfg x = rf_cfg s"])
    fix j x assume x: "holds_floor i h l x \<and> rf_cfg x = rf_cfg s"
    show "holds_floor i h l (fst (floor_tick_one env j x)) \<and> rf_cfg (fst (floor_tick_one env j x)) = rf_cfg s"
    proof (cases "j = i")
      case True
      with x h(2) show ?thesis by (simp add: floor_tick_one_def holds_floor_def)
    next
      case False
      with x holds_keeps[OF keeps_release[OF False]] show ?thesis by (simp add: floor_tick_one_def)
    qed
  qed (use h(1) in simp)
  then show ?thesis by (simp add: floor_tick_def)
qed

subsection \<open>One talker at a time\<close>

text \<open>The inputs by which the holder gives up the floor, or an operator takes it.\<close>

definition yields :: "nat \<Rightarrow> nat \<Rightarrow> refl \<Rightarrow> rinput \<Rightarrow> bool" where
  "yields h i s inp =
     (case inp of
        I_msg c rnd len m \<Rightarrow>
          (case rf_conn s c of Some x \<Rightarrow> cn_node x = Some h \<and> (case m of In_talk_end \<Rightarrow> True | In_set_tg tg \<Rightarrow> True | _ \<Rightarrow> False) | None \<Rightarrow> False)
      | I_close c \<Rightarrow> (case rf_conn s c of Some x \<Rightarrow> cn_node x = Some h | None \<Rightarrow> False)
      | I_release tg \<Rightarrow> rcfg_tg_idx (rf_cfg s) (nat (tg mod 65536)) = Some i
      | _ \<Rightarrow> False)"

fun carries_audio :: "reff \<Rightarrow> bool" where
  "carries_audio (Rf_udp p b) = True"
| "carries_audio (Rf_rec_append i b) = True"
| "carries_audio _ = False"

lemma hold_release_if:
  "holds_floor i h l s \<Longrightarrow> n \<noteq> h \<Longrightarrow> holds_floor i h l (fst (release_if_holder env n j s)) \<and> rf_cfg (fst (release_if_holder env n j s)) = rf_cfg s"
proof (cases "j = i")
  case True
  assume "holds_floor i h l s" "n \<noteq> h"
  with True show ?thesis by (simp add: release_if_holder_def holds_floor_def)
next
  case False
  assume "holds_floor i h l s" "n \<noteq> h"
  then show ?thesis using holds_keeps[OF keeps_release_if[OF False]] by (simp add: release_if_holder_def)
qed

lemma hold_for_tg:
  "holds_floor i h l s \<Longrightarrow> (\<And>j. holds_floor i h l (fst (f j s)) \<and> rf_cfg (fst (f j s)) = rf_cfg s) \<Longrightarrow>
   holds_floor i h l (fst (for_tg tg f s)) \<and> rf_cfg (fst (for_tg tg f s)) = rf_cfg s"
  by (simp add: for_tg_def split: option.split)

lemma hold_upd [simp]:
  "holds_floor i h l (upd_node n f s) = holds_floor i h l s" "holds_floor i h l (upd_conn c g s) = holds_floor i h l s"
  "holds_floor i h l (drop_conn c s) = holds_floor i h l s" "rf_cfg (drop_conn c s) = rf_cfg s"
  by (simp_all add: holds_floor_def drop_conn_def)

lemma hold_set_tg:
  assumes "holds_floor i h l s" "n \<noteq> h"
  shows "holds_floor i h l (fst (handle_set_tg env c n tg s)) \<and> rf_cfg (fst (handle_set_tg env c n tg s)) = rf_cfg s"
proof -
  have r: "holds_floor i h l (fst (for_tg old (release_if_holder env n) s)) \<and> rf_cfg (fst (for_tg old (release_if_holder env n) s)) = rf_cfg s" for old
    by (rule hold_for_tg[OF assms(1)]) (rule hold_release_if[OF assms])
  have b: "keeps i (for_tg old broadcast_tg_roster)" for old by (rule keeps_for_tg) simp
  from assms(1) r holds_keeps[OF b] keepsD(2)[OF b] show ?thesis
    by (auto simp: handle_set_tg_def Let_def holds_keeps[OF keeps_simps(7)] keepsD(2)[OF keeps_simps(7)] split: option.split)
qed

lemma hold_close:
  assumes "holds_floor i h l s" "\<forall>x. rf_conn s c = Some x \<longrightarrow> cn_node x \<noteq> Some h"
  shows "holds_floor i h l (fst (ws_close env c s)) \<and> rf_cfg (fst (ws_close env c s)) = rf_cfg s"
proof (cases "rf_conn s c")
  case None
  with assms(1) show ?thesis by (simp add: ws_close_def)
next
  case (Some x)
  have r: "holds_floor i h l (fst (each (release_if_holder env n) xs s)) \<and> rf_cfg (fst (each (release_if_holder env n) xs s)) = rf_cfg s"
    if "n \<noteq> h" for n xs
    by (rule each_inv[where P = "\<lambda>x. holds_floor i h l x \<and> rf_cfg x = rf_cfg s"]) (use assms(1) hold_release_if[OF _ that] in auto)
  have b: "keeps i (for_tg old broadcast_tg_roster)" for old by (rule keeps_for_tg) simp
  from Some assms r holds_keeps[OF b] keepsD(2)[OF b] show ?thesis
    by (auto simp: ws_close_def split: option.split)
qed

lemma hold_talk:
  assumes "holds_floor i h l s" "en_now env < l" "l \<le> en_now env + rc_hangtime_ms (rf_cfg s)"
  shows "holds_floor i h l (fst (talk env d pkt n j s)) \<and> rf_cfg (fst (talk env d pkt n j s)) = rf_cfg s"
    "j = i \<Longrightarrow> n \<noteq> h \<Longrightarrow> \<not> (\<exists>e \<in> set (snd (talk env d pkt n j s)). carries_audio e)"
proof -
  obtain ok s1 es where g: "floor_try_grant env j n s = (ok, s1, es)" by (metis prod_cases3)
  note u = grant_under_lease[OF g assms]
  have f: "keeps i (each (forward_to d pkt n) xs)" for xs by (rule keeps_each) (rule keeps_forward)
  from u g show "holds_floor i h l (fst (talk env d pkt n j s)) \<and> rf_cfg (fst (talk env d pkt n j s)) = rf_cfg s"
    using holds_keeps[OF f] keepsD(2)[OF f] holds_keeps[OF keeps_deny] keepsD(2)[OF keeps_deny]
    by (simp add: talk_def)
  show "\<not> (\<exists>e \<in> set (snd (talk env d pkt n j s)). carries_audio e)" if "j = i" "n \<noteq> h"
    using u g that by (auto simp: talk_def deny_floor_def floor_denied_msg_def split: option.splits if_splits)
qed

lemma hold_keep: "keeps i f \<Longrightarrow> holds_floor i h l s \<Longrightarrow> holds_floor i h l (fst (f s)) \<and> rf_cfg (fst (f s)) = rf_cfg s"
  by (simp add: holds_keeps keepsD(2))

lemma hold_talk_start:
  assumes "holds_floor i h l s" "en_now env < l" "l \<le> en_now env + rc_hangtime_ms (rf_cfg s)"
  shows "holds_floor i h l (fst (simulate_talk_start env c n s)) \<and> rf_cfg (fst (simulate_talk_start env c n s)) = rf_cfg s"
proof -
  have "holds_floor i h l (fst (let (ok, s1, es) = floor_try_grant env j n s in (s1, if ok then es else [Rf_send c (floor_denied_msg j s)]))) \<and>
      rf_cfg (fst (let (ok, s1, es) = floor_try_grant env j n s in (s1, if ok then es else [Rf_send c (floor_denied_msg j s)]))) = rf_cfg s" for j
  proof -
    obtain ok s1 es where g: "floor_try_grant env j n s = (ok, s1, es)" by (metis prod_cases3)
    with grant_under_lease[OF g assms] show ?thesis by simp
  qed
  then show ?thesis unfolding simulate_talk_start_def by (intro hold_for_tg[OF assms(1)]) blast
qed

lemma hold_typed:
  assumes "holds_floor i h l s" "en_now env < l" "l \<le> en_now env + rc_hangtime_ms (rf_cfg s)"
    and "cn_node x \<noteq> Some h \<or> (m \<noteq> In_talk_end \<and> (\<forall>tg. m \<noteq> In_set_tg tg))"
  shows "holds_floor i h l (fst (handle_typed hmac env rnd c x m s)) \<and> rf_cfg (fst (handle_typed hmac env rnd c x m s)) = rf_cfg s"
proof -
  have close: "holds_floor i h l (fst (send_close c msg s)) \<and> rf_cfg (fst (send_close c msg s)) = rf_cfg s" for msg
    by (rule hold_keep[OF keeps_simps(4) assms(1)])
  have pong: "holds_floor i h l (fst (send c msg s)) \<and> rf_cfg (fst (send c msg s)) = rf_cfg s" for msg
    by (rule hold_keep[OF keeps_simps(3) assms(1)])
  have e: "holds_floor i h l (fst (simulate_talk_end env n s)) \<and> rf_cfg (fst (simulate_talk_end env n s)) = rf_cfg s" if "n \<noteq> h" for n
    unfolding simulate_talk_end_def by (rule hold_for_tg[OF assms(1)]) (rule hold_release_if[OF assms(1) that])
  show ?thesis
    using assms(1,4) close pong e hold_set_tg[OF assms(1)] hold_talk_start[OF assms(1-3)] hold_keep[OF keeps_quality assms(1)] hold_keep[OF keeps_login assms(1)]
    by (cases m; cases "cn_state x"; cases "cn_node x") (simp_all add: handle_typed_def del: op_simps(4,5))
qed

lemma hold_msg:
  assumes "holds_floor i h l s" "en_now env < l" "l \<le> en_now env + rc_hangtime_ms (rf_cfg s)" "\<not> yields h i s (I_msg c rnd len m)"
  shows "holds_floor i h l (fst (ws_msg hmac env rnd c len m s)) \<and> rf_cfg (fst (ws_msg hmac env rnd c len m s)) = rf_cfg s"
proof (cases "rf_conn s c")
  case None
  with assms(1) show ?thesis by (simp add: ws_msg_def)
next
  case (Some x)
  define s1 where "s1 = upd_conn c (\<lambda>x. x\<lparr>cn_last_traffic := en_now env, cn_waiting_pong := False\<rparr>) s"
  define x1 where "x1 = x\<lparr>cn_last_traffic := en_now env, cn_waiting_pong := False\<rparr>"
  have s1: "holds_floor i h l s1" "rf_cfg s1 = rf_cfg s" "rf_conn s1 c = Some x1" using assms(1) Some by (simp_all add: s1_def x1_def)
  have "cn_node x1 \<noteq> Some h \<or> (m \<noteq> In_talk_end \<and> (\<forall>tg. m \<noteq> In_set_tg tg))"
    using assms(4) Some by (auto simp: yields_def x1_def)
  with hold_typed[OF s1(1) assms(2), of x1 m] s1 assms(3) hold_keep[OF keeps_untyped s1(1)]
  have "holds_floor i h l (fst (handle_message hmac env rnd c m s)) \<and> rf_cfg (fst (handle_message hmac env rnd c m s)) = rf_cfg s"
    by (cases m) (simp_all add: handle_message_def s1_def[symmetric])
  with hold_keep[OF keeps_simps(4) assms(1)] Some show ?thesis by (auto simp: ws_msg_def)
qed

lemma hold_packet:
  assumes "holds_floor i h l s" "en_now env < l" "l \<le> en_now env + rc_hangtime_ms (rf_cfg s)"
  shows "holds_floor i h l (fst (audio_packet env d s)) \<and> rf_cfg (fst (audio_packet env d s)) = rf_cfg s"
    "find_sender d s = Some n \<Longrightarrow> n \<noteq> h \<Longrightarrow> rcfg_tg_idx (rf_cfg s) (nr_tg (rf_node s n)) = Some i \<Longrightarrow>
     \<not> (\<exists>e \<in> set (snd (audio_packet env d s)). carries_audio e)"
proof -
  have t: "nr_tg (learn_addr src r) = nr_tg r" for src r by (simp add: learn_addr_def)
  have p: "holds_floor i h l (fst (for_tg tg (talk env d pkt n) (upd_node n (learn_addr (dg_src d)) s))) \<and>
      rf_cfg (fst (for_tg tg (talk env d pkt n) (upd_node n (learn_addr (dg_src d)) s))) = rf_cfg s" for tg pkt n
    using hold_for_tg[of i h l "upd_node n (learn_addr (dg_src d)) s" "talk env d pkt n" tg]
      hold_talk(1)[of i h l "upd_node n (learn_addr (dg_src d)) s" env d pkt n] assms by simp
  show "holds_floor i h l (fst (audio_packet env d s)) \<and> rf_cfg (fst (audio_packet env d s)) = rf_cfg s"
    using p assms(1) hold_keep[OF keeps_auth_failed assms(1)] by (simp add: audio_packet_def Let_def split: option.split)
  assume n: "find_sender d s = Some n" "n \<noteq> h" "rcfg_tg_idx (rf_cfg s) (nr_tg (rf_node s n)) = Some i"
  have "\<not> (\<exists>e \<in> set (snd (talk env d pkt n i (upd_node n (learn_addr (dg_src d)) s))). carries_audio e)" for pkt
    by (rule hold_talk(2)[of i h l]) (use assms n in simp_all)
  with n t show "\<not> (\<exists>e \<in> set (snd (audio_packet env d s)). carries_audio e)"
    by (simp add: audio_packet_def Let_def for_tg_def)
qed

lemma hold_step:
  assumes "holds_floor i h l s" "en_now env < l" "l \<le> en_now env + rc_hangtime_ms (rf_cfg s)" "\<not> yields h i s inp"
  shows "holds_floor i h l (fst (refl_step hmac (env, inp) s)) \<and> rf_cfg (fst (refl_step hmac (env, inp) s)) = rf_cfg s"
proof (cases inp)
  case (I_msg c rnd len m)
  with hold_msg[OF assms(1-3)] assms(4) show ?thesis by simp
next
  case (I_close c)
  with hold_close[OF assms(1)] assms(4) show ?thesis by (simp add: yields_def split: option.splits)
next
  case (I_admin node act)
  have "core (fst (snd (admin_node_action node act s))) = core s" by (rule neutral_admin)
  moreover have "rf_tg (fst (snd (admin_node_action node act s))) = rf_tg s"
    by (auto simp: admin_node_action_def kick_node_def Let_def split: option.split admin_action.split)
  ultimately show ?thesis using I_admin assms(1) by (simp add: holds_floor_def core_def)
next
  case (I_release tg)
  with assms(4) have "rcfg_tg_idx (rf_cfg s) (nat (tg mod 65536)) \<noteq> Some i" by (simp add: yields_def)
  then show ?thesis using I_release assms(1) hold_keep[OF keeps_release assms(1)]
    by (auto simp: admin_release_floor_def split: option.split)
qed (use assms hold_keep[OF keeps_open assms(1)] hold_packet(1)[OF assms(1-3)] tick_under_lease[OF assms(1,2)] hold_keep[OF keeps_keepalive assms(1)] in simp_all)

lemma trace_hold:
  "holds_floor i h (t0 + rc_hangtime_ms cfg) x \<Longrightarrow> rf_cfg x = cfg \<Longrightarrow>
   (\<And>s' env inp es. (s', env, inp, es) \<in> set (trace hmac x ins) \<Longrightarrow>
      t0 \<le> en_now env \<and> en_now env < t0 + rc_hangtime_ms cfg \<and> \<not> yields h i s' inp) \<Longrightarrow>
   (s', env, inp, es) \<in> set (trace hmac x ins) \<Longrightarrow>
   holds_floor i h (t0 + rc_hangtime_ms cfg) s' \<and> rf_cfg s' = cfg \<and> es = snd (refl_step hmac (env, inp) s')"
proof (induction ins arbitrary: x)
  case (Cons a ins)
  obtain e1 i1 where a: "a = (e1, i1)" by (cases a)
  have c: "t0 \<le> en_now e1" "en_now e1 < t0 + rc_hangtime_ms cfg" "\<not> yields h i x i1"
    using Cons.prems(3)[of x e1 i1 "snd (refl_step hmac (e1, i1) x)"] by (simp_all add: a)
  from hold_step[OF Cons.prems(1) c(2) _ c(3), of hmac] c(1) Cons.prems(2)
  have n: "holds_floor i h (t0 + rc_hangtime_ms cfg) (fst (refl_step hmac (e1, i1) x))" "rf_cfg (fst (refl_step hmac (e1, i1) x)) = cfg"
    by simp_all
  show ?case
  proof (cases "(s', env, inp, es) = (x, e1, i1, snd (refl_step hmac (e1, i1) x))")
    case True
    with Cons.prems(1,2) show ?thesis by simp
  next
    case False
    with Cons.prems(4) a have "(s', env, inp, es) \<in> set (trace hmac (fst (refl_step hmac (e1, i1) x)) ins)" by auto
    moreover have "set (trace hmac (fst (refl_step hmac (e1, i1) x)) ins) \<subseteq> set (trace hmac x (a # ins))" by (auto simp: a)
    ultimately show ?thesis using Cons.IH[OF n] Cons.prems(3) by (meson subsetD)
  qed
qed simp

text \<open>
  C7. The floor is exclusive: once a node has been granted the floor of a talkgroup at some time,
  then over every run of inputs within the hang time after it, whatever other nodes send,
  log in, switch or disconnect and however often the ticks run, the node keeps the floor,
  and no packet that another node of the talkgroup sends is forwarded to anybody or
  recorded. Only the node itself (by leaving) or an operator can end this earlier.
\<close>

theorem floor_exclusive:
  assumes "floor_try_grant env0 i h s0 = (True, s, es0)"
    and "\<And>s' env inp es. (s', env, inp, es) \<in> set (trace hmac s ins) \<Longrightarrow>
       en_now env0 \<le> en_now env \<and> en_now env < en_now env0 + rc_hangtime_ms (rf_cfg s) \<and> \<not> yields h i s' inp"
    and "(s', env, inp, es) \<in> set (trace hmac s ins)"
  shows "tr_talker (rf_tg s' i) = Some h \<and>
    (\<forall>d n. inp = I_packet d \<longrightarrow> find_sender d s' = Some n \<longrightarrow> n \<noteq> h \<longrightarrow> rcfg_tg_idx (rf_cfg s') (nr_tg (rf_node s' n)) = Some i \<longrightarrow>
       \<not> (\<exists>e \<in> set es. carries_audio e))"
proof -
  let ?l = "en_now env0 + rc_hangtime_ms (rf_cfg s)"
  have "rf_cfg s = rf_cfg s0" using grant_cases[OF assms(1)] by simp
  then have s: "holds_floor i h ?l s" using grant_cases[OF assms(1)] by (simp add: holds_floor_def)
  have t: "holds_floor i h ?l s' \<and> rf_cfg s' = rf_cfg s \<and> es = snd (refl_step hmac (env, inp) s')"
    by (rule trace_hold[OF s refl _ assms(3)]) (use assms(2) in blast)
  have e: "en_now env < ?l" "?l \<le> en_now env + rc_hangtime_ms (rf_cfg s')" using assms(2)[OF assms(3)] t by auto
  show ?thesis using t hold_packet(2)[OF _ e] by (auto simp: holds_floor_def)
qed

subsection \<open>The floor comes free\<close>

lemma each_append: "each f (xs @ ys) s = (fst (each f ys (fst (each f xs s))), snd (each f xs s) @ snd (each f ys (fst (each f xs s))))"
  by (induction xs arbitrary: s) (simp_all add: do_nothing_def then_op_def split: prod.split)

lemma tick_one_view:
  "nview (rf_node (fst (floor_tick_one env j s)) m) = nview (rf_node s m)" "rf_cfg (fst (floor_tick_one env j s)) = rf_cfg s"
  "rf_conn (fst (floor_tick_one env j s)) = rf_conn s"
  "i \<noteq> j \<Longrightarrow> rf_tg (fst (floor_tick_one env j s)) i = rf_tg s i"
  by (auto simp: floor_tick_one_def floor_release_def Let_def tally_airtime_def nview_def split: option.split)

lemma ticks_view:
  "(\<forall>m. nview (rf_node (fst (each (floor_tick_one env) xs s)) m) = nview (rf_node s m)) \<and>
   rf_cfg (fst (each (floor_tick_one env) xs s)) = rf_cfg s \<and>
   (\<forall>i. i \<notin> set xs \<longrightarrow> rf_tg (fst (each (floor_tick_one env) xs s)) i = rf_tg s i)"
  by (induction xs arbitrary: s) (simp_all add: tick_one_view)

lemma to_node_view: "nview (rf_node x p) = nview (rf_node s p) \<Longrightarrow> to_node p m x = to_node p m s"
  by (simp add: to_node_def nview_def split: option.split)

lemma in_to_tg:
  "p \<in> set (tg_members_of i s) \<Longrightarrow> nr_connected (rf_node s p) \<Longrightarrow> nr_c (rf_node s p) = Some d \<Longrightarrow> Rf_send d m \<in> set (to_tg i m s)"
  by (auto simp: to_tg_def to_node_def intro!: bexI[of _ p])

lemma tick_one_expired:
  assumes "tr_talker (rf_tg s i) = Some h" "tr_lease (rf_tg s i) \<le> en_now env" "nr_c (rf_node s h) = Some c" "nr_connected (rf_node s h)"
  shows "tr_talker (rf_tg (fst (floor_tick_one env i s)) i) = None"
    "Rf_send c (M_floor_revoked (tg_number s i) ''lease_expired'') \<in> set (snd (floor_tick_one env i s))"
    "p \<in> set (tg_members_of i s) \<Longrightarrow> nr_connected (rf_node s p) \<Longrightarrow> nr_c (rf_node s p) = Some d \<Longrightarrow>
       Rf_send d (M_talker (tg_number s i) None (en_epoch env)) \<in> set (snd (floor_tick_one env i s))"
proof -
  let ?s1 = "upd_tg i (\<lambda>t. t\<lparr>tr_talker := None, tr_lease := 0, tr_rec := False\<rparr>) (upd_node h (tally_airtime env) s)"
  have v: "nr_c (rf_node ?s1 p) = nr_c (rf_node s p)" "nr_connected (rf_node ?s1 p) = nr_connected (rf_node s p)" for p
    by (simp_all add: tally_airtime_def)
  have f: "floor_tick_one env i s = (?s1, (if tr_rec (rf_tg s i) then [Rf_rec_end i] else []) @ broadcast_talker env i None ?s1 @
      to_node h (M_floor_revoked (tg_number ?s1 i) ''lease_expired'') ?s1)"
    using assms(1,2) by (simp add: floor_tick_one_def floor_release_def Let_def)
  show "tr_talker (rf_tg (fst (floor_tick_one env i s)) i) = None" unfolding f by simp
  show "Rf_send c (M_floor_revoked (tg_number s i) ''lease_expired'') \<in> set (snd (floor_tick_one env i s))"
    unfolding f using v[of h] assms(3,4) by (simp add: to_node_def tg_number_def)
  show "Rf_send d (M_talker (tg_number s i) None (en_epoch env)) \<in> set (snd (floor_tick_one env i s))"
    if "p \<in> set (tg_members_of i s)" "nr_connected (rf_node s p)" "nr_c (rf_node s p) = Some d"
    unfolding f using in_to_tg[of p i ?s1 d] v[of p] that
    by (simp add: broadcast_talker_def tg_number_def tg_members_of_def)
qed

text \<open>
  The floor comes free: in a reachable state, a floor tick at or after the end of the lease (which
  every packet of the holder puts at its own time plus the hang time) leaves the talkgroup
  without a talker, tells the holder that its lease has expired and every connected member
  that nobody talks, and from then on the next node that talks gets the floor; a lease that
  has not ended is left alone.
\<close>

theorem floor_tick_frees:
  assumes "refl_reach hmac cfg s" "rcfg_ok cfg" "i < length (rc_tgs (rf_cfg s))" "tr_talker (rf_tg s i) = Some h"
    and "floor_tick env s = (s', es)"
  shows "if tr_lease (rf_tg s i) \<le> en_now env
     then tr_talker (rf_tg s' i) = None \<and>
          (\<exists>c. nr_c (rf_node s h) = Some c \<and> Rf_send c (M_floor_revoked (tg_number s i) ''lease_expired'') \<in> set es) \<and>
          (\<forall>p d. p \<in> set (tg_members_of i s) \<longrightarrow> nr_c (rf_node s p) = Some d \<longrightarrow> Rf_send d (M_talker (tg_number s i) None (en_epoch env)) \<in> set es) \<and>
          (\<forall>env' n. fst (floor_try_grant env' i n s'))
     else rf_tg s' i = rf_tg s i"
proof -
  have inv: "refl_inv s" using assms(1,2) by (rule reach_inv)
  have con: "nr_connected (rf_node s p) \<longleftrightarrow> nr_c (rf_node s p) \<noteq> None" for p using refl_invD(1)[OF inv] .
  have h: "nr_connected (rf_node s h)" using refl_invD(5)[OF inv assms(3,4)] by blast
  then obtain c where c: "nr_c (rf_node s h) = Some c" using con by blast
  have split: "[0..<length (rc_tgs (rf_cfg s))] = [0..<i] @ i # [Suc i..<length (rc_tgs (rf_cfg s))]"
    using assms(3) by (metis le_add1 less_imp_le_nat upt_add_eq_append upt_conv_Cons add_0 le_add_diff_inverse)
  define x where "x = fst (each (floor_tick_one env) [0..<i] s)"
  define y where "y = fst (floor_tick_one env i x)"
  define z where "z = fst (each (floor_tick_one env) [Suc i..<length (rc_tgs (rf_cfg s))] y)"
  have "floor_tick env s = each (floor_tick_one env) ([0..<i] @ i # [Suc i..<length (rc_tgs (rf_cfg s))]) s"
    by (simp add: floor_tick_def split)
  then have z: "s' = z" "set (snd (floor_tick_one env i x)) \<subseteq> set es"
    using assms(5) by (auto simp: each_append snd_then_op x_def y_def z_def)
  have x: "nview (rf_node x m) = nview (rf_node s m)" "rf_cfg x = rf_cfg s" "rf_tg x i = rf_tg s i" for m
    unfolding x_def using ticks_view[of env "[0..<i]" s] by auto
  have xv: "nr_c (rf_node x m) = nr_c (rf_node s m)" "nr_connected (rf_node x m) = nr_connected (rf_node s m)" for m
    using x(1)[of m] by (simp_all add: nview_def)
  have zi: "rf_tg z i = rf_tg y i" unfolding z_def using ticks_view by simp
  show ?thesis
  proof (cases "tr_lease (rf_tg s i) \<le> en_now env")
    case False
    then have "rf_tg y i = rf_tg s i" by (simp add: y_def floor_tick_one_def x(3))
    with False z(1) zi show ?thesis by simp
  next
    case True
    have e: "tr_talker (rf_tg x i) = Some h" "tr_lease (rf_tg x i) \<le> en_now env" "nr_c (rf_node x h) = Some c" "nr_connected (rf_node x h)"
      using assms(4) True c h x(3) xv by simp_all
    have n: "tg_number x i = tg_number s i" "tg_members_of i x = tg_members_of i s" using x(2) by (simp_all add: tg_number_def tg_members_of_def)
    have t: "tr_talker (rf_tg s' i) = None" using tick_one_expired(1)[OF e] z(1) zi by (simp add: y_def)
    have "fst (floor_try_grant env' i m s')" for env' m using t by (simp add: floor_try_grant_def Let_def)
    moreover have "Rf_send d (M_talker (tg_number s i) None (en_epoch env)) \<in> set es"
      if "p \<in> set (tg_members_of i s)" "nr_c (rf_node s p) = Some d" for p d
      using tick_one_expired(3)[OF e, of p d] that con[of p] xv n z(2) by auto
    moreover have "Rf_send c (M_floor_revoked (tg_number s i) ''lease_expired'') \<in> set es"
      using tick_one_expired(2)[OF e] n z(2) by auto
    ultimately show ?thesis using True t c by simp
  qed
qed

end
