(* ===== verification/Reflector_Access.thy ===== *)
theory Reflector_Access
  imports Reflector_Floor
begin

text \<open>
  Who gets into the reflector and who hears a talker, and what a reload does to both.
\<close>

subsection \<open>A login takes the key\<close>

text \<open>An operation that connects nobody.\<close>

definition online :: "refl \<Rightarrow> nat set" where
  "online s = {n. nr_connected (rf_node s n)}"

definition admits_nobody :: "rop \<Rightarrow> bool" where
  "admits_nobody f \<longleftrightarrow> (\<forall>s. online (fst (f s)) \<subseteq> online s)"

lemma admitsI: "(\<And>s. online (fst (f s)) \<subseteq> online s) \<Longrightarrow> admits_nobody f"
  by (simp add: admits_nobody_def)

lemma admitsD: "admits_nobody f \<Longrightarrow> online (fst (f s)) \<subseteq> online s"
  by (simp add: admits_nobody_def)

lemma online_core: "core s' = core s \<Longrightarrow> online s' = online s"
  by (auto simp: online_def core_def nview_def fun_eq_iff)

lemma online_upd: "(\<And>r. nr_connected (g r) \<Longrightarrow> nr_connected r) \<Longrightarrow> online (upd_node n g s) \<subseteq> online s"
  by (auto simp: online_def split: if_splits)

lemma online_other [simp]: "online (upd_tg i h s) = online s" "online (upd_conn c k s) = online s" "online (drop_conn c s) = online s"
  by (simp_all add: online_def drop_conn_def)

lemma admits_neutral: "neutral f \<Longrightarrow> admits_nobody f"
  by (rule admitsI) (simp add: online_core[OF neutralD])

lemma admits_then: "admits_nobody f \<Longrightarrow> admits_nobody g \<Longrightarrow> admits_nobody (then_op f g)"
  by (rule admitsI) (simp, rule subset_trans, (rule admitsD, assumption)+)

lemma admits_each: "(\<And>x. admits_nobody (f x)) \<Longrightarrow> admits_nobody (each f xs)"
proof (induction xs)
  case Nil
  show ?case by (rule admits_neutral) simp
next
  case (Cons a xs)
  then show ?case by (simp add: admits_then)
qed

lemma admits_for_tg: "(\<And>i. admits_nobody (f i)) \<Longrightarrow> admits_nobody (for_tg tg f)"
  by (rule admitsI) (simp add: for_tg_def admitsD split: option.split)

lemma admits_release: "admits_nobody (floor_release env i r)"
proof (rule admitsI)
  fix s
  have "nr_connected (tally_airtime env r) = nr_connected r" for r by (simp add: tally_airtime_def)
  then show "online (fst (floor_release env i r s)) \<subseteq> online s"
    using online_upd[of "tally_airtime env"] by (simp add: floor_release_def Let_def split: option.split)
qed

lemma admits_release_if: "admits_nobody (release_if_holder env n i)"
  by (rule admitsI) (simp add: release_if_holder_def admitsD[OF admits_release])

lemma admits_tick: "admits_nobody (floor_tick env)"
proof -
  have "admits_nobody (floor_tick_one env i)" for i
    by (rule admitsI) (simp add: floor_tick_one_def admitsD[OF admits_release])
  then have "admits_nobody (each (floor_tick_one env) xs)" for xs by (rule admits_each)
  from admitsD[OF this] show ?thesis by (simp add: admits_nobody_def floor_tick_def)
qed

lemma online_grant: "online (fst (snd (floor_try_grant env i n s))) = online s"
  by (auto simp: floor_try_grant_def Let_def online_def)

lemma admits_node: "(\<And>r. nr_connected (g r) \<Longrightarrow> nr_connected r) \<Longrightarrow> admits_nobody (just (upd_node n g))"
  by (rule admitsI) (simp add: online_upd)

lemma admits_if: "admits_nobody f \<Longrightarrow> admits_nobody g \<Longrightarrow> admits_nobody (if b then f else g)"
  by simp

lemma admits_set_tg: "admits_nobody (handle_set_tg env c n tg)"
proof (rule admitsI)
  fix s
  have go: "admits_nobody (then_op (if b then for_tg old (release_if_holder env n) else do_nothing)
        (then_op (just (upd_node n (\<lambda>r. r\<lparr>nr_tg := k\<rparr>))) (then_op (tell t) (then_op (if b then for_tg old broadcast_tg_roster else do_nothing) (broadcast_tg_roster i)))))"
    for b old k t i
    by (intro admits_then admits_if admits_for_tg admits_release_if admits_node admits_neutral) simp_all
  have "admits_nobody (send c m)" for m by (rule admits_neutral) simp
  note s = admitsD[OF this]
  show "online (fst (handle_set_tg env c n tg s)) \<subseteq> online s"
  proof (cases "tg \<le> 0 \<or> tg > 65535 \<or> rcfg_tg_idx (rf_cfg s) (nat tg) = None \<or> \<not> rcfg_node_allowed_on_tg (rf_cfg s) n (nat tg)")
    case True
    then show ?thesis by (auto simp: handle_set_tg_def Let_def split: option.split)
  next
    case False
    then obtain i where i: "rcfg_tg_idx (rf_cfg s) (nat tg) = Some i" by auto
    from False have "\<not> (tg \<le> 0 \<or> tg > 65535)" "rcfg_node_allowed_on_tg (rf_cfg s) n (nat tg)" by simp_all
    then show ?thesis
      by (simp only: handle_set_tg_def Let_def i if_False option.case not_True_eq_False admitsD[OF go])
  qed
qed

lemma admits_talk: "admits_nobody (talk env d pkt n i)"
proof -
  have f: "admits_nobody (each (forward_to d pkt n) xs)" for xs by (intro admits_each admits_neutral neutral_forward)
  have e: "admits_nobody (deny_floor env i n)" by (intro admits_neutral neutral_deny)
  have r: "admits_nobody (then_op (tell t) (then_op (just (upd_node n (\<lambda>r. r\<lparr>nr_rtp_in := nr_rtp_in r + 1,
      nr_bytes_in := nr_bytes_in r + dg_len d, nr_last_pkt := en_now env\<rparr>))) (\<lambda>s. each (forward_to d pkt n) (tg_members_of i s) s)))" for t
    by (intro admits_then admits_neutral[OF neutral_simps(2)] admits_node) (simp_all add: admits_nobody_def admitsD[OF f])
  show ?thesis
  proof (rule admitsI)
    fix s
    obtain ok s1 es where g: "floor_try_grant env i n s = (ok, s1, es)" by (metis prod_cases3)
    then have "online s1 = online s" using online_grant[of env i n s] by simp
    with admitsD[OF e, of s1] admitsD[OF r, of _ s1] show "online (fst (talk env d pkt n i s)) \<subseteq> online s"
      by (simp only: talk_def Let_def g prod.case split: if_split) blast
  qed
qed

lemma admits_packet: "admits_nobody (audio_packet env d)"
proof -
  have t: "admits_nobody (for_tg tg (talk env d pkt n))" for tg pkt n by (intro admits_for_tg admits_talk)
  have l: "online (upd_node n (learn_addr src) x) = online x" for n src x by (rule online_core) (rule core_learn)
  show ?thesis
    by (rule admitsI) (simp add: audio_packet_def Let_def admitsD[OF admits_neutral[OF neutral_auth_failed]]
      subset_trans[OF admitsD[OF t] equalityD1[OF l]] l del: upd_simps(9) split: option.split)
qed

lemma admits_close: "admits_nobody (ws_close env c)"
proof (rule admitsI)
  fix s
  have r: "admits_nobody (each (release_if_holder env n) xs)" for n xs by (intro admits_each admits_release_if)
  have b: "admits_nobody (for_tg tg broadcast_tg_roster)" for tg by (intro admits_for_tg admits_neutral) simp
  have o: "online (upd_node n logged_out x) \<subseteq> online x" for n x by (rule online_upd) (simp add: logged_out_def)
  show "online (fst (ws_close env c s)) \<subseteq> online s"
    by (auto simp: ws_close_def simp del: upd_simps(9) split: option.split
      dest!: subsetD[OF admitsD[OF b]] subsetD[OF o] subsetD[OF admitsD[OF r]])
qed

lemma admits_talk_start: "admits_nobody (simulate_talk_start env c n)"
proof (rule admitsI)
  fix s
  have "admits_nobody (\<lambda>s. let (ok, s1, es) = floor_try_grant env i n s in (s1, if ok then es else [Rf_send c (floor_denied_msg i s)]))" for i
    using online_grant by (intro admitsI) (simp add: case_prod_beta)
  then show "online (fst (simulate_talk_start env c n s)) \<subseteq> online s"
    unfolding simulate_talk_start_def by (intro admitsD admits_for_tg)
qed

lemma admits_talk_end: "admits_nobody (simulate_talk_end env n)"
  using admitsD[OF admits_for_tg[OF admits_release_if]] by (intro admitsI) (simp add: simulate_talk_end_def)

lemma admits_unless_login:
  assumes "\<forall>l. m \<noteq> In_login l"
  shows "online (fst (handle_typed hmac env rnd c x m s)) \<subseteq> online s"
  using assms admitsD[OF admits_set_tg] admitsD[OF admits_neutral[OF neutral_quality]] admitsD[OF admits_talk_start] admitsD[OF admits_talk_end]
  by (cases m) (simp_all add: handle_typed_def split: conn_state.split option.split)

lemma online_login:
  assumes "rf_conn s c = Some x" "n \<in> online (fst (handle_login hmac env rnd c m s))" "n \<notin> online s"
  shows "check_login hmac (cn_challenge x) m s = Inr n"
proof -
  have "core s' = core s \<Longrightarrow> n \<notin> online s'" for s' using online_core assms(3) by blast
  with login_state[OF assms(1), of hmac env rnd m] assms(2) obtain idx where
    l: "check_login hmac (cn_challenge x) m s = Inr idx"
      "core (fst (handle_login hmac env rnd c m s)) =
       (case core s of (cfg, N, T, C) \<Rightarrow> (cfg, N(idx := (True, Some c, initial_tg (rc_nodes (rf_cfg s) ! idx))), T, C(c \<mapsto> (CST_AUTHENTICATED, Some idx))))"
    by blast
  have "n = idx"
  proof (rule ccontr)
    assume "n \<noteq> idx"
    with l(2) have "nview (rf_node (fst (handle_login hmac env rnd c m s)) n) = nview (rf_node s n)"
      by (auto simp: core_def fun_eq_iff)
    with assms(2,3) show False by (simp add: online_def nview_def)
  qed
  with l(1) show ?thesis by simp
qed

text \<open>
  C8. A login takes the key: whatever the input, a node that is not connected becomes connected only by a
  login message of at most 1024 bytes on a connection that still awaits its login, which
  names that node and carries the HMAC, under the key of the node in the configuration, of the
  challenge of that very connection followed by the nonce of the message; the node is
  not banned and may use the talkgroup it is put on, and its version is high enough.
\<close>

theorem login_needs_key:
  assumes "\<not> nr_connected (rf_node s n)" "nr_connected (rf_node (fst (refl_step hmac (env, inp) s)) n)"
  shows "\<exists>c rnd len m x name nonce mac nb mb. inp = I_msg c rnd len (In_login m) \<and> len \<le> LINK_MAX_MSG \<and>
     rf_conn s c = Some x \<and> cn_state x = CST_AWAITING_LOGIN \<and>
     lg_node m = Some name \<and> rcfg_node_idx (rf_cfg s) name = Some n \<and>
     lg_nonce m = Some nonce \<and> hex_to_bytes nonce LINK_NONCE_BYTES = Some nb \<and>
     lg_hmac m = Some mac \<and> hex_to_bytes mac LINK_HMAC_BYTES = Some mb \<and>
     hmac (rn_psk (rc_nodes (rf_cfg s) ! n)) (cn_challenge x @ nb) = Some mb \<and>
     \<not> rn_banned (rc_nodes (rf_cfg s) ! n) \<and> 0 \<le> version_at_least (lg_version m) (rc_min_version (rf_cfg s)) \<and>
     rcfg_node_allowed_on_tg (rf_cfg s) n (initial_tg (rc_nodes (rf_cfg s) ! n))"
proof -
  have other: "\<not> online (fst (refl_step hmac (env, inp) s)) \<subseteq> online s" using assms by (auto simp: online_def)
  have admin: "online (fst (snd (admin_node_action node act s))) = online s" for node act by (rule online_core) (rule neutral_admin)
  have rel: "online (fst (snd (admin_release_floor env tg s))) \<subseteq> online s" for tg
    using admitsD[OF admits_release] by (simp add: admin_release_floor_def split: option.split)
  have opn: "online (fst (ws_open env c chal s)) = online s" for c chal
    by (auto simp: ws_open_def send_hello_def online_def split: option.split)
  from other obtain c rnd len m where inp: "inp = I_msg c rnd len m"
    using admitsD[OF admits_close] admitsD[OF admits_packet] admitsD[OF admits_tick] admitsD[OF admits_neutral[OF neutral_keepalive]] admin rel opn
    by (cases inp) auto
  define s1 where "s1 = upd_conn c (\<lambda>x. x\<lparr>cn_last_traffic := en_now env, cn_waiting_pong := False\<rparr>) s"
  have s1: "online s1 = online s" "rf_cfg s1 = rf_cfg s" "rf_node s1 = rf_node s" by (simp_all add: s1_def)
  from other inp obtain x0 where x0: "rf_conn s c = Some x0" "len \<le> LINK_MAX_MSG"
    and hm: "n \<in> online (fst (handle_message hmac env rnd c m s))"
    using assms(2) by (auto simp: ws_msg_def online_def split: if_splits)
  define x where "x = x0\<lparr>cn_last_traffic := en_now env, cn_waiting_pong := False\<rparr>"
  have x: "rf_conn s1 c = Some x" "cn_challenge x = cn_challenge x0" "cn_state x = cn_state x0" using x0 by (simp_all add: s1_def x_def)
  have nn: "n \<notin> online s1" using assms(1) s1 by (simp add: online_def)
  have "m \<noteq> In_untyped"
  proof
    assume "m = In_untyped"
    with hm x s1 nn admitsD[OF admits_neutral[OF neutral_untyped], of env c s1] show False
      by (auto simp: handle_message_def s1_def[symmetric])
  qed
  then have t: "n \<in> online (fst (handle_typed hmac env rnd c x m s1))"
    using hm x by (auto simp: handle_message_def s1_def[symmetric] split: in_msg.splits)
  then obtain l where l: "m = In_login l" using admits_unless_login nn by blast
  with t nn have st: "cn_state x = CST_AWAITING_LOGIN" and "n \<in> online (fst (handle_login hmac env rnd c l s1))"
    by (auto simp: handle_typed_def split: if_splits)
  from check_login_Inr[OF online_login[OF x(1) this(2) nn]] inp l x0 x st s1 show ?thesis by auto
qed

subsection \<open>Who hears a talker\<close>

fun forwards :: "reff \<Rightarrow> bool" where
  "forwards (Rf_udp p b) = True"
| "forwards _ = False"

text \<open>What member \<open>p\<close> is sent of a packet of node \<open>n\<close>.\<close>

definition copy_for :: "datagram \<Rightarrow> byte list \<Rightarrow> nat \<Rightarrow> refl \<Rightarrow> nat \<Rightarrow> reff list" where
  "copy_for d pkt n s p =
     (case nr_audio (rf_node s p) of
        Some a \<Rightarrow> if p \<noteq> n \<and> nr_connected (rf_node s p) \<and> an_addr a \<noteq> None \<and> dg_send_ok d p then [Rf_udp p (rewrite_header a pkt)] else []
      | None \<Rightarrow> [])"

lemma forward_copy:
  "12 \<le> length pkt \<Longrightarrow> length pkt \<le> RTP_MAX_PACKET \<Longrightarrow> snd (forward_to d pkt n p s) = copy_for d pkt n s p"
  by (auto simp: forward_to_def copy_for_def audio_node_send_to_def Let_def split: option.split)

lemma forward_leaves: "q \<noteq> p \<Longrightarrow> copy_for d pkt n (fst (forward_to d pkt n p s)) q = copy_for d pkt n s q"
  by (auto simp: forward_to_def copy_for_def Let_def split: option.split prod.split)

lemma copies_forward: "filter forwards (copy_for d pkt n s p) = copy_for d pkt n s p"
  by (simp add: copy_for_def split: option.split)

lemma forward_all:
  "distinct ps \<Longrightarrow> 12 \<le> length pkt \<Longrightarrow> length pkt \<le> RTP_MAX_PACKET \<Longrightarrow>
   filter forwards (snd (each (forward_to d pkt n) ps s)) = concat (map (copy_for d pkt n s) ps)"
proof (induction ps arbitrary: s)
  case (Cons p ps)
  from Cons.prems(1) have "map (copy_for d pkt n (fst (forward_to d pkt n p s))) ps = map (copy_for d pkt n s) ps"
    by (auto intro!: forward_leaves)
  then have "concat (map (copy_for d pkt n (fst (forward_to d pkt n p s))) ps) = concat (map (copy_for d pkt n s) ps)"
    by (simp only:)
  with Cons show ?case by (simp add: snd_then_op forward_copy copies_forward)
qed simp

lemma no_forward_to_tg: "filter forwards (to_tg i m s) = []"
  by (auto simp: to_tg_def to_node_def filter_empty_conv split: option.splits if_splits)

lemma no_forward_grant: "filter forwards (snd (snd (floor_try_grant env i n s))) = []"
  using no_forward_to_tg by (auto simp: floor_try_grant_def broadcast_talker_def Let_def)

lemma no_forward_deny: "filter forwards (snd (deny_floor env i n s)) = []"
  by (simp add: deny_floor_def split: option.split)

lemma grant_copies:
  assumes "floor_try_grant env i n s = (ok, s1, es)"
  shows "copy_for d pkt n s1 p = copy_for d pkt n s p" "rf_cfg s1 = rf_cfg s"
  using assms by (auto simp: floor_try_grant_def copy_for_def Let_def split: if_splits option.split)

lemma copy_upd: "copy_for d pkt n (upd_node n f s) = copy_for d pkt n s"
proof
  show "copy_for d pkt n (upd_node n f s) p = copy_for d pkt n s p" for p
    by (cases "p = n") (simp_all add: copy_for_def split: option.split)
qed

lemma talk_copies:
  assumes "distinct (tg_members_of i s)" "12 \<le> length pkt" "length pkt \<le> RTP_MAX_PACKET"
  shows "filter forwards (snd (talk env d pkt n i s)) =
    (if fst (floor_try_grant env i n s) then concat (map (copy_for d pkt n s) (tg_members_of i s)) else [])"
proof -
  obtain ok s1 es where g: "floor_try_grant env i n s = (ok, s1, es)" by (metis prod_cases3)
  have u: "copy_for d pkt n (upd_node n f s1) = copy_for d pkt n s" for f
    using grant_copies(1)[OF g] by (auto simp: copy_upd)
  have es: "filter forwards es = []" using no_forward_grant[of env i n s] g by simp
  have m: "tg_members_of i (upd_node n f s1) = tg_members_of i s" for f using grant_copies(2)[OF g] by (simp add: tg_members_of_def)
  show ?thesis
  proof (cases ok)
    case True
    with g show ?thesis by (simp add: talk_def snd_then_op forward_all[OF _ assms(2,3)] assms(1) u es m del: upd_simps(9))
  next
    case False
    with g no_forward_deny show ?thesis by (simp add: talk_def)
  qed
qed

lemma rewrite_header_shape: "12 \<le> length pkt \<Longrightarrow>
   length (rewrite_header a pkt) = length pkt \<and> take 2 (rewrite_header a pkt) = take 2 pkt \<and> drop 12 (rewrite_header a pkt) = drop 12 pkt"
  by (simp add: rewrite_header_def be16_def be32_def)

text \<open>
  C14. Who hears a talker: a packet that opens in the session of node \<open>n\<close>, which is not muted, on a
  talkgroup without repeated members, is sent on exactly when the node gets the floor, once to
  each other member of the talkgroup that is connected, whose address is known and whose
  session takes it, in the order of the members and to nobody else; each copy has the
  payload and the first two bytes of the packet and the sequence number, time stamp and
  source of the session it is sent in. (The protocol document, 4.2, says that the sequence number of the
  sender is forwarded; it is not.)
\<close>

theorem talk_fans_out:
  assumes "dg_header_ok d" "find_sender d s = Some n" "dg_open d n = Some pkt" "12 \<le> length pkt" "length pkt \<le> RTP_MAX_PACKET"
    and "\<not> is_bootstrap pkt" "\<not> nr_muted (rf_node s n)" "rcfg_tg_idx (rf_cfg s) (nr_tg (rf_node s n)) = Some i"
    and "distinct (tg_members_of i s)"
  shows "filter forwards (snd (audio_packet env d s)) =
      (if fst (floor_try_grant env i n s) then concat (map (copy_for d pkt n s) (tg_members_of i s)) else []) \<and>
    (\<forall>p b. Rf_udp p b \<in> set (snd (audio_packet env d s)) \<longrightarrow>
       length b = length pkt \<and> take 2 b = take 2 pkt \<and> drop 12 b = drop 12 pkt)"
proof -
  let ?s1 = "upd_node n (learn_addr (dg_src d)) s"
  have v: "nr_muted (rf_node ?s1 n) = nr_muted (rf_node s n)" "nr_tg (rf_node ?s1 n) = nr_tg (rf_node s n)" by (simp_all add: learn_addr_def)
  have a: "audio_packet env d s = talk env d pkt n i ?s1"
    using assms(1-3,6-8) v by (simp add: audio_packet_def for_tg_def Let_def del: upd_simps(9))
  have c: "copy_for d pkt n ?s1 = copy_for d pkt n s" by (rule copy_upd)
  have m: "tg_members_of i ?s1 = tg_members_of i s" by (simp add: tg_members_of_def)
  have g: "fst (floor_try_grant env i n ?s1) = fst (floor_try_grant env i n s)" by (simp add: floor_try_grant_def Let_def)
  have f: "filter forwards (snd (audio_packet env d s)) =
      (if fst (floor_try_grant env i n s) then concat (map (copy_for d pkt n s) (tg_members_of i s)) else [])"
    unfolding a using talk_copies[of i ?s1 pkt env d n] assms(4,5,9) by (simp only: m c g)
  have "length b = length pkt \<and> take 2 b = take 2 pkt \<and> drop 12 b = drop 12 pkt" if "Rf_udp p b \<in> set (snd (audio_packet env d s))" for p b
  proof -
    from that have "Rf_udp p b \<in> set (filter forwards (snd (audio_packet env d s)))" by simp
    then obtain r where "b = rewrite_header r pkt"
      unfolding f by (auto simp: copy_for_def split: if_splits option.splits)
    with rewrite_header_shape[OF assms(4)] show ?thesis by simp
  qed
  with f show ?thesis by blast
qed

subsection \<open>A run\<close>

text \<open>
  Two nodes of one talkgroup, A and B: A logs in over the websocket 7 and takes the floor. The
  digest of the run is constant, and the sessions pass every packet of their node through.
\<close>

definition demo_node :: "string \<Rightarrow> rcfg_node" where
  "demo_node name = \<lparr>rn_id = name, rn_psk = replicate 32 7, rn_allowed = [1], rn_default = 1, rn_banned = False\<rparr>"

definition demo_rcfg :: rcfg where
  "demo_rcfg = rcfg_zero\<lparr>rc_hangtime_ms := 500, rc_keepalive_s := 15, rc_nodes := [demo_node ''A'', demo_node ''B''],
     rc_tgs := [\<lparr>rt_number = 1, rt_name = ''one'', rt_members = [0, 1]\<rparr>]\<rparr>"

definition demo_hmac :: "byte list \<Rightarrow> byte list \<Rightarrow> byte list option" where
  "demo_hmac key text = (if length key = 32 \<and> length text = 32 then Some (replicate 32 5) else None)"

definition demo_env :: "int \<Rightarrow> renv" where
  "demo_env t = \<lparr>en_now = t, en_epoch = 1000, en_rec = False\<rparr>"

definition demo_login :: "string \<Rightarrow> login_msg" where
  "demo_login name = \<lparr>lg_node = Some name, lg_hmac = Some (concat (replicate 32 ''05'')), lg_nonce = Some (concat (replicate 16 ''0a'')),
     lg_version = None\<rparr>"

definition demo_rand :: session_rand where
  "demo_rand = \<lparr>sr_key = [], sr_salt = [], sr_ssrc = 1, sr_refl_ssrc = 2, sr_audio = Some (9, 90)\<rparr>"

definition demo_packet :: "nat \<Rightarrow> datagram" where
  "demo_packet n = \<lparr>dg_header_ok = True, dg_len = 30, dg_src = 100 + n,
     dg_open = (\<lambda>k. if k = n then Some (replicate 14 0x78) else None), dg_send_ok = (\<lambda>_. True)\<rparr>"

definition demo_ins :: "(renv \<times> rinput) list" where
  "demo_ins =
     [(demo_env 1, I_open 7 (Some (replicate 16 1))), (demo_env 2, I_msg 7 (Some demo_rand) 30 (In_login (demo_login ''A''))),
      (demo_env 1000, I_msg 7 None 20 In_talk_start)]"

definition demo_state :: refl where
  "demo_state = final demo_hmac (refl_boot demo_rcfg) demo_ins"

lemma demo_rcfg_ok: "rcfg_ok demo_rcfg"
  by (simp add: rcfg_ok_def demo_rcfg_def demo_node_def rcfg_zero_def rcfg_node_ok_def rcfg_tg_ok_def tg_number_ok_def)

lemma demo_reach: "refl_reach demo_hmac demo_rcfg demo_state"
proof -
  have "opens_fresh demo_hmac (refl_boot demo_rcfg) demo_ins" by code_simp
  with reach_final[OF refl_reach.boot] show ?thesis by (simp add: demo_state_def)
qed

lemma demo_talker: "tr_talker (rf_tg demo_state 0) = Some 0 \<and> length (rc_tgs (rf_cfg demo_state)) = 1 \<and> tr_lease (rf_tg demo_state 0) = 1500"
  by code_simp

theorem reflector_floor_holder_witness:
  "tr_talker (rf_tg demo_state 0) = Some 0 \<and> rcfg_node_allowed_on_tg (rf_cfg demo_state) 0 (nr_tg (rf_node demo_state 0))"
proof -
  have "0 < length (rc_tgs (rf_cfg demo_state))" "tr_talker (rf_tg demo_state 0) = Some 0" using demo_talker by simp_all
  with reflector_floor_holder[OF demo_reach demo_rcfg_ok] show ?thesis by blast
qed

theorem floor_tick_frees_witness:
  "tr_talker (rf_tg demo_state 0) = Some 0 \<and> tr_talker (rf_tg (fst (floor_tick (demo_env 1500) demo_state)) 0) = None"
proof -
  obtain s' es where t: "floor_tick (demo_env 1500) demo_state = (s', es)" by (cases "floor_tick (demo_env 1500) demo_state")
  have "0 < length (rc_tgs (rf_cfg demo_state))" "tr_talker (rf_tg demo_state 0) = Some 0" "tr_lease (rf_tg demo_state 0) \<le> en_now (demo_env 1500)"
    using demo_talker by (simp_all add: demo_env_def)
  with floor_tick_frees[OF demo_reach demo_rcfg_ok _ _ t, of 0 0] t show ?thesis by simp
qed

text \<open>Both nodes on the air.\<close>

definition demo_on_node :: "nat \<Rightarrow> node_rt" where
  "demo_on_node c = logged_in (demo_env 1) c 1 \<lparr>an_addr = Some c, an_ssrc = 1, an_refl_ssrc = 2, an_master = [], an_in = \<lparr>ss_ssrc = 1, ss_key = []\<rparr>, an_out = \<lparr>ss_ssrc = 2, ss_key = []\<rparr>,
     an_out_seq = 9, an_out_ts = 90\<rparr> None node_boot"

definition demo_on :: refl where
  "demo_on = upd_node 0 (\<lambda>_. demo_on_node 7) (upd_node 1 (\<lambda>_. demo_on_node 8) (refl_boot demo_rcfg))"

definition demo_taken :: refl where
  "demo_taken = fst (snd (floor_try_grant (demo_env 1000) 0 0 demo_on))"

theorem talk_fans_out_witness:
  "filter forwards (snd (audio_packet (demo_env 2000) (demo_packet 0) demo_on)) = [Rf_udp 1 (rewrite_header (the (nr_audio (demo_on_node 8))) (replicate 14 0x78))]"
proof -
  have h: "dg_header_ok (demo_packet 0)" "dg_open (demo_packet 0) 0 = Some (replicate 14 0x78)" by (simp_all add: demo_packet_def)
  have l: "12 \<le> length (replicate 14 (0x78 :: byte))" "length (replicate 14 (0x78 :: byte)) \<le> RTP_MAX_PACKET" by simp_all
  have f: "find_sender (demo_packet 0) demo_on = Some 0" by code_simp
  have b: "\<not> is_bootstrap (replicate 14 0x78)" "\<not> nr_muted (rf_node demo_on 0)" by code_simp+
  have i: "rcfg_tg_idx (rf_cfg demo_on) (nr_tg (rf_node demo_on 0)) = Some 0" "distinct (tg_members_of 0 demo_on)" by code_simp+
  have "(if fst (floor_try_grant (demo_env 2000) 0 0 demo_on) then concat (map (copy_for (demo_packet 0) (replicate 14 0x78) 0 demo_on) (tg_members_of 0 demo_on)) else [])
      = [Rf_udp 1 (rewrite_header (the (nr_audio (demo_on_node 8))) (replicate 14 0x78))]" by code_simp
  with talk_fans_out[OF h(1) f h(2) l b i(1,2), of "demo_env 2000"] show ?thesis by simp
qed

theorem floor_exclusive_witness:
  "tr_talker (rf_tg demo_taken 0) = Some 0 \<and>
   \<not> (\<exists>e \<in> set (snd (refl_step demo_hmac (demo_env 1300, I_packet (demo_packet 1)) demo_taken)). carries_audio e)"
proof -
  have "fst (floor_try_grant (demo_env 1000) 0 0 demo_on)" by code_simp
  then obtain es where g: "floor_try_grant (demo_env 1000) 0 0 demo_on = (True, demo_taken, es)"
    by (cases "floor_try_grant (demo_env 1000) 0 0 demo_on") (simp add: demo_taken_def)
  have e: "en_now (demo_env t) = t" for t by (simp add: demo_env_def)
  have hang: "rc_hangtime_ms (rf_cfg demo_taken) = 500" by code_simp
  have s: "(s', env, inp, es) \<in> set (trace demo_hmac demo_taken [(demo_env 1300, I_packet (demo_packet 1))]) \<Longrightarrow>
     en_now (demo_env 1000) \<le> en_now env \<and> en_now env < en_now (demo_env 1000) + rc_hangtime_ms (rf_cfg demo_taken) \<and> \<not> yields 0 0 s' inp" for s' env inp es
    using hang by (auto simp: yields_def e)
  have f: "find_sender (demo_packet 1) demo_taken = Some 1" by code_simp
  have i: "rcfg_tg_idx (rf_cfg demo_taken) (nr_tg (rf_node demo_taken 1)) = Some 0" by code_simp
  have m: "(demo_taken, demo_env 1300, I_packet (demo_packet 1), snd (refl_step demo_hmac (demo_env 1300, I_packet (demo_packet 1)) demo_taken))
      \<in> set (trace demo_hmac demo_taken [(demo_env 1300, I_packet (demo_packet 1))])" by simp
  from floor_exclusive[OF g s m] f i show ?thesis by simp
qed

theorem login_needs_key_witness:
  "\<exists>x nb mb. rf_conn (fst (ws_open (demo_env 1) 7 (Some (replicate 16 1)) (refl_boot demo_rcfg))) 7 = Some x \<and>
     demo_hmac (rn_psk (demo_node ''A'')) (cn_challenge x @ nb) = Some mb"
proof -
  let ?s = "fst (ws_open (demo_env 1) 7 (Some (replicate 16 1)) (refl_boot demo_rcfg))"
  have a: "\<not> nr_connected (rf_node ?s 0)" by code_simp
  have b: "nr_connected (rf_node (fst (refl_step demo_hmac (demo_env 2, I_msg 7 (Some demo_rand) 30 (In_login (demo_login ''A''))) ?s)) 0)" by code_simp
  have c: "rn_psk (rc_nodes (rf_cfg ?s) ! 0) = rn_psk (demo_node ''A'')" by code_simp
  from login_needs_key[OF a b] c show ?thesis by auto
qed

lemma version_order_is_textual: "version_at_least (Some ''kerchunk 1.10.0'') ''1.9.0'' < 0"
  by code_simp

end
