(* ===== verification/Link_System.thy ===== *)
theory Link_System
  imports Link_Props Reflector_Access
begin

text \<open>
  The link module and the reflector together: the fields of the messages that the reflector writes, as
  the link module reads them, and what the two agree on after a login. The digest, the
  random numbers and the network are the parameters of the two sides.
\<close>

subsection \<open>Messages on the wire\<close>

definition hello_wire :: "byte list \<Rightarrow> srv_msg" where
  "hello_wire challenge = S_hello (Some (bytes_to_hex challenge))"

definition denied_wire :: "string \<Rightarrow> string \<Rightarrow> srv_msg" where
  "denied_wire code msg = S_login_denied (Some code) (Some msg)"

definition login_ok_wire ::
  "nat \<Rightarrow> string \<times> int \<Rightarrow> byte list \<times> byte list \<Rightarrow> 32 word \<times> 32 word \<Rightarrow> string \<Rightarrow> srv_msg" where
  "login_ok_wire tg ep keys ssrcs members =
     S_login_ok \<lparr>lo_endpoint = Some (fst ep @ '':'' @ (if snd ep < 0 then ''-'' else []) @ show_nat (nat \<bar>snd ep\<bar>)),
       lo_key = Some (bytes_to_hex (fst keys)), lo_salt = Some (bytes_to_hex (snd keys)),
       lo_ssrc = uint (fst ssrcs), lo_refl_ssrc = uint (snd ssrcs), lo_tg = int tg, lo_members = Some members\<rparr>"

text \<open>Every message, by its type and the fields that the module reads of it.\<close>

fun wire :: "rmsg \<Rightarrow> srv_msg" where
  "wire (M_hello challenge mn) = hello_wire challenge"
| "wire (M_login_denied code msg) = denied_wire code msg"
| "wire (M_login_ok name tg ka hang ep keys ssrcs members) = login_ok_wire tg ep keys ssrcs members"
| "wire (M_kicked code msg) = S_kicked (Some code) (Some msg)"
| "wire (M_mute reason n) = S_mute (Some reason)"
| "wire M_unmute = S_unmute"
| "wire (M_tg_ok tg name) = S_tg_ok (int tg)"
| "wire (M_tg_denied tg code) = S_tg_denied (Some code) tg"
| "wire (M_talker tg who t) = S_talker who"
| "wire (M_floor_denied tg holder) = S_floor_denied (Some holder)"
| "wire (M_floor_revoked tg code) = S_floor_revoked (Some code)"
| "wire (M_tg_roster tg members) = S_tg_roster (Some members)"
| "wire (M_tg_membership old new) = S_tg_membership (int old) (case new of Some tg \<Rightarrow> int tg | None \<Rightarrow> 0) (Some ''config_reload'')"
| "wire (M_ping sq) = S_ping sq"
| "wire (M_pong sq) = S_pong"
| "wire (M_target_bitrate bps) = S_target_bitrate bps"
| "wire (M_shutdown n) = S_shutdown n (Some ''deploy'')"
| "wire (M_error code msg) = S_other"

text \<open>What a connection receives of the effects of the reflector.\<close>

fun inbox :: "nat \<Rightarrow> reff list \<Rightarrow> rmsg list" where
  "inbox c [] = []"
| "inbox c (Rf_send d m # es) = (if d = c then [m] else []) @ inbox c es"
| "inbox c (e # es) = inbox c es"

definition reads :: "link_env \<Rightarrow> rmsg list \<Rightarrow> link \<Rightarrow> link" where
  "reads e ms k = fold (\<lambda>m k. fst (on_ws_msg e (wire m) k)) ms k"

lemma reads_simps [simp]:
  "reads e [] k = k" "reads e (m # ms) k = reads e ms (fst (on_ws_msg e (wire m) k))"
  "reads e (ms @ ns) k = reads e ns (reads e ms k)"
  by (simp_all add: reads_def)

lemma inbox_append [simp]: "inbox c (xs @ ys) = inbox c xs @ inbox c ys"
  by (induction c xs rule: inbox.induct) simp_all

lemma inbox_none: "(\<And>m. Rf_send c m \<notin> set es) \<Longrightarrow> inbox c es = []"
  by (induction c es rule: inbox.induct) auto

subsection \<open>The texts\<close>

lemma hex_exact [simp]: "hex_to_bytes (bytes_to_hex bs) (length bs) = Some bs"
  using hex_roundtrip[of bs "[]"] by simp

lemma hex_exact_n: "length bs = n \<Longrightarrow> hex_to_bytes (bytes_to_hex bs) n = Some bs"
  using hex_exact by blast

lemma last_colon_none: "CHR '':'' \<notin> set s \<Longrightarrow> last_colon s = None"
  by (induction s) auto

lemma last_colon_split: "CHR '':'' \<notin> set p \<Longrightarrow> last_colon (h @ CHR '':'' # p) = Some (h, p)"
  by (induction h) (simp_all add: last_colon_none)

lemma show_nat_no_colon: "CHR '':'' \<notin> set (show_nat n)"
  using show_nat_digits[of n] by (auto simp: is_digit_def ascii_def)

lemma atoi_show_nat: "int n \<le> INT_MAX \<Longrightarrow> atoi (show_nat n) = int n"
  using atoi_digits[of "show_nat n"] show_nat_digits[of n] show_nat_val[of n] show_nat_not_Nil[of n] by simp

subsection \<open>The login\<close>

text \<open>What a client sends in answer to a challenge.\<close>

definition answer :: "byte list \<Rightarrow> byte list \<Rightarrow> link \<Rightarrow> login_msg" where
  "answer mac nonce k = \<lparr>lg_node = Some (lc_node_id (lk_cfg k)), lg_hmac = Some (bytes_to_hex mac),
     lg_nonce = Some (bytes_to_hex nonce), lg_version = Some client_version\<rparr>"

lemma hello_answer:
  assumes "length challenge = 16" "le_nonce e = Some nonce" "le_hmac e (lc_psk (lk_cfg k)) (challenge @ nonce) = Some mac" "lk_ws k"
  shows "on_ws_msg e (hello_wire challenge) k = (set_state e LST_AWAIT_LOGIN_OK k, [LE_send (In_login (answer mac nonce k))])"
  using assms by (simp add: hello_wire_def on_ws_msg_def on_hello_def answer_def send_ws_def hex_exact_n)

lemma check_answer:
  assumes "rcfg_node_idx (rf_cfg s) (lc_node_id (lk_cfg k)) = Some n" "\<not> rn_banned (rc_nodes (rf_cfg s) ! n)" "\<not> nr_connected (rf_node s n)"
    and "0 \<le> version_at_least (Some client_version) (rc_min_version (rf_cfg s))" "length nonce = 16" "length mac = 32"
  shows "check_login hmac challenge (answer mac nonce k) s =
    (if hmac (rn_psk (rc_nodes (rf_cfg s) ! n)) (challenge @ nonce) \<noteq> Some mac then Inl (''bad_key'', ''HMAC mismatch'')
     else if \<not> rcfg_node_allowed_on_tg (rf_cfg s) n (initial_tg (rc_nodes (rf_cfg s) ! n)) then Inl (''not_authorized'', ''no usable default talkgroup'')
     else Inr n)"
  using assms by (auto simp: check_login_def answer_def hex_exact_n verify_login_hmac_def Let_def split: option.split)

text \<open>The session that a login sets up at the client.\<close>

definition outside_ok :: "link_env \<Rightarrow> string \<Rightarrow> bool" where
  "outside_ok e host \<longleftrightarrow> le_resolve e host \<and> le_srtp_in e \<and> le_srtp_out e \<and> le_enc_ok e \<and> le_dec_ok e \<and> le_socket_ok e"

lemma setup_ok:
  assumes "outside_ok e host" "length key = 16" "length salt = 14" "x \<noteq> 0" "y \<noteq> 0" "tg \<noteq> 0" "0 \<le> port" "port \<le> INT_MAX"
  shows "on_ws_msg e (login_ok_wire tg (host, port) (key, salt) (x, y) members) k = send_bootstrap e
    ((set_state e LST_CONNECTED (k\<lparr>lk_members := stash_members (Some members), lk_ssrc := x, lk_refl_ssrc := y, lk_tg := int tg,
        lk_dst := (host, port), lk_key := key @ salt, lk_active := True, lk_enc := True, lk_dec := True, lk_udp := True\<rparr>))
     \<lparr>lk_attempt := 0, lk_error := ER_none\<rparr>)"
proof -
  have "last_colon (host @ CHR '':'' # show_nat (nat port)) = Some (host, show_nat (nat port))"
    by (rule last_colon_split) (rule show_nat_no_colon)
  moreover have "atoi (show_nat (nat port)) = port" using atoi_show_nat[of "nat port"] assms(7,8) by simp
  moreover have "uint x \<noteq> 0" "uint y \<noteq> 0" using assms(4,5) by (simp_all add: unsigned_eq_0_iff)
  ultimately show ?thesis
    using assms by (simp add: login_ok_wire_def on_ws_msg_def on_login_ok_def session_setup_def outside_ok_def hex_exact_n Let_def)
qed

text \<open>
  A client and a connection that waits for its login: the node is known, not banned, not connected and
  recent enough, and the client has its nonce and a digest of its key, the challenge and the nonce.
\<close>

definition about_to_login ::
  "(byte list \<Rightarrow> byte list \<Rightarrow> byte list option) \<Rightarrow> link_env \<Rightarrow> byte list \<Rightarrow> byte list \<Rightarrow> rconn \<Rightarrow> nat \<Rightarrow> link \<Rightarrow> refl \<Rightarrow> bool" where
  "about_to_login hmac e nonce mac x n k s \<longleftrightarrow>
     cn_state x = CST_AWAITING_LOGIN \<and> length (cn_challenge x) = 16 \<and>
     rcfg_node_idx (rf_cfg s) (lc_node_id (lk_cfg k)) = Some n \<and> \<not> rn_banned (rc_nodes (rf_cfg s) ! n) \<and> \<not> nr_connected (rf_node s n) \<and>
     0 \<le> version_at_least (Some client_version) (rc_min_version (rf_cfg s)) \<and>
     lk_ws k \<and> le_nonce e = Some nonce \<and> length nonce = 16 \<and> le_hmac e = hmac \<and>
     hmac (lc_psk (lk_cfg k)) (cn_challenge x @ nonce) = Some mac \<and> length mac = 32"

lemma login_reaches:
  assumes "about_to_login hmac e nonce mac x n k s" "rf_conn s c = Some x"
  shows "on_ws_msg e (hello_wire (cn_challenge x)) k = (set_state e LST_AWAIT_LOGIN_OK k, [LE_send (In_login (answer mac nonce k))])"
    "handle_message hmac env rnd c (In_login (answer mac nonce k)) s =
       handle_login hmac env rnd c (answer mac nonce k) (upd_conn c (\<lambda>x. x\<lparr>cn_last_traffic := en_now env, cn_waiting_pong := False\<rparr>) s)"
  using assms hello_answer by (simp_all add: about_to_login_def handle_message_def handle_typed_def Let_def upd_conn_def)

text \<open>What reading the rosters that follow leaves alone.\<close>

lemma read_roster: "fst (on_ws_msg e (wire (M_tg_roster tg t)) k) = k\<lparr>lk_members := lk_members (fst (on_ws_msg e (wire (M_tg_roster tg t)) k))\<rparr>"
  by (simp add: on_ws_msg_def)

fun is_roster :: "rmsg \<Rightarrow> bool" where
  "is_roster (M_tg_roster tg t) = True"
| "is_roster _ = False"

lemma read_rosters: "list_all is_roster ms \<Longrightarrow> reads e ms k = k\<lparr>lk_members := lk_members (reads e ms k)\<rparr>"
proof (induction ms arbitrary: k)
  case (Cons m ms)
  from Cons.prems obtain tg t where m: "m = M_tg_roster tg t" by (cases m) simp_all
  let ?k1 = "fst (on_ws_msg e (wire m) k)"
  have "?k1 = k\<lparr>lk_members := lk_members ?k1\<rparr>" unfolding m by (rule read_roster)
  moreover have "reads e ms ?k1 = ?k1\<lparr>lk_members := lk_members (reads e ms ?k1)\<rparr>" using Cons by simp
  ultimately show ?case by (metis link.surjective link.update_convs(11) reads_simps(2))
qed simp

lemma inbox_in: "m \<in> set (inbox c es) \<Longrightarrow> Rf_send c m \<in> set es"
  by (induction c es rule: inbox.induct) (auto split: if_splits)

lemma inbox_roster: "list_all is_roster (inbox c (snd (broadcast_tg_roster i s)))"
proof -
  have "is_roster m" if "Rf_send c m \<in> set (snd (broadcast_tg_roster i s))" for m
    using that by (auto simp: broadcast_tg_roster_def tell_def to_tg_def to_node_def split: option.splits if_splits)
  then show ?thesis by (auto simp: list_all_iff dest: inbox_in)
qed

text \<open>
  The session as both sides have it: the client's master key is the one of both SRTP sessions that the reflector has created for
  the node, each for its source, and it is the one drawn for the login.
\<close>

definition session_up :: "session_rand \<Rightarrow> nat \<Rightarrow> refl \<Rightarrow> link \<Rightarrow> bool" where
  "session_up r n s k \<longleftrightarrow>
     nr_connected (rf_node s n) \<and> lk_state k = LST_CONNECTED \<and> lk_active k \<and> lk_udp k \<and> lk_key k = sr_key r @ sr_salt r \<and>
     lk_tg k = int (nr_tg (rf_node s n)) \<and> lk_dst k = (rc_rtp_host (rf_cfg s), rc_rtp_port (rf_cfg s)) \<and>
     (case nr_audio (rf_node s n) of
        Some a \<Rightarrow> an_ssrc a = lk_ssrc k \<and> an_refl_ssrc a = lk_refl_ssrc k \<and> an_master a = lk_key k \<and>
          an_in a = \<lparr>ss_ssrc = lk_ssrc k, ss_key = lk_key k\<rparr> \<and> an_out a = \<lparr>ss_ssrc = lk_refl_ssrc k, ss_key = lk_key k\<rparr>
      | None \<Rightarrow> False)"

text \<open>What an accepted login leaves, and what it sends on the connection.\<close>

lemma login_accepted:
  assumes "rf_conn s c = Some x" "check_login hmac (cn_challenge x) m s = Inr n" "sr_audio r = Some st" "handle_login hmac env (Some r) c m s = (s1, es)"
  obtains name members an ms where "rf_cfg s1 = rf_cfg s" "nr_connected (rf_node s1 n)" "nr_tg (rf_node s1 n) = initial_tg (rc_nodes (rf_cfg s) ! n)" "nr_audio (rf_node s1 n) = Some an"
    "audio_node_create (sr_key r) (sr_salt r) (sr_ssrc r) (sr_refl_ssrc r) (sr_audio r) = Some an"
    "list_all is_roster ms" "inbox c es =
       M_login_ok name (initial_tg (rc_nodes (rf_cfg s) ! n)) (rc_keepalive_s (rf_cfg s)) (rc_hangtime_ms (rf_cfg s)) (rc_rtp_host (rf_cfg s), rc_rtp_port (rf_cfg s))
         (sr_key r, sr_salt r) (sr_ssrc r, sr_refl_ssrc r) members # ms"
proof -
  obtain sq ts where st: "st = (sq, ts)" by (cases st)
  let ?tg = "initial_tg (rc_nodes (rf_cfg s) ! n)"
  obtain an where an: "audio_node_create (sr_key r) (sr_salt r) (sr_ssrc r) (sr_refl_ssrc r) (sr_audio r) = Some an"
    using assms(3) st by (simp add: audio_node_create_def Let_def)
  let ?u = "upd_node n (logged_in env c ?tg an (lg_version m)) (upd_conn c (\<lambda>x. x\<lparr>cn_state := CST_AUTHENTICATED, cn_node := Some n\<rparr>) s)"
  let ?rest = "case rcfg_tg_idx (rf_cfg s) ?tg of Some i \<Rightarrow> snd (broadcast_tg_roster i ?u) | None \<Rightarrow> []"
  obtain ok where ok: "ok = M_login_ok (case lg_node m of Some n \<Rightarrow> n | None \<Rightarrow> []) ?tg (rc_keepalive_s (rf_cfg s)) (rc_hangtime_ms (rf_cfg s))
     (rc_rtp_host (rf_cfg s), rc_rtp_port (rf_cfg s)) (sr_key r, sr_salt r) (sr_ssrc r, sr_refl_ssrc r) (login_members ?tg ?u)" by blast
  have "(s1, es) = (?u, Rf_send c ok # ?rest)"
    using assms(4) unfolding ok by (simp only: handle_login_def assms(1,2) an option.case sum.case prod.case Let_def)
  then have u: "s1 = ?u" and es: "inbox c es = ok # inbox c ?rest" by simp_all
  have r: "list_all is_roster (inbox c ?rest)" using inbox_roster by (cases "rcfg_tg_idx (rf_cfg s) ?tg") simp_all
  show thesis by (rule that[where an = an, OF _ _ _ _ an r es[unfolded ok]]) (simp_all add: u logged_in_def)
qed

lemma session_members: "session_up r n s (k\<lparr>lk_members := t\<rparr>) = session_up r n s k"
  by (simp add: session_up_def split: option.split)

text \<open>
  C9. The right key brings up a session on which both sides agree: when the client has the key of a node that may
  log in and is allowed on its first talkgroup, its answer to the challenge is accepted, and
  when it has read what the reflector sends in return it is connected, with the master key (key and
  salt) that the reflector has installed in both of its SRTP sessions for the node, one for the source of the node and one
  for its own, with these two sources and the talkgroup that the reflector has for the node, and with the address of the
  reflector for its audio.
\<close>

theorem link_login_agrees:
  assumes "about_to_login hmac e nonce mac x n k s" "rf_conn s c = Some x"
    and "lc_psk (lk_cfg k) = rn_psk (rc_nodes (rf_cfg s) ! n)"
    and "rcfg_node_allowed_on_tg (rf_cfg s) n (initial_tg (rc_nodes (rf_cfg s) ! n))" "initial_tg (rc_nodes (rf_cfg s) ! n) \<noteq> 0"
    and "sr_audio r \<noteq> None" "length (sr_key r) = 16" "length (sr_salt r) = 14" "sr_ssrc r \<noteq> 0" "sr_refl_ssrc r \<noteq> 0"
    and "outside_ok e (rc_rtp_host (rf_cfg s))" "0 \<le> rc_rtp_port (rf_cfg s)" "rc_rtp_port (rf_cfg s) \<le> INT_MAX"
  shows "\<exists>m k1 s1 es. on_ws_msg e (hello_wire (cn_challenge x)) k = (k1, [LE_send m]) \<and>
    handle_message hmac env (Some r) c m s = (s1, es) \<and> session_up r n s1 (reads e (inbox c es) k1)"
proof -
  let ?tg = "initial_tg (rc_nodes (rf_cfg s) ! n)" and ?k1 = "set_state e LST_AWAIT_LOGIN_OK k" and ?m = "In_login (answer mac nonce k)"
  let ?s0 = "upd_conn c (\<lambda>x. x\<lparr>cn_last_traffic := en_now env, cn_waiting_pong := False\<rparr>) s"
  obtain sq ts where au: "sr_audio r = Some (sq, ts)" using assms(6) by auto
  note D = assms(1)[unfolded about_to_login_def]
  have chk: "check_login hmac (cn_challenge x) (answer mac nonce k) ?s0 = Inr n"
    using check_answer[of ?s0 k n nonce mac hmac "cn_challenge x"] D assms(3,4) by simp
  obtain s1 es where h: "handle_message hmac env (Some r) c ?m s = (s1, es)" by (cases "handle_message hmac env (Some r) c ?m s")
  let ?x0 = "x\<lparr>cn_last_traffic := en_now env, cn_waiting_pong := False\<rparr>"
  have x0: "rf_conn ?s0 c = Some ?x0" using assms(2) by (simp add: upd_conn_def)
  from h have "handle_login hmac env (Some r) c (answer mac nonce k) ?s0 = (s1, es)"
    using login_reaches(2)[OF assms(1,2)] by simp
  from chk have "check_login hmac (cn_challenge ?x0) (answer mac nonce k) ?s0 = Inr n" by simp
  note L = login_accepted[OF x0 this au \<open>handle_login hmac env (Some r) c (answer mac nonce k) ?s0 = (s1, es)\<close>, unfolded upd_simps]
  obtain name members an ms where s1: "rf_cfg s1 = rf_cfg s" "nr_connected (rf_node s1 n)" "nr_tg (rf_node s1 n) = ?tg" "nr_audio (rf_node s1 n) = Some an"
      "audio_node_create (sr_key r) (sr_salt r) (sr_ssrc r) (sr_refl_ssrc r) (sr_audio r) = Some an" "list_all is_roster ms"
    and es: "inbox c es = M_login_ok name ?tg (rc_keepalive_s (rf_cfg s)) (rc_hangtime_ms (rf_cfg s)) (rc_rtp_host (rf_cfg s), rc_rtp_port (rf_cfg s))
       (sr_key r, sr_salt r) (sr_ssrc r, sr_refl_ssrc r) members # ms"
    by (rule L)
  let ?k2 = "fst (on_ws_msg e (login_ok_wire ?tg (rc_rtp_host (rf_cfg s), rc_rtp_port (rf_cfg s)) (sr_key r, sr_salt r) (sr_ssrc r, sr_refl_ssrc r) members) ?k1)"
  have "an_ssrc an = sr_ssrc r" "an_refl_ssrc an = sr_refl_ssrc r" "an_master an = sr_key r @ sr_salt r"
    "an_in an = \<lparr>ss_ssrc = sr_ssrc r, ss_key = sr_key r @ sr_salt r\<rparr>" "an_out an = \<lparr>ss_ssrc = sr_refl_ssrc r, ss_key = sr_key r @ sr_salt r\<rparr>"
    using s1(5) au assms(7,8) by (auto simp: audio_node_create_def Let_def)
  then have "session_up r n s1 ?k2"
    using setup_ok[OF assms(11,7,8,9,10,5,12,13), of members ?k1] s1
    by (simp add: session_up_def send_bootstrap_def set_state_def Let_def)
  moreover have "reads e ms ?k2 = ?k2\<lparr>lk_members := lk_members (reads e ms ?k2)\<rparr>" by (rule read_rosters) (rule s1)
  ultimately have "session_up r n s1 (reads e ms ?k2)" by (metis session_members)
  then have "session_up r n s1 (reads e (inbox c es) ?k1)" by (simp only: es reads_simps wire.simps)
  with login_reaches(1)[OF assms(1,2)] h show ?thesis by blast
qed

lemma read_denial:
  "link_err_is_permanent (Some code) \<Longrightarrow> lk_ws k \<Longrightarrow>
   lk_state (fst (on_ws_msg e (denied_wire code msg) k)) = LST_STOPPED \<and> lk_closing (fst (on_ws_msg e (denied_wire code msg) k))"
  by (simp add: denied_wire_def on_ws_msg_def on_login_denied_def close_ws_def set_error_def set_state_def Let_def)

lemma login_denied:
  "rf_conn s c = Some x \<Longrightarrow> check_login hmac (cn_challenge x) m s = Inl (code, msg) \<Longrightarrow>
   handle_login hmac env r c m s = send_close c (M_login_denied code msg) s"
  by (simp add: handle_login_def)

text \<open>
  C24. The wrong key stops the client for good: when its digest is not the one of the key that the reflector has for
  the node, the login is denied, nothing of the reflector changes but the connection, which
  is closed, and when the client has read the denial it is stopped and closes its websocket.
\<close>

theorem link_wrong_key_stops:
  assumes "about_to_login hmac e nonce mac x n k s" "rf_conn s c = Some x"
    and "hmac (rn_psk (rc_nodes (rf_cfg s) ! n)) (cn_challenge x @ nonce) \<noteq> Some mac"
  shows "\<exists>m k1 s1 es. on_ws_msg e (hello_wire (cn_challenge x)) k = (k1, [LE_send m]) \<and> handle_message hmac env r c m s = (s1, es) \<and>
    rf_node s1 = rf_node s \<and> rf_tg s1 = rf_tg s \<and> map_option cn_draining (rf_conn s1 c) = Some True \<and>
    lk_state (reads e (inbox c es) k1) = LST_STOPPED \<and> lk_closing (reads e (inbox c es) k1)"
proof -
  let ?s0 = "upd_conn c (\<lambda>x. x\<lparr>cn_last_traffic := en_now env, cn_waiting_pong := False\<rparr>) s"
  have x0: "rf_conn ?s0 c = Some (x\<lparr>cn_last_traffic := en_now env, cn_waiting_pong := False\<rparr>)" using assms(2) by (simp add: upd_conn_def)
  have "check_login hmac (cn_challenge x) (answer mac nonce k) ?s0 = Inl (''bad_key'', ''HMAC mismatch'')"
    using check_answer[of ?s0 k n nonce mac hmac "cn_challenge x"] assms(1,3) by (simp add: about_to_login_def)
  then have "handle_message hmac env r c (In_login (answer mac nonce k)) s = send_close c (M_login_denied ''bad_key'' ''HMAC mismatch'') ?s0"
    using login_denied[OF x0, of hmac "answer mac nonce k" "''bad_key''" "''HMAC mismatch''"] login_reaches(2)[OF assms(1,2)] by simp
  moreover have "lk_ws (set_state e LST_AWAIT_LOGIN_OK k)" using assms(1) by (simp add: about_to_login_def set_state_def)
  note r = read_denial[OF _ this, of "''bad_key''" e "''HMAC mismatch''"]
  ultimately have h: "handle_message hmac env r c (In_login (answer mac nonce k)) s =
     (upd_conn c (\<lambda>x. x\<lparr>cn_draining := True\<rparr>) ?s0, [Rf_send c (M_login_denied ''bad_key'' ''HMAC mismatch'')])"
    by (simp add: send_close_def)
  show ?thesis
    by (rule exI, rule exI, rule exI, rule exI, rule conjI[OF login_reaches(1)[OF assms(1,2)] conjI[OF h]])
       (use assms(2) r in \<open>simp add: link_err_is_permanent_def\<close>)
qed

subsection \<open>Examples\<close>

definition demo_client :: link where
  "demo_client = demo_link\<lparr>lk_cfg := (lk_cfg demo_link)\<lparr>lc_node_id := ''A'', lc_psk := replicate 32 7\<rparr>, lk_state := LST_AWAIT_HELLO\<rparr>"

definition demo_intruder :: link where
  "demo_intruder = demo_client\<lparr>lk_cfg := (lk_cfg demo_client)\<lparr>lc_psk := replicate 32 8\<rparr>\<rparr>"

text \<open>A digest that depends on the key: its first byte, repeated.\<close>

definition key_hmac :: "byte list \<Rightarrow> byte list \<Rightarrow> byte list option" where
  "key_hmac key text = (case key of b # _ \<Rightarrow> Some (replicate 32 b) | [] \<Rightarrow> None)"

lemma key_hmac_replicate [simp]: "key_hmac (replicate 32 b) t = Some (replicate 32 b)"
  by (simp add: key_hmac_def numeral_eq_Suc)

definition key_env :: link_env where "key_env = (Link_Props.demo_env 9)\<lparr>le_hmac := key_hmac\<rparr>"

definition waiting :: rconn where "waiting = new_conn\<lparr>cn_challenge := replicate 16 3\<rparr>"

definition demo_waiting :: refl where
  "demo_waiting = (refl_boot (demo_rcfg\<lparr>rc_rtp_host := ''refl'', rc_rtp_port := 7878\<rparr>))\<lparr>rf_conn := [7 \<mapsto> waiting], rf_order := [7]\<rparr>"

definition full_rand :: session_rand where
  "full_rand = \<lparr>sr_key = replicate 16 1, sr_salt = replicate 14 2, sr_ssrc = 5, sr_refl_ssrc = 6, sr_audio = Some (9, 90)\<rparr>"

lemma demo_idx: "rcfg_node_idx (rf_cfg demo_waiting) ''A'' = Some 0"
  by code_simp

lemma demo_about: "about_to_login key_hmac key_env (replicate 16 0) (replicate 32 7) waiting 0 demo_client demo_waiting"
  "about_to_login key_hmac key_env (replicate 16 0) (replicate 32 8) waiting 0 demo_intruder demo_waiting"
  using demo_idx
  by (simp_all add: about_to_login_def waiting_def new_conn_def demo_client_def demo_intruder_def demo_link_def key_env_def
    Link_Props.demo_env_def demo_waiting_def refl_boot_def demo_rcfg_def demo_node_def node_boot_def version_at_least_def rcfg_zero_def)

theorem link_login_agrees_witness:
  "\<exists>m k1 s1 es. on_ws_msg key_env (hello_wire (replicate 16 3)) demo_client = (k1, [LE_send m]) \<and>
     handle_message key_hmac (Reflector_Access.demo_env 5) (Some full_rand) 7 m demo_waiting = (s1, es) \<and>
     session_up full_rand 0 s1 (reads key_env (inbox 7 es) k1)"
proof -
  have c: "rf_conn demo_waiting 7 = Some waiting" by (simp add: demo_waiting_def)
  have p: "lc_psk (lk_cfg demo_client) = rn_psk (rc_nodes (rf_cfg demo_waiting) ! 0)"
    by (simp add: demo_client_def demo_link_def demo_waiting_def refl_boot_def demo_rcfg_def demo_node_def)
  have t: "rcfg_node_allowed_on_tg (rf_cfg demo_waiting) 0 (initial_tg (rc_nodes (rf_cfg demo_waiting) ! 0))"
    "initial_tg (rc_nodes (rf_cfg demo_waiting) ! 0) \<noteq> 0" by code_simp+
  have r: "sr_audio full_rand \<noteq> None" "length (sr_key full_rand) = 16" "length (sr_salt full_rand) = 14" "sr_ssrc full_rand \<noteq> 0"
    "sr_refl_ssrc full_rand \<noteq> 0" by (simp_all add: full_rand_def)
  have o: "outside_ok key_env (rc_rtp_host (rf_cfg demo_waiting))" "0 \<le> rc_rtp_port (rf_cfg demo_waiting)" "rc_rtp_port (rf_cfg demo_waiting) \<le> INT_MAX"
    by (simp_all add: outside_ok_def key_env_def Link_Props.demo_env_def demo_waiting_def refl_boot_def demo_rcfg_def)
  from link_login_agrees[OF demo_about(1) c p t r o, of "Reflector_Access.demo_env 5"] show ?thesis by (simp add: waiting_def)
qed

theorem link_wrong_key_stops_witness:
  "\<exists>m k1 s1 es. on_ws_msg key_env (hello_wire (replicate 16 3)) demo_intruder = (k1, [LE_send m]) \<and>
     handle_message key_hmac (Reflector_Access.demo_env 5) None 7 m demo_waiting = (s1, es) \<and> lk_state (reads key_env (inbox 7 es) k1) = LST_STOPPED"
proof -
  have c: "rf_conn demo_waiting 7 = Some waiting" by (simp add: demo_waiting_def)
  have "key_hmac (rn_psk (rc_nodes (rf_cfg demo_waiting) ! 0)) (cn_challenge waiting @ replicate 16 0) \<noteq> Some (replicate 32 8)"
    by (simp add: demo_waiting_def refl_boot_def demo_rcfg_def demo_node_def)
  from link_wrong_key_stops[OF demo_about(2) c this, of "Reflector_Access.demo_env 5" None] show ?thesis by (auto simp: waiting_def)
qed

end
