(* ===== verification/Link_Talkgroup.thy ===== *)
theory Link_Talkgroup
  imports Link_System
begin

text \<open>
  The talkgroup of a connected node: over any run of the reflector between two reloads, a client that
  has read all the messages of its connection is on the talkgroup that the reflector has for it.
\<close>

subsection \<open>Messages that move a node\<close>

fun moves_tg :: "rmsg \<Rightarrow> bool" where
  "moves_tg (M_login_ok a b c d e f g h) = True"
| "moves_tg (M_tg_ok tg name) = True"
| "moves_tg (M_tg_membership old new) = True"
| "moves_tg _ = False"

fun loud :: "reff \<Rightarrow> bool" where
  "loud (Rf_send c m) = moves_tg m"
| "loud _ = False"

abbreviation quiet :: "reff list \<Rightarrow> bool" where
  "quiet es \<equiv> list_all (\<lambda>e. \<not> loud e) es"

text \<open>The talkgroup after reading the messages.\<close>

fun tg_after :: "rmsg list \<Rightarrow> nat \<Rightarrow> nat" where
  "tg_after [] t = t"
| "tg_after (M_tg_ok tg name # ms) t = tg_after ms tg"
| "tg_after (m # ms) t = tg_after ms t"

lemma tg_after_append [simp]: "tg_after (ms @ ns) t = tg_after ns (tg_after ms t)"
  by (induction ms t rule: tg_after.induct) simp_all

lemma tg_after_quiet: "list_all (\<lambda>m. \<not> moves_tg m) ms \<Longrightarrow> tg_after ms t = t"
  by (induction ms t rule: tg_after.induct) simp_all

lemma quiet_inbox: "quiet es \<Longrightarrow> tg_after (inbox c es) t = t"
  by (rule tg_after_quiet) (auto simp: list_all_iff dest!: inbox_in)

text \<open>An operation that moves nobody and says so to nobody.\<close>

definition calm :: "rop \<Rightarrow> bool" where
  "calm f \<longleftrightarrow> (\<forall>s. quiet (snd (f s)) \<and> (\<forall>p. nview (rf_node (fst (f s)) p) = nview (rf_node s p)))"

lemma calmI: "(\<And>s. quiet (snd (f s))) \<Longrightarrow> (\<And>s p. nview (rf_node (fst (f s)) p) = nview (rf_node s p)) \<Longrightarrow> calm f"
  by (simp add: calm_def)

lemma core_nview: "core s' = core s \<Longrightarrow> nview (rf_node s' p) = nview (rf_node s p)"
  by (auto simp: core_def fun_eq_iff)

lemma calm_neutral: "neutral f \<Longrightarrow> (\<And>s. quiet (snd (f s))) \<Longrightarrow> calm f"
  by (rule calmI) (simp, rule core_nview, rule neutralD)

lemma calm_then: "calm f \<Longrightarrow> calm g \<Longrightarrow> calm (then_op f g)"
  by (simp add: calm_def snd_then_op)

lemma calm_each: "(\<And>x. x \<in> set xs \<Longrightarrow> calm (f x)) \<Longrightarrow> calm (each f xs)"
proof (induction xs)
  case Nil
  show ?case by (simp add: calm_neutral)
next
  case (Cons x xs)
  then have "calm (then_op (f x) (each f xs))" by (intro calm_then) simp_all
  then show ?case by simp
qed

lemma calm_for_tg: "(\<And>i. calm (f i)) \<Longrightarrow> calm (for_tg tg f)"
  by (simp add: calm_def for_tg_def split: option.split)

lemma calm_if: "calm f \<Longrightarrow> calm g \<Longrightarrow> calm (if b then f else g)"
  by simp

lemma calm_basic [simp]: "calm do_nothing" "\<not> moves_tg m \<Longrightarrow> calm (send c m)" "\<not> moves_tg m \<Longrightarrow> calm (send_close c m)"
  by (simp_all add: calm_neutral)

lemma calm_node: "(\<And>r. nview (g r) = nview r) \<Longrightarrow> calm (just (upd_node n g))"
  by (rule calmI) simp_all

lemma quiet_to_tg: "\<not> moves_tg m \<Longrightarrow> quiet (to_tg i m s)"
  by (auto simp: to_tg_def to_node_def list_all_iff split: option.split)

lemma calm_roster: "calm (broadcast_tg_roster i)"
  by (rule calm_neutral) (simp_all add: broadcast_tg_roster_def quiet_to_tg)

lemma quiet_release: "quiet (snd (floor_release env i r s))"
  by (simp add: floor_release_def broadcast_talker_def to_node_def quiet_to_tg Let_def split: option.split)

lemma calm_release: "calm (floor_release env i r)"
proof (rule calmI)
  show "quiet (snd (floor_release env i r s))" for s by (rule quiet_release)
  show "nview (rf_node (fst (floor_release env i r s)) p) = nview (rf_node s p)" for s p
    using core_release[of env i r s] by (simp add: core_def fun_eq_iff)
qed

lemma calm_release_if: "calm (release_if_holder env n i)"
  using calm_release by (simp add: calm_def release_if_holder_def)

lemma calm_tick: "calm (floor_tick env)"
proof -
  have "calm (floor_tick_one env i)" for i using calm_release by (simp add: calm_def floor_tick_one_def)
  then have "calm (each (floor_tick_one env) xs)" for xs by (intro calm_each)
  then show ?thesis by (simp add: calm_def floor_tick_def)
qed

lemma calm_keepalive: "calm (keepalive_tick env)"
proof (rule calm_neutral[OF neutral_keepalive])
  have "quiet (snd (keepalive_one env c s))" for c s by (simp add: keepalive_one_def Let_def split: option.split)
  then have "quiet (snd (each (keepalive_one env) xs s))" for xs s by (induction xs arbitrary: s) (simp_all add: snd_then_op)
  then show "quiet (snd (keepalive_tick env s))" for s by (simp add: keepalive_tick_def)
qed

lemma calm_kick: "calm (kick_node n code msg)"
  by (rule calm_neutral) (simp_all add: kick_node_def split: option.split)

lemma calm_untyped: "calm (handle_untyped env c)"
  by (rule calm_neutral[OF neutral_untyped]) (simp add: handle_untyped_def Let_def split: option.split)

lemma calm_quality: "calm (handle_quality env c n loss)"
  by (rule calm_neutral[OF neutral_quality]) (simp add: handle_quality_def snd_then_op for_tg_def quiet_to_tg split: option.split)

lemma calm_auth_failed: "calm (auth_failed env d)"
  by (rule calm_neutral[OF neutral_auth_failed]) (simp add: auth_failed_def kick_node_def Let_def split: option.split)

lemma calm_forward: "calm (forward_to d pkt n p)"
  by (rule calm_neutral[OF neutral_forward]) (simp add: forward_to_def Let_def case_prod_beta split: option.split)

lemma calm_deny: "calm (deny_floor env i n)"
  by (rule calm_neutral[OF neutral_deny]) (simp add: deny_floor_def floor_denied_msg_def split: option.split)

lemma grant_calm:
  assumes "floor_try_grant env i n s = (ok, s1, es)"
  shows "quiet es" "nview (rf_node s1 p) = nview (rf_node s p)"
  using assms by (auto simp: floor_try_grant_def broadcast_talker_def quiet_to_tg nview_def Let_def split: if_splits)

lemma calm_talk: "calm (talk env d pkt n i)"
proof -
  have each: "calm (\<lambda>s. each (forward_to d pkt n) (tg_members_of i s) s)"
  proof -
    have "calm (each (forward_to d pkt n) xs)" for xs by (rule calm_each) (rule calm_forward)
    then show ?thesis by (simp add: calm_def)
  qed
  show ?thesis
  proof (rule calmI)
    fix s
    obtain ok s1 es where g: "floor_try_grant env i n s = (ok, s1, es)" by (metis prod_cases3)
    let ?r = "\<lambda>r :: node_rt. r\<lparr>nr_rtp_in := nr_rtp_in r + 1, nr_bytes_in := nr_bytes_in r + dg_len d, nr_last_pkt := en_now env\<rparr>"
    let ?t = "\<lambda>s. es @ (if tr_rec (rf_tg s i) \<and> length pkt > 12 then [Rf_rec_append i (drop 12 pkt)] else [])"
    have "calm (then_op (tell ?t) (then_op (just (upd_node n ?r)) (\<lambda>s. each (forward_to d pkt n) (tg_members_of i s) s)))"
      by (intro calm_then calm_node each calm_neutral) (simp_all add: nview_def grant_calm(1)[OF g])
    then have t: "quiet (snd (talk env d pkt n i s)) \<and> (\<forall>p. nview (rf_node (fst (talk env d pkt n i s)) p) = nview (rf_node s1 p))"
      using g calm_deny[of env i n] by (simp add: talk_def calm_def)
    then show "quiet (snd (talk env d pkt n i s))" by simp
    show "nview (rf_node (fst (talk env d pkt n i s)) p) = nview (rf_node s p)" for p
      using t grant_calm(2)[OF g] by simp
  qed
qed

lemma calm_packet: "calm (audio_packet env d)"
proof (rule calmI)
  fix s
  have v: "nview (rf_node (upd_node n (learn_addr src) s) p) = nview (rf_node s p)" for n src p by (simp add: learn_addr_def nview_def)
  have t: "calm (for_tg tg (talk env d pkt n))" for tg pkt n by (intro calm_for_tg calm_talk)
  show "quiet (snd (audio_packet env d s))"
    using t calm_auth_failed[of env d] by (simp add: audio_packet_def calm_def Let_def split: option.split)
  show "nview (rf_node (fst (audio_packet env d s)) p) = nview (rf_node s p)" for p
    using t calm_auth_failed[of env d] v by (simp add: audio_packet_def calm_def Let_def del: upd_simps(9) split: option.split)
qed

lemma calm_talk_start: "calm (simulate_talk_start env c n)"
proof -
  have "calm (\<lambda>s. let (ok, s1, es) = floor_try_grant env i n s in (s1, if ok then es else [Rf_send c (floor_denied_msg i s)]))" for i
    using grant_calm by (simp add: calm_def floor_denied_msg_def split: prod.split)
  then have "calm (for_tg tg (\<lambda>i s. let (ok, s1, es) = floor_try_grant env i n s in (s1, if ok then es else [Rf_send c (floor_denied_msg i s)])))" for tg
    by (intro calm_for_tg)
  then show ?thesis by (simp add: calm_def simulate_talk_start_def)
qed

lemma calm_talk_end: "calm (simulate_talk_end env n)"
  using calm_for_tg[OF calm_release_if] by (simp add: calm_def simulate_talk_end_def)

lemma calm_admin: "calm (\<lambda>s. snd (admin_node_action node act s))"
proof (rule calmI)
  show "quiet (snd (snd (admin_node_action node act s)))" for s
    using calm_kick by (auto simp: calm_def admin_node_action_def Let_def split: option.split admin_action.split)
  show "nview (rf_node (fst (snd (admin_node_action node act s))) p) = nview (rf_node s p)" for s p
    by (rule core_nview) (rule neutral_admin)
qed

lemma calm_admin_release: "calm (\<lambda>s. snd (admin_release_floor env tg s))"
  using calm_release by (simp add: calm_def admin_release_floor_def split: option.split)

lemma calm_open: "calm (ws_open env c chal)"
  by (rule calmI) (simp_all add: ws_open_def send_hello_def split: option.split)

subsection \<open>The operations that move a node\<close>

fun readable :: "rmsg \<Rightarrow> bool" where
  "readable (M_tg_ok tg name) = (0 < tg \<and> tg \<le> 65535)"
| "readable m = (\<not> moves_tg m)"

lemma quiet_readable: "quiet es \<Longrightarrow> list_all readable (inbox c es)"
proof -
  have "\<not> moves_tg m \<Longrightarrow> readable m" for m by (cases m) simp_all
  then show "quiet es \<Longrightarrow> ?thesis" by (auto simp: list_all_iff dest!: inbox_in)
qed

text \<open>
  What a step does for the node \<open>n\<close> on the connection \<open>c\<close>: it stays there, and the messages to \<open>c\<close> say
  where it has been moved.
\<close>

definition follows :: "nat \<Rightarrow> nat \<Rightarrow> rop \<Rightarrow> refl \<Rightarrow> bool" where
  "follows n c f s \<longleftrightarrow>
     list_all readable (inbox c (snd (f s))) \<and> nr_c (rf_node (fst (f s)) n) = nr_c (rf_node s n) \<and>
     nr_tg (rf_node (fst (f s)) n) = tg_after (inbox c (snd (f s))) (nr_tg (rf_node s n))"

lemma follows_calm: "calm f \<Longrightarrow> follows n c f s"
  by (simp add: calm_def follows_def quiet_readable quiet_inbox nview_def)

lemma follows_then: "follows n c f s \<Longrightarrow> follows n c g (fst (f s)) \<Longrightarrow> follows n c (then_op f g) s"
  by (simp add: follows_def snd_then_op)

text \<open>Another node or connection.\<close>

lemma inbox_filter: "inbox c (filter (\<lambda>x. case x of Rf_send d m \<Rightarrow> d = c | _ \<Rightarrow> False) es) = inbox c es"
  by (induction c es rule: inbox.induct) simp_all

lemma follows_other:
  assumes "quiet (filter (\<lambda>x. case x of Rf_send d m \<Rightarrow> d = c | _ \<Rightarrow> False) (snd (f s)))" "nview (rf_node (fst (f s)) n) = nview (rf_node s n)"
  shows "follows n c f s"
  using quiet_readable[OF assms(1), of c] quiet_inbox[OF assms(1), of c] assms(2)
  by (simp add: inbox_filter follows_def nview_def)

lemma follows_set_tg:
  assumes "d = c \<longleftrightarrow> p = n"
  shows "follows n c (handle_set_tg env d p tg_l) s"
proof (cases "tg_l \<le> 0 \<or> tg_l > 65535 \<or> rcfg_tg_idx (rf_cfg s) (nat tg_l) = None \<or> \<not> rcfg_node_allowed_on_tg (rf_cfg s) p (nat tg_l)")
  case True
  have d: "follows n c (send d (M_tg_denied tg_l code)) s" for code by (rule follows_calm) simp
  from True have "\<exists>code. handle_set_tg env d p tg_l s = send d (M_tg_denied tg_l code) s"
    by (auto simp: handle_set_tg_def Let_def split: option.split)
  with d show ?thesis by (auto simp: follows_def)
next
  case False
  then obtain i where i: "rcfg_tg_idx (rf_cfg s) (nat tg_l) = Some i" by auto
  let ?tg = "nat tg_l" and ?old = "nr_tg (rf_node s p)"
  let ?name = "rt_name (rc_tgs (rf_cfg s) ! i)"
  let ?f = "if ?old \<noteq> 0 \<and> ?old \<noteq> ?tg then for_tg ?old (release_if_holder env p) else do_nothing"
  let ?r = "then_op (if ?old \<noteq> 0 \<and> ?old \<noteq> ?tg then for_tg ?old broadcast_tg_roster else do_nothing) (broadcast_tg_roster i)"
  let ?t = "\<lambda>s. [Rf_send d (M_tg_ok ?tg (rt_name (rc_tgs (rf_cfg s) ! i)))]"
  have f: "calm ?f" by (intro calm_if calm_for_tg calm_release_if) simp
  have r: "calm ?r" by (intro calm_then calm_if calm_for_tg calm_roster) simp
  have m: "follows n c (then_op (just (upd_node p (\<lambda>r. r\<lparr>nr_tg := ?tg\<rparr>))) (tell ?t)) x" for x
    using assms False by (auto simp: follows_def snd_then_op)
  have "then_op f (then_op u (then_op t (then_op a b))) x = then_op f (then_op (then_op u t) (then_op a b)) x" for f u t a b :: rop and x
    by (simp add: then_op_def case_prod_beta)
  then have "handle_set_tg env d p tg_l s = then_op ?f (then_op (then_op (just (upd_node p (\<lambda>r. r\<lparr>nr_tg := ?tg\<rparr>))) (tell ?t)) ?r) s"
    using False i by (simp add: handle_set_tg_def Let_def)
  moreover have "follows n c (then_op ?f (then_op (then_op (just (upd_node p (\<lambda>r. r\<lparr>nr_tg := ?tg\<rparr>))) (tell ?t)) ?r)) s"
    by (intro follows_then m follows_calm f r)
  ultimately show ?thesis by (simp add: follows_def)
qed

lemma follows_login:
  assumes "rf_conn s d = Some x" "d \<noteq> c" "nr_connected (rf_node s n)"
  shows "follows n c (handle_login hmac env rnd d m) s"
proof (rule follows_other)
  have "quiet (snd (broadcast_tg_roster i s))" for i s using calm_roster by (simp add: calm_def)
  then have "quiet (filter P (snd (broadcast_tg_roster i s)))" for i s P unfolding list_all_iff by auto
  then show "quiet (filter (\<lambda>x. case x of Rf_send d m \<Rightarrow> d = c | _ \<Rightarrow> False) (snd (handle_login hmac env rnd d m s)))"
    using assms(1,2) by (simp add: handle_login_def Let_def split: sum.split option.split prod.split)
  from login_state[OF assms(1), of hmac env rnd m]
  show "nview (rf_node (fst (handle_login hmac env rnd d m s)) n) = nview (rf_node s n)"
  proof (elim disjE exE conjE)
    assume "core (fst (handle_login hmac env rnd d m s)) = core s"
    then show ?thesis by (rule core_nview)
  next
    fix idx assume l: "check_login hmac (cn_challenge x) m s = Inr idx"
      "core (fst (handle_login hmac env rnd d m s)) =
       (case core s of (cfg, N, T, C) \<Rightarrow> (cfg, N(idx := (True, Some d, initial_tg (rc_nodes (rf_cfg s) ! idx))), T, C(d \<mapsto> (CST_AUTHENTICATED, Some idx))))"
    with check_login_Inr[OF l(1)] assms(3) show ?thesis by (auto simp: core_def fun_eq_iff)
  qed
qed

lemma close_effects: "quiet (snd (ws_close env d s))"
proof -
  have "calm (each (release_if_holder env m) xs)" for m xs by (rule calm_each) (rule calm_release_if)
  moreover have "calm (for_tg tg broadcast_tg_roster)" for tg by (intro calm_for_tg calm_roster)
  ultimately show ?thesis by (simp add: ws_close_def snd_then_op calm_def split: option.split)
qed

lemma follows_close:
  assumes "refl_inv s" "nr_c (rf_node s n) = Some c" "d \<noteq> c"
  shows "follows n c (ws_close env d) s"
proof (rule follows_other)
  show "quiet (filter P (snd (ws_close env d s)))" for P using close_effects[of env d s] unfolding list_all_iff by auto
  have e: "calm (each (release_if_holder env m) xs)" for m xs by (rule calm_each) (rule calm_release_if)
  have b: "calm (for_tg tg broadcast_tg_roster)" for tg by (intro calm_for_tg calm_roster)
  have m: "cn_node x \<noteq> Some n" if "rf_conn s d = Some x" for x
    using that assms(2,3) refl_invD(2)[OF assms(1), of n d] by auto
  show "nview (rf_node (fst (ws_close env d s)) n) = nview (rf_node s n)"
  proof (cases "rf_conn s d")
    case (Some x)
    with m have "cn_node x = None \<or> (\<exists>p. cn_node x = Some p \<and> p \<noteq> n)" by (cases "cn_node x") auto
    with Some e b show ?thesis by (auto simp: ws_close_def calm_def drop_conn_def)
  qed (simp add: ws_close_def)
qed

lemma follows_typed:
  assumes "refl_inv s" "nr_c (rf_node s n) = Some c" "rf_conn s d = Some x" "m \<noteq> In_untyped"
  shows "follows n c (handle_typed hmac env rnd d x m) s"
proof (cases "\<exists>l. m = In_login l")
  case True
  then obtain l where l: "m = In_login l" by blast
  have con: "nr_connected (rf_node s n)" using refl_invD(1)[OF assms(1)] assms(2) by blast
  show ?thesis
  proof (cases "cn_state x = CST_AWAITING_LOGIN")
    case True
    have "d \<noteq> c"
    proof
      assume "d = c"
      with assms(2,3) refl_invD(2)[OF assms(1), of n c] have "cn_node x = Some n" by auto
      with True refl_invD(3)[OF assms(1,3)] show False by simp
    qed
    from follows_login[OF assms(3) this con] l True show ?thesis by (simp add: follows_def handle_typed_def)
  next
    case False
    with l follows_calm[of "send_close d (M_login_denied ''protocol_error'' ''duplicate login'')" n c s] show ?thesis
      by (simp add: follows_def handle_typed_def del: op_simps op_effects)
  qed
next
  case False
  have close: "follows n c (send_close d (M_error ''protocol_error'' ''not authed'')) s" by (rule follows_calm) simp
  show ?thesis
  proof (cases "cn_state x = CST_AUTHENTICATED \<and> cn_node x \<noteq> None")
    case True
    then obtain p where p: "cn_state x = CST_AUTHENTICATED" "cn_node x = Some p" by blast
    have dp: "d = c \<longleftrightarrow> p = n"
      using refl_invD(2)[OF assms(1), of n d] refl_invD(2)[OF assms(1), of p d] refl_invD(2)[OF assms(1), of n c] assms(2,3) p(2) by auto
    have pong: "calm (send d (M_pong sq))" for sq by simp
    have quiet: "calm (\<lambda>s. (s, []))" by (simp add: calm_def)
    note sub = follows_set_tg[OF dp] follows_calm[OF calm_quality] follows_calm[OF calm_talk_start] follows_calm[OF calm_talk_end]
      follows_calm[OF pong] follows_calm[OF quiet]
    from False p assms(4) sub show ?thesis by (cases m) (simp_all add: follows_def handle_typed_def del: op_simps op_effects)
  next
    case F: False
    from False assms(4) F close show ?thesis
      by (cases m; cases "cn_state x"; cases "cn_node x") (simp_all add: follows_def handle_typed_def del: op_simps op_effects)
  qed
qed

lemma follows_msg:
  assumes "refl_inv s" "nr_c (rf_node s n) = Some c"
  shows "follows n c (ws_msg hmac env rnd d len m) s"
proof -
  have nothing: "follows n c (\<lambda>s. (s, [])) s" by (rule follows_calm) (simp add: calm_def)
  have long: "follows n c (send_close d (M_error ''protocol_error'' ''too long'')) s" by (rule follows_calm) simp
  define s1 where "s1 = upd_conn d (\<lambda>x. x\<lparr>cn_last_traffic := en_now env, cn_waiting_pong := False\<rparr>) s"
  have "core s1 = core s" unfolding s1_def by (rule core_upd_conn) (simp add: cview_def)
  then have s1: "refl_inv s1" using assms(1) by (rule inv_core)
  have v: "rf_node s1 = rf_node s" by (simp add: s1_def)
  have msg: "follows n c (handle_message hmac env rnd d m) s"
  proof (cases "rf_conn s1 d")
    case None
    with nothing show ?thesis by (simp add: follows_def handle_message_def s1_def[symmetric])
  next
    case (Some x)
    have u: "follows n c (handle_untyped env d) s1" by (rule follows_calm) (rule calm_untyped)
    from follows_typed[OF s1 _ Some, of n c m hmac env rnd] assms(2) v u Some show ?thesis
      by (cases m) (simp_all add: follows_def handle_message_def s1_def[symmetric] Let_def)
  qed
  with nothing long show ?thesis by (simp add: follows_def ws_msg_def del: op_simps op_effects)
qed

lemma follows_step:
  assumes "refl_inv s" "nr_c (rf_node s n) = Some c" "inp \<noteq> I_close c"
  shows "follows n c (refl_step hmac (env, inp)) s"
proof (cases inp)
  case (I_close d)
  with follows_close[OF assms(1,2), of d env] assms(3) show ?thesis by (simp add: follows_def)
next
  case (I_admin node act)
  with follows_calm[OF calm_admin] show ?thesis by (simp add: follows_def)
next
  case (I_release tg)
  with follows_calm[OF calm_admin_release] show ?thesis by (simp add: follows_def)
qed (use follows_msg[OF assms(1,2)] follows_calm[OF calm_open] follows_calm[OF calm_packet] follows_calm[OF calm_tick]
    follows_calm[OF calm_keepalive] in \<open>simp_all add: follows_def\<close>)

subsection \<open>Runs\<close>

definition emits :: "(byte list \<Rightarrow> byte list \<Rightarrow> byte list option) \<Rightarrow> refl \<Rightarrow> (renv \<times> rinput) list \<Rightarrow> reff list" where
  "emits hmac s ins = concat (map (\<lambda>(s, env, inp, es). es) (trace hmac s ins))"

lemma follows_run:
  "refl_inv s \<Longrightarrow> opens_fresh hmac s ins \<Longrightarrow> nr_c (rf_node s n) = Some c \<Longrightarrow> (\<forall>i \<in> set ins. snd i \<noteq> I_close c) \<Longrightarrow>
   list_all readable (inbox c (emits hmac s ins)) \<and> nr_c (rf_node (final hmac s ins) n) = Some c \<and>
   nr_tg (rf_node (final hmac s ins) n) = tg_after (inbox c (emits hmac s ins)) (nr_tg (rf_node s n))"
proof (induction ins arbitrary: s)
  case (Cons i ins)
  obtain env inp where i: "i = (env, inp)" by (cases i)
  let ?s1 = "fst (refl_step hmac (env, inp) s)"
  have f: "follows n c (refl_step hmac (env, inp)) s"
    by (rule follows_step) (use Cons.prems i in auto)
  have inv: "refl_inv ?s1" by (rule inv_step[OF Cons.prems(1)]) (use Cons.prems(2) i in auto)
  have "nr_c (rf_node ?s1 n) = Some c" using f Cons.prems(3) by (simp add: follows_def)
  from Cons.IH[OF inv _ this] Cons.prems(2,4) f show ?case by (simp add: i emits_def follows_def)
qed (simp add: emits_def)

lemma read_tg: "readable m \<Longrightarrow> lk_tg (fst (on_ws_msg e (wire m) k)) = (case m of M_tg_ok tg name \<Rightarrow> int tg | _ \<Rightarrow> lk_tg k)"
  by (cases m) (simp_all add: on_ws_msg_def hello_wire_def denied_wire_def on_hello_def on_login_denied_def on_kicked_def
    on_reflector_shutdown_def on_target_bitrate_def close_ws_def set_error_def set_state_def Let_def split: option.split)

lemma tg_after_Cons: "tg_after (m # ms) t = tg_after ms (case m of M_tg_ok tg name \<Rightarrow> tg | _ \<Rightarrow> t)"
  by (cases m) simp_all

lemma reads_tg: "list_all readable ms \<Longrightarrow> lk_tg k = int t \<Longrightarrow> lk_tg (reads e ms k) = int (tg_after ms t)"
proof (induction ms arbitrary: k t)
  case (Cons m ms)
  have "lk_tg (fst (on_ws_msg e (wire m) k)) = int (case m of M_tg_ok tg name \<Rightarrow> tg | _ \<Rightarrow> t)"
    using read_tg[of m e k] Cons.prems by (cases m) simp_all
  with Cons.IH[OF _ this] Cons.prems(1) show ?case by (simp add: tg_after_Cons del: tg_after.simps)
qed simp

text \<open>
  C10. A client and the reflector stay on the same talkgroup: when they are on the same one, then after any run of
  the reflector without a reload in which the connection of the client is not closed, whatever
  its own and the other nodes' messages, packets and administration are, the client that has
  read what its connection received is on the talkgroup that the reflector now has for the node.
\<close>

theorem link_tg_agrees:
  assumes "refl_reach hmac cfg s" "rcfg_ok cfg" "opens_fresh hmac s ins" "nr_c (rf_node s n) = Some c"
    and "\<forall>i \<in> set ins. snd i \<noteq> I_close c" "lk_tg k = int (nr_tg (rf_node s n))"
  shows "lk_tg (reads e (inbox c (emits hmac s ins)) k) = int (nr_tg (rf_node (final hmac s ins) n))"
  using follows_run[OF reach_inv[OF assms(1,2)] assms(3-5)] reads_tg[OF _ assms(6)] by simp

text \<open>A node of two talkgroups that changes from one to the other.\<close>

definition two_tgs :: rcfg where
  "two_tgs = demo_rcfg\<lparr>rc_nodes := [(demo_node ''A'')\<lparr>rn_allowed := [1, 2]\<rparr>],
     rc_tgs := [\<lparr>rt_number = 1, rt_name = ''one'', rt_members = [0]\<rparr>, \<lparr>rt_number = 2, rt_name = ''two'', rt_members = [0]\<rparr>]\<rparr>"

definition two_state :: refl where
  "two_state = final demo_hmac (refl_boot two_tgs)
     [(Reflector_Access.demo_env 1, I_open 7 (Some (replicate 16 1))),
      (Reflector_Access.demo_env 2, I_msg 7 (Some demo_rand) 30 (In_login (demo_login ''A'')))]"

definition two_move :: "(renv \<times> rinput) list" where
  "two_move = [(Reflector_Access.demo_env 3, I_msg 7 None 20 (In_set_tg 2)), (Reflector_Access.demo_env 4, I_floor_tick)]"

theorem link_tg_agrees_witness:
  "lk_tg (reads (Link_Props.demo_env 9) (inbox 7 (emits demo_hmac two_state two_move)) demo_link) = 2"
proof -
  have ok: "rcfg_ok two_tgs"
    by (simp add: rcfg_ok_def two_tgs_def demo_rcfg_def demo_node_def rcfg_zero_def rcfg_node_ok_def rcfg_tg_ok_def tg_number_ok_def)
  have "opens_fresh demo_hmac (refl_boot two_tgs)
     [(Reflector_Access.demo_env 1, I_open 7 (Some (replicate 16 1))),
      (Reflector_Access.demo_env 2, I_msg 7 (Some demo_rand) 30 (In_login (demo_login ''A'')))]" by code_simp
  from reach_final[OF refl_reach.boot this] have r: "refl_reach demo_hmac two_tgs two_state" by (simp add: two_state_def)
  have f: "opens_fresh demo_hmac two_state two_move" by (simp add: two_move_def)
  have c: "nr_c (rf_node two_state 0) = Some 7 \<and> nr_tg (rf_node two_state 0) = 1" by code_simp
  have t: "nr_tg (rf_node (final demo_hmac two_state two_move) 0) = 2" by code_simp
  have "lk_tg demo_link = int (nr_tg (rf_node two_state 0))" using c by (simp add: demo_link_def)
  from link_tg_agrees[OF r ok f conjunct1[OF c] _ this] t show ?thesis by (simp add: two_move_def)
qed

text \<open>
  After a reconnect the two sides may disagree about muting: the reflector forgets it when the
  connection closes, the client keeps it, and nothing that a login sends takes it back.
\<close>

lemma mute_survives_reconnect:
  "lk_muted (fst (on_ws_close e k)) = lk_muted k" "\<not> nr_muted (logged_out r)"
  "nr_muted (logged_in env c tg an v r) = nr_muted r" "lk_muted (fst (on_ws_msg e (login_ok_wire tg ep keys ssrcs members) k)) = lk_muted k"
proof -
  show "lk_muted (fst (on_ws_close e k)) = lk_muted k"
    by (simp add: on_ws_close_def session_cleanup_def link_rx_drop_def set_state_def Let_def)
  have "lk_muted (snd (session_setup e m k)) = lk_muted k" for m
    by (simp add: session_setup_def set_error_def Let_def split: option.split prod.split)
  then show "lk_muted (fst (on_ws_msg e (login_ok_wire tg ep keys ssrcs members) k)) = lk_muted k"
    by (simp add: login_ok_wire_def on_ws_msg_def on_login_ok_def send_bootstrap_def close_ws_def set_state_def case_prod_beta Let_def)
qed (simp_all add: logged_out_def logged_in_def)

end
