(* ===== verification/Totp.thy ===== *)
theory Totp
  imports Hex C_Strings
begin

unbundle bit_operations_syntax

text \<open>
  The one-time passwords of \<open>modules/mod_otp.c\<close>: SHA-1, HMAC, the decoder of base 32 and the codes,
  on machine words. An allocation that may fail is an argument.
\<close>

type_synonym word32 = "32 word"

subsection \<open>SHA-1\<close>

definition sha1_rotl :: "word32 \<Rightarrow> nat \<Rightarrow> word32" where
  "sha1_rotl x n = push_bit n x OR drop_bit (32 - n) x"

definition be_word :: "byte list \<Rightarrow> nat \<Rightarrow> word32" where
  "be_word block i =
     push_bit 24 (ucast (block ! (4 * i))) OR push_bit 16 (ucast (block ! (4 * i + 1))) OR
     push_bit 8 (ucast (block ! (4 * i + 2))) OR ucast (block ! (4 * i + 3))"

definition next_word :: "word32 list \<Rightarrow> nat \<Rightarrow> word32" where
  "next_word w i = sha1_rotl (((w ! (i - 3) XOR w ! (i - 8)) XOR w ! (i - 14)) XOR w ! (i - 16)) 1"

definition sha1_schedule :: "byte list \<Rightarrow> word32 list" where
  "sha1_schedule block = foldl (\<lambda>w i. w @ [next_word w i]) (map (be_word block) [0..<16]) [16..<80]"

type_synonym sha1_state = "word32 \<times> word32 \<times> word32 \<times> word32 \<times> word32"

definition sha1_fk :: "nat \<Rightarrow> word32 \<Rightarrow> word32 \<Rightarrow> word32 \<Rightarrow> word32 \<times> word32" where
  "sha1_fk i b c d =
     (if i < 20 then ((b AND c) OR (NOT b AND d), 0x5A827999)
      else if i < 40 then (b XOR c XOR d, 0x6ED9EBA1)
      else if i < 60 then (((b AND c) OR (b AND d)) OR (c AND d), 0x8F1BBCDC)
      else (b XOR c XOR d, 0xCA62C1D6))"

definition sha1_round :: "word32 list \<Rightarrow> sha1_state \<Rightarrow> nat \<Rightarrow> sha1_state" where
  "sha1_round w st i =
     (let (a, b, c, d, e) = st; (f, k) = sha1_fk i b c d
      in (sha1_rotl a 5 + f + e + k + w ! i, a, sha1_rotl b 30, c, d))"

definition sha1_transform :: "sha1_state \<Rightarrow> byte list \<Rightarrow> sha1_state" where
  "sha1_transform st block =
     (let (a, b, c, d, e) = st; (a', b', c', d', e') = foldl (sha1_round (sha1_schedule block)) st [0..<80]
      in (a + a', b + b', c + c', d + d', e + e'))"

definition sha1_init :: sha1_state where
  "sha1_init = (0x67452301, 0xEFCDAB89, 0x98BADCFE, 0x10325476, 0xC3D2E1F0)"

text \<open>The whole blocks, and what is left.\<close>

function sha1_blocks :: "sha1_state \<Rightarrow> byte list \<Rightarrow> sha1_state \<times> byte list" where
  "sha1_blocks st data =
     (if 64 \<le> length data then sha1_blocks (sha1_transform st (take 64 data)) (drop 64 data) else (st, data))"
  by auto
termination by (relation "measure (\<lambda>(st, data). length data)") auto

declare sha1_blocks.simps [simp del]

definition be32_bytes :: "word32 \<Rightarrow> byte list" where
  "be32_bytes x = [ucast (drop_bit 24 x), ucast (drop_bit 16 x), ucast (drop_bit 8 x), ucast x]"

definition be64_bytes :: "64 word \<Rightarrow> byte list" where
  "be64_bytes x = map (\<lambda>j. ucast (drop_bit (56 - j * 8) x)) [0..<8]"

definition sha1_out :: "sha1_state \<Rightarrow> byte list" where
  "sha1_out st = (let (a, b, c, d, e) = st in concat (map be32_bytes [a, b, c, d, e]))"

definition sha1 :: "byte list \<Rightarrow> byte list" where
  "sha1 data =
     (let (st, rest) = sha1_blocks sha1_init data; block = rest @ [0x80];
          (st, block) = (if length block > 56 then (sha1_transform st (block @ replicate (64 - length block) 0), []) else (st, block))
      in sha1_out (sha1_transform st (block @ replicate (56 - length block) 0 @ be64_bytes (of_nat (length data) * 8))))"

subsection \<open>HMAC\<close>

definition hmac_sha1 :: "bool \<Rightarrow> byte list \<Rightarrow> byte list \<Rightarrow> byte list" where
  "hmac_sha1 mem key msg =
     (let k = (if length key > 64 then sha1 key else key); pad = k @ replicate (64 - length k) 0
      in if \<not> mem then replicate 20 0
         else sha1 (map (\<lambda>b. b XOR 0x5C) pad @ sha1 (map (\<lambda>b. b XOR 0x36) pad @ msg)))"

subsection \<open>Base 32\<close>

definition base32_alphabet :: string where
  "base32_alphabet = ''ABCDEFGHIJKLMNOPQRSTUVWXYZ234567''"

definition base32_digit :: "char \<Rightarrow> nat option" where
  "base32_digit c = find_idx (\<lambda>d. d = to_upper c) base32_alphabet"

text \<open>The buffer is an \<open>int\<close>, of which every output takes eight low bits.\<close>

fun base32_loop :: "nat \<Rightarrow> word32 \<Rightarrow> nat \<Rightarrow> byte list \<Rightarrow> string \<Rightarrow> byte list" where
  "base32_loop mx buf bl out [] = out"
| "base32_loop mx buf bl out (c # cs) =
     (if c = CHR ''='' then out
      else (case base32_digit c of
              None \<Rightarrow> base32_loop mx buf bl out cs
            | Some d \<Rightarrow>
                (let buf1 = push_bit 5 buf OR of_nat d; bl1 = bl + 5
                 in if bl1 \<ge> 8
                    then (if length out \<ge> mx then out
                          else base32_loop mx buf1 (bl1 - 8) (out @ [ucast (drop_bit (bl1 - 8) buf1)]) cs)
                    else base32_loop mx buf1 bl1 out cs)))"

definition base32_decode :: "nat \<Rightarrow> string \<Rightarrow> byte list" where
  "base32_decode mx s = base32_loop mx 0 0 [] s"

subsection \<open>The codes\<close>

definition totp_truncate :: "byte list \<Rightarrow> word32" where
  "totp_truncate h =
     (let off = unat (h ! 19 AND 0x0F)
      in push_bit 24 (ucast (h ! off AND 0x7F)) OR push_bit 16 (ucast (h ! (off + 1))) OR
         push_bit 8 (ucast (h ! (off + 2))) OR ucast (h ! (off + 3)))"

definition totp_generate :: "bool \<Rightarrow> byte list \<Rightarrow> 64 word \<Rightarrow> nat \<Rightarrow> nat \<Rightarrow> nat" where
  "totp_generate mem secret t step digits =
     unat (totp_truncate (hmac_sha1 mem secret (be64_bytes (t div of_nat step)))) mod 10 ^ digits"

text \<open>The counter that matches, from the oldest step of the window on.\<close>

definition totp_verify_at :: "bool \<Rightarrow> string \<Rightarrow> string \<Rightarrow> 64 word \<Rightarrow> int \<Rightarrow> 64 word option" where
  "totp_verify_at mem base32 code now skew =
     (let secret = base32_decode 64 base32
      in if secret = [] then None
         else map_option (\<lambda>i. (now + of_int i * 30) div 30)
                (find (\<lambda>i. atoi code = int (totp_generate mem secret (now + of_int i * 30) 30 6)) [- skew..skew]))"

subsection \<open>Base 32 as bits\<close>

text \<open>The low bits of a word, the highest first, and a byte of eight bits.\<close>

definition low :: "nat \<Rightarrow> 'a::len word \<Rightarrow> bool list" where
  "low n w = map (bit w) (rev [0..<n])"

definition byte_of :: "bool list \<Rightarrow> byte" where
  "byte_of bs = horner_sum of_bool 2 (rev bs)"

function bits_bytes :: "bool list \<Rightarrow> byte list" where
  "bits_bytes bs = (if 8 \<le> length bs then byte_of (take 8 bs) # bits_bytes (drop 8 bs) else [])"
  by auto
termination by (relation "measure length") auto

declare bits_bytes.simps [simp del]

text \<open>The bits of a text up to the padding, five for each character of the alphabet.\<close>

fun b32_bits :: "string \<Rightarrow> bool list" where
  "b32_bits [] = []"
| "b32_bits (c # cs) =
     (if c = CHR ''='' then []
      else (case base32_digit c of None \<Rightarrow> b32_bits cs | Some d \<Rightarrow> low 5 (of_nat d :: word32) @ b32_bits cs))"

lemma length_low [simp]: "length (low n w) = n"
  by (simp add: low_def)

lemma nth_low: "i < n \<Longrightarrow> low n w ! i = bit w (n - 1 - i)"
  by (simp add: low_def rev_nth)

lemma low_0 [simp]: "low 0 w = []"
  by (simp add: low_def)

lemma byte_of_low: "byte_of (low 8 b) = b"
  by (simp add: byte_of_def low_def rev_map horner_sum_bit_eq_take_bit take_bit_word_eq_self del: upt_conv_Cons upt_rec_numeral)

lemma bit_small: "d < 2 ^ k \<Longrightarrow> bit (d :: nat) m \<Longrightarrow> m < k"
  by (metis bit_take_bit_iff take_bit_nat_eq_self)

lemma low_shift:
  assumes "d < 32" "n + 5 \<le> 32"
  shows "low (n + 5) (push_bit 5 buf OR of_nat d :: word32) = low n buf @ low 5 (of_nat d :: word32)"
proof (rule nth_equalityI)
  fix i assume "i < length (low (n + 5) (push_bit 5 buf OR of_nat d :: word32))"
  then have i: "i < n + 5" by simp
  have d: "\<not> bit d m" if "5 \<le> m" for m using bit_small[of d 5 m] assms(1) that by auto
  show "low (n + 5) (push_bit 5 buf OR of_nat d) ! i = (low n buf @ low 5 (of_nat d :: word32)) ! i"
  proof (cases "i < n")
    case True
    then have "5 \<le> n + 4 - i" "n + 4 - i < 32" "n + 4 - i - 5 = n - 1 - i" using assms(2) by linarith+
    with True show ?thesis using d[of "n + 4 - i"] by (simp add: nth_low nth_append bit_simps add.commute)
  next
    case False
    then show ?thesis using i assms(2) by (auto simp: nth_low nth_append bit_simps)
  qed
qed simp

lemma low_take: "k + 8 \<le> 32 \<Longrightarrow> take 8 (low (k + 8) w) = low 8 (ucast (drop_bit k (w :: word32)) :: byte)"
  by (rule nth_equalityI) (auto simp: nth_low bit_simps ac_simps)

lemma low_drop: "drop 8 (low (k + 8) w) = low k w"
  by (rule nth_equalityI) (auto simp: nth_low)

lemma base32_digit_less: "base32_digit c = Some d \<Longrightarrow> d < 32"
proof -
  have "length base32_alphabet = 32" by (simp add: base32_alphabet_def)
  then show "base32_digit c = Some d \<Longrightarrow> ?thesis" unfolding base32_digit_def by (metis find_idx_less)
qed

text \<open>
  The loop with the bits that it has not used: what it returns are the bytes of the bit string,
  as many as there is room for.
\<close>

lemma base32_loop_bits:
  "bl < 8 \<Longrightarrow> length out \<le> mx \<Longrightarrow>
   base32_loop mx buf bl out s = out @ take (mx - length out) (bits_bytes (low bl buf @ b32_bits s))"
proof (induction s arbitrary: buf bl out)
  case Nil
  then show ?case by (simp add: bits_bytes.simps)
next
  case (Cons c cs)
  show ?case
  proof (cases "c = CHR ''='' \<or> base32_digit c = None")
    case True
    then show ?thesis
    proof
      assume "c = CHR ''=''"
      then show ?thesis using Cons.prems by (simp add: bits_bytes.simps)
    next
      assume "base32_digit c = None"
      then show ?thesis using Cons by (simp add: bits_bytes.simps[of "low bl buf"])
    qed
  next
    case False
    then obtain d where d: "base32_digit c = Some d" by auto
    let ?b = "push_bit 5 buf OR of_nat d :: word32"
    have b: "low (bl + 5) ?b = low bl buf @ low 5 (of_nat d :: word32)"
      using base32_digit_less[OF d] Cons.prems(1) by (intro low_shift) simp_all
    show ?thesis
    proof (cases "bl + 5 \<ge> 8")
      case False
      with Cons.IH[of "bl + 5" out ?b] Cons.prems d \<open>\<not> (c = CHR ''='' \<or> base32_digit c = None)\<close> b
      show ?thesis by (simp add: Let_def)
    next
      case True
      define k where "k = bl + 5 - 8"
      have k: "bl + 5 = k + 8" "k < 8" using True Cons.prems(1) by (simp_all add: k_def)
      have e: "low bl buf @ b32_bits (c # cs) = low (k + 8) ?b @ b32_bits cs" using False d b k(1) by simp
      have s: "bits_bytes (low (k + 8) ?b @ b32_bits cs) = ucast (drop_bit k ?b) # bits_bytes (low k ?b @ b32_bits cs)"
        using k(2) by (simp add: bits_bytes.simps[of "low (k + 8) ?b @ b32_bits cs"] low_take low_drop byte_of_low)
      show ?thesis
      proof (cases "length out \<ge> mx")
        case True
        then show ?thesis using False d k Cons.prems(2) by (simp add: Let_def)
      next
        case room: False
        then have "base32_loop mx buf bl out (c # cs) = base32_loop mx ?b k (out @ [ucast (drop_bit k ?b)]) cs"
          using False d k by (simp add: Let_def)
        also have "\<dots> = (out @ [ucast (drop_bit k ?b)]) @ take (mx - Suc (length out)) (bits_bytes (low k ?b @ b32_bits cs))"
          using Cons.IH[of k "out @ [ucast (drop_bit k ?b)]" ?b] k(2) room by simp
        also have "\<dots> = out @ take (mx - length out) (bits_bytes (low bl buf @ b32_bits (c # cs)))"
          using room unfolding e s by (simp add: take_Cons' Suc_diff_Suc)
        finally show ?thesis .
      qed
    qed
  qed
qed

lemma base32_decode_bits: "base32_decode mx s = take mx (bits_bytes (b32_bits s))"
  using base32_loop_bits[of 0 "[]" mx 0 s] by (simp add: base32_decode_def)

text \<open>The encoder of RFC 4648 without its padding characters: five bits a character, zeros at the end.\<close>

function b32_chars :: "bool list \<Rightarrow> string" where
  "b32_chars bs =
     (if bs = [] then [] else base32_alphabet ! (horner_sum of_bool 2 (rev (take 5 (bs @ replicate 4 False)))) # b32_chars (drop 5 bs))"
  by auto
termination by (relation "measure length") auto

declare b32_chars.simps [simp del]

definition base32_encode :: "byte list \<Rightarrow> string" where
  "base32_encode bytes = b32_chars (concat (map (low 8) bytes))"

lemma digit_of_char: "i < 32 \<Longrightarrow> base32_digit (base32_alphabet ! i) = Some i \<and> base32_alphabet ! i \<noteq> CHR ''=''"
proof -
  have "list_all (\<lambda>i. base32_digit (base32_alphabet ! i) = Some i \<and> base32_alphabet ! i \<noteq> CHR ''='') [0..<32]" by code_simp
  then show "i < 32 \<Longrightarrow> ?thesis" by (simp add: list_all_iff del: upt_conv_Cons upt_rec_numeral)
qed

lemma low_of_digit: "length v = 5 \<Longrightarrow> low 5 (of_nat (horner_sum of_bool 2 (rev v)) :: word32) = v"
  by (rule nth_equalityI) (auto simp: nth_low bit_simps bit_horner_sum_bit_iff rev_nth)

lemma digit_small: "length v = 5 \<Longrightarrow> (horner_sum of_bool 2 (rev v) :: nat) < 32"
  using horner_sum_of_bool_2_less[of "rev v"] by simp

lemma b32_bits_chars: "\<exists>k < 5. b32_bits (b32_chars bs) = bs @ replicate k False"
proof (induction bs rule: b32_chars.induct)
  case (1 bs)
  show ?case
  proof (cases "bs = []")
    case True
    then show ?thesis by (intro exI[of _ 0]) (simp add: b32_chars.simps)
  next
    case False
    let ?v = "take 5 (bs @ replicate 4 False)"
    have v: "length ?v = 5" using False by (cases bs) simp_all
    have w: "b32_bits (b32_chars bs) = ?v @ b32_bits (b32_chars (drop 5 bs))"
      using False digit_of_char[OF digit_small[OF v]] low_of_digit[OF v] by (simp add: b32_chars.simps[of bs])
    show ?thesis
    proof (cases "5 \<le> length bs")
      case True
      with 1[OF False] w show ?thesis by (metis append_assoc append_take_drop_id diff_is_0_eq take_append take0 append_Nil2)
    next
      case short: False
      moreover have "min (5 - length bs) 4 = 5 - length bs" using False by (cases bs) simp_all
      ultimately have "?v = bs @ replicate (5 - length bs) False" by (simp add: take_append)
      moreover have "b32_bits (b32_chars (drop 5 bs)) = []" using short by (simp add: b32_chars.simps)
      ultimately have "b32_bits (b32_chars bs) = bs @ replicate (5 - length bs) False" using w by simp
      moreover have "5 - length bs < 5" using False by (cases bs) simp_all
      ultimately show ?thesis by blast
    qed
  qed
qed

lemma bytes_of_bits: "k < 8 \<Longrightarrow> bits_bytes (concat (map (low 8) bytes) @ replicate k False) = bytes"
  by (induction bytes) (simp_all add: bits_bytes.simps byte_of_low)

lemma to_upper_idem [simp]: "to_upper (to_upper c) = to_upper c"
  by (auto simp add: to_upper_def ascii_def)

text \<open>The characters that count: up to the padding, those of the alphabet, as capitals.\<close>

definition b32_clean :: "string \<Rightarrow> string" where
  "b32_clean s = map to_upper (filter (\<lambda>c. base32_digit c \<noteq> None) (takeWhile (\<lambda>c. c \<noteq> CHR ''='') s))"

lemma b32_bits_clean: "b32_bits (b32_clean s) = b32_bits s"
proof (induction s)
  case (Cons c cs)
  have u: "base32_digit (to_upper c) = base32_digit c" by (simp add: base32_digit_def)
  have "base32_digit (CHR ''='') = None" by code_simp
  then have "base32_digit c \<noteq> None \<Longrightarrow> to_upper c \<noteq> CHR ''=''" using u by metis
  with Cons u show ?case by (auto simp: b32_clean_def split: option.split)
qed (simp add: b32_clean_def)

text \<open>
  A secret survives its text form: a text that is the base 32 text of a secret in either case, with other
  characters anywhere between (blanks and dashes, say) and anything after an equals sign,
  decodes to the bytes of the secret, up to the size of the buffer.
\<close>

theorem base32_roundtrip: "b32_clean s = base32_encode bytes \<Longrightarrow> base32_decode mx s = take mx bytes"
  using b32_bits_chars[of "concat (map (low 8) bytes)"] bytes_of_bits b32_bits_clean[of s]
  by (auto simp: base32_decode_bits base32_encode_def)

theorem base32_roundtrip_witness: "base32_decode 64 ''jbsw y3dp-EE======'' = [0x48, 0x65, 0x6c, 0x6c, 0x6f, 0x21]"
proof -
  have "b32_clean ''jbsw y3dp-EE======'' = base32_encode [0x48, 0x65, 0x6c, 0x6c, 0x6f, 0x21]" by code_simp
  from base32_roundtrip[OF this, of 64] show ?thesis by simp
qed

subsection \<open>Codes\<close>

text \<open>
  What a code is accepted for: with a secret that decodes, a code is accepted exactly when its number is that
  of the secret at one of the steps of the window, and the counter that is returned is the
  one of the first such step; a code is always below the power of ten of its digits.
\<close>

theorem totp_window:
  assumes "base32_decode 64 base32 \<noteq> []"
  shows "(case totp_verify_at mem base32 code now skew of
            Some c \<Rightarrow> \<exists>i \<in> {- skew..skew}. c = (now + of_int i * 30) div 30 \<and>
                  atoi code = int (totp_generate mem (base32_decode 64 base32) (now + of_int i * 30) 30 6) \<and>
                  (\<forall>j \<in> {- skew..<i}. atoi code \<noteq> int (totp_generate mem (base32_decode 64 base32) (now + of_int j * 30) 30 6))
          | None \<Rightarrow> \<forall>i \<in> {- skew..skew}. atoi code \<noteq> int (totp_generate mem (base32_decode 64 base32) (now + of_int i * 30) 30 6)) \<and>
         totp_generate mem secret t step digits < 10 ^ digits"
proof -
  let ?P = "\<lambda>i. atoi code = int (totp_generate mem (base32_decode 64 base32) (now + of_int i * 30) 30 6)"
  have v: "totp_verify_at mem base32 code now skew = map_option (\<lambda>i. (now + of_int i * 30) div 30) (find ?P [- skew..skew])"
    using assms by (simp add: totp_verify_at_def Let_def)
  have b: "totp_generate mem secret t step digits < 10 ^ digits" by (simp add: totp_generate_def)
  show ?thesis
  proof (cases "find ?P [- skew..skew]")
    case None
    then have "\<forall>i \<in> {- skew..skew}. \<not> ?P i" by (simp add: find_None_iff)
    with None v b show ?thesis by simp
  next
    case (Some i)
    then obtain n where n: "n < length [- skew..skew]" "?P ([- skew..skew] ! n)" "i = [- skew..skew] ! n" "\<forall>m < n. \<not> ?P ([- skew..skew] ! m)"
      by (auto simp: find_Some_iff)
    then have i: "i = - skew + int n" "i \<in> {- skew..skew}" by auto
    have none: "\<forall>j \<in> {- skew..<i}. \<not> ?P j"
    proof
      fix j assume "j \<in> {- skew..<i}"
      then have "nat (j + skew) < n" "[- skew..skew] ! nat (j + skew) = j" using i n(1) by auto
      with n(4) show "\<not> ?P j" by metis
    qed
    have "?P i" using n(2,3) by (simp only:)
    with none i(2) have "\<exists>k \<in> {- skew..skew}. (now + of_int i * 30) div 30 = (now + of_int k * 30) div 30 \<and> ?P k \<and> (\<forall>j \<in> {- skew..<k}. \<not> ?P j)"
      by blast
    with Some v b show ?thesis by simp
  qed
qed

text \<open>Without memory for the digest the code is 000000 for every secret, and it is accepted.\<close>

lemma no_memory_code: "totp_generate False secret t step digits = 0"
  by (simp add: totp_generate_def hmac_sha1_def totp_truncate_def Let_def)

theorem totp_window_witness: "totp_verify_at False ''jbswy3dpee'' ''000000'' 90 1 \<noteq> None"
proof -
  have "base32_decode 64 ''jbswy3dpee'' \<noteq> []" by code_simp
  note w = conjunct1[OF totp_window[OF this, where mem = False and code = "''000000''" and now = 90 and skew = 1]]
  have "atoi ''000000'' = 0" by code_simp
  with w show ?thesis by (auto simp: no_memory_code split: option.splits)
qed

end
