(* ===== verification/Otp.thy ===== *)
theory Otp
  imports Totp Timer User Resp
begin

text \<open>
  Elevated access by one-time passwords (\<open>modules/mod_otp.c\<close>): the DTMF command with a code, the lockout
  after wrong codes, the guard against codes that are used again, and the sessions with their
  timers. The timer service is a parameter; the elevated flag of the core, speech, tones,
  announcements and the snapshot for the dashboard are effects.
\<close>

abbreviation MAX_OTP_SESSIONS :: nat where "MAX_OTP_SESSIONS \<equiv> 64"
abbreviation OTP_USERS :: nat where "OTP_USERS \<equiv> 32"
abbreviation OTP_MAX_FAILURES :: nat where "OTP_MAX_FAILURES \<equiv> 5"
abbreviation OTP_LOCKOUT_S :: int where "OTP_LOCKOUT_S \<equiv> 300"

record otp_lockout =
  ol_user :: int
  ol_failures :: nat
  ol_last :: int

record otp_session =
  os_user :: int
  os_active :: bool
  os_timer :: int
  os_started :: int

record otp =
  ot_timeout :: int
  ot_skew :: int
  ot_caller :: int
  ot_locks :: "otp_lockout list"
  ot_counters :: "(int \<times> 64 word) list"
  ot_sessions :: "otp_session list"

datatype otp_cb = CB_otp nat | CB_otp_foreign nat

datatype otp_effect =
    Ot_elevate int bool
  | Ot_speak string
  | Ot_tone int int
  | Ot_announce string
  | Ot_publish string

record otp_env =
  oe_now_us :: nat
  oe_wall :: int
  oe_tts :: bool
  oe_sse :: bool
  oe_mem :: bool
  oe_db :: user_db

type_synonym 't otp_create = "nat \<Rightarrow> 't \<Rightarrow> int \<Rightarrow> bool \<Rightarrow> otp_cb option \<Rightarrow> 't \<times> int"
type_synonym 't otp_cancel = "'t \<Rightarrow> int \<Rightarrow> 't"
type_synonym 't otp_op = "otp \<Rightarrow> 't \<Rightarrow> otp \<times> 't \<times> otp_effect list"

subsection \<open>The snapshot\<close>

fun otp_escape :: "nat \<Rightarrow> string \<Rightarrow> string" where
  "otp_escape j [] = []"
| "otp_escape j (c # cs) =
     (if j < 64 - 6
      then (if c = CHR 0x22 then CHR 0x5C # CHR 0x22 # otp_escape (j + 2) cs
            else if c = CHR 0x5C then CHR 0x5C # CHR 0x5C # otp_escape (j + 2) cs
            else c # otp_escape (j + 1) cs)
      else [])"

definition otp_fragment :: "otp_env \<Rightarrow> otp \<Rightarrow> bool \<Rightarrow> otp_session \<Rightarrow> string" where
  "otp_fragment env s first x =
     (let name = (case user_lookup_by_id (oe_db env) (os_user x) of Some u \<Rightarrow> u_name u | None \<Rightarrow> []);
          elapsed = oe_wall env - os_started x; total = cdiv (ot_timeout s) 1000;
          remaining = (if os_started x > 0 then (if total > elapsed then total - elapsed else 0) else 0)
      in c_trunc 256
           ((if first then [] else '','') @ ''{'' @ quoted ''user_id'' @ '':'' @ show_int (os_user x) @ '','' @ quoted ''name'' @ '':'' @
            quoted (otp_escape 0 name) @ '','' @ quoted ''started_at'' @ '':'' @ show_int (os_started x) @ '','' @
            quoted ''remaining_sec'' @ '':'' @ show_int remaining @ ''}''))"

text \<open>The list of the active sessions, up to the end of its buffer, and how many are in it.\<close>

fun otp_list :: "otp_env \<Rightarrow> otp \<Rightarrow> otp_session list \<Rightarrow> nat \<Rightarrow> string \<Rightarrow> nat \<times> string" where
  "otp_list env s [] n txt = (n, txt)"
| "otp_list env s (x # xs) n txt =
     (if \<not> os_active x then otp_list env s xs n txt
      else (let frag = otp_fragment env s (n = 0) x
            in if length txt + length frag \<ge> 2048 then (n, txt) else otp_list env s xs (n + 1) (txt @ frag)))"

definition otp_snapshot :: "otp_env \<Rightarrow> otp \<Rightarrow> string" where
  "otp_snapshot env s =
     (let (n, txt) = otp_list env s (ot_sessions s) 0 []
      in c_trunc 2400
           (''{'' @ quoted ''active_count'' @ '':'' @ show_int (int n) @ '','' @ quoted ''session_timeout_sec'' @ '':'' @
            show_int (cdiv (ot_timeout s) 1000) @ '','' @ quoted ''sessions'' @ '':['' @ txt @ '']}''))"

definition publish_otp :: "otp_env \<Rightarrow> otp \<Rightarrow> otp_effect list" where
  "publish_otp env s = (if oe_sse env then [Ot_publish (otp_snapshot env s)] else [])"

definition otp_say :: "otp_env \<Rightarrow> string \<Rightarrow> otp_effect list" where
  "otp_say env txt = (if oe_tts env then [Ot_speak txt] else [])"

subsection \<open>Sessions\<close>

definition find_session :: "int \<Rightarrow> otp \<Rightarrow> nat option" where
  "find_session uid s = find_idx (\<lambda>x. os_active x \<and> os_user x = uid) (ot_sessions s)"

definition otp_expire :: "otp_env \<Rightarrow> nat \<Rightarrow> 't otp_op" where
  "otp_expire env i s t =
     (let x = ot_sessions s ! i
      in if \<not> os_active x then (s, t, [])
         else (let s1 = s\<lparr>ot_sessions := (ot_sessions s)[i := x\<lparr>os_active := False, os_timer := -1, os_started := 0\<rparr>]\<rparr>
               in (s1, t, [Ot_elevate (os_user x) False] @ publish_otp env s1 @
                   otp_say env ''Elevated session expired.'' @ [Ot_announce ''session expired''])))"

definition otp_session_slot :: "'t otp_cancel \<Rightarrow> int \<Rightarrow> otp \<Rightarrow> 't \<Rightarrow> (nat \<times> 't) option" where
  "otp_session_slot cancel uid s t =
     (case find_session uid s of
        Some i \<Rightarrow> Some (i, if os_timer (ot_sessions s ! i) \<ge> 0 then cancel t (os_timer (ot_sessions s ! i)) else t)
      | None \<Rightarrow> map_option (\<lambda>i. (i, t)) (find_idx (\<lambda>x. \<not> os_active x) (ot_sessions s)))"

definition otp_session_start :: "'t otp_create \<Rightarrow> 't otp_cancel \<Rightarrow> otp_env \<Rightarrow> int \<Rightarrow> 't otp_op" where
  "otp_session_start create cancel env uid s t =
     (case otp_session_slot cancel uid s t of
        None \<Rightarrow> (s, t, [])
      | Some (i, t1) \<Rightarrow>
          (let (t2, tid) = create (oe_now_us env) t1 (ot_timeout s) False (Some (CB_otp i));
               s1 = s\<lparr>ot_sessions := (ot_sessions s)[i := \<lparr>os_user = uid, os_active = True, os_timer = tid, os_started = oe_wall env\<rparr>]\<rparr>
           in (s1, t2, [Ot_elevate uid True] @ publish_otp env s1)))"

subsection \<open>The command\<close>

text \<open>Whether the user is locked out; the count of failures starts again once the lockout is over.\<close>

definition otp_lock_check :: "int \<Rightarrow> int \<Rightarrow> otp \<Rightarrow> bool \<times> otp" where
  "otp_lock_check now uid s =
     (case find_idx (\<lambda>l. ol_user l = uid) (ot_locks s) of
        None \<Rightarrow> (False, s)
      | Some i \<Rightarrow>
          (let l = ot_locks s ! i
           in if ol_failures l \<ge> OTP_MAX_FAILURES \<and> now - ol_last l < OTP_LOCKOUT_S then (True, s)
              else if now - ol_last l \<ge> OTP_LOCKOUT_S then (False, s\<lparr>ot_locks := (ot_locks s)[i := l\<lparr>ol_failures := 0\<rparr>]\<rparr>)
              else (False, s)))"

definition otp_lock_fail :: "int \<Rightarrow> int \<Rightarrow> otp \<Rightarrow> otp" where
  "otp_lock_fail now uid s =
     (case find_idx (\<lambda>l. ol_user l = uid \<or> ol_user l = 0) (ot_locks s) of
        None \<Rightarrow> s
      | Some i \<Rightarrow> s\<lparr>ot_locks := (ot_locks s)[i := \<lparr>ol_user = uid, ol_failures = ol_failures (ot_locks s ! i) + 1, ol_last = now\<rparr>]\<rparr>)"

definition otp_lock_clear :: "int \<Rightarrow> otp \<Rightarrow> otp" where
  "otp_lock_clear uid s =
     (case find_idx (\<lambda>l. ol_user l = uid) (ot_locks s) of
        None \<Rightarrow> s | Some i \<Rightarrow> s\<lparr>ot_locks := (ot_locks s)[i := (ot_locks s ! i)\<lparr>ol_failures := 0\<rparr>]\<rparr>)"

text \<open>The guard against replay: None refuses the counter, otherwise it is recorded where there is a slot.\<close>

definition otp_replay :: "int \<Rightarrow> 64 word \<Rightarrow> otp \<Rightarrow> otp option" where
  "otp_replay uid c s =
     (case find_idx (\<lambda>x. fst x = uid) (ot_counters s) of
        Some i \<Rightarrow> if c \<le> snd (ot_counters s ! i) then None else Some (s\<lparr>ot_counters := (ot_counters s)[i := (uid, c)]\<rparr>)
      | None \<Rightarrow>
          (case find_idx (\<lambda>x. fst x = 0) (ot_counters s) of
             Some i \<Rightarrow> Some (s\<lparr>ot_counters := (ot_counters s)[i := (uid, c)]\<rparr>)
           | None \<Rightarrow> Some s))"

definition otp_code :: "string option \<Rightarrow> string option" where
  "otp_code data =
     (case data of None \<Rightarrow> None
      | Some d \<Rightarrow> if length d < 6 \<or> \<not> list_all is_digit (take 6 d) then None else Some (take 6 d))"

definition otp_check :: "'t otp_create \<Rightarrow> 't otp_cancel \<Rightarrow> otp_env \<Rightarrow> user \<Rightarrow> int \<Rightarrow> string \<Rightarrow> 't otp_op" where
  "otp_check create cancel env u uid code s t =
     (case totp_verify_at (oe_mem env) (u_totp_secret u) code (of_int (oe_wall env)) (ot_skew s) of
        Some c \<Rightarrow>
          (case otp_replay uid c s of
             None \<Rightarrow> (s, t, otp_say env ''Authentication failed.'' @ [Ot_tone 400 500, Ot_announce ''replay rejected''])
           | Some s1 \<Rightarrow>
               (let (s2, t2, es) = otp_session_start create cancel env uid (otp_lock_clear uid s1) t
                in (s2, t2, es @ otp_say env ''Authentication successful. Elevated access granted.'' @
                      [Ot_tone 800 200, Ot_announce ''auth success''])))
      | None \<Rightarrow>
          (otp_lock_fail (oe_wall env) uid s, t, otp_say env ''Authentication failed.'' @ [Ot_tone 400 500, Ot_announce ''auth failed'']))"

definition on_otp_command :: "'t otp_create \<Rightarrow> 't otp_cancel \<Rightarrow> otp_env \<Rightarrow> string option \<Rightarrow> 't otp_op" where
  "on_otp_command create cancel env data s t =
     (let uid = ot_caller s
      in if uid \<le> 0 then (s, t, otp_say env ''Access denied. Please identify first.'' @ [Ot_announce ''access denied''])
         else (case user_lookup_by_id (oe_db env) uid of
                 None \<Rightarrow> (s, t, otp_say env ''OTP not configured for this user.'' @ [Ot_announce ''not configured''])
               | Some u \<Rightarrow>
                   if u_totp_secret u = [] then (s, t, otp_say env ''OTP not configured for this user.'' @ [Ot_announce ''not configured''])
                   else (case otp_code data of
                           None \<Rightarrow> (s, t, otp_say env ''Invalid code.'' @ [Ot_announce ''invalid code''])
                         | Some code \<Rightarrow>
                             (let (locked, s1) = otp_lock_check (oe_wall env) uid s
                              in if locked then (s1, t, []) else otp_check create cancel env u uid code s1 t))))"

definition otp_identified :: "int \<Rightarrow> otp \<Rightarrow> otp" where
  "otp_identified uid s = s\<lparr>ot_caller := uid\<rparr>"

subsection \<open>The module\<close>

definition otp_load :: "otp \<Rightarrow> otp" where
  "otp_load s = s\<lparr>ot_sessions := replicate MAX_OTP_SESSIONS \<lparr>os_user = 0, os_active = False, os_timer = -1, os_started = 0\<rparr>,
     ot_locks := replicate OTP_USERS \<lparr>ol_user = 0, ol_failures = 0, ol_last = 0\<rparr>, ot_counters := replicate OTP_USERS (0, 0)\<rparr>"

definition otp_configure :: "otp_env \<Rightarrow> config \<Rightarrow> otp \<Rightarrow> otp \<times> otp_effect list" where
  "otp_configure env cfg s =
     (let s1 = s\<lparr>ot_timeout := config_get_duration_ms cfg ''otp'' ''session_timeout'' 120000,
                ot_skew := config_get_int cfg ''otp'' ''time_skew'' 1\<rparr>
      in (s1, publish_otp env s1))"

definition otp_unload :: "'t otp_cancel \<Rightarrow> 't otp_op" where
  "otp_unload cancel s t =
     (s, foldl (\<lambda>t x. if os_active x \<and> os_timer x \<ge> 0 then cancel t (os_timer x) else t) t (ot_sessions s),
      map (\<lambda>x. Ot_elevate (os_user x) False) (filter os_active (ot_sessions s)))"

datatype otp_in = Oi_command "string option" | Oi_identified int | Oi_expire int | Oi_configure config

fun otp_step :: "'t otp_create \<Rightarrow> 't otp_cancel \<Rightarrow> ('t \<Rightarrow> int \<Rightarrow> (otp_cb \<times> nat) option) \<Rightarrow> otp_env \<Rightarrow> otp_in \<Rightarrow> 't otp_op" where
  "otp_step create cancel timer_of env (Oi_command data) s t = on_otp_command create cancel env data s t"
| "otp_step create cancel timer_of env (Oi_identified uid) s t = (otp_identified uid s, t, [])"
| "otp_step create cancel timer_of env (Oi_expire h) s t =
     (case timer_of t h of
        Some (CB_otp i, due) \<Rightarrow> if due \<le> oe_now_us env then otp_expire env i s (cancel t h) else (s, t, [])
      | _ \<Rightarrow> (s, t, []))"
| "otp_step create cancel timer_of env (Oi_configure cfg) s t = (let (s1, es) = otp_configure env cfg s in (s1, t, es))"

text \<open>A run with the caller, the clock and the effects of every step.\<close>

fun otp_run :: "'t otp_create \<Rightarrow> 't otp_cancel \<Rightarrow> ('t \<Rightarrow> int \<Rightarrow> (otp_cb \<times> nat) option) \<Rightarrow> (otp_env \<times> otp_in) list \<Rightarrow> otp \<Rightarrow> 't \<Rightarrow>
    otp \<times> 't \<times> (int \<times> int \<times> otp_effect list) list" where
  "otp_run create cancel timer_of [] s t = (s, t, [])"
| "otp_run create cancel timer_of ((env, i) # is) s t =
     (let (s1, t1, es) = otp_step create cancel timer_of env i s t; (s2, t2, tr) = otp_run create cancel timer_of is s1 t1
      in (s2, t2, (ot_caller s, oe_wall env, es) # tr))"

end
