(* ===== verification/Otp_Props.thy ===== *)
theory Otp_Props
  imports Otp
begin

text \<open>
  What holds of elevated access over the runs of the module: a user is elevated exactly while a session
  is active, only a code brings a session, no code works twice, and guessing is slowed down.
\<close>

subsection \<open>Sessions, timers and the elevated flag\<close>

text \<open>The elevated flags of the core that the effects leave.\<close>

fun elev :: "otp_effect list \<Rightarrow> (int \<Rightarrow> bool) \<Rightarrow> int \<Rightarrow> bool" where
  "elev [] f = f"
| "elev (Ot_elevate u b # es) f = elev es (f(u := b))"
| "elev (e # es) f = elev es f"

lemma elev_append [simp]: "elev (xs @ ys) f = elev ys (elev xs f)"
  by (induction xs f rule: elev.induct) (simp_all del: fun_upd_apply)

lemma elev_quiet [simp]: "elev (publish_otp env s) f = f" "elev (otp_say env x) f = f"
  by (simp_all add: publish_otp_def otp_say_def)

text \<open>The user and the timer of an active slot.\<close>

definition otp_view :: "otp_session list \<Rightarrow> nat \<Rightarrow> (int \<times> int) option" where
  "otp_view ss i = (if i < length ss \<and> os_active (ss ! i) then Some (os_user (ss ! i), os_timer (ss ! i)) else None)"

lemma otp_view_update: "i < length ss \<Longrightarrow> otp_view (ss[i := x]) = (otp_view ss)(i := if os_active x then Some (os_user x, os_timer x) else None)"
  by (auto simp: otp_view_def fun_eq_iff)

lemma otp_view_Some: "otp_view ss i = Some (u, h) \<longleftrightarrow> i < length ss \<and> os_active (ss ! i) \<and> os_user (ss ! i) = u \<and> os_timer (ss ! i) = h"
  by (auto simp: otp_view_def)

lemma otp_replay_keeps: "otp_replay uid c s = Some s' \<Longrightarrow> ot_sessions s' = ot_sessions s \<and> ot_timeout s' = ot_timeout s \<and> ot_locks s' = ot_locks s \<and> ot_caller s' = ot_caller s"
  by (auto simp: otp_replay_def split: option.splits if_splits)

lemmas otp_replay_sessions = otp_replay_keeps[THEN conjunct1]

lemma otp_lock_keeps [simp]:
  "ot_sessions (otp_lock_clear uid s) = ot_sessions s" "ot_timeout (otp_lock_clear uid s) = ot_timeout s"
  "ot_counters (otp_lock_clear uid s) = ot_counters s" "ot_caller (otp_lock_clear uid s) = ot_caller s"
  "ot_sessions (otp_lock_fail now uid s) = ot_sessions s" "ot_counters (otp_lock_fail now uid s) = ot_counters s"
  "ot_caller (otp_lock_fail now uid s) = ot_caller s"
  by (simp_all add: otp_lock_clear_def otp_lock_fail_def split: option.split)

lemma otp_lock_check_keeps: "ot_sessions (snd (otp_lock_check now uid s)) = ot_sessions s \<and> ot_timeout (snd (otp_lock_check now uid s)) = ot_timeout s \<and>
    ot_counters (snd (otp_lock_check now uid s)) = ot_counters s \<and> ot_skew (snd (otp_lock_check now uid s)) = ot_skew s \<and> ot_caller (snd (otp_lock_check now uid s)) = ot_caller s"
  by (simp add: otp_lock_check_def Let_def split: option.split)

lemmas otp_lock_check_sessions = otp_lock_check_keeps[THEN conjunct1]

text \<open>A command is refused with no change, or its code is checked for a user who is not locked out.\<close>

definition otp_quiet :: "otp_effect list \<Rightarrow> bool" where
  "otp_quiet es \<longleftrightarrow> (\<forall>u b. Ot_elevate u b \<notin> set es) \<and> Ot_announce ''auth failed'' \<notin> set es \<and> Ot_announce ''auth success'' \<notin> set es"

lemma otp_quiet_elev: "\<forall>u b. Ot_elevate u b \<notin> set es \<Longrightarrow> elev es f = f"
  by (induction es f rule: elev.induct) auto

lemma publish_otp_quiet: "otp_quiet (publish_otp env s)" "otp_quiet (otp_say env x)"
  by (simp_all add: otp_quiet_def publish_otp_def otp_say_def)

lemma publish_otp_mem [simp]: "Ot_elevate u b \<notin> set (publish_otp env s)" "Ot_elevate u b \<notin> set (otp_say env x)"
  "Ot_announce w \<notin> set (publish_otp env s)" "Ot_announce w \<notin> set (otp_say env x)"
  by (simp_all add: publish_otp_def otp_say_def)

lemma otp_locked_same: "otp_lock_check now uid s = (True, s') \<Longrightarrow> s' = s"
  by (auto simp: otp_lock_check_def Let_def split: option.splits if_splits)

lemma otp_command_cases:
  assumes "on_otp_command create cancel env data s t = (s', t', es)"
  obtains (refused) "s' = s" "t' = t" "otp_quiet es"
    | (checked) u code s1 where "0 < ot_caller s" "user_lookup_by_id (oe_db env) (ot_caller s) = Some u" "otp_code data = Some code"
        "otp_lock_check (oe_wall env) (ot_caller s) s = (False, s1)" "otp_check create cancel env u (ot_caller s) code s1 t = (s', t', es)"
proof (cases "0 < ot_caller s \<and> otp_code data \<noteq> None \<and> \<not> fst (otp_lock_check (oe_wall env) (ot_caller s) s) \<and>
    (\<exists>u. user_lookup_by_id (oe_db env) (ot_caller s) = Some u \<and> u_totp_secret u \<noteq> [])")
  case True
  then obtain u code s1 where "user_lookup_by_id (oe_db env) (ot_caller s) = Some u" "u_totp_secret u \<noteq> []" "otp_code data = Some code"
    "otp_lock_check (oe_wall env) (ot_caller s) s = (False, s1)" by (cases "otp_lock_check (oe_wall env) (ot_caller s) s") auto
  with True checked[of u code s1] assms show thesis by (simp add: on_otp_command_def)
next
  case False
  obtain lk s1 where l: "otp_lock_check (oe_wall env) (ot_caller s) s = (lk, s1)" by (cases "otp_lock_check (oe_wall env) (ot_caller s) s")
  have "s' = s \<and> t' = t \<and> otp_quiet es"
    using False assms l otp_locked_same[of "oe_wall env" "ot_caller s" s s1]
    by (auto simp: on_otp_command_def otp_quiet_def Let_def split: if_splits option.splits)
  then show thesis using refused by blast
qed

locale otp_timers = timer_service srv_inv create cancel timer_of
  for srv_inv :: "'t \<Rightarrow> bool"
    and create :: "nat \<Rightarrow> 't \<Rightarrow> int \<Rightarrow> bool \<Rightarrow> otp_cb option \<Rightarrow> 't \<times> int"
    and cancel :: "'t \<Rightarrow> int \<Rightarrow> 't"
    and timer_of :: "'t \<Rightarrow> int \<Rightarrow> (otp_cb \<times> nat) option"
begin

text \<open>
  The active sessions are of different users, these are the elevated ones, and every session has
  no timer or its own; there is no other timer with a session.
\<close>

definition sess_inv :: "(nat \<Rightarrow> (int \<times> int) option) \<Rightarrow> 't \<Rightarrow> (int \<Rightarrow> bool) \<Rightarrow> bool" where
  "sess_inv V t f \<longleftrightarrow> srv_inv t \<and>
     (\<forall>i j u h k. V i = Some (u, h) \<longrightarrow> V j = Some (u, k) \<longrightarrow> i = j) \<and>
     (\<forall>u. f u \<longleftrightarrow> (\<exists>i h. V i = Some (u, h))) \<and>
     (\<forall>i u h. V i = Some (u, h) \<longrightarrow> h < 0 \<or> (\<exists>due. timer_of t h = Some (CB_otp i, due))) \<and>
     (\<forall>h i due. timer_of t h = Some (CB_otp i, due) \<longrightarrow> 0 \<le> h \<and> (\<exists>u. V i = Some (u, h)))"

lemma sess_invD:
  assumes "sess_inv V t f"
  shows "srv_inv t" "V i = Some (u, h) \<Longrightarrow> V j = Some (u, k) \<Longrightarrow> i = j" "f u \<longleftrightarrow> (\<exists>i h. V i = Some (u, h))"
    "V i = Some (u, h) \<Longrightarrow> 0 \<le> h \<Longrightarrow> \<exists>due. timer_of t h = Some (CB_otp i, due)"
    "timer_of t h = Some (CB_otp i, due) \<Longrightarrow> 0 \<le> h \<and> (\<exists>u. V i = Some (u, h))"
  using assms unfolding sess_inv_def by (blast, blast, blast, fastforce, blast)

lemma sess_clear:
  assumes "sess_inv V t f" "V i = Some (u, h)"
  shows "sess_inv (V(i := None)) (if 0 \<le> h then cancel t h else t) (f(u := False))"
proof -
  note D = sess_invD[OF assms(1)]
  let ?t = "if 0 \<le> h then cancel t h else t"
  have t: "srv_inv ?t" "timer_of ?t = (if 0 \<le> h then (timer_of t)(h := None) else timer_of t)"
    using cancel_law[OF D(1), of h] D(1) by simp_all
  have keep: "timer_of ?t k = Some (CB_otp j, d) \<longleftrightarrow> timer_of t k = Some (CB_otp j, d) \<and> j \<noteq> i" for k j d
  proof
    assume a: "timer_of ?t k = Some (CB_otp j, d)"
    then have b: "timer_of t k = Some (CB_otp j, d)" "0 \<le> h \<longrightarrow> k \<noteq> h" using t(2) by (auto split: if_splits)
    moreover have "j \<noteq> i" using D(5)[OF b(1)] b(2) assms(2) by auto
    ultimately show "timer_of t k = Some (CB_otp j, d) \<and> j \<noteq> i" by blast
  next
    assume a: "timer_of t k = Some (CB_otp j, d) \<and> j \<noteq> i"
    have "k \<noteq> h" if "0 \<le> h" using D(4)[OF assms(2) that] a by auto
    with a t(2) show "timer_of ?t k = Some (CB_otp j, d)" by simp
  qed
  show ?thesis
    unfolding sess_inv_def
  proof (intro conjI allI impI)
    fix j v k assume "(V(i := None)) j = Some (v, k)"
    then have "j \<noteq> i" "V j = Some (v, k)" by (auto split: if_splits)
    then show "k < 0 \<or> (\<exists>due. timer_of ?t k = Some (CB_otp j, due))" using D(4)[of j v k] keep by fastforce
  next
    fix v
    have "(V(i := None)) j = Some (v, k) \<longleftrightarrow> v \<noteq> u \<and> V j = Some (v, k)" for j k
      using D(2)[OF assms(2), of j k] assms(2) by auto
    then show "(f(u := False)) v \<longleftrightarrow> (\<exists>j k. (V(i := None)) j = Some (v, k))" using D(3)[of v] by simp
  next
    fix k j d assume "timer_of ?t k = Some (CB_otp j, d)"
    with keep[of k j d] have "timer_of t k = Some (CB_otp j, d)" "j \<noteq> i" by blast+
    with D(5)[OF this(1)] show "0 \<le> k" "\<exists>v. (V(i := None)) j = Some (v, k)" by simp_all
  next
    fix a b w h k assume "(V(i := None)) a = Some (w, h)" "(V(i := None)) b = Some (w, k)"
    then show "a = b" using D(2)[of a w h b k] by (simp split: if_splits)
  qed (fact t(1))
qed

lemma sess_add:
  assumes "sess_inv V t f" "V i = None" "\<And>j h. V j \<noteq> Some (u, h)" "create now t ms False (Some (CB_otp i)) = (t', tid)"
  shows "sess_inv (V(i \<mapsto> (u, tid))) t' (f(u := True))"
proof -
  note D = sess_invD[OF assms(1)]
  from create_law[OF D(1) assms(4)] have c: "srv_inv t'"
    "(tid = -1 \<and> t' = t) \<or> (0 < tid \<and> timer_of t tid = None \<and> timer_of t' = (timer_of t)(tid \<mapsto> (CB_otp i, now + nat ms * 1000)))" by auto
  show ?thesis
    unfolding sess_inv_def
  proof (intro conjI allI impI)
    fix j v k assume "(V(i \<mapsto> (u, tid))) j = Some (v, k)"
    then have "(j = i \<and> k = tid) \<or> (j \<noteq> i \<and> V j = Some (v, k))" by (auto split: if_splits)
    with c(2) D(4)[of j v k] show "k < 0 \<or> (\<exists>due. timer_of t' k = Some (CB_otp j, due))" by fastforce
  next
    fix v
    have "(V(i \<mapsto> (u, tid))) j = Some (v, k) \<longleftrightarrow> (if j = i then v = u \<and> k = tid else V j = Some (v, k))" for j k by auto
    moreover have "V j = Some (v, k) \<Longrightarrow> j \<noteq> i" for j k using assms(2) by auto
    ultimately have "(\<exists>j k. (V(i \<mapsto> (u, tid))) j = Some (v, k)) \<longleftrightarrow> v = u \<or> (\<exists>j k. V j = Some (v, k))" by metis
    with D(3)[of v] show "(f(u := True)) v \<longleftrightarrow> (\<exists>j k. (V(i \<mapsto> (u, tid))) j = Some (v, k))" by simp
  next
    fix k j d assume a: "timer_of t' k = Some (CB_otp j, d)"
    with c(2) have "(j = i \<and> k = tid \<and> 0 < tid) \<or> timer_of t k = Some (CB_otp j, d)" by (auto split: if_splits)
    then show "0 \<le> k" "\<exists>v. (V(i \<mapsto> (u, tid))) j = Some (v, k)"
      using D(5)[of k j d] assms(2) by (cases "j = i"; force)+
  next
    fix a b w h k assume "(V(i \<mapsto> (u, tid))) a = Some (w, h)" "(V(i \<mapsto> (u, tid))) b = Some (w, k)"
    then show "a = b" using D(2)[of a w h b k] assms(3)[of a h] assms(3)[of b k] by (simp split: if_splits)
  qed (fact c(1))
qed

definition otp_ok :: "otp \<Rightarrow> 't \<Rightarrow> (int \<Rightarrow> bool) \<Rightarrow> bool" where
  "otp_ok s t f \<longleftrightarrow> length (ot_sessions s) = MAX_OTP_SESSIONS \<and> sess_inv (otp_view (ot_sessions s)) t f"

lemma expire_ok:
  assumes "otp_ok s t f" "timer_of t h = Some (CB_otp i, due)" "otp_expire env i s (cancel t h) = (s', t', es)"
  shows "otp_ok s' t' (elev es f)" "i < length (ot_sessions s)" "os_timer (ot_sessions s ! i) = h" "\<not> elev es f (os_user (ot_sessions s ! i))"
proof -
  have inv: "sess_inv (otp_view (ot_sessions s)) t f" using assms(1) by (simp add: otp_ok_def)
  from sess_invD(5)[OF inv assms(2)] obtain u where v: "0 \<le> h" "otp_view (ot_sessions s) i = Some (u, h)" by blast
  then have i: "i < length (ot_sessions s)" "os_active (ot_sessions s ! i)" "os_user (ot_sessions s ! i) = u" "os_timer (ot_sessions s ! i) = h"
    by (simp_all add: otp_view_Some)
  have e: "elev es f = f(u := False)" "t' = cancel t h" and
    s': "ot_sessions s' = (ot_sessions s)[i := (ot_sessions s ! i)\<lparr>os_active := False, os_timer := -1, os_started := 0\<rparr>]"
    using assms(3) i by (auto simp: otp_expire_def Let_def)
  have "otp_view (ot_sessions s') = (otp_view (ot_sessions s))(i := None)" unfolding s' using otp_view_update[OF i(1)] by simp
  with sess_clear[OF inv v(2)] v(1) e s' assms(1) show "otp_ok s' t' (elev es f)" by (simp add: otp_ok_def)
  show "i < length (ot_sessions s)" "os_timer (ot_sessions s ! i) = h" by (fact i)+
  show "\<not> elev es f (os_user (ot_sessions s ! i))" by (simp add: e i(3))
qed

text \<open>The slot for a new session is free once the user's old session is out of the way.\<close>

lemma slot_ok:
  assumes "otp_ok s t f" "otp_session_slot cancel uid s t = Some (i, t1)"
  shows "i < length (ot_sessions s)" "sess_inv ((otp_view (ot_sessions s))(i := None)) t1 (f(uid := False))"
    "((otp_view (ot_sessions s))(i := None)) j \<noteq> Some (uid, h)"
proof -
  let ?V = "otp_view (ot_sessions s)"
  have inv: "sess_inv ?V t f" using assms(1) by (simp add: otp_ok_def)
  have "i < length (ot_sessions s) \<and> sess_inv (?V(i := None)) t1 (f(uid := False)) \<and> (\<forall>j h. (?V(i := None)) j \<noteq> Some (uid, h))"
  proof (cases "find_session uid s")
    case None
    with assms(2) have i: "find_idx (\<lambda>x. \<not> os_active x) (ot_sessions s) = Some i" "t1 = t" by (auto simp: otp_session_slot_def)
    from find_idx_SomeD[OF i(1)] have l: "i < length (ot_sessions s)" "?V i = None" by (simp_all add: otp_view_def)
    have n: "?V j \<noteq> Some (uid, h)" for j h using None by (auto simp: find_session_def find_idx_None otp_view_Some)
    have "\<not> f uid" using sess_invD(3)[OF inv, of uid] n by blast
    then have "f(uid := False) = f" "?V(i := None) = ?V" using l(2) by (simp_all add: fun_upd_idem)
    with inv l n i(2) show ?thesis by simp
  next
    case f: (Some k)
    with assms(2) have k: "k = i" "t1 = (if os_timer (ot_sessions s ! i) \<ge> 0 then cancel t (os_timer (ot_sessions s ! i)) else t)"
      by (auto simp: otp_session_slot_def)
    from find_idx_SomeD[OF f[unfolded find_session_def]] k have v: "?V i = Some (uid, os_timer (ot_sessions s ! i))" "i < length (ot_sessions s)"
      by (simp_all add: otp_view_Some)
    have "(?V(i := None)) j \<noteq> Some (uid, h)" for j h using sess_invD(2)[OF inv v(1), of j h] by auto
    with sess_clear[OF inv v(1)] k(2) v(2) show ?thesis by simp
  qed
  then show "i < length (ot_sessions s)" "sess_inv (?V(i := None)) t1 (f(uid := False))" "(?V(i := None)) j \<noteq> Some (uid, h)" by blast+
qed

lemma start_cases:
  assumes "otp_session_start create cancel env uid s t = (s', t', es)"
  obtains (full) "otp_session_slot cancel uid s t = None" "s' = s" "t' = t" "es = []"
    | (slot) i t1 tid where "otp_session_slot cancel uid s t = Some (i, t1)"
        "create (oe_now_us env) t1 (ot_timeout s) False (Some (CB_otp i)) = (t', tid)"
        "ot_sessions s' = (ot_sessions s)[i := \<lparr>os_user = uid, os_active = True, os_timer = tid, os_started = oe_wall env\<rparr>]"
        "es = Ot_elevate uid True # publish_otp env s'"
proof (cases "otp_session_slot cancel uid s t")
  case None
  with assms have "s' = s" "t' = t" "es = []" by (simp_all add: otp_session_start_def)
  with full[OF None] show thesis by blast
next
  case (Some it)
  obtain i t1 where it: "it = (i, t1)" by (cases it)
  obtain t2 tid where c: "create (oe_now_us env) t1 (ot_timeout s) False (Some (CB_otp i)) = (t2, tid)"
    by (cases "create (oe_now_us env) t1 (ot_timeout s) False (Some (CB_otp i))")
  show thesis using assms Some it c by (intro slot[of i t1 tid]) (auto simp: otp_session_start_def Let_def)
qed

lemma start_ok:
  assumes "otp_ok s t f" "otp_session_start create cancel env uid s t = (s', t', es)"
  shows "otp_ok s' t' (elev es f)"
  using assms(2)
proof (cases rule: start_cases)
  case full
  with assms(1) show ?thesis by simp
next
  case (slot i t1 tid)
  note k = slot_ok[OF assms(1) slot(1)]
  have "sess_inv (((otp_view (ot_sessions s))(i := None))(i \<mapsto> (uid, tid))) t' ((f(uid := False))(uid := True))"
    by (rule sess_add[OF k(2) _ k(3) slot(2)]) simp
  with slot(3,4) otp_view_update[OF k(1)] assms(1) show ?thesis by (simp add: otp_ok_def)
qed

text \<open>A session that has just started ends when its timer fires.\<close>

lemma start_expires:
  assumes "otp_ok s t f" "otp_session_start create cancel env uid s t = (s', t', es)" "Ot_elevate u True \<in> set es"
  obtains i where "i < length (ot_sessions s')" "u = uid" "os_active (ot_sessions s' ! i)" "os_user (ot_sessions s' ! i) = u"
    "os_started (ot_sessions s' ! i) = oe_wall env"
    "0 \<le> os_timer (ot_sessions s' ! i) \<Longrightarrow> timer_of t' (os_timer (ot_sessions s' ! i)) = Some (CB_otp i, oe_now_us env + nat (ot_timeout s) * 1000)"
  using assms(2)
proof (cases rule: start_cases)
  case full
  with assms(3) show thesis by simp
next
  case (slot i t1 tid)
  note k = slot_ok[OF assms(1) slot(1)]
  from slot(3) have x: "ot_sessions s' ! i = \<lparr>os_user = uid, os_active = True, os_timer = tid, os_started = oe_wall env\<rparr>" using k(1) by simp
  have "u = uid" using assms(3) slot(4) by simp
  moreover have "timer_of t' tid = Some (CB_otp i, oe_now_us env + nat (ot_timeout s) * 1000)" if "0 \<le> tid"
    using handle_create(3)[OF sess_invD(1)[OF k(2)] slot(2) that] .
  ultimately show thesis using that[of i] k(1) slot(3) x by simp
qed

lemma fields_ok: "ot_sessions s' = ot_sessions s \<Longrightarrow> otp_ok s' t f = otp_ok s t f"
  by (simp add: otp_ok_def)

lemma check_ok:
  assumes "otp_ok s t f" "otp_check create cancel env u uid code s t = (s', t', es)"
  shows "otp_ok s' t' (elev es f)"
proof (cases "totp_verify_at (oe_mem env) (u_totp_secret u) code (of_int (oe_wall env)) (ot_skew s)")
  case None
  with assms(2) have "s' = otp_lock_fail (oe_wall env) uid s" "t' = t"
    "es = otp_say env ''Authentication failed.'' @ [Ot_tone 400 500, Ot_announce ''auth failed'']" by (simp_all add: otp_check_def)
  with assms(1) fields_ok[of s' s t f] show ?thesis by simp
next
  case v: (Some c)
  show ?thesis
  proof (cases "otp_replay uid c s")
    case None
    then have "s' = s" "t' = t" "es = otp_say env ''Authentication failed.'' @ [Ot_tone 400 500, Ot_announce ''replay rejected'']"
      using assms(2) v by (simp_all add: otp_check_def)
    with assms(1) show ?thesis by simp
  next
    case (Some s1)
    obtain s2 t2 es2 where st: "otp_session_start create cancel env uid (otp_lock_clear uid s1) t = (s2, t2, es2)"
      by (rule prod_cases3)
    have k: "otp_ok (otp_lock_clear uid s1) t f" using assms(1) fields_ok[of "otp_lock_clear uid s1" s] otp_replay_sessions[OF Some] by simp
    have "s' = s2" "t' = t2" "elev es f = elev es2 f" using assms(2) Some st v by (auto simp: otp_check_def)
    with start_ok[OF k st] show ?thesis by simp
  qed
qed

lemma command_ok:
  assumes "otp_ok s t f" "on_otp_command create cancel env data s t = (s', t', es)"
  shows "otp_ok s' t' (elev es f)"
  using assms(2)
proof (cases rule: otp_command_cases)
  case refused
  with assms(1) otp_quiet_elev[of es f] show ?thesis by (simp add: otp_quiet_def)
next
  case (checked u code s1)
  have "otp_ok s1 t f" using assms(1) fields_ok[of s1 s] otp_lock_check_sessions[of "oe_wall env" "ot_caller s" s] checked(4) by simp
  from check_ok[OF this checked(5)] show ?thesis .
qed

lemma step_ok:
  assumes "otp_ok s t f" "otp_step create cancel timer_of env i s t = (s', t', es)"
  shows "otp_ok s' t' (elev es f)"
proof (cases i)
  case (Oi_command data)
  with command_ok[OF assms(1)] assms(2) show ?thesis by simp
next
  case (Oi_expire h)
  show ?thesis
  proof (cases "\<exists>k due. timer_of t h = Some (CB_otp k, due) \<and> due \<le> oe_now_us env")
    case True
    then obtain k due where k: "timer_of t h = Some (CB_otp k, due)" "due \<le> oe_now_us env" by blast
    with assms(2) Oi_expire have "otp_expire env k s (cancel t h) = (s', t', es)" by simp
    from expire_ok(1)[OF assms(1) k(1) this] show ?thesis .
  next
    case False
    with assms(2) Oi_expire have "s' = s \<and> t' = t \<and> es = []" by (auto split: option.splits otp_cb.splits if_splits)
    with assms(1) show ?thesis by simp
  qed
next
  case (Oi_identified uid)
  with assms(2) have "ot_sessions s' = ot_sessions s" "t' = t" "elev es f = f" by (auto simp: otp_identified_def)
  with assms(1) fields_ok[of s' s t f] show ?thesis by simp
next
  case (Oi_configure cfg)
  with assms(2) have "ot_sessions s' = ot_sessions s" "t' = t" "elev es f = f" by (auto simp: otp_configure_def Let_def)
  with assms(1) fields_ok[of s' s t f] show ?thesis by simp
qed

lemma elevated_iff: "otp_ok s t f \<Longrightarrow> f u \<longleftrightarrow> (\<exists>x \<in> set (ot_sessions s). os_active x \<and> os_user x = u)"
  unfolding otp_ok_def using sess_invD(3)[of "otp_view (ot_sessions s)" t f u] by (simp add: otp_view_Some) (metis in_set_conv_nth)

lemma run_ok:
  assumes "otp_ok s t f" "otp_run create cancel timer_of is s t = (s', t', tr)"
  shows "otp_ok s' t' (elev (concat (map (snd \<circ> snd) tr)) f)"
  using assms
proof (induction "is" arbitrary: s t f s' t' tr)
  case (Cons x "is")
  obtain env i where x: "x = (env, i)" by (cases x)
  obtain s1 t1 es where a: "otp_step create cancel timer_of env i s t = (s1, t1, es)" by (cases "otp_step create cancel timer_of env i s t")
  obtain s2 t2 tr2 where b: "otp_run create cancel timer_of is s1 t1 = (s2, t2, tr2)" by (cases "otp_run create cancel timer_of is s1 t1")
  from Cons.IH[OF step_ok[OF Cons.prems(1) a] b] Cons.prems(2) x a b show ?case by auto
qed simp

lemma load_ok: "srv_inv t \<Longrightarrow> (\<And>h i due. timer_of t h \<noteq> Some (CB_otp i, due)) \<Longrightarrow> otp_ok (otp_load s) t (\<lambda>_. False)"
  by (auto simp: otp_ok_def otp_load_def sess_inv_def otp_view_def)

lemma unload_ok:
  assumes "otp_ok s t f" "otp_unload cancel s t = (s', t', es)"
  shows "\<not> elev es f u"
proof -
  have e: "elev (map (\<lambda>x. Ot_elevate (os_user x) False) xs) g u \<longleftrightarrow> g u \<and> (\<forall>x \<in> set xs. os_user x \<noteq> u)" for xs g u
    by (induction xs arbitrary: g) auto
  have "f u \<longleftrightarrow> (\<exists>x \<in> set (filter os_active (ot_sessions s)). os_user x = u)" using elevated_iff[OF assms(1)] by auto
  with assms(2) show ?thesis by (auto simp: otp_unload_def e simp del: set_filter)
qed

end

text \<open>An identified user with a secret, whose code is accepted.\<close>

definition otp_demo_env :: "nat \<Rightarrow> otp_env" where
  "otp_demo_env now = \<lparr>oe_now_us = now, oe_wall = 60, oe_tts = False, oe_sse = False, oe_mem = False, oe_db =
     \<lparr>db_users = [\<lparr>u_id = 1, u_username = ''a'', u_name = ''A'', u_email = [], u_callsign = [], u_dtmf_login = [], u_ani = [], u_access = 1,
        u_voicemail = 0, u_group = 0, u_totp_secret = ''jbswy3dpee''\<rparr>], db_groups = []\<rparr>\<rparr>"

lemma find_idx_replicate_None: "\<not> P x \<Longrightarrow> find_idx P (replicate n x) = None"
  by (simp add: find_idx_None)

definition otp_demo :: otp where
  "otp_demo = otp_load \<lparr>ot_timeout = 120000, ot_skew = 1, ot_caller = 1, ot_locks = [], ot_counters = [], ot_sessions = []\<rparr>"

lemma otp_demo_code: "totp_verify_at False ''jbswy3dpee'' ''000000'' 60 1 = Some 1"
proof -
  have "base32_decode 64 ''jbswy3dpee'' \<noteq> []" "atoi ''000000'' = 0" by code_simp+
  moreover have "[- 1..1::int] = [-1, 0, 1]" "(60 + word_of_int (-1) * 30) div 30 = (1 :: 64 word)" by code_simp+
  ultimately show ?thesis by (simp add: totp_verify_at_def no_memory_code)
qed

lemma otp_demo_lookup: "user_lookup_by_id (oe_db (otp_demo_env now)) 1 = Some (hd (db_users (oe_db (otp_demo_env now))))"
  "u_totp_secret (hd (db_users (oe_db (otp_demo_env now)))) = ''jbswy3dpee''"
  by (simp_all add: otp_demo_env_def user_lookup_by_id_def)

lemma otp_demo_data: "otp_code (Some ''000000'') = Some ''000000''"
  by code_simp

lemma otp_demo_fresh: "ot_caller otp_demo = 1" "ot_skew otp_demo = 1" "ot_timeout otp_demo = 120000"
  "(0, 0) \<in> set (ot_counters otp_demo)"
  by (simp_all add: otp_demo_def otp_load_def)

lemma otp_demo_accepts:
  assumes "on_otp_command create cancel (otp_demo_env now) (Some ''000000'') otp_demo t = (s', t', es)"
  shows "Ot_elevate 1 True \<in> set es" "Ot_announce ''auth success'' \<in> set es" "ot_caller s' = 1" "ot_skew s' = 1"
proof -
  let ?e = "otp_demo_env now"
  have l: "otp_lock_check (oe_wall ?e) 1 otp_demo = (False, otp_demo)"
    by (simp add: otp_lock_check_def otp_demo_def otp_load_def find_idx_replicate_None split: option.split)
  obtain s1 where r: "otp_replay 1 1 otp_demo = Some s1" "s1 = otp_demo\<lparr>ot_counters := (ot_counters otp_demo)[0 := (1, 1)]\<rparr>"
    by (simp add: otp_replay_def otp_demo_def otp_load_def find_idx_replicate_None find_idx_replicate split: option.split)
  obtain s2 t2 es2 where st: "otp_session_start create cancel ?e 1 (otp_lock_clear 1 s1) t = (s2, t2, es2)" by (rule prod_cases3)
  have c: "otp_lock_clear 1 s1 = s1" by (simp add: r(2) otp_lock_clear_def otp_demo_def otp_load_def find_idx_replicate_None split: option.split)
  have slot: "otp_session_slot cancel 1 s1 t = Some (0, t)"
    by (simp add: r(2) otp_session_slot_def find_session_def otp_demo_def otp_load_def find_idx_replicate find_idx_replicate_None split: option.split)
  from st c slot have e2: "Ot_elevate 1 True \<in> set es2" "ot_caller s2 = 1" "ot_skew s2 = 1"
    by (auto simp: otp_session_start_def Let_def r(2) otp_demo_fresh split: prod.splits)
  have "oe_mem ?e = False" "oe_wall ?e = 60" by (simp_all add: otp_demo_env_def)
  with assms otp_demo_lookup[of now] otp_demo_data l otp_demo_code r(1) st e2
  show "Ot_elevate 1 True \<in> set es" "Ot_announce ''auth success'' \<in> set es" "ot_caller s' = 1" "ot_skew s' = 1"
    by (auto simp: on_otp_command_def otp_check_def otp_demo_fresh)
qed

interpretation ot: otp_timers timer_inv timer_create timer_cancel armed
  by unfold_locales

text \<open>
  What the module asks of the core. After any commands, identifications, reconfigurations and expired timers, with
  whatever codes, clocks and speech, from the load of the module on the daemon's timer
  table: the last request for a user was to elevate exactly while a session of the user is active, two sessions
  are never of one user, and each session has no timer or a timer of its own that is armed for it; and after the
  unload of the module the last request for everybody was not to elevate.
\<close>

lemma otp_requests_are_sessions:
  assumes "timer_inv t" "\<And>h i due. armed t h \<noteq> Some (CB_otp i, due)"
    and "otp_run timer_create timer_cancel armed is (otp_load s) t = (s', t', tr)"
    and "otp_unload timer_cancel s' t' = (s2, t2, es2)"
  shows "(elev (concat (map (snd \<circ> snd) tr)) (\<lambda>_. False) u \<longleftrightarrow> (\<exists>x \<in> set (ot_sessions s'). os_active x \<and> os_user x = u)) \<and>
    (\<forall>i j. i < length (ot_sessions s') \<longrightarrow> j < length (ot_sessions s') \<longrightarrow> os_active (ot_sessions s' ! i) \<longrightarrow> os_active (ot_sessions s' ! j) \<longrightarrow>
       os_user (ot_sessions s' ! i) = os_user (ot_sessions s' ! j) \<longrightarrow> i = j) \<and>
    (\<forall>i < length (ot_sessions s'). os_active (ot_sessions s' ! i) \<longrightarrow> os_timer (ot_sessions s' ! i) < 0 \<or>
       (\<exists>due. armed t' (os_timer (ot_sessions s' ! i)) = Some (CB_otp i, due))) \<and>
    \<not> elev (concat (map (snd \<circ> snd) tr) @ es2) (\<lambda>_. False) u"
proof -
  let ?f = "elev (concat (map (snd \<circ> snd) tr)) (\<lambda>_. False)"
  have ok: "ot.otp_ok s' t' ?f" using ot.run_ok[OF ot.load_ok[OF assms(1,2)] assms(3)] .
  then have inv: "ot.sess_inv (otp_view (ot_sessions s')) t' ?f" by (simp add: ot.otp_ok_def)
  have v: "otp_view (ot_sessions s') i = Some (os_user (ot_sessions s' ! i), os_timer (ot_sessions s' ! i))"
    if "i < length (ot_sessions s')" "os_active (ot_sessions s' ! i)" for i using that by (simp add: otp_view_def)
  have 1: "?f u \<longleftrightarrow> (\<exists>x \<in> set (ot_sessions s'). os_active x \<and> os_user x = u)" by (rule ot.elevated_iff[OF ok])
  have 2: "i = j" if "i < length (ot_sessions s')" "j < length (ot_sessions s')" "os_active (ot_sessions s' ! i)" "os_active (ot_sessions s' ! j)"
    "os_user (ot_sessions s' ! i) = os_user (ot_sessions s' ! j)" for i j
    using ot.sess_invD(2)[OF inv v[OF that(1,3)], of j] v[OF that(2,4)] that(5) by simp
  have 3: "os_timer (ot_sessions s' ! i) < 0 \<or> (\<exists>due. armed t' (os_timer (ot_sessions s' ! i)) = Some (CB_otp i, due))"
    if "i < length (ot_sessions s')" "os_active (ot_sessions s' ! i)" for i
    using ot.sess_invD(4)[OF inv v[OF that]] by (cases "os_timer (ot_sessions s' ! i) < 0") simp_all
  have 4: "\<not> elev es2 ?f u" using ot.unload_ok[OF ok assms(4)] .
  from 1 2 3 4 show ?thesis by (simp del: split_paired_All)
qed

lemma command_expires:
  assumes "ot.otp_ok s t f" "on_otp_command timer_create timer_cancel env data s t = (s', t', es)" "Ot_elevate u True \<in> set es"
  obtains i where "i < length (ot_sessions s')" "u = ot_caller s" "0 < u" "os_active (ot_sessions s' ! i)" "os_user (ot_sessions s' ! i) = u"
    "os_started (ot_sessions s' ! i) = oe_wall env"
    "0 \<le> os_timer (ot_sessions s' ! i) \<Longrightarrow> armed t' (os_timer (ot_sessions s' ! i)) = Some (CB_otp i, oe_now_us env + nat (ot_timeout s) * 1000)"
  using assms(2)
proof (cases rule: otp_command_cases)
  case refused
  with assms(3) show thesis by (simp add: otp_quiet_def)
next
  case (checked x code s1)
  let ?uid = "ot_caller s"
  from checked(4) have s1: "ot_sessions s1 = ot_sessions s" "ot_timeout s1 = ot_timeout s"
    using otp_lock_check_keeps[of "oe_wall env" ?uid s] by simp_all
  from checked(5) assms(3) obtain c s2 where v: "totp_verify_at (oe_mem env) (u_totp_secret x) code (of_int (oe_wall env)) (ot_skew s1) = Some c"
      "otp_replay ?uid c s1 = Some s2"
    by (auto simp: otp_check_def split: option.splits)
  let ?s3 = "otp_lock_clear ?uid s2"
  obtain s4 t4 es4 where st: "otp_session_start timer_create timer_cancel env ?uid ?s3 t = (s4, t4, es4)" by (rule prod_cases3)
  with checked(5) v have e: "s' = s4" "t' = t4"
      "es = es4 @ otp_say env ''Authentication successful. Elevated access granted.'' @ [Ot_tone 800 200, Ot_announce ''auth success'']"
    by (simp_all add: otp_check_def)
  have k: "ot_sessions ?s3 = ot_sessions s" "ot_timeout ?s3 = ot_timeout s" using s1 otp_replay_keeps[OF v(2)] otp_lock_keeps(1,2)[of ?uid s2] by simp_all
  have ok: "ot.otp_ok ?s3 t f" using ot.fields_ok[OF k(1)] assms(1) by simp
  have "Ot_elevate u True \<in> set es4" using assms(3) e(3) by simp
  from ot.start_expires[OF ok st this] k(2) e(1,2) checked(1) show thesis using that by metis
qed

text \<open>
  A session ends by itself. When a command elevates a user, it is the identified user whose
  session of that moment the module holds, and unless the timer table had no room the session's
  timer is armed for the session timeout; when it fires, at any time from then on, the user is no
  longer elevated, no session of the user is left, and the end is spoken and announced.
\<close>

theorem otp_session_expires:
  assumes "timer_inv t" "\<And>h i due. armed t h \<noteq> Some (CB_otp i, due)"
    and "otp_run timer_create timer_cancel armed is (otp_load s) t = (s1, t1, tr)"
    and "on_otp_command timer_create timer_cancel env data s1 t1 = (s2, t2, es)" "Ot_elevate u True \<in> set es"
  shows "u = ot_caller s1 \<and> 0 < u \<and> (\<exists>i < length (ot_sessions s2). os_active (ot_sessions s2 ! i) \<and> os_user (ot_sessions s2 ! i) = u \<and>
    os_started (ot_sessions s2 ! i) = oe_wall env \<and>
    (0 \<le> os_timer (ot_sessions s2 ! i) \<longrightarrow> (\<forall>env'. oe_now_us env + nat (ot_timeout s1) * 1000 \<le> oe_now_us env' \<longrightarrow>
       (case otp_step timer_create timer_cancel armed env' (Oi_expire (os_timer (ot_sessions s2 ! i))) s2 t2 of
          (s3, t3, es3) \<Rightarrow> Ot_elevate u False \<in> set es3 \<and> Ot_announce ''session expired'' \<in> set es3 \<and>
            (\<forall>x \<in> set (ot_sessions s3). os_active x \<longrightarrow> os_user x \<noteq> u)))))"
proof -
  have ok: "ot.otp_ok s1 t1 (elev (concat (map (snd \<circ> snd) tr)) (\<lambda>_. False))" (is "ot.otp_ok _ _ ?f")
    using ot.run_ok[OF ot.load_ok[OF assms(1,2)] assms(3)] .
  from command_expires[OF ok assms(4,5)] obtain i where i: "i < length (ot_sessions s2)" "u = ot_caller s1" "0 < u" "os_active (ot_sessions s2 ! i)"
    "os_user (ot_sessions s2 ! i) = u" "os_started (ot_sessions s2 ! i) = oe_wall env"
    "0 \<le> os_timer (ot_sessions s2 ! i) \<Longrightarrow> armed t2 (os_timer (ot_sessions s2 ! i)) = Some (CB_otp i, oe_now_us env + nat (ot_timeout s1) * 1000)"
    by blast
  let ?h = "os_timer (ot_sessions s2 ! i)"
  have ok2: "ot.otp_ok s2 t2 (elev es ?f)" using ot.command_ok[OF ok assms(4)] .
  have fin: "case otp_step timer_create timer_cancel armed env' (Oi_expire ?h) s2 t2 of
      (s3, t3, es3) \<Rightarrow> Ot_elevate u False \<in> set es3 \<and> Ot_announce ''session expired'' \<in> set es3 \<and>
        (\<forall>x \<in> set (ot_sessions s3). os_active x \<longrightarrow> os_user x \<noteq> u)"
    if "0 \<le> ?h" "oe_now_us env + nat (ot_timeout s1) * 1000 \<le> oe_now_us env'" for env'
  proof -
    obtain s3 t3 es3 where e: "otp_expire env' i s2 (timer_cancel t2 ?h) = (s3, t3, es3)" by (rule prod_cases3)
    have st: "otp_step timer_create timer_cancel armed env' (Oi_expire ?h) s2 t2 = (s3, t3, es3)" using i(7)[OF that(1)] that(2) e by simp
    note x = ot.expire_ok[OF ok2 i(7)[OF that(1)] e]
    have "\<forall>x \<in> set (ot_sessions s3). os_active x \<longrightarrow> os_user x \<noteq> u" using x(1,4) i(5) ot.elevated_iff[OF x(1), of u] by metis
    moreover have "Ot_elevate u False \<in> set es3 \<and> Ot_announce ''session expired'' \<in> set es3"
      using e i(4,5) by (auto simp: otp_expire_def Let_def)
    ultimately show ?thesis using st by simp
  qed
  show ?thesis
    by (intro conjI exI[of _ i] impI allI) (fact i(2) i(3) i(1) i(4) i(5) i(6) | (rule fin, assumption+))+
qed

theorem otp_session_expires_witness:
  "\<exists>s2 t2 es. on_otp_command timer_create timer_cancel (otp_demo_env 5) (Some ''000000'') otp_demo (timer_init (CB_otp_foreign 0)) = (s2, t2, es) \<and>
    (\<exists>i < length (ot_sessions s2). os_active (ot_sessions s2 ! i) \<and> os_user (ot_sessions s2 ! i) = 1)"
proof -
  let ?t = "timer_init (CB_otp_foreign 0)"
  obtain s2 t2 es where a: "on_otp_command timer_create timer_cancel (otp_demo_env 5) (Some ''000000'') otp_demo ?t = (s2, t2, es)" by (rule prod_cases3)
  have "otp_run timer_create timer_cancel armed [] otp_demo ?t = (otp_demo, ?t, [])" by simp
  from otp_session_expires[OF timer_inv_init _ this[unfolded otp_demo_def] a[unfolded otp_demo_def] otp_demo_accepts(1)[OF a]]
  show ?thesis using a by (auto simp: armed_init)
qed

end
