(* ===== verification/Otp_Core.thy ===== *)
theory Otp_Core
  imports Otp_Props Core_Api
begin

text \<open>
  The module of one-time passwords on the elevation table of the core (\<open>kerchunk_core_set_otp_elevated\<close>), 64
  slots that are never given back: what the core answers about a user, over the runs of the module.
\<close>

text \<open>The core after the effects of the module.\<close>

fun core_elev :: "otp_effect list \<Rightarrow> ('h, 'u) core \<Rightarrow> ('h, 'u) core" where
  "core_elev [] c = c"
| "core_elev (Ot_elevate u b # es) c = core_elev es (core_set_otp_elevated c u b)"
| "core_elev (e # es) c = core_elev es c"

lemma core_elev_append [simp]: "core_elev (xs @ ys) c = core_elev ys (core_elev xs c)"
  by (induction xs c rule: core_elev.induct) simp_all

subsection \<open>The slots\<close>

text \<open>A request changes the slot of its user, takes a free one, or does nothing.\<close>

lemma core_set_cases:
  assumes "0 < w" "c' = core_set_otp_elevated c w b"
  obtains (same) "c' = c" "\<not> otp_known c w" "b \<longrightarrow> \<not> otp_known c 0"
    | (own) i where "i < length (g_otp_sessions c)" "fst (g_otp_sessions c ! i) = w"
        "c' = c\<lparr>g_otp_sessions := (g_otp_sessions c)[i := (w, b)]\<rparr>"
    | (new) i where "i < length (g_otp_sessions c)" "fst (g_otp_sessions c ! i) = 0" "\<not> otp_known c w" "b"
        "c' = c\<lparr>g_otp_sessions := (g_otp_sessions c)[i := (w, b)]\<rparr>"
proof (cases "find_idx (\<lambda>e. fst e = w) (g_otp_sessions c)")
  case (Some i)
  show thesis by (rule own[of i]) (use find_idx_SomeD[OF Some] assms Some in \<open>simp_all add: core_set_otp_elevated_def\<close>)
next
  case None
  then have nk: "\<not> otp_known c w" by (simp add: otp_known_def find_idx_fst_None)
  show thesis
  proof (cases "b \<and> otp_known c 0")
    case True
    then obtain i where z: "find_idx (\<lambda>e. fst e = 0) (g_otp_sessions c) = Some i"
      using find_idx_fst_None[of 0 "g_otp_sessions c"] by (auto simp: otp_known_def)
    show thesis
      by (rule new[of i]) (use find_idx_SomeD[OF z] assms z None True nk in \<open>simp_all add: core_set_otp_elevated_def\<close>)
  next
    case False
    then have "find_idx (\<lambda>e. fst e = 0) (g_otp_sessions c) = None \<or> \<not> b" by (auto simp: otp_known_def find_idx_fst_None)
    with assms None have "c' = c" by (auto simp: core_set_otp_elevated_def)
    with nk False show thesis by (intro same) simp_all
  qed
qed

lemma set_update_known:
  assumes "i < length xs"
  shows "fst ` set (xs[i := (w, b)]) \<subseteq> insert w (fst ` set xs)"
  using set_update_subset_insert[of xs i "(w, b)"] by force

lemma core_set_known:
  assumes "0 < w" "0 < v"
  shows "otp_known (core_set_otp_elevated c w b) v \<longleftrightarrow> otp_known c v \<or> (v = w \<and> b \<and> otp_known c 0)"
proof -
  obtain c' where c': "c' = core_set_otp_elevated c w b" by simp
  have keep: "otp_known c v \<Longrightarrow> otp_known c' v" using otp_elevated_lookup[OF assms, of c b] c' by simp
  from assms(1) c' show ?thesis
  proof (cases rule: core_set_cases)
    case same
    with c' show ?thesis by auto
  next
    case (own i)
    then have "otp_known c w" unfolding otp_known_def by (metis image_eqI nth_mem)
    moreover have "otp_known c' v \<Longrightarrow> v = w \<or> otp_known c v"
      using set_update_known[OF own(1), of w b] own(3) by (auto simp: otp_known_def)
    ultimately show ?thesis using keep c' by auto
  next
    case (new i)
    then have "(w, b) \<in> set (g_otp_sessions c')" by (simp add: set_update_memI)
    then have "otp_known c' w" unfolding otp_known_def by force
    moreover have "otp_known c 0" using new(1,2) unfolding otp_known_def by (metis image_eqI nth_mem)
    moreover have "otp_known c' v \<Longrightarrow> v = w \<or> otp_known c v"
      using set_update_known[OF new(1), of w b] new(5) by (auto simp: otp_known_def)
    ultimately show ?thesis using keep c' new(4) by auto
  qed
qed

lemma core_set_nonpos: "w \<le> 0 \<Longrightarrow> core_set_otp_elevated c w b = c"
  by (simp add: core_set_otp_elevated_def)

text \<open>What the core answers: the last request, for a user with a slot.\<close>

lemma core_elev_iff:
  assumes "\<forall>v > 0. core_get_otp_elevated c v \<longleftrightarrow> f v \<and> otp_known c v" "0 < u"
  shows "core_get_otp_elevated (core_elev es c) u \<longleftrightarrow> elev es f u \<and> otp_known (core_elev es c) u"
  using assms(1)
proof (induction es c arbitrary: f rule: core_elev.induct)
  case (1 c)
  with assms(2) show ?case by simp
next
  case (2 w b es c)
  have "\<forall>v > 0. core_get_otp_elevated (core_set_otp_elevated c w b) v \<longleftrightarrow>
      (f(w := b)) v \<and> otp_known (core_set_otp_elevated c w b) v"
  proof (intro allI impI)
    fix v :: int assume v: "0 < v"
    show "core_get_otp_elevated (core_set_otp_elevated c w b) v \<longleftrightarrow>
        (f(w := b)) v \<and> otp_known (core_set_otp_elevated c w b) v"
    proof (cases "0 < w")
      case True
      with 2(2) v otp_elevated_lookup[OF True v, of c b] core_set_known[OF True v, of c b] show ?thesis by auto
    next
      case False
      with 2(2) v show ?thesis by (auto simp: core_set_nonpos)
    qed
  qed
  from 2(1)[OF this] show ?case by (simp del: fun_upd_apply)
qed simp_all

text \<open>The table has room for 64 users.\<close>

definition otp_granted :: "otp_effect list \<Rightarrow> int set" where
  "otp_granted es = {u. 0 < u \<and> Ot_elevate u True \<in> set es}"

definition slots_inv :: "('h, 'u) core \<Rightarrow> int set \<Rightarrow> bool" where
  "slots_inv c G \<longleftrightarrow> length (g_otp_sessions c) = MAX_OTP_ELEVATED \<and>
     (\<forall>i < MAX_OTP_ELEVATED. \<forall>j < MAX_OTP_ELEVATED.
        fst (g_otp_sessions c ! i) = fst (g_otp_sessions c ! j) \<longrightarrow> fst (g_otp_sessions c ! i) \<noteq> 0 \<longrightarrow> i = j) \<and>
     (\<forall>v. otp_known c v \<longrightarrow> v = 0 \<or> v \<in> G) \<and> ((\<forall>v \<in> G. otp_known c v) \<or> \<not> otp_known c 0)"

lemma slots_init: "slots_inv core_init {}"
  by (simp add: slots_inv_def core_init_def otp_known_def)

lemma slots_set:
  assumes "slots_inv c G" "0 \<notin> G"
  shows "slots_inv (core_set_otp_elevated c w b) (G \<union> otp_granted [Ot_elevate w b])"
proof (cases "0 < w")
  case False
  then have "otp_granted [Ot_elevate w b] = {}" by (auto simp: otp_granted_def)
  with False show ?thesis using assms by (simp add: core_set_nonpos)
next
  case True
  let ?G = "G \<union> otp_granted [Ot_elevate w b]"
  have G: "?G = (if b then insert w G else G)" using True by (auto simp: otp_granted_def)
  note inv = assms(1)[unfolded slots_inv_def]
  obtain c' where c': "c' = core_set_otp_elevated c w b" by simp
  from True c' show ?thesis
  proof (cases rule: core_set_cases)
    case same
    with inv G c' show ?thesis by (auto simp: slots_inv_def)
  next
    case (own i)
    have k: "otp_known c w" unfolding otp_known_def using own(1,2) by (metis image_eqI nth_mem)
    then have w: "w \<in> G" using inv True by auto
    have e: "fst (g_otp_sessions c' ! j) = fst (g_otp_sessions c ! j)" if "j < length (g_otp_sessions c)" for j
      using own that by (auto simp: nth_list_update)
    have l: "length (g_otp_sessions c') = length (g_otp_sessions c)" using own(3) by simp
    have "otp_known c' v \<longleftrightarrow> otp_known c v" for v
      unfolding otp_known_def using e l by (metis (no_types, lifting) imageE image_eqI in_set_conv_nth)
    with inv w G e l have "slots_inv c' ?G" by (auto simp: slots_inv_def)
    with c' show ?thesis by simp
  next
    case (new i)
    have o: "w \<noteq> fst (g_otp_sessions c ! j)" if "j < length (g_otp_sessions c)" for j
      using new(3) that unfolding otp_known_def by (metis image_eqI nth_mem)
    have s: "g_otp_sessions c' = (g_otp_sessions c)[i := (w, b)]" using new(5) by simp
    have z: "otp_known c 0" using new(1,2) unfolding otp_known_def by (metis image_eqI nth_mem)
    have kn: "otp_known c' v \<Longrightarrow> v = w \<or> otp_known c v" for v
      using set_update_known[OF new(1), of w b] s by (auto simp: otp_known_def)
    have kk: "otp_known c' v" if "v \<in> insert w G" for v
    proof -
      have "0 < v \<or> v < 0" using that True assms(2) by (cases "v = 0") auto
      moreover have "otp_known c' v" if "v \<noteq> w" "otp_known c v" "v \<noteq> 0"
      proof -
        from that(2) obtain j where "j < length (g_otp_sessions c)" "fst (g_otp_sessions c ! j) = v"
          unfolding otp_known_def by (metis imageE in_set_conv_nth)
        moreover from this have "j \<noteq> i" using new(2) that(3) by auto
        ultimately have "g_otp_sessions c' ! j \<in> set (g_otp_sessions c') \<and> fst (g_otp_sessions c' ! j) = v"
          unfolding s by (metis length_list_update nth_list_update_neq nth_mem)
        then show ?thesis unfolding otp_known_def by force
      qed
      moreover have "otp_known c' w" using new(1) s set_update_memI[of i "g_otp_sessions c" "(w, b)"] by (force simp: otp_known_def)
      ultimately show ?thesis using that inv z by (cases "v = w") auto
    qed
    have d: "\<forall>j < MAX_OTP_ELEVATED. \<forall>k < MAX_OTP_ELEVATED. fst (g_otp_sessions c' ! j) = fst (g_otp_sessions c' ! k) \<longrightarrow>
        fst (g_otp_sessions c' ! j) \<noteq> 0 \<longrightarrow> j = k"
      using inv o new(1) unfolding s by (auto simp: nth_list_update)
    have "v = 0 \<or> v \<in> ?G" if "otp_known c' v" for v
    proof -
      have "v = 0 \<or> v \<in> insert w G" using kn[OF that] inv by blast
      then show ?thesis using G new(4) by simp
    qed
    moreover have "\<forall>v \<in> ?G. otp_known c' v" using kk G new(4) by simp
    moreover have "length (g_otp_sessions c') = MAX_OTP_ELEVATED" using inv s by simp
    ultimately have "slots_inv c' ?G" unfolding slots_inv_def using d by blast
    with c' show ?thesis by simp
  qed
qed

lemma slots_elev: "slots_inv c G \<Longrightarrow> 0 \<notin> G \<Longrightarrow> slots_inv (core_elev es c) (G \<union> otp_granted es)"
proof (induction es c arbitrary: G rule: core_elev.induct)
  case (1 c)
  then show ?case by (simp add: otp_granted_def)
next
  case (2 w b es c)
  have "0 \<notin> G \<union> otp_granted [Ot_elevate w b]" using 2(3) by (simp add: otp_granted_def)
  note ih = 2(1)[OF slots_set[OF 2(2,3)] this]
  have "G \<union> otp_granted [Ot_elevate w b] \<union> otp_granted es = G \<union> otp_granted (Ot_elevate w b # es)"
    by (auto simp: otp_granted_def)
  with ih show ?case by simp
qed (simp_all add: otp_granted_def)

lemma slots_room:
  assumes "slots_inv c G" "finite G" "card G \<le> MAX_OTP_ELEVATED" "0 \<notin> G" "v \<in> G"
  shows "otp_known c v"
proof (cases "otp_known c 0")
  case True
  with assms show ?thesis by (auto simp: slots_inv_def)
next
  case False
  note inv = assms(1)[unfolded slots_inv_def]
  let ?id = "\<lambda>i. fst (g_otp_sessions c ! i)"
  have mem: "otp_known c (?id i)" if "i < MAX_OTP_ELEVATED" for i
    unfolding otp_known_def using inv that by (metis image_eqI nth_mem)
  have nz: "?id i \<noteq> 0" if "i < MAX_OTP_ELEVATED" for i using mem[OF that] False by auto
  have "inj_on ?id {..<MAX_OTP_ELEVATED}" using inv nz by (auto simp: inj_on_def)
  then have "card (?id ` {..<MAX_OTP_ELEVATED}) = MAX_OTP_ELEVATED" by (simp add: card_image)
  moreover have "?id i \<in> G" if "i < MAX_OTP_ELEVATED" for i using inv mem[OF that] nz[OF that] by blast
  then have "?id ` {..<MAX_OTP_ELEVATED} \<subseteq> G" by auto
  ultimately have "?id ` {..<MAX_OTP_ELEVATED} = G" using assms(2,3) by (metis card_seteq)
  with assms(5) mem show ?thesis by auto
qed

subsection \<open>Who is elevated\<close>

text \<open>
  C27. Who is elevated, by the answer of the core (\<open>kerchunk_core_get_otp_elevated\<close>). After any commands,
  identifications, reconfigurations and expired timers, with whatever codes, clocks and speech, from the load of the
  module on the daemon's timer table and on a core just initialised: a user is elevated exactly while a session of
  the user is active and the user has a slot of the core's table; in particular nobody is elevated without a session.
  While at most 64 different users have been given a session, everyone has a slot, and the elevated users are
  exactly those with a session; a slot is never given back, so a 65th user is not elevated although the session is
  active and was announced. Two sessions are never of one user, each has no timer or a timer of its own that is armed
  for it, and the unload of the module leaves nobody elevated.
\<close>

theorem otp_elevated_is_session:
  fixes c0 :: "('h, 'u) core"
  assumes "timer_inv t" "\<And>h i due. armed t h \<noteq> Some (CB_otp i, due)" "c0 = core_init" "0 < u"
    and "otp_run timer_create timer_cancel armed is (otp_load s) t = (s', t', tr)"
    and "otp_unload timer_cancel s' t' = (s2, t2, es2)" "es = concat (map (snd \<circ> snd) tr)"
  shows "(core_get_otp_elevated (core_elev es c0) u \<longleftrightarrow>
            (\<exists>x \<in> set (ot_sessions s'). os_active x \<and> os_user x = u) \<and> otp_known (core_elev es c0) u) \<and>
    (card {v. 0 < v \<and> Ot_elevate v True \<in> set es} \<le> 64 \<longrightarrow>
       (core_get_otp_elevated (core_elev es c0) u \<longleftrightarrow> (\<exists>x \<in> set (ot_sessions s'). os_active x \<and> os_user x = u))) \<and>
    (\<forall>i j. i < length (ot_sessions s') \<longrightarrow> j < length (ot_sessions s') \<longrightarrow> os_active (ot_sessions s' ! i) \<longrightarrow> os_active (ot_sessions s' ! j) \<longrightarrow>
       os_user (ot_sessions s' ! i) = os_user (ot_sessions s' ! j) \<longrightarrow> i = j) \<and>
    (\<forall>i < length (ot_sessions s'). os_active (ot_sessions s' ! i) \<longrightarrow> os_timer (ot_sessions s' ! i) < 0 \<or>
       (\<exists>due. armed t' (os_timer (ot_sessions s' ! i)) = Some (CB_otp i, due))) \<and>
    \<not> core_get_otp_elevated (core_elev (es @ es2) c0) u"
proof -
  note r = otp_requests_are_sessions[OF assms(1,2,5,6), of u, folded assms(7)]
  have "\<not> core_get_otp_elevated c0 v" for v
    by (auto simp: assms(3) core_get_otp_elevated_def core_init_def find_idx_replicate_None split: option.split)
  then have e: "core_get_otp_elevated (core_elev xs c0) u \<longleftrightarrow> elev xs (\<lambda>_. False) u \<and> otp_known (core_elev xs c0) u" for xs
    by (intro core_elev_iff[OF _ assms(4)]) simp
  have "otp_known (core_elev es c0) u" if "card {v. 0 < v \<and> Ot_elevate v True \<in> set es} \<le> 64" "elev es (\<lambda>_. False) u"
  proof (rule slots_room)
    show "slots_inv (core_elev es c0) (otp_granted es)" using slots_elev[OF slots_init, of es] assms(3) by simp
    have "otp_granted es \<subseteq> (\<lambda>e. case e of Ot_elevate v b \<Rightarrow> v | _ \<Rightarrow> 0) ` set es" by (force simp: otp_granted_def)
    then show "finite (otp_granted es)" by (rule finite_subset) simp
    have "elev xs f u \<Longrightarrow> f u \<or> Ot_elevate u True \<in> set xs" for xs f
      by (induction xs f rule: elev.induct) (auto split: if_splits)
    with that(2) assms(4) show "u \<in> otp_granted es" by (auto simp: otp_granted_def)
  qed (use that(1) in \<open>simp_all add: otp_granted_def\<close>)
  with e[of es] e[of "es @ es2"] r show ?thesis by blast
qed

theorem otp_elevated_is_session_witness:
  "\<exists>s' t' tr. otp_run timer_create timer_cancel armed [(otp_demo_env 5, Oi_command (Some ''000000''))] otp_demo (timer_init (CB_otp_foreign 0)) = (s', t', tr) \<and>
    (core_get_otp_elevated (core_elev (concat (map (snd \<circ> snd) tr)) (core_init :: (unit, unit) core)) 1 \<longrightarrow>
       (\<exists>x \<in> set (ot_sessions s'). os_active x \<and> os_user x = 1))"
proof -
  let ?t = "timer_init (CB_otp_foreign 0)"
  obtain s' t' tr where a: "otp_run timer_create timer_cancel armed [(otp_demo_env 5, Oi_command (Some ''000000''))] otp_demo ?t = (s', t', tr)" by (rule prod_cases3)
  obtain s2 t2 es2 where u: "otp_unload timer_cancel s' t' = (s2, t2, es2)" by (rule prod_cases3)
  from otp_elevated_is_session[OF timer_inv_init _ refl _ a[unfolded otp_demo_def] u refl, of 1, where 'h = unit and 'u = unit] a
  show ?thesis by (auto simp: armed_init)
qed

end
