(* ===== verification/Otp_Guard.thy ===== *)
theory Otp_Guard
  imports Otp_Props
begin

text \<open>
  The two guards of the one-time passwords: a code that was accepted does not work again, and
  the lockout bounds how many codes can be guessed in a stretch of time.
\<close>

subsection \<open>Tables with the first entry of a key\<close>

lemma find_via_idx: "find P xs = map_option ((!) xs) (find_idx P xs)"
  by (induction xs) (auto simp: option.map_comp comp_def)

text \<open>Writing an entry over the first one of its key, or over a free slot before it.\<close>

lemma find_first_update:
  assumes "i < length xs" "key (xs ! i) = key y \<or> key (xs ! i) = z" "\<forall>j < i. key (xs ! j) \<noteq> key y" "k \<noteq> z"
  shows "find (\<lambda>x. key x = k) (xs[i := y]) = (if k = key y then Some y else find (\<lambda>x. key x = k) xs)"
  using assms
proof (induction xs arbitrary: i)
  case (Cons x xs)
  show ?case
  proof (cases i)
    case 0
    with Cons.prems(2,4) show ?thesis by auto
  next
    case (Suc j)
    with Cons.prems have "key x \<noteq> key y" "j < length xs" "key (xs ! j) = key y \<or> key (xs ! j) = z" "\<forall>m < j. key (xs ! m) \<noteq> key y"
      by fastforce+
    with Cons.IH[of j] Cons.prems(4) Suc show ?thesis by auto
  qed
qed simp

subsection \<open>Replay\<close>

text \<open>A counter of the user that is not below this one is recorded.\<close>

definition otp_used :: "int \<Rightarrow> 64 word \<Rightarrow> otp \<Rightarrow> bool" where
  "otp_used uid c s \<longleftrightarrow> (\<exists>d. find (\<lambda>x. fst x = uid) (ot_counters s) = Some (uid, d) \<and> c \<le> d)"

lemma find_fst: "find (\<lambda>x. fst x = uid) xs = Some y \<Longrightarrow> fst y = uid"
  by (induction xs) (auto split: if_splits)

lemma otp_replay_cases:
  assumes "otp_replay v c s = Some s'"
  obtains (at) i where "i < length (ot_counters s)" "fst (ot_counters s ! i) = v \<or> fst (ot_counters s ! i) = 0"
      "\<forall>j < i. fst (ot_counters s ! j) \<noteq> v" "ot_counters s' = (ot_counters s)[i := (v, c)]"
      "\<forall>d. find (\<lambda>x. fst x = v) (ot_counters s) = Some (v, d) \<longrightarrow> \<not> c \<le> d"
    | (full) "\<forall>x \<in> set (ot_counters s). fst x \<noteq> v \<and> fst x \<noteq> 0" "s' = s"
proof (cases "find_idx (\<lambda>x. fst x = v) (ot_counters s)")
  case (Some i)
  note k = find_idx_SomeD[OF Some]
  have "\<not> c \<le> snd (ot_counters s ! i)" using assms Some by (auto simp: otp_replay_def split: if_splits)
  moreover have "find (\<lambda>x. fst x = v) (ot_counters s) = Some (ot_counters s ! i)" by (simp add: find_via_idx Some)
  ultimately have "\<forall>d. find (\<lambda>x. fst x = v) (ot_counters s) = Some (v, d) \<longrightarrow> \<not> c \<le> d" by (metis option.inject snd_conv)
  moreover have "ot_counters s' = (ot_counters s)[i := (v, c)]" using assms Some by (auto simp: otp_replay_def split: if_splits)
  ultimately show thesis using at[of i] k by blast
next
  case n: None
  then have f: "find (\<lambda>x. fst x = v) (ot_counters s) = None" by (simp add: find_via_idx)
  show thesis
  proof (cases "find_idx (\<lambda>x. fst x = 0) (ot_counters s)")
    case (Some i)
    note k = find_idx_SomeD[OF Some]
    have "\<forall>j < i. fst (ot_counters s ! j) \<noteq> v" using n k by (auto simp: find_idx_None)
    moreover have "ot_counters s' = (ot_counters s)[i := (v, c)]" using assms n Some by (auto simp: otp_replay_def)
    ultimately show thesis using at[of i] k f by simp
  next
    case None
    with assms n have "s' = s" by (simp add: otp_replay_def)
    with full n None show thesis by (simp add: find_idx_None)
  qed
qed

lemma otp_replay_find:
  assumes "otp_replay v c s = Some s'" "uid \<noteq> 0"
  shows "v \<noteq> uid \<Longrightarrow> find (\<lambda>x. fst x = uid) (ot_counters s') = find (\<lambda>x. fst x = uid) (ot_counters s)"
    "v = uid \<Longrightarrow> \<exists>x \<in> set (ot_counters s). fst x = uid \<or> fst x = 0 \<Longrightarrow> find (\<lambda>x. fst x = uid) (ot_counters s') = Some (uid, c)"
    "v = uid \<Longrightarrow> find (\<lambda>x. fst x = v) (ot_counters s) = Some (v, d) \<Longrightarrow> \<not> c \<le> d \<and> find (\<lambda>x. fst x = v) (ot_counters s') = Some (v, c)"
proof -
  show "find (\<lambda>x. fst x = uid) (ot_counters s') = find (\<lambda>x. fst x = uid) (ot_counters s)" if "v \<noteq> uid"
    using assms(1)
  proof (cases rule: otp_replay_cases)
    case (at i)
    with find_first_update[of i "ot_counters s" fst "(v, c)" 0 uid] that assms(2) show ?thesis by auto
  qed simp
  show "find (\<lambda>x. fst x = uid) (ot_counters s') = Some (uid, c)" if "v = uid" "\<exists>x \<in> set (ot_counters s). fst x = uid \<or> fst x = 0"
    using assms(1)
  proof (cases rule: otp_replay_cases)
    case (at i)
    with find_first_update[of i "ot_counters s" fst "(v, c)" 0 uid] that assms(2) show ?thesis by simp
  qed (use that in auto)
  show "\<not> c \<le> d \<and> find (\<lambda>x. fst x = v) (ot_counters s') = Some (v, c)" if "v = uid" "find (\<lambda>x. fst x = v) (ot_counters s) = Some (v, d)"
    using assms(1)
  proof (cases rule: otp_replay_cases)
    case (at i)
    with find_first_update[of i "ot_counters s" fst "(v, c)" 0 uid] that assms(2) show ?thesis by simp
  next
    case full
    from that(2) have "\<exists>x \<in> set (ot_counters s). fst x = v" by (auto simp: find_Some_iff)
    with full show ?thesis by blast
  qed
qed

text \<open>The counters after a checked code.\<close>

lemma otp_start_counters: "otp_session_start create cancel env uid s t = (s', t', es) \<Longrightarrow> ot_counters s' = ot_counters s \<and> ot_locks s' = ot_locks s \<and> ot_caller s' = ot_caller s"
  by (auto simp: otp_session_start_def Let_def split: option.splits prod.splits)

lemma otp_check_cases:
  assumes "otp_check create cancel env u uid code s t = (s', t', es)"
  obtains (failed) "totp_verify_at (oe_mem env) (u_totp_secret u) code (of_int (oe_wall env)) (ot_skew s) = None"
      "s' = otp_lock_fail (oe_wall env) uid s" "t' = t" "Ot_announce ''auth failed'' \<in> set es" "Ot_announce ''auth success'' \<notin> set es" "\<forall>v b. Ot_elevate v b \<notin> set es"
    | (replayed) c where "totp_verify_at (oe_mem env) (u_totp_secret u) code (of_int (oe_wall env)) (ot_skew s) = Some c"
      "otp_replay uid c s = None" "s' = s" "t' = t" "otp_quiet es"
    | (accepted) c s1 s2 where "totp_verify_at (oe_mem env) (u_totp_secret u) code (of_int (oe_wall env)) (ot_skew s) = Some c"
      "otp_replay uid c s = Some s1" "s2 = otp_lock_clear uid s1" "ot_counters s' = ot_counters s1" "ot_locks s' = ot_locks s2" "ot_caller s' = ot_caller s"
      "Ot_announce ''auth success'' \<in> set es" "Ot_announce ''auth failed'' \<notin> set es"
proof (cases "totp_verify_at (oe_mem env) (u_totp_secret u) code (of_int (oe_wall env)) (ot_skew s)")
  case None
  then show thesis using assms by (intro failed) (auto simp: otp_check_def)
next
  case v: (Some c)
  show thesis
  proof (cases "otp_replay uid c s")
    case None
    with assms v show thesis by (intro replayed[OF v None]) (auto simp: otp_check_def otp_quiet_def)
  next
    case (Some s1)
    obtain s2 t2 es2 where st: "otp_session_start create cancel env uid (otp_lock_clear uid s1) t = (s2, t2, es2)" by (rule prod_cases3)
    from assms v Some st have e: "s' = s2" "es = es2 @ otp_say env ''Authentication successful. Elevated access granted.'' @ [Ot_tone 800 200, Ot_announce ''auth success'']"
      by (simp_all add: otp_check_def)
    have "Ot_announce ''auth failed'' \<notin> set es2" using st by (auto simp: otp_session_start_def Let_def split: option.splits prod.splits)
    with e otp_start_counters[OF st] otp_replay_keeps[OF Some] show thesis by (intro accepted[OF v Some refl]) simp_all
  qed
qed

lemma otp_check_used:
  assumes "otp_check create cancel env u v code s t = (s', t', es)" "otp_used uid c s" "uid \<noteq> 0"
  shows "otp_used uid c s'"
  using assms(1)
proof (cases rule: otp_check_cases)
  case failed
  with assms(2) show ?thesis by (simp add: otp_used_def)
next
  case (replayed d)
  with assms(2) show ?thesis by simp
next
  case (accepted d s1 s2)
  from assms(2) obtain e where e: "find (\<lambda>x. fst x = uid) (ot_counters s) = Some (uid, e)" "c \<le> e" by (auto simp: otp_used_def)
  show ?thesis
  proof (cases "v = uid")
    case True
    with otp_replay_find(3)[OF accepted(2) assms(3) True, of e] e accepted(4) show ?thesis by (auto simp: otp_used_def)
  next
    case False
    with otp_replay_find(1)[OF accepted(2) assms(3) False] e accepted(4) show ?thesis by (auto simp: otp_used_def)
  qed
qed

lemma otp_step_used:
  assumes "otp_step create cancel timer_of env i s t = (s', t', es)" "otp_used uid c s" "uid \<noteq> 0"
  shows "otp_used uid c s'"
proof (cases i)
  case (Oi_command data)
  with assms(1) have "on_otp_command create cancel env data s t = (s', t', es)" by simp
  then show ?thesis
  proof (cases rule: otp_command_cases)
    case refused
    with assms(2) show ?thesis by simp
  next
    case (checked u code s1)
    from checked(4) otp_lock_check_keeps[of "oe_wall env" "ot_caller s" s] have "ot_counters s1 = ot_counters s" by simp
    with assms(2) have "otp_used uid c s1" by (simp add: otp_used_def)
    from otp_check_used[OF checked(5) this assms(3)] show ?thesis .
  qed
next
  case (Oi_expire h)
  with assms(1) have "ot_counters s' = ot_counters s"
    by (auto simp: otp_expire_def Let_def split: option.splits otp_cb.splits if_splits)
  with assms(2) show ?thesis by (simp add: otp_used_def)
qed (use assms in \<open>auto simp: otp_identified_def otp_configure_def otp_used_def Let_def\<close>)

lemma otp_run_used:
  assumes "otp_run create cancel timer_of is s t = (s', t', tr)" "otp_used uid c s" "uid \<noteq> 0"
  shows "otp_used uid c s'"
  using assms
proof (induction "is" arbitrary: s t s' t' tr)
  case (Cons x "is")
  obtain env i where x: "x = (env, i)" by (cases x)
  obtain s1 t1 es where a: "otp_step create cancel timer_of env i s t = (s1, t1, es)" by (rule prod_cases3)
  obtain s2 t2 tr2 where b: "otp_run create cancel timer_of is s1 t1 = (s2, t2, tr2)" by (rule prod_cases3)
  from Cons.IH[OF b otp_step_used[OF a Cons.prems(2,3)] Cons.prems(3)] Cons.prems(1) x a b show ?case by simp
qed simp

lemma otp_accepted_used:
  assumes "on_otp_command create cancel env data s t = (s', t', es)" "Ot_announce ''auth success'' \<in> set es"
    "\<exists>x \<in> set (ot_counters s). fst x = ot_caller s \<or> fst x = 0"
    "user_lookup_by_id (oe_db env) (ot_caller s) = Some u" "otp_code data = Some code"
    "totp_verify_at (oe_mem env) (u_totp_secret u) code (of_int (oe_wall env)) (ot_skew s) = Some c"
  shows "0 < ot_caller s \<and> otp_used (ot_caller s) c s'"
  using assms(1)
proof (cases rule: otp_command_cases)
  case refused
  with assms(2) show ?thesis by (simp add: otp_quiet_def)
next
  case (checked v code' s1)
  have s1: "ot_counters s1 = ot_counters s" "ot_skew s1 = ot_skew s"
    using checked(4) otp_lock_check_keeps[of "oe_wall env" "ot_caller s" s] by simp_all
  have e: "v = u" "code' = code" using checked(2,3) assms(4,5) by simp_all
  from checked(5) show ?thesis
  proof (cases rule: otp_check_cases)
    case (accepted d s2 s3)
    with e s1 assms(6) have "d = c" by simp
    with otp_replay_find(2)[OF accepted(2), of "ot_caller s"] checked(1) assms(3) accepted(4) s1(1)
    show ?thesis by (simp add: otp_used_def)
  qed (use assms(2) s1 e assms(6) in \<open>auto simp: otp_quiet_def\<close>)
qed

text \<open>
  C28. No replay. Once the code of a user with a place in the table of counters is accepted, no later
  command of the user with that code, or with any code that matches the same or an earlier time
  step, is accepted: whatever other commands, identifications, expiries and reconfigurations come
  between, nobody is elevated by it and no timer is made or cancelled.
\<close>

theorem otp_no_replay:
  assumes "on_otp_command create cancel env1 data1 s t = (s1, t1, es1)" "Ot_announce ''auth success'' \<in> set es1"
    and "\<exists>x \<in> set (ot_counters s). fst x = ot_caller s \<or> fst x = 0"
    and "user_lookup_by_id (oe_db env1) (ot_caller s) = Some u1" "otp_code data1 = Some code1"
    and "totp_verify_at (oe_mem env1) (u_totp_secret u1) code1 (of_int (oe_wall env1)) (ot_skew s) = Some c1"
    and "otp_run create cancel timer_of is s1 t1 = (s2, t2, tr)" "ot_caller s2 = ot_caller s"
    and "user_lookup_by_id (oe_db env2) (ot_caller s) = Some u2" "otp_code data2 = Some code2"
    and "totp_verify_at (oe_mem env2) (u_totp_secret u2) code2 (of_int (oe_wall env2)) (ot_skew s2) = Some c2" "c2 \<le> c1"
    and "on_otp_command create cancel env2 data2 s2 t2 = (s3, t3, es3)"
  shows "(\<forall>u b. Ot_elevate u b \<notin> set es3) \<and> Ot_announce ''auth success'' \<notin> set es3 \<and> t3 = t2 \<and> ot_sessions s3 = ot_sessions s2"
  using assms(13)
proof (cases rule: otp_command_cases)
  case refused
  then show ?thesis by (simp add: otp_quiet_def)
next
  case (checked v code' s4)
  from otp_accepted_used[OF assms(1-6)] have used: "0 < ot_caller s" "otp_used (ot_caller s) c1 s1" by blast+
  from otp_run_used[OF assms(7) used(2)] used(1) have u2: "otp_used (ot_caller s) c1 s2" by simp
  have s4: "ot_counters s4 = ot_counters s2" "ot_skew s4 = ot_skew s2" "ot_sessions s4 = ot_sessions s2"
    using checked(4) otp_lock_check_keeps[of "oe_wall env2" "ot_caller s2" s2] by simp_all
  have e: "v = u2" "code' = code2" using checked(2,3) assms(8,9,10) by simp_all
  from checked(5) show ?thesis
  proof (cases rule: otp_check_cases)
    case (accepted d s5 s6)
    with e s4 assms(11) have "d = c2" by simp
    from u2 s4(1) obtain c where c: "find (\<lambda>x. fst x = ot_caller s) (ot_counters s4) = Some (ot_caller s, c)" "c1 \<le> c" by (auto simp: otp_used_def)
    have "\<not> d \<le> c" using otp_replay_find(3)[OF accepted(2), of "ot_caller s" c] used(1) assms(8) c(1) by simp
    with c(2) assms(12) \<open>d = c2\<close> show ?thesis by simp
  qed (use s4 e assms(11) in \<open>auto simp: otp_quiet_def\<close>)
qed

theorem otp_no_replay_witness:
  "\<exists>s1 t1 es1 s3 t3 es3.
    on_otp_command timer_create timer_cancel (otp_demo_env 5) (Some ''000000'') otp_demo (timer_init (CB_otp_foreign 0)) = (s1, t1, es1) \<and> Ot_elevate 1 True \<in> set es1 \<and>
    on_otp_command timer_create timer_cancel (otp_demo_env 6) (Some ''000000'') s1 t1 = (s3, t3, es3) \<and> (\<forall>u b. Ot_elevate u b \<notin> set es3)"
proof -
  obtain s1 t1 es1 where a: "on_otp_command timer_create timer_cancel (otp_demo_env 5) (Some ''000000'') otp_demo (timer_init (CB_otp_foreign 0)) = (s1, t1, es1)"
    by (rule prod_cases3)
  obtain s3 t3 es3 where b: "on_otp_command timer_create timer_cancel (otp_demo_env 6) (Some ''000000'') s1 t1 = (s3, t3, es3)" by (rule prod_cases3)
  note d = otp_demo_accepts[OF a]
  let ?u = "hd (db_users (oe_db (otp_demo_env 5)))"
  have room: "\<exists>x \<in> set (ot_counters otp_demo). fst x = ot_caller otp_demo \<or> fst x = 0" using otp_demo_fresh(4) by (metis fst_conv)
  have lu: "user_lookup_by_id (oe_db (otp_demo_env n)) (ot_caller otp_demo) = Some ?u" for n
    using otp_demo_lookup(1)[of n] by (simp add: otp_demo_fresh otp_demo_env_def)
  have v: "totp_verify_at (oe_mem (otp_demo_env n)) (u_totp_secret ?u) ''000000'' (of_int (oe_wall (otp_demo_env n))) (ot_skew otp_demo) = Some 1" for n
    using otp_demo_code otp_demo_lookup(2)[of 5] by (simp add: otp_demo_fresh otp_demo_env_def)
  have r: "otp_run timer_create timer_cancel armed [] s1 t1 = (s1, t1, [])" "ot_caller s1 = ot_caller otp_demo" using d(3) by (simp_all add: otp_demo_fresh)
  have v': "totp_verify_at (oe_mem (otp_demo_env 6)) (u_totp_secret ?u) ''000000'' (of_int (oe_wall (otp_demo_env 6))) (ot_skew s1) = Some 1"
    using v[of 6] d(4) by (simp add: otp_demo_fresh)
  from otp_no_replay[OF a d(2) room lu otp_demo_data v r lu otp_demo_data v' order.refl b] a b d(1) show ?thesis by blast
qed

subsection \<open>Lockout\<close>

text \<open>The failures of a user and the time of the last one.\<close>

definition otp_lock :: "int \<Rightarrow> otp \<Rightarrow> (nat \<times> int) option" where
  "otp_lock uid s = map_option (\<lambda>l. (ol_failures l, ol_last l)) (find (\<lambda>l. ol_user l = uid) (ot_locks s))"

text \<open>Free slots are behind the used ones, with no failures.\<close>

fun locks_wf :: "otp_lockout list \<Rightarrow> bool" where
  "locks_wf [] = True"
| "locks_wf (l # ls) = (if ol_user l = 0 then list_all (\<lambda>l. ol_user l = 0 \<and> ol_failures l = 0) (l # ls) else locks_wf ls)"

lemma locks_wf_free: "list_all (\<lambda>l. ol_user l = 0 \<and> ol_failures l = 0) ls \<Longrightarrow> locks_wf ls"
  by (cases ls) auto

lemma locks_wf_update:
  assumes "locks_wf ls" "find_idx (\<lambda>l. ol_user l = uid \<or> ol_user l = 0) ls = Some i" "uid \<noteq> 0" "ol_user y \<noteq> 0"
  shows "locks_wf (ls[i := y]) \<and> ol_failures (ls ! i) = (case find (\<lambda>l. ol_user l = uid) ls of None \<Rightarrow> 0 | Some l \<Rightarrow> ol_failures l)"
  using assms
proof (induction ls arbitrary: i)
  case (Cons l ls)
  show ?case
  proof (cases "ol_user l = uid \<or> ol_user l = 0")
    case True
    with Cons.prems(2) have i: "i = 0" by simp
    have "find (\<lambda>l. ol_user l = uid) ls = None" if "ol_user l = 0"
      using Cons.prems(1,3) that by (auto simp: find_None_iff list_all_iff)
    with True i Cons.prems locks_wf_free[of ls] show ?thesis by (auto split: if_splits)
  next
    case False
    with Cons.prems(2) obtain k where k: "find_idx (\<lambda>l. ol_user l = uid \<or> ol_user l = 0) ls = Some k" "i = Suc k" by auto
    with Cons.IH[OF _ k(1)] Cons.prems(1,3,4) False show ?thesis by simp
  qed
qed simp

lemma locks_wf_set:
  assumes "locks_wf ls" "i < length ls" "ol_user y = ol_user (ls ! i)" "ol_user y \<noteq> 0"
  shows "locks_wf (ls[i := y])"
  using assms by (induction ls arbitrary: i) (auto simp: nth_Cons list_all_iff split: nat.splits if_splits dest!: nth_mem)

text \<open>A place for the user in the table.\<close>

definition otp_room :: "int \<Rightarrow> otp \<Rightarrow> bool" where
  "otp_room uid s \<longleftrightarrow> (\<exists>l \<in> set (ot_locks s). ol_user l = uid \<or> ol_user l = 0)"

lemma otp_lock_at: "find_idx (\<lambda>l. ol_user l = uid) (ot_locks s) = Some i \<Longrightarrow> otp_lock uid s = Some (ol_failures (ot_locks s ! i), ol_last (ot_locks s ! i))"
  by (simp add: otp_lock_def find_via_idx)

text \<open>What writing a slot does to the lock of a user.\<close>

lemma otp_lock_write:
  assumes "i < length (ot_locks s)" "ol_user (ot_locks s ! i) = ol_user y \<or> ol_user (ot_locks s ! i) = 0" "\<forall>j < i. ol_user (ot_locks s ! j) \<noteq> ol_user y" "uid \<noteq> 0"
  shows "otp_lock uid (s\<lparr>ot_locks := (ot_locks s)[i := y]\<rparr>) = (if uid = ol_user y then Some (ol_failures y, ol_last y) else otp_lock uid s)"
  using find_first_update[of i "ot_locks s" ol_user y 0 uid] assms by (simp add: otp_lock_def)

lemma otp_lock_after_check:
  assumes "otp_lock_check now v s = (locked, s')" "uid \<noteq> 0" "v \<noteq> 0" "locks_wf (ot_locks s)"
  shows "locks_wf (ot_locks s') \<and> (otp_room uid s' \<longrightarrow> otp_room uid s) \<and>
    otp_lock uid s' = (case otp_lock uid s of None \<Rightarrow> None | Some (f, l) \<Rightarrow> Some (if \<not> locked \<and> v = uid \<and> now - l \<ge> OTP_LOCKOUT_S then 0 else f, l)) \<and>
    (v = uid \<longrightarrow> \<not> locked \<longrightarrow> (\<forall>f l. otp_lock uid s = Some (f, l) \<longrightarrow> f < OTP_MAX_FAILURES \<or> now - l \<ge> OTP_LOCKOUT_S))"
proof (cases "find_idx (\<lambda>l. ol_user l = v) (ot_locks s)")
  case None
  with assms show ?thesis by (auto simp: otp_lock_check_def otp_lock_def find_via_idx split: option.splits)
next
  case (Some i)
  note k = find_idx_SomeD[OF Some]
  let ?y = "(ot_locks s ! i)\<lparr>ol_failures := 0\<rparr>" let ?s = "s\<lparr>ot_locks := (ot_locks s)[i := ?y]\<rparr>"
  have w: "otp_lock uid ?s = (if uid = v then Some (0, ol_last (ot_locks s ! i)) else otp_lock uid s)"
    using otp_lock_write[of i s ?y uid] k assms(2) by simp
  have wf: "locks_wf (ot_locks ?s)" using locks_wf_set[of "ot_locks s" i ?y] k assms(3,4) by simp
  have room: "otp_room uid ?s \<Longrightarrow> otp_room uid s"
    using k assms(3) by (auto simp: otp_room_def dest!: set_update_subset_insert[THEN subsetD])
  show ?thesis using assms(1,4) Some w wf room k otp_lock_at[OF Some]
    by (auto simp: otp_lock_check_def Let_def split: if_splits option.splits)
qed

lemma otp_lock_after_clear:
  assumes "uid \<noteq> 0" "v \<noteq> 0" "locks_wf (ot_locks s)"
  shows "locks_wf (ot_locks (otp_lock_clear v s)) \<and> (otp_room uid (otp_lock_clear v s) \<longrightarrow> otp_room uid s) \<and>
    otp_lock uid (otp_lock_clear v s) = (if uid = v then map_option (\<lambda>(f, l). (0, l)) (otp_lock uid s) else otp_lock uid s)"
proof (cases "find_idx (\<lambda>l. ol_user l = v) (ot_locks s)")
  case None
  with assms show ?thesis by (auto simp: otp_lock_clear_def otp_lock_def find_via_idx)
next
  case (Some i)
  note k = find_idx_SomeD[OF Some]
  let ?y = "(ot_locks s ! i)\<lparr>ol_failures := 0\<rparr>" let ?s = "s\<lparr>ot_locks := (ot_locks s)[i := ?y]\<rparr>"
  have w: "otp_lock uid ?s = (if uid = v then Some (0, ol_last (ot_locks s ! i)) else otp_lock uid s)"
    using otp_lock_write[of i s ?y uid] k assms(1) by simp
  have wf: "locks_wf (ot_locks ?s)" using locks_wf_set[of "ot_locks s" i ?y] k assms(2,3) by simp
  have room: "otp_room uid ?s \<Longrightarrow> otp_room uid s"
    using k assms(2) by (auto simp: otp_room_def dest!: set_update_subset_insert[THEN subsetD])
  show ?thesis using Some w wf room k otp_lock_at[OF Some] by (auto simp: otp_lock_clear_def)
qed

lemma otp_lock_after_fail:
  assumes "uid \<noteq> 0" "v \<noteq> 0" "locks_wf (ot_locks s)"
  shows "locks_wf (ot_locks (otp_lock_fail now v s)) \<and> (otp_room uid (otp_lock_fail now v s) \<longrightarrow> otp_room uid s) \<and>
    (otp_room v s \<longrightarrow> otp_lock uid (otp_lock_fail now v s) =
       (if uid = v then Some (case otp_lock uid s of None \<Rightarrow> 1 | Some (f, l) \<Rightarrow> f + 1, now) else otp_lock uid s)) \<and>
    (\<not> otp_room v s \<longrightarrow> otp_lock_fail now v s = s)"
proof (cases "find_idx (\<lambda>l. ol_user l = v \<or> ol_user l = 0) (ot_locks s)")
  case None
  then have "otp_lock_fail now v s = s" by (simp add: otp_lock_fail_def)
  moreover have "\<not> otp_room v s" using None by (auto simp: otp_room_def find_idx_None)
  ultimately show ?thesis using assms by simp
next
  case (Some i)
  note k = find_idx_SomeD[OF Some]
  let ?y = "\<lparr>ol_user = v, ol_failures = ol_failures (ot_locks s ! i) + 1, ol_last = now\<rparr>" let ?s = "s\<lparr>ot_locks := (ot_locks s)[i := ?y]\<rparr>"
  have w: "otp_lock uid ?s = (if uid = v then Some (ol_failures (ot_locks s ! i) + 1, now) else otp_lock uid s)"
    using otp_lock_write[of i s ?y uid] k assms(1) by simp
  have wf: "locks_wf (ot_locks ?s)" "ol_failures (ot_locks s ! i) = (case otp_lock v s of None \<Rightarrow> 0 | Some (f, l) \<Rightarrow> f)"
    using locks_wf_update[OF assms(3) Some assms(2), of ?y] assms(2) by (auto simp: otp_lock_def split: option.splits)
  have room: "otp_room uid ?s \<Longrightarrow> otp_room uid s" "otp_room v s"
    using k assms(2) nth_mem[of i "ot_locks s"] by (auto simp: otp_room_def dest!: set_update_subset_insert[THEN subsetD])
  show ?thesis using Some w wf room by (auto simp: otp_lock_fail_def split: option.splits)
qed

definition otp_failed :: "int \<Rightarrow> int \<times> int \<times> otp_effect list \<Rightarrow> bool" where
  "otp_failed uid x \<longleftrightarrow> fst x = uid \<and> Ot_announce ''auth failed'' \<in> set (snd (snd x))"

lemma otp_lock_check_room: "otp_lock_check now v s = (b, s') \<Longrightarrow> otp_room uid s' = otp_room uid s"
proof (cases "find_idx (\<lambda>l. ol_user l = v) (ot_locks s)")
  case (Some i)
  assume a: "otp_lock_check now v s = (b, s')"
  have m: "map ol_user ((ot_locks s)[i := (ot_locks s ! i)\<lparr>ol_failures := 0\<rparr>]) = map ol_user (ot_locks s)" using find_idx_less[OF Some] list_update_id[of "map ol_user (ot_locks s)" i] by (simp add: map_update)
  have "map ol_user (ot_locks s') = map ol_user (ot_locks s)"
    using a Some m by (auto simp: otp_lock_check_def Let_def split: if_splits)
  then have "ol_user ` set (ot_locks s') = ol_user ` set (ot_locks s)" by (metis set_map)
  then have "(uid \<in> ol_user ` set (ot_locks s') \<or> 0 \<in> ol_user ` set (ot_locks s')) = (uid \<in> ol_user ` set (ot_locks s) \<or> 0 \<in> ol_user ` set (ot_locks s))" by simp
  then show ?thesis by (auto simp: otp_room_def)
qed (auto simp: otp_lock_check_def)

text \<open>How the lock of a user moves at the time of a step.\<close>

inductive lock_move :: "int \<Rightarrow> (nat \<times> int) option \<Rightarrow> bool \<Rightarrow> (nat \<times> int) option \<Rightarrow> bool" for now where
  keep: "lock_move now k False k"
| over: "now - l \<ge> OTP_LOCKOUT_S \<Longrightarrow> lock_move now (Some (f, l)) False (Some (0, l))"
| first: "lock_move now None True (Some (1, now))"
| again: "f < OTP_MAX_FAILURES \<Longrightarrow> lock_move now (Some (f, l)) True (Some (f + 1, now))"
| anew: "now - l \<ge> OTP_LOCKOUT_S \<Longrightarrow> lock_move now (Some (f, l)) True (Some (1, now))"

lemma otp_check_locks:
  assumes "otp_check create cancel env u v code s t = (s', t', es)" "uid \<noteq> 0" "v \<noteq> 0" "locks_wf (ot_locks s)"
  shows "locks_wf (ot_locks s') \<and> (otp_room uid s' \<longrightarrow> otp_room uid s) \<and>
    (v \<noteq> uid \<longrightarrow> otp_lock uid s' = otp_lock uid s) \<and>
    (v = uid \<longrightarrow> otp_lock uid s' =
      (if Ot_announce ''auth failed'' \<in> set es
       then (if otp_room uid s then Some (case otp_lock uid s of None \<Rightarrow> 1 | Some (f, l) \<Rightarrow> f + 1, oe_wall env) else otp_lock uid s)
       else if Ot_announce ''auth success'' \<in> set es then map_option (\<lambda>(f, l). (0, l)) (otp_lock uid s) else otp_lock uid s)) \<and>
    \<not> (Ot_announce ''auth failed'' \<in> set es \<and> Ot_announce ''auth success'' \<in> set es)"
  using assms(1)
proof (cases rule: otp_check_cases)
  case failed
  with otp_lock_after_fail[OF assms(2-4), of "oe_wall env"] show ?thesis by (cases "otp_room v s"; cases "v = uid") simp_all
next
  case (replayed c)
  with assms(4) show ?thesis by (simp add: otp_quiet_def)
next
  case (accepted c s1 s2)
  have s1: "ot_locks s1 = ot_locks s" using otp_replay_keeps[OF accepted(2)] by simp
  then have k: "otp_lock uid s1 = otp_lock uid s" "otp_room uid s1 = otp_room uid s" "otp_lock uid s' = otp_lock uid s2" "otp_room uid s' = otp_room uid s2"
    using accepted(5) by (simp_all add: otp_lock_def otp_room_def)
  from otp_lock_after_clear[OF assms(2,3), of s1] s1 assms(4) accepted k show ?thesis by simp
qed

lemma otp_room_lock: "otp_lock uid s \<noteq> None \<Longrightarrow> otp_room uid s"
  by (auto simp: otp_lock_def otp_room_def find_Some_iff)

text \<open>A step keeps the table in order; a user's lock moves as above unless a code of the user is accepted.\<close>

lemma otp_step_locks:
  assumes "otp_step create cancel timer_of env i s t = (s', t', es)" "0 < uid" "locks_wf (ot_locks s)"
  shows "locks_wf (ot_locks s') \<and> (otp_room uid s' \<longrightarrow> otp_room uid s) \<and>
    (otp_room uid s \<longrightarrow> (ot_caller s = uid \<longrightarrow> Ot_announce ''auth success'' \<notin> set es) \<longrightarrow>
      lock_move (oe_wall env) (otp_lock uid s) (otp_failed uid (ot_caller s, oe_wall env, es)) (otp_lock uid s')) \<and>
    (ot_caller s = uid \<longrightarrow> Ot_announce ''auth success'' \<in> set es \<longrightarrow> otp_lock uid s' = map_option (\<lambda>(f, l). (0, l)) (otp_lock uid s))"
proof (cases "\<exists>data. i = Oi_command data")
  case True
  then obtain data where "on_otp_command create cancel env data s t = (s', t', es)" using assms(1) by auto
  then show ?thesis
  proof (cases rule: otp_command_cases)
    case refused
    with assms(3) lock_move.keep show ?thesis by (simp add: otp_quiet_def otp_failed_def)
  next
    case (checked u code s1)
    let ?v = "ot_caller s"
    have z: "uid \<noteq> 0" "?v \<noteq> 0" using assms(2) checked(1) by simp_all
    note c = otp_lock_after_check[OF checked(4) z assms(3)]
    note d = otp_check_locks[OF checked(5) z c[THEN conjunct1]]
    have room: "otp_room uid s1 = otp_room uid s" using otp_lock_check_room[OF checked(4), of uid] .
    show ?thesis
    proof (cases "?v = uid")
      case False
      with c d room lock_move.keep[of "oe_wall env" "otp_lock uid s"] show ?thesis
        by (auto simp: otp_failed_def split: option.splits)
    next
      case True
      show ?thesis
      proof (cases "otp_lock uid s")
        case None
        with True c d room lock_move.keep[of "oe_wall env" None] lock_move.first[of "oe_wall env"] show ?thesis
          by (auto simp: otp_failed_def)
      next
        case (Some k)
        obtain f l where k: "k = (f, l)" by (cases k)
        have "otp_room uid s" using Some otp_room_lock by blast
        with True Some k c d room lock_move.keep[of "oe_wall env" "Some (f, l)"] lock_move.over[of "oe_wall env" l f]
          lock_move.again[of f "oe_wall env" l] lock_move.anew[of "oe_wall env" l f] show ?thesis
          by (auto simp: otp_failed_def split: if_splits)
      qed
    qed
  qed
next
  case False
  with assms(1) have "ot_locks s' = ot_locks s \<and> Ot_announce ''auth failed'' \<notin> set es \<and> Ot_announce ''auth success'' \<notin> set es"
    by (cases i) (auto simp: otp_identified_def otp_configure_def otp_expire_def Let_def split: option.splits otp_cb.splits if_splits)
  with assms(3) lock_move.keep[of "oe_wall env" "otp_lock uid s"] show ?thesis by (simp add: otp_failed_def otp_lock_def otp_room_def)
qed

lemma otp_run_locks_wf:
  assumes "otp_run create cancel timer_of is s t = (s', t', tr)" "0 < uid" "locks_wf (ot_locks s)"
  shows "locks_wf (ot_locks s') \<and> (otp_room uid s' \<longrightarrow> otp_room uid s)"
  using assms
proof (induction "is" arbitrary: s t s' t' tr)
  case (Cons x "is")
  obtain env i where x: "x = (env, i)" by (cases x)
  obtain s1 t1 es where a: "otp_step create cancel timer_of env i s t = (s1, t1, es)" by (rule prod_cases3)
  obtain s2 t2 tr2 where b: "otp_run create cancel timer_of is s1 t1 = (s2, t2, tr2)" by (rule prod_cases3)
  note k = otp_step_locks[OF a Cons.prems(2,3)]
  from Cons.IH[OF b Cons.prems(2)] k Cons.prems(1) x a b show ?case by auto
qed simp

text \<open>Within a run a lock has at most five failures, the last of them not after the latest clock.\<close>

lemma otp_run_lock_bounded:
  assumes "otp_run create cancel timer_of is s t = (s', t', tr)" "0 < uid" "locks_wf (ot_locks s)" "\<forall>x \<in> set is. oe_wall (fst x) \<le> a"
    and "\<And>f l. otp_lock uid s = Some (f, l) \<Longrightarrow> f \<le> OTP_MAX_FAILURES \<and> l \<le> a" and "otp_room uid s'"
  shows "\<And>f l. otp_lock uid s' = Some (f, l) \<Longrightarrow> f \<le> OTP_MAX_FAILURES \<and> l \<le> a"
  using assms
proof (induction "is" arbitrary: s t s' t' tr)
  case (Cons x "is")
  obtain env i where x: "x = (env, i)" by (cases x)
  obtain s1 t1 es where a: "otp_step create cancel timer_of env i s t = (s1, t1, es)" by (rule prod_cases3)
  obtain s2 t2 tr2 where b: "otp_run create cancel timer_of is s1 t1 = (s2, t2, tr2)" by (rule prod_cases3)
  note k = otp_step_locks[OF a Cons.prems(3,4)]
  have s': "s' = s2" "t' = t2" using Cons.prems(2) x a b by auto
  have room: "otp_room uid s1" "otp_room uid s" using otp_run_locks_wf[OF b Cons.prems(3)] k Cons.prems(7) s' by blast+
  have w: "oe_wall env \<le> a" using Cons.prems(5) x by simp
  have 1: "f \<le> OTP_MAX_FAILURES \<and> l \<le> a" if "otp_lock uid s1 = Some (f, l)" for f l
  proof (cases "ot_caller s = uid \<and> Ot_announce ''auth success'' \<in> set es")
    case True
    with k have "otp_lock uid s1 = map_option (\<lambda>(f, l). (0, l)) (otp_lock uid s)" by blast
    with that Cons.prems(6) show ?thesis by (cases "otp_lock uid s") auto
  next
    case False
    with k room(2) have "lock_move (oe_wall env) (otp_lock uid s) (otp_failed uid (ot_caller s, oe_wall env, es)) (Some (f, l))" using that by auto
    then show ?thesis using Cons.prems(6) w by (cases rule: lock_move.cases) (auto simp: eq_commute[of "Some (f, l)"])
  qed
  from Cons.IH[OF Cons.prems(1)[unfolded s'] b] Cons.prems k 1 s' show ?case by auto
qed simp

text \<open>
  The failures that are left at a time \<open>w\<close> up to \<open>b\<close>: \<open>m\<close> is the last failure, or a time that is
  already out of the lockout.
\<close>

definition guesses_left :: "int \<Rightarrow> int \<Rightarrow> int \<Rightarrow> nat \<Rightarrow> int" where
  "guesses_left b w m f = (if w - m \<ge> OTP_LOCKOUT_S then 0 else 5 - int f) + 5 * ((b - m) div OTP_LOCKOUT_S)"

definition lock_seen :: "int \<Rightarrow> int \<Rightarrow> (nat \<times> int) option \<Rightarrow> bool" where
  "lock_seen w m k \<longleftrightarrow> (case k of None \<Rightarrow> w - m \<ge> OTP_LOCKOUT_S
     | Some (f, l) \<Rightarrow> f \<le> OTP_MAX_FAILURES \<and> l \<le> m \<and> m \<le> w \<and> (m = l \<or> w - m \<ge> OTP_LOCKOUT_S))"

abbreviation lock_count :: "(nat \<times> int) option \<Rightarrow> nat" where
  "lock_count k \<equiv> (case k of None \<Rightarrow> 0 | Some (f, l) \<Rightarrow> f)"

lemma div_shift: "(b - m) div OTP_LOCKOUT_S \<ge> (b - w) div OTP_LOCKOUT_S + 1" if "w - m \<ge> OTP_LOCKOUT_S"
proof -
  have "(b - w) div OTP_LOCKOUT_S + 1 = (b - w + OTP_LOCKOUT_S) div OTP_LOCKOUT_S" by simp
  also have "\<dots> \<le> (b - m) div OTP_LOCKOUT_S" using that by (intro zdiv_mono1) simp_all
  finally show ?thesis .
qed

lemma guess_step:
  assumes "lock_seen w m k" "w \<le> w'" "lock_move w' k failed k'"
  shows "\<exists>m'. lock_seen w' m' k' \<and> guesses_left b w' m' (lock_count k') + (if failed then 1 else 0) \<le> guesses_left b w m (lock_count k)"
  using assms(3)
proof cases
  case keep
  with assms(1,2) show ?thesis by (intro exI[of _ m]) (auto simp: lock_seen_def guesses_left_def split: option.splits)
next
  case (over l f)
  with assms(1,2) show ?thesis by (intro exI[of _ m]) (auto simp: lock_seen_def guesses_left_def)
next
  case first
  with assms(1,2) div_shift[of w' m b] show ?thesis by (intro exI[of _ w']) (auto simp: lock_seen_def guesses_left_def)
next
  case (again f l)
  have le: "(b - w') div OTP_LOCKOUT_S \<le> (b - m) div OTP_LOCKOUT_S" using assms(1,2) again by (intro zdiv_mono1) (auto simp: lock_seen_def)
  show ?thesis
  proof (cases "w - m \<ge> OTP_LOCKOUT_S")
    case True
    with div_shift[of w' m b] assms(2) again show ?thesis by (intro exI[of _ w']) (auto simp: lock_seen_def guesses_left_def)
  next
    case False
    with le assms(1,2) again show ?thesis by (intro exI[of _ w']) (auto simp: lock_seen_def guesses_left_def)
  qed
next
  case (anew l f)
  with assms(1,2) have "w' - m \<ge> OTP_LOCKOUT_S" by (auto simp: lock_seen_def)
  with div_shift[of w' m b] assms(1,2) anew show ?thesis by (intro exI[of _ w']) (auto simp: lock_seen_def guesses_left_def)
qed

lemma guesses_bounded:
  assumes "otp_run create cancel timer_of is s t = (s', t', tr)" "0 < uid" "locks_wf (ot_locks s)" "otp_room uid s'"
    and "\<forall>x \<in> set tr. fst x = uid \<longrightarrow> Ot_announce ''auth success'' \<notin> set (snd (snd x))"
    and "sorted (map (\<lambda>x. oe_wall (fst x)) is)" "\<forall>x \<in> set is. w \<le> oe_wall (fst x) \<and> oe_wall (fst x) \<le> b" "w \<le> b" "lock_seen w m (otp_lock uid s)"
  shows "int (length (filter (otp_failed uid) tr)) \<le> guesses_left b w m (lock_count (otp_lock uid s))"
  using assms
proof (induction "is" arbitrary: s t s' t' tr w m)
  case Nil
  then have "0 \<le> (b - m) div OTP_LOCKOUT_S \<or> w < m" by (auto simp: pos_imp_zdiv_nonneg_iff)
  with Nil show ?case by (auto simp: guesses_left_def lock_seen_def split: option.splits)
next
  case (Cons x "is")
  obtain env i where x: "x = (env, i)" by (cases x)
  obtain s1 t1 es where a: "otp_step create cancel timer_of env i s t = (s1, t1, es)" by (rule prod_cases3)
  obtain s2 t2 tr2 where b: "otp_run create cancel timer_of is s1 t1 = (s2, t2, tr2)" by (rule prod_cases3)
  note k = otp_step_locks[OF a Cons.prems(2,3)]
  have e: "s' = s2" "t' = t2" "tr = (ot_caller s, oe_wall env, es) # tr2" using Cons.prems(1) x a b by auto
  have room: "otp_room uid s" using otp_run_locks_wf[OF b Cons.prems(2)] k Cons.prems(4) e by blast
  let ?e = "(ot_caller s, oe_wall env, es)"
  have "lock_move (oe_wall env) (otp_lock uid s) (otp_failed uid ?e) (otp_lock uid s1)"
    using k room Cons.prems(5) e(3) by auto
  from guess_step[OF Cons.prems(9) _ this, of b] Cons.prems(7) x obtain m' where
    m: "lock_seen (oe_wall env) m' (otp_lock uid s1)"
      "guesses_left b (oe_wall env) m' (lock_count (otp_lock uid s1)) + (if otp_failed uid ?e then 1 else 0) \<le> guesses_left b w m (lock_count (otp_lock uid s))"
    by auto
  have "int (length (filter (otp_failed uid) tr2)) \<le> guesses_left b (oe_wall env) m' (lock_count (otp_lock uid s1))"
    using Cons.IH[OF b Cons.prems(2) _ _ _ _ _ _ m(1)] k Cons.prems e x by auto
  with m(2) e(3) show ?case by (auto split: if_splits)
qed

lemma otp_load_locks: "locks_wf (ot_locks (otp_load s))" "0 < uid \<Longrightarrow> otp_lock uid (otp_load s) = None"
  by (simp_all add: otp_load_def otp_lock_def find_None_iff locks_wf_free list_all_iff)

text \<open>
  C29. Guessing is slowed down. From the load of the module, after anything at all, let the clock go
  forward from a to b seconds without a code of the user being accepted, and let the table of
  failures hold the user or a free slot at the end. Then, however many commands with whatever codes come in,
  at most five wrong codes of the user are tried per 300 seconds, and ten more: the others meet
  the lockout.
\<close>

theorem otp_guess_bound:
  assumes "0 < uid" "otp_run create cancel timer_of before (otp_load s) t = (s1, t1, tr1)" "\<forall>x \<in> set before. oe_wall (fst x) \<le> a"
    and "otp_run create cancel timer_of during s1 t1 = (s2, t2, tr2)"
    and "sorted (map (\<lambda>x. oe_wall (fst x)) during)" "\<forall>x \<in> set during. a \<le> oe_wall (fst x) \<and> oe_wall (fst x) \<le> b" "a \<le> b"
    and "\<forall>x \<in> set tr2. fst x = uid \<longrightarrow> Ot_announce ''auth success'' \<notin> set (snd (snd x))"
    and "\<exists>l \<in> set (ot_locks s2). ol_user l = uid \<or> ol_user l = 0"
  shows "int (length (filter (\<lambda>x. fst x = uid \<and> Ot_announce ''auth failed'' \<in> set (snd (snd x))) tr2)) \<le> 5 * (2 + (b - a) div OTP_LOCKOUT_S)"
proof -
  note w1 = otp_run_locks_wf[OF assms(2,1) otp_load_locks(1)]
  have room: "otp_room uid s2" using assms(9) by (simp add: otp_room_def)
  have room1: "otp_room uid s1" using otp_run_locks_wf[OF assms(4,1)] w1 room by blast
  have lk: "f \<le> OTP_MAX_FAILURES \<and> l \<le> a" if "otp_lock uid s1 = Some (f, l)" for f l
    using otp_run_lock_bounded[OF assms(2,1) otp_load_locks(1) assms(3) _ room1 that] otp_load_locks(2)[OF assms(1)] by simp
  define m where "m = (case otp_lock uid s1 of Some (f, l) \<Rightarrow> (if a - l \<ge> OTP_LOCKOUT_S then a - OTP_LOCKOUT_S else l) | None \<Rightarrow> a - OTP_LOCKOUT_S)"
  have seen: "lock_seen a m (otp_lock uid s1)" using lk by (auto simp: lock_seen_def m_def split: option.splits)
  have m: "m \<ge> a - OTP_LOCKOUT_S" by (simp add: m_def split: option.splits)
  have "(b - m) div OTP_LOCKOUT_S \<le> (b - a + OTP_LOCKOUT_S) div OTP_LOCKOUT_S" using m by (intro zdiv_mono1) simp_all
  also have "\<dots> = (b - a) div OTP_LOCKOUT_S + 1" by simp
  finally have "guesses_left b a m (lock_count (otp_lock uid s1)) \<le> 5 * (2 + (b - a) div OTP_LOCKOUT_S)"
    unfolding guesses_left_def by (simp split: if_split)
  with guesses_bounded[OF assms(4,1) conjunct1[OF w1] room assms(8,5,6,7) seen] show ?thesis
    by (simp add: otp_failed_def[abs_def])
qed

theorem otp_guess_bound_witness:
  "length (filter (\<lambda>x. fst x = 1 \<and> Ot_announce ''auth failed'' \<in> set (snd (snd x)))
     (snd (snd (otp_run timer_create timer_cancel armed [(otp_demo_env 5, Oi_identified 1)] (otp_load otp_demo) (timer_init (CB_otp_foreign 0)))))) \<le> 10"
proof -
  let ?t = "timer_init (CB_otp_foreign 0)"
  obtain s2 t2 tr where a: "otp_run timer_create timer_cancel armed [(otp_demo_env 5, Oi_identified 1)] (otp_load otp_demo) ?t = (s2, t2, tr)" by (rule prod_cases3)
  then have e: "tr = [(1, 60, [])]" "ot_locks s2 = ot_locks (otp_load otp_demo)"
    by (auto simp: otp_identified_def otp_demo_fresh otp_load_def otp_demo_env_def)
  have b: "otp_run timer_create timer_cancel armed [] (otp_load otp_demo) ?t = (otp_load otp_demo, ?t, [])" by simp
  have room: "\<exists>l \<in> set (ot_locks s2). ol_user l = 1 \<or> ol_user l = 0" by (simp add: e(2) otp_load_def)
  have w: "\<forall>x \<in> set [(otp_demo_env 5, Oi_identified 1)]. 60 \<le> oe_wall (fst x) \<and> oe_wall (fst x) \<le> 60" by (simp add: otp_demo_env_def)
  from otp_guess_bound[OF _ b _ a _ w _ _ room] e(1) a show ?thesis by simp
qed

end
