(* ===== verification/Sha1_Standard.thy ===== *)
theory Sha1_Standard
  imports Totp
begin

text \<open>
  The hash of \<open>modules/mod_otp.c\<close> against SHA-1 of FIPS 180-4. The standard is written down by itself here, with
  the rotation of the library and with words and octet strings as numbers in base 256; nothing of it refers to the
  definitions of the module. The published example of the standard is evaluated on the module's definitions.
\<close>

subsection \<open>The hash of the standard\<close>

text \<open>An octet string as a number, the first octet being the most significant, and back.\<close>

definition fips_number :: "byte list \<Rightarrow> nat" where
  "fips_number bs = foldl (\<lambda>n b. 256 * n + unat b) 0 bs"

definition fips_octets :: "nat \<Rightarrow> nat \<Rightarrow> byte list" where
  "fips_octets k n = map (\<lambda>i. of_nat (n div 256 ^ (k - 1 - i))) [0..<k]"

text \<open>The functions and constants (4.1.1 and 4.2.1), and the initial hash value (5.3.1).\<close>

definition fips_f :: "nat \<Rightarrow> word32 \<Rightarrow> word32 \<Rightarrow> word32 \<Rightarrow> word32" where
  "fips_f t x y z =
     (if t \<le> 19 then (x AND y) XOR (NOT x AND z)
      else if t \<le> 39 then x XOR y XOR z
      else if t \<le> 59 then (x AND y) XOR (x AND z) XOR (y AND z)
      else x XOR y XOR z)"

definition fips_k :: "nat \<Rightarrow> word32" where
  "fips_k t = (if t \<le> 19 then 0x5A827999 else if t \<le> 39 then 0x6ED9EBA1 else if t \<le> 59 then 0x8F1BBCDC else 0xCA62C1D6)"

definition fips_h0 :: "word32 list" where
  "fips_h0 = [0x67452301, 0xEFCDAB89, 0x98BADCFE, 0x10325476, 0xC3D2E1F0]"

text \<open>The padding (5.1.1) and the blocks (5.2.1).\<close>

definition fips_pad :: "byte list \<Rightarrow> byte list" where
  "fips_pad m = m @ [0x80] @ replicate ((119 - length m mod 64) mod 64) 0 @ fips_octets 8 (8 * length m)"

definition blocks64 :: "byte list \<Rightarrow> byte list list" where
  "blocks64 xs = map (\<lambda>i. take 64 (drop (64 * i) xs)) [0..<length xs div 64]"

text \<open>The message schedule and the 80 steps on a block (6.1.2), and the digest.\<close>

function fips_w :: "byte list \<Rightarrow> nat \<Rightarrow> word32" where
  "fips_w block t =
     (if t \<le> 15 then of_nat (fips_number (map (\<lambda>j. block ! (4 * t + j)) [0..<4]))
      else word_rotl 1 (fips_w block (t - 3) XOR fips_w block (t - 8) XOR fips_w block (t - 14) XOR fips_w block (t - 16)))"
  by auto
termination by (relation "measure snd") auto

declare fips_w.simps [simp del]

fun fips_round :: "byte list \<Rightarrow> word32 list \<Rightarrow> nat \<Rightarrow> word32 list" where
  "fips_round block [a, b, c, d, e] t =
     [word_rotl 5 a + fips_f t b c d + e + fips_k t + fips_w block t, a, word_rotl 30 b, c, d]"
| "fips_round block h t = h"

definition fips_block :: "word32 list \<Rightarrow> byte list \<Rightarrow> word32 list" where
  "fips_block h block = map2 (+) (foldl (fips_round block) h [0..<80]) h"

definition fips_sha1 :: "byte list \<Rightarrow> byte list" where
  "fips_sha1 m = concat (map (\<lambda>h. fips_octets 4 (unat h)) (foldl fips_block fips_h0 (blocks64 (fips_pad m))))"

subsection \<open>The words and octets of the module\<close>

text \<open>The choice and the majority with \<open>OR\<close> instead of exclusive or.\<close>

lemma fk_fips: "sha1_fk t b c d = (fips_f t b c d, fips_k t)"
proof -
  have "(b AND c) OR (NOT b AND d) = (b AND c) XOR (NOT b AND d)" by (rule bit_word_eqI) (auto simp: bit_simps)
  moreover have "((b AND c) OR (b AND d)) OR (c AND d) = (b AND c) XOR (b AND d) XOR (c AND d)"
    by (rule bit_word_eqI) (auto simp: bit_simps)
  ultimately show ?thesis by (simp add: sha1_fk_def fips_f_def fips_k_def)
qed

lemma rotl_fips:
  assumes "0 < n" "n < 32"
  shows "sha1_rotl x n = word_rotl n x"
proof (rule bit_word_eqI)
  fix i assume i: "i < LENGTH(32)"
  have m: "(i + (32 - n)) mod 32 = (if i < n then i + (32 - n) else i - n)"
    using assms i by (simp add: mod_if)
  have z: "\<not> bit x (i + (32 - n))" if "n \<le> i"
    using that assms by (intro impossible_bit) simp
  have l: "bit (sha1_rotl x n) i \<longleftrightarrow> (n \<le> i \<and> bit x (i - n)) \<or> bit x (i + (32 - n))"
    using i by (auto simp: sha1_rotl_def bit_or_iff bit_push_bit_iff bit_drop_bit_eq ac_simps)
  have r: "bit (word_rotl n x) i \<longleftrightarrow> bit x ((i + (32 - n)) mod 32)"
    using i assms by (simp add: bit_word_rotl_iff)
  show "bit (sha1_rotl x n) i = bit (word_rotl n x) i"
    unfolding l r m using z by (cases "i < n") simp_all
qed

lemma word_fips: "be_word block t = of_nat (fips_number (map (\<lambda>j. block ! (4 * t + j)) [0..<4]))"
proof -
  have or: "x OR y = x + y" if "\<And>n. \<not> bit x n \<or> \<not> bit y n" for x y :: word32 using disjunctive_add[OF that] by simp
  have pack: "push_bit 24 (ucast a) OR push_bit 16 (ucast b) OR push_bit 8 (ucast c) OR ucast d =
      (of_nat (fips_number [a, b, c, d]) :: word32)" for a b c d :: byte
  proof -
    have "push_bit 8 (ucast c) OR ucast d = (push_bit 8 (ucast c) + ucast d :: word32)"
      by (rule or) (auto simp: bit_simps dest: bit_imp_le_length)
    moreover have "push_bit 16 (ucast b) OR (push_bit 8 (ucast c) OR ucast d) = (push_bit 16 (ucast b) + (push_bit 8 (ucast c) OR ucast d) :: word32)"
      by (rule or) (auto simp: bit_simps dest: bit_imp_le_length)
    moreover have "push_bit 24 (ucast a) OR (push_bit 16 (ucast b) OR (push_bit 8 (ucast c) OR ucast d)) =
        (push_bit 24 (ucast a) + (push_bit 16 (ucast b) OR (push_bit 8 (ucast c) OR ucast d)) :: word32)"
      by (rule or) (auto simp: bit_simps dest: bit_imp_le_length)
    ultimately have "push_bit 24 (ucast a) OR push_bit 16 (ucast b) OR push_bit 8 (ucast c) OR ucast d =
        (push_bit 24 (ucast a) + (push_bit 16 (ucast b) + (push_bit 8 (ucast c) + ucast d)) :: word32)" by (simp add: or.assoc)
    then show ?thesis by (simp add: fips_number_def push_bit_eq_mult of_nat_unat algebra_simps)
  qed
  have "[0..<4] = [0, 1, 2, 3 :: nat]" by code_simp
  then show ?thesis unfolding be_word_def pack by simp
qed

lemma octet:
  assumes "k + 8 \<le> LENGTH('a::len)"
  shows "(ucast (drop_bit k (of_nat m :: 'a word)) :: byte) = of_nat (m div 2 ^ k)"
  unfolding drop_bit_eq_div[symmetric] by (rule bit_word_eqI) (use assms in \<open>auto simp: bit_simps\<close>)

lemma octets32: "be32_bytes x = fips_octets 4 (unat x)"
proof -
  have e: "[0..<4] = [0, 1, 2, 3 :: nat]" by code_simp
  have x: "of_nat (unat x) = x" by simp
  from octet[of 24 "unat x", where 'a = 32] octet[of 16 "unat x", where 'a = 32] octet[of 8 "unat x", where 'a = 32]
    octet[of 0 "unat x", where 'a = 32]
  show ?thesis unfolding x by (simp add: be32_bytes_def fips_octets_def e)
qed

lemma octets64: "be64_bytes (of_nat n * 8) = fips_octets 8 (8 * n)"
  unfolding be64_bytes_def fips_octets_def
proof (rule map_cong[OF refl])
  fix j :: nat assume "j \<in> set [0..<8]"
  then have j: "j < 8" by simp
  have p: "(256 :: nat) ^ (8 - 1 - j) = 2 ^ (56 - j * 8)"
    using power_mult[of "2 :: nat" 8 "7 - j"] by (simp add: diff_mult_distrib2 mult.commute)
  have e: "of_nat n * (8 :: 64 word) = of_nat (8 * n)" by simp
  show "ucast (drop_bit (56 - j * 8) (of_nat n * (8 :: 64 word))) = (of_nat (8 * n div 256 ^ (8 - 1 - j)) :: byte)"
    unfolding p e by (rule octet) (use j in simp)
qed

text \<open>The state of the module as the words of the standard.\<close>

fun hash_words :: "sha1_state \<Rightarrow> word32 list" where
  "hash_words (a, b, c, d, e) = [a, b, c, d, e]"

lemma out_fips: "sha1_out st = concat (map (\<lambda>h. fips_octets 4 (unat h)) (hash_words st))"
  by (cases st) (simp add: sha1_out_def octets32)

lemma schedule_fips:
  "n \<le> 64 \<Longrightarrow> length (foldl (\<lambda>w i. w @ [next_word w i]) (map (be_word block) [0..<16]) [16..<16 + n]) = 16 + n \<and>
     (\<forall>t < 16 + n. foldl (\<lambda>w i. w @ [next_word w i]) (map (be_word block) [0..<16]) [16..<16 + n] ! t = fips_w block t)"
proof (induction n)
  case 0
  show ?case by (simp add: fips_w.simps word_fips)
next
  case (Suc n)
  let ?w = "foldl (\<lambda>w i. w @ [next_word w i]) (map (be_word block) [0..<16]) [16..<16 + n]"
  from Suc have l: "length ?w = 16 + n" and t: "\<forall>t < 16 + n. ?w ! t = fips_w block t" by auto
  have "next_word ?w (16 + n) = fips_w block (16 + n)"
    using t by (simp add: next_word_def fips_w.simps[of block "16 + n"] rotl_fips xor.assoc)
  moreover have "[16..<16 + Suc n] = [16..<16 + n] @ [16 + n]" by (simp only: add_Suc_right upt_Suc le_add1 if_True)
  moreover have "t < 16 + n \<or> t = 16 + n" if "t < 16 + Suc n" for t using that by linarith
  ultimately show ?case using l t by (auto simp: nth_append simp del: upt_Suc upt_conv_Cons)
qed

lemma sha1_schedule_fips: "length (sha1_schedule block) = 80" "t < 80 \<Longrightarrow> sha1_schedule block ! t = fips_w block t"
proof -
  have e: "(80 :: nat) = 16 + 64" by simp
  show "length (sha1_schedule block) = 80" "t < 80 \<Longrightarrow> sha1_schedule block ! t = fips_w block t"
    unfolding sha1_schedule_def e using schedule_fips[of 64 block] by blast+
qed

lemma transform_fips: "hash_words (sha1_transform st block) = fips_block (hash_words st) block"
proof -
  have step: "hash_words (sha1_round (sha1_schedule block) st' t) = fips_round block (hash_words st') t" if "t < 80" for st' t
    using that by (cases st') (simp add: sha1_round_def fk_fips sha1_schedule_fips(2) rotl_fips)
  have "hash_words (foldl (sha1_round (sha1_schedule block)) st xs) = foldl (fips_round block) (hash_words st) xs"
    if "set xs \<subseteq> {..<80}" for xs
    using that by (induction xs rule: rev_induct) (simp_all add: step)
  from this[of "[0..<80]"] have f: "hash_words (foldl (sha1_round (sha1_schedule block)) st [0..<80]) =
      foldl (fips_round block) (hash_words st) [0..<80]" by (simp add: subset_iff)
  obtain a b c d e where st: "st = (a, b, c, d, e)" by (cases st)
  obtain a' b' c' d' e' where f': "foldl (sha1_round (sha1_schedule block)) st [0..<80] = (a', b', c', d', e')"
    by (metis prod_cases5)
  have "foldl (fips_round block) (hash_words st) [0..<80] = [a', b', c', d', e']" using f unfolding f' by simp
  then show ?thesis unfolding fips_block_def by (simp add: sha1_transform_def f'[unfolded st] st add.commute)
qed

lemma blocks64_rec: "blocks64 xs = (if 64 \<le> length xs then take 64 xs # blocks64 (drop 64 xs) else [])"
proof (cases "64 \<le> length xs")
  case True
  then have "length xs div 64 = Suc (length (drop 64 xs) div 64)" by (simp add: le_div_geq)
  then have "blocks64 xs = map (\<lambda>i. take 64 (drop (64 * i) xs)) [0..<Suc (length (drop 64 xs) div 64)]" by (simp only: blocks64_def)
  also have "\<dots> = take 64 xs # map (\<lambda>i. take 64 (drop (64 * Suc i) xs)) [0..<length (drop 64 xs) div 64]"
    by (subst upt_conv_Cons) (simp_all add: map_Suc_upt[symmetric] del: upt_Suc)
  finally show ?thesis using True by (simp add: blocks64_def add.commute)
next
  case False
  then show ?thesis by (simp add: blocks64_def)
qed

lemma sha1_blocks_fips:
  "hash_words (fst (sha1_blocks st xs)) = foldl fips_block (hash_words st) (blocks64 xs) \<and>
   snd (sha1_blocks st xs) = drop (64 * (length xs div 64)) xs"
proof (induction st xs rule: sha1_blocks.induct)
  case (1 st xs)
  show ?case
  proof (cases "64 \<le> length xs")
    case True
    then have "64 * (length xs div 64) = 64 * ((length xs - 64) div 64) + 64" by (simp add: le_div_geq)
    with True 1[OF True] show ?thesis
      by (simp add: sha1_blocks.simps[of st xs] blocks64_rec[of xs] transform_fips)
  next
    case False
    then show ?thesis by (simp add: sha1_blocks.simps[of st xs] blocks64_rec[of xs])
  qed
qed

lemma blocks64_append: "length xs mod 64 = 0 \<Longrightarrow> blocks64 (xs @ ys) = blocks64 xs @ blocks64 ys"
proof (induction "length xs div 64" arbitrary: xs)
  case 0
  then have "xs = []" by auto
  then show ?case by (simp add: blocks64_def[of "[]"])
next
  case (Suc n)
  then have l: "64 \<le> length xs" by (metis div_less nat.distinct(1) not_le)
  have "blocks64 (drop 64 xs @ ys) = blocks64 (drop 64 xs) @ blocks64 ys"
    by (rule Suc(1)) (use Suc(2,3) l in \<open>simp_all add: le_div_geq le_mod_geq\<close>)
  with l show ?case by (simp add: blocks64_rec[of "xs @ ys"] blocks64_rec[of xs])
qed

lemma blocks64_one: "length b = 64 \<Longrightarrow> blocks64 b = [b]"
  by (simp add: blocks64_def)

lemma sha1_any: "sha1 m = fips_sha1 m"
proof -
  let ?q = "64 * (length m div 64)" and ?len = "fips_octets 8 (8 * length m)"
  define r where "r = drop ?q m"
  have m: "m = take ?q m @ r" and lr: "length r = length m mod 64" by (simp_all add: r_def modulo_nat_def mult.commute)
  have lq: "length (take ?q m) = ?q" by simp
  have len: "length ?len = 8" by (simp add: fips_octets_def)
  have wh: "blocks64 (take ?q m @ zs) = blocks64 m @ blocks64 zs" for zs
  proof -
    have "blocks64 (take ?q m @ zs) = blocks64 (take ?q m) @ blocks64 zs" by (rule blocks64_append) (simp add: lq)
    moreover have "blocks64 m = blocks64 (take ?q m) @ blocks64 r"
      using blocks64_append[of "take ?q m" r] m lq by (metis mod_mult_self1_is_0)
    moreover have "blocks64 r = []" by (simp add: blocks64_def lr)
    ultimately show ?thesis by simp
  qed
  let ?st = "foldl fips_block fips_h0 (blocks64 m)"
  let ?k = "(119 - length r) mod 64"
  have pad: "fips_pad m = take ?q m @ (r @ [0x80] @ replicate ?k 0 @ ?len)" using m lr by (simp add: fips_pad_def)
  obtain st' where b: "sha1_blocks sha1_init m = (st', r)" "hash_words st' = ?st"
    using sha1_blocks_fips[of sha1_init m] by (cases "sha1_blocks sha1_init m") (simp add: r_def sha1_init_def fips_h0_def)
  note ends = out_fips transform_fips b(2) octets64
  show ?thesis
  proof (cases "length r < 56")
    case True
    then have k: "?k = 55 - length r" by (simp add: mod_if)
    have "blocks64 (r @ [0x80] @ replicate ?k 0 @ ?len) = [r @ [0x80] @ replicate ?k 0 @ ?len]"
      by (rule blocks64_one) (use True len in \<open>simp add: k\<close>)
    then have "fips_sha1 m = concat (map (\<lambda>h. fips_octets 4 (unat h)) (fips_block ?st (r @ [0x80] @ replicate ?k 0 @ ?len)))"
      by (simp add: fips_sha1_def pad wh)
    with True k show ?thesis by (simp add: sha1_def b(1) ends Let_def)
  next
    case False
    have r64: "length r < 64" by (simp add: lr)
    with False have k: "?k = (63 - length r) + 56" by (simp add: mod_if)
    let ?b = "r @ [0x80] @ replicate (63 - length r) 0" and ?c = "replicate 56 0 @ ?len"
    have "blocks64 (?b @ ?c) = blocks64 ?b @ blocks64 ?c" by (rule blocks64_append) (use r64 in simp)
    moreover have "blocks64 ?b = [?b]" by (rule blocks64_one) (use r64 in simp)
    moreover have "blocks64 ?c = [?c]" by (rule blocks64_one) (use len in simp)
    moreover have "r @ [0x80] @ replicate ?k 0 @ ?len = ?b @ ?c" unfolding k by (simp only: replicate_add append.assoc)
    ultimately have "fips_sha1 m = concat (map (\<lambda>h. fips_octets 4 (unat h)) (fips_block (fips_block ?st ?b) ?c))"
      by (simp add: fips_sha1_def pad wh)
    with False r64 show ?thesis by (simp add: sha1_def b(1) ends Let_def)
  qed
qed

subsection \<open>The example of the standard\<close>

text \<open>The one-block message \<open>abc\<close>: its block, its schedule and its rounds.\<close>

definition round_with :: "sha1_state \<Rightarrow> nat \<times> word32 \<Rightarrow> sha1_state" where
  "round_with st p =
     (let (a, b, c, d, e) = st; (f, k) = sha1_fk (fst p) b c d
      in (sha1_rotl a 5 + f + e + k + snd p, a, sha1_rotl b 30, c, d))"

lemma rounds_zip:
  assumes "length w = 80"
  shows "foldl (sha1_round w) st [0..<80] = foldl round_with st (zip [0..<80] w)"
proof -
  have "zip [0..<80] w = map (\<lambda>i. (i, w ! i)) [0..<80]" by (rule nth_equalityI) (use assms in simp_all)
  moreover have "round_with st' (i, w ! i) = sha1_round w st' i" for st' i by (simp add: round_with_def sha1_round_def)
  ultimately show ?thesis by (simp add: foldl_map)
qed

definition abc_block :: "byte list" where
  "abc_block = [0x61, 0x62, 0x63, 0x80] @ replicate 59 0 @ [0x18]"

definition abc_words :: "word32 list" where
  "abc_words =
     [0x61626380, 0x0, 0x0, 0x0, 0x0, 0x0, 0x0, 0x0, 0x0, 0x0,
      0x0, 0x0, 0x0, 0x0, 0x0, 0x18, 0xC2C4C700, 0x0, 0x30, 0x85898E01,
      0x0, 0x60, 0xB131C03, 0x30, 0x85898EC1, 0x16263806, 0x0, 0x180, 0x2C4C700C, 0xF0,
      0x93AFB507, 0x5898E048, 0x8E9A9202, 0x600, 0xB131C0F0, 0x16263BC6, 0x4EBED41E, 0x626380A1, 0x16263806, 0x18C0,
      0xD2E138C4, 0xF00, 0x3AFB5079, 0x898E04E5, 0xE2BA3C2B, 0x60C0, 0x53A37CD, 0x74458547, 0xDA9415ED, 0x26380A16,
      0x626383A1, 0x4EBF54DE, 0x3835B44B, 0xF600, 0x1E84C7A3, 0x98E04D98, 0x651D16A0, 0x62658CA1, 0x458544D6, 0x44584CB7,
      0x7BA06619, 0x6380AEA2, 0xAE55269, 0x627B49A1, 0x7CD45C9D, 0xF0000, 0xFB50753A, 0xEC6765E8, 0xBA3C2BE2, 0x60C000,
      0x3A37CD05, 0x458546F4, 0xB8599DD6, 0x380A1A26, 0x1E02203, 0xE7CC3456, 0xE6E60B69, 0xF60A00, 0x5795EF4F, 0x822E0879]"

lemma abc_first: "map (be_word abc_block) [0..<16] =
     [0x61626380, 0x0, 0x0, 0x0, 0x0, 0x0, 0x0, 0x0, 0x0, 0x0,
      0x0, 0x0, 0x0, 0x0, 0x0, 0x18]"
  by code_simp

lemma abc_middle: "foldl (\<lambda>w i. w @ [next_word w i])
     [0x61626380, 0x0, 0x0, 0x0, 0x0, 0x0, 0x0, 0x0, 0x0, 0x0,
      0x0, 0x0, 0x0, 0x0, 0x0, 0x18] [16..<50] =
     [0x61626380, 0x0, 0x0, 0x0, 0x0, 0x0, 0x0, 0x0, 0x0, 0x0,
      0x0, 0x0, 0x0, 0x0, 0x0, 0x18, 0xC2C4C700, 0x0, 0x30, 0x85898E01,
      0x0, 0x60, 0xB131C03, 0x30, 0x85898EC1, 0x16263806, 0x0, 0x180, 0x2C4C700C, 0xF0,
      0x93AFB507, 0x5898E048, 0x8E9A9202, 0x600, 0xB131C0F0, 0x16263BC6, 0x4EBED41E, 0x626380A1, 0x16263806, 0x18C0,
      0xD2E138C4, 0xF00, 0x3AFB5079, 0x898E04E5, 0xE2BA3C2B, 0x60C0, 0x53A37CD, 0x74458547, 0xDA9415ED, 0x26380A16]"
  by (simp add: next_word_def sha1_rotl_def upt_rec)

lemma abc_last: "foldl (\<lambda>w i. w @ [next_word w i])
     [0x61626380, 0x0, 0x0, 0x0, 0x0, 0x0, 0x0, 0x0, 0x0, 0x0,
      0x0, 0x0, 0x0, 0x0, 0x0, 0x18, 0xC2C4C700, 0x0, 0x30, 0x85898E01,
      0x0, 0x60, 0xB131C03, 0x30, 0x85898EC1, 0x16263806, 0x0, 0x180, 0x2C4C700C, 0xF0,
      0x93AFB507, 0x5898E048, 0x8E9A9202, 0x600, 0xB131C0F0, 0x16263BC6, 0x4EBED41E, 0x626380A1, 0x16263806, 0x18C0,
      0xD2E138C4, 0xF00, 0x3AFB5079, 0x898E04E5, 0xE2BA3C2B, 0x60C0, 0x53A37CD, 0x74458547, 0xDA9415ED, 0x26380A16] [50..<80] = abc_words"
  by (simp add: abc_words_def next_word_def sha1_rotl_def upt_rec)

lemma abc_schedule: "sha1_schedule abc_block = abc_words"
proof -
  have "[16..<80] = [16..<50] @ [50..<80 :: nat]" using upt_add_eq_append[of 16 50 30] by simp
  then show ?thesis by (simp only: sha1_schedule_def abc_first foldl_append abc_middle abc_last)
qed

lemma abc_rounds: "foldl round_with sha1_init (zip [0..<80] abc_words) =
     (0x42541B35, 0x5738D5E1, 0x21834873, 0x681E6DF6, 0xD8FDF6AD)"
  by code_simp

lemma abc_digest: "sha1 [0x61, 0x62, 0x63] =
     [0xA9, 0x99, 0x3E, 0x36, 0x47, 0x06, 0x81, 0x6A, 0xBA, 0x3E, 0x25, 0x71, 0x78, 0x50, 0xC2, 0x6C, 0x9C, 0xD0, 0xD8, 0x9D]"
proof -
  have len: "length abc_words = 80" by (simp add: abc_words_def)
  have "be64_bytes 0x18 = replicate 7 0 @ [0x18]" by code_simp
  moreover have "replicate 59 (0 :: byte) = replicate 52 0 @ replicate 7 0" by (simp only: replicate_add[symmetric]) simp
  ultimately have "sha1 [0x61, 0x62, 0x63] = sha1_out (sha1_transform sha1_init abc_block)"
    by (simp add: sha1_def sha1_blocks.simps abc_block_def Let_def)
  also have "sha1_transform sha1_init abc_block = (0xA9993E36, 0x4706816A, 0xBA3E2571, 0x7850C26C, 0x9CD0D89D)"
    unfolding sha1_transform_def abc_schedule rounds_zip[OF len] abc_rounds by (simp add: sha1_init_def)
  also have "sha1_out \<dots> =
     [0xA9, 0x99, 0x3E, 0x36, 0x47, 0x06, 0x81, 0x6A, 0xBA, 0x3E, 0x25, 0x71, 0x78, 0x50, 0xC2, 0x6C, 0x9C, 0xD0, 0xD8, 0x9D]"
    by code_simp
  finally show ?thesis .
qed

text \<open>
  C30. The hash of the module is SHA-1: on every message it gives the digest of FIPS 180-4, as the standard defines it by its
  padding, its message schedule, its functions with exclusive or, and its rounds over the blocks in order from its
  initial hash value (written down independently of the code, which hashes the whole blocks before it pads and
  pads in one of two ways); and on the example of the standard, the message \<open>abc\<close>, the code gives the published digest
  \<open>a9993e36 4706816a ba3e2571 7850c26c 9cd0d89d\<close>.
\<close>

theorem sha1_is_fips:
  "sha1 m = fips_sha1 m \<and>
   sha1 [0x61, 0x62, 0x63] =
     [0xA9, 0x99, 0x3E, 0x36, 0x47, 0x06, 0x81, 0x6A, 0xBA, 0x3E, 0x25, 0x71, 0x78, 0x50, 0xC2, 0x6C, 0x9C, 0xD0, 0xD8, 0x9D]"
  using sha1_any abc_digest by simp

end
