(* ===== verification/Timer_Repeat.thy ===== *)
theory Timer_Repeat
  imports Timer
begin

text \<open>
  Repeating timers: what the tick of the main loop does to the slot of a timer that is due, before
  its callback runs, and the service with one-shot and repeating timers.
\<close>

definition repeats :: "'cb timers \<Rightarrow> int \<Rightarrow> bool" where
  "repeats t h =
     (case find_idx (\<lambda>e. t_active e \<and> t_id e = h) (t_slots t) of None \<Rightarrow> False | Some i \<Rightarrow> t_repeat (t_slots t ! i))"

definition timer_fire :: "nat \<Rightarrow> 'cb timers \<Rightarrow> int \<Rightarrow> 'cb timers" where
  "timer_fire now t h =
     (case find_idx (\<lambda>e. t_active e \<and> t_id e = h) (t_slots t) of
        None \<Rightarrow> t
      | Some i \<Rightarrow>
          (let e = t_slots t ! i
           in if t_repeat e then t\<lparr>t_slots := (t_slots t)[i := e\<lparr>t_next_fire_us := now + nat (t_interval_ms e) * 1000\<rparr>]\<rparr>
              else t\<lparr>t_slots := (t_slots t)[i := e\<lparr>t_active := False\<rparr>]\<rparr>))"

text \<open>The slot of a tick is this update, followed by the callback.\<close>

lemma find_idx_id:
  assumes "timer_inv t" "i < MAX_TIMERS" "t_active (t_slots t ! i)"
  shows "find_idx (\<lambda>e. t_active e \<and> t_id e = t_id (t_slots t ! i)) (t_slots t) = Some i"
proof (cases "find_idx (\<lambda>e. t_active e \<and> t_id e = t_id (t_slots t ! i)) (t_slots t)")
  case None
  with assms timer_invD(1)[OF assms(1)] show ?thesis by (metis (mono_tags, lifting) find_idx_None nth_mem)
next
  case (Some j)
  from find_idx_SomeD[OF Some] timer_invD(1)[OF assms(1)] have "j < MAX_TIMERS" "t_active (t_slots t ! j)" "t_id (t_slots t ! j) = t_id (t_slots t ! i)" by simp_all
  with timer_invD(4)[OF assms(1) _ assms(2) _ assms(3)] Some show ?thesis by blast
qed

lemma timer_slot_fires:
  assumes "timer_inv (get s)" "i < MAX_TIMERS" "t_active (t_slots (get s) ! i)" "t_next_fire_us (t_slots (get s) ! i) \<le> now"
  shows "timer_slot get put run now s i = run (t_callback (t_slots (get s) ! i)) (put (timer_fire now (get s) (t_id (t_slots (get s) ! i))) s)"
  using assms(3,4) by (simp add: timer_slot_def timer_fire_def Let_def find_idx_id[OF assms(1-3)])

lemma repeats_iff:
  assumes "timer_inv t"
  shows "repeats t h \<longleftrightarrow> (\<exists>i < MAX_TIMERS. t_active (t_slots t ! i) \<and> t_id (t_slots t ! i) = h \<and> t_repeat (t_slots t ! i))"
proof
  assume "repeats t h"
  then obtain i where i: "find_idx (\<lambda>e. t_active e \<and> t_id e = h) (t_slots t) = Some i" "t_repeat (t_slots t ! i)"
    by (auto simp: repeats_def split: option.splits)
  from find_idx_SomeD[OF i(1)] i(2) timer_invD(1)[OF assms]
  show "\<exists>i < MAX_TIMERS. t_active (t_slots t ! i) \<and> t_id (t_slots t ! i) = h \<and> t_repeat (t_slots t ! i)" by auto
next
  assume "\<exists>i < MAX_TIMERS. t_active (t_slots t ! i) \<and> t_id (t_slots t ! i) = h \<and> t_repeat (t_slots t ! i)"
  then obtain i where "i < MAX_TIMERS" "t_active (t_slots t ! i)" "t_id (t_slots t ! i) = h" "t_repeat (t_slots t ! i)" by blast
  with find_idx_id[OF assms this(1,2)] show "repeats t h" by (simp add: repeats_def)
qed

text \<open>Overwriting a slot changes the flag of no other id.\<close>

lemma slot_update_repeats:
  assumes "timer_inv t" "timer_inv t'" "t_slots t' = (t_slots t)[i := e]" "i < MAX_TIMERS"
    and "h \<noteq> t_id e \<or> \<not> t_active e" "t_active (t_slots t ! i) \<Longrightarrow> h \<noteq> t_id (t_slots t ! i)"
  shows "repeats t' h = repeats t h"
proof -
  have nth: "t_slots t' ! j = (if j = i then e else t_slots t ! j)" if "j < MAX_TIMERS" for j
    using that assms(3,4) timer_invD(1)[OF assms(1)] by simp
  have "(t_active (t_slots t' ! j) \<and> t_id (t_slots t' ! j) = h \<and> t_repeat (t_slots t' ! j)) \<longleftrightarrow>
      (t_active (t_slots t ! j) \<and> t_id (t_slots t ! j) = h \<and> t_repeat (t_slots t ! j))" if "j < MAX_TIMERS" for j
    using nth[OF that] assms(5,6) by auto
  then show ?thesis unfolding repeats_iff[OF assms(1)] repeats_iff[OF assms(2)] by blast
qed

lemma timer_create_repeats:
  assumes "timer_inv t" "timer_create now t ms rep cb = (t', tid)" "0 < tid"
  shows "repeats t' h = (if h = tid then rep else repeats t h)"
  using assms(2)
proof (cases rule: timer_create_cases)
  case fail
  with assms(3) show ?thesis by simp
next
  case (ok c i)
  have inv': "timer_inv t'" using timer_create_armed[OF assms(1,2)] by blast
  have i: "i < MAX_TIMERS" using ok(3) timer_invD(1)[OF assms(1)] by simp
  let ?e = "\<lparr>t_active = True, t_id = t_next_id t, t_interval_ms = ms, t_repeat = rep, t_next_fire_us = now + nat ms * 1000, t_callback = c\<rparr>"
  have s: "t_slots t' = (t_slots t)[i := ?e]" using ok(6) by simp
  then have self: "t_slots t' ! i = ?e" using ok(3) by simp
  show ?thesis
  proof (cases "h = tid")
    case True
    then have "find_idx (\<lambda>e. t_active e \<and> t_id e = h) (t_slots t') = Some i"
      using find_idx_id[OF inv' i] self ok(5) by simp
    with True self show ?thesis by (simp add: repeats_def)
  next
    case False
    with slot_update_repeats[OF assms(1) inv' s i, of h] ok(4,5) show ?thesis by simp
  qed
qed

lemma timer_cancel_repeats:
  assumes "timer_inv t" "h \<noteq> tid"
  shows "repeats (timer_cancel t tid) h = repeats t h"
proof (cases "find_idx (\<lambda>e. t_active e \<and> t_id e = tid) (t_slots t)")
  case (Some i)
  from find_idx_SomeD[OF Some] timer_invD(1)[OF assms(1)] have i: "i < MAX_TIMERS" "t_id (t_slots t ! i) = tid" by simp_all
  show ?thesis
    by (rule slot_update_repeats[OF assms(1) conjunct1[OF timer_cancel_armed[OF assms(1)]] _ i(1), where e = "(t_slots t ! i)\<lparr>t_active := False\<rparr>"])
      (use Some i(2) assms(2) in \<open>simp_all add: timer_cancel_def\<close>)
qed (simp add: timer_cancel_def)

lemma timer_fire_law:
  assumes "timer_inv t" "armed t h = Some (c, due)"
  shows "timer_inv (timer_fire now t h) \<and>
    (if repeats t h then (\<exists>due'. armed (timer_fire now t h) = (armed t)(h \<mapsto> (c, due'))) \<and> repeats (timer_fire now t h) = repeats t
     else timer_fire now t h = timer_cancel t h)"
proof -
  from assms(2) obtain i where f: "find_idx (\<lambda>e. t_active e \<and> t_id e = h) (t_slots t) = Some i" "t_callback (t_slots t ! i) = c"
    by (auto simp: armed_def armed_in_def split: option.splits)
  from find_idx_SomeD[OF f(1)] timer_invD(1)[OF assms(1)] have i: "i < MAX_TIMERS" "t_active (t_slots t ! i)" "t_id (t_slots t ! i) = h" by simp_all
  show ?thesis
  proof (cases "t_repeat (t_slots t ! i)")
    case False
    then have "timer_fire now t h = timer_cancel t h" "\<not> repeats t h" using f(1) by (simp_all add: timer_fire_def timer_cancel_def repeats_def Let_def)
    with timer_cancel_armed[OF assms(1), of h] show ?thesis by simp
  next
    case True
    let ?e = "(t_slots t ! i)\<lparr>t_next_fire_us := now + nat (t_interval_ms (t_slots t ! i)) * 1000\<rparr>"
    have c: "timer_fire now t h = t\<lparr>t_slots := (t_slots t)[i := ?e], t_next_id := t_next_id t\<rparr>"
      using True f(1) by (simp add: timer_fire_def Let_def)
    have r: "repeats t h" using True f(1) by (simp add: repeats_def)
    have inv': "timer_inv (timer_fire now t h)" unfolding c
    proof (rule slot_update_inv[OF assms(1) i(1) order.refl])
      show "0 < t_id ?e \<and> t_id ?e < t_next_id t" using timer_invD(3)[OF assms(1) i(1,2)] by simp
      show "t_id (t_slots t ! j) \<noteq> t_id ?e" if "j < MAX_TIMERS" "j \<noteq> i" "t_active (t_slots t ! j)" for j
        using timer_invD(4)[OF assms(1) that(1) i(1) that(3) i(2)] that(2) by auto
    qed
    have self: "t_slots (timer_fire now t h) ! i = ?e" unfolding c using i(1) timer_invD(1)[OF assms(1)] by simp
    have a: "armed (timer_fire now t h) h = Some (c, t_next_fire_us ?e)"
      using slot_armed_self[OF inv' i(1)] self i(2,3) f(2) by simp
    have A: "armed (timer_fire now t h) x = ((armed t)(h \<mapsto> (c, t_next_fire_us ?e))) x" for x
    proof (cases "x = h")
      case False
      have "armed (timer_fire now t h) x = armed t x" unfolding c
        by (rule slot_update_armed[OF assms(1) inv'[unfolded c] i(1)]) (use False i(3) in simp_all)
      with False show ?thesis by simp
    qed (simp add: a)
    have B: "repeats (timer_fire now t h) x = repeats t x" for x
    proof (cases "x = h")
      case True
      have "find_idx (\<lambda>e. t_active e \<and> t_id e = h) (t_slots (timer_fire now t h)) = Some i"
        using find_idx_id[OF inv' i(1)] self i(2,3) by simp
      with True self \<open>t_repeat (t_slots t ! i)\<close> r show ?thesis by (simp add: repeats_def)
    next
      case False
      show ?thesis
        by (rule slot_update_repeats[OF assms(1) inv' _ i(1), where e = ?e]) (use False i c in simp_all)
    qed
    have "\<exists>due'. armed (timer_fire now t h) = (armed t)(h \<mapsto> (c, due'))" using A by (intro exI ext)
    moreover have "repeats (timer_fire now t h) = repeats t" using B by (intro ext)
    ultimately show ?thesis using r inv' by simp
  qed
qed

text \<open>The service with repeating timers.\<close>

locale repeating_timers = timer_service srv_inv create cancel timer_of
  for srv_inv :: "'t \<Rightarrow> bool"
    and create :: "nat \<Rightarrow> 't \<Rightarrow> int \<Rightarrow> bool \<Rightarrow> 'cb option \<Rightarrow> 't \<times> int"
    and cancel :: "'t \<Rightarrow> int \<Rightarrow> 't"
    and timer_of :: "'t \<Rightarrow> int \<Rightarrow> ('cb \<times> nat) option" +
  fixes again :: "'t \<Rightarrow> int \<Rightarrow> bool"
    and fire :: "nat \<Rightarrow> 't \<Rightarrow> int \<Rightarrow> 't"
  assumes create_again: "srv_inv t \<Longrightarrow> create now t ms rep cb = (t', tid) \<Longrightarrow> 0 < tid \<Longrightarrow> again t' h = (if h = tid then rep else again t h)"
    and cancel_again: "srv_inv t \<Longrightarrow> h \<noteq> tid \<Longrightarrow> again (cancel t tid) h = again t h"
    and fire_law: "srv_inv t \<Longrightarrow> timer_of t h = Some (c, due) \<Longrightarrow> srv_inv (fire now t h) \<and>
      (if again t h then (\<exists>due'. timer_of (fire now t h) = (timer_of t)(h \<mapsto> (c, due'))) \<and> again (fire now t h) = again t
       else fire now t h = cancel t h)"
begin

text \<open>A client's handle of one timer with its callback and kind, or none.\<close>

definition sole_kind :: "('cb \<Rightarrow> bool) \<Rightarrow> 't \<Rightarrow> int \<Rightarrow> 'cb \<Rightarrow> bool \<Rightarrow> bool" where
  "sole_kind own t h c rep \<longleftrightarrow> sole own t h c \<and> (0 \<le> h \<longrightarrow> again t h = rep)"

lemma kind_none: "sole_kind own t h c rep \<Longrightarrow> h < 0 \<Longrightarrow> own d \<Longrightarrow> k < 0 \<Longrightarrow> sole_kind own t k d rep'"
  using sole_idle by (auto simp: sole_kind_def)

lemma kind_cancel: "sole_kind own t h c rep \<Longrightarrow> own d \<Longrightarrow> k < 0 \<Longrightarrow> sole_kind own (cancel t h) k d rep'"
  using sole_cancel by (auto simp: sole_kind_def)

lemma kind_create:
  assumes "sole_kind own t h c rep" "h < 0" "own d" "create now t ms rep' (Some d) = (t', tid)"
  shows "sole_kind own t' tid d rep'"
proof -
  have "sole own t h c" using assms(1) by (simp add: sole_kind_def)
  from sole_create[OF this assms(2-4)] create_law[OF sole_inv[OF this] assms(4)] create_again[OF sole_inv[OF this] assms(4), of tid]
  show ?thesis by (auto simp: sole_kind_def)
qed

text \<open>A repeating timer that fires stays; a one-shot timer is gone.\<close>

lemma kind_fires:
  assumes "sole_kind own t h c rep" "timer_of t h' = Some (c', due)" "own c'"
  shows "h' = h" "c' = c" "0 \<le> h" "rep \<Longrightarrow> sole_kind own (fire now t h') h c rep" "\<not> rep \<Longrightarrow> own d \<Longrightarrow> k < 0 \<Longrightarrow> sole_kind own (fire now t h') k d rep'"
proof -
  have s: "sole own t h c" using assms(1) by (simp add: sole_kind_def)
  note f = sole_fires[OF s assms(2,3)]
  show "h' = h" "c' = c" "0 \<le> h" by (fact f(1) f(2) f(3))+
  have k: "again t h = rep" using assms(1) f(3) by (simp add: sole_kind_def)
  have t: "timer_of t h = Some (c, due)" using assms(2) f(1,2) by simp
  note l = fire_law[OF sole_inv[OF s] t, of now]
  show "sole_kind own (fire now t h') h c rep" if "rep"
  proof -
    from l k that obtain due' where "srv_inv (fire now t h)" "timer_of (fire now t h) = (timer_of t)(h \<mapsto> (c, due'))" "again (fire now t h) = again t" by auto
    with s f(1,3) k show ?thesis by (auto simp: sole_kind_def sole_def split: if_splits)
  qed
  show "sole_kind own (fire now t h') k d rep'" if "\<not> rep" "own d" "k < 0"
    using kind_cancel[OF assms(1) that(2,3)] l k that(1) f(1) by simp
qed

lemma kind_other:
  assumes "sole_kind own t h c rep" "timer_of t h' = Some (c', due)" "\<not> own c'"
  shows "sole_kind own (fire now t h') h c rep"
proof -
  have s: "sole own t h c" using assms(1) by (simp add: sole_kind_def)
  have ne: "h' \<noteq> h" if "0 \<le> h" using s assms(2,3) that by (auto simp: sole_def)
  note l = fire_law[OF sole_inv[OF s] assms(2), of now]
  show ?thesis
  proof (cases "again t h'")
    case False
    with l sole_other[OF s assms(2,3)] cancel_again[OF sole_inv[OF s], of h h'] ne assms(1) show ?thesis by (auto simp: sole_kind_def)
  next
    case True
    with l obtain due' where "srv_inv (fire now t h')" "timer_of (fire now t h') = (timer_of t)(h' \<mapsto> (c', due'))" "again (fire now t h') = again t" by auto
    with s ne assms(1,3) show ?thesis by (auto simp: sole_kind_def sole_def split: if_splits)
  qed
qed

lemma kind_other_create:
  assumes "sole_kind own t h c rep" "create now t ms rep' (Some d) = (t', tid)" "\<not> own d"
  shows "sole_kind own t' h c rep"
proof -
  have s: "sole own t h c" using assms(1) by (simp add: sole_kind_def)
  note s' = sole_other_create[OF s assms(2,3)]
  have "again t' h = again t h" if "0 \<le> h"
  proof (cases "0 < tid")
    case True
    with create_law[OF sole_inv[OF s] assms(2)] have "timer_of t tid = None" by auto
    moreover have "timer_of t h \<noteq> None" using s that by (auto simp: sole_def)
    ultimately have "h \<noteq> tid" by metis
    with create_again[OF sole_inv[OF s] assms(2) True, of h] show ?thesis by simp
  next
    case False
    with create_law[OF sole_inv[OF s] assms(2)] have "t' = t" by auto
    then show ?thesis by simp
  qed
  with s' assms(1) show ?thesis by (simp add: sole_kind_def)
qed

lemma kind_other_cancel:
  assumes "sole_kind own t h c rep" "k \<noteq> h"
  shows "sole_kind own (cancel t k) h c rep"
proof -
  have s: "sole own t h c" using assms(1) by (simp add: sole_kind_def)
  have "srv_inv (cancel t k)" "timer_of (cancel t k) = (timer_of t)(k := None)" using cancel_law[OF sole_inv[OF s], of k] by blast+
  then have keep: "srv_inv (cancel t k)" "timer_of (cancel t k) h = timer_of t h" "timer_of (cancel t k) x = Some y \<Longrightarrow> timer_of t x = Some y" for x y
    using assms(2) by (simp_all add: fun_upd_def split: if_splits)
  have "sole own (cancel t k) h c"
  proof (cases "h < 0")
    case True
    with s have "\<And>x d due. timer_of t x = Some (d, due) \<Longrightarrow> \<not> own d" by (auto simp: sole_def)
    then have "\<not> own d" if "timer_of (cancel t k) x = Some (d, due)" for x d due using keep(3)[OF that] by blast
    with keep(1) s True show ?thesis by (auto simp: sole_def)
  next
    case False
    with s have "\<And>x d due. timer_of t x = Some (d, due) \<Longrightarrow> own d \<Longrightarrow> x = h" by (simp add: sole_def)
    then have "x = h" if "timer_of (cancel t k) x = Some (d, due)" "own d" for x d due using keep(3)[OF that(1)] that(2) by blast
    with keep(1,2) s False show ?thesis by (auto simp: sole_def)
  qed
  moreover have "again (cancel t k) h = again t h" by (rule cancel_again[OF sole_inv[OF s]]) (use assms(2) in simp)
  ultimately show ?thesis using assms(1) by (simp add: sole_kind_def)
qed

end

interpretation rts: repeating_timers timer_inv timer_create timer_cancel armed repeats timer_fire
proof unfold_locales
  show "timer_inv t \<Longrightarrow> timer_create now t ms rep cb = (t', tid) \<Longrightarrow> 0 < tid \<Longrightarrow> repeats t' h = (if h = tid then rep else repeats t h)"
    for t now ms rep cb t' tid h by (rule timer_create_repeats)
  show "timer_inv t \<Longrightarrow> h \<noteq> tid \<Longrightarrow> repeats (timer_cancel t tid) h = repeats t h" for t h tid by (rule timer_cancel_repeats)
  show "timer_inv t \<Longrightarrow> armed t h = Some (c, due) \<Longrightarrow> timer_inv (timer_fire now t h) \<and>
      (if repeats t h then (\<exists>due'. armed (timer_fire now t h) = (armed t)(h \<mapsto> (c, due'))) \<and> repeats (timer_fire now t h) = repeats t
       else timer_fire now t h = timer_cancel t h)" for t h c due now by (rule timer_fire_law)
qed

end
