(* ===== verification/Cwid.thy ===== *)
theory Cwid
  imports Timer_Repeat Sched Courtesy Resp
begin

text \<open>
  Station identification (\<open>modules/mod_cwid.c\<close>): the Morse identification at fixed times or around
  conversations, its deferral while the channel is busy, the quiet hours, the voice announcement,
  the snapshot for the dashboard and the configuration. The Morse encoder of the library and the
  web service for sunrise and sunset are parameters of the environment, with the clocks and the
  state of the channel; what is queued, spoken and announced are effects.
\<close>

datatype cwid_mode = CWID_MODE_ALWAYS | CWID_MODE_ON_CALL

datatype oc_state = OC_IDLE | OC_ACTIVE | OC_TAIL

record cwid =
  cw_sched :: int
  cw_solar_timer :: int
  cw_pending :: bool
  cw_interval :: int
  cw_wpm :: int
  cw_freq :: int
  cw_amp :: int
  cw_callsign :: string
  cw_frequency :: string
  cw_pl :: string
  cw_voice :: bool
  cw_qstart :: int
  cw_qend :: int
  cw_solar :: bool
  cw_offset :: int
  cw_lat :: string
  cw_lon :: string
  cw_mode :: cwid_mode
  cw_oc :: oc_state
  cw_oc_timer :: int
  cw_tail :: int

definition cwid_boot :: cwid where
  "cwid_boot = \<lparr>cw_sched = -1, cw_solar_timer = -1, cw_pending = False, cw_interval = 600000, cw_wpm = 20, cw_freq = 800, cw_amp = 4000,
     cw_callsign = [], cw_frequency = [], cw_pl = [], cw_voice = True, cw_qstart = -1, cw_qend = -1, cw_solar = False, cw_offset = 0,
     cw_lat = [], cw_lon = [], cw_mode = CWID_MODE_ALWAYS, cw_oc = OC_IDLE, cw_oc_timer = -1, cw_tail = 0\<rparr>"

datatype cw_cb = CB_oc_active | CB_oc_tail | CB_solar | CB_cwid_schedule | CB_cwid_foreign nat

datatype cw_effect =
    Cw_silence int
  | Cw_audio nat
  | Cw_speak string
  | Cw_announce string
  | Cw_publish string

text \<open>
  The environment of an operation. The encoder gives the number of samples of a callsign at a
  frequency, speed and amplitude, or fails; the web service gives sunrise and sunset in local minutes.
\<close>

record cw_env =
  we_now_us :: nat
  we_wall :: int
  we_clock :: timespec
  we_hour :: int
  we_receiving :: bool
  we_transmitting :: bool
  we_encoder :: "string \<Rightarrow> int \<Rightarrow> int \<Rightarrow> int \<Rightarrow> nat option"
  we_rate :: nat
  we_mem :: bool
  we_tts :: bool
  we_sse :: bool
  we_solar :: "(int \<times> int) option"

subsection \<open>Quiet hours\<close>

definition is_quiet_hour :: "cw_env \<Rightarrow> cwid \<Rightarrow> bool" where
  "is_quiet_hour env s =
     (if cw_qstart s < 0 \<or> cw_qend s < 0 then False
      else if cw_qstart s \<le> cw_qend s then we_hour env \<ge> cw_qstart s \<and> we_hour env < cw_qend s
      else we_hour env \<ge> cw_qstart s \<or> we_hour env < cw_qend s)"

definition solar_quiet :: "int \<Rightarrow> int \<Rightarrow> int \<Rightarrow> int \<times> int" where
  "solar_quiet offset sunrise sunset =
     (let qs = sunset + offset; qe = sunrise - offset;
          qe1 = (if qe < 0 then qe + 1440 else qe);
          qs1 = (if qs \<ge> 1440 then qs - 1440 else qs);
          e = cdiv (qe1 + 59) 60
      in (cdiv qs1 60, if e \<ge> 24 then e - 24 else e))"

definition fetch_solar_times :: "cw_env \<Rightarrow> cwid \<Rightarrow> cwid" where
  "fetch_solar_times env s =
     (if cw_lat s = [] \<or> cw_lon s = [] then s
      else (case we_solar env of
              None \<Rightarrow> s
            | Some (sunrise, sunset) \<Rightarrow>
                if sunrise < 0 \<or> sunset < 0 then s
                else (let (qs, qe) = solar_quiet (cw_offset s) sunrise sunset in s\<lparr>cw_qstart := qs, cw_qend := qe\<rparr>)))"

subsection \<open>Texts\<close>

definition digit_word :: "char \<Rightarrow> string" where
  "digit_word c = [''zero'', ''one'', ''two'', ''three'', ''four'', ''five'', ''six'', ''seven'', ''eight'', ''nine''] ! (ascii c - 48)"

text \<open>\<open>out\<close> is what has been written into a buffer of the given size.\<close>

fun spell_loop :: "nat \<Rightarrow> string \<Rightarrow> string \<Rightarrow> string" where
  "spell_loop outsz [] out = out"
| "spell_loop outsz (c # cs) out =
     (if length out < outsz - 8
      then (let out1 = (if length out > 0 then out @ '' '' else out)
            in spell_loop outsz cs (if is_digit c then out1 @ digit_word c else if c = CHR ''.'' then out1 @ ''point'' else out1))
      else out)"

definition spell_number :: "string \<Rightarrow> nat \<Rightarrow> string" where
  "spell_number num outsz = spell_loop outsz num []"

text \<open>The callsign with spaces between its letters.\<close>

fun spaced_loop :: "string \<Rightarrow> string \<Rightarrow> string" where
  "spaced_loop [] out = out"
| "spaced_loop (c # cs) out =
     (if length out < 64 - 2 then spaced_loop cs ((if length out > 0 then out @ '' '' else out) @ [c]) else out)"

definition voice_text :: "cwid \<Rightarrow> string" where
  "voice_text s =
     (let base = spaced_loop (cw_callsign s) [] @ '' repeater, '' @ spell_number (cw_frequency s) 128 @ '' megahertz''
      in c_trunc 512 (if cw_pl s \<noteq> [] then base @ '', '' @ cw_pl s @ ''.'' else base @ ''.''))"

definition cwid_snapshot :: "cw_env \<Rightarrow> cwid \<Rightarrow> string" where
  "cwid_snapshot env s =
     (let next_fire = (if cw_mode s = CWID_MODE_ALWAYS \<and> cw_interval s > 0
                       then we_wall env + cdiv (cw_interval s - Prelude.cmod (we_wall env * 1000) (cw_interval s) + 999) 1000 else 0);
          b = (\<lambda>x. if x then ''true'' else ''false'')
      in c_trunc 768
           (''{'' @ quoted ''mode'' @ '':'' @ quoted (if cw_mode s = CWID_MODE_ON_CALL then ''on_call'' else ''always'') @ '','' @
            quoted ''callsign'' @ '':'' @ quoted (cw_callsign s) @ '','' @ quoted ''frequency'' @ '':'' @ quoted (cw_frequency s) @ '','' @
            quoted ''pl_tone'' @ '':'' @ quoted (cw_pl s) @ '','' @ quoted ''interval_sec'' @ '':'' @ show_int (cdiv (cw_interval s) 1000) @ '','' @
            quoted ''wpm'' @ '':'' @ show_int (cw_wpm s) @ '','' @ quoted ''freq_hz'' @ '':'' @ show_int (cw_freq s) @ '','' @
            quoted ''in_quiet_hours'' @ '':'' @ b (is_quiet_hour env s) @ '','' @ quoted ''quiet_start_hour'' @ '':'' @ show_int (cw_qstart s) @ '','' @
            quoted ''quiet_end_hour'' @ '':'' @ show_int (cw_qend s) @ '','' @ quoted ''pending'' @ '':'' @ b (cw_pending s) @ '','' @
            quoted ''on_call_state'' @ '':'' @ quoted (case cw_oc s of OC_ACTIVE \<Rightarrow> ''active'' | OC_TAIL \<Rightarrow> ''tail'' | OC_IDLE \<Rightarrow> ''idle'') @ '','' @
            quoted ''next_fire_epoch'' @ '':'' @ show_int next_fire @ ''}''))"

definition publish_cwid :: "cw_env \<Rightarrow> cwid \<Rightarrow> cw_effect list" where
  "publish_cwid env s = (if we_sse env then [Cw_publish (cwid_snapshot env s)] else [])"

subsection \<open>The identification\<close>

text \<open>Rendering in chunks of 1600 samples until the encoder is through or the buffer of ten seconds is full.\<close>

function cw_render :: "nat \<Rightarrow> nat \<Rightarrow> nat \<Rightarrow> nat" where
  "cw_render n cap pos = (if pos < n \<and> pos < cap then cw_render n cap (pos + min 1600 (cap - pos)) else pos)"
  by pat_completeness auto

termination by (relation "measure (\<lambda>(n, cap, pos). cap - pos)") auto

declare cw_render.simps [simp del]

definition send_cwid :: "cw_env \<Rightarrow> cwid \<Rightarrow> cwid \<times> cw_effect list" where
  "send_cwid env s =
     (if cw_callsign s = [] then (s, [])
      else (case we_encoder env (cw_callsign s) (cw_freq s) (cw_wpm s) (cw_amp s) of
              None \<Rightarrow> (s, [])
            | Some n \<Rightarrow>
                if \<not> we_mem env then (s, [])
                else (let pos = cw_render n (we_rate env * 10) 0; s1 = s\<lparr>cw_pending := False\<rparr>
                      in (s1, (if pos > 0 then [Cw_silence 200, Cw_audio pos, Cw_silence 100] else []) @
                              (if cw_voice s \<and> we_tts env \<and> cw_frequency s \<noteq> [] then [Cw_silence 500, Cw_speak (voice_text s)] else []) @
                              [Cw_announce (cw_callsign s)] @ publish_cwid env s1))))"

text \<open>The schedule of the mode with fixed times.\<close>

definition cwid_timer_cb :: "cw_env \<Rightarrow> cwid \<Rightarrow> cwid \<times> cw_effect list" where
  "cwid_timer_cb env s =
     (if is_quiet_hour env s then (s, [])
      else if \<not> we_receiving env \<and> \<not> we_transmitting env then send_cwid env s
      else (s\<lparr>cw_pending := True\<rparr>, []))"

subsection \<open>Conversations\<close>

type_synonym 't cw_create = "nat \<Rightarrow> 't \<Rightarrow> int \<Rightarrow> bool \<Rightarrow> cw_cb option \<Rightarrow> 't \<times> int"
type_synonym 't cw_cancel = "'t \<Rightarrow> int \<Rightarrow> 't"
type_synonym 't cw_op = "cwid \<Rightarrow> 't \<Rightarrow> cwid \<times> 't \<times> cw_effect list"

definition oc_cancel_timer :: "'t cw_cancel \<Rightarrow> cwid \<Rightarrow> 't \<Rightarrow> cwid \<times> 't" where
  "oc_cancel_timer cancel s t = (if cw_oc_timer s \<ge> 0 then (s\<lparr>cw_oc_timer := -1\<rparr>, cancel t (cw_oc_timer s)) else (s, t))"

definition oc_active_tick :: "cw_env \<Rightarrow> cwid \<Rightarrow> cwid \<times> cw_effect list" where
  "oc_active_tick env s =
     (if is_quiet_hour env s then (s, [])
      else if \<not> we_receiving env \<and> \<not> we_transmitting env then send_cwid env s
      else (s\<lparr>cw_pending := True\<rparr>, []))"

definition oc_tail_expire :: "cw_env \<Rightarrow> cwid \<Rightarrow> cwid \<times> cw_effect list" where
  "oc_tail_expire env s =
     (let s1 = s\<lparr>cw_oc_timer := -1\<rparr>;
          (s2, es) = (if \<not> is_quiet_hour env s1 then send_cwid env s1 else (s1, []));
          s3 = s2\<lparr>cw_oc := OC_IDLE\<rparr>
      in (s3, es @ publish_cwid env s3))"

definition oc_enter_active :: "'t cw_create \<Rightarrow> 't cw_cancel \<Rightarrow> cw_env \<Rightarrow> bool \<Rightarrow> 't cw_op" where
  "oc_enter_active create cancel env from_idle s t =
     (let (s1, t1) = oc_cancel_timer cancel s t;
          s2 = s1\<lparr>cw_oc := OC_ACTIVE, cw_pending := (if from_idle then True else cw_pending s1)\<rparr>;
          (t2, tid) = create (we_now_us env) t1 (cw_interval s2) True (Some CB_oc_active);
          s3 = s2\<lparr>cw_oc_timer := tid\<rparr>
      in (s3, t2, publish_cwid env s3))"

definition tail_ms :: "cwid \<Rightarrow> int" where
  "tail_ms s = (if cw_tail s > 0 then cw_tail s else cw_interval s)"

definition oc_enter_tail :: "'t cw_create \<Rightarrow> 't cw_cancel \<Rightarrow> cw_env \<Rightarrow> 't cw_op" where
  "oc_enter_tail create cancel env s t =
     (let (s1, t1) = oc_cancel_timer cancel s t; s2 = s1\<lparr>cw_oc := OC_TAIL\<rparr>;
          (t2, tid) = create (we_now_us env) t1 (tail_ms s2) False (Some CB_oc_tail);
          s3 = s2\<lparr>cw_oc_timer := tid\<rparr>
      in (s3, t2, publish_cwid env s3))"

definition on_queue_preempted :: "cw_env \<Rightarrow> string option \<Rightarrow> cwid \<Rightarrow> cwid \<times> cw_effect list" where
  "on_queue_preempted env source s =
     (if source \<noteq> Some ''cwid'' then (s, []) else (let s1 = s\<lparr>cw_pending := True\<rparr> in (s1, publish_cwid env s1)))"

definition on_tail_start :: "cw_env \<Rightarrow> cwid \<Rightarrow> cwid \<times> cw_effect list" where
  "on_tail_start env s = (if cw_pending s \<and> \<not> is_quiet_hour env s then send_cwid env s else (s, []))"

definition cw_state_change :: "'t cw_create \<Rightarrow> 't cw_cancel \<Rightarrow> cw_env \<Rightarrow> int \<Rightarrow> 't cw_op" where
  "cw_state_change create cancel env ns s t =
     (if cw_mode s = CWID_MODE_ALWAYS
      then (let (s1, es) = (if ns = 0 \<and> cw_pending s \<and> \<not> is_quiet_hour env s then send_cwid env s else (s, [])) in (s1, t, es))
      else (case cw_oc s of
              OC_IDLE \<Rightarrow> if ns \<noteq> 0 then oc_enter_active create cancel env True s t else (s, t, [])
            | OC_ACTIVE \<Rightarrow>
                if ns = 0 then (let (s1, es) = (if cw_pending s \<and> \<not> is_quiet_hour env s then send_cwid env s else (s, []));
                                    (s2, t2, es2) = oc_enter_tail create cancel env s1 t
                                in (s2, t2, es @ es2))
                else (s, t, [])
            | OC_TAIL \<Rightarrow> if ns \<noteq> 0 then oc_enter_active create cancel env False s t else (s, t, [])))"

subsection \<open>Configuration\<close>

definition pad3 :: "int \<Rightarrow> string" where
  "pad3 n = replicate (3 - length (show_int n)) (CHR ''0'') @ show_int n"

definition pl_text :: "config \<Rightarrow> string" where
  "pl_text cfg =
     (let plain = (let c = config_get_int cfg ''repeater'' ''tx_ctcss'' 0; d = config_get_int cfg ''repeater'' ''tx_dcs'' 0
                   in if c > 0 then c_trunc 32 (''P L '' @ show_int (cdiv c 10) @ '' point '' @ show_int (Prelude.cmod c 10) @ '' hertz'')
                      else if d > 0 then c_trunc 32 (''D C S code '' @ pad3 d) else [])
      in case config_get cfg ''repeater'' ''pl_tone'' of
           Some pl \<Rightarrow> if pl \<noteq> [] then c_trunc 32 pl else plain
         | None \<Rightarrow> plain)"

text \<open>The settings that are read, before the timers and the schedule are made anew.\<close>

definition cwid_settings :: "config \<Rightarrow> cwid \<Rightarrow> cwid" where
  "cwid_settings cfg s =
     (let ms = config_get_duration_ms cfg ''repeater'' ''cwid_interval'' 600000;
          wpm = config_get_int cfg ''repeater'' ''cwid_wpm'' 20;
          cs = (case config_get cfg ''general'' ''cwid_callsign'' of
                  Some c \<Rightarrow> if c = [] then config_get cfg ''general'' ''callsign'' else Some c
                | None \<Rightarrow> config_get cfg ''general'' ''callsign'')
      in s\<lparr>cw_interval := (if ms > 900000 then 900000 else ms),
           cw_wpm := (if wpm < 5 then 20 else wpm),
           cw_freq := config_get_int cfg ''repeater'' ''cwid_freq'' 800,
           cw_amp := wrap16 (config_get_int cfg ''repeater'' ''cwid_amplitude'' 4000),
           cw_callsign := (case cs of Some c \<Rightarrow> c_trunc 16 c | None \<Rightarrow> cw_callsign s),
           cw_frequency := (case config_get cfg ''general'' ''frequency'' of Some f \<Rightarrow> c_trunc 16 f | None \<Rightarrow> cw_frequency s),
           cw_pl := pl_text cfg,
           cw_voice := (case config_get cfg ''repeater'' ''voice_id'' of Some v \<Rightarrow> v \<noteq> ''off'' | None \<Rightarrow> cw_voice s),
           cw_qstart := config_get_int cfg ''repeater'' ''quiet_start'' (-1),
           cw_qend := config_get_int cfg ''repeater'' ''quiet_end'' (-1),
           cw_solar := (config_get cfg ''repeater'' ''quiet_mode'' = Some ''solar''),
           cw_offset := config_get_int cfg ''repeater'' ''solar_offset'' 0,
           cw_lat := (case config_get cfg ''general'' ''latitude'' of Some x \<Rightarrow> c_trunc 16 x | None \<Rightarrow> cw_lat s),
           cw_lon := (case config_get cfg ''general'' ''longitude'' of Some x \<Rightarrow> c_trunc 16 x | None \<Rightarrow> cw_lon s)\<rparr>)"

text \<open>The solar timer and the schedule.\<close>

definition solar_setup :: "'t cw_create \<Rightarrow> 't cw_cancel \<Rightarrow> cw_env \<Rightarrow> cwid \<Rightarrow> 't \<Rightarrow> cwid \<times> 't" where
  "solar_setup create cancel env s t =
     (let t1 = (if cw_solar_timer s \<ge> 0 then cancel t (cw_solar_timer s) else t); s1 = s\<lparr>cw_solar_timer := -1\<rparr>
      in if cw_solar s1 \<and> cw_lat s1 \<noteq> [] \<and> cw_lon s1 \<noteq> []
         then (let (t2, tid) = create (we_now_us env) t1 86400000 True (Some CB_solar)
               in ((fetch_solar_times env s1)\<lparr>cw_solar_timer := tid\<rparr>, t2))
         else (s1, t1))"

definition schedule_drop :: "cwid \<Rightarrow> cw_cb schedules \<Rightarrow> cwid \<times> cw_cb schedules" where
  "schedule_drop s k = (if cw_sched s \<ge> 0 then (s\<lparr>cw_sched := -1\<rparr>, sched_cancel k (cw_sched s)) else (s, k))"

definition schedule_setup :: "cw_env \<Rightarrow> cwid \<Rightarrow> cw_cb schedules \<Rightarrow> cwid \<times> cw_cb schedules" where
  "schedule_setup env s k =
     (if cw_mode s = CWID_MODE_ALWAYS
      then (let (k', i) = sched_aligned (we_clock env) k (cw_interval s) 0 True (Some CB_cwid_schedule) in (s\<lparr>cw_sched := i\<rparr>, k'))
      else (s, k))"

definition cwid_configure ::
  "'t cw_create \<Rightarrow> 't cw_cancel \<Rightarrow> cw_env \<Rightarrow> config \<Rightarrow> cwid \<Rightarrow> 't \<Rightarrow> cw_cb schedules \<Rightarrow> cwid \<times> 't \<times> cw_cb schedules \<times> cw_effect list" where
  "cwid_configure create cancel env cfg s t k =
     (let (s1, t1) = solar_setup create cancel env (cwid_settings cfg s) t;
          s2 = s1\<lparr>cw_mode := (if config_get cfg ''repeater'' ''cwid_mode'' = Some ''on_call'' then CWID_MODE_ON_CALL else CWID_MODE_ALWAYS),
                 cw_tail := config_get_duration_ms cfg ''repeater'' ''cwid_tail'' 0\<rparr>;
          (s3, k3) = schedule_drop s2 k;
          (s4, t4) = oc_cancel_timer cancel s3 t1;
          (s5, k5) = schedule_setup env (s4\<lparr>cw_oc := OC_IDLE\<rparr>) k3
      in (s5, t4, k5, publish_cwid env s5))"

definition cwid_unload :: "'t cw_cancel \<Rightarrow> cwid \<Rightarrow> 't \<Rightarrow> cw_cb schedules \<Rightarrow> cwid \<times> 't \<times> cw_cb schedules" where
  "cwid_unload cancel s t k =
     (let (s1, k1) = schedule_drop s k; (s2, t2) = oc_cancel_timer cancel s1 t
      in if cw_solar_timer s2 \<ge> 0 then (s2\<lparr>cw_solar_timer := -1\<rparr>, cancel t2 (cw_solar_timer s2), k1) else (s2, t2, k1))"

subsection \<open>The machine\<close>

datatype cw_in = Wi_state int | Wi_tail_start | Wi_preempted "string option" | Wi_expire int | Wi_boundary | Wi_now

text \<open>\<open>fire\<close> is what the tick does to the timer before its callback; the boundary is the callback of the schedule.\<close>

fun cw_step :: "'t cw_create \<Rightarrow> 't cw_cancel \<Rightarrow> ('t \<Rightarrow> int \<Rightarrow> (cw_cb \<times> nat) option) \<Rightarrow> (nat \<Rightarrow> 't \<Rightarrow> int \<Rightarrow> 't) \<Rightarrow> cw_env \<Rightarrow> cw_in \<Rightarrow> 't cw_op" where
  "cw_step create cancel timer_of fire env (Wi_state ns) s t = cw_state_change create cancel env ns s t"
| "cw_step create cancel timer_of fire env Wi_tail_start s t = (let (s1, es) = on_tail_start env s in (s1, t, es))"
| "cw_step create cancel timer_of fire env (Wi_preempted src) s t = (let (s1, es) = on_queue_preempted env src s in (s1, t, es))"
| "cw_step create cancel timer_of fire env (Wi_expire h) s t =
     (case timer_of t h of
        Some (c, due) \<Rightarrow>
          if due \<le> we_now_us env
          then (let (s1, es) = (case c of CB_oc_active \<Rightarrow> oc_active_tick env s | CB_oc_tail \<Rightarrow> oc_tail_expire env s
                                | CB_solar \<Rightarrow> (fetch_solar_times env s, []) | _ \<Rightarrow> (s, []))
                in (s1, fire (we_now_us env) t h, es))
          else (s, t, [])
      | None \<Rightarrow> (s, t, []))"
| "cw_step create cancel timer_of fire env Wi_boundary s t =
     (if cw_sched s \<ge> 0 then (let (s1, es) = cwid_timer_cb env s in (s1, t, es)) else (s, t, []))"
| "cw_step create cancel timer_of fire env Wi_now s t = (let (s1, es) = send_cwid env s in (s1, t, es))"

fun cw_run :: "'t cw_create \<Rightarrow> 't cw_cancel \<Rightarrow> ('t \<Rightarrow> int \<Rightarrow> (cw_cb \<times> nat) option) \<Rightarrow> (nat \<Rightarrow> 't \<Rightarrow> int \<Rightarrow> 't) \<Rightarrow> (cw_env \<times> cw_in) list \<Rightarrow> 't cw_op" where
  "cw_run create cancel timer_of fire [] s t = (s, t, [])"
| "cw_run create cancel timer_of fire ((env, i) # is) s t =
     (let (s1, t1, es) = cw_step create cancel timer_of fire env i s t; (s2, t2, es2) = cw_run create cancel timer_of fire is s1 t1
      in (s2, t2, es @ es2))"

end
