(* ===== verification/Cwid_Props.thy ===== *)
theory Cwid_Props
  imports Cwid
begin

text \<open>
  What holds of the station identification over its runs: the one timer of a conversation matches its state,
  a deferred identification stays pending, and a conversation ends with a last one.
\<close>

subsection \<open>Quiet hours and texts\<close>

text \<open>Over the hours of a day the quiet hours are the cyclic interval from start to end.\<close>

lemma quiet_is_interval:
  assumes "0 \<le> cw_qstart s" "cw_qstart s < 24" "0 \<le> cw_qend s" "cw_qend s < 24" "0 \<le> we_hour env" "we_hour env < 24"
  shows "is_quiet_hour env s \<longleftrightarrow> (we_hour env - cw_qstart s) mod 24 < (cw_qend s - cw_qstart s) mod 24"
proof -
  have m: "(a - b) mod 24 = (if b \<le> a then a - b else a - b + 24)" if "0 \<le> a" "a < 24" "0 \<le> b" "b < 24" for a b :: int
  proof (cases "b \<le> a")
    case True
    with that show ?thesis by (simp add: mod_pos_pos_trivial)
  next
    case False
    have "(a - b) mod 24 = (a - b + 24) mod 24" by simp
    also have "\<dots> = a - b + 24" by (rule mod_pos_pos_trivial) (use False that in simp_all)
    finally show ?thesis using False by simp
  qed
  show ?thesis using assms by (simp add: is_quiet_hour_def m)
qed

text \<open>
  The quiet hours from the sun are whole hours: with the sunset at 20:45 and no offset they begin
  at 20:00, 45 minutes before the sunset.
\<close>

lemma solar_quiet_early: "solar_quiet 0 360 1245 = (20, 6)"
  by (simp add: solar_quiet_def Let_def cdiv_def)

lemma cwid_interval_capped: "cw_interval (cwid_settings cfg s) \<le> 900000"
  by (simp add: cwid_settings_def Let_def)

text \<open>Rendering stops when the encoder is through, or at the end of the buffer.\<close>

lemma cw_render_covers: "pos \<le> cap \<Longrightarrow> min n cap \<le> cw_render n cap pos \<and> cw_render n cap pos \<le> cap"
proof (induction n cap pos rule: cw_render.induct)
  case (1 n cap pos)
  show ?case
  proof (cases "pos < n \<and> pos < cap")
    case True
    then have "cw_render n cap pos = cw_render n cap (pos + min 1600 (cap - pos))" by (subst cw_render.simps) simp
    moreover have "pos + min 1600 (cap - pos) \<le> cap" using True by linarith
    ultimately show ?thesis using 1(1)[OF True] by simp
  next
    case False
    with 1(2) show ?thesis by (subst (1 2) cw_render.simps) auto
  qed
qed

subsection \<open>Single operations\<close>

lemma send_cwid_fst: "fst (send_cwid env s) = s\<lparr>cw_pending := cw_pending (fst (send_cwid env s))\<rparr>"
  by (simp add: send_cwid_def Let_def split: option.split)

text \<open>Sending announces the callsign, or leaves the pending flag alone.\<close>

definition cw_sent :: "cw_effect list \<Rightarrow> bool" where
  "cw_sent es \<longleftrightarrow> (\<exists>c. Cw_announce c \<in> set es)"

lemma cw_sent_append [simp]: "cw_sent (xs @ ys) \<longleftrightarrow> cw_sent xs \<or> cw_sent ys" "\<not> cw_sent []"
  by (auto simp: cw_sent_def)

lemma publish_not_sent [simp]: "\<not> cw_sent (publish_cwid env s)"
  by (simp add: cw_sent_def publish_cwid_def)

lemma send_cwid_cases:
  assumes "send_cwid env s = (s', es)"
  obtains "s' = s" "es = []" | "s' = s\<lparr>cw_pending := False\<rparr>" "cw_sent es"
proof -
  have "(s' = s \<and> es = []) \<or> (s' = s\<lparr>cw_pending := False\<rparr> \<and> cw_sent es)"
    using assms by (auto simp: send_cwid_def Let_def cw_sent_def split: if_splits option.splits)
  then show thesis using that by blast
qed

text \<open>The encoder makes \<open>n\<close> samples of the callsign and there is memory; then all of them are queued, up to ten seconds.\<close>

definition cw_works :: "cw_env \<Rightarrow> cwid \<Rightarrow> nat \<Rightarrow> bool" where
  "cw_works env s n \<longleftrightarrow> cw_callsign s \<noteq> [] \<and> we_encoder env (cw_callsign s) (cw_freq s) (cw_wpm s) (cw_amp s) = Some n \<and> 0 < n \<and> 0 < we_rate env \<and> we_mem env"

definition cw_id_queued :: "cw_env \<Rightarrow> cwid \<Rightarrow> nat \<Rightarrow> cw_effect list \<Rightarrow> bool" where
  "cw_id_queued env s n es \<longleftrightarrow> (\<exists>m \<ge> min n (we_rate env * 10). Cw_audio m \<in> set es) \<and> Cw_announce (cw_callsign s) \<in> set es"

lemma send_cwid_works:
  assumes "cw_works env s n" "send_cwid env s = (s', es)"
  shows "s' = s\<lparr>cw_pending := False\<rparr> \<and> cw_id_queued env s n es"
proof -
  have r: "min n (we_rate env * 10) \<le> cw_render n (we_rate env * 10) 0" using cw_render_covers[of 0 "we_rate env * 10" n] by simp
  with assms(1) have "0 < cw_render n (we_rate env * 10) 0" by (simp add: cw_works_def min_def split: if_splits)
  with assms r show ?thesis by (auto simp: cw_works_def cw_id_queued_def send_cwid_def Let_def)
qed

subsection \<open>The timer of a conversation\<close>

definition oc_cb :: "oc_state \<Rightarrow> cw_cb" where
  "oc_cb o' = (if o' = OC_ACTIVE then CB_oc_active else CB_oc_tail)"

definition cw_own :: "cw_cb \<Rightarrow> bool" where
  "cw_own c \<longleftrightarrow> c = CB_oc_active \<or> c = CB_oc_tail"

lemma cw_own_simps [simp]: "cw_own CB_oc_active" "cw_own CB_oc_tail" "\<not> cw_own CB_solar" "cw_own (oc_cb o')"
  by (simp_all add: cw_own_def oc_cb_def)

lemma enter_active_mode: "oc_enter_active create cancel env fi s t = (s', t', es) \<Longrightarrow> cw_mode s' = cw_mode s"
  by (auto simp: oc_enter_active_def oc_cancel_timer_def Let_def split: prod.splits if_splits)

lemma oc_tail_expire_fields:
  assumes "oc_tail_expire env s = (s', es)"
  shows "cw_oc s' = OC_IDLE" "cw_oc_timer s' = -1" "cw_solar_timer s' = cw_solar_timer s" "cw_mode s' = cw_mode s"
proof -
  obtain s2 e2 where "send_cwid env (s\<lparr>cw_oc_timer := -1\<rparr>) = (s2, e2)" by (cases "send_cwid env (s\<lparr>cw_oc_timer := -1\<rparr>)")
  then have "cw_oc s' = OC_IDLE \<and> cw_oc_timer s' = -1 \<and> cw_solar_timer s' = cw_solar_timer s \<and> cw_mode s' = cw_mode s"
    using assms by (auto simp: oc_tail_expire_def Let_def split: if_splits elim!: send_cwid_cases)
  then show "cw_oc s' = OC_IDLE" "cw_oc_timer s' = -1" "cw_solar_timer s' = cw_solar_timer s" "cw_mode s' = cw_mode s" by blast+
qed

locale cwid_timers = repeating_timers srv_inv create cancel timer_of again fire
  for srv_inv :: "'t \<Rightarrow> bool"
    and create :: "nat \<Rightarrow> 't \<Rightarrow> int \<Rightarrow> bool \<Rightarrow> cw_cb option \<Rightarrow> 't \<times> int"
    and cancel :: "'t \<Rightarrow> int \<Rightarrow> 't"
    and timer_of :: "'t \<Rightarrow> int \<Rightarrow> (cw_cb \<times> nat) option"
    and again :: "'t \<Rightarrow> int \<Rightarrow> bool"
    and fire :: "nat \<Rightarrow> 't \<Rightarrow> int \<Rightarrow> 't"
begin

definition cw_timers :: "'t \<Rightarrow> int \<Rightarrow> cw_cb \<Rightarrow> bool \<Rightarrow> int \<Rightarrow> bool" where
  "cw_timers t h c rep k \<longleftrightarrow> sole_kind cw_own t h c rep \<and> sole_kind (\<lambda>c. c = CB_solar) t k CB_solar True"

lemma cw_timers_apart: "cw_timers t h c rep k \<Longrightarrow> 0 \<le> h \<Longrightarrow> h \<noteq> k"
  by (auto simp: cw_timers_def sole_kind_def sole_def)

lemma timers_create:
  assumes "cw_timers t h c rep k" "h < 0" "cw_own d" "create now t ms rep' (Some d) = (t', tid)"
  shows "cw_timers t' tid d rep' k"
  using kind_create[of cw_own, OF _ assms(2-4)] kind_other_create[of "\<lambda>c. c = CB_solar", OF _ assms(4)] assms(1,3)
  unfolding cw_timers_def by fastforce

lemma timers_cancel:
  assumes "cw_timers t (cw_oc_timer s) c rep k" "oc_cancel_timer cancel s t = (s1, t1)" "cw_own d"
  shows "s1 = s\<lparr>cw_oc_timer := cw_oc_timer s1\<rparr>" "cw_oc_timer s1 < 0" "cw_timers t1 (cw_oc_timer s1) d rep' k"
proof -
  have "s1 = s\<lparr>cw_oc_timer := cw_oc_timer s1\<rparr> \<and> cw_oc_timer s1 < 0 \<and> cw_timers t1 (cw_oc_timer s1) d rep' k"
  proof (cases "cw_oc_timer s \<ge> 0")
    case True
    with assms(2) have e: "s1 = s\<lparr>cw_oc_timer := -1\<rparr>" "t1 = cancel t (cw_oc_timer s)" by (auto simp: oc_cancel_timer_def)
    have "sole_kind cw_own t1 (-1) d rep'" unfolding e(2) by (rule kind_cancel[of cw_own t "cw_oc_timer s" c rep]) (use assms(1,3) in \<open>simp_all add: cw_timers_def\<close>)
    moreover have "sole_kind (\<lambda>c. c = CB_solar) t1 k CB_solar True" unfolding e(2)
      by (rule kind_other_cancel) (use assms(1) cw_timers_apart[OF assms(1) True] in \<open>simp_all add: cw_timers_def\<close>)
    ultimately show ?thesis using e(1) by (simp add: cw_timers_def)
  next
    case False
    with assms(2) have e: "s1 = s" "t1 = t" by (auto simp: oc_cancel_timer_def)
    with False assms(1,3) kind_none[of cw_own t "cw_oc_timer s" c rep d "cw_oc_timer s" rep'] show ?thesis by (simp add: cw_timers_def)
  qed
  then show "s1 = s\<lparr>cw_oc_timer := cw_oc_timer s1\<rparr>" "cw_oc_timer s1 < 0" "cw_timers t1 (cw_oc_timer s1) d rep' k" by blast+
qed

definition cw_ok :: "cwid \<Rightarrow> 't \<Rightarrow> bool" where
  "cw_ok s t \<longleftrightarrow> cw_timers t (cw_oc_timer s) (oc_cb (cw_oc s)) (cw_oc s = OC_ACTIVE) (cw_solar_timer s) \<and>
     (cw_oc s = OC_IDLE \<longrightarrow> cw_oc_timer s < 0) \<and> (cw_mode s = CWID_MODE_ALWAYS \<longrightarrow> cw_oc s = OC_IDLE)"

text \<open>Operations that touch the pending flag alone.\<close>

lemma ok_pending: "cw_ok (s\<lparr>cw_pending := b\<rparr>) t = cw_ok s t"
  by (simp add: cw_ok_def)

lemma ok_send: "cw_ok s t \<Longrightarrow> send_cwid env s = (s', es) \<Longrightarrow> cw_ok s' t"
  by (erule send_cwid_cases) (simp_all add: ok_pending)

lemma enter_active_ok:
  assumes "cw_ok s t" "cw_mode s = CWID_MODE_ON_CALL" "oc_enter_active create cancel env fi s t = (s', t', es)"
  shows "cw_ok s' t'" "cw_oc s' = OC_ACTIVE" "0 \<le> cw_oc_timer s' \<Longrightarrow> timer_of t' (cw_oc_timer s') = Some (CB_oc_active, we_now_us env + nat (cw_interval s) * 1000)"
proof -
  obtain s1 t1 where c: "oc_cancel_timer cancel s t = (s1, t1)" by (cases "oc_cancel_timer cancel s t")
  have T: "cw_timers t (cw_oc_timer s) (oc_cb (cw_oc s)) (cw_oc s = OC_ACTIVE) (cw_solar_timer s)" using assms(1) by (simp add: cw_ok_def)
  note k = timers_cancel[OF T c cw_own_simps(1)]
  have s1: "cw_interval s1 = cw_interval s" "cw_mode s1 = cw_mode s" "cw_solar_timer s1 = cw_solar_timer s" by (subst k(1); simp)+
  obtain t2 tid where cr: "create (we_now_us env) t1 (cw_interval s1) True (Some CB_oc_active) = (t2, tid)"
    by (cases "create (we_now_us env) t1 (cw_interval s1) True (Some CB_oc_active)")
  have e: "t' = t2" "cw_oc s' = OC_ACTIVE" "cw_oc_timer s' = tid" "cw_mode s' = cw_mode s" "cw_solar_timer s' = cw_solar_timer s"
    using assms(3) c cr s1 by (auto simp: oc_enter_active_def Let_def)
  have "cw_timers t2 tid CB_oc_active True (cw_solar_timer s)" by (rule timers_create[OF k(3)[where rep' = True] k(2) _ cr]) simp_all
  with e assms(2) show "cw_ok s' t'" by (simp add: cw_ok_def oc_cb_def)
  show "cw_oc s' = OC_ACTIVE" by (fact e(2))
  have "srv_inv t1" using k(3)[where rep' = True] by (simp add: cw_timers_def sole_kind_def sole_def)
  from handle_create(3)[OF this cr] e(1,3) s1(1)
  show "timer_of t' (cw_oc_timer s') = Some (CB_oc_active, we_now_us env + nat (cw_interval s) * 1000)" if "0 \<le> cw_oc_timer s'" using that by simp
qed

lemma enter_tail_ok:
  assumes "cw_ok s t" "cw_mode s = CWID_MODE_ON_CALL" "oc_enter_tail create cancel env s t = (s', t', es)"
  shows "cw_ok s' t'" "cw_oc s' = OC_TAIL" "0 \<le> cw_oc_timer s' \<Longrightarrow> timer_of t' (cw_oc_timer s') = Some (CB_oc_tail, we_now_us env + nat (tail_ms s) * 1000)"
    "s' = s\<lparr>cw_oc := OC_TAIL, cw_oc_timer := cw_oc_timer s'\<rparr>"
proof -
  obtain s1 t1 where c: "oc_cancel_timer cancel s t = (s1, t1)" by (cases "oc_cancel_timer cancel s t")
  have T: "cw_timers t (cw_oc_timer s) (oc_cb (cw_oc s)) (cw_oc s = OC_ACTIVE) (cw_solar_timer s)" using assms(1) by (simp add: cw_ok_def)
  note k = timers_cancel[OF T c cw_own_simps(2)]
  let ?s2 = "s1\<lparr>cw_oc := OC_TAIL\<rparr>"
  have s1: "tail_ms ?s2 = tail_ms s" using arg_cong[OF k(1), of cw_tail] arg_cong[OF k(1), of cw_interval] by (simp add: tail_ms_def)
  obtain t2 tid where cr: "create (we_now_us env) t1 (tail_ms ?s2) False (Some CB_oc_tail) = (t2, tid)"
    by (cases "create (we_now_us env) t1 (tail_ms ?s2) False (Some CB_oc_tail)")
  have "t' = t2" "s' = s1\<lparr>cw_oc := OC_TAIL, cw_oc_timer := tid\<rparr>" using assms(3) c cr by (auto simp: oc_enter_tail_def Let_def)
  moreover have "s\<lparr>cw_oc_timer := a, cw_oc := OC_TAIL, cw_oc_timer := tid\<rparr> = s\<lparr>cw_oc := OC_TAIL, cw_oc_timer := tid\<rparr>" for a by (cases s) simp
  then have "s1\<lparr>cw_oc := OC_TAIL, cw_oc_timer := tid\<rparr> = s\<lparr>cw_oc := OC_TAIL, cw_oc_timer := tid\<rparr>" using k(1) by metis
  ultimately have e: "t' = t2" "s' = s\<lparr>cw_oc := OC_TAIL, cw_oc_timer := tid\<rparr>" by simp_all
  have "cw_timers t2 tid CB_oc_tail False (cw_solar_timer s)" by (rule timers_create[OF k(3)[where rep' = True] k(2) _ cr]) simp_all
  with e assms(2) show "cw_ok s' t'" by (simp add: cw_ok_def oc_cb_def)
  show "cw_oc s' = OC_TAIL" "s' = s\<lparr>cw_oc := OC_TAIL, cw_oc_timer := cw_oc_timer s'\<rparr>" by (simp_all add: e)
  have "srv_inv t1" using k(3)[where rep' = True] by (simp add: cw_timers_def sole_kind_def sole_def)
  from handle_create(3)[OF this cr] e s1
  show "timer_of t' (cw_oc_timer s') = Some (CB_oc_tail, we_now_us env + nat (tail_ms s) * 1000)" if "0 \<le> cw_oc_timer s'" using that by simp
qed

text \<open>The rest of an operation keeps all but the pending flag and the quiet hours.\<close>

lemma ok_same:
  assumes "cw_ok s t" "cw_oc s' = cw_oc s" "cw_oc_timer s' = cw_oc_timer s" "cw_solar_timer s' = cw_solar_timer s" "cw_mode s' = cw_mode s"
  shows "cw_ok s' t"
  using assms by (simp add: cw_ok_def)

lemma state_change_ok:
  assumes "cw_ok s t" "cw_state_change create cancel env ns s t = (s', t', es)"
  shows "cw_ok s' t' \<and> cw_mode s' = cw_mode s"
proof (cases "cw_mode s")
  case CWID_MODE_ALWAYS
  obtain s1 e1 where sd: "send_cwid env s = (s1, e1)" by (cases "send_cwid env s")
  have k: "cw_ok s1 t" "cw_mode s1 = cw_mode s" using ok_send[OF assms(1) sd] sd by (simp_all, elim send_cwid_cases) simp_all
  have "s' = (if ns = 0 \<and> cw_pending s \<and> \<not> is_quiet_hour env s then s1 else s)" "t' = t"
    using assms(2) CWID_MODE_ALWAYS sd by (auto simp: cw_state_change_def split: if_splits)
  with k assms(1) show ?thesis by simp
next
  case CWID_MODE_ON_CALL
  show ?thesis
  proof (cases "cw_oc s = OC_ACTIVE \<and> ns = 0")
    case True
    obtain s1 e1 where sd: "(if cw_pending s \<and> \<not> is_quiet_hour env s then send_cwid env s else (s, [])) = (s1, e1)" by (metis surj_pair)
    obtain s2 t2 e2 where tl: "oc_enter_tail create cancel env s1 t = (s2, t2, e2)" by (rule prod_cases3)
    have k: "cw_ok s1 t \<and> cw_mode s1 = cw_mode s" using sd ok_send[OF assms(1)] assms(1) by (auto split: if_splits elim!: send_cwid_cases)
    note e = enter_tail_ok[OF conjunct1[OF k] _ tl]
    have "s' = s2" "t' = t2" using assms(2) True CWID_MODE_ON_CALL sd tl by (auto simp: cw_state_change_def)
    moreover have "cw_mode s2 = cw_mode s1" by (subst e(4)) (use k CWID_MODE_ON_CALL in simp_all)
    ultimately show ?thesis using e(1) k CWID_MODE_ON_CALL by simp
  next
    case False
    show ?thesis
    proof (cases "ns \<noteq> 0 \<and> cw_oc s \<noteq> OC_ACTIVE")
      case True
      then have "oc_enter_active create cancel env (cw_oc s = OC_IDLE) s t = (s', t', es)"
        using assms(2) CWID_MODE_ON_CALL by (cases "cw_oc s") (auto simp: cw_state_change_def)
      from enter_active_ok(1)[OF assms(1) CWID_MODE_ON_CALL this] enter_active_mode[OF this] show ?thesis by simp
    next
      case n: False
      with False assms CWID_MODE_ON_CALL show ?thesis by (cases "cw_oc s") (auto simp: cw_state_change_def)
    qed
  qed
qed

lemma fire_ok:
  assumes "cw_ok s t" "timer_of t h = Some (c, due)"
  shows "c = CB_oc_tail \<Longrightarrow> cw_oc s = OC_TAIL \<and> h = cw_oc_timer s \<and> cw_ok (s\<lparr>cw_oc_timer := -1, cw_oc := OC_IDLE\<rparr>) (fire now t h)"
    "c \<noteq> CB_oc_tail \<Longrightarrow> cw_ok s (fire now t h)"
    "c = CB_oc_active \<Longrightarrow> cw_oc s = OC_ACTIVE \<and> h = cw_oc_timer s"
proof -
  have T: "sole_kind cw_own t (cw_oc_timer s) (oc_cb (cw_oc s)) (cw_oc s = OC_ACTIVE)" "sole_kind (\<lambda>c. c = CB_solar) t (cw_solar_timer s) CB_solar True"
    using assms(1) by (simp_all add: cw_ok_def cw_timers_def)
  have own: "h = cw_oc_timer s" "c = oc_cb (cw_oc s)" "0 \<le> cw_oc_timer s" if "cw_own c" using kind_fires(1-3)[OF T(1) assms(2) that] by blast+
  have solar: "sole_kind (\<lambda>c. c = CB_solar) (fire now t h) (cw_solar_timer s) CB_solar True"
  proof (cases "c = CB_solar")
    case True
    with kind_fires(4)[OF T(2) assms(2)] show ?thesis by simp
  next
    case False
    show ?thesis by (rule kind_other[OF T(2) assms(2)]) (use False in simp)
  qed
  have idle: "cw_oc s \<noteq> OC_IDLE" if "cw_own c" using own(3)[OF that] assms(1) by (auto simp: cw_ok_def)
  show "cw_oc s = OC_TAIL \<and> h = cw_oc_timer s \<and> cw_ok (s\<lparr>cw_oc_timer := -1, cw_oc := OC_IDLE\<rparr>) (fire now t h)" if "c = CB_oc_tail"
  proof -
    have c: "cw_own c" using that by simp
    have tl: "cw_oc s = OC_TAIL" using own(2)[OF c] that idle[OF c] by (cases "cw_oc s") (auto simp: oc_cb_def)
    have "sole_kind cw_own (fire now t h) (-1) CB_oc_tail False"
      by (rule kind_fires(5)[OF T(1) assms(2) c]) (use tl in simp_all)
    with solar assms(1) tl own(1)[OF c] show ?thesis by (simp add: cw_ok_def cw_timers_def oc_cb_def)
  qed
  show "cw_oc s = OC_ACTIVE \<and> h = cw_oc_timer s" if "c = CB_oc_active"
    using own(1,2) that by (cases "cw_oc s") (auto simp: oc_cb_def)
  show "cw_ok s (fire now t h)" if "c \<noteq> CB_oc_tail"
  proof -
    have "sole_kind cw_own (fire now t h) (cw_oc_timer s) (oc_cb (cw_oc s)) (cw_oc s = OC_ACTIVE)"
    proof (cases "cw_own c")
      case True
      with own(2) that have "cw_oc s = OC_ACTIVE" by (cases "cw_oc s") (auto simp: oc_cb_def cw_own_def)
      with kind_fires(4)[OF T(1) assms(2) True] show ?thesis by simp
    next
      case False
      show ?thesis by (rule kind_other[OF T(1) assms(2) False])
    qed
    with solar assms(1) show ?thesis by (simp add: cw_ok_def cw_timers_def)
  qed
qed

lemma step_ok:
  assumes "cw_ok s t" "cw_step create cancel timer_of fire env i s t = (s', t', es)"
  shows "cw_ok s' t' \<and> cw_mode s' = cw_mode s"
proof (cases i)
  case (Wi_state ns)
  with assms state_change_ok[OF assms(1)] show ?thesis by simp
next
  case (Wi_expire h)
  show ?thesis
  proof (cases "\<exists>c due. timer_of t h = Some (c, due) \<and> due \<le> we_now_us env")
    case False
    with assms Wi_expire show ?thesis by (auto split: option.splits)
  next
    case True
    then obtain c due where c: "timer_of t h = Some (c, due)" "due \<le> we_now_us env" by blast
    note f = fire_ok[OF assms(1) c(1)]
    have t': "t' = fire (we_now_us env) t h" using assms(2) Wi_expire c by (auto split: prod.splits)
    show ?thesis
    proof (cases "c = CB_oc_tail")
      case True
      then have "oc_tail_expire env s = (s', es)" using assms(2) Wi_expire c by (auto split: prod.splits)
      note e = oc_tail_expire_fields[OF this]
      have "cw_ok (s\<lparr>cw_oc_timer := -1, cw_oc := OC_IDLE\<rparr>) t'" using f(1)[OF True, of "we_now_us env"] unfolding t' by blast
      from ok_same[OF this, of s'] e show ?thesis by simp
    next
      case other: False
      have "cw_oc s' = cw_oc s \<and> cw_oc_timer s' = cw_oc_timer s \<and> cw_solar_timer s' = cw_solar_timer s \<and> cw_mode s' = cw_mode s"
        using assms(2) Wi_expire c other by (cases c) (auto simp: oc_active_tick_def fetch_solar_times_def split: prod.splits if_splits option.splits elim!: send_cwid_cases)
      with ok_same[OF f(2)[OF other]] t' show ?thesis by simp
    qed
  qed
next
  case Wi_tail_start
  with assms ok_send[OF assms(1)] show ?thesis by (auto simp: on_tail_start_def split: if_splits prod.splits elim!: send_cwid_cases)
next
  case (Wi_preempted x)
  with assms show ?thesis by (auto simp: on_queue_preempted_def ok_pending Let_def split: if_splits)
next
  case Wi_boundary
  with assms ok_send[OF assms(1)] show ?thesis
    by (auto simp: cwid_timer_cb_def ok_pending split: if_splits prod.splits elim!: send_cwid_cases)
next
  case Wi_now
  with assms ok_send[OF assms(1)] show ?thesis by (auto split: prod.splits elim!: send_cwid_cases)
qed

lemma run_ok:
  assumes "cw_ok s t" "cw_run create cancel timer_of fire is s t = (s', t', es)"
  shows "cw_ok s' t' \<and> cw_mode s' = cw_mode s"
  using assms
proof (induction "is" arbitrary: s t s' t' es)
  case (Cons x "is")
  obtain env i where x: "x = (env, i)" by (cases x)
  obtain s1 t1 e1 where a: "cw_step create cancel timer_of fire env i s t = (s1, t1, e1)" by (rule prod_cases3)
  obtain s2 t2 e2 where b: "cw_run create cancel timer_of fire is s1 t1 = (s2, t2, e2)" by (rule prod_cases3)
  from Cons.IH[OF conjunct1[OF step_ok[OF Cons.prems(1) a]] b] step_ok[OF Cons.prems(1) a] Cons.prems(2) x a b show ?case by auto
qed simp

text \<open>Configuring: the solar timer is made anew, the timer of a conversation is cancelled.\<close>

lemma solar_cancel:
  assumes "cw_timers t h c rep k"
  shows "cw_timers (if k \<ge> 0 then cancel t k else t) h c rep (-1)"
proof (cases "k \<ge> 0")
  case True
  have "sole_kind (\<lambda>c. c = CB_solar) (cancel t k) (-1) CB_solar True"
    by (rule kind_cancel[of _ t k CB_solar True]) (use assms in \<open>simp_all add: cw_timers_def\<close>)
  moreover have "sole_kind cw_own (cancel t k) h c rep"
  proof (cases "h < 0")
    case True
    with assms show ?thesis using kind_other_cancel[of cw_own t h c rep k] \<open>k \<ge> 0\<close> by (simp add: cw_timers_def)
  next
    case False
    with assms cw_timers_apart[OF assms] show ?thesis by (intro kind_other_cancel) (auto simp: cw_timers_def)
  qed
  ultimately show ?thesis using True by (simp add: cw_timers_def)
next
  case False
  have "sole_kind (\<lambda>c. c = CB_solar) t (-1) CB_solar True"
    by (rule kind_none[of _ t k CB_solar True]) (use assms False in \<open>simp_all add: cw_timers_def\<close>)
  with assms False show ?thesis by (simp add: cw_timers_def)
qed

lemma solar_create:
  assumes "cw_timers t h c rep (-1)" "create now t ms True (Some CB_solar) = (t', tid)"
  shows "cw_timers t' h c rep tid"
proof -
  have "sole_kind (\<lambda>c. c = CB_solar) t' tid CB_solar True"
    by (rule kind_create[of _ t "-1" CB_solar True, OF _ _ _ assms(2)]) (use assms(1) in \<open>simp_all add: cw_timers_def\<close>)
  moreover have "sole_kind cw_own t' h c rep"
    by (rule kind_other_create[OF _ assms(2)]) (use assms(1) in \<open>simp_all add: cw_timers_def\<close>)
  ultimately show ?thesis by (simp add: cw_timers_def)
qed

lemma solar_setup_ok:
  assumes "cw_timers t (cw_oc_timer s) c rep (cw_solar_timer s)" "solar_setup create cancel env s t = (s', t')"
  shows "cw_oc_timer s' = cw_oc_timer s" "cw_timers t' (cw_oc_timer s) c rep (cw_solar_timer s')"
proof -
  let ?t1 = "if cw_solar_timer s \<ge> 0 then cancel t (cw_solar_timer s) else t"
  note T1 = solar_cancel[OF assms(1)]
  obtain t2 tid where cr: "create (we_now_us env) ?t1 86400000 True (Some CB_solar) = (t2, tid)" by (cases "create (we_now_us env) ?t1 86400000 True (Some CB_solar)")
  have f: "cw_oc_timer (fetch_solar_times env x) = cw_oc_timer x" for x
    by (simp add: fetch_solar_times_def split: option.split prod.split)
  have "(cw_oc_timer s' = cw_oc_timer s \<and> cw_solar_timer s' = tid \<and> t' = t2) \<or> (cw_oc_timer s' = cw_oc_timer s \<and> cw_solar_timer s' = -1 \<and> t' = ?t1)"
    using assms(2) cr f by (auto simp: solar_setup_def Let_def split: if_splits)
  then show "cw_oc_timer s' = cw_oc_timer s" "cw_timers t' (cw_oc_timer s) c rep (cw_solar_timer s')"
    using T1 solar_create[OF T1 cr] by auto
qed

lemma schedule_fields:
  "schedule_drop s k = (s', k') \<Longrightarrow> cw_oc_timer s' = cw_oc_timer s \<and> cw_solar_timer s' = cw_solar_timer s"
  "schedule_setup env s k = (s', k') \<Longrightarrow> cw_oc_timer s' = cw_oc_timer s \<and> cw_solar_timer s' = cw_solar_timer s \<and> cw_oc s' = cw_oc s"
  by (auto simp: schedule_drop_def schedule_setup_def split: if_splits prod.splits)

lemma configure_ok:
  assumes "cw_ok s t" "cwid_configure create cancel env cfg s t k = (s', t', k', es)"
  shows "cw_ok s' t'"
proof -
  have T: "cw_timers t (cw_oc_timer (cwid_settings cfg s)) (oc_cb (cw_oc s)) (cw_oc s = OC_ACTIVE) (cw_solar_timer (cwid_settings cfg s))"
    using assms(1) by (simp add: cw_ok_def cwid_settings_def Let_def)
  obtain s1 t1 where s1: "solar_setup create cancel env (cwid_settings cfg s) t = (s1, t1)" by (cases "solar_setup create cancel env (cwid_settings cfg s) t")
  let ?s2 = "s1\<lparr>cw_mode := (if config_get cfg ''repeater'' ''cwid_mode'' = Some ''on_call'' then CWID_MODE_ON_CALL else CWID_MODE_ALWAYS),
                 cw_tail := config_get_duration_ms cfg ''repeater'' ''cwid_tail'' 0\<rparr>"
  obtain s3 k3 where s3: "schedule_drop ?s2 k = (s3, k3)" by (cases "schedule_drop ?s2 k")
  obtain s4 t4 where s4: "oc_cancel_timer cancel s3 t1 = (s4, t4)" by (cases "oc_cancel_timer cancel s3 t1")
  obtain s5 k5 where s5: "schedule_setup env (s4\<lparr>cw_oc := OC_IDLE\<rparr>) k3 = (s5, k5)" by (cases "schedule_setup env (s4\<lparr>cw_oc := OC_IDLE\<rparr>) k3")
  have e: "s' = s5" "t' = t4" using assms(2) by (simp_all add: cwid_configure_def s1 s3 s4 s5 Let_def)
  have T3: "cw_timers t1 (cw_oc_timer s3) (oc_cb (cw_oc s)) (cw_oc s = OC_ACTIVE) (cw_solar_timer s3)"
    using solar_setup_ok[OF T s1] schedule_fields(1)[OF s3] by simp
  note c = timers_cancel[OF T3 s4 cw_own_simps(2)]
  have "cw_solar_timer s4 = cw_solar_timer s3" using arg_cong[OF c(1), of cw_solar_timer] by simp
  with c(2) c(3)[where rep' = False] schedule_fields(2)[OF s5] e show ?thesis by (simp add: cw_ok_def oc_cb_def)
qed

text \<open>With the repeating timer armed the tail's timer always finds a slot.\<close>

lemma tail_armed:
  assumes "cw_ok s t" "cw_oc s = OC_ACTIVE" "0 \<le> cw_oc_timer s" "0 < tail_ms s" "oc_enter_tail create cancel env s t = (s', t', es)"
  shows "0 < cw_oc_timer s'"
proof -
  obtain t2 tid where cr: "create (we_now_us env) (cancel t (cw_oc_timer s)) (tail_ms s) False (Some CB_oc_tail) = (t2, tid)"
    by (cases "create (we_now_us env) (cancel t (cw_oc_timer s)) (tail_ms s) False (Some CB_oc_tail)")
  have "srv_inv t" "timer_of t (cw_oc_timer s) \<noteq> None" using assms(1,3) by (auto simp: cw_ok_def cw_timers_def sole_kind_def sole_def)
  from slot_law[OF this assms(4) cr] have "0 < tid" .
  moreover have "tail_ms (s\<lparr>cw_oc_timer := -1, cw_oc := OC_TAIL\<rparr>) = tail_ms s" by (simp add: tail_ms_def)
  then have "cw_oc_timer s' = tid" using assms(3,5) cr by (auto simp: oc_enter_tail_def oc_cancel_timer_def Let_def)
  ultimately show ?thesis by simp
qed

end

interpretation cw: cwid_timers timer_inv timer_create timer_cancel armed repeats timer_fire
  by unfold_locales

text \<open>What the module reaches from its start on a timer table that holds none of its timers.\<close>

inductive cw_reach :: "cwid \<Rightarrow> cw_cb timers \<Rightarrow> cw_cb schedules \<Rightarrow> bool" where
  boot: "timer_inv t \<Longrightarrow> (\<And>h due. armed t h \<noteq> Some (CB_oc_active, due) \<and> armed t h \<noteq> Some (CB_oc_tail, due) \<and> armed t h \<noteq> Some (CB_solar, due)) \<Longrightarrow>
    cw_reach cwid_boot t k"
| step: "cw_reach s t k \<Longrightarrow> cw_step timer_create timer_cancel armed timer_fire env i s t = (s', t', es) \<Longrightarrow> cw_reach s' t' k"
| configure: "cw_reach s t k \<Longrightarrow> cwid_configure timer_create timer_cancel env cfg s t k = (s', t', k', es) \<Longrightarrow> cw_reach s' t' k'"

lemma cw_reach_ok: "cw_reach s t k \<Longrightarrow> cw.cw_ok s t"
proof (induction rule: cw_reach.induct)
  case (boot t k)
  then have "rts.sole_kind cw_own t (-1) CB_oc_tail False" "rts.sole_kind (\<lambda>c. c = CB_solar) t (-1) CB_solar True"
    by (auto simp: rts.sole_kind_def ts.sole_def cw_own_def)
  then show ?case by (simp add: cw.cw_ok_def cw.cw_timers_def cwid_boot_def oc_cb_def)
next
  case (step s t k env i s' t' es)
  with cw.step_ok show ?case by blast
next
  case (configure s t k env cfg s' t' k' es)
  with cw.configure_ok show ?case by blast
qed

text \<open>
  One timer per conversation. However the module is configured, reconfigured and driven by
  state changes of the receiver, tails, preemptions, boundaries and expiries: the timer table
  holds a timer of a conversation only in the mode of conversations and outside the idle
  state, it is the one whose handle is stored, it is the repeating one exactly in the active
  state and the one-shot of the final identification in the tail, and a stored handle is armed.
\<close>

theorem cwid_one_timer:
  assumes "cw_reach s t k"
  shows "(armed t h = Some (CB_oc_active, due) \<longrightarrow> cw_mode s = CWID_MODE_ON_CALL \<and> cw_oc s = OC_ACTIVE \<and> h = cw_oc_timer s \<and> repeats t h) \<and>
    (armed t h = Some (CB_oc_tail, due) \<longrightarrow> cw_mode s = CWID_MODE_ON_CALL \<and> cw_oc s = OC_TAIL \<and> h = cw_oc_timer s \<and> \<not> repeats t h) \<and>
    (0 \<le> cw_oc_timer s \<longrightarrow> cw_oc s \<noteq> OC_IDLE \<and> (\<exists>d. armed t (cw_oc_timer s) = Some (if cw_oc s = OC_ACTIVE then CB_oc_active else CB_oc_tail, d)))"
proof -
  have ok: "cw.cw_ok s t" using cw_reach_ok[OF assms] .
  then have T: "rts.sole_kind cw_own t (cw_oc_timer s) (oc_cb (cw_oc s)) (cw_oc s = OC_ACTIVE)" by (simp add: cw.cw_ok_def cw.cw_timers_def)
  have r: "repeats t (cw_oc_timer s) = (cw_oc s = OC_ACTIVE)" if "0 \<le> cw_oc_timer s" using T that by (simp add: rts.sole_kind_def)
  have own: "h = cw_oc_timer s \<and> c = oc_cb (cw_oc s) \<and> 0 \<le> cw_oc_timer s \<and> cw_oc s \<noteq> OC_IDLE \<and> cw_mode s = CWID_MODE_ON_CALL"
    if "armed t h = Some (c, due)" "cw_own c" for c
    using rts.kind_fires(1-3)[OF T that] ok by (cases "cw_mode s") (auto simp: cw.cw_ok_def)
  have 1: "armed t h = Some (CB_oc_active, due) \<Longrightarrow> cw_mode s = CWID_MODE_ON_CALL \<and> cw_oc s = OC_ACTIVE \<and> h = cw_oc_timer s \<and> repeats t h"
    using own[of CB_oc_active] r by (auto simp: oc_cb_def split: if_splits)
  have 2: "armed t h = Some (CB_oc_tail, due) \<Longrightarrow> cw_mode s = CWID_MODE_ON_CALL \<and> cw_oc s = OC_TAIL \<and> h = cw_oc_timer s \<and> \<not> repeats t h"
    using own[of CB_oc_tail] r by (cases "cw_oc s") (auto simp: oc_cb_def split: if_splits)
  have 3: "cw_oc s \<noteq> OC_IDLE \<and> (\<exists>d. armed t (cw_oc_timer s) = Some (if cw_oc s = OC_ACTIVE then CB_oc_active else CB_oc_tail, d))" if "0 \<le> cw_oc_timer s"
    using T that ok by (auto simp: rts.sole_kind_def ts.sole_def oc_cb_def cw.cw_ok_def)
  from 1 2 3 show ?thesis by blast
qed

subsection \<open>No identification is lost\<close>

lemma send_pending: "send_cwid env s = (s', es) \<Longrightarrow> cw_pending s \<Longrightarrow> cw_pending s' \<or> cw_sent es"
  by (erule send_cwid_cases) auto

lemma oc_cancel_pending: "oc_cancel_timer cancel s t = (s1, t1) \<Longrightarrow> cw_pending s1 = cw_pending s"
  by (auto simp: oc_cancel_timer_def split: if_splits)

lemma enter_pending:
  "oc_enter_active create cancel env fi s t = (s', t', es) \<Longrightarrow> cw_pending s' = (fi \<or> cw_pending s)"
  "oc_enter_tail create cancel env s t = (s', t', es) \<Longrightarrow> cw_pending s' = cw_pending s"
  by (auto simp: oc_enter_active_def oc_enter_tail_def oc_cancel_timer_def Let_def split: prod.splits if_splits)

lemma cw_step_pending:
  assumes "cw_step create cancel timer_of fire env i s t = (s', t', es)" "cw_pending s"
  shows "cw_pending s' \<or> cw_sent es"
proof (cases i)
  case (Wi_state ns)
  obtain s1 e1 where sd: "send_cwid env s = (s1, e1)" by (cases "send_cwid env s")
  obtain s2 t2 e2 where tl: "oc_enter_tail create cancel env (if cw_pending s \<and> \<not> is_quiet_hour env s then s1 else s) t = (s2, t2, e2)" by (rule prod_cases3)
  have "cw_state_change create cancel env ns s t = (s', t', es)" using assms(1) Wi_state by simp
  then consider "s' = s" | "s' = s1" "es = e1" | fi where "oc_enter_active create cancel env fi s t = (s', t', es)"
    | "s' = s2" "es = (if cw_pending s \<and> \<not> is_quiet_hour env s then e1 else []) @ e2"
    using sd tl by (cases "cw_mode s"; cases "cw_oc s") (auto simp: cw_state_change_def split: if_splits)
  then show ?thesis
  proof cases
    case 3
    with enter_pending(1)[OF this] assms(2) show ?thesis by simp
  qed (use assms(2) send_pending[OF sd] enter_pending(2)[OF tl] in \<open>auto split: if_splits\<close>)
next
  case (Wi_expire h)
  obtain s1 e1 where sd: "send_cwid env s = (s1, e1)" by (cases "send_cwid env s")
  obtain s2 e2 where sd2: "send_cwid env (s\<lparr>cw_oc_timer := -1\<rparr>) = (s2, e2)" by (cases "send_cwid env (s\<lparr>cw_oc_timer := -1\<rparr>)")
  from assms Wi_expire sd sd2 send_pending[OF sd] send_pending[OF sd2] show ?thesis
    by (auto simp: oc_active_tick_def oc_tail_expire_def fetch_solar_times_def Let_def split: option.splits cw_cb.splits if_splits prod.splits)
next
  case Wi_tail_start
  obtain s1 e1 where sd: "send_cwid env s = (s1, e1)" by (cases "send_cwid env s")
  from assms Wi_tail_start sd send_pending[OF sd] show ?thesis by (auto simp: on_tail_start_def split: if_splits)
next
  case (Wi_preempted x)
  with assms show ?thesis by (auto simp: on_queue_preempted_def Let_def split: if_splits)
next
  case Wi_boundary
  obtain s1 e1 where sd: "send_cwid env s = (s1, e1)" by (cases "send_cwid env s")
  from assms Wi_boundary sd send_pending[OF sd] show ?thesis by (auto simp: cwid_timer_cb_def split: if_splits)
next
  case Wi_now
  obtain s1 e1 where sd: "send_cwid env s = (s1, e1)" by (cases "send_cwid env s")
  from assms Wi_now sd send_pending[OF sd] show ?thesis by auto
qed

lemma cw_run_pending:
  assumes "cw_run create cancel timer_of fire is s t = (s', t', es)" "cw_pending s"
  shows "cw_pending s' \<or> cw_sent es"
  using assms
proof (induction "is" arbitrary: s t s' t' es)
  case (Cons x "is")
  obtain env i where x: "x = (env, i)" by (cases x)
  obtain s1 t1 e1 where a: "cw_step create cancel timer_of fire env i s t = (s1, t1, e1)" by (rule prod_cases3)
  obtain s2 t2 e2 where b: "cw_run create cancel timer_of fire is s1 t1 = (s2, t2, e2)" by (rule prod_cases3)
  from Cons.IH[OF b] cw_step_pending[OF a Cons.prems(2)] Cons.prems(1) x a b show ?case by auto
qed simp

text \<open>
  An identification is due but deferred: its preemption is reported under its name, its time came on a busy channel, or a
  conversation starts.
\<close>

definition cw_deferred :: "cw_env \<Rightarrow> cwid \<Rightarrow> cw_cb timers \<Rightarrow> cw_in \<Rightarrow> bool" where
  "cw_deferred env s t i \<longleftrightarrow>
     (case i of
        Wi_preempted src \<Rightarrow> src = Some ''cwid''
      | Wi_boundary \<Rightarrow> 0 \<le> cw_sched s \<and> \<not> is_quiet_hour env s \<and> (we_receiving env \<or> we_transmitting env)
      | Wi_expire h \<Rightarrow> (case armed t h of Some (CB_oc_active, due) \<Rightarrow> due \<le> we_now_us env \<and> \<not> is_quiet_hour env s \<and> (we_receiving env \<or> we_transmitting env) | _ \<Rightarrow> False)
      | Wi_state ns \<Rightarrow> ns \<noteq> 0 \<and> cw_mode s = CWID_MODE_ON_CALL \<and> cw_oc s = OC_IDLE
      | _ \<Rightarrow> False)"

lemma deferred_pending:
  assumes "cw_step timer_create timer_cancel armed timer_fire env i s t = (s', t', es)" "cw_deferred env s t i"
  shows "cw_pending s'"
proof (cases i)
  case (Wi_state ns)
  with assms have "oc_enter_active timer_create timer_cancel env True s t = (s', t', es)" by (simp add: cw_deferred_def cw_state_change_def)
  from enter_pending(1)[OF this] show ?thesis by simp
next
  case (Wi_expire h)
  with assms show ?thesis by (auto simp: cw_deferred_def oc_active_tick_def split: option.splits cw_cb.splits prod.splits if_splits)
qed (use assms in \<open>auto simp: cw_deferred_def on_queue_preempted_def cwid_timer_cb_def Let_def split: if_splits\<close>)

text \<open>
  A deferred identification stays pending until one is sent, and a pending one is sent by the next tail outside the quiet
  hours. (With the queue, which decides what a preemption reports: \<open>Cwid_Queue\<close>.)
\<close>

lemma cwid_pending_kept:
  assumes "cw_step timer_create timer_cancel armed timer_fire env i s t = (s1, t1, e1)" "cw_deferred env s t i"
    and "cw_run timer_create timer_cancel armed timer_fire is s1 t1 = (s2, t2, e2)"
  shows "(cw_pending s2 \<or> (\<exists>c. Cw_announce c \<in> set e2)) \<and>
    (cw_pending s2 \<longrightarrow> cw_works env' s2 n \<longrightarrow> \<not> is_quiet_hour env' s2 \<longrightarrow>
      (case cw_step timer_create timer_cancel armed timer_fire env' Wi_tail_start s2 t2 of
         (s3, t3, e3) \<Rightarrow> \<not> cw_pending s3 \<and> cw_id_queued env' s2 n e3))"
proof -
  have "cw_pending s2 \<or> cw_sent e2" using cw_run_pending[OF assms(3) deferred_pending[OF assms(1,2)]] .
  moreover have "case cw_step timer_create timer_cancel armed timer_fire env' Wi_tail_start s2 t2 of (s3, t3, e3) \<Rightarrow> \<not> cw_pending s3 \<and> cw_id_queued env' s2 n e3"
    if "cw_pending s2" "cw_works env' s2 n" "\<not> is_quiet_hour env' s2"
  proof -
    obtain s3 e3 where sd: "send_cwid env' s2 = (s3, e3)" by (cases "send_cwid env' s2")
    from send_cwid_works[OF that(2) sd] that sd show ?thesis by (simp add: on_tail_start_def)
  qed
  ultimately show ?thesis by (auto simp: cw_sent_def)
qed

subsection \<open>The final identification\<close>

text \<open>What leaves the tail of a conversation alone: no new activity, and other timers.\<close>

fun cw_calm :: "int \<Rightarrow> cw_env \<times> cw_in \<Rightarrow> bool" where
  "cw_calm h (env, Wi_state ns) = (ns = 0)"
| "cw_calm h (env, Wi_expire h') = (h' \<noteq> h)"
| "cw_calm h (env, i) = True"

text \<open>What they keep: all but the pending flag and the quiet hours.\<close>

definition cw_same :: "cwid \<Rightarrow> cwid \<Rightarrow> bool" where
  "cw_same s s' \<longleftrightarrow> (\<exists>p qs qe. s' = s\<lparr>cw_pending := p, cw_qstart := qs, cw_qend := qe\<rparr>)"

lemma cw_same_refl: "cw_same s s"
  unfolding cw_same_def by (intro exI[of _ "cw_pending s"] exI[of _ "cw_qstart s"] exI[of _ "cw_qend s"]) simp

lemma cw_same_trans: "cw_same s s1 \<Longrightarrow> cw_same s1 s2 \<Longrightarrow> cw_same s s2"
  unfolding cw_same_def by fastforce

lemma cw_same_pending: "cw_same s (s\<lparr>cw_pending := p\<rparr>)"
  unfolding cw_same_def by (intro exI[of _ p] exI[of _ "cw_qstart s"] exI[of _ "cw_qend s"]) simp

lemma cw_same_send: "send_cwid env s = (s', es) \<Longrightarrow> cw_same s s'"
  by (erule send_cwid_cases) (simp_all add: cw_same_refl cw_same_pending)

lemma cw_same_solar: "cw_same s (fetch_solar_times env s)"
proof -
  have "cw_same s (s\<lparr>cw_qstart := a, cw_qend := b\<rparr>)" for a b
    unfolding cw_same_def by (intro exI[of _ "cw_pending s"] exI[of _ a] exI[of _ b]) simp
  then show ?thesis by (simp add: fetch_solar_times_def cw_same_refl split: option.split prod.split)
qed

lemma calm_step:
  assumes "cw.cw_ok s t" "cw_mode s = CWID_MODE_ON_CALL" "cw_oc s = OC_TAIL" "armed t h = Some (CB_oc_tail, due)"
    and "cw_calm h (env, i)" "cw_step timer_create timer_cancel armed timer_fire env i s t = (s', t', es)"
  shows "cw_same s s' \<and> armed t' h = Some (CB_oc_tail, due)"
proof (cases i)
  case (Wi_state ns)
  with assms show ?thesis by (simp add: cw_state_change_def cw_same_refl)
next
  case (Wi_expire h')
  show ?thesis
  proof (cases "\<exists>c d. armed t h' = Some (c, d) \<and> d \<le> we_now_us env")
    case False
    with assms(4,6) Wi_expire have "s' = s" "t' = t" by (auto split: option.splits)
    with assms(4) show ?thesis by (simp add: cw_same_refl)
  next
    case True
    then obtain c d where c: "armed t h' = Some (c, d)" "d \<le> we_now_us env" by blast
    have ne: "h' \<noteq> h" using assms(5) Wi_expire by simp
    have own: "c \<noteq> CB_oc_tail" using cw.fire_ok(1)[OF assms(1) c(1)] cw.fire_ok(1)[OF assms(1,4)] ne by blast
    have t': "t' = timer_fire (we_now_us env) t h'" using assms(6) Wi_expire c by (auto split: prod.splits)
    have inv: "timer_inv t" using assms(1) by (simp add: cw.cw_ok_def cw.cw_timers_def rts.sole_kind_def ts.sole_def)
    have "armed t' h = armed t h"
      using timer_fire_law[OF inv c(1), of "we_now_us env"] timer_cancel_armed[OF inv, of h'] ne unfolding t' by (auto split: if_splits)
    moreover have "cw_same s s'"
    proof -
      obtain s1 e1 where sd: "send_cwid env s = (s1, e1)" by (cases "send_cwid env s")
      from assms(6) Wi_expire c own sd cw_same_send[OF sd] show ?thesis
        by (cases c) (auto simp: oc_active_tick_def cw_same_refl cw_same_pending cw_same_solar split: if_splits)
    qed
    ultimately show ?thesis using assms(4) by simp
  qed
next
  case Wi_tail_start
  obtain s1 e1 where sd: "send_cwid env s = (s1, e1)" by (cases "send_cwid env s")
  with assms(4,6) Wi_tail_start cw_same_send[OF sd] show ?thesis by (auto simp: on_tail_start_def cw_same_refl split: if_splits)
next
  case (Wi_preempted x)
  with assms(4,6) show ?thesis by (auto simp: on_queue_preempted_def cw_same_refl cw_same_pending Let_def split: if_splits)
next
  case Wi_boundary
  obtain s1 e1 where sd: "send_cwid env s = (s1, e1)" by (cases "send_cwid env s")
  with assms(4,6) Wi_boundary cw_same_send[OF sd] show ?thesis by (auto simp: cwid_timer_cb_def cw_same_refl cw_same_pending split: if_splits)
next
  case Wi_now
  obtain s1 e1 where sd: "send_cwid env s = (s1, e1)" by (cases "send_cwid env s")
  with assms(4,6) Wi_now cw_same_send[OF sd] show ?thesis by auto
qed

lemma calm_run:
  assumes "cw.cw_ok s t" "cw_mode s = CWID_MODE_ON_CALL" "cw_oc s = OC_TAIL" "armed t h = Some (CB_oc_tail, due)"
    and "list_all (cw_calm h) is" "cw_run timer_create timer_cancel armed timer_fire is s t = (s', t', es)"
  shows "cw_same s s' \<and> armed t' h = Some (CB_oc_tail, due)"
  using assms
proof (induction "is" arbitrary: s t s' t' es)
  case Nil
  then show ?case by (simp add: cw_same_refl)
next
  case (Cons x "is")
  obtain env i where x: "x = (env, i)" by (cases x)
  obtain s1 t1 e1 where a: "cw_step timer_create timer_cancel armed timer_fire env i s t = (s1, t1, e1)" by (rule prod_cases3)
  obtain s2 t2 e2 where b: "cw_run timer_create timer_cancel armed timer_fire is s1 t1 = (s2, t2, e2)" by (rule prod_cases3)
  have calm: "cw_calm h (env, i)" "list_all (cw_calm h) is" using Cons.prems(5) x by simp_all
  note k = calm_step[OF Cons.prems(1-4) calm(1) a]
  have s1: "cw_mode s1 = CWID_MODE_ON_CALL" "cw_oc s1 = OC_TAIL" using k Cons.prems(2,3) by (auto simp: cw_same_def)
  from Cons.IH[OF conjunct1[OF cw.step_ok[OF Cons.prems(1) a]] s1 conjunct2[OF k] calm(2) b] k Cons.prems(6) x a b cw_same_trans
  show ?case by auto
qed

text \<open>
  C32. Every conversation ends with an identification. In the mode of conversations, when the channel
  goes idle the module enters the tail and, unless the timer table is full, arms the timer of
  the final identification for the configured tail (or the interval). As long as only calm
  inputs follow (no new activity; tails, preemptions, boundaries, other timers and commands
  do not matter) the timer stays, and when it fires outside the quiet hours the identification
  is queued in whole, nothing is pending, and the module is idle with no timer of its own.
\<close>

theorem cwid_final_id:
  assumes "cw_reach s t k" "cw_mode s = CWID_MODE_ON_CALL" "cw_oc s = OC_ACTIVE"
    and "cw_step timer_create timer_cancel armed timer_fire env (Wi_state 0) s t = (s1, t1, e1)" "0 \<le> cw_oc_timer s1"
    and "list_all (cw_calm (cw_oc_timer s1)) is" "cw_run timer_create timer_cancel armed timer_fire is s1 t1 = (s2, t2, e2)"
    and "we_now_us env + nat (tail_ms s) * 1000 \<le> we_now_us env'" "\<not> is_quiet_hour env' s2" "cw_works env' s2 n"
    and "cw_step timer_create timer_cancel armed timer_fire env' (Wi_expire (cw_oc_timer s1)) s2 t2 = (s3, t3, e3)"
  shows "cw_id_queued env' s2 n e3 \<and> \<not> cw_pending s3 \<and> cw_oc s3 = OC_IDLE \<and> armed t3 h \<noteq> Some (CB_oc_active, d) \<and> armed t3 h \<noteq> Some (CB_oc_tail, d)"
proof -
  obtain s0 e0 where sd: "(if cw_pending s \<and> \<not> is_quiet_hour env s then send_cwid env s else (s, [])) = (s0, e0)" by (metis surj_pair)
  obtain s1' t1' e1' where tl: "oc_enter_tail timer_create timer_cancel env s0 t = (s1', t1', e1')" by (rule prod_cases3)
  have ok: "cw.cw_ok s t" using cw_reach_ok[OF assms(1)] .
  have k0: "cw.cw_ok s0 t" "cw_mode s0 = CWID_MODE_ON_CALL" "tail_ms s0 = tail_ms s"
    using sd cw.ok_send[OF ok] ok assms(2) by (auto simp: tail_ms_def split: if_splits elim!: send_cwid_cases)
  have e: "s1 = s1'" "t1 = t1'" using assms(2-4) sd tl by (auto simp: cw_state_change_def)
  note k = cw.enter_tail_ok[OF k0(1,2) tl]
  let ?h = "cw_oc_timer s1" let ?due = "we_now_us env + nat (tail_ms s) * 1000"
  have a1: "armed t1 ?h = Some (CB_oc_tail, ?due)" using k(3) assms(5) e k0(3) by simp
  have m1: "cw_mode s1 = CWID_MODE_ON_CALL" using arg_cong[OF k(4), of cw_mode] k0(2) e by simp
  note c = calm_run[OF k(1)[folded e] m1 k(2)[folded e] a1 assms(6,7)]
  have ok2: "cw.cw_ok s2 t2" using cw.run_ok[OF k(1)[folded e] assms(7)] by blast
  have tx: "oc_tail_expire env' s2 = (s3, e3)" "t3 = timer_fire (we_now_us env') t2 ?h"
    using assms(8,11) c by (auto split: prod.splits)
  let ?s = "s2\<lparr>cw_oc_timer := -1\<rparr>"
  obtain s4 e4 where sd4: "send_cwid env' ?s = (s4, e4)" by (cases "send_cwid env' ?s")
  have "is_quiet_hour env' ?s = is_quiet_hour env' s2" by (simp add: is_quiet_hour_def)
  then have w: "cw_works env' ?s n" "\<not> is_quiet_hour env' ?s" using assms(9,10) by (simp_all add: cw_works_def)
  note q = send_cwid_works[OF w(1) sd4]
  have 1: "cw_id_queued env' s2 n e3 \<and> \<not> cw_pending s3 \<and> cw_oc s3 = OC_IDLE"
    using tx(1) sd4 w(2) q by (auto simp: oc_tail_expire_def Let_def cw_id_queued_def)
  have ok3: "cw.cw_ok s3 t3" using cw.step_ok[OF ok2 assms(11)] by blast
  have "armed t3 h \<noteq> Some (c, d)" if "cw_own c" for c
  proof
    assume a: "armed t3 h = Some (c, d)"
    from ok3 have "rts.sole_kind cw_own t3 (cw_oc_timer s3) (oc_cb (cw_oc s3)) (cw_oc s3 = OC_ACTIVE)" by (simp add: cw.cw_ok_def cw.cw_timers_def)
    from rts.kind_fires(3)[OF this a that] ok3 1 show False by (simp add: cw.cw_ok_def)
  qed
  with 1 show ?thesis by simp
qed

subsection \<open>A station\<close>

definition cwid_demo_cfg :: config where
  "cwid_demo_cfg = \<lparr>cfg_entries = [\<lparr>ce_section = ''repeater'', ce_key = ''cwid_mode'', ce_value = ''on_call''\<rparr>,
     \<lparr>ce_section = ''general'', ce_key = ''callsign'', ce_value = ''W1AW''\<rparr>], cfg_path = []\<rparr>"

definition cwid_demo_env :: "nat \<Rightarrow> bool \<Rightarrow> cw_env" where
  "cwid_demo_env now busy = \<lparr>we_now_us = now, we_wall = 0, we_clock = \<lparr>tv_sec = 0, tv_nsec = 0\<rparr>, we_hour = 12, we_receiving = busy, we_transmitting = False,
     we_encoder = (\<lambda>_ _ _ _. Some 8000), we_rate = 8000, we_mem = True, we_tts = False, we_sse = False, we_solar = None\<rparr>"

lemma cwid_demo_settings:
  "cw_callsign (cwid_settings cwid_demo_cfg cwid_boot) = ''W1AW''" "cw_interval (cwid_settings cwid_demo_cfg cwid_boot) = 600000"
  "cw_qstart (cwid_settings cwid_demo_cfg cwid_boot) = -1" "\<not> cw_solar (cwid_settings cwid_demo_cfg cwid_boot)"
  "config_get cwid_demo_cfg ''repeater'' ''cwid_mode'' = Some ''on_call''" "config_get_duration_ms cwid_demo_cfg ''repeater'' ''cwid_tail'' 0 = 0"
  by code_simp+

abbreviation "cwid_demo_table \<equiv> timer_init (CB_cwid_foreign 0)"
abbreviation "cwid_demo_sched \<equiv> sched_init (CB_cwid_foreign 0)"

lemma cwid_demo_configured:
  obtains s k where "cw_reach s cwid_demo_table k" "cw_mode s = CWID_MODE_ON_CALL" "cw_oc s = OC_IDLE" "cw_oc_timer s = -1" "cw_interval s = 600000" "cw_tail s = 0"
    "cw_callsign s = ''W1AW''" "cw_qstart s = -1"
proof -
  obtain s t k es where c: "cwid_configure timer_create timer_cancel (cwid_demo_env 0 False) cwid_demo_cfg cwid_boot cwid_demo_table cwid_demo_sched = (s, t, k, es)"
    by (metis prod_cases4)
  have so: "cw_solar_timer (cwid_settings cwid_demo_cfg cwid_boot) = -1" "cw_sched (cwid_settings cwid_demo_cfg cwid_boot) = -1"
    "cw_oc_timer (cwid_settings cwid_demo_cfg cwid_boot) = -1" by (simp_all add: cwid_settings_def cwid_boot_def Let_def)
  have "t = cwid_demo_table" "cw_mode s = CWID_MODE_ON_CALL" "cw_oc s = OC_IDLE" "cw_oc_timer s = -1" "cw_interval s = 600000" "cw_tail s = 0"
    "cw_callsign s = ''W1AW''" "cw_qstart s = -1"
    using c cwid_demo_settings so by (auto simp: cwid_configure_def solar_setup_def schedule_drop_def schedule_setup_def oc_cancel_timer_def Let_def)
  moreover have "cw_reach cwid_boot cwid_demo_table cwid_demo_sched" by (rule cw_reach.boot) (simp_all add: timer_inv_init armed_init)
  ultimately show thesis using cw_reach.configure[OF _ c] that by blast
qed

text \<open>Someone keys up and the channel goes idle again.\<close>

lemma cwid_demo_conversation:
  obtains s0 k s t e s1 t1 e1 where "cw_reach s t k" "cw_mode s = CWID_MODE_ON_CALL" "cw_oc s = OC_ACTIVE" "tail_ms s = 600000" "cw_callsign s = ''W1AW''"
    "cw_step timer_create timer_cancel armed timer_fire (cwid_demo_env 0 True) (Wi_state 1) s0 cwid_demo_table = (s, t, e)" "cw_mode s0 = CWID_MODE_ON_CALL" "cw_oc s0 = OC_IDLE"
    "cw_step timer_create timer_cancel armed timer_fire (cwid_demo_env 5 False) (Wi_state 0) s t = (s1, t1, e1)" "0 \<le> cw_oc_timer s1" "cw_qstart s1 = -1" "cw_callsign s1 = ''W1AW''"
proof -
  obtain s0 k where s0: "cw_reach s0 cwid_demo_table k" "cw_mode s0 = CWID_MODE_ON_CALL" "cw_oc s0 = OC_IDLE" "cw_oc_timer s0 = -1" "cw_interval s0 = 600000" "cw_tail s0 = 0"
    "cw_callsign s0 = ''W1AW''" "cw_qstart s0 = -1" by (rule cwid_demo_configured)
  obtain s t e where a: "cw_step timer_create timer_cancel armed timer_fire (cwid_demo_env 0 True) (Wi_state 1) s0 cwid_demo_table = (s, t, e)" by (rule prod_cases3)
  have ea: "oc_enter_active timer_create timer_cancel (cwid_demo_env 0 True) True s0 cwid_demo_table = (s, t, e)" using a s0(2,3) by (simp add: cw_state_change_def)
  obtain t' tid where cr: "timer_create 0 cwid_demo_table 600000 True (Some CB_oc_active) = (t', tid)" by (metis surj_pair)
  have tid: "tid = 1" using cr by (simp add: first_timer_ms)
  have s: "cw_oc s = OC_ACTIVE" "cw_oc_timer s = 1" "cw_interval s = 600000" "cw_tail s = 0" "cw_mode s = CWID_MODE_ON_CALL" "cw_callsign s = ''W1AW''" "cw_qstart s = -1"
    using ea s0 cr tid by (auto simp: oc_enter_active_def oc_cancel_timer_def cwid_demo_env_def Let_def)
  have r: "cw_reach s t k" using cw_reach.step[OF s0(1) a] .
  obtain s1 t1 e1 where b: "cw_step timer_create timer_cancel armed timer_fire (cwid_demo_env 5 False) (Wi_state 0) s t = (s1, t1, e1)" by (rule prod_cases3)
  obtain s2 e2 where sd: "(if cw_pending s \<and> \<not> is_quiet_hour (cwid_demo_env 5 False) s then send_cwid (cwid_demo_env 5 False) s else (s, [])) = (s2, e2)" by (metis surj_pair)
  obtain s3 t3 e3 where tl: "oc_enter_tail timer_create timer_cancel (cwid_demo_env 5 False) s2 t = (s3, t3, e3)" by (rule prod_cases3)
  have ok2: "cw.cw_ok s2 t" using sd cw.ok_send[OF cw_reach_ok[OF r]] cw_reach_ok[OF r] by (auto split: if_splits)
  have s2: "cw_oc s2 = OC_ACTIVE" "cw_oc_timer s2 = 1" "tail_ms s2 = 600000" "cw_callsign s2 = ''W1AW''" "cw_qstart s2 = -1" "cw_mode s2 = CWID_MODE_ON_CALL"
    using sd s by (auto simp: tail_ms_def split: if_splits elim!: send_cwid_cases)
  have e: "s1 = s3" using b s sd tl by (auto simp: cw_state_change_def)
  have "0 < cw_oc_timer s3" by (rule cw.tail_armed[OF ok2 s2(1) _ _ tl]) (use s2 in simp_all)
  moreover have "cw_qstart s3 = -1" "cw_callsign s3 = ''W1AW''"
    using arg_cong[OF cw.enter_tail_ok(4)[OF ok2 s2(6) tl], of cw_qstart] arg_cong[OF cw.enter_tail_ok(4)[OF ok2 s2(6) tl], of cw_callsign] s2 by simp_all
  ultimately show thesis using that[OF r s(5) s(1) _ s(6) a s0(2,3) b] s(3,4) e by (simp add: tail_ms_def)
qed

theorem cwid_one_timer_witness:
  "\<exists>s t k. cw_reach s t k \<and> cw_oc s = OC_ACTIVE \<and> (\<forall>h due. armed t h = Some (CB_oc_active, due) \<longrightarrow> h = cw_oc_timer s \<and> repeats t h)"
proof (rule cwid_demo_conversation)
  fix s0 k s t e s1 t1 e1 assume r: "cw_reach s t k" "cw_oc s = OC_ACTIVE"
  have "armed t h = Some (CB_oc_active, due) \<longrightarrow> h = cw_oc_timer s \<and> repeats t h" for h due using cwid_one_timer[OF r(1), of h due] by blast
  with r show ?thesis by blast
qed

theorem cwid_final_id_witness:
  "\<exists>s t h e. cw_oc s = OC_IDLE \<and> cw_step timer_create timer_cancel armed timer_fire (cwid_demo_env 600000005 False) (Wi_expire h) (fst t) (snd t) = (s, e) \<and>
     Cw_announce ''W1AW'' \<in> set (snd e)"
proof (rule cwid_demo_conversation)
  fix s0 k s t e s1 t1 e1
  assume a: "cw_reach s t k" "cw_mode s = CWID_MODE_ON_CALL" "cw_oc s = OC_ACTIVE" "tail_ms s = 600000"
    "cw_step timer_create timer_cancel armed timer_fire (cwid_demo_env 5 False) (Wi_state 0) s t = (s1, t1, e1)" "0 \<le> cw_oc_timer s1" "cw_qstart s1 = -1" "cw_callsign s1 = ''W1AW''"
  let ?env = "cwid_demo_env 600000005 False"
  obtain s3 t3 e3 where b: "cw_step timer_create timer_cancel armed timer_fire ?env (Wi_expire (cw_oc_timer s1)) s1 t1 = (s3, t3, e3)" by (rule prod_cases3)
  have w: "\<not> is_quiet_hour ?env s1" "cw_works ?env s1 8000" using a(7,8) by (simp_all add: is_quiet_hour_def cw_works_def cwid_demo_env_def)
  have n: "we_now_us (cwid_demo_env 5 False) + nat (tail_ms s) * 1000 \<le> we_now_us ?env" by (simp add: a(4) cwid_demo_env_def)
  have "cw_id_queued ?env s1 8000 e3 \<and> cw_oc s3 = OC_IDLE"
    using cwid_final_id[OF a(1-3,5,6) _ _ n w b, of "[]" "[]"] by simp
  with b a(8) show ?thesis by (intro exI[of _ s3] exI[of _ "(s1, t1)"] exI[of _ "cw_oc_timer s1"] exI[of _ "(t3, e3)"]) (simp add: cw_id_queued_def)
qed

end
