(* ===== verification/Cwid_Queue.thy ===== *)
theory Cwid_Queue
  imports Cwid_Props Queue_Props
begin

text \<open>
  The station identification on the audio queue: what it queues, with the tag on the Morse item, and what a preemption
  (\<open>src/main.c\<close>) reports of it. An identification is not lost as long as its preemption is reported under its
  name; queued behind an untagged item, its own leading silence included, it is lost. The samples of the encoder are
  a parameter, a list for every number of samples; speech reaches the queue later and is not followed here.
\<close>

subsection \<open>The module on the queue\<close>

text \<open>What the effects of the module do to the queue; \<open>mem\<close> says whether its allocations succeed, 1 is the low priority.\<close>

fun cw_enqueue :: "bool \<Rightarrow> (nat \<Rightarrow> int list) \<Rightarrow> audio_queue \<Rightarrow> cw_effect list \<Rightarrow> audio_queue" where
  "cw_enqueue mem pcm q [] = q"
| "cw_enqueue mem pcm q (Cw_silence ms # es) = cw_enqueue mem pcm (fst (queue_add_silence mem q ms 1)) es"
| "cw_enqueue mem pcm q (Cw_audio n # es) =
     cw_enqueue mem pcm (fst (tag_added (Some ''cwid'') (queue_add_buffer mem q (Some (pcm n)) 1 0))) es"
| "cw_enqueue mem pcm q (e # es) = cw_enqueue mem pcm q es"

text \<open>
  Inputs of the module, operations of others on the queue, and the start of a transmission, which empties a queue that
  has something and tells the module the source.
\<close>

datatype cwq_in = Cq_module cw_in | Cq_preempt | Cq_queue queue_op

type_synonym cwq = "cwid \<times> cw_cb timers \<times> audio_queue"

abbreviation cw_do :: "cw_env \<Rightarrow> cw_in \<Rightarrow> cwid \<Rightarrow> cw_cb timers \<Rightarrow> cwid \<times> cw_cb timers \<times> cw_effect list" where
  "cw_do \<equiv> cw_step timer_create timer_cancel armed timer_fire"

fun cwq_step :: "(int list \<Rightarrow> int \<Rightarrow> int \<Rightarrow> int list option) \<Rightarrow> (int \<Rightarrow> int \<Rightarrow> int \<Rightarrow> nat \<Rightarrow> int list option) \<Rightarrow> (nat \<Rightarrow> int list) \<Rightarrow>
    cw_env \<times> bool \<times> cwq_in \<Rightarrow> cwq \<Rightarrow> cwq \<times> cw_effect list" where
  "cwq_step rs te pcm (env, mem, Cq_module i) (s, t, q) =
     (let (s1, t1, es) = cw_do env i s t in ((s1, t1, cw_enqueue mem pcm q es), es))"
| "cwq_step rs te pcm (env, mem, Cq_preempt) (s, t, q) =
     (if queue_is_draining q \<or> queue_depth q > 0
      then (let (q1, source, flushed) = queue_preempt q QUEUE_SOURCE_MAX
            in if flushed > 0
               then (let (s1, t1, es) = cw_do env (Wi_preempted source) s t in ((s1, t1, cw_enqueue mem pcm q1 es), es))
               else ((s, t, q1), []))
      else ((s, t, q), []))"
| "cwq_step rs te pcm (env, mem, Cq_queue op) (s, t, q) = ((s, t, queue_exec rs te mem q op), [])"

fun cwq_run :: "(int list \<Rightarrow> int \<Rightarrow> int \<Rightarrow> int list option) \<Rightarrow> (int \<Rightarrow> int \<Rightarrow> int \<Rightarrow> nat \<Rightarrow> int list option) \<Rightarrow> (nat \<Rightarrow> int list) \<Rightarrow>
    (cw_env \<times> bool \<times> cwq_in) list \<Rightarrow> cwq \<Rightarrow> cwq \<times> cw_effect list" where
  "cwq_run rs te pcm [] st = (st, [])"
| "cwq_run rs te pcm (i # is) st =
     (let (st1, es) = cwq_step rs te pcm i st; (st2, es2) = cwq_run rs te pcm is st1 in (st2, es @ es2))"

text \<open>
  The identification is reported when it is being drained, or when it is the first to be drained and no tagged item is
  being drained.
\<close>

definition id_reported :: "audio_queue \<Rightarrow> bool" where
  "id_reported q \<longleftrightarrow> (q_draining q \<and> q_drain_source q = ''cwid'') \<or>
     (\<not> (q_draining q \<and> q_drain_source q \<noteq> []) \<and> (\<exists>it rest. q_items q = it # rest \<and> item_source it = ''cwid''))"

text \<open>A deferral: a preemption that reports the identification, its time on a busy channel, or the start of a conversation.\<close>

definition cwq_deferred :: "cw_env \<times> bool \<times> cwq_in \<Rightarrow> cwq \<Rightarrow> bool" where
  "cwq_deferred x st \<longleftrightarrow>
     (case (x, st) of ((env, mem, i), s, t, q) \<Rightarrow>
        (case i of Cq_preempt \<Rightarrow> id_reported q | Cq_module (Wi_preempted src) \<Rightarrow> False | Cq_module j \<Rightarrow> cw_deferred env s t j | Cq_queue op \<Rightarrow> False))"

text \<open>The Morse item in the queue: tagged, with all of the samples up to ten seconds.\<close>

definition id_in_queue :: "cw_env \<Rightarrow> nat \<Rightarrow> audio_queue \<Rightarrow> bool" where
  "id_in_queue env n q \<longleftrightarrow>
     (\<exists>it \<in> set (q_items q). item_source it = ''cwid'' \<and> (\<exists>b. item_buf it = Some b \<and> min n (we_rate env * 10) \<le> length b))"

subsection \<open>What is queued\<close>

lemma c_trunc_cwid: "c_trunc QUEUE_SOURCE_MAX ''cwid'' = ''cwid''"
  by (simp add: c_trunc_def)

lemma cw_enqueue_inv: "q_inv q \<Longrightarrow> q_inv (cw_enqueue mem pcm q es)"
  by (induction mem pcm q es rule: cw_enqueue.induct) (simp_all add: queue_add_inv tag_added_inv)

lemma cw_enqueue_append: "cw_enqueue mem pcm q (xs @ ys) = cw_enqueue mem pcm (cw_enqueue mem pcm q xs) ys"
  by (induction mem pcm q xs rule: cw_enqueue.induct) simp_all

lemma tag_first_keeps: "it \<in> set its \<Longrightarrow> item_id it \<noteq> i \<Longrightarrow> it \<in> set (tag_first i src its)"
  by (induction its) auto

lemma tag_first_hits: "it \<in> set its \<Longrightarrow> item_id it = i \<Longrightarrow> distinct (map item_id its) \<Longrightarrow> it\<lparr>item_source := c_trunc QUEUE_SOURCE_MAX src\<rparr> \<in> set (tag_first i src its)"
  by (induction its) (auto simp: image_iff)

text \<open>Adding keeps the items that are there.\<close>

lemma queue_enqueue_keeps: "it \<in> set (q_items q) \<Longrightarrow> it \<in> set (q_items (fst (queue_enqueue q x)))"
  by (simp add: queue_enqueue_spec)

lemma queue_enqueue_id: "q_inv q \<Longrightarrow> 0 < snd (queue_enqueue q x) \<Longrightarrow> snd (queue_enqueue q x) = q_next_id q"
  by (simp add: queue_enqueue_spec split: if_splits)

lemma cw_enqueue_keeps:
  assumes "q_inv q" "it \<in> set (q_items q)"
  shows "it \<in> set (q_items (cw_enqueue mem pcm q es))"
  using assms
proof (induction mem pcm q es rule: cw_enqueue.induct)
  case (2 mem pcm q ms es)
  have "it \<in> set (q_items (fst (queue_add_silence mem q ms 1)))" using 2(3) queue_enqueue_keeps by (simp add: queue_add_silence_def)
  with 2 queue_add_inv(4) show ?case by simp
next
  case (3 mem pcm q n es)
  have old: "item_id it < q_next_id q" using 3(2,3) by (auto simp: q_inv_def ids_ok_def)
  obtain q1 i where q1: "queue_add_buffer mem q (Some (pcm n)) 1 0 = (q1, i)" by (metis surj_pair)
  have "it \<in> set (q_items q1)" "0 < i \<longrightarrow> i = q_next_id q"
    using q1 3(2,3) queue_enqueue_keeps[of it q "new_item QUEUE_AUDIO_BUFFER 1 0 (pcm n)"] queue_enqueue_id[of q "new_item QUEUE_AUDIO_BUFFER 1 0 (pcm n)"]
    by (auto simp: queue_add_buffer_def split: if_splits)
  then have "it \<in> set (q_items (fst (tag_added (Some ''cwid'') (q1, i))))"
    using old tag_first_keeps[of it "q_items q1" i "''cwid''"] by (auto simp: tag_added_def queue_tag_item_def)
  moreover have "q_inv (fst (tag_added (Some ''cwid'') (q1, i)))"
    using queue_add_inv(2)[OF 3(2), of mem "Some (pcm n)" 1 0] q1 by (intro tag_added_inv) simp
  ultimately show ?case using 3(1) q1 by simp
qed simp_all

text \<open>With room for it the Morse item gets into the queue.\<close>

lemma cw_enqueue_audio:
  assumes "q_inv q" "q_count q < MAX_QUEUE_DEPTH" "pcm n \<noteq> []"
  shows "\<exists>it \<in> set (q_items (cw_enqueue True pcm q (Cw_audio n # es))). item_source it = ''cwid'' \<and> item_buf it = Some (pcm n)"
proof -
  let ?x = "new_item QUEUE_AUDIO_BUFFER 1 0 (pcm n)"
  obtain q1 i where q1: "queue_add_buffer True q (Some (pcm n)) 1 0 = (q1, i)" by (metis surj_pair)
  have e: "queue_enqueue q ?x = (q1, i)" using q1 assms(3) by (simp add: queue_add_buffer_def)
  have i: "i = q_next_id q" "0 < i" using e assms(1,2) by (auto simp: queue_enqueue_spec q_inv_def)
  have m: "?x\<lparr>item_id := i\<rparr> \<in> set (q_items q1)" using e i assms(2) by (auto simp: queue_enqueue_spec)
  have inv: "q_inv q1" using queue_add_inv(2)[OF assms(1), of True "Some (pcm n)" 1 0] q1 by simp
  then have d: "distinct (map item_id (q_items q1))" by (simp add: q_inv_def ids_ok_def)
  let ?q2 = "fst (tag_added (Some ''cwid'') (q1, i))"
  have "(?x\<lparr>item_id := i\<rparr>)\<lparr>item_source := ''cwid''\<rparr> \<in> set (q_items ?q2)"
    using tag_first_hits[OF m _ d, of i "''cwid''"] i(2) by (simp add: tag_added_def queue_tag_item_def c_trunc_cwid)
  moreover have "q_inv ?q2" by (rule tag_added_inv) (simp add: inv)
  ultimately have "(?x\<lparr>item_id := i\<rparr>)\<lparr>item_source := ''cwid''\<rparr> \<in> set (q_items (cw_enqueue True pcm ?q2 es))"
    by (intro cw_enqueue_keeps)
  then show ?thesis using q1 by (intro bexI) (simp_all add: new_item_def)
qed

lemma queue_add_silence_room:
  assumes "q_inv q" "q_count q + 1 < MAX_QUEUE_DEPTH"
  shows "q_inv (fst (queue_add_silence True q ms 1))" "q_count (fst (queue_add_silence True q ms 1)) < MAX_QUEUE_DEPTH"
  using queue_add_inv(4)[OF assms(1)] assms(2) by (simp_all add: queue_add_silence_def queue_enqueue_spec)

text \<open>What is sent by a module whose encoder works is then in the queue, if two items fit.\<close>

lemma send_cwid_in_queue:
  assumes "cw_works env s n" "send_cwid env s = (s', es)" "q_inv q" "q_count q + 1 < MAX_QUEUE_DEPTH" "\<And>m. length (pcm m) = m"
  shows "id_in_queue env n (cw_enqueue True pcm q es)"
proof -
  let ?m = "cw_render n (we_rate env * 10) 0"
  have r: "min n (we_rate env * 10) \<le> ?m" using cw_render_covers[of 0 "we_rate env * 10" n] by simp
  with assms(1) have p: "0 < ?m" by (simp add: cw_works_def min_def split: if_splits)
  obtain rest where es: "es = Cw_silence 200 # Cw_audio ?m # rest"
    using assms(1,2) p by (auto simp: cw_works_def send_cwid_def Let_def)
  have "pcm ?m \<noteq> []" using assms(5)[of ?m] p by auto
  from cw_enqueue_audio[OF queue_add_silence_room[OF assms(3,4)], of pcm ?m _ rest] this
  obtain it where "it \<in> set (q_items (cw_enqueue True pcm q es))" "item_source it = ''cwid''" "item_buf it = Some (pcm ?m)"
    unfolding es by auto
  with r assms(5) show ?thesis by (auto simp: id_in_queue_def)
qed

subsection \<open>No identification is lost that is reported\<close>

lemma preempt_source_id: "id_reported q \<Longrightarrow> preempt_source q QUEUE_SOURCE_MAX = Some ''cwid''"
  using c_trunc_cwid by (auto simp: id_reported_def preempt_source_def)

lemma cwq_step_pending:
  assumes "cwq_step rs te pcm x (s, t, q) = ((s', t', q'), es)" "cw_pending s"
  shows "cw_pending s' \<or> cw_sent es"
proof -
  obtain env mem i where x: "x = (env, mem, i)" by (metis surj_pair)
  have step: "cw_pending s1 \<or> cw_sent e1" if "cw_do env j s t = (s1, t1, e1)" for j s1 t1 e1 using cw_step_pending[OF that assms(2)] .
  show ?thesis
  proof (cases i)
    case (Cq_module j)
    obtain s1 t1 e1 where "cw_do env j s t = (s1, t1, e1)" by (rule prod_cases3)
    with step[OF this] assms(1) x Cq_module show ?thesis by simp
  next
    case Cq_preempt
    obtain q1 src k where p: "queue_preempt q QUEUE_SOURCE_MAX = (q1, src, k)" by (rule prod_cases3)
    obtain s1 t1 e1 where a: "cw_do env (Wi_preempted src) s t = (s1, t1, e1)" by (rule prod_cases3)
    show ?thesis
    proof (cases "(queue_is_draining q \<or> queue_depth q > 0) \<and> k > 0")
      case True
      with assms(1) x Cq_preempt p a have "s' = s1" "es = e1" by auto
      with step[OF a] show ?thesis by simp
    next
      case False
      with assms x Cq_preempt p show ?thesis by (auto split: if_splits)
    qed
  next
    case (Cq_queue op)
    with assms x show ?thesis by simp
  qed
qed

lemma cwq_run_pending:
  assumes "cwq_run rs te pcm is (s, t, q) = ((s', t', q'), es)" "cw_pending s"
  shows "cw_pending s' \<or> cw_sent es"
  using assms
proof (induction "is" arbitrary: s t q es)
  case (Cons x "is")
  obtain s1 t1 q1 e1 where a: "cwq_step rs te pcm x (s, t, q) = ((s1, t1, q1), e1)" by (metis surj_pair)
  obtain s2 t2 q2 e2 where b: "cwq_run rs te pcm is (s1, t1, q1) = ((s2, t2, q2), e2)" by (metis surj_pair)
  from Cons.prems(1) a b have e: "s2 = s'" "es = e1 @ e2" "t2 = t'" "q2 = q'" by simp_all
  from cwq_step_pending[OF a Cons.prems(2)] show ?case
  proof
    assume "cw_pending s1"
    from Cons.IH[OF b[unfolded e(1,3,4)] this] show ?thesis unfolding e(2) by auto
  next
    assume "cw_sent e1"
    then show ?thesis unfolding e(2) by simp
  qed
qed simp

lemma cwq_step_inv:
  assumes "cwq_step rs te pcm x (s, t, q) = ((s', t', q'), es)" "q_inv q"
  shows "q_inv q'"
proof -
  obtain env mem i where x: "x = (env, mem, i)" by (metis surj_pair)
  show ?thesis
  proof (cases i)
    case (Cq_module j)
    with assms x cw_enqueue_inv show ?thesis by (auto split: prod.splits)
  next
    case Cq_preempt
    obtain q1 src k where p: "queue_preempt q QUEUE_SOURCE_MAX = (q1, src, k)" by (rule prod_cases3)
    have "q_inv q1" using queue_clear_inv(2)[OF assms(2), of QUEUE_SOURCE_MAX] p by simp
    with assms x Cq_preempt p cw_enqueue_inv show ?thesis by (auto split: prod.splits if_splits)
  next
    case (Cq_queue op)
    with assms x queue_exec_inv show ?thesis by auto
  qed
qed

lemma cwq_run_inv:
  "cwq_run rs te pcm is (s, t, q) = ((s', t', q'), es) \<Longrightarrow> q_inv q \<Longrightarrow> q_inv q'"
proof (induction "is" arbitrary: s t q es)
  case (Cons x "is")
  obtain s1 t1 q1 e1 where a: "cwq_step rs te pcm x (s, t, q) = ((s1, t1, q1), e1)" by (metis surj_pair)
  obtain s2 t2 q2 e2 where b: "cwq_run rs te pcm is (s1, t1, q1) = ((s2, t2, q2), e2)" by (metis surj_pair)
  from Cons.prems(1) a b have "cwq_run rs te pcm is (s1, t1, q1) = ((s', t', q'), e2)" by simp
  from Cons.IH[OF this cwq_step_inv[OF a Cons.prems(2)]] show ?case .
qed simp

lemma cwq_deferred_pending:
  assumes "cwq_step rs te pcm x (s, t, q) = ((s1, t1, q1), e1)" "cwq_deferred x (s, t, q)" "q_inv q"
  shows "cw_pending s1"
proof -
  obtain env mem i where x: "x = (env, mem, i)" by (metis surj_pair)
  show ?thesis
  proof (cases i)
    case (Cq_module j)
    obtain s2 t2 e2 where a: "cw_do env j s t = (s2, t2, e2)" by (rule prod_cases3)
    have "cw_deferred env s t j" using assms(2) x Cq_module by (auto simp: cwq_deferred_def split: cw_in.splits)
    from deferred_pending[OF a this] assms(1) x Cq_module a show ?thesis by simp
  next
    case Cq_preempt
    have r: "id_reported q" using assms(2) x Cq_preempt by (simp add: cwq_deferred_def)
    obtain q2 src k where p: "queue_preempt q QUEUE_SOURCE_MAX = (q2, src, k)" by (rule prod_cases3)
    have "src = Some ''cwid''" using p preempt_source_id[OF r] by (auto simp: queue_preempt_def Let_def)
    moreover have k: "queue_is_draining q \<or> queue_depth q > 0" "0 < k"
      using r p assms(3) by (auto simp: id_reported_def queue_is_draining_def queue_depth_def queue_preempt_def q_inv_def Let_def split: if_splits)
    obtain s2 t2 e2 where a: "cw_do env (Wi_preempted src) s t = (s2, t2, e2)" by (rule prod_cases3)
    ultimately have "cw_pending s2" using deferred_pending[OF a] by (simp add: cw_deferred_def)
    moreover have "s1 = s2" using assms(1) x Cq_preempt p a k by simp
    ultimately show ?thesis by simp
  next
    case (Cq_queue op)
    with assms(2) x show ?thesis by (simp add: cwq_deferred_def)
  qed
qed

text \<open>
  C31. A deferred identification is sent later. When the time of an identification comes outside the quiet hours while the channel is
  busy, when a conversation starts, or when a preemption is reported under the name of the identification (it is being drained, or it
  is the first in the queue and nothing tagged is being drained), then, whatever the module, the other users of the queue and later transmissions
  do next, it is still pending or one was handed to the queue since; and a pending one, if the encoder works and two items fit the queue, is put into
  the queue by the next tail outside the quiet hours, with its tag and in whole (up to ten seconds of Morse), and is then no longer pending.
  A preemption that finds the identification behind an untagged item reports another source, and then it is lost:
  \<open>cwid_id_lost\<close>, also for one preempted before its own leading silence; so is one that a full queue refuses: \<open>cwid_id_refused\<close>.
\<close>

theorem cwid_id_not_lost:
  assumes "cwq_step rs te pcm x (s, t, q) = ((s1, t1, q1), e1)" "cwq_deferred x (s, t, q)" "q_inv q"
    and "cwq_run rs te pcm is (s1, t1, q1) = ((s2, t2, q2), e2)"
    and "\<And>m. length (pcm m) = m"
  shows "(cw_pending s2 \<or> (\<exists>c. Cw_announce c \<in> set e2)) \<and>
    (cw_pending s2 \<longrightarrow> cw_works env' s2 n \<longrightarrow> \<not> is_quiet_hour env' s2 \<longrightarrow> q_count q2 + 1 < MAX_QUEUE_DEPTH \<longrightarrow>
      (case cwq_step rs te pcm (env', True, Cq_module Wi_tail_start) (s2, t2, q2) of
         ((s3, t3, q3), e3) \<Rightarrow> \<not> cw_pending s3 \<and> id_in_queue env' n q3 \<and> Cw_announce (cw_callsign s2) \<in> set e3))"
proof -
  have "cw_pending s2 \<or> cw_sent e2" by (rule cwq_run_pending[OF assms(4) cwq_deferred_pending[OF assms(1-3)]])
  moreover have "case cwq_step rs te pcm (env', True, Cq_module Wi_tail_start) (s2, t2, q2) of
      ((s3, t3, q3), e3) \<Rightarrow> \<not> cw_pending s3 \<and> id_in_queue env' n q3 \<and> Cw_announce (cw_callsign s2) \<in> set e3"
    if h: "cw_pending s2" "cw_works env' s2 n" "\<not> is_quiet_hour env' s2" "q_count q2 + 1 < MAX_QUEUE_DEPTH"
  proof -
    obtain s3 e3 where sd: "send_cwid env' s2 = (s3, e3)" by (cases "send_cwid env' s2")
    have "q_inv q2" by (rule cwq_run_inv[OF assms(4) cwq_step_inv[OF assms(1,3)]])
    from send_cwid_in_queue[OF h(2) sd this h(4) assms(5)] send_cwid_works[OF h(2) sd] h sd show ?thesis
      by (simp add: on_tail_start_def cw_id_queued_def)
  qed
  ultimately show ?thesis by (auto simp: cw_sent_def)
qed

subsection \<open>How one is lost\<close>

text \<open>An untagged item of at least the same priority stays the first while the module queues.\<close>

definition untagged_first :: "audio_queue \<Rightarrow> bool" where
  "untagged_first q \<longleftrightarrow> (\<exists>h rest. q_items q = h # rest \<and> item_source h = [] \<and> 1 \<le> item_priority h \<and> item_id h < q_next_id q)"

lemma enqueue_untagged_first:
  assumes "untagged_first q" "item_priority x = 1"
  shows "untagged_first (fst (queue_enqueue q x))"
  using assms by (auto simp: untagged_first_def queue_enqueue_spec insert_prio_def)

lemma cw_enqueue_untagged_first:
  "untagged_first q \<Longrightarrow> untagged_first (cw_enqueue mem pcm q es)"
proof (induction mem pcm q es rule: cw_enqueue.induct)
  case (2 mem pcm q ms es)
  have "untagged_first (fst (queue_add_silence mem q ms 1))" using 2(2) enqueue_untagged_first by (simp add: queue_add_silence_def new_item_def)
  with 2(1) show ?case by simp
next
  case (3 mem pcm q n es)
  obtain q1 i where q1: "queue_add_buffer mem q (Some (pcm n)) 1 0 = (q1, i)" by (metis surj_pair)
  have "q1 = q \<or> (q1, i) = queue_enqueue q (new_item QUEUE_AUDIO_BUFFER 1 0 (pcm n))" using q1 by (auto simp: queue_add_buffer_def split: if_splits)
  then have u: "untagged_first q1" using enqueue_untagged_first[OF 3(2), of "new_item QUEUE_AUDIO_BUFFER 1 0 (pcm n)"] 3(2)
    by (auto simp: new_item_def dest: arg_cong[of _ _ fst])
  have i: "0 < i \<longrightarrow> i = q_next_id q" using q1 by (auto simp: queue_add_buffer_def queue_enqueue_spec split: if_splits)
  obtain h rest where h: "q_items q = h # rest" "item_id h < q_next_id q" using 3(2) by (auto simp: untagged_first_def)
  have hd: "\<exists>rest. q_items q1 = h # rest"
    using q1 h(1) 3(2) by (auto simp: queue_add_buffer_def queue_enqueue_spec insert_prio_def new_item_def untagged_first_def split: if_splits)
  have "untagged_first (fst (tag_added (Some ''cwid'') (q1, i)))"
    using u i h(2) hd by (auto simp: tag_added_def queue_tag_item_def untagged_first_def)
  with 3(1) q1 show ?case by simp
qed simp_all

lemma preempt_untagged:
  assumes "untagged_first q" "\<not> (q_draining q \<and> q_drain_source q \<noteq> [])"
  shows "preempt_source q QUEUE_SOURCE_MAX = Some []"
  using assms by (auto simp: untagged_first_def preempt_source_def)

lemma cw_enqueue_draining:
  "q_draining (cw_enqueue mem pcm q es) = q_draining q \<and> q_drain_source (cw_enqueue mem pcm q es) = q_drain_source q"
proof (induction mem pcm q es rule: cw_enqueue.induct)
  case (2 mem pcm q ms es)
  then show ?case by (simp add: queue_add_silence_def queue_enqueue_spec)
next
  case (3 mem pcm q n es)
  then show ?case by (simp add: queue_add_buffer_def queue_enqueue_spec tag_added_def queue_tag_item_def split: prod.splits)
qed simp_all

text \<open>
  An identification sent behind an untagged item, for example a courtesy tone, and preempted before that item is drained: the
  queue is emptied and nothing is pending.
\<close>

theorem cwid_id_lost:
  assumes "untagged_first q" "\<not> (q_draining q \<and> q_drain_source q \<noteq> [])" "cw_works env s n" "q_inv q"
    and "cwq_step rs te pcm (env, mem, Cq_module Wi_now) (s, t, q) = ((s1, t1, q1), e1)"
    and "cwq_step rs te pcm (env', mem', Cq_preempt) (s1, t1, q1) = ((s2, t2, q2), e2)"
  shows "Cw_announce (cw_callsign s) \<in> set e1 \<and> q_items q2 = [] \<and> \<not> q_draining q2 \<and> \<not> cw_pending s2 \<and> e2 = []"
proof -
  obtain sa ea where sd: "send_cwid env s = (sa, ea)" by (cases "send_cwid env s")
  have a: "s1 = sa" "e1 = ea" "q1 = cw_enqueue mem pcm q ea" "t1 = t" using assms(5) sd by auto
  note w = send_cwid_works[OF assms(3) sd]
  have u: "untagged_first q1" "\<not> (q_draining q1 \<and> q_drain_source q1 \<noteq> [])"
    unfolding a(3) using cw_enqueue_untagged_first[OF assms(1)] cw_enqueue_draining assms(2) by auto
  have inv: "q_inv q1" unfolding a(3) using cw_enqueue_inv[OF assms(4)] .
  obtain q3 k where p: "queue_preempt q1 QUEUE_SOURCE_MAX = (q3, Some [], k)"
    using preempt_untagged[OF u] by (simp add: queue_preempt_def Let_def)
  have d: "queue_depth q1 > 0" "0 < k" using u(1) inv p by (auto simp: untagged_first_def queue_depth_def q_inv_def queue_preempt_def Let_def)
  have q3: "q_items q3 = []" "\<not> q_draining q3" using p by (auto simp: queue_preempt_def Let_def split: if_splits)
  have "s2 = s1 \<and> q2 = q3 \<and> e2 = []" using assms(6) p d by (simp add: on_queue_preempted_def)
  with w a q3 show ?thesis by (simp add: cw_id_queued_def)
qed

text \<open>
  Its own leading silence is such an item: an identification queued on an idle queue and preempted before the silence is drained, thus
  within the delay of the transmitter, is lost.
\<close>

lemma cwid_own_silence:
  assumes "q_inv q" "q_items q = []"
  shows "untagged_first (fst (queue_add_silence True q 200 1))"
  using assms by (auto simp: queue_add_silence_def queue_enqueue_spec untagged_first_def insert_prio_def new_item_def q_inv_def)

text \<open>A full queue refuses the identification, which is announced all the same and no longer pending.\<close>

lemma full_queue_refuses:
  assumes "q_count q \<ge> MAX_QUEUE_DEPTH"
  shows "q_items (cw_enqueue mem pcm q es) = q_items q \<and> q_count (cw_enqueue mem pcm q es) = q_count q"
  using assms
proof (induction mem pcm q es rule: cw_enqueue.induct)
  case (2 mem pcm q ms es)
  then show ?case by (simp add: queue_add_silence_def queue_enqueue_spec)
next
  case (3 mem pcm q n es)
  then show ?case by (simp add: queue_add_buffer_def queue_enqueue_spec tag_added_def)
qed simp_all

theorem cwid_id_refused:
  assumes "q_count q \<ge> MAX_QUEUE_DEPTH" "cw_works env s n"
    and "cwq_step rs te pcm (env, mem, Cq_module Wi_now) (s, t, q) = ((s1, t1, q1), e1)"
  shows "q_items q1 = q_items q \<and> \<not> cw_pending s1 \<and> Cw_announce (cw_callsign s) \<in> set e1"
proof -
  obtain sa ea where sd: "send_cwid env s = (sa, ea)" by (cases "send_cwid env s")
  with assms(3) have "s1 = sa" "e1 = ea" "q1 = cw_enqueue mem pcm q ea" by auto
  with send_cwid_works[OF assms(2) sd] full_queue_refuses[OF assms(1)] show ?thesis by (simp add: cw_id_queued_def)
qed

subsection \<open>A station\<close>

definition cwid_demo :: cwid where
  "cwid_demo = cwid_boot\<lparr>cw_callsign := ''W1AW''\<rparr>"

lemma cwid_demo_works: "cw_works (cwid_demo_env 0 False) cwid_demo 8000" "cw_works (cwid_demo_env 0 False) (cwid_demo\<lparr>cw_pending := True\<rparr>) 8000"
  by (simp_all add: cw_works_def cwid_demo_def cwid_demo_env_def)

theorem cwid_id_not_lost_witness:
  "\<exists>s1 t1 q1 e1. cwq_step (\<lambda>_ _ _. None) (\<lambda>_ _ _ _. None) (\<lambda>m. replicate m 0) (cwid_demo_env 0 True, True, Cq_preempt)
       (cwid_demo, cwid_demo_table, demo_queue\<lparr>q_items := [(new_item QUEUE_AUDIO_BUFFER 1 0 [7])\<lparr>item_id := 1, item_source := ''cwid''\<rparr>], q_count := 1, q_next_id := 2\<rparr>) =
       ((s1, t1, q1), e1) \<and> cw_pending s1 \<and>
     (case cwq_step (\<lambda>_ _ _. None) (\<lambda>_ _ _ _. None) (\<lambda>m. replicate m 0) (cwid_demo_env 0 False, True, Cq_module Wi_tail_start) (s1, t1, q1) of
        ((s3, t3, q3), e3) \<Rightarrow> \<not> cw_pending s3 \<and> id_in_queue (cwid_demo_env 0 False) 8000 q3)"
proof -
  let ?rs = "\<lambda>_ _ _. None" and ?te = "\<lambda>_ _ _ _. None" and ?pcm = "\<lambda>m. replicate m (0::int)" and ?x = "(cwid_demo_env 0 True, True, Cq_preempt)"
  let ?q = "demo_queue\<lparr>q_items := [(new_item QUEUE_AUDIO_BUFFER 1 0 [7])\<lparr>item_id := 1, item_source := ''cwid''\<rparr>], q_count := 1, q_next_id := 2\<rparr>"
  obtain s1 t1 q1 e1 where a: "cwq_step ?rs ?te ?pcm ?x (cwid_demo, cwid_demo_table, ?q) = ((s1, t1, q1), e1)" by (metis surj_pair)
  have inv: "q_inv ?q" by (simp add: q_inv_def demo_queue_def new_item_def item_ok_def ids_ok_def drain_ok_def)
  have d: "cwq_deferred ?x (cwid_demo, cwid_demo_table, ?q)" by (simp add: cwq_deferred_def id_reported_def demo_queue_def)
  have r: "cwq_run ?rs ?te ?pcm [] (s1, t1, q1) = ((s1, t1, q1), [])" by simp
  have st: "s1 = cwid_demo\<lparr>cw_pending := True\<rparr>" "q_count q1 = 0"
    using a by (auto simp: queue_is_draining_def queue_depth_def demo_queue_def queue_preempt_def preempt_source_def c_trunc_cwid on_queue_preempted_def publish_cwid_def
        cwid_demo_env_def Let_def)
  have "cw_pending s1" "cw_works (cwid_demo_env 0 False) s1 8000" "\<not> is_quiet_hour (cwid_demo_env 0 False) s1" "q_count q1 + 1 < MAX_QUEUE_DEPTH"
    unfolding st using cwid_demo_works(2) by (simp_all add: is_quiet_hour_def cwid_demo_def cwid_boot_def)
  with cwid_id_not_lost[OF a d inv r, of "cwid_demo_env 0 False" 8000] a show ?thesis by (auto split: prod.splits)
qed

text \<open>A courtesy tone waits, the identification is queued behind it, somebody keys up: nothing is pending and the queue is empty.\<close>

theorem cwid_id_lost_witness:
  "\<exists>s1 t1 q1 e1 s2 t2 q2 e2.
     cwq_step (\<lambda>_ _ _. None) (\<lambda>_ _ _ _. None) (\<lambda>m. replicate m 0) (cwid_demo_env 0 False, True, Cq_module Wi_now)
       (cwid_demo, cwid_demo_table, fst (queue_add_buffer True demo_queue (Some [7]) 2 0)) = ((s1, t1, q1), e1) \<and> Cw_announce ''W1AW'' \<in> set e1 \<and>
     cwq_step (\<lambda>_ _ _. None) (\<lambda>_ _ _ _. None) (\<lambda>m. replicate m 0) (cwid_demo_env 0 True, True, Cq_preempt) (s1, t1, q1) = ((s2, t2, q2), e2) \<and>
     q_items q2 = [] \<and> \<not> cw_pending s2"
proof -
  let ?rs = "\<lambda>_ _ _. None" and ?te = "\<lambda>_ _ _ _. None" and ?pcm = "\<lambda>m. replicate m (0::int)"
  let ?q = "fst (queue_add_buffer True demo_queue (Some [7]) 2 0)"
  have u: "untagged_first ?q" "\<not> (q_draining ?q \<and> q_drain_source ?q \<noteq> [])"
    by (auto simp: untagged_first_def queue_add_buffer_def queue_enqueue_spec demo_queue_def queue_mid_playback_def insert_prio_def new_item_def)
  have inv: "q_inv ?q" using queue_add_inv(2)[OF demo_queue_inv] .
  obtain s1 t1 q1 e1 where a: "cwq_step ?rs ?te ?pcm (cwid_demo_env 0 False, True, Cq_module Wi_now) (cwid_demo, cwid_demo_table, ?q) = ((s1, t1, q1), e1)"
    by (metis surj_pair)
  obtain s2 t2 q2 e2 where b: "cwq_step ?rs ?te ?pcm (cwid_demo_env 0 True, True, Cq_preempt) (s1, t1, q1) = ((s2, t2, q2), e2)" by (metis surj_pair)
  from cwid_id_lost[OF u cwid_demo_works(1) inv a b] a b show ?thesis by (auto simp: cwid_demo_def)
qed

end
