(* ===== verification/Voicemail.thy ===== *)
theory Voicemail
  imports Timer_Repeat User Resp Otp
begin

text \<open>
  Voicemail (\<open>modules/mod_voicemail.c\<close>): the DTMF commands arm the recorder, the next transmission is
  recorded through an audio tap and saved in the mailbox of a user. The state holds the variables
  of the module, whether its tap is registered with the core, the timer table and the files: what a
  directory holds, in the order in which it is read. The clock, the sample rate, speech, the
  dashboard, the user table and what can fail (memory, directories, writes, removals) are the
  environment of an operation; what is spoken, queued, announced and published are effects.
  Paths stay below the sizes of their buffers, since the base directory has at most 255 characters.
\<close>

datatype vm_cb = CB_vm_arm | CB_vm_rec | CB_vm_foreign nat

record vms =
  vs_dir :: string
  vs_max_messages :: int
  vs_max_dur :: int
  vs_enabled :: bool
  vs_recording :: bool
  vs_armed :: bool
  vs_user :: int
  vs_buf :: bool
  vs_data :: "int list"
  vs_cap :: nat
  vs_rec_timer :: int
  vs_arm_timer :: int
  vs_caller :: int
  vs_tap :: bool
  vs_files :: "string \<Rightarrow> (string \<times> int list) list option"
  vs_timers :: "vm_cb timers"

abbreviation ARM_TIMEOUT_MS :: int where "ARM_TIMEOUT_MS \<equiv> 30000"

definition vm_boot :: "(string \<Rightarrow> (string \<times> int list) list option) \<Rightarrow> vm_cb timers \<Rightarrow> vms" where
  "vm_boot files t = \<lparr>vs_dir = ''/var/lib/kerchunk/voicemail'', vs_max_messages = 20, vs_max_dur = 60, vs_enabled = False, vs_recording = False,
     vs_armed = False, vs_user = 0, vs_buf = False, vs_data = [], vs_cap = 0, vs_rec_timer = -1, vs_arm_timer = -1, vs_caller = 0, vs_tap = False,
     vs_files = files, vs_timers = t\<rparr>"

record vm_env =
  ve_now_us :: nat
  ve_rate :: nat
  ve_mem :: bool
  ve_mkdir :: bool
  ve_write :: bool
  ve_remove :: bool
  ve_place :: nat
  ve_tts :: bool
  ve_sse :: bool
  ve_db :: user_db

datatype vm_effect =
    Vm_speak string
  | Vm_tone int int
  | Vm_silence int
  | Vm_play string
  | Vm_announce string
  | Vm_publish string

subsection \<open>Mailboxes\<close>

definition vm_path :: "vms \<Rightarrow> int \<Rightarrow> string" where
  "vm_path s uid = vs_dir s @ ''/'' @ show_int uid"

definition has_pcm :: "string \<Rightarrow> bool" where
  "has_pcm name \<longleftrightarrow> list_ex (\<lambda>i. take 4 (drop i name) = ''.pcm'') [0..<length name]"

definition count_messages :: "vms \<Rightarrow> int \<Rightarrow> nat" where
  "count_messages s uid =
     (case vs_files s (vm_path s uid) of None \<Rightarrow> 0 | Some es \<Rightarrow> length (filter (\<lambda>e. has_pcm (fst e)) es))"

definition ensure_dir :: "vm_env \<Rightarrow> int \<Rightarrow> vms \<Rightarrow> vms" where
  "ensure_dir env uid s =
     (if vs_files s (vm_path s uid) = None \<and> ve_mkdir env then s\<lparr>vs_files := (vs_files s)(vm_path s uid \<mapsto> [])\<rparr> else s)"

text \<open>\<open>sscanf(name, "msg_%d.pcm", &num) == 1\<close>\<close>

definition scan_msg :: "string \<Rightarrow> int option" where
  "scan_msg name =
     (let r = dropWhile is_space (drop 4 name); d = (if r \<noteq> [] \<and> (hd r = CHR ''-'' \<or> hd r = CHR ''+'') then tl r else r)
      in if take 4 name = ''msg_'' \<and> d \<noteq> [] \<and> is_digit (hd d) then Some (atoi (drop 4 name)) else None)"

fun max_msg :: "string list \<Rightarrow> int \<Rightarrow> int" where
  "max_msg [] m = m"
| "max_msg (x # xs) m = max_msg xs (case scan_msg x of Some n \<Rightarrow> if n > m then n else m | None \<Rightarrow> m)"

definition next_msg_num :: "vms \<Rightarrow> int \<Rightarrow> int" where
  "next_msg_num s uid =
     (case vs_files s (vm_path s uid) of None \<Rightarrow> 1 | Some es \<Rightarrow> wrap32 (max_msg (map fst es) 0 + 1))"

definition pad4 :: "int \<Rightarrow> string" where
  "pad4 n = replicate (4 - length (show_int n)) (CHR ''0'') @ show_int n"

definition msg_name :: "int \<Rightarrow> string" where
  "msg_name n = ''msg_'' @ pad4 n @ ''.pcm''"

text \<open>Writing a file truncates one of that name; a new one appears somewhere in the directory.\<close>

definition put_file :: "nat \<Rightarrow> string \<Rightarrow> int list \<Rightarrow> (string \<times> int list) list \<Rightarrow> (string \<times> int list) list" where
  "put_file place name data es =
     (if name \<in> set (map fst es) then map (\<lambda>e. if fst e = name then (name, data) else e) es
      else take place es @ [(name, data)] @ drop place es)"

definition save_recording :: "vm_env \<Rightarrow> vms \<Rightarrow> vms" where
  "save_recording env s =
     (if \<not> vs_buf s \<or> vs_data s = [] \<or> vs_user s \<le> 0 then s
      else (let s1 = ensure_dir env (vs_user s) s; name = msg_name (next_msg_num s1 (vs_user s)); path = vm_path s1 (vs_user s)
            in case vs_files s1 path of
                 None \<Rightarrow> s1
               | Some es \<Rightarrow> if ve_write env then s1\<lparr>vs_files := (vs_files s1)(path \<mapsto> put_file (ve_place env) name (vs_data s) es)\<rparr> else s1))"

subsection \<open>The snapshot\<close>

definition vm_fragment :: "vms \<Rightarrow> user \<Rightarrow> int \<Rightarrow> bool \<Rightarrow> string" where
  "vm_fragment s u i first =
     (let n = int (count_messages s i)
      in c_trunc 200 ((if first then [] else '','') @ ''{'' @ quoted ''user_id'' @ '':'' @ show_int (u_id u) @ '','' @ quoted ''name'' @ '':'' @
           quoted (otp_escape 0 (u_name u)) @ '','' @ quoted ''count'' @ '':'' @ show_int n @ '','' @ quoted ''full'' @ '':'' @
           (if n \<ge> vs_max_messages s then ''true'' else ''false'') @ ''}''))"

text \<open>The users of the list, with the total of the messages counted so far and whether it is still empty.\<close>

fun vm_users :: "vm_env \<Rightarrow> vms \<Rightarrow> int list \<Rightarrow> nat \<Rightarrow> bool \<Rightarrow> string \<Rightarrow> nat \<times> string" where
  "vm_users env s [] tot first txt = (tot, txt)"
| "vm_users env s (i # is) tot first txt =
     (case user_lookup_by_id (ve_db env) i of
        None \<Rightarrow> vm_users env s is tot first txt
      | Some u \<Rightarrow>
          if u_voicemail u = 0 then vm_users env s is tot first txt
          else (let frag = vm_fragment s u i first; tot1 = tot + count_messages s i
                in if length txt + length frag \<ge> 2048 then (tot1, txt)
                   else vm_users env s is tot1 False (txt @ frag)))"

definition vm_snapshot :: "vm_env \<Rightarrow> vms \<Rightarrow> string" where
  "vm_snapshot env s =
     (let (tot, users) = vm_users env s [1..64] 0 True []; b = (\<lambda>x. if x then ''true'' else ''false'')
      in c_trunc 3072 (''{'' @ quoted ''enabled'' @ '':'' @ b (vs_enabled s) @ '','' @ quoted ''armed'' @ '':'' @ b (vs_armed s) @ '','' @
           quoted ''armed_user_id'' @ '':'' @ show_int (if vs_armed s then vs_user s else 0) @ '','' @ quoted ''recording'' @ '':'' @ b (vs_recording s) @ '','' @
           quoted ''recording_user_id'' @ '':'' @ show_int (if vs_recording s then vs_user s else 0) @ '','' @ quoted ''max_messages'' @ '':'' @
           show_int (vs_max_messages s) @ '','' @ quoted ''max_duration_s'' @ '':'' @ show_int (vs_max_dur s) @ '','' @ quoted ''total_messages'' @ '':'' @
           show_int (int tot) @ '','' @ quoted ''users'' @ '':['' @ users @ '']}''))"

definition publish_voicemail :: "vm_env \<Rightarrow> vms \<Rightarrow> vm_effect list" where
  "publish_voicemail env s = (if ve_sse env then [Vm_publish (vm_snapshot env s)] else [])"

subsection \<open>Recording\<close>

definition drop_arm_timer :: "vms \<Rightarrow> vms" where
  "drop_arm_timer s =
     (if vs_arm_timer s \<ge> 0 then s\<lparr>vs_timers := timer_cancel (vs_timers s) (vs_arm_timer s), vs_arm_timer := -1\<rparr> else s)"

definition stop_recording :: "vm_env \<Rightarrow> vms \<Rightarrow> vms \<times> vm_effect list" where
  "stop_recording env s =
     (if \<not> vs_recording s then (s, [])
      else (let s1 = s\<lparr>vs_recording := False, vs_tap := False\<rparr>;
                s2 = (if vs_rec_timer s1 \<ge> 0 then s1\<lparr>vs_timers := timer_cancel (vs_timers s1) (vs_rec_timer s1), vs_rec_timer := -1\<rparr> else s1);
                s3 = (save_recording env s2)\<lparr>vs_buf := False, vs_data := [], vs_cap := 0\<rparr>
            in (s3, [Vm_tone 600 200, Vm_announce ''recording saved''] @ publish_voicemail env s3)))"

definition rec_timeout :: "vm_env \<Rightarrow> vms \<Rightarrow> vms \<times> vm_effect list" where
  "rec_timeout env s = stop_recording env (s\<lparr>vs_rec_timer := -1\<rparr>)"

text \<open>The audio tap; None is an event without samples.\<close>

definition rec_audio_tap :: "vm_env \<Rightarrow> int list option \<Rightarrow> vms \<Rightarrow> vms" where
  "rec_audio_tap env frame s =
     (case frame of
        None \<Rightarrow> s
      | Some x \<Rightarrow>
          if \<not> vs_recording s then s
          else (let most = ve_rate env * nat (vs_max_dur s); len = length (vs_data s); needed = len + length x
                in if len \<ge> most then s
                   else (let grow = (if vs_cap s * 2 < needed then needed + ve_rate env else vs_cap s * 2);
                             new_cap = (if grow > most then most else grow)
                         in if needed > vs_cap s \<and> \<not> ve_mem env then s
                            else s\<lparr>vs_cap := (if needed > vs_cap s then new_cap else vs_cap s),
                                   vs_data := vs_data s @ take (if needed > most then most - len else length x) x\<rparr>)))"

definition start_recording_now :: "vm_env \<Rightarrow> vms \<Rightarrow> vms \<times> vm_effect list" where
  "start_recording_now env s =
     (let s1 = (drop_arm_timer s)\<lparr>vs_armed := False, vs_data := [], vs_cap := ve_rate env * nat (vs_max_dur s), vs_buf := ve_mem env\<rparr>
      in if \<not> ve_mem env then (s1, [])
         else (let (t, tid) = timer_create (ve_now_us env) (vs_timers s1) (vs_max_dur s1 * 1000) False (Some CB_vm_rec);
                   s2 = s1\<lparr>vs_timers := t, vs_rec_timer := tid\<rparr>
               in if tid < 0 then (s2\<lparr>vs_recording := False, vs_tap := False, vs_buf := False\<rparr>, [])
                  else (let s3 = s2\<lparr>vs_recording := True, vs_tap := True\<rparr> in (s3, publish_voicemail env s3))))"

definition arm_timeout :: "vm_env \<Rightarrow> vms \<Rightarrow> vms \<times> vm_effect list" where
  "arm_timeout env s =
     (let s1 = s\<lparr>vs_arm_timer := -1\<rparr>
      in if \<not> vs_armed s1 then (s1, [])
         else (let s2 = s1\<lparr>vs_armed := False\<rparr>
               in (s2, (if ve_tts env then [Vm_speak ''Voicemail timed out.''] else []) @ publish_voicemail env s2)))"

subsection \<open>Commands\<close>

definition vm_reject :: "vm_env \<Rightarrow> string \<Rightarrow> vm_effect list" where
  "vm_reject env why = (if ve_tts env then [Vm_speak why] else [Vm_tone 400 200, Vm_silence 80, Vm_tone 300 200])"

definition vm_say :: "vm_env \<Rightarrow> string \<Rightarrow> vm_effect list" where
  "vm_say env txt = (if ve_tts env then [Vm_speak txt] else [])"

definition on_vm_status :: "vm_env \<Rightarrow> vms \<Rightarrow> vm_effect list" where
  "on_vm_status env s =
     (if \<not> vs_enabled s then vm_reject env ''Voicemail is disabled.''
      else if vs_caller s \<le> 0 then vm_reject env ''Please log in before using voicemail.''
      else (let n = count_messages s (vs_caller s)
            in (if ve_tts env
                then [Vm_speak (c_trunc 128 (if n = 0 then ''No voicemail messages.'' else if n = 1 then ''You have 1 voicemail message.''
                        else ''You have '' @ show_int (int n) @ '' voicemail messages.''))]
                else concat (replicate (min n 9) [Vm_tone 1000 100, Vm_silence 100]) @ (if n = 0 then [Vm_tone 400 500] else [])) @
               [Vm_announce ''status'']))"

definition vm_target :: "string option \<Rightarrow> vms \<Rightarrow> int" where
  "vm_target data s =
     (case data of Some d \<Rightarrow> if d \<noteq> [] \<and> atoi d > 0 then atoi d else vs_caller s | None \<Rightarrow> vs_caller s)"

definition on_vm_record :: "vm_env \<Rightarrow> string option \<Rightarrow> vms \<Rightarrow> vms \<times> vm_effect list" where
  "on_vm_record env data s =
     (let target = vm_target data s; who = user_lookup_by_id (ve_db env) target; own = (target = vs_caller s)
      in if \<not> vs_enabled s then (s, vm_reject env ''Voicemail is disabled.'')
         else if target \<le> 0 then (s, vm_reject env ''Please log in before recording a voicemail.'')
         else if int (count_messages s target) \<ge> vs_max_messages s
         then (s, vm_reject env ''Mailbox is full.'' @ [Vm_announce ''mailbox full''])
         else if \<not> own \<and> who = None then (s, vm_reject env ''Unknown user.'')
         else (let s1 = drop_arm_timer (s\<lparr>vs_armed := True, vs_user := target\<rparr>);
                   (t, tid) = timer_create (ve_now_us env) (vs_timers s1) ARM_TIMEOUT_MS False (Some CB_vm_arm);
                   s2 = s1\<lparr>vs_timers := t, vs_arm_timer := tid\<rparr>;
                   name = (case who of Some u \<Rightarrow> u_name u | None \<Rightarrow> ''user'')
               in (s2, (if own then [] else vm_say env (c_trunc 128 (''Recording message for '' @ name @ ''.''))) @
                       vm_say env (c_trunc 160 (if own then ''Begin speaking after the beep. Unkey when done.''
                         else ''Recording message for '' @ name @ ''. Begin after the beep, unkey when done.'')) @
                       [Vm_tone 800 200, Vm_announce ''recording armed''] @ publish_voicemail env s2)))"

definition on_vm_play :: "vm_env \<Rightarrow> vms \<Rightarrow> vm_effect list" where
  "on_vm_play env s =
     (if \<not> vs_enabled s then vm_reject env ''Voicemail is disabled.''
      else if vs_caller s \<le> 0 then vm_reject env ''Please log in before using voicemail.''
      else (case vs_files s (vm_path s (vs_caller s)) of
              None \<Rightarrow> (if ve_tts env then [Vm_speak ''You have no voicemail messages.''] else [Vm_tone 400 500]) @ [Vm_announce ''no messages'']
            | Some es \<Rightarrow>
                (case find (\<lambda>e. has_pcm (fst e)) es of
                   Some e \<Rightarrow> [Vm_play (vm_path s (vs_caller s) @ ''/'' @ fst e), Vm_announce ''playback'']
                 | None \<Rightarrow> vm_say env ''You have no voicemail messages.'')))"

definition on_vm_delete :: "vm_env \<Rightarrow> vms \<Rightarrow> vms \<times> vm_effect list" where
  "on_vm_delete env s =
     (if \<not> vs_enabled s then (s, vm_reject env ''Voicemail is disabled.'')
      else if vs_caller s \<le> 0 then (s, vm_reject env ''Please log in before using voicemail.'')
      else (let path = vm_path s (vs_caller s)
            in case vs_files s path of
                 None \<Rightarrow> (s, vm_say env ''You have no voicemail messages to delete.'')
               | Some es \<Rightarrow>
                   (case find_idx (\<lambda>e. has_pcm (fst e)) es of
                      Some i \<Rightarrow>
                        (let s1 = (if ve_remove env then s\<lparr>vs_files := (vs_files s)(path \<mapsto> take i es @ drop (Suc i) es)\<rparr> else s)
                         in (s1, (if ve_tts env then [Vm_speak ''Message deleted.''] else [Vm_tone 600 200]) @ [Vm_announce ''deleted''] @ publish_voicemail env s1))
                    | None \<Rightarrow> (s, vm_say env ''You have no voicemail messages to delete.''))))"

definition vm_cor_assert :: "vm_env \<Rightarrow> vms \<Rightarrow> vms \<times> vm_effect list" where
  "vm_cor_assert env s = (if vs_armed s \<and> \<not> vs_recording s then start_recording_now env s else (s, []))"

subsection \<open>The module\<close>

definition voicemail_configure :: "vm_env \<Rightarrow> config \<Rightarrow> vms \<Rightarrow> vms \<times> vm_effect list" where
  "voicemail_configure env cfg s =
     (let d = config_get_duration_s cfg ''voicemail'' ''max_duration'' 60; d1 = (if d > 300 then 300 else d);
          s1 = s\<lparr>vs_dir := (case config_get cfg ''voicemail'' ''voicemail_dir'' of Some x \<Rightarrow> c_trunc 256 x | None \<Rightarrow> vs_dir s),
                 vs_max_messages := config_get_int cfg ''voicemail'' ''max_messages'' 20,
                 vs_max_dur := (if d1 < 1 then 1 else d1),
                 vs_enabled := (config_get cfg ''voicemail'' ''enabled'' = Some ''on'')\<rparr>
      in (s1, publish_voicemail env s1))"

definition voicemail_unload :: "vms \<Rightarrow> vms" where
  "voicemail_unload s =
     (let t1 = (if vs_arm_timer s \<ge> 0 then timer_cancel (vs_timers s) (vs_arm_timer s) else vs_timers s);
          t2 = (if vs_rec_timer s \<ge> 0 then timer_cancel t1 (vs_rec_timer s) else t1)
      in s\<lparr>vs_timers := t2, vs_buf := False\<rparr>)"

datatype vm_in =
    Vi_status
  | Vi_record "string option"
  | Vi_play
  | Vi_delete
  | Vi_list
  | Vi_identified int
  | Vi_cor_assert
  | Vi_cor_drop
  | Vi_frame "int list option"
  | Vi_expire int
  | Vi_configure config

fun vm_step :: "vm_env \<Rightarrow> vms \<Rightarrow> vm_in \<Rightarrow> vms \<times> vm_effect list" where
  "vm_step env s Vi_status = (s, on_vm_status env s)"
| "vm_step env s (Vi_record data) = on_vm_record env data s"
| "vm_step env s Vi_play = (s, on_vm_play env s)"
| "vm_step env s Vi_delete = on_vm_delete env s"
| "vm_step env s Vi_list = (s, on_vm_status env s)"
| "vm_step env s (Vi_identified uid) = (s\<lparr>vs_caller := uid\<rparr>, [])"
| "vm_step env s Vi_cor_assert = vm_cor_assert env s"
| "vm_step env s Vi_cor_drop = stop_recording env s"
| "vm_step env s (Vi_frame x) = (if vs_tap s then rec_audio_tap env x s else s, [])"
| "vm_step env s (Vi_expire h) =
     (case armed (vs_timers s) h of
        Some (c, due) \<Rightarrow>
          if due \<le> ve_now_us env
          then (let s1 = s\<lparr>vs_timers := timer_fire (ve_now_us env) (vs_timers s) h\<rparr>
                in case c of CB_vm_arm \<Rightarrow> arm_timeout env s1 | CB_vm_rec \<Rightarrow> rec_timeout env s1 | CB_vm_foreign n \<Rightarrow> (s1, []))
          else (s, [])
      | None \<Rightarrow> (s, []))"
| "vm_step env s (Vi_configure cfg) = voicemail_configure env cfg s"

fun vm_run :: "vms \<Rightarrow> (vm_env \<times> vm_in) list \<Rightarrow> vms \<times> vm_effect list" where
  "vm_run s [] = (s, [])"
| "vm_run s ((env, i) # is) = (let (s1, es) = vm_step env s i; (s2, es2) = vm_run s1 is in (s2, es @ es2))"

end
