(* ===== verification/Voicemail_Props.thy ===== *)
theory Voicemail_Props
  imports Voicemail "HOL-Library.Multiset"
begin

text \<open>
  What holds of the voicemail module: its two timers match the state of the recorder, a recording
  becomes one new message of the mailbox it was armed for, and only a delete command removes messages, from the mailbox of the last identified caller.
\<close>

subsection \<open>The two timers\<close>

locale recorder_timers = repeating_timers srv_inv create cancel timer_of again fire
  for srv_inv :: "'t \<Rightarrow> bool"
    and create :: "nat \<Rightarrow> 't \<Rightarrow> int \<Rightarrow> bool \<Rightarrow> vm_cb option \<Rightarrow> 't \<times> int"
    and cancel :: "'t \<Rightarrow> int \<Rightarrow> 't"
    and timer_of :: "'t \<Rightarrow> int \<Rightarrow> (vm_cb \<times> nat) option"
    and again :: "'t \<Rightarrow> int \<Rightarrow> bool"
    and fire :: "nat \<Rightarrow> 't \<Rightarrow> int \<Rightarrow> 't"
begin

definition rec_timers :: "'t \<Rightarrow> int \<Rightarrow> int \<Rightarrow> bool" where
  "rec_timers t a r \<longleftrightarrow> sole_kind (\<lambda>c. c = CB_vm_arm) t a CB_vm_arm False \<and> sole_kind (\<lambda>c. c = CB_vm_rec) t r CB_vm_rec False"

lemma timers_apart: "rec_timers t a r \<Longrightarrow> 0 \<le> a \<Longrightarrow> a \<noteq> r"
  by (auto simp: rec_timers_def sole_kind_def sole_def)

lemma timers_cancel_arm:
  assumes "rec_timers t a r" "0 \<le> a"
  shows "rec_timers (cancel t a) (-1) r"
  using assms kind_cancel[of "\<lambda>c. c = CB_vm_arm" t a CB_vm_arm False CB_vm_arm "-1" False]
    kind_other_cancel[of "\<lambda>c. c = CB_vm_rec" t r CB_vm_rec False a] timers_apart[OF assms]
  by (simp add: rec_timers_def)

lemma timers_cancel_rec:
  assumes "rec_timers t a r" "0 \<le> r"
  shows "rec_timers (cancel t r) a (-1)"
  using assms kind_cancel[of "\<lambda>c. c = CB_vm_rec" t r CB_vm_rec False CB_vm_rec "-1" False]
    kind_other_cancel[of "\<lambda>c. c = CB_vm_arm" t a CB_vm_arm False r] timers_apart[OF assms(1)]
  by (force simp: rec_timers_def)

lemma timers_create_arm:
  assumes "rec_timers t a r" "a < 0" "create now t ms False (Some CB_vm_arm) = (t', tid)"
  shows "rec_timers t' tid r"
  using assms kind_create[of "\<lambda>c. c = CB_vm_arm" t a CB_vm_arm False, OF _ assms(2) refl assms(3)] kind_other_create[of "\<lambda>c. c = CB_vm_rec", OF _ assms(3)]
  by (simp add: rec_timers_def)

lemma timers_create_rec:
  assumes "rec_timers t a r" "r < 0" "create now t ms False (Some CB_vm_rec) = (t', tid)"
  shows "rec_timers t' a tid"
  using assms kind_create[of "\<lambda>c. c = CB_vm_rec" t r CB_vm_rec False, OF _ assms(2) refl assms(3)] kind_other_create[of "\<lambda>c. c = CB_vm_arm", OF _ assms(3)]
  by (simp add: rec_timers_def)

lemma timers_fire_arm:
  assumes "rec_timers t a r" "timer_of t h = Some (CB_vm_arm, due)"
  shows "rec_timers (fire now t h) (-1) r" "0 \<le> a"
  using assms kind_fires(3)[of "\<lambda>c. c = CB_vm_arm", OF _ assms(2)] kind_fires(5)[of "\<lambda>c. c = CB_vm_arm", OF _ assms(2), where d = CB_vm_arm and k = "-1" and rep' = False]
    kind_other[of "\<lambda>c. c = CB_vm_rec", OF _ assms(2)]
  by (simp_all add: rec_timers_def) blast+

lemma timers_fire_rec:
  assumes "rec_timers t a r" "timer_of t h = Some (CB_vm_rec, due)"
  shows "rec_timers (fire now t h) a (-1)" "0 \<le> r"
  using assms kind_fires(3)[of "\<lambda>c. c = CB_vm_rec", OF _ assms(2)] kind_fires(5)[of "\<lambda>c. c = CB_vm_rec", OF _ assms(2), where d = CB_vm_rec and k = "-1" and rep' = False]
    kind_other[of "\<lambda>c. c = CB_vm_arm", OF _ assms(2)]
  by (simp_all add: rec_timers_def) blast+

lemma timers_fire_foreign:
  assumes "rec_timers t a r" "timer_of t h = Some (CB_vm_foreign n, due)"
  shows "rec_timers (fire now t h) a r"
  using assms kind_other[of "\<lambda>c. c = CB_vm_rec", OF _ assms(2)] kind_other[of "\<lambda>c. c = CB_vm_arm", OF _ assms(2)]
  by (simp add: rec_timers_def)

lemma timers_boot: "srv_inv t \<Longrightarrow> \<forall>h c due. timer_of t h = Some (c, due) \<longrightarrow> c \<noteq> CB_vm_arm \<and> c \<noteq> CB_vm_rec \<Longrightarrow> rec_timers t (-1) (-1)"
  by (auto simp: rec_timers_def sole_kind_def sole_def)

end

interpretation vt: recorder_timers timer_inv timer_create timer_cancel armed repeats timer_fire
  by unfold_locales

subsection \<open>Message files\<close>

lemma atoi_digits_then:
  assumes "\<forall>c \<in> set ds. is_digit c" "ds \<noteq> []" "dec_val ds \<le> INT_MAX" "\<not> is_digit c"
  shows "atoi (ds @ c # cs) = dec_val ds"
proof -
  obtain d ds' where ds: "ds = d # ds'" using assms(2) by (cases ds) auto
  have d: "\<not> is_space d" "d \<noteq> CHR ''-''" "d \<noteq> CHR ''+''"
    using assms(1) ds digit_not_space digit_not_sign by auto
  have "takeWhile is_digit (ds @ c # cs) = ds" using assms(1,4) by (simp add: takeWhile_append2)
  moreover have "takeWhile is_digit ds = ds" using assms(1) by (simp add: takeWhile_eq_all_conv)
  ultimately have "atoi (ds @ c # cs) = atoi ds" using d ds by (simp add: atoi_def Let_def)
  with atoi_digits[OF assms(1-3)] show ?thesis by simp
qed

lemma dec_val_zeros: "dec_val (replicate k (CHR ''0'') @ ds) = dec_val ds"
proof (induction k)
  case (Suc k)
  have "digit_val (CHR ''0'') = 0" by (simp add: digit_val_def ascii_def)
  with Suc show ?case by (simp add: dec_val_def)
qed simp

text \<open>The number of a message is read back from its name.\<close>

lemma scan_msg_name:
  assumes "0 \<le> n" "n \<le> INT_MAX"
  shows "scan_msg (msg_name n) = Some n"
proof -
  let ?ds = "pad4 n"
  have z: "is_digit (CHR ''0'')" by (simp add: is_digit_def ascii_def)
  have dig: "\<forall>c \<in> set ?ds. is_digit c" using assms(1) z show_nat_digits by (auto simp: pad4_def show_int_def)
  have ne: "?ds \<noteq> []" using assms(1) show_nat_not_Nil by (simp add: pad4_def show_int_def)
  have v: "dec_val ?ds = n" using assms(1) by (simp add: pad4_def dec_val_zeros show_int_def show_nat_val)
  obtain d ds' where ds: "?ds = d # ds'" using ne by (cases ?ds) auto
  have d: "is_digit d" "\<not> is_space d" "d \<noteq> CHR ''-''" "d \<noteq> CHR ''+''"
    using dig ds digit_not_space digit_not_sign by auto
  have "\<not> is_digit (CHR ''.'')" by (simp add: is_digit_def ascii_def)
  from atoi_digits_then[OF dig ne _ this, of "''pcm''"] v assms(2) have "atoi (?ds @ ''.pcm'') = n" by simp
  with d ds show ?thesis by (simp add: scan_msg_def msg_name_def Let_def)
qed

lemma max_msg_ge: "m \<le> max_msg xs m \<and> (\<forall>x \<in> set xs. \<forall>n. scan_msg x = Some n \<longrightarrow> n \<le> max_msg xs m)"
proof (induction xs arbitrary: m)
  case (Cons x xs)
  let ?m = "case scan_msg x of Some n \<Rightarrow> if n > m then n else m | None \<Rightarrow> m"
  have "m \<le> ?m" "\<And>n. scan_msg x = Some n \<Longrightarrow> n \<le> ?m" by (auto split: option.split)
  with Cons.IH[of ?m] show ?case by fastforce
qed simp

definition below_limit :: "vms \<Rightarrow> int \<Rightarrow> bool" where
  "below_limit s uid \<longleftrightarrow> (\<forall>es. vs_files s (vm_path s uid) = Some es \<longrightarrow> max_msg (map fst es) 0 < INT_MAX)"

text \<open>The name of a new message is not the name of a stored one.\<close>

lemma next_name_fresh:
  assumes "below_limit s uid" "vs_files s (vm_path s uid) = Some es"
  shows "msg_name (next_msg_num s uid) \<notin> set (map fst es)"
proof
  let ?m = "max_msg (map fst es) 0"
  assume a: "msg_name (next_msg_num s uid) \<in> set (map fst es)"
  have m: "0 \<le> ?m" "?m < INT_MAX" using max_msg_ge[of 0 "map fst es"] assms by (simp_all add: below_limit_def)
  then have n: "next_msg_num s uid = ?m + 1" using assms(2) by (simp add: next_msg_num_def wrap32_id)
  have "scan_msg (msg_name (?m + 1)) = Some (?m + 1)" by (rule scan_msg_name) (use m in simp_all)
  with a n max_msg_ge[of 0 "map fst es"] have "?m + 1 \<le> ?m" by auto
  then show False by simp
qed

lemma put_file_fresh: "name \<notin> set (map fst es) \<Longrightarrow> mset (put_file k name data es) = add_mset (name, data) (mset es)"
proof -
  assume "name \<notin> set (map fst es)"
  moreover have "mset es = mset (take k es) + mset (drop k es)" by (metis append_take_drop_id mset_append)
  ultimately show ?thesis by (simp add: put_file_def)
qed

lemma ensure_dir_simps [simp]:
  "vs_dir (ensure_dir env u s) = vs_dir s" "vm_path (ensure_dir env u s) v = vm_path s v" "vs_user (ensure_dir env u s) = vs_user s"
  "vs_data (ensure_dir env u s) = vs_data s"
  by (simp_all add: ensure_dir_def vm_path_def)

lemma ensure_dir_files [simp]:
  "vs_files (ensure_dir env u s) p = (if p = vm_path s u \<and> vs_files s p = None \<and> ve_mkdir env then Some [] else vs_files s p)"
  by (auto simp: ensure_dir_def)

text \<open>Saving keeps the state but for the files, and adds at most one file to one mailbox.\<close>

lemma save_recording_fields: "save_recording env s = s\<lparr>vs_files := vs_files (save_recording env s)\<rparr>"
  by (simp add: save_recording_def Let_def ensure_dir_def split: option.split)

lemma save_recording_keeps:
  assumes "below_limit s (vs_user s)" "vs_files s p = Some es"
  shows "\<exists>es'. vs_files (save_recording env s) p = Some es' \<and> mset es \<subseteq># mset es'"
proof (cases "\<not> vs_buf s \<or> vs_data s = [] \<or> vs_user s \<le> 0 \<or> \<not> ve_write env \<or> p \<noteq> vm_path s (vs_user s)")
  case True
  then have "vs_files (save_recording env s) p = Some es"
    using assms(2) by (auto simp: save_recording_def Let_def split: option.split)
  then show ?thesis by simp
next
  case False
  let ?s = "ensure_dir env (vs_user s) s"
  have f: "vs_files ?s (vm_path s (vs_user s)) = Some es" using False assms(2) by simp
  have "below_limit ?s (vs_user s)" using assms False by (simp add: below_limit_def)
  from put_file_fresh[OF next_name_fresh[OF this]] f
  have "mset (put_file (ve_place env) (msg_name (next_msg_num ?s (vs_user s))) (vs_data s) es) =
      add_mset (msg_name (next_msg_num ?s (vs_user s)), vs_data s) (mset es)" by (simp)
  then show ?thesis using f False by (simp add: save_recording_def Let_def)
qed

lemma save_recording_works:
  assumes "vs_buf s" "vs_data s \<noteq> []" "0 < vs_user s" "ve_mkdir env" "ve_write env" "below_limit s (vs_user s)"
  shows "\<exists>es es'. es = (case vs_files s (vm_path s (vs_user s)) of None \<Rightarrow> [] | Some es \<Rightarrow> es) \<and>
    vs_files (save_recording env s) = (vs_files s)(vm_path s (vs_user s) \<mapsto> es') \<and>
    mset es' = add_mset (msg_name (next_msg_num s (vs_user s)), vs_data s) (mset es)"
proof -
  let ?s = "ensure_dir env (vs_user s) s" and ?p = "vm_path s (vs_user s)"
  let ?es = "case vs_files s ?p of None \<Rightarrow> [] | Some es \<Rightarrow> es"
  have f: "vs_files ?s ?p = Some ?es" using assms(4) by (simp split: option.split)
  have n: "next_msg_num ?s (vs_user s) = next_msg_num s (vs_user s)"
    using assms(4) by (simp add: next_msg_num_def wrap32_id split: option.split)
  have "below_limit ?s (vs_user s)" using assms(4,6) by (auto simp: below_limit_def split: if_splits)
  from put_file_fresh[OF next_name_fresh[OF this]] f n
  have "mset (put_file (ve_place env) (msg_name (next_msg_num s (vs_user s))) (vs_data s) ?es) =
      add_mset (msg_name (next_msg_num s (vs_user s)), vs_data s) (mset ?es)" by (simp)
  moreover have "vs_files (save_recording env s) =
      (vs_files s)(?p \<mapsto> put_file (ve_place env) (msg_name (next_msg_num s (vs_user s))) (vs_data s) ?es)"
    using assms(1-3,5) f n by (auto simp: save_recording_def Let_def)
  ultimately show ?thesis by blast
qed

subsection \<open>The state of the recorder\<close>

definition vm_wf :: "vms \<Rightarrow> bool" where
  "vm_wf s \<longleftrightarrow> vt.rec_timers (vs_timers s) (vs_arm_timer s) (vs_rec_timer s) \<and> (vs_recording s \<longleftrightarrow> 0 \<le> vs_rec_timer s) \<and>
     (0 \<le> vs_arm_timer s \<longrightarrow> vs_armed s) \<and> vs_tap s = vs_recording s \<and> vs_buf s = vs_recording s \<and> length (vs_data s) \<le> vs_cap s \<and>
     (vs_recording s \<or> vs_armed s \<longrightarrow> 0 < vs_user s)"

lemma vm_wfD:
  assumes "vm_wf s"
  shows "vt.rec_timers (vs_timers s) (vs_arm_timer s) (vs_rec_timer s)" "vs_recording s \<longleftrightarrow> 0 \<le> vs_rec_timer s" "0 \<le> vs_arm_timer s \<Longrightarrow> vs_armed s"
    "vs_tap s = vs_recording s" "vs_buf s = vs_recording s" "length (vs_data s) \<le> vs_cap s" "vs_recording s \<or> vs_armed s \<Longrightarrow> 0 < vs_user s"
  using assms unfolding vm_wf_def by blast+

lemma vm_wf_boot: "timer_inv t \<Longrightarrow> \<forall>h c due. armed t h = Some (c, due) \<longrightarrow> c \<noteq> CB_vm_arm \<and> c \<noteq> CB_vm_rec \<Longrightarrow> vm_wf (vm_boot files t)"
  using vt.timers_boot by (simp add: vm_wf_def vm_boot_def)

lemma save_fields [simp]:
  "vs_timers (save_recording env s) = vs_timers s" "vs_arm_timer (save_recording env s) = vs_arm_timer s" "vs_rec_timer (save_recording env s) = vs_rec_timer s"
  "vs_recording (save_recording env s) = vs_recording s" "vs_armed (save_recording env s) = vs_armed s" "vs_tap (save_recording env s) = vs_tap s"
  "vs_user (save_recording env s) = vs_user s" "vs_dir (save_recording env s) = vs_dir s" "vs_caller (save_recording env s) = vs_caller s"
  by (subst save_recording_fields, simp)+

text \<open>Stopping, with the recording timer cancelled or already fired.\<close>

lemma stop_recording_wf:
  assumes "vm_wf s" "stop_recording env s = (s', es)"
  shows "vm_wf s'"
proof (cases "vs_recording s")
  case True
  with assms(1) have r: "0 \<le> vs_rec_timer s" by (simp add: vm_wf_def)
  with vm_wfD[OF assms(1)] assms(2) True vt.timers_cancel_rec[OF vm_wfD(1)[OF assms(1)] r] show ?thesis
    by (auto simp: stop_recording_def Let_def vm_wf_def)
qed (use assms in \<open>simp add: stop_recording_def\<close>)

lemma rec_timeout_wf:
  assumes "vm_wf s" "vs_recording s" "vt.rec_timers t (vs_arm_timer s) (-1)" "rec_timeout env (s\<lparr>vs_timers := t\<rparr>) = (s', es)"
  shows "vm_wf s'"
  using vm_wfD[OF assms(1)] assms(2-4) by (auto simp: rec_timeout_def stop_recording_def Let_def vm_wf_def)

lemma arm_timeout_wf:
  assumes "vm_wf s" "vt.rec_timers t (-1) (vs_rec_timer s)" "arm_timeout env (s\<lparr>vs_timers := t\<rparr>) = (s', es)"
  shows "vm_wf s'"
  using vm_wfD[OF assms(1)] assms(2,3) by (auto simp: arm_timeout_def Let_def vm_wf_def split: if_splits)

lemma drop_arm_cases:
  assumes "vt.rec_timers (vs_timers s) (vs_arm_timer s) (vs_rec_timer s)"
  obtains t a where "drop_arm_timer s = s\<lparr>vs_timers := t, vs_arm_timer := a\<rparr>" "a < 0" "vt.rec_timers t a (vs_rec_timer s)"
proof (cases "vs_arm_timer s \<ge> 0")
  case True
  with vt.timers_cancel_arm[OF assms True] that[where t = "timer_cancel (vs_timers s) (vs_arm_timer s)" and a = "-1"] show ?thesis by (simp add: drop_arm_timer_def)
next
  case False
  then have "drop_arm_timer s = s\<lparr>vs_timers := vs_timers s, vs_arm_timer := vs_arm_timer s\<rparr>" by (simp add: drop_arm_timer_def)
  with False assms that show ?thesis by (meson not_le)
qed

lemma start_recording_wf:
  assumes "vm_wf s" "\<not> vs_recording s" "vs_armed s" "start_recording_now env s = (s', es)"
  shows "vm_wf s'"
proof -
  note w = vm_wfD[OF assms(1)]
  obtain t a where d: "drop_arm_timer s = s\<lparr>vs_timers := t, vs_arm_timer := a\<rparr>" "a < 0" "vt.rec_timers t a (vs_rec_timer s)"
    using drop_arm_cases[OF w(1)] by blast
  have r: "vs_rec_timer s < 0" using w(2) assms(2) by simp
  obtain t' tid where c: "timer_create (ve_now_us env) t (vs_max_dur s * 1000) False (Some CB_vm_rec) = (t', tid)" by fastforce
  have "vt.rec_timers t' a tid" by (rule vt.timers_create_rec[OF d(3) r c])
  with w d r c assms(2-4) show ?thesis
    by (auto simp: start_recording_now_def Let_def vm_wf_def split: if_splits)
qed

lemma on_vm_record_cases:
  assumes "on_vm_record env data s = (s', es)"
  shows "s' = s \<or> (0 < vm_target data s \<and> (\<exists>s1. s1 = drop_arm_timer (s\<lparr>vs_armed := True, vs_user := vm_target data s\<rparr>) \<and>
    (\<exists>t tid. timer_create (ve_now_us env) (vs_timers s1) ARM_TIMEOUT_MS False (Some CB_vm_arm) = (t, tid) \<and> s' = s1\<lparr>vs_timers := t, vs_arm_timer := tid\<rparr>)))"
  using assms unfolding on_vm_record_def Let_def by (simp split: if_splits prod.splits)

lemma on_vm_record_wf:
  assumes "vm_wf s" "on_vm_record env data s = (s', es)"
  shows "vm_wf s'"
proof (cases "s' = s")
  case False
  note w = vm_wfD[OF assms(1)]
  let ?u = "vm_target data s" and ?s = "s\<lparr>vs_armed := True, vs_user := vm_target data s\<rparr>"
  have rt: "vt.rec_timers (vs_timers ?s) (vs_arm_timer ?s) (vs_rec_timer ?s)" using w(1) by simp
  obtain t a where d: "drop_arm_timer ?s = ?s\<lparr>vs_timers := t, vs_arm_timer := a\<rparr>" "a < 0" "vt.rec_timers t a (vs_rec_timer s)"
    using drop_arm_cases[OF rt, of thesis] by simp
  obtain t' tid where c: "timer_create (ve_now_us env) t ARM_TIMEOUT_MS False (Some CB_vm_arm) = (t', tid)" by fastforce
  have "vt.rec_timers t' tid (vs_rec_timer s)" by (rule vt.timers_create_arm[OF d(3,2) c])
  moreover have "s' = ?s\<lparr>vs_timers := t', vs_arm_timer := tid\<rparr> \<and> 0 < ?u"
    using on_vm_record_cases[OF assms(2)] False d(1) c by simp
  ultimately show ?thesis using w by (simp add: vm_wf_def)
qed (use assms in simp)

lemma rec_audio_tap_fields: "rec_audio_tap env x s = s\<lparr>vs_cap := vs_cap (rec_audio_tap env x s), vs_data := vs_data (rec_audio_tap env x s)\<rparr>"
  by (simp add: rec_audio_tap_def Let_def split: option.split)

lemma rec_audio_tap_cap:
  assumes "length (vs_data s) \<le> vs_cap s"
  shows "length (vs_data (rec_audio_tap env x s)) \<le> vs_cap (rec_audio_tap env x s)"
  using assms by (auto simp: rec_audio_tap_def Let_def split: option.split)

lemma rec_audio_tap_wf: "vm_wf s \<Longrightarrow> vm_wf (rec_audio_tap env x s)"
  using rec_audio_tap_cap[of s env x] by (subst rec_audio_tap_fields) (simp add: vm_wf_def)

lemma on_vm_delete_fields: "fst (on_vm_delete env s) = s\<lparr>vs_files := vs_files (fst (on_vm_delete env s))\<rparr>"
  by (simp add: on_vm_delete_def Let_def split: option.split)

lemma vm_step_wf:
  assumes "vm_wf s" "vm_step env s i = (s', es)"
  shows "vm_wf s'"
proof (cases i)
  case (Vi_expire h)
  show ?thesis
  proof (cases "armed (vs_timers s) h")
    case (Some cd)
    obtain c due where cd: "armed (vs_timers s) h = Some (c, due)" using Some by (cases cd) simp
    let ?t = "timer_fire (ve_now_us env) (vs_timers s) h"
    note w = vm_wfD[OF assms(1)]
    show ?thesis
    proof (cases "due \<le> ve_now_us env")
      case True
      show ?thesis
      proof (cases c)
        case CB_vm_arm
        with assms(2) Vi_expire cd True have "arm_timeout env (s\<lparr>vs_timers := ?t\<rparr>) = (s', es)" by simp
        then show ?thesis using arm_timeout_wf[OF assms(1) vt.timers_fire_arm(1)[OF w(1)]] cd CB_vm_arm by blast
      next
        case CB_vm_rec
        with assms(2) Vi_expire cd True have e: "rec_timeout env (s\<lparr>vs_timers := ?t\<rparr>) = (s', es)" by simp
        have "vs_recording s" using w(2) vt.timers_fire_rec(2)[OF w(1)] cd CB_vm_rec by blast
        then show ?thesis using rec_timeout_wf[OF assms(1) _ vt.timers_fire_rec(1)[OF w(1)] e] cd CB_vm_rec by blast
      next
        case (CB_vm_foreign n)
        with assms(2) Vi_expire cd True have "s' = s\<lparr>vs_timers := ?t\<rparr>" by simp
        moreover have "vt.rec_timers ?t (vs_arm_timer s) (vs_rec_timer s)" by (rule vt.timers_fire_foreign[OF w(1)]) (use cd CB_vm_foreign in simp)
        ultimately show ?thesis using w by (simp add: vm_wf_def)
      qed
    qed (use assms Vi_expire cd in simp)
  qed (use assms Vi_expire in simp)
next
  case (Vi_record d)
  with assms on_vm_record_wf show ?thesis by simp
next
  case Vi_cor_assert
  with assms start_recording_wf show ?thesis by (auto simp: vm_cor_assert_def split: if_splits)
next
  case Vi_cor_drop
  with assms stop_recording_wf show ?thesis by simp
next
  case (Vi_frame x)
  with assms rec_audio_tap_wf show ?thesis by auto
next
  case Vi_delete
  then have "s' = s\<lparr>vs_files := vs_files s'\<rparr>" using assms(2) on_vm_delete_fields[of env s] by simp
  moreover have "vm_wf (s\<lparr>vs_files := vs_files s'\<rparr>)" using assms(1) by (simp add: vm_wf_def)
  ultimately show ?thesis by simp
next
  case (Vi_configure cfg)
  with assms(2) have "s' = fst (voicemail_configure env cfg s)" by simp
  then show ?thesis using assms(1) by (simp add: voicemail_configure_def Let_def vm_wf_def)
next
  case (Vi_identified u)
  with assms have "s' = s\<lparr>vs_caller := u\<rparr>" by simp
  then show ?thesis using assms(1) by (simp add: vm_wf_def)
qed (use assms in simp_all)

lemma vm_run_Cons: "vm_step env s i = (s1, e1) \<Longrightarrow> vm_run s1 is = (s2, e2) \<Longrightarrow> vm_run s ((env, i) # is) = (s2, e1 @ e2)"
  by simp

lemma vm_run_wf: "vm_wf s \<Longrightarrow> vm_wf (fst (vm_run s is))"
proof (induction "is" arbitrary: s)
  case (Cons x "is")
  obtain env i where x: "x = (env, i)" by (cases x) simp
  obtain s1 e1 where s1: "vm_step env s i = (s1, e1)" by fastforce
  obtain s2 e2 where s2: "vm_run s1 is = (s2, e2)" by fastforce
  have "vm_wf (fst (vm_run s1 is))" by (rule Cons.IH[OF vm_step_wf[OF Cons.prems s1]])
  with x s2 show ?case by (simp only: vm_run_Cons[OF s1 s2] fst_conv)
qed simp

text \<open>
  What the invariant says: the tap, the buffer and the recording timer are there exactly while recording, what
  was heard fits the buffer, a recorder at work has a user, and a pending arm timer belongs to an armed recorder.
\<close>

definition recorder_ok :: "vms \<Rightarrow> bool" where
  "recorder_ok s \<longleftrightarrow> vs_tap s = vs_recording s \<and> vs_buf s = vs_recording s \<and> length (vs_data s) \<le> vs_cap s \<and>
     (vs_recording s \<or> vs_armed s \<longrightarrow> 0 < vs_user s) \<and>
     (\<forall>h. (\<exists>due. armed (vs_timers s) h = Some (CB_vm_rec, due)) \<longleftrightarrow> vs_recording s \<and> h = vs_rec_timer s) \<and>
     (\<forall>h. (\<exists>due. armed (vs_timers s) h = Some (CB_vm_arm, due)) \<longrightarrow> vs_armed s \<and> h = vs_arm_timer s)"

lemma vm_wf_ok:
  assumes "vm_wf s"
  shows "recorder_ok s"
proof -
  note w = vm_wfD[OF assms]
  have a: "ts.sole (\<lambda>c. c = CB_vm_arm) (vs_timers s) (vs_arm_timer s) CB_vm_arm" "ts.sole (\<lambda>c. c = CB_vm_rec) (vs_timers s) (vs_rec_timer s) CB_vm_rec"
    using w(1) by (simp_all add: vt.rec_timers_def rts.sole_kind_def)
  have A: "0 \<le> k \<and> h = k" if "ts.sole (\<lambda>c. c = d) t k d" "armed t h = Some (d, due)" for t d k h due
    using ts.sole_fires(1,3)[OF that refl] by simp
  have B: "\<exists>due. armed t k = Some (d, due)" if "ts.sole (\<lambda>c. c = d) t k d" "0 \<le> k" for t d k
    using that by (simp add: ts.sole_def)
  have "(\<exists>due. armed (vs_timers s) h = Some (CB_vm_rec, due)) \<longleftrightarrow> vs_recording s \<and> h = vs_rec_timer s" for h
    using A[OF a(2), of h] B[OF a(2)] unfolding w(2) by metis
  moreover have "(\<exists>due. armed (vs_timers s) h = Some (CB_vm_arm, due)) \<longrightarrow> vs_armed s \<and> h = vs_arm_timer s" for h
    using A[OF a(1), of h] w(3) by metis
  ultimately show ?thesis using w by (simp add: recorder_ok_def)
qed

text \<open>
  From the start of the module, over every sequence of commands, receptions, audio frames, timers and
  configurations: the audio tap, the buffer and the recording timer exist exactly while a recording runs,
  the samples fit the buffer, a recorder that is armed or recording has a user, and a pending
  arm timer is the one of an armed recorder.
\<close>
theorem voicemail_recorder_ok:
  assumes "timer_inv t" "\<forall>h c due. armed t h = Some (c, due) \<longrightarrow> c \<noteq> CB_vm_arm \<and> c \<noteq> CB_vm_rec"
  shows "recorder_ok (fst (vm_run (vm_boot files t) is))"
  by (rule vm_wf_ok[OF vm_run_wf[OF vm_wf_boot[OF assms]]])

subsection \<open>From the key-up to the mailbox\<close>

fun vm_passive :: "vm_in \<Rightarrow> bool" where
  "vm_passive (Vi_frame x) = True"
| "vm_passive (Vi_identified u) = True"
| "vm_passive Vi_status = True"
| "vm_passive Vi_play = True"
| "vm_passive Vi_list = True"
| "vm_passive i = False"

fun vm_heard :: "(vm_env \<times> vm_in) list \<Rightarrow> int list" where
  "vm_heard [] = []"
| "vm_heard ((env, i) # is) = (case i of Vi_frame (Some x) \<Rightarrow> x @ vm_heard is | _ \<Rightarrow> vm_heard is)"

lemma rec_audio_tap_takes:
  assumes "vs_recording s" "ve_mem env" "length (vs_data s) \<le> ve_rate env * nat (vs_max_dur s)"
  shows "vs_data (rec_audio_tap env (Some x) s) = take (ve_rate env * nat (vs_max_dur s)) (vs_data s @ x)"
  using assms by (auto simp: rec_audio_tap_def Let_def)

lemma passive_step:
  assumes "vs_recording s" "vs_tap s" "ve_mem env" "length (vs_data s) \<le> ve_rate env * nat (vs_max_dur s)" "vm_passive i" "vm_step env s i = (s', es)"
  shows "\<exists>c k. s' = s\<lparr>vs_caller := c, vs_cap := k, vs_data := take (ve_rate env * nat (vs_max_dur s)) (vs_data s @ vm_heard [(env, i)])\<rparr>"
proof -
  have same: "\<exists>c k. s = s\<lparr>vs_caller := c, vs_cap := k, vs_data := take (ve_rate env * nat (vs_max_dur s)) (vs_data s)\<rparr>"
    using assms(4) by (intro exI[of _ "vs_caller s"] exI[of _ "vs_cap s"]) simp
  show ?thesis
  proof (cases i)
    case (Vi_frame x)
    show ?thesis
    proof (cases x)
      case None
      with assms Vi_frame same show ?thesis by (simp add: rec_audio_tap_def)
    next
      case (Some y)
      have "s' = rec_audio_tap env (Some y) s" using assms Vi_frame Some by simp
      then have "s' = s\<lparr>vs_caller := vs_caller s, vs_cap := vs_cap s', vs_data := take (ve_rate env * nat (vs_max_dur s)) (vs_data s @ y)\<rparr>"
        using rec_audio_tap_fields[of env "Some y" s] rec_audio_tap_takes[OF assms(1,3,4), of y] by simp
      moreover have "vm_heard [(env, i)] = y" using Vi_frame Some by simp
      ultimately show ?thesis by blast
    qed
  next
    case (Vi_identified u)
    have e: "s' = s\<lparr>vs_caller := u\<rparr>" using assms(6) Vi_identified by simp
    have "s' = s\<lparr>vs_caller := u, vs_cap := vs_cap s, vs_data := take (ve_rate env * nat (vs_max_dur s)) (vs_data s)\<rparr>"
      unfolding e using assms(4) by simp
    moreover have "vm_heard [(env, i)] = []" using Vi_identified by simp
    ultimately show ?thesis by (metis append_Nil2)
  qed (use assms same in simp_all)
qed

lemma passive_run:
  assumes "vs_recording s" "vs_tap s" "length (vs_data s) \<le> r * nat (vs_max_dur s)"
    and "\<forall>(env, i) \<in> set is. ve_mem env \<and> ve_rate env = r \<and> vm_passive i" "vm_run s is = (s', es)"
  shows "\<exists>c k. s' = s\<lparr>vs_caller := c, vs_cap := k, vs_data := take (r * nat (vs_max_dur s)) (vs_data s @ vm_heard is)\<rparr>"
  using assms
proof (induction "is" arbitrary: s es)
  case Nil
  then have "s' = s\<lparr>vs_caller := vs_caller s, vs_cap := vs_cap s, vs_data := take (r * nat (vs_max_dur s)) (vs_data s @ vm_heard [])\<rparr>" by simp
  then show ?case by blast
next
  case (Cons x "is")
  obtain env i where x: "x = (env, i)" by (cases x) simp
  obtain s1 e1 where s1: "vm_step env s i = (s1, e1)" by fastforce
  obtain s2 e2 where s2: "vm_run s1 is = (s2, e2)" by fastforce
  have s': "s2 = s'" using Cons.prems(5) vm_run_Cons[OF s1 s2] x by simp
  let ?m = "r * nat (vs_max_dur s)" and ?d = "vs_data s @ vm_heard [(env, i)]"
  have p: "ve_mem env" "ve_rate env = r" "vm_passive i" using Cons.prems(4) x by auto
  obtain c k where e: "s1 = s\<lparr>vs_caller := c, vs_cap := k, vs_data := take ?m ?d\<rparr>"
    using passive_step[OF Cons.prems(1,2) p(1) _ p(3) s1] Cons.prems(3) p(2) by auto
  have pre: "vs_recording s1" "vs_tap s1" "length (vs_data s1) \<le> r * nat (vs_max_dur s1)"
    "\<forall>(env, i) \<in> set is. ve_mem env \<and> ve_rate env = r \<and> vm_passive i" using e Cons.prems by simp_all
  obtain c2 k2 where e2: "s2 = s1\<lparr>vs_caller := c2, vs_cap := k2, vs_data := take (r * nat (vs_max_dur s1)) (vs_data s1 @ vm_heard is)\<rparr>"
    using Cons.IH[OF pre s2[unfolded s']] unfolding s' by blast
  have "take (r * nat (vs_max_dur s1)) (vs_data s1 @ vm_heard is) = take ?m (vs_data s @ vm_heard (x # is))"
  proof -
    have "take m (take m a @ b) = take m (a @ b)" for m and a b :: "int list" by (simp add: min_def)
    moreover have "vm_heard (x # is) = vm_heard [(env, i)] @ vm_heard is" using x by (simp split: vm_in.split option.split)
    moreover have "vs_data s1 = take ?m ?d" "vs_max_dur s1 = vs_max_dur s" using e by simp_all
    ultimately show ?thesis by (simp only: append_assoc)
  qed
  with e2 e have "s' = s\<lparr>vs_caller := c2, vs_cap := k2, vs_data := take ?m (vs_data s @ vm_heard (x # is))\<rparr>" unfolding s' by simp
  then show ?case by blast
qed

lemma start_recording_fields:
  assumes "start_recording_now env s = (s', es)" "\<not> vs_recording s" "vs_recording s'"
  shows "vs_tap s'" "vs_buf s'" "vs_data s' = []" "\<not> vs_armed s'" "vs_user s' = vs_user s" "vs_files s' = vs_files s" "vs_dir s' = vs_dir s" "vs_max_dur s' = vs_max_dur s"
proof -
  have "vs_tap s' \<and> vs_buf s' \<and> vs_data s' = [] \<and> \<not> vs_armed s' \<and> vs_user s' = vs_user s \<and> vs_files s' = vs_files s \<and> vs_dir s' = vs_dir s \<and> vs_max_dur s' = vs_max_dur s"
    using assms by (auto simp: start_recording_now_def drop_arm_timer_def Let_def split: if_splits prod.splits)
  then show "vs_tap s'" "vs_buf s'" "vs_data s' = []" "\<not> vs_armed s'" "vs_user s' = vs_user s" "vs_files s' = vs_files s" "vs_dir s' = vs_dir s" "vs_max_dur s' = vs_max_dur s"
    by blast+
qed

lemma same_mailboxes:
  assumes "vs_files s' = vs_files s" "vs_dir s' = vs_dir s"
  shows "vm_path s' u = vm_path s u" "below_limit s' u = below_limit s u" "next_msg_num s' u = next_msg_num s u"
  using assms by (simp_all add: vm_path_def below_limit_def next_msg_num_def)

text \<open>The end of a recording: what is in the buffer becomes a message of the user.\<close>

lemma stop_recording_saves:
  assumes "vs_recording s" "vs_buf s" "vs_data s \<noteq> []" "0 < vs_user s" "ve_mkdir env" "ve_write env" "below_limit s (vs_user s)" "stop_recording env s = (s', es)"
  shows "\<exists>fs fs'. fs = (case vs_files s (vm_path s (vs_user s)) of None \<Rightarrow> [] | Some fs \<Rightarrow> fs) \<and>
      vs_files s' = (vs_files s)(vm_path s (vs_user s) \<mapsto> fs') \<and>
      mset fs' = add_mset (msg_name (next_msg_num s (vs_user s)), vs_data s) (mset fs)" "\<not> vs_recording s' \<and> \<not> vs_tap s' \<and> vs_armed s' = vs_armed s"
proof -
  define s2 where "s2 = (let s1 = s\<lparr>vs_recording := False, vs_tap := False\<rparr> in
    if vs_rec_timer s1 \<ge> 0 then s1\<lparr>vs_timers := timer_cancel (vs_timers s1) (vs_rec_timer s1), vs_rec_timer := -1\<rparr> else s1)"
  have f: "vs_files s2 = vs_files s" "vs_dir s2 = vs_dir s" "vs_user s2 = vs_user s" "vs_data s2 = vs_data s" "vs_buf s2 = vs_buf s" "\<not> vs_recording s2" "\<not> vs_tap s2" "vs_armed s2 = vs_armed s"
    by (simp_all add: s2_def Let_def)
  have s': "s' = (save_recording env s2)\<lparr>vs_buf := False, vs_data := [], vs_cap := 0\<rparr>"
    using assms(1,8) by (simp add: stop_recording_def s2_def Let_def)
  note m = same_mailboxes[OF f(1,2)]
  from save_recording_works[of s2 env] assms(2-7) f m s'
  show "\<exists>fs fs'. fs = (case vs_files s (vm_path s (vs_user s)) of None \<Rightarrow> [] | Some fs \<Rightarrow> fs) \<and>
      vs_files s' = (vs_files s)(vm_path s (vs_user s) \<mapsto> fs') \<and>
      mset fs' = add_mset (msg_name (next_msg_num s (vs_user s)), vs_data s) (mset fs)" by simp
  show "\<not> vs_recording s' \<and> \<not> vs_tap s' \<and> vs_armed s' = vs_armed s" using f s' by simp
qed

text \<open>
  A recording ends when the transmission does, or when the timer of its maximal duration expires.
\<close>

definition vm_ends :: "vm_env \<Rightarrow> vms \<Rightarrow> vm_in \<Rightarrow> bool" where
  "vm_ends env s i \<longleftrightarrow> i = Vi_cor_drop \<or>
     (\<exists>due. i = Vi_expire (vs_rec_timer s) \<and> armed (vs_timers s) (vs_rec_timer s) = Some (CB_vm_rec, due) \<and> due \<le> ve_now_us env)"

lemma vm_ends_stops:
  assumes "vm_ends env s i" "vm_step env s i = (s', es)"
  shows "\<exists>t k. stop_recording env (s\<lparr>vs_timers := t, vs_rec_timer := k\<rparr>) = (s', es)"
  using assms(1) unfolding vm_ends_def
proof (elim disjE exE conjE)
  assume "i = Vi_cor_drop"
  with assms(2) have "stop_recording env (s\<lparr>vs_timers := vs_timers s, vs_rec_timer := vs_rec_timer s\<rparr>) = (s', es)" by simp
  then show ?thesis by blast
next
  fix due assume i: "i = Vi_expire (vs_rec_timer s)" "armed (vs_timers s) (vs_rec_timer s) = Some (CB_vm_rec, due)" "due \<le> ve_now_us env"
  have "stop_recording env (s\<lparr>vs_timers := timer_fire (ve_now_us env) (vs_timers s) (vs_rec_timer s), vs_rec_timer := -1\<rparr>) = (s', es)"
    using assms(2) i by (simp add: rec_timeout_def)
  then show ?thesis by blast
qed

text \<open>
  C33. An armed recorder turns the next transmission into one new message of the user it was armed for: after the
  key-up that starts the recording, what is heard until the unkey or the expiry of the timer of the maximal duration, and at most
  the samples of that duration, is stored under a name not yet in use in the mailbox of that user; no other mailbox changes, and the
  recorder is idle. In between there are only passive inputs: audio frames, identified callers, and the status, list and play
  commands. No record or delete command, no configuration and no other timer comes in between: after another
  record command the message goes to another mailbox, as \<open>voicemail_redirected\<close> shows. Memory is there for the samples,
  the directory and file operations succeed, something is heard, and the numbers of the messages are below the largest int.
\<close>
theorem voicemail_recording_saved:
  assumes "recorder_ok s" "vs_armed s" "\<not> vs_recording s" "vm_step env s Vi_cor_assert = (s1, e1)" "vs_recording s1"
    and "\<forall>(ev, i) \<in> set is. ve_mem ev \<and> ve_rate ev = r \<and> vm_passive i" "vm_run s1 is = (s2, e2)"
    and "take (r * nat (vs_max_dur s)) (vm_heard is) \<noteq> []" "ve_mkdir env'" "ve_write env'" "below_limit s (vs_user s)"
    and "vm_ends env' s2 i" "vm_step env' s2 i = (s3, e3)"
  shows "\<exists>fs fs' name. fs = (case vs_files s (vm_path s (vs_user s)) of None \<Rightarrow> [] | Some fs \<Rightarrow> fs) \<and> name \<notin> set (map fst fs) \<and>
      vs_files s3 = (vs_files s)(vm_path s (vs_user s) \<mapsto> fs') \<and>
      mset fs' = add_mset (name, take (r * nat (vs_max_dur s)) (vm_heard is)) (mset fs) \<and> \<not> vs_recording s3 \<and> \<not> vs_tap s3 \<and> \<not> vs_armed s3"
proof -
  have "start_recording_now env s = (s1, e1)" using assms(2-4) by (simp add: vm_cor_assert_def)
  note a = start_recording_fields[OF this assms(3,5)]
  have "length (vs_data s1) \<le> r * nat (vs_max_dur s1)" using a(3) by simp
  from passive_run[OF assms(5) a(1) this assms(6,7)] obtain c k where
    e: "s2 = s1\<lparr>vs_caller := c, vs_cap := k, vs_data := take (r * nat (vs_max_dur s)) (vm_heard is)\<rparr>" unfolding a(3,8) append_Nil by blast
  obtain t k where st: "stop_recording env' (s2\<lparr>vs_timers := t, vs_rec_timer := k\<rparr>) = (s3, e3)"
    using vm_ends_stops[OF assms(12,13)] by blast
  let ?s2 = "s2\<lparr>vs_timers := t, vs_rec_timer := k\<rparr>"
  note b = arg_cong[OF e, of vs_recording, simplified] arg_cong[OF e, of vs_buf, simplified] arg_cong[OF e, of vs_data, simplified]
    arg_cong[OF e, of vs_user, simplified] arg_cong[OF e, of vs_files, simplified] arg_cong[OF e, of vs_dir, simplified] arg_cong[OF e, of vs_armed, simplified]
  have u: "vs_user s2 = vs_user s" "vs_files s2 = vs_files s" "vs_dir s2 = vs_dir s" using a b by simp_all
  note m = same_mailboxes[OF u(2,3)]
  have m': "vm_path ?s2 v = vm_path s v" "below_limit ?s2 v = below_limit s v" "next_msg_num ?s2 v = next_msg_num s v" for v
    using same_mailboxes[of ?s2 s v] u by simp_all
  have pre: "vs_recording ?s2" "vs_buf ?s2" "vs_data ?s2 \<noteq> []" "0 < vs_user ?s2" "below_limit ?s2 (vs_user ?s2)"
    unfolding m' using a b assms(1,2,5,8,11) u by (simp_all add: recorder_ok_def)
  from stop_recording_saves(1)[OF pre(1-4) assms(9,10) pre(5) st] obtain fs fs' where
    fs: "fs = (case vs_files s (vm_path s (vs_user s)) of None \<Rightarrow> [] | Some fs \<Rightarrow> fs)" "vs_files s3 = (vs_files s)(vm_path s (vs_user s) \<mapsto> fs')"
      "mset fs' = add_mset (msg_name (next_msg_num s (vs_user s)), take (r * nat (vs_max_dur s)) (vm_heard is)) (mset fs)"
    unfolding m' using u b(3) by auto
  have "msg_name (next_msg_num s (vs_user s)) \<notin> set (map fst fs)"
    using next_name_fresh[OF assms(11)] fs(1) by (auto split: option.splits)
  moreover have "\<not> vs_recording s3 \<and> \<not> vs_tap s3 \<and> \<not> vs_armed s3"
    using stop_recording_saves(2)[OF pre(1-4) assms(9,10) pre(5) st] a(4) b(7) by simp
  ultimately show ?thesis using fs by blast
qed

subsection \<open>What removes a message\<close>

lemma stop_recording_files:
  assumes "stop_recording env s = (s', es)"
  shows "vs_files s' = vs_files s \<or> (\<exists>s2. vs_files s2 = vs_files s \<and> vs_dir s2 = vs_dir s \<and> vs_files s' = vs_files (save_recording env s2))"
proof (cases "vs_recording s")
  case True
  define s2 where "s2 = (let s1 = s\<lparr>vs_recording := False, vs_tap := False\<rparr> in
    if vs_rec_timer s1 \<ge> 0 then s1\<lparr>vs_timers := timer_cancel (vs_timers s1) (vs_rec_timer s1), vs_rec_timer := -1\<rparr> else s1)"
  have "vs_files s2 = vs_files s" "vs_dir s2 = vs_dir s" by (simp_all add: s2_def Let_def)
  moreover have "vs_files s' = vs_files (save_recording env s2)" using assms True by (auto simp: stop_recording_def s2_def Let_def)
  ultimately show ?thesis by blast
qed (use assms in \<open>simp add: stop_recording_def\<close>)

lemma start_recording_files: "vs_files (fst (start_recording_now env s)) = vs_files s"
  by (simp add: start_recording_now_def drop_arm_timer_def Let_def split: prod.split)

lemma on_vm_delete_files:
  assumes "on_vm_delete env s = (s', es)"
  shows "vs_files s' = vs_files s \<or> (0 < vs_caller s \<and> (\<exists>fs k. vs_files s (vm_path s (vs_caller s)) = Some fs \<and> k < length fs \<and>
    vs_files s' = (vs_files s)(vm_path s (vs_caller s) \<mapsto> take k fs @ drop (Suc k) fs)))"
proof (cases "vs_files s' = vs_files s")
  case False
  then have c: "0 < vs_caller s" "vs_enabled s" using assms by (auto simp: on_vm_delete_def split: if_splits)
  then obtain fs where fs: "vs_files s (vm_path s (vs_caller s)) = Some fs"
    using assms False by (cases "vs_files s (vm_path s (vs_caller s))") (auto simp: on_vm_delete_def)
  then obtain k where k: "find_idx (\<lambda>e. has_pcm (fst e)) fs = Some k"
    using assms False c by (cases "find_idx (\<lambda>e. has_pcm (fst e)) fs") (auto simp: on_vm_delete_def)
  have "vs_files s' = (vs_files s)(vm_path s (vs_caller s) \<mapsto> take k fs @ drop (Suc k) fs)"
    using assms False c fs k by (auto simp: on_vm_delete_def Let_def split: if_splits)
  with c fs find_idx_less[OF k] show ?thesis by blast
qed simp

lemma vm_expire_cases:
  fixes s h env
  defines "s1 \<equiv> s\<lparr>vs_timers := timer_fire (ve_now_us env) (vs_timers s) h\<rparr>"
  shows "vm_step env s (Vi_expire h) = (s, []) \<or> vm_step env s (Vi_expire h) = arm_timeout env s1 \<or>
    vm_step env s (Vi_expire h) = rec_timeout env s1 \<or> vm_step env s (Vi_expire h) = (s1, [])"
  by (simp add: s1_def Let_def split: option.split vm_cb.split)

lemma vm_step_files:
  assumes "vm_step env s i = (s', es)"
  obtains "vs_files s' = vs_files s"
  | s2 where "vs_files s2 = vs_files s" "vs_dir s2 = vs_dir s" "vs_files s' = vs_files (save_recording env s2)"
  | fs k where "i = Vi_delete" "0 < vs_caller s" "vs_files s (vm_path s (vs_caller s)) = Some fs" "k < length fs"
      "vs_files s' = (vs_files s)(vm_path s (vs_caller s) \<mapsto> take k fs @ drop (Suc k) fs)"
proof (cases i)
  case (Vi_record d)
  with assms that(1) on_vm_record_cases[of env d s s' es] show thesis by (auto simp: drop_arm_timer_def split: if_splits)
next
  case Vi_delete
  with assms that(1,3) on_vm_delete_files[of env s s' es] show thesis by auto
next
  case Vi_cor_assert
  with assms that(1) start_recording_files[of env s] show thesis by (auto simp: vm_cor_assert_def split: if_splits)
next
  case Vi_cor_drop
  with assms that(1,2) stop_recording_files[of env s s' es] show thesis by auto
next
  case (Vi_frame x)
  have "vs_files (rec_audio_tap env x s) = vs_files s" by (simp add: rec_audio_tap_def Let_def split: option.split)
  with assms that(1) Vi_frame show thesis by (auto split: if_splits)
next
  case (Vi_configure cfg)
  then have "s' = fst (voicemail_configure env cfg s)" using assms by simp
  then have "vs_files s' = vs_files s" by (simp add: voicemail_configure_def Let_def)
  then show thesis by (rule that(1))
next
  case (Vi_expire h)
  let ?s = "s\<lparr>vs_timers := timer_fire (ve_now_us env) (vs_timers s) h\<rparr>"
  consider "(s', es) = (s, [])" | "(s', es) = arm_timeout env ?s" | "(s', es) = rec_timeout env ?s" | "(s', es) = (?s, [])"
    using vm_expire_cases[of env s h] unfolding assms[unfolded Vi_expire] by metis
  then show thesis
  proof cases
    case 2
    have "vs_files (fst (arm_timeout env ?s)) = vs_files s" by (simp add: arm_timeout_def Let_def)
    then show thesis using that(1) 2[symmetric] by simp
  next
    case 3
    then have "stop_recording env (?s\<lparr>vs_rec_timer := -1\<rparr>) = (s', es)" by (simp add: rec_timeout_def)
    from stop_recording_files[OF this] that(1,2) show thesis by auto
  next
    case 1
    then show thesis using that(1) by simp
  next
    case 4
    then show thesis using that(1) by simp
  qed
next
  case (Vi_identified u)
  then have "s' = s\<lparr>vs_caller := u\<rparr>" using assms by simp
  then show thesis using that(1) by simp
next
  case Vi_status
  with assms that(1) show thesis by simp
next
  case Vi_play
  with assms that(1) show thesis by simp
next
  case Vi_list
  with assms that(1) show thesis by simp
qed

text \<open>Every number in a file name leaves room for \<open>k\<close> more messages.\<close>

definition numbers_below :: "vms \<Rightarrow> nat \<Rightarrow> bool" where
  "numbers_below s k \<longleftrightarrow> int k \<le> INT_MAX \<and>
     (\<forall>p es e n. vs_files s p = Some es \<longrightarrow> e \<in> set es \<longrightarrow> scan_msg (fst e) = Some n \<longrightarrow> n + int k \<le> INT_MAX)"

lemma max_msg_le_iff: "max_msg xs m \<le> M \<longleftrightarrow> m \<le> M \<and> (\<forall>x \<in> set xs. \<forall>n. scan_msg x = Some n \<longrightarrow> n \<le> M)"
proof (induction xs arbitrary: m)
  case (Cons x xs)
  show ?case by (cases "scan_msg x") (auto simp: Cons.IH)
qed simp

lemma numbers_belowE: "numbers_below s k \<Longrightarrow> vs_files s p = Some es \<Longrightarrow> e \<in> set es \<Longrightarrow> scan_msg (fst e) = Some n \<Longrightarrow> n + int k \<le> INT_MAX"
  unfolding numbers_below_def by blast

lemma numbers_belowD:
  assumes "numbers_below s k" "vs_files s p = Some es"
  shows "0 \<le> max_msg (map fst es) 0" "max_msg (map fst es) 0 + int k \<le> INT_MAX"
proof -
  have "max_msg (map fst es) 0 \<le> INT_MAX - int k"
    using assms unfolding max_msg_le_iff numbers_below_def by fastforce
  then show "max_msg (map fst es) 0 + int k \<le> INT_MAX" by simp
  show "0 \<le> max_msg (map fst es) 0" using max_msg_ge[of 0 "map fst es"] by simp
qed

lemma numbers_below_limit: "numbers_below s (Suc k) \<Longrightarrow> below_limit s u"
  using numbers_belowD(2)[of s "Suc k"] by (force simp: below_limit_def)

lemma set_put_file: "set (put_file k name data es) \<subseteq> insert (name, data) (set es)"
  by (auto simp: put_file_def dest: in_set_takeD in_set_dropD)

lemma save_recording_numbers:
  assumes "numbers_below s (Suc k)"
  shows "numbers_below (save_recording env s) k"
proof -
  let ?s = "ensure_dir env (vs_user s) s" and ?p = "vm_path s (vs_user s)"
  have n: "1 \<le> next_msg_num ?s (vs_user s)" "next_msg_num ?s (vs_user s) + int k \<le> INT_MAX"
  proof -
    have "next_msg_num ?s (vs_user s) = (case vs_files ?s ?p of None \<Rightarrow> 1 | Some es \<Rightarrow> wrap32 (max_msg (map fst es) 0 + 1))"
      by (simp add: next_msg_num_def)
    moreover have "1 \<le> wrap32 (max_msg (map fst es) 0 + 1) \<and> wrap32 (max_msg (map fst es) 0 + 1) + int k \<le> INT_MAX"
      if "vs_files s ?p = Some es" for es
      using numbers_belowD[OF assms that] by (simp add: wrap32_id)
    moreover have "1 + int k \<le> INT_MAX" using assms by (simp add: numbers_below_def)
    ultimately show "1 \<le> next_msg_num ?s (vs_user s)" "next_msg_num ?s (vs_user s) + int k \<le> INT_MAX"
      by (auto simp: wrap32_id split: option.split)
  qed
  have sc: "scan_msg (msg_name (next_msg_num ?s (vs_user s))) = Some (next_msg_num ?s (vs_user s))" by (rule scan_msg_name) (use n in simp_all)
  have "m + int k \<le> INT_MAX" if f: "vs_files (save_recording env s) p = Some es" "e \<in> set es" "scan_msg (fst e) = Some m" for p es e m
  proof (cases "vs_files s p = Some es")
    case True
    from numbers_belowE[OF assms this f(2,3)] show ?thesis by simp
  next
    case False
    with f(1) have "es = [] \<or> (\<exists>es0. vs_files ?s p = Some es0 \<and> es = put_file (ve_place env) (msg_name (next_msg_num ?s (vs_user s))) (vs_data s) es0)"
      by (auto simp: save_recording_def Let_def split: if_splits option.splits)
    with f(2) obtain es0 where es0: "vs_files ?s p = Some es0" "e = (msg_name (next_msg_num ?s (vs_user s)), vs_data s) \<or> e \<in> set es0"
      using set_put_file by fastforce
    show ?thesis
    proof (cases "e \<in> set es0")
      case True
      then have "vs_files s p = Some es0" using es0(1) by (auto split: if_splits)
      from numbers_belowE[OF assms this True f(3)] show ?thesis by simp
    next
      case False
      with es0(2) f(3) sc n show ?thesis by simp
    qed
  qed
  moreover have "int k \<le> INT_MAX" using assms by (simp add: numbers_below_def)
  ultimately show ?thesis unfolding numbers_below_def by blast
qed

lemma vm_step_numbers:
  assumes "vm_step env s i = (s', es)" "numbers_below s (Suc k)"
  shows "numbers_below s' k"
  using assms(1)
proof (cases rule: vm_step_files)
  case 1
  with assms(2) show ?thesis by (fastforce simp: numbers_below_def)
next
  case (2 s2)
  with assms(2) have "numbers_below s2 (Suc k)" by (simp add: numbers_below_def)
  from save_recording_numbers[OF this, of env] 2(3) show ?thesis by (simp add: numbers_below_def)
next
  case (3 fs j)
  let ?p = "vm_path s (vs_caller s)"
  have "n + int k \<le> INT_MAX" if f: "vs_files s' p = Some es" "e \<in> set es" "scan_msg (fst e) = Some n" for p es e n
  proof (cases "p = ?p")
    case True
    then have "e \<in> set fs" using f(1,2) 3(5) by (auto dest: in_set_takeD in_set_dropD)
    from numbers_belowE[OF assms(2) 3(3) this f(3)] show ?thesis by simp
  next
    case False
    then have "vs_files s p = Some es" using f(1) 3(5) by simp
    from numbers_belowE[OF assms(2) this f(2,3)] show ?thesis by simp
  qed
  moreover have "int k \<le> INT_MAX" using assms(2) by (simp add: numbers_below_def)
  ultimately show ?thesis unfolding numbers_below_def by blast
qed

lemma vm_step_keeps:
  assumes "vm_step env s i = (s', es)" "numbers_below s (Suc k)" "vs_files s p = Some fs" "\<not> (i = Vi_delete \<and> 0 < vs_caller s \<and> p = vm_path s (vs_caller s))"
  shows "\<exists>fs'. vs_files s' p = Some fs' \<and> mset fs \<subseteq># mset fs'"
  using assms(1)
proof (cases rule: vm_step_files)
  case 1
  with assms(3) show ?thesis by simp
next
  case (2 s2)
  with assms(2) have "numbers_below s2 (Suc k)" by (simp add: numbers_below_def)
  from save_recording_keeps[OF numbers_below_limit[OF this]] 2 assms(3) show ?thesis by simp
next
  case (3 fs' j)
  then have "p \<noteq> vm_path s (vs_caller s)" using assms(4) by blast
  with 3(5) assms(3) show ?thesis by simp
qed

text \<open>
  Does a run contain a delete command at a moment when the last identified caller is the one whose mailbox is at \<open>p\<close>?
  The last identified caller is never cleared, so the command need not be given by that user.
\<close>

fun deletes_as_last_caller :: "vms \<Rightarrow> string \<Rightarrow> (vm_env \<times> vm_in) list \<Rightarrow> bool" where
  "deletes_as_last_caller s p [] = False"
| "deletes_as_last_caller s p ((env, i) # is) \<longleftrightarrow>
     (i = Vi_delete \<and> 0 < vs_caller s \<and> p = vm_path s (vs_caller s)) \<or> deletes_as_last_caller (fst (vm_step env s i)) p is"

lemma no_delete_commands: "\<forall>x \<in> set is. snd x \<noteq> Vi_delete \<Longrightarrow> \<not> deletes_as_last_caller s p is"
  by (induction "is" arbitrary: s) auto

text \<open>
  C34. Messages are not lost: over every run in which no delete command is given while the owner of a mailbox is
  the last identified caller, each message stored in it stays, under its name and with its samples, whatever is
  recorded, deleted by others, timed out or configured, as long as the numbers of the messages stay within an int.
  Whoever gives the command then counts as that owner: the module never clears the last identified caller
  (\<open>mod_voicemail.c:562\<close>), and \<open>voicemail_stranger_deletes\<close> shows a message removed by somebody
  who was not identified.
\<close>
theorem voicemail_messages_kept:
  assumes "numbers_below s (length is)" "\<not> deletes_as_last_caller s p is" "vs_files s p = Some fs"
  shows "\<exists>fs'. vs_files (fst (vm_run s is)) p = Some fs' \<and> mset fs \<subseteq># mset fs'"
  using assms
proof (induction "is" arbitrary: s fs)
  case (Cons x "is")
  obtain env i where x: "x = (env, i)" by (cases x) simp
  obtain s1 e1 where s1: "vm_step env s i = (s1, e1)" by fastforce
  obtain s2 e2 where s2: "vm_run s1 is = (s2, e2)" by fastforce
  have n: "numbers_below s (Suc (length is))" using Cons.prems(1) by simp
  have d: "\<not> (i = Vi_delete \<and> 0 < vs_caller s \<and> p = vm_path s (vs_caller s))" "\<not> deletes_as_last_caller s1 p is"
    using Cons.prems(2) x s1 by auto
  from vm_step_keeps[OF s1 n Cons.prems(3) d(1)] obtain fs1 where f: "vs_files s1 p = Some fs1" "mset fs \<subseteq># mset fs1" by blast
  from Cons.IH[OF vm_step_numbers[OF s1 n] d(2) f(1)] f(2) s2 obtain fs' where "vs_files s2 p = Some fs'" "mset fs \<subseteq># mset fs'"
    by (auto intro: subset_mset.order_trans)
  then show ?case unfolding x vm_run_Cons[OF s1 s2] by simp
qed simp

text \<open>
  A record command during a recording changes the user at once: what was being recorded for one user is
  stored in the mailbox of another. The command dispatched when a transmission ends can be such a one,
  when its handler runs before the one of this module.
\<close>

lemma voicemail_redirected:
  assumes "recorder_ok s" "vs_recording s" "vs_data s \<noteq> []" "vm_step env s (Vi_record (Some d)) = (s1, e1)" "vs_user s1 = v" "v \<noteq> vs_user s"
    and "ve_mkdir env'" "ve_write env'" "below_limit s v" "vm_step env' s1 Vi_cor_drop = (s2, e2)"
  shows "\<exists>fs' name. vs_files s2 = (vs_files s)(vm_path s v \<mapsto> fs') \<and> (name, vs_data s) \<in> set fs'"
proof -
  have s1: "0 < v" "vs_recording s1" "vs_buf s1" "vs_data s1 = vs_data s" "vs_files s1 = vs_files s" "vs_dir s1 = vs_dir s"
    using on_vm_record_cases[of env "Some d" s s1 e1] assms(1,2,4-6) by (auto simp: drop_arm_timer_def recorder_ok_def split: if_splits)
  note m = same_mailboxes[OF s1(5,6)]
  have st: "stop_recording env' s1 = (s2, e2)" using assms(10) by simp
  obtain fs fs' where "vs_files s2 = (vs_files s1)(vm_path s1 v \<mapsto> fs')" "mset fs' = add_mset (msg_name (next_msg_num s1 v), vs_data s1) (mset fs)"
    using stop_recording_saves(1)[OF s1(2,3) _ _ assms(7,8) _ st, unfolded assms(5)] s1(1,4) assms(3,9) m(2) by metis
  then have "vs_files s2 = (vs_files s)(vm_path s v \<mapsto> fs')" "(msg_name (next_msg_num s1 v), vs_data s) \<in> set fs'"
    using s1 m(1) by (simp, metis in_multiset_in_set s1(4) union_single_eq_member)
  then show ?thesis by blast
qed

subsection \<open>A small instance\<close>

definition vm_demo_env :: vm_env where
  "vm_demo_env = \<lparr>ve_now_us = 0, ve_rate = 8, ve_mem = True, ve_mkdir = True, ve_write = True, ve_remove = True, ve_place = 0, ve_tts = False,
     ve_sse = False, ve_db = \<lparr>db_users = [], db_groups = []\<rparr>\<rparr>"

definition vm_demo_box :: string where
  "vm_demo_box = ''/var/lib/kerchunk/voicemail/2''"

definition vm_demo :: vms where
  "vm_demo = (vm_boot [vm_demo_box \<mapsto> [(''msg_0001.pcm'', [5])]] (timer_init (CB_vm_foreign 0)))\<lparr>vs_armed := True, vs_user := 2\<rparr>"

lemma vm_demo_fields:
  "vs_files vm_demo = [vm_demo_box \<mapsto> [(''msg_0001.pcm'', [5])]]" "vs_armed vm_demo" "vs_user vm_demo = 2" "\<not> vs_recording vm_demo" "vs_max_dur vm_demo = 60"
  "vs_arm_timer vm_demo = -1" "vs_timers vm_demo = timer_init (CB_vm_foreign 0)" "vs_caller vm_demo = 0"
  by (simp_all add: vm_demo_def vm_boot_def)

lemma vm_demo_path: "vm_path vm_demo 2 = vm_demo_box"
  by code_simp

lemma vm_demo_scan: "scan_msg ''msg_0001.pcm'' = Some 1"
  by code_simp

lemma vm_demo_ok: "recorder_ok vm_demo"
proof (rule vm_wf_ok)
  have "vt.rec_timers (timer_init (CB_vm_foreign 0)) (-1) (-1)"
    by (rule vt.timers_boot[OF timer_inv_init]) (simp add: armed_init)
  then show "vm_wf vm_demo" by (simp add: vm_demo_def vm_wf_def vm_boot_def)
qed

lemma vm_demo_numbers: "numbers_below vm_demo 2"
  unfolding numbers_below_def vm_demo_fields using vm_demo_scan by (simp split: if_splits)

text \<open>The owner is identified and unkeys; somebody who is not identified keys up, gives the delete command, and the message is gone.\<close>

lemma voicemail_stranger_deletes:
  "vs_files (fst (vm_run (vm_demo\<lparr>vs_enabled := True, vs_armed := False\<rparr>)
     [(vm_demo_env, Vi_identified 2), (vm_demo_env, Vi_cor_drop), (vm_demo_env, Vi_cor_assert), (vm_demo_env, Vi_delete)])) vm_demo_box = Some []"
proof -
  let ?s = "vm_demo\<lparr>vs_enabled := True, vs_armed := False, vs_caller := 2\<rparr>"
  have p: "vm_path ?s 2 = vm_demo_box" using vm_demo_path by (simp add: vm_path_def)
  have "has_pcm ''msg_0001.pcm''" by code_simp
  then have "find_idx (\<lambda>e. has_pcm (fst e)) [(''msg_0001.pcm'', [5::int])] = Some 0" by simp
  then have "vs_files (fst (on_vm_delete vm_demo_env ?s)) vm_demo_box = Some []"
    by (simp add: on_vm_delete_def p Let_def vm_demo_fields) (simp add: vm_demo_env_def)
  then show ?thesis by (simp add: vm_demo_fields vm_cor_assert_def stop_recording_def)
qed

theorem voicemail_recorder_ok_witness:
  "recorder_ok (fst (vm_run (vm_boot (\<lambda>_. None) (timer_init (CB_vm_foreign 0))) [(vm_demo_env, Vi_identified 1), (vm_demo_env, Vi_record None), (vm_demo_env, Vi_cor_assert)]))"
  by (rule voicemail_recorder_ok[OF timer_inv_init]) (simp add: armed_init)

theorem voicemail_messages_kept_witness:
  "\<exists>fs'. vs_files (fst (vm_run vm_demo [(vm_demo_env, Vi_cor_assert), (vm_demo_env, Vi_cor_drop)])) vm_demo_box = Some fs' \<and> (''msg_0001.pcm'', [5]) \<in># mset fs'"
proof -
  let ?is = "[(vm_demo_env, Vi_cor_assert), (vm_demo_env, Vi_cor_drop)]" and ?m = "(''msg_0001.pcm'', [5::int])"
  have n: "numbers_below vm_demo (length ?is)" using vm_demo_numbers by (simp add: numeral_2_eq_2)
  have d: "\<not> deletes_as_last_caller vm_demo vm_demo_box ?is" by (rule no_delete_commands) simp
  have f: "vs_files vm_demo vm_demo_box = Some [?m]" by (simp add: vm_demo_fields)
  from voicemail_messages_kept[OF n d f] obtain fs' where "vs_files (fst (vm_run vm_demo ?is)) vm_demo_box = Some fs'" "mset [?m] \<subseteq># mset fs'" by blast
  moreover from this(2) have "?m \<in># mset fs'" by (rule mset_subset_eqD) simp
  ultimately show ?thesis by blast
qed

theorem voicemail_recording_saved_witness:
  "\<exists>s1 e1 s2 e2 s3 e3 fs' name. vm_step vm_demo_env vm_demo Vi_cor_assert = (s1, e1) \<and> vm_run s1 [(vm_demo_env, Vi_frame (Some [7, 8]))] = (s2, e2) \<and>
     vm_step vm_demo_env s2 Vi_cor_drop = (s3, e3) \<and> vs_files s3 = [vm_demo_box \<mapsto> fs'] \<and> mset fs' = {#(name, [7, 8]), (''msg_0001.pcm'', [5])#}"
proof -
  obtain s1 e1 where s1: "vm_step vm_demo_env vm_demo Vi_cor_assert = (s1, e1)" by fastforce
  obtain s2 e2 where s2: "vm_run s1 [(vm_demo_env, Vi_frame (Some [7, 8]))] = (s2, e2)" by fastforce
  obtain s3 e3 where s3: "vm_step vm_demo_env s2 Vi_cor_drop = (s3, e3)" by fastforce
  have r: "vs_recording s1"
    using s1 by (auto simp: vm_cor_assert_def vm_demo_fields start_recording_now_def drop_arm_timer_def vm_demo_env_def first_timer_ms Let_def split: if_splits prod.splits)
  have l: "below_limit vm_demo 2" by (rule numbers_below_limit) (rule vm_demo_numbers[unfolded numeral_2_eq_2])
  have "\<exists>fs fs' name. fs = (case vs_files vm_demo (vm_path vm_demo (vs_user vm_demo)) of None \<Rightarrow> [] | Some fs \<Rightarrow> fs) \<and> name \<notin> set (map fst fs) \<and>
      vs_files s3 = (vs_files vm_demo)(vm_path vm_demo (vs_user vm_demo) \<mapsto> fs') \<and>
      mset fs' = add_mset (name, take (8 * nat (vs_max_dur vm_demo)) (vm_heard [(vm_demo_env, Vi_frame (Some [7, 8]))])) (mset fs) \<and>
      \<not> vs_recording s3 \<and> \<not> vs_tap s3 \<and> \<not> vs_armed s3"
    by (rule voicemail_recording_saved[OF vm_demo_ok vm_demo_fields(2,4) s1 r _ s2 _ _ _ _ _ s3]) (use l in \<open>simp_all add: vm_demo_env_def vm_demo_fields vm_ends_def\<close>)
  then obtain fs' name where "vs_files s3 = (vs_files vm_demo)(vm_demo_box \<mapsto> fs')" "mset fs' = {#(name, [7, 8]), (''msg_0001.pcm'', [5])#}"
    by (auto simp: vm_demo_fields vm_demo_path)
  with s1 s2 s3 show ?thesis by (auto simp: vm_demo_fields)
qed

end
