(* ===== verification/Threads.thy ===== *)
theory Threads
  imports Prelude
begin

text \<open>
  Managed threads (\<open>src/kerchunk_threads.c\<close>): the table of named background threads of the modules.
  A module creates a thread, keeps its id in a variable of its own, and the loop of the
  thread asks with that variable whether it should stop. The mutex makes an operation one step; what
  a pthread does between them are the steps of a thread that starts, runs and ends.
  \<open>mt_ended\<close> and \<open>mt_joined\<close> are the state of the pthread in the system: whether its function has
  returned and whether it has been joined.
\<close>

record mthread =
  mt_active :: bool
  mt_id :: int
  mt_name :: string
  mt_stop :: bool
  mt_running :: bool
  mt_start_us :: nat
  mt_ended :: bool
  mt_joined :: bool

record threads =
  th_slots :: "mthread list"
  th_next :: int

abbreviation MAX_THREADS :: nat where "MAX_THREADS \<equiv> 32"

definition empty_thread :: mthread where
  "empty_thread = \<lparr>mt_active = False, mt_id = 0, mt_name = [], mt_stop = False, mt_running = False, mt_start_us = 0, mt_ended = False, mt_joined = False\<rparr>"

definition threads_init :: threads where
  "threads_init = \<lparr>th_slots = replicate MAX_THREADS empty_thread, th_next = 1\<rparr>"

text \<open>\<open>started\<close>: \<open>pthread_create\<close> succeeds. When it fails the id is used up and the slot is inactive.\<close>

definition thread_create :: "nat \<Rightarrow> bool \<Rightarrow> string \<Rightarrow> threads \<Rightarrow> threads \<times> int" where
  "thread_create now started name t =
     (case find_idx (\<lambda>e. \<not> mt_active e) (th_slots t) of
        None \<Rightarrow> (t, -1)
      | Some i \<Rightarrow>
          (let e = \<lparr>mt_active = started, mt_id = th_next t, mt_name = c_trunc 32 name, mt_stop = False, mt_running = False,
                    mt_start_us = now, mt_ended = False, mt_joined = False\<rparr>
           in (t\<lparr>th_slots := (th_slots t)[i := e], th_next := th_next t + 1\<rparr>, if started then th_next t else -1)))"

definition thread_slot :: "threads \<Rightarrow> int \<Rightarrow> nat option" where
  "thread_slot t tid = find_idx (\<lambda>e. mt_active e \<and> mt_id e = tid) (th_slots t)"

definition on_thread :: "(mthread \<Rightarrow> mthread) \<Rightarrow> threads \<Rightarrow> int \<Rightarrow> threads" where
  "on_thread f t tid = (case thread_slot t tid of None \<Rightarrow> t | Some i \<Rightarrow> t\<lparr>th_slots := (th_slots t)[i := f (th_slots t ! i)]\<rparr>)"

definition thread_stop :: "threads \<Rightarrow> int \<Rightarrow> threads" where
  "thread_stop t tid = on_thread (\<lambda>e. e\<lparr>mt_stop := True\<rparr>) t tid"

definition thread_should_stop :: "threads \<Rightarrow> int \<Rightarrow> bool" where
  "thread_should_stop t tid = (case thread_slot t tid of Some i \<Rightarrow> mt_stop (th_slots t ! i) | None \<Rightarrow> True)"

text \<open>\<open>thread_wrapper\<close> before and after the function of the thread.\<close>

definition thread_enter :: "threads \<Rightarrow> int \<Rightarrow> threads" where
  "thread_enter t tid = on_thread (\<lambda>e. e\<lparr>mt_running := True\<rparr>) t tid"

definition thread_exit :: "threads \<Rightarrow> int \<Rightarrow> threads" where
  "thread_exit t tid = on_thread (\<lambda>e. e\<lparr>mt_running := False, mt_ended := True\<rparr>) t tid"

text \<open>
  Waiting for a thread: None while it has not ended. An id that is not in the table is not waited for. The
  slot stays active.
\<close>

definition thread_join :: "threads \<Rightarrow> int \<Rightarrow> threads option" where
  "thread_join t tid =
     (case thread_slot t tid of
        None \<Rightarrow> Some t
      | Some i \<Rightarrow> if mt_ended (th_slots t ! i) then Some (on_thread (\<lambda>e. e\<lparr>mt_joined := True\<rparr>) t tid) else None)"

definition thread_count :: "threads \<Rightarrow> nat" where
  "thread_count t = length (filter (\<lambda>e. mt_active e \<and> mt_running e) (th_slots t))"

definition thread_iter :: "threads \<Rightarrow> (int \<times> string \<times> bool \<times> nat) list" where
  "thread_iter t = map (\<lambda>e. (mt_id e, mt_name e, mt_running e, mt_start_us e)) (filter mt_active (th_slots t))"

text \<open>Shutdown asks all threads to stop; then each is waited for, at most five seconds, and its slot given up.\<close>

definition threads_ask :: "threads \<Rightarrow> threads" where
  "threads_ask t = t\<lparr>th_slots := map (\<lambda>e. if mt_active e then e\<lparr>mt_stop := True\<rparr> else e) (th_slots t)\<rparr>"

definition threads_release :: "threads \<Rightarrow> threads" where
  "threads_release t = t\<lparr>th_slots := map (\<lambda>e. e\<lparr>mt_active := False\<rparr>) (th_slots t)\<rparr>"

text \<open>The operations as inputs; the answer of creating is the id.\<close>

datatype th_in =
    Th_create nat bool string
  | Th_stop int
  | Th_join int
  | Th_enter int
  | Th_exit int
  | Th_ask

fun th_step :: "threads \<Rightarrow> th_in \<Rightarrow> threads \<times> int option" where
  "th_step t (Th_create now started name) = (let (t', tid) = thread_create now started name t in (t', Some tid))"
| "th_step t (Th_stop tid) = (thread_stop t tid, None)"
| "th_step t (Th_join tid) = (case thread_join t tid of Some t' \<Rightarrow> (t', None) | None \<Rightarrow> (t, None))"
| "th_step t (Th_enter tid) = (thread_enter t tid, None)"
| "th_step t (Th_exit tid) = (thread_exit t tid, None)"
| "th_step t Th_ask = (threads_ask t, None)"

subsection \<open>Ids\<close>

definition threads_ok :: "threads \<Rightarrow> bool" where
  "threads_ok t \<longleftrightarrow> length (th_slots t) = MAX_THREADS \<and> 0 < th_next t \<and>
     (\<forall>e \<in> set (th_slots t). mt_active e \<longrightarrow> 0 < mt_id e \<and> mt_id e < th_next t) \<and>
     distinct (map mt_id (filter mt_active (th_slots t)))"

lemma threads_ok_init: "threads_ok threads_init"
  by (simp add: threads_ok_def threads_init_def empty_thread_def)

text \<open>What a list of slots knows of its threads: the flag that asks to stop, by id.\<close>

definition asked :: "mthread list \<Rightarrow> int \<Rightarrow> bool option" where
  "asked es tid = map_option (\<lambda>i. mt_stop (es ! i)) (find_idx (\<lambda>e. mt_active e \<and> mt_id e = tid) es)"

lemma asked_Nil [simp]: "asked [] tid = None"
  by (simp add: asked_def)

lemma asked_Cons [simp]: "asked (e # es) tid = (if mt_active e \<and> mt_id e = tid then Some (mt_stop e) else asked es tid)"
  by (simp add: asked_def option.map_comp comp_def)

lemma asked_None: "asked es tid = None \<longleftrightarrow> (\<forall>e \<in> set es. mt_active e \<longrightarrow> mt_id e \<noteq> tid)"
  by (induction es) auto

lemma should_stop_asked: "thread_should_stop t tid \<longleftrightarrow> asked (th_slots t) tid \<noteq> Some False"
  by (auto simp: thread_should_stop_def thread_slot_def asked_def split: option.split)

lemma asked_update:
  assumes "i < length es" "\<not> mt_active (es ! i)"
    and "\<forall>x \<in> set es. mt_active x \<longrightarrow> mt_id x \<noteq> mt_id e"
  shows "asked (es[i := e]) = (if mt_active e then (asked es)(mt_id e \<mapsto> mt_stop e) else asked es)"
  using assms
proof (induction es arbitrary: i)
  case (Cons x es)
  show ?case
  proof (cases i)
    case 0
    with Cons.prems have "asked es (mt_id e) = None" by (simp add: asked_None)
    with 0 Cons.prems show ?thesis by (intro ext) (auto simp: fun_upd_def)
  next
    case (Suc j)
    with Cons.prems have "asked (es[j := e]) = (if mt_active e then (asked es)(mt_id e \<mapsto> mt_stop e) else asked es)"
      by (intro Cons.IH) simp_all
    then have "asked (es[j := e]) y = (if mt_active e then (asked es)(mt_id e \<mapsto> mt_stop e) else asked es) y" for y by simp
    with Suc Cons.prems show ?thesis by (intro ext) (auto simp: fun_upd_def)
  qed
qed simp

lemma asked_on:
  assumes "find_idx (\<lambda>e. mt_active e \<and> mt_id e = tid) es = Some i" "\<And>e. mt_active (f e) = mt_active e \<and> mt_id (f e) = mt_id e"
  shows "asked (es[i := f (es ! i)]) = (asked es)(tid \<mapsto> mt_stop (f (es ! i)))"
  using assms(1)
proof (induction es arbitrary: i)
  case (Cons x es)
  show ?case
  proof (cases "mt_active x \<and> mt_id x = tid")
    case True
    with Cons.prems assms(2) show ?thesis by (intro ext) (auto simp: fun_upd_def)
  next
    case False
    with Cons.prems obtain j where j: "find_idx (\<lambda>e. mt_active e \<and> mt_id e = tid) es = Some j" "i = Suc j" by auto
    have "asked (es[j := f (es ! j)]) y = ((asked es)(tid \<mapsto> mt_stop (f (es ! j)))) y" for y using Cons.IH[OF j(1)] by simp
    with j(2) False show ?thesis by (intro ext) (auto simp: fun_upd_def)
  qed
qed simp

text \<open>An update of one thread that keeps its id changes its flag alone, and the invariant and the number of slots stay.\<close>

lemma asked_on_thread:
  assumes "\<And>e. mt_active (f e) = mt_active e \<and> mt_id (f e) = mt_id e"
  shows "asked (th_slots (on_thread f t tid)) =
    (case thread_slot t tid of None \<Rightarrow> asked (th_slots t) | Some i \<Rightarrow> (asked (th_slots t))(tid \<mapsto> mt_stop (f (th_slots t ! i))))"
  using asked_on[OF _ assms] by (simp add: on_thread_def thread_slot_def split: option.split)

lemma map_filter_update:
  assumes "i < length es" "mt_active e = mt_active (es ! i)" "mt_id e = mt_id (es ! i)"
  shows "map mt_id (filter mt_active (es[i := e])) = map mt_id (filter mt_active es)"
  using assms
proof (induction es arbitrary: i)
  case (Cons x es)
  then show ?case by (cases i) auto
qed simp

lemma threads_ok_alt:
  "threads_ok t \<longleftrightarrow> length (th_slots t) = MAX_THREADS \<and> 0 < th_next t \<and>
     (let ids = map mt_id (filter mt_active (th_slots t)) in distinct ids \<and> (\<forall>k \<in> set ids. 0 < k \<and> k < th_next t))"
  by (auto simp: threads_ok_def Let_def)

lemma on_thread_ids:
  assumes "\<And>e. mt_active (f e) = mt_active e \<and> mt_id (f e) = mt_id e"
  shows "map mt_id (filter mt_active (th_slots (on_thread f t tid))) = map mt_id (filter mt_active (th_slots t))"
    "length (th_slots (on_thread f t tid)) = length (th_slots t)" "th_next (on_thread f t tid) = th_next t"
proof -
  show "map mt_id (filter mt_active (th_slots (on_thread f t tid))) = map mt_id (filter mt_active (th_slots t))"
  proof (cases "thread_slot t tid")
    case (Some i)
    then have "i < length (th_slots t)" by (simp add: thread_slot_def find_idx_less)
    from map_filter_update[OF this, of "f (th_slots t ! i)"] Some assms show ?thesis by (simp add: on_thread_def)
  qed (simp add: on_thread_def)
qed (simp_all add: on_thread_def split: option.split)

lemma threads_ask_ids:
  "map mt_id (filter mt_active (th_slots (threads_ask t))) = map mt_id (filter mt_active (th_slots t))"
  "length (th_slots (threads_ask t)) = length (th_slots t)" "th_next (threads_ask t) = th_next t"
proof -
  have "map mt_id (filter mt_active (map (\<lambda>e. if mt_active e then e\<lparr>mt_stop := True\<rparr> else e) es)) = map mt_id (filter mt_active es)" for es :: "mthread list"
    by (induction es) auto
  then show "map mt_id (filter mt_active (th_slots (threads_ask t))) = map mt_id (filter mt_active (th_slots t))" by (simp add: threads_ask_def)
qed (simp_all add: threads_ask_def)

lemma asked_ask: "asked (th_slots (threads_ask t)) tid = map_option (\<lambda>_. True) (asked (th_slots t) tid)"
proof -
  have "asked (map (\<lambda>e. if mt_active e then e\<lparr>mt_stop := True\<rparr> else e) es) tid = map_option (\<lambda>_. True) (asked es tid)" for es
    by (induction es) auto
  then show ?thesis by (simp add: threads_ask_def)
qed

text \<open>What creating does.\<close>

lemma thread_create_cases:
  assumes "threads_ok t" "thread_create now started name t = (t', tid)"
  obtains (full) "\<forall>e \<in> set (th_slots t). mt_active e" "t' = t" "tid = -1"
  | (failed) "tid = -1" "threads_ok t'" "asked (th_slots t') = asked (th_slots t)" "filter mt_active (th_slots t') = filter mt_active (th_slots t)" "\<not> started"
  | (made) "tid = th_next t" "threads_ok t'" "asked (th_slots t') = (asked (th_slots t))(tid \<mapsto> False)" "asked (th_slots t) tid = None"
      "length (filter mt_active (th_slots t')) = Suc (length (filter mt_active (th_slots t)))" "started"
proof (cases "find_idx (\<lambda>e. \<not> mt_active e) (th_slots t)")
  case None
  then have e: "(t', tid) = (t, -1)" using assms(2) by (simp add: thread_create_def)
  from None have "\<forall>e \<in> set (th_slots t). mt_active e" by (simp add: find_idx_None)
  with e show thesis by (intro that(1)) simp_all
next
  case (Some i)
  let ?e = "\<lparr>mt_active = started, mt_id = th_next t, mt_name = c_trunc 32 name, mt_stop = False, mt_running = False, mt_start_us = now, mt_ended = False, mt_joined = False\<rparr>"
  let ?s = "th_slots t"
  from find_idx_SomeD[OF Some] have i: "i < length ?s" "\<not> mt_active (?s ! i)" by simp_all
  have t': "t' = t\<lparr>th_slots := ?s[i := ?e], th_next := th_next t + 1\<rparr>" "tid = (if started then th_next t else -1)"
    using assms(2) Some by (auto simp: thread_create_def Let_def)
  have fresh: "\<forall>x \<in> set ?s. mt_active x \<longrightarrow> mt_id x \<noteq> th_next t" using assms(1) by (auto simp: threads_ok_def)
  have a: "asked (?s[i := ?e]) = (if started then (asked ?s)(th_next t \<mapsto> False) else asked ?s)"
    using asked_update[OF i, of ?e] fresh by simp
  have split: "?s = take i ?s @ ?s ! i # drop (Suc i) ?s" "?s[i := ?e] = take i ?s @ ?e # drop (Suc i) ?s"
    using i(1) by (simp_all add: id_take_nth_drop upd_conv_take_nth_drop)
  have f: "filter mt_active ?s = filter mt_active (take i ?s) @ filter mt_active (drop (Suc i) ?s)"
    by (subst split(1)) (simp add: i(2))
  have f': "filter mt_active (?s[i := ?e]) = filter mt_active (take i ?s) @ (if started then [?e] else []) @ filter mt_active (drop (Suc i) ?s)"
    unfolding split(2) by simp
  let ?a = "map mt_id (filter mt_active (take i ?s))" and ?b = "map mt_id (filter mt_active (drop (Suc i) ?s))"
  have ids: "distinct (?a @ ?b)" "\<forall>k \<in> set (?a @ ?b). 0 < k \<and> k < th_next t" "length ?s = MAX_THREADS" "0 < th_next t"
    using assms(1) unfolding threads_ok_alt Let_def f by simp_all
  have new: "map mt_id (filter mt_active (th_slots t')) = ?a @ (if started then [th_next t] else []) @ ?b" "length (th_slots t') = length ?s" "th_next t' = th_next t + 1"
    using f' t'(1) by simp_all
  have "th_next t \<notin> set (?a @ ?b)" using ids(2) by blast
  then have "distinct (?a @ (if started then [th_next t] else []) @ ?b)" using ids(1) by simp
  moreover have "0 < k \<and> k < th_next t + 1" if "k \<in> set (?a @ (if started then [th_next t] else []) @ ?b)" for k
  proof -
    from that have "k \<in> set (?a @ ?b) \<or> k = th_next t" unfolding set_append by (cases started) auto
    then show ?thesis using ids(2,4) by (elim disjE) (drule bspec, assumption, simp, simp)
  qed
  ultimately have ok: "threads_ok t'" unfolding threads_ok_alt Let_def new using ids(3,4) by simp
  have s': "th_slots t' = ?s[i := ?e]" using t'(1) by simp
  show thesis
  proof (cases started)
    case True
    have "asked ?s (th_next t) = None" unfolding asked_None by (rule fresh)
    moreover have "length (filter mt_active (th_slots t')) = Suc (length (filter mt_active ?s))" unfolding s' f' f using True by simp
    moreover have "asked (th_slots t') = (asked ?s)(tid \<mapsto> False)" unfolding s' a using True t'(2) by simp
    ultimately show thesis using True t'(2) ok by (intro that(3)) simp_all
  next
    case False
    have "filter mt_active (th_slots t') = filter mt_active ?s" unfolding s' f' f using False by simp
    moreover have "asked (th_slots t') = asked ?s" unfolding s' a using False by simp
    ultimately show thesis using False t'(2) ok by (intro that(2)) simp_all
  qed
qed

subsection \<open>Over the life of the table\<close>

text \<open>The reference: is a thread live, that is, created and since then neither stopped nor told so with all others?\<close>

fun thread_live :: "int \<Rightarrow> (th_in \<times> int option) list \<Rightarrow> bool \<Rightarrow> bool" where
  "thread_live tid [] b = b"
| "thread_live tid ((Th_create now started name, r) # xs) b = thread_live tid xs (b \<or> (r = Some tid \<and> 0 < tid))"
| "thread_live tid ((Th_stop k, r) # xs) b = thread_live tid xs (b \<and> k \<noteq> tid)"
| "thread_live tid ((Th_ask, r) # xs) b = thread_live tid xs False"
| "thread_live tid ((i, r) # xs) b = thread_live tid xs b"

lemma asked_on_same:
  assumes "\<And>e. mt_active (f e) = mt_active e \<and> mt_id (f e) = mt_id e \<and> mt_stop (f e) = mt_stop e"
  shows "asked (th_slots (on_thread f t tid)) = asked (th_slots t)"
proof -
  have "asked (th_slots t) tid = Some (mt_stop (th_slots t ! i))" if "thread_slot t tid = Some i" for i
    using that by (simp add: asked_def thread_slot_def)
  then show ?thesis using asked_on_thread[of f t tid] assms by (auto split: option.splits)
qed

lemma asked_stop: "asked (th_slots (thread_stop t k)) tid = (if tid = k then map_option (\<lambda>_. True) (asked (th_slots t) k) else asked (th_slots t) tid)"
proof (cases "thread_slot t k")
  case None
  then have "asked (th_slots t) k = None" by (simp add: asked_def thread_slot_def)
  with None show ?thesis by (simp add: thread_stop_def on_thread_def)
next
  case (Some i)
  then have "asked (th_slots t) k = Some (mt_stop (th_slots t ! i))" by (simp add: asked_def thread_slot_def)
  with Some asked_on_thread[of "\<lambda>e. e\<lparr>mt_stop := True\<rparr>" t k] show ?thesis by (simp add: thread_stop_def)
qed

lemma on_thread_ok:
  assumes "\<And>e. mt_active (f e) = mt_active e \<and> mt_id (f e) = mt_id e" "threads_ok t"
  shows "threads_ok (on_thread f t tid)"
  using assms(2) by (simp only: threads_ok_alt on_thread_ids[OF assms(1)])

definition granted :: "int option \<Rightarrow> bool" where
  "granted r \<longleftrightarrow> (\<exists>tid > 0. r = Some tid)"

lemma quiet_steps:
  assumes "i \<in> {Th_join k, Th_enter k, Th_exit k}"
  shows "\<exists>f. fst (th_step t i) = on_thread f t k \<and> (\<forall>e. mt_active (f e) = mt_active e \<and> mt_id (f e) = mt_id e \<and> mt_stop (f e) = mt_stop e)" "snd (th_step t i) = None"
proof -
  have n: "on_thread (\<lambda>e. e) t k = t" by (simp add: on_thread_def thread_slot_def split: option.split)
  have j: "fst (th_step t (Th_join k)) = on_thread (\<lambda>e. e) t k \<or> fst (th_step t (Th_join k)) = on_thread (\<lambda>e. e\<lparr>mt_joined := True\<rparr>) t k"
    unfolding n by (simp add: thread_join_def split: option.split)
  show "\<exists>f. fst (th_step t i) = on_thread f t k \<and> (\<forall>e. mt_active (f e) = mt_active e \<and> mt_id (f e) = mt_id e \<and> mt_stop (f e) = mt_stop e)"
    using assms
  proof (elim insertE emptyE)
    assume i: "i = Th_join k"
    from j show ?thesis unfolding i
      by (elim disjE) (rule exI[of _ "\<lambda>e. e"], simp, rule exI[of _ "\<lambda>e. e\<lparr>mt_joined := True\<rparr>"], simp)
  next
    assume i: "i = Th_enter k"
    show ?thesis unfolding i by (rule exI[of _ "\<lambda>e. e\<lparr>mt_running := True\<rparr>"]) (simp add: thread_enter_def)
  next
    assume i: "i = Th_exit k"
    show ?thesis unfolding i by (rule exI[of _ "\<lambda>e. e\<lparr>mt_running := False, mt_ended := True\<rparr>"]) (simp add: thread_exit_def)
  qed
  show "snd (th_step t i) = None" using assms by (auto split: option.split)
qed

lemma active_count:
  assumes "\<And>e. mt_active (f e) = mt_active e \<and> mt_id (f e) = mt_id e"
  shows "length (filter mt_active (th_slots (on_thread f t k))) = length (filter mt_active (th_slots t))"
  using arg_cong[OF on_thread_ids(1)[of f t k, OF assms], of length] by simp

lemma quiet_laws:
  assumes "threads_ok t" "th_step t i = (t', r)" "i \<in> {Th_join k, Th_enter k, Th_exit k}"
  shows "threads_ok t' \<and> (asked (th_slots t') tid = Some False) = thread_live tid [(i, r)] (asked (th_slots t) tid = Some False) \<and>
    length (filter mt_active (th_slots t')) = length (filter mt_active (th_slots t)) + (if granted r then 1 else 0)"
proof -
  obtain f where f: "t' = on_thread f t k" "\<And>e. mt_active (f e) = mt_active e \<and> mt_id (f e) = mt_id e \<and> mt_stop (f e) = mt_stop e"
    using quiet_steps(1)[OF assms(3), of t] assms(2) by auto
  have r: "r = None" using quiet_steps(2)[OF assms(3), of t] assms(2) by simp
  have "thread_live tid [(i, r)] b = b" for b using assms(3) by auto
  then show ?thesis
    using on_thread_ok[of f, OF _ assms(1), of k] asked_on_same[of f t k, OF f(2)] active_count[of f t k] f r by (simp add: granted_def)
qed

lemma th_step_laws:
  assumes "threads_ok t" "th_step t i = (t', r)"
  shows "threads_ok t' \<and> (asked (th_slots t') tid = Some False) = thread_live tid [(i, r)] (asked (th_slots t) tid = Some False) \<and>
    length (filter mt_active (th_slots t')) = length (filter mt_active (th_slots t)) + (if granted r then 1 else 0)"
proof -
  show ?thesis
  proof (cases i)
    case (Th_create now started name)
    obtain k where c: "thread_create now started name t = (t', k)" "r = Some k" using assms(2) Th_create by (auto split: prod.splits)
    show ?thesis
      using assms(1) c(1)
    proof (cases rule: thread_create_cases)
      case full
      with c Th_create assms(1) show ?thesis by (auto simp: granted_def)
    next
      case failed
      with c Th_create show ?thesis by (auto simp: granted_def)
    next
      case made
      with c Th_create assms(1) show ?thesis by (auto simp: granted_def threads_ok_def)
    qed
  next
    case (Th_stop k)
    with assms(2) have e: "t' = on_thread (\<lambda>e. e\<lparr>mt_stop := True\<rparr>) t k" "r = None" "t' = thread_stop t k" by (simp_all add: thread_stop_def)
    have "threads_ok t'" unfolding e(1) by (rule on_thread_ok) (use assms(1) in simp_all)
    moreover have "length (filter mt_active (th_slots t')) = length (filter mt_active (th_slots t))"
      unfolding e(1) by (rule active_count) simp
    ultimately show ?thesis using asked_stop[of t k tid] e(2,3) Th_stop by (auto simp: granted_def)
  next
    case Th_ask
    with assms(2) have e: "t' = threads_ask t" "r = None" by simp_all
    have "threads_ok t'" using assms(1) unfolding e threads_ok_alt threads_ask_ids .
    moreover have "length (filter mt_active (th_slots t')) = length (filter mt_active (th_slots t))"
      using arg_cong[OF threads_ask_ids(1)[of t], of length] e(1) by simp
    ultimately show ?thesis using asked_ask[of t tid] e Th_ask by (simp add: granted_def)
  next
    case (Th_join k)
    show ?thesis by (rule quiet_laws[OF assms, of k]) (simp add: Th_join)
  next
    case (Th_enter k)
    show ?thesis by (rule quiet_laws[OF assms, of k]) (simp add: Th_enter)
  next
    case (Th_exit k)
    show ?thesis by (rule quiet_laws[OF assms, of k]) (simp add: Th_exit)
  qed
qed

lemma thread_live_Cons: "thread_live tid ((i, r) # xs) b = thread_live tid xs (thread_live tid [(i, r)] b)"
  by (cases i) simp_all

lemma th_run_laws:
  assumes "threads_ok t" "run_steps th_step t is = (t', rs)"
  shows "threads_ok t' \<and> (asked (th_slots t') tid = Some False) = thread_live tid (zip is rs) (asked (th_slots t) tid = Some False) \<and>
    length (filter mt_active (th_slots t')) = length (filter mt_active (th_slots t)) + length (filter granted rs)"
  using assms
proof (induction "is" arbitrary: t rs)
  case (Cons i "is")
  obtain t1 r where s: "th_step t i = (t1, r)" by fastforce
  obtain rs' where r: "run_steps th_step t1 is = (t', rs')" "rs = r # rs'" using Cons.prems(2) s by (auto split: prod.splits)
  note l = th_step_laws[OF Cons.prems(1) s, of tid]
  from l have ok: "threads_ok t1" by blast
  note IH = Cons.IH[OF ok r(1)]
  have "thread_live tid (zip (i # is) rs) b = thread_live tid (zip is rs') (thread_live tid [(i, r)] b)" for b
    unfolding r(2) zip_Cons_Cons by (rule thread_live_Cons)
  with l IH r(2) show ?case by simp
qed simp

text \<open>
  C35. The answer to a thread that asks whether it should stop is right over every sequence of operations on the table:
  it may go on exactly when it has been created under this id and neither it nor all threads
  have been asked to stop since. Joining and ending a thread change no answer, and no id is given twice.
\<close>
theorem threads_stop_answer:
  assumes "run_steps th_step threads_init is = (t, rs)"
  shows "thread_should_stop t tid \<longleftrightarrow> \<not> thread_live tid (zip is rs) False"
proof -
  have "asked (replicate MAX_THREADS empty_thread) tid = None" unfolding asked_None by (simp add: empty_thread_def)
  then have "asked (th_slots threads_init) tid \<noteq> Some False" by (simp add: threads_init_def)
  with th_run_laws[OF threads_ok_init assms, of tid] show ?thesis by (simp add: should_stop_asked)
qed

theorem threads_stop_answer_witness:
  "\<exists>t rs. run_steps th_step threads_init [Th_create 0 True ''a'', Th_create 0 True ''b'', Th_stop 1] = (t, rs) \<and> thread_should_stop t 1 \<and> \<not> thread_should_stop t 2"
proof -
  let ?is = "[Th_create 0 True ''a'', Th_create 0 True ''b'', Th_stop 1]"
  obtain t rs where r: "run_steps th_step threads_init ?is = (t, rs)" by fastforce
  have c: "snd (thread_create 0 True ''a'' threads_init) = 1" "th_next (fst (thread_create 0 True ''a'' threads_init)) = 2"
    "find_idx (\<lambda>e. \<not> mt_active e) (th_slots (fst (thread_create 0 True ''a'' threads_init))) = Some 1"
    by code_simp+
  then have "rs = [Some 1, Some 2, None]"
    using r by (auto simp: thread_create_def[of 0 True "''b''"] Let_def split: prod.splits)
  then show ?thesis using r threads_stop_answer[OF r, of 1] threads_stop_answer[OF r, of 2] by simp
qed

text \<open>
  C36. A slot is never given back while the daemon runs: of all threads created, at most 32 are granted, and once 32 have been,
  every further one is refused, even when all of them have been stopped, have ended and been joined.
\<close>
theorem threads_slots_used_up:
  assumes "run_steps th_step threads_init is = (t, rs)"
  shows "length (filter granted rs) \<le> MAX_THREADS \<and> (length (filter granted rs) = MAX_THREADS \<longrightarrow> snd (thread_create now started name t) = -1)"
proof
  have z: "filter mt_active (th_slots threads_init) = []" by (simp add: threads_init_def empty_thread_def)
  from th_run_laws[OF threads_ok_init assms] have ok: "threads_ok t" "length (filter mt_active (th_slots t)) = length (filter granted rs)" by (simp_all add: z)
  then have len: "length (th_slots t) = MAX_THREADS" by (simp add: threads_ok_def)
  have le: "length (filter mt_active (th_slots t)) \<le> length (th_slots t)" by simp
  with len ok(2) show "length (filter granted rs) \<le> MAX_THREADS" by metis
  show "length (filter granted rs) = MAX_THREADS \<longrightarrow> snd (thread_create now started name t) = -1"
  proof
    assume "length (filter granted rs) = MAX_THREADS"
    with ok(2) len have "length (filter mt_active (th_slots t)) = length (th_slots t)" by simp
    then have "filter mt_active (th_slots t) = th_slots t" by (metis filter_id_conv length_filter_less linorder_neq_iff)
    then have "\<forall>e \<in> set (th_slots t). mt_active e" by (simp add: filter_id_conv)
    then have "find_idx (\<lambda>e. \<not> mt_active e) (th_slots t) = None" by (simp add: find_idx_None)
    then show "snd (thread_create now started name t) = -1" by (simp add: thread_create_def)
  qed
qed

text \<open>Threads that are created, stopped and joined one after the other use the slots up.\<close>

lemma creates_granted:
  assumes "threads_ok t" "length (filter mt_active (th_slots t)) + n \<le> MAX_THREADS"
  shows "length (filter granted (snd (run_steps th_step t (replicate n (Th_create now True name))))) = n"
  using assms
proof (induction n arbitrary: t)
  case (Suc n)
  obtain t1 tid where c: "thread_create now True name t = (t1, tid)" by fastforce
  have "\<not> (\<forall>e \<in> set (th_slots t). mt_active e)"
  proof
    assume "\<forall>e \<in> set (th_slots t). mt_active e"
    then have "filter mt_active (th_slots t) = th_slots t" by (simp add: filter_id_conv)
    with Suc.prems show False by (simp add: threads_ok_def)
  qed
  with thread_create_cases[OF Suc.prems(1) c] Suc.prems(1) have
    m: "threads_ok t1" "length (filter mt_active (th_slots t1)) = Suc (length (filter mt_active (th_slots t)))" "0 < tid"
    by (metis (mono_tags) threads_ok_def)+
  from Suc.IH[OF m(1)] m(2,3) Suc.prems(2) c show ?case by (simp add: granted_def split_beta)
qed simp

theorem threads_slots_used_up_witness:
  "\<exists>t rs. run_steps th_step threads_init (replicate 32 (Th_create 0 True ''a'') @ [Th_stop 1, Th_exit 1, Th_join 1]) = (t, rs) \<and>
     length (filter granted rs) = 32 \<and> snd (thread_create 0 True ''b'' t) = -1"
proof -
  let ?is = "replicate 32 (Th_create 0 True ''a'')" and ?js = "[Th_stop 1, Th_exit 1, Th_join 1]"
  obtain t1 rs1 where 1: "run_steps th_step threads_init ?is = (t1, rs1)" by fastforce
  obtain t rs2 where 2: "run_steps th_step t1 ?js = (t, rs2)" by fastforce
  have r: "run_steps th_step threads_init (?is @ ?js) = (t, rs1 @ rs2)" by (simp only: run_steps_append 1 2 Let_def prod.case)
  have "length (filter mt_active (th_slots threads_init)) = 0" by (simp add: threads_init_def empty_thread_def)
  with creates_granted[OF threads_ok_init, of 32 0 "''a''"] 1 have g: "length (filter granted rs1) = 32" by simp
  have "rs2 = [None, None, None]" using 2 by (auto split: option.splits)
  then have "length (filter granted (rs1 @ rs2)) = 32" using g by (simp add: granted_def)
  with threads_slots_used_up[OF r, of 0 True "''b''"] r show ?thesis by blast
qed

end
