(* ===== verification/Flex.thy ===== *)
theory Flex
  imports Threads Config Resp
begin

text \<open>
  The FLEX paging transmitter (\<open>modules/mod_flex.c\<close>): the frame clock, the queue of pages that wait for
  their frame, the passes of the worker thread that encodes and sends them, and the commands. The encoder and
  the modulators of libflex with the conversion to samples are one parameter, \<open>fe_encode\<close>, which
  answers None for any failure; the worker's pass is split where it holds the mutex, so that commands may run
  in between. The level is kept as the text the configuration gave, with \<open>fe_level_ok\<close> for the range test.
\<close>

datatype flex_type = FLEX_MSG_ALPHA | FLEX_MSG_NUMERIC | FLEX_MSG_TONE_ONLY
datatype flex_speed = FLEX_SPEED_1600_2 | FLEX_SPEED_3200_2 | FLEX_SPEED_6400_4

record flex_page =
  fp_capcode :: nat
  fp_type :: flex_type
  fp_speed :: flex_speed
  fp_text :: string
  fp_frame :: nat
  fp_sec :: int
  fp_nsec :: int
  fp_pcm :: "int list option"
  fp_valid :: bool

record flex =
  fl_enabled :: bool
  fl_tx_count :: nat
  fl_deemph :: bool
  fl_use_fsk :: bool
  fl_level :: string
  fl_speed :: flex_speed
  fl_pending :: "flex_page list"
  fl_worker :: int
  fl_ready :: "nat option"

definition flex_boot :: flex where
  "flex_boot = \<lparr>fl_enabled = True, fl_tx_count = 0, fl_deemph = False, fl_use_fsk = False, fl_level = ''0.5'', fl_speed = FLEX_SPEED_1600_2,
     fl_pending = [], fl_worker = -1, fl_ready = None\<rparr>"

record flex_env =
  fe_sec :: int
  fe_nsec :: int
  fe_encode :: "bool \<Rightarrow> bool \<Rightarrow> string \<Rightarrow> flex_speed \<Rightarrow> nat \<Rightarrow> nat \<Rightarrow> nat \<Rightarrow> flex_type \<Rightarrow> string option \<Rightarrow> int list option"
  fe_bps :: "flex_speed \<Rightarrow> int"
  fe_level_ok :: "string \<Rightarrow> bool"
  fe_level_pct :: "string \<Rightarrow> int"

abbreviation MAX_PENDING :: nat where "MAX_PENDING \<equiv> 16"
abbreviation FLEX_PREROLL_MS :: int where "FLEX_PREROLL_MS \<equiv> 200"

subsection \<open>The frame clock\<close>

text \<open>Cycle and frame of a UTC second; minute and second of the hour are its remainder by 3600.\<close>

definition flex_frame_at_time :: "int \<Rightarrow> nat \<times> nat" where
  "flex_frame_at_time utc =
     (let sec_in_hour = utc mod 3600; sec_in_cycle = sec_in_hour mod 240
      in (nat ((sec_in_hour div 240) mod 15), nat (((sec_in_cycle * 1000) div 1875) mod 128)))"

text \<open>When to start sending a page, and the cycle and frame computed for it.\<close>

definition flex_wait_ms :: "nat \<Rightarrow> int \<Rightarrow> int" where
  "flex_wait_ms capcode sec =
     (let delta = int (capcode mod 128) - int (snd (flex_frame_at_time sec));
          delta1 = (if delta \<le> 0 then delta + 128 else delta);
          wait_ms = delta1 * 1875 - FLEX_PREROLL_MS
      in if wait_ms < 0 then wait_ms + 128 * 1875 else wait_ms)"

definition flex_next_frame_time :: "nat \<Rightarrow> int \<Rightarrow> int \<Rightarrow> (int \<times> int) \<times> nat \<times> nat" where
  "flex_next_frame_time capcode sec nsec =
     (let wait_ms = flex_wait_ms capcode sec;
          sec1 = sec + cdiv wait_ms 1000; nsec1 = nsec + Prelude.cmod wait_ms 1000 * 1000000;
          when = (if nsec1 \<ge> 1000000000 then (sec1 + 1, nsec1 - 1000000000) else (sec1, nsec1))
      in (when, flex_frame_at_time (fst when + cdiv FLEX_PREROLL_MS 1000)))"

subsection \<open>The queue and the worker\<close>

definition flex_pre_encode :: "flex_env \<Rightarrow> flex \<Rightarrow> flex_page \<Rightarrow> nat \<times> nat \<Rightarrow> int list option" where
  "flex_pre_encode env s p cf =
     fe_encode env (fl_use_fsk s) (fl_deemph s) (fl_level s) (fp_speed p) (fst cf) (snd cf) (fp_capcode p) (fp_type p)
       (if fp_text p = [] then None else Some (fp_text p))"

datatype flex_effect = Flx_audio "int list" | Flx_encode_failed nat

definition flex_due :: "flex_env \<Rightarrow> flex_page \<Rightarrow> bool" where
  "flex_due env p \<longleftrightarrow> fe_sec env > fp_sec p \<or> (fe_sec env = fp_sec p \<and> fe_nsec env \<ge> fp_nsec p)"

definition flex_encoded :: "flex_env \<Rightarrow> flex \<Rightarrow> flex_page \<Rightarrow> flex_page option" where
  "flex_encoded env s p =
     (case fp_pcm p of
        Some x \<Rightarrow> Some p
      | None \<Rightarrow> map_option (\<lambda>x. p\<lparr>fp_pcm := Some x\<rparr>) (flex_pre_encode env s p (flex_frame_at_time (fp_sec p + cdiv FLEX_PREROLL_MS 1000))))"

text \<open>The scan of the pending pages: each is encoded on the way; the first that is due ends it.\<close>

fun flex_scan :: "flex_env \<Rightarrow> flex \<Rightarrow> flex_page list \<Rightarrow> flex_page list \<times> nat option \<times> flex_effect list" where
  "flex_scan env s [] = ([], None, [])"
| "flex_scan env s (p # ps) =
     (let (qs, r, es) = flex_scan env s ps
      in if \<not> fp_valid p then (p # qs, map_option Suc r, es)
         else (case flex_encoded env s p of
                 None \<Rightarrow> (p\<lparr>fp_valid := False\<rparr> # qs, map_option Suc r, Flx_encode_failed (fp_capcode p) # es)
               | Some q \<Rightarrow> if flex_due env q then (q # ps, Some 0, []) else (q # qs, map_option Suc r, es)))"

definition flex_look :: "flex_env \<Rightarrow> flex \<Rightarrow> flex \<times> flex_effect list" where
  "flex_look env s = (let (ps, r, es) = flex_scan env s (fl_pending s) in (s\<lparr>fl_pending := ps, fl_ready := r\<rparr>, es))"

fun flex_compact :: "flex_page list \<Rightarrow> flex_page list" where
  "flex_compact [] = []"
| "flex_compact (p # ps) = (if fp_valid p then p # flex_compact ps else flex_compact ps)"

definition flex_fire :: "flex \<Rightarrow> flex \<times> flex_effect list" where
  "flex_fire s =
     (case fl_ready s of
        None \<Rightarrow> (s, [])
      | Some i \<Rightarrow>
          (let p = fl_pending s ! i; ps = (fl_pending s)[i := p\<lparr>fp_pcm := None, fp_valid := False\<rparr>]
           in (s\<lparr>fl_ready := None, fl_tx_count := fl_tx_count s + 1, fl_pending := flex_compact ps\<rparr>,
               [Flx_audio (case fp_pcm p of Some x \<Rightarrow> x | None \<Rightarrow> [])])))"

subsection \<open>Commands\<close>

text \<open>The fields of an answer, in the order in which they are put into the response; \<open>Ff_finish\<close> closes it.\<close>

datatype flex_field = Ff_str string string | Ff_int string int | Ff_bool string bool | Ff_text string | Ff_finish

fun put_flex :: "flex_field list \<Rightarrow> resp \<Rightarrow> resp option" where
  "put_flex [] r = Some r"
| "put_flex (f # fs) r =
     Option.bind (case f of Ff_str k v \<Rightarrow> resp_str k (Some v) r | Ff_int k v \<Rightarrow> resp_int k v r | Ff_bool k v \<Rightarrow> resp_bool k v r
        | Ff_text t \<Rightarrow> resp_text_raw t r | Ff_finish \<Rightarrow> resp_finish r) (put_flex fs)"

definition flex_new_page :: "flex_env \<Rightarrow> nat \<Rightarrow> flex_type \<Rightarrow> flex_speed \<Rightarrow> string option \<Rightarrow> flex_page" where
  "flex_new_page env capcode ty speed txt =
     (let ((fs, fn), cf) = flex_next_frame_time capcode (fe_sec env) (fe_nsec env)
      in \<lparr>fp_capcode = capcode, fp_type = ty, fp_speed = speed, fp_text = (case txt of Some x \<Rightarrow> c_trunc 512 x | None \<Rightarrow> []),
          fp_frame = capcode mod 128, fp_sec = fs, fp_nsec = fn, fp_pcm = None, fp_valid = True\<rparr>)"

definition flex_schedule_page :: "flex_env \<Rightarrow> nat \<Rightarrow> flex_type \<Rightarrow> flex_speed \<Rightarrow> string option \<Rightarrow> flex \<Rightarrow> flex \<times> flex_field list \<times> bool" where
  "flex_schedule_page env capcode ty speed txt s =
     (let ((fs, fn), cycle, frame) = flex_next_frame_time capcode (fe_sec env) (fe_nsec env);
          wait_ms = (fs - fe_sec env) * 1000 + cdiv (fn - fe_nsec env) 1000000
      in if length (fl_pending s) \<ge> MAX_PENDING then (s, [Ff_str ''error'' ''pending queue full'', Ff_finish], False)
         else (s\<lparr>fl_pending := fl_pending s @ [flex_new_page env capcode ty speed txt]\<rparr>,
               [Ff_str ''status'' ''scheduled'', Ff_int ''capcode'' (wrap32 (int capcode)), Ff_int ''target_frame'' (int (capcode mod 128)),
                Ff_int ''target_cycle'' (int cycle), Ff_int ''fire_in_ms'' (wrap32 wait_ms), Ff_int ''speed'' (fe_bps env speed)], True))"

definition flex_tx_now :: "flex_env \<Rightarrow> nat \<Rightarrow> flex_type \<Rightarrow> flex_speed \<Rightarrow> string \<Rightarrow> flex \<Rightarrow> flex \<times> flex_effect list \<times> bool" where
  "flex_tx_now env capcode ty speed txt s =
     (let p = \<lparr>fp_capcode = capcode, fp_type = ty, fp_speed = speed, fp_text = c_trunc 512 txt, fp_frame = 0, fp_sec = 0, fp_nsec = 0, fp_pcm = None, fp_valid = False\<rparr>
      in case flex_pre_encode env s p (flex_frame_at_time (fe_sec env)) of
           None \<Rightarrow> (s, [], False)
         | Some x \<Rightarrow> (s\<lparr>fl_tx_count := fl_tx_count s + 1\<rparr>, [Flx_audio x], True))"

text \<open>\<open>(uint32_t)strtoul(s, NULL, 10)\<close>\<close>

definition c_strtoul32 :: "string \<Rightarrow> nat" where
  "c_strtoul32 s =
     (let s1 = dropWhile is_space s; neg = (s1 \<noteq> [] \<and> hd s1 = CHR ''-'');
          s2 = (if s1 \<noteq> [] \<and> (hd s1 = CHR ''-'' \<or> hd s1 = CHR ''+'') then tl s1 else s1);
          v = dec_val (takeWhile is_digit s2); m = 18446744073709551616;
          u = (if v \<ge> m then m - 1 else if neg then (- v) mod m else v)
      in nat (u mod 4294967296))"

definition flex_speed_of :: "int \<Rightarrow> flex_speed option" where
  "flex_speed_of n =
     (if n = 3200 then Some FLEX_SPEED_3200_2 else if n = 6400 then Some FLEX_SPEED_6400_4 else if n = 1600 then Some FLEX_SPEED_1600_2 else None)"

text \<open>The words of the message, joined by blanks in a buffer of 512 bytes.\<close>

fun flex_join :: "string list \<Rightarrow> bool \<Rightarrow> string \<Rightarrow> string" where
  "flex_join [] first msg = msg"
| "flex_join (w # ws) first msg = flex_join ws False (c_trunc 512 (c_trunc 512 (msg @ (if first then [] else '' '')) @ w))"

definition flex_message :: "flex \<Rightarrow> string list \<Rightarrow> flex_speed \<times> string" where
  "flex_message s argv =
     (case (if length argv \<ge> 5 then flex_speed_of (atoi (argv ! 3)) else None) of
        Some sp \<Rightarrow> (sp, flex_join (drop 4 argv) True [])
      | None \<Rightarrow> (fl_speed s, flex_join (drop 3 argv) True []))"

definition flex_status :: "flex_env \<Rightarrow> flex \<Rightarrow> flex_field list" where
  "flex_status env s =
     [Ff_str ''module'' ''mod_flex'', Ff_bool ''enabled'' (fl_enabled s), Ff_str ''modulation'' (if fl_use_fsk s then ''fsk'' else ''baseband''),
      Ff_bool ''deemphasis'' (fl_deemph s), Ff_int ''tx_level_pct'' (fe_level_pct env (fl_level s)), Ff_int ''tx_count'' (int (fl_tx_count s)),
      Ff_int ''default_speed'' (fe_bps env (fl_speed s)), Ff_int ''pending'' (int (length (fl_pending s))),
      Ff_int ''current_cycle'' (int (fst (flex_frame_at_time (fe_sec env)))), Ff_int ''current_frame'' (int (snd (flex_frame_at_time (fe_sec env))))]"

definition flex_usage :: string where
  "flex_usage = concat (map (\<lambda>l. l @ [CHR 0x0A])
     [''FLEX paging transmitter (frame-synchronized)'',
      [],
      ''  flex send <capcode> [speed] <message>'',
      ''    Schedule alphanumeric page for frame boundary.'',
      ''    capcode: pager address (decimal)'',
      ''    speed:   1600 (default), 3200, 6400'',
      ''    message: text string'',
      [],
      ''  flex now <capcode> [speed] <message>'',
      ''    Transmit immediately (bypass frame scheduler).'',
      ''    For testing '' @ [CHR 0xE2, CHR 0x80, CHR 0x94] @ '' pagers in battery-save may miss this.'',
      [],
      ''  flex numeric <capcode> <digits>'',
      ''    Schedule numeric page.'',
      [],
      ''  flex tone <capcode>'',
      ''    Schedule tone-only page.'',
      [],
      ''  flex status'',
      ''    Show module status, pending queue, current FLEX time.'',
      [],
      ''Config: [flex] enabled, default_speed, modulation, deemphasis, tx_level''])"

definition cli_flex :: "flex_env \<Rightarrow> string list \<Rightarrow> flex \<Rightarrow> flex \<times> flex_effect list \<times> flex_field list \<times> int" where
  "cli_flex env argv s =
     (let usage = (s, [], [Ff_text flex_usage, Ff_str ''error'' ''usage: flex <send|now|numeric|tone|status>'', Ff_finish], -1);
          bad = (\<lambda>t. (s, [], [Ff_str ''error'' t, Ff_finish], -1));
          sub = argv ! 1; capcode = c_strtoul32 (argv ! 2)
      in if length argv < 2 \<or> sub = ''help'' then usage
         else if sub = ''send'' then
           (if length argv < 4 then bad ''usage: flex send <capcode> [speed] <message>''
            else (let (speed, msg) = flex_message s argv; (s1, fs, ok) = flex_schedule_page env capcode FLEX_MSG_ALPHA speed (Some msg) s
                  in (s1, [], fs @ (if ok then [Ff_str ''message'' msg] else []) @ [Ff_finish], 0)))
         else if sub = ''now'' then
           (if length argv < 4 then bad ''usage: flex now <capcode> [speed] <message>''
            else (let (speed, msg) = flex_message s argv; (s1, es, ok) = flex_tx_now env capcode FLEX_MSG_ALPHA speed msg s
                  in (s1, es, [Ff_str ''status'' (if ok then ''queued'' else ''error'')] @
                        (if ok then [Ff_int ''capcode'' (wrap32 (int capcode)), Ff_str ''message'' msg] else []) @ [Ff_finish], 0)))
         else if sub = ''numeric'' then
           (if length argv < 4 then bad ''usage: flex numeric <capcode> <digits>''
            else (let (s1, fs, ok) = flex_schedule_page env capcode FLEX_MSG_NUMERIC (fl_speed s) (Some (argv ! 3)) s in (s1, [], fs @ [Ff_finish], 0)))
         else if sub = ''tone'' then
           (if length argv < 3 then bad ''usage: flex tone <capcode>''
            else (let (s1, fs, ok) = flex_schedule_page env capcode FLEX_MSG_TONE_ONLY (fl_speed s) None s in (s1, [], fs @ [Ff_finish], 0)))
         else if sub = ''status'' then (s, [], flex_status env s @ [Ff_finish], 0)
         else usage)"

subsection \<open>Life of the module\<close>

text \<open>Configuration and the creation of the worker; the id is stored after the thread has been created.\<close>

definition flex_settings :: "flex_env \<Rightarrow> config \<Rightarrow> flex \<Rightarrow> flex" where
  "flex_settings env cfg s =
     (let en = config_get cfg ''flex'' ''enabled''; lv = config_get cfg ''flex'' ''tx_level'';
          sp = (case config_get cfg ''flex'' ''default_speed'' of Some v \<Rightarrow> flex_speed_of (atoi v) | None \<Rightarrow> None)
      in s\<lparr>fl_enabled := (if en = Some ''off'' \<or> en = Some ''0'' then False else fl_enabled s),
           fl_speed := (case sp of Some x \<Rightarrow> x | None \<Rightarrow> fl_speed s),
           fl_deemph := (config_get cfg ''flex'' ''deemphasis'' = Some ''on''),
           fl_use_fsk := (config_get cfg ''flex'' ''modulation'' = Some ''fsk''),
           fl_level := (case lv of Some v \<Rightarrow> if fe_level_ok env v then v else fl_level s | None \<Rightarrow> fl_level s)\<rparr>)"

definition flex_create_worker :: "nat \<Rightarrow> bool \<Rightarrow> flex \<Rightarrow> threads \<Rightarrow> threads \<times> int option" where
  "flex_create_worker now started s t =
     (if fl_enabled s then (let (t', tid) = thread_create now started ''flex_tx'' t in (t', Some tid)) else (t, None))"

definition flex_store_worker :: "int option \<Rightarrow> flex \<Rightarrow> flex" where
  "flex_store_worker r s = (case r of Some tid \<Rightarrow> s\<lparr>fl_worker := tid\<rparr> | None \<Rightarrow> s)"

text \<open>Unload, after the worker has been asked to stop and waited for.\<close>

definition flex_unload_ask :: "flex \<Rightarrow> threads \<Rightarrow> threads" where
  "flex_unload_ask s t = (if fl_worker s \<ge> 0 then thread_stop t (fl_worker s) else t)"

definition flex_unload :: "flex \<Rightarrow> flex" where
  "flex_unload s = s\<lparr>fl_worker := (if fl_worker s \<ge> 0 then -1 else fl_worker s), fl_pending := []\<rparr>"

end
