(* ===== verification/Flex_Props.thy ===== *)
theory Flex_Props
  imports Flex "HOL-Library.Multiset"
begin

text \<open>
  What holds of the paging transmitter: when a page is sent relative to the frame of its pager, that every
  page answered "scheduled" is handed to the audio queue once, refused by the encoder, thrown away at unload or still waiting, and that due pages are
  sent in their order.
\<close>

subsection \<open>The frame clock\<close>

lemma frame_of_cycle: "flex_frame_at_time utc = (nat (utc mod 3600 div 240), nat ((utc mod 240 * 1000) div 1875))"
proof -
  have m: "utc mod 3600 mod 240 = utc mod 240" by (rule mod_mod_cancel) simp
  have "0 \<le> utc mod 3600 div 240 \<and> utc mod 3600 div 240 < 15"
    using pos_mod_bound[of 3600 utc] pos_mod_sign[of 3600 utc] by (simp add: div_less_iff_less_mult pos_imp_zdiv_nonneg_iff)
  moreover have "0 \<le> (utc mod 240 * 1000) div 1875 \<and> (utc mod 240 * 1000) div 1875 < 128"
    using pos_mod_bound[of 240 utc] pos_mod_sign[of 240 utc] by (simp add: div_less_iff_less_mult pos_imp_zdiv_nonneg_iff)
  ultimately show ?thesis by (simp add: flex_frame_at_time_def Let_def m mod_pos_pos_trivial)
qed

lemma frame_range: "fst (flex_frame_at_time utc) < 15" "snd (flex_frame_at_time utc) < 128"
proof -
  have "utc mod 3600 div 240 < 15" "0 \<le> utc mod 3600 div 240" "(utc mod 240 * 1000) div 1875 < 128" "0 \<le> (utc mod 240 * 1000) div 1875"
    using pos_mod_bound[of 3600 utc] pos_mod_sign[of 3600 utc] pos_mod_bound[of 240 utc] pos_mod_sign[of 240 utc]
    by (simp_all add: div_less_iff_less_mult pos_imp_zdiv_nonneg_iff)
  then show "fst (flex_frame_at_time utc) < 15" "snd (flex_frame_at_time utc) < 128" unfolding frame_of_cycle by (simp_all add: nat_less_iff)
qed

text \<open>The wait is to the next start of a frame with the number of the pager, counted from the frame in progress.\<close>

lemma flex_wait:
  "1675 \<le> flex_wait_ms capcode sec \<and> flex_wait_ms capcode sec \<le> 239800 \<and>
   (\<exists>b. b mod 240000 = int (capcode mod 128) * 1875 \<and> sec * 1000 + flex_wait_ms capcode sec + 200 = b + (sec * 1000) mod 1875)"
proof -
  define x where "x = sec mod 240 * 1000"
  define cur where "cur = x div 1875"
  have cur: "int (snd (flex_frame_at_time sec)) = cur" "0 \<le> cur" "cur < 128"
  proof -
    show "0 \<le> cur" using pos_mod_sign[of 240 sec] by (simp add: cur_def x_def pos_imp_zdiv_nonneg_iff)
    then show "int (snd (flex_frame_at_time sec)) = cur" by (simp add: frame_of_cycle cur_def x_def)
    then show "cur < 128" using frame_range(2)[of sec] by simp
  qed
  define d where "d = (let delta = int (capcode mod 128) - cur in if delta \<le> 0 then delta + 128 else delta)"
  have t: "0 \<le> int (capcode mod 128)" "int (capcode mod 128) < 128" by simp_all
  have d: "1 \<le> d" "d \<le> 128" "cur + d = int (capcode mod 128) \<or> cur + d = int (capcode mod 128) + 128"
    using cur(2,3) t by (auto simp: d_def Let_def simp del: of_nat_mod split: if_splits)
  have w: "flex_wait_ms capcode sec = d * 1875 - 200"
  proof -
    have "flex_wait_ms capcode sec = (if d * 1875 - 200 < 0 then d * 1875 - 200 + 128 * 1875 else d * 1875 - 200)"
      unfolding flex_wait_ms_def Let_def cur(1) d_def ..
    with d(1) show ?thesis by simp
  qed
  define q where "q = sec div 240"
  have s: "sec * 1000 = 240000 * q + x" unfolding x_def q_def using div_mult_mod_eq[of sec 240] by linarith
  have r: "x = 1875 * cur + x mod 1875" unfolding cur_def by simp
  have "(sec * 1000) mod 1875 = x mod 1875"
  proof -
    have "sec * 1000 = x + 1875 * (128 * q)" using s by linarith
    then have "(sec * 1000) mod 1875 = (x + 1875 * (128 * q)) mod 1875" by (simp only:)
    also have "\<dots> = x mod 1875" by (rule mod_mult_self2)
    finally show ?thesis .
  qed
  then have e: "sec * 1000 + flex_wait_ms capcode sec + 200 = (240000 * q + 1875 * (cur + d)) + (sec * 1000) mod 1875"
    using s r w by (simp add: algebra_simps)
  have b: "(240000 * q + 1875 * (cur + d)) mod 240000 = int (capcode mod 128) * 1875"
    using d(3)
  proof
    assume h: "cur + d = int (capcode mod 128)"
    have "(240000 * q + 1875 * int (capcode mod 128)) mod 240000 = (1875 * int (capcode mod 128)) mod 240000" by simp
    also have "\<dots> = 1875 * int (capcode mod 128)" by (rule mod_pos_pos_trivial) (use t in linarith)+
    finally show ?thesis unfolding h by (simp only: mult.commute)
  next
    assume h: "cur + d = int (capcode mod 128) + 128"
    have "240000 * q + 1875 * (t + 128) = 1875 * t + 240000 * (q + 1)" for t :: int by (simp only: algebra_simps)
    from this[of "int (capcode mod 128)"] have "(240000 * q + 1875 * (int (capcode mod 128) + 128)) mod 240000 = (1875 * int (capcode mod 128)) mod 240000" by (simp only: mod_mult_self2)
    also have "\<dots> = 1875 * int (capcode mod 128)" by (rule mod_pos_pos_trivial) (use t in linarith)+
    finally show ?thesis unfolding h by (simp only: mult.commute)
  qed
  from d(1,2) w have "1675 \<le> flex_wait_ms capcode sec \<and> flex_wait_ms capcode sec \<le> 239800" by linarith
  with b e show ?thesis by blast
qed

text \<open>
  C38. A page is fired between 1.675 and 239.8 seconds after its command, at a normalised time; 200 ms later, when its
  preamble is meant to be on the air, the frame of its pager has begun exactly as long ago as the frame in progress
  had at the command: the transmission starts up to 2.75 seconds after the boundary it is scheduled for,
  and at the boundary itself only for a command given at one.
\<close>
theorem flex_fire_time:
  assumes "0 \<le> nsec" "nsec < 1000000000" "flex_next_frame_time capcode sec nsec = ((fs, fn), cycle, frame)"
  shows "0 \<le> fn \<and> fn < 1000000000 \<and> cycle < 15 \<and> frame < 128 \<and>
    (\<exists>w. 1675 \<le> w \<and> w \<le> 239800 \<and> fs * 1000000000 + fn = sec * 1000000000 + nsec + w * 1000000) \<and>
    (\<exists>b late. b mod 240000 = int (capcode mod 128) * 1875 \<and> late = ((sec * 1000) mod 1875) * 1000000 + nsec \<and> 0 \<le> late \<and> late < 2750000000 \<and>
       fs * 1000000000 + fn + 200000000 = b * 1000000 + late)"
proof -
  define w where "w = flex_wait_ms capcode sec"
  from flex_wait[of capcode sec] obtain b where
    w: "1675 \<le> w" "w \<le> 239800" "b mod 240000 = int (capcode mod 128) * 1875" "sec * 1000 + w + 200 = b + (sec * 1000) mod 1875"
    unfolding w_def by blast
  have c: "cdiv w 1000 = w div 1000" "Prelude.cmod w 1000 = w mod 1000" using w(1) by (simp_all add: cdiv_nonneg cmod_nonneg)
  have m: "0 \<le> w mod 1000" "w mod 1000 < 1000" "w = 1000 * (w div 1000) + w mod 1000" by simp_all
  define n1 where "n1 = nsec + w mod 1000 * 1000000"
  have f: "(fs, fn) = (if n1 \<ge> 1000000000 then (sec + w div 1000 + 1, n1 - 1000000000) else (sec + w div 1000, n1))" "(cycle, frame) = flex_frame_at_time (fs + cdiv FLEX_PREROLL_MS 1000)"
    using assms(3) by (auto simp: flex_next_frame_time_def Let_def w_def[symmetric] c n1_def split: if_splits)
  have n: "0 \<le> n1" "n1 < 2000000000" using assms(1,2) m by (simp_all add: n1_def)
  have fn: "0 \<le> fn" "fn < 1000000000" using f(1) n by (auto split: if_splits)
  have t: "fs * 1000000000 + fn = sec * 1000000000 + nsec + w * 1000000"
    using f(1) m(3) by (auto simp: n1_def split: if_splits; linarith)
  have "(sec * 1000) mod 1875 = (125 * (sec * 8)) mod (125 * 15)" by (rule arg_cong2[where f = "(mod)"]) simp_all
  also have "\<dots> = 125 * ((sec * 8) mod 15)" by (rule mod_mult_mult1)
  finally have r: "0 \<le> (sec * 1000) mod 1875" "(sec * 1000) mod 1875 \<le> 1750" using pos_mod_bound[of 15 "sec * 8"] pos_mod_sign[of 15 "sec * 8"] by linarith+
  have "fs * 1000000000 + fn + 200000000 = b * 1000000 + (((sec * 1000) mod 1875) * 1000000 + nsec)"
    using t w(4) by linarith
  moreover have "0 \<le> ((sec * 1000) mod 1875) * 1000000 + nsec" "((sec * 1000) mod 1875) * 1000000 + nsec < 2750000000"
    using r assms(1,2) by linarith+
  moreover have "cycle < 15" "frame < 128" using frame_range[of "fs + cdiv FLEX_PREROLL_MS 1000"] f(2) by (metis fst_conv, metis snd_conv)
  ultimately show ?thesis using fn t w(1,2,3) by blast
qed

text \<open>A page for frame 5 commanded one second into frame 0 is fired so that it starts one second into frame 5.\<close>

theorem flex_fire_time_witness:
  "flex_next_frame_time 5 1 0 = ((10, 175000000), 0, 5) \<and> (\<exists>b. b mod 240000 = int (5 mod 128) * 1875 \<and> 10 * 1000000000 + 175000000 + 200000000 = b * 1000000 + (1000 * 1000000 :: int))"
proof -
  have e: "flex_next_frame_time 5 1 0 = ((10, 175000000), 0, 5)"
    by code_simp
  from flex_fire_time[OF _ _ e] obtain b where "b mod 240000 = int (5 mod 128) * 1875" "10 * 1000000000 + 175000000 + 200000000 = b * 1000000 + (((1 * 1000) mod 1875) * 1000000 + (0::int))" by auto
  with e show ?thesis by auto
qed

text \<open>The frame in the header is the one of the moment of keying up, without the preroll: here the frame before the pager's.\<close>

lemma flex_header_frame: "flex_next_frame_time 5 0 0 = ((9, 175000000), 0, 4)"
  by code_simp

subsection \<open>The queue\<close>

datatype flex_in = Fx_command flex_env "string list" | Fx_look flex_env | Fx_fire | Fx_unload | Fx_configure flex_env config

text \<open>
  The worker looks and then fires; a command or a new configuration may come in between, and the module is unloaded when
  the worker has ended, thus not in between. There is one worker: see \<open>flex_second_worker\<close> for what another one does.
\<close>

fun flex_step :: "flex \<Rightarrow> flex_in \<Rightarrow> flex \<times> flex_effect list" where
  "flex_step s (Fx_command env argv) = (let (s1, es, fs, rc) = cli_flex env argv s in (s1, es))"
| "flex_step s (Fx_look env) = (if fl_ready s = None then flex_look env s else (s, []))"
| "flex_step s Fx_fire = flex_fire s"
| "flex_step s Fx_unload = (if fl_ready s = None then flex_unload s else s, [])"
| "flex_step s (Fx_configure env cfg) = (flex_settings env cfg s, [])"

text \<open>A page as the operator knows it: capcode, kind, speed, text and time of firing.\<close>

type_synonym flex_key = "nat \<times> flex_type \<times> flex_speed \<times> string \<times> int \<times> int"

definition page_key :: "flex_page \<Rightarrow> flex_key" where
  "page_key p = (fp_capcode p, fp_type p, fp_speed p, fp_text p, fp_sec p, fp_nsec p)"

definition waiting :: "flex_page list \<Rightarrow> flex_page list" where
  "waiting ps = filter fp_valid ps"

text \<open>
  What an outsider can write down of a step: the page that a command asks for, if the answer says that it is scheduled;
  the page whose turn it is with the samples handed to the audio queue; the pages for which the encoder answers with
  an error, of those up to the first one that is due; and those that wait when the module is unloaded.
\<close>

datatype flex_entry = Scheduled flex_key | Sent flex_key "int list" | Refused flex_key | Thrown flex_key

definition flex_requested :: "flex_env \<Rightarrow> flex \<Rightarrow> string list \<Rightarrow> flex_key" where
  "flex_requested env s argv =
     (let capcode = c_strtoul32 (argv ! 2);
          (ty, speed, txt) =
            (if argv ! 1 = ''numeric'' then (FLEX_MSG_NUMERIC, fl_speed s, argv ! 3)
             else if argv ! 1 = ''tone'' then (FLEX_MSG_TONE_ONLY, fl_speed s, [])
             else (FLEX_MSG_ALPHA, flex_message s argv));
          when = fst (flex_next_frame_time capcode (fe_sec env) (fe_nsec env))
      in (capcode, ty, speed, c_trunc 512 txt, fst when, snd when))"

definition flex_examined :: "flex_env \<Rightarrow> flex \<Rightarrow> flex_page list" where
  "flex_examined env s =
     filter fp_valid (takeWhile (\<lambda>p. \<not> (fp_valid p \<and> flex_due env p \<and> flex_encoded env s p \<noteq> None)) (fl_pending s))"

fun flex_ledger :: "flex \<Rightarrow> flex_in \<Rightarrow> flex_entry list" where
  "flex_ledger s (Fx_command env argv) =
     (let (s1, es, fs, rc) = cli_flex env argv s
      in if Ff_str ''status'' ''scheduled'' \<in> set fs then [Scheduled (flex_requested env s argv)] else [])"
| "flex_ledger s (Fx_look env) =
     (if fl_ready s = None
      then map (Refused \<circ> page_key) (filter (\<lambda>p. flex_encoded env s p = None) (flex_examined env s)) else [])"
| "flex_ledger s Fx_fire =
     concat (map (\<lambda>e. case e of Flx_audio x \<Rightarrow> [Sent (page_key (fl_pending s ! the (fl_ready s))) x] | _ \<Rightarrow> [])
       (snd (flex_step s Fx_fire)))"
| "flex_ledger s Fx_unload = (if fl_ready s = None then map (Thrown \<circ> page_key) (waiting (fl_pending s)) else [])"
| "flex_ledger s (Fx_configure env cfg) = []"

fun led_scheduled :: "flex_entry list \<Rightarrow> flex_key list" where
  "led_scheduled [] = []"
| "led_scheduled (Scheduled k # es) = k # led_scheduled es"
| "led_scheduled (e # es) = led_scheduled es"

fun led_sent :: "flex_entry list \<Rightarrow> (flex_key \<times> int list) list" where
  "led_sent [] = []"
| "led_sent (Sent k x # es) = (k, x) # led_sent es"
| "led_sent (e # es) = led_sent es"

fun led_refused :: "flex_entry list \<Rightarrow> flex_key list" where
  "led_refused [] = []"
| "led_refused (Refused k # es) = k # led_refused es"
| "led_refused (e # es) = led_refused es"

fun led_thrown :: "flex_entry list \<Rightarrow> flex_key list" where
  "led_thrown [] = []"
| "led_thrown (Thrown k # es) = k # led_thrown es"
| "led_thrown (e # es) = led_thrown es"

lemma led_append [simp]:
  "led_scheduled (xs @ ys) = led_scheduled xs @ led_scheduled ys" "led_sent (xs @ ys) = led_sent xs @ led_sent ys"
  "led_refused (xs @ ys) = led_refused xs @ led_refused ys" "led_thrown (xs @ ys) = led_thrown xs @ led_thrown ys"
  by (induction xs rule: led_scheduled.induct; simp)+

lemma led_map_refused [simp]:
  "led_scheduled (map (Refused \<circ> g) ps) = []" "led_sent (map (Refused \<circ> g) ps) = []"
  "led_refused (map (Refused \<circ> g) ps) = map g ps" "led_thrown (map (Refused \<circ> g) ps) = []"
  by (induction ps) simp_all

lemma led_map_thrown [simp]:
  "led_scheduled (map (Thrown \<circ> g) ps) = []" "led_sent (map (Thrown \<circ> g) ps) = []"
  "led_refused (map (Thrown \<circ> g) ps) = []" "led_thrown (map (Thrown \<circ> g) ps) = map g ps"
  by (induction ps) simp_all

text \<open>A page is due, and samples are those of a page: some encoder of the run made them for its capcode, kind, speed and text.\<close>

definition key_due :: "flex_env \<Rightarrow> flex_key \<Rightarrow> bool" where
  "key_due env k \<longleftrightarrow> (case k of (c, ty, sp, txt, fs, fn) \<Rightarrow> fe_sec env > fs \<or> (fe_sec env = fs \<and> fe_nsec env \<ge> fn))"

definition key_encoding :: "flex_env \<Rightarrow> flex_key \<Rightarrow> int list option \<Rightarrow> bool" where
  "key_encoding env k r \<longleftrightarrow> (case k of (c, ty, sp, txt, fs, fn) \<Rightarrow>
     \<exists>fsk deemph level. fe_encode env fsk deemph level sp (fst (flex_frame_at_time fs)) (snd (flex_frame_at_time fs)) c ty
       (if txt = [] then None else Some txt) = r)"

text \<open>The state between the steps: at most 16 pages, and the page that was found ready is a valid and encoded one of them.\<close>

definition flex_ok :: "flex \<Rightarrow> bool" where
  "flex_ok s \<longleftrightarrow> length (fl_pending s) \<le> MAX_PENDING \<and>
     (\<forall>i. fl_ready s = Some i \<longrightarrow> i < length (fl_pending s) \<and> fp_valid (fl_pending s ! i) \<and> fp_pcm (fl_pending s ! i) \<noteq> None)"

text \<open>The samples kept are those of their page, and the page found ready is due, by the inputs \<open>E\<close> of the looks.\<close>

definition flex_made :: "flex_env set \<Rightarrow> flex_page \<Rightarrow> bool" where
  "flex_made E p \<longleftrightarrow> (\<forall>x. fp_pcm p = Some x \<longrightarrow> (\<exists>env \<in> E. key_encoding env (page_key p) (Some x)))"

definition flex_sound :: "flex_env set \<Rightarrow> flex \<Rightarrow> bool" where
  "flex_sound E s \<longleftrightarrow> (\<forall>p \<in> set (fl_pending s). flex_made E p) \<and>
     (\<forall>i. fl_ready s = Some i \<longrightarrow> (\<exists>env \<in> E. key_due env (page_key (fl_pending s ! i))))"

lemma flex_encoded_fields:
  "flex_encoded env s p = Some q \<Longrightarrow> page_key q = page_key p \<and> fp_valid q = fp_valid p \<and> fp_pcm q \<noteq> None"
  by (auto simp: flex_encoded_def page_key_def split: option.splits)

lemma key_due_page: "key_due env (page_key p) = flex_due env p"
  by (simp add: key_due_def page_key_def flex_due_def)

lemma no_preroll: "cdiv FLEX_PREROLL_MS 1000 = 0"
  by code_simp

lemma flex_pre_encoding: "flex_pre_encode env s p (flex_frame_at_time (fp_sec p + cdiv FLEX_PREROLL_MS 1000)) = r \<Longrightarrow> key_encoding env (page_key p) r"
  unfolding no_preroll key_encoding_def page_key_def flex_pre_encode_def prod.case add_0_right by (intro exI)

lemma flex_encoded_made: "flex_made E p \<Longrightarrow> env \<in> E \<Longrightarrow> flex_encoded env s p = Some q \<Longrightarrow> flex_made E q"
proof (cases "fp_pcm p")
  case None
  assume e: "env \<in> E" "flex_encoded env s p = Some q"
  from e(2) None obtain x where x: "flex_pre_encode env s p (flex_frame_at_time (fp_sec p + cdiv FLEX_PREROLL_MS 1000)) = Some x" "q = p\<lparr>fp_pcm := Some x\<rparr>"
    by (auto simp: flex_encoded_def)
  have "page_key q = page_key p" using flex_encoded_fields[OF e(2)] by simp
  with flex_pre_encoding[OF x(1)] x(2) e(1) show "flex_made E q" by (auto simp: flex_made_def)
qed (simp add: flex_encoded_def)

lemma flex_refused_encoding: "flex_encoded env s p = None \<Longrightarrow> key_encoding env (page_key p) None"
  by (rule flex_pre_encoding) (simp add: flex_encoded_def split: option.splits)

lemma flex_encoded_due: "flex_encoded env s p = Some q \<Longrightarrow> flex_due env q = flex_due env p"
  by (auto simp: flex_encoded_def flex_due_def split: option.splits)

text \<open>The pages of a list that a look examines.\<close>

abbreviation examined_of :: "flex_env \<Rightarrow> flex \<Rightarrow> flex_page list \<Rightarrow> flex_page list" where
  "examined_of env s ps \<equiv> filter fp_valid (takeWhile (\<lambda>p. \<not> (fp_valid p \<and> flex_due env p \<and> flex_encoded env s p \<noteq> None)) ps)"

lemma flex_scan_laws:
  assumes "flex_scan env s ps = (qs, r, es)"
  shows "length qs = length ps \<and>
    (\<forall>i. r = Some i \<longrightarrow> i < length qs \<and> fp_valid (qs ! i) \<and> fp_pcm (qs ! i) \<noteq> None \<and> flex_due env (qs ! i)) \<and>
    mset (map page_key (waiting ps)) =
      mset (map page_key (waiting qs)) + mset (map page_key (filter (\<lambda>p. flex_encoded env s p = None) (examined_of env s ps))) \<and>
    ((\<forall>p \<in> set ps. flex_made E p) \<longrightarrow> env \<in> E \<longrightarrow> (\<forall>p \<in> set qs. flex_made E p))"
  using assms
proof (induction ps arbitrary: qs r es)
  case (Cons p ps)
  obtain qs1 r1 es1 where s: "flex_scan env s ps = (qs1, r1, es1)" by (metis surj_pair)
  note IH = Cons.IH[OF s]
  consider (invalid) "\<not> fp_valid p" | (failed) "fp_valid p" "flex_encoded env s p = None"
    | (due) q where "fp_valid p" "flex_encoded env s p = Some q" "flex_due env q" | (later) q where "fp_valid p" "flex_encoded env s p = Some q" "\<not> flex_due env q"
    by (cases "fp_valid p"; cases "flex_encoded env s p") blast+
  then show ?case
  proof cases
    case invalid
    with Cons.prems s have "qs = p # qs1" "r = map_option Suc r1" by simp_all
    with IH invalid show ?thesis by (auto simp: waiting_def)
  next
    case failed
    with Cons.prems s have "qs = p\<lparr>fp_valid := False\<rparr> # qs1" "r = map_option Suc r1" by simp_all
    with IH failed show ?thesis by (auto simp: waiting_def page_key_def flex_made_def)
  next
    case (due q)
    with Cons.prems s have "qs = q # ps" "r = Some 0" by simp_all
    with due flex_encoded_fields[OF due(2)] flex_encoded_made[OF _ _ due(2)] flex_encoded_due[OF due(2)] show ?thesis
      by (auto simp: waiting_def)
  next
    case (later q)
    with Cons.prems s have "qs = q # qs1" "r = map_option Suc r1" by simp_all
    with IH later flex_encoded_fields[OF later(2)] flex_encoded_made[OF _ _ later(2)] flex_encoded_due[OF later(2)] show ?thesis
      by (auto simp: waiting_def)
  qed
qed (simp add: waiting_def)

lemma flex_compact_waiting: "flex_compact ps = waiting ps"
  by (induction ps) (simp_all add: waiting_def)

lemma waiting_remove:
  assumes "i < length ps" "fp_valid (ps ! i)" "\<not> fp_valid q"
  shows "mset (map page_key (waiting ps)) = add_mset (page_key (ps ! i)) (mset (map page_key (waiting (ps[i := q]))))"
proof -
  have "ps = take i ps @ ps ! i # drop (Suc i) ps" "ps[i := q] = take i ps @ q # drop (Suc i) ps"
    using assms(1) by (simp_all add: id_take_nth_drop upd_conv_take_nth_drop)
  then have "waiting ps = waiting (take i ps) @ ps ! i # waiting (drop (Suc i) ps)" "waiting (ps[i := q]) = waiting (take i ps) @ waiting (drop (Suc i) ps)"
    using assms(2,3) by (metis (no_types) filter.simps(2) filter_append waiting_def)+
  then show ?thesis by simp
qed

text \<open>A command appends at most one page, which is valid, and leaves the page found ready alone.\<close>

lemma flex_schedule_appends:
  "\<exists>ps. fst (flex_schedule_page env c ty sp m s) = s\<lparr>fl_pending := fl_pending s @ ps\<rparr> \<and> (\<forall>p \<in> set ps. fp_valid p) \<and>
     length (fl_pending s @ ps) \<le> max MAX_PENDING (length (fl_pending s))"
proof (cases "length (fl_pending s) \<ge> MAX_PENDING")
  case True
  then show ?thesis by (intro exI[of _ "[]"]) (simp add: flex_schedule_page_def Let_def split_beta)
next
  case False
  then show ?thesis by (intro exI[of _ "[flex_new_page env c ty sp m]"]) (simp add: flex_schedule_page_def flex_new_page_def Let_def split_beta)
qed

lemma cli_flex_appends:
  "\<exists>ps n. fst (cli_flex env argv s) = s\<lparr>fl_pending := fl_pending s @ ps, fl_tx_count := n\<rparr> \<and> (\<forall>p \<in> set ps. fp_valid p) \<and>
     length (fl_pending s @ ps) \<le> max MAX_PENDING (length (fl_pending s))"
proof -
  let ?P = "\<lambda>s'. \<exists>ps n. s' = s\<lparr>fl_pending := fl_pending s @ ps, fl_tx_count := n\<rparr> \<and> (\<forall>p \<in> set ps. fp_valid p) \<and> length (fl_pending s @ ps) \<le> max MAX_PENDING (length (fl_pending s))"
  have a: "?P s" by (rule exI[of _ "[]"], rule exI[of _ "fl_tx_count s"]) simp
  have b: "?P (fst (flex_schedule_page env c ty sp m s))" for c ty sp m
  proof -
    obtain ps where ps: "fst (flex_schedule_page env c ty sp m s) = s\<lparr>fl_pending := fl_pending s @ ps\<rparr>" "\<forall>p \<in> set ps. fp_valid p"
      "length (fl_pending s @ ps) \<le> max MAX_PENDING (length (fl_pending s))" using flex_schedule_appends by blast
    show ?thesis by (rule exI[of _ ps], rule exI[of _ "fl_tx_count s"]) (use ps in simp)
  qed
  have c: "?P (fst (flex_tx_now env c ty sp m s))" for c ty sp m
    by (rule exI[of _ "[]"], rule exI[of _ "fl_tx_count (fst (flex_tx_now env c ty sp m s))"]) (simp add: flex_tx_now_def Let_def split: option.split)
  have "fst (cli_flex env argv s) = s \<or> (\<exists>c ty sp m. fst (cli_flex env argv s) = fst (flex_schedule_page env c ty sp m s)) \<or>
      (\<exists>c ty sp m. fst (cli_flex env argv s) = fst (flex_tx_now env c ty sp m s))"
  proof (cases "length argv < 2 \<or> argv ! 1 = ''help'' \<or> (argv ! 1 \<noteq> ''tone'' \<and> length argv < 4) \<or> length argv < 3")
    case True
    then have "fst (cli_flex env argv s) = s" by (auto simp: cli_flex_def Let_def split_beta)
    then show ?thesis by blast
  next
    case False
    show ?thesis
    proof (cases "argv ! 1 \<in> {''send'', ''numeric'', ''tone''}")
      case True
      with False have "fst (cli_flex env argv s) = fst (flex_schedule_page env (c_strtoul32 (argv ! 2))
          (if argv ! 1 = ''send'' then FLEX_MSG_ALPHA else if argv ! 1 = ''numeric'' then FLEX_MSG_NUMERIC else FLEX_MSG_TONE_ONLY)
          (if argv ! 1 = ''send'' then fst (flex_message s argv) else fl_speed s)
          (if argv ! 1 = ''send'' then Some (snd (flex_message s argv)) else if argv ! 1 = ''numeric'' then Some (argv ! 3) else None) s)"
        by (elim insertE emptyE) (simp_all add: cli_flex_def Let_def split_beta)
      then show ?thesis by blast
    next
      case other: False
      show ?thesis
      proof (cases "argv ! 1 = ''now''")
        case True
        with False have "fst (cli_flex env argv s) = fst (flex_tx_now env (c_strtoul32 (argv ! 2)) FLEX_MSG_ALPHA (fst (flex_message s argv)) (snd (flex_message s argv)) s)"
          by (simp add: cli_flex_def Let_def split_beta)
        then show ?thesis by blast
      next
        case False
        with other have "fst (cli_flex env argv s) = s" by (simp add: cli_flex_def Let_def split_beta)
        then show ?thesis by blast
      qed
    qed
  qed
  then show ?thesis
  proof (elim disjE exE)
    assume e: "fst (cli_flex env argv s) = s"
    show ?thesis unfolding e by (rule a)
  next
    fix c' ty sp m assume e: "fst (cli_flex env argv s) = fst (flex_schedule_page env c' ty sp m s)"
    show ?thesis unfolding e by (rule b)
  next
    fix c' ty sp m assume e: "fst (cli_flex env argv s) = fst (flex_tx_now env c' ty sp m s)"
    show ?thesis unfolding e by (rule c)
  qed
qed

text \<open>The answer of a command says that a page is scheduled exactly when the page that was asked for is put at the end of the queue.\<close>

lemma flex_schedule_page_cases:
  "flex_schedule_page env c ty sp m s =
     (if length (fl_pending s) \<ge> MAX_PENDING then (s, [Ff_str ''error'' ''pending queue full'', Ff_finish], False)
      else (s\<lparr>fl_pending := fl_pending s @ [flex_new_page env c ty sp m]\<rparr>, snd (flex_schedule_page env c ty sp m s)))"
  "length (fl_pending s) < MAX_PENDING \<Longrightarrow> Ff_str ''status'' ''scheduled'' \<in> set (fst (snd (flex_schedule_page env c ty sp m s)))"
  by (auto simp: flex_schedule_page_def Let_def split_beta)

lemma c_trunc_empty [simp]: "c_trunc n [] = []"
  by (simp add: c_trunc_def)

lemma flex_new_page_key:
  "page_key (flex_new_page env c ty sp m) =
     (let when = fst (flex_next_frame_time c (fe_sec env) (fe_nsec env))
      in (c, ty, sp, c_trunc 512 (case m of Some x \<Rightarrow> x | None \<Rightarrow> []), fst when, snd when))"
  "fp_valid (flex_new_page env c ty sp m)" "fp_pcm (flex_new_page env c ty sp m) = None"
  by (simp_all add: flex_new_page_def page_key_def Let_def split_beta split: option.split)

definition answers_queue :: "flex_env \<Rightarrow> string list \<Rightarrow> flex \<Rightarrow> flex \<Rightarrow> flex_field list \<Rightarrow> bool" where
  "answers_queue env argv s s1 fs \<longleftrightarrow> fl_ready s1 = fl_ready s \<and>
     (if Ff_str ''status'' ''scheduled'' \<in> set fs
      then length (fl_pending s) < MAX_PENDING \<and>
           (\<exists>p. fl_pending s1 = fl_pending s @ [p] \<and> page_key p = flex_requested env s argv \<and> fp_valid p \<and> fp_pcm p = None)
      else fl_pending s1 = fl_pending s)"

lemma answers_queue_schedule:
  assumes "(case flex_schedule_page env c ty sp m s of (s1, fs1, ok) \<Rightarrow> s' = s1 \<and> (\<exists>gs. fs = fs1 @ gs \<and> Ff_str ''status'' ''scheduled'' \<notin> set gs))"
    and "page_key (flex_new_page env c ty sp m) = flex_requested env s argv"
  shows "answers_queue env argv s s' fs"
proof (cases "length (fl_pending s) \<ge> MAX_PENDING")
  case True
  then show ?thesis using assms(1) flex_schedule_page_cases(1)[of env c ty sp m s] by (auto simp: answers_queue_def)
next
  case False
  obtain f ok where f: "flex_schedule_page env c ty sp m s = (s\<lparr>fl_pending := fl_pending s @ [flex_new_page env c ty sp m]\<rparr>, f, ok)"
    using False flex_schedule_page_cases(1)[of env c ty sp m s] by (metis (no_types) prod.collapse)
  have "Ff_str ''status'' ''scheduled'' \<in> set f" using flex_schedule_page_cases(2)[of s env c ty sp m] False f by simp
  then show ?thesis using assms False f flex_new_page_key(2,3) by (auto simp: answers_queue_def)
qed

lemma cli_flex_answer:
  assumes "cli_flex env argv s = (s1, es, fs, rc)"
  shows "answers_queue env argv s s1 fs"
proof -
  have silent: "answers_queue env argv s s1 fs" if "s1 = s" "Ff_str ''status'' ''scheduled'' \<notin> set fs" using that by (simp add: answers_queue_def)
  show ?thesis
  proof (cases "length argv < 2 \<or> argv ! 1 = ''help'' \<or> (argv ! 1 \<noteq> ''tone'' \<and> length argv < 4) \<or> length argv < 3")
    case True
    then have "s1 = s \<and> Ff_str ''status'' ''scheduled'' \<notin> set fs" using assms by (auto simp: cli_flex_def flex_status_def Let_def split_beta split: if_splits)
    with silent show ?thesis by blast
  next
    case l: False
    show ?thesis
    proof (cases "argv ! 1 = ''send''")
      case True
      have "page_key (flex_new_page env (c_strtoul32 (argv ! 2)) FLEX_MSG_ALPHA (fst (flex_message s argv)) (Some (snd (flex_message s argv)))) = flex_requested env s argv"
        using True by (simp add: flex_new_page_key flex_requested_def Let_def split_beta)
      moreover have "case flex_schedule_page env (c_strtoul32 (argv ! 2)) FLEX_MSG_ALPHA (fst (flex_message s argv)) (Some (snd (flex_message s argv))) s of
          (s2, fs1, ok) \<Rightarrow> s1 = s2 \<and> (\<exists>gs. fs = fs1 @ gs \<and> Ff_str ''status'' ''scheduled'' \<notin> set gs)"
        using assms l True by (simp add: cli_flex_def Let_def split_beta) auto
      ultimately show ?thesis by (intro answers_queue_schedule)
    next
      case s: False
      show ?thesis
      proof (cases "argv ! 1 = ''numeric''")
        case True
        have "page_key (flex_new_page env (c_strtoul32 (argv ! 2)) FLEX_MSG_NUMERIC (fl_speed s) (Some (argv ! 3))) = flex_requested env s argv"
          using True by (simp add: flex_new_page_key flex_requested_def Let_def)
        moreover have "case flex_schedule_page env (c_strtoul32 (argv ! 2)) FLEX_MSG_NUMERIC (fl_speed s) (Some (argv ! 3)) s of
            (s2, fs1, ok) \<Rightarrow> s1 = s2 \<and> (\<exists>gs. fs = fs1 @ gs \<and> Ff_str ''status'' ''scheduled'' \<notin> set gs)"
          using assms l True by (simp add: cli_flex_def Let_def split_beta) auto
        ultimately show ?thesis by (intro answers_queue_schedule)
      next
        case n: False
        show ?thesis
        proof (cases "argv ! 1 = ''tone''")
          case True
          have "page_key (flex_new_page env (c_strtoul32 (argv ! 2)) FLEX_MSG_TONE_ONLY (fl_speed s) None) = flex_requested env s argv"
            using True by (simp add: flex_new_page_key flex_requested_def Let_def)
          moreover have "case flex_schedule_page env (c_strtoul32 (argv ! 2)) FLEX_MSG_TONE_ONLY (fl_speed s) None s of
              (s2, fs1, ok) \<Rightarrow> s1 = s2 \<and> (\<exists>gs. fs = fs1 @ gs \<and> Ff_str ''status'' ''scheduled'' \<notin> set gs)"
            using assms l True by (simp add: cli_flex_def Let_def split_beta) auto
          ultimately show ?thesis by (intro answers_queue_schedule)
        next
          case t: False
          show ?thesis
          proof (cases "argv ! 1 = ''now''")
            case True
            have "fl_pending (fst (flex_tx_now env c ty sp m s)) = fl_pending s \<and> fl_ready (fst (flex_tx_now env c ty sp m s)) = fl_ready s" for c ty sp m
              by (simp add: flex_tx_now_def Let_def split: option.split)
            with True l s n t assms show ?thesis by (auto simp: cli_flex_def answers_queue_def Let_def split_beta split: if_splits)
          next
            case False
            with l s n t assms have "s1 = s \<and> Ff_str ''status'' ''scheduled'' \<notin> set fs" by (auto simp: cli_flex_def flex_status_def Let_def split_beta split: if_splits)
            with silent show ?thesis by blast
          qed
        qed
      qed
    qed
  qed
qed

subsection \<open>The account\<close>

text \<open>The balance of a step: what waited and what is scheduled is what waits then, is sent, refused or thrown away.\<close>

definition flex_balanced :: "flex \<Rightarrow> flex_entry list \<Rightarrow> flex \<Rightarrow> bool" where
  "flex_balanced s l s' \<longleftrightarrow>
     mset (map page_key (waiting (fl_pending s))) + mset (led_scheduled l) =
     mset (map page_key (waiting (fl_pending s'))) + mset (map fst (led_sent l)) + mset (led_refused l) + mset (led_thrown l)"

text \<open>Every transmission carries samples made for its page, no earlier than its time; only pages that the encoder refused are given up.\<close>

definition flex_honest :: "flex_env set \<Rightarrow> flex_entry list \<Rightarrow> bool" where
  "flex_honest E l \<longleftrightarrow>
     (\<forall>(k, x) \<in> set (led_sent l). (\<exists>env \<in> E. key_encoding env k (Some x)) \<and> (\<exists>env \<in> E. key_due env k)) \<and>
     (\<forall>k \<in> set (led_refused l). \<exists>env \<in> E. key_encoding env k None)"

definition looks_in :: "flex_env set \<Rightarrow> flex_in \<Rightarrow> bool" where
  "looks_in E i \<longleftrightarrow> (\<forall>env. i = Fx_look env \<longrightarrow> env \<in> E)"

lemma flex_balanced_idle: "waiting (fl_pending s') = waiting (fl_pending s) \<Longrightarrow> flex_balanced s [] s'"
  by (simp add: flex_balanced_def)

lemma balance_trans:
  fixes w :: "'a multiset"
  assumes "w + a = w1 + b + c + d" "w1 + a1 = w2 + b1 + c1 + d1"
  shows "w + (a + a1) = w2 + (b + b1) + (c + c1) + (d + d1)"
proof (rule multiset_eqI)
  fix x
  from arg_cong[OF assms(1), of "\<lambda>m. count m x"] arg_cong[OF assms(2), of "\<lambda>m. count m x"]
  show "count (w + (a + a1)) x = count (w2 + (b + b1) + (c + c1) + (d + d1)) x" by simp
qed

lemma flex_balanced_append: "flex_balanced s l s1 \<Longrightarrow> flex_balanced s1 l1 s2 \<Longrightarrow> flex_balanced s (l @ l1) s2"
  unfolding flex_balanced_def led_append map_append mset_append by (rule balance_trans)

lemma flex_honest_Nil: "flex_honest E []"
  by (simp add: flex_honest_def)

lemma flex_step_command:
  assumes "flex_ok s" "flex_sound E s" "cli_flex env argv s = (s', es, fs, rc)"
  shows "flex_ok s' \<and> flex_sound E s' \<and> flex_balanced s (flex_ledger s (Fx_command env argv)) s' \<and> flex_honest E (flex_ledger s (Fx_command env argv))"
proof -
  note a = cli_flex_answer[OF assms(3)]
  show ?thesis
  proof (cases "Ff_str ''status'' ''scheduled'' \<in> set fs")
    case True
    with a obtain p where p: "fl_ready s' = fl_ready s" "length (fl_pending s) < MAX_PENDING" "fl_pending s' = fl_pending s @ [p]"
      "page_key p = flex_requested env s argv" "fp_valid p" "fp_pcm p = None"
      by (auto simp: answers_queue_def)
    have n: "i < length (fl_pending s) \<Longrightarrow> fl_pending s' ! i = fl_pending s ! i" for i using p(3) by (simp add: nth_append)
    have "flex_ok s'" unfolding flex_ok_def
    proof (intro conjI allI impI)
      show "length (fl_pending s') \<le> MAX_PENDING" using p(2,3) by simp
      fix i assume "fl_ready s' = Some i"
      then have "i < length (fl_pending s)" "fp_valid (fl_pending s ! i)" "fp_pcm (fl_pending s ! i) \<noteq> None" using assms(1) p(1) by (auto simp: flex_ok_def)
      with n p(3) show "i < length (fl_pending s')" "fp_valid (fl_pending s' ! i)" "fp_pcm (fl_pending s' ! i) \<noteq> None" by simp_all
    qed
    moreover have "flex_sound E s'" unfolding flex_sound_def
    proof (intro conjI allI impI)
      show "\<forall>p \<in> set (fl_pending s'). flex_made E p" using assms(2) p(3,6) by (auto simp: flex_sound_def flex_made_def)
      fix i assume i: "fl_ready s' = Some i"
      then have "i < length (fl_pending s)" using assms(1) p(1) by (simp add: flex_ok_def)
      with n i p(1) assms(2) show "\<exists>env \<in> E. key_due env (page_key (fl_pending s' ! i))" by (simp add: flex_sound_def)
    qed
    moreover have l: "flex_ledger s (Fx_command env argv) = [Scheduled (page_key p)]" using True assms(3) p(4) by simp
    ultimately show ?thesis unfolding l using p(3,5) by (simp add: flex_balanced_def flex_honest_def waiting_def)
  next
    case False
    with a have e: "fl_ready s' = fl_ready s" "fl_pending s' = fl_pending s" by (simp_all add: answers_queue_def)
    have l: "flex_ledger s (Fx_command env argv) = []" using False assms(3) by simp
    show ?thesis unfolding l using assms(1,2) e by (simp add: flex_ok_def flex_sound_def flex_balanced_idle flex_honest_Nil)
  qed
qed

lemma flex_step_look:
  assumes "flex_ok s" "flex_sound E s" "fl_ready s = None" "flex_look env s = (s', es)" "env \<in> E"
  shows "flex_ok s' \<and> flex_sound E s' \<and> flex_balanced s (flex_ledger s (Fx_look env)) s' \<and> flex_honest E (flex_ledger s (Fx_look env))"
proof -
  obtain qs r es1 where q: "flex_scan env s (fl_pending s) = (qs, r, es1)" by (metis surj_pair)
  then have "s' = s\<lparr>fl_pending := qs, fl_ready := r\<rparr>" using assms(4) by (simp add: flex_look_def)
  then have f: "fl_pending s' = qs" "fl_ready s' = r" by simp_all
  note scan = flex_scan_laws[OF q, of E]
  have l: "flex_ledger s (Fx_look env) = map (Refused \<circ> page_key) (filter (\<lambda>p. flex_encoded env s p = None) (examined_of env s (fl_pending s)))"
    using assms(3) by (simp add: flex_examined_def)
  have "flex_ok s'" using assms(1) scan unfolding flex_ok_def f by (metis (no_types, lifting))
  moreover have "flex_sound E s'" using assms(2,5) scan unfolding flex_sound_def f key_due_page by blast
  moreover have "flex_balanced s (flex_ledger s (Fx_look env)) s'" using scan unfolding l flex_balanced_def f by simp
  moreover have "flex_honest E (flex_ledger s (Fx_look env))" unfolding l flex_honest_def using flex_refused_encoding assms(5) by auto
  ultimately show ?thesis by blast
qed

lemma flex_step_fire:
  assumes "flex_ok s" "flex_sound E s" "fl_ready s = Some j" "flex_fire s = (s', es)"
  shows "flex_ok s' \<and> flex_sound E s' \<and> flex_balanced s (flex_ledger s Fx_fire) s' \<and> flex_honest E (flex_ledger s Fx_fire)"
proof -
  let ?p = "fl_pending s ! j"
  let ?q = "?p\<lparr>fp_pcm := None, fp_valid := False\<rparr>"
  have j: "j < length (fl_pending s)" "fp_valid ?p" using assms(1,3) by (auto simp: flex_ok_def)
  obtain x where x: "fp_pcm ?p = Some x" using assms(1,3) by (auto simp: flex_ok_def)
  have s': "s' = s\<lparr>fl_ready := None, fl_tx_count := fl_tx_count s + 1, fl_pending := flex_compact ((fl_pending s)[j := ?q])\<rparr>"
    and es: "es = [Flx_audio x]"
    using assms(3,4) x by (auto simp: flex_fire_def Let_def)
  have f: "fl_pending s' = waiting ((fl_pending s)[j := ?q])" "fl_ready s' = None" unfolding s' flex_compact_waiting by simp_all
  have l: "flex_ledger s Fx_fire = [Sent (page_key ?p) x]" using assms(3,4) es by simp
  have w: "waiting (waiting xs) = waiting xs" for xs by (simp add: waiting_def)
  have "length (waiting ((fl_pending s)[j := ?q])) \<le> MAX_PENDING"
    using assms(1) length_filter_le[of fp_valid "(fl_pending s)[j := ?q]"] unfolding waiting_def by (simp add: flex_ok_def)
  then have "flex_ok s'" by (simp add: flex_ok_def f)
  moreover have "flex_sound E s'"
  proof -
    have "set (fl_pending s') \<subseteq> insert ?q (set (fl_pending s))" unfolding f waiting_def using set_update_subset_insert[of "fl_pending s" j ?q] by auto
    moreover have "flex_made E ?q" by (simp add: flex_made_def)
    ultimately show ?thesis using assms(2) f(2) by (auto simp: flex_sound_def)
  qed
  moreover have "flex_balanced s (flex_ledger s Fx_fire) s'"
    unfolding l flex_balanced_def f w using waiting_remove[OF j, of ?q] by simp
  moreover have "flex_honest E (flex_ledger s Fx_fire)"
  proof -
    have "flex_made E ?p" "\<exists>env \<in> E. key_due env (page_key ?p)" using assms(2,3) j(1) by (simp_all add: flex_sound_def)
    with x show ?thesis unfolding l by (simp add: flex_honest_def flex_made_def)
  qed
  ultimately show ?thesis by blast
qed

lemma flex_step_account:
  assumes "flex_ok s" "flex_sound E s" "looks_in E i" "flex_step s i = (s', es)"
  shows "flex_ok s' \<and> flex_sound E s' \<and> flex_balanced s (flex_ledger s i) s' \<and> flex_honest E (flex_ledger s i)"
proof -
  have idle: "flex_ok s' \<and> flex_sound E s' \<and> flex_balanced s [] s' \<and> flex_honest E []"
    if "fl_pending s' = fl_pending s" "fl_ready s' = fl_ready s"
    using assms(1,2) that by (simp add: flex_ok_def flex_sound_def flex_balanced_idle flex_honest_Nil)
  show ?thesis
  proof (cases i)
    case (Fx_command env argv)
    obtain s1 es1 fs rc where c: "cli_flex env argv s = (s1, es1, fs, rc)" by (metis surj_pair)
    then have "s1 = s'" using assms(4) Fx_command by simp
    with flex_step_command[OF assms(1,2) c] show ?thesis unfolding Fx_command by blast
  next
    case (Fx_look env)
    show ?thesis
    proof (cases "fl_ready s = None")
      case True
      then have l: "flex_look env s = (s', es)" using assms(4) Fx_look by simp
      have "env \<in> E" using assms(3) Fx_look by (simp add: looks_in_def)
      from flex_step_look[OF assms(1,2) True l this] show ?thesis unfolding Fx_look .
    next
      case False
      then obtain y where "fl_ready s = Some y" by blast
      then have "flex_ledger s i = []" "s' = s" using assms(4) Fx_look by simp_all
      with idle show ?thesis by simp
    qed
  next
    case Fx_fire
    show ?thesis
    proof (cases "fl_ready s")
      case None
      then have "flex_ledger s i = []" "s' = s" using assms(4) Fx_fire by (simp_all add: flex_fire_def)
      with idle show ?thesis by simp
    next
      case (Some j)
      with assms(4) Fx_fire have "flex_fire s = (s', es)" by simp
      from flex_step_fire[OF assms(1,2) Some this] show ?thesis unfolding Fx_fire .
    qed
  next
    case Fx_unload
    show ?thesis
    proof (cases "fl_ready s = None")
      case True
      then have s': "s' = flex_unload s" and l: "flex_ledger s i = map (Thrown \<circ> page_key) (waiting (fl_pending s))" using assms(4) Fx_unload by simp_all
      show ?thesis unfolding l s' using True
        by (simp add: flex_ok_def flex_sound_def flex_unload_def flex_balanced_def flex_honest_def waiting_def)
    next
      case False
      then obtain y where "fl_ready s = Some y" by blast
      then have "flex_ledger s i = []" "s' = s" using assms(4) Fx_unload by simp_all
      with idle show ?thesis by simp
    qed
  next
    case (Fx_configure env cfg)
    then have "flex_ledger s i = []" "fl_pending s' = fl_pending s" "fl_ready s' = fl_ready s" using assms(4) by (auto simp: flex_settings_def Let_def)
    with idle show ?thesis by simp
  qed
qed

text \<open>A run: the state at the end and the ledger.\<close>

fun flex_run :: "flex \<Rightarrow> flex_in list \<Rightarrow> flex \<times> flex_entry list" where
  "flex_run s [] = (s, [])"
| "flex_run s (i # is) = (let (s', l) = flex_run (fst (flex_step s i)) is in (s', flex_ledger s i @ l))"

lemma flex_run_account:
  assumes "flex_ok s" "flex_sound E s" "\<forall>i \<in> set is. looks_in E i" "flex_run s is = (s', l)"
  shows "flex_ok s' \<and> flex_balanced s l s' \<and> flex_honest E l"
  using assms(1,2,3,4)
proof (induction "is" arbitrary: s l)
  case (Cons i "is")
  obtain s1 es where s1: "flex_step s i = (s1, es)" by fastforce
  obtain s2 l2 where r: "flex_run s1 is = (s2, l2)" by (metis surj_pair)
  have e: "s2 = s'" "l = flex_ledger s i @ l2" using Cons.prems(4) s1 r by simp_all
  have i: "looks_in E i" using Cons.prems(3) by simp
  note st = flex_step_account[OF Cons.prems(1,2) i s1]
  have IH: "flex_ok s' \<and> flex_balanced s1 l2 s' \<and> flex_honest E l2"
    using Cons.IH[of s1 l2] st Cons.prems(3) r e(1) by simp
  have "flex_balanced s l s'" using flex_balanced_append[of s "flex_ledger s i" s1 l2 s'] st IH unfolding e(2) by blast
  moreover have "flex_honest E l" using st IH unfolding e(2) flex_honest_def by auto
  ultimately show ?case using IH by blast
qed (simp_all add: flex_balanced_idle flex_honest_Nil)

lemma flex_boot_ok: "flex_ok flex_boot" "flex_sound E flex_boot"
  by (simp_all add: flex_ok_def flex_sound_def flex_boot_def)

text \<open>
  C37. The pages answered "scheduled" are accounted for: over every interleaving of commands and new settings with the passes of
  one worker, the pages that commands asked for and got the answer that they are scheduled are, counted with
  repetition, those whose samples were handed to the audio queue, those for which the encoder answered with an error, those that
  were waiting when the module was unloaded, and those that still wait; never more than 16 are kept. The samples handed over
  for a page were made by the encoder for its capcode, kind, speed and text, and a look had found the page due; a page
  counts as refused only if the encoder failed on it. Handed over is not transmitted: what the queue answers is ignored
  (\<open>mod_flex.c:215\<close>). A second worker, which every further configuration with paging enabled starts
  (\<open>mod_flex.c:536\<close>), is not in the run: with it pages are lost, as \<open>flex_second_worker\<close> shows.
\<close>
theorem flex_pages_accounted:
  assumes "flex_run flex_boot is = (s, l)"
  shows "mset (led_scheduled l) =
      mset (map fst (led_sent l)) + mset (led_refused l) + mset (led_thrown l) + mset (map page_key (waiting (fl_pending s))) \<and>
    length (fl_pending s) \<le> MAX_PENDING \<and>
    (\<forall>(k, x) \<in> set (led_sent l). (\<exists>env. Fx_look env \<in> set is \<and> key_encoding env k (Some x)) \<and> (\<exists>env. Fx_look env \<in> set is \<and> key_due env k)) \<and>
    (\<forall>k \<in> set (led_refused l). \<exists>env. Fx_look env \<in> set is \<and> key_encoding env k None)"
proof -
  let ?E = "{env. Fx_look env \<in> set is}"
  have "\<forall>i \<in> set is. looks_in ?E i" by (auto simp: looks_in_def)
  from flex_run_account[OF flex_boot_ok this assms]
  have a: "flex_ok s" "flex_balanced flex_boot l s" "flex_honest ?E l" by simp_all
  have "waiting (fl_pending flex_boot) = []" by (simp add: waiting_def flex_boot_def)
  with a(2) have "mset (led_scheduled l) =
      mset (map fst (led_sent l)) + mset (led_refused l) + mset (led_thrown l) + mset (map page_key (waiting (fl_pending s)))"
    by (simp add: flex_balanced_def ac_simps)
  moreover have "length (fl_pending s) \<le> MAX_PENDING" using a(1) by (simp add: flex_ok_def)
  ultimately show ?thesis using a(3) unfolding flex_honest_def by auto
qed

text \<open>
  A second worker holds the place of the page it found, not the page. Both find the first page due; one sends it and closes
  the gap; the other then sends what has moved to the place: the next page, before its time and without samples, which is gone from the queue then.
\<close>

definition flex_other_fires :: "flex \<Rightarrow> nat \<Rightarrow> flex \<times> flex_effect list" where
  "flex_other_fires s i = flex_fire (s\<lparr>fl_ready := Some i\<rparr>)"

text \<open>A page that is sent was found due before.\<close>

lemma flex_ready_due: "flex_look env s = (s', es) \<Longrightarrow> fl_ready s' = Some i \<Longrightarrow> flex_due env (fl_pending s' ! i)"
  by (auto simp: flex_look_def dest: flex_scan_laws split: prod.splits)

subsection \<open>Progress\<close>

text \<open>The encoder works on the pages that wait, and the time of all of them has come.\<close>

definition all_due :: "flex_env \<Rightarrow> flex \<Rightarrow> bool" where
  "all_due env s \<longleftrightarrow> (\<forall>p \<in> set (waiting (fl_pending s)). flex_due env p \<and> flex_encoded env s p \<noteq> None)"

lemma flex_scan_first:
  assumes "\<forall>p \<in> set (waiting ps). flex_due env p \<and> flex_encoded env s p \<noteq> None"
  shows "case waiting ps of [] \<Rightarrow> flex_scan env s ps = (ps, None, [])
    | p # rest \<Rightarrow> \<exists>q i xs ys. ps = xs @ p # ys \<and> waiting xs = [] \<and> waiting ys = rest \<and> i = length xs \<and> flex_encoded env s p = Some q \<and> flex_scan env s ps = (xs @ q # ys, Some i, [])"
  using assms
proof (induction ps)
  case (Cons p ps)
  show ?case
  proof (cases "fp_valid p")
    case True
    then obtain q where q: "flex_encoded env s p = Some q" "flex_due env p" using Cons.prems by (auto simp: waiting_def)
    then have d: "flex_due env q" by (auto simp: flex_encoded_def flex_due_def split: option.splits)
    obtain x where "flex_scan env s ps = x" by blast
    with q d True have "flex_scan env s (p # ps) = ([] @ q # ps, Some 0, [])" by (simp add: split_beta)
    then show ?thesis using True q(1) by (auto simp: waiting_def)
  next
    case False
    then have w: "waiting (p # ps) = waiting ps" by (simp add: waiting_def)
    from Cons.prems have IH: "case waiting ps of [] \<Rightarrow> flex_scan env s ps = (ps, None, [])
      | p # rest \<Rightarrow> \<exists>q i xs ys. ps = xs @ p # ys \<and> waiting xs = [] \<and> waiting ys = rest \<and> i = length xs \<and> flex_encoded env s p = Some q \<and> flex_scan env s ps = (xs @ q # ys, Some i, [])"
      unfolding w by (rule Cons.IH)
    show ?thesis
    proof (cases "waiting ps")
      case Nil
      with IH False w show ?thesis by simp
    next
      case (Cons p0 rest)
      with IH obtain q xs ys where e: "ps = xs @ p0 # ys" "waiting xs = []" "waiting ys = rest" "flex_encoded env s p0 = Some q" "flex_scan env s ps = (xs @ q # ys, Some (length xs), [])"
        by auto
      then have "p # ps = (p # xs) @ p0 # ys" "waiting (p # xs) = []" "flex_scan env s (p # ps) = ((p # xs) @ q # ys, Some (length (p # xs)), [])"
        using False by (simp_all add: waiting_def)
      with e(3,4) show ?thesis unfolding w Cons by (simp only: list.case) blast
    qed
  qed
qed (simp add: waiting_def)

text \<open>One pass of the worker sends the first page that waits.\<close>

lemma flex_pass:
  assumes "fl_ready s = None" "all_due env s" "waiting (fl_pending s) = p # rest"
  shows "\<exists>s1 s2 x. flex_step s (Fx_look env) = (s1, []) \<and> flex_ledger s (Fx_look env) = [] \<and> flex_ledger s1 Fx_fire = [Sent (page_key p) x] \<and>
    flex_step s1 Fx_fire = (s2, [Flx_audio x]) \<and> fl_ready s2 = None \<and> fl_pending s2 = rest \<and> all_due env s2"
proof -
  obtain q xs ys where e: "fl_pending s = xs @ p # ys" "waiting xs = []" "waiting ys = rest" "flex_encoded env s p = Some q"
    "flex_scan env s (fl_pending s) = (xs @ q # ys, Some (length xs), [])"
    using flex_scan_first[of "fl_pending s" env s] assms(2,3) by (auto simp: all_due_def)
  have "p \<in> set (waiting (fl_pending s))" using assms(3) by simp
  then have v: "fp_valid p" by (simp add: waiting_def)
  note q = flex_encoded_fields[OF e(4)]
  obtain x where x: "fp_pcm q = Some x" using q by blast
  let ?s1 = "s\<lparr>fl_pending := xs @ q # ys, fl_ready := Some (length xs)\<rparr>"
  let ?s2 = "?s1\<lparr>fl_ready := None, fl_tx_count := fl_tx_count s + 1, fl_pending := rest\<rparr>"
  have 1: "flex_step s (Fx_look env) = (?s1, [])" using assms(1) e(5) by (simp add: flex_look_def)
  have "flex_compact ((xs @ q # ys)[length xs := q\<lparr>fp_pcm := None, fp_valid := False\<rparr>]) = rest"
    unfolding flex_compact_waiting using e(2,3) by (simp add: waiting_def)
  then have 2: "flex_step ?s1 Fx_fire = (?s2, [Flx_audio x])" using x by (simp add: flex_fire_def Let_def)
  have due: "flex_due env p" using assms(2) \<open>p \<in> set (waiting (fl_pending s))\<close> by (simp add: all_due_def)
  have "flex_examined env s = []"
  proof -
    have "takeWhile (\<lambda>p. \<not> (fp_valid p \<and> flex_due env p \<and> flex_encoded env s p \<noteq> None)) (xs @ p # ys) = xs"
      using e(2,4) v due by (intro takeWhile_tail[THEN trans]) (auto simp: waiting_def filter_empty_conv)
    with e(1,2) show ?thesis by (simp add: flex_examined_def waiting_def)
  qed
  then have l: "flex_ledger s (Fx_look env) = []" by simp
  have f: "flex_ledger ?s1 Fx_fire = [Sent (page_key p) x]" using 2 q by simp
  have "all_due env ?s2"
  proof -
    have "flex_encoded env ?s2 = flex_encoded env s" by (intro ext) (simp add: flex_encoded_def flex_pre_encode_def split: option.split)
    moreover have "set rest \<subseteq> set (waiting (fl_pending s))" "waiting rest = rest" using assms(3) e(3) by (auto simp: waiting_def)
    ultimately show ?thesis using assms(2) by (auto simp: all_due_def)
  qed
  with 1 2 l f show ?thesis by (intro exI[of _ ?s1] exI[of _ ?s2] exI[of _ x]) (simp del: flex_ledger.simps flex_step.simps)
qed

text \<open>
  Once their time has come and the encoder works, the pages that wait are all sent, in the order of the queue, by as many
  passes of the worker as there are pages, and the queue is then empty.
\<close>
theorem flex_drains:
  assumes "fl_ready s = None" "all_due env s" "waiting (fl_pending s) = ps" "ps \<noteq> []"
  shows "\<exists>s' l. flex_run s (concat (replicate (length ps) [Fx_look env, Fx_fire])) = (s', l) \<and>
    map fst (led_sent l) = map page_key ps \<and> led_refused l = [] \<and> fl_pending s' = [] \<and> fl_ready s' = None"
  using assms
proof (induction ps arbitrary: s)
  case (Cons p ps)
  obtain s1 s2 x where w: "flex_step s (Fx_look env) = (s1, [])" "flex_ledger s (Fx_look env) = []" "flex_ledger s1 Fx_fire = [Sent (page_key p) x]"
    "flex_step s1 Fx_fire = (s2, [Flx_audio x])" "fl_ready s2 = None" "fl_pending s2 = ps" "all_due env s2"
    using flex_pass[OF Cons.prems(1-3)] by blast
  have run: "flex_run s (Fx_look env # Fx_fire # is) = (s', Sent (page_key p) x # l)" if "flex_run s2 is = (s', l)" for "is" s' l
    using that w by (simp del: flex_step.simps flex_ledger.simps)
  show ?case
  proof (cases "ps = []")
    case True
    then have "flex_run s2 [] = (s2, [])" by simp
    from run[OF this] show ?thesis using True w(5,6) by simp
  next
    case False
    have "waiting (fl_pending s2) = ps" using Cons.prems(3) w(6) by (auto simp: waiting_def filter_eq_Cons_iff)
    from Cons.IH[OF w(5,7) this False] obtain s' l where
      r: "flex_run s2 (concat (replicate (length ps) [Fx_look env, Fx_fire])) = (s', l)" "map fst (led_sent l) = map page_key ps" "led_refused l = []"
        "fl_pending s' = []" "fl_ready s' = None" by blast
    from run[OF r(1)] r(2-5) show ?thesis by simp
  qed
qed simp

subsection \<open>What the code does not mean to do\<close>

text \<open>
  Pages that cannot be encoded leave the queue only when another page is fired. Sixteen of them fill it for good: no
  pass of the worker removes them and every further page is refused, until the module is unloaded.
\<close>

lemma flex_queue_stuck:
  assumes "fl_ready s = None" "waiting (fl_pending s) = []" "length (fl_pending s) = MAX_PENDING" "i \<noteq> Fx_unload"
  shows "fl_pending (fst (flex_step s i)) = fl_pending s \<and> fl_ready (fst (flex_step s i)) = None"
proof (cases i)
  case (Fx_command env argv)
  obtain ps n where "fst (cli_flex env argv s) = s\<lparr>fl_pending := fl_pending s @ ps, fl_tx_count := n\<rparr>" "length (fl_pending s @ ps) \<le> max MAX_PENDING (length (fl_pending s))"
    using cli_flex_appends by blast
  with assms Fx_command show ?thesis by (simp add: split_beta)
next
  case (Fx_look env)
  have "flex_scan env s (fl_pending s) = (fl_pending s, None, [])" using flex_scan_first[of "fl_pending s" env s] assms(2) by simp
  with assms(1) Fx_look show ?thesis by (simp add: flex_look_def)
qed (use assms in \<open>simp_all add: flex_fire_def flex_settings_def Let_def\<close>)

text \<open>The answer of a refused page is closed twice, so its JSON text ends with two braces.\<close>

lemma flex_refused_answer:
  assumes "length (fl_pending s) = MAX_PENDING"
  shows "fst (snd (snd (cli_flex env [''flex'', ''tone'', n] s))) = [Ff_str ''error'' ''pending queue full'', Ff_finish, Ff_finish]"
  using assms by (simp add: cli_flex_def flex_schedule_page_def Let_def split_beta)

text \<open>
  The worker asks with the variable that receives its id only after its creation: when it asks before that, the
  variable still holds -1, the answer is to stop and the thread ends, although nobody asked it to; asked with its id
  the answer is to go on.
\<close>

lemma flex_worker_race:
  assumes "threads_ok t" "fl_worker s = -1" "flex_create_worker now True s t = (t', Some tid)" "0 \<le> tid"
  shows "thread_should_stop t' (fl_worker s)" "\<not> thread_should_stop t' (fl_worker (flex_store_worker (Some tid) s))"
proof -
  have c: "thread_create now True ''flex_tx'' t = (t', tid)" using assms(3) by (auto simp: flex_create_worker_def Let_def split: if_splits prod.splits)
  have ok: "threads_ok t' \<and> asked (th_slots t') tid = Some False"
  proof (cases rule: thread_create_cases[OF assms(1) c])
    case 1
    with assms(4) show ?thesis by simp
  next
    case 2
    then show ?thesis by simp
  next
    case 3
    then show ?thesis by simp
  qed
  then show "\<not> thread_should_stop t' (fl_worker (flex_store_worker (Some tid) s))" by (simp add: should_stop_asked flex_store_worker_def)
  have "asked (th_slots t') (-1) = None" unfolding asked_None using ok by (auto simp: threads_ok_def)
  then show "thread_should_stop t' (fl_worker s)" by (simp add: should_stop_asked assms(2))
qed

subsection \<open>A small instance\<close>

definition flex_demo_env :: "int \<Rightarrow> flex_env" where
  "flex_demo_env sec = \<lparr>fe_sec = sec, fe_nsec = 0, fe_encode = \<lambda>_ _ _ _ _ _ capcode _ _. Some [int capcode], fe_bps = \<lambda>_. 1600, fe_level_ok = \<lambda>_. True, fe_level_pct = \<lambda>_. 50\<rparr>"

definition flex_demo_page :: "nat \<Rightarrow> flex_page" where
  "flex_demo_page n = \<lparr>fp_capcode = n, fp_type = FLEX_MSG_TONE_ONLY, fp_speed = FLEX_SPEED_1600_2, fp_text = [], fp_frame = n, fp_sec = 10, fp_nsec = 0,
     fp_pcm = None, fp_valid = True\<rparr>"

lemma flex_second_worker:
  "let env = flex_demo_env 20;
       s = flex_boot\<lparr>fl_pending := [flex_demo_page 3, (flex_demo_page 7)\<lparr>fp_sec := 1000\<rparr>]\<rparr>;
       s1 = fst (flex_look env s); s2 = fst (flex_fire s1)
   in fl_ready s1 = Some 0 \<and> fl_ready (fst (flex_look env (s1\<lparr>fl_ready := None\<rparr>))) = Some 0 \<and>
      map fp_capcode (fl_pending s2) = [7] \<and> \<not> flex_due env (fl_pending s2 ! 0) \<and>
      snd (flex_other_fires s2 0) = [Flx_audio []] \<and> fl_pending (fst (flex_other_fires s2 0)) = []"
  by code_simp

theorem flex_pages_accounted_witness:
  "\<exists>s l. flex_run flex_boot [Fx_command (flex_demo_env 1) [''flex'', ''tone'', ''5''], Fx_look (flex_demo_env 20), Fx_fire] = (s, l) \<and>
     map fst (led_scheduled l) = [5] \<and> map (fst \<circ> fst) (led_sent l) = [5] \<and>
     mset (led_scheduled l) = mset (map fst (led_sent l)) + mset (led_refused l) + mset (led_thrown l) + mset (map page_key (waiting (fl_pending s)))"
proof -
  let ?is = "[Fx_command (flex_demo_env 1) [''flex'', ''tone'', ''5''], Fx_look (flex_demo_env 20), Fx_fire]"
  obtain s l where r: "flex_run flex_boot ?is = (s, l)" by (metis surj_pair)
  have "map fst (led_scheduled (snd (flex_run flex_boot ?is))) = [5] \<and> map (fst \<circ> fst) (led_sent (snd (flex_run flex_boot ?is))) = [5]" by code_simp
  with flex_pages_accounted[OF r] r show ?thesis by simp
qed

theorem flex_drains_witness:
  "\<exists>s' l. flex_run (flex_boot\<lparr>fl_pending := [flex_demo_page 3, flex_demo_page 7]\<rparr>)
      [Fx_look (flex_demo_env 20), Fx_fire, Fx_look (flex_demo_env 20), Fx_fire] = (s', l) \<and>
     map (fst \<circ> fst) (led_sent l) = [3, 7] \<and> fl_pending s' = []"
proof -
  let ?s = "flex_boot\<lparr>fl_pending := [flex_demo_page 3, flex_demo_page 7]\<rparr>"
  have h: "fl_ready ?s = None" "waiting (fl_pending ?s) = [flex_demo_page 3, flex_demo_page 7]"
    by (simp_all add: flex_boot_def waiting_def flex_demo_page_def)
  have d: "all_due (flex_demo_env 20) ?s"
    unfolding all_due_def h by (simp add: flex_demo_page_def flex_demo_env_def flex_due_def flex_encoded_def flex_pre_encode_def)
  obtain s' l where r: "flex_run ?s (concat (replicate (length [flex_demo_page 3, flex_demo_page 7]) [Fx_look (flex_demo_env 20), Fx_fire])) = (s', l)"
    "map fst (led_sent l) = map page_key [flex_demo_page 3, flex_demo_page 7]" "fl_pending s' = []"
    using flex_drains[OF h(1) d h(2)] by auto
  have "map (fst \<circ> fst) (led_sent l) = map fst (map fst (led_sent l))" by simp
  also have "\<dots> = [3, 7]" unfolding r(2) by (simp add: page_key_def flex_demo_page_def)
  finally show ?thesis using r(1,3) by (simp add: numeral_2_eq_2)
qed

end
