(* ===== verification/Parrot.thy ===== *)
theory Parrot
  imports Config Resp
begin

text \<open>
  The parrot (\<open>modules/mod_parrot.c\<close>): *88# arms it, the next transmission is recorded through an audio
  tap and played back when it ends, with a spoken report of its level. Samples are 16-bit numbers; the sums of their
  squares stay far below the bounds of 64 bits within the 30 seconds of a recording. An audio event without samples
  divides by zero, which ends the daemon: the tap answers None. The text of the duration (\<open>%.1f\<close>) is a
  parameter.
\<close>

record parrot =
  pr_enabled :: bool
  pr_max_dur :: int
  pr_report :: bool
  pr_armed :: bool
  pr_recording :: bool
  pr_tap :: bool
  pr_buf :: bool
  pr_data :: "int list"
  pr_cap :: nat
  pr_sum :: int
  pr_count :: nat
  pr_active_sum :: int
  pr_active_count :: nat
  pr_peak_rms :: nat
  pr_peak :: int

definition parrot_boot :: parrot where
  "parrot_boot = \<lparr>pr_enabled = True, pr_max_dur = 10, pr_report = True, pr_armed = False, pr_recording = False, pr_tap = False, pr_buf = False,
     pr_data = [], pr_cap = 0, pr_sum = 0, pr_count = 0, pr_active_sum = 0, pr_active_count = 0, pr_peak_rms = 0, pr_peak = 0\<rparr>"

record parrot_env =
  pe_rate :: nat
  pe_mem :: bool
  pe_tts :: bool
  pe_duration :: "nat \<Rightarrow> nat \<Rightarrow> string"

datatype parrot_effect = Pe_silence int | Pe_tone int int | Pe_audio "int list" | Pe_speak string | Pe_announce string

abbreviation PARROT_SPEECH_RMS_GATE :: nat where "PARROT_SPEECH_RMS_GATE \<equiv> 327"

subsection \<open>Levels\<close>

text \<open>\<open>while ((int64_t)rms * rms < avg) rms++;\<close>\<close>

function rms_loop :: "int \<Rightarrow> nat \<Rightarrow> nat" where
  "rms_loop avg rms = (if int rms * int rms < avg then rms_loop avg (rms + 1) else rms)"
  by pat_completeness auto
termination
proof (relation "measure (\<lambda>(avg, rms). nat (avg - int rms * int rms))")
  fix avg :: int and rms :: nat
  assume "int rms * int rms < avg"
  moreover have "int rms * int rms < int (rms + 1) * int (rms + 1)" by (simp add: algebra_simps)
  ultimately show "((avg, rms + 1), avg, rms) \<in> measure (\<lambda>(avg, rms). nat (avg - int rms * int rms))" by simp
qed simp

declare rms_loop.simps [simp del]

definition level_pct :: "int \<Rightarrow> int" where
  "level_pct v = cdiv (v * 100) 32767"

text \<open>The sum of squares and the largest magnitude of a frame.\<close>

fun frame_stats :: "int list \<Rightarrow> int \<Rightarrow> int \<Rightarrow> int \<times> int" where
  "frame_stats [] frame_sum peak = (frame_sum, peak)"
| "frame_stats (v # vs) frame_sum peak =
     (let a = (if v < 0 then - v else v) in frame_stats vs (frame_sum + v * v) (if a > peak then a else peak))"

definition parrot_stats :: "int list \<Rightarrow> parrot \<Rightarrow> parrot" where
  "parrot_stats x s =
     (let (frame_sum, peak) = frame_stats x 0 (pr_peak s);
          frame_rms = rms_loop (cdiv frame_sum (int (length x))) 0;
          s1 = s\<lparr>pr_peak := peak, pr_sum := pr_sum s + frame_sum, pr_count := pr_count s + length x,
                 pr_peak_rms := (if frame_rms > pr_peak_rms s then frame_rms else pr_peak_rms s)\<rparr>
      in if frame_rms \<ge> PARROT_SPEECH_RMS_GATE
         then s1\<lparr>pr_active_sum := pr_active_sum s + frame_sum, pr_active_count := pr_active_count s + length x\<rparr> else s1)"

subsection \<open>Recording and playback\<close>

text \<open>How many samples still fit, and the capacity of the buffer with them.\<close>

definition parrot_room :: "parrot_env \<Rightarrow> parrot \<Rightarrow> int list \<Rightarrow> nat" where
  "parrot_room env s samples =
     (let most = pe_rate env * nat (pr_max_dur s); len = length (pr_data s)
      in if len + length samples > most then most - len else length samples)"

definition parrot_grown :: "parrot_env \<Rightarrow> parrot \<Rightarrow> nat \<Rightarrow> nat" where
  "parrot_grown env s needed =
     (let most = pe_rate env * nat (pr_max_dur s);
          new_cap = (if pr_cap s * 2 < needed then needed + pe_rate env else pr_cap s * 2)
      in if needed > pr_cap s then (if new_cap > most then most else new_cap) else pr_cap s)"

definition parrot_audio_tap :: "parrot_env \<Rightarrow> int list option \<Rightarrow> parrot \<Rightarrow> parrot option" where
  "parrot_audio_tap env frame s =
     (case frame of
        None \<Rightarrow> Some s
      | Some samples \<Rightarrow>
          if \<not> pr_recording s then Some s
          else if length (pr_data s) \<ge> pe_rate env * nat (pr_max_dur s) then Some s
          else (let n = parrot_room env s samples; x = take n samples
                in if length (pr_data s) + n > pr_cap s \<and> \<not> pe_mem env then Some s
                   else if n = 0 then None
                   else Some ((parrot_stats x s)\<lparr>pr_cap := parrot_grown env s (length (pr_data s) + n), pr_data := pr_data s @ x\<rparr>)))"

definition start_recording :: "parrot_env \<Rightarrow> parrot \<Rightarrow> parrot" where
  "start_recording env s =
     (if pr_recording s then s
      else (let s1 = s\<lparr>pr_data := [], pr_cap := pe_rate env * nat (pr_max_dur s), pr_buf := pe_mem env\<rparr>
            in if \<not> pe_mem env then s1
               else s1\<lparr>pr_sum := 0, pr_count := 0, pr_active_sum := 0, pr_active_count := 0, pr_peak_rms := 0, pr_peak := 0,
                       pr_recording := True, pr_tap := True\<rparr>))"

text \<open>The average level of what was spoken, and the report.\<close>

definition active_rms :: "parrot \<Rightarrow> nat" where
  "active_rms s = (if pr_active_count s > 0 then rms_loop (cdiv (pr_active_sum s) (int (pr_active_count s))) 0 else 0)"

definition parrot_report :: "parrot_env \<Rightarrow> parrot \<Rightarrow> string" where
  "parrot_report env s =
     c_trunc 128 (''Audio report. Duration '' @ pe_duration env (length (pr_data s)) (pe_rate env) @ '' seconds. Average level '' @
       show_int (level_pct (int (active_rms s))) @ '' percent. Peak level '' @ show_int (level_pct (pr_peak s)) @ '' percent.'')"

definition stop_and_playback :: "parrot_env \<Rightarrow> parrot \<Rightarrow> parrot \<times> parrot_effect list" where
  "stop_and_playback env s =
     (if \<not> pr_recording s then (s, [])
      else (let s1 = s\<lparr>pr_recording := False, pr_tap := False\<rparr>
            in (s1\<lparr>pr_buf := False, pr_data := [], pr_cap := 0\<rparr>,
                if pr_buf s1 \<and> pr_data s1 \<noteq> []
                then [Pe_silence 200, Pe_audio (pr_data s1)] @ (if pr_report s1 \<and> pe_tts env then [Pe_speak (parrot_report env s1)] else []) @
                     [Pe_announce ''echo playback'']
                else [])))"

subsection \<open>The module\<close>

definition on_parrot_cmd :: "parrot \<Rightarrow> parrot \<times> parrot_effect list" where
  "on_parrot_cmd s =
     (if \<not> pr_enabled s then (s, [])
      else (s\<lparr>pr_armed := True\<rparr>, [Pe_tone 1000 100, Pe_silence 50, Pe_tone 1000 100, Pe_announce ''armed'']))"

definition parrot_cor_assert :: "parrot_env \<Rightarrow> parrot \<Rightarrow> parrot" where
  "parrot_cor_assert env s = (if \<not> pr_armed s then s else start_recording env (s\<lparr>pr_armed := False\<rparr>))"

definition parrot_cor_drop :: "parrot_env \<Rightarrow> parrot \<Rightarrow> parrot \<times> parrot_effect list" where
  "parrot_cor_drop env s = (if pr_recording s then stop_and_playback env s else (s, []))"

definition parrot_configure :: "config \<Rightarrow> parrot \<Rightarrow> parrot" where
  "parrot_configure cfg s =
     (let d = config_get_duration_s cfg ''parrot'' ''max_duration'' 10; d1 = (if d > 30 then 30 else d)
      in s\<lparr>pr_enabled := (config_get cfg ''parrot'' ''enabled'' \<noteq> Some ''off''), pr_max_dur := (if d1 < 1 then 1 else d1),
           pr_report := (config_get cfg ''parrot'' ''audio_report'' \<noteq> Some ''off'')\<rparr>)"

definition parrot_unload :: "parrot \<Rightarrow> parrot" where
  "parrot_unload s = s\<lparr>pr_tap := (if pr_recording s then False else pr_tap s), pr_buf := False, pr_armed := False, pr_recording := False, pr_data := [], pr_cap := 0\<rparr>"

datatype parrot_in = Pi_command | Pi_cor_assert | Pi_cor_drop | Pi_frame "int list option" | Pi_configure config | Pi_unload

fun parrot_step :: "parrot_env \<Rightarrow> parrot \<Rightarrow> parrot_in \<Rightarrow> (parrot \<times> parrot_effect list) option" where
  "parrot_step env s Pi_command = Some (on_parrot_cmd s)"
| "parrot_step env s Pi_cor_assert = Some (parrot_cor_assert env s, [])"
| "parrot_step env s Pi_cor_drop = Some (parrot_cor_drop env s)"
| "parrot_step env s (Pi_frame x) = (if pr_tap s then map_option (\<lambda>s'. (s', [])) (parrot_audio_tap env x s) else Some (s, []))"
| "parrot_step env s (Pi_configure cfg) = Some (parrot_configure cfg s, [])"
| "parrot_step env s Pi_unload = Some (parrot_unload s, [])"

fun parrot_run :: "parrot_env \<Rightarrow> parrot \<Rightarrow> parrot_in list \<Rightarrow> (parrot \<times> parrot_effect list) option" where
  "parrot_run env s [] = Some (s, [])"
| "parrot_run env s (i # is) =
     Option.bind (parrot_step env s i) (\<lambda>(s1, es). map_option (\<lambda>(s2, es2). (s2, es @ es2)) (parrot_run env s1 is))"

subsection \<open>The level loop\<close>

lemma rms_loop_least:
  assumes "rms = 0 \<or> int (rms - 1) * int (rms - 1) < avg"
  shows "avg \<le> int (rms_loop avg rms) * int (rms_loop avg rms) \<and> (rms_loop avg rms = 0 \<or> int (rms_loop avg rms - 1) * int (rms_loop avg rms - 1) < avg)"
  using assms
proof (induction avg rms rule: rms_loop.induct)
  case (1 avg rms)
  show ?case
  proof (cases "int rms * int rms < avg")
    case True
    with 1(1)[OF True] show ?thesis by (subst (1 2 3 4 5) rms_loop.simps) simp
  next
    case False
    with 1(2) show ?thesis by (subst (1 2 3 4 5) rms_loop.simps) simp
  qed
qed

text \<open>The answer is the least number whose square reaches the average.\<close>

lemma rms_loop_spec: "rms_loop avg 0 \<le> r \<longleftrightarrow> avg \<le> int r * int r"
proof
  let ?m = "rms_loop avg 0"
  have l: "avg \<le> int ?m * int ?m" "?m = 0 \<or> int (?m - 1) * int (?m - 1) < avg" using rms_loop_least[of 0 avg] by simp_all
  show "?m \<le> r \<Longrightarrow> avg \<le> int r * int r"
  proof -
    assume "?m \<le> r"
    then have "int ?m * int ?m \<le> int r * int r" by (intro mult_mono) simp_all
    with l(1) show ?thesis by linarith
  qed
  show "?m \<le> r" if "avg \<le> int r * int r"
  proof (rule ccontr)
    assume "\<not> ?m \<le> r"
    then have "r \<le> ?m - 1" "?m \<noteq> 0" by simp_all
    then have "int r * int r \<le> int (?m - 1) * int (?m - 1)" by (intro mult_mono) simp_all
    with l(2) \<open>?m \<noteq> 0\<close> that show False by simp
  qed
qed

subsection \<open>An echo\<close>

definition squares :: "int list \<Rightarrow> int" where
  "squares xs = sum_list (map (\<lambda>v. v * v) xs)"

definition loudest :: "int list \<Rightarrow> int" where
  "loudest xs = fold max (map abs xs) 0"

lemma frame_stats_eq: "frame_stats x f p = (f + squares x, fold max (map abs x) p)"
  by (induction x arbitrary: f p) (auto simp: squares_def Let_def max_def abs_if)

text \<open>A list of 16-bit samples.\<close>

definition samples16 :: "int list \<Rightarrow> bool" where
  "samples16 xs \<longleftrightarrow> (\<forall>v \<in> set xs. - 32768 \<le> v \<and> v \<le> 32767)"

lemma squares_bound: "samples16 xs \<Longrightarrow> 0 \<le> squares xs \<and> squares xs \<le> int (length xs) * 1073741824"
proof (induction xs)
  case (Cons v xs)
  have "\<bar>v\<bar> \<le> 32768" using Cons.prems by (auto simp: samples16_def)
  then have "\<bar>v\<bar> * \<bar>v\<bar> \<le> 32768 * 32768" by (intro mult_mono) simp_all
  then have "0 \<le> v * v \<and> v * v \<le> 1073741824" by simp
  with Cons show ?case by (simp add: samples16_def squares_def algebra_simps)
qed (simp add: squares_def)

lemma fold_max_bound: "0 \<le> p \<Longrightarrow> p \<le> 32768 \<Longrightarrow> samples16 xs \<Longrightarrow> 0 \<le> fold max (map abs xs) p \<and> fold max (map abs xs) p \<le> 32768"
  by (induction xs arbitrary: p) (auto simp: samples16_def)

text \<open>What the accumulators hold during a recording.\<close>

definition levels_ok :: "parrot \<Rightarrow> bool" where
  "levels_ok s \<longleftrightarrow> pr_count s = length (pr_data s) \<and> pr_sum s = squares (pr_data s) \<and> pr_peak s = loudest (pr_data s) \<and>
     pr_active_count s \<le> pr_count s \<and> 0 \<le> pr_active_sum s \<and> pr_active_sum s \<le> int (pr_active_count s) * 1073741824 \<and>
     0 \<le> pr_peak s \<and> pr_peak s \<le> 32768"

lemma parrot_stats_fields:
  "pr_data (parrot_stats x s) = pr_data s" "pr_recording (parrot_stats x s) = pr_recording s" "pr_tap (parrot_stats x s) = pr_tap s"
  "pr_max_dur (parrot_stats x s) = pr_max_dur s" "pr_buf (parrot_stats x s) = pr_buf s" "pr_armed (parrot_stats x s) = pr_armed s" "pr_report (parrot_stats x s) = pr_report s"
  "pr_cap (parrot_stats x s) = pr_cap s" "pr_count (parrot_stats x s) = pr_count s + length x" "pr_sum (parrot_stats x s) = pr_sum s + squares x"
  "pr_peak (parrot_stats x s) = fold max (map abs x) (pr_peak s)"
  "(pr_active_sum (parrot_stats x s) = pr_active_sum s + squares x \<and> pr_active_count (parrot_stats x s) = pr_active_count s + length x) \<or>
   (pr_active_sum (parrot_stats x s) = pr_active_sum s \<and> pr_active_count (parrot_stats x s) = pr_active_count s)"
  by (simp_all add: parrot_stats_def frame_stats_eq Let_def)

lemma parrot_stats_ok:
  assumes "levels_ok s" "samples16 x"
  shows "levels_ok ((parrot_stats x s)\<lparr>pr_cap := c, pr_data := pr_data s @ x\<rparr>)"
proof -
  note sq = squares_bound[OF assms(2)]
  have p: "0 \<le> fold max (map abs x) (pr_peak s) \<and> fold max (map abs x) (pr_peak s) \<le> 32768"
    by (rule fold_max_bound) (use assms in \<open>simp_all add: levels_ok_def\<close>)
  from parrot_stats_fields(12)[of x s] show ?thesis
    using assms(1) sq p by (elim disjE) (simp_all add: levels_ok_def parrot_stats_fields squares_def loudest_def algebra_simps)
qed

text \<open>Frames are heard up to the maximal duration; none of them is empty.\<close>

lemma parrot_frames:
  assumes "pr_recording s" "pr_tap s" "levels_ok s" "length (pr_data s) \<le> pe_rate env * nat (pr_max_dur s)" "pe_mem env"
    and "\<forall>x \<in> set xs. x \<noteq> [] \<and> samples16 x"
  shows "\<exists>s'. parrot_run env s (map (\<lambda>x. Pi_frame (Some x)) xs) = Some (s', []) \<and> pr_recording s' \<and> pr_tap s' \<and> levels_ok s' \<and>
    pr_data s' = take (pe_rate env * nat (pr_max_dur s)) (pr_data s @ concat xs) \<and> pr_buf s' = pr_buf s \<and> pr_report s' = pr_report s \<and> pr_armed s' = pr_armed s"
  using assms
proof (induction xs arbitrary: s)
  case (Cons x xs)
  let ?m = "pe_rate env * nat (pr_max_dur s)"
  have x: "x \<noteq> []" "samples16 x" using Cons.prems(6) by simp_all
  obtain s1 where s1: "parrot_audio_tap env (Some x) s = Some s1" "pr_recording s1" "pr_tap s1" "levels_ok s1"
    "pr_data s1 = take ?m (pr_data s @ x)" "pr_buf s1 = pr_buf s" "pr_report s1 = pr_report s" "pr_armed s1 = pr_armed s" "pr_max_dur s1 = pr_max_dur s"
  proof (cases "length (pr_data s) \<ge> ?m")
    case True
    then have "parrot_audio_tap env (Some x) s = Some s" using Cons.prems(1) by (simp add: parrot_audio_tap_def Let_def)
    moreover have "take ?m (pr_data s @ x) = pr_data s" using True Cons.prems(4) by simp
    ultimately show thesis using Cons.prems(1-3) by (intro that[of s]) simp_all
  next
    case False
    define n where "n = parrot_room env s x"
    define c where "c = parrot_grown env s (length (pr_data s) + n)"
    let ?s1 = "(parrot_stats (take n x) s)\<lparr>pr_cap := c, pr_data := pr_data s @ take n x\<rparr>"
    have n: "n \<noteq> 0" "pr_data s @ take n x = take ?m (pr_data s @ x)" using False x(1) by (auto simp: n_def parrot_room_def Let_def)
    then have "parrot_audio_tap env (Some x) s = Some ?s1"
      using False Cons.prems(1,5) by (simp add: parrot_audio_tap_def Let_def n_def[symmetric] c_def[symmetric])
    moreover have "samples16 (take n x)" using x(2) by (auto simp: samples16_def dest: in_set_takeD)
    from parrot_stats_ok[OF Cons.prems(3) this] have "levels_ok ?s1" .
    ultimately show thesis using n(2) Cons.prems(1,2) by (intro that[of ?s1]) (simp_all add: parrot_stats_fields)
  qed
  have m: "pe_rate env * nat (pr_max_dur s1) = ?m" using s1(9) by simp
  have pre: "length (pr_data s1) \<le> pe_rate env * nat (pr_max_dur s1)" unfolding m s1(5) by simp
  have fr: "\<forall>x \<in> set xs. x \<noteq> [] \<and> samples16 x" using Cons.prems(6) by simp
  obtain s' where s': "parrot_run env s1 (map (\<lambda>x. Pi_frame (Some x)) xs) = Some (s', [])" "pr_recording s'" "pr_tap s'" "levels_ok s'"
    "pr_data s' = take ?m (pr_data s1 @ concat xs)" "pr_buf s' = pr_buf s1" "pr_report s' = pr_report s1" "pr_armed s' = pr_armed s1"
    using Cons.IH[OF s1(2-4) pre Cons.prems(5) fr] unfolding m by blast
  have t: "take ?m (take ?m (pr_data s @ x) @ concat xs) = take ?m (pr_data s @ concat (x # xs))"
  proof -
    have "take k (take k a @ b) = take k (a @ b)" for k and a b :: "int list" by (simp add: min_def)
    then show ?thesis by (metis append_assoc concat.simps(2))
  qed
  have "parrot_run env s (map (\<lambda>x. Pi_frame (Some x)) (x # xs)) = Some (s', [])"
    using Cons.prems(2) s1(1) s'(1) by simp
  with s' s1 t show ?case by (intro exI[of _ s']) simp
qed simp

lemma parrot_run_append: "parrot_run env s (is @ js) = Option.bind (parrot_run env s is) (\<lambda>(s1, es). map_option (\<lambda>(s2, es2). (s2, es @ es2)) (parrot_run env s1 js))"
proof (induction "is" arbitrary: s)
  case Nil
  show ?case by (cases "parrot_run env s js") auto
next
  case (Cons i "is")
  show ?case
  proof (cases "parrot_step env s i")
    case (Some r)
    obtain s1 es where r: "r = (s1, es)" by (cases r)
    show ?thesis
    proof (cases "parrot_run env s1 is")
      case (Some r2)
      obtain s2 es2 where "r2 = (s2, es2)" by (cases r2)
      with Some r \<open>parrot_step env s i = Some r\<close> Cons.IH[of s1] show ?thesis by (cases "parrot_run env s2 js") auto
    qed (use \<open>parrot_step env s i = Some r\<close> r Cons.IH[of s1] in simp)
  qed simp
qed

lemma level_bound:
  assumes "0 \<le> v" "v \<le> 32768"
  shows "0 \<le> level_pct v \<and> level_pct v \<le> 100"
proof -
  have "v * 100 div 32767 \<le> 3276800 div 32767" by (rule zdiv_mono1) (use assms in simp_all)
  moreover have "(3276800 :: int) div 32767 = 100" by simp
  ultimately show ?thesis using assms by (simp add: level_pct_def cdiv_nonneg pos_imp_zdiv_nonneg_iff)
qed

lemma active_rms_bound:
  assumes "levels_ok s"
  shows "active_rms s \<le> 32768"
proof (cases "pr_active_count s > 0")
  case True
  have "pr_active_sum s div int (pr_active_count s) \<le> (int (pr_active_count s) * 1073741824) div int (pr_active_count s)"
    by (rule zdiv_mono1) (use assms True in \<open>simp_all add: levels_ok_def\<close>)
  also have "\<dots> = 1073741824" using True by simp
  finally have "cdiv (pr_active_sum s) (int (pr_active_count s)) \<le> int 32768 * int 32768" using assms True by (simp add: cdiv_nonneg levels_ok_def)
  then have "rms_loop (cdiv (pr_active_sum s) (int (pr_active_count s))) 0 \<le> 32768" unfolding rms_loop_spec .
  with True show ?thesis by (simp add: active_rms_def)
qed (simp add: active_rms_def)

end
