(* ===== verification/Cdr.thy ===== *)
theory Cdr
  imports Parrot User Otp
begin

text \<open>
  Call detail records (\<open>modules/mod_cdr.c\<close>): every transmission, every announcement and every recording of
  what was sent becomes a line of a CSV file of the day; two counters hold the calls of today, rebuilt from the file at
  configuration. The environment of an operation gives the clock, as seconds, as day of the year and as the texts of
  date and time, the flag of the emergency mode, whether the file can be opened, \<open>atof\<close> and the text of a number
  without decimals. Durations are tenths of seconds, the precision at which they are written; sums of them are exact.
\<close>

record cdr =
  cd_dir :: string
  cd_enabled :: bool
  cd_in_call :: bool
  cd_start :: int
  cd_user_id :: int
  cd_user_name :: string
  cd_method :: string
  cd_emergency :: int
  cd_recording :: string
  cd_sq_sum :: int
  cd_sq_count :: nat
  cd_peak_rms :: nat
  cd_calls :: int
  cd_tenths :: int
  cd_day :: int
  cd_files :: "string \<Rightarrow> string option"

definition cdr_boot :: "(string \<Rightarrow> string option) \<Rightarrow> cdr" where
  "cdr_boot files = \<lparr>cd_dir = ''cdr'', cd_enabled = True, cd_in_call = False, cd_start = 0, cd_user_id = 0, cd_user_name = [], cd_method = [],
     cd_emergency = 0, cd_recording = [], cd_sq_sum = 0, cd_sq_count = 0, cd_peak_rms = 0, cd_calls = 0, cd_tenths = 0, cd_day = 0, cd_files = files\<rparr>"

record cdr_env =
  ce_now :: int
  ce_yday :: int
  ce_date :: string
  ce_time :: string
  ce_emergency :: int
  ce_open :: bool
  ce_sse :: bool
  ce_db :: user_db
  ce_atof :: "string \<Rightarrow> int"
  ce_fmt0 :: "int \<Rightarrow> string"

subsection \<open>Writing\<close>

definition cdr_path :: "cdr_env \<Rightarrow> cdr \<Rightarrow> string" where
  "cdr_path env s = c_trunc 512 (cd_dir s @ ''/'' @ ce_date env @ ''.csv'')"

definition cdr_header :: string where
  "cdr_header = ''timestamp,date,time,user_id,user_name,method,duration_s,emergency,avg_rms,peak_rms,recording'' @ [CHR 0x0A]"

text \<open>
  Opening the file of the day: a new day starts new counters; a file that is new or empty gets the header. The answer is
  the state and whether there is a file to append to.
\<close>

definition open_daily_csv :: "cdr_env \<Rightarrow> cdr \<Rightarrow> cdr \<times> bool" where
  "open_daily_csv env s =
     (let s1 = (if ce_yday env \<noteq> cd_day s then s\<lparr>cd_calls := 0, cd_tenths := 0, cd_day := ce_yday env\<rparr> else s);
          path = cdr_path env s1; old = (case cd_files s1 path of Some c \<Rightarrow> c | None \<Rightarrow> [])
      in if \<not> ce_open env then (s1, False)
         else (s1\<lparr>cd_files := (cd_files s1)(path \<mapsto> (if old = [] then cdr_header else old))\<rparr>, True))"

definition cdr_append :: "cdr_env \<Rightarrow> string \<Rightarrow> cdr \<Rightarrow> cdr" where
  "cdr_append env line s =
     (let path = cdr_path env s; old = (case cd_files s path of Some c \<Rightarrow> c | None \<Rightarrow> []) in s\<lparr>cd_files := (cd_files s)(path \<mapsto> old @ line)\<rparr>)"

fun csv_double :: "string \<Rightarrow> string" where
  "csv_double [] = []"
| "csv_double (c # cs) = (if c = CHR 0x22 then [CHR 0x22, CHR 0x22] else [c]) @ csv_double cs"

definition csv_needs_quote :: "string \<Rightarrow> bool" where
  "csv_needs_quote s \<longleftrightarrow> (\<exists>c \<in> set s. c = CHR '','' \<or> c = CHR 0x22 \<or> c = CHR 0x0A \<or> c = CHR 0x0D)"

definition csv_field :: "string option \<Rightarrow> string" where
  "csv_field v =
     (let s = (case v of Some x \<Rightarrow> x | None \<Rightarrow> [])
      in if \<not> csv_needs_quote s then s else [CHR 0x22] @ csv_double s @ [CHR 0x22])"

text \<open>\<open>%.1f\<close> of a number of tenths.\<close>

definition show_tenths :: "int \<Rightarrow> string" where
  "show_tenths n = (if n < 0 then ''-'' else []) @ show_int (\<bar>n\<bar> div 10) @ ''.'' @ show_int (\<bar>n\<bar> mod 10)"

definition method_str :: "string \<Rightarrow> string" where
  "method_str m = (if m = [] then ''unknown'' else m)"

definition cdr_stamp :: "cdr_env \<Rightarrow> string" where
  "cdr_stamp env = show_int (ce_now env) @ '','' @ ce_date env @ '','' @ ce_time env"

definition call_line :: "cdr_env \<Rightarrow> cdr \<Rightarrow> string" where
  "call_line env s =
     (let avg_rms = (if cd_sq_count s > 0 then rms_loop (cdiv (cd_sq_sum s) (int (cd_sq_count s))) 0 else 0)
      in cdr_stamp env @ '','' @ show_int (cd_user_id s) @ '','' @ csv_field (Some (if cd_user_name s = [] then ''unknown'' else cd_user_name s)) @ '','' @
         csv_field (Some (method_str (cd_method s))) @ '','' @ show_tenths ((ce_now env - cd_start s) * 10) @ '','' @ show_int (cd_emergency s) @ '','' @
         show_int (int avg_rms) @ '','' @ show_int (int (cd_peak_rms s)) @ '','' @ csv_field (Some (cd_recording s)) @ [CHR 0x0A])"

definition write_cdr :: "cdr_env \<Rightarrow> cdr \<Rightarrow> cdr" where
  "write_cdr env s =
     (if \<not> cd_in_call s then s
      else (let (s1, ok) = open_daily_csv env s
            in if \<not> ok then s1
               else (cdr_append env (call_line env s) s1)\<lparr>cd_calls := cd_calls s1 + 1, cd_tenths := cd_tenths s1 + (ce_now env - cd_start s) * 10\<rparr>))"

definition tx_line :: "cdr_env \<Rightarrow> string option \<Rightarrow> int \<Rightarrow> string" where
  "tx_line env path tenths =
     cdr_stamp env @ '',0,transmit,TX,'' @ show_tenths tenths @ '','' @ show_int (ce_emergency env) @ '',0,0,'' @ csv_field path @ [CHR 0x0A]"

definition announcement_line :: "cdr_env \<Rightarrow> string option \<Rightarrow> string option \<Rightarrow> string" where
  "announcement_line env source descr = cdr_stamp env @ '',0,system,'' @ csv_field source @ '',0.0,0,0,0,'' @ csv_field descr @ [CHR 0x0A]"

subsection \<open>The level of a call\<close>

definition sq_audio_tap :: "int list option \<Rightarrow> cdr \<Rightarrow> cdr" where
  "sq_audio_tap frame s =
     (case frame of
        None \<Rightarrow> s
      | Some x \<Rightarrow>
          if \<not> cd_in_call s \<or> x = [] then s
          else (let frame_sum = fst (frame_stats x 0 0); frame_rms = rms_loop (cdiv frame_sum (int (length x))) 0
                in s\<lparr>cd_sq_sum := cd_sq_sum s + frame_sum, cd_sq_count := cd_sq_count s + length x,
                     cd_peak_rms := (if frame_rms > cd_peak_rms s then frame_rms else cd_peak_rms s)\<rparr>))"

subsection \<open>Events\<close>

definition cdr_snapshot :: "cdr_env \<Rightarrow> cdr \<Rightarrow> string" where
  "cdr_snapshot env s =
     (let b = (\<lambda>x. if x then ''true'' else ''false''); call_seconds = (if cd_in_call s \<and> cd_start s > 0 then ce_now env - cd_start s else 0)
      in c_trunc 768 (''{'' @ quoted ''enabled'' @ '':'' @ b (cd_enabled s) @ '','' @ quoted ''in_call'' @ '':'' @ b (cd_in_call s) @ '','' @
           quoted ''call_started_at'' @ '':'' @ show_int (cd_start s) @ '','' @ quoted ''call_seconds'' @ '':'' @ show_int call_seconds @ '','' @
           quoted ''call_user_id'' @ '':'' @ show_int (cd_user_id s) @ '','' @ quoted ''call_user_name'' @ '':'' @ quoted (otp_escape 0 (cd_user_name s)) @ '','' @
           quoted ''call_method'' @ '':'' @ quoted (cd_method s) @ '','' @ quoted ''call_emergency'' @ '':'' @ b (cd_emergency s \<noteq> 0) @ '','' @
           quoted ''today_calls'' @ '':'' @ show_int (cd_calls s) @ '','' @ quoted ''today_seconds'' @ '':'' @ ce_fmt0 env (cd_tenths s) @ ''}''))"

definition publish_cdr :: "cdr_env \<Rightarrow> cdr \<Rightarrow> string list" where
  "publish_cdr env s = (if ce_sse env then [cdr_snapshot env s] else [])"

definition cdr_cor_assert :: "cdr_env \<Rightarrow> cdr \<Rightarrow> cdr \<times> string list" where
  "cdr_cor_assert env s =
     (if \<not> cd_enabled s then (s, [])
      else (let s1 = s\<lparr>cd_in_call := True, cd_start := ce_now env, cd_recording := [], cd_emergency := ce_emergency env,
                       cd_sq_sum := 0, cd_sq_count := 0, cd_peak_rms := 0\<rparr>
            in (s1, publish_cdr env s1)))"

definition cdr_cor_drop :: "cdr_env \<Rightarrow> cdr \<Rightarrow> cdr \<times> string list" where
  "cdr_cor_drop env s =
     (if \<not> cd_enabled s \<or> \<not> cd_in_call s then (s, [])
      else (let s1 = (write_cdr env s)\<lparr>cd_in_call := False, cd_user_id := 0, cd_user_name := [], cd_method := []\<rparr>
            in (s1, publish_cdr env s1)))"

definition cdr_method_name :: "int \<Rightarrow> string" where
  "cdr_method_name m =
     (if m = 1 then ''CTCSS'' else if m = 2 then ''DCS'' else if m = 3 then ''ANI'' else if m = 4 then ''DTMF'' else if m = 5 then ''WEB'' else ''unknown'')"

definition cdr_caller_identified :: "cdr_env \<Rightarrow> int \<Rightarrow> int \<Rightarrow> cdr \<Rightarrow> cdr \<times> string list" where
  "cdr_caller_identified env uid how s =
     (if \<not> cd_in_call s then (s, [])
      else (let s1 = s\<lparr>cd_user_id := uid,
                       cd_user_name := (case user_lookup_by_id (ce_db env) uid of Some u \<Rightarrow> c_trunc 32 (u_name u) | None \<Rightarrow> cd_user_name s),
                       cd_method := cdr_method_name how\<rparr>
            in (s1, publish_cdr env s1)))"

definition write_tx_cdr :: "cdr_env \<Rightarrow> string option \<Rightarrow> int \<Rightarrow> cdr \<Rightarrow> cdr \<times> string list" where
  "write_tx_cdr env path tenths s =
     (if \<not> cd_enabled s then (s, [])
      else (let (s1, ok) = open_daily_csv env s
            in if \<not> ok then (s1, []) else (let s2 = cdr_append env (tx_line env path tenths) s1 in (s2, publish_cdr env s2))))"

definition cdr_recording_saved :: "cdr_env \<Rightarrow> string option \<Rightarrow> string option \<Rightarrow> int \<Rightarrow> cdr \<Rightarrow> cdr \<times> string list" where
  "cdr_recording_saved env direction path tenths s =
     (case (direction, path) of
        (Some d, Some p) \<Rightarrow>
          if d = ''RX'' then (if cd_in_call s then s\<lparr>cd_recording := c_trunc 512 p\<rparr> else s, [])
          else if d = ''TX'' then write_tx_cdr env (Some p) tenths s
          else (s, [])
      | _ \<Rightarrow> (s, []))"

definition cdr_announcement :: "cdr_env \<Rightarrow> string option \<Rightarrow> string option \<Rightarrow> cdr \<Rightarrow> cdr \<times> string list" where
  "cdr_announcement env source descr s =
     (if \<not> cd_enabled s then (s, [])
      else (let (s1, ok) = open_daily_csv env s
            in if \<not> ok then (s1, []) else (let s2 = cdr_append env (announcement_line env source descr) s1 in (s2, publish_cdr env s2))))"

subsection \<open>Reading the day back\<close>

text \<open>\<open>fgets\<close> into a buffer of 2048 bytes.\<close>

abbreviation CDR_LINE :: nat where "CDR_LINE \<equiv> 2048"

function cdr_lines :: "string \<Rightarrow> string list" where
  "cdr_lines s = (if s = [] then [] else fst (take_line (CDR_LINE - 1) s) # cdr_lines (snd (take_line (CDR_LINE - 1) s)))"
  by pat_completeness auto
termination
proof (relation "measure length")
  fix s :: string assume "s \<noteq> []"
  then show "(snd (take_line (CDR_LINE - 1) s), s) \<in> measure length"
    using take_line_shorter[of s "CDR_LINE - 2"] by (simp add: eval_nat_numeral)
qed simp

declare cdr_lines.simps [simp del]

text \<open>The first \<open>k\<close> commas of a line end fields; the last field is the rest.\<close>

fun csv_cut :: "nat \<Rightarrow> string \<Rightarrow> string list" where
  "csv_cut 0 s = [s]"
| "csv_cut (Suc k) [] = [[]]"
| "csv_cut (Suc k) (c # cs) = (if c = CHR '','' then [] # csv_cut k cs else (case csv_cut (Suc k) cs of f # fs \<Rightarrow> (c # f) # fs | [] \<Rightarrow> []))"

definition replay_line :: "cdr_env \<Rightarrow> string \<Rightarrow> int \<times> int \<Rightarrow> int \<times> int" where
  "replay_line env line acc =
     (let fields = csv_cut 6 line
      in if length fields < 7 \<or> fields ! 4 = ''system'' then acc else (fst acc + 1, snd acc + ce_atof env (fields ! 6)))"

definition replay_today_from_csv :: "cdr_env \<Rightarrow> cdr \<Rightarrow> cdr" where
  "replay_today_from_csv env s =
     (case cd_files s (cdr_path env s) of
        None \<Rightarrow> s\<lparr>cd_day := ce_yday env\<rparr>
      | Some c \<Rightarrow>
          (let (calls, tenths) = fold (replay_line env) (drop 1 (cdr_lines c)) (0, 0)
           in s\<lparr>cd_calls := calls, cd_tenths := tenths, cd_day := ce_yday env\<rparr>))"

definition cdr_configure :: "cdr_env \<Rightarrow> config \<Rightarrow> cdr \<Rightarrow> cdr \<times> string list" where
  "cdr_configure env cfg s =
     (let s1 = s\<lparr>cd_enabled := (config_get cfg ''cdr'' ''enabled'' \<noteq> Some ''off''),
                 cd_dir := (case config_get cfg ''cdr'' ''directory'' of Some x \<Rightarrow> c_trunc 256 x | None \<Rightarrow> cd_dir s)\<rparr>;
          s2 = (if cd_enabled s1 then replay_today_from_csv env s1 else s1)
      in (s2, publish_cdr env s2))"

definition cdr_unload :: "cdr_env \<Rightarrow> cdr \<Rightarrow> cdr" where
  "cdr_unload env s = (if cd_in_call s then write_cdr env s else s)"

datatype cdr_in =
    Ci_cor_assert | Ci_cor_drop | Ci_identified int int | Ci_recording "string option" "string option" int
  | Ci_announcement "string option" "string option" | Ci_frame "int list option" | Ci_configure config

fun cdr_step :: "cdr_env \<Rightarrow> cdr \<Rightarrow> cdr_in \<Rightarrow> cdr \<times> string list" where
  "cdr_step env s Ci_cor_assert = cdr_cor_assert env s"
| "cdr_step env s Ci_cor_drop = cdr_cor_drop env s"
| "cdr_step env s (Ci_identified uid how) = cdr_caller_identified env uid how s"
| "cdr_step env s (Ci_recording d p tenths) = cdr_recording_saved env d p tenths s"
| "cdr_step env s (Ci_announcement source descr) = cdr_announcement env source descr s"
| "cdr_step env s (Ci_frame x) = (sq_audio_tap x s, [])"
| "cdr_step env s (Ci_configure cfg) = cdr_configure env cfg s"

end
