(* ===== verification/Cdr_Props.thy ===== *)
theory Cdr_Props
  imports Cdr
begin

text \<open>
  What holds of the call records: a line read by the rules of RFC 4180 gives its fields back, and what the
  file of a day says about the calls compared with the counters.
\<close>

subsection \<open>Lines\<close>

text \<open>
  A reader of the format of RFC 4180. A field that starts with a quote ends at the next quote that is not doubled; any
  other field has no quote, comma, CR or LF in it. After a field comes a comma or the end of the record. The standard
  ends a record with CR LF; the reader takes a lone CR or LF too, and the end of the text.
\<close>

fun csv_read_quoted :: "string \<Rightarrow> (string \<times> string) option" where
  "csv_read_quoted [] = None"
| "csv_read_quoted (c # cs) =
     (if c \<noteq> CHR 0x22 then map_option (\<lambda>(f, r). (c # f, r)) (csv_read_quoted cs)
      else (case cs of
              d # ds \<Rightarrow> if d = CHR 0x22 then map_option (\<lambda>(f, r). (CHR 0x22 # f, r)) (csv_read_quoted ds) else Some ([], cs)
            | [] \<Rightarrow> Some ([], [])))"

definition csv_textdata :: "char \<Rightarrow> bool" where
  "csv_textdata c \<longleftrightarrow> c \<noteq> CHR '','' \<and> c \<noteq> CHR 0x22 \<and> c \<noteq> CHR 0x0A \<and> c \<noteq> CHR 0x0D"

definition csv_read_field :: "string \<Rightarrow> (string \<times> string) option" where
  "csv_read_field s =
     (if s \<noteq> [] \<and> hd s = CHR 0x22 then csv_read_quoted (tl s)
      else Some (takeWhile csv_textdata s, dropWhile csv_textdata s))"

text \<open>The end of a record at the front of a text, with what follows.\<close>

fun csv_line_end :: "string \<Rightarrow> string option" where
  "csv_line_end [] = Some []"
| "csv_line_end (c # cs) =
     (if c = CHR 0x0A then Some cs
      else if c = CHR 0x0D then Some (if cs \<noteq> [] \<and> hd cs = CHR 0x0A then tl cs else cs)
      else None)"

lemma csv_read_quoted_shorter: "csv_read_quoted s = Some (f, r) \<Longrightarrow> length r < length s"
proof (induction s arbitrary: f r rule: csv_read_quoted.induct)
  case (2 c cs)
  show ?case
  proof (cases "c \<noteq> CHR 0x22")
    case True
    with 2(3) obtain f' where "csv_read_quoted cs = Some (f', r)" by auto
    from 2(1)[OF True this] show ?thesis by simp
  next
    case False
    show ?thesis
    proof (cases cs)
      case Nil
      with 2(3) False show ?thesis by simp
    next
      case (Cons d ds)
      show ?thesis
      proof (cases "d = CHR 0x22")
        case True
        with 2(3) False Cons obtain f' where "csv_read_quoted ds = Some (f', r)" by auto
        from 2(2)[OF False Cons True this] Cons show ?thesis by simp
      next
        case d: False
        with 2(3) False Cons show ?thesis by auto
      qed
    qed
  qed
qed simp

lemma csv_read_field_shorter: "csv_read_field s = Some (f, r) \<Longrightarrow> length r \<le> length s"
  using csv_read_quoted_shorter[of "tl s" f r]
  by (auto simp: csv_read_field_def length_dropWhile_le split: if_splits)

text \<open>A record: its fields and the text after it.\<close>

function csv_read_record :: "string \<Rightarrow> (string list \<times> string) option" where
  "csv_read_record s =
     (case csv_read_field s of
        None \<Rightarrow> None
      | Some (f, r) \<Rightarrow>
          (case csv_line_end r of
             Some r' \<Rightarrow> Some ([f], r')
           | None \<Rightarrow> if hd r = CHR '','' then map_option (\<lambda>(fs, r'). (f # fs, r')) (csv_read_record (tl r)) else None))"
  by pat_completeness auto
termination
proof (relation "measure length")
  fix s :: string and x f r
  assume "csv_read_field s = Some x" "(f, r) = x" "csv_line_end r = None"
  then have "length r \<le> length s" "r \<noteq> []" using csv_read_field_shorter by auto
  then show "(tl r, s) \<in> measure length" by (cases r) auto
qed simp

declare csv_read_record.simps [simp del]

lemma read_double: "(\<And>d ds. r = d # ds \<Longrightarrow> d \<noteq> CHR 0x22) \<Longrightarrow> csv_read_quoted (csv_double v @ [CHR 0x22] @ r) = Some (v, r)"
proof (induction v rule: csv_double.induct)
  case 1
  then show ?case by (cases r) auto
next
  case (2 c cs)
  from 2(1)[OF 2(2)] show ?case by auto
qed

lemma csv_textdata_quote: "(\<forall>c \<in> set s. csv_textdata c) \<longleftrightarrow> \<not> csv_needs_quote s"
  by (auto simp: csv_textdata_def csv_needs_quote_def)

lemma read_csv_field:
  assumes "c = CHR '','' \<or> c = CHR 0x0A"
  shows "csv_read_field (csv_field v @ c # r) = Some (case v of Some x \<Rightarrow> x | None \<Rightarrow> [], c # r)"
proof -
  define s where "s = (case v of Some x \<Rightarrow> x | None \<Rightarrow> [])"
  have c: "c \<noteq> CHR 0x22" "\<not> csv_textdata c" using assms by (auto simp: csv_textdata_def)
  show ?thesis
  proof (cases "csv_needs_quote s")
    case True
    then have "csv_field v @ c # r = CHR 0x22 # csv_double s @ [CHR 0x22] @ c # r" by (simp add: csv_field_def s_def Let_def)
    moreover have "csv_read_quoted (csv_double s @ [CHR 0x22] @ c # r) = Some (s, c # r)" by (rule read_double) (use c in simp)
    ultimately show ?thesis by (simp add: csv_read_field_def s_def)
  next
    case False
    then have p: "\<forall>x \<in> set s. csv_textdata x" by (simp add: csv_textdata_quote)
    have e: "csv_field v @ c # r = s @ c # r" using False by (simp add: csv_field_def s_def Let_def)
    have "hd (s @ c # r) \<noteq> CHR 0x22" using p c by (cases s) (auto simp: csv_textdata_def)
    moreover have "takeWhile csv_textdata (s @ c # r) = s" "dropWhile csv_textdata (s @ c # r) = c # r"
      using p c by (simp_all add: takeWhile_append dropWhile_append)
    ultimately show ?thesis unfolding e by (simp add: csv_read_field_def s_def)
  qed
qed

text \<open>The record of some fields.\<close>

fun csv_row :: "string list \<Rightarrow> string" where
  "csv_row [] = []"
| "csv_row [f] = csv_field (Some f) @ [CHR 0x0A]"
| "csv_row (f # fs) = csv_field (Some f) @ CHR '','' # csv_row fs"

lemma read_csv_row: "fs \<noteq> [] \<Longrightarrow> csv_read_record (csv_row fs @ rest) = Some (fs, rest)"
proof (induction fs rule: csv_row.induct)
  case (2 f)
  show ?case using read_csv_field[of "CHR 0x0A" "Some f" rest] by (simp add: csv_read_record.simps[of "csv_field (Some f) @ CHR 0x0A # rest"])
next
  case (3 f g fs)
  have "csv_read_record (csv_row (g # fs) @ rest) = Some (g # fs, rest)" by (rule 3(1)) simp
  with read_csv_field[of "CHR '',''" "Some f" "csv_row (g # fs) @ rest"] show ?case
    by (simp add: csv_read_record.simps[of "csv_field (Some f) @ CHR '','' # csv_row (g # fs) @ rest"])
qed simp

lemma plain_field: "\<not> csv_needs_quote x \<Longrightarrow> csv_field (Some x) = x"
  by (simp add: csv_field_def)

lemma show_int_plain: "\<not> csv_needs_quote (show_int n)"
proof -
  have "c \<noteq> CHR '','' \<and> c \<noteq> CHR 0x22 \<and> c \<noteq> CHR 0x0A \<and> c \<noteq> CHR 0x0D" if "is_digit c \<or> c = CHR ''-''" for c
    using that by (auto simp: is_digit_def ascii_def)
  then show ?thesis using show_nat_digits by (fastforce simp: csv_needs_quote_def show_int_def split: if_splits)
qed

lemma plain_append: "csv_needs_quote (a @ b) \<longleftrightarrow> csv_needs_quote a \<or> csv_needs_quote b"
  by (auto simp: csv_needs_quote_def)

lemma show_tenths_plain: "\<not> csv_needs_quote (show_tenths n)"
  using show_int_plain by (auto simp: show_tenths_def plain_append) (auto simp: csv_needs_quote_def)

definition call_fields :: "cdr_env \<Rightarrow> cdr \<Rightarrow> string list" where
  "call_fields env s =
     [show_int (ce_now env), ce_date env, ce_time env, show_int (cd_user_id s), if cd_user_name s = [] then ''unknown'' else cd_user_name s,
      method_str (cd_method s), show_tenths ((ce_now env - cd_start s) * 10), show_int (cd_emergency s),
      show_int (int (if cd_sq_count s > 0 then rms_loop (cdiv (cd_sq_sum s) (int (cd_sq_count s))) 0 else 0)), show_int (int (cd_peak_rms s)), cd_recording s]"

lemma call_line_row: "\<not> csv_needs_quote (ce_date env) \<Longrightarrow> \<not> csv_needs_quote (ce_time env) \<Longrightarrow> call_line env s = csv_row (call_fields env s)"
  by (simp add: call_line_def call_fields_def cdr_stamp_def Let_def plain_field show_int_plain show_tenths_plain)

lemma literal_fields:
  "csv_field (Some ''0'') = ''0''" "csv_field (Some ''system'') = ''system''" "csv_field (Some ''0.0'') = ''0.0''"
  "csv_field (Some ''transmit'') = ''transmit''" "csv_field (Some ''TX'') = ''TX''"
  by (simp_all add: csv_field_def csv_needs_quote_def)

lemma announcement_line_row:
  "\<not> csv_needs_quote (ce_date env) \<Longrightarrow> \<not> csv_needs_quote (ce_time env) \<Longrightarrow> announcement_line env (Some source) (Some descr) =
     csv_row [show_int (ce_now env), ce_date env, ce_time env, ''0'', ''system'', source, ''0.0'', ''0'', ''0'', ''0'', descr]"
  by (simp add: announcement_line_def cdr_stamp_def plain_field show_int_plain literal_fields)

lemma tx_line_row:
  "\<not> csv_needs_quote (ce_date env) \<Longrightarrow> \<not> csv_needs_quote (ce_time env) \<Longrightarrow> tx_line env (Some path) tenths =
     csv_row [show_int (ce_now env), ce_date env, ce_time env, ''0'', ''transmit'', ''TX'', show_tenths tenths, show_int (ce_emergency env), ''0'', ''0'', path]"
  by (simp add: tx_line_def cdr_stamp_def plain_field show_int_plain show_tenths_plain literal_fields)

text \<open>
  C39. Whatever commas, quotes, carriage returns and line feeds are in the name of a user, in the path of a recording or in
  an announcement: a reader of the quoting rules of RFC 4180, for which a bare CR or LF outside quotes ends the record,
  gets exactly the eleven fields back that were written, and goes on after the line with whatever follows it in
  the file. This holds for the line of a call, of an announcement and of a recording of what was sent, the texts of
  date and time being free of these characters.
\<close>
theorem cdr_line_roundtrip:
  assumes "\<not> csv_needs_quote (ce_date env)" "\<not> csv_needs_quote (ce_time env)"
  shows "csv_read_record (call_line env s @ rest) = Some (call_fields env s, rest) \<and>
    csv_read_record (announcement_line env (Some source) (Some descr) @ rest) =
      Some ([show_int (ce_now env), ce_date env, ce_time env, ''0'', ''system'', source, ''0.0'', ''0'', ''0'', ''0'', descr], rest) \<and>
    csv_read_record (tx_line env (Some path) tenths @ rest) =
      Some ([show_int (ce_now env), ce_date env, ce_time env, ''0'', ''transmit'', ''TX'', show_tenths tenths, show_int (ce_emergency env), ''0'', ''0'', path], rest) \<and>
    length (call_fields env s) = 11"
  unfolding call_line_row[OF assms] announcement_line_row[OF assms] tx_line_row[OF assms]
  by (intro conjI read_csv_row) (simp_all add: call_fields_def)

subsection \<open>The counters and the file\<close>

lemma csv_cut_field: "CHR '','' \<notin> set x \<Longrightarrow> csv_cut (Suc k) (x @ CHR '','' # y) = x # csv_cut k y"
  by (induction x) auto

lemma csv_cut_not_Nil: "csv_cut k s \<noteq> []"
  by (induction k s rule: csv_cut.induct) (auto split: list.split)

lemma plain_no_comma: "\<not> csv_needs_quote x \<Longrightarrow> CHR '','' \<notin> set x"
  by (auto simp: csv_needs_quote_def)

text \<open>What a line adds to the counters when it is read back: its duration, or nothing for an announcement.\<close>

definition line_adds :: "cdr_env \<Rightarrow> string \<Rightarrow> int option \<Rightarrow> bool" where
  "line_adds env line k \<longleftrightarrow> (\<forall>acc. replay_line env line acc = (case k of Some t \<Rightarrow> (fst acc + 1, snd acc + t) | None \<Rightarrow> acc))"

definition atof_reads :: "cdr_env \<Rightarrow> bool" where
  "atof_reads env \<longleftrightarrow> (\<forall>n r. ce_atof env (show_tenths n @ CHR '','' # r) = n)"

lemma timed_line_adds:
  assumes "\<forall>x \<in> {a, b, c, d, name, m}. \<not> csv_needs_quote x" "name \<noteq> ''system''" "atof_reads env"
  shows "line_adds env (a @ CHR '','' # b @ CHR '','' # c @ CHR '','' # d @ CHR '','' # name @ CHR '','' # m @ CHR '','' # show_tenths t @ CHR '','' # rest) (Some t)"
proof -
  have "csv_cut 6 (a @ CHR '','' # b @ CHR '','' # c @ CHR '','' # d @ CHR '','' # name @ CHR '','' # m @ CHR '','' # show_tenths t @ CHR '','' # rest) =
      [a, b, c, d, name, m, show_tenths t @ CHR '','' # rest]"
    using assms(1) by (simp add: eval_nat_numeral csv_cut_field plain_no_comma)
  with assms(2,3) show ?thesis by (simp add: line_adds_def replay_line_def atof_reads_def Let_def)
qed

lemma note_line_adds:
  assumes "\<forall>x \<in> {a, b, c, d}. \<not> csv_needs_quote x"
  shows "line_adds env (a @ CHR '','' # b @ CHR '','' # c @ CHR '','' # d @ CHR '','' # ''system'' @ CHR '','' # rest) None"
proof -
  have "csv_cut 6 (a @ CHR '','' # b @ CHR '','' # c @ CHR '','' # d @ CHR '','' # ''system'' @ CHR '','' # rest) = [a, b, c, d, ''system''] @ csv_cut 1 rest"
    using assms csv_cut_field[of "''system''" 1 rest] by (simp add: eval_nat_numeral csv_cut_field plain_no_comma)
  then show ?thesis by (simp add: line_adds_def replay_line_def Let_def)
qed

text \<open>A line that the reader of the daemon takes in one piece.\<close>

definition tidy_line :: "string \<Rightarrow> bool" where
  "tidy_line l \<longleftrightarrow> length l < CDR_LINE \<and> (\<exists>b. l = b @ [CHR 0x0A] \<and> CHR 0x0A \<notin> set b)"

lemma take_line_tidy: "length b < m \<Longrightarrow> CHR 0x0A \<notin> set b \<Longrightarrow> take_line m (b @ CHR 0x0A # r) = (b @ [CHR 0x0A], r)"
proof (induction b arbitrary: m)
  case Nil
  then show ?case by (cases m) simp_all
next
  case (Cons x b)
  then obtain m' where "m = Suc m'" by (cases m) auto
  with Cons show ?case by auto
qed

lemma cdr_lines_tidy:
  assumes "\<forall>l \<in> set ls. tidy_line l"
  shows "cdr_lines (concat ls) = ls"
  using assms
proof (induction ls)
  case (Cons l ls)
  from Cons.prems obtain b where b: "l = b @ [CHR 0x0A]" "CHR 0x0A \<notin> set b" "length b < CDR_LINE - 1" by (auto simp: tidy_line_def)
  have "take_line (CDR_LINE - 1) (concat (l # ls)) = (l, concat ls)" using take_line_tidy[OF b(3,2)] b(1) by simp
  moreover have "concat (l # ls) \<noteq> []" using b(1) by simp
  ultimately have "cdr_lines (concat (l # ls)) = l # cdr_lines (concat ls)" by (subst cdr_lines.simps) simp
  with Cons show ?case by simp
qed (simp add: cdr_lines.simps)

lemma header_tidy: "tidy_line cdr_header"
proof -
  have "NL \<notin> set ''timestamp,date,time,user_id,user_name,method,duration_s,emergency,avg_rms,peak_rms,recording''" by simp
  then show ?thesis unfolding tidy_line_def cdr_header_def by (intro conjI exI) (simp, rule refl, assumption)
qed

text \<open>The sums over the lines with what they add.\<close>

fun sums :: "(string \<times> int option) list \<Rightarrow> int \<times> int" where
  "sums [] = (0, 0)"
| "sums ((l, None) # rs) = sums rs"
| "sums ((l, Some t) # rs) = (fst (sums rs) + 1, snd (sums rs) + t)"

lemma cdr_sums_append: "sums (xs @ ys) = (fst (sums xs) + fst (sums ys), snd (sums xs) + snd (sums ys))"
  by (induction xs rule: sums.induct) simp_all

lemma replay_sums:
  assumes "\<forall>(l, k) \<in> set rs. line_adds env l k"
  shows "fold (replay_line env) (map fst rs) (a, b) = (a + fst (sums rs), b + snd (sums rs))"
  using assms
proof (induction rs arbitrary: a b)
  case (Cons r rs)
  obtain l k where r: "r = (l, k)" by (cases r)
  have "replay_line env l (a, b) = (case k of Some t \<Rightarrow> (a + 1, b + t) | None \<Rightarrow> (a, b))" using Cons.prems r by (cases k) (simp_all add: line_adds_def)
  with Cons r show ?case by (cases k) simp_all
qed simp

text \<open>
  The file of the day as lines with what they add, the calls among them and the recordings of what was sent.
  Reading back does not tell these two apart.
\<close>

definition day_file :: "string \<Rightarrow> cdr_env \<Rightarrow> cdr \<Rightarrow> (string \<times> int option) list \<Rightarrow> bool" where
  "day_file path env s rs \<longleftrightarrow> (\<forall>(l, k) \<in> set rs. tidy_line l \<and> line_adds env l k) \<and>
     (case cd_files s path of None \<Rightarrow> rs = [] | Some c \<Rightarrow> c = cdr_header @ concat (map fst rs))"

lemma day_file_replay:
  assumes "day_file (cdr_path env s) env s rs" "cd_day s = ce_yday env"
  shows "cd_calls (replay_today_from_csv env s) = (if cd_files s (cdr_path env s) = None then cd_calls s else fst (sums rs)) \<and>
    cd_tenths (replay_today_from_csv env s) = (if cd_files s (cdr_path env s) = None then cd_tenths s else snd (sums rs))"
proof (cases "cd_files s (cdr_path env s)")
  case None
  then show ?thesis by (simp add: replay_today_from_csv_def)
next
  case (Some c)
  with assms(1) have c: "c = concat (cdr_header # map fst rs)" "\<forall>(l, k) \<in> set rs. tidy_line l" "\<forall>(l, k) \<in> set rs. line_adds env l k"
    by (auto simp: day_file_def)
  have "\<forall>l \<in> set (cdr_header # map fst rs). tidy_line l" using c(2) header_tidy by auto
  then have "cdr_lines c = cdr_header # map fst rs" unfolding c(1) by (rule cdr_lines_tidy)
  with Some replay_sums[OF c(3), of 0 0] show ?thesis by (simp add: replay_today_from_csv_def split_beta)
qed

subsection \<open>Over a day\<close>

text \<open>
  A step of a day: the clock shows the date \<open>d\<close> with its number \<open>y\<close>, the module is not configured anew, what is written fits
  the reader's buffer and has no line ends inside, and the name of a caller is plain and not one the
  module itself uses for announcements.
\<close>

fun day_step :: "string \<Rightarrow> int \<Rightarrow> cdr \<Rightarrow> cdr_env \<times> cdr_in \<Rightarrow> bool" where
  "day_step d y s (env, i) \<longleftrightarrow> ce_date env = d \<and> ce_yday env = y \<and> \<not> csv_needs_quote d \<and> \<not> csv_needs_quote (ce_time env) \<and> atof_reads env \<and>
     (case i of
        Ci_cor_drop \<Rightarrow> tidy_line (call_line env s) \<and> \<not> csv_needs_quote (cd_user_name s) \<and> cd_user_name s \<noteq> ''system''
      | Ci_recording dir p tenths \<Rightarrow> tidy_line (tx_line env p tenths)
      | Ci_announcement source descr \<Rightarrow> tidy_line (announcement_line env source descr)
      | Ci_configure cfg \<Rightarrow> False
      | _ \<Rightarrow> True)"

fun cdr_day :: "string \<Rightarrow> int \<Rightarrow> cdr \<Rightarrow> (cdr_env \<times> cdr_in) list \<Rightarrow> bool" where
  "cdr_day d y s [] = True"
| "cdr_day d y s (x # xs) \<longleftrightarrow> day_step d y s x \<and> cdr_day d y (fst (cdr_step (fst x) s (snd x))) xs"

fun cdr_run :: "cdr \<Rightarrow> (cdr_env \<times> cdr_in) list \<Rightarrow> cdr" where
  "cdr_run s [] = s"
| "cdr_run s (x # xs) = cdr_run (fst (cdr_step (fst x) s (snd x))) xs"

text \<open>The durations of the recordings of what was sent that a run writes down.\<close>

fun cdr_sent :: "cdr \<Rightarrow> (cdr_env \<times> cdr_in) list \<Rightarrow> int list" where
  "cdr_sent s [] = []"
| "cdr_sent s ((env, i) # xs) =
     (case i of Ci_recording (Some dir) (Some p) tenths \<Rightarrow> if dir = ''TX'' \<and> cd_enabled s \<and> ce_open env then [tenths] else [] | _ \<Rightarrow> []) @
     cdr_sent (fst (cdr_step env s i)) xs"

text \<open>What the file holds against the counters: lines of calls and of recordings sent.\<close>

definition day_ok :: "string \<Rightarrow> int \<Rightarrow> int list \<Rightarrow> cdr \<Rightarrow> bool" where
  "day_ok path y sent s \<longleftrightarrow> cd_day s = y \<and> \<not> csv_needs_quote (cd_method s) \<and>
     (\<exists>rs. (\<forall>env. atof_reads env \<longrightarrow> day_file path env s rs) \<and> fst (sums rs) = cd_calls s + int (length sent) \<and> snd (sums rs) = cd_tenths s + sum_list sent)"

lemma open_daily_same_day:
  assumes "ce_yday env = cd_day s" "open_daily_csv env s = (s1, ok)"
  shows "ok = ce_open env" "s1 = (if ce_open env then s\<lparr>cd_files := (cd_files s)(cdr_path env s \<mapsto>
    (case cd_files s (cdr_path env s) of None \<Rightarrow> cdr_header | Some c \<Rightarrow> if c = [] then cdr_header else c))\<rparr> else s)"
  using assms by (auto simp: open_daily_csv_def Let_def split: option.splits if_splits)

lemma append_line_file:
  assumes "day_file (cdr_path env s) env0 s rs" "ce_yday env = cd_day s" "open_daily_csv env s = (s1, True)" "tidy_line l" "line_adds env0 l k"
  shows "day_file (cdr_path env s) env0 (cdr_append env l s1) (rs @ [(l, k)])"
    "cdr_append env l s1 = s\<lparr>cd_files := cd_files (cdr_append env l s1)\<rparr>"
proof -
  note o' = open_daily_same_day[OF assms(2,3)]
  let ?p = "cdr_path env s"
  have s1: "s1 = s\<lparr>cd_files := (cd_files s)(?p \<mapsto> (case cd_files s ?p of None \<Rightarrow> cdr_header | Some c \<Rightarrow> if c = [] then cdr_header else c))\<rparr>"
    using o' by simp
  have p: "cdr_path env s1 = ?p" unfolding s1 by (simp add: cdr_path_def)
  have h: "cdr_header \<noteq> []" by (simp add: cdr_header_def)
  have f: "cd_files s1 ?p = Some (cdr_header @ concat (map fst rs))"
    using assms(1) h unfolding s1 by (auto simp: day_file_def split: option.splits)
  have a: "cdr_append env l s1 = s\<lparr>cd_files := (cd_files s1)(?p \<mapsto> cdr_header @ concat (map fst rs) @ l)\<rparr>"
    using f unfolding cdr_append_def p by (simp add: s1 Let_def)
  show "cdr_append env l s1 = s\<lparr>cd_files := cd_files (cdr_append env l s1)\<rparr>" unfolding a by simp
  show "day_file ?p env0 (cdr_append env l s1) (rs @ [(l, k)])" using assms(1,4,5) unfolding a by (auto simp: day_file_def)
qed

lemma day_append:
  assumes "day_ok (cdr_path env s) y sent s" "ce_yday env = y" "open_daily_csv env s = (s1, True)" "tidy_line l" "\<forall>env0. atof_reads env0 \<longrightarrow> line_adds env0 l k"
  shows "\<exists>fs. cdr_append env l s1 = s\<lparr>cd_files := fs\<rparr> \<and> s1 = s\<lparr>cd_files := cd_files s1\<rparr> \<and>
    (\<exists>rs. (\<forall>env0. atof_reads env0 \<longrightarrow> day_file (cdr_path env s) env0 (s\<lparr>cd_files := fs\<rparr>) rs) \<and>
      sums rs = (cd_calls s + int (length sent) + (case k of Some t \<Rightarrow> 1 | None \<Rightarrow> 0), cd_tenths s + sum_list sent + (case k of Some t \<Rightarrow> t | None \<Rightarrow> 0)))"
proof -
  obtain rs where rs: "\<And>env0. atof_reads env0 \<Longrightarrow> day_file (cdr_path env s) env0 s rs" "fst (sums rs) = cd_calls s + int (length sent)" "snd (sums rs) = cd_tenths s + sum_list sent"
    and y: "cd_day s = y" using assms(1) unfolding day_ok_def by blast
  have y': "ce_yday env = cd_day s" using assms(2) y by simp
  have a: "cdr_append env l s1 = s\<lparr>cd_files := cd_files (cdr_append env l s1)\<rparr>"
    unfolding cdr_append_def Let_def open_daily_same_day(2)[OF y' assms(3)] by simp
  have "day_file (cdr_path env s) env0 (s\<lparr>cd_files := cd_files (cdr_append env l s1)\<rparr>) (rs @ [(l, k)])" if "atof_reads env0" for env0
    using append_line_file(1)[OF rs(1)[OF that] y' assms(3,4) assms(5)[rule_format, OF that]] a by (metis day_file_def a)
  moreover have "s1 = s\<lparr>cd_files := cd_files s1\<rparr>" unfolding open_daily_same_day(2)[OF y' assms(3)] by simp
  moreover have "sums (rs @ [(l, k)]) = (cd_calls s + int (length sent) + (case k of Some t \<Rightarrow> 1 | None \<Rightarrow> 0), cd_tenths s + sum_list sent + (case k of Some t \<Rightarrow> t | None \<Rightarrow> 0))"
    using rs(2,3) by (cases k) (simp_all add: cdr_sums_append)
  ultimately show ?thesis using a by (intro exI[of _ "cd_files (cdr_append env l s1)"]) blast
qed

lemma stamp_parts: "show_int n @ '','' @ d @ '','' @ tm @ '','' @ r = show_int n @ CHR '','' # d @ CHR '','' # tm @ CHR '','' # r"
  by simp

lemma call_line_adds:
  assumes "\<not> csv_needs_quote (ce_date env)" "\<not> csv_needs_quote (ce_time env)" "\<not> csv_needs_quote (cd_user_name s)" "cd_user_name s \<noteq> ''system''" "\<not> csv_needs_quote (cd_method s)"
  shows "\<forall>env0. atof_reads env0 \<longrightarrow> line_adds env0 (call_line env s) (Some ((ce_now env - cd_start s) * 10))"
proof (intro allI impI)
  fix env0 assume at: "atof_reads env0"
  let ?n = "if cd_user_name s = [] then ''unknown'' else cd_user_name s" and ?m = "method_str (cd_method s)"
  have u: "\<not> csv_needs_quote ''unknown''" by (simp add: csv_needs_quote_def)
  have n: "\<not> csv_needs_quote ?n" "\<not> csv_needs_quote ?m" "?n \<noteq> ''system''" using assms(3-5) u by (simp_all add: method_str_def)
  obtain rest where e: "call_line env s = show_int (ce_now env) @ CHR '','' # ce_date env @ CHR '','' # ce_time env @ CHR '','' # show_int (cd_user_id s) @ CHR '','' #
      ?n @ CHR '','' # ?m @ CHR '','' # show_tenths ((ce_now env - cd_start s) * 10) @ CHR '','' # rest"
    using plain_field[OF n(1)] plain_field[OF n(2)] by (simp add: call_line_def cdr_stamp_def Let_def)
  show "line_adds env0 (call_line env s) (Some ((ce_now env - cd_start s) * 10))" unfolding e by (rule timed_line_adds) (use assms(1,2) at n show_int_plain in auto)
qed

lemma tx_line_adds:
  assumes "\<not> csv_needs_quote (ce_date env)" "\<not> csv_needs_quote (ce_time env)"
  shows "\<forall>env0. atof_reads env0 \<longrightarrow> line_adds env0 (tx_line env p t) (Some t)"
proof (intro allI impI)
  fix env0 assume at: "atof_reads env0"
  have l: "\<not> csv_needs_quote ''0''" "\<not> csv_needs_quote ''transmit''" "\<not> csv_needs_quote ''TX''" by (simp_all add: csv_needs_quote_def)
  obtain rest where e: "tx_line env p t = show_int (ce_now env) @ CHR '','' # ce_date env @ CHR '','' # ce_time env @ CHR '','' # ''0'' @ CHR '','' #
      ''transmit'' @ CHR '','' # ''TX'' @ CHR '','' # show_tenths t @ CHR '','' # rest"
    by (simp add: tx_line_def cdr_stamp_def)
  show "line_adds env0 (tx_line env p t) (Some t)" unfolding e by (rule timed_line_adds) (use assms at l show_int_plain in auto)
qed

lemma announcement_line_adds:
  assumes "\<not> csv_needs_quote (ce_date env)" "\<not> csv_needs_quote (ce_time env)"
  shows "\<forall>env0. atof_reads env0 \<longrightarrow> line_adds env0 (announcement_line env source descr) None"
proof (intro allI impI)
  fix env0
  have l: "\<not> csv_needs_quote ''0''" by (simp add: csv_needs_quote_def)
  obtain rest where e: "announcement_line env source descr = show_int (ce_now env) @ CHR '','' # ce_date env @ CHR '','' # ce_time env @ CHR '','' # ''0'' @ CHR '','' #
      ''system'' @ CHR '','' # rest"
    by (simp add: announcement_line_def cdr_stamp_def)
  show "line_adds env0 (announcement_line env source descr) None" unfolding e by (rule note_line_adds) (use assms l show_int_plain in auto)
qed

lemma day_ok_quiet:
  assumes "day_ok path y sent s" "cd_files s' = cd_files s" "cd_calls s' = cd_calls s" "cd_tenths s' = cd_tenths s" "cd_day s' = cd_day s" "\<not> csv_needs_quote (cd_method s')"
  shows "day_ok path y sent s'"
  using assms by (simp add: day_ok_def day_file_def)

lemma day_ok_file:
  assumes "\<And>env0. atof_reads env0 \<Longrightarrow> day_file path env0 (s\<lparr>cd_files := fs\<rparr>) rs" "sums rs = (c, t)" "cd_files s' = fs" "cd_day s' = y" "\<not> csv_needs_quote (cd_method s')"
    "c = cd_calls s' + int (length sent)" "t = cd_tenths s' + sum_list sent"
  shows "day_ok path y sent s'"
proof -
  have "day_file path env0 s' rs" if "atof_reads env0" for env0 using assms(1)[OF that] assms(3) by (simp add: day_file_def)
  then show ?thesis using assms(2,4-7) unfolding day_ok_def by (intro conjI exI[of _ rs]) simp_all
qed

definition step_sends :: "cdr \<Rightarrow> cdr_env \<Rightarrow> cdr_in \<Rightarrow> int list" where
  "step_sends s env i = (case i of Ci_recording (Some dir) (Some p) tenths \<Rightarrow> if dir = ''TX'' \<and> cd_enabled s \<and> ce_open env then [tenths] else [] | _ \<Rightarrow> [])"

lemma method_plain: "\<not> csv_needs_quote (cdr_method_name m)" "\<not> csv_needs_quote []"
  by (simp_all add: cdr_method_name_def csv_needs_quote_def)

lemma day_drop:
  assumes "day_ok (cdr_path env s) y sent s" "day_step d y s (env, Ci_cor_drop)" "cd_enabled s" "cd_in_call s" "fst (cdr_cor_drop env s) = s'"
  shows "day_ok (cdr_path env s) y sent s' \<and> cd_dir s' = cd_dir s"
proof -
  have h: "ce_yday env = y" "\<not> csv_needs_quote (ce_date env)" "\<not> csv_needs_quote (ce_time env)" "tidy_line (call_line env s)"
    "\<not> csv_needs_quote (cd_user_name s)" "cd_user_name s \<noteq> ''system''" using assms(2) by auto
  have ok: "cd_day s = y" "\<not> csv_needs_quote (cd_method s)" using assms(1) by (simp_all add: day_ok_def)
  have s': "s' = (write_cdr env s)\<lparr>cd_in_call := False, cd_user_id := 0, cd_user_name := [], cd_method := []\<rparr>"
    using assms(3-5) by (auto simp: cdr_cor_drop_def Let_def)
  obtain s1 b where o1: "open_daily_csv env s = (s1, b)" by fastforce
  note o2 = open_daily_same_day[OF _ o1, unfolded h(1) ok(1), OF refl]
  show ?thesis
  proof (cases b)
    case False
    then have "write_cdr env s = s" using o1 o2 assms(4) by (simp add: write_cdr_def)
    then show ?thesis using s' method_plain(2) by (intro conjI day_ok_quiet[OF assms(1)]) simp_all
  next
    case True
    let ?t = "(ce_now env - cd_start s) * 10"
    have o1': "open_daily_csv env s = (s1, True)" using o1 True by simp
    obtain fs rs where a: "cdr_append env (call_line env s) s1 = s\<lparr>cd_files := fs\<rparr>" "s1 = s\<lparr>cd_files := cd_files s1\<rparr>"
      "\<And>env0. atof_reads env0 \<Longrightarrow> day_file (cdr_path env s) env0 (s\<lparr>cd_files := fs\<rparr>) rs" "sums rs = (cd_calls s + int (length sent) + 1, cd_tenths s + sum_list sent + ?t)"
      using day_append[OF assms(1) h(1) o1' h(4) call_line_adds[OF h(2,3,5,6) ok(2)]] by auto
    have c: "cd_calls s1 = cd_calls s" "cd_tenths s1 = cd_tenths s" using arg_cong[OF a(2), of cd_calls] arg_cong[OF a(2), of cd_tenths] by simp_all
    have "write_cdr env s = s\<lparr>cd_files := fs, cd_calls := cd_calls s + 1, cd_tenths := cd_tenths s + ?t\<rparr>"
      using o1 True a(1) c assms(4) by (simp add: write_cdr_def)
    then have "s' = s\<lparr>cd_files := fs, cd_calls := cd_calls s + 1, cd_tenths := cd_tenths s + ?t, cd_in_call := False, cd_user_id := 0, cd_user_name := [], cd_method := []\<rparr>"
      using s' by simp
    then show ?thesis using ok(1) method_plain(2) by (intro conjI day_ok_file[OF a(3,4)]) simp_all
  qed
qed

lemma day_line:
  assumes "day_ok (cdr_path env s) y sent s" "ce_yday env = y" "tidy_line l" "\<forall>env0. atof_reads env0 \<longrightarrow> line_adds env0 l k" "open_daily_csv env s = (s1, b)"
  shows "day_ok (cdr_path env s) y (sent @ (if b then (case k of Some t \<Rightarrow> [t] | None \<Rightarrow> []) else [])) (if b then cdr_append env l s1 else s1)"
    "cd_dir (if b then cdr_append env l s1 else s1) = cd_dir s" "b = ce_open env"
proof -
  have ok: "cd_day s = y" "\<not> csv_needs_quote (cd_method s)" using assms(1) by (simp_all add: day_ok_def)
  note o2 = open_daily_same_day[OF _ assms(5), unfolded assms(2) ok(1), OF refl]
  show "b = ce_open env" by (rule o2(1))
  have "day_ok (cdr_path env s) y (sent @ (if b then (case k of Some t \<Rightarrow> [t] | None \<Rightarrow> []) else [])) (if b then cdr_append env l s1 else s1) \<and>
    cd_dir (if b then cdr_append env l s1 else s1) = cd_dir s"
  proof (cases b)
    case False
    with o2 assms(1) show ?thesis by simp
  next
    case True
    have o1': "open_daily_csv env s = (s1, True)" using assms(5) True by simp
    obtain fs rs where a: "cdr_append env l s1 = s\<lparr>cd_files := fs\<rparr>" "\<And>env0. atof_reads env0 \<Longrightarrow> day_file (cdr_path env s) env0 (s\<lparr>cd_files := fs\<rparr>) rs"
      "sums rs = (cd_calls s + int (length sent) + (case k of Some t \<Rightarrow> 1 | None \<Rightarrow> 0), cd_tenths s + sum_list sent + (case k of Some t \<Rightarrow> t | None \<Rightarrow> 0))"
      using day_append[OF assms(1,2) o1' assms(3,4)] by auto
    have "day_ok (cdr_path env s) y (sent @ (case k of Some t \<Rightarrow> [t] | None \<Rightarrow> [])) (s\<lparr>cd_files := fs\<rparr>)"
      by (rule day_ok_file[OF a(2,3)]) (use ok in \<open>simp_all split: option.split\<close>)
    with True a(1) show ?thesis by simp
  qed
  then show "day_ok (cdr_path env s) y (sent @ (if b then (case k of Some t \<Rightarrow> [t] | None \<Rightarrow> []) else [])) (if b then cdr_append env l s1 else s1)"
    "cd_dir (if b then cdr_append env l s1 else s1) = cd_dir s" by blast+
qed

lemma day_step_ok:
  assumes "day_ok (cdr_path env s) y sent s" "day_step d y s (env, i)" "fst (cdr_step env s i) = s'"
  shows "day_ok (cdr_path env s) y (sent @ step_sends s env i) s' \<and> cd_dir s' = cd_dir s"
proof -
  have h: "ce_yday env = y" "\<not> csv_needs_quote (ce_date env)" "\<not> csv_needs_quote (ce_time env)" using assms(2) by auto
  have m: "\<not> csv_needs_quote (cd_method s)" using assms(1) by (simp add: day_ok_def)
  have same: "day_ok (cdr_path env s) y (sent @ []) s \<and> cd_dir s = cd_dir s" using assms(1) by simp
  obtain s1 b where o1: "open_daily_csv env s = (s1, b)" by fastforce
  show ?thesis
  proof (cases i)
    case Ci_cor_assert
    have "s' = (if cd_enabled s then s\<lparr>cd_in_call := True, cd_start := ce_now env, cd_recording := [], cd_emergency := ce_emergency env,
        cd_sq_sum := 0, cd_sq_count := 0, cd_peak_rms := 0\<rparr> else s)"
      using assms(3) Ci_cor_assert by (simp add: cdr_cor_assert_def Let_def split: if_splits)
    then show ?thesis unfolding step_sends_def Ci_cor_assert using m by (simp only: cdr_in.case append_Nil2) (intro conjI day_ok_quiet[OF assms(1)], simp_all)
  next
    case Ci_cor_drop
    show ?thesis
    proof (cases "cd_enabled s \<and> cd_in_call s")
      case True
      then have "day_ok (cdr_path env s) y sent s' \<and> cd_dir s' = cd_dir s"
        using assms(2,3) Ci_cor_drop by (intro day_drop[OF assms(1), of d]) simp_all
      then show ?thesis by (simp add: step_sends_def Ci_cor_drop)
    next
      case False
      then have "s' = s" using assms(3) Ci_cor_drop by (auto simp: cdr_cor_drop_def)
      with same show ?thesis by (simp add: step_sends_def Ci_cor_drop)
    qed
  next
    case (Ci_identified uid how)
    have "s' = (if cd_in_call s then s\<lparr>cd_user_id := uid, cd_user_name := (case user_lookup_by_id (ce_db env) uid of Some u \<Rightarrow> c_trunc 32 (u_name u) | None \<Rightarrow> cd_user_name s),
        cd_method := cdr_method_name how\<rparr> else s)"
      using assms(3) Ci_identified by (simp add: cdr_caller_identified_def Let_def split: if_splits)
    then show ?thesis unfolding step_sends_def Ci_identified using m method_plain(1)
      by (simp only: cdr_in.case append_Nil2) (intro conjI day_ok_quiet[OF assms(1)], simp_all)
  next
    case (Ci_frame x)
    then have "s' = sq_audio_tap x s" using assms(3) by simp
    then have "cd_files s' = cd_files s \<and> cd_calls s' = cd_calls s \<and> cd_tenths s' = cd_tenths s \<and> cd_day s' = cd_day s \<and> cd_method s' = cd_method s \<and> cd_dir s' = cd_dir s"
      by (simp add: sq_audio_tap_def Let_def split: option.split)
    then show ?thesis unfolding step_sends_def Ci_frame using m by (simp only: cdr_in.case append_Nil2) (intro conjI day_ok_quiet[OF assms(1)], simp_all)
  next
    case (Ci_announcement source descr)
    have t: "tidy_line (announcement_line env source descr)" using assms(2) Ci_announcement by simp
    have "s' = (if cd_enabled s then if b then cdr_append env (announcement_line env source descr) s1 else s1 else s)"
      using assms(3) Ci_announcement o1 by (cases b) (auto simp: cdr_announcement_def Let_def)
    with day_line[OF assms(1) h(1) t announcement_line_adds[OF h(2,3)] o1] same show ?thesis
      by (cases "cd_enabled s"; cases b) (simp_all add: step_sends_def Ci_announcement)
  next
    case (Ci_recording dir p tenths)
    have t: "tidy_line (tx_line env p tenths)" using assms(2) Ci_recording by simp
    note l = day_line[OF assms(1) h(1) t tx_line_adds[OF h(2,3)] o1]
    show ?thesis
    proof (cases "dir = None \<or> p = None")
      case True
      then have "s' = s" "step_sends s env i = []" using assms(3) Ci_recording by (auto simp: cdr_recording_saved_def step_sends_def split: option.split)
      with same show ?thesis by simp
    next
      case False
      then obtain x q where xq: "dir = Some x" "p = Some q" by auto
      consider "x = ''RX''" | "x = ''TX''" | "x \<noteq> ''RX''" "x \<noteq> ''TX''" by blast
      then show ?thesis
      proof cases
        case 1
        then have "s' = (if cd_in_call s then s\<lparr>cd_recording := c_trunc 512 q\<rparr> else s)" "step_sends s env i = []"
          using assms(3) Ci_recording xq by (simp_all add: cdr_recording_saved_def step_sends_def)
        then show ?thesis using m by (simp only: append_Nil2) (intro conjI day_ok_quiet[OF assms(1)], simp_all)
      next
        case 2
        then have "s' = (if cd_enabled s then if b then cdr_append env (tx_line env p tenths) s1 else s1 else s)"
          using assms(3) Ci_recording xq o1 by (cases b) (auto simp: cdr_recording_saved_def write_tx_cdr_def Let_def)
        moreover have "step_sends s env i = (if cd_enabled s \<and> b then [tenths] else [])" using 2 Ci_recording xq l(3) by (simp add: step_sends_def)
        ultimately show ?thesis using l(1,2) same by (cases "cd_enabled s"; cases b) simp_all
      next
        case 3
        then have "s' = s" "step_sends s env i = []" using assms(3) Ci_recording xq by (simp_all add: cdr_recording_saved_def step_sends_def)
        with same show ?thesis by simp
      qed
    qed
  next
    case (Ci_configure cfg)
    with assms(2) show ?thesis by simp
  qed
qed

lemma cdr_path_dir: "cd_dir s' = cd_dir s \<Longrightarrow> cdr_path env s' = cdr_path env s"
  by (simp add: cdr_path_def)

lemma cdr_path_date: "ce_date env = ce_date env' \<Longrightarrow> cdr_path env s = cdr_path env' s"
  by (simp add: cdr_path_def)

lemma cdr_sent_step: "cdr_sent s ((env, i) # xs) = step_sends s env i @ cdr_sent (fst (cdr_step env s i)) xs"
  by (simp add: step_sends_def)

lemma cdr_day_run:
  assumes "day_ok (cdr_path env s) y sent s" "ce_date env = d" "cdr_day d y s xs"
  shows "day_ok (cdr_path env s) y (sent @ cdr_sent s xs) (cdr_run s xs) \<and> cd_dir (cdr_run s xs) = cd_dir s"
  using assms
proof (induction xs arbitrary: s sent)
  case (Cons x xs)
  obtain e i where x: "x = (e, i)" by (cases x)
  let ?s = "fst (cdr_step e s i)"
  have st: "day_step d y s (e, i)" "cdr_day d y ?s xs" using Cons.prems(3) x by simp_all
  have p: "cdr_path env s = cdr_path e s" using st(1) Cons.prems(2) by (intro cdr_path_date) simp
  from day_step_ok[OF Cons.prems(1)[unfolded p] st(1) refl] have
    1: "day_ok (cdr_path e s) y (sent @ step_sends s e i) ?s" "cd_dir ?s = cd_dir s" by blast+
  have "day_ok (cdr_path env ?s) y (sent @ step_sends s e i) ?s" using 1(1) unfolding cdr_path_dir[OF 1(2)] p .
  from Cons.IH[OF this Cons.prems(2) st(2)] 1(2) show ?case
    unfolding x cdr_sent_step cdr_path_dir[OF 1(2)] by simp
qed simp

text \<open>
  C40. What a restart makes of the counters of a plain day: reading the file back gives the calls and seconds counted so
  far, plus one call and the duration for every recording of what was sent, which the running counters leave out; so
  the counters survive a restart exactly when nothing sent was recorded. A plain day is one of any events in
  any order in which the file of the day is new and the clock keeps its date, the module is not configured again,
  every line written is shorter than the 2048 bytes of the reader and has no line feed before its end, and the name of the
  caller at the end of each call has no comma, quote, CR or LF and is not \<open>system\<close>. \<open>atof\<close> is assumed to
  read back a number printed with one decimal; durations are sums of tenths, without rounding.
\<close>
theorem cdr_replay_counts:
  assumes "cdr_day d y s xs" "cd_files s (cdr_path env s) = None" "cd_calls s = 0" "cd_tenths s = 0" "cd_day s = y" "cd_method s = []"
    and "ce_date env = d" "ce_yday env = y" "atof_reads env" "cd_files (cdr_run s xs) (cdr_path env s) \<noteq> None"
  shows "let s' = cdr_run s xs; r = replay_today_from_csv env s' in
    cd_calls r = cd_calls s' + int (length (cdr_sent s xs)) \<and> cd_tenths r = cd_tenths s' + sum_list (cdr_sent s xs)"
proof -
  let ?s = "cdr_run s xs" and ?p = "cdr_path env s"
  have "day_ok ?p y [] s"
    unfolding day_ok_def by (intro conjI exI[of _ "[]"]) (use assms(2-6) method_plain(2) in \<open>simp_all add: day_file_def\<close>)
  from cdr_day_run[OF this assms(7,1)] have ok: "day_ok ?p y (cdr_sent s xs) ?s" and dir: "cd_dir ?s = cd_dir s" by simp_all
  note p = cdr_path_dir[OF dir, of env]
  from ok obtain rs where rs: "day_file ?p env ?s rs" "fst (sums rs) = cd_calls ?s + int (length (cdr_sent s xs))" "snd (sums rs) = cd_tenths ?s + sum_list (cdr_sent s xs)"
    and y: "cd_day ?s = y" using assms(9) unfolding day_ok_def by blast
  have "cd_day ?s = ce_yday env" using y assms(8) by simp
  note r = day_file_replay[OF rs(1)[folded p] this]
  from r p rs(2,3) assms(10) show ?thesis by (simp add: Let_def)
qed

subsection \<open>A small instance\<close>

text \<open>The duration of a text up to its first comma, in tenths, as a reader of decimal numbers gives it.\<close>

definition demo_atof :: "string \<Rightarrow> int" where
  "demo_atof s =
     (let neg = (s \<noteq> [] \<and> hd s = CHR ''-''); t = (if neg then tl s else s); w = takeWhile is_digit t; f = takeWhile is_digit (drop 1 (dropWhile is_digit t));
          v = dec_val w * 10 + dec_val f in if neg then - v else v)"

lemma demo_atof_reads: "demo_atof (show_tenths n @ CHR '','' # r) = n"
proof -
  obtain a where a: "\<bar>n\<bar> div 10 = int a" using nonneg_int_cases[of "\<bar>n\<bar> div 10"] by (auto simp: pos_imp_zdiv_nonneg_iff)
  obtain b where b: "\<bar>n\<bar> mod 10 = int b" using nonneg_int_cases[of "\<bar>n\<bar> mod 10"] by auto
  have s: "show_tenths n = (if n < 0 then ''-'' else []) @ show_nat a @ ''.'' @ show_nat b" unfolding show_tenths_def a b by (simp add: show_int_def)
  have dot: "\<not> is_digit CHR ''.''" "\<not> is_digit CHR '',''" by (simp_all add: is_digit_def ascii_def)
  have w: "takeWhile is_digit (show_nat k @ CHR ''.'' # x) = show_nat k" "dropWhile is_digit (show_nat k @ CHR ''.'' # x) = CHR ''.'' # x"
    "takeWhile is_digit (show_nat k @ CHR '','' # x) = show_nat k" for k x
    using show_nat_digits dot by (simp_all add: takeWhile_append2 dropWhile_append2)
  have m: "hd (show_nat k @ x) \<noteq> CHR ''-''" "show_nat k \<noteq> []" for k x
    using show_nat_digits[of k] show_nat_not_Nil[of k] digit_not_sign by (cases "show_nat k"; auto)+
  have v: "int a * 10 + int b = \<bar>n\<bar>" unfolding a[symmetric] b[symmetric] by simp
  show ?thesis
  proof (cases "n < 0")
    case True
    then show ?thesis using v by (simp add: demo_atof_def s w show_nat_val Let_def)
  next
    case False
    then show ?thesis using v m(1)[of a] m(2)[of a] by (simp add: demo_atof_def s w show_nat_val Let_def)
  qed
qed

definition cdr_demo_env :: cdr_env where
  "cdr_demo_env = \<lparr>ce_now = 5, ce_yday = 1, ce_date = ''2024-01-02'', ce_time = ''00:00:05'', ce_emergency = 0, ce_open = True, ce_sse = False,
     ce_db = \<lparr>db_users = [], db_groups = []\<rparr>, ce_atof = demo_atof, ce_fmt0 = show_int\<rparr>"

lemma cdr_demo_atof: "atof_reads cdr_demo_env"
  by (simp add: atof_reads_def cdr_demo_env_def demo_atof_reads)

definition cdr_demo :: cdr where
  "cdr_demo = (cdr_boot (\<lambda>_. None))\<lparr>cd_day := 1\<rparr>"

definition cdr_demo_run :: "(cdr_env \<times> cdr_in) list" where
  "cdr_demo_run = [(cdr_demo_env, Ci_cor_assert), (cdr_demo_env, Ci_cor_drop), (cdr_demo_env, Ci_recording (Some ''TX'') (Some ''a.wav'') 20)]"

lemma tidy_code: "tidy_line l \<longleftrightarrow> length l < CDR_LINE \<and> l \<noteq> [] \<and> last l = CHR 0x0A \<and> CHR 0x0A \<notin> set (butlast l)"
  unfolding tidy_line_def by (metis append_butlast_last_id append_is_Nil_conv butlast_snoc last_snoc not_Cons_self2)

theorem cdr_line_roundtrip_witness:
  "csv_read_record (announcement_line cdr_demo_env (Some ''weather'') (Some [CHR 0x0D, CHR 0x22, CHR '','', CHR 0x0A]) @ ''next'') =
     Some ([show_int 5, ''2024-01-02'', ''00:00:05'', ''0'', ''system'', ''weather'', ''0.0'', ''0'', ''0'', ''0'', [CHR 0x0D, CHR 0x22, CHR '','', CHR 0x0A]], ''next'')"
proof -
  have "\<not> csv_needs_quote (ce_date cdr_demo_env)" "\<not> csv_needs_quote (ce_time cdr_demo_env)" by (simp_all add: cdr_demo_env_def csv_needs_quote_def)
  from cdr_line_roundtrip[OF this, of cdr_demo "''next''" "''weather''" "[CHR 0x0D, CHR 0x22, CHR '','', CHR 0x0A]" "[]" 0] show ?thesis by (simp add: cdr_demo_env_def)
qed

theorem cdr_replay_counts_witness:
  "let s' = cdr_run cdr_demo cdr_demo_run; r = replay_today_from_csv cdr_demo_env s' in cd_calls r = cd_calls s' + 1 \<and> cd_tenths r = cd_tenths s' + 20"
proof -
  define s1 where "s1 = fst (cdr_step cdr_demo_env cdr_demo Ci_cor_assert)"
  define s2 where "s2 = fst (cdr_step cdr_demo_env s1 Ci_cor_drop)"
  have s1: "s1 = cdr_demo\<lparr>cd_in_call := True, cd_start := 5\<rparr>"
    by (simp add: s1_def cdr_cor_assert_def cdr_demo_def cdr_boot_def cdr_demo_env_def Let_def)
  have tidy: "tidy_line (call_line cdr_demo_env s1)" "tidy_line (tx_line cdr_demo_env (Some ''a.wav'') 20)"
    unfolding tidy_code s1 by code_simp+
  have d: "cdr_day ''2024-01-02'' 1 cdr_demo cdr_demo_run"
    unfolding cdr_demo_run_def cdr_day.simps fst_conv snd_conv s1_def[symmetric] s2_def[symmetric] day_step.simps
    using tidy cdr_demo_atof by (simp add: s1 cdr_demo_def cdr_boot_def cdr_demo_env_def csv_needs_quote_def)
  have e2: "cd_enabled s2" "ce_open cdr_demo_env"
    by (simp_all add: s2_def s1 cdr_cor_drop_def write_cdr_def open_daily_csv_def cdr_append_def cdr_demo_def cdr_boot_def cdr_demo_env_def Let_def)
  have sent: "cdr_sent cdr_demo cdr_demo_run = [20]"
    unfolding cdr_demo_run_def cdr_sent_step s1_def[symmetric] s2_def[symmetric] using e2 by (simp add: step_sends_def)
  have f: "cd_files (cdr_run cdr_demo cdr_demo_run) (cdr_path cdr_demo_env cdr_demo) \<noteq> None"
    unfolding cdr_demo_run_def cdr_run.simps fst_conv snd_conv s1_def[symmetric] s2_def[symmetric]
    by (simp add: s2_def s1 cdr_cor_drop_def write_cdr_def open_daily_csv_def cdr_append_def cdr_demo_def cdr_boot_def cdr_demo_env_def Let_def cdr_recording_saved_def write_tx_cdr_def cdr_path_def)
  have h: "cd_files cdr_demo (cdr_path cdr_demo_env cdr_demo) = None" "cd_calls cdr_demo = 0" "cd_tenths cdr_demo = 0" "cd_day cdr_demo = 1" "cd_method cdr_demo = []"
    "ce_date cdr_demo_env = ''2024-01-02''" "ce_yday cdr_demo_env = 1" by (simp_all add: cdr_demo_def cdr_boot_def cdr_demo_env_def)
  from cdr_replay_counts[OF d h cdr_demo_atof f] show ?thesis unfolding sent by (simp add: Let_def)
qed

text \<open>
  A caller identified before the carrier was declared (the comment of the code has this order for login sessions) is not
  taken over: the call is written down for nobody.
\<close>

lemma cdr_early_identification:
  assumes "\<not> cd_in_call s" "cd_user_name s = []" "cd_enabled s"
  shows "cd_user_name (fst (cdr_cor_assert env (fst (cdr_caller_identified env uid how s)))) = []"
  using assms by (simp add: cdr_caller_identified_def cdr_cor_assert_def Let_def)

end
