(* ===== verification/Spec2Isabelle.thy ===== *)
theory Spec2Isabelle
  imports Tx_Activity Tx_State Tx_Props Rx_Props Thread_Ring Core_Api Event_Bus Repeater_Props Config_Props Config_Duration Audio_Ring_Props Sched User Dtmf_Cmd Emergency Caller Resp Evt_Json Module_Loader Courtesy Station Ini_Edit Link_Talkgroup Otp_Core Otp_Guard Sha1_Standard Cwid_Queue Voicemail_Props Flex_Props Cdr_Props
begin

text \<open>
  Kerchunk is a repeater controller: a radio hears one frequency and a transmitter repeats it on another. This
  development models its daemon (\<open>src/main.c\<close> with the core files under \<open>src/src/\<close>), the service
  modules it loads (\<open>src/modules/mod_*.c\<close>) and the reflector that links such stations
  (\<open>src/src/reflectd/\<close>).

  How the program works. An audio thread ticks every 20 ms: it takes samples from a ring that the sound card
  fills, decides whether somebody transmits, drains the queue of audio to send into a second ring, and asks for PTT
  while there is something on the air. The main thread reads the carrier (COR), fires timers and wall-clock
  schedules, and fires events on a bus. Modules subscribe to events: the repeater state machine keys the transmitter
  while somebody talks and for a tail after it; the DTMF router turns digits into commands; others identify callers,
  play tones, identify the station, record messages, page or link to a reflector. Modules act through the core: they
  queue audio, request PTT, create timers and threads. The reflector admits stations by a challenge, keeps their
  talkgroup and passes the audio of the one that holds the floor to the others.

  Theories and what they model. A record of a theory holds the file-scope variables of the file it names, and a
  definition has the name of its C function or of the stage of it that it translates; \<open>_Props\<close> theories
  hold the lemmas.

  Shared.
  \<^item> Prelude, C_Strings: C integers, truncation by \<open>snprintf\<close>, slot tables, runs of step functions,
    \<open>atoi\<close> and the output of \<open>%d\<close>.
  \<^item> Hex, Totp, Sha1_Standard: hexadecimal text; SHA-1, HMAC, base 32 and time-based codes
    (\<open>mod_otp.c\<close>); SHA-1 against its standard, written down by itself.

  Audio path.
  \<^item> Tx_Activity, Tx_State: the carrier and DTMF detector and the transmit label (\<open>kerchunk_txactivity.c\<close>,
    \<open>kerchunk_tx_state.c\<close>).
  \<^item> Audio_Tick, Audio_Tick_Props, Tx_Props, Rx_Props: the two halves of the tick
    (\<open>kerchunk_audio_tick.c\<close>): PTT requests balance, the release comes in bounded time, the transmit delay
    precedes the audio.
  \<^item> Audio_Queue, Queue_Props: the queue (\<open>kerchunk_queue.c\<close>) refines a list of frames, in the order
    of priorities. Frame_Source is its interface to the thread.
  \<^item> Audio_Ring, Audio_Ring_Props: the lock-free ring (\<open>kerchunk_audio_ring.c\<close>) on words of the
    machine; no sample is lost or invented in any interleaving of its two ends.
  \<^item> Audio_Thread: the transmit part of the thread of \<open>main.c\<close> over queue and tick: a queued
    transmission is keyed, played in order and unkeyed. Thread_Ring: the thread on the playback ring with the reads of the
    sound card: nothing is lost while every pass finds room for a frame and the delay.

  Core.
  \<^item> Timer, Timer_Repeat, Sched, Threads: the tables of timers, schedules and threads
    (\<open>kerchunk_timer.c\<close>, \<open>kerchunk_sched.c\<close>, \<open>kerchunk_threads.c\<close>). The locales
    \<open>timer_service\<close> and \<open>repeating_timers\<close> state what modules rely on.
  \<^item> Event_Bus, Evt_Json: subscriptions and dispatch (\<open>kerchunk_events.c\<close>), events as JSON text.
  \<^item> Core_Api: the reference-counted PTT, the carrier state and the audio taps (\<open>kerchunk_core.c\<close>).
  \<^item> Config, Config_Props, Config_Duration, Ini_Edit: the INI configuration, its round trip through a file,
    durations, and edits in place (\<open>kerchunk_config.c\<close>, \<open>kerchunk_ini_edit.c\<close>).
  \<^item> User: users and groups from the configuration (\<open>kerchunk_user.c\<close>). Resp: answers of the control
    interface (\<open>kerchunk_resp.c\<close>). Module_Loader: the registry of modules (\<open>kerchunk_modules.c\<close>).

  Modules.
  \<^item> Repeater, Repeater_Lemmas, Repeater_Props: the state machine of \<open>mod_repeater.c\<close>: PTT matches the
    state, a session ends, a closed repeater needs an identified caller.
  \<^item> Dtmf_Cmd, Caller, Courtesy, Emergency: commands, identification, courtesy tone and emergency mode. Station
    puts repeater, caller and courtesy tone on one bus, in the order of loading.
  \<^item> Otp, Otp_Props, Otp_Core, Otp_Guard: elevated access by codes: sessions, their slots in the core, no replay,
    a bound on guessing.
  \<^item> Cwid, Cwid_Props, Cwid_Queue: identification of the station: a deferred one is sent later, unless its preemption
    is reported under another source, and a conversation ends with one.
  \<^item> Cdr, Cdr_Props: the records of calls as CSV lines, read back field by field, and the counters of the day.
  \<^item> Voicemail, Voicemail_Props: recordings become messages, and only a delete command removes them, from the mailbox of the
    last identified caller. Parrot:
    a transmission is played back with its level. Flex, Flex_Props: pages answered "scheduled" are accounted for, and when they are sent.

  Links.
  \<^item> Refl_Config, Reflector, Reflector_Props, Reflector_Floor, Reflector_Access: the event loop of the reflector
    with its configuration: the floor has one holder, who is heard, who gets in.
  \<^item> Link_Client, Link_Jitter, Link_Ring, Link_Props: the link module (\<open>mod_link.c\<close>): websocket states,
    jitter buffer, ring to the audio thread; PTT and events come in pairs.
  \<^item> Link_System, Link_Talkgroup: both ends together: they agree on the master key of the session and on the talkgroup.

  Bounds and fuel. Loops that may run for ever have fuel or a bound that is a theorem: a pass of the audio thread has
  at most eight actions and drains at most one frame; a tick of the jitter buffer plays at most 10 frames; a drain of the
  link ring ends after at most 66 frames, whatever the positions of the ring; parsers recurse on their text. No theorem says
  only what holds if a loop returns: functions are total, and where the code can end the program (a division by zero in
  Parrot, an unterminated response in Resp) the value is None.

  Assumptions.
  \<^item> Operations of one module are atomic with respect to each other, as they run on the main thread or under
    their mutex; the exceptions are modelled step by step: the audio ring, the audio thread and the worker of Flex.
    The atomics of the rings are taken as sequentially consistent.
  \<^item> Handlers that an event fires inside a module do not call back into it, and events of a handler are fired
    after its operation. In Station each module has a timer table of its own.
  \<^item> Times are unbounded numbers, timer and thread ids do not overflow; an \<open>int\<close> wraps where the code
    relies on it. Success of memory, files and threads is a flag of the environment.
  \<^item> Parameters: the DTMF decoder, the resampler, OPUS, SRTP and the message digest of the link, random numbers,
    the Morse, FLEX and sunrise services, conversions of floating-point numbers to text, and the dynamic linker.
  \<^item> The messages between link and reflector are records of the fields that the two sides read, not their JSON
    text; clocks are read once per call.

  Not modelled, and why. The web server (mongoose), Zello, push-to-talk, telephone, weather, AI and speech modules are
  clients of services over the network whose behaviour is outside the repository; SDR, scrambler and the tone decoders
  compute in floating point; sockets, console, logs, the device drivers and the command line client are input and
  output; recorder, statistics, POCSAG, APRS, tones, time, GPIO, webhooks and logger write down or
  announce what the events say. Of \<open>main.c\<close> the transmit part of the audio thread is modelled and the rest
  is set-up; of the reflector its recordings and its probe are left out. The manifest lists these components one by one.

  What the code does not mean to do is stated as a lemma beside the component, with the line it is about in the
  manifest: for example \<open>drain_without_room\<close>, \<open>cwid_id_lost\<close>, \<open>voicemail_redirected\<close>,
  \<open>flex_queue_stuck\<close>, \<open>flex_second_worker\<close>, \<open>flex_worker_race\<close>, \<open>threads_slots_used_up\<close>, \<open>solar_quiet_early\<close>.
\<close>

end
